(* ===== verification/GC_Prelude.thy ===== *)
theory GC_Prelude
  imports Main "HOL-Library.Word"
begin

text \<open>
  The vocabulary the whole development shares.

  A C++ exception is a value of type \<open>exn\<close>: its class and its \<open>what()\<close> text; a
  failed \<open>assert\<close> is \<open>Abort\<close>. A \<open>const\<close> member function that may throw is a
  function into \<open>exn + 'a\<close>; a member function that changes its object is a function of
  type \<open>('s, 'a) sx\<close>: it returns the outcome together with the state it leaves behind,
  so the state changes made before a throw are kept, as they are in C++.

  The lemmas are weakest-precondition rules: \<open>sx_wp m Q s\<close> says that \<open>m\<close> started in
  \<open>s\<close> does not throw and that its result and final state satisfy \<open>Q\<close>. They are
  collected in \<open>wp\<close>, so that a component's proof unfolds the operation and rewrites
  with \<open>wp\<close>.
\<close>

named_theorems wp \<open>weakest-precondition rules of the state and exception combinators\<close>
named_theorems exn_simps \<open>evaluation of the combinators for exn + 'a\<close>

type_synonym i64 = "64 word"
type_synonym u64 = "64 word"
type_synonym u32 = "32 word"
type_synonym u8 = "8 word"

subsection \<open>Exceptions\<close>

datatype exn =
    Logic_error string
  | Out_of_range string
  | Length_error string
  | Overflow_error string
  | Runtime_error string
  | Invalid_argument string
  | Runtime_trap nat nat string
  | Uncaught_exception string
  | Abort

text \<open>
  \<open>Runtime_trap f pc d\<close> is the \<open>std::runtime_error\<close> of \<open>runtime_trap\<close> in
  \<open>src/vm.cpp\<close> ("runtime trap at function f pc pc: d"), and \<open>Uncaught_exception n\<close>
  its "uncaught exception n".
\<close>

subsection \<open>Computations that may throw\<close>

definition ebind :: "exn + 'a \<Rightarrow> ('a \<Rightarrow> exn + 'b) \<Rightarrow> exn + 'b" where
  "ebind r f = (case r of Inl e \<Rightarrow> Inl e | Inr x \<Rightarrow> f x)"

definition ethen :: "exn + unit \<Rightarrow> exn + 'b \<Rightarrow> exn + 'b" where
  "ethen r n = ebind r (\<lambda>_. n)"

definition ethrow_if :: "bool \<Rightarrow> exn \<Rightarrow> exn + unit" where
  "ethrow_if b e = (if b then Inl e else Inr ())"

fun emap :: "('a \<Rightarrow> exn + 'b) \<Rightarrow> 'a list \<Rightarrow> exn + 'b list" where
  "emap f [] = Inr []"
| "emap f (x # xs) = ebind (f x) (\<lambda>y. ebind (emap f xs) (\<lambda>ys. Inr (y # ys)))"

fun efold :: "('a \<Rightarrow> 'b \<Rightarrow> exn + 'b) \<Rightarrow> 'a list \<Rightarrow> 'b \<Rightarrow> exn + 'b" where
  "efold f [] s = Inr s"
| "efold f (x # xs) s = ebind (f x s) (efold f xs)"

definition eall :: "('a \<Rightarrow> exn + unit) \<Rightarrow> 'a list \<Rightarrow> exn + unit" where
  "eall f xs = efold (\<lambda>x _. f x) xs ()"

lemma ebind_simps [simp, exn_simps]:
  "ebind (Inl e) f = Inl e"
  "ebind (Inr x) f = f x"
  by (simp_all add: ebind_def)

lemma ethen_simps [simp, exn_simps]:
  "ethen (Inl e) n = Inl e"
  "ethen (Inr u) n = n"
  by (simp_all add: ethen_def)

lemma ethrow_if_simps [simp, exn_simps]:
  "ethrow_if True e = Inl e"
  "ethrow_if False e = Inr ()"
  by (simp_all add: ethrow_if_def)

lemma ebind_Inr_iff: "ebind r f = Inr y \<longleftrightarrow> (\<exists>x. r = Inr x \<and> f x = Inr y)"
  by (cases r) simp_all

lemma ethen_Inr_iff: "ethen r n = Inr y \<longleftrightarrow> r = Inr () \<and> n = Inr y"
  by (cases r) simp_all

lemma ethrow_if_Inr_iff [simp]: "ethrow_if b e = Inr u \<longleftrightarrow> \<not> b"
  by (simp add: ethrow_if_def)

lemma ebind_assoc: "ebind (ebind r f) g = ebind r (\<lambda>x. ebind (f x) g)"
  by (cases r) simp_all

lemma ebind_Inr_right [simp]: "ebind r Inr = r"
  by (cases r) simp_all

lemma efold_Nil_fun [simp]: "efold f [] = Inr"
  by (rule ext) simp

lemma emap_Inr_iff:
  "emap f xs = Inr ys \<longleftrightarrow> list_all2 (\<lambda>x y. f x = Inr y) xs ys"
  by (induction xs arbitrary: ys) (auto simp: ebind_Inr_iff list_all2_Cons1)

lemma emap_map: "(\<And>x. x \<in> set xs \<Longrightarrow> f x = Inr (g x)) \<Longrightarrow> emap f xs = Inr (map g xs)"
  by (induction xs) simp_all

lemma emap_length: "emap f xs = Inr ys \<Longrightarrow> length ys = length xs"
  by (simp add: emap_Inr_iff list_all2_lengthD)

lemma emap_cong: "(\<And>x. x \<in> set xs \<Longrightarrow> f x = g x) \<Longrightarrow> emap f xs = emap g xs"
  by (induction xs) simp_all

lemma efold_append: "efold f (xs @ ys) s = ebind (efold f xs s) (efold f ys)"
  by (induction xs arbitrary: s) (simp_all add: ebind_assoc ebind_def split: sum.splits)

lemma efold_upt_Suc: "efold f [0..<Suc n] s = ebind (efold f [0..<n] s) (f n)"
proof -
  have "efold f [n] = f n" by (rule ext) simp
  then show ?thesis by (simp add: efold_append)
qed

lemma efold_cong:
  "(\<And>x s. x \<in> set xs \<Longrightarrow> f x s = g x s) \<Longrightarrow> efold f xs s = efold g xs s"
proof (induction xs arbitrary: s)
  case Nil
  then show ?case by simp
next
  case (Cons x xs)
  then have "efold f xs = efold g xs" by (intro ext) simp
  with Cons.prems show ?case by simp
qed

lemma eall_simps [simp]:
  "eall f [] = Inr ()"
  "eall f (x # xs) = ebind (f x) (\<lambda>_. eall f xs)"
  by (simp_all add: eall_def)

lemma eall_ok_iff: "eall f xs = Inr u \<longleftrightarrow> (\<forall>x\<in>set xs. f x = Inr ())"
  by (induction xs) (auto simp: ebind_Inr_iff)

subsection \<open>State-changing operations that may throw\<close>

type_synonym ('s, 'a) sx = "'s \<Rightarrow> (exn + 'a) \<times> 's"

definition sx_return :: "'a \<Rightarrow> ('s, 'a) sx" where
  "sx_return x = (\<lambda>s. (Inr x, s))"

definition sx_throw :: "exn \<Rightarrow> ('s, 'a) sx" where
  "sx_throw e = (\<lambda>s. (Inl e, s))"

definition sx_bind :: "('s, 'a) sx \<Rightarrow> ('a \<Rightarrow> ('s, 'b) sx) \<Rightarrow> ('s, 'b) sx" where
  "sx_bind m f = (\<lambda>s. case m s of (Inl e, s') \<Rightarrow> (Inl e, s') | (Inr x, s') \<Rightarrow> f x s')"

definition sx_then :: "('s, unit) sx \<Rightarrow> ('s, 'b) sx \<Rightarrow> ('s, 'b) sx" where
  "sx_then m n = sx_bind m (\<lambda>_. n)"

definition sx_gets :: "('s \<Rightarrow> 'a) \<Rightarrow> ('s, 'a) sx" where
  "sx_gets f = (\<lambda>s. (Inr (f s), s))"

definition sx_modify :: "('s \<Rightarrow> 's) \<Rightarrow> ('s, unit) sx" where
  "sx_modify f = (\<lambda>s. (Inr (), f s))"

text \<open>A \<open>const\<close> member function called from one that changes the state.\<close>

definition sx_reads :: "('s \<Rightarrow> exn + 'a) \<Rightarrow> ('s, 'a) sx" where
  "sx_reads f = (\<lambda>s. (f s, s))"

definition sx_lift :: "exn + 'a \<Rightarrow> ('s, 'a) sx" where
  "sx_lift r = (\<lambda>s. (r, s))"

definition sx_when :: "bool \<Rightarrow> ('s, unit) sx \<Rightarrow> ('s, unit) sx" where
  "sx_when b m = (if b then m else sx_return ())"

definition sx_throw_if :: "bool \<Rightarrow> exn \<Rightarrow> ('s, unit) sx" where
  "sx_throw_if b e = (if b then sx_throw e else sx_return ())"

definition sx_assert :: "bool \<Rightarrow> ('s, unit) sx" where
  "sx_assert b = (if b then sx_return () else sx_throw Abort)"

fun sx_iter :: "('a \<Rightarrow> ('s, unit) sx) \<Rightarrow> 'a list \<Rightarrow> ('s, unit) sx" where
  "sx_iter f [] = sx_return ()"
| "sx_iter f (x # xs) = sx_then (f x) (sx_iter f xs)"

text \<open>A loop that collects what its body yields.\<close>

fun sx_collect :: "('a \<Rightarrow> ('s, 'b option) sx) \<Rightarrow> 'a list \<Rightarrow> ('s, 'b list) sx" where
  "sx_collect f [] = sx_return []"
| "sx_collect f (x # xs) = sx_bind (f x) (\<lambda>y. sx_bind (sx_collect f xs) (\<lambda>ys.
     sx_return (case y of None \<Rightarrow> ys | Some z \<Rightarrow> z # ys)))"

definition sx_wp :: "('s, 'a) sx \<Rightarrow> ('a \<Rightarrow> 's \<Rightarrow> bool) \<Rightarrow> 's \<Rightarrow> bool" where
  "sx_wp m Q s = (case m s of (Inl e, s') \<Rightarrow> False | (Inr x, s') \<Rightarrow> Q x s')"

lemmas sx_defs = sx_return_def sx_throw_def sx_bind_def sx_then_def sx_gets_def
  sx_modify_def sx_reads_def sx_lift_def sx_when_def sx_throw_if_def sx_assert_def

lemma sx_wp_iff: "sx_wp m Q s \<longleftrightarrow> (\<exists>x s'. m s = (Inr x, s') \<and> Q x s')"
  by (cases "m s"; cases "fst (m s)") (auto simp: sx_wp_def)

lemma sx_wpI: "m s = (Inr x, s') \<Longrightarrow> Q x s' \<Longrightarrow> sx_wp m Q s"
  by (simp add: sx_wp_def)

lemma sx_wp_return [wp]: "sx_wp (sx_return x) Q s = Q x s"
  by (simp add: sx_wp_def sx_return_def)

lemma sx_wp_throw [wp]: "sx_wp (sx_throw e) Q s = False"
  by (simp add: sx_wp_def sx_throw_def)

lemma sx_wp_bind [wp]: "sx_wp (sx_bind m f) Q s = sx_wp m (\<lambda>x. sx_wp (f x) Q) s"
  by (auto simp: sx_wp_def sx_bind_def split: sum.splits prod.splits)

lemma sx_wp_then [wp]: "sx_wp (sx_then m n) Q s = sx_wp m (\<lambda>_. sx_wp n Q) s"
  by (simp add: sx_then_def sx_wp_bind)

lemma sx_wp_gets [wp]: "sx_wp (sx_gets f) Q s = Q (f s) s"
  by (simp add: sx_wp_def sx_gets_def)

lemma sx_wp_modify [wp]: "sx_wp (sx_modify f) Q s = Q () (f s)"
  by (simp add: sx_wp_def sx_modify_def)

lemma sx_wp_reads [wp]: "sx_wp (sx_reads f) Q s \<longleftrightarrow> (\<exists>x. f s = Inr x \<and> Q x s)"
  by (auto simp: sx_wp_def sx_reads_def split: sum.splits)

lemma sx_wp_lift [wp]: "sx_wp (sx_lift r) Q s \<longleftrightarrow> (\<exists>x. r = Inr x \<and> Q x s)"
  by (auto simp: sx_wp_def sx_lift_def split: sum.splits)

lemma sx_wp_when [wp]: "sx_wp (sx_when b m) Q s = (if b then sx_wp m Q s else Q () s)"
  by (simp add: sx_when_def sx_wp_return)

lemma sx_wp_throw_if [wp]: "sx_wp (sx_throw_if b e) Q s \<longleftrightarrow> \<not> b \<and> Q () s"
  by (simp add: sx_throw_if_def sx_wp_return sx_wp_throw)

lemma sx_wp_assert [wp]: "sx_wp (sx_assert b) Q s \<longleftrightarrow> b \<and> Q () s"
  by (simp add: sx_assert_def sx_wp_return sx_wp_throw)

lemma sx_wp_if [wp]:
  "sx_wp (if b then m else n) Q s = (if b then sx_wp m Q s else sx_wp n Q s)"
  by simp

lemma sx_wp_mono: "sx_wp m P s \<Longrightarrow> (\<And>x s'. P x s' \<Longrightarrow> Q x s') \<Longrightarrow> sx_wp m Q s"
  by (auto simp: sx_wp_iff)

lemma sx_wp_conj: "sx_wp m P s \<Longrightarrow> sx_wp m Q s \<Longrightarrow> sx_wp m (\<lambda>x s'. P x s' \<and> Q x s') s"
  by (auto simp: sx_wp_iff)

text \<open>A loop over a list keeps an invariant that each iteration keeps.\<close>

lemma sx_wp_iter:
  assumes "\<And>x s. x \<in> set xs \<Longrightarrow> I s \<Longrightarrow> sx_wp (f x) (\<lambda>_. I) s" and "I s"
  shows "sx_wp (sx_iter f xs) (\<lambda>_. I) s"
  using assms
proof (induction xs arbitrary: s)
  case Nil
  then show ?case by (simp add: wp)
next
  case (Cons x xs)
  have "sx_wp (f x) (\<lambda>_. I) s" using Cons.prems by simp
  then show ?case
    by (auto simp: wp intro!: Cons.IH elim!: sx_wp_mono intro: Cons.prems(1))
qed

subsection \<open>Text\<close>

text \<open>\<open>std::to_string\<close> of a natural number.\<close>

fun nat_text :: "nat \<Rightarrow> string" where
  "nat_text n = (if n < 10 then [char_of (48 + n)] else nat_text (n div 10) @ [char_of (48 + n mod 10)])"

declare nat_text.simps [simp del]

subsection \<open>Lists\<close>

text \<open>\<open>lower_bound\<close> followed by \<open>insert\<close>, for a vector ordered by a key.\<close>

fun insert_before :: "('a \<Rightarrow> nat) \<Rightarrow> nat \<Rightarrow> 'a \<Rightarrow> 'a list \<Rightarrow> 'a list" where
  "insert_before key k x [] = [x]"
| "insert_before key k x (y # ys) =
     (if key y < k then y # insert_before key k x ys else x # y # ys)"

lemma set_insert_before [simp]: "set (insert_before key k x ys) = insert x (set ys)"
  by (induction ys) auto

lemma sorted_insert_before:
  assumes "sorted_wrt (<) (map key ys)" and "key x = k" and "k \<notin> key ` set ys"
  shows "sorted_wrt (<) (map key (insert_before key k x ys))"
  using assms
proof (induction ys)
  case Nil
  then show ?case by simp
next
  case (Cons y ys)
  then show ?case by (auto simp: not_less)
qed

lemma nth_list_update_eq': "i < length xs \<Longrightarrow> xs[i := x] ! j = (if i = j then x else xs ! j)"
  by (simp add: nth_list_update)

end
