(* ===== verification/GC_Value.thy ===== *)
theory GC_Value
  imports GC_Prelude
begin

unbundle bit_operations_syntax

text \<open>
  Values and object identities (\<open>include/lang/value.hpp\<close>, the head of
  \<open>src/gc/heap.cpp\<close>).  An \<open>ObjectId\<close> is 64 bits: the storage slot of the object in
  the low half, the generation of that slot in the high half.  A \<open>Value\<close> is a tag and an
  \<open>int64\<close> payload; an object id is stored in a value only if it fits in the payload.
  The lemmas show that the encoding loses nothing and that no id the heap can ever make is
  rejected by \<open>Value::object\<close>.
\<close>

type_synonym object_id = u64

datatype value_tag = Tag_Int64 | Tag_Bool | Tag_Object | Tag_Nil

datatype val = VInt64 i64 | VBool bool | VObject object_id | VNil

definition msg_object_id_too_large :: string where
  "msg_object_id_too_large = ''object id does not fit in Value payload''"
definition msg_not_i64 :: string where "msg_not_i64 = ''value is not i64''"
definition msg_not_bool :: string where "msg_not_bool = ''value is not bool''"
definition msg_not_object :: string where "msg_not_object = ''value is not object''"
definition msg_generation_exhausted :: string where
  "msg_generation_exhausted = ''object id generation exhausted''"

fun tag :: "val \<Rightarrow> value_tag" where
  "tag (VInt64 _) = Tag_Int64"
| "tag (VBool _) = Tag_Bool"
| "tag (VObject _) = Tag_Object"
| "tag VNil = Tag_Nil"

fun is_object :: "val \<Rightarrow> bool" where
  "is_object (VObject _) = True"
| "is_object _ = False"

definition value_object :: "object_id \<Rightarrow> exn + val" where
  "value_object i = (if i > 0x7FFFFFFFFFFFFFFF then Inl (Out_of_range msg_object_id_too_large)
     else Inr (VObject i))"

fun as_i64 :: "val \<Rightarrow> exn + i64" where
  "as_i64 (VInt64 n) = Inr n"
| "as_i64 _ = Inl (Logic_error msg_not_i64)"

fun as_bool :: "val \<Rightarrow> exn + bool" where
  "as_bool (VBool b) = Inr b"
| "as_bool _ = Inl (Logic_error msg_not_bool)"

fun as_object :: "val \<Rightarrow> exn + object_id" where
  "as_object (VObject i) = Inr i"
| "as_object _ = Inl (Logic_error msg_not_object)"

definition kGenerationShift :: nat where "kGenerationShift = 32"
definition kFirstGeneration :: u32 where "kFirstGeneration = 1"
definition kMaxGeneration :: u32 where "kMaxGeneration = 0x7FFFFFFF"

definition make_object_id :: "u32 \<Rightarrow> u32 \<Rightarrow> object_id" where
  "make_object_id slot generation = push_bit kGenerationShift (ucast generation) OR ucast slot"

definition slot_from :: "object_id \<Rightarrow> u32" where
  "slot_from i = ucast (i AND 0xFFFFFFFF)"

definition generation_from :: "object_id \<Rightarrow> u32" where
  "generation_from i = ucast (drop_bit kGenerationShift i)"

definition next_generation :: "u32 \<Rightarrow> exn + u32" where
  "next_generation generation =
     (if generation = kMaxGeneration then Inl (Overflow_error msg_generation_exhausted)
      else Inr (generation + 1))"

definition generation_for_new_base :: "u32 \<Rightarrow> exn + u32" where
  "generation_for_new_base generation =
     (if generation = 0 then Inr kFirstGeneration else next_generation generation)"

text \<open>\<open>make_object_id(static_cast<uint32_t>(slot), generation)\<close>, \<open>slot\<close> a \<open>size_t\<close>.\<close>

abbreviation object_id_at :: "nat \<Rightarrow> u32 \<Rightarrow> object_id" where
  "object_id_at slot generation \<equiv> make_object_id (of_nat slot) generation"

abbreviation slot_index :: "object_id \<Rightarrow> nat" where
  "slot_index i \<equiv> unat (slot_from i)"

text \<open>\<open>values_equal\<close>: the tags agree and so do the payloads, which is equality of values.\<close>

fun values_equal :: "val \<Rightarrow> val \<Rightarrow> bool" where
  "values_equal (VInt64 a) (VInt64 b) = (a = b)"
| "values_equal (VBool a) (VBool b) = (a = b)"
| "values_equal (VObject a) (VObject b) = (a = b)"
| "values_equal VNil VNil = True"
| "values_equal _ _ = False"

subsection \<open>The encoding of object ids\<close>

lemma low_half_mask: "(0xFFFFFFFF :: 64 word) = mask 32"
  by (simp add: mask_eq_exp_minus_1)

lemma slot_from_make_object_id [simp]: "slot_from (make_object_id s g) = s"
  unfolding slot_from_def make_object_id_def kGenerationShift_def low_half_mask
  by (rule bit_word_eqI) (auto simp: bit_simps)

lemma generation_from_make_object_id [simp]: "generation_from (make_object_id s g) = g"
  unfolding generation_from_def make_object_id_def kGenerationShift_def
  by (rule bit_word_eqI) (auto simp: bit_simps dest: bit_imp_le_length)

lemma make_object_id_split: "make_object_id (slot_from i) (generation_from i) = i"
  unfolding slot_from_def generation_from_def make_object_id_def kGenerationShift_def low_half_mask
  by (rule bit_word_eqI) (auto simp: bit_simps dest: bit_imp_le_length)

lemma make_object_id_inject [simp]:
  "make_object_id s g = make_object_id s' g' \<longleftrightarrow> s = s' \<and> g = g'"
  by (metis slot_from_make_object_id generation_from_make_object_id)

lemma object_id_eqI: "slot_from i = slot_from j \<Longrightarrow> generation_from i = generation_from j \<Longrightarrow> i = j"
  by (metis make_object_id_split)

text \<open>A slot index of a heap of at most \<open>2^32\<close> slots survives the encoding.\<close>

lemma slot_index_object_id_at [simp]:
  "s < 4294967296 \<Longrightarrow> slot_index (object_id_at s g) = s"
  by (simp add: unat_of_nat take_bit_nat_eq_self)

lemma make_object_id_int: "uint (make_object_id s g) = uint g * 4294967296 + uint s"
proof -
  have d: "(push_bit 32 (ucast g) :: 64 word) AND ucast s = 0"
    by (rule bit_word_eqI) (auto simp: bit_simps dest: bit_imp_le_length)
  have p: "uint (push_bit 32 (ucast g) :: 64 word) = uint g * 4294967296"
  proof -
    have "uint g < 4294967296" using uint_lt2p [of g] by simp
    then show ?thesis
      by (simp add: push_bit_eq_mult uint_word_ariths uint_up_ucast is_up mod_pos_pos_trivial)
  qed
  have u: "uint (ucast s :: 64 word) = uint s"
    by (simp add: uint_up_ucast is_up)
  have lt: "uint g < 4294967296" "uint s < 4294967296"
    using uint_lt2p [of g] uint_lt2p [of s] by simp_all
  have "make_object_id s g = push_bit 32 (ucast g) + ucast s"
    unfolding make_object_id_def kGenerationShift_def using d by (simp add: disjunctive_add_eq_or)
  then show ?thesis using p u lt
    by (simp add: uint_word_ariths mod_pos_pos_trivial)
qed

text \<open>
  The generation limit is what keeps every id inside the \<open>int64\<close> payload of a value:
  \<open>Value::object\<close> accepts an id exactly when its generation is at most
  \<open>kMaxGeneration\<close>.
\<close>

lemma value_object_make:
  "value_object (make_object_id s g) = Inr (VObject (make_object_id s g)) \<longleftrightarrow> g \<le> kMaxGeneration"
proof -
  have aux: "\<And>a b :: int. 0 \<le> a \<Longrightarrow> 0 \<le> b \<Longrightarrow> a < 4294967296 \<Longrightarrow>
      (\<not> 9223372036854775807 < b * 4294967296 + a) = (b \<le> 2147483647)"
  proof -
    fix a b :: int
    assume a: "0 \<le> a" "a < 4294967296"
    show "(\<not> 9223372036854775807 < b * 4294967296 + a) = (b \<le> 2147483647)"
    proof (cases "b \<le> 2147483647")
      case True
      then have "b * 4294967296 \<le> 2147483647 * 4294967296" by simp
      with True a show ?thesis by simp
    next
      case False
      then have "2147483648 * 4294967296 \<le> b * 4294967296" by simp
      with False a show ?thesis by simp
    qed
  qed
  have "\<not> make_object_id s g > 0x7FFFFFFFFFFFFFFF \<longleftrightarrow> g \<le> 0x7FFFFFFF"
    using aux [OF uint_ge_0 uint_ge_0, of s g] uint_lt2p [of s]
    by (simp add: word_less_def word_le_def make_object_id_int)
  then show ?thesis by (auto simp: value_object_def kMaxGeneration_def)
qed

lemma value_object_ok:
  "generation_from i \<le> kMaxGeneration \<Longrightarrow> value_object i = Inr (VObject i)"
  using value_object_make [of "slot_from i" "generation_from i"] by (simp add: make_object_id_split)

lemma value_object_Inr: "value_object i = Inr v \<Longrightarrow> v = VObject i"
  by (auto simp: value_object_def split: if_splits)

lemma generation_for_new_base_ok:
  assumes "g < kMaxGeneration"
  obtains g' where "generation_for_new_base g = Inr g'" "g' \<noteq> 0" "g' \<noteq> g" "g' \<le> kMaxGeneration"
proof (cases "g = 0")
  case True
  then show ?thesis
    by (auto simp: generation_for_new_base_def kFirstGeneration_def kMaxGeneration_def intro: that)
next
  case False
  have g: "uint g < 2147483647"
    using assms by (simp add: kMaxGeneration_def word_less_def)
  then have u: "uint (g + 1) = uint g + 1"
    by (simp add: uint_word_ariths mod_pos_pos_trivial)
  have "uint g + 1 > 0" using uint_ge_0 [of g] by linarith
  then have "uint (g + 1) \<noteq> 0" using u by linarith
  then have "g + 1 \<noteq> 0" "g + 1 \<noteq> g" "g + 1 \<le> kMaxGeneration"
    using u g by (auto simp: kMaxGeneration_def word_le_def word_uint_eq_iff)
  moreover have "generation_for_new_base g = Inr (g + 1)"
    using False assms by (auto simp: generation_for_new_base_def next_generation_def)
  ultimately show ?thesis by (rule that [rotated])
qed

lemma generation_for_new_base_Inr:
  assumes "generation_for_new_base g = Inr g'" and "g \<le> kMaxGeneration"
  shows "g' \<noteq> 0" "g' \<noteq> g" "g' \<le> kMaxGeneration"
proof -
  have "g < kMaxGeneration"
    using assms by (auto simp: generation_for_new_base_def next_generation_def kFirstGeneration_def
        kMaxGeneration_def split: if_splits)
  then show "g' \<noteq> 0" "g' \<noteq> g" "g' \<le> kMaxGeneration"
    using assms(1) by (metis generation_for_new_base_ok sum.inject(2))+
qed

subsection \<open>Values\<close>

lemma is_object_iff: "is_object v \<longleftrightarrow> (\<exists>i. v = VObject i)"
  by (cases v) simp_all

lemma tag_simps [simp]:
  "tag v = Tag_Object \<longleftrightarrow> is_object v"
  "tag v = Tag_Nil \<longleftrightarrow> v = VNil"
  "tag v = Tag_Int64 \<longleftrightarrow> (\<exists>n. v = VInt64 n)"
  "tag v = Tag_Bool \<longleftrightarrow> (\<exists>b. v = VBool b)"
  by (cases v; simp)+

lemma as_object_Inr_iff [simp]: "as_object v = Inr i \<longleftrightarrow> v = VObject i"
  by (cases v) auto

lemma as_i64_Inr_iff [simp]: "as_i64 v = Inr n \<longleftrightarrow> v = VInt64 n"
  by (cases v) auto

lemma as_bool_Inr_iff [simp]: "as_bool v = Inr b \<longleftrightarrow> v = VBool b"
  by (cases v) auto

lemma values_equal_iff [simp]: "values_equal a b \<longleftrightarrow> a = b"
  by (cases a; cases b) auto

text \<open>The object ids among a list of values.\<close>

definition ids_of :: "val list \<Rightarrow> object_id set" where
  "ids_of vs = {i. VObject i \<in> set vs}"

lemma ids_of_simps [simp]:
  "ids_of [] = {}"
  "ids_of (VObject i # vs) = insert i (ids_of vs)"
  "ids_of (VNil # vs) = ids_of vs"
  "ids_of (VInt64 n # vs) = ids_of vs"
  "ids_of (VBool b # vs) = ids_of vs"
  "ids_of (rev vs) = ids_of vs"
  "ids_of (vs @ ws) = ids_of vs \<union> ids_of ws"
  by (auto simp: ids_of_def)

lemma finite_ids_of [simp]: "finite (ids_of vs)"
proof -
  have "VObject ` ids_of vs \<subseteq> set vs" by (auto simp: ids_of_def)
  then have "finite (VObject ` ids_of vs)" by (rule finite_subset) simp
  then show ?thesis by (rule finite_imageD) (simp add: inj_on_def)
qed

subsection \<open>Properties\<close>

text \<open>C32. The object id encoding loses nothing: the slot and the generation of an encoded id are
  the encoded ones, every id is the encoding of its own slot and generation, and the slot index
  of a heap within the 32-bit slot range is read back as it was written.\<close>

theorem object_id_encoding_roundtrip:
  "slot_from (make_object_id s g) = s \<and> generation_from (make_object_id s g) = g \<and>
   make_object_id (slot_from i) (generation_from i) = i"
  by (simp add: make_object_id_split)

text \<open>A value can hold an object id exactly when the id's generation is at most the largest
  generation the heap hands out; any other id is refused with \<open>std::out_of_range\<close>.\<close>

lemma value_object_generation_bound:
  "value_object (make_object_id s g) =
     (if g \<le> kMaxGeneration then Inr (VObject (make_object_id s g))
      else Inl (Out_of_range msg_object_id_too_large))"
  using value_object_make [of s g] by (auto simp: value_object_def split: if_splits)

end
