(* ===== verification/GC_Object.thy ===== *)
theory GC_Object
  imports GC_Value
begin

unbundle bit_operations_syntax

text \<open>
  The heap object (\<open>struct Object\<close> of \<open>include/lang/gc/heap.hpp\<close>) and the descriptor
  functions at the head of \<open>src/gc/heap.cpp\<close>: the constructors, the storage width, the
  descriptor-shape check every access runs, and the visitor that defines which fields are
  strong references.  The C++ object is a flat struct whose \<open>kind\<close> says which payload is
  in use; the record here has the same fields, with an \<open>o_\<close> prefix.

  The lemmas show that the visitor is exact: rewriting the reference fields changes only
  them, keeps the shape and the width, and the marking order is the reverse of the
  visiting order.
\<close>

datatype object_generation = Young | Old

datatype object_kind = Pair | ScalarArray | RefArray | Str | Closure | Map_kind | WeakRef
  | Record_kind | Variant | Ephemeron | Builder

record map_entry =
  e_key :: val
  e_value :: val

record gcobj =
  o_marked :: bool
  o_generation :: object_generation
  o_kind :: object_kind
  o_length :: u32
  o_left :: val
  o_right :: val
  o_scalar_elements :: "i64 list"
  o_ref_elements :: "val list"
  o_string_bytes :: "u8 list"
  o_builder_capacity :: u32
  o_builder_bytes :: "u8 list"
  o_closure_layout_index :: u32
  o_closure_function_index :: u32
  o_closure_captures :: "val list"
  o_closure_capture_map :: "bool list"
  o_map_layout_index :: u32
  o_map_key_is_ref :: bool
  o_map_value_is_ref :: bool
  o_map_entries :: "map_entry list"
  o_map_lookup_index :: "nat list"
  o_record_layout_index :: u32
  o_record_fields :: "val list"
  o_record_ref_map :: "bool list"
  o_variant_layout_index :: u32
  o_variant_case_index :: u32
  o_variant_fields :: "val list"
  o_variant_case_ref_maps :: "bool list list"
  o_weak_target :: val
  o_ephemeron_key :: val
  o_ephemeron_value :: val
  o_ephemeron_value_is_ref :: bool

definition default_object :: gcobj where
  "default_object = \<lparr>o_marked = False, o_generation = Young, o_kind = Pair, o_length = 2,
     o_left = VNil, o_right = VNil, o_scalar_elements = [], o_ref_elements = [],
     o_string_bytes = [], o_builder_capacity = 0, o_builder_bytes = [],
     o_closure_layout_index = 0, o_closure_function_index = 0, o_closure_captures = [],
     o_closure_capture_map = [], o_map_layout_index = 0, o_map_key_is_ref = False,
     o_map_value_is_ref = False, o_map_entries = [], o_map_lookup_index = [],
     o_record_layout_index = 0, o_record_fields = [], o_record_ref_map = [],
     o_variant_layout_index = 0, o_variant_case_index = 0, o_variant_fields = [],
     o_variant_case_ref_maps = [], o_weak_target = VNil, o_ephemeron_key = VNil,
     o_ephemeron_value = VNil, o_ephemeron_value_is_ref = False\<rparr>"

subsection \<open>Builder capacities and storage widths\<close>

definition kStorageSlotBytes :: nat where "kStorageSlotBytes = 8"
definition kBuilderInitialCapacity :: u32 where "kBuilderInitialCapacity = 8"
definition uint32_max :: nat where "uint32_max = 4294967295"

definition msg_builder_ladder_start :: string where
  "msg_builder_ladder_start = ''builder growth started outside the deterministic capacity ladder''"
definition msg_builder_limit :: string where
  "msg_builder_limit = ''builder append exceeds object header limit''"

definition is_builder_capacity :: "u32 \<Rightarrow> bool" where
  "is_builder_capacity capacity \<longleftrightarrow> capacity = 0xFFFFFFFF \<or>
     (capacity \<ge> kBuilderInitialCapacity \<and> (capacity AND (capacity - 1)) = 0)"

text \<open>
  The doubling loop of \<open>builder_capacity_for_required\<close>.  From capacity 0, or from the
  largest capacity when more is required, the loop of the source would not end; the guard
  of the model stops there.  The caller's two checks rule both out
  (\<open>builder_capacity_loop_unfold\<close> below is the source's loop, guard and all).
\<close>

function builder_capacity_loop :: "nat \<Rightarrow> u32 \<Rightarrow> u32" where
  "builder_capacity_loop required capacity =
     (if required > unat capacity \<and> 0 < unat capacity \<and> unat capacity < uint32_max
      then builder_capacity_loop required
        (if capacity > 0xFFFFFFFF div 2 then 0xFFFFFFFF else capacity * 2)
      else capacity)"
  by pat_completeness auto

lemma unat_half_max: "unat (0xFFFFFFFF div 2 :: u32) = 2147483647"
  by simp

lemma unat_max_capacity: "unat (0xFFFFFFFF :: u32) = uint32_max"
  unfolding uint32_max_def by simp

lemma double_capacity:
  assumes "\<not> (capacity :: u32) > 0xFFFFFFFF div 2"
  shows "unat (capacity * 2) = 2 * unat capacity"
proof -
  have "unat capacity \<le> 2147483647"
    using assms unfolding word_less_nat_alt unat_half_max by linarith
  moreover have "unat (capacity * 2) = unat capacity * unat (2 :: u32) mod 2 ^ LENGTH(32)"
    by (rule unat_word_ariths)
  ultimately show ?thesis by simp
qed

lemma grown_capacity_decreases:
  assumes "0 < unat (capacity :: u32)" and "unat capacity < uint32_max"
  shows "uint32_max - unat (if capacity > 0xFFFFFFFF div 2 then 0xFFFFFFFF else capacity * 2)
    < uint32_max - unat capacity"
proof (cases "capacity > 0xFFFFFFFF div 2")
  case True
  with assms show ?thesis by (simp only: if_True unat_max_capacity)
next
  case False
  then have "unat (capacity * 2) = 2 * unat capacity" by (rule double_capacity)
  with False assms show ?thesis by simp
qed

termination builder_capacity_loop
  by (relation "measure (\<lambda>(required, capacity). uint32_max - unat capacity)")
    (simp_all only: wf_measure in_measure prod.case grown_capacity_decreases)

declare builder_capacity_loop.simps [simp del]

definition builder_capacity_for_required :: "u32 \<Rightarrow> nat \<Rightarrow> exn + u32" where
  "builder_capacity_for_required current required =
     ethen (ethrow_if (\<not> is_builder_capacity current) (Logic_error msg_builder_ladder_start))
     (ethen (ethrow_if (required > uint32_max) (Length_error msg_builder_limit))
     (Inr (builder_capacity_loop required current)))"

definition storage_slot_count :: "gcobj \<Rightarrow> nat" where
  "storage_slot_count x = (case o_kind x of
     Pair \<Rightarrow> 1
   | ScalarArray \<Rightarrow> (if o_length x = 0 then 1 else unat (o_length x))
   | RefArray \<Rightarrow> (if o_length x = 0 then 1 else unat (o_length x))
   | Str \<Rightarrow> 1 + (unat (o_length x) + kStorageSlotBytes - 1) div kStorageSlotBytes
   | Closure \<Rightarrow> 1 + unat (o_length x)
   | Map_kind \<Rightarrow> 1 + 2 * unat (o_length x)
   | WeakRef \<Rightarrow> 1
   | Record_kind \<Rightarrow> 1 + unat (o_length x)
   | Variant \<Rightarrow> 2 + unat (o_length x)
   | Ephemeron \<Rightarrow> 1
   | Builder \<Rightarrow> 1 + (unat (o_builder_capacity x) + kStorageSlotBytes - 1) div kStorageSlotBytes)"

lemma storage_slot_count_pos [simp]: "storage_slot_count x > 0"
  by (simp add: storage_slot_count_def unat_gt_0 split: object_kind.split)

subsection \<open>The growth ladder of builders\<close>

lemma builder_capacity_loop_unfold:
  assumes "0 < unat capacity" and "required \<le> uint32_max"
  shows "builder_capacity_loop required capacity =
    (if required > unat capacity
     then builder_capacity_loop required
       (if capacity > 0xFFFFFFFF div 2 then 0xFFFFFFFF else capacity * 2)
     else capacity)"
proof (cases "required > unat capacity")
  case True
  then have "unat capacity < uint32_max" using assms(2) by (rule less_le_trans)
  with True assms(1) show ?thesis by (subst builder_capacity_loop.simps) (simp only: if_True simp_thms)
next
  case False
  then show ?thesis by (subst builder_capacity_loop.simps) (simp only: simp_thms if_False)
qed

lemma double_on_ladder:
  fixes c :: u32
  assumes "(c AND (c - 1)) = 0"
  shows "(c * 2) AND (c * 2 - 1) = 0"
proof -
  have even: "push_bit 1 x AND 1 = 0" for x :: u32
    by (rule bit_word_eqI) (simp only: bit_and_iff bit_push_bit_iff bit_1_iff bit_0_eq bot_apply, auto)
  have "c * 2 - 1 = push_bit 1 (c - 1) + 1" by (simp add: push_bit_eq_mult algebra_simps)
  also have "\<dots> = push_bit 1 (c - 1) OR 1" by (rule disjunctive_add_eq_or) (rule even)
  finally have "(c * 2) AND (c * 2 - 1) = push_bit 1 c AND (push_bit 1 (c - 1) OR 1)"
    by (simp add: push_bit_eq_mult mult.commute)
  also have "\<dots> = push_bit 1 (c AND (c - 1)) OR (push_bit 1 c AND 1)"
    by (simp add: bit.conj_disj_distrib)
  finally show ?thesis using assms even [of c] by simp
qed

lemma is_builder_capacity_grow:
  assumes "is_builder_capacity c"
  shows "is_builder_capacity (if c > 0xFFFFFFFF div 2 then 0xFFFFFFFF else c * 2)"
proof (cases "c > 0xFFFFFFFF div 2")
  case True
  then show ?thesis by (simp only: if_True is_builder_capacity_def simp_thms)
next
  case False
  have "c \<noteq> 0xFFFFFFFF"
  proof
    assume "c = 0xFFFFFFFF"
    with False have "\<not> (0xFFFFFFFF div 2 :: u32) < 0xFFFFFFFF" by metis
    then show False unfolding word_less_nat_alt by simp
  qed
  with assms have c: "c \<ge> kBuilderInitialCapacity" "(c AND (c - 1)) = 0"
    by (simp_all only: is_builder_capacity_def simp_thms)
  have "unat kBuilderInitialCapacity \<le> unat c" using c(1) by (simp only: word_le_nat_alt)
  then have "unat kBuilderInitialCapacity \<le> unat (c * 2)"
    using double_capacity [OF False] by linarith
  then have "kBuilderInitialCapacity \<le> c * 2" by (simp only: word_le_nat_alt)
  with double_on_ladder [OF c(2)] False show ?thesis
    by (simp only: if_False is_builder_capacity_def simp_thms)
qed

lemma is_builder_capacity_pos: "is_builder_capacity c \<Longrightarrow> 8 \<le> unat c"
proof -
  assume "is_builder_capacity c"
  then consider "c = 0xFFFFFFFF" | "kBuilderInitialCapacity \<le> c"
    by (auto simp only: is_builder_capacity_def)
  then show ?thesis
    by cases (simp_all add: word_le_nat_alt kBuilderInitialCapacity_def)
qed

lemma builder_capacity_loop_ok:
  assumes "is_builder_capacity c" and "required \<le> uint32_max"
  shows "is_builder_capacity (builder_capacity_loop required c) \<and>
    required \<le> unat (builder_capacity_loop required c) \<and>
    unat c \<le> unat (builder_capacity_loop required c) \<and>
    (builder_capacity_loop required c = c \<or>
      unat (builder_capacity_loop required c) \<le> 2 * (required - 1))"
  using assms
proof (induction required c rule: builder_capacity_loop.induct)
  case (1 required c)
  let ?g = "if c > 0xFFFFFFFF div 2 then 0xFFFFFFFF else c * 2"
  have pos: "8 \<le> unat c" using 1(2) by (rule is_builder_capacity_pos)
  show ?case
  proof (cases "required > unat c")
    case False
    then have "builder_capacity_loop required c = c"
      by (subst builder_capacity_loop.simps) (simp only: simp_thms if_False)
    with False 1(2) show ?thesis by simp
  next
    case True
    have lt: "unat c < uint32_max" using True 1(3) by (rule less_le_trans)
    have eq: "builder_capacity_loop required c = builder_capacity_loop required ?g"
      using True lt pos by (subst builder_capacity_loop.simps) (simp only: simp_thms if_True less_le_trans [of 0 8])
    have gc: "unat c \<le> unat ?g"
    proof (cases "c > 0xFFFFFFFF div 2")
      case c: True
      then have "?g = 0xFFFFFFFF" by (rule if_P)
      then show ?thesis using lt unat_max_capacity by (simp only: less_imp_le)
    next
      case c: False
      then have "?g = c * 2" by (rule if_not_P)
      moreover have "unat c \<le> unat (c * 2)" using double_capacity [OF c] by linarith
      ultimately show ?thesis by (simp only:)
    qed
    have g2: "unat ?g \<le> 2 * (required - 1)"
    proof (cases "c > 0xFFFFFFFF div 2")
      case c: True
      then have "2147483647 < unat c" by (simp only: word_less_nat_alt unat_half_max)
      then have "unat (0xFFFFFFFF :: u32) \<le> 2 * (required - 1)"
        using True unfolding unat_max_capacity uint32_max_def by linarith
      moreover have "?g = 0xFFFFFFFF" using c by (rule if_P)
      ultimately show ?thesis by (simp only:)
    next
      case c: False
      then have "?g = c * 2" by (rule if_not_P)
      moreover have "unat (c * 2) \<le> 2 * (required - 1)" using double_capacity [OF c] True by linarith
      ultimately show ?thesis by (simp only:)
    qed
    have ih: "is_builder_capacity (builder_capacity_loop required ?g) \<and>
      required \<le> unat (builder_capacity_loop required ?g) \<and>
      unat ?g \<le> unat (builder_capacity_loop required ?g) \<and>
      (builder_capacity_loop required ?g = ?g \<or>
        unat (builder_capacity_loop required ?g) \<le> 2 * (required - 1))"
    proof (rule 1(1))
      show "required > unat c \<and> 0 < unat c \<and> unat c < uint32_max"
        using True lt pos by linarith
    qed (rule is_builder_capacity_grow [OF 1(2)], rule 1(3))
    have combine: "P r \<and> required \<le> unat r \<and> unat c \<le> unat r \<and> (r = c \<or> unat r \<le> 2 * (required - 1))"
      if "P r \<and> required \<le> unat r \<and> unat g \<le> unat r \<and> (r = g \<or> unat r \<le> 2 * (required - 1))"
        "unat c \<le> unat g" "unat g \<le> 2 * (required - 1)" for r g :: u32 and P
      using that by auto
    show ?thesis unfolding eq by (rule combine [where P = is_builder_capacity, OF ih gc g2])
  qed
qed


subsection \<open>The descriptor shape\<close>

definition msg_nonbuilder_payload :: string where
  "msg_nonbuilder_payload = ''non-builder descriptor contains builder payload metadata''"
definition msg_nonmap_index :: string where
  "msg_nonmap_index = ''non-map descriptor contains map lookup index metadata''"
definition msg_nonephemeron_payload :: string where
  "msg_nonephemeron_payload = ''non-ephemeron descriptor contains ephemeron payload''"
definition msg_nonrecord_payload :: string where
  "msg_nonrecord_payload = ''non-record descriptor contains collector-visible record payload''"
definition msg_nonvariant_payload :: string where
  "msg_nonvariant_payload = ''non-variant descriptor contains collector-visible variant payload''"
definition msg_pair_shape :: string where
  "msg_pair_shape = ''pair object descriptor does not match pair payload''"
definition msg_scalar_array_shape :: string where
  "msg_scalar_array_shape = ''scalar array descriptor length does not match payload''"
definition msg_ref_array_shape :: string where
  "msg_ref_array_shape = ''ref array descriptor length does not match payload''"
definition msg_string_shape :: string where
  "msg_string_shape = ''string descriptor length does not match opaque byte payload''"
definition msg_closure_shape :: string where
  "msg_closure_shape = ''closure descriptor length does not match capture-map payload''"
definition msg_closure_scalar :: string where
  "msg_closure_scalar = ''closure capture map marks a scalar payload as a reference''"
definition msg_closure_reference :: string where
  "msg_closure_reference = ''closure capture map marks a reference payload as scalar''"
definition msg_map_shape :: string where
  "msg_map_shape = ''map descriptor entry count does not match ordered payload''"
definition msg_map_scalar_key :: string where
  "msg_map_scalar_key = ''map descriptor marks a scalar key slot as a reference''"
definition msg_map_reference_key :: string where
  "msg_map_reference_key = ''map descriptor marks a reference key slot as scalar''"
definition msg_map_scalar_value :: string where
  "msg_map_scalar_value = ''map descriptor marks a scalar value slot as a reference''"
definition msg_map_reference_value :: string where
  "msg_map_reference_value = ''map descriptor marks a reference value slot as scalar''"
definition msg_weak_shape :: string where
  "msg_weak_shape = ''weak reference descriptor does not match collector-owned target slot''"
definition msg_record_shape :: string where
  "msg_record_shape = ''record descriptor length does not match layout payload''"
definition msg_record_scalar :: string where
  "msg_record_scalar = ''record reference bitmap marks a scalar payload as a reference''"
definition msg_record_reference :: string where
  "msg_record_reference = ''record reference bitmap marks a reference payload as scalar''"
definition msg_variant_tag_range :: string where
  "msg_variant_tag_range = ''variant case tag out of range''"
definition msg_variant_width :: string where
  "msg_variant_width = ''variant payload width does not match selected case''"
definition msg_variant_shape :: string where
  "msg_variant_shape = ''variant descriptor length does not match selected case payload''"
definition msg_variant_scalar :: string where
  "msg_variant_scalar = ''variant reference bitmap marks a scalar payload as a reference''"
definition msg_variant_reference :: string where
  "msg_variant_reference = ''variant reference bitmap marks a reference payload as scalar''"
definition msg_ephemeron_shape :: string where
  "msg_ephemeron_shape = ''ephemeron descriptor does not match registry payload''"
definition msg_ephemeron_cleared :: string where
  "msg_ephemeron_cleared = ''cleared ephemeron retains a value''"
definition msg_ephemeron_ref_value :: string where
  "msg_ephemeron_ref_value = ''ephemeron reference value has scalar tag''"
definition msg_ephemeron_scalar_value :: string where
  "msg_ephemeron_scalar_value = ''ephemeron scalar value has reference tag''"
definition msg_builder_length :: string where
  "msg_builder_length = ''builder byte payload length disagrees with logical length''"
definition msg_builder_over_capacity :: string where
  "msg_builder_over_capacity = ''builder logical length exceeds deterministic capacity''"
definition msg_builder_ladder :: string where
  "msg_builder_ladder = ''builder capacity is outside the deterministic growth ladder''"
definition msg_builder_shape :: string where
  "msg_builder_shape = ''builder descriptor contains non-byte payload metadata''"

definition reference_tag :: "val \<Rightarrow> bool" where
  "reference_tag v \<longleftrightarrow> tag v = Tag_Object \<or> tag v = Tag_Nil"

definition scalar_tag :: "val \<Rightarrow> bool" where
  "scalar_tag v \<longleftrightarrow> tag v = Tag_Int64 \<or> tag v = Tag_Bool"

definition shape_foreign_payload :: "gcobj \<Rightarrow> exn + unit" where
  "shape_foreign_payload x =
     ethen (ethrow_if (o_kind x \<noteq> Builder \<and> (o_builder_capacity x \<noteq> 0 \<or> o_builder_bytes x \<noteq> []))
       (Logic_error msg_nonbuilder_payload))
     (ethen (ethrow_if (o_kind x \<noteq> Map_kind \<and> o_map_lookup_index x \<noteq> [])
       (Logic_error msg_nonmap_index))
     (ethen (ethrow_if (o_kind x \<noteq> Ephemeron \<and> (tag (o_ephemeron_key x) \<noteq> Tag_Nil \<or>
         tag (o_ephemeron_value x) \<noteq> Tag_Nil))
       (Logic_error msg_nonephemeron_payload))
     (ethen (ethrow_if (o_kind x \<noteq> Record_kind \<and> (o_record_fields x \<noteq> [] \<or> o_record_ref_map x \<noteq> []))
       (Logic_error msg_nonrecord_payload))
     (ethrow_if (o_kind x \<noteq> Variant \<and> (o_variant_fields x \<noteq> [] \<or> o_variant_case_ref_maps x \<noteq> []))
       (Logic_error msg_nonvariant_payload)))))"

definition shape_pair :: "gcobj \<Rightarrow> exn + unit" where
  "shape_pair x = ethrow_if (o_length x \<noteq> 2 \<or> o_scalar_elements x \<noteq> [] \<or> o_ref_elements x \<noteq> [] \<or>
     o_string_bytes x \<noteq> [] \<or> o_closure_captures x \<noteq> [] \<or> o_closure_capture_map x \<noteq> [] \<or>
     o_map_entries x \<noteq> [] \<or> tag (o_weak_target x) \<noteq> Tag_Nil) (Logic_error msg_pair_shape)"

definition shape_scalar_array :: "gcobj \<Rightarrow> exn + unit" where
  "shape_scalar_array x = ethrow_if (length (o_scalar_elements x) \<noteq> unat (o_length x) \<or>
     o_ref_elements x \<noteq> [] \<or> o_string_bytes x \<noteq> [] \<or> o_closure_captures x \<noteq> [] \<or>
     o_closure_capture_map x \<noteq> [] \<or> o_map_entries x \<noteq> [] \<or> tag (o_weak_target x) \<noteq> Tag_Nil)
     (Logic_error msg_scalar_array_shape)"

definition shape_ref_array :: "gcobj \<Rightarrow> exn + unit" where
  "shape_ref_array x = ethrow_if (o_scalar_elements x \<noteq> [] \<or>
     length (o_ref_elements x) \<noteq> unat (o_length x) \<or> o_string_bytes x \<noteq> [] \<or>
     o_closure_captures x \<noteq> [] \<or> o_closure_capture_map x \<noteq> [] \<or> o_map_entries x \<noteq> [] \<or>
     tag (o_weak_target x) \<noteq> Tag_Nil) (Logic_error msg_ref_array_shape)"

definition shape_str :: "gcobj \<Rightarrow> exn + unit" where
  "shape_str x = ethrow_if (o_scalar_elements x \<noteq> [] \<or> o_ref_elements x \<noteq> [] \<or>
     length (o_string_bytes x) \<noteq> unat (o_length x) \<or> tag (o_left x) \<noteq> Tag_Nil \<or>
     tag (o_right x) \<noteq> Tag_Nil \<or> o_closure_captures x \<noteq> [] \<or> o_closure_capture_map x \<noteq> [] \<or>
     o_map_entries x \<noteq> [] \<or> tag (o_weak_target x) \<noteq> Tag_Nil) (Logic_error msg_string_shape)"

definition shape_closure :: "gcobj \<Rightarrow> exn + unit" where
  "shape_closure x = ethen (ethrow_if (o_scalar_elements x \<noteq> [] \<or> o_ref_elements x \<noteq> [] \<or>
       o_string_bytes x \<noteq> [] \<or> length (o_closure_captures x) \<noteq> unat (o_length x) \<or>
       length (o_closure_capture_map x) \<noteq> unat (o_length x) \<or> tag (o_left x) \<noteq> Tag_Nil \<or>
       tag (o_right x) \<noteq> Tag_Nil \<or> o_map_entries x \<noteq> [] \<or> tag (o_weak_target x) \<noteq> Tag_Nil)
       (Logic_error msg_closure_shape))
     (eall (\<lambda>(v, b). if b then ethrow_if (\<not> reference_tag v) (Logic_error msg_closure_scalar)
                     else ethrow_if (tag v = Tag_Object) (Logic_error msg_closure_reference))
       (zip (o_closure_captures x) (o_closure_capture_map x)))"

definition shape_map :: "gcobj \<Rightarrow> exn + unit" where
  "shape_map x = ethen (ethrow_if (o_scalar_elements x \<noteq> [] \<or> o_ref_elements x \<noteq> [] \<or>
       o_string_bytes x \<noteq> [] \<or> o_closure_captures x \<noteq> [] \<or> o_closure_capture_map x \<noteq> [] \<or>
       length (o_map_entries x) \<noteq> unat (o_length x) \<or> tag (o_left x) \<noteq> Tag_Nil \<or>
       tag (o_right x) \<noteq> Tag_Nil \<or> tag (o_weak_target x) \<noteq> Tag_Nil)
       (Logic_error msg_map_shape))
     (eall (\<lambda>e. ethen
         (if o_map_key_is_ref x
          then ethrow_if (tag (e_key e) \<noteq> Tag_Object) (Logic_error msg_map_scalar_key)
          else ethrow_if (\<not> scalar_tag (e_key e)) (Logic_error msg_map_reference_key))
         (if o_map_value_is_ref x
          then ethrow_if (\<not> reference_tag (e_value e)) (Logic_error msg_map_scalar_value)
          else ethrow_if (\<not> scalar_tag (e_value e)) (Logic_error msg_map_reference_value)))
       (o_map_entries x))"

definition shape_weak_ref :: "gcobj \<Rightarrow> exn + unit" where
  "shape_weak_ref x = ethrow_if (o_length x \<noteq> 1 \<or> o_scalar_elements x \<noteq> [] \<or> o_ref_elements x \<noteq> [] \<or>
     o_string_bytes x \<noteq> [] \<or> o_closure_captures x \<noteq> [] \<or> o_closure_capture_map x \<noteq> [] \<or>
     o_map_entries x \<noteq> [] \<or> tag (o_left x) \<noteq> Tag_Nil \<or> tag (o_right x) \<noteq> Tag_Nil \<or>
     \<not> reference_tag (o_weak_target x)) (Logic_error msg_weak_shape)"

definition shape_record :: "gcobj \<Rightarrow> exn + unit" where
  "shape_record x = ethen (ethrow_if (o_scalar_elements x \<noteq> [] \<or> o_ref_elements x \<noteq> [] \<or>
       o_string_bytes x \<noteq> [] \<or> o_closure_captures x \<noteq> [] \<or> o_closure_capture_map x \<noteq> [] \<or>
       o_map_entries x \<noteq> [] \<or> length (o_record_fields x) \<noteq> unat (o_length x) \<or>
       length (o_record_ref_map x) \<noteq> unat (o_length x) \<or> tag (o_left x) \<noteq> Tag_Nil \<or>
       tag (o_right x) \<noteq> Tag_Nil \<or> tag (o_weak_target x) \<noteq> Tag_Nil)
       (Logic_error msg_record_shape))
     (eall (\<lambda>(v, b). if b then ethrow_if (\<not> reference_tag v) (Logic_error msg_record_scalar)
                     else ethrow_if (\<not> scalar_tag v) (Logic_error msg_record_reference))
       (zip (o_record_fields x) (o_record_ref_map x)))"

definition selected_ref_map :: "gcobj \<Rightarrow> bool list" where
  "selected_ref_map x = o_variant_case_ref_maps x ! unat (o_variant_case_index x)"

definition shape_variant :: "gcobj \<Rightarrow> exn + unit" where
  "shape_variant x = ethen (ethrow_if
       (unat (o_variant_case_index x) \<ge> length (o_variant_case_ref_maps x))
       (Logic_error msg_variant_tag_range))
     (ethen (ethrow_if (length (selected_ref_map x) \<noteq> length (o_variant_fields x) \<or>
       length (o_variant_fields x) \<noteq> unat (o_length x)) (Logic_error msg_variant_width))
     (ethen (ethrow_if (o_scalar_elements x \<noteq> [] \<or> o_ref_elements x \<noteq> [] \<or>
       o_string_bytes x \<noteq> [] \<or> o_closure_captures x \<noteq> [] \<or> o_closure_capture_map x \<noteq> [] \<or>
       o_map_entries x \<noteq> [] \<or> tag (o_left x) \<noteq> Tag_Nil \<or> tag (o_right x) \<noteq> Tag_Nil \<or>
       tag (o_weak_target x) \<noteq> Tag_Nil) (Logic_error msg_variant_shape))
     (eall (\<lambda>(v, b). if b then ethrow_if (\<not> reference_tag v) (Logic_error msg_variant_scalar)
                     else ethrow_if (\<not> scalar_tag v) (Logic_error msg_variant_reference))
       (zip (o_variant_fields x) (selected_ref_map x)))))"

definition shape_ephemeron :: "gcobj \<Rightarrow> exn + unit" where
  "shape_ephemeron x = (let k = o_ephemeron_key x; v = o_ephemeron_value x in
     ethen (ethrow_if (o_length x \<noteq> 2 \<or> o_scalar_elements x \<noteq> [] \<or> o_ref_elements x \<noteq> [] \<or>
       o_string_bytes x \<noteq> [] \<or> o_closure_captures x \<noteq> [] \<or> o_closure_capture_map x \<noteq> [] \<or>
       o_map_entries x \<noteq> [] \<or> tag (o_left x) \<noteq> Tag_Nil \<or> tag (o_right x) \<noteq> Tag_Nil \<or>
       tag (o_weak_target x) \<noteq> Tag_Nil \<or> \<not> reference_tag k) (Logic_error msg_ephemeron_shape))
     (ethen (ethrow_if (tag k = Tag_Nil \<and> tag v \<noteq> Tag_Nil) (Logic_error msg_ephemeron_cleared))
     (if o_ephemeron_value_is_ref x
      then ethrow_if (\<not> reference_tag v) (Logic_error msg_ephemeron_ref_value)
      else ethrow_if (tag k \<noteq> Tag_Nil \<and> \<not> scalar_tag v) (Logic_error msg_ephemeron_scalar_value))))"

definition shape_builder :: "gcobj \<Rightarrow> exn + unit" where
  "shape_builder x = ethen (ethrow_if (length (o_builder_bytes x) \<noteq> unat (o_length x))
       (Logic_error msg_builder_length))
     (ethen (ethrow_if (o_length x > o_builder_capacity x) (Logic_error msg_builder_over_capacity))
     (ethen (ethrow_if (\<not> is_builder_capacity (o_builder_capacity x)) (Logic_error msg_builder_ladder))
     (ethrow_if (o_scalar_elements x \<noteq> [] \<or> o_ref_elements x \<noteq> [] \<or> o_string_bytes x \<noteq> [] \<or>
       tag (o_left x) \<noteq> Tag_Nil \<or> tag (o_right x) \<noteq> Tag_Nil \<or> o_closure_layout_index x \<noteq> 0 \<or>
       o_closure_function_index x \<noteq> 0 \<or> o_closure_captures x \<noteq> [] \<or> o_closure_capture_map x \<noteq> [] \<or>
       o_map_layout_index x \<noteq> 0 \<or> o_map_key_is_ref x \<or> o_map_value_is_ref x \<or>
       o_map_entries x \<noteq> [] \<or> o_map_lookup_index x \<noteq> [] \<or> o_record_layout_index x \<noteq> 0 \<or>
       o_record_fields x \<noteq> [] \<or> o_record_ref_map x \<noteq> [] \<or> o_variant_layout_index x \<noteq> 0 \<or>
       o_variant_case_index x \<noteq> 0 \<or> o_variant_fields x \<noteq> [] \<or> o_variant_case_ref_maps x \<noteq> [] \<or>
       tag (o_weak_target x) \<noteq> Tag_Nil \<or> tag (o_ephemeron_key x) \<noteq> Tag_Nil \<or>
       tag (o_ephemeron_value x) \<noteq> Tag_Nil \<or> o_ephemeron_value_is_ref x)
       (Logic_error msg_builder_shape))))"

definition validate_descriptor_shape :: "gcobj \<Rightarrow> exn + unit" where
  "validate_descriptor_shape x = ethen (shape_foreign_payload x) (case o_kind x of
     Pair \<Rightarrow> shape_pair x
   | ScalarArray \<Rightarrow> shape_scalar_array x
   | RefArray \<Rightarrow> shape_ref_array x
   | Str \<Rightarrow> shape_str x
   | Closure \<Rightarrow> shape_closure x
   | Map_kind \<Rightarrow> shape_map x
   | WeakRef \<Rightarrow> shape_weak_ref x
   | Record_kind \<Rightarrow> shape_record x
   | Variant \<Rightarrow> shape_variant x
   | Ephemeron \<Rightarrow> shape_ephemeron x
   | Builder \<Rightarrow> shape_builder x)"

abbreviation shape_ok :: "gcobj \<Rightarrow> bool" where
  "shape_ok x \<equiv> validate_descriptor_shape x = Inr ()"

lemmas shape_defs = shape_foreign_payload_def shape_pair_def shape_scalar_array_def
  shape_ref_array_def shape_str_def shape_closure_def shape_map_def shape_weak_ref_def
  shape_record_def shape_variant_def shape_ephemeron_def shape_builder_def

subsection \<open>Constructors\<close>

definition msg_must_be_object :: "string \<Rightarrow> string" where
  "msg_must_be_object context = context @ '' must be an object reference''"
definition msg_scalar_array_limit :: string where
  "msg_scalar_array_limit = ''scalar array length exceeds object header limit''"
definition msg_ref_array_limit :: string where
  "msg_ref_array_limit = ''ref array length exceeds object header limit''"
definition msg_string_limit :: string where
  "msg_string_limit = ''string length exceeds object header limit''"
definition msg_closure_limit :: string where
  "msg_closure_limit = ''closure capture count exceeds object header limit''"
definition msg_closure_index_limit :: string where
  "msg_closure_index_limit = ''closure metadata index exceeds object header limit''"
definition msg_map_index_limit :: string where
  "msg_map_index_limit = ''map layout index exceeds object header limit''"
definition msg_record_limit :: string where
  "msg_record_limit = ''record field count exceeds object header limit''"
definition msg_record_index_limit :: string where
  "msg_record_index_limit = ''record layout index exceeds object header limit''"
definition msg_variant_limit :: string where
  "msg_variant_limit = ''variant field count exceeds object header limit''"
definition msg_variant_index_limit :: string where
  "msg_variant_index_limit = ''variant layout index exceeds object header limit''"
definition msg_variant_case_limit :: string where
  "msg_variant_case_limit = ''variant case tag exceeds object header limit''"
definition msg_ephemeron_ref_init :: string where
  "msg_ephemeron_ref_init = ''ephemeron reference value must be object or nil''"
definition msg_ephemeron_scalar_init :: string where
  "msg_ephemeron_scalar_init = ''ephemeron scalar value must be i64 or bool''"

definition ctx_ref_array_init :: string where "ctx_ref_array_init = ''ref array init value''"
definition ctx_weak_target :: string where "ctx_weak_target = ''weak reference target''"
definition ctx_ephemeron_key :: string where "ctx_ephemeron_key = ''ephemeron key''"

definition require_object_reference_value :: "val \<Rightarrow> string \<Rightarrow> exn + unit" where
  "require_object_reference_value v context =
     ethrow_if (\<not> is_object v) (Logic_error (msg_must_be_object context))"

definition object_pair :: "val \<Rightarrow> val \<Rightarrow> gcobj" where
  "object_pair l r = default_object\<lparr>o_kind := Pair, o_length := 2, o_left := l, o_right := r\<rparr>"

definition object_scalar_array :: "nat \<Rightarrow> i64 \<Rightarrow> exn + gcobj" where
  "object_scalar_array n init =
     ethen (ethrow_if (n > uint32_max) (Length_error msg_scalar_array_limit))
     (Inr (default_object\<lparr>o_kind := ScalarArray, o_length := of_nat n,
       o_scalar_elements := replicate n init\<rparr>))"

definition object_ref_array :: "nat \<Rightarrow> val \<Rightarrow> exn + gcobj" where
  "object_ref_array n init =
     ethen (ethrow_if (n > uint32_max) (Length_error msg_ref_array_limit))
     (ethen (require_object_reference_value init ctx_ref_array_init)
     (Inr (default_object\<lparr>o_kind := RefArray, o_length := of_nat n,
       o_ref_elements := replicate n init\<rparr>)))"

definition object_string :: "u8 list \<Rightarrow> exn + gcobj" where
  "object_string bytes =
     ethen (ethrow_if (length bytes > uint32_max) (Length_error msg_string_limit))
     (Inr (default_object\<lparr>o_kind := Str, o_length := of_nat (length bytes),
       o_string_bytes := bytes\<rparr>))"

text \<open>The result of a constructor that ends with \<open>validate_descriptor_shape(object)\<close>.\<close>

definition validated :: "gcobj \<Rightarrow> exn + gcobj" where
  "validated x = ethen (validate_descriptor_shape x) (Inr x)"

definition object_builder :: "exn + gcobj" where
  "object_builder = validated (default_object\<lparr>o_kind := Builder, o_length := 0,
     o_builder_capacity := kBuilderInitialCapacity\<rparr>)"

definition object_closure :: "nat \<Rightarrow> nat \<Rightarrow> val list \<Rightarrow> bool list \<Rightarrow> exn + gcobj" where
  "object_closure layout_index function_index captures capture_map =
     ethen (ethrow_if (length captures > uint32_max) (Length_error msg_closure_limit))
     (ethen (ethrow_if (layout_index > uint32_max \<or> function_index > uint32_max)
       (Length_error msg_closure_index_limit))
     (validated (default_object\<lparr>o_kind := Closure, o_length := of_nat (length captures),
       o_closure_layout_index := of_nat layout_index,
       o_closure_function_index := of_nat function_index,
       o_closure_captures := captures, o_closure_capture_map := capture_map\<rparr>)))"

definition object_map :: "nat \<Rightarrow> bool \<Rightarrow> bool \<Rightarrow> exn + gcobj" where
  "object_map layout_index key_is_ref value_is_ref =
     ethen (ethrow_if (layout_index > uint32_max) (Length_error msg_map_index_limit))
     (validated (default_object\<lparr>o_kind := Map_kind, o_length := 0,
       o_map_layout_index := of_nat layout_index, o_map_key_is_ref := key_is_ref,
       o_map_value_is_ref := value_is_ref\<rparr>))"

definition object_weak_ref :: "val \<Rightarrow> exn + gcobj" where
  "object_weak_ref target =
     ethen (require_object_reference_value target ctx_weak_target)
     (validated (default_object\<lparr>o_kind := WeakRef, o_length := 1, o_weak_target := target\<rparr>))"

definition object_ephemeron :: "val \<Rightarrow> val \<Rightarrow> bool \<Rightarrow> exn + gcobj" where
  "object_ephemeron key value value_is_ref =
     ethen (require_object_reference_value key ctx_ephemeron_key)
     (ethen (if value_is_ref
         then ethrow_if (\<not> reference_tag value) (Logic_error msg_ephemeron_ref_init)
         else ethrow_if (\<not> scalar_tag value) (Logic_error msg_ephemeron_scalar_init))
     (validated (default_object\<lparr>o_kind := Ephemeron, o_length := 2, o_ephemeron_key := key,
       o_ephemeron_value := value, o_ephemeron_value_is_ref := value_is_ref\<rparr>)))"

definition object_record :: "nat \<Rightarrow> val list \<Rightarrow> bool list \<Rightarrow> exn + gcobj" where
  "object_record layout_index vs ref_map =
     ethen (ethrow_if (length vs > uint32_max) (Length_error msg_record_limit))
     (ethen (ethrow_if (layout_index > uint32_max) (Length_error msg_record_index_limit))
     (validated (default_object\<lparr>o_kind := Record_kind, o_length := of_nat (length vs),
       o_record_layout_index := of_nat layout_index, o_record_fields := vs,
       o_record_ref_map := ref_map\<rparr>)))"

definition object_variant :: "nat \<Rightarrow> nat \<Rightarrow> val list \<Rightarrow> bool list list \<Rightarrow> exn + gcobj" where
  "object_variant layout_index case_index vs case_ref_maps =
     ethen (ethrow_if (case_index \<ge> length case_ref_maps) (Logic_error msg_variant_tag_range))
     (ethen (ethrow_if (length (case_ref_maps ! case_index) \<noteq> length vs)
       (Logic_error msg_variant_width))
     (ethen (ethrow_if (length vs > uint32_max) (Length_error msg_variant_limit))
     (ethen (ethrow_if (layout_index > uint32_max) (Length_error msg_variant_index_limit))
     (ethen (ethrow_if (case_index > uint32_max) (Length_error msg_variant_case_limit))
     (validated (default_object\<lparr>o_kind := Variant, o_length := of_nat (length vs),
       o_variant_layout_index := of_nat layout_index, o_variant_case_index := of_nat case_index,
       o_variant_fields := vs, o_variant_case_ref_maps := case_ref_maps\<rparr>))))))"

lemmas object_constructor_defs = object_pair_def object_scalar_array_def object_ref_array_def
  object_string_def object_builder_def object_closure_def object_map_def object_weak_ref_def
  object_ephemeron_def object_record_def object_variant_def validated_def
  require_object_reference_value_def

lemma unat_of_nat_u32: "n \<le> uint32_max \<Longrightarrow> unat (of_nat n :: u32) = n"
  by (simp add: unat_of_nat uint32_max_def)

text \<open>Whatever a constructor returns has a valid shape.\<close>

lemma default_object_sel [simp]:
  "o_builder_capacity default_object = 0" "o_builder_bytes default_object = []"
  "o_map_lookup_index default_object = []" "o_ephemeron_key default_object = VNil"
  "o_ephemeron_value default_object = VNil" "o_record_fields default_object = []"
  "o_record_ref_map default_object = []" "o_variant_fields default_object = []"
  "o_variant_case_ref_maps default_object = []" "o_scalar_elements default_object = []"
  "o_ref_elements default_object = []" "o_string_bytes default_object = []"
  "o_closure_captures default_object = []" "o_closure_capture_map default_object = []"
  "o_map_entries default_object = []" "o_weak_target default_object = VNil"
  "o_left default_object = VNil" "o_right default_object = VNil"
  by (simp_all add: default_object_def)

lemma object_pair_shape: "shape_ok (object_pair l r)"
  by (simp add: object_pair_def validate_descriptor_shape_def shape_foreign_payload_def
      shape_pair_def)

lemma object_scalar_array_shape: "object_scalar_array n i = Inr x \<Longrightarrow> shape_ok x"
  by (auto simp: object_scalar_array_def ethen_Inr_iff validate_descriptor_shape_def
      shape_foreign_payload_def shape_scalar_array_def unat_of_nat_u32)

lemma object_ref_array_shape: "object_ref_array n i = Inr x \<Longrightarrow> shape_ok x"
  by (auto simp: object_ref_array_def ethen_Inr_iff validate_descriptor_shape_def
      shape_foreign_payload_def shape_ref_array_def unat_of_nat_u32)

lemma object_string_shape: "object_string bytes = Inr x \<Longrightarrow> shape_ok x"
  by (auto simp: object_string_def ethen_Inr_iff validate_descriptor_shape_def
      shape_foreign_payload_def shape_str_def unat_of_nat_u32)

subsection \<open>The visitor of the strong reference fields\<close>

text \<open>
  \<open>masked bs xs\<close> are the entries of \<open>xs\<close> whose bit is set, in order;
  \<open>emap_masked f bs xs\<close> passes exactly those through \<open>f\<close>.
\<close>

definition masked :: "bool list \<Rightarrow> 'a list \<Rightarrow> 'a list" where
  "masked bs xs = map snd (filter fst (zip bs xs))"

fun emap_masked :: "('a \<Rightarrow> exn + 'a) \<Rightarrow> bool list \<Rightarrow> 'a list \<Rightarrow> exn + 'a list" where
  "emap_masked f (b # bs) (x # xs) =
     ebind (if b then f x else Inr x) (\<lambda>y. ebind (emap_masked f bs xs) (\<lambda>ys. Inr (y # ys)))"
| "emap_masked f _ xs = Inr xs"

fun map_masked :: "('a \<Rightarrow> 'a) \<Rightarrow> bool list \<Rightarrow> 'a list \<Rightarrow> 'a list" where
  "map_masked g (b # bs) (x # xs) = (if b then g x else x) # map_masked g bs xs"
| "map_masked g _ xs = xs"

text \<open>The values \<open>visit_reference_fields\<close> passes to its callback, in order.\<close>

definition reference_fields :: "gcobj \<Rightarrow> val list" where
  "reference_fields x = (case o_kind x of
     Pair \<Rightarrow> [o_left x, o_right x]
   | ScalarArray \<Rightarrow> []
   | RefArray \<Rightarrow> o_ref_elements x
   | Str \<Rightarrow> []
   | Closure \<Rightarrow> masked (o_closure_capture_map x) (o_closure_captures x)
   | Map_kind \<Rightarrow> concat (map (\<lambda>e. (if o_map_key_is_ref x then [e_key e] else []) @
        (if o_map_value_is_ref x then [e_value e] else [])) (o_map_entries x))
   | WeakRef \<Rightarrow> []
   | Record_kind \<Rightarrow> masked (o_record_ref_map x) (o_record_fields x)
   | Variant \<Rightarrow> masked (selected_ref_map x) (o_variant_fields x)
   | Ephemeron \<Rightarrow> []
   | Builder \<Rightarrow> [])"

definition visit_reference_fields :: "gcobj \<Rightarrow> exn + val list" where
  "visit_reference_fields x = ethen (validate_descriptor_shape x) (Inr (reference_fields x))"

text \<open>The same fields in the order \<open>visit_reference_fields_for_lifo_marking\<close> pushes them.\<close>

definition lifo_reference_fields :: "gcobj \<Rightarrow> val list" where
  "lifo_reference_fields x = (case o_kind x of
     Pair \<Rightarrow> [o_right x, o_left x]
   | ScalarArray \<Rightarrow> []
   | RefArray \<Rightarrow> rev (o_ref_elements x)
   | Str \<Rightarrow> []
   | Closure \<Rightarrow> masked (rev (o_closure_capture_map x)) (rev (o_closure_captures x))
   | Map_kind \<Rightarrow> concat (map (\<lambda>e. (if o_map_value_is_ref x then [e_value e] else []) @
        (if o_map_key_is_ref x then [e_key e] else [])) (rev (o_map_entries x)))
   | WeakRef \<Rightarrow> []
   | Record_kind \<Rightarrow> masked (rev (o_record_ref_map x)) (rev (o_record_fields x))
   | Variant \<Rightarrow> masked (rev (selected_ref_map x)) (rev (o_variant_fields x))
   | Ephemeron \<Rightarrow> []
   | Builder \<Rightarrow> [])"

definition visit_reference_fields_for_lifo_marking :: "gcobj \<Rightarrow> exn + val list" where
  "visit_reference_fields_for_lifo_marking x =
     ethen (validate_descriptor_shape x) (Inr (lifo_reference_fields x))"

definition rewrite_map_entry :: "(val \<Rightarrow> exn + val) \<Rightarrow> bool \<Rightarrow> bool \<Rightarrow> map_entry \<Rightarrow> exn + map_entry" where
  "rewrite_map_entry f key_is_ref value_is_ref e =
     ebind (if key_is_ref then f (e_key e) else Inr (e_key e)) (\<lambda>k.
     ebind (if value_is_ref then f (e_value e) else Inr (e_value e)) (\<lambda>v.
     Inr (e\<lparr>e_key := k, e_value := v\<rparr>)))"

text \<open>The mutable overload: the callback \<open>fn(Value&)\<close> replaces each field by its result.\<close>

definition update_reference_fields :: "(val \<Rightarrow> exn + val) \<Rightarrow> gcobj \<Rightarrow> exn + gcobj" where
  "update_reference_fields f x = ethen (validate_descriptor_shape x) (case o_kind x of
     Pair \<Rightarrow> ebind (f (o_left x)) (\<lambda>l. ebind (f (o_right x)) (\<lambda>r.
        Inr (x\<lparr>o_left := l, o_right := r\<rparr>)))
   | ScalarArray \<Rightarrow> Inr x
   | RefArray \<Rightarrow> ebind (emap f (o_ref_elements x)) (\<lambda>vs. Inr (x\<lparr>o_ref_elements := vs\<rparr>))
   | Str \<Rightarrow> Inr x
   | Closure \<Rightarrow> ebind (emap_masked f (o_closure_capture_map x) (o_closure_captures x))
        (\<lambda>vs. Inr (x\<lparr>o_closure_captures := vs\<rparr>))
   | Map_kind \<Rightarrow> ebind (emap (rewrite_map_entry f (o_map_key_is_ref x) (o_map_value_is_ref x))
        (o_map_entries x)) (\<lambda>es. Inr (x\<lparr>o_map_entries := es\<rparr>))
   | WeakRef \<Rightarrow> Inr x
   | Record_kind \<Rightarrow> ebind (emap_masked f (o_record_ref_map x) (o_record_fields x))
        (\<lambda>vs. Inr (x\<lparr>o_record_fields := vs\<rparr>))
   | Variant \<Rightarrow> ebind (emap_masked f (selected_ref_map x) (o_variant_fields x))
        (\<lambda>vs. Inr (x\<lparr>o_variant_fields := vs\<rparr>))
   | Ephemeron \<Rightarrow> Inr x
   | Builder \<Rightarrow> Inr x)"

text \<open>The same update with a function that cannot throw.\<close>

definition map_reference_fields :: "(val \<Rightarrow> val) \<Rightarrow> gcobj \<Rightarrow> gcobj" where
  "map_reference_fields g x = (case o_kind x of
     Pair \<Rightarrow> x\<lparr>o_left := g (o_left x), o_right := g (o_right x)\<rparr>
   | RefArray \<Rightarrow> x\<lparr>o_ref_elements := map g (o_ref_elements x)\<rparr>
   | Closure \<Rightarrow> x\<lparr>o_closure_captures := map_masked g (o_closure_capture_map x) (o_closure_captures x)\<rparr>
   | Map_kind \<Rightarrow> x\<lparr>o_map_entries := map (\<lambda>e. e\<lparr>
        e_key := (if o_map_key_is_ref x then g (e_key e) else e_key e),
        e_value := (if o_map_value_is_ref x then g (e_value e) else e_value e)\<rparr>) (o_map_entries x)\<rparr>
   | Record_kind \<Rightarrow> x\<lparr>o_record_fields := map_masked g (o_record_ref_map x) (o_record_fields x)\<rparr>
   | Variant \<Rightarrow> x\<lparr>o_variant_fields := map_masked g (selected_ref_map x) (o_variant_fields x)\<rparr>
   | _ \<Rightarrow> x)"

subsection \<open>The visitor is exact\<close>

lemma masked_simps [simp]:
  "masked [] xs = []"
  "masked bs [] = []"
  "masked (True # bs) (x # xs) = x # masked bs xs"
  "masked (False # bs) (x # xs) = masked bs xs"
  by (simp_all add: masked_def)

lemma rev_masked:
  "length bs = length xs \<Longrightarrow> masked (rev bs) (rev xs) = rev (masked bs xs)"
  by (simp add: masked_def zip_rev rev_filter rev_map)

lemma emap_masked_map:
  "(\<And>x. x \<in> set (masked bs xs) \<Longrightarrow> f x = Inr (g x)) \<Longrightarrow>
   emap_masked f bs xs = Inr (map_masked g bs xs)"
proof (induction f bs xs rule: emap_masked.induct)
  case (1 f b bs x xs)
  then show ?case by (cases b) simp_all
qed simp_all

lemma map_masked_length [simp]: "length (map_masked g bs xs) = length xs"
  by (induction g bs xs rule: map_masked.induct) auto

lemma masked_map_masked [simp]: "masked bs (map_masked g bs xs) = map g (masked bs xs)"
proof (induction g bs xs rule: map_masked.induct)
  case (1 g b bs x xs)
  then show ?case by (cases b) simp_all
qed simp_all

lemma zip_map_masked:
  "(\<forall>p\<in>set (zip (map_masked g bs xs) bs). P p) \<longleftrightarrow>
   (\<forall>(x, b)\<in>set (zip xs bs). P (if b then g x else x, b))"
proof (induction g bs xs rule: map_masked.induct)
  case (1 g b bs x xs)
  then show ?case by simp
qed (auto split: list.splits)

lemma rev_concat_map: "concat (map f (rev xs)) = rev (concat (map (\<lambda>x. rev (f x)) xs))"
  by (induction xs) simp_all

lemma lifo_is_reverse:
  assumes "shape_ok x"
  shows "lifo_reference_fields x = rev (reference_fields x)"
proof -
  have "o_kind x = Closure \<Longrightarrow> length (o_closure_capture_map x) = length (o_closure_captures x)"
    "o_kind x = Record_kind \<Longrightarrow> length (o_record_ref_map x) = length (o_record_fields x)"
    "o_kind x = Variant \<Longrightarrow> length (selected_ref_map x) = length (o_variant_fields x)"
    using assms
    by (auto simp: validate_descriptor_shape_def shape_closure_def shape_record_def
        shape_variant_def ethen_Inr_iff)
  then show ?thesis
    by (cases "o_kind x")
      (auto simp: lifo_reference_fields_def reference_fields_def rev_masked rev_concat_map
        intro!: arg_cong [where f = concat])
qed

text \<open>
  For a callback that does not throw on the object's fields, the visitor succeeds and
  changes exactly the reference fields.
\<close>

lemma update_reference_fields_map:
  assumes "shape_ok x" and "\<And>v. v \<in> set (reference_fields x) \<Longrightarrow> f v = Inr (g v)"
  shows "update_reference_fields f x = Inr (map_reference_fields g x)"
proof -
  have entries: "emap (rewrite_map_entry f k v) es = Inr (map (\<lambda>e. e\<lparr>
        e_key := (if k then g (e_key e) else e_key e),
        e_value := (if v then g (e_value e) else e_value e)\<rparr>) es)"
    if "\<And>w. w \<in> set (concat (map (\<lambda>e. (if k then [e_key e] else []) @
        (if v then [e_value e] else [])) es)) \<Longrightarrow> f w = Inr (g w)" for k v es
  proof (rule emap_map)
    fix e assume e: "e \<in> set es"
    have "k \<Longrightarrow> f (e_key e) = Inr (g (e_key e))" "v \<Longrightarrow> f (e_value e) = Inr (g (e_value e))"
      by (rule that; use e in auto)+
    then show "rewrite_map_entry f k v e = Inr (e\<lparr>
        e_key := (if k then g (e_key e) else e_key e),
        e_value := (if v then g (e_value e) else e_value e)\<rparr>)"
      by (simp add: rewrite_map_entry_def)
  qed
  show ?thesis
  proof (cases "o_kind x = Map_kind")
    case True
    have "v \<in> set (reference_fields x) \<Longrightarrow> f v = Inr (g v)" for v by (rule assms(2))
    with True assms(1) show ?thesis
      by (simp add: update_reference_fields_def map_reference_fields_def entries
          reference_fields_def del: set_concat)
  next
    case False
    with assms show ?thesis
      by (cases "o_kind x")
        (simp_all add: update_reference_fields_def map_reference_fields_def reference_fields_def
          emap_map emap_masked_map)
  qed
qed

lemma update_reference_fields_shape:
  "update_reference_fields f x = Inr y \<Longrightarrow> shape_ok x"
  by (simp add: update_reference_fields_def ethen_Inr_iff)

lemma map_reference_fields_frame [simp]:
  "o_kind (map_reference_fields g x) = o_kind x"
  "o_marked (map_reference_fields g x) = o_marked x"
  "o_generation (map_reference_fields g x) = o_generation x"
  "o_length (map_reference_fields g x) = o_length x"
  "o_scalar_elements (map_reference_fields g x) = o_scalar_elements x"
  "o_string_bytes (map_reference_fields g x) = o_string_bytes x"
  "o_builder_capacity (map_reference_fields g x) = o_builder_capacity x"
  "o_builder_bytes (map_reference_fields g x) = o_builder_bytes x"
  "o_closure_layout_index (map_reference_fields g x) = o_closure_layout_index x"
  "o_closure_function_index (map_reference_fields g x) = o_closure_function_index x"
  "o_closure_capture_map (map_reference_fields g x) = o_closure_capture_map x"
  "o_map_layout_index (map_reference_fields g x) = o_map_layout_index x"
  "o_map_key_is_ref (map_reference_fields g x) = o_map_key_is_ref x"
  "o_map_value_is_ref (map_reference_fields g x) = o_map_value_is_ref x"
  "o_map_lookup_index (map_reference_fields g x) = o_map_lookup_index x"
  "o_record_layout_index (map_reference_fields g x) = o_record_layout_index x"
  "o_record_ref_map (map_reference_fields g x) = o_record_ref_map x"
  "o_variant_layout_index (map_reference_fields g x) = o_variant_layout_index x"
  "o_variant_case_index (map_reference_fields g x) = o_variant_case_index x"
  "o_variant_case_ref_maps (map_reference_fields g x) = o_variant_case_ref_maps x"
  "o_weak_target (map_reference_fields g x) = o_weak_target x"
  "o_ephemeron_key (map_reference_fields g x) = o_ephemeron_key x"
  "o_ephemeron_value (map_reference_fields g x) = o_ephemeron_value x"
  "o_ephemeron_value_is_ref (map_reference_fields g x) = o_ephemeron_value_is_ref x"
  "selected_ref_map (map_reference_fields g x) = selected_ref_map x"
  by (cases "o_kind x"; simp add: map_reference_fields_def selected_ref_map_def)+

lemma storage_slot_count_map_reference_fields [simp]:
  "storage_slot_count (map_reference_fields g x) = storage_slot_count x"
  by (cases "o_kind x") (simp_all add: storage_slot_count_def)

lemma reference_fields_map [simp]:
  "reference_fields (map_reference_fields g x) = map g (reference_fields x)"
proof -
  have "concat (map (\<lambda>e. (if k then [e_key e] else []) @ (if v then [e_value e] else []))
      (map (\<lambda>e. e\<lparr>e_key := (if k then g (e_key e) else e_key e),
        e_value := (if v then g (e_value e) else e_value e)\<rparr>) es))
    = map g (concat (map (\<lambda>e. (if k then [e_key e] else []) @ (if v then [e_value e] else [])) es))"
    for k v es
    by (induction es) simp_all
  then show ?thesis
    by (cases "o_kind x")
      (simp_all add: reference_fields_def map_reference_fields_def selected_ref_map_def)
qed

lemma tag_preserving_tags:
  assumes "\<And>v. tag (g v) = tag v"
  shows "reference_tag (g v) = reference_tag v" "scalar_tag (g v) = scalar_tag v"
    "is_object (g v) = is_object v" "(g v = VNil) = (v = VNil)"
  using assms [of v] unfolding reference_tag_def scalar_tag_def
  by (simp_all del: tag_simps add: tag_simps(1,2) [symmetric])

lemma shape_map_reference_fields [simp]:
  assumes "\<And>v. tag (g v) = tag v" and "shape_ok x"
  shows "shape_ok (map_reference_fields g x)"
proof -
  note t = tag_preserving_tags [OF assms(1)]
  show ?thesis
    using assms(2)
    by (cases "o_kind x")
      (auto simp: validate_descriptor_shape_def ethen_Inr_iff shape_defs eall_ok_iff
        map_reference_fields_def selected_ref_map_def t zip_map_masked case_prod_unfold
        split: if_splits)
qed

text \<open>Updates of the fields the collector owns do not touch the descriptor.\<close>

lemma shape_frame [simp]:
  "validate_descriptor_shape (x\<lparr>o_marked := b\<rparr>) = validate_descriptor_shape x"
  "validate_descriptor_shape (x\<lparr>o_generation := r\<rparr>) = validate_descriptor_shape x"
  "reference_fields (x\<lparr>o_marked := b\<rparr>) = reference_fields x"
  "reference_fields (x\<lparr>o_generation := r\<rparr>) = reference_fields x"
  "storage_slot_count (x\<lparr>o_marked := b\<rparr>) = storage_slot_count x"
  "storage_slot_count (x\<lparr>o_generation := r\<rparr>) = storage_slot_count x"
  by (cases "o_kind x"; simp add: validate_descriptor_shape_def shape_defs selected_ref_map_def
      reference_fields_def storage_slot_count_def)+

subsection \<open>What a rewriting of the references changes\<close>

text \<open>
  The contract of the visitor, field by field: \<open>same_descriptor\<close> lists the fields no visitor
  may touch, \<open>references_rewritten g\<close> says for each field that can hold a reference when it is
  one (by the kind, the capture map, the reference bitmaps, the key and value flags) and that it
  is then the image under \<open>g\<close>, and unchanged otherwise.
\<close>

definition same_descriptor :: "gcobj \<Rightarrow> gcobj \<Rightarrow> bool" where
  "same_descriptor x y \<longleftrightarrow> o_kind y = o_kind x \<and> o_length y = o_length x \<and>
     o_scalar_elements y = o_scalar_elements x \<and> o_string_bytes y = o_string_bytes x \<and>
     o_builder_capacity y = o_builder_capacity x \<and> o_builder_bytes y = o_builder_bytes x \<and>
     o_closure_layout_index y = o_closure_layout_index x \<and>
     o_closure_function_index y = o_closure_function_index x \<and>
     o_closure_capture_map y = o_closure_capture_map x \<and>
     o_map_layout_index y = o_map_layout_index x \<and> o_map_key_is_ref y = o_map_key_is_ref x \<and>
     o_map_value_is_ref y = o_map_value_is_ref x \<and> o_map_lookup_index y = o_map_lookup_index x \<and>
     o_record_layout_index y = o_record_layout_index x \<and> o_record_ref_map y = o_record_ref_map x \<and>
     o_variant_layout_index y = o_variant_layout_index x \<and>
     o_variant_case_index y = o_variant_case_index x \<and>
     o_variant_case_ref_maps y = o_variant_case_ref_maps x \<and>
     o_ephemeron_value_is_ref y = o_ephemeron_value_is_ref x"

definition rewritten_fields :: "(val \<Rightarrow> val) \<Rightarrow> (nat \<Rightarrow> bool) \<Rightarrow> val list \<Rightarrow> val list \<Rightarrow> bool" where
  "rewritten_fields g is_reference vs ws \<longleftrightarrow> length ws = length vs \<and>
     (\<forall>n<length vs. ws ! n = (if is_reference n then g (vs ! n) else vs ! n))"

definition references_rewritten :: "(val \<Rightarrow> val) \<Rightarrow> gcobj \<Rightarrow> gcobj \<Rightarrow> bool" where
  "references_rewritten g x y \<longleftrightarrow>
     o_left y = (if o_kind x = Pair then g (o_left x) else o_left x) \<and>
     o_right y = (if o_kind x = Pair then g (o_right x) else o_right x) \<and>
     rewritten_fields g (\<lambda>_. o_kind x = RefArray) (o_ref_elements x) (o_ref_elements y) \<and>
     rewritten_fields g (\<lambda>n. o_kind x = Closure \<and> o_closure_capture_map x ! n)
       (o_closure_captures x) (o_closure_captures y) \<and>
     rewritten_fields g (\<lambda>_. o_kind x = Map_kind \<and> o_map_key_is_ref x)
       (map e_key (o_map_entries x)) (map e_key (o_map_entries y)) \<and>
     rewritten_fields g (\<lambda>_. o_kind x = Map_kind \<and> o_map_value_is_ref x)
       (map e_value (o_map_entries x)) (map e_value (o_map_entries y)) \<and>
     rewritten_fields g (\<lambda>n. o_kind x = Record_kind \<and> o_record_ref_map x ! n)
       (o_record_fields x) (o_record_fields y) \<and>
     rewritten_fields g (\<lambda>n. o_kind x = Variant \<and> selected_ref_map x ! n)
       (o_variant_fields x) (o_variant_fields y)"

lemma rewritten_fields_map: "rewritten_fields g (\<lambda>_. b) vs (map (\<lambda>v. if b then g v else v) vs)"
  by (simp add: rewritten_fields_def)

lemma rewritten_fields_masked:
  "length bs = length vs \<Longrightarrow> rewritten_fields g (\<lambda>n. bs ! n) vs (map_masked g bs vs)"
proof (induction g bs vs rule: map_masked.induct)
  case (1 g b bs x xs)
  then show ?case by (auto simp: rewritten_fields_def nth_Cons split: nat.splits)
qed (simp_all add: rewritten_fields_def)

lemma rewritten_fields_same: "rewritten_fields g (\<lambda>_. False) vs vs"
  by (simp add: rewritten_fields_def)

lemma same_descriptor_map: "same_descriptor x (map_reference_fields g x)"
  by (simp add: same_descriptor_def)

lemma references_rewritten_map:
  assumes "shape_ok x"
  shows "references_rewritten g x (map_reference_fields g x)"
proof -
  have "o_kind x = Closure \<Longrightarrow> length (o_closure_capture_map x) = length (o_closure_captures x)"
    "o_kind x = Record_kind \<Longrightarrow> length (o_record_ref_map x) = length (o_record_fields x)"
    "o_kind x = Variant \<Longrightarrow> length (selected_ref_map x) = length (o_variant_fields x)"
    using assms
    by (auto simp: validate_descriptor_shape_def shape_closure_def shape_record_def
        shape_variant_def ethen_Inr_iff)
  then show ?thesis
    by (cases "o_kind x")
      (simp_all add: references_rewritten_def map_reference_fields_def rewritten_fields_same
        rewritten_fields_masked, simp_all add: rewritten_fields_def)
qed

subsection \<open>Equality of objects\<close>

definition objects_equal :: "gcobj \<Rightarrow> gcobj \<Rightarrow> bool" where
  "objects_equal x y \<longleftrightarrow> o_marked x = o_marked y \<and> o_generation x = o_generation y \<and>
     o_kind x = o_kind y \<and> o_length x = o_length y \<and> values_equal (o_left x) (o_left y) \<and>
     values_equal (o_right x) (o_right y) \<and> o_scalar_elements x = o_scalar_elements y \<and>
     list_all2 values_equal (o_ref_elements x) (o_ref_elements y) \<and>
     o_string_bytes x = o_string_bytes y \<and> o_builder_capacity x = o_builder_capacity y \<and>
     o_builder_bytes x = o_builder_bytes y \<and>
     o_closure_layout_index x = o_closure_layout_index y \<and>
     o_closure_function_index x = o_closure_function_index y \<and>
     list_all2 values_equal (o_closure_captures x) (o_closure_captures y) \<and>
     o_closure_capture_map x = o_closure_capture_map y \<and>
     o_map_layout_index x = o_map_layout_index y \<and> o_map_key_is_ref x = o_map_key_is_ref y \<and>
     o_map_value_is_ref x = o_map_value_is_ref y \<and>
     list_all2 (\<lambda>a b. values_equal (e_key a) (e_key b) \<and> values_equal (e_value a) (e_value b))
       (o_map_entries x) (o_map_entries y) \<and>
     o_map_lookup_index x = o_map_lookup_index y \<and>
     o_record_layout_index x = o_record_layout_index y \<and>
     list_all2 values_equal (o_record_fields x) (o_record_fields y) \<and>
     o_record_ref_map x = o_record_ref_map y \<and>
     o_variant_layout_index x = o_variant_layout_index y \<and>
     o_variant_case_index x = o_variant_case_index y \<and>
     list_all2 values_equal (o_variant_fields x) (o_variant_fields y) \<and>
     o_variant_case_ref_maps x = o_variant_case_ref_maps y \<and>
     values_equal (o_weak_target x) (o_weak_target y) \<and>
     values_equal (o_ephemeron_key x) (o_ephemeron_key y) \<and>
     values_equal (o_ephemeron_value x) (o_ephemeron_value y) \<and>
     o_ephemeron_value_is_ref x = o_ephemeron_value_is_ref y"

lemma list_all2_values_equal [simp]: "list_all2 values_equal xs ys \<longleftrightarrow> xs = ys"
  by (induction xs ys rule: list_induct2') auto

lemma list_all2_entries_equal:
  "list_all2 (\<lambda>a b. e_key a = e_key b \<and> e_value a = e_value b) xs ys \<longleftrightarrow> xs = (ys :: map_entry list)"
  by (induction xs ys rule: list_induct2') auto

lemma objects_equal_iff: "objects_equal x y \<longleftrightarrow> x = y"
  by (auto simp: objects_equal_def list_all2_entries_equal intro!: gcobj.equality)

subsection \<open>Properties\<close>

text \<open>C31. Growing a builder from a capacity of the ladder succeeds for every length a header can
  record, and the new capacity is on the ladder, holds the required length, never shrinks, and
  exceeds the required length by less than a factor of two unless nothing had to grow.\<close>

theorem builder_growth_reaches_required:
  assumes "is_builder_capacity current" and "required \<le> uint32_max"
  shows "\<exists>c. builder_capacity_for_required current required = Inr c \<and> is_builder_capacity c \<and>
    required \<le> unat c \<and> unat current \<le> unat c \<and> (c = current \<or> unat c \<le> 2 * (required - 1))"
  using builder_capacity_loop_ok [OF assms] assms
  by (simp only: builder_capacity_for_required_def ethrow_if_simps ethen_simps simp_thms
      sum.inject not_less [symmetric])

lemma builder_growth_reaches_required_witness:
  "\<exists>c. builder_capacity_for_required 8 20 = Inr c \<and> is_builder_capacity c \<and>
    20 \<le> unat c \<and> unat (8 :: u32) \<le> unat c \<and> (c = 8 \<or> unat c \<le> 2 * (20 - 1))"
  by (rule builder_growth_reaches_required)
    (simp_all add: is_builder_capacity_def kBuilderInitialCapacity_def uint32_max_def)

text \<open>C29. The reference visitor is exact: on an object of valid shape, a callback that replaces each
  reference field \<open>v\<close> by \<open>g v\<close> succeeds and the fields read afterwards are the images of the fields
  read before in the same order.  Nothing else changes: a field, capture, array element, map key or
  map value that the kind and its masks do not make a reference keeps its value, every list keeps
  its length, and the mark, the generation, the descriptor (kind, length, layouts, masks, case,
  bytes, scalars, capacity, lookup index), the weak target and the ephemeron pair are untouched.\<close>

theorem visitor_rewrites_exactly_the_references:
  assumes "visit_reference_fields x = Inr vs" and "\<forall>v\<in>set vs. f v = Inr (g v)"
    and "\<forall>v. tag (g v) = tag v"
  shows "\<exists>y. update_reference_fields f x = Inr y \<and> visit_reference_fields y = Inr (map g vs) \<and>
    o_marked y = o_marked x \<and> o_generation y = o_generation x \<and>
    same_descriptor x y \<and> references_rewritten g x y \<and>
    storage_slot_count y = storage_slot_count x \<and> o_weak_target y = o_weak_target x \<and>
    o_ephemeron_key y = o_ephemeron_key x \<and> o_ephemeron_value y = o_ephemeron_value x"
proof -
  have x: "shape_ok x" "vs = reference_fields x"
    using assms(1) by (auto simp: visit_reference_fields_def ethen_Inr_iff)
  have "update_reference_fields f x = Inr (map_reference_fields g x)"
    using update_reference_fields_map [OF x(1)] assms(2) x(2) by blast
  moreover have "shape_ok (map_reference_fields g x)"
    using assms(3) x(1) by (intro shape_map_reference_fields) auto
  ultimately show ?thesis
    using x by (simp add: visit_reference_fields_def same_descriptor_map references_rewritten_map)
qed

text \<open>A record with a reference and a scalar field, whose reference field alone is replaced.\<close>

definition sample_record :: gcobj where
  "sample_record = default_object\<lparr>o_kind := Record_kind, o_length := 2,
     o_record_fields := [VObject 5, VInt64 7], o_record_ref_map := [True, False]\<rparr>"

fun move_sample :: "val \<Rightarrow> val" where
  "move_sample (VObject i) = VObject (i + 1)"
| "move_sample v = v"

lemma visitor_rewrites_exactly_the_references_witness:
  "\<exists>y. update_reference_fields (\<lambda>v. Inr (move_sample v)) sample_record = Inr y \<and>
    visit_reference_fields y = Inr (map move_sample [VObject 5]) \<and>
    o_marked y = o_marked sample_record \<and> o_generation y = o_generation sample_record \<and>
    same_descriptor sample_record y \<and> references_rewritten move_sample sample_record y \<and>
    storage_slot_count y = storage_slot_count sample_record \<and>
    o_weak_target y = o_weak_target sample_record \<and>
    o_ephemeron_key y = o_ephemeron_key sample_record \<and>
    o_ephemeron_value y = o_ephemeron_value sample_record"
proof (rule visitor_rewrites_exactly_the_references)
  show "visit_reference_fields sample_record = Inr [VObject 5]" by code_simp
  show "\<forall>v. tag (move_sample v) = tag v"
  proof
    show "tag (move_sample v) = tag v" for v by (cases v) simp_all
  qed
qed simp

text \<open>C30. The marking visitor pushes the same fields as the visitor, in exactly the reverse order, so
  that popping the mark stack follows the visiting order, and both fail on the same objects.\<close>

theorem lifo_marking_reverses_the_visit:
  "visit_reference_fields_for_lifo_marking x =
     (case visit_reference_fields x of Inl e \<Rightarrow> Inl e | Inr vs \<Rightarrow> Inr (rev vs))"
  by (cases "validate_descriptor_shape x")
    (simp_all add: visit_reference_fields_for_lifo_marking_def visit_reference_fields_def
      lifo_is_reverse)

end
