(* ===== verification/GC_MapIndex.thy ===== *)
theory GC_MapIndex
  imports GC_Object
begin

text \<open>
  The lookup index of a map object (ADR 0017; \<open>find_open_map_bucket\<close>,
  \<open>map_lookup_index_capacity\<close>, the FNV-1a hash, and the index parts of
  \<open>Heap::build_map_lookup_index\<close>, \<open>Heap::validate_map_lookup_index\<close> and
  \<open>Heap::find_map_entry\<close> in \<open>src/gc/heap.cpp\<close>).  A bucket holds 0 or the position of
  an entry plus one; collisions go to the next bucket.

  Hashing and comparing a key may read the heap and throw, so both are arguments here; the
  theory of the heap state supplies them.  The lemmas show that the index the code builds
  is coherent (every entry is found from its hash without meeting an empty bucket), that a
  probe of a coherent index returns exactly what a linear search of the ordered entries
  returns, and that an insertion keeps the index equal to a rebuild from scratch, which is
  what the code's validator compares it with.
\<close>

subsection \<open>The hash\<close>

definition kMapHashOffsetBasis :: u64 where "kMapHashOffsetBasis = 14695981039346656037"
definition kMapHashPrime :: u64 where "kMapHashPrime = 1099511628211"
definition kMapHashI64Domain :: u8 where "kMapHashI64Domain = 1"
definition kMapHashBoolDomain :: u8 where "kMapHashBoolDomain = 2"
definition kMapHashStringDomain :: u8 where "kMapHashStringDomain = 3"
definition kMapIndexMinimumCapacity :: nat where "kMapIndexMinimumCapacity = 8"
definition size_max :: nat where "size_max = 18446744073709551615"

definition append_map_hash_byte :: "u64 \<Rightarrow> u8 \<Rightarrow> u64" where
  "append_map_hash_byte hash byte = (hash XOR ucast byte) * kMapHashPrime"

definition string_content_hash :: "u8 list \<Rightarrow> u64" where
  "string_content_hash bytes = foldl append_map_hash_byte
     (append_map_hash_byte kMapHashOffsetBasis kMapHashStringDomain) bytes"

text \<open>The eight bytes of the \<open>int64\<close> case of \<open>map_key_hash\<close>, least significant first.\<close>

fun low_bytes :: "nat \<Rightarrow> u64 \<Rightarrow> u8 list" where
  "low_bytes 0 bits = []"
| "low_bytes (Suc n) bits = ucast (bits AND 0xFF) # low_bytes n (drop_bit 8 bits)"

definition i64_content_hash :: "i64 \<Rightarrow> u64" where
  "i64_content_hash n = foldl append_map_hash_byte
     (append_map_hash_byte kMapHashOffsetBasis kMapHashI64Domain) (low_bytes 8 n)"

definition bool_content_hash :: "bool \<Rightarrow> u64" where
  "bool_content_hash b = append_map_hash_byte
     (append_map_hash_byte kMapHashOffsetBasis kMapHashBoolDomain) (if b then 1 else 0)"

subsection \<open>Capacity and buckets\<close>

definition msg_index_capacity_overflow :: string where
  "msg_index_capacity_overflow = ''map lookup index capacity overflow''"
definition msg_index_entry_overflow :: string where
  "msg_index_entry_overflow = ''map lookup entry index overflow''"
definition msg_index_not_power :: string where
  "msg_index_not_power = ''map lookup index capacity is not a power of two''"
definition msg_index_full :: string where
  "msg_index_full = ''map lookup index has no empty bucket''"
definition msg_index_required :: string where
  "msg_index_required = ''non-empty map requires a lookup index''"
definition msg_index_rebuild :: string where
  "msg_index_rebuild = ''map lookup index rebuild capacity cannot hold entries''"
definition msg_index_capacity_mismatch :: string where
  "msg_index_capacity_mismatch = ''map lookup index capacity does not match entry count''"
definition msg_index_bucket_range :: string where
  "msg_index_bucket_range = ''map lookup index bucket names an out-of-range entry''"
definition msg_index_duplicate :: string where
  "msg_index_duplicate = ''map lookup index contains a duplicate entry''"
definition msg_index_missing :: string where
  "msg_index_missing = ''map lookup index is missing an ordered entry''"
definition msg_index_unreachable :: string where
  "msg_index_unreachable = ''map lookup index entry is unreachable from its hash''"
definition msg_index_mismatch :: string where
  "msg_index_mismatch = ''map lookup index bucket does not match ordered entries''"
definition msg_index_probe :: string where
  "msg_index_probe = ''map lookup index probe did not reach an empty bucket''"

function map_index_capacity_loop :: "nat \<Rightarrow> nat \<Rightarrow> exn + nat" where
  "map_index_capacity_loop entry_count capacity =
     (if entry_count > capacity div 2
      then if capacity > size_max div 2 then Inl (Length_error msg_index_capacity_overflow)
           else map_index_capacity_loop entry_count (if capacity = 0 then 1 else capacity * 2)
      else Inr capacity)"
  by pat_completeness auto
termination
  by (relation "measure (\<lambda>(entry_count, capacity). Suc size_max - capacity)")
    (auto simp: size_max_def)

declare map_index_capacity_loop.simps [simp del]

text \<open>
  The loop starts at 8, so its capacity is never 0 and the model's case for 0 (which makes
  the recursion well-founded) is not reached.
\<close>

definition map_lookup_index_capacity :: "nat \<Rightarrow> exn + nat" where
  "map_lookup_index_capacity entry_count =
     (if entry_count = 0 then Inr 0
      else map_index_capacity_loop entry_count kMapIndexMinimumCapacity)"

definition encoded_map_entry_index :: "nat \<Rightarrow> exn + nat" where
  "encoded_map_entry_index entry_index =
     (if entry_index = size_max then Inl (Length_error msg_index_entry_overflow)
      else Inr (entry_index + 1))"

definition home_bucket :: "nat \<Rightarrow> u64 \<Rightarrow> nat" where
  "home_bucket capacity hash = unat hash AND (capacity - 1)"

definition next_bucket :: "nat \<Rightarrow> nat \<Rightarrow> nat" where
  "next_bucket capacity bucket = (bucket + 1) AND (capacity - 1)"

fun find_open_loop :: "nat list \<Rightarrow> nat \<Rightarrow> nat \<Rightarrow> exn + nat" where
  "find_open_loop index 0 bucket = Inl (Logic_error msg_index_full)"
| "find_open_loop index (Suc n) bucket =
     (if index ! bucket = 0 then Inr bucket
      else find_open_loop index n (next_bucket (length index) bucket))"

definition find_open_map_bucket :: "nat list \<Rightarrow> u64 \<Rightarrow> exn + nat" where
  "find_open_map_bucket index hash =
     ethen (ethrow_if (index = [] \<or> (length index AND (length index - 1)) \<noteq> 0)
       (Logic_error msg_index_not_power))
     (find_open_loop index (length index) (home_bucket (length index) hash))"

text \<open>One turn of the rebuild loop: place the next entry in the first open bucket.\<close>

definition place_entry :: "nat list \<Rightarrow> u64 \<Rightarrow> nat \<Rightarrow> exn + nat list" where
  "place_entry index hash entry =
     ebind (find_open_map_bucket index hash) (\<lambda>bucket.
     ebind (encoded_map_entry_index entry) (\<lambda>encoded. Inr (index[bucket := encoded])))"

definition build_map_lookup_index ::
  "(val \<Rightarrow> exn + u64) \<Rightarrow> map_entry list \<Rightarrow> nat \<Rightarrow> exn + nat list" where
  "build_map_lookup_index key_hash entries capacity =
     (if capacity = 0 then ethen (ethrow_if (entries \<noteq> []) (Logic_error msg_index_required)) (Inr [])
      else ethen (ethrow_if (capacity < kMapIndexMinimumCapacity \<or>
          (capacity AND (capacity - 1)) \<noteq> 0 \<or> length entries > capacity div 2)
          (Logic_error msg_index_rebuild))
        (efold (\<lambda>(entry, e) index. ebind (key_hash (e_key e)) (\<lambda>hash. place_entry index hash entry))
          (zip [0..<length entries] entries) (replicate capacity 0)))"

text \<open>
  The probe of \<open>find_map_entry\<close>; \<open>same e\<close> compares the key of entry \<open>e\<close> with the
  query.
\<close>

fun probe_map_entry :: "(nat \<Rightarrow> exn + bool) \<Rightarrow> nat list \<Rightarrow> nat \<Rightarrow> nat \<Rightarrow> nat \<Rightarrow> exn + nat option" where
  "probe_map_entry same index entries 0 bucket = Inl (Logic_error msg_index_probe)"
| "probe_map_entry same index entries (Suc n) bucket =
     (let encoded = index ! bucket in
      if encoded = 0 then Inr None
      else ethen (ethrow_if (encoded - 1 \<ge> entries) (Logic_error msg_index_bucket_range))
        (ebind (same (encoded - 1)) (\<lambda>b.
          if b then Inr (Some (encoded - 1))
          else probe_map_entry same index entries n (next_bucket (length index) bucket))))"

text \<open>
  The first loop of \<open>validate_map_lookup_index\<close>: the bucket of every entry
  (\<open>size_max\<close> until one is found).
\<close>

fun collect_entry_buckets :: "nat list \<Rightarrow> nat \<Rightarrow> nat list \<Rightarrow> exn + nat list" where
  "collect_entry_buckets [] bucket found = Inr found"
| "collect_entry_buckets (encoded # rest) bucket found =
     (if encoded = 0 then collect_entry_buckets rest (Suc bucket) found
      else ethen (ethrow_if (encoded - 1 \<ge> length found) (Logic_error msg_index_bucket_range))
       (ethen (ethrow_if (found ! (encoded - 1) \<noteq> size_max) (Logic_error msg_index_duplicate))
        (collect_entry_buckets rest (Suc bucket) (found[encoded - 1 := bucket]))))"

text \<open>
  Its reachability loop for one entry.  A full turn over the index meets the entry's own
  bucket, so a fuel of the index size is never used up.
\<close>

fun reaches_bucket :: "nat list \<Rightarrow> nat \<Rightarrow> nat \<Rightarrow> nat \<Rightarrow> exn + unit" where
  "reaches_bucket index 0 target bucket = Inl Abort"
| "reaches_bucket index (Suc n) target bucket =
     (if bucket = target then Inr ()
      else ethen (ethrow_if (index ! bucket = 0) (Logic_error msg_index_unreachable))
        (reaches_bucket index n target (next_bucket (length index) bucket)))"

definition validate_map_lookup_index ::
  "(val \<Rightarrow> exn + u64) \<Rightarrow> map_entry list \<Rightarrow> nat list \<Rightarrow> exn + unit" where
  "validate_map_lookup_index key_hash entries index =
     ebind (map_lookup_index_capacity (length entries)) (\<lambda>expected_capacity.
     ethen (ethrow_if (length index \<noteq> expected_capacity) (Logic_error msg_index_capacity_mismatch))
     (ebind (collect_entry_buckets index 0 (replicate (length entries) size_max)) (\<lambda>entry_buckets.
     ethen (ethrow_if (size_max \<in> set entry_buckets) (Logic_error msg_index_missing))
     (ebind (efold (\<lambda>(entry, e) (hashes, expected).
         ebind (key_hash (e_key e)) (\<lambda>hash.
         ebind (place_entry expected hash entry) (\<lambda>expected'. Inr (hashes @ [hash], expected'))))
       (zip [0..<length entries] entries) ([], replicate expected_capacity 0))
       (\<lambda>(entry_hashes, expected).
     ethen (if index = [] then Inr () else eall (\<lambda>(hash, target).
         reaches_bucket index (Suc (length index)) target (home_bucket (length index) hash))
       (zip entry_hashes entry_buckets))
     (ethrow_if (expected \<noteq> index) (Logic_error msg_index_mismatch)))))))"

subsection \<open>Open addressing is correct\<close>

definition power_of_two :: "nat \<Rightarrow> bool" where
  "power_of_two c \<longleftrightarrow> (\<exists>k. c = 2 ^ k)"

lemma and_capacity_mod:
  assumes "power_of_two c"
  shows "n AND (c - 1) = n mod c"
proof -
  obtain k where "c = 2 ^ k" using assms by (auto simp: power_of_two_def)
  then have "n AND (c - 1) = n AND mask k" by (simp add: mask_eq_exp_minus_1)
  also have "\<dots> = n mod c" using \<open>c = 2 ^ k\<close> by (simp add: take_bit_eq_mask [symmetric] take_bit_eq_mod)
  finally show ?thesis .
qed

lemma power_of_two_pos: "power_of_two c \<Longrightarrow> 0 < c"
  by (auto simp: power_of_two_def)

lemma power_of_two_test: "power_of_two c \<Longrightarrow> c AND (c - 1) = 0"
  using and_capacity_mod [of c c] by simp

lemma home_bucket_less: "power_of_two c \<Longrightarrow> home_bucket c h < c"
  by (simp only: home_bucket_def and_capacity_mod mod_less_divisor power_of_two_pos)

lemma next_bucket_mod: "power_of_two c \<Longrightarrow> next_bucket c b = Suc b mod c"
  by (simp only: next_bucket_def and_capacity_mod Suc_eq_plus1)

lemma walk_next: "((Suc b mod c) + d) mod c = (b + Suc d) mod (c :: nat)"
  by (simp add: mod_add_left_eq)

lemma walk_inj:
  assumes "(s + d) mod c = (s + e) mod c" and "d < c" and "e < (c :: nat)"
  shows "d = e"
proof -
  have "d = e" if "(s + d) mod c = (s + e) mod c" "d \<le> e" "e < c" for d e
  proof -
    have "c dvd (s + e) - (s + d)" using that by (metis mod_eq_dvd_iff_nat add_le_cancel_left)
    then have "c dvd e - d" by simp
    with that show ?thesis by (auto dest: dvd_imp_le)
  qed
  from this [of d e] this [of e d] assms show ?thesis by (cases "d \<le> e") simp_all
qed

lemma walk_surj:
  assumes "s < c" and "z < (c :: nat)"
  obtains d where "d < c" "(s + d) mod c = z"
proof (cases "s \<le> z")
  case True
  with assms show ?thesis by (intro that [of "z - s"]) auto
next
  case False
  with assms show ?thesis by (intro that [of "c + z - s"]) auto
qed

lemma map_index_capacity_loop_power:
  assumes "map_index_capacity_loop n c = Inr r" and "power_of_two c"
  shows "power_of_two r \<and> c \<le> r \<and> n \<le> r div 2"
  using assms
proof (induction n c rule: map_index_capacity_loop.induct)
  case (1 n c)
  show ?case
  proof (cases "n > c div 2")
    case True
    have "power_of_two (c * 2)" using "1.prems"(2) by (auto simp: power_of_two_def intro: exI [of _ "Suc _"])
    with 1 True power_of_two_pos [OF "1.prems"(2)] show ?thesis
      by (simp add: map_index_capacity_loop.simps [of n c] split: if_splits)
  next
    case False
    with 1 show ?thesis by (simp add: map_index_capacity_loop.simps [of n c])
  qed
qed

lemma map_index_capacity_loop_ok:
  assumes "n \<le> size_max div 8" and "power_of_two c" and "c \<le> size_max div 2"
  shows "\<exists>r. map_index_capacity_loop n c = Inr r"
  using assms
proof (induction n c rule: map_index_capacity_loop.induct)
  case (1 n c)
  show ?case
  proof (cases "n > c div 2")
    case True
    have "power_of_two (c * 2)" using "1.prems"(2) by (auto simp: power_of_two_def intro: exI [of _ "Suc _"])
    moreover have "c * 2 \<le> size_max div 2" using True "1.prems" by (simp add: size_max_def)
    ultimately show ?thesis
      using 1 True power_of_two_pos [OF "1.prems"(2)] by (simp add: map_index_capacity_loop.simps [of n c])
  next
    case False
    then show ?thesis by (simp add: map_index_capacity_loop.simps [of n c])
  qed
qed


definition coherent_index :: "nat list \<Rightarrow> u64 list \<Rightarrow> bool" where
  "coherent_index index hashes \<longleftrightarrow> (let c = length index in
     power_of_two c \<and> length hashes < c \<and>
     (\<forall>b<c. index ! b \<le> length hashes) \<and>
     (\<forall>b<c. \<forall>b'<c. index ! b = index ! b' \<longrightarrow> index ! b \<noteq> 0 \<longrightarrow> b = b') \<and>
     (\<forall>i<length hashes. \<exists>d<c. index ! ((home_bucket c (hashes ! i) + d) mod c) = Suc i \<and>
        (\<forall>e<d. index ! ((home_bucket c (hashes ! i) + e) mod c) \<noteq> 0)))"

lemma coherent_indexD:
  assumes "coherent_index index hashes"
  shows "power_of_two (length index)" "length hashes < length index"
    "b < length index \<Longrightarrow> index ! b \<le> length hashes"
    "b < length index \<Longrightarrow> b' < length index \<Longrightarrow> index ! b = index ! b' \<Longrightarrow> index ! b \<noteq> 0 \<Longrightarrow> b = b'"
    "i < length hashes \<Longrightarrow> \<exists>d<length index.
       index ! ((home_bucket (length index) (hashes ! i) + d) mod length index) = Suc i \<and>
        (\<forall>e<d. index ! ((home_bucket (length index) (hashes ! i) + e) mod length index) \<noteq> 0)"
  using assms by (simp_all add: coherent_index_def Let_def)

lemma coherent_index_empty: "power_of_two c \<Longrightarrow> coherent_index (replicate c 0) []"
  by (simp add: coherent_index_def power_of_two_pos)

lemma coherent_index_open:
  assumes "coherent_index index hashes"
  shows "\<exists>z<length index. index ! z = 0"
proof (rule ccontr)
  assume no: "\<not> ?thesis"
  have "inj_on ((!) index) {..<length index}"
    using coherent_indexD(4) [OF assms] no by (auto simp: inj_on_def)
  moreover have "(!) index ` {..<length index} \<subseteq> {1..length hashes}"
    using coherent_indexD(3) [OF assms] no by (auto simp: Suc_le_eq)
  ultimately have "card {..<length index} \<le> card {1..length hashes}"
    by (rule card_inj_on_le) simp
  with coherent_indexD(2) [OF assms] show False by simp
qed

lemma find_open_loop_spec:
  assumes "power_of_two (length index)"
    and "\<exists>d<n. index ! ((s + d) mod length index) = 0" and "s < length index"
  shows "\<exists>d<n. find_open_loop index n s = Inr ((s + d) mod length index) \<and>
    index ! ((s + d) mod length index) = 0 \<and> (\<forall>e<d. index ! ((s + e) mod length index) \<noteq> 0)"
  using assms(2,3)
proof (induction n arbitrary: s)
  case 0
  then show ?case by simp
next
  case (Suc n)
  let ?c = "length index"
  show ?case
  proof (cases "index ! s = 0")
    case True
    with Suc.prems show ?thesis by (intro exI [of _ 0]) simp
  next
    case False
    let ?s = "Suc s mod ?c"
    obtain d where d: "d < Suc n" "index ! ((s + d) mod ?c) = 0" using Suc.prems by blast
    with False Suc.prems(2) obtain d' where d': "d = Suc d'" by (cases d) auto
    have lt: "?s < ?c" using power_of_two_pos [OF assms(1)] by simp
    moreover have "\<exists>d<n. index ! ((?s + d) mod ?c) = 0"
      using d d' by (intro exI [of _ d']) (simp add: walk_next)
    ultimately obtain k where k: "k < n" "find_open_loop index n ?s = Inr ((?s + k) mod ?c)"
      "index ! ((?s + k) mod ?c) = 0" "\<forall>e<k. index ! ((?s + e) mod ?c) \<noteq> 0"
      using Suc.IH [of ?s] by blast
    have "\<forall>e<Suc k. index ! ((s + e) mod ?c) \<noteq> 0"
    proof (intro allI impI)
      fix e assume "e < Suc k"
      then show "index ! ((s + e) mod ?c) \<noteq> 0"
        using False Suc.prems(2) k(4) by (cases e) (auto simp: walk_next)
    qed
    with k False show ?thesis
      by (intro exI [of _ "Suc k"]) (simp add: next_bucket_mod [OF assms(1)] walk_next)
  qed
qed

lemma find_open_map_bucket_ok:
  assumes "power_of_two (length index)" and "\<exists>z<length index. index ! z = 0"
  shows "\<exists>d<length index. find_open_map_bucket index hash =
      Inr ((home_bucket (length index) hash + d) mod length index) \<and>
    index ! ((home_bucket (length index) hash + d) mod length index) = 0 \<and>
    (\<forall>e<d. index ! ((home_bucket (length index) hash + e) mod length index) \<noteq> 0)"
proof -
  let ?c = "length index" and ?s = "home_bucket (length index) hash"
  have s: "?s < ?c" by (rule home_bucket_less [OF assms(1)])
  obtain z where "z < ?c" "index ! z = 0" using assms(2) by blast
  with walk_surj [OF s] have "\<exists>d<?c. index ! ((?s + d) mod ?c) = 0" by metis
  from find_open_loop_spec [OF assms(1) this s]
  have "\<exists>d<?c. find_open_loop index ?c ?s = Inr ((?s + d) mod ?c) \<and>
    index ! ((?s + d) mod ?c) = 0 \<and> (\<forall>e<d. index ! ((?s + e) mod ?c) \<noteq> 0)" .
  moreover have "\<not> (index = [] \<or> (?c AND (?c - 1)) \<noteq> 0)"
    using power_of_two_pos [OF assms(1)] power_of_two_test [OF assms(1)] by auto
  ultimately show ?thesis by (simp only: find_open_map_bucket_def ethrow_if_simps ethen_simps)
qed

lemma place_entry_coherent:
  assumes co: "coherent_index index hashes" and room: "Suc (length hashes) < length index"
    and lt: "length hashes < size_max"
  shows "\<exists>index'. place_entry index hash (length hashes) = Inr index' \<and>
    length index' = length index \<and> coherent_index index' (hashes @ [hash])"
proof -
  let ?c = "length index" and ?s = "home_bucket (length index) hash" and ?n = "length hashes"
  note D = coherent_indexD [OF co]
  obtain d where d: "d < ?c" "find_open_map_bucket index hash = Inr ((?s + d) mod ?c)"
    "index ! ((?s + d) mod ?c) = 0" "\<forall>e<d. index ! ((?s + e) mod ?c) \<noteq> 0"
    using find_open_map_bucket_ok [OF D(1) coherent_index_open [OF co]] by blast
  define b where "b = (?s + d) mod ?c"
  have b: "b < ?c" using power_of_two_pos [OF D(1)] by (simp add: b_def)
  let ?i = "index[b := Suc ?n]"
  have "place_entry index hash ?n = Inr ?i"
    using d lt by (simp add: place_entry_def encoded_map_entry_index_def b_def)
  moreover have "coherent_index ?i (hashes @ [hash])"
    unfolding coherent_index_def Let_def
  proof (intro conjI allI impI)
    show "power_of_two (length ?i)" using D(1) by simp
    show "length (hashes @ [hash]) < length ?i" using room by simp
    show "?i ! x \<le> length (hashes @ [hash])" if "x < length ?i" for x
      using D(3) [of x] that b by (auto simp: nth_list_update)
    show "x = y" if "x < length ?i" "y < length ?i" "?i ! x = ?i ! y" "?i ! x \<noteq> 0" for x y
      using D(3) [of x] D(3) [of y] D(4) [of x y] that b
      by (auto simp: nth_list_update split: if_splits)
    fix i assume "i < length (hashes @ [hash])"
    then consider "i < ?n" | "i = ?n" by fastforce
    then show "\<exists>d<length ?i. ?i ! ((home_bucket (length ?i) ((hashes @ [hash]) ! i) + d) mod length ?i) = Suc i \<and>
        (\<forall>e<d. ?i ! ((home_bucket (length ?i) ((hashes @ [hash]) ! i) + e) mod length ?i) \<noteq> 0)"
    proof cases
      case 1
      let ?h = "home_bucket ?c (hashes ! i)"
      obtain f where f: "f < ?c" "index ! ((?h + f) mod ?c) = Suc i"
        "\<forall>e<f. index ! ((?h + e) mod ?c) \<noteq> 0" using D(5) [OF 1] by blast
      have "?i ! ((?h + f) mod ?c) = Suc i"
        using f(2) d(3) b by (auto simp: nth_list_update b_def)
      moreover have "\<forall>e<f. ?i ! ((?h + e) mod ?c) \<noteq> 0"
        using f(3) b by (auto simp: nth_list_update)
      ultimately show ?thesis using 1 f(1) by (auto simp: nth_append)
    next
      case 2
      have "?i ! ((?s + d) mod ?c) = Suc i" using b 2 by (simp add: b_def [symmetric])
      moreover have "\<forall>e<d. ?i ! ((?s + e) mod ?c) \<noteq> 0"
        using d(4) b by (auto simp: nth_list_update)
      ultimately show ?thesis using 2 d(1) by auto
    qed
  qed
  ultimately show ?thesis by (intro exI [of _ ?i]) simp
qed

text \<open>A probe of a coherent index agrees with a search of all entries.\<close>

lemma probe_loop_spec:
  assumes co: "coherent_index index hashes"
    and same: "\<forall>i<length hashes. same i = Inr (P i)"
    and "\<exists>d<n. index ! ((s + d) mod length index) = 0 \<or>
        P (index ! ((s + d) mod length index) - 1)" and "s < length index"
  shows "(\<exists>d<n. probe_map_entry same index (length hashes) n s =
        Inr (Some (index ! ((s + d) mod length index) - 1)) \<and>
        index ! ((s + d) mod length index) \<noteq> 0 \<and> P (index ! ((s + d) mod length index) - 1)) \<or>
    (\<exists>d<n. probe_map_entry same index (length hashes) n s = Inr None \<and>
        index ! ((s + d) mod length index) = 0 \<and>
        (\<forall>e<d. index ! ((s + e) mod length index) \<noteq> 0 \<and>
          \<not> P (index ! ((s + e) mod length index) - 1)))"
  using assms(3,4)
proof (induction n arbitrary: s)
  case 0
  then show ?case by simp
next
  case (Suc n)
  let ?c = "length index"
  note D = coherent_indexD [OF co]
  show ?case
  proof (cases "index ! s = 0")
    case True
    with Suc.prems(2) show ?thesis by (intro disjI2 exI [of _ 0]) simp
  next
    case nz: False
    have r: "index ! s - 1 < length hashes" using D(3) [OF Suc.prems(2)] nz by simp
    show ?thesis
    proof (cases "P (index ! s - 1)")
      case True
      with nz r Suc.prems(2) same [rule_format, OF r] show ?thesis by (intro disjI1 exI [of _ 0]) (simp add: Let_def)
    next
      case False
      let ?s = "Suc s mod ?c"
      have step: "probe_map_entry same index (length hashes) (Suc n) s =
          probe_map_entry same index (length hashes) n ?s"
        using nz r False same [rule_format, OF r] by (simp add: Let_def next_bucket_mod [OF D(1)])
      obtain d where d: "d < Suc n" "index ! ((s + d) mod ?c) = 0 \<or> P (index ! ((s + d) mod ?c) - 1)"
        using Suc.prems by blast
      with False nz Suc.prems(2) obtain d' where d': "d = Suc d'" by (cases d) auto
      have lt: "?s < ?c" using power_of_two_pos [OF D(1)] by simp
      have "\<exists>d<n. index ! ((?s + d) mod ?c) = 0 \<or> P (index ! ((?s + d) mod ?c) - 1)"
        using d d' by (intro exI [of _ d']) (simp add: walk_next)
      from Suc.IH [OF this lt] show ?thesis
      proof (elim disjE exE conjE)
        fix k assume "k < n" "probe_map_entry same index (length hashes) n ?s =
            Inr (Some (index ! ((?s + k) mod ?c) - 1))" "index ! ((?s + k) mod ?c) \<noteq> 0"
          "P (index ! ((?s + k) mod ?c) - 1)"
        then show ?thesis by (intro disjI1 exI [of _ "Suc k"]) (simp only: step walk_next, simp)
      next
        fix k assume k: "k < n" "probe_map_entry same index (length hashes) n ?s = Inr None"
          "index ! ((?s + k) mod ?c) = 0"
          "\<forall>e<k. index ! ((?s + e) mod ?c) \<noteq> 0 \<and> \<not> P (index ! ((?s + e) mod ?c) - 1)"
        have "\<forall>e<Suc k. index ! ((s + e) mod ?c) \<noteq> 0 \<and> \<not> P (index ! ((s + e) mod ?c) - 1)"
        proof (intro allI impI)
          fix e assume "e < Suc k"
          then show "index ! ((s + e) mod ?c) \<noteq> 0 \<and> \<not> P (index ! ((s + e) mod ?c) - 1)"
            using nz False Suc.prems(2) k(4) by (cases e) (auto simp: walk_next)
        qed
        with k show ?thesis by (intro disjI2 exI [of _ "Suc k"]) (simp only: step walk_next, simp)
      qed
    qed
  qed
qed

lemma probe_map_entry_correct:
  assumes co: "coherent_index index hashes"
    and same: "\<And>i. i < length hashes \<Longrightarrow> same i = Inr (P i)"
    and hash: "\<And>i. i < length hashes \<Longrightarrow> P i \<Longrightarrow> hashes ! i = hash"
  obtains r where "probe_map_entry same index (length hashes) (length index)
      (home_bucket (length index) hash) = Inr r"
    and "\<And>i. r = Some i \<Longrightarrow> i < length hashes \<and> P i"
    and "r = None \<Longrightarrow> \<forall>i<length hashes. \<not> P i"
proof -
  let ?c = "length index" and ?s = "home_bucket (length index) hash"
  note D = coherent_indexD [OF co]
  have s: "?s < ?c" by (rule home_bucket_less [OF D(1)])
  obtain z where "z < ?c" "index ! z = 0" using coherent_index_open [OF co] by blast
  with walk_surj [OF s] have "\<exists>d<?c. index ! ((?s + d) mod ?c) = 0 \<or> P (index ! ((?s + d) mod ?c) - 1)"
    by metis
  note walk = this
  from same have "\<forall>i<length hashes. same i = Inr (P i)" by blast
  note spec = probe_loop_spec [OF co this walk s]
  show ?thesis
    using spec
  proof (elim disjE exE conjE)
    fix d assume d: "d < ?c" "probe_map_entry same index (length hashes) ?c ?s =
        Inr (Some (index ! ((?s + d) mod ?c) - 1))" "index ! ((?s + d) mod ?c) \<noteq> 0"
      "P (index ! ((?s + d) mod ?c) - 1)"
    have "(?s + d) mod ?c < ?c" using power_of_two_pos [OF D(1)] by simp
    from D(3) [OF this] d show ?thesis by (intro that [of "Some (index ! ((?s + d) mod ?c) - 1)"]) auto
  next
    fix d assume d: "d < ?c" "probe_map_entry same index (length hashes) ?c ?s = Inr None"
      "index ! ((?s + d) mod ?c) = 0"
      "\<forall>e<d. index ! ((?s + e) mod ?c) \<noteq> 0 \<and> \<not> P (index ! ((?s + e) mod ?c) - 1)"
    have "\<not> P i" if i: "i < length hashes" for i
    proof
      assume p: "P i"
      obtain f where f: "f < ?c" "index ! ((?s + f) mod ?c) = Suc i"
        "\<forall>e<f. index ! ((?s + e) mod ?c) \<noteq> 0" using D(5) [OF i] hash [OF i p] by auto
      have "f \<noteq> d" using f(2) d(3) by auto
      moreover have "\<not> f < d" using d(4) f(2) p by auto
      ultimately have "d < f" by simp
      with f(3) d(3) show False by blast
    qed
    with d(2) show ?thesis by (intro that [of None]) auto
  qed
qed


subsection \<open>Rebuilding and validating\<close>

definition built_index :: "nat \<Rightarrow> u64 list \<Rightarrow> exn + nat list" where
  "built_index c hashes = efold (\<lambda>(entry, hash) index. place_entry index hash entry)
     (zip [0..<length hashes] hashes) (replicate c 0)"

lemma built_index_snoc:
  "built_index c (hs @ [h]) = ebind (built_index c hs) (\<lambda>index. place_entry index h (length hs))"
proof -
  have "zip [0..<length (hs @ [h])] (hs @ [h]) = zip [0..<length hs] hs @ [(length hs, h)]"
    by simp
  moreover have "efold f [x] = f x" for f :: "nat \<times> u64 \<Rightarrow> nat list \<Rightarrow> exn + nat list" and x
    by (rule ext) simp
  ultimately show ?thesis by (simp only: built_index_def efold_append prod.case)
qed

lemma built_index_ok:
  assumes "power_of_two c" and "length hs \<le> c div 2" and "length hs < size_max"
  shows "\<exists>index. built_index c hs = Inr index \<and> coherent_index index hs \<and> length index = c"
  using assms(2,3)
proof (induction hs rule: rev_induct)
  case Nil
  then show ?case
    using coherent_index_empty [OF assms(1)] by (simp add: built_index_def)
next
  case (snoc h hs)
  then obtain index where i: "built_index c hs = Inr index" "coherent_index index hs" "length index = c"
    by auto
  have "Suc (length hs) < length index" using snoc.prems i(3) power_of_two_pos [OF assms(1)]
    by simp
  from place_entry_coherent [OF i(2) this] snoc.prems i show ?case
    by (auto simp: built_index_snoc)
qed

lemma efold_place_entries:
  assumes "\<forall>e\<in>set entries. key_hash (e_key e) = Inr (H (e_key e))"
  shows "efold (\<lambda>(entry, e) index. ebind (key_hash (e_key e)) (\<lambda>hash. place_entry index hash entry))
      (zip [k..<k + length entries] entries) start
    = efold (\<lambda>(entry, hash) index. place_entry index hash entry)
      (zip [k..<k + length entries] (map (H \<circ> e_key) entries)) start"
  using assms
proof (induction entries arbitrary: k start)
  case Nil
  then show ?case by simp
next
  case (Cons e es)
  have z: "zip [k..<k + length (e # es)] (y # ys) = (k, y) # zip [Suc k..<Suc k + length es] ys"
    for y :: 'x and ys by (simp add: upt_conv_Cons del: upt_Suc)
  show ?case
    unfolding list.map z efold.simps prod.case
    using Cons.IH [of "Suc k"] Cons.prems by (simp add: ebind_def comp_def del: upt_Suc split: sum.split)
qed

lemma build_map_lookup_index_eq:
  assumes "\<forall>e\<in>set entries. key_hash (e_key e) = Inr (H (e_key e))"
    and "power_of_two c" and "kMapIndexMinimumCapacity \<le> c" and "length entries \<le> c div 2"
  shows "build_map_lookup_index key_hash entries c = built_index c (map (H \<circ> e_key) entries)"
  using efold_place_entries [OF assms(1), of 0] assms(2-4) power_of_two_test [OF assms(2)]
    power_of_two_pos [OF assms(2)]
  by (simp add: build_map_lookup_index_def built_index_def)

lemma efold_validate_entries:
  assumes "\<forall>e\<in>set entries. key_hash (e_key e) = Inr (H (e_key e))"
  shows "efold (\<lambda>(entry, e) (hashes, expected).
         ebind (key_hash (e_key e)) (\<lambda>hash.
         ebind (place_entry expected hash entry) (\<lambda>expected'. Inr (hashes @ [hash], expected'))))
       (zip [k..<k + length entries] entries) (acc, start)
    = ebind (efold (\<lambda>(entry, hash) index. place_entry index hash entry)
      (zip [k..<k + length entries] (map (H \<circ> e_key) entries)) start)
      (\<lambda>index. Inr (acc @ map (H \<circ> e_key) entries, index))"
  using assms
proof (induction entries arbitrary: k start acc)
  case Nil
  then show ?case by simp
next
  case (Cons e es)
  have z: "zip [k..<k + length (e # es)] (y # ys) = (k, y) # zip [Suc k..<Suc k + length es] ys"
    for y :: 'x and ys by (simp add: upt_conv_Cons del: upt_Suc)
  show ?case
    unfolding list.map z efold.simps prod.case
    using Cons.IH [of "Suc k"] Cons.prems by (simp add: ebind_def comp_def del: upt_Suc split: sum.split)
qed

lemma collect_entry_buckets_spec:
  assumes "\<forall>b<length index. index ! b \<le> n"
    and "\<forall>b<length index. \<forall>b'<length index. index ! b = index ! b' \<longrightarrow> index ! b \<noteq> 0 \<longrightarrow> b = b'"
    and "length index \<le> size_max" and "index = pre @ rest" and "length found = n"
    and "\<forall>i<n. if \<exists>b<length pre. index ! b = Suc i
      then found ! i < length pre \<and> index ! (found ! i) = Suc i else found ! i = size_max"
  shows "\<exists>r. collect_entry_buckets rest (length pre) found = Inr r \<and> length r = n \<and>
    (\<forall>i<n. if \<exists>b<length index. index ! b = Suc i
      then r ! i < length index \<and> index ! (r ! i) = Suc i else r ! i = size_max)"
  using assms(4-6)
proof (induction rest arbitrary: pre found)
  case Nil
  then have "pre = index" by simp
  from Nil.prems(2,3) show ?case unfolding \<open>pre = index\<close> by simp
next
  case (Cons x rest)
  have x: "index ! length pre = x" using Cons.prems(1) by simp
  have lt: "length pre < length index" using Cons.prems(1) by simp
  have pre': "index = (pre @ [x]) @ rest" using Cons.prems(1) by simp
  show ?case
  proof (cases "x = 0")
    case True
    have "\<forall>i<n. if \<exists>b<length (pre @ [x]). index ! b = Suc i
      then found ! i < length (pre @ [x]) \<and> index ! (found ! i) = Suc i else found ! i = size_max"
      using Cons.prems(3) x True by (auto simp: less_Suc_eq split: if_splits)
    from Cons.IH [OF pre' Cons.prems(2) this] True show ?thesis by simp
  next
    case False
    have xn: "x - 1 < n" using assms(1) lt x False by (auto simp: Suc_le_eq dest!: spec [of _ "length pre"])
    have none: "\<not> (\<exists>b<length pre. index ! b = x)"
      using assms(2) lt x False by (metis less_trans nat_neq_iff)
    then have "found ! (x - 1) = size_max" using Cons.prems(3) xn False by auto
    moreover have "\<forall>i<n. if \<exists>b<length (pre @ [x]). index ! b = Suc i
      then (found[x - 1 := length pre]) ! i < length (pre @ [x]) \<and>
        index ! ((found[x - 1 := length pre]) ! i) = Suc i
      else (found[x - 1 := length pre]) ! i = size_max"
    proof (intro allI impI)
      fix i assume i: "i < n"
      show "if \<exists>b<length (pre @ [x]). index ! b = Suc i
        then (found[x - 1 := length pre]) ! i < length (pre @ [x]) \<and>
          index ! ((found[x - 1 := length pre]) ! i) = Suc i
        else (found[x - 1 := length pre]) ! i = size_max"
      proof (cases "i = x - 1")
        case True
        then have "index ! length pre = Suc i" using False x by simp
        with True xn Cons.prems(2) False show ?thesis by auto
      next
        case ne: False
        then have "x \<noteq> Suc i" by auto
        then have "(\<exists>b<length (pre @ [x]). index ! b = Suc i) \<longleftrightarrow> (\<exists>b<length pre. index ! b = Suc i)"
          using x by (auto simp: less_Suc_eq)
        with Cons.prems(3) i ne show ?thesis by (auto split: if_splits)
      qed
    qed
    moreover have "length pre \<noteq> size_max" using lt assms(3) by simp
    ultimately show ?thesis
      using Cons.IH [OF pre', of "found[x - 1 := length pre]"] False xn Cons.prems(2) by simp
  qed
qed

lemma reaches_bucket_ok:
  assumes "power_of_two (length index)" and "d < n" and "s < length index"
    and "\<forall>e<d. index ! ((s + e) mod length index) \<noteq> 0"
  shows "reaches_bucket index n ((s + d) mod length index) s = Inr ()"
  using assms(2-4)
proof (induction n arbitrary: s d)
  case 0
  then show ?case by simp
next
  case (Suc n)
  let ?c = "length index" and ?s = "Suc s mod length index"
  show ?case
  proof (cases d)
    case 0
    with Suc.prems show ?thesis by simp
  next
    case (Suc d')
    have "index ! s \<noteq> 0" using Suc.prems(3) [rule_format, of 0] Suc Suc.prems(2) by simp
    moreover have "\<forall>e<d'. index ! ((?s + e) mod ?c) \<noteq> 0"
      using Suc.prems(3) Suc by (auto simp: walk_next)
    moreover have "?s < ?c" using power_of_two_pos [OF assms(1)] by simp
    ultimately show ?thesis
      using Suc.IH [of d' ?s] Suc.prems Suc by (simp add: next_bucket_mod [OF assms(1)] walk_next)
  qed
qed

lemma map_index_capacity_loop_le:
  "map_index_capacity_loop n c = Inr r \<Longrightarrow> c \<le> size_max \<Longrightarrow> r \<le> size_max"
proof (induction n c rule: map_index_capacity_loop.induct)
  case (1 n c)
  show ?case
  proof (cases "n > c div 2")
    case True
    with 1 show ?thesis
      by (simp add: map_index_capacity_loop.simps [of n c] size_max_def split: if_splits)
  next
    case False
    with 1 show ?thesis by (simp add: map_index_capacity_loop.simps [of n c])
  qed
qed

text \<open>
  What the code asks of a map's index: it is the index built from scratch, at the capacity
  the entry count calls for.
\<close>

definition index_matches :: "u64 list \<Rightarrow> nat list \<Rightarrow> bool" where
  "index_matches hashes index \<longleftrightarrow>
     (\<exists>c. map_lookup_index_capacity (length hashes) = Inr c \<and> built_index c hashes = Inr index)"

lemma map_lookup_index_capacity_props:
  assumes "map_lookup_index_capacity n = Inr c" and "0 < n"
  shows "power_of_two c" "kMapIndexMinimumCapacity \<le> c" "n \<le> c div 2" "c \<le> size_max"
proof -
  have "power_of_two kMapIndexMinimumCapacity"
    by (auto simp: power_of_two_def kMapIndexMinimumCapacity_def intro: exI [of _ 3])
  moreover have "kMapIndexMinimumCapacity \<le> size_max"
    by (simp add: kMapIndexMinimumCapacity_def size_max_def)
  ultimately show "power_of_two c" "kMapIndexMinimumCapacity \<le> c" "n \<le> c div 2" "c \<le> size_max"
    using assms map_index_capacity_loop_power map_index_capacity_loop_le
    by (auto simp: map_lookup_index_capacity_def)
qed

lemma map_lookup_index_capacity_ok:
  assumes "n \<le> uint32_max"
  shows "\<exists>c. map_lookup_index_capacity n = Inr c"
proof -
  have "power_of_two kMapIndexMinimumCapacity"
    by (auto simp: power_of_two_def kMapIndexMinimumCapacity_def intro: exI [of _ 3])
  with assms show ?thesis
    using map_index_capacity_loop_ok [of n kMapIndexMinimumCapacity]
    by (simp add: map_lookup_index_capacity_def uint32_max_def size_max_def
        kMapIndexMinimumCapacity_def)
qed

lemma index_matches_coherent:
  assumes "index_matches hashes index" and "hashes \<noteq> []" and "length hashes < size_max"
  shows "coherent_index index hashes"
proof -
  obtain c where c: "map_lookup_index_capacity (length hashes) = Inr c" "built_index c hashes = Inr index"
    using assms(1) by (auto simp: index_matches_def)
  note p = map_lookup_index_capacity_props [OF c(1)]
  show ?thesis
    using built_index_ok [OF p(1) p(3) assms(3)] assms(2) c(2) by simp
qed

lemma validate_map_lookup_index_iff:
  assumes h: "\<forall>e\<in>set entries. key_hash (e_key e) = Inr (H (e_key e))"
    and lt: "length entries < size_max"
  shows "validate_map_lookup_index key_hash entries index = Inr () \<longleftrightarrow>
    index_matches (map (H \<circ> e_key) entries) index"
proof
  assume "validate_map_lookup_index key_hash entries index = Inr ()"
  then show "index_matches (map (H \<circ> e_key) entries) index"
    using efold_validate_entries [OF h, of 0 "[]"]
    by (auto simp: validate_map_lookup_index_def index_matches_def ebind_Inr_iff ethen_Inr_iff
        built_index_def)
next
  let ?hs = "map (H \<circ> e_key) entries"
  assume m: "index_matches ?hs index"
  then obtain c where c: "map_lookup_index_capacity (length entries) = Inr c" "built_index c ?hs = Inr index"
    by (auto simp: index_matches_def)
  have ef: "efold (\<lambda>(entry, e) (hashes, expected).
         ebind (key_hash (e_key e)) (\<lambda>hash.
         ebind (place_entry expected hash entry) (\<lambda>expected'. Inr (hashes @ [hash], expected'))))
       (zip [0..<length entries] entries) ([], replicate c 0) = Inr (?hs, index)"
    using efold_validate_entries [OF h, of 0 "[]" "replicate c 0"] c(2) by (simp add: built_index_def)
  show "validate_map_lookup_index key_hash entries index = Inr ()"
  proof (cases "entries = []")
    case True
    then show ?thesis
      using c ef by (simp add: validate_map_lookup_index_def map_lookup_index_capacity_def built_index_def)
  next
    case False
    note p = map_lookup_index_capacity_props [OF c(1)]
    obtain len: "length index = c" and co: "coherent_index index ?hs"
      using built_index_ok [OF p(1), of ?hs] p(3) lt c(2) False by auto
    note D = coherent_indexD [OF co]
    obtain r where r: "collect_entry_buckets index 0 (replicate (length entries) size_max) = Inr r"
      "length r = length entries"
      "\<forall>i<length entries. if \<exists>b<length index. index ! b = Suc i
        then r ! i < length index \<and> index ! (r ! i) = Suc i else r ! i = size_max"
      using collect_entry_buckets_spec [of index "length entries" "[]" index
          "replicate (length entries) size_max"] D(3,4) len p(4) False
      by auto
    have found: "r ! i < length index \<and> index ! (r ! i) = Suc i" if i: "i < length entries" for i
    proof -
      obtain d where "index ! ((home_bucket (length index) (?hs ! i) + d) mod length index) = Suc i"
        using D(5) [of i] i by auto
      moreover have "(home_bucket (length index) (?hs ! i) + d) mod length index < length index"
        using power_of_two_pos [OF D(1)] by simp
      ultimately have "\<exists>b<length index. index ! b = Suc i" by blast
      with r(3) i show ?thesis by auto
    qed
    have "size_max \<notin> set r"
      using found r(2) len p(4) False by (fastforce simp: in_set_conv_nth)
    have "reaches_bucket index (Suc (length index)) target (home_bucket (length index) hash) = Inr ()"
      if mem: "(hash, target) \<in> set (zip ?hs r)" for hash target
    proof -
      from mem obtain i where i: "i < length entries" "hash = ?hs ! i" "target = r ! i"
        by (auto simp: in_set_zip)
      obtain d where d: "d < length index"
        "index ! ((home_bucket (length index) hash + d) mod length index) = Suc i"
        "\<forall>e<d. index ! ((home_bucket (length index) hash + e) mod length index) \<noteq> 0"
        using D(5) [of i] i by auto
      have "(home_bucket (length index) hash + d) mod length index = target"
        using D(4) [of "(home_bucket (length index) hash + d) mod length index" target] d(2)
          found [OF i(1)] i(3) power_of_two_pos [OF D(1)] by auto
      then show ?thesis
        using reaches_bucket_ok [OF D(1), of d "Suc (length index)" "home_bucket (length index) hash"]
          d home_bucket_less [OF D(1)] by auto
    qed
    then have "eall (\<lambda>(hash, target).
         reaches_bucket index (Suc (length index)) target (home_bucket (length index) hash))
       (zip ?hs r) = Inr ()"
      by (auto simp: eall_ok_iff simp del: reaches_bucket.simps)
    with \<open>size_max \<notin> set r\<close> show ?thesis
      using c(1) len r(1) ef by (simp add: validate_map_lookup_index_def del: reaches_bucket.simps)
  qed
qed

subsection \<open>The contract of a key type\<close>

text \<open>
  What the index needs of its keys: a hash that agrees with the comparison.  The client
  lemmas say that a probe is a search of the ordered entries.
\<close>

fun find_position :: "('a \<Rightarrow> bool) \<Rightarrow> 'a list \<Rightarrow> nat option" where
  "find_position P [] = None"
| "find_position P (x # xs) = (if P x then Some 0 else map_option Suc (find_position P xs))"

lemma find_position_SomeD: "find_position P xs = Some i \<Longrightarrow> i < length xs \<and> P (xs ! i)"
  by (induction xs arbitrary: i) (auto split: if_splits)

lemma find_position_NoneD: "find_position P xs = None \<Longrightarrow> x \<in> set xs \<Longrightarrow> \<not> P x"
  by (induction xs) (auto split: if_splits)

lemma find_position_unique:
  assumes "i < length xs" and "P (xs ! i)" and "\<And>j. j < length xs \<Longrightarrow> P (xs ! j) \<Longrightarrow> j = i"
  shows "find_position P xs = Some i"
proof (cases "find_position P xs")
  case None
  from find_position_NoneD [OF this, of "xs ! i"] assms(1,2) show ?thesis by simp
next
  case (Some j)
  from find_position_SomeD [OF this] assms(3) [of j] Some show ?thesis by simp
qed

lemma find_position_append:
  "find_position P (xs @ ys) = (case find_position P xs of Some i \<Rightarrow> Some i
     | None \<Rightarrow> map_option (\<lambda>i. length xs + i) (find_position P ys))"
proof (induction xs)
  case Nil
  then show ?case by (cases "find_position P ys") simp_all
next
  case (Cons x xs)
  then show ?case by (cases "find_position P xs"; cases "find_position P ys") simp_all
qed

locale hashed_keys =
  fixes hash :: "'k \<Rightarrow> u64" and same :: "'k \<Rightarrow> 'k \<Rightarrow> bool"
  assumes same_hash: "same a b \<Longrightarrow> hash a = hash b"
    and same_sym: "same a b \<Longrightarrow> same b a"
    and same_trans: "same a b \<Longrightarrow> same b c \<Longrightarrow> same a c"
begin

lemma probe_is_search:
  assumes m: "index_matches (map hash keys) index" and ne: "keys \<noteq> []"
    and lt: "length keys < size_max"
    and distinct: "\<And>i j. i < j \<Longrightarrow> j < length keys \<Longrightarrow> \<not> same (keys ! i) (keys ! j)"
  shows "probe_map_entry (\<lambda>i. Inr (same (keys ! i) query)) index (length keys) (length index)
      (home_bucket (length index) (hash query)) = Inr (find_position (\<lambda>k. same k query) keys)"
proof -
  have co: "coherent_index index (map hash keys)"
    using index_matches_coherent [OF m] ne lt by simp
  obtain r where r: "probe_map_entry (\<lambda>i. Inr (same (keys ! i) query)) index
      (length (map hash keys)) (length index) (home_bucket (length index) (hash query)) = Inr r"
    and some: "\<And>i. r = Some i \<Longrightarrow> i < length (map hash keys) \<and> same (keys ! i) query"
    and none: "r = None \<Longrightarrow> \<forall>i<length (map hash keys). \<not> same (keys ! i) query"
    by (rule probe_map_entry_correct [OF co, where P = "\<lambda>i. same (keys ! i) query"])
      (auto dest: same_hash)
  have unique: "j = i" if "i < length keys" "same (keys ! i) query" "j < length keys"
    "same (keys ! j) query" for i j
    using that distinct [of i j] distinct [of j i] same_trans same_sym by (metis nat_neq_iff)
  have "r = find_position (\<lambda>k. same k query) keys"
  proof (cases r)
    case None
    then show ?thesis using none find_position_SomeD [of "\<lambda>k. same k query" keys]
      by (cases "find_position (\<lambda>k. same k query) keys") auto
  next
    case (Some i)
    then show ?thesis
      using some [of i] unique find_position_unique [of i keys "\<lambda>k. same k query"] by simp
  qed
  with r show ?thesis by simp
qed

lemma search_after_insert:
  assumes "find_position (\<lambda>k. same k key) keys = None"
  shows "find_position (\<lambda>k. same k query) (keys @ [key]) =
    (if same key query then Some (length keys) else find_position (\<lambda>k. same k query) keys)"
proof (cases "same key query")
  case True
  have "find_position (\<lambda>k. same k query) keys = None"
  proof (cases "find_position (\<lambda>k. same k query) keys")
    case (Some i)
    then have "i < length keys" "same (keys ! i) key"
      using find_position_SomeD True same_sym same_trans by blast+
    with find_position_NoneD [OF assms, of "keys ! i"] show ?thesis by simp
  qed simp
  with True show ?thesis by (simp add: find_position_append)
next
  case False
  then show ?thesis by (simp add: find_position_append split: option.split)
qed

end

text \<open>The keys of the source: an \<open>i64\<close>, a \<open>bool\<close>, or the bytes of a string.\<close>

datatype key_content = Key_i64 i64 | Key_bool bool | Key_str "u8 list"

fun content_hash :: "key_content \<Rightarrow> u64" where
  "content_hash (Key_i64 n) = i64_content_hash n"
| "content_hash (Key_bool b) = bool_content_hash b"
| "content_hash (Key_str bytes) = string_content_hash bytes"

interpretation key_content: hashed_keys content_hash "(=)"
  by unfold_locales simp_all

subsection \<open>Properties\<close>

text \<open>C27. The lookup index of a map never changes an answer: for pairwise different keys and an index
  the validator accepts, probing the index finds the position that a search through the
  ordered entries finds, and reports absence exactly when no entry has the key.\<close>

theorem index_probe_is_search_of_entries:
  assumes "map_lookup_index_capacity (length keys) = Inr c"
    and "built_index c (map content_hash keys) = Inr index"
    and "keys \<noteq> []" and "length keys < size_max" and "distinct keys"
  shows "probe_map_entry (\<lambda>i. Inr (keys ! i = query)) index (length keys) (length index)
    (home_bucket (length index) (content_hash query)) = Inr (find_position (\<lambda>k. k = query) keys)"
  using assms
  by (intro key_content.probe_is_search) (auto simp: index_matches_def nth_eq_iff_index_eq)

lemma index_probe_is_search_of_entries_witness:
  "\<exists>index. probe_map_entry (\<lambda>i. Inr ([Key_bool True, Key_bool False] ! i = Key_bool False)) index
    (length [Key_bool True, Key_bool False]) (length index)
    (home_bucket (length index) (content_hash (Key_bool False)))
    = Inr (find_position (\<lambda>k. k = Key_bool False) [Key_bool True, Key_bool False])"
proof -
  let ?k = "[Key_bool True, Key_bool False]"
  obtain c where c: "map_lookup_index_capacity (length ?k) = Inr c"
    using map_lookup_index_capacity_ok [of "length ?k"] by (auto simp: uint32_max_def)
  note p = map_lookup_index_capacity_props [OF c]
  obtain index where "built_index c (map content_hash ?k) = Inr index"
    using built_index_ok [of c "map content_hash ?k"] p by (auto simp: size_max_def)
  with c show ?thesis
    by (intro exI, intro index_probe_is_search_of_entries) (auto simp: size_max_def)
qed

text \<open>C28. The index validator accepts an index exactly when it is, bucket by bucket, the index that
  rebuilding from the entries produces at the capacity their number calls for.\<close>

theorem index_validator_accepts_the_rebuilt_index:
  assumes "\<forall>e\<in>set entries. key_hash (e_key e) = Inr (H (e_key e))" and "length entries \<le> uint32_max"
    and "entries \<noteq> []"
  shows "validate_map_lookup_index key_hash entries index = Inr () \<longleftrightarrow>
    (\<exists>c. map_lookup_index_capacity (length entries) = Inr c \<and>
      build_map_lookup_index key_hash entries c = Inr index)"
proof -
  have lt: "length entries < size_max" using assms(2) by (simp add: uint32_max_def size_max_def)
  have "build_map_lookup_index key_hash entries c = built_index c (map (H \<circ> e_key) entries)"
    if "map_lookup_index_capacity (length entries) = Inr c" for c
    using build_map_lookup_index_eq [OF assms(1)] map_lookup_index_capacity_props [OF that] assms(3)
    by simp
  then show ?thesis
    unfolding validate_map_lookup_index_iff [OF assms(1) lt] index_matches_def by auto
qed

lemma index_validator_accepts_the_rebuilt_index_witness:
  "\<forall>index. validate_map_lookup_index (\<lambda>_. Inr 0) [\<lparr>e_key = VBool True, e_value = VNil\<rparr>] index = Inr () \<longleftrightarrow>
    (\<exists>c. map_lookup_index_capacity (length [\<lparr>e_key = VBool True, e_value = VNil\<rparr>]) = Inr c \<and>
      build_map_lookup_index (\<lambda>_. Inr 0) [\<lparr>e_key = VBool True, e_value = VNil\<rparr>] c = Inr index)"
  by (intro allI, rule index_validator_accepts_the_rebuilt_index [where H = "\<lambda>_. 0"])
    (simp_all add: uint32_max_def)

end
