(* ===== verification/GC_Heap.thy ===== *)
theory GC_Heap
  imports GC_MapIndex
begin

text \<open>
  The state of \<open>class Heap\<close> (\<open>include/lang/gc/heap.hpp\<close>) and its \<open>const\<close> accessors
  (\<open>src/gc/heap.cpp\<close>).

  The heap is a vector of storage slots; an object lives in its base slot and reserves the
  slots after it, which stay empty.  \<open>h_roots\<close> are the slots that the registered
  \<open>RootProvider\<close> visits, in visiting order: the collector reads and rewrites them in
  place, so the owner of the roots (the VM) stores its roots there before an operation and
  takes them back afterwards.  \<open>h_handle_roots\<close> are the slots of the live \<open>Handle\<close>s,
  each with its address.  \<open>h_mark_worklist\<close> is the vector \<open>incremental_mark_worklist_\<close>
  with its back first.  The metrics and the trace sink only observe and are left out.
\<close>

record intern_entry =
  content_hash_of :: u64
  canonical :: object_id

record compaction_entry =
  c_source_id :: object_id
  c_source_slot :: nat
  c_width :: nat
  c_destination_id :: object_id
  c_destination_slot :: nat

record stress_config =
  collect_before_every_allocation :: bool
  collect_after_every_allocation :: bool
  collect_minor_after_every_write_barrier :: bool
  collect_every_n_instructions :: u64
  collect_minor_every_n_instructions :: u64
  incremental_mark_step_budgets :: "nat list"
  incremental_compact_step_budgets :: "nat list"

type_synonym forwarding_table = "object_id option list"

record gcheap =
  h_roots :: "val list"
  h_stress :: stress_config
  h_objects :: "gcobj option list"
  h_generations :: "u32 list"
  h_remembered_set :: "object_id list"
  h_weak_refs :: "object_id list"
  h_intern_table :: "intern_entry list"
  h_ephemerons :: "object_id list"
  h_handle_roots :: "(nat \<times> val) list"
  h_skip_next_write_barrier :: bool
  h_marking_active :: bool
  h_mark_worklist :: "object_id list"
  h_compaction_active :: bool
  h_plan :: "compaction_entry list"
  h_cursor :: nat
  h_forwarding :: forwarding_table
  h_source_ids :: "object_id option list"
  h_destination_generations :: "u32 list"
  h_shadow_objects :: "gcobj option list"
  h_shadow_generations :: "u32 list"
  h_shadow_weak_refs :: "object_id list"
  h_shadow_intern_table :: "intern_entry list"
  h_shadow_ephemerons :: "object_id list"
  h_corrupt_next_copy :: bool
  h_skip_next_incremental_barrier :: bool
  h_skip_next_intern_processing :: bool

definition default_stress :: stress_config where
  "default_stress = \<lparr>collect_before_every_allocation = False,
     collect_after_every_allocation = False, collect_minor_after_every_write_barrier = False,
     collect_every_n_instructions = 0, collect_minor_every_n_instructions = 0,
     incremental_mark_step_budgets = [], incremental_compact_step_budgets = []\<rparr>"

definition empty_heap :: gcheap where
  "empty_heap = \<lparr>h_roots = [], h_stress = default_stress, h_objects = [], h_generations = [],
     h_remembered_set = [], h_weak_refs = [], h_intern_table = [], h_ephemerons = [],
     h_handle_roots = [], h_skip_next_write_barrier = False, h_marking_active = False,
     h_mark_worklist = [], h_compaction_active = False, h_plan = [], h_cursor = 0,
     h_forwarding = [], h_source_ids = [], h_destination_generations = [],
     h_shadow_objects = [], h_shadow_generations = [], h_shadow_weak_refs = [],
     h_shadow_intern_table = [], h_shadow_ephemerons = [], h_corrupt_next_copy = False,
     h_skip_next_incremental_barrier = False, h_skip_next_intern_processing = False\<rparr>"

subsection \<open>Identities\<close>

definition msg_stale_id :: string where "msg_stale_id = ''invalid or stale object id''"
definition msg_forwarding_no_object :: string where
  "msg_forwarding_no_object = ''incremental compaction forwarding entry names no current object''"
definition msg_final_unmoved :: string where
  "msg_final_unmoved = ''incremental compaction final rewrite found an unmoved object''"
definition msg_shadow_outside :: string where
  "msg_shadow_outside = ''incremental compaction shadow saw an object outside its source snapshot''"

text \<open>The slot of an id, if the id names the object now stored there.\<close>

definition current_slot :: "gcheap \<Rightarrow> object_id \<Rightarrow> bool" where
  "current_slot h i \<longleftrightarrow> generation_from i \<noteq> 0 \<and> slot_index i < length (h_objects h) \<and>
     slot_index i < length (h_generations h) \<and> h_generations h ! slot_index i = generation_from i \<and>
     h_objects h ! slot_index i \<noteq> None"

definition checked_slot :: "object_id \<Rightarrow> gcheap \<Rightarrow> exn + nat" where
  "checked_slot i h = (let slot = slot_index i in
     if current_slot h i then Inr slot
     else if h_compaction_active h \<and> slot < length (h_source_ids h) \<and>
         h_source_ids h ! slot = Some i \<and> slot < length (h_forwarding h) \<and>
         h_forwarding h ! slot \<noteq> None
     then let forwarded = the (h_forwarding h ! slot) in
       if \<not> current_slot h forwarded then Inl (Logic_error msg_forwarding_no_object)
       else Inr (slot_index forwarded)
     else Inl (Out_of_range msg_stale_id))"

definition object_at :: "gcheap \<Rightarrow> nat \<Rightarrow> gcobj" where
  "object_at h slot = the (h_objects h ! slot)"

definition heap_object :: "object_id \<Rightarrow> gcheap \<Rightarrow> exn + gcobj" where
  "heap_object i h = ebind (checked_slot i h) (\<lambda>slot. Inr (object_at h slot))"

definition rewrite_incremental_compaction_value :: "bool \<Rightarrow> gcheap \<Rightarrow> val \<Rightarrow> exn + val" where
  "rewrite_incremental_compaction_value require_forwarded h v = (case v of
     VObject i \<Rightarrow>
       (let slot = slot_index i in
        if slot < length (h_source_ids h) \<and> h_source_ids h ! slot = Some i
        then if slot < length (h_forwarding h) \<and> h_forwarding h ! slot \<noteq> None
          then ebind (value_object (the (h_forwarding h ! slot))) (\<lambda>w.
               ebind (as_object w) (\<lambda>j. ebind (checked_slot j h) (\<lambda>_. Inr w)))
          else ethen (ethrow_if require_forwarded (Logic_error msg_final_unmoved))
            (ebind (checked_slot i h) (\<lambda>_. Inr v))
        else ebind (checked_slot i h) (\<lambda>_. Inr v))
   | _ \<Rightarrow> Inr v)"

definition canonicalize_incremental_compaction_read :: "gcheap \<Rightarrow> val \<Rightarrow> exn + val" where
  "canonicalize_incremental_compaction_read h v =
     (if h_compaction_active h then rewrite_incremental_compaction_value False h v else Inr v)"

definition normalize_incremental_compaction_shadow_value :: "gcheap \<Rightarrow> val \<Rightarrow> exn + val" where
  "normalize_incremental_compaction_shadow_value h v = (case v of
     VObject i \<Rightarrow>
       (let slot = slot_index i in
        if slot < length (h_source_ids h) \<and> h_source_ids h ! slot = Some i then Inr v
        else (case find (\<lambda>entry. c_destination_id entry = i) (h_plan h) of
            Some entry \<Rightarrow> value_object (c_source_id entry)
          | None \<Rightarrow> ebind (checked_slot i h) (\<lambda>_. Inl (Logic_error msg_shadow_outside))))
   | _ \<Rightarrow> Inr v)"

subsection \<open>Objects of a kind\<close>

definition msg_not_pair :: string where "msg_not_pair = ''object is not a pair''"
definition msg_not_scalar_array :: string where "msg_not_scalar_array = ''object is not a scalar array''"
definition msg_not_ref_array :: string where "msg_not_ref_array = ''object is not a ref array''"
definition msg_not_string :: string where "msg_not_string = ''object is not a string''"
definition msg_not_builder :: string where "msg_not_builder = ''object is not a builder''"
definition msg_not_closure :: string where "msg_not_closure = ''object is not a closure''"
definition msg_not_map :: string where "msg_not_map = ''object is not a map''"
definition msg_not_weak :: string where "msg_not_weak = ''object is not a weak reference''"
definition msg_not_record :: string where "msg_not_record = ''object is not a record''"
definition msg_not_variant :: string where "msg_not_variant = ''object is not a variant''"
definition msg_not_ephemeron :: string where "msg_not_ephemeron = ''object is not an ephemeron''"

text \<open>The common shape of the eleven \<open>checked_\<close> functions.\<close>

definition checked_kind :: "object_kind \<Rightarrow> string \<Rightarrow> object_id \<Rightarrow> gcheap \<Rightarrow> exn + gcobj" where
  "checked_kind k msg i h = ebind (checked_slot i h) (\<lambda>slot.
     let x = object_at h slot in
     ethen (ethrow_if (o_kind x \<noteq> k) (Logic_error msg))
     (ethen (validate_descriptor_shape x) (Inr x)))"

definition checked_pair :: "object_id \<Rightarrow> gcheap \<Rightarrow> exn + gcobj" where
  "checked_pair = checked_kind Pair msg_not_pair"
definition checked_scalar_array :: "object_id \<Rightarrow> gcheap \<Rightarrow> exn + gcobj" where
  "checked_scalar_array = checked_kind ScalarArray msg_not_scalar_array"
definition checked_ref_array :: "object_id \<Rightarrow> gcheap \<Rightarrow> exn + gcobj" where
  "checked_ref_array = checked_kind RefArray msg_not_ref_array"
definition checked_string :: "object_id \<Rightarrow> gcheap \<Rightarrow> exn + gcobj" where
  "checked_string = checked_kind Str msg_not_string"
definition checked_builder :: "object_id \<Rightarrow> gcheap \<Rightarrow> exn + gcobj" where
  "checked_builder = checked_kind Builder msg_not_builder"
definition checked_closure :: "object_id \<Rightarrow> gcheap \<Rightarrow> exn + gcobj" where
  "checked_closure = checked_kind Closure msg_not_closure"
definition checked_map :: "object_id \<Rightarrow> gcheap \<Rightarrow> exn + gcobj" where
  "checked_map = checked_kind Map_kind msg_not_map"
definition checked_weak_ref :: "object_id \<Rightarrow> gcheap \<Rightarrow> exn + gcobj" where
  "checked_weak_ref = checked_kind WeakRef msg_not_weak"
definition checked_record :: "object_id \<Rightarrow> gcheap \<Rightarrow> exn + gcobj" where
  "checked_record = checked_kind Record_kind msg_not_record"
definition checked_variant :: "object_id \<Rightarrow> gcheap \<Rightarrow> exn + gcobj" where
  "checked_variant = checked_kind Variant msg_not_variant"
definition checked_ephemeron :: "object_id \<Rightarrow> gcheap \<Rightarrow> exn + gcobj" where
  "checked_ephemeron = checked_kind Ephemeron msg_not_ephemeron"

lemmas checked_defs = checked_pair_def checked_scalar_array_def checked_ref_array_def
  checked_string_def checked_builder_def checked_closure_def checked_map_def
  checked_weak_ref_def checked_record_def checked_variant_def checked_ephemeron_def

subsection \<open>Reading\<close>

definition msg_scalar_array_bounds :: string where
  "msg_scalar_array_bounds = ''scalar array index out of bounds''"
definition msg_ref_array_bounds :: string where
  "msg_ref_array_bounds = ''ref array index out of bounds''"
definition msg_string_bounds :: string where "msg_string_bounds = ''string index out of bounds''"
definition msg_capture_bounds :: string where
  "msg_capture_bounds = ''closure capture index out of bounds''"
definition msg_map_key_not_found :: string where "msg_map_key_not_found = ''map key not found''"
definition msg_map_entry_bounds :: string where
  "msg_map_entry_bounds = ''map entry index out of bounds''"
definition msg_record_bounds :: string where
  "msg_record_bounds = ''record field index out of bounds''"
definition msg_variant_bounds :: string where
  "msg_variant_bounds = ''variant field index out of bounds''"
definition msg_variant_maps :: string where
  "msg_variant_maps = ''variant case index exceeds reference maps''"

definition heap_left :: "object_id \<Rightarrow> gcheap \<Rightarrow> exn + val" where
  "heap_left i h = ebind (checked_pair i h) (\<lambda>x. canonicalize_incremental_compaction_read h (o_left x))"

definition heap_right :: "object_id \<Rightarrow> gcheap \<Rightarrow> exn + val" where
  "heap_right i h = ebind (checked_pair i h) (\<lambda>x. canonicalize_incremental_compaction_read h (o_right x))"

definition array_length :: "object_id \<Rightarrow> gcheap \<Rightarrow> exn + nat" where
  "array_length i h = ebind (checked_scalar_array i h) (\<lambda>x. Inr (unat (o_length x)))"

definition array_get :: "object_id \<Rightarrow> nat \<Rightarrow> gcheap \<Rightarrow> exn + i64" where
  "array_get i index h = ebind (checked_scalar_array i h) (\<lambda>x.
     ethen (ethrow_if (index \<ge> length (o_scalar_elements x)) (Out_of_range msg_scalar_array_bounds))
     (Inr (o_scalar_elements x ! index)))"

definition ref_array_length :: "object_id \<Rightarrow> gcheap \<Rightarrow> exn + nat" where
  "ref_array_length i h = ebind (checked_ref_array i h) (\<lambda>x. Inr (unat (o_length x)))"

definition ref_array_get :: "object_id \<Rightarrow> nat \<Rightarrow> gcheap \<Rightarrow> exn + val" where
  "ref_array_get i index h = ebind (checked_ref_array i h) (\<lambda>x.
     ethen (ethrow_if (index \<ge> length (o_ref_elements x)) (Out_of_range msg_ref_array_bounds))
     (canonicalize_incremental_compaction_read h (o_ref_elements x ! index)))"

definition string_length :: "object_id \<Rightarrow> gcheap \<Rightarrow> exn + nat" where
  "string_length i h = ebind (checked_string i h) (\<lambda>x. Inr (unat (o_length x)))"

definition string_bytes :: "object_id \<Rightarrow> gcheap \<Rightarrow> exn + u8 list" where
  "string_bytes i h = ebind (checked_string i h) (\<lambda>x. Inr (o_string_bytes x))"

definition builder_length :: "object_id \<Rightarrow> gcheap \<Rightarrow> exn + nat" where
  "builder_length i h = ebind (checked_builder i h) (\<lambda>x. Inr (unat (o_length x)))"

definition builder_bytes :: "object_id \<Rightarrow> gcheap \<Rightarrow> exn + u8 list" where
  "builder_bytes i h = ebind (checked_builder i h) (\<lambda>x. Inr (o_builder_bytes x))"

definition string_equal :: "object_id \<Rightarrow> object_id \<Rightarrow> gcheap \<Rightarrow> exn + bool" where
  "string_equal l r h = ebind (string_bytes l h) (\<lambda>a. ebind (string_bytes r h) (\<lambda>b. Inr (a = b)))"

definition string_index :: "object_id \<Rightarrow> nat \<Rightarrow> gcheap \<Rightarrow> exn + u8" where
  "string_index i index h = ebind (string_bytes i h) (\<lambda>bytes.
     ethen (ethrow_if (index \<ge> length bytes) (Out_of_range msg_string_bounds)) (Inr (bytes ! index)))"

definition closure_layout_index :: "object_id \<Rightarrow> gcheap \<Rightarrow> exn + nat" where
  "closure_layout_index i h = ebind (checked_closure i h) (\<lambda>x. Inr (unat (o_closure_layout_index x)))"

definition closure_function_index :: "object_id \<Rightarrow> gcheap \<Rightarrow> exn + nat" where
  "closure_function_index i h = ebind (checked_closure i h) (\<lambda>x. Inr (unat (o_closure_function_index x)))"

definition closure_capture_count :: "object_id \<Rightarrow> gcheap \<Rightarrow> exn + nat" where
  "closure_capture_count i h = ebind (checked_closure i h) (\<lambda>x. Inr (length (o_closure_captures x)))"

definition closure_capture :: "object_id \<Rightarrow> nat \<Rightarrow> gcheap \<Rightarrow> exn + val" where
  "closure_capture i index h = ebind (checked_closure i h) (\<lambda>x.
     ethen (ethrow_if (index \<ge> length (o_closure_captures x)) (Out_of_range msg_capture_bounds))
     (let v = o_closure_captures x ! index in
      if o_closure_capture_map x ! index then canonicalize_incremental_compaction_read h v else Inr v))"

definition map_layout_index :: "object_id \<Rightarrow> gcheap \<Rightarrow> exn + nat" where
  "map_layout_index i h = ebind (checked_map i h) (\<lambda>x. Inr (unat (o_map_layout_index x)))"

definition map_length :: "object_id \<Rightarrow> gcheap \<Rightarrow> exn + nat" where
  "map_length i h = ebind (checked_map i h) (\<lambda>x. Inr (length (o_map_entries x)))"

definition weak_get :: "object_id \<Rightarrow> gcheap \<Rightarrow> exn + val" where
  "weak_get i h = ebind (checked_weak_ref i h) (\<lambda>x.
     canonicalize_incremental_compaction_read h (o_weak_target x))"

definition heap_ephemeron_key :: "object_id \<Rightarrow> gcheap \<Rightarrow> exn + val" where
  "heap_ephemeron_key i h = ebind (checked_ephemeron i h) (\<lambda>x.
     canonicalize_incremental_compaction_read h (o_ephemeron_key x))"

definition heap_ephemeron_value :: "object_id \<Rightarrow> gcheap \<Rightarrow> exn + val" where
  "heap_ephemeron_value i h = ebind (checked_ephemeron i h) (\<lambda>x.
     if o_ephemeron_value_is_ref x
     then canonicalize_incremental_compaction_read h (o_ephemeron_value x)
     else Inr (o_ephemeron_value x))"

definition record_layout_index :: "object_id \<Rightarrow> gcheap \<Rightarrow> exn + nat" where
  "record_layout_index i h = ebind (checked_record i h) (\<lambda>x. Inr (unat (o_record_layout_index x)))"

definition record_field_count :: "object_id \<Rightarrow> gcheap \<Rightarrow> exn + nat" where
  "record_field_count i h = ebind (checked_record i h) (\<lambda>x. Inr (length (o_record_fields x)))"

definition record_get :: "object_id \<Rightarrow> nat \<Rightarrow> gcheap \<Rightarrow> exn + val" where
  "record_get i index h = ebind (checked_record i h) (\<lambda>x.
     ethen (ethrow_if (index \<ge> length (o_record_fields x)) (Out_of_range msg_record_bounds))
     (let v = o_record_fields x ! index in
      if o_record_ref_map x ! index then canonicalize_incremental_compaction_read h v else Inr v))"

definition variant_layout_index :: "object_id \<Rightarrow> gcheap \<Rightarrow> exn + nat" where
  "variant_layout_index i h = ebind (checked_variant i h) (\<lambda>x. Inr (unat (o_variant_layout_index x)))"

definition variant_tag :: "object_id \<Rightarrow> gcheap \<Rightarrow> exn + nat" where
  "variant_tag i h = ebind (checked_variant i h) (\<lambda>x. Inr (unat (o_variant_case_index x)))"

definition variant_field_count :: "object_id \<Rightarrow> gcheap \<Rightarrow> exn + nat" where
  "variant_field_count i h = ebind (checked_variant i h) (\<lambda>x. Inr (length (o_variant_fields x)))"

definition variant_get :: "object_id \<Rightarrow> nat \<Rightarrow> gcheap \<Rightarrow> exn + val" where
  "variant_get i index h = ebind (checked_variant i h) (\<lambda>x.
     ethen (ethrow_if (index \<ge> length (o_variant_fields x)) (Out_of_range msg_variant_bounds))
     (ethen (ethrow_if (unat (o_variant_case_index x) \<ge> length (o_variant_case_ref_maps x))
       (Logic_error msg_variant_maps))
     (let v = o_variant_fields x ! index in
      if selected_ref_map x ! index then canonicalize_incremental_compaction_read h v else Inr v)))"

definition live_count :: "gcheap \<Rightarrow> nat" where
  "live_count h = length (filter (\<lambda>slot. slot \<noteq> None) (h_objects h))"

subsection \<open>Maps\<close>

definition msg_map_string_key :: string where
  "msg_map_string_key = ''map string key must be an object reference''"
definition msg_map_scalar_key_value :: string where
  "msg_map_scalar_key_value = ''map scalar key must be i64 or bool''"
definition msg_map_ref_value :: string where
  "msg_map_ref_value = ''map reference value must carry Object or Nil tag''"
definition msg_map_scalar_value_tag :: string where
  "msg_map_scalar_value_tag = ''map scalar value must be i64 or bool''"
definition msg_map_hash_key :: string where
  "msg_map_hash_key = ''map key hash requires i64, bool, or str''"
definition msg_index_non_map :: string where
  "msg_index_non_map = ''map lookup index validator received non-map''"

definition validate_map_key :: "gcobj \<Rightarrow> val \<Rightarrow> gcheap \<Rightarrow> exn + unit" where
  "validate_map_key m key h =
     (if o_map_key_is_ref m
      then ethen (ethrow_if (\<not> is_object key) (Logic_error msg_map_string_key))
        (ebind (as_object key) (\<lambda>i. ebind (checked_string i h) (\<lambda>_. Inr ())))
      else ethrow_if (\<not> scalar_tag key) (Logic_error msg_map_scalar_key_value))"

definition validate_map_value :: "gcobj \<Rightarrow> val \<Rightarrow> gcheap \<Rightarrow> exn + unit" where
  "validate_map_value m v h =
     (if o_map_value_is_ref m
      then ethen (ethrow_if (\<not> reference_tag v) (Logic_error msg_map_ref_value))
        (if is_object v then ebind (as_object v) (\<lambda>i. ebind (checked_slot i h) (\<lambda>_. Inr ()))
         else Inr ())
      else ethrow_if (\<not> scalar_tag v) (Logic_error msg_map_scalar_value_tag))"

fun map_key_hash :: "gcheap \<Rightarrow> val \<Rightarrow> exn + u64" where
  "map_key_hash h (VInt64 n) = Inr (i64_content_hash n)"
| "map_key_hash h (VBool b) = Inr (bool_content_hash b)"
| "map_key_hash h (VObject i) = ebind (string_bytes i h) (\<lambda>bytes. Inr (string_content_hash bytes))"
| "map_key_hash h VNil = Inl (Logic_error msg_map_hash_key)"

definition map_keys_equal :: "gcobj \<Rightarrow> val \<Rightarrow> val \<Rightarrow> gcheap \<Rightarrow> exn + bool" where
  "map_keys_equal m stored query h =
     (if o_map_key_is_ref m
      then ebind (as_object stored) (\<lambda>a. ebind (as_object query) (\<lambda>b. string_equal a b h))
      else (case (stored, query) of
          (VInt64 a, VInt64 b) \<Rightarrow> Inr (a = b)
        | (VBool a, VBool b) \<Rightarrow> Inr (a = b)
        | _ \<Rightarrow> Inr False))"

definition find_map_entry :: "object_id \<Rightarrow> val \<Rightarrow> gcheap \<Rightarrow> exn + nat option" where
  "find_map_entry i key h = ebind (checked_map i h) (\<lambda>m.
     ethen (validate_map_key m key h)
     (let index = o_map_lookup_index m; entries = o_map_entries m in
      if index = [] then Inr None
      else ebind (map_key_hash h key) (\<lambda>hash.
        probe_map_entry (\<lambda>e. map_keys_equal m (e_key (entries ! e)) key h) index (length entries)
          (length index) (home_bucket (length index) hash))))"

definition map_has :: "object_id \<Rightarrow> val \<Rightarrow> gcheap \<Rightarrow> exn + bool" where
  "map_has i key h = ebind (find_map_entry i key h) (\<lambda>e. Inr (e \<noteq> None))"

definition map_get :: "object_id \<Rightarrow> val \<Rightarrow> gcheap \<Rightarrow> exn + val" where
  "map_get i key h = ebind (find_map_entry i key h) (\<lambda>entry. case entry of
       None \<Rightarrow> Inl (Out_of_range msg_map_key_not_found)
     | Some e \<Rightarrow> ebind (checked_map i h) (\<lambda>m.
         let v = e_value (o_map_entries m ! e) in
         if o_map_value_is_ref m then canonicalize_incremental_compaction_read h v else Inr v))"

definition map_key_at :: "object_id \<Rightarrow> nat \<Rightarrow> gcheap \<Rightarrow> exn + val" where
  "map_key_at i index h = ebind (checked_map i h) (\<lambda>m.
     ethen (ethrow_if (index \<ge> length (o_map_entries m)) (Out_of_range msg_map_entry_bounds))
     (let k = e_key (o_map_entries m ! index) in
      if o_map_key_is_ref m then canonicalize_incremental_compaction_read h k else Inr k))"

definition map_value_at :: "object_id \<Rightarrow> nat \<Rightarrow> gcheap \<Rightarrow> exn + val" where
  "map_value_at i index h = ebind (checked_map i h) (\<lambda>m.
     ethen (ethrow_if (index \<ge> length (o_map_entries m)) (Out_of_range msg_map_entry_bounds))
     (let v = e_value (o_map_entries m ! index) in
      if o_map_value_is_ref m then canonicalize_incremental_compaction_read h v else Inr v))"

definition validate_map_index :: "gcobj \<Rightarrow> gcheap \<Rightarrow> exn + unit" where
  "validate_map_index m h =
     ethen (ethrow_if (o_kind m \<noteq> Map_kind) (Logic_error msg_index_non_map))
     (validate_map_lookup_index (map_key_hash h) (o_map_entries m) (o_map_lookup_index m))"

end
