(* ===== verification/GC_Validate.thy ===== *)
theory GC_Validate
  imports GC_Heap
begin

text \<open>
  The validators of \<open>src/gc/heap.cpp\<close> that guard every collection: the storage layout, the
  remembered set, the two registries of weak references and ephemerons, the intern table and
  \<open>validate_after_collection\<close>.  Each validator is proved equivalent to a declarative
  condition on the heap (\<open>layout_ok\<close>, \<open>remembered_ok\<close>, \<open>weak_ok\<close>, \<open>ephemerons_ok\<close>,
  \<open>interns_ok\<close>); the conditions together are the well-formedness \<open>heap_wf\<close> that the rest of
  the development preserves.
\<close>

definition msg_header_overlap :: string where
  "msg_header_overlap = ''heap object header overlaps another object's storage run''"
definition msg_past_storage :: string where
  "msg_past_storage = ''heap object descriptor extends past heap storage''"
definition msg_runs_overlap :: string where
  "msg_runs_overlap = ''heap object storage runs overlap''"
definition msg_payload_header :: string where
  "msg_payload_header = ''heap object payload slot contains an object header''"
definition msg_remembered_not_old :: string where
  "msg_remembered_not_old = ''remembered-set entry does not name an old object''"
definition msg_remembered_missing :: string where
  "msg_remembered_missing = ''old-to-young reference missing remembered-set entry''"
definition msg_weak_missing :: string where
  "msg_weak_missing = ''live WeakRef is missing from weak-target registry''"
definition msg_weak_wrong_owner :: string where
  "msg_weak_wrong_owner = ''weak-target registry names a stale or wrong WeakRef owner''"
definition msg_weak_order :: string where
  "msg_weak_order = ''weak-target registry is not in strict heap-slot order''"
definition msg_weak_target_kind :: string where
  "msg_weak_target_kind = ''weak target is neither a live object id nor canonical nil''"
definition msg_weak_dead_owner :: string where
  "msg_weak_dead_owner = ''weak-target registry contains a dead or non-WeakRef owner''"
definition msg_intern_stale :: string where
  "msg_intern_stale = ''intern table entry names an invalid or stale canonical string''"
definition msg_intern_order :: string where
  "msg_intern_order = ''intern table is not in strict heap-slot order''"
definition msg_intern_hash :: string where
  "msg_intern_hash = ''intern table content hash disagrees with canonical bytes''"
definition msg_intern_duplicate :: string where
  "msg_intern_duplicate = ''intern table contains duplicate canonical bytes''"
definition msg_ephemeron_missing :: string where
  "msg_ephemeron_missing = ''live Ephemeron is missing from registry''"
definition msg_ephemeron_order :: string where
  "msg_ephemeron_order = ''ephemeron registry is not in strict slot order''"
definition msg_ephemeron_dead_owner :: string where
  "msg_ephemeron_dead_owner = ''ephemeron registry contains a dead owner''"

subsection \<open>Slots\<close>

definition slot_has_generation :: "object_generation \<Rightarrow> gcheap \<Rightarrow> nat \<Rightarrow> bool" where
  "slot_has_generation g h slot = (case h_objects h ! slot of None \<Rightarrow> False
     | Some x \<Rightarrow> o_generation x = g)"

definition is_young_slot :: "nat \<Rightarrow> gcheap \<Rightarrow> exn + bool" where
  "is_young_slot slot h = ethen (ethrow_if (\<not> slot < length (h_objects h)) Abort)
     (Inr (slot_has_generation Young h slot))"

definition is_old_slot :: "nat \<Rightarrow> gcheap \<Rightarrow> exn + bool" where
  "is_old_slot slot h = ethen (ethrow_if (\<not> slot < length (h_objects h)) Abort)
     (Inr (slot_has_generation Old h slot))"

definition remembered_set_contains :: "object_id \<Rightarrow> gcheap \<Rightarrow> bool" where
  "remembered_set_contains i h = (i \<in> set (h_remembered_set h))"

text \<open>\<open>make_object_id(slot, generations_[slot])\<close>.\<close>

definition id_at :: "gcheap \<Rightarrow> nat \<Rightarrow> object_id" where
  "id_at h slot = object_id_at slot (h_generations h ! slot)"

text \<open>A loop over the occupied slots, in slot order.\<close>

definition for_objects :: "(nat \<Rightarrow> gcobj \<Rightarrow> exn + unit) \<Rightarrow> gcheap \<Rightarrow> exn + unit" where
  "for_objects f h = eall (\<lambda>slot. case h_objects h ! slot of None \<Rightarrow> Inr () | Some x \<Rightarrow> f slot x)
     [0..<length (h_objects h)]"

text \<open>The slots that \<open>trace_collection_roots\<close> visits: the provider's, the handles', the extra ones.\<close>

definition collection_roots :: "gcheap \<Rightarrow> val list \<Rightarrow> val list" where
  "collection_roots h extra = h_roots h @ map snd (h_handle_roots h) @ extra"

subsection \<open>The validators\<close>

definition validate_value :: "gcheap \<Rightarrow> val \<Rightarrow> exn + unit" where
  "validate_value h v = (if \<not> is_object v then Inr ()
     else ebind (as_object v) (\<lambda>i. ebind (checked_slot i h) (\<lambda>slot.
       ethrow_if (h_objects h ! slot = None) Abort)))"

definition cover_storage :: "gcobj option list \<Rightarrow> nat \<Rightarrow> nat \<Rightarrow> bool list \<Rightarrow> exn + bool list" where
  "cover_storage objs base width = efold (\<lambda>offset covered.
     ethen (ethrow_if (covered ! (base + offset)) (Logic_error msg_runs_overlap))
     (ethen (ethrow_if (offset \<noteq> 0 \<and> objs ! (base + offset) \<noteq> None)
       (Logic_error msg_payload_header))
     (Inr (covered[base + offset := True])))) [0..<width]"

definition validate_slot_layout :: "gcheap \<Rightarrow> nat \<Rightarrow> bool list \<Rightarrow> exn + bool list" where
  "validate_slot_layout h base covered = (case h_objects h ! base of None \<Rightarrow> Inr covered
     | Some x \<Rightarrow>
        ethen (ethrow_if (covered ! base) (Logic_error msg_header_overlap))
        (ethen (validate_descriptor_shape x)
        (ethen (if o_kind x = Map_kind then validate_map_index x h else Inr ())
        (ethen (ethrow_if (storage_slot_count x = 0 \<or>
            base + storage_slot_count x > length (h_objects h)) (Logic_error msg_past_storage))
        (cover_storage (h_objects h) base (storage_slot_count x) covered)))))"

definition validate_heap_storage_layout :: "gcheap \<Rightarrow> exn + unit" where
  "validate_heap_storage_layout h =
     ebind (efold (validate_slot_layout h) [0..<length (h_objects h)]
       (replicate (length (h_objects h)) False)) (\<lambda>_. Inr ())"

definition validate_remembered_entry :: "gcheap \<Rightarrow> object_id \<Rightarrow> exn + unit" where
  "validate_remembered_entry h remembered = ebind (checked_slot remembered h) (\<lambda>slot.
     ebind (is_old_slot slot h) (\<lambda>old. ethrow_if (\<not> old) (Logic_error msg_remembered_not_old)))"

definition validate_remembered_owner :: "gcheap \<Rightarrow> nat \<Rightarrow> gcobj \<Rightarrow> exn + unit" where
  "validate_remembered_owner h slot x = ebind (is_old_slot slot h) (\<lambda>old.
     if \<not> old then Inr ()
     else ebind (visit_reference_fields x) (eall (\<lambda>v.
       if \<not> is_object v then Inr ()
       else ebind (as_object v) (\<lambda>i. ebind (checked_slot i h) (\<lambda>target.
         ebind (is_young_slot target h) (\<lambda>young.
         ethrow_if (young \<and> \<not> remembered_set_contains (id_at h slot) h)
           (Logic_error msg_remembered_missing)))))))"

definition validate_remembered_set :: "gcheap \<Rightarrow> exn + unit" where
  "validate_remembered_set h = ethen (eall (validate_remembered_entry h) (h_remembered_set h))
     (for_objects (validate_remembered_owner h) h)"

definition validate_weak_slot :: "gcheap \<Rightarrow> nat \<Rightarrow> nat \<times> nat option \<Rightarrow> exn + nat \<times> nat option" where
  "validate_weak_slot h slot st = (case (h_objects h ! slot, st) of
       (None, _) \<Rightarrow> Inr st
     | (Some x, (registry_index, previous_slot)) \<Rightarrow>
        if o_kind x \<noteq> WeakRef then Inr st
        else ethen (ethrow_if (registry_index \<ge> length (h_weak_refs h)) (Logic_error msg_weak_missing))
        (let registered = h_weak_refs h ! registry_index; registered_slot = slot_index registered in
         ethen (if registered_slot \<noteq> slot then Inl (Logic_error msg_weak_wrong_owner)
           else ebind (checked_slot registered h) (\<lambda>s.
             ethrow_if (s \<noteq> slot) (Logic_error msg_weak_wrong_owner)))
         (ethen (ethrow_if (previous_slot \<noteq> None \<and> the previous_slot \<ge> registered_slot)
           (Logic_error msg_weak_order))
         (let target = o_weak_target x in
          ethen (if is_object target then validate_value h target
            else ethrow_if (tag target \<noteq> Tag_Nil) (Logic_error msg_weak_target_kind))
          (Inr (Suc registry_index, Some registered_slot))))))"

definition validate_weak_targets :: "gcheap \<Rightarrow> exn + unit" where
  "validate_weak_targets h =
     ebind (efold (validate_weak_slot h) [0..<length (h_objects h)] (0, None)) (\<lambda>(registry_index, _).
       ethrow_if (registry_index \<noteq> length (h_weak_refs h)) (Logic_error msg_weak_dead_owner))"

definition validate_intern_entry :: "gcheap \<Rightarrow> nat \<Rightarrow> nat option \<Rightarrow> exn + nat option" where
  "validate_intern_entry h index previous_slot =
     (let entry = h_intern_table h ! index in
      ebind (case checked_slot (canonical entry) h of
          Inl (Out_of_range m) \<Rightarrow> Inl (Logic_error msg_intern_stale)
        | r \<Rightarrow> r) (\<lambda>target_slot.
      ethen (ethrow_if (case h_objects h ! target_slot of None \<Rightarrow> True
          | Some x \<Rightarrow> o_kind x \<noteq> Str) (Logic_error msg_intern_stale))
      (let encoded_slot = slot_index (canonical entry) in
       ethen (ethrow_if (previous_slot \<noteq> None \<and> the previous_slot \<ge> encoded_slot)
         (Logic_error msg_intern_order))
       (ebind (string_bytes (canonical entry) h) (\<lambda>bytes.
        ethen (ethrow_if (string_content_hash bytes \<noteq> content_hash_of entry)
          (Logic_error msg_intern_hash))
        (ethen (eall (\<lambda>prior. let p = h_intern_table h ! prior in
            if content_hash_of p = content_hash_of entry
            then ebind (string_equal (canonical p) (canonical entry) h) (\<lambda>same.
              ethrow_if same (Logic_error msg_intern_duplicate))
            else Inr ()) [0..<index])
         (Inr (Some encoded_slot))))))))"

definition validate_intern_table :: "gcheap \<Rightarrow> exn + unit" where
  "validate_intern_table h =
     ebind (efold (validate_intern_entry h) [0..<length (h_intern_table h)] None) (\<lambda>_. Inr ())"

definition validate_ephemeron_slot :: "gcheap \<Rightarrow> nat \<Rightarrow> nat \<Rightarrow> exn + nat" where
  "validate_ephemeron_slot h slot registry_index = (case h_objects h ! slot of None \<Rightarrow> Inr registry_index
     | Some x \<Rightarrow>
        if o_kind x \<noteq> Ephemeron then Inr registry_index
        else ethen (if registry_index \<ge> length (h_ephemerons h)
            then Inl (Logic_error msg_ephemeron_missing)
            else ebind (checked_slot (h_ephemerons h ! registry_index) h) (\<lambda>s.
              ethrow_if (s \<noteq> slot) (Logic_error msg_ephemeron_missing)))
        (ethen (ethrow_if (registry_index > 0 \<and>
            slot_index (h_ephemerons h ! (registry_index - 1)) \<ge>
              slot_index (h_ephemerons h ! registry_index)) (Logic_error msg_ephemeron_order))
        (ethen (validate_descriptor_shape x)
        (ethen (if is_object (o_ephemeron_key x) then validate_value h (o_ephemeron_key x) else Inr ())
        (ethen (if o_ephemeron_value_is_ref x \<and> is_object (o_ephemeron_value x)
            then validate_value h (o_ephemeron_value x) else Inr ())
        (Inr (Suc registry_index)))))))"

definition validate_ephemerons :: "gcheap \<Rightarrow> exn + unit" where
  "validate_ephemerons h =
     ebind (efold (validate_ephemeron_slot h) [0..<length (h_objects h)] 0) (\<lambda>registry_index.
       ethrow_if (registry_index \<noteq> length (h_ephemerons h)) (Logic_error msg_ephemeron_dead_owner))"

definition validate_collected_object :: "gcheap \<Rightarrow> nat \<Rightarrow> gcobj \<Rightarrow> exn + unit" where
  "validate_collected_object h slot x = ethen (ethrow_if (o_marked x) Abort)
     (ethen (validate_descriptor_shape x)
     (ebind (visit_reference_fields x) (eall (validate_value h))))"

definition validate_after_collection :: "gcheap \<Rightarrow> val list \<Rightarrow> exn + unit" where
  "validate_after_collection h extra =
     ethen (validate_heap_storage_layout h)
     (ethen (eall (validate_value h) (collection_roots h extra))
     (ethen (for_objects (validate_collected_object h) h)
     (ethen (validate_remembered_set h)
     (ethen (validate_weak_targets h)
     (ethen (validate_intern_table h)
     (validate_ephemerons h))))))"

subsection \<open>Identities on a heap that is not being compacted\<close>

definition holds :: "gcheap \<Rightarrow> nat \<Rightarrow> gcobj \<Rightarrow> bool" where
  "holds h s x \<longleftrightarrow> s < length (h_objects h) \<and> h_objects h ! s = Some x"

definition valid_ref :: "gcheap \<Rightarrow> val \<Rightarrow> bool" where
  "valid_ref h v \<longleftrightarrow> (\<forall>i. v = VObject i \<longrightarrow> current_slot h i)"

lemma valid_ref_simps [simp]:
  "valid_ref h (VObject i) = current_slot h i" "valid_ref h VNil" "valid_ref h (VInt64 n)"
  "valid_ref h (VBool b)"
  by (simp_all add: valid_ref_def)

lemma holds_unique: "holds h s x \<Longrightarrow> holds h s y \<Longrightarrow> x = y"
  by (simp add: holds_def)

lemma holds_less: "holds h s x \<Longrightarrow> s < length (h_objects h)"
  by (simp add: holds_def)

lemma holds_object_at: "holds h s x \<Longrightarrow> object_at h s = x"
  by (simp add: holds_def object_at_def)

lemma checked_slot_occupied:
  assumes "checked_slot i h = Inr s"
  shows "s < length (h_objects h)" "h_objects h ! s \<noteq> None" "holds h s (object_at h s)"
  using assms
  by (auto simp: checked_slot_def current_slot_def Let_def holds_def object_at_def split: if_splits)

lemma checked_slot_current [simp]: "current_slot h i \<Longrightarrow> checked_slot i h = Inr (slot_index i)"
  by (simp add: checked_slot_def)

lemma checked_slot_Inr_iff:
  "\<not> h_compaction_active h \<Longrightarrow>
    checked_slot i h = Inr s \<longleftrightarrow> current_slot h i \<and> s = slot_index i"
  by (auto simp: checked_slot_def Let_def)

lemma checked_slot_stale:
  "\<not> h_compaction_active h \<Longrightarrow> \<not> current_slot h i \<Longrightarrow>
    checked_slot i h = Inl (Out_of_range msg_stale_id)"
  by (simp add: checked_slot_def Let_def)

lemma current_slot_holds: "current_slot h i \<Longrightarrow> holds h (slot_index i) (object_at h (slot_index i))"
  by (auto simp: current_slot_def holds_def object_at_def)

lemma current_slot_id_at: "current_slot h i \<Longrightarrow> id_at h (slot_index i) = i"
  by (simp add: id_at_def current_slot_def make_object_id_split)

lemma is_young_slot_ok [simp]:
  "holds h s x \<Longrightarrow> is_young_slot s h = Inr (o_generation x = Young)"
  "holds h s x \<Longrightarrow> is_old_slot s h = Inr (o_generation x = Old)"
  by (simp_all add: is_young_slot_def is_old_slot_def holds_def slot_has_generation_def)

lemma for_objects_ok_iff:
  "for_objects f h = Inr () \<longleftrightarrow> (\<forall>s x. holds h s x \<longrightarrow> f s x = Inr ())"
  unfolding for_objects_def eall_ok_iff holds_def by (auto split: option.splits)

lemma visit_reference_fields_ok: "shape_ok x \<Longrightarrow> visit_reference_fields x = Inr (reference_fields x)"
  by (simp add: visit_reference_fields_def)

lemma visit_reference_fields_Inr_iff:
  "visit_reference_fields x = Inr vs \<longleftrightarrow> shape_ok x \<and> vs = reference_fields x"
  by (auto simp: visit_reference_fields_def ethen_Inr_iff)

lemma validate_value_ok_iff:
  "\<not> h_compaction_active h \<Longrightarrow> validate_value h v = Inr () \<longleftrightarrow> valid_ref h v"
  by (cases v) (auto simp: validate_value_def ebind_Inr_iff checked_slot_Inr_iff current_slot_def)

subsection \<open>The storage layout\<close>

definition slot_layout_ok :: "gcheap \<Rightarrow> nat \<Rightarrow> gcobj \<Rightarrow> bool" where
  "slot_layout_ok h s x \<longleftrightarrow> shape_ok x \<and> (o_kind x = Map_kind \<longrightarrow> validate_map_index x h = Inr ()) \<and>
     s + storage_slot_count x \<le> length (h_objects h) \<and>
     (\<forall>d. 0 < d \<longrightarrow> d < storage_slot_count x \<longrightarrow> h_objects h ! (s + d) = None)"

definition layout_ok :: "gcheap \<Rightarrow> bool" where
  "layout_ok h \<longleftrightarrow> (\<forall>s x. holds h s x \<longrightarrow> slot_layout_ok h s x)"

lemma cover_storage_iff:
  assumes "base + w \<le> length covered"
  shows "cover_storage objs base w covered = Inr c \<longleftrightarrow>
    (\<forall>d<w. \<not> covered ! (base + d)) \<and> (\<forall>d<w. d \<noteq> 0 \<longrightarrow> objs ! (base + d) = None) \<and>
    c = map (\<lambda>s. covered ! s \<or> base \<le> s \<and> s < base + w) [0..<length covered]"
  using assms
proof (induction w arbitrary: c)
  case 0
  have "map (\<lambda>s. covered ! s \<or> base \<le> s \<and> s < base) [0..<length covered] = covered"
    by (rule nth_equalityI) auto
  then show ?case by (auto simp: cover_storage_def)
next
  case (Suc w)
  let ?c = "\<lambda>w. map (\<lambda>s. covered ! s \<or> base \<le> s \<and> s < base + w) [0..<length covered]"
  have step: "(?c w)[base + w := True] = ?c (Suc w)"
    using Suc.prems by (intro nth_equalityI) (auto simp: nth_list_update)
  have old: "?c w ! (base + w) = covered ! (base + w)" using Suc.prems by simp
  have "cover_storage objs base (Suc w) covered = ebind (cover_storage objs base w covered)
      (\<lambda>covered. ethen (ethrow_if (covered ! (base + w)) (Logic_error msg_runs_overlap))
     (ethen (ethrow_if (w \<noteq> 0 \<and> objs ! (base + w) \<noteq> None) (Logic_error msg_payload_header))
     (Inr (covered[base + w := True]))))"
    by (simp only: cover_storage_def efold_upt_Suc)
  then show ?case
    using Suc.IH Suc.prems step old
    by (auto simp: ebind_Inr_iff ethen_Inr_iff less_Suc_eq)
qed

lemma layout_scan:
  fixes h
  defines "N \<equiv> length (h_objects h)"
  defines "run \<equiv> \<lambda>n. efold (validate_slot_layout h) [0..<n] (replicate N False)"
  defines "cov \<equiv> \<lambda>n. map (\<lambda>s. \<exists>b<n. \<exists>x. holds h b x \<and> b \<le> s \<and> s < b + storage_slot_count x) [0..<N]"
  assumes "n \<le> N"
  shows "run n = Inr c \<longleftrightarrow> (\<forall>b<n. \<forall>x. holds h b x \<longrightarrow> slot_layout_ok h b x) \<and> c = cov n"
  using assms(4)
proof (induction n arbitrary: c)
  case 0
  have "replicate N False = cov 0" by (simp add: cov_def map_replicate_const)
  then show ?case by (auto simp: run_def)
next
  case (Suc n)
  have run: "run (Suc n) = ebind (run n) (validate_slot_layout h n)"
    by (simp only: run_def efold_upt_Suc)
  show ?case
  proof (cases "h_objects h ! n")
    case None
    then have no: "\<not> holds h n x" for x by (simp add: holds_def)
    then have cov: "cov (Suc n) = cov n" by (simp add: cov_def less_Suc_eq) metis
    show ?thesis
      using Suc None no
      by (simp add: run ebind_Inr_iff validate_slot_layout_def less_Suc_eq cov) metis
  next
    case (Some x)
    then have x: "holds h n x" using Suc.prems by (simp add: holds_def N_def)
    let ?w = "storage_slot_count x"
    have sub: "b + storage_slot_count y \<le> n" if "slot_layout_ok h b y" "b < n" for b y
    proof (rule ccontr)
      assume "\<not> b + storage_slot_count y \<le> n"
      then have "0 < n - b" "n - b < storage_slot_count y" using that(2) by simp_all
      then have "h_objects h ! (b + (n - b)) = None" using that(1) unfolding slot_layout_ok_def by blast
      with Some that(2) show False by simp
    qed
    show ?thesis
    proof (cases "\<forall>b<n. \<forall>y. holds h b y \<longrightarrow> slot_layout_ok h b y")
      case False
      then show ?thesis using Suc by (auto simp: run ebind_Inr_iff less_Suc_eq)
    next
      case True
      have free: "\<not> cov n ! s" if ns: "n \<le> s" and sN: "s < N" for s
      proof
        assume "cov n ! s"
        then obtain b y where "b < n" "holds h b y" "s < b + storage_slot_count y"
          using sN by (auto simp: cov_def)
        with sub [of b y] True ns show False by fastforce
      qed
      have cov: "cov (Suc n) = map (\<lambda>s. cov n ! s \<or> n \<le> s \<and> s < n + ?w) [0..<N]"
      proof (rule nth_equalityI)
        fix s assume "s < length (cov (Suc n))"
        then show "cov (Suc n) ! s = map (\<lambda>s. cov n ! s \<or> n \<le> s \<and> s < n + ?w) [0..<N] ! s"
          using x by (simp add: cov_def less_Suc_eq) (metis holds_unique)
      qed (simp add: cov_def)
      have len: "length (cov n) = N" by (simp add: cov_def)
      have "run n = Inr (cov n)" using Suc.IH [of "cov n"] Suc.prems True by simp
      then have "run (Suc n) = validate_slot_layout h n (cov n)" by (simp add: run)
      moreover have "validate_slot_layout h n (cov n) = Inr c \<longleftrightarrow>
          shape_ok x \<and> (o_kind x = Map_kind \<longrightarrow> validate_map_index x h = Inr ()) \<and> n + ?w \<le> N \<and>
          cover_storage (h_objects h) n ?w (cov n) = Inr c"
        using Some free [of n] Suc.prems
        by (cases "o_kind x = Map_kind") (auto simp: validate_slot_layout_def ethen_Inr_iff N_def)
      moreover have "cover_storage (h_objects h) n ?w (cov n) = Inr c \<longleftrightarrow>
          (\<forall>d. 0 < d \<longrightarrow> d < ?w \<longrightarrow> h_objects h ! (n + d) = None) \<and> c = cov (Suc n)"
        if "n + ?w \<le> N"
        using that free cover_storage_iff [of n ?w "cov n" "h_objects h" c] unfolding len cov by auto
      ultimately have "run (Suc n) = Inr c \<longleftrightarrow> slot_layout_ok h n x \<and> c = cov (Suc n)"
        unfolding slot_layout_ok_def N_def by auto
      moreover have "(\<forall>b<Suc n. \<forall>y. holds h b y \<longrightarrow> slot_layout_ok h b y) \<longleftrightarrow> slot_layout_ok h n x"
        using True x by (metis holds_unique less_Suc_eq)
      ultimately show ?thesis by simp
    qed
  qed
qed

lemma validate_heap_storage_layout_iff: "validate_heap_storage_layout h = Inr () \<longleftrightarrow> layout_ok h"
  unfolding validate_heap_storage_layout_def ebind_Inr_iff
  using layout_scan [of "length (h_objects h)" h]
  by (auto simp: layout_ok_def dest: holds_less)

subsection \<open>The remembered set\<close>

definition remembered_ok :: "gcheap \<Rightarrow> bool" where
  "remembered_ok h \<longleftrightarrow>
     (\<forall>i\<in>set (h_remembered_set h). current_slot h i \<and>
        o_generation (object_at h (slot_index i)) = Old) \<and>
     (\<forall>s x i. holds h s x \<longrightarrow> o_generation x = Old \<longrightarrow> VObject i \<in> set (reference_fields x) \<longrightarrow>
        o_generation (object_at h (slot_index i)) = Young \<longrightarrow> id_at h s \<in> set (h_remembered_set h))"

definition fields_valid :: "gcheap \<Rightarrow> bool" where
  "fields_valid h \<longleftrightarrow> (\<forall>s x v. holds h s x \<longrightarrow> v \<in> set (reference_fields x) \<longrightarrow> valid_ref h v)"

lemma fields_validD: "fields_valid h \<Longrightarrow> holds h s x \<Longrightarrow> VObject i \<in> set (reference_fields x) \<Longrightarrow>
    current_slot h i"
  by (fastforce simp: fields_valid_def)

lemma validate_remembered_entry_iff:
  assumes "\<not> h_compaction_active h"
  shows "validate_remembered_entry h i = Inr () \<longleftrightarrow>
    current_slot h i \<and> o_generation (object_at h (slot_index i)) = Old"
  using assms current_slot_holds [of h i]
  by (auto simp: validate_remembered_entry_def ebind_Inr_iff checked_slot_Inr_iff)

lemma validate_remembered_owner_iff:
  assumes "\<not> h_compaction_active h" and "holds h s x" and "shape_ok x"
    and valid: "\<And>i. VObject i \<in> set (reference_fields x) \<Longrightarrow> current_slot h i"
  shows "validate_remembered_owner h s x = Inr () \<longleftrightarrow>
    (o_generation x = Old \<longrightarrow> (\<forall>i. VObject i \<in> set (reference_fields x) \<longrightarrow>
       o_generation (object_at h (slot_index i)) = Young \<longrightarrow> id_at h s \<in> set (h_remembered_set h)))"
proof -
  have field: "(if \<not> is_object v then Inr ()
       else ebind (as_object v) (\<lambda>i. ebind (checked_slot i h) (\<lambda>target.
         ebind (is_young_slot target h) (\<lambda>young.
         ethrow_if (young \<and> \<not> remembered_set_contains (id_at h s) h)
           (Logic_error msg_remembered_missing))))) = Inr () \<longleftrightarrow>
      (\<forall>i. v = VObject i \<longrightarrow> o_generation (object_at h (slot_index i)) = Young \<longrightarrow>
        id_at h s \<in> set (h_remembered_set h))"
    if "v \<in> set (reference_fields x)" for v
  proof (cases v)
    case (VObject i)
    with valid that current_slot_holds [of h i] show ?thesis
      by (auto simp: remembered_set_contains_def)
  qed simp_all
  show ?thesis
    using assms(2,3) field
    by (auto simp: validate_remembered_owner_def visit_reference_fields_ok eall_ok_iff)
qed

lemma validate_remembered_set_iff:
  assumes "\<not> h_compaction_active h" and "layout_ok h" and "fields_valid h"
  shows "validate_remembered_set h = Inr () \<longleftrightarrow> remembered_ok h"
proof -
  have "validate_remembered_owner h s x = Inr () \<longleftrightarrow>
      (o_generation x = Old \<longrightarrow> (\<forall>i. VObject i \<in> set (reference_fields x) \<longrightarrow>
       o_generation (object_at h (slot_index i)) = Young \<longrightarrow> id_at h s \<in> set (h_remembered_set h)))"
    if "holds h s x" for s x
    using that assms
    by (intro validate_remembered_owner_iff)
      (auto simp: layout_ok_def slot_layout_ok_def dest: fields_validD)
  then show ?thesis
    using assms(1)
    by (auto simp: validate_remembered_set_def ethen_Inr_iff eall_ok_iff for_objects_ok_iff
        validate_remembered_entry_iff remembered_ok_def)
qed

subsection \<open>Registries in slot order\<close>

text \<open>
  The validators of the weak-reference and the ephemeron registry walk the slots and the
  registry together.  \<open>state_at s\<close> is the loop state when all slots below \<open>s\<close> have been
  accepted; the laws say that a slot of another kind is skipped and that a slot of the kind
  is accepted exactly when the next registered id names it and its contents are in order.
\<close>

locale slot_registry =
  fixes enabled :: bool and bound :: nat and wanted :: "nat \<Rightarrow> bool"
    and name :: "nat \<Rightarrow> object_id" and good :: "nat \<Rightarrow> bool" and reg :: "object_id list"
    and step :: "nat \<Rightarrow> 'st \<Rightarrow> exn + 'st" and state_at :: "nat \<Rightarrow> 'st"
  assumes skip: "enabled \<Longrightarrow> s < bound \<Longrightarrow> \<not> wanted s \<Longrightarrow>
      step s (state_at s) = Inr (state_at s) \<and> state_at (Suc s) = state_at s"
    and accept: "enabled \<Longrightarrow> s < bound \<Longrightarrow> wanted s \<Longrightarrow> k = length (filter wanted [0..<s]) \<Longrightarrow>
      take k reg = map name (filter wanted [0..<s]) \<Longrightarrow>
      step s (state_at s) = Inr st \<longleftrightarrow>
        k < length reg \<and> reg ! k = name s \<and> good s \<and> st = state_at (Suc s)"
begin

lemma scan_prefix:
  assumes "enabled" and "n \<le> bound"
  shows "efold step [0..<n] (state_at 0) = Inr st \<longleftrightarrow> st = state_at n \<and>
    take (length (filter wanted [0..<n])) reg = map name (filter wanted [0..<n]) \<and>
    (\<forall>s<n. wanted s \<longrightarrow> good s)"
  using assms(2)
proof (induction n arbitrary: st)
  case 0
  then show ?case by auto
next
  case (Suc n)
  let ?ws = "filter wanted [0..<n]"
  have run: "efold step [0..<Suc n] (state_at 0) = Inr st \<longleftrightarrow>
      step n (state_at n) = Inr st \<and> take (length ?ws) reg = map name ?ws \<and>
      (\<forall>s<n. wanted s \<longrightarrow> good s)"
    using Suc by (auto simp: efold_upt_Suc ebind_Inr_iff simp del: upt_Suc)
  show ?case
  proof (cases "wanted n")
    case False
    then show ?thesis
      using skip [OF assms(1), of n] Suc.prems unfolding run by (auto simp: less_Suc_eq)
  next
    case True
    have take: "take (Suc (length ?ws)) reg = map name (?ws @ [n]) \<longleftrightarrow>
        take (length ?ws) reg = map name ?ws \<and> length ?ws < length reg \<and> reg ! length ?ws = name n"
    proof (cases "length ?ws < length reg")
      case True
      then show ?thesis by (simp add: take_Suc_conv_app_nth)
    next
      case False
      then have "length (take (Suc (length ?ws)) reg) \<noteq> length (map name (?ws @ [n]))" by simp
      with False show ?thesis by (metis (no_types, lifting))
    qed
    show ?thesis
      using accept [OF assms(1) _ True refl, of st] Suc.prems True take unfolding run
      by (auto simp: less_Suc_eq)
  qed
qed

lemma scan_iff:
  assumes "enabled" and "\<And>n. n \<le> bound \<Longrightarrow> count (state_at n) = length (filter wanted [0..<n])"
  shows "(\<exists>st. efold step [0..<bound] (state_at 0) = Inr st \<and> count st = length reg) \<longleftrightarrow>
    reg = map name (filter wanted [0..<bound]) \<and> (\<forall>s<bound. wanted s \<longrightarrow> good s)"
proof -
  have eq: "reg = map name ws \<longleftrightarrow> take (length ws) reg = map name ws \<and> length ws = length reg" for ws
    by (metis length_map take_all order_refl)
  show ?thesis unfolding scan_prefix [OF assms(1) order_refl] eq using assms(2) [OF order_refl] by auto
qed

end

definition is_kind_at :: "object_kind \<Rightarrow> gcheap \<Rightarrow> nat \<Rightarrow> bool" where
  "is_kind_at k h s \<longleftrightarrow> (\<exists>x. h_objects h ! s = Some x \<and> o_kind x = k)"

definition kind_slots :: "object_kind \<Rightarrow> gcheap \<Rightarrow> nat list" where
  "kind_slots k h = filter (is_kind_at k h) [0..<length (h_objects h)]"

definition plain_identities :: "gcheap \<Rightarrow> bool" where
  "plain_identities h \<longleftrightarrow> \<not> h_compaction_active h \<and> length (h_objects h) \<le> 4294967296"

lemma id_at_slot_index:
  assumes "plain_identities h" and "s < length (h_objects h)"
  shows "slot_index (id_at h s) = s"
  unfolding id_at_def by (rule slot_index_object_id_at) (use assms in \<open>simp add: plain_identities_def\<close>)

lemma filter_upt_sorted: "sorted_wrt (<) (filter P [0..<n])"
  by (intro sorted_wrt_filter) simp

definition weak_slot_good :: "gcheap \<Rightarrow> nat \<Rightarrow> bool" where
  "weak_slot_good h s \<longleftrightarrow> current_slot h (id_at h s) \<and>
     reference_tag (o_weak_target (object_at h s)) \<and> valid_ref h (o_weak_target (object_at h s))"

definition weak_state :: "gcheap \<Rightarrow> nat \<Rightarrow> nat \<times> nat option" where
  "weak_state h n = (let ws = filter (is_kind_at WeakRef h) [0..<n] in
     (length ws, if ws = [] then None else Some (last ws)))"

lemma last_filter_less: "filter P [0..<n] \<noteq> [] \<Longrightarrow> last (filter P [0..<n]) < (n :: nat)"
  using last_in_set [of "filter P [0..<n]"] by auto

interpretation weak_registry: slot_registry "plain_identities h" "length (h_objects h)"
  "is_kind_at WeakRef h" "id_at h" "weak_slot_good h" "h_weak_refs h" "validate_weak_slot h" "weak_state h"
  for h
proof unfold_locales
  fix s
  assume "\<not> is_kind_at WeakRef h s"
  then show "validate_weak_slot h s (weak_state h s) = Inr (weak_state h s) \<and>
      weak_state h (Suc s) = weak_state h s"
    by (auto simp: validate_weak_slot_def is_kind_at_def weak_state_def Let_def split: option.split prod.split)
next
  fix s k st
  assume e: "plain_identities h" and s: "s < length (h_objects h)" and w: "is_kind_at WeakRef h s"
    and k: "k = length (filter (is_kind_at WeakRef h) [0..<s])"
  obtain x where x: "holds h s x" "o_kind x = WeakRef" using w s by (auto simp: is_kind_at_def holds_def)
  obtain prev where ws: "weak_state h s = (k, prev)" and prev: "prev \<noteq> None \<longrightarrow> the prev < s"
  proof
    show "weak_state h s = (k, snd (weak_state h s))" by (simp add: weak_state_def Let_def k)
    show "snd (weak_state h s) \<noteq> None \<longrightarrow> the (snd (weak_state h s)) < s"
      using last_filter_less [of "is_kind_at WeakRef h" s]
      by (auto simp: weak_state_def Let_def split: if_splits)
  qed
  have next': "weak_state h (Suc s) = (Suc k, Some s)" using w by (simp add: weak_state_def Let_def k)
  have owner: "(if slot_index r \<noteq> s then Inl (Logic_error msg_weak_wrong_owner)
      else ebind (checked_slot r h) (\<lambda>t. ethrow_if (t \<noteq> s) (Logic_error msg_weak_wrong_owner))) = Inr () \<longleftrightarrow>
      r = id_at h s \<and> current_slot h r" for r
    using e s id_at_slot_index [OF e s] current_slot_id_at [of h r]
    by (auto simp: ebind_Inr_iff checked_slot_Inr_iff plain_identities_def)
  have target: "(if is_object v then validate_value h v
      else ethrow_if (tag v \<noteq> Tag_Nil) (Logic_error msg_weak_target_kind)) = Inr () \<longleftrightarrow>
      reference_tag v \<and> valid_ref h v" for v
    using e by (cases v) (auto simp: validate_value_ok_iff plain_identities_def reference_tag_def)
  show "validate_weak_slot h s (weak_state h s) = Inr st \<longleftrightarrow>
      k < length (h_weak_refs h) \<and> h_weak_refs h ! k = id_at h s \<and> weak_slot_good h s \<and>
      st = weak_state h (Suc s)"
    unfolding ws next' validate_weak_slot_def
    using x prev id_at_slot_index [OF e s]
    by (auto simp: holds_def object_at_def ethen_Inr_iff Let_def owner target weak_slot_good_def not_le
        simp del: not_None_eq)
qed

definition weak_ok :: "gcheap \<Rightarrow> bool" where
  "weak_ok h \<longleftrightarrow> h_weak_refs h = map (id_at h) (kind_slots WeakRef h) \<and>
     (\<forall>s\<in>set (kind_slots WeakRef h). weak_slot_good h s)"

lemma validate_weak_targets_iff:
  assumes "plain_identities h"
  shows "validate_weak_targets h = Inr () \<longleftrightarrow> weak_ok h"
proof -
  have "(0, None) = weak_state h 0" by (simp add: weak_state_def)
  then have "validate_weak_targets h = Inr () \<longleftrightarrow>
      (\<exists>st. efold (validate_weak_slot h) [0..<length (h_objects h)] (weak_state h 0) = Inr st \<and>
        fst st = length (h_weak_refs h))"
    by (auto simp: validate_weak_targets_def ebind_Inr_iff)
  also have "\<dots> \<longleftrightarrow> weak_ok h"
    by (subst weak_registry.scan_iff [OF assms])
      (auto simp: weak_state_def Let_def weak_ok_def kind_slots_def)
  finally show ?thesis .
qed

definition ephemeron_slot_good :: "gcheap \<Rightarrow> nat \<Rightarrow> bool" where
  "ephemeron_slot_good h s \<longleftrightarrow> current_slot h (id_at h s) \<and> shape_ok (object_at h s) \<and>
     valid_ref h (o_ephemeron_key (object_at h s)) \<and>
     (o_ephemeron_value_is_ref (object_at h s) \<longrightarrow> valid_ref h (o_ephemeron_value (object_at h s)))"

interpretation ephemeron_registry: slot_registry "plain_identities h" "length (h_objects h)"
  "is_kind_at Ephemeron h" "id_at h" "ephemeron_slot_good h" "h_ephemerons h"
  "validate_ephemeron_slot h" "\<lambda>n. length (filter (is_kind_at Ephemeron h) [0..<n])"
  for h
proof unfold_locales
  fix s
  assume "\<not> is_kind_at Ephemeron h s"
  then show "validate_ephemeron_slot h s (length (filter (is_kind_at Ephemeron h) [0..<s])) =
      Inr (length (filter (is_kind_at Ephemeron h) [0..<s])) \<and>
      length (filter (is_kind_at Ephemeron h) [0..<Suc s]) =
      length (filter (is_kind_at Ephemeron h) [0..<s])"
    by (auto simp: validate_ephemeron_slot_def is_kind_at_def split: option.split)
next
  fix s k st
  assume e: "plain_identities h" and s: "s < length (h_objects h)" and w: "is_kind_at Ephemeron h s"
    and k: "k = length (filter (is_kind_at Ephemeron h) [0..<s])"
    and reg: "take k (h_ephemerons h) = map (id_at h) (filter (is_kind_at Ephemeron h) [0..<s])"
  let ?ws = "filter (is_kind_at Ephemeron h) [0..<s]"
  obtain x where x: "holds h s x" "o_kind x = Ephemeron" using w s by (auto simp: is_kind_at_def holds_def)
  have order: "slot_index (h_ephemerons h ! (k - Suc 0)) < s" if "0 < k"
  proof -
    have "k \<le> length (h_ephemerons h)" using arg_cong [OF reg, of length] k by simp
    then have "h_ephemerons h ! (k - Suc 0) = take k (h_ephemerons h) ! (k - Suc 0)" using that by simp
    also have "\<dots> = id_at h (?ws ! (k - Suc 0))" unfolding reg using that k by simp
    finally have "h_ephemerons h ! (k - Suc 0) = id_at h (?ws ! (k - Suc 0))" .
    moreover have "?ws ! (k - Suc 0) \<in> set ?ws" using that k by (intro nth_mem) simp
    ultimately show ?thesis using id_at_slot_index [OF e] s by auto
  qed
  have owner: "(if k \<ge> length (h_ephemerons h) then Inl (Logic_error msg_ephemeron_missing)
      else ebind (checked_slot (h_ephemerons h ! k) h)
        (\<lambda>t. ethrow_if (t \<noteq> s) (Logic_error msg_ephemeron_missing))) = Inr () \<longleftrightarrow>
      k < length (h_ephemerons h) \<and> h_ephemerons h ! k = id_at h s \<and> current_slot h (id_at h s)"
    using e s id_at_slot_index [OF e s] current_slot_id_at [of h "h_ephemerons h ! k"]
    by (auto simp: ebind_Inr_iff checked_slot_Inr_iff plain_identities_def)
  have val: "(if is_object v then validate_value h v else Inr ()) = Inr () \<longleftrightarrow> valid_ref h v" for v
    using e by (cases v) (auto simp: validate_value_ok_iff plain_identities_def)
  have val2: "(if b \<and> is_object v then validate_value h v else Inr ()) = Inr () \<longleftrightarrow>
      (b \<longrightarrow> valid_ref h v)" for b v
    using val [of v] by (cases b) simp_all
  have next': "length (filter (is_kind_at Ephemeron h) [0..<Suc s]) = Suc k" using w k by simp
  have ordered: "ethrow_if (0 < k \<and> slot_index (h_ephemerons h ! (k - 1)) \<ge> s) e = Inr ()" for e
    using order by auto
  have obj: "h_objects h ! s = Some x" "object_at h s = x" using x(1) by (simp_all add: holds_def object_at_def)
  show "validate_ephemeron_slot h s (length ?ws) = Inr st \<longleftrightarrow>
      k < length (h_ephemerons h) \<and> h_ephemerons h ! k = id_at h s \<and> ephemeron_slot_good h s \<and>
      st = length (filter (is_kind_at Ephemeron h) [0..<Suc s])"
    unfolding k [symmetric] validate_ephemeron_slot_def next' obj ethen_Inr_iff ephemeron_slot_good_def
      option.case x(2) simp_thms if_False owner val val2
    using id_at_slot_index [OF e s] ordered by auto
qed

definition ephemerons_ok :: "gcheap \<Rightarrow> bool" where
  "ephemerons_ok h \<longleftrightarrow> h_ephemerons h = map (id_at h) (kind_slots Ephemeron h) \<and>
     (\<forall>s\<in>set (kind_slots Ephemeron h). ephemeron_slot_good h s)"

lemma validate_ephemerons_iff:
  assumes "plain_identities h"
  shows "validate_ephemerons h = Inr () \<longleftrightarrow> ephemerons_ok h"
proof -
  have "validate_ephemerons h = Inr () \<longleftrightarrow>
      (\<exists>st. efold (validate_ephemeron_slot h) [0..<length (h_objects h)]
          (length (filter (is_kind_at Ephemeron h) [0..<0])) = Inr st \<and> id st = length (h_ephemerons h))"
    by (auto simp: validate_ephemerons_def ebind_Inr_iff)
  also have "\<dots> \<longleftrightarrow> ephemerons_ok h"
    by (subst ephemeron_registry.scan_iff [OF assms]) (auto simp: ephemerons_ok_def kind_slots_def)
  finally show ?thesis .
qed

subsection \<open>The intern table\<close>

definition intern_object :: "gcheap \<Rightarrow> intern_entry \<Rightarrow> gcobj" where
  "intern_object h e = object_at h (slot_index (canonical e))"

definition intern_entry_ok :: "gcheap \<Rightarrow> intern_entry \<Rightarrow> bool" where
  "intern_entry_ok h e \<longleftrightarrow> current_slot h (canonical e) \<and> o_kind (intern_object h e) = Str \<and>
     shape_ok (intern_object h e) \<and>
     content_hash_of e = string_content_hash (o_string_bytes (intern_object h e))"

definition interns_ok_upto :: "gcheap \<Rightarrow> nat \<Rightarrow> bool" where
  "interns_ok_upto h n \<longleftrightarrow> (\<forall>k<n. intern_entry_ok h (h_intern_table h ! k) \<and>
     (\<forall>j<k. slot_index (canonical (h_intern_table h ! j)) < slot_index (canonical (h_intern_table h ! k)) \<and>
        o_string_bytes (intern_object h (h_intern_table h ! j)) \<noteq>
        o_string_bytes (intern_object h (h_intern_table h ! k))))"

definition interns_ok :: "gcheap \<Rightarrow> bool" where
  "interns_ok h \<longleftrightarrow> interns_ok_upto h (length (h_intern_table h))"

lemma string_bytes_current:
  assumes "current_slot h i" and "o_kind (object_at h (slot_index i)) = Str"
  shows "string_bytes i h = Inr bytes \<longleftrightarrow> shape_ok (object_at h (slot_index i)) \<and>
    bytes = o_string_bytes (object_at h (slot_index i))"
  using assms
  by (auto simp: string_bytes_def checked_string_def checked_kind_def Let_def ebind_Inr_iff ethen_Inr_iff)

lemma intern_entry_bytes:
  "intern_entry_ok h e \<Longrightarrow> string_bytes (canonical e) h = Inr (o_string_bytes (intern_object h e))"
  by (simp add: intern_entry_ok_def intern_object_def string_bytes_current)

lemma validate_intern_entry_iff:
  assumes idle: "\<not> h_compaction_active h" and before: "interns_ok_upto h n"
    and prev: "prev = (if n = 0 then None else Some (slot_index (canonical (h_intern_table h ! (n - 1)))))"
  shows "validate_intern_entry h n prev = Inr st \<longleftrightarrow> interns_ok_upto h (Suc n) \<and>
    st = Some (slot_index (canonical (h_intern_table h ! n)))"
proof -
  let ?e = "h_intern_table h ! n"
  let ?x = "intern_object h ?e"
  have slot: "(case checked_slot (canonical ?e) h of Inl (Out_of_range m) \<Rightarrow> Inl (Logic_error msg_intern_stale)
        | r \<Rightarrow> r) = Inr s \<longleftrightarrow> current_slot h (canonical ?e) \<and> s = slot_index (canonical ?e)" for s
    by (cases "current_slot h (canonical ?e)") (auto simp: checked_slot_stale [OF idle])
  have kind: "current_slot h (canonical ?e) \<Longrightarrow> (case h_objects h ! slot_index (canonical ?e) of None \<Rightarrow> True
          | Some x \<Rightarrow> o_kind x \<noteq> Str) \<longleftrightarrow> o_kind ?x \<noteq> Str"
    using current_slot_holds [of h "canonical ?e"] by (auto simp: holds_def intern_object_def)
  have sorted: "(prev \<noteq> None \<and> the prev \<ge> slot_index (canonical ?e)) \<longleftrightarrow>
      \<not> (\<forall>j<n. slot_index (canonical (h_intern_table h ! j)) < slot_index (canonical ?e))"
  proof (cases n)
    case (Suc m)
    have "slot_index (canonical (h_intern_table h ! j)) \<le> slot_index (canonical (h_intern_table h ! m))"
      if "j < n" for j
      using before that Suc by (cases "j = m") (auto simp: interns_ok_upto_def less_Suc_eq_le less_imp_le)
    then show ?thesis using Suc prev by (fastforce simp: not_le)
  qed (simp add: prev)
  have prior: "eall (\<lambda>prior. let p = h_intern_table h ! prior in
            if content_hash_of p = content_hash_of ?e
            then ebind (string_equal (canonical p) (canonical ?e) h) (\<lambda>same.
              ethrow_if same (Logic_error msg_intern_duplicate))
            else Inr ()) [0..<n] = Inr () \<longleftrightarrow>
      (\<forall>j<n. o_string_bytes (intern_object h (h_intern_table h ! j)) \<noteq> o_string_bytes ?x)"
    if "intern_entry_ok h ?e"
  proof -
    have "(if content_hash_of p = content_hash_of ?e
            then ebind (string_equal (canonical p) (canonical ?e) h) (\<lambda>same.
              ethrow_if same (Logic_error msg_intern_duplicate)) else Inr ()) = Inr () \<longleftrightarrow>
        o_string_bytes (intern_object h p) \<noteq> o_string_bytes ?x" if p: "intern_entry_ok h p" for p
    proof -
      have "o_string_bytes (intern_object h p) = o_string_bytes ?x \<Longrightarrow> content_hash_of p = content_hash_of ?e"
        using p \<open>intern_entry_ok h ?e\<close> by (simp add: intern_entry_ok_def)
      then show ?thesis
        using intern_entry_bytes [OF p] intern_entry_bytes [OF \<open>intern_entry_ok h ?e\<close>]
        by (auto simp: string_equal_def)
    qed
    then show ?thesis using before by (auto simp: eall_ok_iff interns_ok_upto_def Let_def)
  qed
  have whole: "interns_ok_upto h (Suc n) \<longleftrightarrow> intern_entry_ok h ?e \<and>
      (\<forall>j<n. slot_index (canonical (h_intern_table h ! j)) < slot_index (canonical ?e)) \<and>
      (\<forall>j<n. o_string_bytes (intern_object h (h_intern_table h ! j)) \<noteq> o_string_bytes ?x)"
    using before by (auto simp: interns_ok_upto_def less_Suc_eq)
  show ?thesis
  proof (cases "current_slot h (canonical ?e) \<and> o_kind ?x = Str")
    case False
    then show ?thesis
      using kind by (auto simp: validate_intern_entry_def Let_def ebind_Inr_iff slot ethen_Inr_iff
          whole intern_entry_ok_def)
  next
    case True
    then have bytes: "string_bytes (canonical ?e) h = Inr bytes \<longleftrightarrow> shape_ok ?x \<and> bytes = o_string_bytes ?x" for bytes
      by (simp add: string_bytes_current intern_object_def)
    show ?thesis
      unfolding validate_intern_entry_def Let_def ebind_Inr_iff slot ethen_Inr_iff ethrow_if_Inr_iff
        sorted bytes whole
      using True kind prior [unfolded Let_def] by (auto simp: intern_entry_ok_def)
  qed
qed

lemma validate_intern_table_iff:
  assumes "\<not> h_compaction_active h"
  shows "validate_intern_table h = Inr () \<longleftrightarrow> interns_ok h"
proof -
  let ?prev = "\<lambda>n. if n = 0 then None else Some (slot_index (canonical (h_intern_table h ! (n - 1))))"
  have "efold (validate_intern_entry h) [0..<n] None = Inr st \<longleftrightarrow> interns_ok_upto h n \<and> st = ?prev n"
    for n st
  proof (induction n arbitrary: st)
    case 0
    then show ?case by (auto simp: interns_ok_upto_def)
  next
    case (Suc n)
    have mono: "interns_ok_upto h (Suc n) \<Longrightarrow> interns_ok_upto h n" by (simp add: interns_ok_upto_def)
    show ?case
      unfolding efold_upt_Suc ebind_Inr_iff Suc.IH
      using validate_intern_entry_iff [OF assms _ refl, of n st] mono by auto
  qed
  then show ?thesis by (simp add: validate_intern_table_def ebind_Inr_iff interns_ok_def)
qed

subsection \<open>Well-formed heaps\<close>

definition roots_valid :: "gcheap \<Rightarrow> val list \<Rightarrow> bool" where
  "roots_valid h extra \<longleftrightarrow> (\<forall>v\<in>set (collection_roots h extra). valid_ref h v)"

text \<open>
  The generation vector covers the slots; a generation in use is positive, and no generation
  exceeds the largest one, so that every id the heap makes fits into a value.
\<close>

definition generations_ok :: "gcheap \<Rightarrow> bool" where
  "generations_ok h \<longleftrightarrow> length (h_generations h) = length (h_objects h) \<and>
     (\<forall>g\<in>set (h_generations h). g \<le> kMaxGeneration) \<and>
     (\<forall>s x. holds h s x \<longrightarrow> h_generations h ! s \<noteq> 0)"

definition heap_wf :: "gcheap \<Rightarrow> bool" where
  "heap_wf h \<longleftrightarrow> plain_identities h \<and> generations_ok h \<and> layout_ok h \<and> fields_valid h \<and>
     remembered_ok h \<and> weak_ok h \<and> interns_ok h \<and> ephemerons_ok h"

definition marks_clear :: "gcheap \<Rightarrow> bool" where
  "marks_clear h \<longleftrightarrow> (\<forall>s x. holds h s x \<longrightarrow> \<not> o_marked x)"

lemma heap_wfD:
  assumes "heap_wf h"
  shows "plain_identities h" "\<not> h_compaction_active h" "generations_ok h" "layout_ok h"
    "fields_valid h" "remembered_ok h" "weak_ok h" "interns_ok h" "ephemerons_ok h"
  using assms by (simp_all add: heap_wf_def plain_identities_def)

lemma heap_wf_shape: "heap_wf h \<Longrightarrow> holds h s x \<Longrightarrow> shape_ok x"
  by (auto simp: heap_wf_def layout_ok_def slot_layout_ok_def)

lemma generations_ok_current:
  "generations_ok h \<Longrightarrow> plain_identities h \<Longrightarrow> holds h s x \<Longrightarrow> current_slot h (id_at h s)"
  using id_at_slot_index [of h s]
  by (auto simp: current_slot_def generations_ok_def holds_def id_at_def)

lemma generations_ok_value:
  assumes "generations_ok h" and "current_slot h i"
  shows "value_object i = Inr (VObject i)"
proof -
  have "generation_from i \<in> set (h_generations h)"
    using assms(2) by (metis current_slot_def nth_mem)
  with assms(1) show ?thesis by (intro value_object_ok) (auto simp: generations_ok_def)
qed

text \<open>On a well-formed heap no validator throws.\<close>

lemma heap_wf_validators:
  assumes "heap_wf h"
  shows "validate_heap_storage_layout h = Inr ()" "validate_remembered_set h = Inr ()"
    "validate_weak_targets h = Inr ()" "validate_intern_table h = Inr ()" "validate_ephemerons h = Inr ()"
  using heap_wfD [OF assms]
  by (simp_all add: validate_heap_storage_layout_iff validate_remembered_set_iff
      validate_weak_targets_iff validate_intern_table_iff validate_ephemerons_iff)

lemma validate_after_collection_iff:
  assumes "plain_identities h"
  shows "validate_after_collection h extra = Inr () \<longleftrightarrow>
    layout_ok h \<and> fields_valid h \<and> remembered_ok h \<and> weak_ok h \<and> interns_ok h \<and> ephemerons_ok h \<and>
    marks_clear h \<and> roots_valid h extra"
proof -
  have idle: "\<not> h_compaction_active h" using assms by (simp add: plain_identities_def)
  have objects: "for_objects (validate_collected_object h) h = Inr () \<longleftrightarrow> marks_clear h \<and> fields_valid h"
    if "layout_ok h"
  proof -
    have "validate_collected_object h s x = Inr () \<longleftrightarrow>
        \<not> o_marked x \<and> (\<forall>v\<in>set (reference_fields x). valid_ref h v)" if "holds h s x" for s x
      using that \<open>layout_ok h\<close> validate_value_ok_iff [OF idle]
      by (simp add: validate_collected_object_def layout_ok_def slot_layout_ok_def ethen_Inr_iff
          visit_reference_fields_ok eall_ok_iff)
    then show ?thesis by (auto simp: for_objects_ok_iff marks_clear_def fields_valid_def)
  qed
  show ?thesis
    using objects validate_remembered_set_iff [OF idle]
    by (auto simp: validate_after_collection_def ethen_Inr_iff validate_heap_storage_layout_iff
        validate_weak_targets_iff [OF assms] validate_intern_table_iff [OF idle]
        validate_ephemerons_iff [OF assms] eall_ok_iff validate_value_ok_iff [OF idle] roots_valid_def)
qed

text \<open>Two objects never share a slot.\<close>

lemma layout_disjoint:
  assumes "layout_ok h" and "holds h s x" and "holds h t y" and "s < t"
  shows "s + storage_slot_count x \<le> t"
proof (rule ccontr)
  assume "\<not> ?thesis"
  with assms(4) have "0 < t - s" "t - s < storage_slot_count x" by simp_all
  with assms(1,2) have "h_objects h ! (s + (t - s)) = None"
    unfolding layout_ok_def slot_layout_ok_def by blast
  with assms(3,4) show False by (simp add: holds_def)
qed

end
