(* ===== verification/GC_Mark.thy ===== *)
theory GC_Mark
  imports GC_Validate
begin

text \<open>
  Marking (\<open>src/gc/heap.cpp\<close>): the mark worklist, the drain loop, the remembered-set
  roots of a minor collection and the ephemeron fixpoint.  A marking operation works on the
  heap and a worklist; the worklist is a vector used as a stack, and its back is the head of
  the list here, as in \<open>h_mark_worklist\<close>.
\<close>

datatype collection_kind = Minor | Major

type_synonym mark_state = "gcheap \<times> object_id list"

definition set_object :: "nat \<Rightarrow> gcobj \<Rightarrow> gcheap \<Rightarrow> gcheap" where
  "set_object slot x h = h\<lparr>h_objects := (h_objects h)[slot := Some x]\<rparr>"

text \<open>The test at the head of a minor collection's visits: skip what is not young.\<close>

definition skips_slot :: "collection_kind \<Rightarrow> nat \<Rightarrow> gcheap \<Rightarrow> exn + bool" where
  "skips_slot kind slot h = (if kind = Minor then ebind (is_young_slot slot h) (\<lambda>young. Inr (\<not> young))
     else Inr False)"

definition enqueue_mark_value :: "collection_kind \<Rightarrow> val \<Rightarrow> (mark_state, unit) sx" where
  "enqueue_mark_value kind v = (if \<not> is_object v then sx_return ()
     else sx_bind (sx_lift (as_object v)) (\<lambda>i.
       sx_bind (sx_reads (\<lambda>(h, _). checked_slot i h)) (\<lambda>slot.
       sx_bind (sx_reads (\<lambda>(h, _). skips_slot kind slot h)) (\<lambda>skip.
       sx_bind (sx_gets (\<lambda>(h, _). o_marked (object_at h slot))) (\<lambda>marked.
       sx_when (\<not> skip \<and> \<not> marked) (sx_modify (\<lambda>(h, worklist). (h, i # worklist))))))))"

definition enqueue_remembered_object :: "object_id \<Rightarrow> (mark_state, unit) sx" where
  "enqueue_remembered_object remembered =
     sx_bind (sx_reads (\<lambda>(h, _). checked_slot remembered h)) (\<lambda>slot.
     sx_bind (sx_reads (\<lambda>(h, _). is_old_slot slot h)) (\<lambda>old.
     sx_then (sx_throw_if (\<not> old) (Logic_error msg_remembered_not_old))
     (sx_bind (sx_reads (\<lambda>(h, _). visit_reference_fields_for_lifo_marking (object_at h slot)))
       (sx_iter (enqueue_mark_value Minor)))))"

definition enqueue_young_references_from_remembered_set :: "(mark_state, unit) sx" where
  "enqueue_young_references_from_remembered_set =
     sx_bind (sx_gets (\<lambda>(h, _). h_remembered_set h)) (sx_iter enqueue_remembered_object)"

text \<open>
  \<open>scan_next_mark_object\<close> pops until it meets an object to scan, marks it and pushes its
  fields; it reports whether it met one.
\<close>

fun scan_next_mark_object :: "collection_kind \<Rightarrow> mark_state \<Rightarrow> (exn + bool) \<times> mark_state" where
  "scan_next_mark_object kind (h, []) = (Inr False, (h, []))"
| "scan_next_mark_object kind (h, i # worklist) =
     (case ebind (checked_slot i h) (\<lambda>slot. ebind (skips_slot kind slot h) (\<lambda>skip. Inr (slot, skip))) of
       Inl e \<Rightarrow> (Inl e, (h, worklist))
     | Inr (slot, skip) \<Rightarrow>
        if skip \<or> o_marked (object_at h slot) then scan_next_mark_object kind (h, worklist)
        else let x = (object_at h slot)\<lparr>o_marked := True\<rparr>; h' = set_object slot x h in
          (case visit_reference_fields_for_lifo_marking x of
             Inl e \<Rightarrow> (Inl e, (h', worklist))
           | Inr vs \<Rightarrow> sx_then (sx_iter (enqueue_mark_value kind) vs) (sx_return True) (h', worklist)))"

subsection \<open>Marks as a set of slots\<close>

text \<open>
  Marking changes nothing but mark bits: \<open>with_marks h M\<close> is \<open>h\<close> with exactly the objects
  at the slots \<open>M\<close> marked.
\<close>

definition with_marks :: "gcheap \<Rightarrow> nat set \<Rightarrow> gcheap" where
  "with_marks h M = h\<lparr>h_objects := map (\<lambda>s. map_option (\<lambda>x. x\<lparr>o_marked := (s \<in> M)\<rparr>) (h_objects h ! s))
     [0..<length (h_objects h)]\<rparr>"

definition marked_slots :: "gcheap \<Rightarrow> nat set" where
  "marked_slots h = {s. \<exists>x. holds h s x \<and> o_marked x}"

definition occupied_slots :: "gcheap \<Rightarrow> nat set" where
  "occupied_slots h = {s. \<exists>x. holds h s x}"

lemma with_marks_frame [simp]:
  "h_generations (with_marks h M) = h_generations h" "h_roots (with_marks h M) = h_roots h"
  "h_remembered_set (with_marks h M) = h_remembered_set h"
  "h_weak_refs (with_marks h M) = h_weak_refs h" "h_ephemerons (with_marks h M) = h_ephemerons h"
  "h_intern_table (with_marks h M) = h_intern_table h"
  "h_handle_roots (with_marks h M) = h_handle_roots h"
  "h_compaction_active (with_marks h M) = h_compaction_active h"
  "h_marking_active (with_marks h M) = h_marking_active h"
  "h_mark_worklist (with_marks h M) = h_mark_worklist h"
  "h_source_ids (with_marks h M) = h_source_ids h" "h_forwarding (with_marks h M) = h_forwarding h"
  "length (h_objects (with_marks h M)) = length (h_objects h)"
  by (simp_all add: with_marks_def)

lemma with_marks_nth:
  "s < length (h_objects h) \<Longrightarrow>
    h_objects (with_marks h M) ! s = map_option (\<lambda>x. x\<lparr>o_marked := (s \<in> M)\<rparr>) (h_objects h ! s)"
  by (simp add: with_marks_def)

lemma holds_with_marks:
  "holds (with_marks h M) s y \<longleftrightarrow> (\<exists>x. holds h s x \<and> y = x\<lparr>o_marked := (s \<in> M)\<rparr>)"
  by (auto simp: holds_def with_marks_nth)

lemma current_slot_with_marks [simp]: "current_slot (with_marks h M) i = current_slot h i"
  by (auto simp: current_slot_def with_marks_nth)

lemma checked_slot_with_marks [simp]: "checked_slot i (with_marks h M) = checked_slot i h"
  by (simp only: checked_slot_def Let_def current_slot_with_marks with_marks_frame)

lemma object_at_with_marks:
  "holds h s x \<Longrightarrow> object_at (with_marks h M) s = x\<lparr>o_marked := (s \<in> M)\<rparr>"
  by (simp add: object_at_def holds_def with_marks_nth)

lemma slot_has_generation_with_marks [simp]:
  "s < length (h_objects h) \<Longrightarrow>
    slot_has_generation g (with_marks h M) s = slot_has_generation g h s"
  by (simp add: slot_has_generation_def with_marks_nth split: option.split)

lemma is_young_slot_with_marks [simp]:
  "is_young_slot s (with_marks h M) = is_young_slot s h" "is_old_slot s (with_marks h M) = is_old_slot s h"
  by (cases "s < length (h_objects h)"; simp add: is_young_slot_def is_old_slot_def)+

lemma skips_slot_with_marks [simp]: "skips_slot kind s (with_marks h M) = skips_slot kind s h"
  by (simp add: skips_slot_def)

lemma with_marks_marked: "with_marks h (marked_slots h) = h"
proof -
  have "map (\<lambda>s. map_option (\<lambda>x. x\<lparr>o_marked := (s \<in> marked_slots h)\<rparr>) (h_objects h ! s))
      [0..<length (h_objects h)] = h_objects h"
    by (rule nth_equalityI) (auto simp: marked_slots_def holds_def split: option.split
        simp: option.map_comp map_option_case)
  then show ?thesis by (simp add: with_marks_def)
qed

lemma marks_clear_iff: "marks_clear h \<longleftrightarrow> marked_slots h = {}"
  by (auto simp: marks_clear_def marked_slots_def)

lemma marks_clear_with_marks: "marks_clear h \<Longrightarrow> with_marks h {} = h"
  by (metis marks_clear_iff with_marks_marked)

lemma mark_with_marks:
  assumes "holds h s x"
  shows "set_object s (x\<lparr>o_marked := True\<rparr>) (with_marks h M) = with_marks h (insert s M)"
proof -
  have "(h_objects (with_marks h M))[s := Some (x\<lparr>o_marked := True\<rparr>)] = h_objects (with_marks h (insert s M))"
    using assms by (intro nth_equalityI) (auto simp: with_marks_nth nth_list_update holds_def)
  then show ?thesis by (simp add: set_object_def with_marks_def)
qed

lemma marked_slots_with_marks: "marked_slots (with_marks h M) = M \<inter> occupied_slots h"
  by (auto simp: marked_slots_def occupied_slots_def holds_with_marks)

lemma with_marks_again [simp]: "with_marks (with_marks h M) M' = with_marks h M'"
proof -
  have "h_objects (with_marks (with_marks h M) M') = h_objects (with_marks h M')"
    by (rule nth_equalityI) (auto simp: with_marks_nth option.map_comp comp_def)
  then show ?thesis by (simp add: with_marks_def)
qed

subsection \<open>Scanning\<close>

definition traceable :: "collection_kind \<Rightarrow> gcheap \<Rightarrow> nat \<Rightarrow> bool" where
  "traceable kind h s \<longleftrightarrow> (kind = Minor \<longrightarrow> slot_has_generation Young h s)"

definition field_ids :: "gcheap \<Rightarrow> nat \<Rightarrow> object_id set" where
  "field_ids h s = ids_of (reference_fields (object_at h s))"

text \<open>\<open>i\<close> needs no further work: it is skipped, marked, or waits on the worklist.\<close>

definition accounted :: "collection_kind \<Rightarrow> gcheap \<Rightarrow> nat set \<Rightarrow> object_id set \<Rightarrow> object_id \<Rightarrow> bool" where
  "accounted kind h M W i \<longleftrightarrow>
     (\<exists>s. checked_slot i h = Inr s \<and> (traceable kind h s \<longrightarrow> s \<in> M \<or> i \<in> W))"

lemma skips_slot_eq: "s < length (h_objects h) \<Longrightarrow> skips_slot kind s h = Inr (\<not> traceable kind h s)"
  by (simp add: skips_slot_def traceable_def is_young_slot_def)

lemma traceable_with_marks [simp]:
  "s < length (h_objects h) \<Longrightarrow> traceable kind (with_marks h M) s = traceable kind h s"
  by (simp add: traceable_def)

lemma checked_slot_marked:
  assumes "checked_slot i h = Inr s"
  shows "o_marked (object_at (with_marks h M) s) \<longleftrightarrow> s \<in> M"
  using checked_slot_occupied (3) [OF assms] object_at_with_marks by fastforce

lemma enqueue_mark_value_eq:
  "enqueue_mark_value kind v (with_marks h M, W) = (case v of
     VObject i \<Rightarrow> (case checked_slot i h of Inl e \<Rightarrow> (Inl e, (with_marks h M, W))
       | Inr s \<Rightarrow> (Inr (), (with_marks h M, if traceable kind h s \<and> s \<notin> M then i # W else W)))
   | _ \<Rightarrow> (Inr (), (with_marks h M, W)))"
proof (cases v)
  case (VObject i)
  show ?thesis
  proof (cases "checked_slot i h")
    case (Inr s)
    with checked_slot_occupied (1) [OF Inr] checked_slot_marked [OF Inr, of M] VObject show ?thesis
      by (simp add: enqueue_mark_value_def sx_defs skips_slot_eq)
  qed (simp add: VObject enqueue_mark_value_def sx_defs)
qed (simp_all add: enqueue_mark_value_def sx_defs)

lemma sx_iter_simp: "sx_iter f (x # xs) s = (case f x s of (Inl e, s') \<Rightarrow> (Inl e, s') | (Inr u, s') \<Rightarrow> sx_iter f xs s')"
  by (simp add: sx_then_def sx_bind_def)

lemma iter_enqueue:
  assumes "sx_iter (enqueue_mark_value kind) vs (with_marks h M, W) = (r, (h', W'))"
  shows "h' = with_marks h M \<and> (\<exists>P. W' = P @ W \<and> set P \<subseteq> ids_of vs) \<and>
    (r = Inr () \<longrightarrow> (\<forall>i\<in>ids_of vs. accounted kind h M (set W') i)) \<and>
    ((\<forall>i\<in>ids_of vs. \<exists>s. checked_slot i h = Inr s) \<longrightarrow> r = Inr ())"
  using assms
proof (induction vs arbitrary: W)
  case Nil
  then show ?case by (auto simp: sx_return_def)
next
  case (Cons v vs)
  show ?case
  proof (cases v)
    case (VObject i)
    show ?thesis
    proof (cases "checked_slot i h")
      case (Inl e)
      with Cons.prems VObject show ?thesis
        by (auto simp: sx_iter_simp enqueue_mark_value_eq simp del: sx_iter.simps)
    next
      case (Inr s)
      let ?W = "if traceable kind h s \<and> s \<notin> M then i # W else W"
      from Cons.prems VObject Inr
      have "sx_iter (enqueue_mark_value kind) vs (with_marks h M, ?W) = (r, (h', W'))"
        by (simp add: sx_iter_simp enqueue_mark_value_eq del: sx_iter.simps)
      from Cons.IH [OF this] VObject Inr show ?thesis
        by (auto simp: accounted_def split: if_splits)
    qed
  qed (use Cons in \<open>auto simp: sx_iter_simp enqueue_mark_value_eq simp del: sx_iter.simps\<close>)
qed

lemma lifo_visit_Inr_iff:
  "visit_reference_fields_for_lifo_marking x = Inr vs \<longleftrightarrow> shape_ok x \<and> vs = rev (reference_fields x)"
  by (auto simp: visit_reference_fields_for_lifo_marking_def ethen_Inr_iff lifo_is_reverse)

definition done_ids :: "collection_kind \<Rightarrow> gcheap \<Rightarrow> nat set \<Rightarrow> object_id list \<Rightarrow> bool" where
  "done_ids kind h M U \<longleftrightarrow> (\<forall>i\<in>set U. accounted kind h M {} i)"

text \<open>One scan either empties the worklist or marks one more object and accounts for its fields.\<close>

definition scanned :: "collection_kind \<Rightarrow> gcheap \<Rightarrow> nat set \<Rightarrow> object_id list \<Rightarrow> nat set \<Rightarrow> object_id list \<Rightarrow> bool" where
  "scanned kind h M W M' W' \<longleftrightarrow> (\<exists>U i V s x P. W = U @ i # V \<and> done_ids kind h M U \<and>
     checked_slot i h = Inr s \<and> holds h s x \<and> traceable kind h s \<and> s \<notin> M \<and> M' = insert s M \<and>
     shape_ok x \<and> W' = P @ V \<and> set P \<subseteq> ids_of (reference_fields x) \<and>
     (\<forall>j\<in>ids_of (reference_fields x). accounted kind h M' (set W') j))"

lemma scan_next_cases:
  assumes "scan_next_mark_object kind (with_marks h M, W) = (r, (h', W'))"
  shows "r = Inr False \<and> h' = with_marks h M \<and> W' = [] \<and> done_ids kind h M W \<or>
    r = Inr True \<and> (\<exists>M'. h' = with_marks h M' \<and> scanned kind h M W M' W') \<or>
    (\<exists>e. r = Inl e \<and> ((\<exists>i\<in>set W. \<forall>s. checked_slot i h \<noteq> Inr s) \<or>
      (\<exists>s x. holds h s x \<and> (\<not> shape_ok x \<or> (\<exists>j\<in>ids_of (reference_fields x). \<forall>t. checked_slot j h \<noteq> Inr t)))))"
  using assms
proof (induction W)
  case Nil
  then show ?case by (simp add: done_ids_def)
next
  case (Cons i W)
  show ?case
  proof (cases "checked_slot i h")
    case (Inl e)
    with Cons.prems show ?thesis by (auto simp: split: prod.splits sum.splits)
  next
    case (Inr s)
    then obtain x where x: "holds h s x" using checked_slot_occupied (3) by blast
    have skip: "skips_slot kind s h = Inr (\<not> traceable kind h s)"
      using x by (simp add: skips_slot_eq holds_def)
    show ?thesis
    proof (cases "traceable kind h s \<and> s \<notin> M")
      case False
      then have sc: "scan_next_mark_object kind (with_marks h M, W) = (r, (h', W'))"
        using Cons.prems Inr skip checked_slot_marked [OF Inr, of M] by auto
      have "accounted kind h M {} i" using False Inr by (simp add: accounted_def)
      then have more: "done_ids kind h M (i # U) \<longleftrightarrow> done_ids kind h M U" for U
        by (simp add: done_ids_def)
      have mono: "scanned kind h M W M' W' \<Longrightarrow> scanned kind h M (i # W) M' W'" for M'
        unfolding scanned_def using more by (metis append_Cons)
      from Cons.IH [OF sc] show ?thesis
      proof (elim disjE)
        assume "r = Inr False \<and> h' = with_marks h M \<and> W' = [] \<and> done_ids kind h M W"
        then show ?thesis using more by simp
      next
        assume "r = Inr True \<and> (\<exists>M'. h' = with_marks h M' \<and> scanned kind h M W M' W')"
        then show ?thesis using mono by blast
      next
        assume "\<exists>e. r = Inl e \<and> ((\<exists>i\<in>set W. \<forall>s. checked_slot i h \<noteq> Inr s) \<or>
          (\<exists>s x. holds h s x \<and> (\<not> shape_ok x \<or> (\<exists>j\<in>ids_of (reference_fields x). \<forall>t. checked_slot j h \<noteq> Inr t))))"
        then show ?thesis by (metis list.set_intros(2))
      qed
    next
      case True
      let ?h = "with_marks h (insert s M)"
      have o: "(object_at (with_marks h M) s)\<lparr>o_marked := True\<rparr> = x\<lparr>o_marked := True\<rparr>"
        using object_at_with_marks [OF x] by simp
      have run: "(case visit_reference_fields_for_lifo_marking (x\<lparr>o_marked := True\<rparr>) of
             Inl e \<Rightarrow> (Inl e, (?h, W))
           | Inr vs \<Rightarrow> sx_then (sx_iter (enqueue_mark_value kind) vs) (sx_return True) (?h, W)) = (r, (h', W'))"
        using Cons.prems Inr skip True checked_slot_marked [OF Inr, of M]
        by (simp add: o mark_with_marks [OF x] Let_def cong: sum.case_cong)
      show ?thesis
      proof (cases "shape_ok x")
        case False
        then show ?thesis using run x
          by (cases "visit_reference_fields_for_lifo_marking (x\<lparr>o_marked := True\<rparr>)")
            (auto simp: lifo_visit_Inr_iff)
      next
        case shape: True
        then have vis: "visit_reference_fields_for_lifo_marking (x\<lparr>o_marked := True\<rparr>) = Inr (rev (reference_fields x))"
          by (simp add: lifo_visit_Inr_iff)
        obtain r1 h1 W1 where it: "sx_iter (enqueue_mark_value kind) (rev (reference_fields x)) (?h, W) = (r1, (h1, W1))"
          by (metis prod_cases3)
        note i = iter_enqueue [OF it]
        have res: "r = (case r1 of Inl e \<Rightarrow> Inl e | Inr _ \<Rightarrow> Inr True)" "h' = h1" "W' = W1"
          using run by (auto simp: vis sx_then_def sx_bind_def sx_return_def it split: sum.splits)
        show ?thesis
        proof (cases r1)
          case (Inl e)
          with i have "\<exists>j\<in>ids_of (reference_fields x). \<forall>t. checked_slot j h \<noteq> Inr t" by force
          with x res Inl show ?thesis by auto
        next
          case (Inr u)
          with i obtain P where "W1 = P @ W" "set P \<subseteq> ids_of (reference_fields x)"
            "\<forall>j\<in>ids_of (reference_fields x). accounted kind h (insert s M) (set W1) j" "h1 = ?h"
            by auto
          then have "scanned kind h M (i # W) (insert s M) W1"
            unfolding scanned_def using x shape True \<open>checked_slot i h = Inr s\<close>
            by (intro exI [of _ "[]"] exI [of _ i] exI [of _ W] exI [of _ s] exI [of _ x] exI [of _ P])
              (simp add: done_ids_def)
          with res Inr \<open>h1 = ?h\<close> show ?thesis by auto
        qed
      qed
    qed
  qed
qed

subsection \<open>Draining\<close>

definition unmarked_count :: "gcheap \<Rightarrow> nat" where
  "unmarked_count h = card (occupied_slots h - marked_slots h)"

lemma finite_occupied [simp]: "finite (occupied_slots h)"
  by (rule finite_subset [of _ "{..<length (h_objects h)}"]) (auto simp: occupied_slots_def holds_def)

lemma unmarked_count_with_marks: "unmarked_count (with_marks h M) = card (occupied_slots h - M)"
proof -
  have "occupied_slots (with_marks h M) = occupied_slots h"
    by (auto simp: occupied_slots_def holds_with_marks)
  then have "occupied_slots (with_marks h M) - marked_slots (with_marks h M) = occupied_slots h - M"
    by (auto simp: marked_slots_with_marks)
  then show ?thesis by (simp add: unmarked_count_def)
qed

lemma unmarked_count_less:
  assumes "M \<subseteq> M'" and "s \<in> M'" and "s \<notin> M" and "s \<in> occupied_slots h"
  shows "unmarked_count (with_marks h M') < unmarked_count (with_marks h M)"
  unfolding unmarked_count_with_marks using assms by (intro psubset_card_mono) auto

lemma scan_next_decreases:
  assumes "scan_next_mark_object kind st = (Inr True, st')"
  shows "unmarked_count (fst st') < unmarked_count (fst st)"
proof -
  obtain h W h' W' where st: "st = (h, W)" "st' = (h', W')" by fastforce
  have "scan_next_mark_object kind (with_marks h (marked_slots h), W) = (Inr True, (h', W'))"
    using assms by (simp add: st with_marks_marked)
  from scan_next_cases [OF this]
  obtain M' where "h' = with_marks h M'" "scanned kind h (marked_slots h) W M' W'" by auto
  then show ?thesis
    using unmarked_count_less [of "marked_slots h" M' _ h]
    by (auto simp: st scanned_def with_marks_marked occupied_slots_def)
qed

function drain_mark_worklist :: "collection_kind \<Rightarrow> mark_state \<Rightarrow> (exn + unit) \<times> mark_state" where
  "drain_mark_worklist kind st = (case scan_next_mark_object kind st of
       (Inl e, st') \<Rightarrow> (Inl e, st')
     | (Inr b, st') \<Rightarrow> if b then drain_mark_worklist kind st' else (Inr (), st'))"
  by pat_completeness auto
termination drain_mark_worklist
  by (relation "measure (\<lambda>(kind, st). unmarked_count (fst st))") (auto dest!: scan_next_decreases [OF sym])

declare drain_mark_worklist.simps [simp del]

text \<open>What a drain that returns has done, on any heap.\<close>

lemma drain_returns:
  assumes "drain_mark_worklist kind (with_marks h M, W) = (Inr (), st)"
  shows "\<exists>M'. st = (with_marks h M', []) \<and> M \<subseteq> M' \<and> (\<forall>i\<in>set W. accounted kind h M' {} i)"
  using assms
proof (induction "card (occupied_slots h - M)" arbitrary: M W rule: less_induct)
  case less
  obtain r h1 W1 where sc: "scan_next_mark_object kind (with_marks h M, W) = (r, (h1, W1))"
    by (metis prod_cases3)
  note c = scan_next_cases [OF sc]
  consider (stop) "r = Inr False" | (go) M1 where "r = Inr True" "h1 = with_marks h M1" "scanned kind h M W M1 W1"
    using c less.prems sc by (subst (asm) drain_mark_worklist.simps) (auto split: sum.splits)
  then show ?case
  proof cases
    case stop
    with c less.prems sc show ?thesis
      by (subst (asm) drain_mark_worklist.simps) (auto simp: done_ids_def)
  next
    case go
    then obtain U i V s x P where s: "W = U @ i # V" "done_ids kind h M U" "checked_slot i h = Inr s"
      "holds h s x" "s \<notin> M" "M1 = insert s M" "W1 = P @ V"
      by (auto simp: scanned_def)
    have "drain_mark_worklist kind (with_marks h M1, W1) = (Inr (), st)"
      using less.prems sc go by (subst (asm) drain_mark_worklist.simps) simp
    moreover have "card (occupied_slots h - M1) < card (occupied_slots h - M)"
      using s by (intro psubset_card_mono finite_Diff finite_occupied) (auto simp: occupied_slots_def)
    ultimately obtain M' where m: "st = (with_marks h M', [])" "M1 \<subseteq> M'"
      "\<forall>i\<in>set W1. accounted kind h M' {} i"
      using less.hyps by blast
    have "accounted kind h M' {} j" if "j \<in> set W" for j
    proof -
      from that s(1) consider "j \<in> set U" | "j = i" | "j \<in> set V" by auto
      then show ?thesis
      proof cases
        case 1
        with s(2) m(2) s(6) show ?thesis by (auto simp: done_ids_def accounted_def)
      next
        case 2
        with s(3,6) m(2) show ?thesis by (auto simp: accounted_def)
      next
        case 3
        with m(3) s(7) show ?thesis by simp
      qed
    qed
    with m s(6) show ?thesis by auto
  qed
qed

subsection \<open>Ephemerons\<close>

text \<open>\<open>owner_live\<close>, \<open>key_live\<close> and \<open>already_live\<close> of \<open>process_ephemeron_fixpoint\<close>.\<close>

definition slot_live :: "collection_kind \<Rightarrow> nat \<Rightarrow> gcheap \<Rightarrow> exn + bool" where
  "slot_live kind slot h = (if kind = Minor
     then ebind (is_old_slot slot h) (\<lambda>old. Inr (old \<or> o_marked (object_at h slot)))
     else Inr (o_marked (object_at h slot)))"

definition activate_ephemeron :: "collection_kind \<Rightarrow> object_id \<Rightarrow> (mark_state, bool) sx" where
  "activate_ephemeron kind owner_id =
     sx_bind (sx_reads (\<lambda>(h, _). checked_slot owner_id h)) (\<lambda>owner_slot.
     sx_bind (sx_gets (\<lambda>(h, _). object_at h owner_slot)) (\<lambda>owner.
     sx_bind (sx_reads (\<lambda>(h, _). slot_live kind owner_slot h)) (\<lambda>owner_live.
     if \<not> owner_live \<or> tag (o_ephemeron_key owner) = Tag_Nil then sx_return False
     else sx_bind (sx_reads (\<lambda>(h, _). ebind (as_object (o_ephemeron_key owner)) (\<lambda>i. checked_slot i h))) (\<lambda>key_slot.
     sx_bind (sx_reads (\<lambda>(h, _). slot_live kind key_slot h)) (\<lambda>key_live.
     if \<not> key_live \<or> \<not> o_ephemeron_value_is_ref owner \<or> \<not> is_object (o_ephemeron_value owner)
     then sx_return False
     else sx_bind (sx_reads (\<lambda>(h, _). ebind (as_object (o_ephemeron_value owner)) (\<lambda>i. checked_slot i h))) (\<lambda>value_slot.
     sx_bind (sx_reads (\<lambda>(h, _). slot_live kind value_slot h)) (\<lambda>already_live.
     if already_live then sx_return False
     else sx_then (enqueue_mark_value kind (o_ephemeron_value owner)) (sx_return True))))))))"

fun ephemeron_pass :: "collection_kind \<Rightarrow> object_id list \<Rightarrow> bool \<Rightarrow> (mark_state, bool) sx" where
  "ephemeron_pass kind [] progressed = sx_return progressed"
| "ephemeron_pass kind (owner_id # rest) progressed =
     sx_bind (activate_ephemeron kind owner_id) (\<lambda>activated.
       ephemeron_pass kind rest (progressed \<or> activated))"

definition live_with :: "collection_kind \<Rightarrow> gcheap \<Rightarrow> nat set \<Rightarrow> nat \<Rightarrow> bool" where
  "live_with kind h M s \<longleftrightarrow> s \<in> M \<or> kind = Minor \<and> slot_has_generation Old h s"

lemma slot_live_with_marks:
  assumes "checked_slot i h = Inr s"
  shows "slot_live kind s (with_marks h M) = Inr (live_with kind h M s)"
  using checked_slot_occupied (1) [OF assms] checked_slot_marked [OF assms, of M]
  by (auto simp: slot_live_def live_with_def is_old_slot_def)

lemma not_live_traceable:
  assumes "holds h s x" and "\<not> live_with kind h M s"
  shows "traceable kind h s \<and> s \<notin> M"
  using assms by (cases "o_generation x") (auto simp: live_with_def traceable_def slot_has_generation_def holds_def)

text \<open>
  An ephemeron fires if it and its key are live and its value is an object that is not.
\<close>

definition fires :: "collection_kind \<Rightarrow> gcheap \<Rightarrow> nat set \<Rightarrow> object_id \<Rightarrow> object_id \<Rightarrow> nat \<Rightarrow> bool" where
  "fires kind h M owner v t \<longleftrightarrow> (\<exists>s x k ks. checked_slot owner h = Inr s \<and> holds h s x \<and>
     live_with kind h M s \<and> o_ephemeron_key x = VObject k \<and> checked_slot k h = Inr ks \<and>
     live_with kind h M ks \<and> o_ephemeron_value_is_ref x \<and> o_ephemeron_value x = VObject v \<and>
     checked_slot v h = Inr t \<and> \<not> live_with kind h M t)"

text \<open>The ids an ephemeron needs to be checked are valid.\<close>

definition ephemeron_checks :: "gcheap \<Rightarrow> object_id \<Rightarrow> bool" where
  "ephemeron_checks h owner \<longleftrightarrow> (\<exists>s x. checked_slot owner h = Inr s \<and> holds h s x \<and>
     reference_tag (o_ephemeron_key x) \<and>
     (\<forall>k. o_ephemeron_key x = VObject k \<longrightarrow> (\<exists>ks. checked_slot k h = Inr ks)) \<and>
     (\<forall>v. o_ephemeron_value_is_ref x \<longrightarrow> o_ephemeron_value x = VObject v \<longrightarrow> (\<exists>t. checked_slot v h = Inr t)))"

lemma activate_ephemeron_cases:
  assumes "activate_ephemeron kind owner (with_marks h M, W) = (r, st)"
  shows "r = Inr False \<and> st = (with_marks h M, W) \<and> (\<forall>v t. \<not> fires kind h M owner v t) \<or>
    (\<exists>v t. r = Inr True \<and> st = (with_marks h M, v # W) \<and> fires kind h M owner v t \<and> traceable kind h t \<and> t \<notin> M) \<or>
    (\<exists>e. r = Inl e \<and> st = (with_marks h M, W) \<and> \<not> ephemeron_checks h owner)"
proof (cases "checked_slot owner h")
  case (Inl e)
  with assms show ?thesis by (auto simp: activate_ephemeron_def sx_defs ephemeron_checks_def)
next
  case (Inr s)
  then obtain x where x: "holds h s x" using checked_slot_occupied (3) by blast
  have ux: "holds h s y \<longleftrightarrow> y = x" for y using x holds_unique by blast
  have o: "object_at (with_marks h M) s = x\<lparr>o_marked := (s \<in> M)\<rparr>" by (rule object_at_with_marks [OF x])
  note live = slot_live_with_marks [where M = M]
  show ?thesis
  proof (cases "live_with kind h M s \<and> o_ephemeron_key x \<noteq> VNil")
    case False
    then have "r = Inr False" "st = (with_marks h M, W)"
      using assms Inr o live [OF Inr] by (auto simp: activate_ephemeron_def sx_defs)
    with False Inr ux show ?thesis by (auto simp: fires_def)
  next
    case True
    show ?thesis
    proof (cases "\<exists>k ks. o_ephemeron_key x = VObject k \<and> checked_slot k h = Inr ks")
      case False
      then have "\<not> ephemeron_checks h owner"
        using Inr ux True by (cases "o_ephemeron_key x") (auto simp: ephemeron_checks_def reference_tag_def)
      moreover have "\<exists>e. r = Inl e \<and> st = (with_marks h M, W)"
        using assms Inr o live [OF Inr] True False
        by (cases "o_ephemeron_key x")
          (auto simp: activate_ephemeron_def sx_defs split: sum.splits prod.splits)
      ultimately show ?thesis by blast
    next
      case k: True
      then obtain k ks where k: "o_ephemeron_key x = VObject k" "checked_slot k h = Inr ks" by blast
      show ?thesis
      proof (cases "live_with kind h M ks \<and> o_ephemeron_value_is_ref x \<and> is_object (o_ephemeron_value x)")
        case False
        then have "r = Inr False" "st = (with_marks h M, W)"
          using assms Inr o live [OF Inr] live [OF k(2)] True k by (auto simp: activate_ephemeron_def sx_defs)
        with False Inr ux k show ?thesis by (auto simp: fires_def)
      next
        case v: True
        then obtain v where v: "o_ephemeron_value x = VObject v" by (auto simp: is_object_iff)
        show ?thesis
        proof (cases "checked_slot v h")
          case (Inl e)
          with \<open>checked_slot owner h = Inr s\<close> ux v \<open>live_with kind h M ks \<and> _\<close>
          have "\<not> ephemeron_checks h owner" by (auto simp: ephemeron_checks_def)
          moreover have "\<exists>e. r = Inl e \<and> st = (with_marks h M, W)"
            using assms \<open>checked_slot owner h = Inr s\<close> o live [OF \<open>checked_slot owner h = Inr s\<close>]
              live [OF k(2)] True k \<open>live_with kind h M ks \<and> _\<close> v Inl
            by (auto simp: activate_ephemeron_def sx_defs)
          ultimately show ?thesis by blast
        next
          case t: (Inr t)
          obtain y where y: "holds h t y" using checked_slot_occupied (3) [OF t] by blast
          have fires: "fires kind h M owner w u \<longleftrightarrow> w = v \<and> u = t \<and> \<not> live_with kind h M t" for w u
            using Inr ux True k \<open>live_with kind h M ks \<and> _\<close> v t by (auto simp: fires_def)
          have "(r, st) = (if live_with kind h M t then (Inr False, (with_marks h M, W))
              else (Inr True, (with_marks h M, if traceable kind h t \<and> t \<notin> M then v # W else W)))"
            using assms Inr o live [OF Inr] live [OF k(2)] live [OF t] True k \<open>live_with kind h M ks \<and> _\<close> v t
            by (auto simp: activate_ephemeron_def sx_defs enqueue_mark_value_eq)
          with fires not_live_traceable [OF y, of kind M] show ?thesis by (auto split: if_splits)
        qed
      qed
    qed
  qed
qed

lemma ephemeron_pass_cases:
  assumes "ephemeron_pass kind os b (with_marks h M, W) = (r, st)"
  shows "(\<exists>P. r = Inr (b \<or> P \<noteq> []) \<and> st = (with_marks h M, P @ W) \<and>
      (\<forall>v\<in>set P. \<exists>owner\<in>set os. \<exists>t. fires kind h M owner v t \<and> traceable kind h t \<and> t \<notin> M) \<and>
      (P = [] \<longrightarrow> (\<forall>owner\<in>set os. \<forall>v t. \<not> fires kind h M owner v t))) \<or>
    (\<exists>e. r = Inl e \<and> (\<exists>owner\<in>set os. \<not> ephemeron_checks h owner))"
  using assms
proof (induction os arbitrary: b W)
  case Nil
  then show ?case by (auto simp: sx_return_def)
next
  case (Cons owner os)
  obtain r1 st1 where a: "activate_ephemeron kind owner (with_marks h M, W) = (r1, st1)" by (metis surj_pair)
  from activate_ephemeron_cases [OF a] show ?case
  proof (elim disjE exE conjE)
    assume 1: "r1 = Inr False" "st1 = (with_marks h M, W)" "\<forall>v t. \<not> fires kind h M owner v t"
    then have "ephemeron_pass kind os b (with_marks h M, W) = (r, st)"
      using Cons.prems a by (simp add: sx_bind_def)
    from Cons.IH [OF this] 1(3) show ?thesis by auto
  next
    fix v t
    assume 2: "r1 = Inr True" "st1 = (with_marks h M, v # W)" "fires kind h M owner v t"
      "traceable kind h t" "t \<notin> M"
    then have "ephemeron_pass kind os True (with_marks h M, v # W) = (r, st)"
      using Cons.prems a by (simp add: sx_bind_def)
    from Cons.IH [OF this] show ?thesis
    proof (elim disjE exE conjE)
      fix P
      assume "r = Inr (True \<or> P \<noteq> [])" "st = (with_marks h M, P @ v # W)"
        "\<forall>v\<in>set P. \<exists>owner\<in>set os. \<exists>t. fires kind h M owner v t \<and> traceable kind h t \<and> t \<notin> M"
      with 2 show ?thesis by (intro disjI1 exI [of _ "P @ [v]"]) auto
    qed auto
  next
    fix e
    assume "r1 = Inl e" "st1 = (with_marks h M, W)" "\<not> ephemeron_checks h owner"
    then show ?thesis using Cons.prems a by (auto simp: sx_bind_def)
  qed
qed

lemma ephemeron_round_decreases:
  assumes "ephemeron_pass kind (h_ephemerons (fst st)) False st = (Inr True, st1)"
    and "drain_mark_worklist kind st1 = (Inr (), st2)"
  shows "unmarked_count (fst st2) < unmarked_count (fst st)"
proof -
  obtain h W where st: "st = (with_marks h (marked_slots h), W)" "fst st = h"
    by (metis prod.collapse fst_conv with_marks_marked)
  let ?M = "marked_slots h"
  from ephemeron_pass_cases [of kind "h_ephemerons h" False h ?M W "Inr True" st1] assms(1) st
  obtain P where "P \<noteq> []" and st1: "st1 = (with_marks h ?M, P @ W)"
    and P: "\<forall>v\<in>set P. \<exists>owner\<in>set (h_ephemerons h). \<exists>t. fires kind h ?M owner v t \<and> traceable kind h t \<and> t \<notin> ?M"
    by auto
  then obtain v where "v \<in> set P" by fastforce
  with P obtain owner t where t: "checked_slot v h = Inr t" "traceable kind h t" "t \<notin> ?M"
    by (auto simp: fires_def)
  from drain_returns [of kind h ?M "P @ W" st2] assms(2) st1
  obtain M' where "st2 = (with_marks h M', [])" "?M \<subseteq> M'" "accounted kind h M' {} v"
    using \<open>v \<in> set P\<close> by auto
  moreover have "t \<in> occupied_slots h"
    using checked_slot_occupied (3) [OF t(1)] by (auto simp: occupied_slots_def)
  ultimately show ?thesis
    using unmarked_count_less [of ?M M' t h] t st(2) by (auto simp: accounted_def with_marks_marked)
qed

function process_ephemeron_fixpoint :: "collection_kind \<Rightarrow> mark_state \<Rightarrow> (exn + unit) \<times> mark_state" where
  "process_ephemeron_fixpoint kind st =
     (case ephemeron_pass kind (h_ephemerons (fst st)) False st of
       (Inl e, st1) \<Rightarrow> (Inl e, st1)
     | (Inr progressed, st1) \<Rightarrow> (case drain_mark_worklist kind st1 of
         (Inl e, st2) \<Rightarrow> (Inl e, st2)
       | (Inr _, st2) \<Rightarrow> if progressed then process_ephemeron_fixpoint kind st2 else (Inr (), st2)))"
  by pat_completeness auto
termination process_ephemeron_fixpoint
  by (relation "measure (\<lambda>(kind, st). unmarked_count (fst st))")
    (auto intro!: ephemeron_round_decreases)

declare process_ephemeron_fixpoint.simps [simp del]

text \<open>
  The marking part of a collection: the roots, the remembered set if the collection is minor,
  the transitive closure and the ephemerons.
\<close>

definition mark_live_objects :: "collection_kind \<Rightarrow> val list \<Rightarrow> (mark_state, unit) sx" where
  "mark_live_objects kind extra =
     sx_then (sx_bind (sx_gets (\<lambda>(h, _). collection_roots h extra)) (sx_iter (enqueue_mark_value kind)))
     (sx_then (sx_when (kind = Minor) enqueue_young_references_from_remembered_set)
     (sx_then (drain_mark_worklist kind)
     (process_ephemeron_fixpoint kind)))"

subsection \<open>The objects a collection keeps\<close>

inductive_set traced :: "collection_kind \<Rightarrow> gcheap \<Rightarrow> val list \<Rightarrow> nat set"
  for kind :: collection_kind and h :: gcheap and roots :: "val list" where
  root: "VObject i \<in> set roots \<Longrightarrow> traceable kind h (slot_index i) \<Longrightarrow> slot_index i \<in> traced kind h roots"
| remembered: "kind = Minor \<Longrightarrow> r \<in> set (h_remembered_set h) \<Longrightarrow> i \<in> field_ids h (slot_index r) \<Longrightarrow>
    traceable kind h (slot_index i) \<Longrightarrow> slot_index i \<in> traced kind h roots"
| field: "s \<in> traced kind h roots \<Longrightarrow> i \<in> field_ids h s \<Longrightarrow> traceable kind h (slot_index i) \<Longrightarrow>
    slot_index i \<in> traced kind h roots"
| ephemeron: "owner \<in> set (h_ephemerons h) \<Longrightarrow> x = object_at h (slot_index owner) \<Longrightarrow>
    slot_index owner \<in> traced kind h roots \<or> (kind = Minor \<and> slot_has_generation Old h (slot_index owner)) \<Longrightarrow>
    o_ephemeron_key x = VObject k \<Longrightarrow>
    slot_index k \<in> traced kind h roots \<or> (kind = Minor \<and> slot_has_generation Old h (slot_index k)) \<Longrightarrow>
    o_ephemeron_value_is_ref x \<Longrightarrow> o_ephemeron_value x = VObject v \<Longrightarrow>
    traceable kind h (slot_index v) \<Longrightarrow> slot_index v \<in> traced kind h roots"

text \<open>
  A worklist search of a graph: \<open>R\<close> is closed under the wanted successors; the invariant says
  that only \<open>R\<close> is marked or pending, and that the required ids and the successors of what
  is marked are marked, pending or not wanted.
\<close>

locale graph_search =
  fixes slot_of :: "object_id \<Rightarrow> nat" and wanted :: "nat \<Rightarrow> bool"
    and successors :: "nat \<Rightarrow> object_id set" and R :: "nat set"
  assumes closed: "s \<in> R \<Longrightarrow> i \<in> successors s \<Longrightarrow> wanted (slot_of i) \<Longrightarrow> slot_of i \<in> R"
begin

definition covered :: "nat set \<Rightarrow> object_id set \<Rightarrow> object_id \<Rightarrow> bool" where
  "covered M W i \<longleftrightarrow> (wanted (slot_of i) \<longrightarrow> slot_of i \<in> M \<or> i \<in> W)"

definition search_inv :: "object_id set \<Rightarrow> nat set \<Rightarrow> object_id set \<Rightarrow> bool" where
  "search_inv Q M W \<longleftrightarrow> M \<subseteq> R \<and> (\<forall>i\<in>W. wanted (slot_of i) \<longrightarrow> slot_of i \<in> R) \<and>
     (\<forall>i\<in>Q. covered M W i) \<and> (\<forall>s\<in>M. \<forall>i\<in>successors s. covered M W i)"

lemma search_pop:
  "search_inv Q M (insert i W) \<Longrightarrow> wanted (slot_of i) \<longrightarrow> slot_of i \<in> M \<Longrightarrow> search_inv Q M W"
  unfolding search_inv_def covered_def by blast

lemma search_visit:
  assumes "search_inv Q M (insert i W)" and "wanted (slot_of i)" and "P \<subseteq> successors (slot_of i)"
    and "\<forall>j\<in>successors (slot_of i). covered (insert (slot_of i) M) (P \<union> W) j"
  shows "search_inv Q (insert (slot_of i) M) (P \<union> W)"
proof -
  have "slot_of i \<in> R" using assms(1,2) by (simp add: search_inv_def)
  then have "\<forall>j\<in>P. wanted (slot_of j) \<longrightarrow> slot_of j \<in> R" using assms(3) closed by blast
  then show ?thesis
    using assms \<open>slot_of i \<in> R\<close> unfolding search_inv_def covered_def by auto
qed

lemma search_push:
  "search_inv Q M W \<Longrightarrow> (\<And>i. i \<in> P \<Longrightarrow> wanted (slot_of i) \<Longrightarrow> slot_of i \<in> R) \<Longrightarrow>
    search_inv Q M (P \<union> W)"
  unfolding search_inv_def covered_def by blast

lemma search_require:
  "search_inv Q M W \<Longrightarrow> (\<And>i. i \<in> P \<Longrightarrow> covered M W i) \<Longrightarrow> search_inv (P \<union> Q) M W"
  unfolding search_inv_def by blast

lemma search_done:
  assumes "search_inv Q M {}"
  shows "M \<subseteq> R" "i \<in> Q \<Longrightarrow> wanted (slot_of i) \<Longrightarrow> slot_of i \<in> M"
    "s \<in> M \<Longrightarrow> i \<in> successors s \<Longrightarrow> wanted (slot_of i) \<Longrightarrow> slot_of i \<in> M"
  using assms unfolding search_inv_def covered_def by auto

lemma search_start: "search_inv {} {} {}"
  by (simp add: search_inv_def)

end

interpretation marking: graph_search slot_index "traceable kind h" "field_ids h" "traced kind h roots"
  for kind h roots
  by unfold_locales (rule traced.field)

subsection \<open>Marking finds exactly the traced objects\<close>

lemma heap_wf_fields:
  assumes "heap_wf h" and "holds h s x"
  shows "shape_ok x" "field_ids h s = ids_of (reference_fields x)"
    "i \<in> ids_of (reference_fields x) \<Longrightarrow> current_slot h i"
  using heap_wf_shape [OF assms] assms fields_validD [OF heap_wfD(5) [OF assms(1)] assms(2)]
  by (auto simp: field_ids_def holds_object_at ids_of_def)

lemma heap_wf_slots: "heap_wf h \<Longrightarrow> checked_slot i h = Inr s \<longleftrightarrow> current_slot h i \<and> s = slot_index i"
  by (simp add: heap_wfD checked_slot_Inr_iff)

lemma accounted_covered:
  "heap_wf h \<Longrightarrow> accounted kind h M W i \<longleftrightarrow>
    current_slot h i \<and> graph_search.covered slot_index (traceable kind h) M W i"
  by (auto simp: accounted_def heap_wf_slots marking.covered_def)

lemma search_pop_done:
  assumes wf: "heap_wf h" and "done_ids kind h M U"
    and "marking.search_inv kind h roots Q M (set U \<union> W)"
  shows "marking.search_inv kind h roots Q M W"
  using assms(2,3)
proof (induction U)
  case (Cons i U)
  have "marking.search_inv kind h roots Q M (set U \<union> W)"
  proof (rule marking.search_pop)
    show "marking.search_inv kind h roots Q M (insert i (set U \<union> W))" using Cons.prems by simp
    show "traceable kind h (slot_index i) \<longrightarrow> slot_index i \<in> M"
      using Cons.prems(1) wf by (simp add: done_ids_def accounted_covered marking.covered_def)
  qed
  then show ?case using Cons.IH Cons.prems(1) by (simp add: done_ids_def)
qed simp

lemma drain_search:
  assumes wf: "heap_wf h" and "\<forall>i\<in>set W. current_slot h i"
    and "graph_search.search_inv slot_index (traceable kind h) (field_ids h) (traced kind h roots) Q M (set W)"
  shows "\<exists>M'. drain_mark_worklist kind (with_marks h M, W) = (Inr (), (with_marks h M', [])) \<and> M \<subseteq> M' \<and>
    graph_search.search_inv slot_index (traceable kind h) (field_ids h) (traced kind h roots) Q M' {}"
  using assms(2,3)
proof (induction "card (occupied_slots h - M)" arbitrary: M W rule: less_induct)
  case less
  obtain r h1 W1 where sc: "scan_next_mark_object kind (with_marks h M, W) = (r, (h1, W1))"
    by (metis prod_cases3)
  have fields: "holds h s x \<Longrightarrow> shape_ok x \<and> (\<forall>j\<in>ids_of (reference_fields x). \<exists>t. checked_slot j h = Inr t)"
    for s x using heap_wf_fields [OF wf] checked_slot_current by blast
  consider (stop) "r = Inr False" "h1 = with_marks h M" "W1 = []" "done_ids kind h M W"
    | (go) M1 where "r = Inr True" "h1 = with_marks h M1" "scanned kind h M W M1 W1"
  proof -
    have "\<not> (\<exists>i\<in>set W. \<forall>s. checked_slot i h \<noteq> Inr s)" using less.prems(1) checked_slot_current by blast
    then show thesis using scan_next_cases [OF sc] fields that by blast
  qed
  then show ?case
  proof cases
    case stop
    have "marking.search_inv kind h roots Q M {}"
      using search_pop_done [OF wf stop(4)] less.prems(2) by simp
    then show ?thesis using stop sc by (subst drain_mark_worklist.simps) auto
  next
    case go
    then obtain U i V s x P where s: "W = U @ i # V" "done_ids kind h M U" "checked_slot i h = Inr s"
      "holds h s x" "traceable kind h s" "s \<notin> M" "M1 = insert s M" "W1 = P @ V"
      "set P \<subseteq> ids_of (reference_fields x)"
      "\<forall>j\<in>ids_of (reference_fields x). accounted kind h M1 (set W1) j"
      by (auto simp: scanned_def)
    have i: "s = slot_index i" using s(3) wf by (simp add: heap_wf_slots)
    have pop: "marking.search_inv kind h roots Q M (insert i (set V))"
      using search_pop_done [OF wf s(2), of roots Q "insert i (set V)"] less.prems(2) s(1) by simp
    have "marking.search_inv kind h roots Q (insert (slot_index i) M) (set P \<union> set V)"
      using pop s i wf heap_wf_fields(2) [OF wf s(4)]
      by (intro marking.search_visit) (auto simp: accounted_covered)
    moreover have "\<forall>i\<in>set W1. current_slot h i"
      using less.prems(1) s heap_wf_fields(3) [OF wf s(4)] by auto
    moreover have "card (occupied_slots h - M1) < card (occupied_slots h - M)"
      using s by (intro psubset_card_mono finite_Diff finite_occupied) (auto simp: occupied_slots_def)
    ultimately obtain M' where "drain_mark_worklist kind (with_marks h M1, W1) = (Inr (), (with_marks h M', []))"
      "M1 \<subseteq> M'" "marking.search_inv kind h roots Q M' {}"
      using less.hyps [of M1 W1] s(7,8) i by auto
    then show ?thesis using sc go s(7) by (subst drain_mark_worklist.simps) auto
  qed
qed

lemma fires_traced:
  assumes wf: "heap_wf h" and M: "M \<subseteq> traced kind h roots" and "owner \<in> set (h_ephemerons h)"
    and "fires kind h M owner v t"
  shows "t = slot_index v" "current_slot h v" "slot_index v \<in> traced kind h roots"
proof -
  obtain s x k ks where f: "checked_slot owner h = Inr s" "holds h s x" "live_with kind h M s"
    "o_ephemeron_key x = VObject k" "checked_slot k h = Inr ks" "live_with kind h M ks"
    "o_ephemeron_value_is_ref x" "o_ephemeron_value x = VObject v" "checked_slot v h = Inr t"
    "\<not> live_with kind h M t"
    using assms(4) by (auto simp: fires_def)
  then have t: "t = slot_index v" "current_slot h v" and s: "s = slot_index owner" "ks = slot_index k"
    using wf by (simp_all add: heap_wf_slots)
  then show "t = slot_index v" "current_slot h v" by simp_all
  have "holds h t (object_at h t)" using checked_slot_occupied f(9) by blast
  then have "traceable kind h t" using not_live_traceable f(10) by blast
  then show "slot_index v \<in> traced kind h roots"
    using f s t M assms(3) holds_object_at [OF f(2)]
    by (intro traced.ephemeron [of owner h x]) (auto simp: live_with_def)
qed

lemma ephemerons_ok_checks:
  assumes wf: "heap_wf h" and "owner \<in> set (h_ephemerons h)"
  shows "ephemeron_checks h owner"
proof -
  obtain s where s: "s \<in> set (kind_slots Ephemeron h)" "owner = id_at h s" "ephemeron_slot_good h s"
    using assms heap_wfD(9) [OF wf] by (auto simp: ephemerons_ok_def)
  then obtain x where x: "holds h s x" "o_kind x = Ephemeron"
    by (auto simp: kind_slots_def is_kind_at_def holds_def)
  have "checked_slot owner h = Inr s"
    using s x wf id_at_slot_index [OF heap_wfD(1) [OF wf], of s] holds_less
    by (simp add: heap_wf_slots ephemeron_slot_good_def)
  moreover have "reference_tag (o_ephemeron_key x)"
    using heap_wf_shape [OF wf x(1)] x(2)
    by (auto simp: validate_descriptor_shape_def shape_ephemeron_def ethen_Inr_iff Let_def)
  ultimately show ?thesis
    using s(3) x by (auto simp: ephemeron_checks_def ephemeron_slot_good_def holds_object_at)
qed

lemma fixpoint_search:
  assumes wf: "heap_wf h"
    and "marking.search_inv kind h roots Q M {}"
  shows "\<exists>M'. process_ephemeron_fixpoint kind (with_marks h M, []) = (Inr (), (with_marks h M', [])) \<and>
    marking.search_inv kind h roots Q M' {} \<and>
    (\<forall>owner\<in>set (h_ephemerons h). \<forall>v t. \<not> fires kind h M' owner v t)"
  using assms(2)
proof (induction "card (occupied_slots h - M)" arbitrary: M rule: less_induct)
  case less
  note R = marking.search_done(1) [OF less.prems]
  obtain r st where p: "ephemeron_pass kind (h_ephemerons h) False (with_marks h M, []) = (r, st)"
    by (metis surj_pair)
  from ephemeron_pass_cases [OF p] ephemerons_ok_checks [OF wf]
  obtain P where P: "r = Inr (P \<noteq> [])" "st = (with_marks h M, P)"
    "\<forall>v\<in>set P. \<exists>owner\<in>set (h_ephemerons h). \<exists>t. fires kind h M owner v t \<and> traceable kind h t \<and> t \<notin> M"
    "P = [] \<longrightarrow> (\<forall>owner\<in>set (h_ephemerons h). \<forall>v t. \<not> fires kind h M owner v t)"
    by auto
  have push: "\<forall>v\<in>set P. current_slot h v \<and> slot_index v \<in> traced kind h roots \<and> slot_index v \<notin> M"
    using P(3) fires_traced [OF wf R] by blast
  have inv: "marking.search_inv kind h roots Q M (set P)"
    using marking.search_push [OF less.prems, of "set P"] push by simp
  obtain M1 where d: "drain_mark_worklist kind (with_marks h M, P) = (Inr (), (with_marks h M1, []))"
    "M \<subseteq> M1" "marking.search_inv kind h roots Q M1 {}"
    using drain_search [OF wf _ inv] push by blast
  show ?case
  proof (cases "P = []")
    case True
    have "drain_mark_worklist kind (with_marks h M, []) = (Inr (), (with_marks h M, []))"
      by (subst drain_mark_worklist.simps) simp
    then have "process_ephemeron_fixpoint kind (with_marks h M, []) = (Inr (), (with_marks h M, []))"
      using p P(1,2) True by (subst process_ephemeron_fixpoint.simps) simp
    then show ?thesis using less.prems P(4) True by blast
  next
    case False
    then obtain v where v: "v \<in> set P" by fastforce
    then obtain owner t where t: "owner \<in> set (h_ephemerons h)" "fires kind h M owner v t" "traceable kind h t"
      using P(3) by blast
    have occ: "t \<in> occupied_slots h" "t \<notin> M"
      using current_slot_holds push v fires_traced(1) [OF wf R t(1,2)]
      by (auto simp: occupied_slots_def)
    moreover have "t \<in> M1"
    proof -
      obtain M2 where "with_marks h M1 = with_marks h M2" "accounted kind h M2 {} v"
        using drain_returns [OF d(1)] v by auto
      then have "t \<in> marked_slots (with_marks h M1)"
        using fires_traced [OF wf R t(1,2)] t(3) wf occ
        by (auto simp: accounted_covered marking.covered_def marked_slots_with_marks)
      then show ?thesis by (simp add: marked_slots_with_marks)
    qed
    ultimately have "card (occupied_slots h - M1) < card (occupied_slots h - M)"
      using d(2) by (intro psubset_card_mono finite_Diff finite_occupied) auto
    from less.hyps [OF this d(3)] show ?thesis
      using p P(1,2) d(1) False by (subst process_ephemeron_fixpoint.simps) simp
  qed
qed

lemma enqueue_all:
  assumes wf: "heap_wf h" and "\<forall>v\<in>set vs. valid_ref h v"
    and inv: "marking.search_inv kind h roots Q M (set W)"
    and target: "\<And>i. i \<in> ids_of vs \<Longrightarrow> traceable kind h (slot_index i) \<Longrightarrow> slot_index i \<in> traced kind h roots"
  shows "\<exists>P. sx_iter (enqueue_mark_value kind) vs (with_marks h M, W) = (Inr (), (with_marks h M, P @ W)) \<and>
    set P \<subseteq> ids_of vs \<and> marking.search_inv kind h roots (ids_of vs \<union> Q) M (set (P @ W))"
proof -
  obtain r h1 W1 where it: "sx_iter (enqueue_mark_value kind) vs (with_marks h M, W) = (r, (h1, W1))"
    by (metis prod_cases3)
  note i = iter_enqueue [OF it]
  have "\<forall>i\<in>ids_of vs. \<exists>s. checked_slot i h = Inr s"
    using assms(2) by (fastforce simp: ids_of_def)
  with i have r: "r = Inr ()" by blast
  obtain P where P: "W1 = P @ W" "set P \<subseteq> ids_of vs" using i by blast
  have "marking.search_inv kind h roots Q M (set P \<union> set W)"
    using marking.search_push [OF inv, of "set P"] target P(2) by blast
  then have "marking.search_inv kind h roots (ids_of vs \<union> Q) M (set (P @ W))"
    using i r P(1) wf by (intro marking.search_require) (auto simp: accounted_covered)
  with it i r P show ?thesis by auto
qed

lemma enqueue_remembered:
  assumes wf: "heap_wf h" and "set rs \<subseteq> set (h_remembered_set h)"
    and "marking.search_inv Minor h roots Q M (set W)" and "\<forall>i\<in>set W. current_slot h i"
  shows "\<exists>P. sx_iter enqueue_remembered_object rs (with_marks h M, W) =
      (Inr (), (with_marks h M, P @ W)) \<and> (\<forall>i\<in>set P. current_slot h i) \<and>
    marking.search_inv Minor h roots ((\<Union>r\<in>set rs. field_ids h (slot_index r)) \<union> Q) M (set (P @ W))"
  using assms(2-4)
proof (induction rs arbitrary: W Q)
  case Nil
  then show ?case by (intro exI [of _ "[]"]) (simp add: sx_return_def)
next
  case (Cons r rs)
  have cur: "current_slot h r" and old: "o_generation (object_at h (slot_index r)) = Old"
    using Cons.prems(1) heap_wfD(6) [OF wf] by (auto simp: remembered_ok_def)
  let ?x = "object_at h (slot_index r)"
  note x = current_slot_holds [OF cur]
  note f = heap_wf_fields [OF wf x]
  have vis: "visit_reference_fields_for_lifo_marking (object_at (with_marks h M) (slot_index r)) =
      Inr (rev (reference_fields ?x))"
    using f(1) by (simp add: object_at_with_marks [OF x] lifo_visit_Inr_iff)
  obtain P where P: "sx_iter (enqueue_mark_value Minor) (rev (reference_fields ?x)) (with_marks h M, W) =
      (Inr (), (with_marks h M, P @ W))" "set P \<subseteq> ids_of (rev (reference_fields ?x))"
    "marking.search_inv Minor h roots (ids_of (rev (reference_fields ?x)) \<union> Q) M (set (P @ W))"
  proof -
    have "\<forall>v\<in>set (rev (reference_fields ?x)). valid_ref h v"
      using f(3) by (auto simp: valid_ref_def ids_of_def)
    moreover have "slot_index i \<in> traced Minor h roots"
      if "i \<in> ids_of (rev (reference_fields ?x))" "traceable Minor h (slot_index i)" for i
      using that Cons.prems(1) f(2) by (intro traced.remembered [of _ r]) auto
    ultimately show thesis
      using enqueue_all [OF wf _ Cons.prems(2)] that by metis
  qed
  have "\<forall>i\<in>set (P @ W). current_slot h i" using P(2) f(3) Cons.prems(3) by auto
  then obtain P' where P': "sx_iter enqueue_remembered_object rs (with_marks h M, P @ W) =
      (Inr (), (with_marks h M, P' @ P @ W))" "\<forall>i\<in>set P'. current_slot h i"
    "marking.search_inv Minor h roots ((\<Union>r\<in>set rs. field_ids h (slot_index r)) \<union>
      (ids_of (rev (reference_fields ?x)) \<union> Q)) M (set (P' @ P @ W))"
    using Cons.IH [OF _ P(3)] Cons.prems(1) by auto
  have step: "enqueue_remembered_object r (with_marks h M, W) = (Inr (), (with_marks h M, P @ W))"
    using cur x old vis P(1) by (simp add: enqueue_remembered_object_def sx_defs)
  show ?case
    unfolding sx_iter_simp step
    using P' f(2,3) P(2)
    by (intro exI [of _ "P' @ P"]) (auto simp: Un_ac)
qed

text \<open>A finished search in which no ephemeron fires has found exactly the traced objects.\<close>

definition required_ids :: "collection_kind \<Rightarrow> gcheap \<Rightarrow> val list \<Rightarrow> object_id set" where
  "required_ids kind h roots = (if kind = Minor
     then (\<Union>r\<in>set (h_remembered_set h). field_ids h (slot_index r)) \<union> ids_of roots else ids_of roots)"

lemma finished_search_traced:
  assumes wf: "heap_wf h" and inv: "marking.search_inv kind h roots (required_ids kind h roots) M {}"
    and quiet: "\<forall>owner\<in>set (h_ephemerons h). \<forall>v t. \<not> fires kind h M owner v t"
  shows "M = traced kind h roots"
proof
  show "M \<subseteq> traced kind h roots" using marking.search_done(1) [OF inv] .
  show "traced kind h roots \<subseteq> M"
  proof
    fix s assume "s \<in> traced kind h roots"
    then show "s \<in> M"
    proof induction
      case (root i)
      then show ?case by (intro marking.search_done(2) [OF inv]) (auto simp: ids_of_def required_ids_def)
    next
      case (remembered r i)
      then show ?case by (intro marking.search_done(2) [OF inv]) (auto simp: required_ids_def)
    next
      case (field s i)
      then show ?case by (intro marking.search_done(3) [OF inv])
    next
      case (ephemeron owner x k v)
      obtain s y where o: "checked_slot owner h = Inr s" "holds h s y"
        "\<And>k. o_ephemeron_key y = VObject k \<Longrightarrow> \<exists>ks. checked_slot k h = Inr ks"
        "\<And>v. o_ephemeron_value_is_ref y \<Longrightarrow> o_ephemeron_value y = VObject v \<Longrightarrow> \<exists>t. checked_slot v h = Inr t"
        using ephemerons_ok_checks [OF wf ephemeron.hyps(1)] by (auto simp: ephemeron_checks_def)
      have s: "s = slot_index owner" using o(1) wf by (simp add: heap_wf_slots)
      then have y: "y = x" using o(2) ephemeron.hyps(2) by (simp add: holds_object_at)
      obtain ks t where kt: "checked_slot k h = Inr ks" "ks = slot_index k" "checked_slot v h = Inr t" "t = slot_index v"
        using o(3,4) ephemeron.hyps y wf by (auto simp: heap_wf_slots)
      have "live_with kind h M s" "live_with kind h M ks"
        using ephemeron.IH ephemeron.hyps s kt by (auto simp: live_with_def)
      then have "live_with kind h M t"
        using quiet ephemeron.hyps o(1,2) y kt unfolding fires_def by blast
      then show ?case
        using kt ephemeron.hyps by (auto simp: live_with_def traceable_def slot_has_generation_def split: option.splits)
    qed
  qed
qed

text \<open>
  On a well-formed heap marking never throws, and marks exactly the objects reachable from the
  roots by strong references and live ephemerons: the minor collection those that are young.
\<close>

lemma mark_live_objects_correct:
  assumes wf: "heap_wf h" and clear: "marks_clear h" and roots: "roots_valid h extra"
  shows "\<exists>M. mark_live_objects kind extra (h, []) = (Inr (), (with_marks h M, [])) \<and>
    M = traced kind h (collection_roots h extra)"
proof -
  let ?roots = "collection_roots h extra"
  let ?Q = "ids_of ?roots"
  let ?Qm = "if kind = Minor then (\<Union>r\<in>set (h_remembered_set h). field_ids h (slot_index r)) \<union> ?Q else ?Q"
  have start: "h = with_marks h {}" using clear by (simp add: marks_clear_with_marks)
  obtain P where P: "sx_iter (enqueue_mark_value kind) ?roots (with_marks h {}, []) =
      (Inr (), (with_marks h {}, P))" "set P \<subseteq> ?Q" "marking.search_inv kind h ?roots ?Q {} (set P)"
    using enqueue_all [OF wf, of ?roots kind ?roots "{}" "{}" "[]"] roots marking.search_start
    by (auto simp: roots_valid_def ids_of_def intro: traced.root)
  have curP: "\<forall>i\<in>set P. current_slot h i"
    using P(2) roots by (fastforce simp: roots_valid_def ids_of_def)
  obtain W where W: "sx_when (kind = Minor) enqueue_young_references_from_remembered_set (with_marks h {}, P) =
      (Inr (), (with_marks h {}, W))" "\<forall>i\<in>set W. current_slot h i"
    "marking.search_inv kind h ?roots ?Qm {} (set W)"
  proof (cases "kind = Minor")
    case True
    with P(3) have "marking.search_inv Minor h ?roots ?Q {} (set P)" by simp
    from enqueue_remembered [OF wf order_refl this curP]
    obtain P' where P': "sx_iter enqueue_remembered_object (h_remembered_set h) (with_marks h {}, P) =
        (Inr (), (with_marks h {}, P' @ P))" "\<forall>i\<in>set P'. current_slot h i"
      "marking.search_inv Minor h ?roots ?Qm {} (set (P' @ P))"
      using True by auto
    show thesis
    proof (rule that)
      show "sx_when (kind = Minor) enqueue_young_references_from_remembered_set (with_marks h {}, P) =
          (Inr (), (with_marks h {}, P' @ P))"
        using True P'(1)
        by (simp add: sx_when_def enqueue_young_references_from_remembered_set_def sx_bind_def sx_gets_def)
      show "\<forall>i\<in>set (P' @ P). current_slot h i" using P'(2) curP by auto
      show "marking.search_inv kind h ?roots ?Qm {} (set (P' @ P))" using P'(3) True by simp
    qed
  next
    case False
    with P(3) curP that show thesis by (auto simp: sx_when_def sx_return_def)
  qed
  obtain M1 where d: "drain_mark_worklist kind (with_marks h {}, W) = (Inr (), (with_marks h M1, []))"
    "marking.search_inv kind h ?roots ?Qm M1 {}"
    using drain_search [OF wf W(2,3)] by blast
  obtain M where f: "process_ephemeron_fixpoint kind (with_marks h M1, []) = (Inr (), (with_marks h M, []))"
    "marking.search_inv kind h ?roots ?Qm M {}"
    "\<forall>owner\<in>set (h_ephemerons h). \<forall>v t. \<not> fires kind h M owner v t"
    using fixpoint_search [OF wf d(2)] by blast
  have "mark_live_objects kind extra (with_marks h {}, []) = (Inr (), (with_marks h M, []))"
    using P(1) W(1) d(1) f(1)
    by (simp add: mark_live_objects_def sx_then_def sx_bind_def sx_gets_def collection_roots_def)
  moreover have "M = traced kind h ?roots"
    by (rule finished_search_traced [OF wf _ f(3)]) (use f(2) in \<open>simp add: required_ids_def\<close>)
  ultimately show ?thesis using start by auto
qed

end
