(* ===== verification/GC_Move.thy ===== *)
theory GC_Move
  imports GC_Mark
begin

text \<open>
  The moving half of a collection (\<open>src/gc/heap.cpp\<close>): sliding compaction of the live
  objects, rewriting of every root and reference field through the forwarding table, and the
  processing of weak references, the intern table, ephemerons and the remembered set.

  Roots are rewritten in place: when the rewriting throws, the roots before the failing one
  stay rewritten, which \<open>rewrite_all\<close> keeps.
\<close>

definition msg_copy_zero :: string where
  "msg_copy_zero = ''compaction copy accounting received zero logical slots''"
definition msg_compaction_cursor :: string where
  "msg_compaction_cursor = ''compaction cursor exceeded heap storage capacity''"
definition msg_missing_forwarding :: string where
  "msg_missing_forwarding = ''live object reference missing compaction forwarding entry''"
definition msg_weak_owner_missing :: string where
  "msg_weak_owner_missing = ''weak registry owner missing from movement forwarding result''"
definition msg_weak_target_value :: string where
  "msg_weak_target_value = ''weak target processing saw a non-reference target value''"
definition msg_weak_move_order :: string where
  "msg_weak_move_order = ''weak registry movement did not preserve strict heap-slot order''"
definition msg_intern_omitted :: string where
  "msg_intern_omitted = ''all-live movement omitted an intern-table canonical''"
definition msg_ephemeron_invalid_cleared :: string where
  "msg_ephemeron_invalid_cleared = ''invalid cleared ephemeron during movement''"
definition msg_ephemeron_value_missing :: string where
  "msg_ephemeron_value_missing = ''active ephemeron value missing forwarding entry''"
definition msg_remembered_insert :: string where
  "msg_remembered_insert = ''remembered-set insertion attempted for a non-old object''"
definition msg_promotion_scan :: string where
  "msg_promotion_scan = ''collector promotion edge scan did not name an installed old object''"

subsection \<open>Sliding compaction\<close>

record compaction_result =
  r_forwarding :: forwarding_table
  r_objects :: "gcobj option list"
  r_generations :: "u32 list"
  r_promoted_slots :: "nat list"

text \<open>\<open>record_compaction_copy\<close> without its counters.\<close>

definition record_compaction_copy :: "nat \<Rightarrow> exn + unit" where
  "record_compaction_copy copied_slots = ethrow_if (copied_slots = 0) (Logic_error msg_copy_zero)"

definition survives :: "collection_kind \<Rightarrow> gcobj \<Rightarrow> bool" where
  "survives kind x = (if kind = Major then o_marked x else o_generation x = Old \<or> o_marked x)"

definition moved_copy :: "gcobj \<Rightarrow> gcobj" where
  "moved_copy x = (let y = x\<lparr>o_marked := False\<rparr> in
     if o_generation x = Young then y\<lparr>o_generation := Old\<rparr> else y)"

definition compact_slot :: "collection_kind \<Rightarrow> gcheap \<Rightarrow> nat \<Rightarrow> compaction_result \<times> nat \<Rightarrow>
    exn + compaction_result \<times> nat" where
  "compact_slot kind h old_slot st = (case (h_objects h ! old_slot, st) of
       (None, _) \<Rightarrow> Inr st
     | (Some x, (res, next_live_slot)) \<Rightarrow>
        if \<not> survives kind x then Inr st
        else let moved = moved_copy x; required_slots = storage_slot_count moved;
            gens = r_generations res in
          ethen (ethrow_if (required_slots \<noteq> storage_slot_count x) Abort)
          (ethen (record_compaction_copy required_slots)
          (ethen (ethrow_if (next_live_slot + required_slots > length (r_objects res))
            (Logic_error msg_compaction_cursor))
          (ebind (if old_slot \<noteq> next_live_slot
              then ebind (generation_for_new_base (gens ! next_live_slot))
                (\<lambda>g. Inr (gens[next_live_slot := g]))
              else Inr gens) (\<lambda>gens'.
           Inr (res\<lparr>
               r_forwarding := (r_forwarding res)[old_slot :=
                 Some (object_id_at next_live_slot (gens' ! next_live_slot))],
               r_objects := (r_objects res)[next_live_slot := Some moved],
               r_generations := gens',
               r_promoted_slots := r_promoted_slots res @
                 (if o_generation x = Young then [next_live_slot] else [])\<rparr>,
             next_live_slot + required_slots))))))"

definition compact_live_objects :: "collection_kind \<Rightarrow> gcheap \<Rightarrow> exn + compaction_result" where
  "compact_live_objects kind h =
     ebind (efold (compact_slot kind h) [0..<length (h_objects h)]
       (\<lparr>r_forwarding = replicate (length (h_objects h)) None,
         r_objects = replicate (length (h_objects h)) None,
         r_generations = h_generations h, r_promoted_slots = []\<rparr>, 0)) (\<lambda>(res, _). Inr res)"

subsection \<open>Rewriting\<close>

text \<open>\<open>forwarding[slot]\<close> where it has a value.\<close>

definition forwarded :: "forwarding_table \<Rightarrow> nat \<Rightarrow> object_id option" where
  "forwarded fwd slot = (if slot < length fwd then fwd ! slot else None)"

definition rewrite_value :: "gcheap \<Rightarrow> forwarding_table \<Rightarrow> val \<Rightarrow> exn + val" where
  "rewrite_value h fwd v = (if \<not> is_object v then Inr v
     else ebind (as_object v) (\<lambda>i. ebind (checked_slot i h) (\<lambda>slot.
       case forwarded fwd slot of None \<Rightarrow> Inl (Logic_error msg_missing_forwarding)
       | Some j \<Rightarrow> value_object j)))"

fun rewrite_all :: "(val \<Rightarrow> exn + val) \<Rightarrow> val list \<Rightarrow> (exn + unit) \<times> val list" where
  "rewrite_all f [] = (Inr (), [])"
| "rewrite_all f (v # vs) = (case f v of Inl e \<Rightarrow> (Inl e, v # vs)
     | Inr w \<Rightarrow> (case rewrite_all f vs of (r, ws) \<Rightarrow> (r, w # ws)))"

text \<open>\<open>trace_collection_roots\<close> with a visitor that rewrites the roots it visits.\<close>

definition rewrite_collection_roots :: "(gcheap \<Rightarrow> val \<Rightarrow> exn + val) \<Rightarrow> val list \<Rightarrow>
    (gcheap, val list) sx" where
  "rewrite_collection_roots f extra = (\<lambda>h.
     case rewrite_all (f h) (h_roots h) of
       (Inl e, vs) \<Rightarrow> (Inl e, h\<lparr>h_roots := vs\<rparr>)
     | (Inr _, vs) \<Rightarrow> (case rewrite_all (f h) (map snd (h_handle_roots h)) of
         (r, ws) \<Rightarrow> let h' = h\<lparr>h_roots := vs, h_handle_roots := zip (map fst (h_handle_roots h)) ws\<rparr> in
           (case r of Inl e \<Rightarrow> (Inl e, h')
            | Inr _ \<Rightarrow> (case rewrite_all (f h) extra of
                (Inl e, _) \<Rightarrow> (Inl e, h') | (Inr _, extra') \<Rightarrow> (Inr extra', h')))))"

fun rewrite_slot :: "(val \<Rightarrow> exn + val) \<Rightarrow> gcobj option \<Rightarrow> exn + gcobj option" where
  "rewrite_slot f None = Inr None"
| "rewrite_slot f (Some x) = ebind (update_reference_fields f x) (\<lambda>y. Inr (Some y))"

text \<open>\<open>rewrite_references\<close>: the roots in place, then the fields of the moved objects.\<close>

definition rewrite_references :: "forwarding_table \<Rightarrow> gcobj option list \<Rightarrow> val list \<Rightarrow>
    (gcheap, val list \<times> gcobj option list) sx" where
  "rewrite_references fwd objs extra =
     sx_bind (rewrite_collection_roots (\<lambda>h. rewrite_value h fwd) extra) (\<lambda>extra'.
     sx_bind (sx_reads (\<lambda>h. emap (rewrite_slot (rewrite_value h fwd)) objs)) (\<lambda>objs'.
     sx_return (extra', objs')))"

definition rewrite_remembered_set :: "gcheap \<Rightarrow> forwarding_table \<Rightarrow> exn + object_id list" where
  "rewrite_remembered_set h fwd = efold (\<lambda>remembered rewritten.
     ebind (checked_slot remembered h) (\<lambda>old_slot.
       case forwarded fwd old_slot of None \<Rightarrow> Inr rewritten
       | Some j \<Rightarrow> Inr (if j \<in> set rewritten then rewritten else rewritten @ [j])))
     (h_remembered_set h) []"

text \<open>The weak target of one moved weak reference.\<close>

definition process_weak_target :: "gcheap \<Rightarrow> forwarding_table \<Rightarrow> val \<Rightarrow> exn + val" where
  "process_weak_target h fwd target =
     (if is_object target
      then ebind (as_object target) (\<lambda>i. ebind (checked_slot i h) (\<lambda>slot.
        case forwarded fwd slot of None \<Rightarrow> Inr VNil | Some j \<Rightarrow> value_object j))
      else ethen (ethrow_if (tag target \<noteq> Tag_Nil) (Logic_error msg_weak_target_value)) (Inr target))"

definition process_weak_owner :: "gcheap \<Rightarrow> forwarding_table \<Rightarrow> object_id \<Rightarrow>
    gcobj option list \<times> object_id list \<Rightarrow> exn + gcobj option list \<times> object_id list" where
  "process_weak_owner h fwd old_owner = (\<lambda>(objs, rewritten).
     ebind (checked_slot old_owner h) (\<lambda>old_owner_slot.
     case forwarded fwd old_owner_slot of None \<Rightarrow> Inr (objs, rewritten)
     | Some new_owner \<Rightarrow> let slot = slot_index new_owner in
        ethen (ethrow_if (slot \<ge> length objs \<or> objs ! slot = None \<or> o_kind (the (objs ! slot)) \<noteq> WeakRef)
          (Logic_error msg_weak_owner_missing))
        (let x = the (objs ! slot) in
         ebind (process_weak_target h fwd (o_weak_target x)) (\<lambda>target.
         Inr (objs[slot := Some (x\<lparr>o_weak_target := target\<rparr>)], rewritten @ [new_owner])))))"

definition process_weak_targets :: "gcheap \<Rightarrow> forwarding_table \<Rightarrow> gcobj option list \<Rightarrow>
    exn + gcobj option list \<times> object_id list" where
  "process_weak_targets h fwd moved_objects =
     ebind (efold (process_weak_owner h fwd) (h_weak_refs h) (moved_objects, [])) (\<lambda>(objs, rewritten).
     ethen (eall (\<lambda>i. ethrow_if (slot_index (rewritten ! (i - 1)) \<ge> slot_index (rewritten ! i))
       (Logic_error msg_weak_move_order)) [1..<length rewritten])
     (Inr (objs, rewritten)))"

text \<open>
  \<open>process_intern_table\<close>: the test-only flag, which is reset, keeps dead entries; the result
  is sorted by slot.
\<close>

definition process_intern_entry :: "gcheap \<Rightarrow> forwarding_table \<Rightarrow> bool \<Rightarrow> bool \<Rightarrow> intern_entry \<Rightarrow>
    intern_entry list \<Rightarrow> exn + intern_entry list" where
  "process_intern_entry h fwd skip weak_processing entry rewritten =
     ebind (checked_slot (canonical entry) h) (\<lambda>old_slot.
     case forwarded fwd old_slot of
       Some j \<Rightarrow> Inr (rewritten @ [entry\<lparr>canonical := j\<rparr>])
     | None \<Rightarrow> if skip then Inr (rewritten @ [entry])
         else ethen (ethrow_if (\<not> weak_processing) (Logic_error msg_intern_omitted)) (Inr rewritten))"

definition process_intern_table :: "forwarding_table \<Rightarrow> bool \<Rightarrow> (gcheap, intern_entry list) sx" where
  "process_intern_table fwd weak_processing =
     sx_bind (sx_gets (\<lambda>h. weak_processing \<and> h_skip_next_intern_processing h)) (\<lambda>skip.
     sx_then (sx_when weak_processing (sx_modify (\<lambda>h. h\<lparr>h_skip_next_intern_processing := False\<rparr>)))
     (sx_bind (sx_reads (\<lambda>h. efold (process_intern_entry h fwd skip weak_processing) (h_intern_table h) []))
       (\<lambda>rewritten. sx_return (sort_key (slot_index \<circ> canonical) rewritten))))"

definition process_ephemeron_object :: "gcheap \<Rightarrow> forwarding_table \<Rightarrow> gcobj \<Rightarrow> exn + gcobj" where
  "process_ephemeron_object h fwd x = (let key = o_ephemeron_key x; value = o_ephemeron_value x in
     if \<not> is_object key
     then ethen (ethrow_if (tag key \<noteq> Tag_Nil \<or> tag value \<noteq> Tag_Nil)
       (Logic_error msg_ephemeron_invalid_cleared)) (Inr x)
     else ebind (as_object key) (\<lambda>k. ebind (checked_slot k h) (\<lambda>key_slot.
       case forwarded fwd key_slot of
         None \<Rightarrow> Inr (x\<lparr>o_ephemeron_key := VNil, o_ephemeron_value := VNil\<rparr>)
       | Some destination_key \<Rightarrow> ebind (value_object destination_key) (\<lambda>key'.
           if o_ephemeron_value_is_ref x \<and> is_object value
           then ebind (as_object value) (\<lambda>v. ebind (checked_slot v h) (\<lambda>value_slot.
             case forwarded fwd value_slot of
               None \<Rightarrow> Inl (Logic_error msg_ephemeron_value_missing)
             | Some destination_value \<Rightarrow> ebind (value_object destination_value) (\<lambda>value'.
                 Inr (x\<lparr>o_ephemeron_key := key', o_ephemeron_value := value'\<rparr>))))
           else Inr (x\<lparr>o_ephemeron_key := key'\<rparr>)))))"

definition process_ephemeron_owner :: "gcheap \<Rightarrow> forwarding_table \<Rightarrow> object_id \<Rightarrow>
    gcobj option list \<times> object_id list \<Rightarrow> exn + gcobj option list \<times> object_id list" where
  "process_ephemeron_owner h fwd old_owner = (\<lambda>(objs, rewritten).
     ebind (checked_slot old_owner h) (\<lambda>owner_slot.
     case forwarded fwd owner_slot of None \<Rightarrow> Inr (objs, rewritten)
     | Some new_owner \<Rightarrow> let slot = slot_index new_owner in
        ebind (process_ephemeron_object h fwd (the (objs ! slot))) (\<lambda>x.
        Inr (objs[slot := Some x], rewritten @ [new_owner]))))"

definition process_ephemerons :: "gcheap \<Rightarrow> forwarding_table \<Rightarrow> gcobj option list \<Rightarrow>
    exn + gcobj option list \<times> object_id list" where
  "process_ephemerons h fwd moved_objects =
     efold (process_ephemeron_owner h fwd) (h_ephemerons h) (moved_objects, [])"

subsection \<open>The remembered set after a move\<close>

definition record_remembered_object :: "object_id \<Rightarrow> (gcheap, unit) sx" where
  "record_remembered_object i =
     sx_bind (sx_reads (\<lambda>h. ebind (checked_slot i h) (\<lambda>slot. is_old_slot slot h))) (\<lambda>old.
     sx_then (sx_throw_if (\<not> old) (Logic_error msg_remembered_insert))
     (sx_modify (\<lambda>h. if remembered_set_contains i h then h
        else h\<lparr>h_remembered_set := h_remembered_set h @ [i]\<rparr>)))"

text \<open>The loop that looks for a field naming a young object; it visits every field.\<close>

definition has_young_reference :: "gcheap \<Rightarrow> gcobj \<Rightarrow> exn + bool" where
  "has_young_reference h x = ebind (visit_reference_fields x) (\<lambda>vs.
     efold (\<lambda>v has. if \<not> is_object v then Inr has
       else ebind (as_object v) (\<lambda>i. ebind (checked_slot i h) (\<lambda>slot.
         if has then Inr True else is_young_slot slot h))) vs False)"

definition record_promoted_slot :: "nat \<Rightarrow> (gcheap, unit) sx" where
  "record_promoted_slot slot =
     sx_bind (sx_reads (\<lambda>h. if slot \<ge> length (h_objects h) \<or> h_objects h ! slot = None
         then Inl (Logic_error msg_promotion_scan) else is_old_slot slot h)) (\<lambda>old.
     sx_then (sx_throw_if (\<not> old) (Logic_error msg_promotion_scan))
     (sx_bind (sx_gets (\<lambda>h. id_at h slot)) (\<lambda>owner.
      sx_bind (sx_reads (\<lambda>h. has_young_reference h (object_at h slot))) (\<lambda>young.
      sx_when young (sx_then (record_remembered_object owner)
        (sx_bind (sx_gets (remembered_set_contains owner)) sx_assert))))))"

definition record_promoted_object_edges :: "nat list \<Rightarrow> (gcheap, unit) sx" where
  "record_promoted_object_edges promoted_slots = sx_iter record_promoted_slot promoted_slots"

definition prune_slot :: "gcheap \<Rightarrow> nat \<Rightarrow> object_id list \<Rightarrow> exn + object_id list" where
  "prune_slot h slot pruned = (case h_objects h ! slot of None \<Rightarrow> Inr pruned
     | Some x \<Rightarrow> ebind (is_old_slot slot h) (\<lambda>old.
         if \<not> old then Inr pruned
         else ebind (has_young_reference h x) (\<lambda>young.
           Inr (if young then pruned @ [id_at h slot] else pruned))))"

definition prune_remembered_set :: "(gcheap, unit) sx" where
  "prune_remembered_set =
     sx_bind (sx_reads (\<lambda>h. efold (prune_slot h) [0..<length (h_objects h)] [])) (\<lambda>pruned.
     sx_modify (\<lambda>h. h\<lparr>h_remembered_set := pruned\<rparr>))"

text \<open>
  The part of \<open>collect_impl\<close> and \<open>finish_incremental_marking_impl\<close> after marking, up to the
  validation: compaction, rewriting and the installation of the moved heap.  \<open>installed\<close> is
  what the incremental caller resets along with the installation.
\<close>

definition move_live_objects :: "collection_kind \<Rightarrow> (gcheap \<Rightarrow> gcheap) \<Rightarrow> val list \<Rightarrow> (gcheap, val list) sx" where
  "move_live_objects kind installed extra =
     sx_bind (sx_reads (compact_live_objects kind)) (\<lambda>compacted.
     let fwd = r_forwarding compacted in
     sx_bind (rewrite_references fwd (r_objects compacted) extra) (\<lambda>(extra', objs1).
     sx_bind (sx_reads (\<lambda>h. rewrite_remembered_set h fwd)) (\<lambda>remembered.
     sx_bind (sx_reads (\<lambda>h. process_weak_targets h fwd objs1)) (\<lambda>(objs2, weak_refs).
     sx_bind (process_intern_table fwd True) (\<lambda>interns.
     sx_bind (sx_reads (\<lambda>h. process_ephemerons h fwd objs2)) (\<lambda>(objs3, ephemerons).
     sx_then (sx_modify (\<lambda>h. installed (h\<lparr>h_objects := objs3, h_generations := r_generations compacted,
       h_remembered_set := remembered, h_weak_refs := weak_refs, h_intern_table := interns,
       h_ephemerons := ephemerons\<rparr>)))
     (sx_then (record_promoted_object_edges (r_promoted_slots compacted))
     (sx_then prune_remembered_set
     (sx_return extra')))))))))"

subsection \<open>Destinations\<close>

text \<open>
  \<open>slide h L n\<close> is the total width of the objects of \<open>L\<close> below slot \<open>n\<close>: the slot to which
  sliding compaction moves an object of \<open>L\<close> at \<open>n\<close>.
\<close>

definition slot_width :: "gcheap \<Rightarrow> nat \<Rightarrow> nat" where
  "slot_width h s = storage_slot_count (object_at h s)"

fun slide :: "gcheap \<Rightarrow> nat set \<Rightarrow> nat \<Rightarrow> nat" where
  "slide h L 0 = 0"
| "slide h L (Suc n) = slide h L n + (if n \<in> L then slot_width h n else 0)"

lemma slot_width_pos [simp]: "slot_width h s > 0" "slot_width h s \<noteq> 0"
  using storage_slot_count_pos [of "object_at h s"] by (simp_all add: slot_width_def)

lemma slide_mono: "m \<le> n \<Longrightarrow> slide h L m \<le> slide h L n"
  by (induction n) (auto simp: le_Suc_eq)

lemma slide_step: "s < t \<Longrightarrow> s \<in> L \<Longrightarrow> slide h L s + slot_width h s \<le> slide h L t"
  using slide_mono [of "Suc s" t h L] by simp

lemma slide_less: "s < t \<Longrightarrow> s \<in> L \<Longrightarrow> slide h L s < slide h L t"
  using slide_step [of s t L h] slot_width_pos(1) [of h s] by linarith

lemma slide_less_iff: "s \<in> L \<Longrightarrow> t \<in> L \<Longrightarrow> slide h L s < slide h L t \<longleftrightarrow> s < t"
  by (metis slide_less linorder_neqE_nat less_asym)

lemma slide_inj: "s \<in> L \<Longrightarrow> t \<in> L \<Longrightarrow> slide h L s = slide h L t \<longleftrightarrow> s = t"
  by (metis slide_less linorder_neqE_nat less_irrefl)

lemma slide_bound:
  assumes ok: "layout_ok h" and L: "L \<subseteq> occupied_slots h"
    and "\<And>b. b \<in> L \<Longrightarrow> b < n \<Longrightarrow> b + slot_width h b \<le> e"
  shows "slide h L n \<le> e"
  using assms(3)
proof (induction n arbitrary: e)
  case 0
  then show ?case by simp
next
  case (Suc n)
  show ?case
  proof (cases "n \<in> L")
    case True
    have "slide h L n \<le> n"
    proof (rule Suc.IH)
      fix b assume b: "b \<in> L" "b < n"
      obtain x y where "holds h b x" "holds h n y"
        using subsetD [OF L b(1)] subsetD [OF L True] by (auto simp: occupied_slots_def)
      then show "b + slot_width h b \<le> n"
        using layout_disjoint [OF ok] b(2) by (simp add: slot_width_def holds_object_at)
    qed
    then show ?thesis using True Suc.prems [of n] by simp
  next
    case False
    then show ?thesis using Suc by simp
  qed
qed

lemma slide_le:
  assumes ok: "layout_ok h" and L: "L \<subseteq> occupied_slots h" and s: "s \<in> L"
  shows "slide h L s \<le> s"
proof (rule slide_bound [OF ok L])
  fix b assume b: "b \<in> L" "b < s"
  obtain x y where "holds h b x" "holds h s y"
    using subsetD [OF L b(1)] subsetD [OF L s] by (auto simp: occupied_slots_def)
  then show "b + slot_width h b \<le> s"
    using layout_disjoint [OF ok] b(2) by (simp add: slot_width_def holds_object_at)
qed

lemma slide_total:
  assumes ok: "layout_ok h" and L: "L \<subseteq> occupied_slots h"
  shows "slide h L (length (h_objects h)) \<le> length (h_objects h)"
proof (rule slide_bound [OF ok L])
  fix b assume "b \<in> L"
  then obtain x where "holds h b x" using L by (auto simp: occupied_slots_def)
  then show "b + slot_width h b \<le> length (h_objects h)"
    using ok by (auto simp: layout_ok_def slot_layout_ok_def slot_width_def holds_object_at)
qed

lemma slide_fits:
  assumes "layout_ok h" and "L \<subseteq> occupied_slots h" and "s \<in> L"
  shows "slide h L s + slot_width h s \<le> length (h_objects h)"
proof -
  have "s < length (h_objects h)" using assms(2,3) by (auto simp: occupied_slots_def holds_def)
  then show ?thesis using slide_step [OF _ assms(3), of _ h] slide_total [OF assms(1,2)] by (meson le_trans)
qed

subsection \<open>What compaction computes\<close>

text \<open>
  The result when the slots below \<open>n\<close> have been processed: exactly the objects of \<open>L\<close> below
  \<open>n\<close> are forwarded and copied, and the slots that became the base of a moved object have a
  new generation.
\<close>

definition compacted_upto :: "gcheap \<Rightarrow> nat set \<Rightarrow> nat \<Rightarrow> compaction_result \<Rightarrow> bool" where
  "compacted_upto h L n res \<longleftrightarrow>
     length (r_forwarding res) = length (h_objects h) \<and> length (r_objects res) = length (h_objects h) \<and>
     length (r_generations res) = length (h_objects h) \<and>
     (\<forall>s<length (h_objects h). r_forwarding res ! s = (if s < n \<and> s \<in> L
        then Some (object_id_at (slide h L s) (r_generations res ! slide h L s)) else None)) \<and>
     (\<forall>d<length (h_objects h). \<forall>y. r_objects res ! d = Some y \<longleftrightarrow>
        (\<exists>s<n. s \<in> L \<and> d = slide h L s \<and> y = moved_copy (object_at h s))) \<and>
     (\<forall>s<n. s \<in> L \<longrightarrow> (if slide h L s = s then r_generations res ! s = h_generations h ! s
        else generation_for_new_base (h_generations h ! slide h L s) = Inr (r_generations res ! slide h L s))) \<and>
     (\<forall>d<length (h_objects h). (\<forall>s<n. s \<in> L \<longrightarrow> d \<noteq> slide h L s) \<longrightarrow>
        r_generations res ! d = h_generations h ! d) \<and>
     r_promoted_slots res = map (slide h L) (filter (\<lambda>s. s \<in> L \<and> slot_has_generation Young h s) [0..<n])"

definition survivors :: "collection_kind \<Rightarrow> gcheap \<Rightarrow> nat set" where
  "survivors kind h = {s. \<exists>x. holds h s x \<and> survives kind x}"

lemma survivors_occupied: "survivors kind h \<subseteq> occupied_slots h"
  by (auto simp: survivors_def occupied_slots_def)

lemma moved_copy_eq: "moved_copy x = x\<lparr>o_marked := False, o_generation := Old\<rparr>"
  by (cases "o_generation x") (auto simp: moved_copy_def Let_def)

text \<open>
  Compaction succeeds when no generation is exhausted; and whenever it succeeds, this is its result.
\<close>

lemma compact_scan:
  assumes ok: "layout_ok h" and len: "length (h_generations h) = length (h_objects h)"
    and go: "(\<forall>g\<in>set (h_generations h). g < kMaxGeneration) \<or>
      (\<exists>r. efold (compact_slot kind h) [0..<length (h_objects h)]
       (\<lparr>r_forwarding = replicate (length (h_objects h)) None,
         r_objects = replicate (length (h_objects h)) None,
         r_generations = h_generations h, r_promoted_slots = []\<rparr>, 0) = Inr r)"
    and "n \<le> length (h_objects h)" and L: "L = survivors kind h"
  shows "\<exists>res. efold (compact_slot kind h) [0..<n]
       (\<lparr>r_forwarding = replicate (length (h_objects h)) None,
         r_objects = replicate (length (h_objects h)) None,
         r_generations = h_generations h, r_promoted_slots = []\<rparr>, 0) = Inr (res, slide h L n) \<and>
     compacted_upto h L n res"
  using assms(4)
proof (induction n)
  case 0
  then show ?case using len by (simp add: compacted_upto_def)
next
  case (Suc n)
  let ?N = "length (h_objects h)"
  obtain res where run: "efold (compact_slot kind h) [0..<n]
       (\<lparr>r_forwarding = replicate ?N None, r_objects = replicate ?N None,
         r_generations = h_generations h, r_promoted_slots = []\<rparr>, 0) = Inr (res, slide h L n)"
    and c: "compacted_upto h L n res" using Suc by auto
  show ?case
  proof (cases "n \<in> L")
    case False
    have "compact_slot kind h n (res, slide h L n) = Inr (res, slide h L n)"
      using False Suc.prems by (auto simp: compact_slot_def L survivors_def holds_def split: option.split)
    moreover have "compacted_upto h L (Suc n) res"
      using c False by (auto simp: compacted_upto_def less_Suc_eq)
    ultimately show ?thesis using run False by (simp add: efold_upt_Suc del: upt_Suc)
  next
    case True
    then obtain x where x: "holds h n x" "survives kind x" by (auto simp: L survivors_def)
    have obj: "object_at h n = x" using x(1) by (rule holds_object_at)
    have Locc: "L \<subseteq> occupied_slots h" by (simp add: L survivors_occupied)
    let ?d = "slide h L n" and ?w = "slot_width h n"
    have fits: "?d + ?w \<le> ?N" by (rule slide_fits [OF ok Locc True])
    then have d: "?d < ?N" using slot_width_pos(1) [of h n] by linarith
    have w: "storage_slot_count (moved_copy x) = ?w" by (simp add: moved_copy_eq slot_width_def obj)
    have below: "\<forall>s<n. s \<in> L \<longrightarrow> ?d \<noteq> slide h L s" using slide_less [of _ n L h] by fastforce
    have g0: "r_generations res ! ?d = h_generations h ! ?d"
      using c d below by (auto simp: compacted_upto_def)
    have "n \<noteq> ?d \<Longrightarrow> \<exists>g1. generation_for_new_base (h_generations h ! ?d) = Inr g1"
      using go
    proof
      assume "\<forall>g\<in>set (h_generations h). g < kMaxGeneration"
      then have "h_generations h ! ?d < kMaxGeneration" using d len by simp
      then show ?thesis using generation_for_new_base_ok by blast
    next
      assume move: "n \<noteq> ?d" and "\<exists>r. efold (compact_slot kind h) [0..<?N]
       (\<lparr>r_forwarding = replicate ?N None, r_objects = replicate ?N None,
         r_generations = h_generations h, r_promoted_slots = []\<rparr>, 0) = Inr r"
      moreover have "[0..<?N] = [0..<n] @ n # [Suc n..<?N]"
        using Suc.prems upt_add_eq_append [of 0 n "?N - n"] by (simp add: upt_conv_Cons)
      ultimately obtain st where "compact_slot kind h n (res, ?d) = Inr st"
        using run by (auto simp: efold_append ebind_Inr_iff)
      then show ?thesis
        using x fits w g0 move by (auto simp: compact_slot_def holds_def Let_def ebind_Inr_iff ethen_Inr_iff)
    qed
    then obtain g1 where g1: "n \<noteq> ?d \<Longrightarrow> generation_for_new_base (h_generations h ! ?d) = Inr g1" by blast
    define gens where "gens = (if n \<noteq> ?d then (r_generations res)[?d := g1] else r_generations res)"
    define res' where "res' = res\<lparr>
       r_forwarding := (r_forwarding res)[n := Some (object_id_at ?d (gens ! ?d))],
       r_objects := (r_objects res)[?d := Some (moved_copy x)], r_generations := gens,
       r_promoted_slots := r_promoted_slots res @ (if o_generation x = Young then [?d] else [])\<rparr>"
    have "compact_slot kind h n (res, ?d) = Inr (res', ?d + ?w)"
    proof -
      have "length (r_objects res) = ?N" using c by (simp add: compacted_upto_def)
      moreover have "storage_slot_count x = ?w" by (simp add: slot_width_def obj)
      ultimately show ?thesis
        using x fits w g0 g1 slot_width_pos(1) [of h n]
        by (simp add: compact_slot_def holds_def Let_def record_compaction_copy_def gens_def res'_def)
    qed
    then have "efold (compact_slot kind h) [0..<Suc n]
       (\<lparr>r_forwarding = replicate ?N None, r_objects = replicate ?N None,
         r_generations = h_generations h, r_promoted_slots = []\<rparr>, 0) = Inr (res', slide h L (Suc n))"
      using run True by (simp add: efold_upt_Suc del: upt_Suc)
    moreover have "compacted_upto h L (Suc n) res'"
    proof -
      have gens: "length gens = ?N" "\<And>e. e \<noteq> ?d \<Longrightarrow> gens ! e = r_generations res ! e"
        "if ?d = n then gens ! n = h_generations h ! n
         else generation_for_new_base (h_generations h ! ?d) = Inr (gens ! ?d)"
        using c d g0 g1 by (auto simp: gens_def compacted_upto_def)
      have other: "s < n \<Longrightarrow> s \<in> L \<Longrightarrow> slide h L s \<noteq> ?d" for s using below by metis
      show ?thesis
        unfolding compacted_upto_def
      proof (intro conjI)
        show "length (r_forwarding res') = ?N" "length (r_objects res') = ?N" "length (r_generations res') = ?N"
          using c gens(1) by (simp_all add: res'_def compacted_upto_def)
        show "\<forall>s<?N. r_forwarding res' ! s = (if s < Suc n \<and> s \<in> L
            then Some (object_id_at (slide h L s) (r_generations res' ! slide h L s)) else None)"
        proof (intro allI impI)
          fix s assume s: "s < ?N"
          have "r_forwarding res ! s = (if s < n \<and> s \<in> L
              then Some (object_id_at (slide h L s) (r_generations res ! slide h L s)) else None)"
            using c s by (simp add: compacted_upto_def)
          moreover have "length (r_forwarding res) = ?N" using c by (simp add: compacted_upto_def)
          ultimately show "r_forwarding res' ! s = (if s < Suc n \<and> s \<in> L
              then Some (object_id_at (slide h L s) (r_generations res' ! slide h L s)) else None)"
            using s True gens(2) [OF other] Suc.prems by (auto simp: res'_def nth_list_update less_Suc_eq)
        qed
        show "\<forall>e<?N. \<forall>y. r_objects res' ! e = Some y \<longleftrightarrow>
            (\<exists>s<Suc n. s \<in> L \<and> e = slide h L s \<and> y = moved_copy (object_at h s))"
        proof (intro allI impI)
          fix e y assume e: "e < ?N"
          have "r_objects res ! e = Some y \<longleftrightarrow>
              (\<exists>s<n. s \<in> L \<and> e = slide h L s \<and> y = moved_copy (object_at h s))"
            using c e by (simp add: compacted_upto_def)
          moreover have "r_objects res' ! e = (if e = ?d then Some (moved_copy x) else r_objects res ! e)"
            using c d by (auto simp: res'_def compacted_upto_def nth_list_update)
          ultimately show "r_objects res' ! e = Some y \<longleftrightarrow>
              (\<exists>s<Suc n. s \<in> L \<and> e = slide h L s \<and> y = moved_copy (object_at h s))"
            using other True obj by (auto simp: less_Suc_eq)
        qed
        show "\<forall>s<Suc n. s \<in> L \<longrightarrow> (if slide h L s = s then r_generations res' ! s = h_generations h ! s
            else generation_for_new_base (h_generations h ! slide h L s) = Inr (r_generations res' ! slide h L s))"
        proof (intro allI impI)
          fix s assume s: "s < Suc n" "s \<in> L"
          have r: "r_generations res' = gens" by (simp add: res'_def)
          show "if slide h L s = s then r_generations res' ! s = h_generations h ! s
            else generation_for_new_base (h_generations h ! slide h L s) = Inr (r_generations res' ! slide h L s)"
          proof (cases "s = n")
            case False
            then have "s < n" using s by simp
            then have "if slide h L s = s then r_generations res ! s = h_generations h ! s
              else generation_for_new_base (h_generations h ! slide h L s) = Inr (r_generations res ! slide h L s)"
              using c s(2) by (simp add: compacted_upto_def)
            moreover have "gens ! slide h L s = r_generations res ! slide h L s"
              by (rule gens(2) [OF other [OF \<open>s < n\<close> s(2)]])
            ultimately show ?thesis unfolding r by (auto split: if_splits)
          qed (use gens(3) r in simp)
        qed
        show "\<forall>e<?N. (\<forall>s<Suc n. s \<in> L \<longrightarrow> e \<noteq> slide h L s) \<longrightarrow> r_generations res' ! e = h_generations h ! e"
          using c gens(2) True by (auto simp: res'_def compacted_upto_def less_Suc_eq)
        show "r_promoted_slots res' = map (slide h L) (filter (\<lambda>s. s \<in> L \<and> slot_has_generation Young h s) [0..<Suc n])"
          using c True x(1) by (auto simp: res'_def compacted_upto_def slot_has_generation_def holds_def)
      qed
    qed
    ultimately show ?thesis by blast
  qed
qed

lemma compact_live_objects_ok:
  assumes "layout_ok h" and "length (h_generations h) = length (h_objects h)"
    and go: "(\<forall>g\<in>set (h_generations h). g < kMaxGeneration) \<or> (\<exists>r. compact_live_objects kind h = Inr r)"
  shows "\<exists>res. compact_live_objects kind h = Inr res \<and>
    compacted_upto h (survivors kind h) (length (h_objects h)) res"
  using compact_scan [OF assms(1,2) _ order_refl refl, of kind] go
  by (auto simp: compact_live_objects_def ebind_Inr_iff)

subsection \<open>Marks do not change the layout\<close>

lemma string_bytes_with_marks [simp]: "string_bytes i (with_marks h M) = string_bytes i h"
proof (cases "checked_slot i h")
  case (Inr s)
  obtain x where "holds h s x" using checked_slot_occupied(3) [OF Inr] by blast
  then show ?thesis
    using Inr by (simp add: string_bytes_def checked_string_def checked_kind_def object_at_with_marks
        holds_object_at ethrow_if_def ethen_def ebind_def split: sum.split)
qed (simp add: string_bytes_def checked_string_def checked_kind_def)

lemma map_key_hash_with_marks [simp]: "map_key_hash (with_marks h M) = map_key_hash h"
proof
  fix v show "map_key_hash (with_marks h M) v = map_key_hash h v" by (cases v) simp_all
qed

lemma layout_ok_with_marks [simp]: "layout_ok (with_marks h M) = layout_ok h"
proof -
  have "slot_layout_ok (with_marks h M) s (x\<lparr>o_marked := b\<rparr>) = slot_layout_ok h s x"
    if "holds h s x" for s x b
  proof -
    have "h_objects (with_marks h M) ! t = None \<longleftrightarrow> h_objects h ! t = None"
      if "t < length (h_objects h)" for t
      using that by (simp add: with_marks_nth)
    then show ?thesis
      by (auto simp: slot_layout_ok_def validate_map_index_def)
  qed
  then show ?thesis unfolding layout_ok_def holds_with_marks by blast
qed

lemma slot_width_with_marks [simp]:
  "s \<in> occupied_slots h \<Longrightarrow> slot_width (with_marks h M) s = slot_width h s"
  by (auto simp: slot_width_def occupied_slots_def object_at_with_marks holds_object_at)

lemma slide_with_marks: "L \<subseteq> occupied_slots h \<Longrightarrow> slide (with_marks h M) L n = slide h L n"
  by (induction n) auto

lemma compacted_upto_with_marks:
  assumes L: "L \<subseteq> occupied_slots h"
  shows "compacted_upto (with_marks h M) L n res = compacted_upto h L n res"
proof -
  have obj: "s \<in> L \<Longrightarrow> moved_copy (object_at (with_marks h M) s) = moved_copy (object_at h s)" for s
    using L by (auto simp: occupied_slots_def moved_copy_eq object_at_with_marks holds_object_at)
  have young: "(s \<in> L \<and> slot_has_generation Young (with_marks h M) s) =
      (s \<in> L \<and> slot_has_generation Young h s)" for s
    using L by (auto simp: occupied_slots_def holds_def)
  show ?thesis
    unfolding compacted_upto_def slide_with_marks [OF L] young with_marks_frame
    by (simp add: obj cong: conj_cong)
qed

definition kept_slots :: "collection_kind \<Rightarrow> gcheap \<Rightarrow> nat set \<Rightarrow> nat set" where
  "kept_slots kind h M = {s \<in> occupied_slots h. live_with kind h M s}"

lemma survivors_with_marks: "survivors kind (with_marks h M) = kept_slots kind h M"
proof -
  have "survives kind (x\<lparr>o_marked := (s \<in> M)\<rparr>) = live_with kind h M s" if "holds h s x" for s x
    using that by (cases kind) (auto simp: survives_def live_with_def slot_has_generation_def holds_def)
  then show ?thesis
    by (auto simp: survivors_def kept_slots_def occupied_slots_def holds_with_marks)
qed

lemma compact_marked_ok:
  assumes "heap_wf h" and "(\<forall>g\<in>set (h_generations h). g < kMaxGeneration) \<or>
      (\<exists>r. compact_live_objects kind (with_marks h M) = Inr r)"
  shows "\<exists>res. compact_live_objects kind (with_marks h M) = Inr res \<and>
    compacted_upto h (kept_slots kind h M) (length (h_objects h)) res"
  using compact_live_objects_ok [of "with_marks h M" kind] assms heap_wfD [OF assms(1)]
    compacted_upto_with_marks [of "kept_slots kind h M" h M]
  by (auto simp: survivors_with_marks generations_ok_def kept_slots_def)

subsection \<open>The survivors are closed\<close>

text \<open>
  No survivor refers to an object that is dropped: neither by a strong reference, nor as the
  value of an ephemeron whose key survives.
\<close>

definition move_closed :: "gcheap \<Rightarrow> nat set \<Rightarrow> bool" where
  "move_closed h L \<longleftrightarrow> (\<forall>s\<in>L. \<forall>i\<in>field_ids h s. slot_index i \<in> L) \<and>
     (\<forall>s\<in>L. \<forall>k v. o_kind (object_at h s) = Ephemeron \<longrightarrow> o_ephemeron_key (object_at h s) = VObject k \<longrightarrow>
        slot_index k \<in> L \<longrightarrow> o_ephemeron_value_is_ref (object_at h s) \<longrightarrow>
        o_ephemeron_value (object_at h s) = VObject v \<longrightarrow> slot_index v \<in> L)"

lemma current_occupied: "current_slot h i \<Longrightarrow> slot_index i \<in> occupied_slots h"
  using current_slot_holds by (auto simp: occupied_slots_def)

lemma kept_if_traced_when_traceable:
  assumes "current_slot h i" and "traceable kind h (slot_index i) \<Longrightarrow> slot_index i \<in> M"
  shows "slot_index i \<in> kept_slots kind h M"
  using assms current_occupied [OF assms(1)] not_live_traceable [OF current_slot_holds [OF assms(1)], of kind M]
  by (auto simp: kept_slots_def)

lemma kept_closed:
  assumes wf: "heap_wf h" and M: "M = traced kind h roots"
  shows "move_closed h (kept_slots kind h M)"
proof -
  have field: "slot_index i \<in> kept_slots kind h M"
    if s: "s \<in> kept_slots kind h M" and i: "i \<in> field_ids h s" for s i
  proof -
    obtain x where x: "holds h s x" "live_with kind h M s"
      using s by (auto simp: kept_slots_def occupied_slots_def)
    have cur: "current_slot h i" using heap_wf_fields(2,3) [OF wf x(1)] i by blast
    show ?thesis
    proof (rule kept_if_traced_when_traceable [OF cur])
      assume tr: "traceable kind h (slot_index i)"
      consider "s \<in> M" | "kind = Minor" "slot_has_generation Old h s" using x(2) by (auto simp: live_with_def)
      then show "slot_index i \<in> M"
      proof cases
        case 1
        then show ?thesis using i tr by (auto simp: M intro: traced.field)
      next
        case 2
        have gen: "o_generation x = Old" using 2(2) x(1) by (simp add: slot_has_generation_def holds_def)
        have "o_generation (object_at h (slot_index i)) = Young"
          using tr 2(1) current_slot_holds [OF cur] by (simp add: traceable_def slot_has_generation_def holds_def)
        then have "id_at h s \<in> set (h_remembered_set h)"
          using heap_wfD(6) [OF wf] x(1) gen i heap_wf_fields(2) [OF wf x(1)]
          by (auto simp: remembered_ok_def ids_of_def)
        moreover have "slot_index (id_at h s) = s"
          by (rule id_at_slot_index [OF heap_wfD(1) [OF wf] holds_less [OF x(1)]])
        ultimately show ?thesis using 2(1) i tr by (auto simp: M intro: traced.remembered)
      qed
    qed
  qed
  have eph: "slot_index v \<in> kept_slots kind h M"
    if s: "s \<in> kept_slots kind h M" and k: "o_kind (object_at h s) = Ephemeron"
      "o_ephemeron_key (object_at h s) = VObject k" "slot_index k \<in> kept_slots kind h M"
      "o_ephemeron_value_is_ref (object_at h s)" "o_ephemeron_value (object_at h s) = VObject v" for s k v
  proof -
    obtain x where x: "holds h s x" "live_with kind h M s"
      using s by (auto simp: kept_slots_def occupied_slots_def)
    have "s \<in> set (kind_slots Ephemeron h)"
      using x(1) k(1) by (auto simp: kind_slots_def is_kind_at_def holds_def object_at_def)
    then have good: "ephemeron_slot_good h s" and reg: "id_at h s \<in> set (h_ephemerons h)"
      using heap_wfD(9) [OF wf] by (auto simp: ephemerons_ok_def)
    have cur: "current_slot h v" using good k by (simp add: ephemeron_slot_good_def)
    have slot: "slot_index (id_at h s) = s"
      by (rule id_at_slot_index [OF heap_wfD(1) [OF wf] holds_less [OF x(1)]])
    show ?thesis
    proof (rule kept_if_traced_when_traceable [OF cur])
      assume "traceable kind h (slot_index v)"
      then show "slot_index v \<in> M"
        unfolding M
        by (rule traced.ephemeron [OF reg, of "object_at h s" kind roots k v, rotated -1])
          (use s x(2) k slot in \<open>auto simp: kept_slots_def live_with_def M\<close>)
    qed
  qed
  show ?thesis unfolding move_closed_def using field eph by blast
qed

lemma kept_roots:
  assumes "roots_valid h extra" and "M = traced kind h (collection_roots h extra)"
    and "VObject i \<in> set (collection_roots h extra)"
  shows "slot_index i \<in> kept_slots kind h M"
proof (rule kept_if_traced_when_traceable)
  show "current_slot h i" using assms(1,3) by (force simp: roots_valid_def)
  show "traceable kind h (slot_index i) \<Longrightarrow> slot_index i \<in> M"
    using assms by (auto intro: traced.root)
qed

subsection \<open>Forwarding\<close>

definition relocation :: "gcheap \<Rightarrow> nat set \<Rightarrow> compaction_result \<Rightarrow> bool" where
  "relocation h L res \<longleftrightarrow> heap_wf h \<and> L \<subseteq> occupied_slots h \<and> move_closed h L \<and>
     compacted_upto h L (length (h_objects h)) res"

definition moved_id :: "gcheap \<Rightarrow> nat set \<Rightarrow> compaction_result \<Rightarrow> nat \<Rightarrow> object_id" where
  "moved_id h L res s = object_id_at (slide h L s) (r_generations res ! slide h L s)"

text \<open>The image of a strong reference, and of a weak one.\<close>

fun move_value :: "forwarding_table \<Rightarrow> val \<Rightarrow> val" where
  "move_value fwd (VObject i) = (case forwarded fwd (slot_index i) of Some j \<Rightarrow> VObject j | None \<Rightarrow> VObject i)"
| "move_value fwd v = v"

fun weak_value :: "forwarding_table \<Rightarrow> val \<Rightarrow> val" where
  "weak_value fwd (VObject i) = (case forwarded fwd (slot_index i) of Some j \<Rightarrow> VObject j | None \<Rightarrow> VNil)"
| "weak_value fwd v = v"

lemma tag_move_value [simp]: "tag (move_value fwd v) = tag v"
  by (cases v) (simp_all split: option.split)

lemma relocationD:
  assumes "relocation h L res"
  shows "heap_wf h" "L \<subseteq> occupied_slots h" "move_closed h L" "compacted_upto h L (length (h_objects h)) res"
    "length (r_forwarding res) = length (h_objects h)" "length (r_objects res) = length (h_objects h)"
    "length (r_generations res) = length (h_objects h)"
  using assms by (simp_all add: relocation_def compacted_upto_def)

lemma relocation_slots:
  assumes rel: "relocation h L res" and s: "s \<in> L"
  shows "s < length (h_objects h)" "slide h L s < length (h_objects h)" "slide h L s \<le> s"
    "slide h L s + slot_width h s \<le> length (h_objects h)" "holds h s (object_at h s)"
proof -
  note D = relocationD [OF rel]
  obtain x where x: "holds h s x" using D(2) s by (auto simp: occupied_slots_def)
  then show "s < length (h_objects h)" "holds h s (object_at h s)" by (simp_all add: holds_less holds_object_at)
  show "slide h L s \<le> s" by (rule slide_le [OF heap_wfD(4) [OF D(1)] D(2) s])
  with \<open>s < _\<close> show "slide h L s < length (h_objects h)" by simp
  show "slide h L s + slot_width h s \<le> length (h_objects h)"
    by (rule slide_fits [OF heap_wfD(4) [OF D(1)] D(2) s])
qed

lemma forwarded_iff:
  assumes rel: "relocation h L res"
  shows "forwarded (r_forwarding res) s = (if s \<in> L then Some (moved_id h L res s) else None)"
  using relocationD(4,5) [OF rel] relocation_slots(1) [OF rel]
  by (auto simp: forwarded_def compacted_upto_def moved_id_def)

lemma new_generation:
  assumes rel: "relocation h L res" and s: "s \<in> L"
  shows "r_generations res ! slide h L s \<noteq> 0" "r_generations res ! slide h L s \<le> kMaxGeneration"
proof -
  note D = relocationD [OF rel] and S = relocation_slots [OF rel s]
  have g: "if slide h L s = s then r_generations res ! s = h_generations h ! s
      else generation_for_new_base (h_generations h ! slide h L s) = Inr (r_generations res ! slide h L s)"
    using D(4) S(1) s by (simp add: compacted_upto_def)
  have ok: "generations_ok h" using heap_wfD(3) [OF D(1)] .
  then have le: "h_generations h ! t \<le> kMaxGeneration" if "t < length (h_objects h)" for t
    using that by (simp add: generations_ok_def)
  have nz: "h_generations h ! s \<noteq> 0" using ok S(5) by (auto simp: generations_ok_def)
  show "r_generations res ! slide h L s \<noteq> 0" "r_generations res ! slide h L s \<le> kMaxGeneration"
    using g nz le [OF S(1)] generation_for_new_base_Inr(1,3) [OF _ le [OF S(2)]] by (auto split: if_splits)
qed

lemma moved_id_props:
  assumes rel: "relocation h L res" and s: "s \<in> L"
  shows "slot_index (moved_id h L res s) = slide h L s"
    "generation_from (moved_id h L res s) = r_generations res ! slide h L s"
    "value_object (moved_id h L res s) = Inr (VObject (moved_id h L res s))"
proof -
  have "slide h L s < 4294967296"
    using relocation_slots(2) [OF rel s] heap_wfD(1) [OF relocationD(1) [OF rel]]
    by (simp add: plain_identities_def)
  then show "slot_index (moved_id h L res s) = slide h L s"
    unfolding moved_id_def by (rule slot_index_object_id_at)
  show "generation_from (moved_id h L res s) = r_generations res ! slide h L s"
    by (simp add: moved_id_def)
  then show "value_object (moved_id h L res s) = Inr (VObject (moved_id h L res s))"
    using new_generation(2) [OF rel s] by (intro value_object_ok) simp
qed

text \<open>The heap during the move differs from the one before in marks, roots and flags only.\<close>

definition reads_like :: "gcheap \<Rightarrow> gcheap \<Rightarrow> bool" where
  "reads_like h k \<longleftrightarrow> (\<forall>i. checked_slot i k = checked_slot i h)"

lemma reads_like_with_marks [simp]: "reads_like h (with_marks h M)"
  by (simp add: reads_like_def)

definition refers_into :: "gcheap \<Rightarrow> nat set \<Rightarrow> val \<Rightarrow> bool" where
  "refers_into h L v \<longleftrightarrow> valid_ref h v \<and> (\<forall>i. v = VObject i \<longrightarrow> slot_index i \<in> L)"

lemma rewrite_value_eq:
  assumes "relocation h L res" and "reads_like h k" and "refers_into h L v"
  shows "rewrite_value k (r_forwarding res) v = Inr (move_value (r_forwarding res) v)"
  using assms
  by (cases v) (auto simp: rewrite_value_def reads_like_def refers_into_def forwarded_iff moved_id_props)

lemma rewrite_all_map:
  "(\<And>v. v \<in> set vs \<Longrightarrow> f v = Inr (g v)) \<Longrightarrow> rewrite_all f vs = (Inr (), map g vs)"
  by (induction vs) simp_all

lemma zip_map_snd: "zip (map fst ps) (map g (map snd ps)) = map (apsnd g) ps"
  by (induction ps) (auto simp: apsnd_def)

lemma rewrite_collection_roots_map:
  assumes "\<And>v. v \<in> set (collection_roots h extra) \<Longrightarrow> f h v = Inr (g v)"
  shows "rewrite_collection_roots f extra h = (Inr (map g extra),
    h\<lparr>h_roots := map g (h_roots h), h_handle_roots := map (apsnd g) (h_handle_roots h)\<rparr>)"
proof -
  have "rewrite_all (f h) (h_roots h) = (Inr (), map g (h_roots h))"
    "rewrite_all (f h) (map snd (h_handle_roots h)) = (Inr (), map g (map snd (h_handle_roots h)))"
    "rewrite_all (f h) extra = (Inr (), map g extra)"
    by (rule rewrite_all_map, rule assms, simp add: collection_roots_def)+
  then show ?thesis by (simp add: rewrite_collection_roots_def Let_def zip_map_snd del: map_map)
qed

lemma moved_copy_frame [simp]:
  "reference_fields (moved_copy x) = reference_fields x"
  "validate_descriptor_shape (moved_copy x) = validate_descriptor_shape x"
  "storage_slot_count (moved_copy x) = storage_slot_count x" "o_kind (moved_copy x) = o_kind x"
  by (simp_all add: moved_copy_eq)

lemma relocation_fields:
  assumes rel: "relocation h L res" and s: "s \<in> L" and v: "v \<in> set (reference_fields (object_at h s))"
  shows "refers_into h L v"
proof -
  note D = relocationD [OF rel] and S = relocation_slots [OF rel s]
  have "valid_ref h v" using heap_wfD(5) [OF D(1)] S(5) v by (auto simp: fields_valid_def)
  moreover have "slot_index i \<in> L" if "v = VObject i" for i
    using D(3) s v that by (auto simp: move_closed_def field_ids_def ids_of_def)
  ultimately show ?thesis by (simp add: refers_into_def)
qed

lemma rewrite_objects_eq:
  assumes rel: "relocation h L res" and like: "reads_like h k"
  shows "emap (rewrite_slot (rewrite_value k (r_forwarding res))) (r_objects res) =
    Inr (map (map_option (map_reference_fields (move_value (r_forwarding res)))) (r_objects res))"
proof (rule emap_map)
  note D = relocationD [OF rel]
  fix slot assume "slot \<in> set (r_objects res)"
  then obtain d where d: "d < length (h_objects h)" "slot = r_objects res ! d"
    using D(6) by (metis in_set_conv_nth)
  show "rewrite_slot (rewrite_value k (r_forwarding res)) slot =
      Inr (map_option (map_reference_fields (move_value (r_forwarding res))) slot)"
  proof (cases slot)
    case (Some y)
    then obtain s where s: "s \<in> L" "y = moved_copy (object_at h s)"
      using D(4) d by (auto simp: compacted_upto_def)
    have "update_reference_fields (rewrite_value k (r_forwarding res)) y =
        Inr (map_reference_fields (move_value (r_forwarding res)) y)"
    proof (rule update_reference_fields_map)
      show "shape_ok y" using heap_wf_shape [OF D(1) relocation_slots(5) [OF rel s(1)]] s(2) by simp
      fix v assume "v \<in> set (reference_fields y)"
      then show "rewrite_value k (r_forwarding res) v = Inr (move_value (r_forwarding res) v)"
        using rewrite_value_eq [OF rel like] relocation_fields [OF rel s(1)] s(2) by simp
    qed
    with Some show ?thesis by simp
  qed simp
qed

subsection \<open>The registries\<close>

text \<open>
  Weak references and ephemerons are processed by the same walk over a registry: an owner
  that survives has its moved copy updated by \<open>change\<close> and stays registered.
\<close>

lemma registry_walk:
  assumes rel: "relocation h L res" and "distinct ss" and len: "length objs = length (h_objects h)"
    and stage: "\<And>s. s \<in> set ss \<Longrightarrow> s \<in> L \<Longrightarrow> objs ! slide h L s = Some (stage s)"
    and step: "\<And>s objs rewritten. s \<in> set ss \<Longrightarrow> length objs = length (h_objects h) \<Longrightarrow>
      (s \<in> L \<Longrightarrow> objs ! slide h L s = Some (stage s)) \<Longrightarrow>
      f (id_at h s) (objs, rewritten) = Inr (if s \<in> L
        then (objs[slide h L s := Some (change s)], rewritten @ [moved_id h L res s]) else (objs, rewritten))"
  shows "\<exists>objs'. efold f (map (id_at h) ss) (objs, rewritten) =
      Inr (objs', rewritten @ map (moved_id h L res) (filter (\<lambda>s. s \<in> L) ss)) \<and>
    length objs' = length (h_objects h) \<and>
    (\<forall>s\<in>set ss. s \<in> L \<longrightarrow> objs' ! slide h L s = Some (change s)) \<and>
    (\<forall>d. (\<forall>s\<in>set ss. s \<in> L \<longrightarrow> d \<noteq> slide h L s) \<longrightarrow> objs' ! d = objs ! d)"
  using assms(2-5)
proof (induction ss arbitrary: objs rewritten)
  case Nil
  then show ?case by simp
next
  case (Cons s ss)
  have first: "f (id_at h s) (objs, rewritten) = Inr (if s \<in> L
        then (objs[slide h L s := Some (change s)], rewritten @ [moved_id h L res s]) else (objs, rewritten))"
    using Cons.prems by simp
  show ?case
  proof (cases "s \<in> L")
    case False
    have "\<exists>objs'. efold f (map (id_at h) ss) (objs, rewritten) =
        Inr (objs', rewritten @ map (moved_id h L res) (filter (\<lambda>s. s \<in> L) ss)) \<and>
      length objs' = length (h_objects h) \<and>
      (\<forall>s\<in>set ss. s \<in> L \<longrightarrow> objs' ! slide h L s = Some (change s)) \<and>
      (\<forall>d. (\<forall>s\<in>set ss. s \<in> L \<longrightarrow> d \<noteq> slide h L s) \<longrightarrow> objs' ! d = objs ! d)"
      by (rule Cons.IH) (use Cons.prems in simp_all)
    with first False show ?thesis by simp
  next
    case True
    let ?objs = "objs[slide h L s := Some (change s)]"
    have other: "t \<in> set ss \<Longrightarrow> t \<in> L \<Longrightarrow> slide h L t \<noteq> slide h L s" for t
      using Cons.prems(1) True slide_inj [of t L s h] by auto
    have "\<exists>objs'. efold f (map (id_at h) ss) (?objs, rewritten @ [moved_id h L res s]) =
        Inr (objs', (rewritten @ [moved_id h L res s]) @ map (moved_id h L res) (filter (\<lambda>s. s \<in> L) ss)) \<and>
      length objs' = length (h_objects h) \<and>
      (\<forall>s\<in>set ss. s \<in> L \<longrightarrow> objs' ! slide h L s = Some (change s)) \<and>
      (\<forall>d. (\<forall>s\<in>set ss. s \<in> L \<longrightarrow> d \<noteq> slide h L s) \<longrightarrow> objs' ! d = ?objs ! d)"
    proof (rule Cons.IH)
      show "?objs ! slide h L t = Some (stage t)" if "t \<in> set ss" "t \<in> L" for t
        using that other [OF that] Cons.prems(3) by (metis list.set_intros(2) nth_list_update_neq)
    qed (use Cons.prems in simp_all)
    then obtain objs' where o: "efold f (map (id_at h) ss) (?objs, rewritten @ [moved_id h L res s]) =
        Inr (objs', (rewritten @ [moved_id h L res s]) @ map (moved_id h L res) (filter (\<lambda>s. s \<in> L) ss))"
      "length objs' = length (h_objects h)"
      "\<forall>s\<in>set ss. s \<in> L \<longrightarrow> objs' ! slide h L s = Some (change s)"
      "\<forall>d. (\<forall>s\<in>set ss. s \<in> L \<longrightarrow> d \<noteq> slide h L s) \<longrightarrow> objs' ! d = ?objs ! d" by blast
    have "objs' ! slide h L s = Some (change s)"
    proof -
      have "objs' ! slide h L s = ?objs ! slide h L s" using o(4) other by metis
      then show ?thesis using relocation_slots(2) [OF rel True] Cons.prems(2) by simp
    qed
    moreover have "objs' ! d = objs ! d" if "\<forall>t\<in>set (s # ss). t \<in> L \<longrightarrow> d \<noteq> slide h L t" for d
    proof -
      have "objs' ! d = ?objs ! d" using o(4) that by simp
      then show ?thesis using that True by simp
    qed
    ultimately show ?thesis using first True o by (intro exI [of _ objs']) simp
  qed
qed

text \<open>What a survivor looks like after the move.\<close>

definition final_object :: "forwarding_table \<Rightarrow> gcobj \<Rightarrow> gcobj" where
  "final_object fwd x = (let y = map_reference_fields (move_value fwd) (moved_copy x);
       key = weak_value fwd (o_ephemeron_key x); value = o_ephemeron_value x in
     case o_kind x of
       WeakRef \<Rightarrow> y\<lparr>o_weak_target := weak_value fwd (o_weak_target x)\<rparr>
     | Ephemeron \<Rightarrow> y\<lparr>o_ephemeron_key := key, o_ephemeron_value :=
          (if key = VNil then VNil else if o_ephemeron_value_is_ref x then move_value fwd value else value)\<rparr>
     | _ \<Rightarrow> y)"

definition staged_object :: "forwarding_table \<Rightarrow> gcobj \<Rightarrow> gcobj" where
  "staged_object fwd x = map_reference_fields (move_value fwd) (moved_copy x)"

lemma final_object_plain:
  "o_kind x \<noteq> WeakRef \<Longrightarrow> o_kind x \<noteq> Ephemeron \<Longrightarrow> final_object fwd x = staged_object fwd x"
  unfolding final_object_def staged_object_def Let_def
  by (cases "o_kind x"; simp_all only: object_kind.case simp_thms)

lemma staged_object_weak:
  assumes "o_kind x = WeakRef \<or> o_kind x = Ephemeron"
  shows "staged_object fwd x = moved_copy x"
  using assms by (auto simp: staged_object_def map_reference_fields_def)

lemma kind_slots_iff: "s \<in> set (kind_slots k h) \<longleftrightarrow> holds h s (object_at h s) \<and> o_kind (object_at h s) = k"
  by (auto simp: kind_slots_def is_kind_at_def holds_def object_at_def)

lemma distinct_kind_slots [simp]: "distinct (kind_slots k h)"
  by (simp add: kind_slots_def)

lemma registered_owner:
  assumes wf: "heap_wf h" and "holds h s x"
  shows "checked_slot (id_at h s) h = Inr s"
  using generations_ok_current [OF heap_wfD(3) [OF wf] heap_wfD(1) [OF wf] assms(2)]
    id_at_slot_index [OF heap_wfD(1) [OF wf] holds_less [OF assms(2)]]
  by simp

lemma process_weak_target_eq:
  assumes rel: "relocation h L res" and like: "reads_like h k" and "valid_ref h v" and "reference_tag v"
  shows "process_weak_target k (r_forwarding res) v = Inr (weak_value (r_forwarding res) v)"
  using assms
  by (cases v) (auto simp: process_weak_target_def reads_like_def forwarded_iff [OF rel] moved_id_props
      reference_tag_def)

lemma process_weak_targets_ok:
  assumes rel: "relocation h L res" and like: "reads_like h k" and regs: "h_weak_refs k = h_weak_refs h"
    and len: "length objs = length (h_objects h)"
    and stage: "\<And>s. s \<in> L \<Longrightarrow> objs ! slide h L s = Some (staged_object (r_forwarding res) (object_at h s))"
  shows "\<exists>objs'. process_weak_targets k (r_forwarding res) objs =
      Inr (objs', map (moved_id h L res) (filter (\<lambda>s. s \<in> L) (kind_slots WeakRef h))) \<and>
    length objs' = length (h_objects h) \<and>
    (\<forall>s\<in>L. objs' ! slide h L s = Some (if o_kind (object_at h s) = WeakRef
       then final_object (r_forwarding res) (object_at h s) else staged_object (r_forwarding res) (object_at h s))) \<and>
    (\<forall>d. (\<forall>s\<in>L. d \<noteq> slide h L s) \<longrightarrow> objs' ! d = objs ! d)"
proof -
  note D = relocationD [OF rel]
  let ?fwd = "r_forwarding res" and ?ss = "kind_slots WeakRef h"
  have weak: "weak_ok h" by (rule heap_wfD(7) [OF D(1)])
  have "\<exists>objs'. efold (process_weak_owner k ?fwd) (map (id_at h) ?ss) (objs, []) =
      Inr (objs', [] @ map (moved_id h L res) (filter (\<lambda>s. s \<in> L) ?ss)) \<and>
    length objs' = length (h_objects h) \<and>
    (\<forall>s\<in>set ?ss. s \<in> L \<longrightarrow> objs' ! slide h L s = Some (final_object ?fwd (object_at h s))) \<and>
    (\<forall>d. (\<forall>s\<in>set ?ss. s \<in> L \<longrightarrow> d \<noteq> slide h L s) \<longrightarrow> objs' ! d = objs ! d)"
  proof (rule registry_walk [OF rel _ len, where stage = "\<lambda>s. staged_object ?fwd (object_at h s)"])
    fix s and objs :: "gcobj option list" and rewritten
    assume s: "s \<in> set ?ss" and len': "length objs = length (h_objects h)"
      and st: "s \<in> L \<Longrightarrow> objs ! slide h L s = Some (staged_object ?fwd (object_at h s))"
    have x: "holds h s (object_at h s)" "o_kind (object_at h s) = WeakRef"
      using s by (simp_all add: kind_slots_iff)
    have good: "weak_slot_good h s" using weak s by (simp add: weak_ok_def)
    have "checked_slot (id_at h s) k = Inr s"
      using registered_owner [OF D(1) x(1)] like by (simp add: reads_like_def)
    then show "process_weak_owner k ?fwd (id_at h s) (objs, rewritten) = Inr (if s \<in> L
        then (objs[slide h L s := Some (final_object ?fwd (object_at h s))], rewritten @ [moved_id h L res s])
        else (objs, rewritten))"
      using st len' x relocation_slots(2) [OF rel, of s] good
        process_weak_target_eq [OF rel like, of "o_weak_target (object_at h s)"]
      by (auto simp: process_weak_owner_def forwarded_iff [OF rel] Let_def moved_id_props [OF rel]
          staged_object_weak moved_copy_eq weak_slot_good_def final_object_def map_reference_fields_def)
  qed (use stage in simp_all)
  then obtain objs' where o: "efold (process_weak_owner k ?fwd) (map (id_at h) ?ss) (objs, []) =
      Inr (objs', map (moved_id h L res) (filter (\<lambda>s. s \<in> L) ?ss))"
    "length objs' = length (h_objects h)"
    "\<forall>s\<in>set ?ss. s \<in> L \<longrightarrow> objs' ! slide h L s = Some (final_object ?fwd (object_at h s))"
    "\<forall>d. (\<forall>s\<in>set ?ss. s \<in> L \<longrightarrow> d \<noteq> slide h L s) \<longrightarrow> objs' ! d = objs ! d" by auto
  let ?kept = "filter (\<lambda>s. s \<in> L) ?ss"
  have sorted: "sorted_wrt (<) ?kept" unfolding kind_slots_def by (intro sorted_wrt_filter) simp
  have "eall (\<lambda>i. ethrow_if (slot_index (map (moved_id h L res) ?kept ! (i - 1)) \<ge>
      slot_index (map (moved_id h L res) ?kept ! i)) (Logic_error msg_weak_move_order))
      [1..<length (map (moved_id h L res) ?kept)] = Inr ()"
    unfolding eall_ok_iff
  proof
    fix i assume "i \<in> set [1..<length (map (moved_id h L res) ?kept)]"
    then have i: "0 < i" "i < length ?kept" by simp_all
    then have "?kept ! (i - 1) < ?kept ! i" using sorted by (intro sorted_wrt_nth_less) simp_all
    moreover have "?kept ! (i - 1) \<in> L" "?kept ! i \<in> L" using i nth_mem [of _ ?kept] by fastforce+
    ultimately show "ethrow_if (slot_index (map (moved_id h L res) ?kept ! (i - 1)) \<ge>
      slot_index (map (moved_id h L res) ?kept ! i)) (Logic_error msg_weak_move_order) = Inr ()"
      using i slide_less [of "?kept ! (i - 1)" "?kept ! i" L h] by (simp add: moved_id_props [OF rel])
  qed
  then have run: "process_weak_targets k ?fwd objs = Inr (objs', map (moved_id h L res) ?kept)"
    using o(1) weak regs by (simp add: process_weak_targets_def weak_ok_def)
  have val: "objs' ! slide h L s = Some (if o_kind (object_at h s) = WeakRef
       then final_object ?fwd (object_at h s) else staged_object ?fwd (object_at h s))" if s: "s \<in> L" for s
  proof (cases "o_kind (object_at h s) = WeakRef")
    case True
    then show ?thesis using o(3) s relocation_slots(5) [OF rel s] by (simp add: kind_slots_iff)
  next
    case False
    then have "\<forall>t\<in>set ?ss. t \<in> L \<longrightarrow> slide h L s \<noteq> slide h L t"
      using slide_inj [OF s] by (auto simp: kind_slots_iff)
    then show ?thesis using o(4) stage [OF s] False by simp
  qed
  show ?thesis using run o(2,4) val by (intro exI [of _ objs']) auto
qed

lemma process_ephemeron_object_eq:
  assumes rel: "relocation h L res" and like: "reads_like h k" and s: "s \<in> L"
    and kind: "o_kind (object_at h s) = Ephemeron"
  shows "process_ephemeron_object k (r_forwarding res) (moved_copy (object_at h s)) =
    Inr (final_object (r_forwarding res) (object_at h s))"
proof -
  note D = relocationD [OF rel]
  let ?x = "object_at h s" and ?fwd = "r_forwarding res"
  note x = relocation_slots(5) [OF rel s]
  have shape: "reference_tag (o_ephemeron_key ?x)"
    "o_ephemeron_key ?x = VNil \<Longrightarrow> o_ephemeron_value ?x = VNil"
    using heap_wf_shape [OF D(1) x] kind
    by (auto simp: validate_descriptor_shape_def shape_ephemeron_def ethen_Inr_iff Let_def)
  have good: "ephemeron_slot_good h s"
    using heap_wfD(9) [OF D(1)] x kind by (auto simp: ephemerons_ok_def kind_slots_iff)
  have fields: "o_ephemeron_key (moved_copy ?x) = o_ephemeron_key ?x"
    "o_ephemeron_value (moved_copy ?x) = o_ephemeron_value ?x"
    "o_ephemeron_value_is_ref (moved_copy ?x) = o_ephemeron_value_is_ref ?x"
    by (simp_all add: moved_copy_eq)
  have final: "final_object ?fwd ?x = (moved_copy ?x)\<lparr>o_ephemeron_key := weak_value ?fwd (o_ephemeron_key ?x),
      o_ephemeron_value := (if weak_value ?fwd (o_ephemeron_key ?x) = VNil then VNil
        else if o_ephemeron_value_is_ref ?x then move_value ?fwd (o_ephemeron_value ?x) else o_ephemeron_value ?x)\<rparr>"
    using kind by (simp add: final_object_def Let_def map_reference_fields_def)
  show ?thesis
  proof (cases "o_ephemeron_key ?x")
    case (VObject key)
    have cur: "current_slot h key" using good VObject by (simp add: ephemeron_slot_good_def)
    show ?thesis
    proof (cases "slot_index key \<in> L")
      case False
      then show ?thesis
        using VObject cur like unfolding final
        by (simp add: process_ephemeron_object_def fields Let_def reads_like_def forwarded_iff [OF rel])
    next
      case True
      show ?thesis
      proof (cases "o_ephemeron_value_is_ref ?x \<and> is_object (o_ephemeron_value ?x)")
        case False
        have "(if o_ephemeron_value_is_ref ?x then move_value ?fwd (o_ephemeron_value ?x)
            else o_ephemeron_value ?x) = o_ephemeron_value (moved_copy ?x)"
          using False unfolding fields by (cases "o_ephemeron_value ?x") simp_all
        moreover have "y\<lparr>o_ephemeron_key := a, o_ephemeron_value := o_ephemeron_value y\<rparr> =
            y\<lparr>o_ephemeron_key := a\<rparr>" for y :: gcobj and a
          by (rule gcobj.equality) simp_all
        moreover have "process_ephemeron_object k ?fwd (moved_copy ?x) =
            Inr ((moved_copy ?x)\<lparr>o_ephemeron_key := VObject (moved_id h L res (slot_index key))\<rparr>)"
          using VObject cur like True
          by (simp only: process_ephemeron_object_def fields Let_def False if_False)
            (simp add: reads_like_def forwarded_iff [OF rel] moved_id_props [OF rel])
        ultimately show ?thesis
          unfolding final by (simp only: VObject weak_value.simps forwarded_iff [OF rel] True if_True
              option.case val.distinct if_False)
      next
        case v: True
        then obtain i where i: "o_ephemeron_value ?x = VObject i" by (auto simp: is_object_iff)
        then have "current_slot h i" "slot_index i \<in> L"
          using good v D(3) s kind VObject True by (auto simp: ephemeron_slot_good_def move_closed_def)
        with i v show ?thesis
          using VObject cur like True unfolding final
          by (simp add: process_ephemeron_object_def fields Let_def reads_like_def forwarded_iff [OF rel]
              moved_id_props [OF rel])
      qed
    qed
  next
    case VNil
    then show ?thesis
      using shape(2) unfolding final
      by (simp add: process_ephemeron_object_def fields Let_def moved_copy_eq)
  qed (use shape(1) in \<open>auto simp: reference_tag_def\<close>)
qed

lemma process_ephemerons_ok:
  assumes rel: "relocation h L res" and like: "reads_like h k" and regs: "h_ephemerons k = h_ephemerons h"
    and len: "length objs = length (h_objects h)"
    and stage: "\<And>s. s \<in> L \<Longrightarrow> objs ! slide h L s = Some (if o_kind (object_at h s) = WeakRef
       then final_object (r_forwarding res) (object_at h s) else staged_object (r_forwarding res) (object_at h s))"
  shows "\<exists>objs'. process_ephemerons k (r_forwarding res) objs =
      Inr (objs', map (moved_id h L res) (filter (\<lambda>s. s \<in> L) (kind_slots Ephemeron h))) \<and>
    length objs' = length (h_objects h) \<and>
    (\<forall>s\<in>L. objs' ! slide h L s = Some (final_object (r_forwarding res) (object_at h s))) \<and>
    (\<forall>d. (\<forall>s\<in>L. d \<noteq> slide h L s) \<longrightarrow> objs' ! d = objs ! d)"
proof -
  note D = relocationD [OF rel]
  let ?fwd = "r_forwarding res" and ?ss = "kind_slots Ephemeron h"
  have "\<exists>objs'. efold (process_ephemeron_owner k ?fwd) (map (id_at h) ?ss) (objs, []) =
      Inr (objs', [] @ map (moved_id h L res) (filter (\<lambda>s. s \<in> L) ?ss)) \<and>
    length objs' = length (h_objects h) \<and>
    (\<forall>s\<in>set ?ss. s \<in> L \<longrightarrow> objs' ! slide h L s = Some (final_object ?fwd (object_at h s))) \<and>
    (\<forall>d. (\<forall>s\<in>set ?ss. s \<in> L \<longrightarrow> d \<noteq> slide h L s) \<longrightarrow> objs' ! d = objs ! d)"
  proof (rule registry_walk [OF rel _ len, where stage = "\<lambda>s. moved_copy (object_at h s)"])
    fix s assume "s \<in> set ?ss" "s \<in> L"
    then show "objs ! slide h L s = Some (moved_copy (object_at h s))"
      using stage by (simp add: kind_slots_iff staged_object_weak)
  next
    fix s and objs :: "gcobj option list" and rewritten
    assume s: "s \<in> set ?ss" and len': "length objs = length (h_objects h)"
      and st: "s \<in> L \<Longrightarrow> objs ! slide h L s = Some (moved_copy (object_at h s))"
    have x: "holds h s (object_at h s)" "o_kind (object_at h s) = Ephemeron"
      using s by (simp_all add: kind_slots_iff)
    have "checked_slot (id_at h s) k = Inr s"
      using registered_owner [OF D(1) x(1)] like by (simp add: reads_like_def)
    then show "process_ephemeron_owner k ?fwd (id_at h s) (objs, rewritten) = Inr (if s \<in> L
        then (objs[slide h L s := Some (final_object ?fwd (object_at h s))], rewritten @ [moved_id h L res s])
        else (objs, rewritten))"
      using st process_ephemeron_object_eq [OF rel like _ x(2)]
      by (auto simp: process_ephemeron_owner_def forwarded_iff [OF rel] Let_def moved_id_props [OF rel])
  qed simp
  then obtain objs' where o: "efold (process_ephemeron_owner k ?fwd) (map (id_at h) ?ss) (objs, []) =
      Inr (objs', map (moved_id h L res) (filter (\<lambda>s. s \<in> L) ?ss))"
    "length objs' = length (h_objects h)"
    "\<forall>s\<in>set ?ss. s \<in> L \<longrightarrow> objs' ! slide h L s = Some (final_object ?fwd (object_at h s))"
    "\<forall>d. (\<forall>s\<in>set ?ss. s \<in> L \<longrightarrow> d \<noteq> slide h L s) \<longrightarrow> objs' ! d = objs ! d" by auto
  have run: "process_ephemerons k ?fwd objs = Inr (objs', map (moved_id h L res) (filter (\<lambda>s. s \<in> L) ?ss))"
    using o(1) heap_wfD(9) [OF D(1)] regs by (simp add: process_ephemerons_def ephemerons_ok_def)
  have val: "objs' ! slide h L s = Some (final_object ?fwd (object_at h s))" if s: "s \<in> L" for s
  proof (cases "o_kind (object_at h s) = Ephemeron")
    case True
    then show ?thesis using o(3) s relocation_slots(5) [OF rel s] by (simp add: kind_slots_iff)
  next
    case False
    then have "\<forall>t\<in>set ?ss. t \<in> L \<longrightarrow> slide h L s \<noteq> slide h L t"
      using slide_inj [OF s] by (auto simp: kind_slots_iff)
    then show ?thesis using o(4) stage [OF s] False by (simp add: final_object_plain)
  qed
  show ?thesis using run o(2,4) val by (intro exI [of _ objs']) auto
qed

subsection \<open>The moved heap\<close>

definition moved_heap :: "gcheap \<Rightarrow> nat set \<Rightarrow> compaction_result \<Rightarrow> gcheap \<Rightarrow> bool" where
  "moved_heap h L res h1 \<longleftrightarrow> length (h_objects h1) = length (h_objects h) \<and>
     h_generations h1 = r_generations res \<and> \<not> h_compaction_active h1 \<and>
     (\<forall>s\<in>L. h_objects h1 ! slide h L s = Some (final_object (r_forwarding res) (object_at h s))) \<and>
     (\<forall>d<length (h_objects h). (\<forall>s\<in>L. d \<noteq> slide h L s) \<longrightarrow> h_objects h1 ! d = None) \<and>
     h_weak_refs h1 = map (moved_id h L res) (filter (\<lambda>s. s \<in> L) (kind_slots WeakRef h)) \<and>
     h_ephemerons h1 = map (moved_id h L res) (filter (\<lambda>s. s \<in> L) (kind_slots Ephemeron h)) \<and>
     h_intern_table h1 = map (\<lambda>e. e\<lparr>canonical := moved_id h L res (slot_index (canonical e))\<rparr>)
       (filter (\<lambda>e. slot_index (canonical e) \<in> L) (h_intern_table h))"

lemma final_object_frame [simp]:
  "o_kind (final_object fwd x) = o_kind x" "o_generation (final_object fwd x) = Old"
  "\<not> o_marked (final_object fwd x)" "o_string_bytes (final_object fwd x) = o_string_bytes x"
  "o_map_lookup_index (final_object fwd x) = o_map_lookup_index x"
  "o_ephemeron_value_is_ref (final_object fwd x) = o_ephemeron_value_is_ref x"
  "o_length (final_object fwd x) = o_length x"
  "o_builder_capacity (final_object fwd x) = o_builder_capacity x"
  by (cases "o_kind x"; simp add: final_object_def Let_def moved_copy_eq)+

lemma final_object_width [simp]: "storage_slot_count (final_object fwd x) = storage_slot_count x"
proof -
  have width: "storage_slot_count y = storage_slot_count x"
    if "o_kind y = o_kind x" "o_length y = o_length x" "o_builder_capacity y = o_builder_capacity x" for y
    unfolding storage_slot_count_def that by (rule refl)
  show ?thesis by (rule width) simp_all
qed

lemma reference_fields_weak_kinds:
  "o_kind x = WeakRef \<or> o_kind x = Ephemeron \<Longrightarrow> reference_fields x = []"
  by (auto simp: reference_fields_def)

lemma final_object_fields [simp]:
  "reference_fields (final_object fwd x) = map (move_value fwd) (reference_fields x)"
proof (cases "o_kind x = WeakRef \<or> o_kind x = Ephemeron")
  case True
  then show ?thesis
    using reference_fields_weak_kinds [of x] reference_fields_weak_kinds [of "final_object fwd x"] by simp
next
  case False
  then show ?thesis by (simp add: final_object_plain staged_object_def)
qed

lemma weak_value_tags:
  "reference_tag v \<Longrightarrow> reference_tag (weak_value fwd v)"
  by (cases v) (auto simp: reference_tag_def split: option.split)

lemma shape_ephemeron_update:
  assumes "shape_ok x" and "o_kind x = Ephemeron" and "reference_tag k" and "k = VNil \<longrightarrow> v = VNil"
    and "o_ephemeron_value_is_ref x \<longrightarrow> reference_tag v"
    and "k \<noteq> VNil \<longrightarrow> \<not> o_ephemeron_value_is_ref x \<longrightarrow> scalar_tag v"
  shows "shape_ok (x\<lparr>o_ephemeron_key := k, o_ephemeron_value := v\<rparr>)"
  using assms
  by (cases "o_ephemeron_value_is_ref x"; cases "k = VNil")
    (simp_all add: validate_descriptor_shape_def shape_foreign_payload_def shape_ephemeron_def
      ethen_Inr_iff Let_def)

lemma final_object_shape:
  assumes "shape_ok x"
  shows "shape_ok (final_object fwd x)"
proof -
  have staged: "shape_ok (staged_object fwd x)"
    unfolding staged_object_def using assms by (intro shape_map_reference_fields) simp_all
  consider (weak) "o_kind x = WeakRef" | (eph) "o_kind x = Ephemeron" | (other) "o_kind x \<noteq> WeakRef" "o_kind x \<noteq> Ephemeron"
    by blast
  then show ?thesis
  proof cases
    case weak
    then show ?thesis
      using assms weak_value_tags [of "o_weak_target x" fwd]
      by (auto simp: final_object_def Let_def map_reference_fields_def moved_copy_eq
          validate_descriptor_shape_def shape_foreign_payload_def shape_weak_ref_def ethen_Inr_iff)
  next
    case eph
    have ref: "o_ephemeron_value_is_ref x \<Longrightarrow> reference_tag (o_ephemeron_value x)"
      "o_ephemeron_key x \<noteq> VNil \<Longrightarrow> \<not> o_ephemeron_value_is_ref x \<Longrightarrow> scalar_tag (o_ephemeron_value x)"
      "reference_tag (o_ephemeron_key x)"
      using assms eph
      by (auto simp: validate_descriptor_shape_def shape_ephemeron_def ethen_Inr_iff Let_def)
    have nil: "weak_value fwd (o_ephemeron_key x) \<noteq> VNil \<Longrightarrow> o_ephemeron_key x \<noteq> VNil" by auto
    have mv: "reference_tag (move_value fwd v) = reference_tag v" "is_object (move_value fwd v) = is_object v" for v
      using tag_move_value [of fwd v] by (simp_all add: reference_tag_def tag_simps(1) [symmetric] del: tag_simps)
    have final: "final_object fwd x = (moved_copy x)\<lparr>o_ephemeron_key := weak_value fwd (o_ephemeron_key x),
      o_ephemeron_value := (if weak_value fwd (o_ephemeron_key x) = VNil then VNil
        else if o_ephemeron_value_is_ref x then move_value fwd (o_ephemeron_value x) else o_ephemeron_value x)\<rparr>"
      using eph by (simp add: final_object_def Let_def map_reference_fields_def)
    have is_ref: "o_ephemeron_value_is_ref (moved_copy x) = o_ephemeron_value_is_ref x"
      by (simp add: moved_copy_eq)
    show ?thesis
      unfolding final
    proof (rule shape_ephemeron_update)
      show "shape_ok (moved_copy x)" "o_kind (moved_copy x) = Ephemeron" using assms eph by simp_all
      show "reference_tag (weak_value fwd (o_ephemeron_key x))" by (rule weak_value_tags [OF ref(3)])
      let ?k = "weak_value fwd (o_ephemeron_key x)"
      let ?v = "if ?k = VNil then VNil
        else if o_ephemeron_value_is_ref x then move_value fwd (o_ephemeron_value x) else o_ephemeron_value x"
      show "?k = VNil \<longrightarrow> ?v = VNil" by simp
      show "o_ephemeron_value_is_ref (moved_copy x) \<longrightarrow> reference_tag ?v"
        using ref(1) mv(1) [of "o_ephemeron_value x"] unfolding is_ref
        by (cases "?k = VNil"; cases "o_ephemeron_value_is_ref x")
          (simp_all only: if_True if_False simp_thms, simp_all add: reference_tag_def)
      show "?k \<noteq> VNil \<longrightarrow> \<not> o_ephemeron_value_is_ref (moved_copy x) \<longrightarrow> scalar_tag ?v"
        unfolding is_ref
      proof (intro impI)
        assume k: "?k \<noteq> VNil" and nr: "\<not> o_ephemeron_value_is_ref x"
        have "scalar_tag (o_ephemeron_value x)" by (rule ref(2) [OF nil [OF k] nr])
        then show "scalar_tag ?v" using k nr by (simp only: if_False)
      qed
    qed
  next
    case other
    then show ?thesis using staged by (simp add: final_object_plain)
  qed
qed

lemma moved_holds:
  assumes rel: "relocation h L res" and m: "moved_heap h L res h1"
  shows "holds h1 d y \<longleftrightarrow> (\<exists>s\<in>L. d = slide h L s \<and> y = final_object (r_forwarding res) (object_at h s))"
proof
  assume "holds h1 d y"
  then show "\<exists>s\<in>L. d = slide h L s \<and> y = final_object (r_forwarding res) (object_at h s)"
    using m by (fastforce simp: moved_heap_def holds_def)
next
  assume "\<exists>s\<in>L. d = slide h L s \<and> y = final_object (r_forwarding res) (object_at h s)"
  then show "holds h1 d y"
    using m relocation_slots(2) [OF rel] by (auto simp: moved_heap_def holds_def)
qed

lemma moved_id_at:
  "moved_heap h L res h1 \<Longrightarrow> id_at h1 (slide h L s) = moved_id h L res s"
  by (simp add: id_at_def moved_id_def moved_heap_def)

lemma moved_current:
  assumes rel: "relocation h L res" and m: "moved_heap h L res h1" and s: "s \<in> L"
  shows "current_slot h1 (moved_id h L res s)"
    "object_at h1 (slide h L s) = final_object (r_forwarding res) (object_at h s)"
proof -
  have h: "holds h1 (slide h L s) (final_object (r_forwarding res) (object_at h s))"
    using s by (auto simp: moved_holds [OF rel m])
  then show "object_at h1 (slide h L s) = final_object (r_forwarding res) (object_at h s)"
    by (rule holds_object_at)
  show "current_slot h1 (moved_id h L res s)"
    using h m new_generation(1) [OF rel s] relocationD(7) [OF rel] relocation_slots(2) [OF rel s]
    by (simp add: current_slot_def moved_id_props [OF rel s] moved_heap_def holds_def)
qed

lemma moved_valid:
  assumes rel: "relocation h L res" and m: "moved_heap h L res h1"
  shows "refers_into h L v \<Longrightarrow> valid_ref h1 (move_value (r_forwarding res) v)"
    "valid_ref h1 (weak_value (r_forwarding res) v)"
  using moved_current(1) [OF rel m]
  by (cases v; auto simp: forwarded_iff [OF rel] refers_into_def)+

lemma moved_plain: "relocation h L res \<Longrightarrow> moved_heap h L res h1 \<Longrightarrow> plain_identities h1"
  using heap_wfD(1) [OF relocationD(1)] by (simp add: plain_identities_def moved_heap_def)

lemma moved_generations_ok:
  assumes rel: "relocation h L res" and m: "moved_heap h L res h1"
  shows "generations_ok h1"
proof -
  note D = relocationD [OF rel]
  have "r_generations res ! d \<le> kMaxGeneration" if d: "d < length (h_objects h)" for d
  proof (cases "\<exists>s\<in>L. d = slide h L s")
    case True
    then show ?thesis using new_generation(2) [OF rel] by blast
  next
    case False
    then have "r_generations res ! d = h_generations h ! d"
      using D(4) d by (auto simp: compacted_upto_def)
    then show ?thesis using heap_wfD(3) [OF D(1)] d by (simp add: generations_ok_def)
  qed
  then have "\<forall>g\<in>set (r_generations res). g \<le> kMaxGeneration"
    using D(7) by (auto simp: in_set_conv_nth)
  moreover have "r_generations res ! d \<noteq> 0" if "holds h1 d y" for d y
    using that new_generation(1) [OF rel] by (auto simp: moved_holds [OF rel m])
  ultimately show ?thesis using m D(7) by (simp add: generations_ok_def moved_heap_def)
qed

lemma moved_fields_valid:
  assumes rel: "relocation h L res" and m: "moved_heap h L res h1"
  shows "fields_valid h1"
  unfolding fields_valid_def
proof (intro allI impI)
  fix d y v assume "holds h1 d y" and v: "v \<in> set (reference_fields y)"
  then obtain s where s: "s \<in> L" "y = final_object (r_forwarding res) (object_at h s)"
    by (auto simp: moved_holds [OF rel m])
  with v obtain w where "w \<in> set (reference_fields (object_at h s))" "v = move_value (r_forwarding res) w"
    by auto
  then show "valid_ref h1 v"
    using relocation_fields [OF rel s(1)] moved_valid(1) [OF rel m] by blast
qed

lemma moved_all_old:
  assumes rel: "relocation h L res" and m: "moved_heap h L res h1" and "holds h1 d y"
  shows "o_generation y = Old" "\<not> o_marked y" "shape_ok y"
proof -
  obtain s where s: "s \<in> L" "y = final_object (r_forwarding res) (object_at h s)"
    using assms(3) by (auto simp: moved_holds [OF rel m])
  then show "o_generation y = Old" "\<not> o_marked y" by simp_all
  show "shape_ok y"
    unfolding s(2)
    by (rule final_object_shape, rule heap_wf_shape [OF relocationD(1) [OF rel] relocation_slots(5) [OF rel s(1)]])
qed

lemma string_bytes_checked:
  assumes "current_slot h i" and "shape_ok (object_at h (slot_index i))"
  shows "string_bytes i h = (if o_kind (object_at h (slot_index i)) = Str
    then Inr (o_string_bytes (object_at h (slot_index i))) else Inl (Logic_error msg_not_string))"
  using assms by (simp add: string_bytes_def checked_string_def checked_kind_def Let_def)

lemma moved_string_bytes:
  assumes rel: "relocation h L res" and m: "moved_heap h L res h1" and s: "slot_index i \<in> L" and cur: "current_slot h i"
  shows "string_bytes (moved_id h L res (slot_index i)) h1 = string_bytes i h"
proof -
  have shape: "shape_ok (object_at h (slot_index i))"
    by (rule heap_wf_shape [OF relocationD(1) [OF rel] relocation_slots(5) [OF rel s]])
  show ?thesis
    using string_bytes_checked [OF cur shape] string_bytes_checked [OF moved_current(1) [OF rel m s]]
      final_object_shape [OF shape] s
    by (simp add: moved_id_props [OF rel s] moved_current(2) [OF rel m s])
qed

text \<open>The index validator sees the entries through the hashes of their keys only.\<close>

lemma validate_map_lookup_index_cong:
  assumes "list_all2 (\<lambda>e e'. kh (e_key e) = kh' (e_key e')) es es'"
  shows "validate_map_lookup_index kh es index = validate_map_lookup_index kh' es' index"
proof -
  have len: "length es = length es'" using assms by (rule list_all2_lengthD)
  have fold: "efold (\<lambda>(entry, e) (hashes, expected). ebind (kh (e_key e)) (\<lambda>hash.
         ebind (place_entry expected hash entry) (\<lambda>expected'. Inr (hashes @ [hash], expected')))) (zip ns es) st
    = efold (\<lambda>(entry, e) (hashes, expected). ebind (kh' (e_key e)) (\<lambda>hash.
         ebind (place_entry expected hash entry) (\<lambda>expected'. Inr (hashes @ [hash], expected')))) (zip ns es') st"
    for ns st
    using assms
  proof (induction es es' arbitrary: ns st rule: list_all2_induct)
    case (Cons e es e' es')
    show ?case
    proof (cases ns)
      case (Cons n ns)
      have "efold (\<lambda>(entry, e) (hashes, expected). ebind (kh (e_key e)) (\<lambda>hash.
         ebind (place_entry expected hash entry) (\<lambda>expected'. Inr (hashes @ [hash], expected')))) (zip ns es)
        = efold (\<lambda>(entry, e) (hashes, expected). ebind (kh' (e_key e)) (\<lambda>hash.
         ebind (place_entry expected hash entry) (\<lambda>expected'. Inr (hashes @ [hash], expected')))) (zip ns es')"
        by (rule ext) (rule Cons.IH)
      then show ?thesis using Cons Cons.hyps by simp
    qed simp
  qed simp
  show ?thesis unfolding validate_map_lookup_index_def fold len ..
qed

lemma map_entries_final:
  assumes "o_kind x = Map_kind"
  shows "o_map_entries (final_object fwd x) = map (\<lambda>e. e\<lparr>
      e_key := (if o_map_key_is_ref x then move_value fwd (e_key e) else e_key e),
      e_value := (if o_map_value_is_ref x then move_value fwd (e_value e) else e_value e)\<rparr>) (o_map_entries x)"
  using assms by (simp add: final_object_def Let_def map_reference_fields_def moved_copy_eq)

lemma map_shape_keys:
  assumes "shape_ok x" and "o_kind x = Map_kind" and "e \<in> set (o_map_entries x)"
  shows "o_map_key_is_ref x \<Longrightarrow> is_object (e_key e)" "\<not> o_map_key_is_ref x \<Longrightarrow> scalar_tag (e_key e)"
    "o_map_value_is_ref x \<Longrightarrow> reference_tag (e_value e)" "\<not> o_map_value_is_ref x \<Longrightarrow> scalar_tag (e_value e)"
proof -
  have "(if o_map_key_is_ref x then is_object (e_key e) else scalar_tag (e_key e)) \<and>
      (if o_map_value_is_ref x then reference_tag (e_value e) else scalar_tag (e_value e))"
    using assms
    by (auto simp: validate_descriptor_shape_def shape_map_def ethen_Inr_iff eall_ok_iff split: if_splits)
  then show "o_map_key_is_ref x \<Longrightarrow> is_object (e_key e)" "\<not> o_map_key_is_ref x \<Longrightarrow> scalar_tag (e_key e)"
    "o_map_value_is_ref x \<Longrightarrow> reference_tag (e_value e)" "\<not> o_map_value_is_ref x \<Longrightarrow> scalar_tag (e_value e)"
    by simp_all
qed

lemma moved_key_hash:
  assumes rel: "relocation h L res" and m: "moved_heap h L res h1" and s: "s \<in> L"
    and k: "o_kind (object_at h s) = Map_kind" and e: "e \<in> set (o_map_entries (object_at h s))"
  shows "map_key_hash h1 (if o_map_key_is_ref (object_at h s) then move_value (r_forwarding res) (e_key e)
      else e_key e) = map_key_hash h (e_key e)"
proof (cases "o_map_key_is_ref (object_at h s)")
  case True
  have shape: "shape_ok (object_at h s)"
    by (rule heap_wf_shape [OF relocationD(1) [OF rel] relocation_slots(5) [OF rel s]])
  obtain i where i: "e_key e = VObject i"
    using map_shape_keys(1) [OF shape k e True] by (auto simp: is_object_iff)
  have "e_key e \<in> set (reference_fields (object_at h s))"
    using True k e by (auto simp: reference_fields_def intro!: bexI [of _ e])
  then have "refers_into h L (e_key e)" by (rule relocation_fields [OF rel s])
  then show ?thesis
    using True i moved_string_bytes [OF rel m] by (simp add: refers_into_def forwarded_iff [OF rel])
next
  case False
  have shape: "shape_ok (object_at h s)"
    by (rule heap_wf_shape [OF relocationD(1) [OF rel] relocation_slots(5) [OF rel s]])
  from map_shape_keys(2) [OF shape k e False] False show ?thesis
    by (cases "e_key e") (auto simp: scalar_tag_def)
qed

lemma moved_map_index:
  assumes rel: "relocation h L res" and m: "moved_heap h L res h1" and s: "s \<in> L"
    and k: "o_kind (object_at h s) = Map_kind"
  shows "validate_map_index (final_object (r_forwarding res) (object_at h s)) h1 = Inr ()"
proof -
  note D = relocationD [OF rel]
  have "validate_map_index (object_at h s) h = Inr ()"
    using heap_wfD(4) [OF D(1)] relocation_slots(5) [OF rel s] k by (auto simp: layout_ok_def slot_layout_ok_def)
  moreover have "validate_map_lookup_index (map_key_hash h1)
      (o_map_entries (final_object (r_forwarding res) (object_at h s))) index =
    validate_map_lookup_index (map_key_hash h) (o_map_entries (object_at h s)) index" for index
    using moved_key_hash [OF rel m s k]
    by (intro validate_map_lookup_index_cong)
      (auto simp: map_entries_final [OF k] list_all2_conv_all_nth)
  ultimately show ?thesis using k by (simp add: validate_map_index_def)
qed

lemma moved_layout:
  assumes rel: "relocation h L res" and m: "moved_heap h L res h1"
  shows "layout_ok h1"
  unfolding layout_ok_def
proof (intro allI impI)
  fix d y assume d: "holds h1 d y"
  then obtain s where s: "s \<in> L" "d = slide h L s" "y = final_object (r_forwarding res) (object_at h s)"
    by (auto simp: moved_holds [OF rel m])
  note S = relocation_slots [OF rel s(1)]
  have w: "storage_slot_count y = slot_width h s" by (simp add: s slot_width_def)
  have len: "length (h_objects h1) = length (h_objects h)" using m by (simp add: moved_heap_def)
  have "h_objects h1 ! (d + e) = None" if e: "0 < e" "e < slot_width h s" for e
  proof -
    have "d + e \<noteq> slide h L t" if "t \<in> L" for t
      using slide_step [of s t L h] slide_mono [of t s h L] s e that
      by (cases "t = s"; cases "s < t") (auto simp: not_less)
    moreover have "d + e < length (h_objects h)" using e S(4) s(2) by simp
    ultimately show ?thesis using m by (simp add: moved_heap_def)
  qed
  then show "slot_layout_ok h1 d y"
    unfolding slot_layout_ok_def w len
    using moved_all_old(3) [OF rel m d] moved_map_index [OF rel m s(1)] S(4) s(2,3) by simp
qed

lemma moved_kind_slots:
  assumes rel: "relocation h L res" and m: "moved_heap h L res h1"
  shows "kind_slots k h1 = map (slide h L) (filter (\<lambda>s. s \<in> L) (kind_slots k h))"
proof (rule sorted_distinct_set_unique)
  let ?r = "map (slide h L) (filter (\<lambda>s. s \<in> L) (kind_slots k h))"
  have "sorted_wrt (<) (filter (\<lambda>s. s \<in> L) (kind_slots k h))"
    unfolding kind_slots_def by (intro sorted_wrt_filter) simp
  then have "sorted_wrt (<) ?r"
    unfolding sorted_wrt_map by (rule sorted_wrt_mono_rel [rotated]) (use slide_less in auto)
  then show "sorted ?r" "distinct ?r" by (simp_all add: strict_sorted_iff)
  show "sorted (kind_slots k h1)" by (simp add: kind_slots_def sorted_wrt_filter)
  show "set (kind_slots k h1) = set ?r"
  proof -
    have "d \<in> set (kind_slots k h1) \<longleftrightarrow> (\<exists>s\<in>L. d = slide h L s \<and> o_kind (object_at h s) = k)" for d
      unfolding kind_slots_iff moved_holds [OF rel m] using moved_current(2) [OF rel m] by auto
    then show ?thesis using relocation_slots(5) [OF rel] by (auto simp: kind_slots_iff)
  qed
qed simp

lemma moved_weak_ok:
  assumes rel: "relocation h L res" and m: "moved_heap h L res h1"
  shows "weak_ok h1"
proof -
  have "weak_slot_good h1 (slide h L s)" if s: "s \<in> L" "s \<in> set (kind_slots WeakRef h)" for s
  proof -
    have w: "weak_slot_good h s" using heap_wfD(7) [OF relocationD(1) [OF rel]] s by (simp add: weak_ok_def)
    have "o_weak_target (final_object (r_forwarding res) (object_at h s)) =
        weak_value (r_forwarding res) (o_weak_target (object_at h s))"
      using s by (simp add: kind_slots_iff final_object_def Let_def)
    then show ?thesis
      using w moved_current [OF rel m s(1)] moved_valid(2) [OF rel m] weak_value_tags
      by (auto simp: weak_slot_good_def moved_id_at [OF m])
  qed
  then show ?thesis
    using m by (auto simp: weak_ok_def moved_kind_slots [OF rel m] moved_heap_def moved_id_at [OF m])
qed

lemma moved_ephemerons_ok:
  assumes rel: "relocation h L res" and m: "moved_heap h L res h1"
  shows "ephemerons_ok h1"
proof -
  have "ephemeron_slot_good h1 (slide h L s)" if s: "s \<in> L" "s \<in> set (kind_slots Ephemeron h)" for s
  proof -
    let ?x = "object_at h s" and ?fwd = "r_forwarding res"
    have good: "ephemeron_slot_good h s"
      using heap_wfD(9) [OF relocationD(1) [OF rel]] s by (simp add: ephemerons_ok_def)
    have kind: "o_kind ?x = Ephemeron" using s by (simp add: kind_slots_iff)
    have key: "o_ephemeron_key (final_object ?fwd ?x) = weak_value ?fwd (o_ephemeron_key ?x)"
      and val: "o_ephemeron_value (final_object ?fwd ?x) = (if weak_value ?fwd (o_ephemeron_key ?x) = VNil then VNil
        else if o_ephemeron_value_is_ref ?x then move_value ?fwd (o_ephemeron_value ?x) else o_ephemeron_value ?x)"
      using kind by (simp_all add: final_object_def Let_def)
    have "valid_ref h1 (o_ephemeron_value (final_object ?fwd ?x))" if r: "o_ephemeron_value_is_ref ?x"
    proof (cases "weak_value ?fwd (o_ephemeron_key ?x) = VNil")
      case False
      have "slot_index k \<in> L" if "o_ephemeron_key ?x = VObject k" for k
        using False that by (auto simp: forwarded_iff [OF rel] split: if_splits)
      moreover have "reference_tag (o_ephemeron_key ?x)"
        using good kind by (auto simp: ephemeron_slot_good_def validate_descriptor_shape_def
            shape_ephemeron_def ethen_Inr_iff Let_def)
      then have "\<exists>k. o_ephemeron_key ?x = VObject k"
        using False by (cases "o_ephemeron_key ?x") (auto simp: reference_tag_def)
      ultimately have "refers_into h L (o_ephemeron_value ?x)"
        using good r s(1) kind relocationD(3) [OF rel]
        by (auto simp: refers_into_def ephemeron_slot_good_def move_closed_def)
      then show ?thesis using r False moved_valid(1) [OF rel m] by (simp add: val)
    qed (simp add: val)
    then show ?thesis
      using good moved_current [OF rel m s(1)] moved_valid(2) [OF rel m] final_object_shape
      by (auto simp: ephemeron_slot_good_def moved_id_at [OF m] key)
  qed
  then show ?thesis
    using m by (auto simp: ephemerons_ok_def moved_kind_slots [OF rel m] moved_heap_def moved_id_at [OF m])
qed

lemma interns_ok_iff:
  "interns_ok h \<longleftrightarrow> (\<forall>e\<in>set (h_intern_table h). intern_entry_ok h e) \<and>
     sorted_wrt (\<lambda>e e'. slot_index (canonical e) < slot_index (canonical e') \<and>
       o_string_bytes (intern_object h e) \<noteq> o_string_bytes (intern_object h e')) (h_intern_table h)"
  unfolding interns_ok_def interns_ok_upto_def sorted_wrt_iff_nth_less all_set_conv_all_nth by auto

lemma moved_interns_ok:
  assumes rel: "relocation h L res" and m: "moved_heap h L res h1"
  shows "interns_ok h1"
proof -
  let ?kept = "filter (\<lambda>e. slot_index (canonical e) \<in> L) (h_intern_table h)"
  let ?mv = "\<lambda>e. e\<lparr>canonical := moved_id h L res (slot_index (canonical e))\<rparr>"
  have ok: "interns_ok h" by (rule heap_wfD(8) [OF relocationD(1) [OF rel]])
  note entry = ok [unfolded interns_ok_iff, THEN conjunct1, rule_format]
  note pair = ok [unfolded interns_ok_iff, THEN conjunct2]
  have moved_obj: "intern_object h1 (?mv e) = final_object (r_forwarding res) (intern_object h e)"
    if "slot_index (canonical e) \<in> L" for e
    using moved_current(2) [OF rel m that] by (simp add: intern_object_def moved_id_props [OF rel that])
  have good: "intern_entry_ok h1 (?mv e)" if e: "e \<in> set ?kept" for e
  proof -
    have L: "slot_index (canonical e) \<in> L" using e by simp
    have old: "intern_entry_ok h e" using e entry by simp
    show ?thesis
      using old moved_current(1) [OF rel m L] final_object_shape
      unfolding intern_entry_ok_def moved_obj [OF L] by simp
  qed
  have "sorted_wrt (\<lambda>e e'. slot_index (canonical e) < slot_index (canonical e') \<and>
      o_string_bytes (intern_object h1 e) \<noteq> o_string_bytes (intern_object h1 e')) (map ?mv ?kept)"
    unfolding sorted_wrt_map
  proof (rule sorted_wrt_mono_rel)
    show "sorted_wrt (\<lambda>e e'. slot_index (canonical e) < slot_index (canonical e') \<and>
      o_string_bytes (intern_object h e) \<noteq> o_string_bytes (intern_object h e')) ?kept"
      by (rule sorted_wrt_filter [OF pair])
    fix e e' assume "e \<in> set ?kept" "e' \<in> set ?kept" and lt: "slot_index (canonical e) < slot_index (canonical e') \<and>
      o_string_bytes (intern_object h e) \<noteq> o_string_bytes (intern_object h e')"
    then have L: "slot_index (canonical e) \<in> L" "slot_index (canonical e') \<in> L" by simp_all
    show "slot_index (canonical (?mv e)) < slot_index (canonical (?mv e')) \<and>
      o_string_bytes (intern_object h1 (?mv e)) \<noteq> o_string_bytes (intern_object h1 (?mv e'))"
      using lt slide_less [OF _ L(1)] unfolding moved_obj [OF L(1)] moved_obj [OF L(2)]
      by (simp add: moved_id_props [OF rel L(1)] moved_id_props [OF rel L(2)])
  qed
  moreover have "\<forall>e\<in>set (map ?mv ?kept). intern_entry_ok h1 e" using good by auto
  moreover have "h_intern_table h1 = map ?mv ?kept" using m by (simp add: moved_heap_def)
  ultimately show ?thesis unfolding interns_ok_iff by (simp only: simp_thms)
qed

subsection \<open>The whole move\<close>

lemma checked_slot_cong:
  assumes "h_objects k = h_objects h" and "h_generations k = h_generations h"
    and "h_compaction_active k = h_compaction_active h" and "h_source_ids k = h_source_ids h"
    and "h_forwarding k = h_forwarding h"
  shows "checked_slot i k = checked_slot i h"
  unfolding checked_slot_def current_slot_def assms by (rule refl)

lemma process_interns_ok:
  assumes rel: "relocation h L res" and like: "reads_like h k"
    and regs: "h_intern_table k = h_intern_table h" and skip: "\<not> h_skip_next_intern_processing k"
  shows "process_intern_table (r_forwarding res) True k =
    (Inr (map (\<lambda>e. e\<lparr>canonical := moved_id h L res (slot_index (canonical e))\<rparr>)
       (filter (\<lambda>e. slot_index (canonical e) \<in> L) (h_intern_table h))),
     k\<lparr>h_skip_next_intern_processing := False\<rparr>)"
proof -
  note D = relocationD [OF rel]
  let ?mv = "\<lambda>e. e\<lparr>canonical := moved_id h L res (slot_index (canonical e))\<rparr>"
  let ?kept = "filter (\<lambda>e. slot_index (canonical e) \<in> L)"
  note ok = heap_wfD(8) [OF D(1), unfolded interns_ok_iff]
  let ?k = "k\<lparr>h_skip_next_intern_processing := False\<rparr>"
  have same: "checked_slot i ?k = checked_slot i k" for i
    by (rule checked_slot_cong) simp_all
  have "efold (process_intern_entry ?k (r_forwarding res) False True) tbl acc = Inr (acc @ map ?mv (?kept tbl))"
    if "set tbl \<subseteq> set (h_intern_table h)" for tbl acc
    using that
  proof (induction tbl arbitrary: acc)
    case (Cons e tbl)
    then have "checked_slot (canonical e) ?k = Inr (slot_index (canonical e))"
      using ok like same by (auto simp: intern_entry_ok_def reads_like_def)
    then show ?case using Cons by (simp add: process_intern_entry_def forwarded_iff [OF rel])
  qed simp
  moreover have "sort_key (slot_index \<circ> canonical) (map ?mv (?kept (h_intern_table h))) = map ?mv (?kept (h_intern_table h))"
  proof (rule sort_key_id_if_sorted)
    have "sorted_wrt (\<lambda>e e'. slot_index (canonical e) < slot_index (canonical e')) (?kept (h_intern_table h))"
      using ok by (intro sorted_wrt_filter) (auto elim!: sorted_wrt_mono_rel [rotated])
    then have "sorted_wrt (\<lambda>e e'. slide h L (slot_index (canonical e)) \<le> slide h L (slot_index (canonical e')))
        (?kept (h_intern_table h))"
      by (rule sorted_wrt_mono_rel [rotated]) (simp add: slide_mono)
    then show "sorted (map (slot_index \<circ> canonical) (map ?mv (?kept (h_intern_table h))))"
      unfolding map_map sorted_wrt_map
      by (rule sorted_wrt_mono_rel [rotated]) (simp add: moved_id_props [OF rel])
  qed
  moreover have skipF: "(True \<and> h_skip_next_intern_processing k) = False" using skip by simp
  ultimately show ?thesis
    unfolding process_intern_table_def sx_defs
    using regs by (simp add: skip)
qed

lemma rewrite_remembered_set_ok:
  assumes "heap_wf h" and "reads_like h k" and "h_remembered_set k = h_remembered_set h"
  shows "\<exists>rs. rewrite_remembered_set k fwd = Inr rs"
proof -
  have "\<exists>rs. efold (\<lambda>remembered rewritten. ebind (checked_slot remembered k) (\<lambda>old_slot.
       case forwarded fwd old_slot of None \<Rightarrow> Inr rewritten
       | Some j \<Rightarrow> Inr (if j \<in> set rewritten then rewritten else rewritten @ [j]))) xs acc = Inr rs"
    if "set xs \<subseteq> set (h_remembered_set h)" for xs acc
    using that
  proof (induction xs arbitrary: acc)
    case (Cons i xs)
    then have "checked_slot i k = Inr (slot_index i)"
      using assms(1,2) heap_wfD(6) by (auto simp: remembered_ok_def reads_like_def)
    then show ?case using Cons by (auto split: option.split)
  qed simp
  then show ?thesis using assms(3) by (simp add: rewrite_remembered_set_def)
qed

text \<open>When no object is young, no field names a young object.\<close>

definition all_old :: "gcheap \<Rightarrow> bool" where
  "all_old h \<longleftrightarrow> plain_identities h \<and> fields_valid h \<and>
     (\<forall>s x. holds h s x \<longrightarrow> o_generation x = Old \<and> shape_ok x)"

lemma no_young_reference:
  assumes old: "all_old h" and x: "holds h s x"
  shows "has_young_reference h x = Inr False"
proof -
  have "efold (\<lambda>v has. if \<not> is_object v then Inr has
       else ebind (as_object v) (\<lambda>i. ebind (checked_slot i h) (\<lambda>slot.
         if has then Inr True else is_young_slot slot h))) vs False = Inr False"
    if "set vs \<subseteq> set (reference_fields x)" for vs
    using that
  proof (induction vs)
    case (Cons v vs)
    show ?case
    proof (cases v)
      case (VObject i)
      then have cur: "current_slot h i" using Cons.prems old x by (auto simp: all_old_def intro: fields_validD)
      then have "is_young_slot (slot_index i) h = Inr False"
        using current_slot_holds [OF cur] old by (auto simp: all_old_def)
      with VObject cur Cons show ?thesis by simp
    qed (use Cons in simp_all)
  qed simp
  then show ?thesis
    using old x by (auto simp: has_young_reference_def all_old_def visit_reference_fields_ok)
qed

lemma record_promoted_all_old:
  assumes "all_old h" and "\<forall>s\<in>set ps. h_objects h ! s \<noteq> None \<and> s < length (h_objects h)"
  shows "record_promoted_object_edges ps h = (Inr (), h)"
  unfolding record_promoted_object_edges_def
  using assms(2)
proof (induction ps)
  case (Cons s ps)
  then obtain x where x: "holds h s x" by (auto simp: holds_def)
  have "record_promoted_slot s h = (Inr (), h)"
    using x assms(1) no_young_reference [OF assms(1) x]
    by (auto simp: record_promoted_slot_def sx_defs holds_object_at all_old_def)
      (auto simp: holds_def)
  then show ?case using Cons by (simp add: sx_then_def sx_bind_def)
qed (simp add: sx_return_def)

lemma prune_all_old:
  assumes old: "all_old h"
  shows "prune_remembered_set h = (Inr (), h\<lparr>h_remembered_set := []\<rparr>)"
proof -
  have "efold (prune_slot h) [0..<n] [] = Inr []" if "n \<le> length (h_objects h)" for n
    using that
  proof (induction n)
    case (Suc n)
    have "prune_slot h n [] = Inr []"
    proof (cases "h_objects h ! n")
      case (Some x)
      then have "holds h n x" using Suc.prems by (simp add: holds_def)
      with Some no_young_reference [OF old] show ?thesis by (simp add: prune_slot_def)
    qed (simp add: prune_slot_def)
    then show ?case using Suc by (simp add: efold_upt_Suc del: upt_Suc)
  qed simp
  then show ?thesis by (simp add: prune_remembered_set_def sx_defs)
qed

lemma moved_heap_wf:
  assumes rel: "relocation h L res" and m: "moved_heap h L res h1" and "h_remembered_set h1 = []"
  shows "heap_wf h1" "marks_clear h1"
proof -
  note W = moved_plain [OF rel m] moved_generations_ok [OF rel m] moved_layout [OF rel m]
    moved_fields_valid [OF rel m] moved_weak_ok [OF rel m] moved_interns_ok [OF rel m]
    moved_ephemerons_ok [OF rel m]
  have "remembered_ok h1"
  proof -
    have "o_generation (object_at h1 (slot_index i)) = Old" if "holds h1 s x" "VObject i \<in> set (reference_fields x)" for s x i
      using moved_all_old(1) [OF rel m current_slot_holds] fields_validD [OF W(4) that] by blast
    then show ?thesis using assms(3) by (auto simp: remembered_ok_def)
  qed
  with W show "heap_wf h1" by (simp add: heap_wf_def)
  show "marks_clear h1" using moved_all_old(2) [OF rel m] by (auto simp: marks_clear_def)
qed

lemma moved_heap_frame:
  assumes "h_objects k = h_objects h1" "h_generations k = h_generations h1"
    "h_compaction_active k = h_compaction_active h1" "h_weak_refs k = h_weak_refs h1"
    "h_ephemerons k = h_ephemerons h1" "h_intern_table k = h_intern_table h1"
  shows "moved_heap h L res k = moved_heap h L res h1"
  unfolding moved_heap_def assms by (rule refl)

definition keeps_heap :: "(gcheap \<Rightarrow> gcheap) \<Rightarrow> bool" where
  "keeps_heap f \<longleftrightarrow> (\<forall>k. h_objects (f k) = h_objects k \<and> h_generations (f k) = h_generations k \<and>
     h_compaction_active (f k) = h_compaction_active k \<and> h_weak_refs (f k) = h_weak_refs k \<and>
     h_ephemerons (f k) = h_ephemerons k \<and> h_intern_table (f k) = h_intern_table k \<and>
     h_roots (f k) = h_roots k \<and> h_handle_roots (f k) = h_handle_roots k)"

lemma keeps_heapD:
  assumes "keeps_heap f"
  shows "h_objects (f k) = h_objects k" "h_generations (f k) = h_generations k"
    "h_compaction_active (f k) = h_compaction_active k" "h_weak_refs (f k) = h_weak_refs k"
    "h_ephemerons (f k) = h_ephemerons k" "h_intern_table (f k) = h_intern_table k"
    "h_roots (f k) = h_roots k" "h_handle_roots (f k) = h_handle_roots k"
  using assms by (simp_all add: keeps_heap_def)

text \<open>The heap after a move: the roots rewritten, the survivors slid down, the registries renamed.\<close>

definition moved_state :: "gcheap \<Rightarrow> nat set \<Rightarrow> compaction_result \<Rightarrow> gcheap \<Rightarrow> gcobj option list \<Rightarrow> object_id list \<Rightarrow> gcheap" where
  "moved_state h L res k objs rs = (let mv = move_value (r_forwarding res) in
     k\<lparr>h_roots := map mv (h_roots k), h_handle_roots := map (apsnd mv) (h_handle_roots k),
       h_skip_next_intern_processing := False, h_objects := objs, h_generations := r_generations res,
       h_remembered_set := rs,
       h_weak_refs := map (moved_id h L res) (filter (\<lambda>s. s \<in> L) (kind_slots WeakRef h)),
       h_intern_table := map (\<lambda>e. e\<lparr>canonical := moved_id h L res (slot_index (canonical e))\<rparr>)
         (filter (\<lambda>e. slot_index (canonical e) \<in> L) (h_intern_table h)),
       h_ephemerons := map (moved_id h L res) (filter (\<lambda>s. s \<in> L) (kind_slots Ephemeron h))\<rparr>)"

lemma move_live_objects_ok:
  assumes wf: "heap_wf h" and go: "(\<forall>g\<in>set (h_generations h). g < kMaxGeneration) \<or>
      (\<exists>r. compact_live_objects kind (with_marks h M) = Inr r)"
    and closed: "move_closed h (kept_slots kind h M)"
    and roots: "\<And>v. v \<in> set (collection_roots h extra) \<Longrightarrow> refers_into h (kept_slots kind h M) v"
    and skip: "\<not> h_skip_next_intern_processing h" and inst: "keeps_heap installed"
  shows "\<exists>res objs rs. let L = kept_slots kind h M;
      h' = (installed (moved_state h L res (with_marks h M) objs rs))\<lparr>h_remembered_set := []\<rparr> in
    relocation h L res \<and>
    move_live_objects kind installed extra (with_marks h M) =
      (Inr (map (move_value (r_forwarding res)) extra), h') \<and>
    moved_heap h L res h' \<and> heap_wf h' \<and> marks_clear h'"
proof -
  let ?L = "kept_slots kind h M" and ?k = "with_marks h M"
  obtain res where c: "compact_live_objects kind ?k = Inr res"
    "compacted_upto h ?L (length (h_objects h)) res"
    using compact_marked_ok [OF wf go] by blast
  have rel: "relocation h ?L res"
    using wf closed c(2) by (auto simp: relocation_def kept_slots_def)
  let ?fwd = "r_forwarding res" and ?mv = "move_value (r_forwarding res)"
  let ?k1 = "?k\<lparr>h_roots := map ?mv (h_roots ?k), h_handle_roots := map (apsnd ?mv) (h_handle_roots ?k)\<rparr>"
  have like1: "reads_like h ?k1"
    unfolding reads_like_def
  proof
    fix i
    have "checked_slot i ?k1 = checked_slot i ?k" by (rule checked_slot_cong) simp_all
    then show "checked_slot i ?k1 = checked_slot i h" by simp
  qed
  have r: "rewrite_collection_roots (\<lambda>h. rewrite_value h ?fwd) extra ?k = (Inr (map ?mv extra), ?k1)"
  proof (rule rewrite_collection_roots_map)
    fix v assume "v \<in> set (collection_roots ?k extra)"
    then have "refers_into h ?L v" using roots by (simp add: collection_roots_def)
    then show "rewrite_value ?k ?fwd v = Inr (?mv v)" by (rule rewrite_value_eq [OF rel reads_like_with_marks])
  qed
  define objs1 where "objs1 = map (map_option (map_reference_fields ?mv)) (r_objects res)"
  have len1: "length objs1 = length (h_objects h)" by (simp add: objs1_def relocationD(6) [OF rel])
  have stage1: "objs1 ! slide h ?L s = Some (staged_object ?fwd (object_at h s))" if "s \<in> ?L" for s
  proof -
    have "r_objects res ! slide h ?L s = Some (moved_copy (object_at h s))"
      using c(2) relocation_slots(1,2) [OF rel that] that unfolding compacted_upto_def by blast
    then show ?thesis
      using relocation_slots(2) [OF rel that] relocationD(6) [OF rel] by (simp add: objs1_def staged_object_def)
  qed
  have none1: "objs1 ! d = None" if "d < length (h_objects h)" "\<forall>s\<in>?L. d \<noteq> slide h ?L s" for d
  proof -
    have "r_objects res ! d = None"
    proof (rule ccontr)
      assume "r_objects res ! d \<noteq> None"
      then obtain y where "r_objects res ! d = Some y" by blast
      with c(2) that(1) have "\<exists>s\<in>?L. d = slide h ?L s" unfolding compacted_upto_def by blast
      with that(2) show False by blast
    qed
    then show ?thesis
      using that(1) relocationD(6) [OF rel] by (simp add: objs1_def)
  qed
  have refs: "rewrite_references ?fwd (r_objects res) extra ?k = (Inr (map ?mv extra, objs1), ?k1)"
    using r rewrite_objects_eq [OF rel like1] by (simp add: rewrite_references_def sx_defs objs1_def)
  obtain rs where rs: "rewrite_remembered_set ?k1 ?fwd = Inr rs"
    using rewrite_remembered_set_ok [OF wf like1] by auto
  obtain objs2 where o2: "process_weak_targets ?k1 ?fwd objs1 =
      Inr (objs2, map (moved_id h ?L res) (filter (\<lambda>s. s \<in> ?L) (kind_slots WeakRef h)))"
    "length objs2 = length (h_objects h)"
    "\<forall>s\<in>?L. objs2 ! slide h ?L s = Some (if o_kind (object_at h s) = WeakRef
       then final_object ?fwd (object_at h s) else staged_object ?fwd (object_at h s))"
    "\<forall>d. (\<forall>s\<in>?L. d \<noteq> slide h ?L s) \<longrightarrow> objs2 ! d = objs1 ! d"
    using process_weak_targets_ok [OF rel like1 _ len1 stage1] by auto
  let ?k2 = "?k1\<lparr>h_skip_next_intern_processing := False\<rparr>"
  have like2: "reads_like h ?k2"
    unfolding reads_like_def
  proof
    fix i
    have "checked_slot i ?k2 = checked_slot i ?k1" by (rule checked_slot_cong) simp_all
    then show "checked_slot i ?k2 = checked_slot i h" using like1 by (simp add: reads_like_def)
  qed
  have skip1: "\<not> h_skip_next_intern_processing ?k1" using skip by (simp add: with_marks_def)
  have interns: "process_intern_table ?fwd True ?k1 =
    (Inr (map (\<lambda>e. e\<lparr>canonical := moved_id h ?L res (slot_index (canonical e))\<rparr>)
       (filter (\<lambda>e. slot_index (canonical e) \<in> ?L) (h_intern_table h))), ?k2)"
    by (rule process_interns_ok [OF rel like1 _ skip1]) simp
  obtain objs3 where o3: "process_ephemerons ?k2 ?fwd objs2 =
      Inr (objs3, map (moved_id h ?L res) (filter (\<lambda>s. s \<in> ?L) (kind_slots Ephemeron h)))"
    "length objs3 = length (h_objects h)"
    "\<forall>s\<in>?L. objs3 ! slide h ?L s = Some (final_object ?fwd (object_at h s))"
    "\<forall>d. (\<forall>s\<in>?L. d \<noteq> slide h ?L s) \<longrightarrow> objs3 ! d = objs2 ! d"
    using process_ephemerons_ok [OF rel like2 _ o2(2)] o2(3) by auto
  let ?h1 = "installed (moved_state h ?L res ?k objs3 rs)"
  note K = keeps_heapD [OF inst]
  have m1: "moved_heap h ?L res ?h1"
    using o2(4) o3 none1 heap_wfD(2) [OF wf]
    by (simp add: moved_heap_def K moved_state_def Let_def)
  have old: "all_old ?h1"
    using moved_plain [OF rel m1] moved_fields_valid [OF rel m1] moved_all_old [OF rel m1]
    by (auto simp: all_old_def)
  have occ: "\<forall>d\<in>set (r_promoted_slots res). h_objects ?h1 ! d \<noteq> None \<and> d < length (h_objects ?h1)"
    using c(2) m1 relocation_slots(2) [OF rel] by (auto simp: compacted_upto_def moved_heap_def)
  let ?h' = "?h1\<lparr>h_remembered_set := []\<rparr>"
  have state: "?k2\<lparr>h_objects := objs3, h_generations := r_generations res, h_remembered_set := rs,
      h_weak_refs := map (moved_id h ?L res) (filter (\<lambda>s. s \<in> ?L) (kind_slots WeakRef h)),
      h_intern_table := map (\<lambda>e. e\<lparr>canonical := moved_id h ?L res (slot_index (canonical e))\<rparr>)
       (filter (\<lambda>e. slot_index (canonical e) \<in> ?L) (h_intern_table h)),
      h_ephemerons := map (moved_id h ?L res) (filter (\<lambda>s. s \<in> ?L) (kind_slots Ephemeron h))\<rparr> =
      moved_state h ?L res ?k objs3 rs"
    by (simp add: moved_state_def Let_def)
  have run: "move_live_objects kind installed extra ?k = (Inr (map ?mv extra), ?h')"
    unfolding move_live_objects_def sx_bind_def sx_then_def sx_reads_def sx_modify_def sx_return_def Let_def
    by (simp only: c(1) refs rs o2(1) interns o3(1) state prod.case sum.case
        record_promoted_all_old [OF old occ] prune_all_old [OF old])
  have m': "moved_heap h ?L res ?h'" using m1 by (subst moved_heap_frame [where ?h1.0 = ?h1]) simp_all
  show ?thesis
    unfolding Let_def
    using rel run m' moved_heap_wf [OF rel m'] by (intro exI [of _ res] exI [of _ objs3] exI [of _ rs]) simp
qed

end
