(* ===== verification/GC_Incremental.thy ===== *)
theory GC_Incremental
  imports GC_Move
begin

text \<open>
  Incremental marking and incremental compaction (\<open>src/gc/heap.cpp\<close>): a cycle is started,
  advanced in budgeted steps between mutator operations and finished; each phase carries the
  validators of the code, the tri-colour check after every marking step and the comparison
  with an atomic collection at the end.

  Two details of a throw are not kept: an exception in the middle of the fields of one object
  leaves that object as it was, and the local variables of an operation are lost, as in C++.
\<close>

definition msg_marking_already_active :: string where
  "msg_marking_already_active = ''incremental marking cycle already active''"
definition msg_marking_during_compaction :: string where
  "msg_marking_during_compaction = ''incremental marking cannot start during incremental compaction''"
definition msg_marking_step_inactive :: string where
  "msg_marking_step_inactive = ''incremental marking step without active cycle''"
definition msg_black_to_white :: string where
  "msg_black_to_white = ''incremental tri-colour invariant violated: black-to-white edge''"
definition msg_marking_finish_inactive :: string where
  "msg_marking_finish_inactive = ''incremental marking finish without active cycle''"
definition msg_liveness_mismatch :: "nat \<Rightarrow> string" where
  "msg_liveness_mismatch slot = ''incremental/STW differential liveness mismatch at heap slot '' @ nat_text slot"
definition msg_compaction_already_active :: string where
  "msg_compaction_already_active = ''incremental compaction cycle already active''"
definition msg_compaction_during_marking :: string where
  "msg_compaction_during_marking = ''incremental compaction cannot start during incremental marking''"
definition msg_compaction_step_inactive :: string where
  "msg_compaction_step_inactive = ''incremental compaction step without active cycle''"
definition msg_compaction_source_drift :: string where
  "msg_compaction_source_drift = ''incremental compaction source identity drifted''"
definition msg_compaction_width_drift :: string where
  "msg_compaction_width_drift = ''incremental compaction source width drifted''"
definition msg_compaction_destination :: string where
  "msg_compaction_destination = ''incremental compaction destination exceeds heap storage''"
definition msg_compaction_overlap :: string where
  "msg_compaction_overlap = ''incremental compaction destination overlaps a live header''"
definition msg_compaction_corruption :: string where
  "msg_compaction_corruption = ''test-only compaction corruption requires a scalar pair''"
definition msg_compaction_finish_inactive :: string where
  "msg_compaction_finish_inactive = ''incremental compaction finish without active cycle''"
definition msg_compaction_prepare_active :: string where
  "msg_compaction_prepare_active = ''incremental compaction preparation during active cycle''"
definition msg_compaction_plan :: string where
  "msg_compaction_plan = ''incremental compaction plan exceeds heap storage''"
definition msg_shadow_outside_phase :: string where
  "msg_shadow_outside_phase = ''incremental compaction shadow access outside active phase''"
definition msg_shadow_no_owner :: string where
  "msg_shadow_no_owner = ''incremental compaction mutation has no shadow owner''"
definition msg_not_quiescent :: string where
  "msg_not_quiescent = ''incremental compaction finalized before relocation quiescence''"
definition msg_differential :: "string \<Rightarrow> string" where
  "msg_differential what = ''incremental compaction/STW differential '' @ what"

subsection \<open>Incremental marking\<close>

text \<open>The validators that guard the start of a collection.\<close>

definition validate_before_collection :: "gcheap \<Rightarrow> exn + unit" where
  "validate_before_collection h = ethen (validate_heap_storage_layout h)
     (ethen (validate_remembered_set h)
     (ethen (validate_weak_targets h)
     (ethen (validate_intern_table h)
     (validate_ephemerons h))))"

text \<open>A marking operation on the worklist kept in the heap, and on a local one.\<close>

definition on_heap_worklist :: "(mark_state, 'a) sx \<Rightarrow> (gcheap, 'a) sx" where
  "on_heap_worklist m = (\<lambda>h. case m (h, h_mark_worklist h) of
     (r, (h', worklist)) \<Rightarrow> (r, h'\<lparr>h_mark_worklist := worklist\<rparr>))"

definition on_local_worklist :: "(mark_state, 'a) sx \<Rightarrow> (gcheap, 'a) sx" where
  "on_local_worklist m = (\<lambda>h. case m (h, []) of (r, (h', worklist)) \<Rightarrow> (r, h'))"

definition enqueue_roots :: "collection_kind \<Rightarrow> val list \<Rightarrow> (mark_state, unit) sx" where
  "enqueue_roots kind extra =
     sx_bind (sx_gets (\<lambda>(h, _). collection_roots h extra)) (sx_iter (enqueue_mark_value kind))"

definition start_incremental_marking :: "(gcheap, unit) sx" where
  "start_incremental_marking =
     sx_bind (sx_gets h_marking_active) (\<lambda>marking.
     sx_then (sx_throw_if marking (Logic_error msg_marking_already_active))
     (sx_bind (sx_gets h_compaction_active) (\<lambda>compacting.
     sx_then (sx_throw_if compacting (Logic_error msg_marking_during_compaction))
     (sx_then (sx_reads validate_before_collection)
     (sx_then (sx_modify (\<lambda>h. h\<lparr>h_mark_worklist := []\<rparr>))
     (sx_then (on_heap_worklist (enqueue_roots Major []))
     (sx_modify (\<lambda>h. h\<lparr>h_marking_active := True\<rparr>))))))))"

text \<open>At most \<open>budget\<close> scans; the number of objects scanned.\<close>

fun mark_slice :: "nat \<Rightarrow> nat \<Rightarrow> (mark_state, nat) sx" where
  "mark_slice 0 consumed = sx_return consumed"
| "mark_slice (Suc budget) consumed = sx_bind (scan_next_mark_object Major) (\<lambda>scanned.
     if scanned then mark_slice budget (Suc consumed) else sx_return consumed)"

definition validate_black_object :: "gcheap \<Rightarrow> nat \<Rightarrow> gcobj \<Rightarrow> exn + unit" where
  "validate_black_object h slot x = (if \<not> o_marked x then Inr ()
     else ebind (visit_reference_fields x) (eall (\<lambda>v. if \<not> is_object v then Inr ()
       else ebind (as_object v) (\<lambda>i. ebind (checked_slot i h) (\<lambda>target.
         ethrow_if (\<not> o_marked (object_at h target) \<and> i \<notin> set (h_mark_worklist h))
           (Logic_error msg_black_to_white))))))"

definition validate_incremental_marking :: "gcheap \<Rightarrow> exn + unit" where
  "validate_incremental_marking h = (if \<not> h_marking_active h then Inr ()
     else for_objects (validate_black_object h) h)"

definition incremental_mark_step :: "nat \<Rightarrow> (gcheap, nat) sx" where
  "incremental_mark_step budget =
     sx_bind (sx_gets h_marking_active) (\<lambda>marking.
     sx_then (sx_throw_if (\<not> marking) (Logic_error msg_marking_step_inactive))
     (sx_bind (on_heap_worklist (mark_slice budget 0)) (\<lambda>consumed.
     sx_then (sx_reads validate_incremental_marking)
     (sx_return consumed))))"

text \<open>
  The shadow marking that recomputes liveness without mark bits; \<open>live\<close> holds the slots whose
  bit is set in the vector of the code.
\<close>

definition push_objects :: "val list \<Rightarrow> object_id list \<Rightarrow> object_id list" where
  "push_objects vs worklist = fold (\<lambda>v w. case v of VObject i \<Rightarrow> i # w | _ \<Rightarrow> w) vs worklist"

function shadow_drain :: "gcheap \<Rightarrow> nat set \<Rightarrow> object_id list \<Rightarrow> exn + nat set" where
  "shadow_drain h live [] = Inr live"
| "shadow_drain h live (i # worklist) = (case checked_slot i h of Inl e \<Rightarrow> Inl e
     | Inr slot \<Rightarrow> if slot \<in> live then shadow_drain h live worklist
       else (case visit_reference_fields_for_lifo_marking (object_at h slot) of Inl e \<Rightarrow> Inl e
         | Inr vs \<Rightarrow> shadow_drain h (insert slot live) (push_objects vs worklist)))"
  by pat_completeness auto
termination shadow_drain
proof (relation "(\<lambda>(h, live, worklist). card (occupied_slots h - live)) <*mlex*>
    measure (\<lambda>(h, live, worklist). length worklist)")
  show "wf ((\<lambda>(h, live, worklist). card (occupied_slots h - live)) <*mlex*>
      measure (\<lambda>(h, live, worklist). length (worklist :: object_id list)))"
    by (intro wf_mlex) simp
next
  fix h live i and worklist :: "object_id list" and slot
  show "((h, live, worklist), (h, live, i # worklist)) \<in>
      (\<lambda>(h, live, worklist). card (occupied_slots h - live)) <*mlex*>
      measure (\<lambda>(h, live, worklist). length worklist)"
    by (simp add: mlex_leq)
next
  fix h live i and worklist :: "object_id list" and slot vs
  assume s: "checked_slot i h = Inr slot" "slot \<notin> live"
  have "card (occupied_slots h - insert slot live) < card (occupied_slots h - live)"
    using checked_slot_occupied(3) [OF s(1)] s(2)
    by (intro psubset_card_mono finite_Diff finite_occupied) (auto simp: occupied_slots_def)
  then show "((h, insert slot live, push_objects vs worklist), (h, live, i # worklist)) \<in>
      (\<lambda>(h, live, worklist). card (occupied_slots h - live)) <*mlex*>
      measure (\<lambda>(h, live, worklist). length worklist)"
    by (simp add: mlex_less)
qed

declare shadow_drain.simps [simp del]

text \<open>One pass over the ephemerons: the values to add, last first.\<close>

definition shadow_activation :: "gcheap \<Rightarrow> nat set \<Rightarrow> object_id \<Rightarrow> object_id list \<Rightarrow> exn + object_id list" where
  "shadow_activation h live owner_id worklist =
     ebind (checked_slot owner_id h) (\<lambda>owner_slot.
     if owner_slot \<notin> live then Inr worklist
     else let owner = object_at h owner_slot in
       if \<not> is_object (o_ephemeron_key owner) then Inr worklist
       else ebind (as_object (o_ephemeron_key owner)) (\<lambda>k. ebind (checked_slot k h) (\<lambda>key_slot.
         if key_slot \<notin> live \<or> \<not> o_ephemeron_value_is_ref owner \<or> \<not> is_object (o_ephemeron_value owner)
         then Inr worklist
         else ebind (as_object (o_ephemeron_value owner)) (\<lambda>v. ebind (checked_slot v h) (\<lambda>value_slot.
           if value_slot \<in> live then Inr worklist else Inr (v # worklist))))))"

lemma shadow_activation_new:
  assumes "efold (shadow_activation h live) owners worklist = Inr pending"
  shows "\<exists>new. pending = new @ worklist \<and> (\<forall>i\<in>set new. \<exists>s. checked_slot i h = Inr s \<and> s \<notin> live)"
  using assms
proof (induction owners arbitrary: worklist)
  case (Cons owner owners)
  then obtain w where w: "shadow_activation h live owner worklist = Inr w"
    "efold (shadow_activation h live) owners w = Inr pending" by (auto simp: ebind_Inr_iff)
  have "w = worklist \<or> (\<exists>i s. w = i # worklist \<and> checked_slot i h = Inr s \<and> s \<notin> live)"
    using w(1) by (auto simp: shadow_activation_def ebind_Inr_iff Let_def split: if_splits)
  with Cons.IH [OF w(2)] show ?case by fastforce
qed simp

lemma shadow_drain_covers:
  "shadow_drain h live worklist = Inr live' \<Longrightarrow>
    live \<subseteq> live' \<and> (\<forall>i\<in>set worklist. \<forall>s. checked_slot i h = Inr s \<longrightarrow> s \<in> live')"
proof (induction h live worklist rule: shadow_drain.induct)
  case (2 h live i worklist)
  have push: "set worklist \<subseteq> set (push_objects vs worklist)" for vs
    unfolding push_objects_def
    by (induction vs arbitrary: worklist) (force split: val.split)+
  obtain s where s: "checked_slot i h = Inr s"
    using "2.prems" by (cases "checked_slot i h") (simp_all add: shadow_drain.simps)
  show ?case
  proof (cases "s \<in> live")
    case True
    then show ?thesis using "2.IH"(1) [OF s True] "2.prems" s by (auto simp: shadow_drain.simps)
  next
    case False
    obtain vs where vs: "visit_reference_fields_for_lifo_marking (object_at h s) = Inr vs"
      using "2.prems" s False
      by (cases "visit_reference_fields_for_lifo_marking (object_at h s)") (simp_all add: shadow_drain.simps)
    then have "shadow_drain h (insert s live) (push_objects vs worklist) = Inr live'"
      using "2.prems" s False by (simp add: shadow_drain.simps)
    from "2.IH"(2) [OF s False vs this] push [of vs] s show ?thesis by auto
  qed
qed (simp add: shadow_drain.simps)

function shadow_fixpoint :: "gcheap \<Rightarrow> nat set \<Rightarrow> exn + nat set" where
  "shadow_fixpoint h live = (case efold (shadow_activation h live) (h_ephemerons h) [] of Inl e \<Rightarrow> Inl e
     | Inr pending \<Rightarrow> (case shadow_drain h live pending of Inl e \<Rightarrow> Inl e
       | Inr live' \<Rightarrow> if pending \<noteq> [] then shadow_fixpoint h live' else Inr live'))"
  by pat_completeness auto
termination shadow_fixpoint
proof (relation "measure (\<lambda>(h, live). card (occupied_slots h - live))")
  fix h live pending live'
  assume p: "efold (shadow_activation h live) (h_ephemerons h) [] = Inr pending"
    and d: "shadow_drain h live pending = Inr live'" and "pending \<noteq> []"
  then obtain i s where "i \<in> set pending" "checked_slot i h = Inr s" "s \<notin> live"
    using shadow_activation_new [OF p] by (metis append_Nil2 list.set_intros(1) neq_Nil_conv)
  with shadow_drain_covers [OF d] checked_slot_occupied(3)
  have "s \<in> live'" "live \<subseteq> live'" "s \<in> occupied_slots h" by (auto simp: occupied_slots_def)
  with \<open>s \<notin> live\<close> show "((h, live'), (h, live)) \<in> measure (\<lambda>(h, live). card (occupied_slots h - live))"
    by (auto intro!: psubset_card_mono)
qed simp

declare shadow_fixpoint.simps [simp del]

definition validate_incremental_result_against_atomic :: "gcheap \<Rightarrow> val list \<Rightarrow> exn + unit" where
  "validate_incremental_result_against_atomic h extra =
     ebind (shadow_drain h {} (push_objects (collection_roots h extra) [])) (\<lambda>live.
     ebind (shadow_fixpoint h live) (\<lambda>live'.
     for_objects (\<lambda>slot x. ethrow_if (o_marked x \<noteq> (slot \<in> live'))
       (Logic_error (msg_liveness_mismatch slot))) h))"

definition clear_marks :: "gcheap \<Rightarrow> gcheap" where
  "clear_marks h = h\<lparr>h_objects := map (map_option (\<lambda>x. x\<lparr>o_marked := False\<rparr>)) (h_objects h)\<rparr>"

definition finish_incremental_marking_liveness :: "val list \<Rightarrow> (gcheap, unit) sx" where
  "finish_incremental_marking_liveness extra =
     sx_bind (sx_gets h_marking_active) (\<lambda>marking.
     sx_then (sx_throw_if (\<not> marking) (Logic_error msg_marking_finish_inactive))
     (sx_then (sx_reads validate_incremental_marking)
     (sx_then (sx_modify clear_marks)
     (sx_then (sx_modify (\<lambda>h. h\<lparr>h_mark_worklist := []\<rparr>))
     (sx_then (on_heap_worklist (mark_live_objects Major extra))
     (sx_reads (\<lambda>h. validate_incremental_result_against_atomic h extra)))))))"

definition end_marking_cycle :: "gcheap \<Rightarrow> gcheap" where
  "end_marking_cycle h = h\<lparr>h_mark_worklist := [], h_marking_active := False\<rparr>"

definition finish_incremental_marking_impl :: "val list \<Rightarrow> (gcheap, val list) sx" where
  "finish_incremental_marking_impl extra =
     sx_then (finish_incremental_marking_liveness extra)
     (sx_bind (move_live_objects Major end_marking_cycle extra) (\<lambda>extra'.
     sx_then (sx_reads (\<lambda>h. validate_after_collection h extra'))
     (sx_return extra')))"

definition finish_incremental_marking :: "(gcheap, unit) sx" where
  "finish_incremental_marking = sx_bind (finish_incremental_marking_impl []) (\<lambda>_. sx_return ())"

definition incremental_write_barrier_before_publish :: "object_id \<Rightarrow> val \<Rightarrow> (gcheap, unit) sx" where
  "incremental_write_barrier_before_publish owner v =
     sx_bind (sx_gets (\<lambda>h. \<not> h_marking_active h \<or> \<not> is_object v)) (\<lambda>nothing.
     if nothing then sx_return ()
     else sx_bind (sx_gets h_skip_next_incremental_barrier) (\<lambda>skip.
       if skip then sx_modify (\<lambda>h. h\<lparr>h_skip_next_incremental_barrier := False\<rparr>)
       else sx_bind (sx_reads (checked_slot owner)) (\<lambda>owner_slot.
         sx_bind (sx_lift (as_object v)) (\<lambda>i.
         sx_bind (sx_reads (checked_slot i)) (\<lambda>target_slot.
         sx_modify (\<lambda>h. if o_marked (object_at h owner_slot) \<and> \<not> o_marked (object_at h target_slot)
           then h\<lparr>h_mark_worklist := i # h_mark_worklist h\<rparr> else h))))))"

end
