(* ===== verification/GC_Compaction.thy ===== *)
theory GC_Compaction
  imports GC_Incremental
begin

text \<open>
  Incremental compaction (\<open>src/gc/heap.cpp\<close>): the plan made from the marked heap, the
  relocation of one planned object at a time with its roots, registries and forwarding entry,
  the shadow of the heap at the start of the cycle, and the final rewriting with the
  comparison against an atomic compaction of that shadow.
\<close>

subsection \<open>Planning\<close>

definition plan_object :: "nat \<Rightarrow> nat \<Rightarrow> (gcheap, nat) sx" where
  "plan_object source destination = (\<lambda>h. case h_objects h ! source of None \<Rightarrow> (Inr destination, h)
     | Some x \<Rightarrow>
        if \<not> o_marked x then (Inr destination, h)
        else let w = storage_slot_count x; gens = h_destination_generations h in
          if destination + w > length (h_objects h) then (Inl (Logic_error msg_compaction_plan), h)
          else (case if source \<noteq> destination
              then ebind (generation_for_new_base (gens ! destination)) (\<lambda>g. Inr (gens[destination := g]))
              else Inr gens of
            Inl e \<Rightarrow> (Inl e, h)
          | Inr gens' \<Rightarrow> (Inr (destination + w), h\<lparr>h_destination_generations := gens',
              h_source_ids := (h_source_ids h)[source := Some (id_at h source)],
              h_plan := h_plan h @ [\<lparr>c_source_id = id_at h source, c_source_slot = source, c_width = w,
                c_destination_id = object_id_at destination (gens' ! destination),
                c_destination_slot = destination\<rparr>]\<rparr>)))"

fun plan_objects :: "nat list \<Rightarrow> nat \<Rightarrow> (gcheap, unit) sx" where
  "plan_objects [] destination = sx_return ()"
| "plan_objects (source # rest) destination =
     sx_bind (plan_object source destination) (plan_objects rest)"

definition keep_weak_owner :: "object_id \<Rightarrow> (gcheap, object_id option) sx" where
  "keep_weak_owner owner_id = sx_bind (sx_reads (checked_slot owner_id)) (\<lambda>owner_slot.
     sx_bind (sx_gets (\<lambda>h. object_at h owner_slot)) (\<lambda>owner.
     if \<not> o_marked owner then sx_return None
     else if is_object (o_weak_target owner)
     then sx_bind (sx_reads (\<lambda>h. ebind (as_object (o_weak_target owner)) (\<lambda>i. checked_slot i h))) (\<lambda>target_slot.
       sx_then (sx_modify (\<lambda>h. if \<not> o_marked (object_at h target_slot)
         then set_object owner_slot (owner\<lparr>o_weak_target := VNil\<rparr>) h else h))
       (sx_return (Some owner_id)))
     else sx_return (Some owner_id)))"

definition keep_intern_entry :: "bool \<Rightarrow> intern_entry \<Rightarrow> (gcheap, intern_entry option) sx" where
  "keep_intern_entry skip entry = sx_bind (sx_reads (checked_slot (canonical entry))) (\<lambda>target_slot.
     sx_gets (\<lambda>h. if o_marked (object_at h target_slot) \<or> skip then Some entry else None))"

definition keep_ephemeron_owner :: "object_id \<Rightarrow> (gcheap, object_id option) sx" where
  "keep_ephemeron_owner owner_id = sx_bind (sx_reads (checked_slot owner_id)) (\<lambda>owner_slot.
     sx_bind (sx_gets (\<lambda>h. object_at h owner_slot)) (\<lambda>owner.
     if \<not> o_marked owner then sx_return None
     else if is_object (o_ephemeron_key owner)
     then sx_bind (sx_reads (\<lambda>h. ebind (as_object (o_ephemeron_key owner)) (\<lambda>i. checked_slot i h))) (\<lambda>key_slot.
       sx_then (sx_modify (\<lambda>h. if \<not> o_marked (object_at h key_slot)
         then set_object owner_slot (owner\<lparr>o_ephemeron_key := VNil, o_ephemeron_value := VNil\<rparr>) h else h))
       (sx_return (Some owner_id)))
     else sx_return (Some owner_id)))"

definition keep_remembered_owner :: "object_id \<Rightarrow> (gcheap, object_id option) sx" where
  "keep_remembered_owner owner_id = sx_bind (sx_reads (checked_slot owner_id)) (\<lambda>owner_slot.
     sx_gets (\<lambda>h. if o_marked (object_at h owner_slot) then Some owner_id else None))"

definition sweep_unmarked :: "gcheap \<Rightarrow> gcheap" where
  "sweep_unmarked h = h\<lparr>h_objects := map (\<lambda>slot. case slot of None \<Rightarrow> None
     | Some x \<Rightarrow> if o_marked x then Some (x\<lparr>o_marked := False\<rparr>) else None) (h_objects h)\<rparr>"

definition take_shadow :: "gcheap \<Rightarrow> gcheap" where
  "take_shadow h = h\<lparr>h_shadow_objects := h_objects h, h_shadow_generations := h_generations h,
     h_shadow_weak_refs := h_weak_refs h, h_shadow_intern_table := h_intern_table h,
     h_shadow_ephemerons := h_ephemerons h\<rparr>"

definition prepare_incremental_compaction_from_marked :: "(gcheap, unit) sx" where
  "prepare_incremental_compaction_from_marked =
     sx_then (sx_modify (\<lambda>h. h\<lparr>h_plan := [], h_cursor := 0,
       h_forwarding := replicate (length (h_objects h)) None,
       h_source_ids := replicate (length (h_objects h)) None,
       h_destination_generations := h_generations h\<rparr>))
     (sx_then (sx_bind (sx_gets (\<lambda>h. [0..<length (h_objects h)])) (\<lambda>slots. plan_objects slots 0))
     (sx_bind (sx_bind (sx_gets h_weak_refs) (sx_collect keep_weak_owner)) (\<lambda>live_weak_refs.
      sx_then (sx_modify (\<lambda>h. h\<lparr>h_weak_refs := live_weak_refs\<rparr>))
     (sx_bind (sx_gets h_skip_next_intern_processing) (\<lambda>skip.
      sx_then (sx_modify (\<lambda>h. h\<lparr>h_skip_next_intern_processing := False\<rparr>))
     (sx_bind (sx_bind (sx_gets h_intern_table) (sx_collect (keep_intern_entry skip))) (\<lambda>live_interns.
      sx_then (sx_modify (\<lambda>h. h\<lparr>h_intern_table := live_interns\<rparr>))
     (sx_bind (sx_bind (sx_gets h_ephemerons) (sx_collect keep_ephemeron_owner)) (\<lambda>live_ephemerons.
      sx_then (sx_modify (\<lambda>h. h\<lparr>h_ephemerons := live_ephemerons\<rparr>))
     (sx_bind (sx_bind (sx_gets h_remembered_set) (sx_collect keep_remembered_owner)) (\<lambda>live_remembered.
      sx_then (sx_modify (\<lambda>h. h\<lparr>h_remembered_set := live_remembered\<rparr>))
     (sx_then (sx_modify sweep_unmarked)
     (sx_then (sx_modify take_shadow)
     (sx_then (sx_modify (\<lambda>h. h\<lparr>h_compaction_active := True\<rparr>))
     (sx_reads (\<lambda>h. validate_after_collection h []))))))))))))))))"

definition prepare_incremental_compaction :: "(gcheap, unit) sx" where
  "prepare_incremental_compaction =
     sx_bind (sx_gets h_compaction_active) (\<lambda>compacting.
     sx_then (sx_throw_if compacting (Logic_error msg_compaction_prepare_active))
     (sx_then (on_local_worklist (mark_live_objects Major []))
     prepare_incremental_compaction_from_marked))"

definition start_incremental_compaction :: "(gcheap, unit) sx" where
  "start_incremental_compaction =
     sx_bind (sx_gets h_compaction_active) (\<lambda>compacting.
     sx_then (sx_throw_if compacting (Logic_error msg_compaction_already_active))
     (sx_bind (sx_gets h_marking_active) (\<lambda>marking.
     sx_then (sx_throw_if marking (Logic_error msg_compaction_during_marking))
     (sx_then (sx_reads validate_before_collection)
     prepare_incremental_compaction))))"

definition finish_incremental_marking_to_incremental_compaction :: "(gcheap, unit) sx" where
  "finish_incremental_marking_to_incremental_compaction =
     sx_then (finish_incremental_marking_liveness [])
     (sx_then (sx_modify end_marking_cycle)
     prepare_incremental_compaction_from_marked)"

subsection \<open>Relocating one object\<close>

definition forward_owner :: "compaction_entry \<Rightarrow> object_id \<Rightarrow> object_id" where
  "forward_owner entry owner = (if owner = c_source_id entry then c_destination_id entry else owner)"

definition forward_incremental_compaction_registries :: "compaction_entry \<Rightarrow> gcheap \<Rightarrow> gcheap" where
  "forward_incremental_compaction_registries entry h = h\<lparr>
     h_remembered_set := map (forward_owner entry) (h_remembered_set h),
     h_weak_refs := map (forward_owner entry) (h_weak_refs h),
     h_intern_table := map (\<lambda>e. e\<lparr>canonical := forward_owner entry (canonical e)\<rparr>) (h_intern_table h),
     h_ephemerons := map (forward_owner entry) (h_ephemerons h)\<rparr>"

definition rewrite_incremental_compaction_roots :: "val list \<Rightarrow> (gcheap, val list) sx" where
  "rewrite_incremental_compaction_roots extra =
     rewrite_collection_roots (rewrite_incremental_compaction_value False) extra"

text \<open>The checks on the next planned object before it is moved.\<close>

definition check_plan_entry :: "compaction_entry \<Rightarrow> gcheap \<Rightarrow> exn + unit" where
  "check_plan_entry entry h = ebind (checked_slot (c_source_id entry) h) (\<lambda>source.
     ethen (ethrow_if (source \<noteq> c_source_slot entry \<or> source \<ge> length (h_objects h) \<or>
       h_objects h ! source = None) (Logic_error msg_compaction_source_drift))
     (ethen (ethrow_if (storage_slot_count (object_at h source) \<noteq> c_width entry)
       (Logic_error msg_compaction_width_drift))
     (ethen (ethrow_if (c_destination_slot entry + c_width entry > length (h_objects h))
       (Logic_error msg_compaction_destination))
     (eall (\<lambda>offset. let slot = c_destination_slot entry + offset in
       ethrow_if (h_objects h ! slot \<noteq> None \<and> slot \<noteq> c_source_slot entry)
         (Logic_error msg_compaction_overlap)) [0..<c_width entry]))))"

text \<open>The test-only corruption of the next copy.\<close>

definition corrupt_copy :: "gcobj \<Rightarrow> (gcheap, gcobj) sx" where
  "corrupt_copy x = sx_bind (sx_gets h_corrupt_next_copy) (\<lambda>corrupt.
     if \<not> corrupt then sx_return x
     else sx_then (sx_modify (\<lambda>h. h\<lparr>h_corrupt_next_copy := False\<rparr>))
       (case (o_kind x, o_left x) of
         (Pair, VInt64 n) \<Rightarrow> if n = 0x7FFFFFFFFFFFFFFF then sx_throw (Logic_error msg_compaction_corruption)
           else sx_return (x\<lparr>o_left := VInt64 (n + 1)\<rparr>)
       | _ \<Rightarrow> sx_throw (Logic_error msg_compaction_corruption)))"

definition move_plan_entry :: "compaction_entry \<Rightarrow> val list \<Rightarrow> (gcheap, val list) sx" where
  "move_plan_entry entry extra =
     sx_then (sx_reads (check_plan_entry entry))
     (sx_bind (sx_gets (\<lambda>h. object_at h (c_source_slot entry))) (\<lambda>x.
      sx_bind (corrupt_copy (moved_copy x)) (\<lambda>moved.
      let source = c_source_slot entry; destination = c_destination_slot entry in
      sx_then (sx_modify (\<lambda>h. h\<lparr>
        h_objects := (if source \<noteq> destination then (h_objects h)[source := None]
          else h_objects h)[destination := Some moved],
        h_generations := (h_generations h)[destination := generation_from (c_destination_id entry)]\<rparr>))
      (sx_then (sx_lift (record_compaction_copy (c_width entry)))
      (sx_then (sx_modify (\<lambda>h. h\<lparr>
        h_forwarding := (h_forwarding h)[source := Some (c_destination_id entry)],
        h_cursor := Suc (h_cursor h)\<rparr>))
      (sx_bind (rewrite_incremental_compaction_roots extra) (\<lambda>extra'.
      sx_then (sx_modify (forward_incremental_compaction_registries entry))
      (sx_then (sx_when (o_generation x = Young) (record_promoted_object_edges [destination]))
      (sx_then (sx_reads (\<lambda>h. validate_after_collection h extra'))
      (sx_return extra'))))))))))"

fun compact_slice :: "nat \<Rightarrow> nat \<Rightarrow> val list \<Rightarrow> (gcheap, nat \<times> val list) sx" where
  "compact_slice 0 consumed extra = sx_return (consumed, extra)"
| "compact_slice (Suc budget) consumed extra =
     sx_bind (sx_gets (\<lambda>h. if h_cursor h < length (h_plan h) then Some (h_plan h ! h_cursor h) else None))
       (\<lambda>next. case next of None \<Rightarrow> sx_return (consumed, extra)
        | Some entry \<Rightarrow> sx_bind (move_plan_entry entry extra) (compact_slice budget (Suc consumed)))"

definition incremental_compact_step_impl :: "nat \<Rightarrow> val list \<Rightarrow> (gcheap, nat \<times> val list) sx" where
  "incremental_compact_step_impl budget extra =
     sx_bind (sx_gets h_compaction_active) (\<lambda>compacting.
     sx_then (sx_throw_if (\<not> compacting) (Logic_error msg_compaction_step_inactive))
     (sx_bind (compact_slice budget 0 extra) (\<lambda>(consumed, extra').
     sx_then (sx_when (consumed = 0) (sx_reads (\<lambda>h. validate_after_collection h extra')))
     (sx_return (consumed, extra')))))"

definition incremental_compact_step :: "nat \<Rightarrow> (gcheap, nat) sx" where
  "incremental_compact_step budget =
     sx_bind (incremental_compact_step_impl budget []) (\<lambda>(consumed, _). sx_return consumed)"

subsection \<open>Comparison with an atomic compaction of the shadow\<close>

record expected_heap =
  x_forwarding :: forwarding_table
  x_objects :: "gcobj option list"
  x_generations :: "u32 list"

definition expect_slot :: "gcheap \<Rightarrow> nat \<Rightarrow> expected_heap \<times> nat \<Rightarrow> exn + expected_heap \<times> nat" where
  "expect_slot h source st = (case (h_shadow_objects h ! source, st) of
       (None, _) \<Rightarrow> Inr st
     | (Some x, (expected, destination)) \<Rightarrow> let w = storage_slot_count x; gens = x_generations expected in
        ethen (ethrow_if (destination + w > length (x_objects expected))
          (Logic_error (msg_differential ''plan overflow'')))
        (ebind (if source \<noteq> destination
            then ebind (generation_for_new_base (gens ! destination)) (\<lambda>g. Inr (gens[destination := g]))
            else Inr gens) (\<lambda>gens'.
         Inr (\<lparr>x_forwarding = (x_forwarding expected)[source :=
                Some (object_id_at destination (gens' ! destination))],
              x_objects = (x_objects expected)[destination :=
                Some (x\<lparr>o_marked := False, o_generation := Old\<rparr>)],
              x_generations = gens'\<rparr>, destination + w))))"

definition rewrite_shadow_value :: "gcheap \<Rightarrow> expected_heap \<Rightarrow> val \<Rightarrow> exn + val" where
  "rewrite_shadow_value h expected v = (case v of
     VObject i \<Rightarrow> (let source = slot_index i in
       if generation_from i = 0 \<or> source \<ge> length (h_shadow_objects h) \<or>
         source \<ge> length (h_shadow_generations h) \<or>
         h_shadow_generations h ! source \<noteq> generation_from i \<or> h_shadow_objects h ! source = None
       then Inl (Logic_error (msg_differential ''invalid source reference''))
       else (case forwarded (x_forwarding expected) source of
           None \<Rightarrow> Inl (Logic_error (msg_differential ''invalid source reference''))
         | Some j \<Rightarrow> value_object j))
   | _ \<Rightarrow> Inr v)"

text \<open>All references of one object, weak and ephemeron ones included.\<close>

definition update_all_references :: "(val \<Rightarrow> exn + val) \<Rightarrow> gcobj \<Rightarrow> exn + gcobj" where
  "update_all_references f x = ebind (update_reference_fields f x) (\<lambda>y.
     if o_kind y = WeakRef
     then ebind (f (o_weak_target y)) (\<lambda>t. Inr (y\<lparr>o_weak_target := t\<rparr>))
     else if o_kind y = Ephemeron
     then ebind (f (o_ephemeron_key y)) (\<lambda>k.
       ebind (if o_ephemeron_value_is_ref y then f (o_ephemeron_value y) else Inr (o_ephemeron_value y)) (\<lambda>v.
       Inr (y\<lparr>o_ephemeron_key := k, o_ephemeron_value := v\<rparr>)))
     else Inr y)"

definition rewrite_shadow_id :: "gcheap \<Rightarrow> expected_heap \<Rightarrow> object_id \<Rightarrow> exn + object_id" where
  "rewrite_shadow_id h expected i = ebind (value_object i) (\<lambda>v.
     ebind (rewrite_shadow_value h expected v) as_object)"

definition compare_slot :: "gcobj option list \<Rightarrow> gcheap \<Rightarrow> nat \<Rightarrow> exn + unit" where
  "compare_slot expected h slot =
     ethen (ethrow_if ((expected ! slot \<noteq> None) \<noteq> (h_objects h ! slot \<noteq> None))
       (Logic_error (msg_differential (''occupancy mismatch at heap slot '' @ nat_text slot))))
     (case expected ! slot of None \<Rightarrow> Inr ()
      | Some x \<Rightarrow> ethrow_if (\<not> objects_equal x (object_at h slot))
          (Logic_error (msg_differential (''object mismatch at heap slot '' @ nat_text slot))))"

definition validate_incremental_compaction_against_atomic :: "gcheap \<Rightarrow> val list \<Rightarrow> exn + unit" where
  "validate_incremental_compaction_against_atomic h extra =
     ethen (ethrow_if (\<not> h_compaction_active h \<or> h_cursor h \<noteq> length (h_plan h))
       (Logic_error (msg_differential ''validation outside quiescence'')))
     (ebind (efold (expect_slot h) [0..<length (h_shadow_objects h)]
        (\<lparr>x_forwarding = replicate (length (h_shadow_objects h)) None,
          x_objects = replicate (length (h_shadow_objects h)) None,
          x_generations = h_shadow_generations h\<rparr>, 0)) (\<lambda>(expected, _).
      let rewrite = rewrite_shadow_value h expected; actual_roots = collection_roots h extra in
      ebind (emap (\<lambda>slot. case slot of None \<Rightarrow> Inr None
          | Some x \<Rightarrow> ebind (update_all_references rewrite x) (\<lambda>y. Inr (Some y))) (x_objects expected)) (\<lambda>objs.
      ebind (emap (rewrite_shadow_id h expected) (h_shadow_weak_refs h)) (\<lambda>weak_refs.
      ebind (emap (\<lambda>e. ebind (rewrite_shadow_id h expected (canonical e)) (\<lambda>i. Inr (e\<lparr>canonical := i\<rparr>)))
        (h_shadow_intern_table h)) (\<lambda>interns.
      ebind (emap (rewrite_shadow_id h expected) (h_shadow_ephemerons h)) (\<lambda>ephemerons.
      ebind (emap (\<lambda>root. ebind (normalize_incremental_compaction_shadow_value h root) rewrite)
        actual_roots) (\<lambda>expected_roots.
      ethen (ethrow_if (length (x_forwarding expected) \<noteq> length (h_forwarding h))
        (Logic_error (msg_differential ''forwarding size mismatch'')))
      (ethen (eall (\<lambda>slot. ethrow_if (x_forwarding expected ! slot \<noteq> h_forwarding h ! slot)
        (Logic_error (msg_differential (''forwarding mismatch at heap slot '' @ nat_text slot))))
        [0..<length (x_forwarding expected)])
      (ethen (ethrow_if (x_generations expected \<noteq> h_generations h)
        (Logic_error (msg_differential ''generation mismatch'')))
      (ethen (ethrow_if (length objs \<noteq> length (h_objects h))
        (Logic_error (msg_differential ''heap size mismatch'')))
      (ethen (eall (compare_slot objs h) [0..<length objs])
      (ethen (ethrow_if (weak_refs \<noteq> h_weak_refs h)
        (Logic_error (msg_differential ''weak registry mismatch'')))
      (ethen (ethrow_if (interns \<noteq> h_intern_table h)
        (Logic_error (msg_differential ''intern table mismatch'')))
      (ethen (ethrow_if (ephemerons \<noteq> h_ephemerons h)
        (Logic_error (msg_differential ''ephemeron registry mismatch'')))
      (ethen (ethrow_if (h_remembered_set h \<noteq> [])
        (Logic_error (msg_differential ''remembered-set mismatch'')))
      (ethrow_if (\<not> list_all2 values_equal expected_roots actual_roots)
        (Logic_error (msg_differential ''precise-root mismatch''))))))))))))))))))"

subsection \<open>The end of a cycle\<close>

definition incremental_compaction_quiescent :: "gcheap \<Rightarrow> bool" where
  "incremental_compaction_quiescent h \<longleftrightarrow> h_compaction_active h \<and> h_cursor h = length (h_plan h)"

definition finalize_slot :: "nat \<Rightarrow> (gcheap, unit) sx" where
  "finalize_slot owner_slot = sx_bind (sx_gets (\<lambda>h. h_objects h ! owner_slot)) (\<lambda>slot.
     case slot of None \<Rightarrow> sx_return ()
     | Some x \<Rightarrow> sx_bind (sx_reads (\<lambda>h. update_all_references (rewrite_incremental_compaction_value True h) x))
         (\<lambda>y. sx_modify (set_object owner_slot y)))"

definition reset_compaction_cycle :: "gcheap \<Rightarrow> gcheap" where
  "reset_compaction_cycle h = h\<lparr>h_compaction_active := False, h_plan := [], h_cursor := 0,
     h_forwarding := [], h_source_ids := [], h_destination_generations := [], h_shadow_objects := [],
     h_shadow_generations := [], h_shadow_weak_refs := [], h_shadow_intern_table := [],
     h_shadow_ephemerons := []\<rparr>"

definition finalize_incremental_compaction :: "val list \<Rightarrow> (gcheap, val list) sx" where
  "finalize_incremental_compaction extra =
     sx_bind (sx_gets incremental_compaction_quiescent) (\<lambda>quiescent.
     sx_then (sx_throw_if (\<not> quiescent) (Logic_error msg_not_quiescent))
     (sx_bind (rewrite_collection_roots (rewrite_incremental_compaction_value True) extra) (\<lambda>extra'.
     sx_then (sx_bind (sx_gets (\<lambda>h. [0..<length (h_objects h)])) (sx_iter finalize_slot))
     (sx_then prune_remembered_set
     (sx_then (sx_reads (\<lambda>h. validate_after_collection h extra'))
     (sx_then (sx_reads (\<lambda>h. validate_incremental_compaction_against_atomic h extra'))
     (sx_then (sx_modify reset_compaction_cycle)
     (sx_then (sx_reads (\<lambda>h. validate_after_collection h extra'))
     (sx_return extra')))))))))"

definition finish_incremental_compaction_impl :: "val list \<Rightarrow> (gcheap, val list) sx" where
  "finish_incremental_compaction_impl extra =
     sx_bind (sx_gets h_compaction_active) (\<lambda>compacting.
     sx_then (sx_throw_if (\<not> compacting) (Logic_error msg_compaction_finish_inactive))
     (sx_bind (sx_gets (\<lambda>h. (incremental_compaction_quiescent h, length (h_plan h) - h_cursor h)))
       (\<lambda>(quiescent, remaining).
     sx_bind (if quiescent then sx_return extra
       else sx_bind (incremental_compact_step_impl remaining extra) (\<lambda>(_, extra'). sx_return extra'))
     finalize_incremental_compaction)))"

definition finish_incremental_compaction :: "(gcheap, unit) sx" where
  "finish_incremental_compaction = sx_bind (finish_incremental_compaction_impl []) (\<lambda>_. sx_return ())"

subsection \<open>The shadow of a mutated object\<close>

text \<open>
  \<open>incremental_compaction_shadow_object\<close>: the slot of the shadow object that a mutation of
  \<open>i\<close> also changes, and that change.
\<close>

definition incremental_compaction_shadow_object :: "object_id \<Rightarrow> gcheap \<Rightarrow> exn + nat" where
  "incremental_compaction_shadow_object i h =
     ethen (ethrow_if (\<not> h_compaction_active h) (Logic_error msg_shadow_outside_phase))
     (ebind (value_object i) (\<lambda>v. ebind (normalize_incremental_compaction_shadow_value h v) (\<lambda>w.
      ebind (as_object w) (\<lambda>j. let source = slot_index j in
      ethen (ethrow_if (source \<ge> length (h_shadow_objects h) \<or> h_shadow_objects h ! source = None)
        (Logic_error msg_shadow_no_owner)) (Inr source)))))"

definition update_shadow :: "nat \<Rightarrow> (gcobj \<Rightarrow> gcobj) \<Rightarrow> gcheap \<Rightarrow> gcheap" where
  "update_shadow source f h = h\<lparr>h_shadow_objects :=
     (h_shadow_objects h)[source := map_option f (h_shadow_objects h ! source)]\<rparr>"

end
