(* ===== verification/GC_Collect.thy ===== *)
theory GC_Collect
  imports GC_Compaction
begin

text \<open>
  Collections (\<open>collect_impl\<close> of \<open>src/gc/heap.cpp\<close> and its callers) and what they
  guarantee: on a well-formed heap a collection returns, its validators never fire, the moved heap
  is well-formed again, exactly the live objects are kept, and the object graph is the old one up to
  the forwarding of ids.
\<close>

definition collect_impl :: "collection_kind \<Rightarrow> val list \<Rightarrow> (gcheap, val list) sx" where
  "collect_impl kind extra =
     sx_bind (sx_gets h_compaction_active) (\<lambda>compacting.
     sx_bind (if compacting then finish_incremental_compaction_impl extra else sx_return extra) (\<lambda>extra1.
     sx_bind (sx_gets h_marking_active) (\<lambda>marking.
     sx_bind (if marking then finish_incremental_marking_impl extra1 else sx_return extra1) (\<lambda>extra2.
     sx_then (sx_reads validate_before_collection)
     (sx_then (on_local_worklist (mark_live_objects kind extra2))
     (sx_bind (move_live_objects kind id extra2) (\<lambda>extra3.
     sx_then (sx_reads (\<lambda>h. validate_after_collection h extra3))
     (sx_return extra3))))))))"

definition heap_collect :: "(gcheap, unit) sx" where
  "heap_collect = sx_bind (collect_impl Major []) (\<lambda>_. sx_return ())"

definition collect_minor :: "(gcheap, unit) sx" where
  "collect_minor = sx_bind (collect_impl Minor []) (\<lambda>_. sx_return ())"

text \<open>The extra roots are rewritten in place: the caller gets their new values.\<close>

definition collect_with_extra_roots :: "val list \<Rightarrow> (gcheap, val list) sx" where
  "collect_with_extra_roots extra = collect_impl Major extra"

subsection \<open>Reachability\<close>

text \<open>
  The objects a program can still reach: from a root, through a strong reference, and from an
  ephemeron that is reachable together with its key to the value.
\<close>

inductive_set reachable :: "gcheap \<Rightarrow> val list \<Rightarrow> nat set"
  for h :: gcheap and roots :: "val list" where
  root: "VObject i \<in> set roots \<Longrightarrow> slot_index i \<in> reachable h roots"
| field: "s \<in> reachable h roots \<Longrightarrow> holds h s x \<Longrightarrow> VObject i \<in> set (reference_fields x) \<Longrightarrow>
    slot_index i \<in> reachable h roots"
| ephemeron: "s \<in> reachable h roots \<Longrightarrow> holds h s x \<Longrightarrow> o_kind x = Ephemeron \<Longrightarrow>
    o_ephemeron_key x = VObject k \<Longrightarrow> slot_index k \<in> reachable h roots \<Longrightarrow>
    o_ephemeron_value_is_ref x \<Longrightarrow> o_ephemeron_value x = VObject v \<Longrightarrow> slot_index v \<in> reachable h roots"

lemma ephemeron_owner_cases:
  assumes wf: "heap_wf h" and "owner \<in> set (h_ephemerons h)"
  obtains s x where "slot_index owner = s" "holds h s x" "o_kind x = Ephemeron" "owner = id_at h s"
proof -
  obtain s where s: "s \<in> set (kind_slots Ephemeron h)" "owner = id_at h s"
    using assms heap_wfD(9) by (auto simp: ephemerons_ok_def)
  then have "holds h s (object_at h s)" "o_kind (object_at h s) = Ephemeron"
    by (simp_all add: kind_slots_iff)
  moreover have "slot_index owner = s"
    using s(2) id_at_slot_index [OF heap_wfD(1) [OF wf] holds_less] calculation by blast
  ultimately show thesis using that s(2) by blast
qed

lemma ephemeron_registered:
  assumes wf: "heap_wf h" and "holds h s x" and "o_kind x = Ephemeron"
  shows "id_at h s \<in> set (h_ephemerons h)" "slot_index (id_at h s) = s"
proof -
  have "s \<in> set (kind_slots Ephemeron h)" using assms by (simp add: kind_slots_iff holds_object_at)
  then show "id_at h s \<in> set (h_ephemerons h)" using heap_wfD(9) [OF wf] by (simp add: ephemerons_ok_def)
  show "slot_index (id_at h s) = s" using id_at_slot_index [OF heap_wfD(1) [OF wf] holds_less [OF assms(2)]] .
qed

lemma field_occupied:
  assumes wf: "heap_wf h" and "s \<in> occupied_slots h" and "i \<in> field_ids h s"
  shows "slot_index i \<in> occupied_slots h"
proof -
  obtain x where "holds h s x" using assms(2) by (auto simp: occupied_slots_def)
  then show ?thesis using heap_wf_fields(2,3) [OF wf] assms(3) current_occupied by blast
qed

lemma traced_occupied:
  assumes wf: "heap_wf h" and roots: "roots_valid h extra" and s: "s \<in> traced kind h (collection_roots h extra)"
  shows "s \<in> occupied_slots h"
  using s
proof induction
  case (root i)
  with roots show ?case using current_occupied by (force simp: roots_valid_def)
next
  case (remembered r i)
  have "current_slot h r" using heap_wfD(6) [OF wf] remembered.hyps(2) by (auto simp: remembered_ok_def)
  then show ?case by (rule field_occupied [OF wf current_occupied remembered.hyps(3)])
next
  case (field s i)
  then show ?case by (intro field_occupied [OF wf])
next
  case (ephemeron owner x k v)
  obtain s y where o: "checked_slot owner h = Inr s" "holds h s y"
    "\<And>v. o_ephemeron_value_is_ref y \<Longrightarrow> o_ephemeron_value y = VObject v \<Longrightarrow> \<exists>t. checked_slot v h = Inr t"
    using ephemerons_ok_checks [OF wf ephemeron.hyps(1)] by (auto simp: ephemeron_checks_def)
  have "s = slot_index owner" using o(1) wf by (simp add: heap_wf_slots)
  then have "y = x" using o(2) ephemeron.hyps(2) by (simp add: holds_object_at)
  then have "current_slot h v" using o(3) ephemeron.hyps wf by (auto simp: heap_wf_slots)
  then show ?case by (rule current_occupied)
qed

lemma traced_major_reachable:
  assumes wf: "heap_wf h" and roots: "roots_valid h extra"
  shows "traced Major h (collection_roots h extra) = reachable h (collection_roots h extra)" (is "?T = ?R")
proof
  show "?T \<subseteq> ?R"
  proof
    fix s assume "s \<in> ?T"
    then show "s \<in> ?R"
    proof induction
      case (root i)
      then show ?case by (intro reachable.root)
    next
      case (remembered r i)
      then show ?case by simp
    next
      case (field s i)
      obtain x where x: "holds h s x" using traced_occupied [OF wf roots field.hyps(1)] by (auto simp: occupied_slots_def)
      with field show ?case by (auto simp: field_ids_def ids_of_def holds_object_at intro: reachable.field [OF _ x])
    next
      case (ephemeron owner x k v)
      from ephemeron_owner_cases [OF wf ephemeron.hyps(1)] obtain s y
        where o: "slot_index owner = s" "holds h s y" "o_kind y = Ephemeron" by metis
      then have "y = x" using ephemeron.hyps(2) by (simp add: holds_object_at)
      with o ephemeron show ?case by (auto intro: reachable.ephemeron)
    qed
  qed
  show "?R \<subseteq> ?T"
  proof
    fix s assume "s \<in> ?R"
    then show "s \<in> ?T"
    proof induction
      case (root i)
      then show ?case by (intro traced.root) (simp_all add: traceable_def)
    next
      case (field s x i)
      then show ?case
        by (intro traced.field [of s]) (auto simp: field_ids_def ids_of_def holds_object_at traceable_def)
    next
      case (ephemeron s x k v)
      note r = ephemeron_registered [OF wf ephemeron.hyps(2,3)]
      show ?case
        by (rule traced.ephemeron [OF r(1), of x Major _ k v])
          (use ephemeron r in \<open>simp_all add: holds_object_at traceable_def\<close>)
    qed
  qed
qed

lemma occupied_object: "s \<in> occupied_slots h \<Longrightarrow> holds h s (object_at h s)"
  by (auto simp: occupied_slots_def holds_object_at)

text \<open>A minor collection drops no reachable object, a major one drops every other object.\<close>

lemma kept_major:
  assumes "heap_wf h" and "roots_valid h extra"
  shows "kept_slots Major h (traced Major h (collection_roots h extra)) = reachable h (collection_roots h extra)"
  using traced_occupied [OF assms, where kind = Major]
  by (auto simp: kept_slots_def live_with_def traced_major_reachable [OF assms])

lemma reachable_kept:
  assumes wf: "heap_wf h" and roots: "roots_valid h extra"
  shows "reachable h (collection_roots h extra) \<subseteq> kept_slots kind h (traced kind h (collection_roots h extra))"
    (is "_ \<subseteq> ?L")
proof
  have closed: "move_closed h ?L" by (rule kept_closed [OF wf refl])
  fix s assume "s \<in> reachable h (collection_roots h extra)"
  then show "s \<in> ?L"
  proof induction
    case (root i)
    then show ?case by (rule kept_roots [OF roots refl])
  next
    case (field s x i)
    then have "i \<in> field_ids h s" by (simp add: field_ids_def ids_of_def holds_object_at)
    with closed field.IH show ?case unfolding move_closed_def by blast
  next
    case (ephemeron s x k v)
    then have "o_kind (object_at h s) = Ephemeron" "o_ephemeron_key (object_at h s) = VObject k"
      "o_ephemeron_value_is_ref (object_at h s)" "o_ephemeron_value (object_at h s) = VObject v"
      by (simp_all add: holds_object_at)
    with closed ephemeron.IH show ?case unfolding move_closed_def by blast
  qed
qed

subsection \<open>A collection on a well-formed heap\<close>

text \<open>
  \<open>h'\<close> is \<open>h\<close> restricted to the objects of \<open>L\<close>: they slide down in order without gaps, no
  object is added, each has its old contents with the references forwarded, and an old id names
  an object of \<open>h'\<close> only if it is that object's new id as well.
\<close>

definition moved_by :: "forwarding_table \<Rightarrow> gcheap \<Rightarrow> nat set \<Rightarrow> gcheap \<Rightarrow> bool" where
  "moved_by fwd h L h' \<longleftrightarrow>
     (\<forall>s. s \<in> L \<longleftrightarrow> forwarded fwd s \<noteq> None) \<and>
     (\<forall>s\<in>L. \<exists>i. forwarded fwd s = Some i \<and> current_slot h' i \<and>
        slot_index i = slide h L s \<and> slide h L s \<le> s \<and>
        object_at h' (slot_index i) = final_object fwd (object_at h s)) \<and>
     (\<forall>d y. holds h' d y \<longrightarrow> (\<exists>s\<in>L. slide h L s = d)) \<and>
     (\<forall>i. current_slot h i \<longrightarrow> current_slot h' i \<longrightarrow> forwarded fwd (slot_index i) = Some i)"

lemma object_id_at_current:
  "object_id_at (slot_index i) (generation_from i) = i"
  by (simp add: make_object_id_split)

lemma moved_stale_ids:
  assumes rel: "relocation h L res" and m: "moved_heap h L res h'"
    and i: "current_slot h i" "current_slot h' i"
  shows "slot_index i \<in> L" "moved_id h L res (slot_index i) = i"
proof -
  note D = relocationD [OF rel]
  obtain y where "holds h' (slot_index i) y" using current_slot_holds [OF i(2)] by blast
  then obtain s where s: "s \<in> L" "slot_index i = slide h L s" by (auto simp: moved_holds [OF rel m])
  note S = relocation_slots [OF rel s(1)]
  have g: "h_generations h ! slide h L s = generation_from i"
    "r_generations res ! slide h L s = generation_from i"
    using i s(2) m by (simp_all add: current_slot_def moved_heap_def)
  have "slide h L s = s"
  proof (rule ccontr)
    assume "slide h L s \<noteq> s"
    then have "generation_for_new_base (generation_from i) = Inr (generation_from i)"
      using D(4) S(1) s(1) g by (auto simp: compacted_upto_def)
    moreover have "generation_from i \<le> kMaxGeneration" using new_generation(2) [OF rel s(1)] g(2) by simp
    ultimately show False using generation_for_new_base_Inr(2) by blast
  qed
  then have "slot_index i = s" using s(2) by simp
  then show "slot_index i \<in> L" using s(1) by simp
  have "moved_id h L res s = object_id_at (slot_index i) (generation_from i)"
    using g(2) s(2) by (simp add: moved_id_def)
  then show "moved_id h L res (slot_index i) = i"
    unfolding \<open>slot_index i = s\<close> [symmetric] object_id_at_current .
qed

lemma moved_heap_moved_by:
  assumes rel: "relocation h L res" and m: "moved_heap h L res h'"
  shows "moved_by (r_forwarding res) h L h'"
  unfolding moved_by_def forwarded_iff [OF rel]
proof (intro conjI ballI allI impI)
  fix s assume "s \<in> L"
  then show "\<exists>i. (if s \<in> L then Some (moved_id h L res s) else None) = Some i \<and> current_slot h' i \<and>
      slot_index i = slide h L s \<and> slide h L s \<le> s \<and>
      object_at h' (slot_index i) = final_object (r_forwarding res) (object_at h s)"
    using moved_current [OF rel m] relocation_slots(3) [OF rel] by (simp add: moved_id_props [OF rel])
next
  fix i assume "current_slot h i" "current_slot h' i"
  from moved_stale_ids [OF rel m this]
  show "(if slot_index i \<in> L then Some (moved_id h L res (slot_index i)) else None) = Some i" by simp
qed (auto simp: moved_holds [OF rel m])

definition rooted_by :: "forwarding_table \<Rightarrow> gcheap \<Rightarrow> gcheap \<Rightarrow> bool" where
  "rooted_by fwd h h' \<longleftrightarrow> h_roots h' = map (move_value fwd) (h_roots h) \<and>
     h_handle_roots h' = map (apsnd (move_value fwd)) (h_handle_roots h)"

lemma rooted_by_roots:
  "rooted_by fwd h h' \<Longrightarrow> collection_roots h' (map (move_value fwd) extra) =
    map (move_value fwd) (collection_roots h extra)"
  by (simp add: rooted_by_def collection_roots_def)

text \<open>The fields a move does not touch.\<close>

definition kept_flags :: "gcheap \<Rightarrow> gcheap \<Rightarrow> bool" where
  "kept_flags h h' \<longleftrightarrow> h_stress h' = h_stress h \<and> h_marking_active h' = h_marking_active h \<and>
     \<not> h_skip_next_intern_processing h' \<and> h_skip_next_write_barrier h' = h_skip_next_write_barrier h \<and>
     h_skip_next_incremental_barrier h' = h_skip_next_incremental_barrier h"

lemma marked_move_ok:
  assumes wf: "heap_wf h" and go: "(\<forall>g\<in>set (h_generations h). g < kMaxGeneration) \<or>
      (\<exists>r. compact_live_objects kind (with_marks h M) = Inr r)"
    and roots: "roots_valid h extra" and skip: "\<not> h_skip_next_intern_processing h"
    and inst: "keeps_heap installed" and M: "M = traced kind h (collection_roots h extra)"
  shows "\<exists>fwd h'. move_live_objects kind installed extra (with_marks h M) = (Inr (map (move_value fwd) extra), h') \<and>
    heap_wf h' \<and> marks_clear h' \<and> roots_valid h' (map (move_value fwd) extra) \<and> h_remembered_set h' = [] \<and>
    moved_by fwd h (kept_slots kind h M) h' \<and> rooted_by fwd h h' \<and>
    (\<exists>k. h' = (installed k)\<lparr>h_remembered_set := []\<rparr> \<and> kept_flags h k)"
proof -
  let ?L = "kept_slots kind h M"
  have into: "refers_into h ?L v" if "v \<in> set (collection_roots h extra)" for v
    using that roots kept_roots [OF roots M] by (auto simp: refers_into_def roots_valid_def)
  obtain res objs rs h' where r: "h' = (installed (moved_state h ?L res (with_marks h M) objs rs))\<lparr>h_remembered_set := []\<rparr>"
    "relocation h ?L res"
    "move_live_objects kind installed extra (with_marks h M) = (Inr (map (move_value (r_forwarding res)) extra), h')"
    "moved_heap h ?L res h'" "heap_wf h'" "marks_clear h'"
    using move_live_objects_ok [OF wf go kept_closed [OF wf M] into skip inst] unfolding Let_def by blast
  let ?fwd = "r_forwarding res"
  have rooted: "rooted_by ?fwd h h'"
    by (simp add: rooted_by_def r(1) keeps_heapD [OF inst] moved_state_def Let_def with_marks_def)
  have "roots_valid h' (map (move_value ?fwd) extra)"
    using into moved_valid(1) [OF r(2,4)] by (auto simp: roots_valid_def rooted_by_roots [OF rooted])
  then show ?thesis
    using r rooted moved_heap_moved_by [OF r(2,4)]
    by (intro exI [of _ ?fwd] exI [of _ h'])
      (auto simp: kept_flags_def moved_state_def Let_def with_marks_def)
qed

lemma validate_before_collection_ok: "heap_wf h \<Longrightarrow> validate_before_collection h = Inr ()"
  by (simp add: validate_before_collection_def heap_wf_validators)

lemma validate_after_collection_ok:
  "heap_wf h \<Longrightarrow> marks_clear h \<Longrightarrow> roots_valid h extra \<Longrightarrow> validate_after_collection h extra = Inr ()"
  by (simp add: validate_after_collection_iff heap_wfD)

text \<open>What a collection needs: nothing in progress, and generations left for the moves.\<close>

definition collectable :: "gcheap \<Rightarrow> val list \<Rightarrow> bool" where
  "collectable h extra \<longleftrightarrow> heap_wf h \<and> marks_clear h \<and> roots_valid h extra \<and> \<not> h_marking_active h \<and>
     \<not> h_skip_next_intern_processing h \<and> (\<forall>g\<in>set (h_generations h). g < kMaxGeneration)"

lemma keeps_heap_id [simp]: "keeps_heap id"
  by (simp add: keeps_heap_def)

text \<open>The conditions but for the generations, which decide only whether the collection throws.\<close>

definition settled :: "gcheap \<Rightarrow> val list \<Rightarrow> bool" where
  "settled h extra \<longleftrightarrow> heap_wf h \<and> marks_clear h \<and> roots_valid h extra \<and> \<not> h_marking_active h \<and>
     \<not> h_skip_next_intern_processing h"

lemma collectable_iff:
  "collectable h extra \<longleftrightarrow> settled h extra \<and> (\<forall>g\<in>set (h_generations h). g < kMaxGeneration)"
  by (auto simp: collectable_def settled_def)

definition collected :: "collection_kind \<Rightarrow> val list \<Rightarrow> gcheap \<Rightarrow> forwarding_table \<Rightarrow> gcheap \<Rightarrow> bool" where
  "collected kind extra h fwd h' \<longleftrightarrow>
     heap_wf h' \<and> marks_clear h' \<and> roots_valid h' (map (move_value fwd) extra) \<and> h_remembered_set h' = [] \<and>
     moved_by fwd h (kept_slots kind h (traced kind h (collection_roots h extra))) h' \<and> rooted_by fwd h h' \<and>
     h_stress h' = h_stress h \<and> \<not> h_marking_active h' \<and> \<not> h_skip_next_intern_processing h' \<and>
     h_skip_next_write_barrier h' = h_skip_next_write_barrier h \<and>
     h_skip_next_incremental_barrier h' = h_skip_next_incremental_barrier h"

lemma collect_impl_run:
  assumes c: "settled h extra"
  shows "(\<exists>e h'. collect_impl kind extra h = (Inl e, h') \<and> \<not> (\<forall>g\<in>set (h_generations h). g < kMaxGeneration)) \<or>
    (\<exists>fwd h'. collect_impl kind extra h = (Inr (map (move_value fwd) extra), h') \<and> collected kind extra h fwd h')"
proof -
  have wf: "heap_wf h" and clear: "marks_clear h" and roots: "roots_valid h extra"
    and idle: "\<not> h_marking_active h" and skip: "\<not> h_skip_next_intern_processing h"
    using c by (simp_all add: settled_def)
  let ?M = "traced kind h (collection_roots h extra)"
  have mark: "on_local_worklist (mark_live_objects kind extra) h = (Inr (), with_marks h ?M)"
    using mark_live_objects_correct [OF wf clear roots, of kind] by (auto simp: on_local_worklist_def)
  have run: "collect_impl kind extra h = (case move_live_objects kind id extra (with_marks h ?M) of
      (Inl e, h') \<Rightarrow> (Inl e, h')
    | (Inr extra', h') \<Rightarrow> (ebind (validate_after_collection h' extra') (\<lambda>_. Inr extra'), h'))"
    unfolding collect_impl_def sx_bind_def sx_then_def sx_gets_def sx_reads_def sx_return_def
    using heap_wfD(2) [OF wf] idle mark validate_before_collection_ok [OF wf]
    by (auto split: prod.split sum.split)
  show ?thesis
  proof (cases "(\<forall>g\<in>set (h_generations h). g < kMaxGeneration) \<or> (\<exists>r. compact_live_objects kind (with_marks h ?M) = Inr r)")
    case True
    obtain fwd k h' where m: "move_live_objects kind id extra (with_marks h ?M) = (Inr (map (move_value fwd) extra), h')"
      "heap_wf h'" "marks_clear h'" "roots_valid h' (map (move_value fwd) extra)" "h_remembered_set h' = []"
      "moved_by fwd h (kept_slots kind h ?M) h'" "rooted_by fwd h h'" "h' = k\<lparr>h_remembered_set := []\<rparr>" "kept_flags h k"
      using marked_move_ok [OF wf True roots skip keeps_heap_id refl] by auto
    have "collect_impl kind extra h = (Inr (map (move_value fwd) extra), h')"
      unfolding run m(1) using validate_after_collection_ok [OF m(2-4)] by simp
    moreover have "kept_flags h h'" using m(8,9) by (simp add: kept_flags_def)
    ultimately show ?thesis using m idle unfolding collected_def kept_flags_def by blast
  next
    case False
    then obtain e where "compact_live_objects kind (with_marks h ?M) = Inl e" by (metis sumE)
    then have "move_live_objects kind id extra (with_marks h ?M) = (Inl e, with_marks h ?M)"
      by (simp add: move_live_objects_def sx_defs)
    with False show ?thesis unfolding run by simp
  qed
qed

lemma collect_impl_ok:
  assumes c: "collectable h extra"
  shows "\<exists>fwd h'. collect_impl kind extra h = (Inr (map (move_value fwd) extra), h') \<and>
    heap_wf h' \<and> marks_clear h' \<and> roots_valid h' (map (move_value fwd) extra) \<and> h_remembered_set h' = [] \<and>
    moved_by fwd h (kept_slots kind h (traced kind h (collection_roots h extra))) h' \<and> rooted_by fwd h h'"
  using collect_impl_run [of h extra kind] c unfolding collectable_iff collected_def by blast

subsection \<open>A concrete heap\<close>

text \<open>
  Seven slots: an old pair that refers to a young one, an interned string of two slots, the young
  pair, a weak reference to a pair that nothing else reaches, that pair, and an ephemeron from the
  young pair to the string.
\<close>

definition sample_objects :: "gcobj option list" where
  "sample_objects =
    [Some (default_object\<lparr>o_generation := Old, o_left := VInt64 7, o_right := VObject (object_id_at 3 1)\<rparr>),
     Some (default_object\<lparr>o_kind := Str, o_length := 3, o_string_bytes := [97, 98, 99]\<rparr>), None,
     Some default_object,
     Some (default_object\<lparr>o_kind := WeakRef, o_length := 1, o_weak_target := VObject (object_id_at 5 1)\<rparr>),
     Some (default_object\<lparr>o_left := VObject (object_id_at 3 1)\<rparr>),
     Some (default_object\<lparr>o_kind := Ephemeron, o_length := 2, o_ephemeron_key := VObject (object_id_at 3 1),
       o_ephemeron_value := VObject (object_id_at 1 1), o_ephemeron_value_is_ref := True\<rparr>)]"

definition sample_heap :: gcheap where
  "sample_heap = empty_heap\<lparr>h_roots := [VObject (object_id_at 0 1), VObject (object_id_at 4 1), VInt64 5,
       VObject (object_id_at 6 1)],
     h_objects := sample_objects, h_generations := [1, 1, 0, 1, 1, 1, 1],
     h_remembered_set := [object_id_at 0 1], h_weak_refs := [object_id_at 4 1],
     h_ephemerons := [object_id_at 6 1],
     h_intern_table := [\<lparr>content_hash_of = string_content_hash [97, 98, 99], canonical = object_id_at 1 1\<rparr>]\<rparr>"

lemma sample_validates: "validate_after_collection sample_heap [] = Inr ()"
  by code_simp

lemma moved_by_object:
  assumes "moved_by fwd h L h'" and "s \<in> L"
  obtains i where "forwarded fwd s = Some i" "current_slot h' i" "slot_index i = slide h L s"
    "object_at h' (slot_index i) = final_object fwd (object_at h s)"
  using assms unfolding moved_by_def by metis

lemma moved_by_dropped: "moved_by fwd h L h' \<Longrightarrow> s \<notin> L \<Longrightarrow> forwarded fwd s = None"
  by (simp add: moved_by_def)

lemma moved_by_source:
  assumes m: "moved_by fwd h L h'" and y: "holds h' d y"
  obtains s where "s \<in> L" "d = slide h L s" "y = final_object fwd (object_at h s)"
proof -
  have "\<exists>s\<in>L. slide h L s = d" using m y unfolding moved_by_def by blast
  then obtain s where s: "s \<in> L" "slide h L s = d" by blast
  obtain i where "slot_index i = slide h L s" "object_at h' (slot_index i) = final_object fwd (object_at h s)"
    using moved_by_object [OF m s(1)] by metis
  with s y that show thesis by (metis holds_object_at)
qed

lemma collectable_if_validated:
  assumes "validate_after_collection h extra = Inr ()" and "plain_identities h" and "generations_ok h"
    and "\<forall>g\<in>set (h_generations h). g < kMaxGeneration"
    and "\<not> h_marking_active h" "\<not> h_skip_next_intern_processing h"
  shows "collectable h extra"
  using assms by (simp add: collectable_def heap_wf_def validate_after_collection_iff)

lemma sample_generations: "generations_ok sample_heap" "\<forall>g\<in>set (h_generations sample_heap). g < kMaxGeneration"
proof -
  have "\<forall>g\<in>set (h_generations sample_heap). g < kMaxGeneration"
    by (simp add: sample_heap_def kMaxGeneration_def)
  then show "\<forall>g\<in>set (h_generations sample_heap). g < kMaxGeneration" .
  have "\<forall>s<length (h_objects sample_heap). h_objects sample_heap ! s \<noteq> None \<longrightarrow> h_generations sample_heap ! s \<noteq> 0"
    by code_simp
  then show "generations_ok sample_heap"
    using \<open>\<forall>g\<in>set (h_generations sample_heap). g < kMaxGeneration\<close>
    by (auto simp: generations_ok_def holds_def sample_heap_def sample_objects_def kMaxGeneration_def)
qed

lemma collectable_sample: "collectable sample_heap []"
  by (rule collectable_if_validated [OF sample_validates _ sample_generations])
    (simp_all add: plain_identities_def sample_heap_def sample_objects_def empty_heap_def)

subsection \<open>Properties\<close>

text \<open>C4. A collection on a well-formed idle heap never fails: no validator fires, no id is found stale,
  no forwarding entry is missing.  It leaves a well-formed heap without mark bits, whose roots, those
  of the caller included, all name objects of the new heap.\<close>

theorem collection_succeeds_and_keeps_the_heap_well_formed:
  assumes "collectable h extra"
  shows "\<exists>extra' h'. collect_impl kind extra h = (Inr extra', h') \<and> heap_wf h' \<and> marks_clear h' \<and>
    roots_valid h' extra' \<and> h_remembered_set h' = []"
  using collect_impl_ok [OF assms, of kind] by blast

lemma collection_succeeds_and_keeps_the_heap_well_formed_witness:
  "\<exists>extra' h'. collect_impl Minor [] sample_heap = (Inr extra', h') \<and> heap_wf h' \<and> marks_clear h' \<and>
    roots_valid h' extra' \<and> h_remembered_set h' = []"
  by (rule collection_succeeds_and_keeps_the_heap_well_formed [OF collectable_sample])

text \<open>C1. A major collection keeps exactly the reachable objects: the heap afterwards is the old one
  restricted to them, slid together without gaps, with every root and reference forwarded.\<close>

theorem major_collection_keeps_exactly_the_reachable_objects:
  assumes "collectable h extra"
  shows "\<exists>fwd h'. collect_impl Major extra h = (Inr (map (move_value fwd) extra), h') \<and>
    moved_by fwd h (reachable h (collection_roots h extra)) h' \<and> rooted_by fwd h h'"
  using collect_impl_ok [OF assms, of Major] kept_major [of h extra] assms by (auto simp: collectable_def)

lemma major_collection_keeps_exactly_the_reachable_objects_witness:
  "\<exists>fwd h'. collect_impl Major [] sample_heap = (Inr (map (move_value fwd) []), h') \<and>
    moved_by fwd sample_heap (reachable sample_heap (collection_roots sample_heap [])) h' \<and> rooted_by fwd sample_heap h'"
  by (rule major_collection_keeps_exactly_the_reachable_objects [OF collectable_sample])

text \<open>C6. A minor collection drops no reachable object and no old one, whatever the remembered set spares
  it from visiting; all survivors are old afterwards.\<close>

theorem minor_collection_keeps_the_reachable_and_the_old:
  assumes "collectable h extra"
  shows "\<exists>fwd h' L. collect_impl Minor extra h = (Inr (map (move_value fwd) extra), h') \<and>
    moved_by fwd h L h' \<and> rooted_by fwd h h' \<and> reachable h (collection_roots h extra) \<subseteq> L \<and>
    (\<forall>s x. holds h s x \<longrightarrow> o_generation x = Old \<longrightarrow> s \<in> L) \<and>
    (\<forall>d y. holds h' d y \<longrightarrow> o_generation y = Old)"
proof -
  have wf: "heap_wf h" and roots: "roots_valid h extra" using assms by (simp_all add: collectable_def)
  let ?L = "kept_slots Minor h (traced Minor h (collection_roots h extra))"
  obtain fwd h' where r: "collect_impl Minor extra h = (Inr (map (move_value fwd) extra), h')"
    "moved_by fwd h ?L h'" "rooted_by fwd h h'"
    using collect_impl_ok [OF assms, of Minor] by blast
  have "s \<in> ?L" if "holds h s x" "o_generation x = Old" for s x
    using that by (auto simp: kept_slots_def live_with_def occupied_slots_def slot_has_generation_def holds_def)
  moreover have "o_generation y = Old" if y: "holds h' d y" for d y
  proof -
    obtain s where "y = final_object fwd (object_at h s)" using moved_by_source [OF r(2) y] by metis
    then show ?thesis by simp
  qed
  ultimately have "(\<forall>s x. holds h s x \<longrightarrow> o_generation x = Old \<longrightarrow> s \<in> ?L) \<and>
    (\<forall>d y. holds h' d y \<longrightarrow> o_generation y = Old)" by blast
  then show ?thesis using r reachable_kept [OF wf roots, of Minor]
    by (intro exI [of _ fwd] exI [of _ h'] exI [of _ ?L]) simp
qed

lemma minor_collection_keeps_the_reachable_and_the_old_witness:
  "\<exists>fwd h' L. collect_impl Minor [] sample_heap = (Inr (map (move_value fwd) []), h') \<and>
    moved_by fwd sample_heap L h' \<and> rooted_by fwd sample_heap h' \<and>
    reachable sample_heap (collection_roots sample_heap []) \<subseteq> L \<and>
    (\<forall>s x. holds sample_heap s x \<longrightarrow> o_generation x = Old \<longrightarrow> s \<in> L) \<and>
    (\<forall>d y. holds h' d y \<longrightarrow> o_generation y = Old)"
  by (rule minor_collection_keeps_the_reachable_and_the_old [OF collectable_sample])

text \<open>C8. A surviving weak reference is cleared exactly when a major collection finds its target
  unreachable, and names the moved target otherwise.\<close>

theorem weak_references_die_with_their_targets:
  assumes "collectable h extra"
  shows "\<exists>fwd h'. collect_impl Major extra h = (Inr (map (move_value fwd) extra), h') \<and>
    (\<forall>s x t. s \<in> reachable h (collection_roots h extra) \<longrightarrow> holds h s x \<longrightarrow> o_kind x = WeakRef \<longrightarrow>
       o_weak_target x = VObject t \<longrightarrow> (\<exists>i. forwarded fwd s = Some i \<and> current_slot h' i \<and>
         (if slot_index t \<in> reachable h (collection_roots h extra)
          then \<exists>j. forwarded fwd (slot_index t) = Some j \<and> current_slot h' j \<and>
            o_weak_target (object_at h' (slot_index i)) = VObject j
          else o_weak_target (object_at h' (slot_index i)) = VNil)))"
proof -
  have wf: "heap_wf h" and roots: "roots_valid h extra" using assms by (simp_all add: collectable_def)
  let ?L = "reachable h (collection_roots h extra)"
  obtain fwd h' where r: "collect_impl Major extra h = (Inr (map (move_value fwd) extra), h')" "moved_by fwd h ?L h'"
    using collect_impl_ok [OF assms, of Major] unfolding kept_major [OF wf roots] by blast
  have "\<exists>i. forwarded fwd s = Some i \<and> current_slot h' i \<and> (if slot_index t \<in> ?L
      then \<exists>j. forwarded fwd (slot_index t) = Some j \<and> current_slot h' j \<and>
        o_weak_target (object_at h' (slot_index i)) = VObject j
      else o_weak_target (object_at h' (slot_index i)) = VNil)"
    if x: "s \<in> ?L" "holds h s x" "o_kind x = WeakRef" "o_weak_target x = VObject t" for s x t
  proof -
    obtain i where i: "forwarded fwd s = Some i" "current_slot h' i"
      "object_at h' (slot_index i) = final_object fwd x"
      using moved_by_object [OF r(2) x(1)] holds_object_at [OF x(2)] by metis
    then have target: "o_weak_target (object_at h' (slot_index i)) = weak_value fwd (VObject t)"
      using x(3,4) by (simp add: final_object_def Let_def)
    show ?thesis
    proof (cases "slot_index t \<in> ?L")
      case True
      then obtain j where "forwarded fwd (slot_index t) = Some j" "current_slot h' j"
        using moved_by_object [OF r(2) True] by metis
      with i target True show ?thesis by simp
    next
      case False
      then have "forwarded fwd (slot_index t) = None" using r(2) by (simp add: moved_by_def)
      with i target False show ?thesis by simp
    qed
  qed
  with r(1) show ?thesis by blast
qed

lemma weak_references_die_with_their_targets_witness:
  "\<exists>fwd h'. collect_impl Major [] sample_heap = (Inr (map (move_value fwd) []), h') \<and>
    (\<forall>s x t. s \<in> reachable sample_heap (collection_roots sample_heap []) \<longrightarrow> holds sample_heap s x \<longrightarrow>
       o_kind x = WeakRef \<longrightarrow> o_weak_target x = VObject t \<longrightarrow>
       (\<exists>i. forwarded fwd s = Some i \<and> current_slot h' i \<and>
         (if slot_index t \<in> reachable sample_heap (collection_roots sample_heap [])
          then \<exists>j. forwarded fwd (slot_index t) = Some j \<and> current_slot h' j \<and>
            o_weak_target (object_at h' (slot_index i)) = VObject j
          else o_weak_target (object_at h' (slot_index i)) = VNil)))"
  by (rule weak_references_die_with_their_targets [OF collectable_sample])

lemma moved_by_stale: "moved_by fwd h L h' \<Longrightarrow> current_slot h i \<Longrightarrow> current_slot h' i \<Longrightarrow>
    forwarded fwd (slot_index i) = Some i"
  by (simp only: moved_by_def)

lemma collectable_idle: "collectable h extra \<Longrightarrow> heap_wf h \<and> roots_valid h extra"
  by (simp add: collectable_def)

text \<open>What the final object is, field by field, in terms of the object before the move.\<close>

lemma final_object_weak_fields:
  "o_weak_target (final_object fwd x) =
    (if o_kind x = WeakRef then weak_value fwd (o_weak_target x) else o_weak_target x)"
  "o_kind x \<noteq> Ephemeron \<Longrightarrow> o_ephemeron_key (final_object fwd x) = o_ephemeron_key x"
  "o_kind x \<noteq> Ephemeron \<Longrightarrow> o_ephemeron_value (final_object fwd x) = o_ephemeron_value x"
  "o_marked (final_object fwd x) = False"
  by (cases "o_kind x"; simp add: final_object_def Let_def moved_copy_eq)+

lemma final_object_same_descriptor: "same_descriptor x (final_object fwd x)"
  by (cases "o_kind x")
    (simp_all add: same_descriptor_def final_object_def Let_def moved_copy_eq)

lemma references_rewritten_cong:
  "references_rewritten g x (y\<lparr>o_weak_target := w\<rparr>) = references_rewritten g x y"
  "references_rewritten g x (y\<lparr>o_ephemeron_key := k, o_ephemeron_value := v\<rparr>) = references_rewritten g x y"
  by (simp_all add: references_rewritten_def selected_ref_map_def)

lemma moved_copy_rewritten: "references_rewritten g (moved_copy x) y = references_rewritten g x y"
  by (simp add: references_rewritten_def selected_ref_map_def moved_copy_eq)

lemma final_object_rewritten:
  assumes "shape_ok x"
  shows "references_rewritten (move_value fwd) x (final_object fwd x)"
proof -
  have "references_rewritten (move_value fwd) (moved_copy x) (map_reference_fields (move_value fwd) (moved_copy x))"
    using assms by (intro references_rewritten_map) simp
  then show ?thesis
    by (cases "o_kind x")
      (simp_all add: final_object_def Let_def moved_copy_rewritten references_rewritten_cong)
qed

lemma moved_by_injective:
  assumes m: "moved_by fwd h L h'" and s: "s \<in> L" "t \<in> L" and same: "forwarded fwd s = forwarded fwd t"
  shows "s = t"
proof -
  obtain i where i: "forwarded fwd s = Some i" "slot_index i = slide h L s" using moved_by_object [OF m s(1)] by metis
  obtain j where j: "forwarded fwd t = Some j" "slot_index j = slide h L t" using moved_by_object [OF m s(2)] by metis
  from i j same have "slide h L s = slide h L t" by simp
  then show ?thesis by (rule iffD1 [OF slide_inj [OF s]])
qed

text \<open>The weak target and the ephemeron pair of a survivor, by what is reachable.\<close>

definition moved_reference :: "forwarding_table \<Rightarrow> gcheap \<Rightarrow> val \<Rightarrow> val \<Rightarrow> bool" where
  "moved_reference fwd h' v w \<longleftrightarrow> (case v of
     VObject t \<Rightarrow> \<exists>j. forwarded fwd (slot_index t) = Some j \<and> current_slot h' j \<and> w = VObject j
   | _ \<Rightarrow> w = v)"

definition names_one_of :: "nat set \<Rightarrow> val \<Rightarrow> bool" where
  "names_one_of L v \<longleftrightarrow> (case v of VObject t \<Rightarrow> slot_index t \<in> L | _ \<Rightarrow> False)"

lemma moved_reference_kept:
  assumes "moved_by fwd h L h'" and "is_object v \<Longrightarrow> names_one_of L v"
  shows "moved_reference fwd h' v (move_value fwd v)"
proof (cases v)
  case (VObject t)
  then have "slot_index t \<in> L" using assms(2) by (simp add: names_one_of_def)
  then obtain j where "forwarded fwd (slot_index t) = Some j" "current_slot h' j"
    using moved_by_object [OF assms(1)] by metis
  with VObject show ?thesis by (simp add: moved_reference_def)
qed (simp_all add: moved_reference_def)

lemma weak_value_kept:
  assumes "moved_by fwd h L h'" and "reference_tag v"
  shows "if names_one_of L v then moved_reference fwd h' v (weak_value fwd v) else weak_value fwd v = VNil"
proof (cases v)
  case (VObject t)
  show ?thesis
  proof (cases "slot_index t \<in> L")
    case True
    then obtain j where "forwarded fwd (slot_index t) = Some j" "current_slot h' j"
      using moved_by_object [OF assms(1)] by metis
    with VObject True show ?thesis by (simp add: moved_reference_def names_one_of_def)
  next
    case False
    with VObject moved_by_dropped [OF assms(1) False] show ?thesis by (simp add: names_one_of_def)
  qed
qed (use assms(2) in \<open>simp_all add: names_one_of_def reference_tag_def\<close>)

definition weak_fields_moved :: "forwarding_table \<Rightarrow> gcheap \<Rightarrow> nat set \<Rightarrow> gcobj \<Rightarrow> gcobj \<Rightarrow> bool" where
  "weak_fields_moved fwd h' L x y \<longleftrightarrow>
     (if o_kind x = WeakRef \<and> \<not> names_one_of L (o_weak_target x) then o_weak_target y = VNil
      else moved_reference fwd h' (o_weak_target x) (o_weak_target y)) \<and>
     (if o_kind x = Ephemeron \<and> \<not> names_one_of L (o_ephemeron_key x)
      then o_ephemeron_key y = VNil \<and> o_ephemeron_value y = VNil
      else moved_reference fwd h' (o_ephemeron_key x) (o_ephemeron_key y) \<and>
        moved_reference fwd h' (o_ephemeron_value x) (o_ephemeron_value y))"

lemma shape_weak_nil:
  assumes "shape_ok x"
  shows "o_kind x \<noteq> WeakRef \<Longrightarrow> o_weak_target x = VNil"
    "o_kind x \<noteq> Ephemeron \<Longrightarrow> o_ephemeron_key x = VNil \<and> o_ephemeron_value x = VNil"
proof -
  have all: "shape_foreign_payload x = Inr ()"
    "o_kind x = Pair \<Longrightarrow> shape_pair x = Inr ()" "o_kind x = ScalarArray \<Longrightarrow> shape_scalar_array x = Inr ()"
    "o_kind x = RefArray \<Longrightarrow> shape_ref_array x = Inr ()" "o_kind x = Str \<Longrightarrow> shape_str x = Inr ()"
    "o_kind x = Closure \<Longrightarrow> shape_closure x = Inr ()" "o_kind x = Map_kind \<Longrightarrow> shape_map x = Inr ()"
    "o_kind x = Record_kind \<Longrightarrow> shape_record x = Inr ()" "o_kind x = Variant \<Longrightarrow> shape_variant x = Inr ()"
    "o_kind x = Ephemeron \<Longrightarrow> shape_ephemeron x = Inr ()" "o_kind x = Builder \<Longrightarrow> shape_builder x = Inr ()"
    using assms by (simp_all add: validate_descriptor_shape_def ethen_Inr_iff)
  show "o_ephemeron_key x = VNil \<and> o_ephemeron_value x = VNil" if "o_kind x \<noteq> Ephemeron"
    using all(1) that by (simp add: shape_foreign_payload_def ethen_Inr_iff)
  show "o_weak_target x = VNil" if "o_kind x \<noteq> WeakRef"
  proof (cases "o_kind x")
    case Pair with all(2) show ?thesis by (simp add: shape_pair_def)
  next
    case ScalarArray with all(3) show ?thesis by (simp add: shape_scalar_array_def)
  next
    case RefArray with all(4) show ?thesis by (simp add: shape_ref_array_def)
  next
    case Str with all(5) show ?thesis by (simp add: shape_str_def)
  next
    case Closure with all(6) show ?thesis by (simp add: shape_closure_def ethen_Inr_iff)
  next
    case Map_kind with all(7) show ?thesis by (simp add: shape_map_def ethen_Inr_iff)
  next
    case Record_kind with all(8) show ?thesis by (simp add: shape_record_def ethen_Inr_iff)
  next
    case Variant with all(9) show ?thesis by (simp add: shape_variant_def ethen_Inr_iff)
  next
    case Ephemeron with all(10) show ?thesis by (simp add: shape_ephemeron_def Let_def ethen_Inr_iff)
  next
    case Builder with all(11) show ?thesis by (simp add: shape_builder_def ethen_Inr_iff)
  next
    case WeakRef with that show ?thesis by simp
  qed
qed

lemma shape_weak_tags:
  assumes "shape_ok x"
  shows "o_kind x = WeakRef \<Longrightarrow> reference_tag (o_weak_target x)"
    "o_kind x = Ephemeron \<Longrightarrow> reference_tag (o_ephemeron_key x)"
    "o_kind x = Ephemeron \<Longrightarrow> o_ephemeron_value x = VObject v \<Longrightarrow> o_ephemeron_value_is_ref x"
proof -
  assume "o_kind x = WeakRef"
  then show "reference_tag (o_weak_target x)"
    using assms by (simp add: validate_descriptor_shape_def shape_weak_ref_def ethen_Inr_iff)
next
  assume "o_kind x = Ephemeron"
  then show "reference_tag (o_ephemeron_key x)"
    using assms by (simp add: validate_descriptor_shape_def shape_ephemeron_def Let_def ethen_Inr_iff)
next
  assume e: "o_kind x = Ephemeron" "o_ephemeron_value x = VObject v"
  show "o_ephemeron_value_is_ref x"
  proof (rule ccontr)
    assume "\<not> o_ephemeron_value_is_ref x"
    with e show False
      using assms
      by (cases "o_ephemeron_key x = VNil")
       (simp_all add: validate_descriptor_shape_def shape_ephemeron_def Let_def ethen_Inr_iff scalar_tag_def)
  qed
qed

lemma reachable_ephemeron_value:
  assumes s: "s \<in> reachable h roots" "holds h s x" "o_kind x = Ephemeron" "shape_ok x"
    and key: "names_one_of (reachable h roots) (o_ephemeron_key x)" and v: "is_object (o_ephemeron_value x)"
  shows "names_one_of (reachable h roots) (o_ephemeron_value x)"
proof -
  obtain k where k: "o_ephemeron_key x = VObject k" "slot_index k \<in> reachable h roots"
    using key by (cases "o_ephemeron_key x") (simp_all add: names_one_of_def)
  obtain w where w: "o_ephemeron_value x = VObject w" using v by (cases "o_ephemeron_value x") simp_all
  have "slot_index w \<in> reachable h roots"
    by (rule reachable.ephemeron [OF s(1-3) k shape_weak_tags(3) [OF s(4,3) w] w])
  with w show ?thesis by (simp add: names_one_of_def)
qed

lemma final_object_weak_fields_moved:
  assumes m: "moved_by fwd h (reachable h roots) h'" and s: "s \<in> reachable h roots" "holds h s x" "shape_ok x"
  shows "weak_fields_moved fwd h' (reachable h roots) x (final_object fwd x)"
proof -
  let ?L = "reachable h roots" and ?y = "final_object fwd x"
  have nil: "moved_reference fwd h' VNil VNil" by (simp add: moved_reference_def)
  have weak: "if o_kind x = WeakRef \<and> \<not> names_one_of ?L (o_weak_target x) then o_weak_target ?y = VNil
      else moved_reference fwd h' (o_weak_target x) (o_weak_target ?y)"
    using weak_value_kept [OF m shape_weak_tags(1) [OF s(3)]] shape_weak_nil(1) [OF s(3)] nil
    by (auto simp: final_object_weak_fields split: if_splits)
  have eph: "if o_kind x = Ephemeron \<and> \<not> names_one_of ?L (o_ephemeron_key x)
      then o_ephemeron_key ?y = VNil \<and> o_ephemeron_value ?y = VNil
      else moved_reference fwd h' (o_ephemeron_key x) (o_ephemeron_key ?y) \<and>
        moved_reference fwd h' (o_ephemeron_value x) (o_ephemeron_value ?y)"
  proof (cases "o_kind x = Ephemeron")
    case False
    then show ?thesis using shape_weak_nil(2) [OF s(3)] nil by (simp add: final_object_weak_fields)
  next
    case True
    let ?k = "o_ephemeron_key x" and ?v = "o_ephemeron_value x"
    have y: "o_ephemeron_key ?y = weak_value fwd ?k"
      "o_ephemeron_value ?y = (if weak_value fwd ?k = VNil then VNil
        else if o_ephemeron_value_is_ref x then move_value fwd ?v else ?v)"
      using True by (simp_all add: final_object_def Let_def)
    note k = weak_value_kept [OF m shape_weak_tags(2) [OF s(3) True]]
    show ?thesis
    proof (cases "names_one_of ?L ?k")
      case False
      with k y True show ?thesis by simp
    next
      case live: True
      then have key: "moved_reference fwd h' ?k (weak_value fwd ?k)" "weak_value fwd ?k \<noteq> VNil"
        using k by (auto simp: names_one_of_def moved_reference_def split: val.splits)
      have "moved_reference fwd h' ?v (move_value fwd ?v)"
        by (rule moved_reference_kept [OF m]) (rule reachable_ephemeron_value [OF s(1,2) True s(3) live])
      moreover have "move_value fwd ?v = ?v" if "\<not> o_ephemeron_value_is_ref x"
        using that shape_weak_tags(3) [OF s(3) True] by (cases ?v) simp_all
      ultimately show ?thesis using y key live by auto
    qed
  qed
  from weak eph show ?thesis by (simp only: weak_fields_moved_def simp_thms)
qed

text \<open>C3. A major collection preserves the object graph.  Every reachable object is, at its new id,
  the object it was: its descriptor (kind, length, layouts, masks, case, bytes, scalar elements,
  capacity, map flags and lookup index) is the same, every pair field, array element, capture,
  record or variant field, map key and map value is the old one, forwarded where the kind and the
  masks make it a reference and unchanged where they make it a scalar, each reference naming an
  object of the new heap; a weak target or an ephemeron pair is moved, or cleared when the target or
  key is not reachable; the mark is off and the generation old.  Distinct objects stay distinct.\<close>

theorem collection_preserves_the_object_graph:
  assumes "collectable h extra"
  shows "\<exists>fwd h'. collect_impl Major extra h = (Inr (map (move_value fwd) extra), h') \<and>
    (\<forall>s x. s \<in> reachable h (collection_roots h extra) \<longrightarrow> holds h s x \<longrightarrow>
       (\<exists>i y. forwarded fwd s = Some i \<and> current_slot h' i \<and> holds h' (slot_index i) y \<and>
         same_descriptor x y \<and> references_rewritten (move_value fwd) x y \<and>
         weak_fields_moved fwd h' (reachable h (collection_roots h extra)) x y \<and>
         \<not> o_marked y \<and> o_generation y = Old \<and>
         reference_fields y = map (move_value fwd) (reference_fields x) \<and>
         (\<forall>v\<in>set (reference_fields y). valid_ref h' v))) \<and>
    (\<forall>s t. s \<in> reachable h (collection_roots h extra) \<longrightarrow> t \<in> reachable h (collection_roots h extra) \<longrightarrow>
       forwarded fwd s = forwarded fwd t \<longrightarrow> s = t)"
proof -
  have wf: "heap_wf h" and roots: "roots_valid h extra" using collectable_idle [OF assms] by simp_all
  let ?L = "reachable h (collection_roots h extra)"
  obtain fwd h' where r: "collect_impl Major extra h = (Inr (map (move_value fwd) extra), h')"
    "moved_by fwd h ?L h'" "heap_wf h'"
    using collect_impl_ok [OF assms, of Major] unfolding kept_major [OF wf roots] by blast
  have "\<exists>i y. forwarded fwd s = Some i \<and> current_slot h' i \<and> holds h' (slot_index i) y \<and>
      same_descriptor x y \<and> references_rewritten (move_value fwd) x y \<and> weak_fields_moved fwd h' ?L x y \<and>
      \<not> o_marked y \<and> o_generation y = Old \<and> reference_fields y = map (move_value fwd) (reference_fields x) \<and>
      (\<forall>v\<in>set (reference_fields y). valid_ref h' v)"
    if s: "s \<in> ?L" and x: "holds h s x" for s x
  proof -
    obtain i where i: "forwarded fwd s = Some i" "current_slot h' i"
      "object_at h' (slot_index i) = final_object fwd x"
      using moved_by_object [OF r(2) s] holds_object_at [OF x] by metis
    have shape: "shape_ok x" by (rule heap_wf_shape [OF wf x])
    have y: "holds h' (slot_index i) (final_object fwd x)"
      using current_slot_holds [OF i(2)] i(3) by simp
    then have "\<forall>v\<in>set (reference_fields (final_object fwd x)). valid_ref h' v"
      using heap_wfD(5) [OF r(3)] by (auto simp: fields_valid_def)
    with i y show ?thesis
      using final_object_same_descriptor final_object_rewritten [OF shape]
        final_object_weak_fields_moved [OF r(2) s x shape] final_object_weak_fields(4)
      by (intro exI [of _ i] exI [of _ "final_object fwd x"]) simp
  qed
  moreover have "s = t" if "s \<in> ?L" "t \<in> ?L" "forwarded fwd s = forwarded fwd t" for s t
    by (rule moved_by_injective [OF r(2) that])
  ultimately show ?thesis using r(1) by (intro exI [of _ fwd] exI [of _ h']) blast
qed

lemma collection_preserves_the_object_graph_witness:
  "\<exists>fwd h'. collect_impl Major [] sample_heap = (Inr (map (move_value fwd) []), h') \<and>
    (\<forall>s x. s \<in> reachable sample_heap (collection_roots sample_heap []) \<longrightarrow> holds sample_heap s x \<longrightarrow>
       (\<exists>i y. forwarded fwd s = Some i \<and> current_slot h' i \<and> holds h' (slot_index i) y \<and>
         same_descriptor x y \<and> references_rewritten (move_value fwd) x y \<and>
         weak_fields_moved fwd h' (reachable sample_heap (collection_roots sample_heap [])) x y \<and>
         \<not> o_marked y \<and> o_generation y = Old \<and>
         reference_fields y = map (move_value fwd) (reference_fields x) \<and>
         (\<forall>v\<in>set (reference_fields y). valid_ref h' v))) \<and>
    (\<forall>s t. s \<in> reachable sample_heap (collection_roots sample_heap []) \<longrightarrow>
       t \<in> reachable sample_heap (collection_roots sample_heap []) \<longrightarrow>
       forwarded fwd s = forwarded fwd t \<longrightarrow> s = t)"
  by (rule collection_preserves_the_object_graph [OF collectable_sample])

text \<open>C9. What happens to an ephemeron that survives a major collection depends on its key alone.
  When the key is reachable, the key is the moved key and the value is kept alive by it: an object
  value is the moved object, a scalar or nil value is the same.  When the key is unreachable, or the
  ephemeron was cleared before, key and value are nil, whatever the value was.\<close>

theorem ephemerons_die_with_their_keys:
  assumes "collectable h extra"
  shows "\<exists>fwd h'. collect_impl Major extra h = (Inr (map (move_value fwd) extra), h') \<and>
    (\<forall>s x. s \<in> reachable h (collection_roots h extra) \<longrightarrow> holds h s x \<longrightarrow> o_kind x = Ephemeron \<longrightarrow>
       (\<exists>i y. forwarded fwd s = Some i \<and> current_slot h' i \<and> holds h' (slot_index i) y \<and>
         o_kind y = Ephemeron \<and> o_ephemeron_value_is_ref y = o_ephemeron_value_is_ref x \<and>
         (if \<exists>k. o_ephemeron_key x = VObject k \<and> slot_index k \<in> reachable h (collection_roots h extra)
          then moved_reference fwd h' (o_ephemeron_key x) (o_ephemeron_key y) \<and>
            moved_reference fwd h' (o_ephemeron_value x) (o_ephemeron_value y)
          else o_ephemeron_key y = VNil \<and> o_ephemeron_value y = VNil)))"
proof -
  have wf: "heap_wf h" and roots: "roots_valid h extra" using collectable_idle [OF assms] by simp_all
  let ?L = "reachable h (collection_roots h extra)"
  obtain fwd h' where r: "collect_impl Major extra h = (Inr (map (move_value fwd) extra), h')" "moved_by fwd h ?L h'"
    using collect_impl_ok [OF assms, of Major] unfolding kept_major [OF wf roots] by blast
  have "\<exists>i y. forwarded fwd s = Some i \<and> current_slot h' i \<and> holds h' (slot_index i) y \<and>
      o_kind y = Ephemeron \<and> o_ephemeron_value_is_ref y = o_ephemeron_value_is_ref x \<and>
      (if \<exists>k. o_ephemeron_key x = VObject k \<and> slot_index k \<in> ?L
       then moved_reference fwd h' (o_ephemeron_key x) (o_ephemeron_key y) \<and>
         moved_reference fwd h' (o_ephemeron_value x) (o_ephemeron_value y)
       else o_ephemeron_key y = VNil \<and> o_ephemeron_value y = VNil)"
    if s: "s \<in> ?L" and x: "holds h s x" and e: "o_kind x = Ephemeron" for s x
  proof -
    obtain i where i: "forwarded fwd s = Some i" "current_slot h' i"
      "object_at h' (slot_index i) = final_object fwd x"
      using moved_by_object [OF r(2) s] holds_object_at [OF x] by metis
    have shape: "shape_ok x" by (rule heap_wf_shape [OF wf x])
    have y: "holds h' (slot_index i) (final_object fwd x)"
      using current_slot_holds [OF i(2)] i(3) by simp
    have "names_one_of ?L (o_ephemeron_key x) \<longleftrightarrow> (\<exists>k. o_ephemeron_key x = VObject k \<and> slot_index k \<in> ?L)"
      by (cases "o_ephemeron_key x") (simp_all add: names_one_of_def)
    with i y e final_object_weak_fields_moved [OF r(2) s x shape] final_object_same_descriptor [of x fwd]
    show ?thesis
      by (intro exI [of _ i] exI [of _ "final_object fwd x"]) (simp add: weak_fields_moved_def same_descriptor_def)
  qed
  with r(1) show ?thesis by blast
qed

lemma ephemerons_die_with_their_keys_witness:
  "\<exists>fwd h'. collect_impl Major [] sample_heap = (Inr (map (move_value fwd) []), h') \<and>
    (\<forall>s x. s \<in> reachable sample_heap (collection_roots sample_heap []) \<longrightarrow> holds sample_heap s x \<longrightarrow>
       o_kind x = Ephemeron \<longrightarrow>
       (\<exists>i y. forwarded fwd s = Some i \<and> current_slot h' i \<and> holds h' (slot_index i) y \<and>
         o_kind y = Ephemeron \<and> o_ephemeron_value_is_ref y = o_ephemeron_value_is_ref x \<and>
         (if \<exists>k. o_ephemeron_key x = VObject k \<and>
            slot_index k \<in> reachable sample_heap (collection_roots sample_heap [])
          then moved_reference fwd h' (o_ephemeron_key x) (o_ephemeron_key y) \<and>
            moved_reference fwd h' (o_ephemeron_value x) (o_ephemeron_value y)
          else o_ephemeron_key y = VNil \<and> o_ephemeron_value y = VNil)))"
  by (rule ephemerons_die_with_their_keys [OF collectable_sample])

text \<open>C7. No id is silently reused: after a collection an id handed out before it either is the
  current id of the same surviving object, or is refused as stale.\<close>

theorem collection_detects_stale_ids:
  assumes "collectable h extra" and "current_slot h i"
  shows "\<exists>fwd h'. collect_impl kind extra h = (Inr (map (move_value fwd) extra), h') \<and>
    (if forwarded fwd (slot_index i) = Some i
     then checked_slot i h' = Inr (slot_index i) \<and>
       object_at h' (slot_index i) = final_object fwd (object_at h (slot_index i))
     else checked_slot i h' = Inl (Out_of_range msg_stale_id))"
proof -
  let ?L = "kept_slots kind h (traced kind h (collection_roots h extra))"
  obtain fwd h' where r: "collect_impl kind extra h = (Inr (map (move_value fwd) extra), h')"
    "moved_by fwd h ?L h'" "heap_wf h'"
    using collect_impl_ok [OF assms(1), of kind] by blast
  have "if forwarded fwd (slot_index i) = Some i
     then checked_slot i h' = Inr (slot_index i) \<and>
       object_at h' (slot_index i) = final_object fwd (object_at h (slot_index i))
     else checked_slot i h' = Inl (Out_of_range msg_stale_id)"
  proof (cases "forwarded fwd (slot_index i) = Some i")
    case True
    then have "slot_index i \<in> ?L" using moved_by_dropped [OF r(2)] by force
    from moved_by_object [OF r(2) this] True have "current_slot h' i"
      "object_at h' (slot_index i) = final_object fwd (object_at h (slot_index i))" by force+
    with True show ?thesis by (simp add: checked_slot_def Let_def)
  next
    case False
    then have "\<not> current_slot h' i" using moved_by_stale [OF r(2) assms(2)] by blast
    then show ?thesis using False heap_wfD(2) [OF r(3)] by (simp add: checked_slot_def Let_def)
  qed
  with r(1) show ?thesis by blast
qed

lemma collection_detects_stale_ids_witness:
  "\<exists>fwd h'. collect_impl Major [] sample_heap = (Inr (map (move_value fwd) []), h') \<and>
    (if forwarded fwd (slot_index (object_id_at 5 1)) = Some (object_id_at 5 1)
     then checked_slot (object_id_at 5 1) h' = Inr (slot_index (object_id_at 5 1)) \<and>
       object_at h' (slot_index (object_id_at 5 1)) =
         final_object fwd (object_at sample_heap (slot_index (object_id_at 5 1)))
     else checked_slot (object_id_at 5 1) h' = Inl (Out_of_range msg_stale_id))"
  by (rule collection_detects_stale_ids [OF collectable_sample])
    (simp add: current_slot_def sample_heap_def sample_objects_def)

end
