(* ===== verification/GC_Tricolour.thy ===== *)
theory GC_Tricolour
  imports GC_Collect
begin

text \<open>
  Incremental marking is correct (\<open>src/gc/heap.cpp\<close>): the strong tri-colour invariant holds at
  the start of a cycle, every budgeted step and the write barrier keep it, enough budget empties
  the worklist, and the final pause succeeds, agrees with the shadow marking and leaves the heap an
  atomic major collection would leave.
\<close>

subsection \<open>What the invariant depends on\<close>

text \<open>The parts of the state that \<open>heap_wf\<close> reads.\<close>

definition same_store :: "gcheap \<Rightarrow> gcheap \<Rightarrow> bool" where
  "same_store h k \<longleftrightarrow> h_objects k = h_objects h \<and> h_generations k = h_generations h \<and>
     h_remembered_set k = h_remembered_set h \<and> h_weak_refs k = h_weak_refs h \<and>
     h_ephemerons k = h_ephemerons h \<and> h_intern_table k = h_intern_table h \<and>
     h_compaction_active k = h_compaction_active h \<and> h_source_ids k = h_source_ids h \<and>
     h_forwarding k = h_forwarding h"

lemma same_store_reads:
  assumes "same_store h k"
  shows "current_slot k = current_slot h" "object_at k = object_at h" "holds k = holds h"
    "id_at k = id_at h" "valid_ref k = valid_ref h" "checked_slot i k = checked_slot i h"
    "string_bytes i k = string_bytes i h" "map_key_hash k = map_key_hash h"
proof -
  have eq: "h_objects k = h_objects h" "h_generations k = h_generations h"
    "h_compaction_active k = h_compaction_active h" "h_source_ids k = h_source_ids h"
    "h_forwarding k = h_forwarding h"
    using assms by (simp_all add: same_store_def)
  show cur: "current_slot k = current_slot h" and obj: "object_at k = object_at h"
    and "holds k = holds h" and "id_at k = id_at h"
    by (simp_all add: fun_eq_iff current_slot_def object_at_def holds_def id_at_def eq)
  show "valid_ref k = valid_ref h" by (simp add: fun_eq_iff valid_ref_def cur)
  have slot: "checked_slot i k = checked_slot i h" for i
    by (rule checked_slot_cong [OF eq])
  then show "checked_slot i k = checked_slot i h" .
  have bytes: "string_bytes i k = string_bytes i h" for i
    by (simp add: string_bytes_def checked_string_def checked_kind_def slot obj)
  then show "string_bytes i k = string_bytes i h" .
  show "map_key_hash k = map_key_hash h"
  proof
    fix v show "map_key_hash k v = map_key_hash h v" by (cases v) (simp_all add: bytes)
  qed
qed

lemma heap_wf_cong:
  assumes "same_store h k"
  shows "heap_wf k = heap_wf h"
proof -
  note R = same_store_reads [OF assms]
  have eq: "h_objects k = h_objects h" "h_generations k = h_generations h"
    "h_remembered_set k = h_remembered_set h" "h_weak_refs k = h_weak_refs h"
    "h_ephemerons k = h_ephemerons h" "h_intern_table k = h_intern_table h"
    "h_compaction_active k = h_compaction_active h"
    using assms by (simp_all add: same_store_def)
  have layout: "layout_ok k = layout_ok h"
    by (simp add: layout_ok_def slot_layout_ok_def validate_map_index_def R eq)
  have slots: "kind_slots x k = kind_slots x h" for x
  proof -
    have "is_kind_at x k = is_kind_at x h" by (simp add: is_kind_at_def fun_eq_iff eq)
    then show ?thesis by (simp add: kind_slots_def eq)
  qed
  have "weak_ok k = weak_ok h" "ephemerons_ok k = ephemerons_ok h"
    by (simp_all add: weak_ok_def ephemerons_ok_def weak_slot_good_def ephemeron_slot_good_def R eq slots)
  moreover have "interns_ok k = interns_ok h"
    by (simp add: interns_ok_def interns_ok_upto_def intern_entry_ok_def intern_object_def R eq)
  moreover have "plain_identities k = plain_identities h" "generations_ok k = generations_ok h"
    "fields_valid k = fields_valid h" "remembered_ok k = remembered_ok h"
    by (simp_all add: plain_identities_def generations_ok_def fields_valid_def remembered_ok_def R eq)
  ultimately show ?thesis using layout by (simp add: heap_wf_def)
qed

lemma same_store_worklist [simp]:
  "same_store h (h\<lparr>h_mark_worklist := W\<rparr>)" "same_store h (h\<lparr>h_marking_active := b\<rparr>)"
  "same_store h (h\<lparr>h_mark_worklist := W, h_marking_active := b\<rparr>)"
  by (simp_all add: same_store_def)

lemma reference_fields_marked [simp]: "reference_fields (x\<lparr>o_marked := b\<rparr>) = reference_fields x"
  by (cases "o_kind x") (simp_all add: reference_fields_def selected_ref_map_def)

lemma heap_wf_with_marks [simp]: "heap_wf (with_marks h M) = heap_wf h"
proof -
  let ?k = "with_marks h M"
  have obj: "current_slot h i \<Longrightarrow> object_at ?k (slot_index i) =
      (object_at h (slot_index i))\<lparr>o_marked := slot_index i \<in> M\<rparr>" for i
    using object_at_with_marks [OF current_slot_holds] by blast
  have id: "id_at ?k = id_at h" by (simp add: fun_eq_iff id_at_def)
  have val: "valid_ref ?k = valid_ref h" by (simp add: fun_eq_iff valid_ref_def)
  have kind: "is_kind_at x ?k s = is_kind_at x h s" if "s < length (h_objects h)" for x s
    using that by (auto simp: is_kind_at_def with_marks_nth)
  have slots: "kind_slots x ?k = kind_slots x h" for x
    unfolding kind_slots_def with_marks_frame by (rule filter_cong) (simp_all add: kind)
  have at: "s \<in> set (kind_slots x h) \<Longrightarrow> object_at ?k s = (object_at h s)\<lparr>o_marked := s \<in> M\<rparr>" for x s
    by (auto simp: kind_slots_iff object_at_with_marks)
  have shape: "shape_ok (x\<lparr>o_marked := b\<rparr>) = shape_ok x" for x b by simp
  have weak: "weak_ok ?k = weak_ok h"
    using at by (simp add: weak_ok_def weak_slot_good_def slots id val)
  have eph: "ephemerons_ok ?k = ephemerons_ok h"
    using at by (simp add: ephemerons_ok_def ephemeron_slot_good_def slots id val)
  have entry: "intern_entry_ok ?k e = intern_entry_ok h e" for e
  proof (cases "current_slot h (canonical e)")
    case True
    then show ?thesis using obj [OF True] by (simp add: intern_entry_ok_def intern_object_def)
  qed (simp add: intern_entry_ok_def)
  have bytes: "intern_entry_ok h e \<Longrightarrow> o_string_bytes (intern_object ?k e) = o_string_bytes (intern_object h e)" for e
    using obj [of "canonical e"] by (simp add: intern_entry_ok_def intern_object_def)
  have intern: "interns_ok ?k = interns_ok h"
  proof (cases "\<forall>n<length (h_intern_table h). intern_entry_ok h (h_intern_table h ! n)")
    case True
    then have eq: "o_string_bytes (intern_object ?k (h_intern_table h ! n)) =
        o_string_bytes (intern_object h (h_intern_table h ! n))" if "n < length (h_intern_table h)" for n
      using that bytes by blast
    show ?thesis
      unfolding interns_ok_def interns_ok_upto_def with_marks_frame entry
      using eq by (simp cong: conj_cong imp_cong)
  next
    case False
    then show ?thesis unfolding interns_ok_def interns_ok_upto_def with_marks_frame entry by blast
  qed
  have gens: "generations_ok ?k = generations_ok h"
    by (auto simp: generations_ok_def holds_with_marks)
  have fields: "fields_valid ?k = fields_valid h"
    unfolding fields_valid_def holds_with_marks val by (metis reference_fields_marked)
  have "remembered_ok ?k = remembered_ok h" if "fields_valid h"
  proof -
    have "current_slot h i \<Longrightarrow> o_generation (object_at ?k (slot_index i)) = o_generation (object_at h (slot_index i))" for i
      using obj by simp
    moreover have cur: "holds h s x \<Longrightarrow> VObject i \<in> set (reference_fields x) \<Longrightarrow> current_slot h i" for s x i
      by (rule fields_validD [OF that])
    ultimately have "(\<forall>i\<in>set (h_remembered_set h). current_slot h i \<and> o_generation (object_at ?k (slot_index i)) = Old) =
        (\<forall>i\<in>set (h_remembered_set h). current_slot h i \<and> o_generation (object_at h (slot_index i)) = Old)"
      and owner: "holds h s x \<Longrightarrow> VObject i \<in> set (reference_fields x) \<Longrightarrow>
        o_generation (object_at ?k (slot_index i)) = o_generation (object_at h (slot_index i))" for s x i
      by auto
    moreover have "(\<forall>s y i. holds ?k s y \<longrightarrow> o_generation y = Old \<longrightarrow> VObject i \<in> set (reference_fields y) \<longrightarrow>
          o_generation (object_at ?k (slot_index i)) = Young \<longrightarrow> id_at h s \<in> set (h_remembered_set h)) =
        (\<forall>s x i. holds h s x \<longrightarrow> o_generation x = Old \<longrightarrow> VObject i \<in> set (reference_fields x) \<longrightarrow>
          o_generation (object_at h (slot_index i)) = Young \<longrightarrow> id_at h s \<in> set (h_remembered_set h))"
      (is "?A = ?B")
    proof
      assume a: ?A
      show ?B
      proof (intro allI impI)
        fix s x i
        assume x: "holds h s x" "o_generation x = Old" "VObject i \<in> set (reference_fields x)"
          "o_generation (object_at h (slot_index i)) = Young"
        then have "holds ?k s (x\<lparr>o_marked := s \<in> M\<rparr>)" by (auto simp: holds_with_marks)
        then show "id_at h s \<in> set (h_remembered_set h)"
          by (rule a [rule_format, of s _ i]) (use x owner [OF x(1,3)] in simp_all)
      qed
    next
      assume ?B
      then show ?A using owner by (auto simp: holds_with_marks)
    qed
    ultimately show ?thesis by (simp add: remembered_ok_def id)
  qed
  then show ?thesis
    using weak eph intern gens fields by (auto simp: heap_wf_def plain_identities_def)
qed

subsection \<open>The tri-colour invariant\<close>

text \<open>
  Black objects are marked, grey ids are on the worklist: every reference of a black object is to
  an object that is black or grey.
\<close>

definition tricolour :: "gcheap \<Rightarrow> bool" where
  "tricolour h \<longleftrightarrow> (\<forall>s x i. holds h s x \<longrightarrow> o_marked x \<longrightarrow> VObject i \<in> set (reference_fields x) \<longrightarrow>
     o_marked (object_at h (slot_index i)) \<or> i \<in> set (h_mark_worklist h))"

definition marking_ok :: "gcheap \<Rightarrow> bool" where
  "marking_ok h \<longleftrightarrow> heap_wf h \<and> h_marking_active h \<and> tricolour h \<and>
     (\<forall>i\<in>set (h_mark_worklist h). current_slot h i)"

lemma validate_incremental_marking_iff:
  assumes wf: "heap_wf h" and "h_marking_active h"
  shows "validate_incremental_marking h = Inr () \<longleftrightarrow> tricolour h"
proof -
  have "validate_black_object h s x = Inr () \<longleftrightarrow> (o_marked x \<longrightarrow> (\<forall>i. VObject i \<in> set (reference_fields x) \<longrightarrow>
      o_marked (object_at h (slot_index i)) \<or> i \<in> set (h_mark_worklist h)))" if x: "holds h s x" for s x
  proof (cases "o_marked x")
    case True
    have cur: "current_slot h i" if "VObject i \<in> set (reference_fields x)" for i
      by (rule fields_validD [OF heap_wfD(5) [OF wf] x that])
    have "(if \<not> is_object v then Inr () else ebind (as_object v) (\<lambda>i. ebind (checked_slot i h) (\<lambda>target.
         ethrow_if (\<not> o_marked (object_at h target) \<and> i \<notin> set (h_mark_worklist h))
           (Logic_error msg_black_to_white)))) = Inr () \<longleftrightarrow>
        (\<forall>i. v = VObject i \<longrightarrow> o_marked (object_at h (slot_index i)) \<or> i \<in> set (h_mark_worklist h))"
      if "v \<in> set (reference_fields x)" for v
    proof -
      have "v = VObject i \<Longrightarrow> current_slot h i" for i using that cur by blast
      then show ?thesis by (cases v) (simp_all add: ethrow_if_def)
    qed
    then show ?thesis
      using True visit_reference_fields_ok [OF heap_wf_shape [OF wf x]]
      by (auto simp: validate_black_object_def eall_ok_iff)
  qed (simp add: validate_black_object_def)
  then show ?thesis
    using assms(2) by (auto simp: validate_incremental_marking_def for_objects_ok_iff tricolour_def)
qed

text \<open>The same invariant over the set of marked slots.\<close>

definition black_covered :: "gcheap \<Rightarrow> nat set \<Rightarrow> object_id set \<Rightarrow> bool" where
  "black_covered h M W \<longleftrightarrow> (\<forall>s\<in>M \<inter> occupied_slots h. \<forall>i\<in>field_ids h s. slot_index i \<in> M \<or> i \<in> W)"

lemma tricolour_covered:
  assumes wf: "heap_wf h"
  shows "tricolour ((with_marks h M)\<lparr>h_mark_worklist := W\<rparr>) \<longleftrightarrow> black_covered h M (set W)"
proof -
  have mark: "o_marked (object_at (with_marks h M) (slot_index i)) \<longleftrightarrow> slot_index i \<in> M" if "current_slot h i" for i
    using object_at_with_marks [OF current_slot_holds [OF that]] by simp
  have hold: "holds ((with_marks h M)\<lparr>h_mark_worklist := W\<rparr>) = holds (with_marks h M)"
    "object_at ((with_marks h M)\<lparr>h_mark_worklist := W\<rparr>) = object_at (with_marks h M)"
    by (simp_all add: fun_eq_iff holds_def object_at_def)
  have cur: "holds h s x \<Longrightarrow> VObject i \<in> set (reference_fields x) \<Longrightarrow> current_slot h i" for s x i
    by (rule fields_validD [OF heap_wfD(5) [OF wf]])
  show ?thesis
  proof
    assume t: "tricolour ((with_marks h M)\<lparr>h_mark_worklist := W\<rparr>)"
    show "black_covered h M (set W)"
      unfolding black_covered_def
    proof (intro ballI)
      fix s i assume "s \<in> M \<inter> occupied_slots h" "i \<in> field_ids h s"
      then obtain x where x: "s \<in> M" "holds h s x" "VObject i \<in> set (reference_fields x)"
        by (auto simp: occupied_slots_def field_ids_def ids_of_def holds_object_at)
      then have "holds (with_marks h M) s (x\<lparr>o_marked := s \<in> M\<rparr>)" by (auto simp: holds_with_marks)
      then have "o_marked (object_at (with_marks h M) (slot_index i)) \<or> i \<in> set W"
        using t x by (auto simp: tricolour_def hold)
      then show "slot_index i \<in> M \<or> i \<in> set W" using mark cur x by blast
    qed
  next
    assume c: "black_covered h M (set W)"
    show "tricolour ((with_marks h M)\<lparr>h_mark_worklist := W\<rparr>)"
      unfolding tricolour_def hold
    proof (intro allI impI)
      fix s y i assume y: "holds (with_marks h M) s y" "o_marked y" "VObject i \<in> set (reference_fields y)"
      then obtain x where x: "holds h s x" "y = x\<lparr>o_marked := s \<in> M\<rparr>" by (auto simp: holds_with_marks)
      with y have "s \<in> M" "i \<in> field_ids h s" "VObject i \<in> set (reference_fields x)"
        by (auto simp: field_ids_def ids_of_def holds_object_at)
      then have "slot_index i \<in> M \<or> i \<in> set W" "current_slot h i"
        using c x(1) cur by (auto simp: black_covered_def occupied_slots_def)
      then show "o_marked (object_at (with_marks h M) (slot_index i)) \<or>
          i \<in> set (h_mark_worklist ((with_marks h M)\<lparr>h_mark_worklist := W\<rparr>))"
        using mark by simp
    qed
  qed
qed

subsection \<open>A marking step\<close>

lemma wf_scan_next:
  assumes wf: "heap_wf h" and W: "\<forall>i\<in>set W. current_slot h i"
  shows "(scan_next_mark_object Major (with_marks h M, W) = (Inr False, (with_marks h M, [])) \<and>
      (\<forall>i\<in>set W. slot_index i \<in> M)) \<or>
    (\<exists>s W'. scan_next_mark_object Major (with_marks h M, W) = (Inr True, (with_marks h (insert s M), W')) \<and>
      s \<in> occupied_slots h \<and> s \<notin> M \<and> (\<forall>i\<in>set W'. current_slot h i) \<and>
      (black_covered h M (set W) \<longrightarrow> black_covered h (insert s M) (set W')))"
proof -
  obtain r h1 W1 where sc: "scan_next_mark_object Major (with_marks h M, W) = (r, (h1, W1))"
    by (metis prod_cases3)
  have fields: "holds h s x \<Longrightarrow> shape_ok x \<and> (\<forall>j\<in>ids_of (reference_fields x). \<exists>t. checked_slot j h = Inr t)"
    for s x using heap_wf_fields [OF wf] checked_slot_current by blast
  have popped: "done_ids Major h M U \<Longrightarrow> \<forall>i\<in>set U. slot_index i \<in> M" for U
    using wf by (simp add: done_ids_def accounted_covered marking.covered_def traceable_def)
  consider (stop) "r = Inr False" "h1 = with_marks h M" "W1 = []" "done_ids Major h M W"
    | (go) M1 where "r = Inr True" "h1 = with_marks h M1" "scanned Major h M W M1 W1"
  proof -
    have "\<not> (\<exists>i\<in>set W. \<forall>s. checked_slot i h \<noteq> Inr s)" using W checked_slot_current by blast
    then show thesis using scan_next_cases [OF sc] fields that by blast
  qed
  then show ?thesis
  proof cases
    case stop
    then show ?thesis using sc popped by auto
  next
    case go
    then obtain U i V s x P where s: "W = U @ i # V" "done_ids Major h M U" "checked_slot i h = Inr s"
      "holds h s x" "s \<notin> M" "M1 = insert s M" "W1 = P @ V" "set P \<subseteq> ids_of (reference_fields x)"
      "\<forall>j\<in>ids_of (reference_fields x). accounted Major h M1 (set W1) j"
      by (auto simp: scanned_def)
    have i: "s = slot_index i" using s(3) wf by (simp add: heap_wf_slots)
    have cur: "\<forall>i\<in>set W1. current_slot h i"
      using W s heap_wf_fields(3) [OF wf s(4)] by auto
    have new: "\<forall>j\<in>field_ids h s. slot_index j \<in> M1 \<or> j \<in> set W1"
      using s(9) wf heap_wf_fields(2) [OF wf s(4)]
      by (simp add: accounted_covered marking.covered_def traceable_def)
    have old: "slot_index j \<in> M1 \<or> j \<in> set W1" if "slot_index j \<in> M \<or> j \<in> set W" for j
      using that popped [OF s(2)] i s(1,6,7) by auto
    have "black_covered h M1 (set W1)" if "black_covered h M (set W)"
      unfolding black_covered_def
    proof (intro ballI)
      fix t j assume t: "t \<in> M1 \<inter> occupied_slots h" "j \<in> field_ids h t"
      show "slot_index j \<in> M1 \<or> j \<in> set W1"
      proof (cases "t = s")
        case False
        with t s(6) that show ?thesis using old by (auto simp: black_covered_def)
      qed (use new t in simp)
    qed
    then show ?thesis using go sc s(4-6) cur by (intro disjI2 exI [of _ s] exI [of _ W1]) (auto simp: occupied_slots_def)
  qed
qed

lemma wf_mark_slice:
  assumes wf: "heap_wf h" and "\<forall>i\<in>set W. current_slot h i" and "black_covered h M (set W)"
  shows "\<exists>n M' W'. mark_slice budget c (with_marks h M, W) = (Inr (c + n), (with_marks h M', W')) \<and>
    n \<le> budget \<and> M \<subseteq> M' \<and> M' - M \<subseteq> occupied_slots h \<and> card (M' - M) = n \<and>
    (\<forall>i\<in>set W'. current_slot h i) \<and> black_covered h M' (set W') \<and> (n < budget \<longrightarrow> W' = [])"
  using assms(2,3)
proof (induction budget arbitrary: c M W)
  case 0
  then show ?case
    by (intro exI [of _ 0] exI [of _ M] exI [of _ W]) (simp add: sx_return_def)
next
  case (Suc budget)
  from wf_scan_next [OF wf Suc.prems(1), of M] show ?case
  proof (elim disjE exE conjE)
    assume s: "scan_next_mark_object Major (with_marks h M, W) = (Inr False, (with_marks h M, []))"
      and d: "\<forall>i\<in>set W. slot_index i \<in> M"
    have "black_covered h M (set [])" using Suc.prems(2) d by (auto simp: black_covered_def)
    with s show ?thesis
      by (intro exI [of _ 0] exI [of _ M] exI [of _ "[]"]) (simp add: sx_defs)
  next
    fix s W1
    assume s: "scan_next_mark_object Major (with_marks h M, W) = (Inr True, (with_marks h (insert s M), W1))"
      "s \<in> occupied_slots h" "s \<notin> M" "\<forall>i\<in>set W1. current_slot h i"
      "black_covered h M (set W) \<longrightarrow> black_covered h (insert s M) (set W1)"
    obtain n M' W' where m: "mark_slice budget (Suc c) (with_marks h (insert s M), W1) =
        (Inr (Suc c + n), (with_marks h M', W'))"
      "n \<le> budget" "insert s M \<subseteq> M'" "M' - insert s M \<subseteq> occupied_slots h" "card (M' - insert s M) = n"
      "\<forall>i\<in>set W'. current_slot h i" "black_covered h M' (set W')" "n < budget \<longrightarrow> W' = []"
      using Suc.IH [OF s(4), of "insert s M" "Suc c"] s(5) Suc.prems(2) by blast
    have split: "M' - M = insert s (M' - insert s M)" using m(3) s(3) by blast
    have "finite (M' - insert s M)" using finite_subset [OF m(4) finite_occupied] .
    then have "card (M' - M) = Suc n" unfolding split using m(5) by (subst card_insert_disjoint) simp_all
    with m s show ?thesis
      by (intro exI [of _ "Suc n"] exI [of _ M'] exI [of _ W']) (simp add: sx_defs, blast)
  qed
qed

lemma marking_okD:
  assumes "marking_ok h"
  shows "heap_wf h" "h_marking_active h" "tricolour h" "\<forall>i\<in>set (h_mark_worklist h). current_slot h i"
    "black_covered h (marked_slots h) (set (h_mark_worklist h))"
proof -
  show wf: "heap_wf h" "h_marking_active h" and t: "tricolour h" and "\<forall>i\<in>set (h_mark_worklist h). current_slot h i"
    using assms by (simp_all add: marking_ok_def)
  have "(with_marks h (marked_slots h))\<lparr>h_mark_worklist := h_mark_worklist h\<rparr> = h"
    by (simp add: with_marks_marked)
  then show "black_covered h (marked_slots h) (set (h_mark_worklist h))"
    using tricolour_covered [OF wf(1), where M = "marked_slots h" and W = "h_mark_worklist h"] t by simp
qed

text \<open>A marking state: the store of \<open>h\<close> with the marks \<open>M\<close> and the worklist \<open>W\<close>.\<close>

definition marking_state :: "gcheap \<Rightarrow> nat set \<Rightarrow> object_id list \<Rightarrow> gcheap" where
  "marking_state h M W = (with_marks h M)\<lparr>h_mark_worklist := W\<rparr>"

lemma marking_state_frame [simp]:
  "h_marking_active (marking_state h M W) = h_marking_active h" "h_mark_worklist (marking_state h M W) = W"
  "current_slot (marking_state h M W) = current_slot h" "heap_wf (marking_state h M W) = heap_wf h"
  "marked_slots (marking_state h M W) = M \<inter> occupied_slots h"
proof -
  have s: "same_store (with_marks h M) (marking_state h M W)" by (simp add: marking_state_def)
  show "h_marking_active (marking_state h M W) = h_marking_active h" "h_mark_worklist (marking_state h M W) = W"
    by (simp_all add: marking_state_def)
  show "current_slot (marking_state h M W) = current_slot h"
    using same_store_reads(1) [OF s] by (simp add: fun_eq_iff)
  show "heap_wf (marking_state h M W) = heap_wf h" using heap_wf_cong [OF s] by simp
  show "marked_slots (marking_state h M W) = M \<inter> occupied_slots h"
    using same_store_reads(3) [OF s] marked_slots_with_marks [of h M] by (simp add: marked_slots_def)
qed

lemma marking_state_self: "marking_state h (marked_slots h) (h_mark_worklist h) = h"
  by (simp add: marking_state_def with_marks_marked)

lemma marking_state_ok:
  "heap_wf h \<Longrightarrow> marking_ok (marking_state h M W) \<longleftrightarrow>
    h_marking_active h \<and> black_covered h M (set W) \<and> (\<forall>i\<in>set W. current_slot h i)"
  using tricolour_covered [where h = h and M = M and W = W] by (auto simp: marking_ok_def marking_state_def [symmetric])

lemma incremental_mark_step_ok:
  assumes ok: "marking_ok h"
  shows "\<exists>n M W. incremental_mark_step budget h = (Inr n, marking_state h M W) \<and>
    marking_ok (marking_state h M W) \<and> marked_slots h \<subseteq> M \<and> M \<subseteq> occupied_slots h \<and>
    card (M - marked_slots h) = n \<and> n \<le> budget \<and> (n < budget \<longrightarrow> W = [])"
proof -
  note D = marking_okD [OF ok]
  have occ: "marked_slots h \<subseteq> occupied_slots h" by (auto simp: marked_slots_def occupied_slots_def)
  obtain n M W where m: "mark_slice budget 0 (h, h_mark_worklist h) = (Inr n, (with_marks h M, W))"
    "n \<le> budget" "marked_slots h \<subseteq> M" "M - marked_slots h \<subseteq> occupied_slots h"
    "card (M - marked_slots h) = n" "\<forall>i\<in>set W. current_slot h i" "black_covered h M (set W)"
    "n < budget \<longrightarrow> W = []"
    using wf_mark_slice [OF D(1,4,5), of budget 0] by (auto simp: with_marks_marked)
  have ok': "marking_ok (marking_state h M W)"
    using marking_state_ok [OF D(1)] D(2) m(6,7) by blast
  then have "validate_incremental_marking (marking_state h M W) = Inr ()"
    using validate_incremental_marking_iff [of "marking_state h M W"] by (simp add: marking_ok_def)
  then have "incremental_mark_step budget h = (Inr n, marking_state h M W)"
    using D(2) m(1) by (simp add: incremental_mark_step_def sx_defs on_heap_worklist_def marking_state_def)
  then show ?thesis using ok' m occ by (intro exI [of _ n] exI [of _ M] exI [of _ W]) auto
qed

subsection \<open>The start of a cycle\<close>

lemma start_incremental_marking_ok:
  assumes wf: "heap_wf h" and clear: "marks_clear h" and roots: "roots_valid h []" and idle: "\<not> h_marking_active h"
  shows "\<exists>W. start_incremental_marking h = (Inr (), h\<lparr>h_mark_worklist := W, h_marking_active := True\<rparr>) \<and>
    set W \<subseteq> ids_of (collection_roots h []) \<and>
    ids_of (collection_roots h []) \<subseteq> set W \<and>
    marking_ok (h\<lparr>h_mark_worklist := W, h_marking_active := True\<rparr>)"
proof -
  let ?h = "h\<lparr>h_mark_worklist := []\<rparr>" and ?roots = "collection_roots h []"
  have s: "same_store h ?h" by simp
  have eq: "with_marks ?h {} = ?h"
    using clear by (intro marks_clear_with_marks) (simp add: marks_clear_def same_store_reads [OF s])
  have wf': "heap_wf ?h" using heap_wf_cong [OF s] wf by simp
  obtain r h1 W where it: "sx_iter (enqueue_mark_value Major) ?roots (with_marks ?h {}, []) = (r, (h1, W))"
    by (metis prod_cases3)
  have cur: "\<forall>i\<in>ids_of ?roots. current_slot h i"
    using roots by (auto simp: roots_valid_def ids_of_def valid_ref_def)
  have "\<forall>i\<in>ids_of ?roots. \<exists>s. checked_slot i ?h = Inr s"
    using cur checked_slot_current same_store_reads(6) [OF s] by metis
  with iter_enqueue [OF it] have i: "r = Inr ()" "h1 = ?h" "set W \<subseteq> ids_of ?roots"
    "\<forall>i\<in>ids_of ?roots. accounted Major ?h {} (set W) i"
    using eq by auto
  then have all: "ids_of ?roots \<subseteq> set W"
    using wf' by (auto simp: accounted_covered marking.covered_def traceable_def)
  let ?k = "h\<lparr>h_mark_worklist := W, h_marking_active := True\<rparr>"
  have s': "same_store h ?k" by simp
  have "tricolour ?k" using clear by (auto simp: tricolour_def marks_clear_def same_store_reads [OF s'])
  then have "marking_ok ?k"
    using wf cur i(3) heap_wf_cong [OF s'] by (auto simp: marking_ok_def same_store_reads [OF s'])
  moreover have "start_incremental_marking h = (Inr (), ?k)"
    using idle heap_wfD(2) [OF wf] validate_before_collection_ok [OF wf] it i(1,2) eq
    by (simp add: start_incremental_marking_def sx_defs on_heap_worklist_def enqueue_roots_def collection_roots_def)
  ultimately show ?thesis using i(3) all by blast
qed

subsection \<open>The write barrier\<close>

text \<open>
  A mutator that stores \<open>v\<close> into the object of \<open>owner\<close> after the barrier replaces it by one
  with the same mark whose references are the old ones and \<open>v\<close>.
\<close>

definition stores_one :: "gcobj \<Rightarrow> val \<Rightarrow> gcobj \<Rightarrow> bool" where
  "stores_one x v x' \<longleftrightarrow> o_marked x' = o_marked x \<and>
     set (reference_fields x') \<subseteq> insert v (set (reference_fields x))"

lemma incremental_write_barrier_eq:
  assumes wf: "heap_wf h" and "h_marking_active h" "\<not> h_skip_next_incremental_barrier h"
    and owner: "current_slot h owner" and v: "valid_ref h v"
  shows "incremental_write_barrier_before_publish owner v h = (Inr (),
    case v of VObject i \<Rightarrow> if o_marked (object_at h (slot_index owner)) \<and> \<not> o_marked (object_at h (slot_index i))
      then h\<lparr>h_mark_worklist := i # h_mark_worklist h\<rparr> else h
    | _ \<Rightarrow> h)"
  using assms by (cases v) (simp_all add: incremental_write_barrier_before_publish_def sx_defs)

lemma set_object_marks:
  assumes "holds h s x" and "o_marked x' = o_marked x"
  shows "t < length (h_objects h) \<Longrightarrow> o_marked (object_at (set_object s x' h) t) = o_marked (object_at h t)"
    "holds (set_object s x' h) t y \<longleftrightarrow> (if t = s then y = x' else holds h t y)"
  using assms by (auto simp: set_object_def object_at_def holds_def nth_list_update)

lemma barrier_then_store:
  assumes t: "tricolour h" and wf: "heap_wf h" and x: "holds h (slot_index owner) x" and st: "stores_one x v x'"
    and grey: "\<And>i. v = VObject i \<Longrightarrow> o_marked x \<Longrightarrow> current_slot h i \<and>
      (o_marked (object_at h (slot_index i)) \<or> i \<in> set (h_mark_worklist h'))"
    and h': "h' = h\<lparr>h_mark_worklist := W @ h_mark_worklist h\<rparr>"
  shows "tricolour (set_object (slot_index owner) x' h')"
proof -
  let ?s = "slot_index owner" and ?k = "set_object (slot_index owner) x' h'"
  have m: "o_marked x' = o_marked x" using st by (simp add: stores_one_def)
  have eq: "holds ?k t y \<longleftrightarrow> (if t = ?s then y = x' else holds h t y)"
    "t < length (h_objects h) \<Longrightarrow> o_marked (object_at ?k t) = o_marked (object_at h t)"
    "set (h_mark_worklist h) \<subseteq> set (h_mark_worklist ?k)" "h_mark_worklist ?k = h_mark_worklist h'" for t y
    using set_object_marks [OF x m] h' by (simp_all add: set_object_def holds_def object_at_def)
  show ?thesis
    unfolding tricolour_def
  proof (intro allI impI)
    fix t y i
    assume y: "holds ?k t y" "o_marked y" "VObject i \<in> set (reference_fields y)"
    let ?goal = "o_marked (object_at ?k (slot_index i)) \<or> i \<in> set (h_mark_worklist ?k)"
    have field: ?goal if "holds h u z" "o_marked z" "VObject i \<in> set (reference_fields z)" for u z
    proof -
      have "slot_index i < length (h_objects h)"
        using fields_validD [OF heap_wfD(5) [OF wf] that(1,3)] by (simp add: current_slot_def)
      moreover have "o_marked (object_at h (slot_index i)) \<or> i \<in> set (h_mark_worklist h)"
        using t that unfolding tricolour_def by blast
      ultimately show ?goal using eq(2,3) by blast
    qed
    show ?goal
    proof (cases "t = ?s \<and> VObject i = v")
      case True
      then have "y = x'" using y(1) eq(1) by simp
      then have g: "current_slot h i" "o_marked (object_at h (slot_index i)) \<or> i \<in> set (h_mark_worklist h')"
        using grey y(2) m True by auto
      then have "slot_index i < length (h_objects h)" by (simp add: current_slot_def)
      with g eq(2,4) show ?goal by simp
    next
      case False
      then obtain u z where "holds h u z" "o_marked z" "VObject i \<in> set (reference_fields z)"
        using y eq(1) x m st by (cases "t = ?s") (auto simp: stores_one_def)
      then show ?goal by (rule field)
    qed
  qed
qed

text \<open>C16. The incremental write barrier keeps the strong tri-colour invariant: when it has run for
  \<open>owner\<close> and \<open>v\<close>, storing \<open>v\<close> into any field of that object creates no reference from a
  black object to a white one that is not grey, and the barrier itself never fails.\<close>

theorem write_barrier_keeps_tricolour:
  assumes "marking_ok h" and "\<not> h_skip_next_incremental_barrier h"
    and "current_slot h owner" and "valid_ref h v"
    and "stores_one (object_at h (slot_index owner)) v x'"
  shows "\<exists>h'. incremental_write_barrier_before_publish owner v h = (Inr (), h') \<and>
    tricolour (set_object (slot_index owner) x' h')"
proof -
  note D = marking_okD [OF assms(1)]
  have x: "holds h (slot_index owner) (object_at h (slot_index owner))" by (rule current_slot_holds [OF assms(3)])
  obtain h' where b: "incremental_write_barrier_before_publish owner v h = (Inr (), h')"
    "h' = (case v of VObject i \<Rightarrow> if o_marked (object_at h (slot_index owner)) \<and> \<not> o_marked (object_at h (slot_index i))
      then h\<lparr>h_mark_worklist := i # h_mark_worklist h\<rparr> else h | _ \<Rightarrow> h)"
    using incremental_write_barrier_eq [OF D(1,2) assms(2-4)] by simp
  then obtain W where w: "h' = h\<lparr>h_mark_worklist := W @ h_mark_worklist h\<rparr>"
  proof (cases "h' = h")
    case True
    then show thesis using that [of "[]"] by simp
  next
    case False
    then obtain i where "h' = h\<lparr>h_mark_worklist := i # h_mark_worklist h\<rparr>"
      using b(2) by (cases v) (auto split: if_splits)
    then show thesis using that [of "[i]"] by simp
  qed
  have "tricolour (set_object (slot_index owner) x' h')"
    by (rule barrier_then_store [OF D(3,1) x assms(5) _ w]) (use b(2) assms(4) in \<open>auto split: if_splits\<close>)
  with b(1) show ?thesis by blast
qed

subsection \<open>The shadow marking\<close>

lemma set_push_objects: "set (push_objects vs W) = ids_of vs \<union> set W"
proof (induction vs arbitrary: W)
  case (Cons v vs)
  have "push_objects (v # vs) W = push_objects vs (case v of VObject i \<Rightarrow> i # W | _ \<Rightarrow> W)"
    by (simp add: push_objects_def)
  then show ?case using Cons by (cases v) (auto simp: ids_of_def)
qed (simp add: push_objects_def ids_of_def)

lemma traceable_major: "traceable Major h s"
  by (simp add: traceable_def)

lemma live_with_major [simp]: "live_with Major h M s \<longleftrightarrow> s \<in> M"
  by (simp add: live_with_def)

lemma shadow_drain_search:
  assumes wf: "heap_wf h" and "\<forall>i\<in>set W. current_slot h i"
    and "marking.search_inv Major h roots Q live (set W)"
  shows "\<exists>live'. shadow_drain h live W = Inr live' \<and> live \<subseteq> live' \<and>
    marking.search_inv Major h roots Q live' {}"
  using assms
proof (induction h live W rule: shadow_drain.induct)
  case (1 h live)
  then show ?case by (simp add: shadow_drain.simps)
next
  case (2 h live i W)
  have c: "checked_slot i h = Inr (slot_index i)" using "2.prems"(2) by simp
  show ?case
  proof (cases "slot_index i \<in> live")
    case True
    have inv: "marking.search_inv Major h roots Q live (set W)"
    proof (rule marking.search_pop)
      show "marking.search_inv Major h roots Q live (insert i (set W))" using "2.prems"(3) by simp
      show "traceable Major h (slot_index i) \<longrightarrow> slot_index i \<in> live" using True by simp
    qed
    have cur: "\<forall>i\<in>set W. current_slot h i" using "2.prems"(2) by simp
    have step: "shadow_drain h live (i # W) = shadow_drain h live W"
      by (simp only: shadow_drain.simps c True sum.case if_True)
    show ?thesis unfolding step by (rule "2.IH"(1) [OF c True "2.prems"(1) cur inv])
  next
    case False
    let ?x = "object_at h (slot_index i)"
    have x: "holds h (slot_index i) ?x" using "2.prems"(2) by (intro current_slot_holds) simp
    note F = heap_wf_fields [OF "2.prems"(1) x]
    have vs: "visit_reference_fields_for_lifo_marking ?x = Inr (rev (reference_fields ?x))"
      using F(1) by (simp add: lifo_visit_Inr_iff)
    let ?W = "push_objects (rev (reference_fields ?x)) W"
    have set: "set ?W = field_ids h (slot_index i) \<union> set W"
      using F(2) by (simp add: set_push_objects ids_of_def)
    have "marking.search_inv Major h roots Q (insert (slot_index i) live) (set ?W)"
      unfolding set
    proof (rule marking.search_visit)
      show "marking.search_inv Major h roots Q live (insert i (set W))" using "2.prems"(3) by simp
      show "\<forall>j\<in>field_ids h (slot_index i). marking.covered Major h (insert (slot_index i) live)
          (field_ids h (slot_index i) \<union> set W) j" by (simp add: marking.covered_def)
    qed (simp_all add: traceable_major)
    moreover have "\<forall>j\<in>set ?W. current_slot h j" using "2.prems"(2) F(2,3) set by auto
    ultimately obtain live' where "shadow_drain h (insert (slot_index i) live) ?W = Inr live'"
      "insert (slot_index i) live \<subseteq> live'" "marking.search_inv Major h roots Q live' {}"
      using "2.IH"(2) [OF c False vs "2.prems"(1)] by blast
    then show ?thesis using c False vs by (simp add: shadow_drain.simps)
  qed
qed

lemma shadow_activation_ok:
  assumes wf: "heap_wf h" and owner: "owner \<in> set (h_ephemerons h)"
  shows "shadow_activation h live owner W = Inr W \<and> (\<forall>v t. \<not> fires Major h live owner v t) \<or>
    (\<exists>v t. shadow_activation h live owner W = Inr (v # W) \<and> fires Major h live owner v t)"
proof -
  obtain s x where o: "checked_slot owner h = Inr s" "holds h s x" "reference_tag (o_ephemeron_key x)"
    "\<And>k. o_ephemeron_key x = VObject k \<Longrightarrow> \<exists>ks. checked_slot k h = Inr ks"
    "\<And>v. o_ephemeron_value_is_ref x \<Longrightarrow> o_ephemeron_value x = VObject v \<Longrightarrow> \<exists>t. checked_slot v h = Inr t"
    using ephemerons_ok_checks [OF wf owner] by (auto simp: ephemeron_checks_def)
  have at: "object_at h s = x" using holds_object_at [OF o(2)] .
  have f: "fires Major h live owner v t \<longleftrightarrow> s \<in> live \<and> (\<exists>k ks. o_ephemeron_key x = VObject k \<and>
      checked_slot k h = Inr ks \<and> ks \<in> live) \<and> o_ephemeron_value_is_ref x \<and> o_ephemeron_value x = VObject v \<and>
      checked_slot v h = Inr t \<and> t \<notin> live" for v t
    using o(2) holds_unique [OF o(2)] unfolding fires_def o(1) live_with_major sum.inject by blast
  show ?thesis
  proof (cases "s \<in> live \<and> (\<exists>k ks. o_ephemeron_key x = VObject k \<and> checked_slot k h = Inr ks \<and> ks \<in> live) \<and>
      o_ephemeron_value_is_ref x \<and> (\<exists>v. o_ephemeron_value x = VObject v)")
    case True
    then obtain k ks v t where "s \<in> live" "o_ephemeron_key x = VObject k" "checked_slot k h = Inr ks" "ks \<in> live"
      "o_ephemeron_value_is_ref x" "o_ephemeron_value x = VObject v" "checked_slot v h = Inr t"
      using o(5) by blast
    then show ?thesis using o(1) at f by (cases "t \<in> live") (simp_all add: shadow_activation_def Let_def)
  next
    case False
    have "shadow_activation h live owner W = Inr W"
    proof (cases "s \<in> live")
      case live: True
      show ?thesis
      proof (cases "o_ephemeron_key x")
        case (VObject k)
        obtain ks where ks: "checked_slot k h = Inr ks" using o(4) [OF VObject] by blast
        show ?thesis
          using False live o(1) at VObject ks
          by (cases "o_ephemeron_value x") (auto simp: shadow_activation_def Let_def)
      qed (use live o(1) at in \<open>simp_all add: shadow_activation_def Let_def\<close>)
    qed (simp add: shadow_activation_def o(1))
    then show ?thesis using False f by blast
  qed
qed

lemma shadow_activations_ok:
  assumes wf: "heap_wf h" and "set owners \<subseteq> set (h_ephemerons h)"
  shows "\<exists>P. efold (shadow_activation h live) owners W = Inr (P @ W) \<and>
    (\<forall>v\<in>set P. \<exists>owner\<in>set owners. \<exists>t. fires Major h live owner v t) \<and>
    (P = [] \<longrightarrow> (\<forall>owner\<in>set owners. \<forall>v t. \<not> fires Major h live owner v t))"
  using assms(2)
proof (induction owners arbitrary: W)
  case (Cons owner owners)
  from shadow_activation_ok [OF wf, of owner live W] Cons.prems
  consider "shadow_activation h live owner W = Inr W" "\<forall>v t. \<not> fires Major h live owner v t"
    | v t where "shadow_activation h live owner W = Inr (v # W)" "fires Major h live owner v t" by auto
  then show ?case
  proof cases
    case 1
    obtain P where "efold (shadow_activation h live) owners W = Inr (P @ W)"
      "\<forall>v\<in>set P. \<exists>owner\<in>set owners. \<exists>t. fires Major h live owner v t"
      "P = [] \<longrightarrow> (\<forall>owner\<in>set owners. \<forall>v t. \<not> fires Major h live owner v t)"
      using Cons.IH [of W] Cons.prems by auto
    with 1 show ?thesis by (intro exI [of _ P]) auto
  next
    case (2 v t)
    obtain P where "efold (shadow_activation h live) owners (v # W) = Inr (P @ v # W)"
      "\<forall>v\<in>set P. \<exists>owner\<in>set owners. \<exists>t. fires Major h live owner v t"
      using Cons.IH [of "v # W"] Cons.prems by auto
    with 2 show ?thesis by (intro exI [of _ "P @ [v]"]) auto
  qed
qed simp

lemma shadow_fixpoint_search:
  assumes wf: "heap_wf h" and "marking.search_inv Major h roots Q live {}"
  shows "\<exists>live'. shadow_fixpoint h live = Inr live' \<and> marking.search_inv Major h roots Q live' {} \<and>
    (\<forall>owner\<in>set (h_ephemerons h). \<forall>v t. \<not> fires Major h live' owner v t)"
  using assms
proof (induction h live rule: shadow_fixpoint.induct)
  case (1 h live)
  note R = marking.search_done(1) [OF "1.prems"(2)]
  obtain P where P: "efold (shadow_activation h live) (h_ephemerons h) [] = Inr P"
    "\<forall>v\<in>set P. \<exists>owner\<in>set (h_ephemerons h). \<exists>t. fires Major h live owner v t"
    "P = [] \<longrightarrow> (\<forall>owner\<in>set (h_ephemerons h). \<forall>v t. \<not> fires Major h live owner v t)"
    using shadow_activations_ok [OF "1.prems"(1) order_refl, of live "[]"] by auto
  have push: "\<forall>v\<in>set P. current_slot h v \<and> slot_index v \<in> traced Major h roots"
    using P(2) fires_traced [OF "1.prems"(1) R] by blast
  have inv: "marking.search_inv Major h roots Q live (set P)"
    using marking.search_push [OF "1.prems"(2), of "set P"] push by simp
  obtain live1 where d: "shadow_drain h live P = Inr live1" "marking.search_inv Major h roots Q live1 {}"
    using shadow_drain_search [OF "1.prems"(1) _ inv] push by blast
  show ?case
  proof (cases "P = []")
    case True
    then have "live1 = live" using d(1) by (simp add: shadow_drain.simps)
    then show ?thesis using P True d by (simp add: shadow_fixpoint.simps [of h live])
  next
    case False
    obtain live' where "shadow_fixpoint h live1 = Inr live'" "marking.search_inv Major h roots Q live' {}"
      "\<forall>owner\<in>set (h_ephemerons h). \<forall>v t. \<not> fires Major h live' owner v t"
      using "1.IH" [OF P(1) d(1) False "1.prems"(1) d(2)] by blast
    then show ?thesis using P(1) d(1) False by (simp add: shadow_fixpoint.simps [of h live])
  qed
qed

lemma shadow_marking_ok:
  assumes wf: "heap_wf h" and roots: "roots_valid h extra"
  shows "\<exists>live. shadow_drain h {} (push_objects (collection_roots h extra) []) = Inr live \<and>
    shadow_fixpoint h live = Inr (traced Major h (collection_roots h extra))"
proof -
  let ?roots = "collection_roots h extra"
  let ?W = "push_objects ?roots []"
  have set: "set ?W = ids_of ?roots" by (simp add: set_push_objects)
  have cur: "\<forall>i\<in>set ?W. current_slot h i" using roots by (auto simp: set roots_valid_def ids_of_def valid_ref_def)
  have "marking.search_inv Major h ?roots {} {} (ids_of ?roots \<union> {})"
    by (rule marking.search_push [OF marking.search_start]) (auto simp: ids_of_def intro: traced.root)
  then have "marking.search_inv Major h ?roots (ids_of ?roots) {} (set ?W)"
    using marking.search_require [of Major h ?roots "{}" "{}" "set ?W" "ids_of ?roots"]
    by (simp add: set marking.covered_def)
  then obtain live where d: "shadow_drain h {} ?W = Inr live" "marking.search_inv Major h ?roots (ids_of ?roots) live {}"
    using shadow_drain_search [OF wf cur] by blast
  obtain live' where f: "shadow_fixpoint h live = Inr live'" "marking.search_inv Major h ?roots (ids_of ?roots) live' {}"
    "\<forall>owner\<in>set (h_ephemerons h). \<forall>v t. \<not> fires Major h live' owner v t"
    using shadow_fixpoint_search [OF wf d(2)] by blast
  have "live' = traced Major h ?roots"
    by (rule finished_search_traced [OF wf _ f(3)]) (simp add: required_ids_def f(2))
  with d f show ?thesis by blast
qed

subsection \<open>Operations that do not look at the marking cycle\<close>

lemma end_marking_cycle_frame [simp]:
  "h_objects (end_marking_cycle h) = h_objects h" "h_generations (end_marking_cycle h) = h_generations h"
  "h_remembered_set (end_marking_cycle h) = h_remembered_set h" "h_weak_refs (end_marking_cycle h) = h_weak_refs h"
  "h_intern_table (end_marking_cycle h) = h_intern_table h" "h_ephemerons (end_marking_cycle h) = h_ephemerons h"
  "h_roots (end_marking_cycle h) = h_roots h" "h_handle_roots (end_marking_cycle h) = h_handle_roots h"
  "h_skip_next_intern_processing (end_marking_cycle h) = h_skip_next_intern_processing h"
  "h_compaction_active (end_marking_cycle h) = h_compaction_active h"
  "\<not> h_marking_active (end_marking_cycle h)"
  by (simp_all add: end_marking_cycle_def)

lemma same_store_end_marking [simp]: "same_store h (end_marking_cycle h)"
  by (simp add: end_marking_cycle_def)

lemmas end_marking_reads [simp] = same_store_reads [OF same_store_end_marking]

text \<open>An operation commutes with the end of the cycle if it neither reads nor writes that part of the state.\<close>

definition off_cycle :: "(gcheap, 'a) sx \<Rightarrow> bool" where
  "off_cycle m \<longleftrightarrow> (\<forall>h. m (end_marking_cycle h) = apsnd end_marking_cycle (m h))"

lemma off_cycle_bind: "off_cycle m \<Longrightarrow> (\<And>x. off_cycle (f x)) \<Longrightarrow> off_cycle (sx_bind m f)"
  by (auto simp: off_cycle_def sx_bind_def split: prod.splits sum.splits)

lemma off_cycle_then: "off_cycle m \<Longrightarrow> off_cycle n \<Longrightarrow> off_cycle (sx_then m n)"
  by (simp add: sx_then_def off_cycle_bind)

lemma off_cycle_reads: "(\<And>h. f (end_marking_cycle h) = f h) \<Longrightarrow> off_cycle (sx_reads f)"
  "(\<And>h. g (end_marking_cycle h) = g h) \<Longrightarrow> off_cycle (sx_gets g)"
  by (simp_all add: off_cycle_def sx_reads_def sx_gets_def)

lemma off_cycle_basic: "off_cycle (sx_return x)" "off_cycle (sx_throw e)" "off_cycle (sx_lift r)"
  "off_cycle (sx_throw_if b e)"
  by (simp_all add: off_cycle_def sx_return_def sx_throw_def sx_lift_def sx_throw_if_def)

lemma off_cycle_modify: "(\<And>h. f (end_marking_cycle h) = end_marking_cycle (f h)) \<Longrightarrow> off_cycle (sx_modify f)"
  by (simp add: off_cycle_def sx_modify_def)

lemma off_cycle_iter: "(\<And>x. off_cycle (f x)) \<Longrightarrow> off_cycle (sx_iter f xs)"
  by (induction xs) (simp_all add: off_cycle_basic off_cycle_then)

lemma off_cycle_if: "off_cycle m \<Longrightarrow> off_cycle n \<Longrightarrow> off_cycle (if b then m else n)"
  by simp

lemma off_cycle_rewrite_roots:
  assumes "\<And>h v. f (end_marking_cycle h) v = f h v"
  shows "off_cycle (rewrite_collection_roots f extra)"
proof -
  have "f (end_marking_cycle h) = f h" for h using assms by (simp add: fun_eq_iff)
  then show ?thesis
    by (simp add: off_cycle_def rewrite_collection_roots_def end_marking_cycle_def Let_def
        split: prod.split sum.split)
qed

lemma off_cycle_slots [simp]:
  "is_young_slot s (end_marking_cycle h) = is_young_slot s h"
  "is_old_slot s (end_marking_cycle h) = is_old_slot s h"
  "slot_has_generation g (end_marking_cycle h) s = slot_has_generation g h s"
  by (simp_all add: is_young_slot_def is_old_slot_def slot_has_generation_def)

lemma off_cycle_pure [simp]:
  "compact_live_objects kind (end_marking_cycle h) = compact_live_objects kind h"
  "rewrite_value (end_marking_cycle h) fwd = rewrite_value h fwd"
  "rewrite_remembered_set (end_marking_cycle h) fwd = rewrite_remembered_set h fwd"
  "process_weak_targets (end_marking_cycle h) fwd objs = process_weak_targets h fwd objs"
  "process_intern_entry (end_marking_cycle h) fwd a b = process_intern_entry h fwd a b"
  "process_ephemerons (end_marking_cycle h) fwd objs = process_ephemerons h fwd objs"
  "has_young_reference (end_marking_cycle h) = has_young_reference h"
proof -
  have "compact_slot kind (end_marking_cycle h) = compact_slot kind h"
    by (simp add: fun_eq_iff compact_slot_def)
  then show "compact_live_objects kind (end_marking_cycle h) = compact_live_objects kind h"
    by (simp add: compact_live_objects_def)
  show "rewrite_value (end_marking_cycle h) fwd = rewrite_value h fwd"
    by (simp add: fun_eq_iff rewrite_value_def)
  show "rewrite_remembered_set (end_marking_cycle h) fwd = rewrite_remembered_set h fwd"
    by (simp add: rewrite_remembered_set_def)
  have weak: "process_weak_target (end_marking_cycle h) fwd = process_weak_target h fwd"
    by (simp add: fun_eq_iff process_weak_target_def)
  have "process_weak_owner (end_marking_cycle h) fwd = process_weak_owner h fwd"
    unfolding process_weak_owner_def [abs_def] weak end_marking_reads by (rule refl)
  then show "process_weak_targets (end_marking_cycle h) fwd objs = process_weak_targets h fwd objs"
    by (simp add: process_weak_targets_def)
  show "process_intern_entry (end_marking_cycle h) fwd a b = process_intern_entry h fwd a b"
    by (simp add: fun_eq_iff process_intern_entry_def)
  have eph: "process_ephemeron_object (end_marking_cycle h) fwd = process_ephemeron_object h fwd"
    unfolding process_ephemeron_object_def [abs_def] end_marking_reads by (rule refl)
  have "process_ephemeron_owner (end_marking_cycle h) fwd = process_ephemeron_owner h fwd"
    unfolding process_ephemeron_owner_def [abs_def] eph end_marking_reads by (rule refl)
  then show "process_ephemerons (end_marking_cycle h) fwd objs = process_ephemerons h fwd objs"
    by (simp add: process_ephemerons_def)
  show "has_young_reference (end_marking_cycle h) = has_young_reference h"
    unfolding has_young_reference_def [abs_def] end_marking_reads off_cycle_slots by (rule refl)
qed

lemma off_cycle_intern: "off_cycle (process_intern_table fwd b)"
proof -
  have entry: "process_intern_entry (end_marking_cycle h) fwd skip w = process_intern_entry h fwd skip w" for h skip w
    by (simp add: fun_eq_iff)
  show ?thesis
    unfolding process_intern_table_def sx_when_def
    by (intro off_cycle_bind off_cycle_then off_cycle_if off_cycle_reads off_cycle_basic off_cycle_modify)
      (simp_all add: entry, simp add: end_marking_cycle_def)
qed

lemma off_cycle_remembered: "off_cycle (record_promoted_object_edges slots)" "off_cycle prune_remembered_set"
proof -
  have young: "has_young_reference (end_marking_cycle h) (object_at (end_marking_cycle h) s) =
      has_young_reference h (object_at h s)" for h s by simp
  show "off_cycle (record_promoted_object_edges slots)"
    unfolding record_promoted_object_edges_def record_promoted_slot_def record_remembered_object_def sx_when_def
      sx_assert_def
    by (intro off_cycle_iter off_cycle_bind off_cycle_then off_cycle_if off_cycle_reads off_cycle_basic
        off_cycle_modify) (simp_all add: remembered_set_contains_def, simp_all add: end_marking_cycle_def)
  have "prune_slot (end_marking_cycle h) = prune_slot h" for h
    unfolding prune_slot_def [abs_def] end_marking_reads off_cycle_slots off_cycle_pure end_marking_cycle_frame by (rule refl)
  then show "off_cycle prune_remembered_set"
    unfolding prune_remembered_set_def
    by (intro off_cycle_bind off_cycle_reads off_cycle_modify) (simp_all add: end_marking_cycle_def)
qed

text \<open>A successful run ends in the state with the cycle ended when started without a cycle.\<close>

definition ends_cycle :: "(gcheap, 'a) sx \<Rightarrow> (gcheap, 'a) sx \<Rightarrow> bool" where
  "ends_cycle m n \<longleftrightarrow> (\<forall>h x h'. m h = (Inr x, h') \<longrightarrow> n (end_marking_cycle h) = (Inr x, end_marking_cycle h'))"

lemma off_cycle_ends: "off_cycle m \<Longrightarrow> ends_cycle m m"
  by (simp add: off_cycle_def ends_cycle_def)

lemma ends_cycle_bind:
  assumes "ends_cycle m n" and "\<And>x. ends_cycle (f x) (g x)"
  shows "ends_cycle (sx_bind m f) (sx_bind n g)"
  using assms by (auto simp: ends_cycle_def sx_bind_def split: prod.splits sum.splits)

lemma ends_cycle_then: "ends_cycle m n \<Longrightarrow> ends_cycle m' n' \<Longrightarrow> ends_cycle (sx_then m m') (sx_then n n')"
  by (simp add: sx_then_def ends_cycle_bind)

lemma ends_cycle_case_prod:
  "(\<And>a b. ends_cycle (f a b) (g a b)) \<Longrightarrow> ends_cycle (case p of (a, b) \<Rightarrow> f a b) (case p of (a, b) \<Rightarrow> g a b)"
  by (cases p) simp

lemma ends_cycle_install:
  "(\<And>h. X (end_marking_cycle h) = end_marking_cycle (X h)) \<Longrightarrow>
    ends_cycle (sx_modify (\<lambda>h. end_marking_cycle (X h))) (sx_modify (\<lambda>h. id (X h)))"
  by (auto simp: ends_cycle_def sx_modify_def end_marking_cycle_def)

lemma off_cycle_rewrite_references: "off_cycle (rewrite_references fwd objs extra)"
  unfolding rewrite_references_def
  by (intro off_cycle_bind off_cycle_rewrite_roots off_cycle_reads off_cycle_basic) simp_all

lemma move_ends_cycle:
  "ends_cycle (move_live_objects kind end_marking_cycle extra) (move_live_objects kind id extra)"
  unfolding move_live_objects_def Let_def
  by (intro ends_cycle_bind ends_cycle_then ends_cycle_case_prod ends_cycle_install
      off_cycle_reads [THEN off_cycle_ends] off_cycle_rewrite_references [THEN off_cycle_ends]
      off_cycle_intern [THEN off_cycle_ends] off_cycle_remembered [THEN off_cycle_ends]
      off_cycle_basic [THEN off_cycle_ends]) (simp_all, simp_all add: end_marking_cycle_def)

subsection \<open>The final pause\<close>

lemma reachable_with_marks: "reachable (with_marks h M) roots = reachable h roots"
proof -
  have sub: "reachable k roots \<subseteq> reachable k' roots"
    if same: "\<And>s x. holds k s x \<Longrightarrow> \<exists>b. holds k' s (x\<lparr>o_marked := b\<rparr>)" for k k'
  proof
    fix s assume "s \<in> reachable k roots"
    then show "s \<in> reachable k' roots"
    proof induction
      case (root i)
      then show ?case by (rule reachable.root)
    next
      case (field s x i)
      obtain b where "holds k' s (x\<lparr>o_marked := b\<rparr>)" using same [OF field.hyps(2)] by blast
      from reachable.field [OF field.IH this, of i] field.hyps(3) show ?case by simp
    next
      case (ephemeron s x k v)
      obtain b where "holds k' s (x\<lparr>o_marked := b\<rparr>)" using same [OF ephemeron.hyps(2)] by blast
      from reachable.ephemeron [OF ephemeron.IH(1) this, of k v] ephemeron show ?case by simp
    qed
  qed
  have "holds h s x \<Longrightarrow> holds (with_marks h M) s (x\<lparr>o_marked := s \<in> M\<rparr>)" for s x
    by (auto simp: holds_with_marks)
  moreover have "holds (with_marks h M) s x \<Longrightarrow> holds h s (x\<lparr>o_marked := o_marked (object_at h s)\<rparr>)" for s x
    by (auto simp: holds_with_marks holds_object_at)
  ultimately show ?thesis by (intro equalityI sub) blast+
qed

lemma reachable_cong: "holds k = holds h \<Longrightarrow> reachable k roots = reachable h roots"
proof -
  have "reachable k roots \<subseteq> reachable h roots" if "holds k = holds h" for k h
  proof
    fix s assume "s \<in> reachable k roots"
    then show "s \<in> reachable h roots"
      by induction (use that in \<open>auto intro: reachable.intros\<close>)
  qed
  then show "holds k = holds h \<Longrightarrow> reachable k roots = reachable h roots" by (intro equalityI) simp_all
qed

lemma collection_roots_marking [simp]:
  "collection_roots (marking_state h M W) extra = collection_roots h extra"
  "collection_roots (with_marks h M) extra = collection_roots h extra"
  "collection_roots (end_marking_cycle h) extra = collection_roots h extra"
  by (simp_all add: collection_roots_def marking_state_def end_marking_cycle_def)

lemma roots_valid_marking:
  "roots_valid (marking_state h M W) extra = roots_valid h extra"
  "roots_valid (with_marks h M) extra = roots_valid h extra"
  by (simp_all add: roots_valid_def valid_ref_def)

lemma clear_marks_eq: "clear_marks h = with_marks h {}"
proof -
  have "map (map_option (\<lambda>x. x\<lparr>o_marked := False\<rparr>)) (h_objects h) =
      map (\<lambda>s. map_option (\<lambda>x. x\<lparr>o_marked := s \<in> {}\<rparr>) (h_objects h ! s)) [0..<length (h_objects h)]"
    by (rule nth_equalityI) simp_all
  then show ?thesis by (simp add: clear_marks_def with_marks_def)
qed

lemma shadow_agrees:
  assumes wf: "heap_wf h" and roots: "roots_valid h extra"
  shows "validate_incremental_result_against_atomic (with_marks h (reachable h (collection_roots h extra))) extra = Inr ()"
proof -
  let ?R = "reachable h (collection_roots h extra)" and ?k = "with_marks h (reachable h (collection_roots h extra))"
  have wf': "heap_wf ?k" and roots': "roots_valid ?k extra" using wf roots by (simp_all add: roots_valid_marking)
  have "traced Major ?k (collection_roots ?k extra) = ?R"
    using traced_major_reachable [OF wf' roots'] by (simp add: reachable_with_marks)
  then obtain live where l: "shadow_drain ?k {} (push_objects (collection_roots ?k extra) []) = Inr live"
    "shadow_fixpoint ?k live = Inr ?R"
    using shadow_marking_ok [OF wf' roots'] by auto
  have "for_objects (\<lambda>slot x. ethrow_if (o_marked x \<noteq> (slot \<in> ?R)) (Logic_error (msg_liveness_mismatch slot))) ?k = Inr ()"
    by (auto simp: for_objects_ok_iff holds_with_marks)
  with l show ?thesis by (simp add: validate_incremental_result_against_atomic_def)
qed

lemma finish_liveness_ok:
  assumes ok: "marking_ok h" and roots: "roots_valid h extra"
  shows "finish_incremental_marking_liveness extra h =
    (Inr (), marking_state h (reachable h (collection_roots h extra)) [])"
proof -
  note D = marking_okD [OF ok]
  let ?h0 = "marking_state h {} []" and ?roots = "collection_roots h extra"
  have wf0: "heap_wf ?h0" and roots0: "roots_valid ?h0 extra"
    using D(1) roots by (simp_all add: roots_valid_marking)
  have "marked_slots ?h0 = {}" by simp
  then have clear0: "marks_clear ?h0" by (simp only: marks_clear_iff)
  have h0: "holds ?h0 = holds (with_marks h {})" by (simp add: fun_eq_iff holds_def marking_state_def)
  have R0: "reachable ?h0 ?roots = reachable h ?roots"
    using reachable_cong [OF h0] reachable_with_marks by simp
  then have T: "traced Major ?h0 ?roots = reachable h ?roots"
    using traced_major_reachable [OF wf0 roots0] by simp
  have mark: "mark_live_objects Major extra (?h0, []) = (Inr (), (with_marks ?h0 (reachable h ?roots), []))"
    using mark_live_objects_correct [OF wf0 clear0 roots0, of Major] T by simp
  have state: "with_marks ?h0 M = (with_marks h M)\<lparr>h_mark_worklist := []\<rparr>" for M
  proof -
    have "with_marks ?h0 M = (with_marks (with_marks h {}) M)\<lparr>h_mark_worklist := []\<rparr>"
      by (simp add: marking_state_def with_marks_def)
    then show ?thesis by simp
  qed
  have shadow: "validate_incremental_result_against_atomic (with_marks ?h0 (reachable h ?roots)) extra = Inr ()"
    using shadow_agrees [OF wf0 roots0] R0 by simp
  have start: "(clear_marks h)\<lparr>h_mark_worklist := []\<rparr> = ?h0"
    by (simp add: clear_marks_eq marking_state_def)
  have "validate_incremental_marking h = Inr ()"
    using validate_incremental_marking_iff [OF D(1,2)] D(3) by simp
  then show ?thesis
    using D(2) mark shadow start
    unfolding state
    by (simp add: finish_incremental_marking_liveness_def sx_defs on_heap_worklist_def state [unfolded marking_state_def]
        marking_state_def)
qed

subsection \<open>Properties\<close>

text \<open>The sample heap in the middle of a marking cycle: the old pair is black, the rest is grey or white.\<close>

definition sample_marking :: gcheap where
  "sample_marking = marking_state (sample_heap\<lparr>h_marking_active := True\<rparr>) {0}
     [object_id_at 3 1, object_id_at 4 1, object_id_at 6 1]"

lemma sample_marking_ok: "marking_ok sample_marking"
proof -
  let ?h = "sample_heap\<lparr>h_marking_active := True\<rparr>"
  have "heap_wf ?h"
    using collectable_sample heap_wf_cong [of sample_heap ?h] by (simp add: collectable_def)
  moreover have "field_ids ?h 0 = {object_id_at 3 1}"
    by (simp add: field_ids_def object_at_def sample_heap_def sample_objects_def reference_fields_def
        ids_of_def default_object_def)
  then have "black_covered ?h {0} (set [object_id_at 3 1, object_id_at 4 1, object_id_at 6 1])"
    by (simp add: black_covered_def)
  moreover have "\<forall>i\<in>set [object_id_at 3 1, object_id_at 4 1, object_id_at 6 1]. current_slot ?h i"
    by (simp add: current_slot_def sample_heap_def sample_objects_def)
  ultimately show ?thesis
    unfolding sample_marking_def by (subst marking_state_ok) simp_all
qed

lemma sample_marking_reads:
  "current_slot sample_marking = current_slot sample_heap"
  "h_generations sample_marking = h_generations sample_heap"
  "\<not> h_skip_next_intern_processing sample_marking" "\<not> h_skip_next_incremental_barrier sample_marking"
  "roots_valid sample_marking []"
proof -
  show c: "current_slot sample_marking = current_slot sample_heap"
    by (simp add: sample_marking_def) (simp add: fun_eq_iff current_slot_def)
  show "h_generations sample_marking = h_generations sample_heap"
    "\<not> h_skip_next_intern_processing sample_marking" "\<not> h_skip_next_incremental_barrier sample_marking"
    by (simp_all add: sample_marking_def marking_state_def with_marks_def sample_heap_def empty_heap_def)
  have "collection_roots sample_marking [] = collection_roots sample_heap []"
    by (simp add: sample_marking_def) (simp add: collection_roots_def)
  then show "roots_valid sample_marking []"
    using collectable_sample by (simp add: collectable_def roots_valid_def valid_ref_def c)
qed

text \<open>C17. A budgeted marking step keeps the strong tri-colour invariant and never fails: it blackens
  exactly the number of objects it reports, at most its budget, and never turns a black object white.\<close>

theorem marking_step_keeps_tricolour:
  assumes "marking_ok h"
  shows "\<exists>n h'. incremental_mark_step budget h = (Inr n, h') \<and> marking_ok h' \<and> n \<le> budget \<and>
    marked_slots h \<subseteq> marked_slots h' \<and> card (marked_slots h' - marked_slots h) = n"
proof -
  obtain n M W where s: "incremental_mark_step budget h = (Inr n, marking_state h M W)"
    "marking_ok (marking_state h M W)" "marked_slots h \<subseteq> M" "M \<subseteq> occupied_slots h"
    "card (M - marked_slots h) = n" "n \<le> budget"
    using incremental_mark_step_ok [OF assms, of budget] by blast
  then have "marked_slots (marking_state h M W) = M" by auto
  with s show ?thesis by (intro exI [of _ n] exI [of _ "marking_state h M W"]) simp
qed

lemma marking_step_keeps_tricolour_witness:
  "\<exists>n h'. incremental_mark_step 1 sample_marking = (Inr n, h') \<and> marking_ok h' \<and> n \<le> 1 \<and>
    marked_slots sample_marking \<subseteq> marked_slots h' \<and>
    card (marked_slots h' - marked_slots sample_marking) = n"
  by (rule marking_step_keeps_tricolour [OF sample_marking_ok])

text \<open>C18. Marking terminates: a step whose budget exceeds the number of white objects empties the
  worklist, and then every object that a black object refers to is black.\<close>

theorem enough_budget_finishes_marking:
  assumes "marking_ok h" and "card (occupied_slots h - marked_slots h) < budget"
  shows "\<exists>n h'. incremental_mark_step budget h = (Inr n, h') \<and> h_mark_worklist h' = [] \<and>
    (\<forall>s x i. holds h' s x \<longrightarrow> o_marked x \<longrightarrow> VObject i \<in> set (reference_fields x) \<longrightarrow>
       o_marked (object_at h' (slot_index i)))"
proof -
  obtain n M W where s: "incremental_mark_step budget h = (Inr n, marking_state h M W)"
    "marking_ok (marking_state h M W)" "M \<subseteq> occupied_slots h"
    "card (M - marked_slots h) = n" "n < budget \<longrightarrow> W = []"
    using incremental_mark_step_ok [OF assms(1), of budget] by blast
  have "n \<le> card (occupied_slots h - marked_slots h)"
    unfolding s(4) [symmetric] using s(3) by (intro card_mono) auto
  then have "W = []" using s(5) assms(2) by simp
  then show ?thesis
    using s(1) marking_okD(3) [OF s(2)] by (auto simp: tricolour_def)
qed

lemma enough_budget_finishes_marking_witness:
  "\<exists>n h'. incremental_mark_step 8 sample_marking = (Inr n, h') \<and> h_mark_worklist h' = [] \<and>
    (\<forall>s x i. holds h' s x \<longrightarrow> o_marked x \<longrightarrow> VObject i \<in> set (reference_fields x) \<longrightarrow>
       o_marked (object_at h' (slot_index i)))"
proof (rule enough_budget_finishes_marking [OF sample_marking_ok])
  have "occupied_slots sample_marking \<subseteq> {..<7}"
    by (auto simp: occupied_slots_def sample_marking_def marking_state_def with_marks_def holds_def
        sample_heap_def sample_objects_def)
  then have "card (occupied_slots sample_marking - marked_slots sample_marking) \<le> card {..<7 :: nat}"
    by (intro card_mono) auto
  then show "card (occupied_slots sample_marking - marked_slots sample_marking) < 8" by simp
qed

text \<open>C19. Starting a cycle on a well-formed idle heap never fails: the worklist names exactly the root
  objects, and the tri-colour invariant holds.\<close>

theorem starting_a_cycle_greys_the_roots:
  assumes "heap_wf h" and "marks_clear h" and "roots_valid h []" and "\<not> h_marking_active h"
  shows "\<exists>h'. start_incremental_marking h = (Inr (), h') \<and> marking_ok h' \<and>
    set (h_mark_worklist h') = {i. VObject i \<in> set (collection_roots h [])}"
  using start_incremental_marking_ok [OF assms] by (fastforce simp: ids_of_def)

lemma starting_a_cycle_greys_the_roots_witness:
  "\<exists>h'. start_incremental_marking sample_heap = (Inr (), h') \<and> marking_ok h' \<and>
    set (h_mark_worklist h') = {i. VObject i \<in> set (collection_roots sample_heap [])}"
  by (rule starting_a_cycle_greys_the_roots) (use collectable_sample in \<open>simp_all add: collectable_def\<close>)

lemma write_barrier_keeps_tricolour_witness:
  "\<exists>h'. incremental_write_barrier_before_publish (object_id_at 0 1) (VObject (object_id_at 5 1)) sample_marking = (Inr (), h') \<and>
    tricolour (set_object (slot_index (object_id_at 0 1))
      ((object_at sample_marking (slot_index (object_id_at 0 1)))\<lparr>o_left := VObject (object_id_at 5 1)\<rparr>) h')"
proof (rule write_barrier_keeps_tricolour [OF sample_marking_ok])
  show "stores_one (object_at sample_marking (slot_index (object_id_at 0 1))) (VObject (object_id_at 5 1))
      ((object_at sample_marking (slot_index (object_id_at 0 1)))\<lparr>o_left := VObject (object_id_at 5 1)\<rparr>)"
    by (auto simp: stores_one_def sample_marking_def marking_state_def with_marks_def object_at_def
        sample_heap_def sample_objects_def reference_fields_def default_object_def)
qed (simp_all add: sample_marking_reads current_slot_def sample_heap_def sample_objects_def)

text \<open>C15. Finishing an incremental marking cycle at any point is the atomic major collection: from any
  state of the cycle the final pause succeeds, the shadow marking agrees, and the caller's roots and the
  whole heap afterwards are those of \<open>collect_impl\<close> run with the marks and the cycle dropped.\<close>

theorem finishing_incremental_marking_is_the_atomic_collection:
  assumes "marking_ok h" and "roots_valid h extra" and "\<not> h_skip_next_intern_processing h"
    and "\<forall>g\<in>set (h_generations h). g < kMaxGeneration"
  shows "\<exists>extra' h'. finish_incremental_marking_impl extra h = (Inr extra', h') \<and>
    collect_impl Major extra (end_marking_cycle (clear_marks h)) = (Inr extra', h') \<and> heap_wf h'"
proof -
  note D = marking_okD [OF assms(1)]
  let ?h0 = "marking_state h {} []" and ?R = "reachable h (collection_roots h extra)"
  let ?c = "end_marking_cycle (clear_marks h)"
  have wf0: "heap_wf ?h0" and roots0: "roots_valid ?h0 extra"
    using D(1) assms(2) by (simp_all add: roots_valid_marking)
  have T: "traced Major ?h0 (collection_roots ?h0 extra) = ?R"
  proof -
    have "holds ?h0 = holds (with_marks h {})" by (simp add: fun_eq_iff holds_def marking_state_def)
    from reachable_cong [OF this] show ?thesis
      using traced_major_reachable [OF wf0 roots0] by (simp add: reachable_with_marks)
  qed
  have k: "with_marks ?h0 ?R = marking_state h ?R []"
    by (simp add: marking_state_def with_marks_def)
      (auto intro!: nth_equalityI simp: option.map_comp comp_def)
  have k0: "h_skip_next_intern_processing ?h0 = h_skip_next_intern_processing h" "h_generations ?h0 = h_generations h"
    by (simp_all add: marking_state_def with_marks_def)
  obtain fwd h' where m: "move_live_objects Major end_marking_cycle extra (marking_state h ?R []) =
      (Inr (map (move_value fwd) extra), h')"
    "heap_wf h'" "marks_clear h'" "roots_valid h' (map (move_value fwd) extra)"
    "\<exists>k. h' = (end_marking_cycle k)\<lparr>h_remembered_set := []\<rparr>"
    using marked_move_ok [OF wf0 _ roots0 _ _ T [symmetric], of end_marking_cycle] assms(3,4)
    by (auto simp: k k0 keeps_heap_def)
  have ended: "end_marking_cycle h' = h'" using m(5) by (auto simp: end_marking_cycle_def)
  have move: "move_live_objects Major id extra (end_marking_cycle (marking_state h ?R [])) =
      (Inr (map (move_value fwd) extra), h')"
    using move_ends_cycle m(1) ended unfolding ends_cycle_def by metis
  have v: "validate_after_collection h' (map (move_value fwd) extra) = Inr ()"
    by (rule validate_after_collection_ok [OF m(2-4)])
  have fin: "finish_incremental_marking_impl extra h = (Inr (map (move_value fwd) extra), h')"
    using finish_liveness_ok [OF assms(1,2)] m(1) v
    by (simp add: finish_incremental_marking_impl_def sx_defs)
  have c: "?c = end_marking_cycle (with_marks h {})" by (simp add: clear_marks_eq)
  have wfc: "heap_wf ?c" using D(1) heap_wf_cong [OF same_store_end_marking] by (simp add: c)
  have clearc: "marks_clear ?c"
    by (auto simp: c marks_clear_def holds_with_marks)
  have rootsc: "roots_valid ?c extra"
    using assms(2) by (simp add: c roots_valid_def valid_ref_def)
  have rc: "reachable ?c (collection_roots ?c extra) = ?R"
    by (simp add: c reachable_cong [OF end_marking_reads(3)] reachable_with_marks)
  have mark: "on_local_worklist (mark_live_objects Major extra) ?c = (Inr (), with_marks ?c ?R)"
    using mark_live_objects_correct [OF wfc clearc rootsc, of Major] traced_major_reachable [OF wfc rootsc] rc
    by (auto simp: on_local_worklist_def)
  have "with_marks ?c ?R = end_marking_cycle (with_marks (with_marks h {}) ?R)"
    by (simp only: c) (simp add: end_marking_cycle_def with_marks_def)
  then have kc: "with_marks ?c ?R = end_marking_cycle (marking_state h ?R [])"
    by (simp add: marking_state_def end_marking_cycle_def)
  have "collect_impl Major extra ?c = (Inr (map (move_value fwd) extra), h')"
    unfolding collect_impl_def sx_bind_def sx_then_def sx_gets_def sx_reads_def sx_return_def
    using heap_wfD(2) [OF wfc] mark move v validate_before_collection_ok [OF wfc] by (simp add: kc)
  with fin m(2) show ?thesis by blast
qed



lemma finishing_incremental_marking_is_the_atomic_collection_witness:
  "\<exists>extra' h'. finish_incremental_marking_impl [] sample_marking = (Inr extra', h') \<and>
    collect_impl Major [] (end_marking_cycle (clear_marks sample_marking)) = (Inr extra', h') \<and> heap_wf h'"
  by (rule finishing_incremental_marking_is_the_atomic_collection [OF sample_marking_ok])
    (use sample_generations(2) in \<open>simp_all add: sample_marking_reads\<close>)

end
