(* ===== verification/GC_Store.thy ===== *)
theory GC_Store
  imports GC_Tricolour
begin

text \<open>
  Writing one object into the heap: \<open>written h s g x h'\<close> says that \<open>h'\<close> is \<open>h\<close> with \<open>x\<close> at slot
  \<open>s\<close> under generation \<open>g\<close>, into free slots or in place of an object of the same kind.  An
  allocation and every store into an object are of this form, so their effect on the validators'
  invariant is proved once, here, together with the growth of the slot vector.
\<close>

definition written :: "gcheap \<Rightarrow> nat \<Rightarrow> u32 \<Rightarrow> gcobj \<Rightarrow> gcheap \<Rightarrow> bool" where
  "written h s g x h' \<longleftrightarrow> s < length (h_objects h) \<and>
     h_objects h' = (h_objects h)[s := Some x] \<and> h_generations h' = (h_generations h)[s := g] \<and>
     h_compaction_active h' = h_compaction_active h \<and> g \<noteq> 0 \<and> g \<le> kMaxGeneration \<and>
     (\<forall>y. holds h s y \<longrightarrow> g = h_generations h ! s \<and> o_kind y = o_kind x \<and>
        o_generation y = o_generation x \<and> (o_kind y = Str \<longrightarrow> o_string_bytes y = o_string_bytes x)) \<and>
     (\<forall>t y. holds h t y \<longrightarrow> t \<noteq> s \<longrightarrow>
        t + storage_slot_count y \<le> s \<or> s + storage_slot_count x \<le> t) \<and>
     s + storage_slot_count x \<le> length (h_objects h) \<and> shape_ok x \<and>
     (\<forall>v\<in>set (reference_fields x). valid_ref h v)"

lemma writtenD:
  assumes "written h s g x h'"
  shows "s < length (h_objects h)" "h_objects h' = (h_objects h)[s := Some x]"
    "h_generations h' = (h_generations h)[s := g]" "h_compaction_active h' = h_compaction_active h"
    "g \<noteq> 0" "g \<le> kMaxGeneration"
    "holds h s y \<Longrightarrow> g = h_generations h ! s" "holds h s y \<Longrightarrow> o_kind y = o_kind x"
    "holds h s y \<Longrightarrow> o_generation y = o_generation x"
    "holds h s y \<Longrightarrow> o_kind y = Str \<Longrightarrow> o_string_bytes y = o_string_bytes x"
    "holds h t y \<Longrightarrow> t \<noteq> s \<Longrightarrow> t + storage_slot_count y \<le> s \<or> s + storage_slot_count x \<le> t"
    "s + storage_slot_count x \<le> length (h_objects h)" "shape_ok x"
    "v \<in> set (reference_fields x) \<Longrightarrow> valid_ref h v"
  using assms unfolding written_def by (blast, (blast | simp)+)

lemma written_holds:
  assumes "written h s g x h'"
  shows "holds h' t y \<longleftrightarrow> (if t = s then y = x else holds h t y)"
  using writtenD(1,2) [OF assms] by (auto simp: holds_def)

lemma written_object_at:
  assumes "written h s g x h'"
  shows "object_at h' t = (if t = s then x else object_at h t)"
  using writtenD(1,2) [OF assms] by (auto simp: object_at_def)

lemma written_generation:
  assumes "written h s g x h'" and "generations_ok h"
  shows "h_generations h' ! t = (if t = s then g else h_generations h ! t)"
  using writtenD(1,3) [OF assms(1)] assms(2) by (auto simp: generations_ok_def)

lemma written_id_at:
  assumes "written h s g x h'" and "generations_ok h"
  shows "id_at h' t = (if t = s then object_id_at s g else id_at h t)"
  by (simp add: id_at_def written_generation [OF assms])

lemma written_current:
  assumes w: "written h s g x h'" and wf: "heap_wf h"
  shows "current_slot h' i \<longleftrightarrow> i = object_id_at s g \<or> current_slot h i" "current_slot h' (object_id_at s g)"
proof -
  note g = heap_wfD(3) [OF wf] and p = heap_wfD(1) [OF wf]
  have len: "length (h_objects h') = length (h_objects h)" "length (h_generations h') = length (h_generations h)"
    "length (h_generations h) = length (h_objects h)"
    using writtenD(2,3) [OF w] g by (simp_all add: generations_ok_def)
  have s: "slot_index (object_id_at s g) = s"
    by (rule slot_index_object_id_at) (use p writtenD(1) [OF w] in \<open>simp add: plain_identities_def\<close>)
  show now: "current_slot h' (object_id_at s g)"
    using s len writtenD(1,5) [OF w] written_generation [OF w g, of s] writtenD(2) [OF w]
    by (simp add: current_slot_def)
  show "current_slot h' i \<longleftrightarrow> i = object_id_at s g \<or> current_slot h i"
  proof (cases "slot_index i = s")
    case True
    have "generation_from i = g \<Longrightarrow> i = object_id_at s g"
      using True s by (intro object_id_eqI) (auto simp: word_unat_eq_iff)
    moreover have "current_slot h i \<Longrightarrow> generation_from i = g"
      using True current_slot_holds [of h i] writtenD(7) [OF w] by (auto simp: current_slot_def)
    moreover have "current_slot h' i \<Longrightarrow> generation_from i = g"
      using True written_generation [OF w g, of s] by (simp add: current_slot_def)
    ultimately show ?thesis using now by blast
  next
    case False
    then have "current_slot h' i \<longleftrightarrow> current_slot h i"
      using len written_generation [OF w g] writtenD(2) [OF w] by (simp add: current_slot_def)
    then show ?thesis using False s by auto
  qed
qed

lemma written_valid:
  assumes "written h s g x h'" and "heap_wf h" and "valid_ref h v"
  shows "valid_ref h' v"
  using assms(3) written_current [OF assms(1,2)] by (auto simp: valid_ref_def)

lemma written_at_current:
  assumes w: "written h s g x h'" and "current_slot h i"
  shows "o_kind (object_at h' (slot_index i)) = o_kind (object_at h (slot_index i))"
    "o_generation (object_at h' (slot_index i)) = o_generation (object_at h (slot_index i))"
    "o_kind (object_at h (slot_index i)) = Str \<Longrightarrow>
      o_string_bytes (object_at h' (slot_index i)) = o_string_bytes (object_at h (slot_index i))"
  using current_slot_holds [OF assms(2)] writtenD(8,9,10) [OF w]
  by (auto simp: written_object_at [OF w])

lemma written_shape:
  assumes w: "written h s g x h'" and wf: "heap_wf h" and "holds h' t y"
  shows "shape_ok y"
  using assms(3) writtenD(13) [OF w] heap_wf_shape [OF wf]
  by (auto simp: written_holds [OF w] split: if_splits)

lemma written_string_bytes:
  assumes w: "written h s g x h'" and wf: "heap_wf h" and cur: "current_slot h i"
  shows "string_bytes i h' = string_bytes i h"
proof -
  have cur': "current_slot h' i" using cur written_current(1) [OF w wf] by simp
  show ?thesis
    using string_bytes_checked [OF cur heap_wf_shape [OF wf current_slot_holds [OF cur]]]
      string_bytes_checked [OF cur' written_shape [OF w wf current_slot_holds [OF cur']]]
      written_at_current [OF w cur] by simp
qed

lemma written_key_hash:
  assumes w: "written h s g x h'" and wf: "heap_wf h" and "valid_ref h v"
  shows "map_key_hash h' v = map_key_hash h v"
  using assms(3) written_string_bytes [OF w wf] by (cases v) simp_all

lemma written_map_index:
  assumes w: "written h s g x h'" and wf: "heap_wf h" and m: "o_kind m = Map_kind" "shape_ok m"
    and valid: "\<And>v. v \<in> set (reference_fields m) \<Longrightarrow> valid_ref h v"
  shows "validate_map_index m h' = validate_map_index m h"
proof -
  have "map_key_hash h' (e_key e) = map_key_hash h (e_key e)" if e: "e \<in> set (o_map_entries m)" for e
  proof (rule written_key_hash [OF w wf])
    show "valid_ref h (e_key e)"
    proof (cases "o_map_key_is_ref m")
      case True
      then show ?thesis using e m by (intro valid) (auto simp: reference_fields_def intro!: bexI [of _ e])
    next
      case False
      with map_shape_keys(2) [OF m(2,1) e] show ?thesis by (cases "e_key e") (auto simp: scalar_tag_def)
    qed
  qed
  then have "validate_map_lookup_index (map_key_hash h') (o_map_entries m) ix =
      validate_map_lookup_index (map_key_hash h) (o_map_entries m) ix" for ix
    by (intro validate_map_lookup_index_cong) (simp add: list_all2_conv_all_nth)
  then show ?thesis by (simp add: validate_map_index_def)
qed

lemma written_layout:
  assumes w: "written h s g x h'" and wf: "heap_wf h"
    and ix: "o_kind x = Map_kind \<Longrightarrow> validate_map_index x h = Inr ()"
  shows "layout_ok h'"
  unfolding layout_ok_def
proof (intro allI impI)
  fix t y assume y: "holds h' t y"
  have len: "length (h_objects h') = length (h_objects h)" using writtenD(2) [OF w] by simp
  note L = heap_wfD(4) [OF wf]
  show "slot_layout_ok h' t y"
  proof (cases "t = s")
    case True
    then have [simp]: "y = x" using y by (simp add: written_holds [OF w])
    have "h_objects h' ! (s + d) = None" if "0 < d" "d < storage_slot_count x" for d
    proof (rule ccontr)
      assume "h_objects h' ! (s + d) \<noteq> None"
      moreover have "(h_objects h)[s := Some x] ! (s + d) = h_objects h ! (s + d)"
        using that(1) by (intro nth_list_update_neq) simp
      moreover have "s + d < length (h_objects h)" using that writtenD(12) [OF w] by simp
      ultimately obtain z where "holds h (s + d) z"
        by (auto simp: holds_def writtenD(2) [OF w])
      with writtenD(11) [OF w this] that storage_slot_count_pos [of z] show False by simp
    qed
    then show ?thesis
      using True writtenD(12,13) [OF w] ix written_map_index [OF w wf _ writtenD(13) [OF w] writtenD(14) [OF w]]
      by (auto simp: slot_layout_ok_def len)
  next
    case False
    then have yh: "holds h t y" using y by (simp add: written_holds [OF w])
    then have ok: "slot_layout_ok h t y" using L by (simp add: layout_ok_def)
    have "validate_map_index y h' = Inr ()" if "o_kind y = Map_kind"
      using ok that written_map_index [OF w wf that heap_wf_shape [OF wf yh]] heap_wfD(5) [OF wf] yh
      by (auto simp: slot_layout_ok_def fields_valid_def)
    moreover have "t + d \<noteq> s" if "d < storage_slot_count y" for d
      using writtenD(11) [OF w yh False] that storage_slot_count_pos [of x] by linarith
    then have "\<forall>d. 0 < d \<longrightarrow> d < storage_slot_count y \<longrightarrow> h_objects h' ! (t + d) = None"
      using ok unfolding writtenD(2) [OF w] slot_layout_ok_def by (metis nth_list_update_neq)
    ultimately show ?thesis using ok by (auto simp: slot_layout_ok_def len)
  qed
qed

lemma written_wf:
  assumes w: "written h s g x h'" and wf: "heap_wf h"
    and ix: "o_kind x = Map_kind \<Longrightarrow> validate_map_index x h = Inr ()"
    and interns: "h_intern_table h' = h_intern_table h"
    and rem: "\<And>i. i \<in> set (h_remembered_set h') \<Longrightarrow> current_slot h i \<and> o_generation (object_at h (slot_index i)) = Old"
      "set (h_remembered_set h) \<subseteq> set (h_remembered_set h')"
      "\<And>i. o_generation x = Old \<Longrightarrow> VObject i \<in> set (reference_fields x) \<Longrightarrow>
        o_generation (object_at h (slot_index i)) = Young \<Longrightarrow> object_id_at s g \<in> set (h_remembered_set h')"
    and weak: "h_weak_refs h' = map (id_at h') (kind_slots WeakRef h')"
      "o_kind x = WeakRef \<Longrightarrow> reference_tag (o_weak_target x) \<and> valid_ref h (o_weak_target x)"
    and eph: "h_ephemerons h' = map (id_at h') (kind_slots Ephemeron h')"
      "o_kind x = Ephemeron \<Longrightarrow> valid_ref h (o_ephemeron_key x) \<and>
        (o_ephemeron_value_is_ref x \<longrightarrow> valid_ref h (o_ephemeron_value x))"
  shows "heap_wf h'"
proof -
  note D = heap_wfD [OF wf] and cur = written_current [OF w wf] and val = written_valid [OF w wf]
  have plain: "plain_identities h'"
    using D(1) writtenD(2,4) [OF w] by (simp add: plain_identities_def)
  have gens: "generations_ok h'"
    unfolding generations_ok_def
  proof (intro conjI ballI allI impI)
    show "length (h_generations h') = length (h_objects h')"
      using D(3) writtenD(2,3) [OF w] by (simp add: generations_ok_def)
    show "k \<le> kMaxGeneration" if "k \<in> set (h_generations h')" for k
      using that D(3) writtenD(3,6) [OF w] set_update_subset_insert [of "h_generations h" s g]
      by (auto simp: generations_ok_def)
    show "h_generations h' ! t \<noteq> 0" if "holds h' t y" for t y
      using that D(3) writtenD(5) [OF w] written_generation [OF w D(3)]
      by (auto simp: written_holds [OF w] generations_ok_def split: if_splits)
  qed
  have fields: "fields_valid h'"
    using D(5) writtenD(14) [OF w] val
    by (auto simp: fields_valid_def written_holds [OF w] split: if_splits)
  have old: "current_slot h i" if "holds h t y" "VObject i \<in> set (reference_fields y)" for t y i
    by (rule fields_validD [OF D(5) that])
  have oldx: "current_slot h i" if "VObject i \<in> set (reference_fields x)" for i
    using writtenD(14) [OF w that] by simp
  have remembered: "remembered_ok h'"
    unfolding remembered_ok_def
  proof (intro conjI ballI allI impI)
    fix i assume "i \<in> set (h_remembered_set h')"
    then show "current_slot h' i" "o_generation (object_at h' (slot_index i)) = Old"
      using rem(1) cur written_at_current(2) [OF w] by auto
  next
    fix t y i
    assume y: "holds h' t y" "o_generation y = Old" "VObject i \<in> set (reference_fields y)"
      "o_generation (object_at h' (slot_index i)) = Young"
    show "id_at h' t \<in> set (h_remembered_set h')"
    proof (cases "t = s")
      case True
      then have "y = x" using y(1) by (simp add: written_holds [OF w])
      then show ?thesis
        using True y rem(3) written_at_current(2) [OF w oldx] by (simp add: written_id_at [OF w D(3)])
    next
      case False
      then have "holds h t y" using y(1) by (simp add: written_holds [OF w])
      then show ?thesis
        using False y rem(2) D(6) written_at_current(2) [OF w old]
        by (auto simp: written_id_at [OF w D(3)] remembered_ok_def)
    qed
  qed
  have at: "t \<in> set (kind_slots k h')" "t \<noteq> s \<Longrightarrow> t \<in> set (kind_slots k h)" if "t \<in> set (kind_slots k h')" for k t
    using that by (auto simp: kind_slots_iff written_object_at [OF w] written_holds [OF w])
  have id: "current_slot h' (id_at h' t)" if "t \<in> set (kind_slots k h')" for k t
    using that by (auto simp: kind_slots_iff intro: generations_ok_current [OF gens plain])
  have "weak_slot_good h' t" if t: "t \<in> set (kind_slots WeakRef h')" for t
  proof (cases "t = s")
    case True
    then have "o_kind x = WeakRef" using t by (simp add: kind_slots_iff written_object_at [OF w])
    then show ?thesis
      using True weak(2) id [OF t] val by (simp add: weak_slot_good_def written_object_at [OF w])
  next
    case False
    then have "weak_slot_good h t" using at(2) [OF t] D(7) by (auto simp: weak_ok_def)
    then show ?thesis
      using False id [OF t] val by (simp add: weak_slot_good_def written_object_at [OF w])
  qed
  then have weak_ok: "weak_ok h'" using weak(1) by (simp add: weak_ok_def)
  have "ephemeron_slot_good h' t" if t: "t \<in> set (kind_slots Ephemeron h')" for t
  proof (cases "t = s")
    case True
    then have "o_kind x = Ephemeron" using t by (simp add: kind_slots_iff written_object_at [OF w])
    then show ?thesis
      using True eph(2) id [OF t] val writtenD(13) [OF w]
      by (simp add: ephemeron_slot_good_def written_object_at [OF w])
  next
    case False
    then have "ephemeron_slot_good h t" using at(2) [OF t] D(9) by (auto simp: ephemerons_ok_def)
    then show ?thesis
      using False id [OF t] val by (simp add: ephemeron_slot_good_def written_object_at [OF w])
  qed
  then have eph_ok: "ephemerons_ok h'" using eph(1) by (simp add: ephemerons_ok_def)
  have entry: "intern_entry_ok h' e \<and> o_string_bytes (intern_object h' e) = o_string_bytes (intern_object h e)"
    if "intern_entry_ok h e" for e
    using that cur written_at_current [OF w, of "canonical e"]
      written_shape [OF w wf current_slot_holds, of "canonical e"]
    by (simp add: intern_entry_ok_def intern_object_def)
  have "interns_ok h'"
    using D(8) entry unfolding interns_ok_iff interns by (auto elim!: sorted_wrt_mono_rel [rotated])
  then show ?thesis
    using plain gens fields remembered weak_ok eph_ok written_layout [OF w wf ix] by (simp add: heap_wf_def)
qed

subsection \<open>Growing the slot vector\<close>

definition grown :: "nat \<Rightarrow> gcheap \<Rightarrow> gcheap" where
  "grown n h = h\<lparr>h_objects := h_objects h @ replicate n None,
     h_generations := h_generations h @ replicate n 0\<rparr>"

lemma grown_frame [simp]:
  "h_remembered_set (grown n h) = h_remembered_set h" "h_weak_refs (grown n h) = h_weak_refs h"
  "h_ephemerons (grown n h) = h_ephemerons h" "h_intern_table (grown n h) = h_intern_table h"
  "h_compaction_active (grown n h) = h_compaction_active h" "h_marking_active (grown n h) = h_marking_active h"
  "h_mark_worklist (grown n h) = h_mark_worklist h" "h_roots (grown n h) = h_roots h"
  "h_handle_roots (grown n h) = h_handle_roots h" "h_stress (grown n h) = h_stress h"
  "h_skip_next_write_barrier (grown n h) = h_skip_next_write_barrier h"
  "h_skip_next_intern_processing (grown n h) = h_skip_next_intern_processing h"
  "h_skip_next_incremental_barrier (grown n h) = h_skip_next_incremental_barrier h"
  "length (h_objects (grown n h)) = length (h_objects h) + n"
  by (simp_all add: grown_def)

lemma grown_holds [simp]: "holds (grown n h) = holds h"
  by (auto simp: fun_eq_iff holds_def grown_def nth_append)

lemma grown_object_at: "s < length (h_objects h) \<Longrightarrow> object_at (grown n h) s = object_at h s"
  by (simp add: object_at_def grown_def nth_append)

lemma grown_id_at: "generations_ok h \<Longrightarrow> s < length (h_objects h) \<Longrightarrow> id_at (grown n h) s = id_at h s"
  by (simp add: id_at_def grown_def nth_append generations_ok_def)

lemma grown_current:
  assumes "generations_ok h"
  shows "current_slot (grown n h) i = current_slot h i"
  using assms by (auto simp: current_slot_def grown_def nth_append generations_ok_def)

lemma grown_string_bytes:
  assumes wf: "heap_wf h"
  shows "string_bytes i (grown n h) = string_bytes i h"
proof (cases "current_slot h i")
  case True
  then have "current_slot (grown n h) i" "slot_index i < length (h_objects h)"
    by (simp_all add: grown_current [OF heap_wfD(3) [OF wf]]) (simp add: current_slot_def)
  with True show ?thesis
    by (simp add: string_bytes_def checked_string_def checked_kind_def grown_object_at)
next
  case False
  moreover have "\<not> current_slot (grown n h) i"
    using False by (simp add: grown_current [OF heap_wfD(3) [OF wf]])
  ultimately show ?thesis
    using heap_wfD(2) [OF wf]
    by (simp add: string_bytes_def checked_string_def checked_kind_def checked_slot_stale)
qed

lemma grown_map_index:
  assumes wf: "heap_wf h"
  shows "validate_map_index m (grown n h) = validate_map_index m h"
proof -
  have "map_key_hash (grown n h) v = map_key_hash h v" for v
    using grown_string_bytes [OF wf] by (cases v) simp_all
  then have "map_key_hash (grown n h) = map_key_hash h" by (rule ext)
  then show ?thesis by (simp add: validate_map_index_def)
qed

lemma grown_kind_slots: "kind_slots k (grown n h) = kind_slots k h"
proof -
  have "is_kind_at k (grown n h) s = is_kind_at k h s" if "s < length (h_objects h)" for s
    using that by (simp add: is_kind_at_def grown_def nth_append)
  then have "filter (is_kind_at k (grown n h)) [0..<length (h_objects h)] =
      filter (is_kind_at k h) [0..<length (h_objects h)]"
    by (intro filter_cong) auto
  moreover have "\<not> is_kind_at k (grown n h) s" if "length (h_objects h) \<le> s" "s < length (h_objects h) + n" for s
    using that by (simp add: is_kind_at_def grown_def nth_append)
  ultimately show ?thesis
    unfolding kind_slots_def grown_frame upt_add_eq_append [OF le0]
    by (simp add: filter_empty_conv)
qed

lemma grown_wf:
  assumes wf: "heap_wf h" and fits: "length (h_objects h) + n \<le> 4294967296"
  shows "heap_wf (grown n h)"
proof -
  let ?k = "grown n h"
  note D = heap_wfD [OF wf]
  have cur: "current_slot ?k = current_slot h" using grown_current [OF D(3)] by (simp add: fun_eq_iff)
  then have val: "valid_ref ?k = valid_ref h" by (simp add: fun_eq_iff valid_ref_def)
  have at: "object_at ?k (slot_index i) = object_at h (slot_index i)" if "current_slot h i" for i
    using that by (intro grown_object_at) (simp add: current_slot_def)
  have slot: "object_at ?k s = object_at h s" "id_at ?k s = id_at h s" if "s \<in> set (kind_slots k h)" for k s
    using that by (auto simp: kind_slots_iff intro!: grown_object_at grown_id_at [OF D(3)] dest: holds_less)
  have "plain_identities ?k" using D(1) fits by (simp add: plain_identities_def)
  moreover have "generations_ok ?k"
    unfolding generations_ok_def grown_holds
  proof (intro conjI ballI allI impI)
    show "length (h_generations ?k) = length (h_objects ?k)"
      using D(3) by (simp add: generations_ok_def grown_def)
    show "g \<le> kMaxGeneration" if "g \<in> set (h_generations ?k)" for g
      using that D(3) by (auto simp: generations_ok_def grown_def)
    show "h_generations ?k ! s \<noteq> 0" if "holds h s x" for s x
      using that D(3) holds_less [OF that] by (simp add: generations_ok_def grown_def nth_append) blast
  qed
  moreover have "layout_ok ?k"
    unfolding layout_ok_def grown_holds
  proof (intro allI impI)
    fix s x assume "holds h s x"
    then have ok: "slot_layout_ok h s x" using D(4) by (simp add: layout_ok_def)
    then have "h_objects ?k ! (s + d) = h_objects h ! (s + d)" if "d < storage_slot_count x" for d
      using that by (auto simp: slot_layout_ok_def grown_def nth_append)
    then show "slot_layout_ok ?k s x"
      using ok by (auto simp: slot_layout_ok_def grown_map_index [OF wf])
  qed
  moreover have "fields_valid ?k" using D(5) by (simp add: fields_valid_def val)
  moreover have "remembered_ok ?k"
    using D(6) at grown_id_at [OF D(3)] fields_validD [OF D(5)] holds_less [of h]
    unfolding remembered_ok_def cur grown_holds grown_frame by metis
  moreover have "weak_ok ?k" "ephemerons_ok ?k"
    using D(7,9) slot
    by (simp_all add: weak_ok_def ephemerons_ok_def grown_kind_slots weak_slot_good_def ephemeron_slot_good_def
        cur val cong: map_cong)
  moreover have "interns_ok ?k"
  proof -
    have "intern_entry_ok ?k e \<and> o_string_bytes (intern_object ?k e) = o_string_bytes (intern_object h e)"
      if "intern_entry_ok h e" for e
      using that at by (simp add: intern_entry_ok_def intern_object_def cur)
    then show ?thesis
      using D(8) unfolding interns_ok_iff grown_frame by (auto elim!: sorted_wrt_mono_rel [rotated])
  qed
  ultimately show ?thesis by (simp add: heap_wf_def)
qed

end
