(* ===== verification/GC_Alloc.thy ===== *)
theory GC_Alloc
  imports GC_Store
begin

text \<open>
  Allocation (\<open>src/gc/heap.cpp\<close>): the first-fit search for a run of free slots,
  \<open>allocate_object\<close>, one allocation operation per object kind with its stress collections,
  string interning and the handle roots.  An operation that collects takes the values it keeps in
  local variables as extra roots and goes on with their rewritten values.
\<close>

definition msg_slot_limit :: string where "msg_slot_limit = ''heap object slot limit exceeded''"
definition msg_concat_limit :: string where
  "msg_concat_limit = ''string concatenation exceeds object header limit''"
definition msg_capture_map_length :: string where
  "msg_capture_map_length = ''closure capture-map length does not match capture payload''"
definition msg_record_map_length :: string where
  "msg_record_map_length = ''record reference-bitmap length does not match field payload''"
definition ctx_concat_left :: string where "ctx_concat_left = ''string concat left operand''"
definition ctx_concat_right :: string where "ctx_concat_right = ''string concat right operand''"
definition ctx_substring :: string where "ctx_substring = ''string substring source operand''"
definition ctx_intern :: string where "ctx_intern = ''string intern source operand''"
definition ctx_builder_to_str :: string where "ctx_builder_to_str = ''builder to_str receiver''"

subsection \<open>Free storage\<close>

text \<open>
  The loop of \<open>find_free_storage_run\<close>: \<open>base\<close>, \<open>free_run_start\<close> and
  \<open>free_run_length\<close> are its variables.
\<close>

function free_run_loop :: "gcobj option list \<Rightarrow> nat \<Rightarrow> nat \<Rightarrow> nat \<Rightarrow> nat \<Rightarrow> nat option" where
  "free_run_loop objs required base run_start run_length =
     (if base < length objs then (case objs ! base of
         Some x \<Rightarrow> free_run_loop objs required (base + storage_slot_count x) run_start 0
       | None \<Rightarrow> let start = if run_length = 0 then base else run_start in
           if Suc run_length = required then Some start
           else free_run_loop objs required (Suc base) start (Suc run_length))
      else None)"
  by pat_completeness auto
termination free_run_loop
  by (relation "measure (\<lambda>(objs, required, base, run_start, run_length). length objs - base)")
    (auto simp: diff_less_mono2)

declare free_run_loop.simps [simp del]

definition find_free_storage_run :: "nat \<Rightarrow> gcheap \<Rightarrow> exn + nat option" where
  "find_free_storage_run required h = ethen (ethrow_if (required = 0) Abort)
     (Inr (free_run_loop (h_objects h) required 0 0 0))"

definition is_storage_slot_free :: "nat \<Rightarrow> gcheap \<Rightarrow> bool" where
  "is_storage_slot_free slot h \<longleftrightarrow> slot < length (h_objects h) \<and> h_objects h ! slot = None \<and>
     list_all (\<lambda>base. case h_objects h ! base of None \<Rightarrow> True
       | Some x \<Rightarrow> \<not> (base < slot \<and> slot < base + storage_slot_count x)) [0..<length (h_objects h)]"

subsection \<open>Values kept in an object under construction\<close>

text \<open>\<open>put_reference_fields x vs\<close> stores \<open>vs\<close> in the fields the visitor passes over, in order.\<close>

fun put_masked :: "bool list \<Rightarrow> val list \<Rightarrow> val list \<Rightarrow> val list" where
  "put_masked (True # bs) (x # xs) (v # vs) = v # put_masked bs xs vs"
| "put_masked (False # bs) (x # xs) vs = x # put_masked bs xs vs"
| "put_masked bs xs vs = xs"

fun put_entries :: "bool \<Rightarrow> bool \<Rightarrow> map_entry list \<Rightarrow> val list \<Rightarrow> map_entry list" where
  "put_entries True True (e # es) (k # v # vs) = e\<lparr>e_key := k, e_value := v\<rparr> # put_entries True True es vs"
| "put_entries True False (e # es) (k # vs) = e\<lparr>e_key := k\<rparr> # put_entries True False es vs"
| "put_entries False True (e # es) (v # vs) = e\<lparr>e_value := v\<rparr> # put_entries False True es vs"
| "put_entries _ _ es vs = es"

definition put_reference_fields :: "gcobj \<Rightarrow> val list \<Rightarrow> gcobj" where
  "put_reference_fields x vs = (case o_kind x of
     Pair \<Rightarrow> x\<lparr>o_left := vs ! 0, o_right := vs ! 1\<rparr>
   | RefArray \<Rightarrow> x\<lparr>o_ref_elements := vs\<rparr>
   | Closure \<Rightarrow> x\<lparr>o_closure_captures := put_masked (o_closure_capture_map x) (o_closure_captures x) vs\<rparr>
   | Map_kind \<Rightarrow> x\<lparr>o_map_entries := put_entries (o_map_key_is_ref x) (o_map_value_is_ref x) (o_map_entries x) vs\<rparr>
   | Record_kind \<Rightarrow> x\<lparr>o_record_fields := put_masked (o_record_ref_map x) (o_record_fields x) vs\<rparr>
   | Variant \<Rightarrow> x\<lparr>o_variant_fields := put_masked (selected_ref_map x) (o_variant_fields x) vs\<rparr>
   | _ \<Rightarrow> x)"

definition construction_roots :: "gcobj \<Rightarrow> exn + val list" where
  "construction_roots x = ebind (visit_reference_fields x) (\<lambda>vs. Inr (vs @ (case o_kind x of
     WeakRef \<Rightarrow> [o_weak_target x]
   | Ephemeron \<Rightarrow> o_ephemeron_key x # (if o_ephemeron_value_is_ref x then [o_ephemeron_value x] else [])
   | _ \<Rightarrow> [])))"

definition put_construction_roots :: "gcobj \<Rightarrow> val list \<Rightarrow> gcobj" where
  "put_construction_roots x vs = (case o_kind x of
     WeakRef \<Rightarrow> x\<lparr>o_weak_target := vs ! 0\<rparr>
   | Ephemeron \<Rightarrow> if o_ephemeron_value_is_ref x then x\<lparr>o_ephemeron_key := vs ! 0, o_ephemeron_value := vs ! 1\<rparr>
       else x\<lparr>o_ephemeron_key := vs ! 0\<rparr>
   | _ \<Rightarrow> put_reference_fields x vs)"

subsection \<open>Allocating an object\<close>

text \<open>The part of \<open>allocate_object\<close> that grows the heap when no run is free.\<close>

definition reserve_storage :: "nat \<Rightarrow> (gcheap, nat) sx" where
  "reserve_storage required = sx_bind (sx_reads (find_free_storage_run required)) (\<lambda>base. case base of
     Some b \<Rightarrow> sx_return b
   | None \<Rightarrow> sx_bind (sx_gets (\<lambda>h. length (h_objects h))) (\<lambda>old_size.
       sx_then (sx_throw_if (int required > (int uint32_max - int old_size + 1) mod 2 ^ 64)
         (Length_error msg_slot_limit))
       (sx_then (sx_modify (\<lambda>h. h\<lparr>h_objects := h_objects h @ replicate required None,
          h_generations := h_generations h @ replicate required 0\<rparr>))
       (sx_return old_size))))"

text \<open>The installation of the object at the chosen base.\<close>

definition install_object :: "gcobj \<Rightarrow> nat \<Rightarrow> (gcheap, object_id) sx" where
  "install_object x base_slot =
     sx_bind (sx_reads (\<lambda>h. generation_for_new_base (h_generations h ! base_slot))) (\<lambda>g.
     let i = object_id_at base_slot g in
     sx_then (sx_modify (\<lambda>h. h\<lparr>
       h_generations := (h_generations h)[base_slot := g],
       h_objects := (h_objects h)[base_slot := Some (x\<lparr>o_marked := False, o_generation := Young\<rparr>)],
       h_weak_refs := (if o_kind x = WeakRef then insert_before slot_index base_slot i (h_weak_refs h)
         else h_weak_refs h),
       h_ephemerons := (if o_kind x = Ephemeron then insert_before slot_index base_slot i (h_ephemerons h)
         else h_ephemerons h),
       h_mark_worklist := (if h_marking_active h then i # h_mark_worklist h else h_mark_worklist h)\<rparr>))
     (sx_return i))"

definition allocate_object :: "gcobj \<Rightarrow> (gcheap, object_id) sx" where
  "allocate_object x0 =
     sx_bind (sx_gets h_compaction_active) (\<lambda>compacting.
     sx_bind (if compacting
       then sx_bind (sx_lift (construction_roots x0)) (\<lambda>roots.
         sx_bind (finish_incremental_compaction_impl roots) (\<lambda>roots'.
         sx_return (put_construction_roots x0 roots')))
       else sx_return x0) (\<lambda>x.
     sx_then (sx_lift (validate_descriptor_shape x))
     (let required = storage_slot_count x in
     sx_bind (reserve_storage required) (\<lambda>base_slot.
     sx_then (sx_bind (sx_gets (\<lambda>h. base_slot < length (h_objects h) \<and>
         list_all (\<lambda>offset. is_storage_slot_free (base_slot + offset) h) [0..<required])) sx_assert)
     (install_object x base_slot)))))"

subsection \<open>Stress collections around an allocation\<close>

definition collect_before_allocation :: "val list \<Rightarrow> (gcheap, val list) sx" where
  "collect_before_allocation roots = sx_bind (sx_gets (\<lambda>h. collect_before_every_allocation (h_stress h)))
     (\<lambda>stress. if stress then collect_with_extra_roots roots else sx_return roots)"

definition collect_after_allocation :: "object_id \<Rightarrow> (gcheap, object_id) sx" where
  "collect_after_allocation i = sx_bind (sx_gets (\<lambda>h. collect_after_every_allocation (h_stress h)))
     (\<lambda>stress. if stress
       then sx_bind (sx_lift (value_object i)) (\<lambda>v.
         sx_bind (collect_with_extra_roots [v]) (\<lambda>roots. sx_lift (as_object (roots ! 0))))
       else sx_return i)"

definition allocate_then_collect :: "exn + gcobj \<Rightarrow> (gcheap, object_id) sx" where
  "allocate_then_collect object = sx_bind (sx_lift object) (\<lambda>x.
     sx_bind (allocate_object x) collect_after_allocation)"

subsection \<open>The allocation operations\<close>

definition allocate_pair :: "val \<Rightarrow> val \<Rightarrow> (gcheap, object_id) sx" where
  "allocate_pair l r = sx_bind (collect_before_allocation [l, r]) (\<lambda>roots.
     allocate_then_collect (Inr (object_pair (roots ! 0) (roots ! 1))))"

definition allocate_scalar_array :: "nat \<Rightarrow> i64 \<Rightarrow> (gcheap, object_id) sx" where
  "allocate_scalar_array n init = sx_bind (collect_before_allocation []) (\<lambda>_.
     allocate_then_collect (object_scalar_array n init))"

definition allocate_ref_array :: "nat \<Rightarrow> val \<Rightarrow> (gcheap, object_id) sx" where
  "allocate_ref_array n init = sx_then (sx_lift (require_object_reference_value init ctx_ref_array_init))
     (sx_bind (collect_before_allocation [init]) (\<lambda>roots.
     allocate_then_collect (object_ref_array n (roots ! 0))))"

definition allocate_string :: "u8 list \<Rightarrow> (gcheap, object_id) sx" where
  "allocate_string bytes = sx_bind (collect_before_allocation []) (\<lambda>_.
     allocate_then_collect (object_string bytes))"

definition allocate_builder :: "(gcheap, object_id) sx" where
  "allocate_builder = sx_bind (collect_before_allocation []) (\<lambda>_.
     allocate_then_collect object_builder)"

text \<open>The bytes of the string or builder that a value refers to.\<close>

definition value_string_bytes :: "val \<Rightarrow> gcheap \<Rightarrow> exn + u8 list" where
  "value_string_bytes v h = ebind (as_object v) (\<lambda>i. string_bytes i h)"

definition finish_compaction_with :: "val list \<Rightarrow> (gcheap, val list) sx" where
  "finish_compaction_with roots = sx_bind (sx_gets h_compaction_active) (\<lambda>compacting.
     if compacting then finish_incremental_compaction_impl roots else sx_return roots)"

definition builder_to_string :: "val \<Rightarrow> (gcheap, object_id) sx" where
  "builder_to_string builder =
     sx_then (sx_lift (require_object_reference_value builder ctx_builder_to_str))
     (sx_bind (sx_reads (\<lambda>h. ebind (as_object builder) (\<lambda>i. checked_builder i h))) (\<lambda>_.
     sx_bind (finish_compaction_with [builder]) (\<lambda>roots.
     sx_bind (collect_before_allocation roots) (\<lambda>roots'.
     sx_bind (sx_reads (\<lambda>h. ebind (as_object (roots' ! 0)) (\<lambda>i. builder_bytes i h))) (\<lambda>bytes.
     allocate_then_collect (object_string bytes))))))"

definition allocate_string_concat :: "val \<Rightarrow> val \<Rightarrow> (gcheap, object_id) sx" where
  "allocate_string_concat l r =
     sx_then (sx_lift (require_object_reference_value l ctx_concat_left))
     (sx_then (sx_lift (require_object_reference_value r ctx_concat_right))
     (sx_bind (sx_reads (\<lambda>h. ebind (as_object l) (\<lambda>i. checked_string i h))) (\<lambda>_.
     sx_bind (sx_reads (\<lambda>h. ebind (as_object r) (\<lambda>i. checked_string i h))) (\<lambda>_.
     sx_bind (collect_before_allocation [l, r]) (\<lambda>roots.
     sx_bind (sx_reads (value_string_bytes (roots ! 0))) (\<lambda>left_bytes.
     sx_bind (sx_reads (value_string_bytes (roots ! 1))) (\<lambda>right_bytes.
     sx_then (sx_throw_if (length right_bytes > uint32_max - length left_bytes) (Length_error msg_concat_limit))
     (allocate_then_collect (object_string (left_bytes @ right_bytes))))))))))"

definition allocate_string_substring :: "val \<Rightarrow> nat \<Rightarrow> nat \<Rightarrow> (gcheap, object_id) sx" where
  "allocate_string_substring source lo hi =
     sx_then (sx_lift (require_object_reference_value source ctx_substring))
     (sx_bind (sx_reads (value_string_bytes source)) (\<lambda>initial.
     sx_then (sx_assert (lo \<le> hi \<and> hi \<le> length initial))
     (sx_bind (collect_before_allocation [source]) (\<lambda>roots.
     sx_bind (sx_reads (value_string_bytes (roots ! 0))) (\<lambda>bytes.
     sx_then (sx_assert (hi \<le> length bytes))
     (allocate_then_collect (object_string (take (hi - lo) (drop lo bytes)))))))))"

text \<open>The search of \<open>intern_string\<close> for an entry with the same bytes.\<close>

fun lookup_interned :: "gcheap \<Rightarrow> u64 \<Rightarrow> object_id \<Rightarrow> intern_entry list \<Rightarrow> exn + object_id option" where
  "lookup_interned h hash source [] = Inr None"
| "lookup_interned h hash source (e # es) = (if content_hash_of e \<noteq> hash then lookup_interned h hash source es
     else ebind (string_equal (canonical e) source h) (\<lambda>same.
       if same then Inr (Some (canonical e)) else lookup_interned h hash source es))"

definition insert_interned :: "u64 \<Rightarrow> object_id \<Rightarrow> gcheap \<Rightarrow> gcheap" where
  "insert_interned hash i h = h\<lparr>h_intern_table := insert_before (slot_index \<circ> canonical) (slot_index i)
     \<lparr>content_hash_of = hash, canonical = i\<rparr> (h_intern_table h)\<rparr>"

definition intern_string :: "val \<Rightarrow> (gcheap, object_id) sx" where
  "intern_string source0 =
     sx_then (sx_lift (require_object_reference_value source0 ctx_intern))
     (sx_bind (sx_reads (\<lambda>h. ebind (as_object source0) (\<lambda>i. checked_string i h))) (\<lambda>_.
     sx_bind (finish_compaction_with [source0]) (\<lambda>roots.
     let source = roots ! 0 in
     sx_bind (sx_reads (value_string_bytes source)) (\<lambda>bytes0.
     let hash = string_content_hash bytes0 in
     sx_bind (sx_reads (\<lambda>h. ebind (as_object source) (\<lambda>i. lookup_interned h hash i (h_intern_table h)))) (\<lambda>existing.
     case existing of
       Some i \<Rightarrow> sx_bind (sx_gets h_marking_active) (\<lambda>marking.
         sx_then (sx_when marking (sx_bind (sx_lift (value_object i)) (\<lambda>v.
           on_heap_worklist (enqueue_mark_value Major v))))
         (sx_return i))
     | None \<Rightarrow> sx_bind (collect_before_allocation [source]) (\<lambda>roots'.
         sx_bind (sx_reads (value_string_bytes (roots' ! 0))) (\<lambda>bytes.
         sx_bind (allocate_then_collect (object_string bytes)) (\<lambda>i.
         sx_then (sx_modify (insert_interned hash i))
         (sx_then (sx_reads validate_intern_table)
         (sx_return i))))))))))"

definition allocate_closure :: "nat \<Rightarrow> nat \<Rightarrow> val list \<Rightarrow> bool list \<Rightarrow> (gcheap, object_id) sx" where
  "allocate_closure layout_index function_index captures capture_map =
     sx_then (sx_throw_if (length captures \<noteq> length capture_map) (Logic_error msg_capture_map_length))
     (sx_bind (sx_lift (object_closure layout_index function_index captures capture_map)) (\<lambda>_.
     sx_bind (collect_before_allocation captures) (\<lambda>captures'.
     allocate_then_collect (object_closure layout_index function_index captures' capture_map))))"

definition allocate_map :: "nat \<Rightarrow> bool \<Rightarrow> bool \<Rightarrow> (gcheap, object_id) sx" where
  "allocate_map layout_index key_is_ref value_is_ref = sx_bind (collect_before_allocation []) (\<lambda>_.
     allocate_then_collect (object_map layout_index key_is_ref value_is_ref))"

definition allocate_weak :: "val \<Rightarrow> (gcheap, object_id) sx" where
  "allocate_weak target =
     sx_then (sx_lift (require_object_reference_value target ctx_weak_target))
     (sx_bind (sx_reads (\<lambda>h. ebind (as_object target) (\<lambda>i. checked_slot i h))) (\<lambda>_.
     sx_bind (collect_before_allocation [target]) (\<lambda>roots.
     allocate_then_collect (object_weak_ref (roots ! 0)))))"

definition allocate_ephemeron :: "val \<Rightarrow> val \<Rightarrow> bool \<Rightarrow> (gcheap, object_id) sx" where
  "allocate_ephemeron key value value_is_ref =
     sx_bind (sx_reads (\<lambda>h. ebind (as_object key) (\<lambda>i. checked_slot i h))) (\<lambda>_.
     sx_bind (if value_is_ref \<and> is_object value
       then sx_reads (\<lambda>h. ebind (as_object value) (\<lambda>i. checked_slot i h)) else sx_return 0) (\<lambda>_.
     sx_bind (collect_before_allocation [key, value]) (\<lambda>roots.
     allocate_then_collect (object_ephemeron (roots ! 0) (roots ! 1) value_is_ref))))"

definition allocate_record :: "nat \<Rightarrow> val list \<Rightarrow> bool list \<Rightarrow> (gcheap, object_id) sx" where
  "allocate_record layout_index fs ref_map =
     sx_then (sx_throw_if (length fs \<noteq> length ref_map) (Logic_error msg_record_map_length))
     (sx_bind (sx_lift (object_record layout_index fs ref_map)) (\<lambda>_.
     sx_bind (collect_before_allocation (masked ref_map fs)) (\<lambda>roots.
     allocate_then_collect (object_record layout_index (put_masked ref_map fs roots) ref_map))))"

definition allocate_variant :: "nat \<Rightarrow> nat \<Rightarrow> val list \<Rightarrow> bool list list \<Rightarrow> (gcheap, object_id) sx" where
  "allocate_variant layout_index case_index fs case_ref_maps =
     sx_bind (sx_lift (object_variant layout_index case_index fs case_ref_maps)) (\<lambda>_.
     sx_bind (collect_before_allocation fs) (\<lambda>roots.
     allocate_then_collect (object_variant layout_index case_index roots case_ref_maps)))"

subsection \<open>Handles\<close>

text \<open>
  A handle is the address of its root slot; the heap keeps the addresses in registration order
  with the values they hold.  \<open>move_handle_root\<close> is called by the move operations of a handle
  after the new handle has copied the value.
\<close>

definition register_handle_root :: "nat \<Rightarrow> val \<Rightarrow> (gcheap, unit) sx" where
  "register_handle_root address v = sx_modify (\<lambda>h. h\<lparr>h_handle_roots := h_handle_roots h @ [(address, v)]\<rparr>)"

fun erase_root :: "nat \<Rightarrow> (nat \<times> val) list \<Rightarrow> (nat \<times> val) list option" where
  "erase_root address [] = None"
| "erase_root address ((a, v) # rest) = (if a = address then Some rest
     else map_option (Cons (a, v)) (erase_root address rest))"

definition deregister_handle_root :: "nat \<Rightarrow> (gcheap, unit) sx" where
  "deregister_handle_root address = sx_bind (sx_gets (\<lambda>h. erase_root address (h_handle_roots h))) (\<lambda>roots.
     case roots of None \<Rightarrow> sx_throw Abort | Some rs \<Rightarrow> sx_modify (\<lambda>h. h\<lparr>h_handle_roots := rs\<rparr>))"

fun rename_root :: "nat \<Rightarrow> nat \<Rightarrow> (nat \<times> val) list \<Rightarrow> (nat \<times> val) list option" where
  "rename_root source target [] = None"
| "rename_root source target ((a, v) # rest) = (if a = source then Some ((target, v) # rest)
     else map_option (Cons (a, v)) (rename_root source target rest))"

definition move_handle_root :: "nat \<Rightarrow> nat \<Rightarrow> (gcheap, unit) sx" where
  "move_handle_root source target = sx_bind (sx_gets (\<lambda>h. rename_root source target (h_handle_roots h))) (\<lambda>roots.
     case roots of None \<Rightarrow> sx_throw Abort | Some rs \<Rightarrow> sx_modify (\<lambda>h. h\<lparr>h_handle_roots := rs\<rparr>))"

definition make_handle :: "nat \<Rightarrow> val \<Rightarrow> (gcheap, unit) sx" where
  "make_handle address v = sx_bind (if is_object v
       then sx_reads (\<lambda>h. ebind (as_object v) (\<lambda>i. checked_slot i h)) else sx_return 0) (\<lambda>_.
     register_handle_root address v)"

definition handle_value :: "nat \<Rightarrow> gcheap \<Rightarrow> val option" where
  "handle_value address h = map_of (h_handle_roots h) address"

subsection \<open>First fit\<close>

text \<open>\<open>free_run h n s\<close>: no object reserves one of the \<open>n\<close> slots from \<open>s\<close> on.\<close>

definition free_run :: "gcheap \<Rightarrow> nat \<Rightarrow> nat \<Rightarrow> bool" where
  "free_run h n s \<longleftrightarrow> s + n \<le> length (h_objects h) \<and>
     (\<forall>t y. holds h t y \<longrightarrow> t + storage_slot_count y \<le> s \<or> s + n \<le> t)"

definition first_fit :: "gcheap \<Rightarrow> nat \<Rightarrow> nat option" where
  "first_fit h n = (if \<exists>s. free_run h n s then Some (LEAST s. free_run h n s) else None)"

lemma first_fit_eqI:
  assumes "free_run h n s" and "\<And>t. t < s \<Longrightarrow> \<not> free_run h n t"
  shows "first_fit h n = Some s"
  using assms by (auto simp: first_fit_def intro!: Least_equality leI)

lemma first_fit_SomeD:
  assumes "first_fit h n = Some s"
  shows "free_run h n s" "t < s \<Longrightarrow> \<not> free_run h n t"
  using assms by (auto simp: first_fit_def split: if_splits intro: LeastI dest: not_less_Least)

lemma free_run_loop_first_fit:
  assumes layout: "layout_ok h" and n: "0 < n" and "base \<le> length (h_objects h)" and "r < n" and "r \<le> base"
    and "\<And>t y. holds h t y \<Longrightarrow> t < base \<Longrightarrow> t + storage_slot_count y \<le> base - r"
    and "\<And>s. s < base - r \<Longrightarrow> \<not> free_run h n s" and "0 < r \<Longrightarrow> start = base - r"
  shows "free_run_loop (h_objects h) n base start r = first_fit h n"
  using assms(3-)
proof (induction "length (h_objects h) - base" arbitrary: base start r rule: less_induct)
  case less
  show ?case
  proof (cases "base < length (h_objects h)")
    case False
    have "\<not> free_run h n s" for s
    proof (cases "s < base - r")
      case False
      then have "base < s + n" using less.prems(2,3) by linarith
      with \<open>\<not> base < length (h_objects h)\<close> less.prems(1) show ?thesis by (simp add: free_run_def)
    qed (rule less.prems(5))
    then have "first_fit h n = None" by (simp add: first_fit_def)
    with False show ?thesis by (simp add: free_run_loop.simps)
  next
    case True
    show ?thesis
    proof (cases "h_objects h ! base")
      case (Some x)
      let ?w = "storage_slot_count x"
      have x: "holds h base x" using True Some by (simp add: holds_def)
      have fits: "base + ?w \<le> length (h_objects h)" using layout x by (simp add: layout_ok_def slot_layout_ok_def)
      have "free_run_loop (h_objects h) n (base + ?w) start 0 = first_fit h n"
      proof (rule less.hyps)
        show "length (h_objects h) - (base + ?w) < length (h_objects h) - base"
          using True storage_slot_count_pos [of x] by linarith
        show "base + ?w \<le> length (h_objects h)" by (rule fits)
      next
        fix t y assume y: "holds h t y" "t < base + ?w"
        show "t + storage_slot_count y \<le> base + ?w - 0"
        proof (cases "t < base")
          case True
          with less.prems(4) [OF y(1)] show ?thesis by linarith
        next
          case False
          then have "t = base" using layout_disjoint [OF layout x y(1)] y(2) by fastforce
          then have "y = x" using holds_unique [OF y(1)] x by simp
          with \<open>t = base\<close> show ?thesis by simp
        qed
      next
        fix s assume s: "s < base + ?w - 0"
        show "\<not> free_run h n s"
        proof (cases "s < base - r")
          case False
          then have "base < s + n" using less.prems(2,3) by linarith
          with x s show ?thesis by (fastforce simp: free_run_def)
        qed (rule less.prems(5))
      qed (use n in simp_all)
      with True Some show ?thesis by (simp add: free_run_loop.simps [of "h_objects h" n base])
    next
      case None
      then have no: "\<not> holds h base y" for y by (simp add: holds_def)
      have start: "(if r = 0 then base else start) = base - r" using less.prems(6) by auto
      show ?thesis
      proof (cases "Suc r = n")
        case full: True
        have "free_run h n (base - r)"
          unfolding free_run_def
        proof (intro conjI allI impI)
          show "base - r + n \<le> length (h_objects h)" using full True less.prems(3) by linarith
          fix t y assume y: "holds h t y"
          with no have "t \<noteq> base" by blast
          then consider "t < base" | "Suc base \<le> t" by linarith
          then show "t + storage_slot_count y \<le> base - r \<or> base - r + n \<le> t"
            using less.prems(3) less.prems(4) [OF y] full by cases auto
        qed
        then have "first_fit h n = Some (base - r)" using less.prems(5) by (rule first_fit_eqI)
        with True None full show ?thesis
          by (simp add: free_run_loop.simps [of "h_objects h" n base] Let_def start)
      next
        case more: False
        have "free_run_loop (h_objects h) n (Suc base) (base - r) (Suc r) = first_fit h n"
        proof (rule less.hyps)
          fix t y assume y: "holds h t y" "t < Suc base"
          with no have "t < base" by (metis less_SucE)
          with less.prems(4) [OF y(1)] show "t + storage_slot_count y \<le> Suc base - Suc r" by simp
        qed (use True more less.prems in simp_all)
        with True None more show ?thesis
          by (simp add: free_run_loop.simps [of "h_objects h" n base] Let_def start)
      qed
    qed
  qed
qed

lemma find_free_storage_run_first_fit:
  assumes "layout_ok h" and "0 < n"
  shows "find_free_storage_run n h = Inr (first_fit h n)"
proof -
  have "free_run_loop (h_objects h) n 0 0 0 = first_fit h n"
    by (rule free_run_loop_first_fit [OF assms]) (use assms in simp_all)
  with assms(2) show ?thesis by (simp add: find_free_storage_run_def)
qed

lemma is_storage_slot_free_run:
  assumes run: "free_run h n s" and "d < n"
  shows "is_storage_slot_free (s + d) h"
proof -
  have less: "s + d < length (h_objects h)" using assms by (simp add: free_run_def)
  have no: "\<not> (t \<le> s + d \<and> s + d < t + storage_slot_count y)" if "holds h t y" for t y
    using run assms(2) that by (fastforce simp: free_run_def)
  have "h_objects h ! (s + d) = None"
  proof (rule ccontr)
    assume "h_objects h ! (s + d) \<noteq> None"
    then obtain y where "holds h (s + d) y" using less by (auto simp: holds_def)
    with no [OF this] storage_slot_count_pos [of y] show False by simp
  qed
  with less no show ?thesis
    by (auto simp: is_storage_slot_free_def list_all_iff holds_def split: option.split)
qed

subsection \<open>What an allocation does\<close>

lemma insert_before_map:
  assumes "sorted_wrt (<) xs" and "s \<notin> set xs" and "\<And>t. t \<in> set xs \<Longrightarrow> key (f t) = t"
  shows "insert_before key s (f s) (map f xs) = map f (insort s xs)"
  using assms by (induction xs) (auto simp: not_less)

lemma kind_slots_sorted: "sorted_wrt (<) (kind_slots k h)"
  by (simp add: kind_slots_def filter_upt_sorted)

lemma written_kind_slots:
  assumes w: "written h s g x h'" and free: "h_objects h ! s = None"
  shows "kind_slots k h' = (if o_kind x = k then insort s (kind_slots k h) else kind_slots k h)" (is "_ = ?r")
proof (rule sorted_distinct_set_unique)
  have new: "s \<notin> set (kind_slots k h)" using free by (simp add: kind_slots_iff holds_def)
  have "\<not> holds h s y" for y using free by (simp add: holds_def)
  then show "set (kind_slots k h') = set ?r"
    by (auto simp: kind_slots_iff written_holds [OF w] written_object_at [OF w] set_insort_key split: if_splits)
  show "sorted ?r" "distinct ?r"
    using new strict_sorted_imp_sorted [OF kind_slots_sorted] by (simp_all add: sorted_insort distinct_insort)
qed (simp_all add: strict_sorted_imp_sorted [OF kind_slots_sorted])

lemma written_registry:
  assumes w: "written h s g x h'" and wf: "heap_wf h" and free: "h_objects h ! s = None"
    and reg: "reg = map (id_at h) (kind_slots k h)"
  shows "map (id_at h') (kind_slots k h') =
    (if o_kind x = k then insert_before slot_index s (object_id_at s g) reg else reg)"
proof -
  have new: "s \<notin> set (kind_slots k h)" using free by (simp add: kind_slots_iff holds_def)
  note id = written_id_at [OF w heap_wfD(3) [OF wf]]
  have old: "map (id_at h') (kind_slots k h) = reg"
    using new by (auto simp: reg id)
  have "slot_index (id_at h t) = t" if "t \<in> set (kind_slots k h)" for t
    using that by (intro id_at_slot_index [OF heap_wfD(1) [OF wf]]) (auto simp: kind_slots_iff dest: holds_less)
  then have slot: "slot_index (id_at h' t) = t" if "t \<in> set (kind_slots k h)" for t
    using that new by (auto simp: id)
  have "insert_before slot_index s (id_at h' s) (map (id_at h') (kind_slots k h)) =
      map (id_at h') (insort s (kind_slots k h))"
    by (rule insert_before_map [where key = slot_index, OF kind_slots_sorted new slot])
  then show ?thesis using old by (simp add: written_kind_slots [OF w free] id)
qed

text \<open>What \<open>allocate_object\<close> needs of the object it is given.\<close>

definition storable :: "gcheap \<Rightarrow> gcobj \<Rightarrow> bool" where
  "storable h x \<longleftrightarrow> shape_ok x \<and> (\<forall>v\<in>set (reference_fields x). valid_ref h v) \<and>
     (o_kind x = Map_kind \<longrightarrow> validate_map_index x h = Inr ()) \<and>
     (o_kind x = WeakRef \<longrightarrow> valid_ref h (o_weak_target x)) \<and>
     (o_kind x = Ephemeron \<longrightarrow> valid_ref h (o_ephemeron_key x) \<and>
       (o_ephemeron_value_is_ref x \<longrightarrow> valid_ref h (o_ephemeron_value x)))"

definition fresh_object :: "gcobj \<Rightarrow> gcobj" where
  "fresh_object x = x\<lparr>o_marked := False, o_generation := Young\<rparr>"

lemma fresh_object_frame [simp]:
  "storage_slot_count (fresh_object x) = storage_slot_count x" "o_kind (fresh_object x) = o_kind x"
  "shape_ok (fresh_object x) = shape_ok x"
  "o_generation (fresh_object x) = Young" "\<not> o_marked (fresh_object x)"
  "validate_map_index (fresh_object x) h = validate_map_index x h"
  "o_weak_target (fresh_object x) = o_weak_target x" "o_ephemeron_key (fresh_object x) = o_ephemeron_key x"
  "o_ephemeron_value_is_ref (fresh_object x) = o_ephemeron_value_is_ref x"
  "o_ephemeron_value (fresh_object x) = o_ephemeron_value x"
  by (simp_all add: fresh_object_def validate_map_index_def)

lemma reference_fields_fresh [simp]: "reference_fields (fresh_object x) = reference_fields x"
  by (cases "o_kind x") (simp_all add: fresh_object_def reference_fields_def selected_ref_map_def)

lemma shape_weak_target: "shape_ok x \<Longrightarrow> o_kind x = WeakRef \<Longrightarrow> reference_tag (o_weak_target x)"
  by (auto simp: validate_descriptor_shape_def shape_weak_ref_def ethen_Inr_iff)

text \<open>The heap after the installation of \<open>x\<close> at a free run.\<close>

definition installed :: "gcheap \<Rightarrow> nat \<Rightarrow> u32 \<Rightarrow> gcobj \<Rightarrow> gcheap" where
  "installed h s g x = (let i = object_id_at s g in h\<lparr>h_generations := (h_generations h)[s := g],
     h_objects := (h_objects h)[s := Some (fresh_object x)],
     h_weak_refs := (if o_kind x = WeakRef then insert_before slot_index s i (h_weak_refs h) else h_weak_refs h),
     h_ephemerons := (if o_kind x = Ephemeron then insert_before slot_index s i (h_ephemerons h) else h_ephemerons h),
     h_mark_worklist := (if h_marking_active h then i # h_mark_worklist h else h_mark_worklist h)\<rparr>)"

lemma installed_frame [simp]:
  "h_remembered_set (installed h s g x) = h_remembered_set h"
  "h_intern_table (installed h s g x) = h_intern_table h" "h_stress (installed h s g x) = h_stress h"
  "h_compaction_active (installed h s g x) = h_compaction_active h"
  "h_marking_active (installed h s g x) = h_marking_active h" "h_roots (installed h s g x) = h_roots h"
  "h_handle_roots (installed h s g x) = h_handle_roots h"
  "h_skip_next_write_barrier (installed h s g x) = h_skip_next_write_barrier h"
  "h_skip_next_incremental_barrier (installed h s g x) = h_skip_next_incremental_barrier h"
  "h_skip_next_intern_processing (installed h s g x) = h_skip_next_intern_processing h"
  by (simp_all add: installed_def Let_def)

lemma install_object_eq:
  assumes "generation_for_new_base (h_generations h ! s) = Inr g"
  shows "install_object x s h = (Inr (object_id_at s g), installed h s g x)"
  using assms by (simp add: install_object_def sx_defs Let_def installed_def fresh_object_def)

lemma installed_written:
  assumes wf: "heap_wf h" and run: "free_run h (storage_slot_count x) s" and x: "storable h x"
    and g: "generation_for_new_base (h_generations h ! s) = Inr g"
  shows "written h s g (fresh_object x) (installed h s g x)" "h_objects h ! s = None"
    "object_id_at s g \<noteq> id_at h s"
proof -
  have s: "s < length (h_objects h)" using run storage_slot_count_pos [of x] unfolding free_run_def by linarith
  then have "h_generations h ! s \<in> set (h_generations h)"
    using heap_wfD(3) [OF wf] by (simp add: generations_ok_def)
  then have "h_generations h ! s \<le> kMaxGeneration" using heap_wfD(3) [OF wf] by (simp add: generations_ok_def)
  note gen = generation_for_new_base_Inr [OF g this]
  show free: "h_objects h ! s = None"
    using is_storage_slot_free_run [OF run storage_slot_count_pos] by (simp add: is_storage_slot_free_def)
  show "written h s g (fresh_object x) (installed h s g x)"
    unfolding written_def
    using s run x gen free by (auto simp: installed_def Let_def free_run_def storable_def holds_def)
  show "object_id_at s g \<noteq> id_at h s"
    using gen(2) by (simp add: id_at_def)
qed

lemma installed_wf:
  assumes wf: "heap_wf h" and run: "free_run h (storage_slot_count x) s" and x: "storable h x"
    and g: "generation_for_new_base (h_generations h ! s) = Inr g"
  shows "heap_wf (installed h s g x)"
proof -
  note w = installed_written [OF assms]
  note D = heap_wfD [OF wf]
  have weak: "h_weak_refs h = map (id_at h) (kind_slots WeakRef h)" using D(7) by (simp add: weak_ok_def)
  have eph: "h_ephemerons h = map (id_at h) (kind_slots Ephemeron h)" using D(9) by (simp add: ephemerons_ok_def)
  show ?thesis
  proof (rule written_wf [OF w(1) wf])
    show "h_weak_refs (installed h s g x) = map (id_at (installed h s g x)) (kind_slots WeakRef (installed h s g x))"
      unfolding written_registry [OF w(1) wf w(2) weak] by (simp add: installed_def Let_def)
    show "h_ephemerons (installed h s g x) = map (id_at (installed h s g x)) (kind_slots Ephemeron (installed h s g x))"
      unfolding written_registry [OF w(1) wf w(2) eph] by (simp add: installed_def Let_def)
  qed (use D(6) x in \<open>auto simp: remembered_ok_def storable_def shape_weak_target\<close>)
qed

text \<open>The heap and base slot that \<open>reserve_storage\<close> leaves.\<close>

definition reserved :: "gcheap \<Rightarrow> nat \<Rightarrow> gcheap \<times> nat" where
  "reserved h n = (case first_fit h n of Some s \<Rightarrow> (h, s) | None \<Rightarrow> (grown n h, length (h_objects h)))"

definition has_room :: "gcheap \<Rightarrow> nat \<Rightarrow> bool" where
  "has_room h n \<longleftrightarrow> first_fit h n \<noteq> None \<or> length (h_objects h) + n \<le> 4294967296"

lemma reserve_storage_eq:
  assumes wf: "heap_wf h" and n: "0 < n"
  shows "reserve_storage n h = (if has_room h n then (Inr (snd (reserved h n)), fst (reserved h n))
    else (Inl (Length_error msg_slot_limit), h))"
proof (cases "first_fit h n")
  case (Some s)
  then show ?thesis
    by (simp add: reserve_storage_def sx_defs find_free_storage_run_first_fit [OF heap_wfD(4) [OF wf] n]
        reserved_def has_room_def)
next
  case None
  have size: "length (h_objects h) \<le> 4294967296" using heap_wfD(1) [OF wf] by (simp add: plain_identities_def)
  then have "(int uint32_max - int (length (h_objects h)) + 1) mod 2 ^ 64 = 4294967296 - int (length (h_objects h))"
    by (subst mod_pos_pos_trivial) (auto simp: uint32_max_def)
  then have "int n > (int uint32_max - int (length (h_objects h)) + 1) mod 2 ^ 64
      \<longleftrightarrow> \<not> length (h_objects h) + n \<le> 4294967296"
    by linarith
  with None show ?thesis
    by (simp add: reserve_storage_def sx_defs find_free_storage_run_first_fit [OF heap_wfD(4) [OF wf] n]
        reserved_def has_room_def grown_def)
qed

lemma reserved_ok:
  assumes wf: "heap_wf h" and n: "0 < n" and room: "has_room h n" and r: "reserved h n = (k, s)"
  shows "heap_wf k" "free_run k n s" "k = h \<or> k = grown n h"
proof -
  show "k = h \<or> k = grown n h" using r by (auto simp: reserved_def split: option.splits)
  have "heap_wf k \<and> free_run k n s"
  proof (cases "first_fit h n")
    case (Some b)
    with r wf first_fit_SomeD(1) [OF Some] show ?thesis by (simp add: reserved_def)
  next
    case None
    with room have "length (h_objects h) + n \<le> 4294967296" by (simp add: has_room_def)
    then have "heap_wf (grown n h)" by (rule grown_wf [OF wf])
    moreover have "free_run (grown n h) n (length (h_objects h))"
      using heap_wfD(4) [OF wf] by (auto simp: free_run_def layout_ok_def slot_layout_ok_def)
    ultimately show ?thesis using None r by (auto simp: reserved_def)
  qed
  then show "heap_wf k" "free_run k n s" by simp_all
qed

lemma storable_grown: "heap_wf h \<Longrightarrow> storable (grown n h) x = storable h x"
  using grown_current [OF heap_wfD(3), of h n]
  by (simp add: storable_def valid_ref_def grown_map_index)

lemma storable_reserved:
  assumes "heap_wf h" and "storable h x" and "reserved h n = (k, s)"
  shows "storable k x"
  using assms by (auto simp: reserved_def storable_grown split: option.splits)

text \<open>\<open>extended h i x h'\<close>: \<open>h'\<close> is \<open>h\<close> with the new object \<open>x\<close> under the new id \<open>i\<close>.\<close>

definition extended :: "gcheap \<Rightarrow> object_id \<Rightarrow> gcobj \<Rightarrow> gcheap \<Rightarrow> bool" where
  "extended h i x h' \<longleftrightarrow> heap_wf h' \<and> \<not> current_slot h i \<and>
     (\<forall>j. current_slot h' j \<longleftrightarrow> j = i \<or> current_slot h j) \<and>
     (\<forall>j. current_slot h j \<longrightarrow> object_at h' (slot_index j) = object_at h (slot_index j)) \<and>
     object_at h' (slot_index i) = fresh_object x \<and>
     h_remembered_set h' = h_remembered_set h \<and> h_intern_table h' = h_intern_table h \<and>
     h_roots h' = h_roots h \<and> h_handle_roots h' = h_handle_roots h \<and> h_stress h' = h_stress h \<and>
     h_marking_active h' = h_marking_active h \<and>
     h_mark_worklist h' = (if h_marking_active h then i # h_mark_worklist h else h_mark_worklist h)"

lemma installed_extended:
  assumes wf: "heap_wf h" and run: "free_run h (storage_slot_count x) s" and x: "storable h x"
    and g: "generation_for_new_base (h_generations h ! s) = Inr g"
  shows "extended h (object_id_at s g) x (installed h s g x)"
proof -
  note w = installed_written [OF assms]
  have s: "slot_index (object_id_at s g) = s"
    using heap_wfD(1) [OF wf] writtenD(1) [OF w(1)]
    by (intro slot_index_object_id_at) (simp add: plain_identities_def)
  have new: "\<not> current_slot h (object_id_at s g)" using w(2) unfolding current_slot_def s by simp
  have at: "slot_index j \<noteq> s" if "current_slot h j" for j using that w(2) by (auto simp: current_slot_def)
  then show ?thesis
    using new written_current [OF w(1) wf] installed_wf [OF assms] written_object_at [OF w(1)] unfolding extended_def s
    by (simp add: installed_def Let_def)
qed

lemma extended_grown:
  assumes wf: "heap_wf h" and e: "extended (grown n h) i x h'"
  shows "extended h i x h'"
proof -
  have "object_at (grown n h) (slot_index j) = object_at h (slot_index j)" if "current_slot h j" for j
    using that by (intro grown_object_at) (simp add: current_slot_def)
  with e grown_current [OF heap_wfD(3) [OF wf]] show ?thesis by (simp add: extended_def)
qed

lemma allocate_object_eq:
  assumes wf: "heap_wf h" and x: "storable h x"
  shows "allocate_object x h = (if has_room h (storage_slot_count x)
    then install_object x (snd (reserved h (storage_slot_count x))) (fst (reserved h (storage_slot_count x)))
    else (Inl (Length_error msg_slot_limit), h))"
proof -
  let ?n = "storage_slot_count x"
  have shape: "shape_ok x" using x by (simp add: storable_def)
  have idle: "\<not> h_compaction_active h" by (rule heap_wfD(2) [OF wf])
  show ?thesis
  proof (cases "has_room h ?n")
    case True
    obtain k s where r: "reserved h ?n = (k, s)" by fastforce
    note run = reserved_ok(2) [OF wf storage_slot_count_pos True r]
    have "list_all (\<lambda>d. is_storage_slot_free (s + d) k) [0..<?n]"
      using is_storage_slot_free_run [OF run] by (simp add: list_all_iff)
    moreover have "s < length (h_objects k)"
      using run storage_slot_count_pos [of x] unfolding free_run_def by linarith
    ultimately show ?thesis
      using True r idle shape reserve_storage_eq [OF wf storage_slot_count_pos, of x]
      by (simp add: allocate_object_def sx_defs Let_def)
  next
    case False
    then show ?thesis
      using idle shape reserve_storage_eq [OF wf storage_slot_count_pos, of x]
      by (simp add: allocate_object_def sx_defs Let_def)
  qed
qed

definition fresh_generations :: "gcheap \<Rightarrow> bool" where
  "fresh_generations h \<longleftrightarrow> (\<forall>g\<in>set (h_generations h). g < kMaxGeneration)"

lemma reserved_generation:
  assumes wf: "heap_wf h" and room: "has_room h n" and n: "0 < n" and r: "reserved h n = (k, s)"
    and fresh: "fresh_generations h"
  obtains g where "generation_for_new_base (h_generations k ! s) = Inr g"
proof -
  have "h_generations k ! s < kMaxGeneration"
  proof (cases "first_fit h n")
    case (Some b)
    then have "k = h" "s < length (h_generations h)"
      using r first_fit_SomeD(1) [OF Some] n heap_wfD(3) [OF wf]
      by (auto simp: reserved_def free_run_def generations_ok_def)
    with fresh show ?thesis by (simp add: fresh_generations_def)
  next
    case None
    then have "h_generations k ! s = 0"
      using r n heap_wfD(3) [OF wf] by (auto simp: reserved_def grown_def generations_ok_def nth_append)
    then show ?thesis by (simp add: kMaxGeneration_def)
  qed
  then obtain g where "generation_for_new_base (h_generations k ! s) = Inr g"
    by (rule generation_for_new_base_ok)
  then show thesis by (rule that)
qed

lemma allocate_object_ok:
  assumes wf: "heap_wf h" and x: "storable h x" and room: "has_room h (storage_slot_count x)"
    and fresh: "fresh_generations h"
  obtains i h' where "allocate_object x h = (Inr i, h')" "extended h i x h'"
proof -
  let ?n = "storage_slot_count x"
  obtain k s where r: "reserved h ?n = (k, s)" by fastforce
  obtain g where g: "generation_for_new_base (h_generations k ! s) = Inr g"
    by (rule reserved_generation [OF wf room storage_slot_count_pos r fresh])
  note k = reserved_ok [OF wf storage_slot_count_pos room r]
  note e = installed_extended [OF k(1,2) storable_reserved [OF wf x r] g]
  have "extended h (object_id_at s g) x (installed k s g x)"
    using k(3) e extended_grown [OF wf] by auto
  moreover have "allocate_object x h = (Inr (object_id_at s g), installed k s g x)"
    using r room install_object_eq [OF g] by (simp add: allocate_object_eq [OF wf x])
  ultimately show thesis by (intro that)
qed

lemma extendedD:
  assumes "extended h i x h'"
  shows "heap_wf h'" "\<not> current_slot h i" "current_slot h' j \<longleftrightarrow> j = i \<or> current_slot h j"
    "current_slot h j \<Longrightarrow> object_at h' (slot_index j) = object_at h (slot_index j)"
    "object_at h' (slot_index i) = fresh_object x" "h_intern_table h' = h_intern_table h"
    "h_stress h' = h_stress h" "h_marking_active h' = h_marking_active h"
    "h_mark_worklist h' = (if h_marking_active h then i # h_mark_worklist h else h_mark_worklist h)"
  using assms by (auto simp: extended_def)

lemma extended_holds:
  assumes e: "extended h i x h'" and wf: "heap_wf h" and y: "holds h' t y"
  shows "(id_at h' t = i \<and> y = fresh_object x) \<or> holds h t y"
proof -
  note D = extendedD [OF e]
  have cur: "current_slot h' (id_at h' t)"
    by (rule generations_ok_current [OF heap_wfD(3,1) [OF D(1)] y])
  have t: "slot_index (id_at h' t) = t" by (rule id_at_slot_index [OF heap_wfD(1) [OF D(1)] holds_less [OF y]])
  consider "id_at h' t = i" | "current_slot h (id_at h' t)" using cur D(3) by blast
  then show ?thesis
  proof cases
    case 1
    then show ?thesis using D(5) t holds_object_at [OF y] by auto
  next
    case 2
    from D(4) [OF 2] current_slot_holds [OF 2] show ?thesis using holds_object_at [OF y] by (simp add: t)
  qed
qed

lemma extended_string_bytes:
  assumes e: "extended h i x h'" and wf: "heap_wf h" and cur: "current_slot h j"
  shows "string_bytes j h' = string_bytes j h"
  using cur extendedD(3,4) [OF e, of j] by (simp add: string_bytes_def checked_string_def checked_kind_def)

lemma sample_wf: "heap_wf sample_heap"
  using collectable_sample by (simp add: collectable_def)

definition sample_gap :: gcheap where
  "sample_gap = empty_heap\<lparr>h_objects := [Some default_object, None, None, Some default_object],
     h_generations := [1, 0, 0, 1]\<rparr>"

lemma sample_gap_wf: "heap_wf sample_gap"
proof -
  have p: "plain_identities sample_gap" by (simp add: plain_identities_def sample_gap_def empty_heap_def)
  have "validate_after_collection sample_gap [] = Inr ()" by code_simp
  moreover have "generations_ok sample_gap"
    by (auto simp: generations_ok_def sample_gap_def holds_def kMaxGeneration_def less_Suc_eq nth_Cons split: nat.splits)
  ultimately show ?thesis using p by (simp add: heap_wf_def validate_after_collection_iff)
qed

text \<open>C24. The first-fit search returns the lowest start of a run of free slots that is long enough, and
  none only when the heap has no such run.\<close>

theorem first_fit_search_is_exact:
  assumes "heap_wf h" and "0 < n"
  shows "\<exists>r. find_free_storage_run n h = Inr r \<and> (case r of
      None \<Rightarrow> \<forall>s. \<not> free_run h n s
    | Some s \<Rightarrow> free_run h n s \<and> (\<forall>t < s. \<not> free_run h n t))"
proof -
  have run: "find_free_storage_run n h = Inr (first_fit h n)"
    by (rule find_free_storage_run_first_fit [OF heap_wfD(4) [OF assms(1)] assms(2)])
  show ?thesis
  proof (cases "first_fit h n")
    case None
    with run show ?thesis by (simp add: first_fit_def split: if_splits)
  next
    case (Some s)
    with run first_fit_SomeD [OF Some] show ?thesis by simp
  qed
qed

lemma first_fit_search_is_exact_witness:
  "find_free_storage_run 2 sample_gap = Inr (Some 1) \<and> free_run sample_gap 2 1 \<and>
   find_free_storage_run 3 sample_gap = Inr None \<and> (\<forall>s. \<not> free_run sample_gap 3 s)"
proof -
  have a: "find_free_storage_run 2 sample_gap = Inr (Some 1)" by code_simp
  have b: "find_free_storage_run 3 sample_gap = Inr None" by code_simp
  have "free_run sample_gap 2 1" using first_fit_search_is_exact [OF sample_gap_wf, of 2] a by auto
  moreover have "\<forall>s. \<not> free_run sample_gap 3 s" using first_fit_search_is_exact [OF sample_gap_wf, of 3] b by auto
  ultimately show ?thesis using a b by blast
qed

text \<open>C13. On a well-formed heap with room \<open>allocate_object\<close> returns an id that named no object before and
  names exactly the given object afterwards, unmarked and young; every other object and id is untouched
  and the heap stays well-formed.  Without room it throws and changes nothing.\<close>

theorem allocation_adds_one_fresh_object:
  assumes "heap_wf h" and "storable h x" and "fresh_generations h"
  shows "if has_room h (storage_slot_count x)
    then \<exists>i h'. allocate_object x h = (Inr i, h') \<and> heap_wf h' \<and> \<not> current_slot h i \<and>
      object_at h' (slot_index i) = x\<lparr>o_marked := False, o_generation := Young\<rparr> \<and>
      (\<forall>j. current_slot h' j \<longleftrightarrow> j = i \<or> current_slot h j) \<and>
      (\<forall>j. current_slot h j \<longrightarrow> object_at h' (slot_index j) = object_at h (slot_index j)) \<and>
      h_roots h' = h_roots h \<and> h_handle_roots h' = h_handle_roots h
    else allocate_object x h = (Inl (Length_error msg_slot_limit), h)"
proof (cases "has_room h (storage_slot_count x)")
  case True
  then obtain i h' where a: "allocate_object x h = (Inr i, h')" "extended h i x h'"
    by (rule allocate_object_ok [OF assms(1,2) _ assms(3)])
  moreover note extendedD [OF a(2)]
  ultimately show ?thesis using True by (simp add: extended_def fresh_object_def)
next
  case False
  then show ?thesis using assms by (simp add: allocate_object_eq)
qed

definition sample_pair :: gcobj where
  "sample_pair = object_pair (VObject (object_id_at 0 1)) (VInt64 4)"

lemma sample_pair_storable: "storable sample_heap sample_pair"
  by (simp add: storable_def sample_pair_def object_pair_shape)
    (simp add: object_pair_def reference_fields_def current_slot_def sample_heap_def sample_objects_def default_object_def)

lemma sample_fresh: "fresh_generations sample_heap"
  using sample_generations(2) by (simp add: fresh_generations_def)

lemma sample_room: "has_room sample_heap n" if "n \<le> 100"
  using that by (simp add: has_room_def sample_heap_def sample_objects_def)

lemma allocation_adds_one_fresh_object_witness:
  "\<exists>i h'. allocate_object sample_pair sample_heap = (Inr i, h') \<and> heap_wf h' \<and>
    o_right (object_at h' (slot_index i)) = VInt64 4"
proof -
  have "storage_slot_count sample_pair \<le> 100" by (simp add: sample_pair_def object_pair_def storage_slot_count_def)
  then obtain i h' where "allocate_object sample_pair sample_heap = (Inr i, h')" "heap_wf h'"
    "object_at h' (slot_index i) = sample_pair\<lparr>o_marked := False, o_generation := Young\<rparr>"
    using allocation_adds_one_fresh_object [OF sample_wf sample_pair_storable sample_fresh] sample_room by auto
  then show ?thesis by (simp add: sample_pair_def object_pair_def)
qed

text \<open>C21. An allocation during incremental marking keeps the marking invariant: the new object is grey, so
  no black object reaches a white one, and every grey id is current.\<close>

theorem allocation_keeps_tricolour:
  assumes "marking_ok h" and "storable h x" and "fresh_generations h" and "has_room h (storage_slot_count x)"
  shows "\<exists>i h'. allocate_object x h = (Inr i, h') \<and> i \<in> set (h_mark_worklist h') \<and>
    \<not> o_marked (object_at h' (slot_index i)) \<and> marking_ok h'"
proof -
  note M = marking_okD [OF assms(1)]
  obtain i h' where a: "allocate_object x h = (Inr i, h')" and e: "extended h i x h'"
    by (rule allocate_object_ok [OF M(1) assms(2,4,3)])
  note D = extendedD [OF e]
  have list: "h_mark_worklist h' = i # h_mark_worklist h" using D(9) M(2) by simp
  have "tricolour h'"
    unfolding tricolour_def
  proof (intro allI impI)
    fix s y j assume y: "holds h' s y" "o_marked y" "VObject j \<in> set (reference_fields y)"
    then have old: "holds h s y" using extended_holds [OF e M(1) y(1)] by auto
    then have "current_slot h j" by (rule fields_validD [OF heap_wfD(5) [OF M(1)] _ y(3)])
    then show "o_marked (object_at h' (slot_index j)) \<or> j \<in> set (h_mark_worklist h')"
      using D(4) M(3) old y(2,3) list by (auto simp: tricolour_def)
  qed
  then have "marking_ok h'" using D(1,3,8) M(2,4) list by (simp add: marking_ok_def)
  then show ?thesis using a D(5) list by auto
qed

lemma allocation_keeps_tricolour_witness:
  "\<exists>i h'. allocate_object default_object sample_marking = (Inr i, h') \<and> marking_ok h'"
proof -
  have "storable sample_marking default_object"
    by (simp add: storable_def) (simp add: default_object_def reference_fields_def validate_descriptor_shape_def
        shape_foreign_payload_def shape_pair_def)
  moreover have "fresh_generations sample_marking"
    using sample_fresh sample_marking_reads(2) by (simp add: fresh_generations_def)
  moreover have "length (h_objects sample_marking) = 7"
    by (simp add: sample_marking_def marking_state_def with_marks_def sample_heap_def sample_objects_def)
  then have "has_room sample_marking (storage_slot_count default_object)"
    by (simp add: has_room_def storage_slot_count_def default_object_def)
  ultimately show ?thesis using allocation_keeps_tricolour [OF sample_marking_ok] by blast
qed

subsection \<open>Interning\<close>

lemma heap_wf_interns:
  assumes wf: "heap_wf h" and T: "interns_ok (h\<lparr>h_intern_table := T\<rparr>)"
  shows "heap_wf (h\<lparr>h_intern_table := T\<rparr>)"
proof -
  let ?k = "h\<lparr>h_intern_table := T\<rparr>"
  note D = heap_wfD [OF wf]
  have cur: "current_slot ?k = current_slot h" and hold: "holds ?k = holds h" and id: "id_at ?k = id_at h"
    and at: "object_at ?k = object_at h" and idx: "validate_map_index m ?k = validate_map_index m h" for m
  proof -
    show c: "current_slot ?k = current_slot h" and o: "object_at ?k = object_at h"
      and "holds ?k = holds h" "id_at ?k = id_at h"
      by (simp_all add: fun_eq_iff current_slot_def holds_def id_at_def object_at_def)
    have "checked_slot i ?k = checked_slot i h" for i by (rule checked_slot_cong) simp_all
    then have "string_bytes i ?k = string_bytes i h" for i
      by (simp add: string_bytes_def checked_string_def checked_kind_def o)
    then have "map_key_hash ?k v = map_key_hash h v" for v by (cases v) simp_all
    then have "map_key_hash ?k = map_key_hash h" by (rule ext)
    then show "validate_map_index m ?k = validate_map_index m h" for m by (simp add: validate_map_index_def)
  qed
  have val: "valid_ref ?k = valid_ref h" by (simp add: fun_eq_iff valid_ref_def cur)
  have slots: "kind_slots k ?k = kind_slots k h" for k
  proof -
    have "is_kind_at k ?k = is_kind_at k h" by (simp add: fun_eq_iff is_kind_at_def)
    then show ?thesis by (simp add: kind_slots_def)
  qed
  have "layout_ok ?k" using D(4) by (simp add: layout_ok_def slot_layout_ok_def hold idx)
  moreover have "weak_ok ?k" "ephemerons_ok ?k"
    using D(7,9) by (simp_all add: weak_ok_def ephemerons_ok_def weak_slot_good_def ephemeron_slot_good_def cur id at val slots)
  moreover have "plain_identities ?k" "generations_ok ?k" "fields_valid ?k" "remembered_ok ?k"
    using D(1,3,5,6) by (simp_all add: plain_identities_def generations_ok_def fields_valid_def remembered_ok_def hold cur id at val)
  ultimately show ?thesis using T by (simp add: heap_wf_def)
qed

lemma lookup_interned_find:
  assumes wf: "heap_wf h" and src: "string_bytes i h = Inr bytes"
    and es: "\<forall>e\<in>set es. intern_entry_ok h e"
  shows "lookup_interned h (string_content_hash bytes) i es =
    Inr (map_option canonical (find (\<lambda>e. o_string_bytes (intern_object h e) = bytes) es))"
  using es
proof (induction es)
  case (Cons e es)
  then have e: "intern_entry_ok h e" by simp
  have "string_equal (canonical e) i h = Inr (o_string_bytes (intern_object h e) = bytes)"
    using intern_entry_bytes [OF e] src by (simp add: string_equal_def)
  moreover have "content_hash_of e = string_content_hash (o_string_bytes (intern_object h e))"
    using e by (simp add: intern_entry_ok_def)
  ultimately show ?case using Cons by auto
qed simp

lemma sorted_wrt_insert_before:
  assumes "sorted_wrt R ys" and "\<And>y z. y \<in> set ys \<Longrightarrow> z \<in> set ys \<Longrightarrow> R y z \<Longrightarrow> key y < key z"
    and "\<And>y. y \<in> set ys \<Longrightarrow> key y < k \<Longrightarrow> R y x" and "\<And>y. y \<in> set ys \<Longrightarrow> \<not> key y < k \<Longrightarrow> R x y"
  shows "sorted_wrt R (insert_before key k x ys)"
  using assms
proof (induction ys)
  case (Cons y ys)
  show ?case
  proof (cases "key y < k")
    case True
    have "sorted_wrt R (insert_before key k x ys)" by (rule Cons.IH) (use Cons.prems in auto)
    then show ?thesis using True Cons.prems by auto
  next
    case False
    have "R x z" if "z \<in> set ys" for z
      using that False Cons.prems(1) Cons.prems(2) [of y z] Cons.prems(4) [of z] by force
    then show ?thesis using False Cons.prems by auto
  qed
qed simp

lemma insert_interned_wf:
  assumes wf: "heap_wf h" and c: "current_slot h c" "string_bytes c h = Inr bytes"
    and new: "\<forall>e\<in>set (h_intern_table h). canonical e \<noteq> c \<and> o_string_bytes (intern_object h e) \<noteq> bytes"
  shows "heap_wf (insert_interned (string_content_hash bytes) c h)"
  unfolding insert_interned_def
proof (rule heap_wf_interns [OF wf])
  let ?e = "\<lparr>content_hash_of = string_content_hash bytes, canonical = c\<rparr>"
  let ?T = "insert_before (slot_index \<circ> canonical) (slot_index c) ?e (h_intern_table h)"
  let ?k = "h\<lparr>h_intern_table := ?T\<rparr>"
  note ok = heap_wfD(8) [OF wf, unfolded interns_ok_iff]
  have shape: "shape_ok (object_at h (slot_index c))"
    by (rule heap_wf_shape [OF wf current_slot_holds [OF c(1)]])
  then have obj: "o_kind (object_at h (slot_index c)) = Str" "o_string_bytes (object_at h (slot_index c)) = bytes"
    using c(2) string_bytes_checked [OF c(1)] by (auto split: if_splits)
  have io: "intern_object ?k = intern_object h" by (simp add: fun_eq_iff intern_object_def object_at_def)
  have iok: "intern_entry_ok ?k = intern_entry_ok h"
    by (simp add: fun_eq_iff intern_entry_ok_def io current_slot_def)
  have diff: "slot_index (canonical e) \<noteq> slot_index c" if "e \<in> set (h_intern_table h)" for e
  proof
    assume "slot_index (canonical e) = slot_index c"
    moreover have "current_slot h (canonical e)" using ok that by (simp add: intern_entry_ok_def)
    ultimately have "canonical e = c" using c(1) current_slot_id_at by metis
    with new that show False by blast
  qed
  have e: "intern_entry_ok h ?e" using c(1) shape obj by (simp add: intern_entry_ok_def intern_object_def)
  have eb: "o_string_bytes (intern_object h ?e) = bytes" using obj by (simp add: intern_object_def)
  show "interns_ok ?k"
    unfolding interns_ok_iff io iok
  proof (intro conjI)
    show "\<forall>e\<in>set (h_intern_table ?k). intern_entry_ok h e" using ok e by simp
    show "sorted_wrt (\<lambda>e e'. slot_index (canonical e) < slot_index (canonical e') \<and>
        o_string_bytes (intern_object h e) \<noteq> o_string_bytes (intern_object h e')) (h_intern_table ?k)"
      (is "sorted_wrt ?R _")
    proof -
      have "sorted_wrt ?R ?T"
      proof (rule sorted_wrt_insert_before)
        show "sorted_wrt ?R (h_intern_table h)" using ok by simp
        show "(slot_index \<circ> canonical) y < (slot_index \<circ> canonical) z" if "?R y z" for y z using that by simp
        show "?R y ?e" if "y \<in> set (h_intern_table h)" "(slot_index \<circ> canonical) y < slot_index c" for y
          using that new eb by simp
        show "?R ?e y" if "y \<in> set (h_intern_table h)" "\<not> (slot_index \<circ> canonical) y < slot_index c" for y
          using that new diff [of y] eb by force
      qed
      then show ?thesis by simp
    qed
  qed
qed

lemma intern_unique:
  assumes "interns_ok h" and "e \<in> set (h_intern_table h)" "e' \<in> set (h_intern_table h)"
    and "o_string_bytes (intern_object h e) = o_string_bytes (intern_object h e')"
  shows "e = e'"
proof (rule ccontr)
  assume "e \<noteq> e'"
  let ?T = "h_intern_table h"
  obtain m n where mn: "m < length ?T" "n < length ?T" "e = ?T ! m" "e' = ?T ! n" "m \<noteq> n"
    using assms(2,3) \<open>e \<noteq> e'\<close> by (metis in_set_conv_nth)
  have ne: "o_string_bytes (intern_object h (?T ! a)) \<noteq> o_string_bytes (intern_object h (?T ! b))"
    if "a < b" "b < length ?T" for a b
    using assms(1) that by (simp add: interns_ok_def interns_ok_upto_def)
  show False using ne [of m n] ne [of n m] mn assms(4) by (metis linorder_neqE_nat)
qed

lemma intern_find:
  assumes "interns_ok h"
  shows "find (\<lambda>e. o_string_bytes (intern_object h e) = bytes) (h_intern_table h) = Some e \<longleftrightarrow>
    e \<in> set (h_intern_table h) \<and> o_string_bytes (intern_object h e) = bytes" (is "find ?P ?T = _ \<longleftrightarrow> _")
proof
  assume "find ?P ?T = Some e"
  then show "e \<in> set ?T \<and> ?P e" by (auto simp: find_Some_iff)
next
  assume e: "e \<in> set ?T \<and> ?P e"
  then have "find ?P ?T \<noteq> None" by (auto simp: find_None_iff)
  then obtain e' where f: "find ?P ?T = Some e'" by blast
  then have "e' \<in> set ?T" "?P e'" by (auto simp: find_Some_iff)
  then have "e' = e" using e by (intro intern_unique [OF assms]) simp_all
  with f show "find ?P ?T = Some e" by simp
qed

lemma enqueue_current:
  assumes "current_slot h c"
  shows "\<exists>W. on_heap_worklist (enqueue_mark_value Major (VObject c)) h = (Inr (), h\<lparr>h_mark_worklist := W\<rparr>)"
proof -
  have "skips_slot Major (slot_index c) h = Inr False"
    using assms by (simp add: skips_slot_def current_slot_def)
  then have "on_heap_worklist (enqueue_mark_value Major (VObject c)) h = (Inr (), h\<lparr>h_mark_worklist :=
      (if o_marked (object_at h (slot_index c)) then h_mark_worklist h else c # h_mark_worklist h)\<rparr>)"
    using assms by (simp add: on_heap_worklist_def enqueue_mark_value_def sx_defs)
  then show ?thesis by blast
qed

lemma string_source:
  assumes wf: "heap_wf h" and s: "string_bytes i h = Inr bytes"
  shows "current_slot h i" "\<exists>x. checked_string i h = Inr x" "length bytes \<le> uint32_max"
proof -
  obtain x where x: "checked_string i h = Inr x" "o_string_bytes x = bytes"
    using s by (auto simp: string_bytes_def ebind_Inr_iff)
  then show "\<exists>x. checked_string i h = Inr x" by blast
  obtain t where "checked_slot i h = Inr t" and k: "o_kind x = Str" "shape_ok x"
    using x(1) by (auto simp: checked_string_def checked_kind_def ebind_Inr_iff ethen_Inr_iff Let_def)
  then show "current_slot h i" using heap_wf_slots [OF wf] by simp
  have "length bytes = unat (o_length x)"
    using k x(2) by (auto simp: validate_descriptor_shape_def shape_str_def ethen_Inr_iff)
  then show "length bytes \<le> uint32_max" using unsigned_less [where ?'a = nat, of "o_length x"] by (simp add: uint32_max_def)
qed

lemma intern_string_found:
  assumes wf: "heap_wf h" and src: "string_bytes i h = Inr bytes"
    and e: "e \<in> set (h_intern_table h)" "o_string_bytes (intern_object h e) = bytes"
  shows "\<exists>W. intern_string (VObject i) h = (Inr (canonical e), h\<lparr>h_mark_worklist := W\<rparr>)"
proof -
  note S = string_source [OF wf src] and D = heap_wfD [OF wf]
  obtain x where x: "checked_string i h = Inr x" using S(2) by blast
  have ok: "\<forall>e\<in>set (h_intern_table h). intern_entry_ok h e" using D(8) by (simp add: interns_ok_iff)
  have cur: "current_slot h (canonical e)" using ok e(1) by (simp add: intern_entry_ok_def)
  have l: "lookup_interned h (string_content_hash bytes) i (h_intern_table h) = Inr (Some (canonical e))"
    using lookup_interned_find [OF wf src ok] intern_find [OF D(8), of bytes e] e by simp
  obtain W where W: "on_heap_worklist (enqueue_mark_value Major (VObject (canonical e))) h = (Inr (), h\<lparr>h_mark_worklist := W\<rparr>)"
    using enqueue_current [OF cur] by blast
  have v: "value_object (canonical e) = Inr (VObject (canonical e))" by (rule generations_ok_value [OF D(3) cur])
  have run: "intern_string (VObject i) h = (Inr (canonical e), if h_marking_active h then h\<lparr>h_mark_worklist := W\<rparr> else h)"
    using D(2) x src l W v
    by (simp add: intern_string_def require_object_reference_value_def sx_defs finish_compaction_with_def
        value_string_bytes_def Let_def)
  show ?thesis
    unfolding run by (rule exI [of _ "if h_marking_active h then W else h_mark_worklist h"]) simp
qed

lemma string_storable:
  assumes "length bytes \<le> uint32_max"
  obtains x where "object_string bytes = Inr x" "storable h x" "o_kind x = Str" "o_string_bytes x = bytes"
    "shape_ok x"
proof -
  obtain x where x: "object_string bytes = Inr x" using assms by (simp add: object_string_def)
  note shape = object_string_shape [OF x]
  have k: "o_kind x = Str" "o_string_bytes x = bytes" using x by (auto simp: object_string_def ethen_Inr_iff)
  then have "storable h x" using shape by (simp add: storable_def reference_fields_def)
  with x k shape show thesis by (intro that)
qed

definition string_room :: "gcheap \<Rightarrow> u8 list \<Rightarrow> bool" where
  "string_room h bytes \<longleftrightarrow> (\<forall>x. object_string bytes = Inr x \<longrightarrow> has_room h (storage_slot_count x))"

definition no_allocation_stress :: "gcheap \<Rightarrow> bool" where
  "no_allocation_stress h \<longleftrightarrow> \<not> collect_before_every_allocation (h_stress h) \<and>
     \<not> collect_after_every_allocation (h_stress h)"

lemma allocate_string_ok:
  assumes wf: "heap_wf h" and fresh: "fresh_generations h" and room: "string_room h bytes"
    and calm: "no_allocation_stress h" and len: "length bytes \<le> uint32_max"
  obtains c h' x where "allocate_then_collect (object_string bytes) h = (Inr c, h')" "extended h c x h'"
    "string_bytes c h' = Inr bytes"
proof -
  obtain x where x: "object_string bytes = Inr x" "storable h x" "o_kind x = Str" "o_string_bytes x = bytes" "shape_ok x"
    by (rule string_storable [OF len])
  obtain c h' where a: "allocate_object x h = (Inr c, h')" "extended h c x h'"
    using allocate_object_ok [OF wf x(2) _ fresh] room x(1) by (auto simp: string_room_def)
  note E = extendedD [OF a(2)]
  have cur: "current_slot h' c" using E(3) by simp
  have "string_bytes c h' = Inr bytes"
    using string_bytes_checked [OF cur] E(5) x by (simp add: fresh_object_def)
  moreover have "allocate_then_collect (object_string bytes) h = (Inr c, h')"
    using x(1) a(1) calm E(7)
    by (simp add: allocate_then_collect_def sx_defs collect_after_allocation_def no_allocation_stress_def)
  ultimately show thesis using a(2) by (intro that)
qed

lemma intern_string_new:
  assumes wf: "heap_wf h" and src: "string_bytes i h = Inr bytes"
    and new: "\<forall>e\<in>set (h_intern_table h). o_string_bytes (intern_object h e) \<noteq> bytes"
    and fresh: "fresh_generations h" and room: "string_room h bytes" and calm: "no_allocation_stress h"
  obtains c h1 x where "extended h c x h1" "string_bytes c h1 = Inr bytes"
    "intern_string (VObject i) h = (Inr c, insert_interned (string_content_hash bytes) c h1)"
    "heap_wf (insert_interned (string_content_hash bytes) c h1)"
proof -
  note S = string_source [OF wf src] and D = heap_wfD [OF wf]
  obtain x where x: "checked_string i h = Inr x" using S(2) by blast
  have ok: "\<forall>e\<in>set (h_intern_table h). intern_entry_ok h e" using D(8) by (simp add: interns_ok_iff)
  have "find (\<lambda>e. o_string_bytes (intern_object h e) = bytes) (h_intern_table h) = None"
    using new by (simp add: find_None_iff)
  then have l: "lookup_interned h (string_content_hash bytes) i (h_intern_table h) = Inr None"
    using lookup_interned_find [OF wf src ok] by simp
  obtain c h1 y where a: "allocate_then_collect (object_string bytes) h = (Inr c, h1)" "extended h c y h1"
    "string_bytes c h1 = Inr bytes"
    by (rule allocate_string_ok [OF wf fresh room calm S(3)])
  note E = extendedD [OF a(2)]
  let ?k = "insert_interned (string_content_hash bytes) c h1"
  have "canonical e \<noteq> c \<and> o_string_bytes (intern_object h1 e) \<noteq> bytes" if "e \<in> set (h_intern_table h)" for e
  proof -
    have "current_slot h (canonical e)" using ok that by (simp add: intern_entry_ok_def)
    with E(2,4) new that show ?thesis by (auto simp: intern_object_def)
  qed
  then have k: "heap_wf ?k"
    by (intro insert_interned_wf [OF E(1) _ a(3)]) (use E(3,6) in simp_all)
  have "intern_string (VObject i) h = (Inr c, ?k)"
    using D(2) x src l a(1) calm heap_wf_validators(4) [OF k]
    by (simp add: intern_string_def require_object_reference_value_def sx_defs finish_compaction_with_def
        value_string_bytes_def Let_def collect_before_allocation_def no_allocation_stress_def)
  with a k show thesis by (intro that)
qed

text \<open>C14. \<open>intern_string\<close> returns a string with the bytes of its argument, and every later call with
  a string of the same bytes returns that same id.\<close>

theorem interning_returns_one_string_per_contents:
  assumes wf: "heap_wf h" and src: "string_bytes i h = Inr bytes"
    and fresh: "fresh_generations h" and room: "string_room h bytes" and calm: "no_allocation_stress h"
  shows "\<exists>c h'. intern_string (VObject i) h = (Inr c, h') \<and> heap_wf h' \<and> string_bytes c h' = Inr bytes \<and>
    (\<forall>j. current_slot h j \<longrightarrow> current_slot h' j \<and> object_at h' (slot_index j) = object_at h (slot_index j)) \<and>
    (\<forall>j. string_bytes j h' = Inr bytes \<longrightarrow> fst (intern_string (VObject j) h') = Inr c)"
proof (cases "\<exists>e\<in>set (h_intern_table h). o_string_bytes (intern_object h e) = bytes")
  case True
  then obtain e where e: "e \<in> set (h_intern_table h)" "o_string_bytes (intern_object h e) = bytes" by blast
  obtain W where W: "intern_string (VObject i) h = (Inr (canonical e), h\<lparr>h_mark_worklist := W\<rparr>)"
    using intern_string_found [OF wf src e] by blast
  let ?k = "h\<lparr>h_mark_worklist := W\<rparr>"
  have same: "same_store h ?k" by simp
  note R = same_store_reads [OF same]
  have k: "heap_wf ?k" using wf heap_wf_cong [OF same] by simp
  have ok: "intern_entry_ok h e" using heap_wfD(8) [OF wf] e(1) by (simp add: interns_ok_iff)
  have "intern_object ?k e = intern_object h e" using R(2) by (simp add: intern_object_def)
  then have "fst (intern_string (VObject j) ?k) = Inr (canonical e)" if "string_bytes j ?k = Inr bytes" for j
    using intern_string_found [OF k that, of e] e by auto
  moreover have "string_bytes (canonical e) ?k = Inr bytes"
    using intern_entry_bytes [OF ok] e(2) R(7) by simp
  ultimately show ?thesis using W k R by auto
next
  case False
  then have new: "\<forall>e\<in>set (h_intern_table h). o_string_bytes (intern_object h e) \<noteq> bytes" by blast
  obtain c h1 x where n: "extended h c x h1" "string_bytes c h1 = Inr bytes"
    "intern_string (VObject i) h = (Inr c, insert_interned (string_content_hash bytes) c h1)"
    "heap_wf (insert_interned (string_content_hash bytes) c h1)"
    by (rule intern_string_new [OF wf src new fresh room calm])
  let ?k = "insert_interned (string_content_hash bytes) c h1"
  let ?e = "\<lparr>content_hash_of = string_content_hash bytes, canonical = c\<rparr>"
  note E = extendedD [OF n(1)]
  have at: "object_at ?k = object_at h1" "current_slot ?k = current_slot h1"
    by (simp_all add: fun_eq_iff object_at_def current_slot_def insert_interned_def)
  have slot: "checked_slot j ?k = checked_slot j h1" for j
    by (rule checked_slot_cong) (simp_all add: insert_interned_def)
  then have sb: "string_bytes j ?k = string_bytes j h1" for j
    by (simp add: string_bytes_def checked_string_def checked_kind_def at)
  have e: "?e \<in> set (h_intern_table ?k)" by (simp add: insert_interned_def)
  have "intern_entry_ok ?k ?e" using heap_wfD(8) [OF n(4)] e by (simp add: interns_ok_iff)
  then have eb: "o_string_bytes (intern_object ?k ?e) = bytes"
    using intern_entry_bytes n(2) sb by fastforce
  have "fst (intern_string (VObject j) ?k) = Inr c" if "string_bytes j ?k = Inr bytes" for j
    using intern_string_found [OF n(4) that e eb] by auto
  then show ?thesis using n E at sb by auto
qed

lemma interning_returns_one_string_per_contents_witness:
  "\<exists>c h'. intern_string (VObject (object_id_at 1 1)) sample_heap = (Inr c, h') \<and> heap_wf h' \<and>
    string_bytes c h' = Inr [97, 98, 99]"
proof -
  have s: "string_bytes (object_id_at 1 1) sample_heap = Inr [97, 98, 99]" by code_simp
  have room: "string_room sample_heap [97, 98, 99]"
    unfolding string_room_def
    by (auto simp: object_string_def ethen_Inr_iff storage_slot_count_def kStorageSlotBytes_def intro!: sample_room)
  have "no_allocation_stress sample_heap"
    by (simp add: no_allocation_stress_def sample_heap_def empty_heap_def default_stress_def)
  then show ?thesis
    using interning_returns_one_string_per_contents [OF sample_wf s sample_fresh room] by blast
qed

subsection \<open>Handles\<close>

lemma erase_root_last: "a \<notin> fst ` set rs \<Longrightarrow> erase_root a (rs @ [(a, v)]) = Some rs"
  by (induction rs) auto

lemma map_of_last: "a \<notin> fst ` set rs \<Longrightarrow> map_of (rs @ [(a, v)]) a = Some v"
  by (induction rs) auto

lemma collectable_handle:
  assumes c: "collectable h []" and i: "current_slot h i"
  shows "collectable (h\<lparr>h_handle_roots := h_handle_roots h @ [(a, VObject i)]\<rparr>) []"
proof -
  let ?k = "h\<lparr>h_handle_roots := h_handle_roots h @ [(a, VObject i)]\<rparr>"
  have same: "same_store h ?k" by (simp add: same_store_def)
  note R = same_store_reads [OF same]
  have "set (collection_roots ?k []) = insert (VObject i) (set (collection_roots h []))"
    by (auto simp: collection_roots_def)
  then have "roots_valid ?k []" using c i R by (simp add: collectable_def roots_valid_def)
  moreover have "marks_clear ?k" using c R by (simp add: collectable_def marks_clear_def)
  ultimately show ?thesis using c heap_wf_cong [OF same] by (simp add: collectable_def)
qed

text \<open>C23. A handle keeps its object alive and up to date: after a collection it holds the id under which
  the object it was made for now lives, with its references forwarded, and releasing it takes away exactly
  the root it registered.\<close>

theorem handle_follows_its_object:
  assumes c: "collectable h []" and i: "current_slot h i" and a: "a \<notin> fst ` set (h_handle_roots h)"
  shows "\<exists>h1 h2 h3 fwd j. make_handle a (VObject i) h = (Inr (), h1) \<and> heap_collect h1 = (Inr (), h2) \<and>
    handle_value a h2 = Some (VObject j) \<and> current_slot h2 j \<and>
    object_at h2 (slot_index j) = final_object fwd (object_at h (slot_index i)) \<and>
    deregister_handle_root a h2 = (Inr (), h3) \<and>
    h_handle_roots h3 = map (apsnd (move_value fwd)) (h_handle_roots h)"
proof -
  let ?h1 = "h\<lparr>h_handle_roots := h_handle_roots h @ [(a, VObject i)]\<rparr>"
  have k: "collectable ?h1 []" by (rule collectable_handle [OF c i])
  have wf: "heap_wf ?h1" and roots: "roots_valid ?h1 []" using k by (simp_all add: collectable_def)
  obtain fwd h2 where r: "collect_impl Major [] ?h1 = (Inr [], h2)"
    "moved_by fwd ?h1 (reachable ?h1 (collection_roots ?h1 [])) h2" "rooted_by fwd ?h1 h2"
    using collect_impl_ok [OF k, of Major] kept_major [OF wf roots] by auto
  have "slot_index i \<in> reachable ?h1 (collection_roots ?h1 [])"
    by (rule reachable.root) (simp add: collection_roots_def)
  then obtain j where j: "forwarded fwd (slot_index i) = Some j" "current_slot h2 j"
    "object_at h2 (slot_index j) = final_object fwd (object_at ?h1 (slot_index i))"
    by (rule moved_by_object [OF r(2)])
  have hr: "h_handle_roots h2 = map (apsnd (move_value fwd)) (h_handle_roots h) @ [(a, VObject j)]"
    using r(3) j(1) by (simp add: rooted_by_def)
  have new: "a \<notin> fst ` set (map (apsnd (move_value fwd)) (h_handle_roots h))" using a by (auto simp: image_image)
  have "make_handle a (VObject i) h = (Inr (), ?h1)"
    using i by (simp add: make_handle_def sx_defs register_handle_root_def)
  moreover have "heap_collect ?h1 = (Inr (), h2)" using r(1) by (simp add: heap_collect_def sx_defs)
  moreover have "handle_value a h2 = Some (VObject j)" using hr map_of_last [OF new] by (simp add: handle_value_def)
  moreover have "object_at ?h1 = object_at h" by (simp add: fun_eq_iff object_at_def)
  moreover have "deregister_handle_root a h2 =
      (Inr (), h2\<lparr>h_handle_roots := map (apsnd (move_value fwd)) (h_handle_roots h)\<rparr>)"
    using hr erase_root_last [OF new] by (simp add: deregister_handle_root_def sx_defs)
  ultimately show ?thesis using j
    by (intro exI [of _ ?h1] exI [of _ h2] exI [of _ "h2\<lparr>h_handle_roots := map (apsnd (move_value fwd)) (h_handle_roots h)\<rparr>"]
        exI [of _ fwd] exI [of _ j]) simp
qed

lemma handle_follows_its_object_witness:
  "\<exists>h1 h2 j. make_handle 64 (VObject (object_id_at 5 1)) sample_heap = (Inr (), h1) \<and>
    heap_collect h1 = (Inr (), h2) \<and> handle_value 64 h2 = Some (VObject j) \<and> current_slot h2 j"
proof -
  have "current_slot sample_heap (object_id_at 5 1)" by (simp add: current_slot_def sample_heap_def sample_objects_def)
  moreover have "64 \<notin> fst ` set (h_handle_roots sample_heap)" by (simp add: sample_heap_def empty_heap_def)
  from handle_follows_its_object [OF collectable_sample calculation this] show ?thesis by blast
qed

text \<open>Every read of an object is a function of the object and of whether its id is current.\<close>

definition reads_alike :: "gcheap \<Rightarrow> object_id \<Rightarrow> gcheap \<Rightarrow> bool" where
  "reads_alike h j h' \<longleftrightarrow> current_slot h' j \<and> object_at h' (slot_index j) = object_at h (slot_index j) \<and>
     heap_left j h' = heap_left j h \<and> heap_right j h' = heap_right j h \<and>
     array_length j h' = array_length j h \<and> (\<forall>n. array_get j n h' = array_get j n h) \<and>
     ref_array_length j h' = ref_array_length j h \<and> (\<forall>n. ref_array_get j n h' = ref_array_get j n h) \<and>
     string_bytes j h' = string_bytes j h \<and> builder_bytes j h' = builder_bytes j h \<and>
     closure_function_index j h' = closure_function_index j h \<and>
     closure_capture_count j h' = closure_capture_count j h \<and>
     (\<forall>n. closure_capture j n h' = closure_capture j n h) \<and>
     map_length j h' = map_length j h \<and> (\<forall>n. map_key_at j n h' = map_key_at j n h) \<and>
     (\<forall>n. map_value_at j n h' = map_value_at j n h) \<and>
     record_field_count j h' = record_field_count j h \<and> (\<forall>n. record_get j n h' = record_get j n h) \<and>
     variant_tag j h' = variant_tag j h \<and> variant_field_count j h' = variant_field_count j h \<and>
     (\<forall>n. variant_get j n h' = variant_get j n h) \<and> weak_get j h' = weak_get j h \<and>
     heap_ephemeron_key j h' = heap_ephemeron_key j h \<and> heap_ephemeron_value j h' = heap_ephemeron_value j h"

lemma reads_alikeI:
  assumes idle: "\<not> h_compaction_active h" "\<not> h_compaction_active h'"
    and cur: "current_slot h j" "current_slot h' j"
    and same: "object_at h' (slot_index j) = object_at h (slot_index j)"
  shows "reads_alike h j h'"
proof -
  have kind: "checked_kind k msg j h' = checked_kind k msg j h" for k msg
    using cur same by (simp add: checked_kind_def)
  note checked = checked_pair_def checked_scalar_array_def checked_ref_array_def checked_string_def
    checked_builder_def checked_closure_def checked_map_def checked_weak_ref_def checked_record_def
    checked_variant_def checked_ephemeron_def
  have read: "canonicalize_incremental_compaction_read h' = canonicalize_incremental_compaction_read h"
    by (rule ext) (use idle in \<open>simp add: canonicalize_incremental_compaction_read_def\<close>)
  show ?thesis
    unfolding reads_alike_def
    by (intro conjI allI cur same;
      simp only: heap_left_def heap_right_def array_length_def array_get_def ref_array_length_def
        ref_array_get_def string_bytes_def builder_bytes_def closure_function_index_def
        closure_capture_count_def closure_capture_def map_length_def map_key_at_def map_value_at_def
        record_field_count_def record_get_def variant_tag_def variant_field_count_def variant_get_def
        weak_get_def heap_ephemeron_key_def heap_ephemeron_value_def checked kind read)
qed

text \<open>C26. With no stress collection, the fields of a freshly allocated pair read back as they were given.
  The id is new, no other id gains or loses its object, and every object allocated before has the
  contents it had, so every read of it (of a pair, an array, a string, a builder, a closure, a map, a
  record, a variant, a weak reference or an ephemeron) gives what it gave.\<close>

theorem allocated_pair_reads_back:
  assumes wf: "heap_wf h" and v: "valid_ref h l" "valid_ref h r" and fresh: "fresh_generations h"
    and room: "has_room h 1" and calm: "no_allocation_stress h"
  shows "\<exists>i h'. allocate_pair l r h = (Inr i, h') \<and> heap_left i h' = Inr l \<and> heap_right i h' = Inr r \<and>
    \<not> current_slot h i \<and> (\<forall>j. current_slot h' j \<longleftrightarrow> j = i \<or> current_slot h j) \<and>
    (\<forall>j. current_slot h j \<longrightarrow> reads_alike h j h')"
proof -
  let ?x = "object_pair l r"
  have x: "storable h ?x" using v by (simp add: storable_def object_pair_shape) (simp add: object_pair_def reference_fields_def)
  have w: "storage_slot_count ?x = 1" by (simp add: object_pair_def storage_slot_count_def)
  obtain i h' where a: "allocate_object ?x h = (Inr i, h')" "extended h i ?x h'"
    using allocate_object_ok [OF wf x _ fresh] room unfolding w by blast
  note E = extendedD [OF a(2)] and idle = heap_wfD(2) [OF wf] heap_wfD(2) [OF E(1)]
  have "allocate_pair l r h = (Inr i, h')"
    using a(1) calm E(7)
    by (simp add: allocate_pair_def collect_before_allocation_def allocate_then_collect_def
        collect_after_allocation_def no_allocation_stress_def sx_defs)
  moreover have "checked_pair i h' = Inr (fresh_object ?x)"
  proof -
    have "o_kind ?x = Pair" by (simp add: object_pair_def)
    moreover have shape: "shape_ok (fresh_object ?x)" by (simp add: object_pair_shape)
    ultimately show ?thesis using E(3) [of i] E(5) by (simp add: checked_pair_def checked_kind_def Let_def shape)
  qed
  then have "heap_left i h' = Inr l" "heap_right i h' = Inr r"
    using idle by (simp_all add: heap_left_def heap_right_def canonicalize_incremental_compaction_read_def
        fresh_object_def object_pair_def)
  moreover have "reads_alike h j h'" if "current_slot h j" for j
    using reads_alikeI [OF idle that] E(3,4) that by blast
  ultimately show ?thesis using E(2,3) by blast
qed

lemma allocated_pair_reads_back_witness:
  "\<exists>i h'. allocate_pair (VObject (object_id_at 0 1)) (VInt64 4) sample_heap = (Inr i, h') \<and>
    heap_right i h' = Inr (VInt64 4)"
proof -
  have v: "valid_ref sample_heap (VObject (object_id_at 0 1))"
    by (simp add: current_slot_def sample_heap_def sample_objects_def)
  have calm: "no_allocation_stress sample_heap"
    by (simp add: no_allocation_stress_def sample_heap_def empty_heap_def default_stress_def)
  have room: "has_room sample_heap 1" by (rule sample_room) simp
  from allocated_pair_reads_back [OF sample_wf v valid_ref_simps(3) sample_fresh room calm, of 4]
  show ?thesis by blast
qed

end
