(* ===== verification/GC_Mutate.thy ===== *)
theory GC_Mutate
  imports GC_Alloc
begin

text \<open>
  Stores into objects (\<open>src/gc/heap.cpp\<close>): the remembered-set barriers, the stores of each object
  kind with their shadow updates and stress collections, map insertion and builder growth with the
  in-place and the relocating path.
\<close>

definition msg_scalar_array_shadow :: string where
  "msg_scalar_array_shadow = ''incremental compaction scalar-array shadow shape drifted''"
definition msg_pair_shadow :: string where
  "msg_pair_shadow = ''incremental compaction pair shadow kind drifted''"
definition msg_ref_array_shadow :: string where
  "msg_ref_array_shadow = ''incremental compaction ref-array shadow shape drifted''"
definition msg_record_shadow :: string where
  "msg_record_shadow = ''incremental compaction record shadow shape drifted''"
definition msg_ephemeron_shadow :: string where
  "msg_ephemeron_shadow = ''incremental compaction ephemeron shadow shape drifted''"
definition msg_map_shadow :: string where
  "msg_map_shadow = ''incremental compaction map shadow shape drifted''"
definition msg_builder_shadow :: string where
  "msg_builder_shadow = ''incremental compaction builder shadow shape drifted''"
definition msg_map_shadow_insert :: string where
  "msg_map_shadow_insert = ''incremental compaction shadow saw width-changing map insert''"
definition ctx_ref_array_store :: string where "ctx_ref_array_store = ''ref array stored value''"
definition ctx_builder_receiver :: string where "ctx_builder_receiver = ''builder mutation receiver''"
definition ctx_builder_operand :: string where "ctx_builder_operand = ''builder append operand''"
definition msg_record_ref_store :: string where
  "msg_record_ref_store = ''record reference field must carry Object or Nil tag''"
definition msg_record_scalar_store :: string where
  "msg_record_scalar_store = ''record scalar field must carry i64 or bool tag''"
definition msg_ephemeron_cleared_store :: string where
  "msg_ephemeron_cleared_store = ''cannot mutate a cleared ephemeron''"
definition msg_ephemeron_ref_store :: string where
  "msg_ephemeron_ref_store = ''ephemeron reference value must be object or nil''"
definition msg_ephemeron_scalar_store :: string where
  "msg_ephemeron_scalar_store = ''ephemeron scalar value must be i64 or bool''"
definition msg_map_growth_limit :: string where
  "msg_map_growth_limit = ''map growth exceeds heap object slot limit''"
definition msg_builder_growth_limit :: string where
  "msg_builder_growth_limit = ''builder growth exceeds heap object slot limit''"
definition msg_map_entry_limit :: string where
  "msg_map_entry_limit = ''map entry count exceeds object header limit''"
definition msg_builder_append_limit :: string where
  "msg_builder_append_limit = ''builder append exceeds object header limit''"
definition msg_builder_no_growth :: string where
  "msg_builder_no_growth = ''builder growth did not increase its logical storage width''"
definition msg_builder_clear_operand :: string where
  "msg_builder_clear_operand = ''builder clear received an unexpected operand''"
definition msg_builder_append_operand :: string where
  "msg_builder_append_operand = ''builder append omitted its string operand''"
definition msg_map_growth_grey :: string where
  "msg_map_growth_grey = ''incremental grey object missing map-growth forwarding entry''"
definition msg_builder_growth_grey :: string where
  "msg_builder_growth_grey = ''incremental grey object missing builder-growth forwarding entry''"

subsection \<open>The remembered-set barriers\<close>

text \<open>The common end of the two barriers: the owner is old and the target young.\<close>

definition remember_owner :: "object_id \<Rightarrow> (gcheap, bool) sx" where
  "remember_owner owner = sx_bind (sx_gets h_skip_next_write_barrier) (\<lambda>skip.
     if skip then sx_then (sx_modify (\<lambda>h. h\<lparr>h_skip_next_write_barrier := False\<rparr>)) (sx_return False)
     else sx_then (record_remembered_object owner) (sx_return True))"

definition record_write_barrier_if_needed :: "object_id \<Rightarrow> val \<Rightarrow> (gcheap, bool) sx" where
  "record_write_barrier_if_needed owner v = (if \<not> is_object v then sx_return False
     else sx_bind (sx_reads (checked_slot owner)) (\<lambda>owner_slot.
       sx_bind (sx_reads (\<lambda>h. ebind (as_object v) (\<lambda>i. checked_slot i h))) (\<lambda>target_slot.
       sx_bind (sx_reads (is_old_slot owner_slot)) (\<lambda>old.
       sx_bind (if old then sx_reads (is_young_slot target_slot) else sx_return False) (\<lambda>must_remember.
       if must_remember then remember_owner owner else sx_return False)))))"

definition targets_young :: "val \<Rightarrow> gcheap \<Rightarrow> exn + bool" where
  "targets_young v h = (if \<not> is_object v then Inr False
     else ebind (as_object v) (\<lambda>i. ebind (checked_slot i h) (\<lambda>slot. is_young_slot slot h)))"

definition record_map_write_barrier_if_needed :: "object_id \<Rightarrow> val option \<Rightarrow> val \<Rightarrow> (gcheap, bool) sx" where
  "record_map_write_barrier_if_needed owner inserted_key v =
     sx_bind (sx_reads (checked_slot owner)) (\<lambda>owner_slot.
     sx_bind (sx_reads (is_old_slot owner_slot)) (\<lambda>old.
     if \<not> old then sx_return False
     else sx_bind (sx_reads (\<lambda>h. case inserted_key of None \<Rightarrow> Inr False | Some k \<Rightarrow> targets_young k h)) (\<lambda>young_key.
       sx_bind (sx_reads (targets_young v)) (\<lambda>young_value.
       if young_key \<or> young_value then remember_owner owner else sx_return False))))"

subsection \<open>Storing\<close>

definition modify_object :: "nat \<Rightarrow> (gcobj \<Rightarrow> gcobj) \<Rightarrow> (gcheap, unit) sx" where
  "modify_object slot f = sx_modify (\<lambda>h. set_object slot (f (object_at h slot)) h)"

text \<open>During an incremental compaction every store is repeated on the shadow of the object.\<close>

definition store_shadow :: "object_id \<Rightarrow> (gcobj \<Rightarrow> bool) \<Rightarrow> string \<Rightarrow> (gcobj \<Rightarrow> gcheap \<Rightarrow> exn + gcobj) \<Rightarrow>
    (gcheap, unit) sx" where
  "store_shadow i shape drifted f = sx_bind (sx_gets h_compaction_active) (\<lambda>compacting.
     sx_when compacting (sx_bind (sx_reads (incremental_compaction_shadow_object i)) (\<lambda>source.
       sx_bind (sx_gets (\<lambda>h. the (h_shadow_objects h ! source))) (\<lambda>shadow.
       sx_then (sx_throw_if (\<not> shape shadow) (Logic_error drifted))
       (sx_bind (sx_reads (f shadow)) (\<lambda>shadow'.
       sx_modify (update_shadow source (\<lambda>_. shadow'))))))))"

definition shadow_value :: "bool \<Rightarrow> val \<Rightarrow> gcheap \<Rightarrow> exn + val" where
  "shadow_value is_reference v h =
     (if is_reference then normalize_incremental_compaction_shadow_value h v else Inr v)"

definition stress_after_barrier :: "bool \<Rightarrow> val list \<Rightarrow> (gcheap, unit) sx" where
  "stress_after_barrier triggered mutation_roots =
     sx_bind (sx_gets (\<lambda>h. collect_minor_after_every_write_barrier (h_stress h))) (\<lambda>stress.
     sx_when (triggered \<and> stress) (sx_bind (collect_impl Minor mutation_roots) (\<lambda>_. sx_return ())))"

datatype pair_field = Left_field | Right_field

definition put_pair_field :: "pair_field \<Rightarrow> val \<Rightarrow> gcobj \<Rightarrow> gcobj" where
  "put_pair_field field v x = (case field of Left_field \<Rightarrow> x\<lparr>o_left := v\<rparr> | Right_field \<Rightarrow> x\<lparr>o_right := v\<rparr>)"

definition store_pair_field :: "object_id \<Rightarrow> pair_field \<Rightarrow> val \<Rightarrow> (gcheap, unit) sx" where
  "store_pair_field i field v0 =
     sx_bind (sx_reads (\<lambda>h. canonicalize_incremental_compaction_read h v0)) (\<lambda>v.
     sx_bind (sx_reads (\<lambda>h. ebind (checked_pair i h) (\<lambda>_. checked_slot i h))) (\<lambda>slot.
     sx_then (incremental_write_barrier_before_publish i v)
     (sx_bind (record_write_barrier_if_needed i v) (\<lambda>triggered.
     sx_then (modify_object slot (put_pair_field field v))
     (sx_then (store_shadow i (\<lambda>s. o_kind s = Pair) msg_pair_shadow
       (\<lambda>s h. ebind (shadow_value True v h) (\<lambda>w. Inr (put_pair_field field w s))))
     (stress_after_barrier triggered []))))))"

definition set_left :: "object_id \<Rightarrow> val \<Rightarrow> (gcheap, unit) sx" where
  "set_left i v = store_pair_field i Left_field v"

definition set_right :: "object_id \<Rightarrow> val \<Rightarrow> (gcheap, unit) sx" where
  "set_right i v = store_pair_field i Right_field v"

definition array_set :: "object_id \<Rightarrow> nat \<Rightarrow> i64 \<Rightarrow> (gcheap, unit) sx" where
  "array_set i index n =
     sx_bind (sx_reads (checked_scalar_array i)) (\<lambda>x.
     sx_bind (sx_reads (checked_slot i)) (\<lambda>slot.
     sx_then (sx_throw_if (index \<ge> length (o_scalar_elements x)) (Out_of_range msg_scalar_array_bounds))
     (sx_then (modify_object slot (\<lambda>x. x\<lparr>o_scalar_elements := (o_scalar_elements x)[index := n]\<rparr>))
     (store_shadow i (\<lambda>s. o_kind s = ScalarArray \<and> index < length (o_scalar_elements s))
       msg_scalar_array_shadow
       (\<lambda>s h. Inr (s\<lparr>o_scalar_elements := (o_scalar_elements s)[index := n]\<rparr>))))))"

definition store_ref_array_element :: "object_id \<Rightarrow> nat \<Rightarrow> val \<Rightarrow> (gcheap, unit) sx" where
  "store_ref_array_element i index v0 =
     sx_then (sx_lift (require_object_reference_value v0 ctx_ref_array_store))
     (sx_bind (sx_reads (\<lambda>h. canonicalize_incremental_compaction_read h v0)) (\<lambda>v.
     sx_bind (sx_reads (checked_ref_array i)) (\<lambda>x.
     sx_bind (sx_reads (checked_slot i)) (\<lambda>slot.
     sx_then (sx_throw_if (index \<ge> length (o_ref_elements x)) (Out_of_range msg_ref_array_bounds))
     (sx_then (incremental_write_barrier_before_publish i v)
     (sx_bind (record_write_barrier_if_needed i v) (\<lambda>triggered.
     sx_then (modify_object slot (\<lambda>x. x\<lparr>o_ref_elements := (o_ref_elements x)[index := v]\<rparr>))
     (sx_then (store_shadow i (\<lambda>s. o_kind s = RefArray \<and> index < length (o_ref_elements s)) msg_ref_array_shadow
       (\<lambda>s h. ebind (shadow_value True v h) (\<lambda>w. Inr (s\<lparr>o_ref_elements := (o_ref_elements s)[index := w]\<rparr>))))
     (stress_after_barrier triggered [])))))))))"

definition ref_array_set :: "object_id \<Rightarrow> nat \<Rightarrow> val \<Rightarrow> (gcheap, unit) sx" where
  "ref_array_set i index v = store_ref_array_element i index v"

text \<open>The check of a stored value: a reference must name a live object and is read through the forwarding.\<close>

definition check_stored_value :: "bool \<Rightarrow> string \<Rightarrow> string \<Rightarrow> val \<Rightarrow> gcheap \<Rightarrow> exn + val" where
  "check_stored_value is_reference ref_msg scalar_msg v h =
     (if is_reference
      then ethen (ethrow_if (\<not> reference_tag v) (Logic_error ref_msg))
        (if is_object v
         then ebind (as_object v) (\<lambda>i. ebind (checked_slot i h) (\<lambda>_.
           canonicalize_incremental_compaction_read h v))
         else Inr v)
      else ethen (ethrow_if (\<not> scalar_tag v) (Logic_error scalar_msg)) (Inr v))"

definition barriers_if_reference :: "bool \<Rightarrow> object_id \<Rightarrow> val \<Rightarrow> (gcheap, bool) sx" where
  "barriers_if_reference is_reference i v = sx_then
     (sx_when is_reference (incremental_write_barrier_before_publish i v))
     (if is_reference then record_write_barrier_if_needed i v else sx_return False)"

definition store_record_field :: "object_id \<Rightarrow> nat \<Rightarrow> val \<Rightarrow> (gcheap, unit) sx" where
  "store_record_field i index v0 =
     sx_bind (sx_lift (value_object i)) (\<lambda>owner.
     sx_bind (sx_reads (checked_record i)) (\<lambda>x.
     sx_bind (sx_reads (checked_slot i)) (\<lambda>slot.
     sx_then (sx_throw_if (index \<ge> length (o_record_fields x)) (Out_of_range msg_record_bounds))
     (let is_reference = o_record_ref_map x ! index in
     sx_bind (sx_reads (check_stored_value is_reference msg_record_ref_store msg_record_scalar_store v0)) (\<lambda>v.
     sx_bind (barriers_if_reference is_reference i v) (\<lambda>triggered.
     sx_then (modify_object slot (\<lambda>x. x\<lparr>o_record_fields := (o_record_fields x)[index := v]\<rparr>))
     (sx_then (sx_reads (\<lambda>h. validate_descriptor_shape (object_at h slot)))
     (sx_then (store_shadow i (\<lambda>s. o_kind s = Record_kind \<and> index < length (o_record_fields s) \<and>
         o_record_ref_map s ! index = is_reference) msg_record_shadow
       (\<lambda>s h. ebind (shadow_value is_reference v h) (\<lambda>w.
          Inr (s\<lparr>o_record_fields := (o_record_fields s)[index := w]\<rparr>))))
     (stress_after_barrier triggered [owner, v])))))))))"

definition record_set :: "object_id \<Rightarrow> nat \<Rightarrow> val \<Rightarrow> (gcheap, unit) sx" where
  "record_set i index v = store_record_field i index v"

definition store_ephemeron_value :: "object_id \<Rightarrow> val \<Rightarrow> (gcheap, unit) sx" where
  "store_ephemeron_value i v0 =
     sx_bind (sx_lift (value_object i)) (\<lambda>owner.
     sx_bind (sx_reads (checked_ephemeron i)) (\<lambda>x.
     sx_bind (sx_reads (checked_slot i)) (\<lambda>slot.
     sx_then (sx_throw_if (tag (o_ephemeron_key x) = Tag_Nil) (Logic_error msg_ephemeron_cleared_store))
     (let is_reference = o_ephemeron_value_is_ref x in
     sx_bind (sx_reads (check_stored_value is_reference msg_ephemeron_ref_store msg_ephemeron_scalar_store v0)) (\<lambda>v.
     sx_bind (barriers_if_reference is_reference i v) (\<lambda>triggered.
     sx_then (modify_object slot (\<lambda>x. x\<lparr>o_ephemeron_value := v\<rparr>))
     (sx_then (store_shadow i (\<lambda>s. o_kind s = Ephemeron \<and> o_ephemeron_value_is_ref s = is_reference)
       msg_ephemeron_shadow
       (\<lambda>s h. ebind (shadow_value (o_ephemeron_value_is_ref s) v h) (\<lambda>w. Inr (s\<lparr>o_ephemeron_value := w\<rparr>))))
     (stress_after_barrier triggered [owner, v]))))))))"

definition ephemeron_set_value :: "object_id \<Rightarrow> val \<Rightarrow> (gcheap, unit) sx" where
  "ephemeron_set_value i v = store_ephemeron_value i v"

subsection \<open>Growth of maps and builders\<close>

text \<open>
  The slots after the object that the growth needs are free: the loop over
  \<open>owner_slot + current_width .. min (objects_.size()) (owner_slot + required_width)\<close>.
\<close>

definition adjacent_run_is_free :: "nat \<Rightarrow> nat \<Rightarrow> nat \<Rightarrow> gcheap \<Rightarrow> bool" where
  "adjacent_run_is_free owner_slot current_width required_width h \<longleftrightarrow>
     list_all (\<lambda>slot. is_storage_slot_free slot h)
       [owner_slot + current_width..<min (length (h_objects h)) (owner_slot + required_width)]"

definition extend_storage :: "nat \<Rightarrow> gcheap \<Rightarrow> gcheap" where
  "extend_storage new_size h = (if new_size > length (h_objects h)
     then h\<lparr>h_objects := h_objects h @ replicate (new_size - length (h_objects h)) None,
       h_generations := h_generations h @ replicate (new_size - length (h_generations h)) 0\<rparr>
     else h)"

text \<open>The forwarding table that leaves every object but the growing one in place.\<close>

definition growth_forwarding :: "nat \<Rightarrow> object_id \<Rightarrow> gcheap \<Rightarrow> forwarding_table" where
  "growth_forwarding old_slot new_id h = (map (\<lambda>slot. case h_objects h ! slot of None \<Rightarrow> None
     | Some _ \<Rightarrow> Some (id_at h slot)) [0..<length (h_objects h)])[old_slot := Some new_id]"

definition forward_grey :: "string \<Rightarrow> forwarding_table \<Rightarrow> gcheap \<Rightarrow> object_id \<Rightarrow> exn + object_id" where
  "forward_grey missing fwd h grey = ebind (checked_slot grey h) (\<lambda>grey_slot.
     case forwarded fwd grey_slot of None \<Rightarrow> Inl (Logic_error missing) | Some j \<Rightarrow> Inr j)"

definition install_growth :: "gcobj option list \<Rightarrow> u32 list \<Rightarrow> object_id list \<Rightarrow> object_id list \<Rightarrow>
    intern_entry list \<Rightarrow> object_id list \<Rightarrow> gcheap \<Rightarrow> gcheap" where
  "install_growth objs gens remembered weak interns ephs h = h\<lparr>h_objects := objs, h_generations := gens,
     h_remembered_set := remembered, h_weak_refs := weak, h_intern_table := interns, h_ephemerons := ephs\<rparr>"

text \<open>The relocation of \<open>relocate_map_for_growth\<close> and \<open>relocate_builder_for_growth\<close>, between their checks.\<close>

definition relocate_for_growth :: "string \<Rightarrow> string \<Rightarrow> object_id \<Rightarrow> val list \<Rightarrow> nat \<Rightarrow> (gcheap, val list) sx" where
  "relocate_for_growth limit grey_missing old_id growth_roots required_width =
     sx_bind (sx_reads (checked_slot old_id)) (\<lambda>old_slot.
     sx_bind (sx_gets (\<lambda>h. length (h_objects h))) (\<lambda>old_size.
     sx_then (sx_throw_if (old_size > uint32_max \<or> required_width > uint32_max - old_size + 1) (Length_error limit))
     (sx_bind (sx_reads (\<lambda>h. generation_for_new_base ((h_generations h @ replicate required_width 0) ! old_size))) (\<lambda>g.
     let new_slot = old_size; new_id = object_id_at new_slot g in
     sx_bind (sx_gets (growth_forwarding old_slot new_id)) (\<lambda>fwd.
     sx_bind (sx_gets (\<lambda>h. ((h_objects h @ replicate required_width None)
         [old_slot := None, new_slot := Some (object_at h old_slot)],
       (h_generations h @ replicate required_width 0)[new_slot := g]))) (\<lambda>(objs, gens).
     sx_bind (sx_reads (\<lambda>h. rewrite_remembered_set h fwd)) (\<lambda>remembered.
     sx_bind (rewrite_references fwd objs growth_roots) (\<lambda>(growth_roots', objs1).
     sx_bind (sx_reads (\<lambda>h. process_weak_targets h fwd objs1)) (\<lambda>(objs2, weak).
     sx_bind (process_intern_table fwd False) (\<lambda>interns.
     sx_bind (sx_reads (\<lambda>h. process_ephemerons h fwd objs2)) (\<lambda>(objs3, ephs).
     sx_bind (sx_gets h_marking_active) (\<lambda>marking.
     sx_then (sx_when marking (sx_bind (sx_reads (\<lambda>h. emap (forward_grey grey_missing fwd h) (h_mark_worklist h)))
       (\<lambda>worklist. sx_modify (\<lambda>h. h\<lparr>h_mark_worklist := worklist\<rparr>))))
     (sx_then (sx_modify (install_growth objs3 gens remembered weak interns ephs))
     (sx_then (sx_reads validate_heap_storage_layout)
     (sx_then (sx_reads validate_remembered_set)
     (sx_then (sx_reads validate_weak_targets)
     (sx_then (sx_reads validate_intern_table)
     (sx_then (sx_reads validate_ephemerons)
     (sx_return growth_roots')))))))))))))))))))"

definition relocate_map_for_growth :: "val list \<Rightarrow> nat \<Rightarrow> (gcheap, val list) sx" where
  "relocate_map_for_growth growth_roots required_width =
     sx_then (sx_reads validate_weak_targets)
     (sx_then (sx_reads validate_intern_table)
     (sx_bind (sx_lift (as_object (growth_roots ! 0))) (\<lambda>old_id.
     relocate_for_growth msg_map_growth_limit msg_map_growth_grey old_id growth_roots required_width)))"

text \<open>\<open>growth_roots\<close> are the owner, the key and the value; the owner may be moved.\<close>

definition ensure_map_growth_storage :: "val list \<Rightarrow> nat \<Rightarrow> (gcheap, val list) sx" where
  "ensure_map_growth_storage growth_roots required_width =
     sx_bind (sx_lift (as_object (growth_roots ! 0))) (\<lambda>owner.
     sx_bind (sx_reads (checked_slot owner)) (\<lambda>owner_slot.
     sx_bind (sx_reads (checked_map owner)) (\<lambda>m.
     let current_width = storage_slot_count m in
     sx_then (sx_assert (required_width = current_width + 2))
     (sx_bind (sx_gets (adjacent_run_is_free owner_slot current_width required_width)) (\<lambda>free.
     if \<not> free then relocate_map_for_growth growth_roots required_width
     else sx_then (sx_modify (extend_storage (owner_slot + required_width)))
       (sx_return growth_roots))))))"

definition relocate_builder_for_growth :: "val list \<Rightarrow> nat \<Rightarrow> (gcheap, val list) sx" where
  "relocate_builder_for_growth growth_roots required_width =
     sx_then (sx_reads validate_heap_storage_layout)
     (sx_then (sx_reads validate_remembered_set)
     (sx_then (sx_reads validate_weak_targets)
     (sx_then (sx_reads validate_intern_table)
     (sx_then (sx_reads validate_ephemerons)
     (sx_bind (sx_lift (as_object (growth_roots ! 0))) (\<lambda>old_id.
     relocate_for_growth msg_builder_growth_limit msg_builder_growth_grey old_id growth_roots required_width))))))"

definition ensure_builder_growth_storage :: "val list \<Rightarrow> nat \<Rightarrow> (gcheap, val list) sx" where
  "ensure_builder_growth_storage growth_roots required_width =
     sx_bind (sx_lift (as_object (growth_roots ! 0))) (\<lambda>owner.
     sx_bind (sx_reads (checked_slot owner)) (\<lambda>owner_slot.
     sx_bind (sx_reads (checked_builder owner)) (\<lambda>b.
     let current_width = storage_slot_count b in
     sx_then (sx_throw_if (required_width \<le> current_width) (Logic_error msg_builder_no_growth))
     (sx_bind (sx_gets (adjacent_run_is_free owner_slot current_width required_width)) (\<lambda>free.
     if \<not> free then relocate_builder_for_growth growth_roots required_width
     else sx_then (sx_modify (extend_storage (owner_slot + required_width)))
       (sx_return growth_roots))))))"

subsection \<open>Maps\<close>

text \<open>The entry that \<open>store_map_entry\<close> appends, with the index rebuilt when its capacity changes.\<close>

definition insert_map_entry :: "val \<Rightarrow> val \<Rightarrow> gcobj \<Rightarrow> gcheap \<Rightarrow> exn + gcobj" where
  "insert_map_entry key v m h = (let entries = o_map_entries m; n = length entries in
     ebind (map_lookup_index_capacity (n + 1)) (\<lambda>desired.
     ebind (map_key_hash h key) (\<lambda>hash.
     ebind (if length (o_map_lookup_index m) \<noteq> desired
       then build_map_lookup_index (map_key_hash h) entries desired
       else Inr (o_map_lookup_index m)) (\<lambda>index.
     ebind (place_entry index hash n) (\<lambda>index'.
     Inr (m\<lparr>o_map_entries := entries @ [\<lparr>e_key = key, e_value = v\<rparr>], o_length := of_nat (n + 1),
       o_map_lookup_index := index'\<rparr>))))))"

definition put_map_value :: "nat \<Rightarrow> val \<Rightarrow> gcobj \<Rightarrow> gcobj" where
  "put_map_value e v m = m\<lparr>o_map_entries := (o_map_entries m)[e := (o_map_entries m ! e)\<lparr>e_value := v\<rparr>]\<rparr>"

text \<open>The part of \<open>store_map_entry\<close> that makes room for a new entry.\<close>

definition make_map_room :: "val list \<Rightarrow> (gcheap, val list) sx" where
  "make_map_room roots =
     sx_bind (finish_compaction_with roots) (\<lambda>roots'.
     sx_bind (sx_reads (\<lambda>h. ebind (as_object (roots' ! 0)) (\<lambda>i. checked_map i h))) (\<lambda>before.
     sx_then (sx_throw_if (length (o_map_entries before) \<ge> uint32_max) (Length_error msg_map_entry_limit))
     (ensure_map_growth_storage roots' (storage_slot_count before + 2))))"

definition canonical_map_operand :: "(gcobj \<Rightarrow> bool) \<Rightarrow> object_id \<Rightarrow> val \<Rightarrow> gcheap \<Rightarrow> exn + val" where
  "canonical_map_operand is_reference owner v h = (if \<not> h_compaction_active h then Inr v
     else ebind (checked_map owner h) (\<lambda>m.
       if is_reference m then canonicalize_incremental_compaction_read h v else Inr v))"

definition write_map_entry :: "object_id \<Rightarrow> nat option \<Rightarrow> val \<Rightarrow> val \<Rightarrow> (gcheap, unit) sx" where
  "write_map_entry owner existing key v =
     sx_bind (sx_reads (checked_map owner)) (\<lambda>m.
     sx_bind (sx_reads (checked_slot owner)) (\<lambda>slot.
     sx_then (case existing of
         Some e \<Rightarrow> modify_object slot (put_map_value e v)
       | None \<Rightarrow> sx_bind (sx_reads (insert_map_entry key v m)) (\<lambda>m'. modify_object slot (\<lambda>_. m')))
     (sx_then (sx_reads (\<lambda>h. validate_descriptor_shape (object_at h slot)))
     (sx_reads (\<lambda>h. validate_map_index (object_at h slot) h)))))"

definition store_map_shadow :: "object_id \<Rightarrow> nat option \<Rightarrow> val \<Rightarrow> (gcheap, unit) sx" where
  "store_map_shadow owner existing v = sx_bind (sx_gets h_compaction_active) (\<lambda>compacting.
     sx_when compacting (case existing of
         None \<Rightarrow> sx_throw (Logic_error msg_map_shadow_insert)
       | Some e \<Rightarrow> store_shadow owner (\<lambda>s. o_kind s = Map_kind \<and> e < length (o_map_entries s)) msg_map_shadow
           (\<lambda>s h. ebind (shadow_value (o_map_value_is_ref s) v h) (\<lambda>w. Inr (put_map_value e w s)))))"

text \<open>The part of \<open>store_map_entry\<close> from the barriers on.\<close>

definition publish_map_entry :: "object_id \<Rightarrow> nat option \<Rightarrow> val \<Rightarrow> val \<Rightarrow> (gcheap, unit) sx" where
  "publish_map_entry owner existing key v =
     sx_then (incremental_write_barrier_before_publish owner key)
     (sx_then (incremental_write_barrier_before_publish owner v)
     (sx_bind (record_map_write_barrier_if_needed owner (if existing = None then Some key else None) v)
       (\<lambda>triggered.
     sx_then (write_map_entry owner existing key v)
     (sx_then (store_map_shadow owner existing v)
     (sx_bind (sx_gets (\<lambda>h. collect_minor_after_every_write_barrier (h_stress h))) (\<lambda>stress.
     if triggered \<and> stress
     then sx_bind (sx_lift (value_object owner)) (\<lambda>owner_value.
       sx_bind (collect_impl Minor [owner_value, key, v]) (\<lambda>_. sx_return ()))
     else sx_then (sx_reads validate_heap_storage_layout) (sx_reads validate_remembered_set)))))))"

definition store_map_entry :: "object_id \<Rightarrow> val \<Rightarrow> val \<Rightarrow> (gcheap, unit) sx" where
  "store_map_entry i key0 value0 =
     sx_bind (sx_lift (value_object i)) (\<lambda>owner0.
     sx_bind (sx_reads (find_map_entry i key0)) (\<lambda>existing.
     sx_then (sx_reads (\<lambda>h. ebind (checked_map i h) (\<lambda>m. validate_map_value m value0 h)))
     (sx_bind (if existing = None then make_map_room [owner0, key0, value0]
       else sx_return [owner0, key0, value0]) (\<lambda>roots.
     sx_bind (sx_lift (as_object (roots ! 0))) (\<lambda>owner.
     sx_bind (sx_reads (canonical_map_operand o_map_key_is_ref owner (roots ! 1))) (\<lambda>key.
     sx_bind (sx_reads (canonical_map_operand o_map_value_is_ref owner (roots ! 2))) (\<lambda>v.
     publish_map_entry owner existing key v)))))))"

definition map_set :: "object_id \<Rightarrow> val \<Rightarrow> val \<Rightarrow> (gcheap, unit) sx" where
  "map_set i key v = store_map_entry i key v"

subsection \<open>Builders\<close>

definition builder_shadow :: "object_id \<Rightarrow> nat \<Rightarrow> (gcheap, unit) sx" where
  "builder_shadow owner slot = sx_bind (sx_gets (\<lambda>h. object_at h slot)) (\<lambda>b.
     store_shadow owner (\<lambda>s. o_kind s = Builder \<and> o_builder_capacity s = o_builder_capacity b) msg_builder_shadow
       (\<lambda>s h. let s' = s\<lparr>o_builder_bytes := o_builder_bytes b, o_length := o_length b\<rparr> in
          ethen (validate_descriptor_shape s') (Inr s')))"

definition builder_clear :: "object_id \<Rightarrow> (gcheap, unit) sx" where
  "builder_clear i = sx_bind (sx_lift (value_object i)) (\<lambda>owner0.
     sx_then (sx_lift (require_object_reference_value owner0 ctx_builder_receiver))
     (sx_bind (sx_reads (\<lambda>h. canonicalize_incremental_compaction_read h owner0)) (\<lambda>v.
     sx_bind (sx_lift (as_object v)) (\<lambda>owner.
     sx_bind (sx_reads (checked_builder owner)) (\<lambda>_.
     sx_bind (sx_reads (checked_slot owner)) (\<lambda>slot.
     sx_then (modify_object slot (\<lambda>b. b\<lparr>o_builder_bytes := [], o_length := 0\<rparr>))
     (sx_then (sx_reads (\<lambda>h. validate_descriptor_shape (object_at h slot)))
     (sx_then (builder_shadow owner slot)
     (sx_reads validate_heap_storage_layout)))))))))"

text \<open>The growth of a builder whose capacity is too small; yields the owner, the operand and the length.\<close>

definition grow_builder :: "val \<Rightarrow> val \<Rightarrow> (gcheap, val list \<times> nat) sx" where
  "grow_builder owner source =
     sx_bind (finish_compaction_with [owner, source]) (\<lambda>roots.
     sx_bind (sx_reads (\<lambda>h. ebind (as_object (roots ! 1)) (\<lambda>i. checked_string i h))) (\<lambda>s.
     sx_bind (sx_reads (\<lambda>h. ebind (as_object (roots ! 0)) (\<lambda>i. checked_builder i h))) (\<lambda>b.
     let required = unat (o_length b) + unat (o_length s) in
     sx_bind (sx_lift (builder_capacity_for_required (o_builder_capacity b) required)) (\<lambda>capacity.
     let required_width = 1 + (unat capacity + kStorageSlotBytes - 1) div kStorageSlotBytes in
     sx_bind (ensure_builder_growth_storage roots required_width) (\<lambda>roots'.
     sx_bind (sx_lift (as_object (roots' ! 0))) (\<lambda>i.
     sx_bind (sx_reads (checked_builder i)) (\<lambda>_.
     sx_bind (sx_reads (checked_slot i)) (\<lambda>slot.
     sx_then (modify_object slot (\<lambda>b. b\<lparr>o_builder_capacity := capacity\<rparr>))
     (sx_then (sx_reads (\<lambda>h. validate_descriptor_shape (object_at h slot)))
     (sx_return (roots', required)))))))))))"

definition append_bytes :: "val \<Rightarrow> val \<Rightarrow> nat \<Rightarrow> (gcheap, unit) sx" where
  "append_bytes owner source required =
     sx_bind (sx_lift (as_object owner)) (\<lambda>i.
     sx_bind (sx_reads (checked_builder i)) (\<lambda>_.
     sx_bind (sx_reads (checked_slot i)) (\<lambda>slot.
     sx_bind (sx_reads (\<lambda>h. ebind (as_object source) (\<lambda>j. checked_string j h))) (\<lambda>s.
     sx_then (modify_object slot (\<lambda>b. b\<lparr>o_builder_bytes := o_builder_bytes b @ o_string_bytes s,
       o_length := of_nat required\<rparr>))
     (sx_then (sx_reads (\<lambda>h. validate_descriptor_shape (object_at h slot)))
     (sx_then (builder_shadow i slot)
     (sx_reads validate_heap_storage_layout)))))))"

definition builder_append :: "object_id \<Rightarrow> val \<Rightarrow> (gcheap, unit) sx" where
  "builder_append i source0 = sx_bind (sx_lift (value_object i)) (\<lambda>owner0.
     sx_then (sx_lift (require_object_reference_value owner0 ctx_builder_receiver))
     (sx_bind (sx_reads (\<lambda>h. canonicalize_incremental_compaction_read h owner0)) (\<lambda>owner.
     sx_then (sx_lift (require_object_reference_value source0 ctx_builder_operand))
     (sx_bind (sx_reads (\<lambda>h. canonicalize_incremental_compaction_read h source0)) (\<lambda>source.
     sx_bind (sx_reads (\<lambda>h. ebind (as_object source) (\<lambda>j. checked_string j h))) (\<lambda>s.
     sx_bind (sx_reads (\<lambda>h. ebind (as_object owner) (\<lambda>j. checked_builder j h))) (\<lambda>before.
     sx_then (sx_throw_if (unat (o_length s) > uint32_max - unat (o_length before))
       (Length_error msg_builder_append_limit))
     (let required = unat (o_length before) + unat (o_length s) in
     sx_bind (if required > unat (o_builder_capacity before) then grow_builder owner source
       else sx_return ([owner, source], required)) (\<lambda>(roots, required').
     append_bytes (roots ! 0) (roots ! 1) required')))))))))"

subsection \<open>A store with its barriers\<close>

text \<open>
  What the barriers leave: the heap with more grey ids and with the owner in the remembered set
  when it is old and the target young.
\<close>

definition after_barriers :: "object_id \<Rightarrow> val \<Rightarrow> gcheap \<Rightarrow> gcheap" where
  "after_barriers i v h = (let owner = object_at h (slot_index i) in (case v of
     VObject j \<Rightarrow> let target = object_at h (slot_index j) in
       h\<lparr>h_mark_worklist := (if h_marking_active h \<and> o_marked owner \<and> \<not> o_marked target
            then j # h_mark_worklist h else h_mark_worklist h),
         h_remembered_set := (if o_generation owner = Old \<and> o_generation target = Young \<and> i \<notin> set (h_remembered_set h)
            then h_remembered_set h @ [i] else h_remembered_set h)\<rparr>
   | _ \<Rightarrow> h))"

definition barrier_hit :: "object_id \<Rightarrow> val \<Rightarrow> gcheap \<Rightarrow> bool" where
  "barrier_hit i v h \<longleftrightarrow> o_generation (object_at h (slot_index i)) = Old \<and>
     (case v of VObject j \<Rightarrow> o_generation (object_at h (slot_index j)) = Young | _ \<Rightarrow> False)"

definition barriers_armed :: "gcheap \<Rightarrow> bool" where
  "barriers_armed h \<longleftrightarrow> \<not> h_skip_next_write_barrier h \<and> \<not> h_skip_next_incremental_barrier h"

lemma generation_not_Old: "g \<noteq> Old \<longleftrightarrow> g = Young"
  by (cases g) simp_all

lemma after_barriers_frame [simp]:
  "h_objects (after_barriers i v h) = h_objects h" "h_generations (after_barriers i v h) = h_generations h"
  "h_compaction_active (after_barriers i v h) = h_compaction_active h"
  "h_marking_active (after_barriers i v h) = h_marking_active h"
  "h_weak_refs (after_barriers i v h) = h_weak_refs h" "h_ephemerons (after_barriers i v h) = h_ephemerons h"
  "h_intern_table (after_barriers i v h) = h_intern_table h" "h_roots (after_barriers i v h) = h_roots h"
  "h_handle_roots (after_barriers i v h) = h_handle_roots h" "h_stress (after_barriers i v h) = h_stress h"
  "h_source_ids (after_barriers i v h) = h_source_ids h" "h_forwarding (after_barriers i v h) = h_forwarding h"
  by (cases v; simp add: after_barriers_def Let_def)+

lemma store_barriers:
  assumes wf: "heap_wf h" and armed: "barriers_armed h" and i: "current_slot h i" and v: "valid_ref h v"
  shows "\<exists>h1. incremental_write_barrier_before_publish i v h = (Inr (), h1) \<and>
    record_write_barrier_if_needed i v h1 = (Inr (barrier_hit i v h), after_barriers i v h)"
proof (cases v)
  case (VObject j)
  let ?owner = "object_at h (slot_index i)" and ?target = "object_at h (slot_index j)"
  let ?W = "if h_marking_active h \<and> o_marked ?owner \<and> \<not> o_marked ?target
            then j # h_mark_worklist h else h_mark_worklist h"
  let ?h1 = "h\<lparr>h_mark_worklist := ?W\<rparr>"
  have j: "current_slot h j" using v VObject by simp
  have inc: "incremental_write_barrier_before_publish i v h = (Inr (), ?h1)"
  proof (cases "h_marking_active h")
    case True
    then show ?thesis
      using armed incremental_write_barrier_eq [OF wf True _ i v] VObject by (simp add: barriers_armed_def)
  next
    case False
    then show ?thesis by (simp add: incremental_write_barrier_before_publish_def sx_defs)
  qed
  have same: "same_store h ?h1" by simp
  note R = same_store_reads [OF same]
  have cur: "current_slot ?h1 i" "current_slot ?h1 j" using R(1) i j by simp_all
  have own: "holds ?h1 (slot_index i) ?owner" "holds ?h1 (slot_index j) ?target"
    using R(3) current_slot_holds [OF i] current_slot_holds [OF j] by simp_all
  have flag: "\<not> h_skip_next_write_barrier ?h1" using armed by (simp add: barriers_armed_def)
  have young: "is_young_slot (slot_index j) ?h1 = Inr (o_generation ?target = Young)"
    and old: "is_old_slot (slot_index i) ?h1 = Inr (o_generation ?owner = Old)"
    using own by simp_all
  have "record_write_barrier_if_needed i v ?h1 = (Inr (barrier_hit i v h), after_barriers i v h)"
  proof (cases "o_generation ?owner = Old \<and> o_generation ?target = Young")
    case True
    have "record_remembered_object i ?h1 = (Inr (), after_barriers i v h)"
      using True cur(1) old VObject
      by (auto simp: record_remembered_object_def sx_defs remembered_set_contains_def after_barriers_def Let_def)
    then show ?thesis
      using True cur young old flag VObject
      by (simp add: record_write_barrier_if_needed_def sx_defs remember_owner_def barrier_hit_def)
  next
    case False
    then have "record_write_barrier_if_needed i v ?h1 = (Inr False, ?h1)"
      using cur young old VObject
      by (cases "o_generation ?owner = Old") (simp_all add: record_write_barrier_if_needed_def sx_defs)
    moreover have "?h1 = after_barriers i v h" using False VObject by (auto simp: after_barriers_def Let_def)
    moreover have "\<not> barrier_hit i v h" using False VObject by (simp add: barrier_hit_def)
    ultimately show ?thesis by simp
  qed
  with inc show ?thesis by blast
qed (simp_all add: incremental_write_barrier_before_publish_def record_write_barrier_if_needed_def sx_defs
    barrier_hit_def after_barriers_def Let_def)

text \<open>An update of an object in place that may add \<open>v\<close> to its references.\<close>

definition update_ok :: "gcheap \<Rightarrow> val \<Rightarrow> gcobj \<Rightarrow> gcobj \<Rightarrow> bool" where
  "update_ok h v x x' \<longleftrightarrow> o_kind x' = o_kind x \<and> o_generation x' = o_generation x \<and> o_marked x' = o_marked x \<and>
     storage_slot_count x' = storage_slot_count x \<and> o_kind x \<noteq> Str \<and> shape_ok x' \<and>
     set (reference_fields x') \<subseteq> insert v (set (reference_fields x)) \<and>
     (o_kind x = Map_kind \<longrightarrow> validate_map_index x' h = Inr ()) \<and>
     (o_kind x = WeakRef \<longrightarrow> o_weak_target x' = o_weak_target x) \<and>
     (o_kind x = Ephemeron \<longrightarrow> o_ephemeron_key x' = o_ephemeron_key x \<and>
        o_ephemeron_value_is_ref x' = o_ephemeron_value_is_ref x \<and>
        (o_ephemeron_value x' = v \<or> o_ephemeron_value x' = o_ephemeron_value x))"

definition stored :: "object_id \<Rightarrow> val \<Rightarrow> gcobj \<Rightarrow> gcheap \<Rightarrow> gcheap" where
  "stored i v x' h = set_object (slot_index i) x' (after_barriers i v h)"

lemma stored_written:
  assumes wf: "heap_wf h" and i: "current_slot h i" and v: "valid_ref h v"
    and u: "update_ok h v (object_at h (slot_index i)) x'"
  shows "written h (slot_index i) (generation_from i) x' (stored i v x' h)"
proof -
  let ?s = "slot_index i" and ?x = "object_at h (slot_index i)"
  note D = heap_wfD [OF wf]
  have x: "holds h ?s ?x" by (rule current_slot_holds [OF i])
  have s: "?s < length (h_objects h)" using holds_less [OF x] .
  have g: "h_generations h ! ?s = generation_from i" "generation_from i \<noteq> 0" using i by (simp_all add: current_slot_def)
  have gl: "?s < length (h_generations h)" using i by (simp add: current_slot_def)
  then have gm: "generation_from i \<le> kMaxGeneration" using D(3) g(1) by (metis generations_ok_def nth_mem)
  have lay: "slot_layout_ok h ?s ?x" using D(4) x by (simp add: layout_ok_def)
  have w: "storage_slot_count x' = storage_slot_count ?x" using u by (simp add: update_ok_def)
  have gens: "(h_generations h)[?s := generation_from i] = h_generations h" using g(1) by (metis list_update_id)
  show ?thesis
    unfolding written_def
  proof (intro conjI allI impI ballI)
    show "h_objects (stored i v x' h) = (h_objects h)[?s := Some x']"
      "h_generations (stored i v x' h) = (h_generations h)[?s := generation_from i]"
      "h_compaction_active (stored i v x' h) = h_compaction_active h"
      using gens by (simp_all add: stored_def set_object_def)
    show "?s + storage_slot_count x' \<le> length (h_objects h)" using lay w by (simp add: slot_layout_ok_def)
    fix t y assume y: "holds h t y" "t \<noteq> ?s"
    then show "t + storage_slot_count y \<le> ?s \<or> ?s + storage_slot_count x' \<le> t"
      using layout_disjoint [OF D(4) y(1) x] layout_disjoint [OF D(4) x y(1)] w by (cases "t < ?s") auto
  next
    fix y assume "holds h ?s y"
    then have "y = ?x" using holds_unique [OF _ x] by blast
    then show "generation_from i = h_generations h ! ?s" "o_kind y = o_kind x'" "o_generation y = o_generation x'"
      "o_kind y = Str \<Longrightarrow> o_string_bytes y = o_string_bytes x'"
      using u g(1) by (simp_all add: update_ok_def)
  next
    fix w assume "w \<in> set (reference_fields x')"
    then have "w = v \<or> w \<in> set (reference_fields ?x)" using u by (auto simp: update_ok_def)
    then show "valid_ref h w" using v D(5) x by (auto simp: fields_valid_def)
  qed (use s g gm u in \<open>simp_all add: update_ok_def\<close>)
qed

lemma stored_kind_slots:
  assumes w: "written h s g x' h'" and "holds h s y"
  shows "kind_slots k h' = kind_slots k h"
proof (rule sorted_distinct_set_unique)
  have "o_kind y = o_kind x'" by (rule writtenD(8) [OF assms])
  then show "set (kind_slots k h') = set (kind_slots k h)"
    using assms(2) holds_object_at [OF assms(2)]
    by (auto simp: kind_slots_iff written_holds [OF w] written_object_at [OF w] split: if_splits)
qed (simp_all add: strict_sorted_imp_sorted [OF kind_slots_sorted])

lemma stored_wf:
  assumes wf: "heap_wf h" and i: "current_slot h i" and v: "valid_ref h v"
    and u: "update_ok h v (object_at h (slot_index i)) x'"
  shows "heap_wf (stored i v x' h)"
proof -
  let ?s = "slot_index i" and ?x = "object_at h (slot_index i)" and ?k = "stored i v x' h"
  note D = heap_wfD [OF wf] and w = stored_written [OF assms]
  have x: "holds h ?s ?x" by (rule current_slot_holds [OF i])
  have regs: "h_weak_refs ?k = h_weak_refs h" "h_ephemerons ?k = h_ephemerons h" "h_intern_table ?k = h_intern_table h"
    "h_remembered_set ?k = h_remembered_set (after_barriers i v h)"
    by (simp_all add: stored_def set_object_def)
  have ids: "object_id_at ?s (generation_from i) = i" by (rule object_id_at_current)
  have id: "id_at ?k = id_at h"
  proof
    fix t show "id_at ?k t = id_at h t"
      using written_id_at [OF w D(3), of t] current_slot_id_at [OF i] ids by (cases "t = ?s") simp_all
  qed
  have rs: "set (h_remembered_set ?k) = set (h_remembered_set h) \<union>
      (if barrier_hit i v h then {i} else {})"
    unfolding regs by (cases v) (auto simp: after_barriers_def barrier_hit_def Let_def)
  show ?thesis
  proof (rule written_wf [OF w wf])
    show "h_weak_refs ?k = map (id_at ?k) (kind_slots WeakRef ?k)" "h_ephemerons ?k = map (id_at ?k) (kind_slots Ephemeron ?k)"
      using D(7,9) by (simp_all add: regs id stored_kind_slots [OF w x] weak_ok_def ephemerons_ok_def)
    show "current_slot h j \<and> o_generation (object_at h (slot_index j)) = Old" if "j \<in> set (h_remembered_set ?k)" for j
      using that D(6) i by (auto simp: rs remembered_ok_def barrier_hit_def split: if_splits)
    show "set (h_remembered_set h) \<subseteq> set (h_remembered_set ?k)" unfolding rs by blast
    show "object_id_at ?s (generation_from i) \<in> set (h_remembered_set ?k)"
      if "o_generation x' = Old" "VObject j \<in> set (reference_fields x')" "o_generation (object_at h (slot_index j)) = Young" for j
    proof -
      have "o_generation ?x = Old" using that(1) u by (simp add: update_ok_def)
      moreover have "set (reference_fields x') \<subseteq> insert v (set (reference_fields ?x))" using u by (simp add: update_ok_def)
      then have "v = VObject j \<or> VObject j \<in> set (reference_fields ?x)" using that(2) by blast
      then have "barrier_hit i v h \<or> i \<in> set (h_remembered_set h)"
      proof
        assume "v = VObject j"
        then show ?thesis using that(3) calculation by (simp add: barrier_hit_def)
      next
        assume "VObject j \<in> set (reference_fields ?x)"
        then show ?thesis
          using D(6) x that(3) calculation current_slot_id_at [OF i] unfolding remembered_ok_def by metis
      qed
      ultimately show ?thesis unfolding ids rs by auto
    qed
    show "o_kind x' = WeakRef \<Longrightarrow> reference_tag (o_weak_target x') \<and> valid_ref h (o_weak_target x')"
    proof -
      assume k: "o_kind x' = WeakRef"
      then have "?s \<in> set (kind_slots WeakRef h)" using u x by (simp add: kind_slots_iff update_ok_def)
      then have "weak_slot_good h ?s" using D(7) by (simp add: weak_ok_def)
      then show ?thesis using u k by (simp add: weak_slot_good_def update_ok_def)
    qed
    show "o_kind x' = Ephemeron \<Longrightarrow> valid_ref h (o_ephemeron_key x') \<and>
        (o_ephemeron_value_is_ref x' \<longrightarrow> valid_ref h (o_ephemeron_value x'))"
    proof -
      assume k: "o_kind x' = Ephemeron"
      then have "?s \<in> set (kind_slots Ephemeron h)" using u x by (simp add: kind_slots_iff update_ok_def)
      then have "ephemeron_slot_good h ?s" using D(9) by (simp add: ephemerons_ok_def)
      then show ?thesis using u k v by (auto simp: ephemeron_slot_good_def update_ok_def)
    qed
  qed (use u in \<open>simp_all add: regs update_ok_def\<close>)
qed

lemma stored_reads:
  assumes wf: "heap_wf h" and i: "current_slot h i" and v: "valid_ref h v"
    and u: "update_ok h v (object_at h (slot_index i)) x'"
  shows "current_slot (stored i v x' h) j \<longleftrightarrow> current_slot h j"
    "object_at (stored i v x' h) s = (if s = slot_index i then x' else object_at h s)"
    "h_compaction_active (stored i v x' h) = h_compaction_active h"
    "h_stress (stored i v x' h) = h_stress h" "h_marking_active (stored i v x' h) = h_marking_active h"
proof -
  note w = stored_written [OF assms]
  show "current_slot (stored i v x' h) j \<longleftrightarrow> current_slot h j"
    using written_current(1) [OF w wf, of j] i by (auto simp: make_object_id_split)
  show "object_at (stored i v x' h) s = (if s = slot_index i then x' else object_at h s)"
    by (rule written_object_at [OF w])
qed (simp_all add: stored_def set_object_def)

lemma stored_marking_ok:
  assumes m: "marking_ok h" and i: "current_slot h i" and v: "valid_ref h v"
    and u: "update_ok h v (object_at h (slot_index i)) x'"
  shows "marking_ok (stored i v x' h)"
proof -
  note M = marking_okD [OF m]
  let ?k = "stored i v x' h" and ?x = "object_at h (slot_index i)"
  note w = stored_written [OF M(1) i v u] and R = stored_reads [OF M(1) i v u]
  have marks: "o_marked (object_at ?k s) = o_marked (object_at h s)" for s
    using R(2) u by (simp add: update_ok_def)
  have W: "set (h_mark_worklist ?k) = set (h_mark_worklist h) \<union>
      (case v of VObject j \<Rightarrow> if o_marked ?x \<and> \<not> o_marked (object_at h (slot_index j)) then {j} else {} | _ \<Rightarrow> {})"
    using M(2) by (cases v) (simp_all add: stored_def set_object_def after_barriers_def Let_def)
  have "tricolour ?k"
    unfolding tricolour_def
  proof (intro allI impI)
    fix s y j assume y: "holds ?k s y" "o_marked y" "VObject j \<in> set (reference_fields y)"
    show "o_marked (object_at ?k (slot_index j)) \<or> j \<in> set (h_mark_worklist ?k)"
    proof (cases "s = slot_index i")
      case True
      then have "y = x'" using y(1) by (simp add: written_holds [OF w])
      then have "o_marked ?x" and sub: "VObject j \<in> insert v (set (reference_fields ?x))"
        using y u by (auto simp: update_ok_def)
      from sub show ?thesis
      proof
        assume "VObject j = v"
        with W \<open>o_marked ?x\<close> marks show ?thesis by auto
      next
        assume "VObject j \<in> set (reference_fields ?x)"
        then show ?thesis
          using M(3) current_slot_holds [OF i] \<open>o_marked ?x\<close> marks W unfolding tricolour_def by blast
      qed
    next
      case False
      then have "holds h s y" using y(1) by (simp add: written_holds [OF w])
      then show ?thesis using M(3) y marks W unfolding tricolour_def by blast
    qed
  qed
  moreover have "current_slot ?k j" if "j \<in> set (h_mark_worklist ?k)" for j
    using that M(4) v unfolding R(1) W by (cases v) (auto split: if_splits)
  ultimately show ?thesis using stored_wf [OF M(1) i v u] M(2) R(5) by (simp add: marking_ok_def)
qed

subsection \<open>The updates of the store operations\<close>

lemma update_ok_pair:
  "o_kind x = Pair \<Longrightarrow> shape_ok x \<Longrightarrow> update_ok h v x (put_pair_field field v x)"
  by (cases field)
    (auto simp: update_ok_def put_pair_field_def validate_descriptor_shape_def shape_foreign_payload_def
      shape_pair_def ethen_Inr_iff storage_slot_count_def reference_fields_def)

lemma update_ok_scalar_array:
  "o_kind x = ScalarArray \<Longrightarrow> shape_ok x \<Longrightarrow>
    update_ok h v x (x\<lparr>o_scalar_elements := (o_scalar_elements x)[index := n]\<rparr>)"
  by (auto simp: update_ok_def validate_descriptor_shape_def shape_foreign_payload_def
      shape_scalar_array_def ethen_Inr_iff storage_slot_count_def reference_fields_def)

lemma update_ok_ref_array:
  "o_kind x = RefArray \<Longrightarrow> shape_ok x \<Longrightarrow>
    update_ok h v x (x\<lparr>o_ref_elements := (o_ref_elements x)[index := v]\<rparr>)"
  using set_update_subset_insert [of "o_ref_elements x" index v]
  by (auto simp: update_ok_def validate_descriptor_shape_def shape_foreign_payload_def
      shape_ref_array_def ethen_Inr_iff storage_slot_count_def reference_fields_def)

lemma set_masked: "set (masked bs xs) = {xs ! n |n. n < length xs \<and> n < length bs \<and> bs ! n}"
  by (force simp: masked_def set_zip)

lemma set_masked_update: "set (masked bs (xs[k := v])) \<subseteq> insert v (set (masked bs xs))"
proof
  fix w assume "w \<in> set (masked bs (xs[k := v]))"
  then obtain n where n: "w = xs[k := v] ! n" "n < length xs" "n < length bs" "bs ! n" by (auto simp: set_masked)
  then show "w \<in> insert v (set (masked bs xs))"
    by (cases "n = k") (auto simp: set_masked)
qed

lemma update_ok_record:
  assumes k: "o_kind x = Record_kind" and shape: "shape_ok x" and index: "index < length (o_record_fields x)"
    and v: "if o_record_ref_map x ! index then reference_tag v else scalar_tag v"
  shows "update_ok h v x (x\<lparr>o_record_fields := (o_record_fields x)[index := v]\<rparr>)"
proof -
  let ?fs = "o_record_fields x" and ?bs = "o_record_ref_map x"
  have len: "length ?bs = length ?fs" and old: "\<forall>(w, b)\<in>set (zip ?fs ?bs). if b then reference_tag w else scalar_tag w"
    using shape k by (auto simp: validate_descriptor_shape_def shape_record_def ethen_Inr_iff eall_ok_iff split: if_splits)
  have "zip (?fs[index := v]) ?bs = (zip ?fs ?bs)[index := (v, ?bs ! index)]"
    by (simp add: update_zip [of ?fs ?bs index "(v, ?bs ! index)", simplified])
  then have sub: "set (zip (?fs[index := v]) ?bs) \<subseteq> insert (v, ?bs ! index) (set (zip ?fs ?bs))"
    by (simp add: set_update_subset_insert)
  have new: "if b then reference_tag w else scalar_tag w" if "(w, b) \<in> set (zip (?fs[index := v]) ?bs)" for w b
  proof -
    have "(w, b) = (v, ?bs ! index) \<or> (w, b) \<in> set (zip ?fs ?bs)" using that sub by blast
    then show ?thesis using old v by auto
  qed
  show ?thesis
    using shape k new [of _ True] new [of _ False] set_masked_update [of ?bs ?fs index v]
    by (auto simp: update_ok_def validate_descriptor_shape_def shape_foreign_payload_def shape_record_def
        ethen_Inr_iff eall_ok_iff storage_slot_count_def reference_fields_def split: if_splits)
qed

lemma update_ok_ephemeron:
  assumes "o_kind x = Ephemeron" and "shape_ok x" and "tag (o_ephemeron_key x) \<noteq> Tag_Nil"
    and "if o_ephemeron_value_is_ref x then reference_tag v else scalar_tag v"
  shows "update_ok h v x (x\<lparr>o_ephemeron_value := v\<rparr>)"
  using assms
  by (auto simp: update_ok_def validate_descriptor_shape_def shape_foreign_payload_def shape_ephemeron_def
      ethen_Inr_iff Let_def storage_slot_count_def reference_fields_def split: if_splits)

subsection \<open>The store operations on an idle heap\<close>

lemma store_shadow_idle [simp]: "\<not> h_compaction_active h \<Longrightarrow> store_shadow i P m f h = (Inr (), h)"
  by (simp add: store_shadow_def sx_defs)

lemma canonicalize_idle [simp]:
  "\<not> h_compaction_active h \<Longrightarrow> canonicalize_incremental_compaction_read h v = Inr v"
  by (simp add: canonicalize_incremental_compaction_read_def)

lemma checked_kind_idle:
  assumes "\<not> h_compaction_active h" and "checked_kind k msg i h = Inr x"
  shows "current_slot h i" "x = object_at h (slot_index i)" "o_kind x = k" "shape_ok x"
    "checked_slot i h = Inr (slot_index i)"
  using assms by (auto simp: checked_kind_def ebind_Inr_iff ethen_Inr_iff Let_def checked_slot_Inr_iff)

lemma modify_object_stored:
  assumes "f (object_at h (slot_index i)) = x'"
  shows "modify_object (slot_index i) f (after_barriers i v h) = (Inr (), stored i v x' h)"
proof -
  have "object_at (after_barriers i v h) s = object_at h s" for s by (simp add: object_at_def)
  with assms show ?thesis by (simp add: modify_object_def sx_defs stored_def)
qed

lemma after_barriers_scalar [simp]: "\<not> is_object v \<Longrightarrow> after_barriers i v h = h"
  by (cases v) (simp_all add: after_barriers_def Let_def)

lemma barrier_hit_scalar [simp]: "\<not> is_object v \<Longrightarrow> \<not> barrier_hit i v h"
  by (cases v) (simp_all add: barrier_hit_def)

lemma barriers_if_reference_idle:
  assumes "heap_wf h" and "barriers_armed h" and "current_slot h i" and "valid_ref h v" and "b \<or> \<not> is_object v"
  shows "barriers_if_reference b i v h = (Inr (barrier_hit i v h), after_barriers i v h)"
  using store_barriers [OF assms(1-4)] assms(5) by (cases b) (auto simp: barriers_if_reference_def sx_defs)

lemma store_pair_field_eq:
  assumes wf: "heap_wf h" and armed: "barriers_armed h" and v: "valid_ref h v"
  shows "store_pair_field i field v h = (case checked_pair i h of Inl e \<Rightarrow> (Inl e, h)
    | Inr x \<Rightarrow> stress_after_barrier (barrier_hit i v h) [] (stored i v (put_pair_field field v x) h))"
proof (cases "checked_pair i h")
  case (Inr x)
  note idle = heap_wfD(2) [OF wf]
  note c = checked_kind_idle [OF idle Inr [unfolded checked_pair_def]]
  obtain h1 where b: "incremental_write_barrier_before_publish i v h = (Inr (), h1)"
    "record_write_barrier_if_needed i v h1 = (Inr (barrier_hit i v h), after_barriers i v h)"
    using store_barriers [OF wf armed c(1) v] by blast
  have "\<not> h_compaction_active (stored i v (put_pair_field field v x) h)" using idle by (simp add: stored_def set_object_def)
  then show ?thesis
    using Inr idle c(5) b modify_object_stored [of "put_pair_field field v" h i _ v] c(2)
    by (simp add: store_pair_field_def sx_defs)
qed (use heap_wfD(2) [OF wf] in \<open>simp add: store_pair_field_def sx_defs\<close>)

lemma array_set_eq:
  assumes wf: "heap_wf h"
  shows "array_set i index n h = (case checked_scalar_array i h of Inl e \<Rightarrow> (Inl e, h)
    | Inr x \<Rightarrow> if index \<ge> length (o_scalar_elements x) then (Inl (Out_of_range msg_scalar_array_bounds), h)
       else (Inr (), stored i VNil (x\<lparr>o_scalar_elements := (o_scalar_elements x)[index := n]\<rparr>) h))"
proof (cases "checked_scalar_array i h")
  case (Inr x)
  note idle = heap_wfD(2) [OF wf]
  note c = checked_kind_idle [OF idle Inr [unfolded checked_scalar_array_def]]
  let ?f = "\<lambda>x. x\<lparr>o_scalar_elements := (o_scalar_elements x)[index := n]\<rparr>"
  have "\<not> h_compaction_active (stored i VNil (?f x) h)" using idle by (simp add: stored_def set_object_def)
  then show ?thesis
    using Inr idle c(5) modify_object_stored [of ?f h i _ VNil] c(2)
    by (simp add: array_set_def sx_defs)
qed (simp add: array_set_def sx_defs)

lemma store_ref_array_element_eq:
  assumes wf: "heap_wf h" and armed: "barriers_armed h" and v: "valid_ref h v"
  shows "store_ref_array_element i index v h =
    (case require_object_reference_value v ctx_ref_array_store of Inl e \<Rightarrow> (Inl e, h) | Inr _ \<Rightarrow>
    (case checked_ref_array i h of Inl e \<Rightarrow> (Inl e, h)
    | Inr x \<Rightarrow> if index \<ge> length (o_ref_elements x) then (Inl (Out_of_range msg_ref_array_bounds), h)
       else stress_after_barrier (barrier_hit i v h) []
         (stored i v (x\<lparr>o_ref_elements := (o_ref_elements x)[index := v]\<rparr>) h)))"
proof (cases "require_object_reference_value v ctx_ref_array_store")
  case ref: (Inr u)
  note idle = heap_wfD(2) [OF wf]
  show ?thesis
  proof (cases "checked_ref_array i h")
    case (Inr x)
    note c = checked_kind_idle [OF idle Inr [unfolded checked_ref_array_def]]
    let ?f = "\<lambda>x. x\<lparr>o_ref_elements := (o_ref_elements x)[index := v]\<rparr>"
    obtain h1 where b: "incremental_write_barrier_before_publish i v h = (Inr (), h1)"
      "record_write_barrier_if_needed i v h1 = (Inr (barrier_hit i v h), after_barriers i v h)"
      using store_barriers [OF wf armed c(1) v] by blast
    have "\<not> h_compaction_active (stored i v (?f x) h)" using idle by (simp add: stored_def set_object_def)
    then show ?thesis
      using ref Inr idle c(5) b modify_object_stored [of ?f h i _ v] c(2)
      by (simp add: store_ref_array_element_def sx_defs)
  qed (use ref idle in \<open>simp add: store_ref_array_element_def sx_defs\<close>)
qed (simp add: store_ref_array_element_def sx_defs)

lemma check_stored_value_idle:
  assumes "\<not> h_compaction_active h" and "valid_ref h v"
  shows "check_stored_value b ref_msg scalar_msg v h =
    (if (if b then reference_tag v else scalar_tag v) then Inr v
     else Inl (Logic_error (if b then ref_msg else scalar_msg)))"
  using assms by (cases v) (auto simp: check_stored_value_def)

lemma scalar_tag_not_object: "scalar_tag v \<Longrightarrow> \<not> is_object v"
  by (cases v) (simp_all add: scalar_tag_def)

lemma current_value_object: "heap_wf h \<Longrightarrow> current_slot h i \<Longrightarrow> value_object i = Inr (VObject i)"
  by (intro generations_ok_value heap_wfD(3))

lemma store_record_field_eq:
  assumes wf: "heap_wf h" and armed: "barriers_armed h" and v: "valid_ref h v" and i: "current_slot h i"
  shows "store_record_field i index v h = (case checked_record i h of Inl e \<Rightarrow> (Inl e, h)
    | Inr x \<Rightarrow> if index \<ge> length (o_record_fields x) then (Inl (Out_of_range msg_record_bounds), h)
       else if \<not> (if o_record_ref_map x ! index then reference_tag v else scalar_tag v)
       then (Inl (Logic_error (if o_record_ref_map x ! index then msg_record_ref_store else msg_record_scalar_store)), h)
       else stress_after_barrier (barrier_hit i v h) [VObject i, v]
         (stored i v (x\<lparr>o_record_fields := (o_record_fields x)[index := v]\<rparr>) h))"
proof (cases "checked_record i h")
  case (Inr x)
  note idle = heap_wfD(2) [OF wf] and vo = current_value_object [OF wf i]
  note c = checked_kind_idle [OF idle Inr [unfolded checked_record_def]]
  let ?f = "\<lambda>x. x\<lparr>o_record_fields := (o_record_fields x)[index := v]\<rparr>"
  let ?b = "o_record_ref_map x ! index"
  show ?thesis
  proof (cases "index < length (o_record_fields x) \<and> (if ?b then reference_tag v else scalar_tag v)")
    case True
    then have u: "update_ok h v x (?f x)" using c(3,4) by (intro update_ok_record) auto
    have "?b \<or> \<not> is_object v" using True scalar_tag_not_object by (auto split: if_splits)
    then have b: "barriers_if_reference ?b i v h = (Inr (barrier_hit i v h), after_barriers i v h)"
      by (rule barriers_if_reference_idle [OF wf armed c(1) v])
    let ?k = "stored i v (?f x) h"
    have "\<not> h_compaction_active ?k" using idle by (simp add: stored_def set_object_def)
    moreover have "object_at ?k (slot_index i) = ?f x"
      using stored_reads(2) [OF wf c(1) v, of "?f x"] u c(2) by simp
    moreover have "shape_ok (?f x)" using u by (simp add: update_ok_def)
    moreover have "check_stored_value ?b msg_record_ref_store msg_record_scalar_store v h = Inr v"
      using True by (simp add: check_stored_value_idle [OF idle v])
    ultimately show ?thesis
      using Inr vo c(5) b modify_object_stored [of ?f h i _ v] c(2) True
      by (simp add: store_record_field_def sx_defs Let_def)
  next
    case False
    then show ?thesis
      using Inr vo c(5) check_stored_value_idle [OF idle v]
      by (auto simp: store_record_field_def sx_defs Let_def)
  qed
qed (use current_value_object [OF wf i] in \<open>simp add: store_record_field_def sx_defs\<close>)

lemma store_ephemeron_value_eq:
  assumes wf: "heap_wf h" and armed: "barriers_armed h" and v: "valid_ref h v" and i: "current_slot h i"
  shows "store_ephemeron_value i v h = (case checked_ephemeron i h of Inl e \<Rightarrow> (Inl e, h)
    | Inr x \<Rightarrow> if tag (o_ephemeron_key x) = Tag_Nil then (Inl (Logic_error msg_ephemeron_cleared_store), h)
       else if \<not> (if o_ephemeron_value_is_ref x then reference_tag v else scalar_tag v)
       then (Inl (Logic_error (if o_ephemeron_value_is_ref x then msg_ephemeron_ref_store
           else msg_ephemeron_scalar_store)), h)
       else stress_after_barrier (barrier_hit i v h) [VObject i, v] (stored i v (x\<lparr>o_ephemeron_value := v\<rparr>) h))"
proof (cases "checked_ephemeron i h")
  case (Inr x)
  note idle = heap_wfD(2) [OF wf] and vo = current_value_object [OF wf i]
  note c = checked_kind_idle [OF idle Inr [unfolded checked_ephemeron_def]]
  let ?f = "\<lambda>x. x\<lparr>o_ephemeron_value := v\<rparr>" and ?b = "o_ephemeron_value_is_ref x"
  show ?thesis
  proof (cases "tag (o_ephemeron_key x) \<noteq> Tag_Nil \<and> (if ?b then reference_tag v else scalar_tag v)")
    case True
    have "?b \<or> \<not> is_object v" using True scalar_tag_not_object by (auto split: if_splits)
    then have b: "barriers_if_reference ?b i v h = (Inr (barrier_hit i v h), after_barriers i v h)"
      by (rule barriers_if_reference_idle [OF wf armed c(1) v])
    have "\<not> h_compaction_active (stored i v (?f x) h)" using idle by (simp add: stored_def set_object_def)
    moreover have "check_stored_value ?b msg_ephemeron_ref_store msg_ephemeron_scalar_store v h = Inr v"
      using True by (simp add: check_stored_value_idle [OF idle v])
    ultimately show ?thesis
      using Inr vo c(5) b modify_object_stored [of ?f h i _ v] c(2) True
      by (simp add: store_ephemeron_value_def sx_defs Let_def)
  next
    case False
    then show ?thesis
      using Inr vo c(5) check_stored_value_idle [OF idle v]
      by (auto simp: store_ephemeron_value_def sx_defs Let_def)
  qed
qed (use current_value_object [OF wf i] in \<open>simp add: store_ephemeron_value_def sx_defs\<close>)

lemma stress_after_barrier_calm:
  "\<not> collect_minor_after_every_write_barrier (h_stress h) \<Longrightarrow> stress_after_barrier b roots h = (Inr (), h)"
  by (simp add: stress_after_barrier_def sx_defs)

text \<open>The operations that store one value in place, and what every one of them does.\<close>

definition store_operations :: "object_id \<Rightarrow> val \<Rightarrow> (gcheap, unit) sx set" where
  "store_operations i v = {set_left i v, set_right i v, ephemeron_set_value i v} \<union>
     range (\<lambda>(index, n). array_set i index n) \<union> range (\<lambda>index. ref_array_set i index v) \<union>
     range (\<lambda>index. record_set i index v)"

definition calm_stores :: "gcheap \<Rightarrow> bool" where
  "calm_stores h \<longleftrightarrow> barriers_armed h \<and> \<not> collect_minor_after_every_write_barrier (h_stress h)"

lemma store_result:
  assumes wf: "heap_wf h" and calm: "calm_stores h" and i: "current_slot h i" and v: "valid_ref h v"
    and m: "m \<in> store_operations i v"
  shows "(\<exists>e. m h = (Inl e, h)) \<or> (\<exists>w x'. m h = (Inr (), stored i w x' h) \<and> valid_ref h w \<and>
    update_ok h w (object_at h (slot_index i)) x')"
proof -
  have armed: "barriers_armed h" and quiet: "\<not> collect_minor_after_every_write_barrier (h_stress h)"
    using calm by (simp_all add: calm_stores_def)
  note idle = heap_wfD(2) [OF wf] and c = checked_kind_idle [OF heap_wfD(2) [OF wf]]
  have done': "stress_after_barrier b roots (stored i w x' h) = (Inr (), stored i w x' h)" for b roots w x'
    using quiet by (intro stress_after_barrier_calm) (cases w; simp add: stored_def set_object_def)
  have found: "\<exists>w' y. stored i w x' h = stored i w' y h \<and> valid_ref h w' \<and>
      update_ok h w' (object_at h (slot_index i)) y"
    if "update_ok h w (object_at h (slot_index i)) x'" "valid_ref h w" for w x'
    using that by blast
  consider (pair) f where "m = store_pair_field i f v" | (eph) "m = store_ephemeron_value i v"
    | (arr) index n where "m = array_set i index n" | (refs) index where "m = store_ref_array_element i index v"
    | (fields) index where "m = store_record_field i index v"
    using m by (auto simp: store_operations_def set_left_def set_right_def ref_array_set_def record_set_def
        ephemeron_set_value_def)
  then show ?thesis
  proof cases
    case pair
    show ?thesis
    proof (cases "checked_pair i h")
      case (Inr x)
      note k = c [OF Inr [unfolded checked_pair_def]]
      have "update_ok h v x (put_pair_field f v x)" by (rule update_ok_pair [OF k(3,4)])
      then show ?thesis using pair Inr v k(2) by (auto simp: store_pair_field_eq [OF wf armed v] done')
    qed (simp add: pair store_pair_field_eq [OF wf armed v])
  next
    case eph
    show ?thesis
    proof (cases "checked_ephemeron i h")
      case (Inr x)
      note k = c [OF Inr [unfolded checked_ephemeron_def]]
      show ?thesis
        using eph Inr v k(2) update_ok_ephemeron [OF k(3,4), of v]
        by (auto simp: store_ephemeron_value_eq [OF wf armed v i] done' intro!: found)
    qed (simp add: eph store_ephemeron_value_eq [OF wf armed v i])
  next
    case arr
    show ?thesis
    proof (cases "checked_scalar_array i h")
      case (Inr x)
      note k = c [OF Inr [unfolded checked_scalar_array_def]]
      have "update_ok h VNil x (x\<lparr>o_scalar_elements := (o_scalar_elements x)[index := n]\<rparr>)"
        by (rule update_ok_scalar_array [OF k(3,4)])
      then show ?thesis using arr Inr k(2) by (auto simp: array_set_eq [OF wf] intro!: found)
    qed (simp add: arr array_set_eq [OF wf])
  next
    case refs
    show ?thesis
    proof (cases "require_object_reference_value v ctx_ref_array_store")
      case ok: (Inr u)
      show ?thesis
      proof (cases "checked_ref_array i h")
        case (Inr x)
        note k = c [OF Inr [unfolded checked_ref_array_def]]
        have "update_ok h v x (x\<lparr>o_ref_elements := (o_ref_elements x)[index := v]\<rparr>)"
          by (rule update_ok_ref_array [OF k(3,4)])
        then show ?thesis
          using refs ok Inr v k(2) by (auto simp: store_ref_array_element_eq [OF wf armed v] done')
      qed (simp add: refs ok store_ref_array_element_eq [OF wf armed v])
    qed (simp add: refs store_ref_array_element_eq [OF wf armed v])
  next
    case fields
    show ?thesis
    proof (cases "checked_record i h")
      case (Inr x)
      note k = c [OF Inr [unfolded checked_record_def]]
      show ?thesis
        using fields Inr v k(2) update_ok_record [OF k(3,4), of index v]
        by (auto simp: store_record_field_eq [OF wf armed v i] done' intro!: found)
    qed (simp add: fields store_record_field_eq [OF wf armed v i])
  qed
qed

text \<open>C5. Every store into a pair, array, record or ephemeron, whether it succeeds or throws, leaves a
  well-formed heap: in particular each old object with a young reference is in the remembered set.  No
  id gains or loses its object, and no object but the receiver changes.\<close>

theorem stores_keep_the_heap_well_formed:
  assumes "heap_wf h" and "calm_stores h" and "current_slot h i" and "valid_ref h v"
    and "m \<in> store_operations i v"
  shows "heap_wf (snd (m h)) \<and> (\<forall>j. current_slot (snd (m h)) j \<longleftrightarrow> current_slot h j) \<and>
    (\<forall>s. s \<noteq> slot_index i \<longrightarrow> object_at (snd (m h)) s = object_at h s)"
  using store_result [OF assms] stored_wf [OF assms(1,3)] stored_reads(1,2) [OF assms(1,3)] assms(1)
  by fastforce

lemma sample_calm: "calm_stores sample_heap"
  by (simp add: calm_stores_def barriers_armed_def sample_heap_def empty_heap_def default_stress_def)

lemma stores_keep_the_heap_well_formed_witness:
  "heap_wf (snd (set_left (object_id_at 0 1) (VObject (object_id_at 5 1)) sample_heap))"
proof -
  have c: "current_slot sample_heap (object_id_at 0 1)" and v: "valid_ref sample_heap (VObject (object_id_at 5 1))"
    by (simp_all add: current_slot_def sample_heap_def sample_objects_def)
  have "set_left (object_id_at 0 1) (VObject (object_id_at 5 1)) \<in> store_operations (object_id_at 0 1) (VObject (object_id_at 5 1))"
    by (simp add: store_operations_def)
  from stores_keep_the_heap_well_formed [OF sample_wf sample_calm c v this] show ?thesis by blast
qed

lemma checked_kind_stale:
  "\<not> h_compaction_active h \<Longrightarrow> \<not> current_slot h i \<Longrightarrow> checked_kind k msg i h = Inl (Out_of_range msg_stale_id)"
  by (simp add: checked_kind_def checked_slot_stale)

text \<open>The stores that take a value; the store into a scalar array takes a number.\<close>

definition value_stores :: "object_id \<Rightarrow> val \<Rightarrow> (gcheap, unit) sx set" where
  "value_stores i v = {set_left i v, set_right i v, ephemeron_set_value i v} \<union>
     range (\<lambda>index. ref_array_set i index v) \<union> range (\<lambda>index. record_set i index v)"

text \<open>The barriers refuse a stale value before either of them changes the heap.\<close>

lemma stale_barriers:
  assumes idle: "\<not> h_compaction_active h" and armed: "barriers_armed h" and i: "current_slot h i"
    and v: "\<not> valid_ref h v"
  shows "(\<exists>e. incremental_write_barrier_before_publish i v h = (Inl e, h)) \<or>
      incremental_write_barrier_before_publish i v h = (Inr (), h)"
    "\<exists>e. record_write_barrier_if_needed i v h = (Inl e, h)"
proof -
  obtain j where j: "v = VObject j" "\<not> current_slot h j" using v by (cases v) simp_all
  moreover have "checked_slot i h = Inr (slot_index i)" using i by simp
  ultimately show "(\<exists>e. incremental_write_barrier_before_publish i v h = (Inl e, h)) \<or>
      incremental_write_barrier_before_publish i v h = (Inr (), h)"
    "\<exists>e. record_write_barrier_if_needed i v h = (Inl e, h)"
    using armed checked_slot_stale [OF idle j(2)]
    by (simp_all add: incremental_write_barrier_before_publish_def record_write_barrier_if_needed_def
        barriers_armed_def sx_defs)
qed

lemma stale_checked_value:
  assumes "\<not> h_compaction_active h" and "\<not> valid_ref h v"
  shows "\<exists>e. check_stored_value b ref_msg scalar_msg v h = Inl e"
proof -
  obtain j where "v = VObject j" "\<not> current_slot h j" using assms(2) by (cases v) simp_all
  with assms(1) show ?thesis
    by (cases b) (simp_all add: check_stored_value_def scalar_tag_def reference_tag_def checked_slot_stale)
qed

text \<open>A store through a stale id fails, and so does a store of a stale reference; neither has an effect.\<close>

lemma stale_receiver_fails:
  assumes idle: "\<not> h_compaction_active h" and i: "\<not> current_slot h i" and m: "m \<in> store_operations i v"
  shows "\<exists>e. m h = (Inl e, h)"
proof -
  note stale = checked_kind_stale [OF idle i] checked_slot_stale [OF idle i]
  have "\<exists>e. store_pair_field i f v h = (Inl e, h)" for f
    using idle stale by (simp add: store_pair_field_def checked_pair_def sx_defs)
  moreover have "\<exists>e. array_set i index n h = (Inl e, h)" for index n
    using stale by (simp add: array_set_def checked_scalar_array_def sx_defs)
  moreover have "\<exists>e. store_ref_array_element i index v h = (Inl e, h)" for index
    using idle stale
    by (cases "require_object_reference_value v ctx_ref_array_store")
      (simp_all add: store_ref_array_element_def checked_ref_array_def sx_defs)
  moreover have "\<exists>e. store_record_field i index v h = (Inl e, h)" for index
    using stale by (cases "value_object i") (simp_all add: store_record_field_def checked_record_def sx_defs)
  moreover have "\<exists>e. store_ephemeron_value i v h = (Inl e, h)"
    using stale by (cases "value_object i") (simp_all add: store_ephemeron_value_def checked_ephemeron_def sx_defs)
  ultimately show ?thesis
    using m by (auto simp: store_operations_def set_left_def set_right_def ref_array_set_def record_set_def
        ephemeron_set_value_def)
qed

lemma stale_value_fails:
  assumes wf: "heap_wf h" and armed: "barriers_armed h" and i: "current_slot h i" and v: "\<not> valid_ref h v"
    and m: "m \<in> value_stores i v"
  shows "\<exists>e. m h = (Inl e, h)"
proof -
  note idle = heap_wfD(2) [OF wf] and vo = current_value_object [OF wf i]
  have cs: "checked_slot i h = Inr (slot_index i)" using i by simp
  obtain e where e: "record_write_barrier_if_needed i v h = (Inl e, h)"
    using stale_barriers(2) [OF idle armed i v] by blast
  from stale_barriers(1) [OF idle armed i v] have pair: "\<exists>e. store_pair_field i f v h = (Inl e, h)" for f
    using idle e cs by (cases "checked_pair i h") (auto simp: store_pair_field_def sx_defs)
  from stale_barriers(1) [OF idle armed i v] have refs: "\<exists>e. store_ref_array_element i index v h = (Inl e, h)" for index
    using idle e cs
    by (cases "require_object_reference_value v ctx_ref_array_store"; cases "checked_ref_array i h")
      (auto simp: store_ref_array_element_def sx_defs)
  have fields: "\<exists>e. store_record_field i index v h = (Inl e, h)" for index
  proof (cases "checked_record i h")
    case (Inr x)
    obtain e where "check_stored_value (o_record_ref_map x ! index) msg_record_ref_store msg_record_scalar_store v h = Inl e"
      using stale_checked_value [OF idle v] by blast
    with Inr show ?thesis using vo cs by (simp add: store_record_field_def sx_defs Let_def)
  qed (use vo in \<open>simp add: store_record_field_def sx_defs\<close>)
  have eph: "\<exists>e. store_ephemeron_value i v h = (Inl e, h)"
  proof (cases "checked_ephemeron i h")
    case (Inr x)
    obtain e where "check_stored_value (o_ephemeron_value_is_ref x) msg_ephemeron_ref_store msg_ephemeron_scalar_store v h = Inl e"
      using stale_checked_value [OF idle v] by blast
    with Inr show ?thesis using vo cs by (simp add: store_ephemeron_value_def sx_defs Let_def)
  qed (use vo in \<open>simp add: store_ephemeron_value_def sx_defs\<close>)
  show ?thesis
    using m pair refs fields eph
    by (auto simp: value_stores_def set_left_def set_right_def ref_array_set_def record_set_def
        ephemeron_set_value_def)
qed

text \<open>C25. A store into a pair, an array, a record or an ephemeron that throws changes nothing,
  whatever it was given: a receiver that is stale or of another kind, an index out of range, a value of the
  wrong tag or naming no live object, a cleared ephemeron.  A stale receiver always throws, and so does a
  stale reference as the value (a scalar array takes none).  The heap is well-formed and idle, with no
  barrier skipped and no collection forced by the stress settings.\<close>

theorem failed_stores_change_nothing:
  assumes wf: "heap_wf h" and calm: "calm_stores h" and m: "m \<in> store_operations i v"
  shows "(\<forall>e h'. m h = (Inl e, h') \<longrightarrow> h' = h) \<and>
    (\<not> current_slot h i \<longrightarrow> (\<exists>e. m h = (Inl e, h))) \<and>
    (\<not> valid_ref h v \<longrightarrow> m \<in> value_stores i v \<longrightarrow> (\<exists>e. m h = (Inl e, h)))"
proof -
  have armed: "barriers_armed h" using calm by (simp add: calm_stores_def)
  note i = stale_receiver_fails [OF heap_wfD(2) [OF wf] _ m] and v = stale_value_fails [OF wf armed, of i v m]
  have "h' = h" if failed: "m h = (Inl e, h')" for e h'
  proof -
    consider (receiver) "\<not> current_slot h i" | (scalars) "current_slot h i" "m \<in> range (\<lambda>(index, n). array_set i index n)"
      | (stale) "current_slot h i" "\<not> valid_ref h v" "m \<in> value_stores i v"
      | (good) "current_slot h i" "valid_ref h v"
      using m unfolding store_operations_def value_stores_def by blast
    then show ?thesis
    proof cases
      case receiver
      with i failed show ?thesis by auto
    next
      case scalars
      then have "m \<in> store_operations i VNil" by (auto simp: store_operations_def)
      with store_result [OF wf calm scalars(1), of VNil m] failed show ?thesis by auto
    next
      case stale
      with v failed show ?thesis by auto
    next
      case good
      with store_result [OF wf calm good m] failed show ?thesis by auto
    qed
  qed
  with i v show ?thesis by blast
qed

text \<open>The witness: a receiver of another kind, a stale receiver, a stale value for a live pair.\<close>

lemma failed_stores_change_nothing_witness:
  "ref_array_set (object_id_at 0 1) 0 (VObject (object_id_at 5 1)) sample_heap =
     (Inl (Logic_error msg_not_ref_array), sample_heap) \<and>
   (\<exists>e. set_left (object_id_at 0 2) VNil sample_heap = (Inl e, sample_heap)) \<and>
   (\<exists>e. set_left (object_id_at 0 1) (VObject (object_id_at 5 2)) sample_heap = (Inl e, sample_heap))"
proof -
  note failed = failed_stores_change_nothing [OF sample_wf sample_calm]
  let ?m = "ref_array_set (object_id_at 0 1) 0 (VObject (object_id_at 5 1))"
  have c: "current_slot sample_heap (object_id_at 0 1)" and v: "valid_ref sample_heap (VObject (object_id_at 5 1))"
    and stale: "\<not> current_slot sample_heap (object_id_at 0 2)" "\<not> valid_ref sample_heap (VObject (object_id_at 5 2))"
    by (simp_all add: current_slot_def sample_heap_def sample_objects_def)
  have k: "o_kind (object_at sample_heap 0) = Pair" by (simp add: object_at_def sample_heap_def sample_objects_def default_object_def)
  have armed: "barriers_armed sample_heap" using sample_calm by (simp add: calm_stores_def)
  have "checked_ref_array (object_id_at 0 1) sample_heap = Inl (Logic_error msg_not_ref_array)"
    using c k by (simp add: checked_ref_array_def checked_kind_def Let_def)
  then have "fst (?m sample_heap) = Inl (Logic_error msg_not_ref_array)"
    unfolding ref_array_set_def store_ref_array_element_eq [OF sample_wf armed v]
    by (simp add: require_object_reference_value_def)
  moreover obtain r h' where m: "?m sample_heap = (r, h')" by fastforce
  moreover have "?m \<in> store_operations (object_id_at 0 1) (VObject (object_id_at 5 1))"
    by (simp add: store_operations_def)
  ultimately have "?m sample_heap = (Inl (Logic_error msg_not_ref_array), sample_heap)"
    using failed [of ?m] by auto
  moreover have "set_left i v \<in> store_operations i v" "set_left i v \<in> value_stores i v" for i v
    by (simp_all add: store_operations_def value_stores_def)
  then have "\<exists>e. set_left (object_id_at 0 2) VNil sample_heap = (Inl e, sample_heap)"
    "\<exists>e. set_left (object_id_at 0 1) (VObject (object_id_at 5 2)) sample_heap = (Inl e, sample_heap)"
    using failed stale by blast+
  ultimately show ?thesis by blast
qed

text \<open>C20. During incremental marking every store keeps the marking invariant: a white object stored into a
  black one is made grey.\<close>

theorem stores_keep_the_marking_invariant:
  assumes "marking_ok h" and "calm_stores h" and "current_slot h i" and "valid_ref h v"
    and "m \<in> store_operations i v"
  shows "marking_ok (snd (m h))"
  using store_result [OF marking_okD(1) [OF assms(1)] assms(2-5)] stored_marking_ok [OF assms(1,3)] assms(1) by auto

lemma stores_keep_the_marking_invariant_witness:
  "marking_ok (snd (set_left (object_id_at 0 1) (VObject (object_id_at 5 1)) sample_marking))"
proof -
  have c: "current_slot sample_marking (object_id_at 0 1)" and v: "valid_ref sample_marking (VObject (object_id_at 5 1))"
    by (simp_all add: sample_marking_reads(1)) (simp_all add: current_slot_def sample_heap_def sample_objects_def)
  have "calm_stores sample_marking"
    by (simp add: calm_stores_def barriers_armed_def sample_marking_def marking_state_def with_marks_def sample_heap_def empty_heap_def
        default_stress_def)
  moreover have "set_left (object_id_at 0 1) (VObject (object_id_at 5 1)) \<in> store_operations (object_id_at 0 1) (VObject (object_id_at 5 1))"
    by (simp add: store_operations_def)
  ultimately show ?thesis by (rule stores_keep_the_marking_invariant [OF sample_marking_ok _ c v])
qed

lemma stored_read_kind:
  assumes wf: "heap_wf h" and v: "valid_ref h v" and c: "checked_kind k msg i h = Inr x"
    and u: "update_ok h v x x'"
  shows "checked_kind k msg i (stored i v x' h) = Inr x'" "\<not> h_compaction_active (stored i v x' h)"
proof -
  note idle = heap_wfD(2) [OF wf]
  note k = checked_kind_idle [OF idle c]
  note R = stored_reads [OF wf k(1) v u [unfolded k(2)]]
  show "\<not> h_compaction_active (stored i v x' h)" using idle R(3) k(2) by (simp add: stored_def set_object_def)
  have "current_slot (stored i v x' h) i" using R(1) k(1) by simp
  then have "checked_slot i (stored i v x' h) = Inr (slot_index i)" by simp
  moreover have "object_at (stored i v x' h) (slot_index i) = x'" using R(2) [of "slot_index i"] by simp
  ultimately show "checked_kind k msg i (stored i v x' h) = Inr x'"
    using u k(3) by (simp add: checked_kind_def update_ok_def)
qed

lemma calm_stress: "calm_stores h \<Longrightarrow> stress_after_barrier b roots (stored i v x' h) = (Inr (), stored i v x' h)"
  by (intro stress_after_barrier_calm) (cases v; simp add: stored_def set_object_def calm_stores_def)

text \<open>C22. What is stored reads back from where it was stored, and only there: the other field of a pair and
  the other elements of an array or a record keep their values.\<close>

theorem stored_values_read_back:
  assumes wf: "heap_wf h" and calm: "calm_stores h" and v: "valid_ref h v"
  shows "(\<forall>x. checked_pair i h = Inr x \<longrightarrow> (\<exists>h'. set_left i v h = (Inr (), h') \<and>
        heap_left i h' = Inr v \<and> heap_right i h' = heap_right i h)) \<and>
    (\<forall>x index. checked_ref_array i h = Inr x \<longrightarrow> index < length (o_ref_elements x) \<longrightarrow> is_object v \<longrightarrow>
      (\<exists>h'. ref_array_set i index v h = (Inr (), h') \<and>
        (\<forall>k. ref_array_get i k h' = (if k = index then Inr v else ref_array_get i k h)))) \<and>
    (\<forall>x index n. checked_scalar_array i h = Inr x \<longrightarrow> index < length (o_scalar_elements x) \<longrightarrow>
      (\<exists>h'. array_set i index n h = (Inr (), h') \<and>
        (\<forall>k. array_get i k h' = (if k = index then Inr n else array_get i k h)))) \<and>
    (\<forall>x index. checked_record i h = Inr x \<longrightarrow> index < length (o_record_fields x) \<longrightarrow>
      (if o_record_ref_map x ! index then reference_tag v else scalar_tag v) \<longrightarrow>
      (\<exists>h'. record_set i index v h = (Inr (), h') \<and>
        (\<forall>k. record_get i k h' = (if k = index then Inr v else record_get i k h))))"
proof (intro conjI allI impI)
  have armed: "barriers_armed h" using calm by (simp add: calm_stores_def)
  note idle = heap_wfD(2) [OF wf] and stress = calm_stress [OF calm]
  show "\<exists>h'. set_left i v h = (Inr (), h') \<and> heap_left i h' = Inr v \<and> heap_right i h' = heap_right i h"
    if c: "checked_pair i h = Inr x" for x
  proof -
    note k = checked_kind_idle [OF idle c [unfolded checked_pair_def]]
    note r = stored_read_kind [OF wf v c [unfolded checked_pair_def] update_ok_pair [OF k(3,4), of h v Left_field], folded checked_pair_def]
    show ?thesis
      unfolding set_left_def store_pair_field_eq [OF wf armed v] using c r idle stress
      by (simp add: heap_left_def heap_right_def) (simp add: put_pair_field_def)
  qed
  show "\<exists>h'. ref_array_set i index v h = (Inr (), h') \<and>
        (\<forall>k. ref_array_get i k h' = (if k = index then Inr v else ref_array_get i k h))"
    if c: "checked_ref_array i h = Inr x" and index: "index < length (o_ref_elements x)" and o: "is_object v" for x index
  proof -
    note k = checked_kind_idle [OF idle c [unfolded checked_ref_array_def]]
    note r = stored_read_kind [OF wf v c [unfolded checked_ref_array_def] update_ok_ref_array [OF k(3,4), of h v index], folded checked_ref_array_def]
    show ?thesis
      unfolding ref_array_set_def store_ref_array_element_eq [OF wf armed v] using c r idle stress index o
      by (simp add: ref_array_get_def require_object_reference_value_def nth_list_update)
  qed
  show "\<exists>h'. array_set i index n h = (Inr (), h') \<and>
        (\<forall>k. array_get i k h' = (if k = index then Inr n else array_get i k h))"
    if c: "checked_scalar_array i h = Inr x" and index: "index < length (o_scalar_elements x)" for x index n
  proof -
    note k = checked_kind_idle [OF idle c [unfolded checked_scalar_array_def]]
    note r = stored_read_kind [OF wf valid_ref_simps(2) c [unfolded checked_scalar_array_def]
        update_ok_scalar_array [OF k(3,4), of h VNil index n], folded checked_scalar_array_def]
    show ?thesis
      unfolding array_set_eq [OF wf] using c r idle index by (simp add: array_get_def nth_list_update)
  qed
  show "\<exists>h'. record_set i index v h = (Inr (), h') \<and>
        (\<forall>k. record_get i k h' = (if k = index then Inr v else record_get i k h))"
    if c: "checked_record i h = Inr x" and index: "index < length (o_record_fields x)"
      and tag: "if o_record_ref_map x ! index then reference_tag v else scalar_tag v" for x index
  proof -
    note k = checked_kind_idle [OF idle c [unfolded checked_record_def]]
    note r = stored_read_kind [OF wf v c [unfolded checked_record_def] update_ok_record [OF k(3,4) index tag], folded checked_record_def]
    show ?thesis
      unfolding record_set_def store_record_field_eq [OF wf armed v k(1)] using c r idle stress index tag
      by (simp add: record_get_def nth_list_update Let_def)
  qed
qed

lemma stored_values_read_back_witness:
  "\<exists>h'. set_left (object_id_at 0 1) (VObject (object_id_at 5 1)) sample_heap = (Inr (), h') \<and>
    heap_left (object_id_at 0 1) h' = Inr (VObject (object_id_at 5 1))"
proof -
  have v: "valid_ref sample_heap (VObject (object_id_at 5 1))"
    by (simp add: current_slot_def sample_heap_def sample_objects_def)
  have c: "current_slot sample_heap (object_id_at 0 1)"
    by (simp add: current_slot_def sample_heap_def sample_objects_def)
  have "o_kind (object_at sample_heap 0) = Pair"
    by (simp add: object_at_def sample_heap_def sample_objects_def default_object_def)
  moreover have "shape_ok (object_at sample_heap (slot_index (object_id_at 0 1)))"
    by (rule heap_wf_shape [OF sample_wf current_slot_holds [OF c]])
  ultimately have "\<exists>x. checked_pair (object_id_at 0 1) sample_heap = Inr x"
    using c by (simp add: checked_pair_def checked_kind_def)
  then show ?thesis using stored_values_read_back [OF sample_wf sample_calm v] by blast
qed

end
