(* ===== verification/GC_Relocate.thy ===== *)
theory GC_Relocate
  imports GC_Mutate
begin

text \<open>
  The relocation of a growing map or builder (\<open>relocate_map_for_growth\<close> and
  \<open>relocate_builder_for_growth\<close> of \<open>src/gc/heap.cpp\<close>, modelled by \<open>relocate_for_growth\<close>): the
  object moves to the end of the heap under a fresh id, and every reference to it is renamed.

  \<open>growing\<close> are the conditions of the relocation, \<open>growth\<close> relates the heaps before and after it.
  The lemmas show that the heap after it is well-formed (\<open>growth_wf\<close>), what became of every id, object
  and value (\<open>growth_current\<close>, \<open>growth_valid\<close>), and that the code reaches such a heap without throwing
  (\<open>relocate_for_growth_ok\<close>).
\<close>

subsection \<open>Renaming one object\<close>

definition renamed_id :: "object_id \<Rightarrow> object_id \<Rightarrow> object_id \<Rightarrow> object_id" where
  "renamed_id i i' j = (if j = i then i' else j)"

definition renamed_value :: "object_id \<Rightarrow> object_id \<Rightarrow> val \<Rightarrow> val" where
  "renamed_value i i' v = (case v of VObject j \<Rightarrow> VObject (renamed_id i i' j) | _ \<Rightarrow> v)"

lemma renamed_value_simps [simp]:
  "renamed_value i i' (VObject j) = VObject (renamed_id i i' j)" "renamed_value i i' VNil = VNil"
  "renamed_value i i' (VInt64 n) = VInt64 n" "renamed_value i i' (VBool b) = VBool b"
  by (simp_all add: renamed_value_def)

lemma tag_renamed_value [simp]: "tag (renamed_value i i' v) = tag v"
  by (cases v) simp_all

lemma renamed_scalar [simp]: "scalar_tag v \<Longrightarrow> renamed_value i i' v = v"
  by (cases v) (simp_all add: scalar_tag_def)

definition renamed_object :: "object_id \<Rightarrow> object_id \<Rightarrow> gcobj \<Rightarrow> gcobj" where
  "renamed_object i i' x = (map_reference_fields (renamed_value i i') x)\<lparr>
     o_weak_target := renamed_value i i' (o_weak_target x),
     o_ephemeron_key := renamed_value i i' (o_ephemeron_key x),
     o_ephemeron_value := renamed_value i i' (o_ephemeron_value x)\<rparr>"

lemma shape_weak_fields:
  assumes "tag w = tag (o_weak_target x)" "tag k = tag (o_ephemeron_key x)" "tag v = tag (o_ephemeron_value x)"
  shows "validate_descriptor_shape (x\<lparr>o_weak_target := w, o_ephemeron_key := k, o_ephemeron_value := v\<rparr>) =
    validate_descriptor_shape x"
  by (cases "o_kind x"; simp add: validate_descriptor_shape_def shape_defs selected_ref_map_def reference_tag_def
      scalar_tag_def Let_def assms del: tag_simps)

lemma reference_fields_weak_fields [simp]:
  "reference_fields (x\<lparr>o_weak_target := w, o_ephemeron_key := k, o_ephemeron_value := v\<rparr>) = reference_fields x"
  by (cases "o_kind x") (simp_all add: reference_fields_def selected_ref_map_def)

lemma renamed_object_frame [simp]:
  "o_kind (renamed_object i i' x) = o_kind x" "o_generation (renamed_object i i' x) = o_generation x"
  "o_marked (renamed_object i i' x) = o_marked x" "o_string_bytes (renamed_object i i' x) = o_string_bytes x"
  "o_map_lookup_index (renamed_object i i' x) = o_map_lookup_index x" "o_length (renamed_object i i' x) = o_length x"
  "o_map_key_is_ref (renamed_object i i' x) = o_map_key_is_ref x"
  "o_map_value_is_ref (renamed_object i i' x) = o_map_value_is_ref x"
  "o_weak_target (renamed_object i i' x) = renamed_value i i' (o_weak_target x)"
  "o_ephemeron_key (renamed_object i i' x) = renamed_value i i' (o_ephemeron_key x)"
  "o_ephemeron_value (renamed_object i i' x) = renamed_value i i' (o_ephemeron_value x)"
  "o_ephemeron_value_is_ref (renamed_object i i' x) = o_ephemeron_value_is_ref x"
  "reference_fields (renamed_object i i' x) = map (renamed_value i i') (reference_fields x)"
  by (simp_all add: renamed_object_def)

lemma renamed_object_width [simp]: "storage_slot_count (renamed_object i i' x) = storage_slot_count x"
proof -
  have "storage_slot_count (y\<lparr>o_weak_target := w, o_ephemeron_key := k, o_ephemeron_value := v\<rparr>) = storage_slot_count y"
    for y w k v
    by (cases "o_kind y") (simp_all add: storage_slot_count_def)
  then show ?thesis by (simp add: renamed_object_def)
qed

lemma renamed_object_shape: "shape_ok x \<Longrightarrow> shape_ok (renamed_object i i' x)"
  unfolding renamed_object_def by (subst shape_weak_fields) simp_all

lemma renamed_same_descriptor: "same_descriptor x (renamed_object i i' x)"
  by (simp add: same_descriptor_def renamed_object_def)

lemma renamed_references: "shape_ok x \<Longrightarrow> references_rewritten (renamed_value i i') x (renamed_object i i' x)"
  using references_rewritten_map [of x "renamed_value i i'"]
  by (simp add: renamed_object_def references_rewritten_def)

lemma renamed_map_entries:
  assumes "o_kind x = Map_kind"
  shows "o_map_entries (renamed_object i i' x) = map (\<lambda>e. e\<lparr>
      e_key := (if o_map_key_is_ref x then renamed_value i i' (e_key e) else e_key e),
      e_value := (if o_map_value_is_ref x then renamed_value i i' (e_value e) else e_value e)\<rparr>) (o_map_entries x)"
  using assms by (simp add: renamed_object_def map_reference_fields_def)


subsection \<open>The heap after a relocation\<close>

definition place_after :: "gcheap \<Rightarrow> object_id \<Rightarrow> nat \<Rightarrow> nat" where
  "place_after h i s = (if s = slot_index i then length (h_objects h) else s)"

definition grown_id :: "gcheap \<Rightarrow> object_id" where
  "grown_id h = object_id_at (length (h_objects h)) 1"

definition relocated :: "gcheap \<Rightarrow> object_id \<Rightarrow> nat \<Rightarrow> gcheap \<Rightarrow> bool" where
  "relocated h i w h' \<longleftrightarrow> (let i' = grown_id h; n = length (h_objects h) in
     length (h_objects h') = n + w \<and>
     (\<forall>s<n. h_objects h' ! s = (if s = slot_index i then None else map_option (renamed_object i i') (h_objects h ! s))) \<and>
     (\<forall>d<w. h_objects h' ! (n + d) =
       (if d = 0 then map_option (renamed_object i i') (h_objects h ! slot_index i) else None)) \<and>
     h_generations h' = h_generations h @ 1 # replicate (w - 1) 0 \<and> \<not> h_compaction_active h' \<and>
     set (h_remembered_set h') = renamed_id i i' ` set (h_remembered_set h) \<and>
     h_weak_refs h' = h_weak_refs h \<and> h_ephemerons h' = h_ephemerons h \<and> h_intern_table h' = h_intern_table h)"

definition growing :: "gcheap \<Rightarrow> object_id \<Rightarrow> nat \<Rightarrow> bool" where
  "growing h i w \<longleftrightarrow> heap_wf h \<and> current_slot h i \<and>
     storage_slot_count (object_at h (slot_index i)) \<le> w \<and> length (h_objects h) + w \<le> 4294967296 \<and>
     (o_kind (object_at h (slot_index i)) = Map_kind \<or> o_kind (object_at h (slot_index i)) = Builder)"

definition growth :: "gcheap \<Rightarrow> object_id \<Rightarrow> nat \<Rightarrow> gcheap \<Rightarrow> bool" where
  "growth h i w h' \<longleftrightarrow> growing h i w \<and> relocated h i w h'"

abbreviation moved_object :: "gcheap \<Rightarrow> object_id \<Rightarrow> gcobj \<Rightarrow> gcobj" where
  "moved_object h i \<equiv> renamed_object i (grown_id h)"

abbreviation moved_name :: "gcheap \<Rightarrow> object_id \<Rightarrow> object_id \<Rightarrow> object_id" where
  "moved_name h i \<equiv> renamed_id i (grown_id h)"

abbreviation moved_reading :: "gcheap \<Rightarrow> object_id \<Rightarrow> val \<Rightarrow> val" where
  "moved_reading h i \<equiv> renamed_value i (grown_id h)"

lemma growingD:
  assumes "growing h i w"
  shows "heap_wf h" "current_slot h i" "storage_slot_count (object_at h (slot_index i)) \<le> w"
    "length (h_objects h) + w \<le> 4294967296"
    "o_kind (object_at h (slot_index i)) = Map_kind \<or> o_kind (object_at h (slot_index i)) = Builder"
    "0 < w"
  using assms storage_slot_count_pos [of "object_at h (slot_index i)"] unfolding growing_def by linarith+

lemma growthD:
  assumes "growth h i w h'"
  shows "heap_wf h" "current_slot h i" "relocated h i w h'" "storage_slot_count (object_at h (slot_index i)) \<le> w"
    "length (h_objects h) + w \<le> 4294967296"
    "o_kind (object_at h (slot_index i)) = Map_kind \<or> o_kind (object_at h (slot_index i)) = Builder"
    "0 < w"
  using assms growingD [of h i w] unfolding growth_def by blast+

lemma relocatedD:
  assumes "relocated h i w h'"
  shows "length (h_objects h') = length (h_objects h) + w"
    "s < length (h_objects h) \<Longrightarrow> h_objects h' ! s =
      (if s = slot_index i then None else map_option (moved_object h i) (h_objects h ! s))"
    "d < w \<Longrightarrow> h_objects h' ! (length (h_objects h) + d) =
      (if d = 0 then map_option (moved_object h i) (h_objects h ! slot_index i) else None)"
    "h_generations h' = h_generations h @ 1 # replicate (w - 1) 0" "\<not> h_compaction_active h'"
    "set (h_remembered_set h') = moved_name h i ` set (h_remembered_set h)"
    "h_weak_refs h' = h_weak_refs h" "h_ephemerons h' = h_ephemerons h" "h_intern_table h' = h_intern_table h"
  using assms unfolding relocated_def Let_def by blast+

lemma growing_id_slot:
  assumes "growing h i w"
  shows "slot_index (grown_id h) = length (h_objects h)" "generation_from (grown_id h) = 1"
    "\<not> current_slot h (grown_id h)" "grown_id h \<noteq> i"
proof -
  have "length (h_objects h) < 4294967296" using growingD(4,6) [OF assms] by linarith
  then show "slot_index (grown_id h) = length (h_objects h)"
    unfolding grown_id_def by (rule slot_index_object_id_at)
  then show "\<not> current_slot h (grown_id h)" by (simp add: current_slot_def)
  then show "grown_id h \<noteq> i" using growingD(2) [OF assms] by auto
  show "generation_from (grown_id h) = 1" by (simp add: grown_id_def)
qed

lemma grown_id_slot:
  assumes "growth h i w h'"
  shows "slot_index (grown_id h) = length (h_objects h)" "generation_from (grown_id h) = 1"
    "\<not> current_slot h (grown_id h)" "grown_id h \<noteq> i"
  using assms growing_id_slot unfolding growth_def by blast+

lemma growth_holds:
  assumes g: "growth h i w h'"
  shows "holds h' t y \<longleftrightarrow> (\<exists>s x. holds h s x \<and> t = place_after h i s \<and> y = moved_object h i x)"
proof
  let ?n = "length (h_objects h)"
  note M = relocatedD [OF growthD(3) [OF g]]
  have x: "holds h (slot_index i) (object_at h (slot_index i))" by (rule current_slot_holds [OF growthD(2) [OF g]])
  assume y: "holds h' t y"
  show "\<exists>s x. holds h s x \<and> t = place_after h i s \<and> y = moved_object h i x"
  proof (cases "t < ?n")
    case True
    then show ?thesis using y M(2) [OF True] by (auto simp: holds_def place_after_def split: if_splits)
  next
    case False
    then obtain d where d: "t = ?n + d" using le_iff_add by (metis not_less)
    then have dw: "d < w" using y M(1) by (simp add: holds_def)
    then have "d = 0" "y = moved_object h i (object_at h (slot_index i))"
      using y M(3) [OF dw] x d by (auto simp: holds_def split: if_splits)
    then show ?thesis using d x by (auto simp: place_after_def)
  qed
next
  assume "\<exists>s x. holds h s x \<and> t = place_after h i s \<and> y = moved_object h i x"
  then obtain s x where s: "holds h s x" "t = place_after h i s" "y = moved_object h i x" by blast
  note M = relocatedD [OF growthD(3) [OF g]]
  show "holds h' t y"
    using s M(1) M(2) [of s] M(3) [of 0] growthD(7) [OF g] by (auto simp: holds_def place_after_def)
qed

lemma growth_object: "growth h i w h' \<Longrightarrow> holds h s x \<Longrightarrow> object_at h' (place_after h i s) = moved_object h i x"
  using growth_holds holds_object_at by blast

lemma growth_generation:
  assumes g: "growth h i w h'" and s: "s < length (h_objects h)"
  shows "h_generations h' ! (place_after h i s) = (if s = slot_index i then 1 else h_generations h ! s)"
proof -
  have "length (h_generations h) = length (h_objects h)"
    using heap_wfD(3) [OF growthD(1) [OF g]] by (simp add: generations_ok_def)
  with s show ?thesis by (simp add: relocatedD(4) [OF growthD(3) [OF g]] place_after_def nth_append)
qed

lemma growth_current:
  assumes g: "growth h i w h'" and j: "current_slot h j"
  shows "slot_index (moved_name h i j) = place_after h i (slot_index j)" "current_slot h' (moved_name h i j)"
    "object_at h' (slot_index (moved_name h i j)) = moved_object h i (object_at h (slot_index j))"
proof -
  note D = growthD [OF g] and G = grown_id_slot [OF g] and M = relocatedD [OF growthD(3) [OF g]]
  have same: "j = i \<longleftrightarrow> slot_index j = slot_index i"
    using current_slot_id_at [OF j] current_slot_id_at [OF D(2)] by metis
  then show slot: "slot_index (moved_name h i j) = place_after h i (slot_index j)"
    using G(1) by (simp add: renamed_id_def place_after_def)
  have x: "holds h (slot_index j) (object_at h (slot_index j))" by (rule current_slot_holds [OF j])
  show "object_at h' (slot_index (moved_name h i j)) = moved_object h i (object_at h (slot_index j))"
    unfolding slot by (rule growth_object [OF g x])
  have y: "holds h' (place_after h i (slot_index j)) (moved_object h i (object_at h (slot_index j)))"
    using growth_holds [OF g] x by blast
  have gen: "generation_from (moved_name h i j) = (if slot_index j = slot_index i then 1 else h_generations h ! slot_index j)"
    using same G(2) j by (simp add: renamed_id_def current_slot_def)
  have "generation_from (moved_name h i j) \<noteq> 0" using j G(2) by (simp add: renamed_id_def current_slot_def)
  moreover have "length (h_generations h') = length (h_objects h')"
    using heap_wfD(3) [OF D(1)] D(7) M(1) by (simp add: M(4) generations_ok_def)
  ultimately show "current_slot h' (moved_name h i j)"
    using y gen growth_generation [OF g holds_less [OF x]] unfolding current_slot_def slot by (simp add: holds_def)
qed


lemma growth_id_at:
  assumes g: "growth h i w h'" and x: "holds h s x"
  shows "id_at h' (place_after h i s) = moved_name h i (id_at h s)"
proof -
  note D = growthD [OF g]
  have c: "current_slot h (id_at h s)"
    by (rule generations_ok_current [OF heap_wfD(3,1) [OF D(1)] x])
  have "slot_index (id_at h s) = s" by (rule id_at_slot_index [OF heap_wfD(1) [OF D(1)] holds_less [OF x]])
  then have "slot_index (moved_name h i (id_at h s)) = place_after h i s" using growth_current(1) [OF g c] by simp
  then show ?thesis using current_slot_id_at [OF growth_current(2) [OF g c]] by simp
qed

lemma growth_plain: "growth h i w h' \<Longrightarrow> plain_identities h'"
  using growthD(5) relocatedD(1,5) [OF growthD(3)] by (simp add: plain_identities_def)

lemma growth_generations:
  assumes g: "growth h i w h'"
  shows "generations_ok h'"
proof -
  note D = growthD [OF g] and M = relocatedD [OF growthD(3) [OF g]]
  have ok: "generations_ok h" by (rule heap_wfD(3) [OF D(1)])
  have "length (h_generations h') = length (h_objects h')"
    using ok D(7) M(1) by (simp add: M(4) generations_ok_def)
  moreover have "\<forall>g\<in>set (h_generations h'). g \<le> kMaxGeneration"
    using ok by (auto simp: M(4) generations_ok_def kMaxGeneration_def)
  moreover have "h_generations h' ! t \<noteq> 0" if y: "holds h' t y" for t y
  proof -
    obtain s x where s: "holds h s x" "t = place_after h i s" using growth_holds [OF g] y by blast
    then show ?thesis
      using growth_generation [OF g holds_less [OF s(1)]] ok by (auto simp: generations_ok_def)
  qed
  ultimately show ?thesis by (simp add: generations_ok_def)
qed

lemma growth_current_iff:
  assumes g: "growth h i w h'"
  shows "current_slot h' j \<longleftrightarrow> (\<exists>k. current_slot h k \<and> j = moved_name h i k)"
proof
  note D = growthD [OF g]
  assume j: "current_slot h' j"
  obtain s x where s: "holds h s x" "slot_index j = place_after h i s"
    using growth_holds [OF g] current_slot_holds [OF j] by blast
  have "j = id_at h' (slot_index j)" using current_slot_id_at [OF j] by simp
  also have "\<dots> = moved_name h i (id_at h s)" unfolding s(2) by (rule growth_id_at [OF g s(1)])
  finally show "\<exists>k. current_slot h k \<and> j = moved_name h i k"
    using generations_ok_current [OF heap_wfD(3,1) [OF D(1)] s(1)] by blast
qed (use growth_current(2) [OF g] in blast)

lemma growth_valid: "growth h i w h' \<Longrightarrow> valid_ref h v \<Longrightarrow> valid_ref h' (moved_reading h i v)"
  using growth_current(2) by (cases v) auto

lemma growth_fields: "growth h i w h' \<Longrightarrow> fields_valid h'"
  unfolding fields_valid_def
proof (intro allI impI)
  fix t y v assume g: "growth h i w h'" and y: "holds h' t y" "v \<in> set (reference_fields y)"
  obtain s x where s: "holds h s x" "y = moved_object h i x" using growth_holds [OF g] y(1) by blast
  then obtain u where "u \<in> set (reference_fields x)" "v = moved_reading h i u" using y(2) by auto
  then show "valid_ref h' v"
    using heap_wfD(5) [OF growthD(1) [OF g]] s(1) growth_valid [OF g] by (auto simp: fields_valid_def)
qed

lemma growth_remembered:
  assumes g: "growth h i w h'"
  shows "remembered_ok h'"
proof -
  note D = growthD [OF g] and M = relocatedD [OF growthD(3) [OF g]]
  have ok: "remembered_ok h" by (rule heap_wfD(6) [OF D(1)])
  have "current_slot h' j \<and> o_generation (object_at h' (slot_index j)) = Old"
    if j: "j \<in> set (h_remembered_set h')" for j
  proof -
    obtain k where k: "k \<in> set (h_remembered_set h)" "j = moved_name h i k" using j M(6) by auto
    then have c: "current_slot h k" "o_generation (object_at h (slot_index k)) = Old" using ok by (auto simp: remembered_ok_def)
    then show ?thesis using growth_current(2,3) [OF g c(1)] k(2) by simp
  qed
  moreover have "id_at h' t \<in> set (h_remembered_set h')"
    if y: "holds h' t y" "o_generation y = Old" "VObject j \<in> set (reference_fields y)"
      "o_generation (object_at h' (slot_index j)) = Young" for t y j
  proof -
    obtain s x where s: "holds h s x" "t = place_after h i s" "y = moved_object h i x"
      using growth_holds [OF g] y(1) by blast
    obtain u where u: "u \<in> set (reference_fields x)" "VObject j = moved_reading h i u" using y(3) s(3) by auto
    from u(2) obtain k where k: "u = VObject k" "j = moved_name h i k" by (cases u) auto
    have c: "current_slot h k" using fields_validD [OF heap_wfD(5) [OF D(1)] s(1)] u(1) k(1) by simp
    have "o_generation (object_at h (slot_index k)) = Young" using y(4) growth_current(3) [OF g c] k(2) by simp
    then have "id_at h s \<in> set (h_remembered_set h)"
      using ok s u(1) k(1) y(2) by (auto simp: remembered_ok_def)
    then show ?thesis using M(6) growth_id_at [OF g s(1)] s(2) by simp
  qed
  ultimately show ?thesis by (simp add: remembered_ok_def)
qed

lemma growth_kind_slots:
  assumes g: "growth h i w h'" and k: "k \<noteq> Map_kind" "k \<noteq> Builder"
  shows "kind_slots k h' = kind_slots k h" "s \<in> set (kind_slots k h) \<Longrightarrow> place_after h i s = s"
    "s \<in> set (kind_slots k h) \<Longrightarrow> id_at h' s = id_at h s \<and> object_at h' s = moved_object h i (object_at h s)"
proof -
  note D = growthD [OF g]
  have same: "place_after h i s = s" if "holds h s x" "o_kind x = k" for s x
    using that D(6) k holds_object_at [OF that(1)] by (auto simp: place_after_def)
  show at: "place_after h i s = s" if "s \<in> set (kind_slots k h)" for s
    using that same by (auto simp: kind_slots_iff)
  show "id_at h' s = id_at h s \<and> object_at h' s = moved_object h i (object_at h s)" if s: "s \<in> set (kind_slots k h)" for s
  proof -
    have x: "holds h s (object_at h s)" using s by (simp add: kind_slots_iff)
    have "id_at h s \<noteq> i"
    proof
      assume "id_at h s = i"
      then have "slot_index i = s" using id_at_slot_index [OF heap_wfD(1) [OF D(1)] holds_less [OF x]] by simp
      then show False using at [OF s] holds_less [OF x] by (simp add: place_after_def)
    qed
    then show ?thesis using growth_id_at [OF g x] growth_object [OF g x] at [OF s] by (simp add: renamed_id_def)
  qed
  have "s \<in> set (kind_slots k h') \<longleftrightarrow> s \<in> set (kind_slots k h)" for s
  proof
    assume s: "s \<in> set (kind_slots k h')"
    then have "holds h' s (object_at h' s)" "o_kind (object_at h' s) = k" by (simp_all add: kind_slots_iff)
    then obtain t x where t: "holds h t x" "s = place_after h i t" "o_kind x = k"
      using growth_holds [OF g] by (metis renamed_object_frame(1))
    then show "s \<in> set (kind_slots k h)" using same [OF t(1,3)] holds_object_at [OF t(1)] by (simp add: kind_slots_iff)
  next
    assume s: "s \<in> set (kind_slots k h)"
    then have x: "holds h s (object_at h s)" "o_kind (object_at h s) = k" by (simp_all add: kind_slots_iff)
    then have y: "holds h' s (moved_object h i (object_at h s))" using growth_holds [OF g] same [OF x] by metis
    with x(2) show "s \<in> set (kind_slots k h')" using holds_object_at [OF y] by (simp add: kind_slots_iff)
  qed
  then have "set (kind_slots k h') = set (kind_slots k h)" by blast
  then show "kind_slots k h' = kind_slots k h"
    by (intro sorted_distinct_set_unique) (simp_all add: strict_sorted_imp_sorted [OF kind_slots_sorted])
qed

lemma growth_weak:
  assumes g: "growth h i w h'"
  shows "weak_ok h'"
proof -
  note D = growthD [OF g] and M = relocatedD [OF growthD(3) [OF g]]
  note K = growth_kind_slots [OF g, of WeakRef]
  have ok: "weak_ok h" by (rule heap_wfD(7) [OF D(1)])
  have "weak_slot_good h' s" if s: "s \<in> set (kind_slots WeakRef h)" for s
  proof -
    have x: "holds h s (object_at h s)" using s by (simp add: kind_slots_iff)
    have y: "holds h' s (moved_object h i (object_at h s))" using growth_holds [OF g] x K(2) [OF _ _ s] by (metis object_kind.distinct)
    have c: "current_slot h' (id_at h' s)"
      by (rule generations_ok_current [OF growth_generations [OF g] growth_plain [OF g] y])
    have "weak_slot_good h s" using ok s by (simp add: weak_ok_def)
    then show ?thesis
      using K(3) [OF _ _ s] c growth_valid [OF g] by (simp add: weak_slot_good_def reference_tag_def del: tag_simps)
  qed
  then show ?thesis using ok K(1,3) M(7) by (simp add: weak_ok_def)
qed

lemma growth_ephemerons:
  assumes g: "growth h i w h'"
  shows "ephemerons_ok h'"
proof -
  note D = growthD [OF g] and M = relocatedD [OF growthD(3) [OF g]]
  note K = growth_kind_slots [OF g, of Ephemeron]
  have ok: "ephemerons_ok h" by (rule heap_wfD(9) [OF D(1)])
  have "ephemeron_slot_good h' s" if s: "s \<in> set (kind_slots Ephemeron h)" for s
  proof -
    have x: "holds h s (object_at h s)" using s by (simp add: kind_slots_iff)
    have y: "holds h' s (moved_object h i (object_at h s))" using growth_holds [OF g] x K(2) [OF _ _ s] by (metis object_kind.distinct)
    have c: "current_slot h' (id_at h' s)"
      by (rule generations_ok_current [OF growth_generations [OF g] growth_plain [OF g] y])
    have "ephemeron_slot_good h s" using ok s by (simp add: ephemerons_ok_def)
    then show ?thesis
      using K(3) [OF _ _ s] c growth_valid [OF g] renamed_object_shape by (simp add: ephemeron_slot_good_def)
  qed
  then show ?thesis using ok K(1,3) M(8) by (simp add: ephemerons_ok_def)
qed


lemma growth_string_bytes:
  assumes g: "growth h i w h'" and c: "current_slot h k"
  shows "string_bytes (moved_name h i k) h' = string_bytes k h"
proof -
  have shape: "shape_ok (object_at h (slot_index k))"
    by (rule heap_wf_shape [OF growthD(1) [OF g] current_slot_holds [OF c]])
  note G = growth_current [OF g c]
  have shape': "shape_ok (object_at h' (slot_index (moved_name h i k)))"
    unfolding G(3) by (rule renamed_object_shape [OF shape])
  show ?thesis
    using string_bytes_checked [OF c shape] string_bytes_checked [OF G(2) shape'] G(3) by simp
qed

lemma growth_key_hash:
  assumes g: "growth h i w h'" and v: "valid_ref h v"
  shows "map_key_hash h' (moved_reading h i v) = map_key_hash h v"
  using v growth_string_bytes [OF g] by (cases v) simp_all

lemma growth_map_index:
  assumes g: "growth h i w h'" and x: "holds h s x" and k: "o_kind x = Map_kind"
  shows "validate_map_index (moved_object h i x) h' = Inr ()"
proof -
  note D = growthD [OF g]
  have shape: "shape_ok x" by (rule heap_wf_shape [OF D(1) x])
  have ok: "validate_map_index x h = Inr ()"
    using heap_wfD(4) [OF D(1)] x k by (simp add: layout_ok_def slot_layout_ok_def)
  have key: "map_key_hash h' (if o_map_key_is_ref x then moved_reading h i (e_key e) else e_key e) = map_key_hash h (e_key e)"
    if e: "e \<in> set (o_map_entries x)" for e
  proof (cases "o_map_key_is_ref x")
    case True
    have "e_key e \<in> set (reference_fields x)"
      using True k e by (auto simp: reference_fields_def intro!: bexI [of _ e])
    then have "valid_ref h (e_key e)" using heap_wfD(5) [OF D(1)] x by (auto simp: fields_valid_def)
    with True show ?thesis using growth_key_hash [OF g] by simp
  next
    case False
    then have "scalar_tag (e_key e)" by (rule map_shape_keys(2) [OF shape k e])
    with False show ?thesis by (cases "e_key e") (simp_all add: scalar_tag_def)
  qed
  have "validate_map_lookup_index (map_key_hash h') (o_map_entries (moved_object h i x)) index =
    validate_map_lookup_index (map_key_hash h) (o_map_entries x) index" for index
    using key by (intro validate_map_lookup_index_cong) (auto simp: renamed_map_entries [OF k] list_all2_conv_all_nth)
  with ok k show ?thesis by (simp add: validate_map_index_def)
qed

lemma growth_layout:
  assumes g: "growth h i w h'"
  shows "layout_ok h'"
  unfolding layout_ok_def
proof (intro allI impI)
  fix t y assume y: "holds h' t y"
  note D = growthD [OF g] and M = relocatedD [OF growthD(3) [OF g]]
  let ?n = "length (h_objects h)"
  obtain s x where s: "holds h s x" "t = place_after h i s" "y = moved_object h i x" using growth_holds [OF g] y by blast
  have lay: "slot_layout_ok h s x" using heap_wfD(4) [OF D(1)] s(1) by (simp add: layout_ok_def)
  have ix: "o_kind y = Map_kind \<Longrightarrow> validate_map_index y h' = Inr ()"
    using growth_map_index [OF g s(1)] s(3) by simp
  have shape: "shape_ok y" unfolding s(3) by (rule renamed_object_shape [OF heap_wf_shape [OF D(1) s(1)]])
  have "t + storage_slot_count y \<le> length (h_objects h') \<and>
      (\<forall>d. 0 < d \<longrightarrow> d < storage_slot_count y \<longrightarrow> h_objects h' ! (t + d) = None)"
  proof (cases "s = slot_index i")
    case True
    then have t: "t = ?n" and x: "x = object_at h (slot_index i)"
      using s(1,2) holds_object_at [OF s(1)] by (simp_all add: place_after_def)
    show ?thesis using D(4) M(1) M(3) unfolding t s(3) x by simp
  next
    case False
    then have t: "t = s" using s(2) by (simp add: place_after_def)
    have "h_objects h' ! (s + d) = None" if "0 < d" "d < storage_slot_count x" for d
    proof -
      have "s + d < ?n" "h_objects h ! (s + d) = None" using lay that by (simp_all add: slot_layout_ok_def)
      then show ?thesis using M(2) by simp
    qed
    then show ?thesis using lay M(1) unfolding t s(3) by (simp add: slot_layout_ok_def)
  qed
  with ix shape show "slot_layout_ok h' t y" by (simp add: slot_layout_ok_def)
qed

lemma growth_interns:
  assumes g: "growth h i w h'"
  shows "interns_ok h'"
proof -
  note D = growthD [OF g]
  have tbl: "h_intern_table h' = h_intern_table h" by (rule relocatedD(9) [OF D(3)])
  note ok = heap_wfD(8) [OF D(1), unfolded interns_ok_iff]
  have obj: "intern_object h' e = moved_object h i (intern_object h e) \<and> current_slot h' (canonical e)"
    if e: "e \<in> set (h_intern_table h)" for e
  proof -
    have c: "current_slot h (canonical e)" "o_kind (object_at h (slot_index (canonical e))) = Str"
      using ok e by (auto simp: intern_entry_ok_def intern_object_def)
    then have "canonical e \<noteq> i" using D(6) by auto
    then have "moved_name h i (canonical e) = canonical e" by (simp add: renamed_id_def)
    then show ?thesis using growth_current(2,3) [OF g c(1)] by (simp add: intern_object_def)
  qed
  have "intern_entry_ok h' e" if e: "e \<in> set (h_intern_table h)" for e
    using ok e obj [OF e] renamed_object_shape by (simp add: intern_entry_ok_def)
  moreover have "sorted_wrt (\<lambda>e e'. slot_index (canonical e) < slot_index (canonical e') \<and>
      o_string_bytes (intern_object h' e) \<noteq> o_string_bytes (intern_object h' e')) (h_intern_table h)"
    by (rule sorted_wrt_mono_rel [OF _ conjunct2 [OF ok]]) (use obj in simp)
  ultimately show ?thesis unfolding interns_ok_iff tbl by blast
qed

lemma growth_wf: "growth h i w h' \<Longrightarrow> heap_wf h'"
  unfolding heap_wf_def
  by (intro conjI growth_plain growth_generations growth_layout growth_fields growth_remembered growth_weak
      growth_interns growth_ephemerons)


subsection \<open>The relocation\<close>

lemma renamed_plain:
  assumes "shape_ok x" "o_kind x \<noteq> WeakRef" "o_kind x \<noteq> Ephemeron"
  shows "renamed_object i i' x = map_reference_fields (renamed_value i i') x"
proof -
  have "o_weak_target x = VNil" "o_ephemeron_key x = VNil" "o_ephemeron_value x = VNil"
    using shape_weak_nil [OF assms(1)] assms(2,3) by simp_all
  then show ?thesis by (intro gcobj.equality) (simp_all add: renamed_object_def)
qed

lemma renamed_weak:
  assumes "shape_ok x" "o_kind x = WeakRef"
  shows "renamed_object i i' x = x\<lparr>o_weak_target := renamed_value i i' (o_weak_target x)\<rparr>"
    "map_reference_fields g x = x"
proof -
  have "o_ephemeron_key x = VNil" "o_ephemeron_value x = VNil"
    using shape_weak_nil [OF assms(1)] assms(2) by simp_all
  then show "renamed_object i i' x = x\<lparr>o_weak_target := renamed_value i i' (o_weak_target x)\<rparr>"
    using assms(2) by (intro gcobj.equality) (simp_all add: renamed_object_def map_reference_fields_def)
qed (use assms in \<open>simp add: map_reference_fields_def\<close>)

lemma renamed_ephemeron:
  assumes "shape_ok x" "o_kind x = Ephemeron"
  shows "renamed_object i i' x = x\<lparr>o_ephemeron_key := renamed_value i i' (o_ephemeron_key x),
      o_ephemeron_value := renamed_value i i' (o_ephemeron_value x)\<rparr>"
    "map_reference_fields g x = x"
proof -
  have "o_weak_target x = VNil" using shape_weak_nil [OF assms(1)] assms(2) by simp
  then show "renamed_object i i' x = x\<lparr>o_ephemeron_key := renamed_value i i' (o_ephemeron_key x),
      o_ephemeron_value := renamed_value i i' (o_ephemeron_value x)\<rparr>"
    using assms(2) by (intro gcobj.equality) (simp_all add: renamed_object_def map_reference_fields_def)
qed (use assms in \<open>simp add: map_reference_fields_def\<close>)

lemma growing_value_object:
  assumes g: "growing h i w" and c: "current_slot h j"
  shows "value_object (moved_name h i j) = Inr (VObject (moved_name h i j))"
proof (rule value_object_ok)
  have "generation_from j \<le> kMaxGeneration"
    using heap_wfD(3) [OF growingD(1) [OF g]] c by (metis current_slot_def generations_ok_def nth_mem)
  then show "generation_from (moved_name h i j) \<le> kMaxGeneration"
    using growing_id_slot(2) [OF g] by (simp add: renamed_id_def kMaxGeneration_def)
qed

lemma growing_forwarded:
  assumes g: "growing h i w"
  shows "forwarded (growth_forwarding (slot_index i) (grown_id h) h) s =
    (if \<exists>x. holds h s x then Some (moved_name h i (id_at h s)) else None)"
proof -
  note D = growingD [OF g]
  have x: "holds h (slot_index i) (object_at h (slot_index i))" by (rule current_slot_holds [OF D(2)])
  have "id_at h s = i \<longleftrightarrow> s = slot_index i" if "s < length (h_objects h)" for s
    using id_at_slot_index [OF heap_wfD(1) [OF D(1)] that] current_slot_id_at [OF D(2)] by metis
  then show ?thesis
    using holds_less [OF x] x
    by (auto simp: forwarded_def growth_forwarding_def nth_list_update renamed_id_def holds_def split: option.split)
qed

lemma growing_forwards:
  assumes g: "growing h i w" and c: "current_slot h j"
  shows "forwarded (growth_forwarding (slot_index i) (grown_id h) h) (slot_index j) = Some (moved_name h i j)"
  using current_slot_holds [OF c] current_slot_id_at [OF c] by (auto simp: growing_forwarded [OF g])

lemma growing_rewrite_value:
  assumes g: "growing h i w" and like: "reads_like h k" and v: "valid_ref h v"
  shows "rewrite_value k (growth_forwarding (slot_index i) (grown_id h) h) v = Inr (moved_reading h i v)"
proof (cases v)
  case (VObject j)
  then have c: "current_slot h j" using v by simp
  then have "checked_slot j k = Inr (slot_index j)" using like by (simp add: reads_like_def)
  with VObject show ?thesis
    by (simp add: rewrite_value_def growing_forwards [OF g c] growing_value_object [OF g c])
qed (simp_all add: rewrite_value_def)

lemma growing_remembered:
  assumes g: "growing h i w"
  shows "\<exists>R. rewrite_remembered_set h (growth_forwarding (slot_index i) (grown_id h) h) = Inr R \<and>
    set R = moved_name h i ` set (h_remembered_set h)"
proof -
  let ?fwd = "growth_forwarding (slot_index i) (grown_id h) h"
  let ?f = "\<lambda>remembered rewritten. ebind (checked_slot remembered h) (\<lambda>old_slot.
       case forwarded ?fwd old_slot of None \<Rightarrow> Inr rewritten
       | Some j \<Rightarrow> Inr (if j \<in> set rewritten then rewritten else rewritten @ [j]))"
  have "\<exists>R. efold ?f ids acc = Inr R \<and> set R = set acc \<union> moved_name h i ` set ids"
    if "\<forall>j\<in>set ids. current_slot h j" for ids acc
    using that
  proof (induction ids arbitrary: acc)
    case (Cons j ids)
    have c: "current_slot h j" using Cons.prems by simp
    let ?acc = "if moved_name h i j \<in> set acc then acc else acc @ [moved_name h i j]"
    have "checked_slot j h = Inr (slot_index j)" using c by simp
    then have "?f j acc = Inr ?acc" by (simp add: growing_forwards [OF g c])
    moreover obtain R where "efold ?f ids ?acc = Inr R" "set R = set ?acc \<union> moved_name h i ` set ids"
      using Cons.IH [of ?acc] Cons.prems by auto
    ultimately show ?case by (auto split: if_splits)
  qed simp
  moreover have "\<forall>j\<in>set (h_remembered_set h). current_slot h j"
    using heap_wfD(6) [OF growingD(1) [OF g]] by (simp add: remembered_ok_def)
  ultimately show ?thesis unfolding rewrite_remembered_set_def by fastforce
qed

text \<open>The walk over a registry whose owners stay in place.\<close>

lemma registry_stays:
  assumes "distinct ss" and len: "\<forall>s\<in>set ss. s < length objs"
    and stage: "\<And>s. s \<in> set ss \<Longrightarrow> objs ! s = Some (stage s)"
    and step: "\<And>s objs acc. s \<in> set ss \<Longrightarrow> s < length objs \<Longrightarrow> objs ! s = Some (stage s) \<Longrightarrow>
      f (id_at h s) (objs, acc) = Inr (objs[s := Some (change s)], acc @ [id_at h s])"
  shows "\<exists>objs'. efold f (map (id_at h) ss) (objs, acc) = Inr (objs', acc @ map (id_at h) ss) \<and>
    length objs' = length objs \<and> (\<forall>s. objs' ! s = (if s \<in> set ss then Some (change s) else objs ! s))"
  using assms
proof (induction ss arbitrary: objs acc)
  case (Cons s ss)
  let ?objs = "objs[s := Some (change s)]"
  have first: "f (id_at h s) (objs, acc) = Inr (?objs, acc @ [id_at h s])" using Cons.prems by simp
  have "\<exists>objs'. efold f (map (id_at h) ss) (?objs, acc @ [id_at h s]) = Inr (objs', (acc @ [id_at h s]) @ map (id_at h) ss) \<and>
    length objs' = length ?objs \<and> (\<forall>t. objs' ! t = (if t \<in> set ss then Some (change t) else ?objs ! t))"
  proof (rule Cons.IH)
    show "?objs ! t = Some (stage t)" if "t \<in> set ss" for t
      using that Cons.prems(1,3) by (metis distinct.simps(2) list.set_intros(2) nth_list_update_neq)
  qed (use Cons.prems in simp_all)
  then obtain objs' where o: "efold f (map (id_at h) ss) (?objs, acc @ [id_at h s]) = Inr (objs', (acc @ [id_at h s]) @ map (id_at h) ss)"
    "length objs' = length objs" "\<forall>t. objs' ! t = (if t \<in> set ss then Some (change t) else ?objs ! t)" by auto
  have "objs' ! t = (if t \<in> set (s # ss) then Some (change t) else objs ! t)" for t
    using o(3) Cons.prems(1,2) by (auto simp: nth_list_update)
  then show ?case using first o(1,2) by (intro exI [of _ objs']) simp
qed simp


text \<open>The object vector in the four stages of the relocation.\<close>

definition lifted_objects :: "gcheap \<Rightarrow> object_id \<Rightarrow> nat \<Rightarrow> gcobj option list" where
  "lifted_objects h i w = (h_objects h @ replicate w None)
     [slot_index i := None, length (h_objects h) := Some (object_at h (slot_index i))]"

lemma lifted_nth:
  assumes g: "growing h i w"
  shows "length (lifted_objects h i w) = length (h_objects h) + w"
    "t < length (h_objects h) \<Longrightarrow> lifted_objects h i w ! t = (if t = slot_index i then None else h_objects h ! t)"
    "d < w \<Longrightarrow> lifted_objects h i w ! (length (h_objects h) + d) =
      (if d = 0 then h_objects h ! slot_index i else None)"
proof -
  note D = growingD [OF g]
  have x: "holds h (slot_index i) (object_at h (slot_index i))" by (rule current_slot_holds [OF D(2)])
  then have s: "slot_index i < length (h_objects h)" by (rule holds_less)
  show "length (lifted_objects h i w) = length (h_objects h) + w" by (simp add: lifted_objects_def)
  show "lifted_objects h i w ! t = (if t = slot_index i then None else h_objects h ! t)" if "t < length (h_objects h)"
    using that by (auto simp: lifted_objects_def nth_list_update nth_append)
  show "lifted_objects h i w ! (length (h_objects h) + d) = (if d = 0 then h_objects h ! slot_index i else None)" if "d < w"
    using that s x by (auto simp: lifted_objects_def nth_list_update nth_append holds_def)
qed

lemma lifted_object:
  assumes g: "growing h i w" and x: "Some x \<in> set (lifted_objects h i w)"
  shows "\<exists>s. holds h s x"
proof -
  obtain t where t: "t < length (h_objects h) + w" "lifted_objects h i w ! t = Some x"
    using x lifted_nth(1) [OF g] by (metis in_set_conv_nth)
  show ?thesis
  proof (cases "t < length (h_objects h)")
    case True
    then show ?thesis using t lifted_nth(2) [OF g True] by (auto simp: holds_def split: if_splits)
  next
    case False
    then obtain d where d: "t = length (h_objects h) + d" using le_iff_add by (metis not_less)
    then have "d < w" using t(1) by simp
    with t(2) d have "h_objects h ! slot_index i = Some x" using lifted_nth(3) [OF g] by (simp split: if_splits)
    then show ?thesis using holds_less [OF current_slot_holds [OF growingD(2) [OF g]]] by (auto simp: holds_def)
  qed
qed

lemma growing_rewrite_objects:
  assumes g: "growing h i w" and like: "reads_like h k"
  shows "emap (rewrite_slot (rewrite_value k (growth_forwarding (slot_index i) (grown_id h) h))) (lifted_objects h i w) =
    Inr (map (map_option (map_reference_fields (moved_reading h i))) (lifted_objects h i w))"
proof (rule emap_map)
  fix slot assume slot: "slot \<in> set (lifted_objects h i w)"
  show "rewrite_slot (rewrite_value k (growth_forwarding (slot_index i) (grown_id h) h)) slot =
      Inr (map_option (map_reference_fields (moved_reading h i)) slot)"
  proof (cases slot)
    case (Some x)
    then obtain s where s: "holds h s x" using lifted_object [OF g] slot by blast
    have "update_reference_fields (rewrite_value k (growth_forwarding (slot_index i) (grown_id h) h)) x =
        Inr (map_reference_fields (moved_reading h i) x)"
    proof (rule update_reference_fields_map)
      show "shape_ok x" by (rule heap_wf_shape [OF growingD(1) [OF g] s])
      fix v assume "v \<in> set (reference_fields x)"
      then have "valid_ref h v" using heap_wfD(5) [OF growingD(1) [OF g]] s by (auto simp: fields_valid_def)
      then show "rewrite_value k (growth_forwarding (slot_index i) (grown_id h) h) v = Inr (moved_reading h i v)"
        by (rule growing_rewrite_value [OF g like])
    qed
    with Some show ?thesis by simp
  qed simp
qed

lemma growing_registry:
  assumes g: "growing h i w" and k: "k \<noteq> Map_kind" "k \<noteq> Builder" and s: "s \<in> set (kind_slots k h)"
  shows "holds h s (object_at h s)" "o_kind (object_at h s) = k" "shape_ok (object_at h s)" "s \<noteq> slot_index i"
    "checked_slot (id_at h s) h = Inr s" "moved_name h i (id_at h s) = id_at h s" "slot_index (id_at h s) = s"
    "forwarded (growth_forwarding (slot_index i) (grown_id h) h) s = Some (id_at h s)"
    "h_objects h ! s = Some (object_at h s)"
proof -
  note D = growingD [OF g]
  show x: "holds h s (object_at h s)" "o_kind (object_at h s) = k" using s by (simp_all add: kind_slots_iff)
  show "shape_ok (object_at h s)" by (rule heap_wf_shape [OF D(1) x(1)])
  show ne: "s \<noteq> slot_index i" using D(5) x(2) k by auto
  show "checked_slot (id_at h s) h = Inr s" by (rule registered_owner [OF D(1) x(1)])
  show idx: "slot_index (id_at h s) = s" by (rule id_at_slot_index [OF heap_wfD(1) [OF D(1)] holds_less [OF x(1)]])
  show nm: "moved_name h i (id_at h s) = id_at h s" using ne idx by (auto simp: renamed_id_def)
  show "forwarded (growth_forwarding (slot_index i) (grown_id h) h) s = Some (id_at h s)"
    using x(1) nm by (auto simp: growing_forwarded [OF g])
  show "h_objects h ! s = Some (object_at h s)" using x(1) by (simp add: holds_def)
qed

lemma growing_weak_targets:
  assumes g: "growing h i w" and like: "reads_like h k" and regs: "h_weak_refs k = h_weak_refs h"
    and len: "length objs = length (h_objects h) + w"
    and objs: "\<And>s. s \<in> set (kind_slots WeakRef h) \<Longrightarrow> objs ! s = Some (object_at h s)"
  shows "\<exists>objs'. process_weak_targets k (growth_forwarding (slot_index i) (grown_id h) h) objs =
      Inr (objs', h_weak_refs h) \<and> length objs' = length objs \<and>
    (\<forall>s. objs' ! s = (if s \<in> set (kind_slots WeakRef h) then Some (moved_object h i (object_at h s)) else objs ! s))"
proof -
  note D = growingD [OF g] and R = growing_registry [OF g, of WeakRef]
  let ?fwd = "growth_forwarding (slot_index i) (grown_id h) h" and ?ss = "kind_slots WeakRef h"
  have weak: "weak_ok h" by (rule heap_wfD(7) [OF D(1)])
  have "\<exists>objs'. efold (process_weak_owner k ?fwd) (map (id_at h) ?ss) (objs, []) = Inr (objs', [] @ map (id_at h) ?ss) \<and>
      length objs' = length objs \<and>
      (\<forall>s. objs' ! s = (if s \<in> set ?ss then Some (moved_object h i (object_at h s)) else objs ! s))"
  proof (rule registry_stays [where stage = "object_at h"])
    show "\<forall>s\<in>set ?ss. s < length objs" using len by (auto simp: kind_slots_iff dest!: holds_less)
    fix s acc and objs :: "gcobj option list"
    assume s: "s \<in> set ?ss" "s < length objs" "objs ! s = Some (object_at h s)"
    note r = R [OF _ _ s(1), simplified]
    have good: "reference_tag (o_weak_target (object_at h s))" "valid_ref h (o_weak_target (object_at h s))"
      using weak s(1) by (simp_all add: weak_ok_def weak_slot_good_def)
    have "process_weak_target k ?fwd (o_weak_target (object_at h s)) = Inr (moved_reading h i (o_weak_target (object_at h s)))"
    proof (cases "o_weak_target (object_at h s)")
      case (VObject j)
      then have c: "current_slot h j" using good by simp
      with VObject like show ?thesis
        by (simp add: process_weak_target_def reads_like_def growing_forwards [OF g c] growing_value_object [OF g c])
    qed (use good in \<open>simp_all add: process_weak_target_def reference_tag_def\<close>)
    then show "process_weak_owner k ?fwd (id_at h s) (objs, acc) =
        Inr (objs[s := Some (moved_object h i (object_at h s))], acc @ [id_at h s])"
      using s(2,3) r like by (simp add: process_weak_owner_def reads_like_def Let_def renamed_weak)
  qed (use objs in simp_all)
  then obtain objs' where o: "efold (process_weak_owner k ?fwd) (map (id_at h) ?ss) (objs, []) = Inr (objs', map (id_at h) ?ss)"
    "length objs' = length objs"
    "\<forall>s. objs' ! s = (if s \<in> set ?ss then Some (moved_object h i (object_at h s)) else objs ! s)" by auto
  have "eall (\<lambda>i. ethrow_if (slot_index (map (id_at h) ?ss ! (i - 1)) \<ge> slot_index (map (id_at h) ?ss ! i))
      (Logic_error msg_weak_move_order)) [1..<length (map (id_at h) ?ss)] = Inr ()"
    unfolding eall_ok_iff
  proof
    fix m assume "m \<in> set [1..<length (map (id_at h) ?ss)]"
    then have m: "0 < m" "m < length ?ss" by simp_all
    then have "?ss ! (m - 1) < ?ss ! m" using kind_slots_sorted by (intro sorted_wrt_nth_less) simp_all
    moreover have "?ss ! (m - 1) \<in> set ?ss" "?ss ! m \<in> set ?ss" using m by simp_all
    ultimately show "ethrow_if (slot_index (map (id_at h) ?ss ! (m - 1)) \<ge> slot_index (map (id_at h) ?ss ! m))
      (Logic_error msg_weak_move_order) = Inr ()"
      using m R(7) by simp
  qed
  then have "process_weak_targets k ?fwd objs = Inr (objs', map (id_at h) ?ss)"
    using o(1) weak regs by (simp add: process_weak_targets_def weak_ok_def)
  moreover have "h_weak_refs h = map (id_at h) ?ss" using weak by (simp add: weak_ok_def)
  ultimately show ?thesis using o(2,3) by (intro exI [of _ objs']) simp
qed


lemma growing_ephemeron_object:
  assumes g: "growing h i w" and like: "reads_like h k" and s: "s \<in> set (kind_slots Ephemeron h)"
  shows "process_ephemeron_object k (growth_forwarding (slot_index i) (grown_id h) h) (object_at h s) =
    Inr (moved_object h i (object_at h s))"
proof -
  let ?x = "object_at h s" and ?fwd = "growth_forwarding (slot_index i) (grown_id h) h"
  note r = growing_registry [OF g, of Ephemeron, OF _ _ s, simplified]
  note fwd = growing_forwards [OF g] and vo = growing_value_object [OF g]
  have good: "valid_ref h (o_ephemeron_key ?x)" "o_ephemeron_value_is_ref ?x \<Longrightarrow> valid_ref h (o_ephemeron_value ?x)"
    using heap_wfD(9) [OF growingD(1) [OF g]] s by (simp_all add: ephemerons_ok_def ephemeron_slot_good_def)
  have shape: "reference_tag (o_ephemeron_key ?x)" "o_ephemeron_key ?x = VNil \<Longrightarrow> o_ephemeron_value ?x = VNil"
    using r(2,3) by (auto simp: validate_descriptor_shape_def shape_ephemeron_def ethen_Inr_iff Let_def)
  note ren = renamed_ephemeron(1) [OF r(3,2)]
  show ?thesis
  proof (cases "o_ephemeron_key ?x")
    case (VObject k')
    then have c: "current_slot h k'" using good(1) by simp
    show ?thesis
    proof (cases "o_ephemeron_value_is_ref ?x \<and> is_object (o_ephemeron_value ?x)")
      case True
      then obtain v where v: "o_ephemeron_value ?x = VObject v" by (auto simp: is_object_iff)
      then have cv: "current_slot h v" using good(2) True by simp
      with v True VObject c like show ?thesis
        by (simp add: process_ephemeron_object_def Let_def reads_like_def fwd [OF c] fwd [OF cv] vo [OF c] vo [OF cv] ren)
    next
      case False
      have "moved_reading h i (o_ephemeron_value ?x) = o_ephemeron_value ?x"
        using False shape_weak_tags(3) [OF r(3,2)] by (cases "o_ephemeron_value ?x") auto
      moreover have "y\<lparr>o_ephemeron_key := a, o_ephemeron_value := o_ephemeron_value y\<rparr> = y\<lparr>o_ephemeron_key := a\<rparr>"
        for y :: gcobj and a by (rule gcobj.equality) simp_all
      moreover have "process_ephemeron_object k ?fwd ?x = Inr (?x\<lparr>o_ephemeron_key := VObject (moved_name h i k')\<rparr>)"
        using VObject c like False
        by (simp only: process_ephemeron_object_def Let_def False if_False)
          (simp add: reads_like_def fwd [OF c] vo [OF c])
      ultimately show ?thesis using VObject by (simp add: ren)
    qed
  next
    case VNil
    then show ?thesis
      using shape(2) by (auto simp: process_ephemeron_object_def Let_def ren intro!: gcobj.equality)
  qed (use shape(1) in \<open>auto simp: reference_tag_def\<close>)
qed

lemma growing_ephemerons:
  assumes g: "growing h i w" and like: "reads_like h k" and regs: "h_ephemerons k = h_ephemerons h"
    and len: "length objs = length (h_objects h) + w"
    and objs: "\<And>s. s \<in> set (kind_slots Ephemeron h) \<Longrightarrow> objs ! s = Some (object_at h s)"
  shows "\<exists>objs'. process_ephemerons k (growth_forwarding (slot_index i) (grown_id h) h) objs =
      Inr (objs', h_ephemerons h) \<and> length objs' = length objs \<and>
    (\<forall>s. objs' ! s = (if s \<in> set (kind_slots Ephemeron h) then Some (moved_object h i (object_at h s)) else objs ! s))"
proof -
  let ?fwd = "growth_forwarding (slot_index i) (grown_id h) h" and ?ss = "kind_slots Ephemeron h"
  have reg: "h_ephemerons h = map (id_at h) ?ss"
    using heap_wfD(9) [OF growingD(1) [OF g]] by (simp add: ephemerons_ok_def)
  have "\<exists>objs'. efold (process_ephemeron_owner k ?fwd) (map (id_at h) ?ss) (objs, []) = Inr (objs', [] @ map (id_at h) ?ss) \<and>
      length objs' = length objs \<and>
      (\<forall>s. objs' ! s = (if s \<in> set ?ss then Some (moved_object h i (object_at h s)) else objs ! s))"
  proof (rule registry_stays [where stage = "object_at h"])
    show "\<forall>s\<in>set ?ss. s < length objs" using len by (auto simp: kind_slots_iff dest!: holds_less)
    fix s acc and objs :: "gcobj option list"
    assume s: "s \<in> set ?ss" "s < length objs" "objs ! s = Some (object_at h s)"
    note r = growing_registry [OF g, of Ephemeron, OF _ _ s(1), simplified]
    show "process_ephemeron_owner k ?fwd (id_at h s) (objs, acc) =
        Inr (objs[s := Some (moved_object h i (object_at h s))], acc @ [id_at h s])"
      using s(2,3) r like growing_ephemeron_object [OF g like s(1)]
      by (simp add: process_ephemeron_owner_def reads_like_def Let_def)
  qed (use objs in simp_all)
  then show ?thesis using regs reg by (auto simp: process_ephemerons_def)
qed

lemma growing_interns:
  assumes g: "growing h i w" and like: "reads_like h k" and regs: "h_intern_table k = h_intern_table h"
  shows "process_intern_table (growth_forwarding (slot_index i) (grown_id h) h) False k = (Inr (h_intern_table h), k)"
proof -
  note D = growingD [OF g] and ok = heap_wfD(8) [OF growingD(1) [OF g], unfolded interns_ok_iff]
  let ?fwd = "growth_forwarding (slot_index i) (grown_id h) h"
  have "efold (process_intern_entry k ?fwd False False) tbl acc = Inr (acc @ tbl)"
    if "set tbl \<subseteq> set (h_intern_table h)" for tbl acc
    using that
  proof (induction tbl arbitrary: acc)
    case (Cons e tbl)
    then have c: "current_slot h (canonical e)" "o_kind (object_at h (slot_index (canonical e))) = Str"
      using ok by (auto simp: intern_entry_ok_def intern_object_def)
    then have "canonical e \<noteq> i" using D(5) by auto
    moreover have "checked_slot (canonical e) k = Inr (slot_index (canonical e))" using c(1) like by (simp add: reads_like_def)
    ultimately show ?case
      using Cons by (simp add: process_intern_entry_def growing_forwards [OF g c(1)] renamed_id_def)
  qed simp
  moreover have "sort_key (slot_index \<circ> canonical) (h_intern_table h) = h_intern_table h"
  proof (rule sort_key_id_if_sorted)
    have "sorted_wrt (\<lambda>e e'. slot_index (canonical e) \<le> slot_index (canonical e')) (h_intern_table h)"
      by (rule sorted_wrt_mono_rel [OF _ conjunct2 [OF ok]]) simp
    then show "sorted (map (slot_index \<circ> canonical) (h_intern_table h))" by (simp add: sorted_map)
  qed
  ultimately show ?thesis using regs by (simp add: process_intern_table_def sx_defs)
qed

lemma growing_objects:
  assumes g: "growing h i w"
    and weak: "length objs2 = length (h_objects h) + w" "\<And>s. objs2 ! s = (if s \<in> set (kind_slots WeakRef h)
      then Some (moved_object h i (object_at h s)) else map (map_option (map_reference_fields (moved_reading h i))) (lifted_objects h i w) ! s)"
    and eph: "length objs3 = length (h_objects h) + w" "\<And>s. objs3 ! s = (if s \<in> set (kind_slots Ephemeron h)
      then Some (moved_object h i (object_at h s)) else objs2 ! s)"
  shows "\<forall>s<length (h_objects h). objs3 ! s = (if s = slot_index i then None else map_option (moved_object h i) (h_objects h ! s))"
    "\<forall>d<w. objs3 ! (length (h_objects h) + d) = (if d = 0 then map_option (moved_object h i) (h_objects h ! slot_index i) else None)"
proof -
  note D = growingD [OF g] and L = lifted_nth [OF g]
  note R = growing_registry [OF g, of WeakRef, simplified] growing_registry [OF g, of Ephemeron, simplified]
  have shape: "shape_ok (object_at h s)" if "holds h s (object_at h s)" for s by (rule heap_wf_shape [OF D(1) that])
  show "\<forall>s<length (h_objects h). objs3 ! s = (if s = slot_index i then None else map_option (moved_object h i) (h_objects h ! s))"
  proof (intro allI impI)
    fix s assume s: "s < length (h_objects h)"
    consider (weak) "s \<in> set (kind_slots WeakRef h)" | (eph) "s \<in> set (kind_slots Ephemeron h)"
      | (other) "s \<notin> set (kind_slots WeakRef h)" "s \<notin> set (kind_slots Ephemeron h)" by blast
    then show "objs3 ! s = (if s = slot_index i then None else map_option (moved_object h i) (h_objects h ! s))"
    proof cases
      case weak
      then have "s \<notin> set (kind_slots Ephemeron h)" by (auto simp: kind_slots_iff)
      then show ?thesis using weak R(4,9) [OF weak] assms(3,5) by simp
    next
      case eph
      then show ?thesis using R(13,18) [OF eph] assms(3,5) by simp
    next
      case other
      then have o: "objs3 ! s = map_option (map_reference_fields (moved_reading h i)) (lifted_objects h i w ! s)"
        using assms(3,5) L(1) s by simp
      show ?thesis
      proof (cases "s = slot_index i \<or> h_objects h ! s = None")
        case True
        then show ?thesis using o L(2) [OF s] by auto
      next
        case False
        then obtain x where x: "h_objects h ! s = Some x" by blast
        then have "holds h s x" using s by (simp add: holds_def)
        moreover have "o_kind x \<noteq> WeakRef" "o_kind x \<noteq> Ephemeron"
          using other \<open>holds h s x\<close> holds_object_at by (auto simp: kind_slots_iff)
        ultimately have "moved_object h i x = map_reference_fields (moved_reading h i) x"
          using heap_wf_shape [OF D(1)] by (intro renamed_plain)
        then show ?thesis using False o L(2) [OF s] x by simp
      qed
    qed
  qed
  show "\<forall>d<w. objs3 ! (length (h_objects h) + d) = (if d = 0 then map_option (moved_object h i) (h_objects h ! slot_index i) else None)"
  proof (intro allI impI)
    fix d assume d: "d < w"
    have out: "length (h_objects h) + d \<notin> set (kind_slots k h)" for k by (auto simp: kind_slots_iff dest!: holds_less)
    have x: "holds h (slot_index i) (object_at h (slot_index i))" by (rule current_slot_holds [OF D(2)])
    have "moved_object h i (object_at h (slot_index i)) = map_reference_fields (moved_reading h i) (object_at h (slot_index i))"
      using D(5) shape [OF x] by (intro renamed_plain) auto
    then show "objs3 ! (length (h_objects h) + d) = (if d = 0 then map_option (moved_object h i) (h_objects h ! slot_index i) else None)"
      using assms(3,5) L(1,3) d out x by (simp add: holds_def)
  qed
qed


definition grown_state :: "gcheap \<Rightarrow> object_id \<Rightarrow> nat \<Rightarrow> gcobj option list \<Rightarrow> object_id list \<Rightarrow> gcheap" where
  "grown_state h i w objs remembered = h\<lparr>h_roots := map (moved_reading h i) (h_roots h),
     h_handle_roots := map (apsnd (moved_reading h i)) (h_handle_roots h),
     h_mark_worklist := (if h_marking_active h then map (moved_name h i) (h_mark_worklist h) else h_mark_worklist h),
     h_objects := objs, h_generations := h_generations h @ 1 # replicate (w - 1) 0,
     h_remembered_set := remembered\<rparr>"

text \<open>The collector's lists may name live objects only.\<close>

definition named_live :: "gcheap \<Rightarrow> val list \<Rightarrow> bool" where
  "named_live h extra \<longleftrightarrow> roots_valid h extra \<and>
     (h_marking_active h \<longrightarrow> (\<forall>j\<in>set (h_mark_worklist h). current_slot h j))"

lemma growing_greys:
  assumes g: "growing h i w" and like: "reads_like h k" and grey: "\<forall>j\<in>set ids. current_slot h j"
  shows "emap (forward_grey missing (growth_forwarding (slot_index i) (grown_id h) h) k) ids = Inr (map (moved_name h i) ids)"
proof (rule emap_map)
  fix j assume "j \<in> set ids"
  then have c: "current_slot h j" using grey by blast
  then have "checked_slot j k = Inr (slot_index j)" using like by (simp add: reads_like_def)
  then show "forward_grey missing (growth_forwarding (slot_index i) (grown_id h) h) k j = Inr (moved_name h i j)"
    by (simp add: forward_grey_def growing_forwards [OF g c])
qed

lemma reads_like_roots: "reads_like h (h\<lparr>h_roots := vs, h_handle_roots := hs\<rparr>)"
  unfolding reads_like_def by (intro allI checked_slot_cong) simp_all

lemma relocate_for_growth_ok:
  assumes g: "growing h i w" and live: "named_live h extra"
  shows "\<exists>objs R. relocate_for_growth limit missing i extra w h =
      (Inr (map (moved_reading h i) extra), grown_state h i w objs R) \<and> growth h i w (grown_state h i w objs R)"
proof -
  note D = growingD [OF g] and L = lifted_nth [OF g]
  let ?n = "length (h_objects h)" and ?s = "slot_index i" and ?fwd = "growth_forwarding (slot_index i) (grown_id h) h"
  let ?f = "moved_reading h i" and ?ren = "moved_object h i"
  have glen: "length (h_generations h) = ?n" using heap_wfD(3) [OF D(1)] by (simp add: generations_ok_def)
  have slot: "checked_slot i h = Inr ?s" using D(2) by simp
  have fits: "\<not> (?n > uint32_max \<or> w > uint32_max - ?n + 1)" using D(4,6) by (auto simp: uint32_max_def)
  have gen: "generation_for_new_base ((h_generations h @ replicate w 0) ! ?n) = Inr 1"
    using glen D(6) by (simp add: nth_append generation_for_new_base_def kFirstGeneration_def kMaxGeneration_def)
  have gens: "(h_generations h @ replicate w 0)[?n := 1] = h_generations h @ 1 # replicate (w - 1) 0"
    using glen D(6) by (cases w) (simp_all add: list_update_append)
  obtain R where R: "rewrite_remembered_set h ?fwd = Inr R" "set R = moved_name h i ` set (h_remembered_set h)"
    using growing_remembered [OF g] by blast
  let ?h1 = "h\<lparr>h_roots := map ?f (h_roots h), h_handle_roots := map (apsnd ?f) (h_handle_roots h)\<rparr>"
  have like: "reads_like h ?h1" by (rule reads_like_roots)
  let ?objs1 = "map (map_option (map_reference_fields ?f)) (lifted_objects h i w)"
  have roots: "rewrite_collection_roots (\<lambda>h. rewrite_value h ?fwd) extra h = (Inr (map ?f extra), ?h1)"
  proof (rule rewrite_collection_roots_map)
    fix v assume "v \<in> set (collection_roots h extra)"
    then have "valid_ref h v" using live by (simp add: named_live_def roots_valid_def)
    then show "rewrite_value h ?fwd v = Inr (?f v)"
      by (rule growing_rewrite_value [OF g, rotated]) (simp add: reads_like_def)
  qed
  have refs: "rewrite_references ?fwd (lifted_objects h i w) extra h = (Inr (map ?f extra, ?objs1), ?h1)"
    using roots growing_rewrite_objects [OF g like] by (simp add: rewrite_references_def sx_defs)
  have first: "?objs1 ! s = Some (object_at h s)" if s: "s \<in> set (kind_slots k h)" and k: "k = WeakRef \<or> k = Ephemeron" for s k
  proof -
    have r: "shape_ok (object_at h s)" "o_kind (object_at h s) = k" "s \<noteq> ?s" "h_objects h ! s = Some (object_at h s)"
        "s < ?n"
      using growing_registry [OF g _ _ s] k holds_less by auto
    have "map_reference_fields ?f (object_at h s) = object_at h s"
      using r(2) k by (auto simp: map_reference_fields_def)
    then show ?thesis using r L(1) L(2) [of s] by simp
  qed
  have len1: "length ?objs1 = ?n + w" using L(1) by simp
  obtain objs2 where o2: "process_weak_targets ?h1 ?fwd ?objs1 = Inr (objs2, h_weak_refs h)" "length objs2 = ?n + w"
    "\<And>s. objs2 ! s = (if s \<in> set (kind_slots WeakRef h) then Some (?ren (object_at h s)) else ?objs1 ! s)"
    using growing_weak_targets [OF g like _ len1] first [of _ WeakRef] L(1) by auto
  have interns: "process_intern_table ?fwd False ?h1 = (Inr (h_intern_table h), ?h1)"
    by (rule growing_interns [OF g like]) simp
  have second: "objs2 ! s = Some (object_at h s)" if s: "s \<in> set (kind_slots Ephemeron h)" for s
  proof -
    have "s \<notin> set (kind_slots WeakRef h)" using s by (auto simp: kind_slots_iff)
    then show ?thesis using o2(3) first [OF s] by simp
  qed
  obtain objs3 where o3: "process_ephemerons ?h1 ?fwd objs2 = Inr (objs3, h_ephemerons h)" "length objs3 = ?n + w"
    "\<And>s. objs3 ! s = (if s \<in> set (kind_slots Ephemeron h) then Some (?ren (object_at h s)) else objs2 ! s)"
    using growing_ephemerons [OF g like _ o2(2) second] o2(2) by auto
  let ?h3 = "grown_state h i w objs3 R"
  note objs = growing_objects [OF g o2(2,3) o3(2,3)]
  have "relocated h i w ?h3"
    using objs o3(2) R(2) heap_wfD(2) [OF D(1)] by (simp add: relocated_def Let_def grown_state_def)
  then have grow: "growth h i w ?h3" using g by (simp add: growth_def)
  note V = heap_wf_validators [OF growth_wf [OF grow]]
  have greys: "h_marking_active h \<Longrightarrow> emap (forward_grey missing ?fwd ?h1) (h_mark_worklist h) =
      Inr (map (moved_name h i) (h_mark_worklist h))"
    using live by (intro growing_greys [OF g like]) (simp add: named_live_def)
  let ?h2 = "if h_marking_active h then ?h1\<lparr>h_mark_worklist := map (moved_name h i) (h_mark_worklist h)\<rparr> else ?h1"
  have inst: "install_growth objs3 (h_generations h @ 1 # replicate (w - 1) 0) R (h_weak_refs h) (h_intern_table h) (h_ephemerons h) ?h2 = ?h3"
    by (simp add: install_growth_def grown_state_def)
  have step: "(h_objects h @ replicate w None)[?s := None, ?n := Some (object_at h ?s)] = lifted_objects h i w"
    by (simp add: lifted_objects_def)
  have id: "object_id_at ?n 1 = grown_id h" by (simp add: grown_id_def)
  have "relocate_for_growth limit missing i extra w h = (Inr (map ?f extra), ?h3)"
    unfolding relocate_for_growth_def sx_bind_def sx_then_def sx_reads_def sx_gets_def sx_modify_def sx_return_def
      sx_throw_if_def sx_when_def Let_def
    using fits inst greys V
    by (cases "h_marking_active h")
      (simp_all add: slot gen gens step id R(1) refs o2(1) interns o3(1))
  with grow show ?thesis by blast
qed

end
