(* ===== verification/GC_Maps.thy ===== *)
theory GC_Maps
  imports GC_Mutate
begin

text \<open>
  Map objects as finite functions: the contents of a map object, the lookup operations through its
  hash index, and \<open>map_set\<close> with its barriers and its growth in place, as an update of the
  function.
\<close>

subsection \<open>The finite function a map object stands for\<close>

lemma validated_hashes:
  assumes "efold (\<lambda>(entry, e) (hashes, expected). ebind (key_hash (e_key e)) (\<lambda>hash.
      ebind (place_entry expected hash entry) (\<lambda>expected'. Inr (hashes @ [hash], expected'))))
    (zip [k..<k + length es] es) st = Inr r" and "e \<in> set es"
  shows "\<exists>v. key_hash (e_key e) = Inr v"
  using assms
proof (induction es arbitrary: k st)
  case (Cons e' es)
  have zip: "zip [k..<Suc (k + length es)] (e' # es) = (k, e') # zip [Suc k..<Suc (k + length es)] es"
    by (simp add: upt_conv_Cons del: upt_Suc)
  show ?case
  proof (cases "e = e'")
    case True
    then show ?thesis using Cons.prems(1) by (cases st) (auto simp: zip ebind_Inr_iff simp del: upt_Suc)
  next
    case False
    with Cons.prems(2) have "e \<in> set es" by simp
    moreover obtain st' where "efold (\<lambda>(entry, e) (hashes, expected). ebind (key_hash (e_key e)) (\<lambda>hash.
      ebind (place_entry expected hash entry) (\<lambda>expected'. Inr (hashes @ [hash], expected'))))
      (zip [Suc k..<Suc k + length es] es) st' = Inr r"
      using Cons.prems(1) by (cases st) (auto simp: zip ebind_Inr_iff simp del: upt_Suc)
    ultimately show ?thesis by (rule Cons.IH [rotated])
  qed
qed simp

lemma validate_map_lookup_index_hashes:
  assumes "validate_map_lookup_index key_hash es index = Inr ()" and "e \<in> set es"
  shows "\<exists>v. key_hash (e_key e) = Inr v"
proof -
  obtain c r where "efold (\<lambda>(entry, e) (hashes, expected). ebind (key_hash (e_key e)) (\<lambda>hash.
      ebind (place_entry expected hash entry) (\<lambda>expected'. Inr (hashes @ [hash], expected'))))
    (zip [0..<0 + length es] es) ([], replicate c 0) = Inr r"
    using assms(1) by (auto simp: validate_map_lookup_index_def ebind_Inr_iff ethen_Inr_iff)
  then show ?thesis by (rule validated_hashes [OF _ assms(2)])
qed

text \<open>What a key is compared by: an \<open>i64\<close>, a \<open>bool\<close>, or the bytes of the string it names.\<close>

fun key_content_of :: "gcheap \<Rightarrow> val \<Rightarrow> key_content" where
  "key_content_of h (VInt64 n) = Key_i64 n"
| "key_content_of h (VBool b) = Key_bool b"
| "key_content_of h (VObject i) = Key_str (o_string_bytes (object_at h (slot_index i)))"
| "key_content_of h VNil = Key_bool False"

definition map_keys :: "gcheap \<Rightarrow> gcobj \<Rightarrow> key_content list" where
  "map_keys h m = map (key_content_of h \<circ> e_key) (o_map_entries m)"

definition map_pairs :: "gcheap \<Rightarrow> gcobj \<Rightarrow> (key_content \<times> val) list" where
  "map_pairs h m = map (\<lambda>e. (key_content_of h (e_key e), e_value e)) (o_map_entries m)"

definition map_contents :: "gcheap \<Rightarrow> gcobj \<Rightarrow> key_content \<rightharpoonup> val" where
  "map_contents h m = map_of (map_pairs h m)"

lemma map_pairs_keys [simp]: "map fst (map_pairs h m) = map_keys h m"
  by (simp add: map_pairs_def map_keys_def)

lemma length_map_keys [simp]: "length (map_keys h m) = length (o_map_entries m)"
  by (simp add: map_keys_def)

text \<open>A key the operations accept: a string for a reference key, an \<open>i64\<close> or \<open>bool\<close> otherwise.\<close>

definition key_ok :: "gcheap \<Rightarrow> gcobj \<Rightarrow> val \<Rightarrow> bool" where
  "key_ok h m k \<longleftrightarrow> (if o_map_key_is_ref m
     then (\<exists>i. k = VObject i \<and> current_slot h i \<and> o_kind (object_at h (slot_index i)) = Str)
     else scalar_tag k)"

lemma validate_map_key_iff:
  assumes wf: "heap_wf h"
  shows "validate_map_key m k h = Inr () \<longleftrightarrow> key_ok h m k"
proof (cases "o_map_key_is_ref m")
  case True
  have "(\<exists>x. checked_string i h = Inr x) \<longleftrightarrow> current_slot h i \<and> o_kind (object_at h (slot_index i)) = Str" for i
    using heap_wf_shape [OF wf current_slot_holds [of h i]]
    by (auto simp: checked_string_def checked_kind_def ebind_Inr_iff ethen_Inr_iff Let_def heap_wf_slots [OF wf])
  with True show ?thesis
    by (cases k) (auto simp: validate_map_key_def key_ok_def ebind_Inr_iff)
qed (simp add: validate_map_key_def key_ok_def)

lemma string_key_bytes:
  assumes wf: "heap_wf h" and "current_slot h i" and "o_kind (object_at h (slot_index i)) = Str"
  shows "string_bytes i h = Inr (o_string_bytes (object_at h (slot_index i)))"
  using assms heap_wf_shape [OF wf current_slot_holds [OF assms(2)]] by (simp add: string_bytes_current)

lemma key_ok_hash:
  assumes wf: "heap_wf h" and "key_ok h m k"
  shows "map_key_hash h k = Inr (content_hash (key_content_of h k))"
  using assms string_key_bytes [OF wf] by (cases k) (auto simp: key_ok_def scalar_tag_def split: if_splits)

lemma keys_equal_contents:
  assumes wf: "heap_wf h" and "key_ok h m k" and "key_ok h m q"
  shows "map_keys_equal m k q h = Inr (key_content_of h k = key_content_of h q)"
proof (cases "o_map_key_is_ref m")
  case True
  then show ?thesis
    using assms string_key_bytes [OF wf] by (auto simp: key_ok_def map_keys_equal_def string_equal_def)
next
  case False
  then show ?thesis
    using assms(2,3) by (cases k; cases q) (simp_all add: key_ok_def map_keys_equal_def scalar_tag_def)
qed

lemma stored_keys_ok:
  assumes wf: "heap_wf h" and x: "holds h s m" and k: "o_kind m = Map_kind" and e: "e \<in> set (o_map_entries m)"
  shows "key_ok h m (e_key e)"
proof -
  have shape: "shape_ok m" by (rule heap_wf_shape [OF wf x])
  have lay: "slot_layout_ok h s m" using heap_wfD(4) [OF wf] x by (simp add: layout_ok_def)
  have ix: "validate_map_index m h = Inr ()" using lay k by (simp add: slot_layout_ok_def)
  have hash: "\<exists>v. map_key_hash h (e_key e) = Inr v" if "e \<in> set (o_map_entries m)" for e
    using ix that validate_map_lookup_index_hashes [of "map_key_hash h"] by (auto simp: validate_map_index_def k)
  show ?thesis
  proof (cases "o_map_key_is_ref m")
    case True
    obtain i where i: "e_key e = VObject i"
      using map_shape_keys(1) [OF shape k e True] by (auto simp: is_object_iff)
    have "e_key e \<in> set (reference_fields m)"
      using True k e by (auto simp: reference_fields_def intro!: bexI [of _ e])
    then have cur: "current_slot h i" using fields_validD [OF heap_wfD(5) [OF wf] x] i by simp
    obtain v where "map_key_hash h (e_key e) = Inr v" using hash [OF e] by blast
    then have "o_kind (object_at h (slot_index i)) = Str"
      using i cur string_bytes_checked [OF cur heap_wf_shape [OF wf current_slot_holds [OF cur]]]
      by (auto simp: ebind_Inr_iff split: if_splits)
    then show ?thesis using True i cur by (simp add: key_ok_def)
  next
    case False
    then show ?thesis using map_shape_keys(2) [OF shape k e] by (simp add: key_ok_def)
  qed
qed

subsection \<open>Lookup\<close>

text \<open>A map object of the heap whose keys are pairwise different: what every sequence of insertions makes.\<close>

definition map_object :: "gcheap \<Rightarrow> object_id \<Rightarrow> gcobj \<Rightarrow> bool" where
  "map_object h i m \<longleftrightarrow> checked_map i h = Inr m \<and> distinct (map_keys h m)"

lemma map_objectD:
  assumes wf: "heap_wf h" and m: "map_object h i m"
  shows "checked_map i h = Inr m" "current_slot h i" "m = object_at h (slot_index i)" "o_kind m = Map_kind" "shape_ok m"
    "checked_slot i h = Inr (slot_index i)" "holds h (slot_index i) m" "distinct (map_keys h m)"
    "validate_map_index m h = Inr ()" "e \<in> set (o_map_entries m) \<Longrightarrow> key_ok h m (e_key e)"
    "length (o_map_entries m) = unat (o_length m)"
proof -
  show c: "checked_map i h = Inr m" and "distinct (map_keys h m)" using m by (simp_all add: map_object_def)
  note k = checked_kind_idle [OF heap_wfD(2) [OF wf] c [unfolded checked_map_def]]
  show "current_slot h i" "m = object_at h (slot_index i)" "o_kind m = Map_kind" "shape_ok m"
    "checked_slot i h = Inr (slot_index i)" by (rule k)+
  show x: "holds h (slot_index i) m" using current_slot_holds [OF k(1)] k(2) by simp
  have "slot_layout_ok h (slot_index i) m" using heap_wfD(4) [OF wf] x by (simp add: layout_ok_def)
  then show "validate_map_index m h = Inr ()" using k(3) by (simp add: slot_layout_ok_def)
  show "e \<in> set (o_map_entries m) \<Longrightarrow> key_ok h m (e_key e)" by (rule stored_keys_ok [OF wf x k(3)])
  show "length (o_map_entries m) = unat (o_length m)"
    using k(3,4) by (auto simp: validate_descriptor_shape_def shape_map_def ethen_Inr_iff split: if_splits)
qed

lemma map_index_matches:
  assumes wf: "heap_wf h" and keys: "\<And>e. e \<in> set (o_map_entries m) \<Longrightarrow> key_ok h m (e_key e)"
    and k: "o_kind m = Map_kind" and len: "length (o_map_entries m) \<le> uint32_max"
  shows "validate_map_index m h = Inr () \<longleftrightarrow>
    index_matches (map content_hash (map_keys h m)) (o_map_lookup_index m)"
proof -
  have "map content_hash (map_keys h m) = map ((content_hash \<circ> key_content_of h) \<circ> e_key) (o_map_entries m)"
    by (simp add: map_keys_def)
  moreover have "\<forall>e\<in>set (o_map_entries m). map_key_hash h (e_key e) = Inr ((content_hash \<circ> key_content_of h) (e_key e))"
    using key_ok_hash [OF wf keys] by simp
  ultimately show ?thesis
    using k len validate_map_lookup_index_iff [where H = "content_hash \<circ> key_content_of h"]
    by (simp add: validate_map_index_def size_max_def uint32_max_def)
qed

lemma unat_u32_le: "unat (w :: u32) \<le> uint32_max"
  using unsigned_less [where ?'a = nat, of w] by (simp add: uint32_max_def)

lemma probe_map_entry_cong:
  assumes "\<And>e. e < entries \<Longrightarrow> f e = g e"
  shows "probe_map_entry f index entries n b = probe_map_entry g index entries n b"
  using assms
proof (induction n arbitrary: b)
  case (Suc n)
  show ?case
  proof (cases "index ! b = 0 \<or> index ! b - 1 \<ge> entries")
    case False
    then have "f (index ! b - 1) = g (index ! b - 1)" using Suc.prems by simp
    moreover have "probe_map_entry f index entries n = probe_map_entry g index entries n"
      by (rule ext) (rule Suc.IH [OF Suc.prems])
    ultimately show ?thesis by (simp add: Let_def cong: if_cong)
  qed (auto simp: Let_def)
qed simp

lemma find_map_entry_eq:
  assumes wf: "heap_wf h" and m: "map_object h i m" and q: "key_ok h m q"
  shows "find_map_entry i q h = Inr (find_position (\<lambda>k. k = key_content_of h q) (map_keys h m))"
proof -
  note D = map_objectD [OF wf m]
  let ?n = "length (o_map_entries m)" and ?ix = "o_map_lookup_index m"
  have len: "?n \<le> uint32_max" using D(11) unat_u32_le by simp
  have valid: "validate_map_key m q h = Inr ()" using validate_map_key_iff [OF wf] q by simp
  have match: "index_matches (map content_hash (map_keys h m)) ?ix"
    using D(9) map_index_matches [OF wf D(10) D(4) len] by simp
  show ?thesis
  proof (cases "o_map_entries m = []")
    case True
    then have "map_keys h m = []" by (simp add: map_keys_def)
    then have "?ix = []"
      using match by (auto simp: index_matches_def map_lookup_index_capacity_def built_index_def)
    then show ?thesis
      using D(1) valid \<open>map_keys h m = []\<close> by (simp add: find_map_entry_def)
  next
    case False
    then have ne: "map_keys h m \<noteq> []" by (simp add: map_keys_def)
    have big: "length (map_keys h m) < size_max" using len by (simp add: size_max_def uint32_max_def)
    have "coherent_index ?ix (map content_hash (map_keys h m))"
      using index_matches_coherent [OF match] ne big by simp
    then have ix: "?ix \<noteq> []" using coherent_indexD(1) power_of_two_pos by fastforce
    have "probe_map_entry (\<lambda>e. map_keys_equal m (e_key (o_map_entries m ! e)) q h) ?ix ?n (length ?ix)
        (home_bucket (length ?ix) (content_hash (key_content_of h q))) =
      probe_map_entry (\<lambda>e. Inr (map_keys h m ! e = key_content_of h q)) ?ix ?n (length ?ix)
        (home_bucket (length ?ix) (content_hash (key_content_of h q)))"
    proof (rule probe_map_entry_cong)
      fix e assume "e < ?n"
      then show "map_keys_equal m (e_key (o_map_entries m ! e)) q h = Inr (map_keys h m ! e = key_content_of h q)"
        using keys_equal_contents [OF wf D(10) q] by (simp add: map_keys_def)
    qed
    also have "\<dots> = Inr (find_position (\<lambda>k. k = key_content_of h q) (map_keys h m))"
      using key_content.probe_is_search [OF match ne big] D(8)
      by (simp add: nth_eq_iff_index_eq distinct_conv_nth)
    finally show ?thesis
      using D(1) valid key_ok_hash [OF wf q] ix by (simp add: find_map_entry_def)
  qed
qed

lemma map_of_find_position:
  "map_of ps k = map_option (\<lambda>n. snd (ps ! n)) (find_position (\<lambda>x. x = k) (map fst ps))"
  by (induction ps) (auto simp: map_option.compositionality comp_def split: option.split)

lemma map_contents_find:
  "map_contents h m k = map_option (\<lambda>n. e_value (o_map_entries m ! n))
     (find_position (\<lambda>x. x = k) (map_keys h m))"
proof -
  have "map_contents h m k = map_option (\<lambda>n. snd (map_pairs h m ! n)) (find_position (\<lambda>x. x = k) (map_keys h m))"
    unfolding map_contents_def map_of_find_position by simp
  also have "\<dots> = map_option (\<lambda>n. e_value (o_map_entries m ! n)) (find_position (\<lambda>x. x = k) (map_keys h m))"
    using find_position_SomeD [of "\<lambda>x. x = k" "map_keys h m"]
    by (cases "find_position (\<lambda>x. x = k) (map_keys h m)") (simp_all add: map_pairs_def)
  finally show ?thesis .
qed

text \<open>C12. A map object is the finite function of its entries: \<open>map_has\<close> and \<open>map_get\<close>, which probe
  the hash index, answer as the function does, for keys compared by contents; a key of the wrong kind
  throws.\<close>

theorem map_lookup_refines_the_finite_map:
  assumes "heap_wf h" and "map_object h i m"
  shows "(if key_ok h m k
    then map_has i k h = Inr (map_contents h m (key_content_of h k) \<noteq> None) \<and>
      map_get i k h = (case map_contents h m (key_content_of h k) of
          None \<Rightarrow> Inl (Out_of_range msg_map_key_not_found) | Some v \<Rightarrow> Inr v)
    else \<exists>e. map_has i k h = Inl e \<and> map_get i k h = Inl e)"
proof (cases "key_ok h m k")
  case True
  note D = map_objectD [OF assms]
  have "canonicalize_incremental_compaction_read h v = Inr v" for v using heap_wfD(2) [OF assms(1)] by simp
  then show ?thesis
    using True D(1) find_map_entry_eq [OF assms True]
    by (cases "find_position (\<lambda>x. x = key_content_of h k) (map_keys h m)")
      (simp_all add: map_has_def map_get_def map_contents_find Let_def)
next
  case False
  then have "validate_map_key m k h \<noteq> Inr ()" using validate_map_key_iff [OF assms(1)] by simp
  then obtain e where "validate_map_key m k h = Inl e" by (cases "validate_map_key m k h") auto
  then show ?thesis
    using False map_objectD(1) [OF assms] by (simp add: map_has_def map_get_def find_map_entry_def)
qed

subsection \<open>Insertion\<close>

definition value_ok :: "gcheap \<Rightarrow> gcobj \<Rightarrow> val \<Rightarrow> bool" where
  "value_ok h m v \<longleftrightarrow> (if o_map_value_is_ref m then reference_tag v \<and> valid_ref h v else scalar_tag v)"

lemma scalar_valid: "scalar_tag v \<Longrightarrow> valid_ref h v"
  by (cases v) (simp_all add: scalar_tag_def)

lemma value_ok_valid: "value_ok h m v \<Longrightarrow> valid_ref h v"
  by (auto simp: value_ok_def scalar_valid split: if_splits)

lemma key_ok_valid: "key_ok h m k \<Longrightarrow> valid_ref h k"
  by (auto simp: key_ok_def scalar_valid split: if_splits)

lemma validate_map_value_ok:
  assumes "heap_wf h" and "value_ok h m v"
  shows "validate_map_value m v h = Inr ()"
  using assms(2) by (cases v) (auto simp: validate_map_value_def value_ok_def split: if_splits)

definition with_entry :: "val \<Rightarrow> val \<Rightarrow> nat list \<Rightarrow> gcobj \<Rightarrow> gcobj" where
  "with_entry k v index m = m\<lparr>o_map_entries := o_map_entries m @ [\<lparr>e_key = k, e_value = v\<rparr>],
     o_length := of_nat (length (o_map_entries m) + 1), o_map_lookup_index := index\<rparr>"

lemma insert_map_entry_ok:
  assumes wf: "heap_wf h" and m: "map_object h i m" and k: "key_ok h m k"
    and room: "length (o_map_entries m) < uint32_max"
  shows "\<exists>index. insert_map_entry k v m h = Inr (with_entry k v index m) \<and>
    index_matches (map content_hash (map_keys h m @ [key_content_of h k])) index"
proof -
  note D = map_objectD [OF wf m]
  let ?n = "length (o_map_entries m)" and ?ix = "o_map_lookup_index m"
  let ?hs = "map content_hash (map_keys h m)" and ?hash = "content_hash (key_content_of h k)"
  have hash: "map_key_hash h k = Inr ?hash" by (rule key_ok_hash [OF wf k])
  obtain d where d: "map_lookup_index_capacity (?n + 1) = Inr d"
    using map_lookup_index_capacity_ok [of "?n + 1"] room by auto
  note P = map_lookup_index_capacity_props [OF d]
  have half: "?n \<le> d div 2" and big: "?n + 1 < size_max" using P(3) room by (simp_all add: size_max_def uint32_max_def)
  have match: "index_matches ?hs ?ix"
    using D(9) map_index_matches [OF wf D(10) D(4)] room by simp
  then obtain c where c: "map_lookup_index_capacity ?n = Inr c" "built_index c ?hs = Inr ?ix"
    by (auto simp: index_matches_def)
  have sel: "built_index d ?hs = (if length ?ix \<noteq> d
      then build_map_lookup_index (map_key_hash h) (o_map_entries m) d else Inr ?ix)"
  proof (cases "length ?ix = d")
    case True
    have "?n \<noteq> 0"
    proof
      assume "?n = 0"
      then have "?hs = []" "c = 0" using c(1) by (simp_all add: map_keys_def map_lookup_index_capacity_def)
      then have "?ix = []" using c(2) by (simp add: built_index_def)
      with True P(2) show False by (simp add: kMapIndexMinimumCapacity_def)
    qed
    then have "length ?ix = c"
      using built_index_ok [of c ?hs] map_lookup_index_capacity_props [OF c(1)] c(2) big by simp
    with True c(2) show ?thesis by simp
  next
    case False
    have "map ((content_hash \<circ> key_content_of h) \<circ> e_key) (o_map_entries m) = ?hs" by (simp add: map_keys_def)
    moreover have "\<forall>e\<in>set (o_map_entries m). map_key_hash h (e_key e) = Inr ((content_hash \<circ> key_content_of h) (e_key e))"
      using key_ok_hash [OF wf D(10)] by simp
    ultimately show ?thesis
      using False P half build_map_lookup_index_eq [where H = "content_hash \<circ> key_content_of h"] by simp
  qed
  obtain ix0 where ix0: "built_index d ?hs = Inr ix0"
    using built_index_ok [of d ?hs] P half big by auto
  obtain index where index: "built_index d (?hs @ [?hash]) = Inr index"
    using built_index_ok [of d "?hs @ [?hash]"] P big by auto
  have "place_entry ix0 ?hash ?n = Inr index"
    using index ix0 by (simp add: built_index_snoc)
  then have "insert_map_entry k v m h = Inr (with_entry k v index m)"
    using d hash sel [unfolded ix0, symmetric]
    by (cases "length ?ix = d") (simp_all add: insert_map_entry_def Let_def with_entry_def)
  moreover have "index_matches (map content_hash (map_keys h m @ [key_content_of h k])) index"
    using d index by (auto simp: index_matches_def)
  ultimately show ?thesis by blast
qed

lemma with_entry_props:
  assumes "o_kind m = Map_kind" and "shape_ok m" and k: "key_ok h m k" and v: "value_ok h m v"
    and room: "length (o_map_entries m) < uint32_max"
  shows "shape_ok (with_entry k v index m)" "o_kind (with_entry k v index m) = Map_kind"
    "storage_slot_count (with_entry k v index m) = storage_slot_count m + 2"
    "o_generation (with_entry k v index m) = o_generation m" "o_marked (with_entry k v index m) = o_marked m"
    "set (reference_fields (with_entry k v index m)) = set (reference_fields m) \<union>
      (if o_map_key_is_ref m then {k} else {}) \<union> (if o_map_value_is_ref m then {v} else {})"
    "map_keys h (with_entry k v index m) = map_keys h m @ [key_content_of h k]"
    "o_map_key_is_ref (with_entry k v index m) = o_map_key_is_ref m"
    "o_map_value_is_ref (with_entry k v index m) = o_map_value_is_ref m"
proof -
  have len: "unat (of_nat (length (o_map_entries m) + 1) :: u32) = length (o_map_entries m) + 1"
    by (rule unat_of_nat_u32) (use room in simp)
  have old: "length (o_map_entries m) = unat (o_length m)"
    using assms(1,2) by (auto simp: validate_descriptor_shape_def shape_map_def ethen_Inr_iff split: if_splits)
  have kt: "o_map_key_is_ref m \<Longrightarrow> is_object k" "\<not> o_map_key_is_ref m \<Longrightarrow> scalar_tag k"
    using k by (auto simp: key_ok_def split: if_splits)
  have vt: "o_map_value_is_ref m \<Longrightarrow> reference_tag v" "\<not> o_map_value_is_ref m \<Longrightarrow> scalar_tag v"
    using v by (auto simp: value_ok_def split: if_splits)
  show "shape_ok (with_entry k v index m)"
    using assms(1,2) len kt vt
    by (simp add: with_entry_def validate_descriptor_shape_def shape_foreign_payload_def shape_map_def
        ethen_Inr_iff eall_ok_iff del: of_nat_Suc of_nat_add)
  show "o_kind (with_entry k v index m) = Map_kind"
    "o_generation (with_entry k v index m) = o_generation m" "o_marked (with_entry k v index m) = o_marked m"
    "map_keys h (with_entry k v index m) = map_keys h m @ [key_content_of h k]"
    "o_map_key_is_ref (with_entry k v index m) = o_map_key_is_ref m"
    "o_map_value_is_ref (with_entry k v index m) = o_map_value_is_ref m"
    using assms(1) by (simp_all add: with_entry_def map_keys_def)
  show "storage_slot_count (with_entry k v index m) = storage_slot_count m + 2"
    using assms(1) len old by (simp add: with_entry_def storage_slot_count_def del: of_nat_Suc of_nat_add)
  show "set (reference_fields (with_entry k v index m)) = set (reference_fields m) \<union>
      (if o_map_key_is_ref m then {k} else {}) \<union> (if o_map_value_is_ref m then {v} else {})"
    using assms(1) by (auto simp: with_entry_def reference_fields_def)
qed

lemma put_map_value_props:
  assumes "o_kind m = Map_kind" and "shape_ok m" and v: "value_ok h m v" and e: "e < length (o_map_entries m)"
  shows "shape_ok (put_map_value e v m)" "o_kind (put_map_value e v m) = Map_kind"
    "storage_slot_count (put_map_value e v m) = storage_slot_count m"
    "o_generation (put_map_value e v m) = o_generation m" "o_marked (put_map_value e v m) = o_marked m"
    "set (reference_fields (put_map_value e v m)) \<subseteq> set (reference_fields m) \<union> (if o_map_value_is_ref m then {v} else {})"
    "map_keys h (put_map_value e v m) = map_keys h m"
    "o_map_key_is_ref (put_map_value e v m) = o_map_key_is_ref m"
    "o_map_value_is_ref (put_map_value e v m) = o_map_value_is_ref m"
    "o_map_lookup_index (put_map_value e v m) = o_map_lookup_index m"
    "map e_key (o_map_entries (put_map_value e v m)) = map e_key (o_map_entries m)"
proof -
  let ?es = "o_map_entries m" and ?e' = "(o_map_entries m ! e)\<lparr>e_value := v\<rparr>"
  have vt: "if o_map_value_is_ref m then reference_tag v else scalar_tag v" using v by (auto simp: value_ok_def split: if_splits)
  have mem: "?es ! e \<in> set ?es" using e by simp
  have sub: "set (?es[e := ?e']) \<subseteq> insert ?e' (set ?es)" by (rule set_update_subset_insert)
  show keys: "map e_key (o_map_entries (put_map_value e v m)) = map e_key ?es"
    using e by (simp add: put_map_value_def map_update) (metis length_map list_update_id nth_map)
  have tags: "if o_map_key_is_ref m then tag (e_key f) = Tag_Object else scalar_tag (e_key f)"
    "if o_map_value_is_ref m then reference_tag (e_value f) else scalar_tag (e_value f)"
    if "f \<in> set (?es[e := ?e'])" for f
  proof -
    have "f = ?e' \<or> f \<in> set ?es" using that sub by blast
    then show "if o_map_key_is_ref m then tag (e_key f) = Tag_Object else scalar_tag (e_key f)"
      "if o_map_value_is_ref m then reference_tag (e_value f) else scalar_tag (e_value f)"
      using map_shape_keys [OF assms(2,1)] mem vt by (auto simp: is_object_iff)
  qed
  have entries: "\<forall>f\<in>set (?es[e := ?e']). ethen (if o_map_key_is_ref m
          then ethrow_if (tag (e_key f) \<noteq> Tag_Object) (Logic_error msg_map_scalar_key)
          else ethrow_if (\<not> scalar_tag (e_key f)) (Logic_error msg_map_reference_key))
         (if o_map_value_is_ref m
          then ethrow_if (\<not> reference_tag (e_value f)) (Logic_error msg_map_scalar_value)
          else ethrow_if (\<not> scalar_tag (e_value f)) (Logic_error msg_map_reference_value)) = Inr ()"
    using tags by (cases "o_map_key_is_ref m"; cases "o_map_value_is_ref m") simp_all
  show "shape_ok (put_map_value e v m)"
    using assms(1,2) entries
    by (simp add: put_map_value_def validate_descriptor_shape_def shape_foreign_payload_def shape_map_def
        ethen_Inr_iff eall_ok_iff)
  have "map (key_content_of h \<circ> e_key) (o_map_entries (put_map_value e v m)) =
      map (key_content_of h) (map e_key (o_map_entries (put_map_value e v m)))" by simp
  then show "map_keys h (put_map_value e v m) = map_keys h m"
    unfolding map_keys_def keys by simp
  show "set (reference_fields (put_map_value e v m)) \<subseteq> set (reference_fields m) \<union> (if o_map_value_is_ref m then {v} else {})"
  proof
    fix w assume w: "w \<in> set (reference_fields (put_map_value e v m))"
    then obtain f where f: "f \<in> set (?es[e := ?e'])"
      "w \<in> set ((if o_map_key_is_ref m then [e_key f] else []) @ (if o_map_value_is_ref m then [e_value f] else []))"
      using assms(1) by (auto simp: reference_fields_def put_map_value_def)
    then consider "f = ?e'" | "f \<in> set ?es" using sub by blast
    then show "w \<in> set (reference_fields m) \<union> (if o_map_value_is_ref m then {v} else {})"
    proof cases
      case 1
      then have "(o_map_key_is_ref m \<and> w = e_key (?es ! e)) \<or> (o_map_value_is_ref m \<and> w = v)"
        using f(2) by (auto split: if_splits)
      then show ?thesis using mem assms(1) by (auto simp: reference_fields_def intro!: bexI [of _ "?es ! e"])
    next
      case 2
      then show ?thesis using f(2) assms(1) by (auto simp: reference_fields_def intro!: bexI [of _ f])
    qed
  qed
qed (use assms(1) in \<open>simp_all add: put_map_value_def storage_slot_count_def\<close>)

subsection \<open>The barriers of a map store\<close>

definition value_young :: "gcheap \<Rightarrow> val \<Rightarrow> bool" where
  "value_young h v \<longleftrightarrow> (case v of VObject j \<Rightarrow> o_generation (object_at h (slot_index j)) = Young | _ \<Rightarrow> False)"

abbreviation barriered :: "object_id list \<Rightarrow> object_id list \<Rightarrow> gcheap \<Rightarrow> gcheap" where
  "barriered W R h \<equiv> h\<lparr>h_mark_worklist := W, h_remembered_set := R\<rparr>"

lemma barriered_reads:
  "current_slot (barriered W R h) = current_slot h" "object_at (barriered W R h) = object_at h"
  "holds (barriered W R h) = holds h" "checked_slot i (barriered W R h) = checked_slot i h"
  "string_bytes i (barriered W R h) = string_bytes i h" "map_key_hash (barriered W R h) = map_key_hash h"
  "checked_map i (barriered W R h) = checked_map i h" "is_young_slot s (barriered W R h) = is_young_slot s h"
  "is_old_slot s (barriered W R h) = is_old_slot s h"
proof -
  let ?k = "barriered W R h"
  show cur: "current_slot ?k = current_slot h" and obj: "object_at ?k = object_at h" and "holds ?k = holds h"
    by (simp_all add: fun_eq_iff current_slot_def object_at_def holds_def)
  have slot: "checked_slot i ?k = checked_slot i h" for i by (rule checked_slot_cong) simp_all
  then show "checked_slot i ?k = checked_slot i h" .
  have bytes: "string_bytes i ?k = string_bytes i h" for i
    by (simp add: string_bytes_def checked_string_def checked_kind_def slot obj)
  then show "string_bytes i ?k = string_bytes i h" .
  show "map_key_hash ?k = map_key_hash h"
  proof
    fix v show "map_key_hash ?k v = map_key_hash h v" by (cases v) (simp_all add: bytes)
  qed
  show "checked_map i ?k = checked_map i h" by (simp add: checked_map_def checked_kind_def slot obj)
  show "is_young_slot s ?k = is_young_slot s h" "is_old_slot s ?k = is_old_slot s h"
    by (simp_all add: is_young_slot_def is_old_slot_def slot_has_generation_def)
qed

lemma incremental_barrier_shape:
  assumes wf: "heap_wf h" and armed: "barriers_armed h" and i: "current_slot h i" and v: "valid_ref h v"
  shows "\<exists>W. incremental_write_barrier_before_publish i v h = (Inr (), h\<lparr>h_mark_worklist := W\<rparr>) \<and>
    set (h_mark_worklist h) \<subseteq> set W"
proof (cases "h_marking_active h")
  case True
  show ?thesis
  proof (cases v)
    case (VObject j)
    let ?W = "if o_marked (object_at h (slot_index i)) \<and> \<not> o_marked (object_at h (slot_index j))
      then j # h_mark_worklist h else h_mark_worklist h"
    have "incremental_write_barrier_before_publish i v h = (Inr (), h\<lparr>h_mark_worklist := ?W\<rparr>)"
      using incremental_write_barrier_eq [OF wf True _ i v] armed VObject by (simp add: barriers_armed_def)
    then show ?thesis by (intro exI [of _ ?W]) auto
  qed (auto simp: incremental_write_barrier_before_publish_def sx_defs intro: exI [of _ "h_mark_worklist h"])
next
  case False
  then have "incremental_write_barrier_before_publish i v h = (Inr (), h\<lparr>h_mark_worklist := h_mark_worklist h\<rparr>)"
    by (simp add: incremental_write_barrier_before_publish_def sx_defs)
  then show ?thesis by blast
qed

lemma targets_young_eq:
  assumes "valid_ref h v"
  shows "targets_young v (barriered W R h) = Inr (value_young h v)"
proof (cases v)
  case (VObject j)
  with assms have j: "current_slot h j" by simp
  then have "is_young_slot (slot_index j) h = Inr (o_generation (object_at h (slot_index j)) = Young)"
    using current_slot_holds [OF j] by simp
  with VObject j show ?thesis by (simp add: targets_young_def value_young_def barriered_reads)
qed (simp_all add: targets_young_def value_young_def)

lemma map_store_barriers:
  assumes wf: "heap_wf h" and armed: "barriers_armed h" and i: "current_slot h i"
    and k: "valid_ref h k" and v: "valid_ref h v" and ko: "ko = None \<or> ko = Some k"
  shows "\<exists>h1 h2 W R b. incremental_write_barrier_before_publish i k h = (Inr (), h1) \<and>
    incremental_write_barrier_before_publish i v h1 = (Inr (), h2) \<and>
    record_map_write_barrier_if_needed i ko v h2 = (Inr b, barriered W R h) \<and>
    set (h_mark_worklist h) \<subseteq> set W \<and>
    set R = set (h_remembered_set h) \<union>
      (if o_generation (object_at h (slot_index i)) = Old \<and> ((ko \<noteq> None \<and> value_young h k) \<or> value_young h v)
       then {i} else {})"
proof -
  obtain W1 where W1: "incremental_write_barrier_before_publish i k h = (Inr (), h\<lparr>h_mark_worklist := W1\<rparr>)"
    "set (h_mark_worklist h) \<subseteq> set W1"
    using incremental_barrier_shape [OF wf armed i k] by blast
  let ?h1 = "h\<lparr>h_mark_worklist := W1\<rparr>"
  have same: "same_store h ?h1" by simp
  note S = same_store_reads [OF same]
  have "heap_wf ?h1" "barriers_armed ?h1" "current_slot ?h1 i" "valid_ref ?h1 v"
    using wf heap_wf_cong [OF same] armed i v S by (simp_all add: barriers_armed_def)
  then obtain W where W: "incremental_write_barrier_before_publish i v ?h1 = (Inr (), ?h1\<lparr>h_mark_worklist := W\<rparr>)"
    "set (h_mark_worklist ?h1) \<subseteq> set W"
    using incremental_barrier_shape by blast
  let ?h2 = "h\<lparr>h_mark_worklist := W\<rparr>"
  have h2: "?h1\<lparr>h_mark_worklist := W\<rparr> = ?h2" by simp
  let ?x = "object_at h (slot_index i)"
  let ?young = "(ko \<noteq> None \<and> value_young h k) \<or> value_young h v"
  have "same_store h ?h2" by simp
  note S2 = same_store_reads [OF this]
  have owner: "checked_slot i ?h2 = Inr (slot_index i)" using i by (simp add: S2)
  have old: "is_old_slot (slot_index i) ?h2 = Inr (o_generation ?x = Old)"
    using current_slot_holds [OF i] by (intro is_young_slot_ok) (simp add: S2)
  have ty: "targets_young w ?h2 = Inr (value_young h w)" if "valid_ref h w" for w
    using targets_young_eq [OF that, where W = W and R = "h_remembered_set h"] by simp
  have kc: "(case ko of None \<Rightarrow> Inr False | Some k \<Rightarrow> targets_young k ?h2) = Inr (ko \<noteq> None \<and> value_young h k)"
    using ko ty [OF k] by auto
  let ?R = "if o_generation ?x = Old \<and> ?young \<and> i \<notin> set (h_remembered_set h)
    then h_remembered_set h @ [i] else h_remembered_set h"
  have rem: "record_remembered_object i ?h2 = (Inr (), barriered W ?R h)" if "o_generation ?x = Old" "?young"
    using that owner old by (auto simp: record_remembered_object_def sx_defs remembered_set_contains_def)
  have skip: "\<not> h_skip_next_write_barrier ?h2" using armed by (simp add: barriers_armed_def)
  have "record_map_write_barrier_if_needed i ko v ?h2 = (Inr (o_generation ?x = Old \<and> ?young), barriered W ?R h)"
  proof (cases "o_generation ?x = Old \<and> ?young")
    case True
    then show ?thesis
      using owner old kc ty [OF v] skip rem
      by (simp add: record_map_write_barrier_if_needed_def sx_defs remember_owner_def)
  next
    case False
    then show ?thesis
      using owner old kc ty [OF v]
      by (cases "o_generation ?x = Old") (auto simp: record_map_write_barrier_if_needed_def sx_defs)
  qed
  moreover have "set ?R = set (h_remembered_set h) \<union> (if o_generation ?x = Old \<and> ?young then {i} else {})" by auto
  moreover have "set (h_mark_worklist h) \<subseteq> set W" using W1(2) W(2) by simp
  ultimately show ?thesis using W1(1) W(1) h2 by metis
qed

subsection \<open>Writing the map object\<close>

text \<open>
  \<open>m'\<close> may replace the map \<open>m\<close> of \<open>h\<close> under id \<open>i\<close> when the value \<open>v\<close> (and, for a new
  entry, the key \<open>k\<close>) is published: \<open>fresh\<close> tells the two cases apart.
\<close>

definition map_update_ok :: "gcheap \<Rightarrow> object_id \<Rightarrow> val list \<Rightarrow> gcobj \<Rightarrow> gcobj \<Rightarrow> bool" where
  "map_update_ok h i news m m' \<longleftrightarrow> o_kind m' = Map_kind \<and> shape_ok m' \<and> o_generation m' = o_generation m \<and>
     set (reference_fields m') \<subseteq> set (reference_fields m) \<union> set news \<and> (\<forall>v\<in>set news. valid_ref h v) \<and>
     validate_map_index m' h = Inr () \<and> slot_index i + storage_slot_count m' \<le> length (h_objects h) \<and>
     (\<forall>t y. holds h t y \<longrightarrow> t \<noteq> slot_index i \<longrightarrow>
        t + storage_slot_count y \<le> slot_index i \<or> slot_index i + storage_slot_count m' \<le> t)"

lemma map_write_ok:
  assumes wf: "heap_wf h" and m: "map_object h i m" and u: "map_update_ok h i news m m'"
    and R: "set R = set (h_remembered_set h) \<union>
      (if o_generation m = Old \<and> (\<exists>v\<in>set news. value_young h v) then {i} else {})"
  shows "written h (slot_index i) (generation_from i) m' (set_object (slot_index i) m' (barriered W R h))"
    "heap_wf (set_object (slot_index i) m' (barriered W R h))"
proof -
  let ?s = "slot_index i" and ?k = "set_object (slot_index i) m' (barriered W R h)"
  note D = heap_wfD [OF wf] and M = map_objectD [OF wf m]
  have g: "h_generations h ! ?s = generation_from i" "generation_from i \<noteq> 0" "?s < length (h_generations h)"
    using M(2) by (simp_all add: current_slot_def)
  have gm: "generation_from i \<le> kMaxGeneration" using D(3) g by (metis generations_ok_def nth_mem)
  have gens: "(h_generations h)[?s := generation_from i] = h_generations h" using g(1) by (metis list_update_id)
  have regs: "h_weak_refs ?k = h_weak_refs h" "h_ephemerons ?k = h_ephemerons h" "h_intern_table ?k = h_intern_table h"
    "h_remembered_set ?k = R" "h_objects ?k = (h_objects h)[?s := Some m']" "h_generations ?k = h_generations h"
    "h_compaction_active ?k = h_compaction_active h"
    by (simp_all add: set_object_def)
  show w: "written h ?s (generation_from i) m' ?k"
    unfolding written_def
  proof (intro conjI allI impI ballI)
    show "?s < length (h_objects h)" by (rule holds_less [OF M(7)])
    fix y assume "holds h ?s y"
    then have "y = m" using M(7) by (rule holds_unique)
    then show "generation_from i = h_generations h ! ?s" "o_kind y = o_kind m'" "o_generation y = o_generation m'"
      "o_kind y = Str \<Longrightarrow> o_string_bytes y = o_string_bytes m'"
      using g u M(4) by (simp_all add: map_update_ok_def)
  next
    fix v assume "v \<in> set (reference_fields m')"
    then have "v \<in> set (reference_fields m) \<or> v \<in> set news" using u by (auto simp: map_update_ok_def)
    then show "valid_ref h v" using u D(5) M(7) by (auto simp: map_update_ok_def fields_valid_def)
  next
    fix t y assume "holds h t y" "t \<noteq> ?s"
    then show "t + storage_slot_count y \<le> ?s \<or> ?s + storage_slot_count m' \<le> t" using u by (simp add: map_update_ok_def)
  qed (use regs gens g gm u in \<open>simp_all add: map_update_ok_def\<close>)
  have id: "id_at ?k = id_at h" by (simp add: fun_eq_iff id_at_def regs)
  have kid: "object_id_at ?s (generation_from i) = i" by (rule object_id_at_current)
  show "heap_wf ?k"
  proof (rule written_wf [OF w wf])
    show "h_weak_refs ?k = map (id_at ?k) (kind_slots WeakRef ?k)" "h_ephemerons ?k = map (id_at ?k) (kind_slots Ephemeron ?k)"
      using D(7,9) by (simp_all add: regs id stored_kind_slots [OF w M(7)] weak_ok_def ephemerons_ok_def)
    show "current_slot h j \<and> o_generation (object_at h (slot_index j)) = Old" if "j \<in> set (h_remembered_set ?k)" for j
      using that D(6) M(2,3) unfolding regs R by (auto simp: remembered_ok_def split: if_splits)
    show "set (h_remembered_set h) \<subseteq> set (h_remembered_set ?k)" unfolding regs R by blast
    show "object_id_at ?s (generation_from i) \<in> set (h_remembered_set ?k)"
      if "o_generation m' = Old" "VObject j \<in> set (reference_fields m')" "o_generation (object_at h (slot_index j)) = Young" for j
    proof -
      have old: "o_generation m = Old" using that(1) u by (simp add: map_update_ok_def)
      have "VObject j \<in> set (reference_fields m) \<or> VObject j \<in> set news" using that(2) u by (auto simp: map_update_ok_def)
      then have "i \<in> set R"
      proof
        assume "VObject j \<in> set (reference_fields m)"
        then have "id_at h ?s \<in> set (h_remembered_set h)"
          using D(6) M(7) old that(3) unfolding remembered_ok_def by blast
        then show ?thesis using current_slot_id_at [OF M(2)] R by simp
      next
        assume "VObject j \<in> set news"
        then have "\<exists>v\<in>set news. value_young h v" using that(3) by (intro bexI [of _ "VObject j"]) (simp_all add: value_young_def)
        then show ?thesis using R old by simp
      qed
      then show ?thesis unfolding regs kid .
    qed
  qed (use u in \<open>simp_all add: map_update_ok_def regs\<close>)
qed

subsection \<open>The whole insertion\<close>

lemma written_key_content:
  assumes w: "written h s g x h'" and k: "key_ok h m k"
  shows "key_content_of h' k = key_content_of h k"
  using k written_at_current(3) [OF w] by (cases k) (auto simp: key_ok_def scalar_tag_def split: if_splits)

text \<open>What a store of a map does not touch: the roots and the intern table; a grey object stays grey.\<close>

definition published :: "gcheap \<Rightarrow> gcheap \<Rightarrow> bool" where
  "published h h' \<longleftrightarrow> h_roots h' = h_roots h \<and> h_handle_roots h' = h_handle_roots h \<and>
     h_intern_table h' = h_intern_table h \<and> h_marking_active h' = h_marking_active h \<and> set (h_mark_worklist h) \<subseteq> set (h_mark_worklist h')"

lemma publish_map_entry_ok:
  assumes wf: "heap_wf h" and calm: "calm_stores h" and m: "map_object h i m"
    and kv: "valid_ref h k" "valid_ref h v" and u: "map_update_ok h i news m m'"
    and case': "(\<exists>e. existing = Some e \<and> m' = put_map_value e v m \<and> news = [v]) \<or>
      (existing = None \<and> news = [k, v] \<and> (\<forall>W R. insert_map_entry k v m (barriered W R h) = Inr m'))"
  shows "\<exists>h'. publish_map_entry i existing k v h = (Inr (), h') \<and> heap_wf h' \<and>
    written h (slot_index i) (generation_from i) m' h' \<and> published h h'"
proof -
  note M = map_objectD [OF wf m]
  let ?s = "slot_index i" and ?ko = "if existing = None then Some k else None"
  have armed: "barriers_armed h" and quiet: "\<not> collect_minor_after_every_write_barrier (h_stress h)"
    using calm by (simp_all add: calm_stores_def)
  have ko: "?ko = None \<or> ?ko = Some k" by simp
  obtain h1 h2 W R b where B: "incremental_write_barrier_before_publish i k h = (Inr (), h1)"
    "incremental_write_barrier_before_publish i v h1 = (Inr (), h2)"
    "record_map_write_barrier_if_needed i ?ko v h2 = (Inr b, barriered W R h)"
    "set (h_mark_worklist h) \<subseteq> set W"
    "set R = set (h_remembered_set h) \<union>
      (if o_generation (object_at h ?s) = Old \<and> ((?ko \<noteq> None \<and> value_young h k) \<or> value_young h v) then {i} else {})"
    using map_store_barriers [OF wf armed M(2) kv ko] by blast
  have R: "set R = set (h_remembered_set h) \<union>
      (if o_generation m = Old \<and> (\<exists>v\<in>set news. value_young h v) then {i} else {})"
    using B(5) case' M(3) by auto
  let ?hb = "barriered W R h" and ?k = "set_object ?s m' (barriered W R h)"
  note w = map_write_ok(1) [OF wf m u R, of W] and wf' = map_write_ok(2) [OF wf m u R, of W]
  have at: "object_at ?k ?s = m'" using written_object_at [OF w] by simp
  have shape: "shape_ok m'" and kind: "o_kind m' = Map_kind" using u by (simp_all add: map_update_ok_def)
  have "v \<in> set (reference_fields m') \<Longrightarrow> valid_ref h v" for v by (rule writtenD(14) [OF w])
  then have "validate_map_index m' ?k = Inr ()"
    using written_map_index [OF w wf kind shape] u by (simp add: map_update_ok_def)
  moreover have "checked_map i ?hb = Inr m" "checked_slot i ?hb = Inr ?s" "object_at ?hb ?s = m"
    using M(1,3,6) by (simp_all only: barriered_reads)
  ultimately have put: "write_map_entry i existing k v ?hb = (Inr (), ?k)"
    using case' at shape
    by (auto simp: write_map_entry_def sx_defs modify_object_def)
  have "\<not> h_compaction_active ?k" "\<not> collect_minor_after_every_write_barrier (h_stress ?k)"
    using heap_wfD(2) [OF wf'] quiet by (simp_all add: set_object_def)
  then have "publish_map_entry i existing k v h = (Inr (), ?k)"
    using B(1-3) put heap_wf_validators [OF wf']
    by (simp add: publish_map_entry_def sx_defs store_map_shadow_def)
  moreover have "published h ?k" using B(4) by (simp add: published_def set_object_def)
  ultimately show ?thesis using w wf' by blast
qed

lemma map_index_same_keys:
  assumes "map e_key (o_map_entries m') = map e_key (o_map_entries m)"
    and "o_map_lookup_index m' = o_map_lookup_index m" and "o_kind m' = o_kind m"
  shows "validate_map_index m' h = validate_map_index m h"
proof -
  have "length (o_map_entries m') = length (o_map_entries m)" using assms(1) by (metis length_map)
  moreover have "e_key (o_map_entries m' ! n) = e_key (o_map_entries m ! n)" if "n < length (o_map_entries m)" for n
    using assms(1) that by (metis length_map nth_map)
  ultimately have "list_all2 (\<lambda>e e'. map_key_hash h (e_key e) = map_key_hash h (e_key e')) (o_map_entries m') (o_map_entries m)"
    by (simp add: list_all2_conv_all_nth)
  then show ?thesis using assms(2,3) by (simp add: validate_map_index_def validate_map_lookup_index_cong)
qed

lemma find_position_eq_None: "find_position (\<lambda>k. k = c) ks = None \<longleftrightarrow> c \<notin> set ks"
  by (induction ks) auto

lemma find_position_distinct:
  "distinct ks \<Longrightarrow> find_position (\<lambda>k. k = c) ks = Some e \<longleftrightarrow> e < length ks \<and> ks ! e = c"
  by (auto dest: find_position_SomeD intro!: find_position_unique simp: nth_eq_iff_index_eq)

lemma map_contents_put:
  assumes keys: "map_keys h' m' = map_keys h m" and dist: "distinct (map_keys h m)"
    and m': "m' = put_map_value e v m" and e: "e < length (o_map_entries m)" "map_keys h m ! e = c"
  shows "map_contents h' m' = (map_contents h m)(c \<mapsto> v)"
proof
  fix q
  have c: "find_position (\<lambda>x. x = c) (map_keys h m) = Some e" using e by (simp add: find_position_distinct [OF dist])
  have val: "e_value (o_map_entries m' ! n) = (if n = e then v else e_value (o_map_entries m ! n))"
    if "n < length (o_map_entries m)" for n
    using that e(1) by (simp add: m' put_map_value_def nth_list_update)
  show "map_contents h' m' q = ((map_contents h m)(c \<mapsto> v)) q"
  proof (cases "find_position (\<lambda>x. x = q) (map_keys h m)")
    case None
    then show ?thesis using c by (auto simp: map_contents_find keys)
  next
    case (Some n)
    then have n: "n < length (o_map_entries m)" "map_keys h m ! n = q" using find_position_SomeD [OF Some] by simp_all
    then have "n = e \<longleftrightarrow> q = c" using e dist by (auto simp: nth_eq_iff_index_eq)
    then show ?thesis using Some val [OF n(1)] by (simp add: map_contents_find keys)
  qed
qed

lemma map_contents_snoc:
  assumes keys: "map_keys h' m' = map_keys h m @ [c]" and m': "o_map_entries m' = o_map_entries m @ [\<lparr>e_key = k, e_value = v\<rparr>]"
    and new: "c \<notin> set (map_keys h m)"
  shows "map_contents h' m' = (map_contents h m)(c \<mapsto> v)"
proof
  fix q
  have len: "length (map_keys h m) = length (o_map_entries m)" by simp
  show "map_contents h' m' q = ((map_contents h m)(c \<mapsto> v)) q"
  proof (cases "q = c")
    case True
    then show ?thesis
      using new by (simp add: map_contents_find keys m' find_position_append find_position_eq_None [THEN iffD2])
  next
    case False
    have "n < length (o_map_entries m)" if "find_position (\<lambda>x. x = q) (map_keys h m) = Some n" for n
      using find_position_SomeD [OF that] by simp
    then show ?thesis
      using False
      by (cases "find_position (\<lambda>x. x = q) (map_keys h m)")
        (simp_all add: map_contents_find keys m' find_position_append nth_append)
  qed
qed

text \<open>A new entry fits in place: the two slots after the map are free or beyond the heap's end.\<close>

definition fits_in_place :: "gcheap \<Rightarrow> object_id \<Rightarrow> gcobj \<Rightarrow> bool" where
  "fits_in_place h i m \<longleftrightarrow> length (o_map_entries m) < uint32_max \<and>
     adjacent_run_is_free (slot_index i) (storage_slot_count m) (storage_slot_count m + 2) h \<and>
     slot_index i + storage_slot_count m + 2 \<le> 4294967296"

lemma insert_map_entry_barriered: "insert_map_entry k v m (barriered W R h) = insert_map_entry k v m h"
  by (simp only: insert_map_entry_def barriered_reads)

lemma extend_storage_eq: "generations_ok h \<Longrightarrow> extend_storage n h = grown (n - length (h_objects h)) h"
  by (simp add: extend_storage_def grown_def generations_ok_def)

lemma grown_map:
  assumes wf: "heap_wf h" and m: "map_object h i m"
  shows "map_object (grown n h) i m" "map_keys (grown n h) m = map_keys h m"
    "key_ok h m k \<Longrightarrow> key_ok (grown n h) m k" "value_ok h m v \<Longrightarrow> value_ok (grown n h) m v"
    "key_ok h m k \<Longrightarrow> key_content_of (grown n h) k = key_content_of h k"
    "valid_ref (grown n h) = valid_ref h"
proof -
  note M = map_objectD [OF wf m]
  have cur: "current_slot (grown n h) j = current_slot h j" for j by (rule grown_current [OF heap_wfD(3) [OF wf]])
  have at: "object_at (grown n h) (slot_index j) = object_at h (slot_index j)" if "current_slot h j" for j
    using that by (intro grown_object_at) (simp add: current_slot_def)
  show kc: "key_content_of (grown n h) k = key_content_of h k" if "key_ok h m k" for k
    using that at by (cases k) (auto simp: key_ok_def scalar_tag_def split: if_splits)
  then show keys: "map_keys (grown n h) m = map_keys h m" using M(10) by (simp add: map_keys_def)
  have "checked_map i (grown n h) = Inr m"
    using M(2,3,4,5) at [OF M(2)] cur by (simp add: checked_map_def checked_kind_def)
  then show "map_object (grown n h) i m" using M(8) by (simp add: map_object_def keys)
  show "key_ok h m k \<Longrightarrow> key_ok (grown n h) m k"
    using cur at by (auto simp: key_ok_def split: if_splits)
  show val: "valid_ref (grown n h) = valid_ref h" by (simp add: fun_eq_iff valid_ref_def cur)
  show "value_ok h m v \<Longrightarrow> value_ok (grown n h) m v" by (simp add: value_ok_def val)
qed

lemma fits_run:
  assumes wf: "heap_wf h" and m: "map_object h i m" and fits: "fits_in_place h i m"
    and y: "holds h t y" "t \<noteq> slot_index i"
  shows "t + storage_slot_count y \<le> slot_index i \<or> slot_index i + (storage_slot_count m + 2) \<le> t"
proof -
  let ?s = "slot_index i" and ?w = "storage_slot_count m"
  note M = map_objectD [OF wf m]
  show ?thesis
  proof (cases "t < ?s")
    case True
    then show ?thesis using layout_disjoint [OF heap_wfD(4) [OF wf] y(1) M(7)] by simp
  next
    case False
    then have "?s + ?w \<le> t" using layout_disjoint [OF heap_wfD(4) [OF wf] M(7) y(1)] y(2) by simp
    moreover have "\<not> is_storage_slot_free t h" using y(1) by (simp add: is_storage_slot_free_def holds_def)
    then have "t \<notin> {?s + ?w..<min (length (h_objects h)) (?s + (?w + 2))}"
      using fits by (auto simp: fits_in_place_def adjacent_run_is_free_def list_all_iff)
    ultimately show ?thesis using holds_less [OF y(1)] by auto
  qed
qed

lemma make_map_room_ok:
  assumes wf: "heap_wf h" and m: "map_object h i m" and fits: "fits_in_place h i m"
  shows "make_map_room [VObject i, k, v] h =
    (Inr [VObject i, k, v], grown (slot_index i + storage_slot_count m + 2 - length (h_objects h)) h)"
proof -
  note M = map_objectD [OF wf m]
  show ?thesis
    using M(1,6) fits heap_wfD(2) [OF wf] extend_storage_eq [OF heap_wfD(3) [OF wf]]
    by (simp add: make_map_room_def sx_defs finish_compaction_with_def ensure_map_growth_storage_def
        fits_in_place_def Let_def)
qed

text \<open>A new entry is put into a map that has the two slots it needs.\<close>

lemma insert_new_entry:
  assumes wf: "heap_wf h" and calm: "calm_stores h" and m: "map_object h i m"
    and k: "key_ok h m k" and v: "value_ok h m v" and space: "length (o_map_entries m) < uint32_max"
    and fits: "slot_index i + storage_slot_count m + 2 \<le> length (h_objects h)"
    and apart: "\<And>t y. holds h t y \<Longrightarrow> t \<noteq> slot_index i \<Longrightarrow>
      t + storage_slot_count y \<le> slot_index i \<or> slot_index i + (storage_slot_count m + 2) \<le> t"
    and new: "key_content_of h k \<notin> set (map_keys h m)"
  shows "\<exists>h' m'. publish_map_entry i None k v h = (Inr (), h') \<and> heap_wf h' \<and> map_object h' i m' \<and>
    m' = with_entry k v (o_map_lookup_index m') m \<and>
    map_contents h' m' = (map_contents h m)(key_content_of h k \<mapsto> v) \<and> published h h' \<and>
    (\<forall>j. current_slot h' j \<longleftrightarrow> current_slot h j) \<and>
    (\<forall>j. current_slot h j \<longrightarrow> j \<noteq> i \<longrightarrow> object_at h' (slot_index j) = object_at h (slot_index j))"
proof -
  note M = map_objectD [OF wf m]
  let ?c = "key_content_of h k" and ?s = "slot_index i"
  have ids: "object_id_at ?s (generation_from i) = i" by (rule object_id_at_current)
  have other: "slot_index j \<noteq> ?s" if "current_slot h j" "j \<noteq> i" for j
    using that M(2) current_slot_id_at by metis
  have valid: "valid_ref h k" "valid_ref h v" using key_ok_valid [OF k] value_ok_valid [OF v] by simp_all
  obtain ix where ix: "insert_map_entry k v m h = Inr (with_entry k v ix m)"
    "index_matches (map content_hash (map_keys h m @ [?c])) ix"
    using insert_map_entry_ok [OF wf m k space] by blast
  let ?m = "with_entry k v ix m"
  note P = with_entry_props [OF M(4,5) k v space, of ix]
  have keyok: "key_ok h ?m (e_key e)" if "e \<in> set (o_map_entries ?m)" for e
    using that k M(10) by (auto simp: with_entry_def key_ok_def)
  have "length (o_map_entries ?m) \<le> uint32_max" "o_map_lookup_index ?m = ix"
    using space by (simp_all add: with_entry_def)
  then have "validate_map_index ?m h = Inr ()" using map_index_matches [OF wf keyok P(2)] ix(2) P(7) by simp
  then have u: "map_update_ok h i [k, v] m ?m"
    unfolding map_update_ok_def using P valid fits apart by (auto split: if_splits)
  have ins: "\<forall>W R. insert_map_entry k v m (barriered W R h) = Inr ?m"
    unfolding insert_map_entry_barriered using ix(1) by simp
  obtain h' where h': "publish_map_entry i None k v h = (Inr (), h')" "heap_wf h'" "written h ?s (generation_from i) ?m h'"
    "published h h'"
    using publish_map_entry_ok [OF wf calm m valid u, of None] ins by blast
  note cur = written_current [OF h'(3) wf, unfolded ids] and at = written_object_at [OF h'(3)]
  have "key_content_of h' (e_key e) = key_content_of h (e_key e)" if "e \<in> set (o_map_entries m)" for e
    by (rule written_key_content [OF h'(3) M(10) [OF that]])
  then have keys: "map_keys h' ?m = map_keys h m @ [?c]"
    using written_key_content [OF h'(3) k] by (simp add: with_entry_def map_keys_def)
  have "checked_map i h' = Inr ?m" using cur P(1,2) at by (simp add: checked_map_def checked_kind_def)
  then have "map_object h' i ?m" using M(8) keys new by (simp add: map_object_def)
  moreover have "map_contents h' ?m = (map_contents h m)(?c \<mapsto> v)"
    by (rule map_contents_snoc [OF keys _ new]) (simp add: with_entry_def)
  moreover have "?m = with_entry k v (o_map_lookup_index ?m) m" by (simp add: with_entry_def)
  ultimately show ?thesis using h'(1,2,4) cur(1) at other M(2) by (intro exI [of _ h'] exI [of _ ?m]) auto
qed

text \<open>C10. \<open>map_set\<close> in place updates the finite function at the key and nowhere else: an entry of equal
  key gets the new value, and a new key gets a new entry and a rebuilt or extended index.  For a new key
  this is the case in which the slots after the map are free (\<open>fits_in_place\<close>); the other case, in which
  the map moves, is \<open>map_growth_moves_the_map\<close> of \<open>GC_MapGrowth\<close>.  The heap stays well-formed, no id
  gains or loses its object, and every other object keeps its contents.\<close>

theorem map_set_refines_the_update:
  assumes wf: "heap_wf h" and calm: "calm_stores h" and m: "map_object h i m"
    and k: "key_ok h m k" and v: "value_ok h m v"
    and room: "map_contents h m (key_content_of h k) = None \<Longrightarrow> fits_in_place h i m"
  shows "\<exists>h' m'. map_set i k v h = (Inr (), h') \<and> heap_wf h' \<and> map_object h' i m' \<and>
    map_contents h' m' = (map_contents h m)(key_content_of h k \<mapsto> v) \<and>
    (\<forall>j. current_slot h' j \<longleftrightarrow> current_slot h j) \<and>
    (\<forall>j. current_slot h j \<longrightarrow> j \<noteq> i \<longrightarrow> object_at h' (slot_index j) = object_at h (slot_index j))"
proof -
  note M = map_objectD [OF wf m] and idle = heap_wfD(2) [OF wf]
  let ?c = "key_content_of h k" and ?s = "slot_index i"
  have vo: "value_object i = Inr (VObject i)" by (rule current_value_object [OF wf M(2)])
  have find: "find_map_entry i k h = Inr (find_position (\<lambda>x. x = ?c) (map_keys h m))" by (rule find_map_entry_eq [OF wf m k])
  have vv: "validate_map_value m v h = Inr ()" by (rule validate_map_value_ok [OF wf v])
  have ids: "object_id_at ?s (generation_from i) = i" by (rule object_id_at_current)
  have other: "slot_index j \<noteq> ?s" if "current_slot h j" "j \<noteq> i" for j
    using that M(2) current_slot_id_at by metis
  have valid: "valid_ref h k" "valid_ref h v" using key_ok_valid [OF k] value_ok_valid [OF v] by simp_all
  show ?thesis
  proof (cases "find_position (\<lambda>x. x = ?c) (map_keys h m)")
    case (Some e)
    then have e: "e < length (o_map_entries m)" "map_keys h m ! e = ?c" using find_position_SomeD [OF Some] by simp_all
    let ?m = "put_map_value e v m"
    note P = put_map_value_props [OF M(4,5) v e(1)]
    have u: "map_update_ok h i [v] m ?m"
      unfolding map_update_ok_def
    proof (intro conjI allI impI)
      show "validate_map_index ?m h = Inr ()" using map_index_same_keys [OF P(11,10)] P(2) M(4,9) by simp
      show "?s + storage_slot_count ?m \<le> length (h_objects h)"
        using heap_wfD(4) [OF wf] M(7) by (simp add: P(3) layout_ok_def slot_layout_ok_def)
      fix t y assume y: "holds h t y" "t \<noteq> ?s"
      then show "t + storage_slot_count y \<le> ?s \<or> ?s + storage_slot_count ?m \<le> t"
        using layout_disjoint [OF heap_wfD(4) [OF wf] y(1) M(7)] layout_disjoint [OF heap_wfD(4) [OF wf] M(7) y(1)]
        unfolding P(3) by linarith
    qed (use P valid in \<open>auto split: if_splits\<close>)
    obtain h' where h': "publish_map_entry i (Some e) k v h = (Inr (), h')" "heap_wf h'" "written h ?s (generation_from i) ?m h'"
      using publish_map_entry_ok [OF wf calm m valid u, of "Some e"] by blast
    note cur = written_current [OF h'(3) wf, unfolded ids] and at = written_object_at [OF h'(3)]
    have keys: "map_keys h' ?m = map_keys h m"
    proof -
      have "map_keys h' ?m = map (key_content_of h') (map e_key (o_map_entries ?m))" by (simp add: map_keys_def)
      also have "\<dots> = map_keys h m"
        unfolding P(11) using written_key_content [OF h'(3) M(10)] by (simp add: map_keys_def)
      finally show ?thesis .
    qed
    have "checked_map i h' = Inr ?m"
      using cur P(1,2) at by (simp add: checked_map_def checked_kind_def)
    then have mo: "map_object h' i ?m" using M(8) keys by (simp add: map_object_def)
    have "map_set i k v h = (Inr (), h')"
      using vo find Some M(1) vv idle h'(1)
      by (simp add: map_set_def store_map_entry_def sx_defs canonical_map_operand_def)
    moreover have "map_contents h' ?m = (map_contents h m)(?c \<mapsto> v)"
      by (rule map_contents_put [OF keys M(8) refl e])
    ultimately show ?thesis using h'(2) mo cur(1) at other M(2) by auto
  next
    case None
    have fits: "fits_in_place h i m" by (rule room) (simp add: map_contents_find None)
    let ?n = "?s + storage_slot_count m + 2 - length (h_objects h)"
    let ?h = "grown ?n h"
    have "?s + storage_slot_count m + 2 \<le> 4294967296" using fits unfolding fits_in_place_def by blast
    moreover have "length (h_objects h) \<le> 4294967296" using heap_wfD(1) [OF wf] unfolding plain_identities_def by blast
    ultimately have "length (h_objects h) + ?n \<le> 4294967296" by arith
    then have wf1: "heap_wf ?h" by (rule grown_wf [OF wf])
    note G = grown_map [OF wf m, where n = ?n] and cur = grown_current [OF heap_wfD(3) [OF wf]]
    have calm1: "calm_stores ?h" using calm by (simp add: calm_stores_def barriers_armed_def)
    have space: "length (o_map_entries m) < uint32_max" using fits by (simp add: fits_in_place_def)
    have new: "key_content_of ?h k \<notin> set (map_keys ?h m)" using None G(2) G(5) [OF k] by (simp add: find_position_eq_None)
    have fit: "?s + storage_slot_count m + 2 \<le> length (h_objects ?h)" by simp
    have apart: "t + storage_slot_count y \<le> ?s \<or> ?s + (storage_slot_count m + 2) \<le> t"
      if "holds ?h t y" "t \<noteq> ?s" for t y
      using fits_run [OF wf m fits] that by simp
    obtain h' m' where h': "publish_map_entry i None k v ?h = (Inr (), h')" "heap_wf h'" "map_object h' i m'"
      "map_contents h' m' = (map_contents ?h m)(key_content_of ?h k \<mapsto> v)"
      "\<And>j. current_slot h' j \<longleftrightarrow> current_slot ?h j"
      "\<And>j. current_slot ?h j \<Longrightarrow> j \<noteq> i \<Longrightarrow> object_at h' (slot_index j) = object_at ?h (slot_index j)"
      using insert_new_entry [OF wf1 calm1 G(1) G(3) [OF k] G(4) [OF v] space fit apart new] by blast
    have "map_set i k v h = (Inr (), h')"
      using vo find None M(1) vv h'(1) make_map_room_ok [OF wf m fits] heap_wfD(2) [OF wf1]
      by (simp add: map_set_def store_map_entry_def sx_defs canonical_map_operand_def)
    moreover have "map_contents h' m' = (map_contents h m)(?c \<mapsto> v)"
      using h'(4) G(2) G(5) [OF k] by (simp add: map_contents_find fun_eq_iff)
    moreover have "object_at h' (slot_index j) = object_at h (slot_index j)" if "current_slot h j" "j \<noteq> i" for j
    proof -
      have "slot_index j < length (h_objects h)" using that(1) by (simp add: current_slot_def)
      then have "object_at ?h (slot_index j) = object_at h (slot_index j)" by (rule grown_object_at)
      with h'(6) [of j] that cur show ?thesis by simp
    qed
    ultimately show ?thesis using h'(2,3,5) cur by auto
  qed
qed

subsection \<open>A sample map\<close>

definition sample_map :: gcobj where
  "sample_map = default_object\<lparr>o_kind := Map_kind, o_length := 0\<rparr>"

definition sample_map_heap :: gcheap where
  "sample_map_heap = empty_heap\<lparr>h_objects := [Some sample_map, None, None, Some default_object],
     h_generations := [1, 0, 0, 1]\<rparr>"

lemma sample_map_holds:
  "holds sample_map_heap s x \<longleftrightarrow> (s = 0 \<and> x = sample_map) \<or> (s = 3 \<and> x = default_object)"
  by (auto simp: holds_def sample_map_heap_def less_Suc_eq nth_Cons numeral_eq_Suc split: nat.splits)

lemma sample_map_shapes:
  "shape_ok sample_map" "shape_ok default_object" "o_kind sample_map = Map_kind" "o_kind default_object = Pair"
  "reference_fields sample_map = []" "reference_fields default_object = [VNil, VNil]"
  "storage_slot_count sample_map = 1" "storage_slot_count default_object = 1" "o_generation sample_map = Young"
  "o_generation default_object = Young"
  by (simp_all add: sample_map_def default_object_def validate_descriptor_shape_def shape_foreign_payload_def
      shape_map_def shape_pair_def reference_fields_def storage_slot_count_def)

lemma sample_map_index: "validate_map_index sample_map h = Inr ()"
  by (simp add: validate_map_index_def sample_map_def validate_map_lookup_index_def map_lookup_index_capacity_def)

lemma sample_map_heap_wf: "heap_wf sample_map_heap"
proof -
  note H = sample_map_holds and S = sample_map_shapes
  have len: "length (h_objects sample_map_heap) = 4" by (simp add: sample_map_heap_def)
  have regs: "h_weak_refs sample_map_heap = []" "h_ephemerons sample_map_heap = []" "h_intern_table sample_map_heap = []"
    "h_remembered_set sample_map_heap = []"
    by (simp_all add: sample_map_heap_def empty_heap_def)
  have kinds: "kind_slots k sample_map_heap = []" if "k \<noteq> Map_kind" "k \<noteq> Pair" for k
  proof -
    have "s \<notin> set (kind_slots k sample_map_heap)" for s
      using that S H [of s "object_at sample_map_heap s"] by (auto simp: kind_slots_iff)
    then show ?thesis by (cases "kind_slots k sample_map_heap") auto
  qed
  have "plain_identities sample_map_heap" by (simp add: plain_identities_def sample_map_heap_def empty_heap_def)
  moreover have "generations_ok sample_map_heap"
    unfolding generations_ok_def H by (auto simp: sample_map_heap_def kMaxGeneration_def)
  moreover have "layout_ok sample_map_heap"
    unfolding layout_ok_def H by (auto simp: slot_layout_ok_def S sample_map_index len)
  moreover have "fields_valid sample_map_heap" unfolding fields_valid_def H by (auto simp: S)
  moreover have "remembered_ok sample_map_heap" unfolding remembered_ok_def H regs by (auto simp: S)
  moreover have "weak_ok sample_map_heap" "ephemerons_ok sample_map_heap" "interns_ok sample_map_heap"
    by (simp_all add: weak_ok_def ephemerons_ok_def interns_ok_def interns_ok_upto_def kinds regs)
  ultimately show ?thesis by (simp add: heap_wf_def)
qed

lemma sample_map_object: "map_object sample_map_heap (object_id_at 0 1) sample_map"
proof -
  have c: "current_slot sample_map_heap (object_id_at 0 1)" by (simp add: current_slot_def sample_map_heap_def)
  have x: "object_at sample_map_heap 0 = sample_map" by (simp add: object_at_def sample_map_heap_def)
  have "shape_ok (object_at sample_map_heap (slot_index (object_id_at 0 1)))"
    by (rule heap_wf_shape [OF sample_map_heap_wf current_slot_holds [OF c]])
  then have "checked_map (object_id_at 0 1) sample_map_heap = Inr sample_map"
    using c x by (simp add: checked_map_def checked_kind_def) (simp add: sample_map_def)
  then show ?thesis by (simp add: map_object_def map_keys_def sample_map_def)
qed

lemma sample_map_ok:
  "calm_stores sample_map_heap" "key_ok sample_map_heap sample_map (VInt64 5)"
  "value_ok sample_map_heap sample_map (VBool True)" "map_contents sample_map_heap sample_map = Map.empty"
  "fits_in_place sample_map_heap (object_id_at 0 1) sample_map"
proof -
  show "calm_stores sample_map_heap"
    by (simp add: calm_stores_def barriers_armed_def sample_map_heap_def empty_heap_def default_stress_def)
  show "key_ok sample_map_heap sample_map (VInt64 5)" "value_ok sample_map_heap sample_map (VBool True)"
    by (simp_all add: key_ok_def value_ok_def sample_map_def scalar_tag_def default_object_def)
  show "map_contents sample_map_heap sample_map = Map.empty"
    by (simp add: map_contents_def map_pairs_def sample_map_def)
  have "is_storage_slot_free 1 sample_map_heap \<and> is_storage_slot_free 2 sample_map_heap"
    by (auto simp: is_storage_slot_free_def list_all_iff sample_map_heap_def less_Suc_eq numeral_eq_Suc
        sample_map_shapes)
  then have "adjacent_run_is_free 0 1 3 sample_map_heap"
    by (simp add: adjacent_run_is_free_def sample_map_heap_def upt_rec numeral_eq_Suc)
  moreover have "length (o_map_entries sample_map) < uint32_max" by (simp add: sample_map_def uint32_max_def)
  ultimately show "fits_in_place sample_map_heap (object_id_at 0 1) sample_map"
    unfolding fits_in_place_def sample_map_shapes by (simp add: numeral_3_eq_3)
qed

lemma map_lookup_refines_the_finite_map_witness:
  "map_has (object_id_at 0 1) (VInt64 5) sample_map_heap = Inr False"
  using map_lookup_refines_the_finite_map [OF sample_map_heap_wf sample_map_object, of "VInt64 5"] sample_map_ok
  by simp

lemma map_set_refines_the_update_witness:
  "\<exists>h' m'. map_set (object_id_at 0 1) (VInt64 5) (VBool True) sample_map_heap = (Inr (), h') \<and>
    heap_wf h' \<and> map_contents h' m' (Key_i64 5) = Some (VBool True)"
proof -
  note S = sample_map_ok
  obtain h' m' where r: "map_set (object_id_at 0 1) (VInt64 5) (VBool True) sample_map_heap = (Inr (), h')" "heap_wf h'"
    "map_contents h' m' = (map_contents sample_map_heap sample_map)(key_content_of sample_map_heap (VInt64 5) \<mapsto> VBool True)"
    using map_set_refines_the_update [OF sample_map_heap_wf S(1) sample_map_object S(2,3) S(5)] by blast
  then have "map_contents h' m' (Key_i64 5) = Some (VBool True)" by simp
  with r show ?thesis by blast
qed

end
