(* ===== verification/GC_MapGrowth.thy ===== *)
theory GC_MapGrowth
  imports GC_Relocate GC_Maps
begin

text \<open>
  A map that outgrows its place (\<open>store_map_entry\<close> and \<open>ensure_map_growth_storage\<close> of
  \<open>src/gc/heap.cpp\<close>): the moved map is the same finite function with its values renamed, and
  \<open>map_set\<close> then inserts the new entry into it.
\<close>

lemma growth_map:
  assumes g: "growth h i w h'" and m: "map_object h i m"
  shows "map_object h' (grown_id h) (moved_object h i m)" "map_keys h' (moved_object h i m) = map_keys h m"
    "map_contents h' (moved_object h i m) = map_option (moved_reading h i) \<circ> map_contents h m"
    "key_ok h m k \<Longrightarrow> moved_reading h i k = k \<and> key_ok h' (moved_object h i m) k \<and> key_content_of h' k = key_content_of h k"
    "value_ok h m v \<Longrightarrow> value_ok h' (moved_object h i m) (moved_reading h i v)"
proof -
  note D = growthD [OF g] and M = map_objectD [OF growthD(1) [OF g] m]
  let ?m = "moved_object h i m"
  have idle: "\<not> h_compaction_active h'" by (rule heap_wfD(2) [OF growth_wf [OF g]])
  have name: "moved_name h i i = grown_id h" by (simp add: renamed_id_def)
  have key: "moved_reading h i k = k \<and> key_ok h' ?m k \<and> key_content_of h' k = key_content_of h k" if k: "key_ok h m k" for k
  proof (cases "o_map_key_is_ref m")
    case True
    then obtain j where j: "k = VObject j" "current_slot h j" "o_kind (object_at h (slot_index j)) = Str"
      using k by (auto simp: key_ok_def)
    then have "j \<noteq> i" using D(6) by auto
    then have "moved_name h i j = j" by (simp add: renamed_id_def)
    then show ?thesis using j growth_current(2,3) [OF g j(2)] True by (simp add: key_ok_def)
  next
    case False
    then have "scalar_tag k" using k by (simp add: key_ok_def)
    then show ?thesis using False by (cases k) (simp_all add: key_ok_def scalar_tag_def)
  qed
  show "moved_reading h i k = k \<and> key_ok h' ?m k \<and> key_content_of h' k = key_content_of h k" if "key_ok h m k" for k
    by (rule key [OF that])
  have entries: "o_map_entries ?m = map (\<lambda>e. e\<lparr>e_value := moved_reading h i (e_value e)\<rparr>) (o_map_entries m)"
  proof -
    have "e\<lparr>e_key := (if o_map_key_is_ref m then moved_reading h i (e_key e) else e_key e),
        e_value := (if o_map_value_is_ref m then moved_reading h i (e_value e) else e_value e)\<rparr> =
      e\<lparr>e_value := moved_reading h i (e_value e)\<rparr>" if e: "e \<in> set (o_map_entries m)" for e
      using key [OF M(10) [OF e]] map_shape_keys(4) [OF M(5,4) e] by (intro map_entry.equality) auto
    then show ?thesis unfolding renamed_map_entries [OF M(4)] by (rule map_cong [OF refl])
  qed
  show keys: "map_keys h' ?m = map_keys h m"
    using key [OF M(10)] by (simp add: map_keys_def entries)
  show "map_contents h' ?m = map_option (moved_reading h i) \<circ> map_contents h m"
  proof
    fix c
    have "e_value (o_map_entries ?m ! n) = moved_reading h i (e_value (o_map_entries m ! n))"
      if "find_position (\<lambda>x. x = c) (map_keys h m) = Some n" for n
      using find_position_SomeD [OF that] by (simp add: entries)
    then show "map_contents h' ?m c = (map_option (moved_reading h i) \<circ> map_contents h m) c"
      by (cases "find_position (\<lambda>x. x = c) (map_keys h m)") (simp_all add: map_contents_find keys)
  qed
  have "object_at h' (slot_index (grown_id h)) = ?m" "current_slot h' (grown_id h)"
    using growth_current(2,3) [OF g D(2)] M(3) unfolding name by simp_all
  moreover have "shape_ok ?m" by (rule renamed_object_shape [OF M(5)])
  ultimately have "checked_map (grown_id h) h' = Inr ?m"
    using M(4) by (simp add: checked_map_def checked_kind_def Let_def)
  then show "map_object h' (grown_id h) ?m" using M(8) keys by (simp add: map_object_def)
  show "value_ok h' ?m (moved_reading h i v)" if "value_ok h m v" for v
    using that growth_valid [OF g, of v] by (auto simp: value_ok_def reference_tag_def simp del: tag_simps split: if_splits)
qed

lemma growth_other_current:
  assumes g: "growth h i w h'"
  shows "current_slot h' j \<longleftrightarrow> j = grown_id h \<or> (current_slot h j \<and> j \<noteq> i)"
proof -
  have "moved_name h i k = (if k = i then grown_id h else k)" for k by (simp add: renamed_id_def)
  then show ?thesis using growth_current_iff [OF g, of j] growthD(2) [OF g] by auto
qed

lemma growth_other_object:
  assumes g: "growth h i w h'" and j: "current_slot h j" "j \<noteq> i"
  shows "object_at h' (slot_index j) = moved_object h i (object_at h (slot_index j))"
  using growth_current(3) [OF g j(1)] j(2) by (simp add: renamed_id_def)

lemma growth_map_room:
  assumes g: "growth h i (storage_slot_count m + 2) h'" and m: "map_object h i m"
  shows "length (o_map_entries m) < uint32_max"
    "slot_index (grown_id h) + storage_slot_count (moved_object h i m) + 2 \<le> length (h_objects h')"
    "holds h' t y \<Longrightarrow> t \<noteq> slot_index (grown_id h) \<Longrightarrow> t + storage_slot_count y \<le> slot_index (grown_id h)"
proof -
  note D = growthD [OF g] and M = map_objectD [OF growthD(1) [OF g] m] and G = grown_id_slot [OF g]
  have lay: "s + storage_slot_count x \<le> length (h_objects h)" if "holds h s x" for s x
    using heap_wfD(4) [OF D(1)] that by (simp add: layout_ok_def slot_layout_ok_def)
  have "storage_slot_count m = 1 + 2 * length (o_map_entries m)" using M(4,11) by (simp add: storage_slot_count_def)
  then show "length (o_map_entries m) < uint32_max" using D(5) by (simp add: uint32_max_def)
  show "slot_index (grown_id h) + storage_slot_count (moved_object h i m) + 2 \<le> length (h_objects h')"
    using G(1) relocatedD(1) [OF D(3)] by simp
  assume y: "holds h' t y" "t \<noteq> slot_index (grown_id h)"
  then obtain s x where s: "holds h s x" "t = place_after h i s" "y = moved_object h i x" using growth_holds [OF g] by blast
  then have "t = s" using y(2) G(1) by (auto simp: place_after_def)
  then show "t + storage_slot_count y \<le> slot_index (grown_id h)" using lay [OF s(1)] G(1) s(3) by simp
qed

lemma make_map_room_moves:
  assumes wf: "heap_wf h" and m: "map_object h i m"
    and blocked: "\<not> adjacent_run_is_free (slot_index i) (storage_slot_count m) (storage_slot_count m + 2) h"
    and room: "length (h_objects h) + storage_slot_count m + 2 \<le> 4294967296"
    and live: "named_live h []" and valid: "valid_ref h k" "valid_ref h v"
  shows "\<exists>objs R. let h' = grown_state h i (storage_slot_count m + 2) objs R in
    make_map_room [VObject i, k, v] h = (Inr (map (moved_reading h i) [VObject i, k, v]), h') \<and>
    growth h i (storage_slot_count m + 2) h'"
proof -
  note M = map_objectD [OF wf m] and V = heap_wf_validators [OF wf]
  let ?w = "storage_slot_count m + 2"
  have g: "growing h i ?w" using wf M(2,3,4) room by (simp add: growing_def)
  have "named_live h [VObject i, k, v]"
    using live M(2) valid by (auto simp: named_live_def roots_valid_def collection_roots_def)
  then obtain objs R where r: "relocate_for_growth msg_map_growth_limit msg_map_growth_grey i [VObject i, k, v] ?w h =
      (Inr (map (moved_reading h i) [VObject i, k, v]), grown_state h i ?w objs R)"
    "growth h i ?w (grown_state h i ?w objs R)"
    using relocate_for_growth_ok [OF g] by blast
  have "length (o_map_entries m) < uint32_max" by (rule growth_map_room(1) [OF r(2) m])
  then have "make_map_room [VObject i, k, v] h = (Inr (map (moved_reading h i) [VObject i, k, v]), grown_state h i ?w objs R)"
    using M(1,6) blocked heap_wfD(2) [OF wf] r(1) V
    by (simp add: make_map_room_def sx_defs finish_compaction_with_def ensure_map_growth_storage_def
        relocate_map_for_growth_def Let_def)
  with r(2) show ?thesis unfolding Let_def by blast
qed

text \<open>C11. When a new key does not fit behind its map, \<open>map_set\<close> moves the map: it gets a fresh id at the end
  of the heap, its old id becomes stale, and every root, handle and reference that named it (in fields,
  weak targets, ephemerons, map keys and values, its own entries and the value stored included) names it
  by the new id.  The map is then the updated finite function; every other object, id, mark, generation
  and scalar is as before, the interned strings are the same, the heap is well-formed and no grey object
  is lost.\<close>

theorem map_growth_moves_the_map:
  assumes wf: "heap_wf h" and calm: "calm_stores h" and m: "map_object h i m" and k: "key_ok h m k" and v: "value_ok h m v"
    and new: "map_contents h m (key_content_of h k) = None"
    and blocked: "\<not> adjacent_run_is_free (slot_index i) (storage_slot_count m) (storage_slot_count m + 2) h"
    and room: "length (h_objects h) + storage_slot_count m + 2 \<le> 4294967296" and live: "named_live h []"
  shows "\<exists>h' m' i'. map_set i k v h = (Inr (), h') \<and> heap_wf h' \<and> \<not> current_slot h i' \<and> \<not> current_slot h' i \<and>
    (\<forall>j. current_slot h' j \<longleftrightarrow> j = i' \<or> (current_slot h j \<and> j \<noteq> i)) \<and>
    map_object h' i' m' \<and> o_map_layout_index m' = o_map_layout_index m \<and>
    o_map_key_is_ref m' = o_map_key_is_ref m \<and> o_map_value_is_ref m' = o_map_value_is_ref m \<and>
    o_marked m' = o_marked m \<and> o_generation m' = o_generation m \<and>
    map_contents h' m' = (map_option (renamed_value i i') \<circ> map_contents h m)
      (key_content_of h k \<mapsto> renamed_value i i' v) \<and>
    h_roots h' = map (renamed_value i i') (h_roots h) \<and>
    h_handle_roots h' = map (apsnd (renamed_value i i')) (h_handle_roots h) \<and>
    h_intern_table h' = h_intern_table h \<and>
    (h_marking_active h \<longrightarrow> renamed_id i i' ` set (h_mark_worklist h) \<subseteq> set (h_mark_worklist h')) \<and>
    (\<forall>j. current_slot h j \<longrightarrow> j \<noteq> i \<longrightarrow>
       (\<exists>x y. holds h (slot_index j) x \<and> holds h' (slot_index j) y \<and>
          same_descriptor x y \<and> references_rewritten (renamed_value i i') x y \<and>
          o_marked y = o_marked x \<and> o_generation y = o_generation x \<and>
          o_weak_target y = renamed_value i i' (o_weak_target x) \<and>
          o_ephemeron_key y = renamed_value i i' (o_ephemeron_key x) \<and>
          o_ephemeron_value y = renamed_value i i' (o_ephemeron_value x)))"
proof -
  note M = map_objectD [OF wf m]
  let ?w = "storage_slot_count m + 2" and ?f = "moved_reading h i" and ?m = "moved_object h i m" and ?i = "grown_id h"
  have valid: "valid_ref h k" "valid_ref h v" using key_ok_valid [OF k] value_ok_valid [OF v] by simp_all
  obtain objs R where r: "make_map_room [VObject i, k, v] h = (Inr (map ?f [VObject i, k, v]), grown_state h i ?w objs R)"
    "growth h i ?w (grown_state h i ?w objs R)"
    using make_map_room_moves [OF wf m blocked room live valid] unfolding Let_def by blast
  let ?h = "grown_state h i ?w objs R"
  note G = growth_map [OF r(2) m] and A = growth_map_room [OF r(2) m] and wf1 = growth_wf [OF r(2)]
  have fresh: "key_content_of ?h k \<notin> set (map_keys ?h ?m)"
    using new G(2,4) k by (simp add: map_contents_find find_position_eq_None)
  have calm1: "calm_stores ?h" using calm by (simp add: calm_stores_def barriers_armed_def grown_state_def)
  have space: "length (o_map_entries ?m) < uint32_max" using A(1) by (simp add: renamed_map_entries [OF M(4)])
  obtain h' m' where h': "publish_map_entry ?i None k (?f v) ?h = (Inr (), h')" "heap_wf h'" "map_object h' ?i m'"
    "m' = with_entry k (?f v) (o_map_lookup_index m') ?m"
    "map_contents h' m' = (map_contents ?h ?m)(key_content_of ?h k \<mapsto> ?f v)" "published ?h h'"
    "\<And>j. current_slot h' j \<longleftrightarrow> current_slot ?h j"
    "\<And>j. current_slot ?h j \<Longrightarrow> j \<noteq> ?i \<Longrightarrow> object_at h' (slot_index j) = object_at ?h (slot_index j)"
    using insert_new_entry [OF wf1 calm1 G(1) conjunct1 [OF conjunct2 [OF G(4) [OF k]]] G(5) [OF v] space A(2) _ fresh] A(3)
    by (metis (no_types, lifting))
  note G4 = G(4) [OF k] and slot = grown_id_slot(3,4) [OF r(2)]
  have cur: "current_slot h' j \<longleftrightarrow> j = ?i \<or> (current_slot h j \<and> j \<noteq> i)" for j
    using h'(7) growth_other_current [OF r(2)] by simp
  have run: "map_set i k v h = (Inr (), h')"
  proof -
    have "value_object i = Inr (VObject i)" by (rule current_value_object [OF wf M(2)])
    moreover have "find_map_entry i k h = Inr None"
      using find_map_entry_eq [OF wf m k] new by (simp add: map_contents_find)
    moreover have "validate_map_value m v h = Inr ()" by (rule validate_map_value_ok [OF wf v])
    moreover have "?f (VObject i) = VObject ?i" by (simp add: renamed_id_def)
    ultimately show ?thesis
      using r(1) M(1) h'(1) heap_wfD(2) [OF wf1] G4
      by (simp add: map_set_def store_map_entry_def sx_defs canonical_map_operand_def)
  qed
  have same: "same_descriptor m ?m" by (rule renamed_same_descriptor)
  have entry: "o_map_layout_index m' = o_map_layout_index m" "o_map_key_is_ref m' = o_map_key_is_ref m"
    "o_map_value_is_ref m' = o_map_value_is_ref m" "o_marked m' = o_marked m" "o_generation m' = o_generation m"
    using same by (subst h'(4), simp add: with_entry_def same_descriptor_def)+
  have contents: "map_contents h' m' = (map_option ?f \<circ> map_contents h m)(key_content_of h k \<mapsto> ?f v)"
    unfolding h'(5) G(3) using G4 by simp
  have lists: "h_intern_table h' = h_intern_table h" "h_roots h' = map ?f (h_roots h)" "h_handle_roots h' = map (apsnd ?f) (h_handle_roots h)"
    "h_marking_active h \<Longrightarrow> moved_name h i ` set (h_mark_worklist h) \<subseteq> set (h_mark_worklist h')"
    using h'(6) by (simp_all add: published_def grown_state_def)
  have object: "\<exists>x y. holds h (slot_index j) x \<and> holds h' (slot_index j) y \<and> same_descriptor x y \<and>
      references_rewritten ?f x y \<and> o_marked y = o_marked x \<and> o_generation y = o_generation x \<and>
      o_weak_target y = ?f (o_weak_target x) \<and> o_ephemeron_key y = ?f (o_ephemeron_key x) \<and>
      o_ephemeron_value y = ?f (o_ephemeron_value x)" if j: "current_slot h j" "j \<noteq> i" for j
  proof -
    let ?x = "object_at h (slot_index j)"
    have x: "holds h (slot_index j) ?x" by (rule current_slot_holds [OF j(1)])
    have c: "current_slot ?h j" "j \<noteq> ?i" using growth_other_current [OF r(2)] j slot(1) by auto
    then have "object_at h' (slot_index j) = moved_object h i ?x"
      using h'(8) growth_other_object [OF r(2) j] by simp
    moreover have "current_slot h' j" using cur j by blast
    ultimately have "holds h' (slot_index j) (moved_object h i ?x)" using current_slot_holds by metis
    with x show ?thesis
      using renamed_same_descriptor renamed_references [OF heap_wf_shape [OF wf x]]
      by (intro exI [of _ ?x] exI [of _ "moved_object h i ?x"]) simp
  qed
  show ?thesis
    using run h'(2,3) slot cur entry contents lists object
    by (intro exI [of _ h'] exI [of _ m'] exI [of _ ?i]) auto
qed

subsection \<open>A map that has to move\<close>

text \<open>An empty map followed directly by a pair that refers to it; the map is a root.\<close>

definition crowded_pair :: gcobj where
  "crowded_pair = default_object\<lparr>o_left := VObject (object_id_at 0 1), o_right := VInt64 3\<rparr>"

definition crowded_heap :: gcheap where
  "crowded_heap = empty_heap\<lparr>h_roots := [VObject (object_id_at 0 1)],
     h_objects := [Some sample_map, Some crowded_pair], h_generations := [1, 1]\<rparr>"

lemma crowded_holds: "holds crowded_heap s x \<longleftrightarrow> (s = 0 \<and> x = sample_map) \<or> (s = 1 \<and> x = crowded_pair)"
  by (auto simp: holds_def crowded_heap_def less_Suc_eq nth_Cons numeral_eq_Suc split: nat.splits)

lemma crowded_pair_shape:
  "shape_ok crowded_pair" "o_kind crowded_pair = Pair" "storage_slot_count crowded_pair = 1"
  "o_generation crowded_pair = Young" "reference_fields crowded_pair = [VObject (object_id_at 0 1), VInt64 3]"
  by (simp_all add: crowded_pair_def default_object_def validate_descriptor_shape_def shape_foreign_payload_def
      shape_pair_def reference_fields_def storage_slot_count_def)

lemma crowded_wf: "heap_wf crowded_heap"
proof -
  note H = crowded_holds and S = sample_map_shapes crowded_pair_shape
  have len: "length (h_objects crowded_heap) = 2" by (simp add: crowded_heap_def)
  have regs: "h_weak_refs crowded_heap = []" "h_ephemerons crowded_heap = []" "h_intern_table crowded_heap = []"
    "h_remembered_set crowded_heap = []"
    by (simp_all add: crowded_heap_def empty_heap_def)
  have kinds: "kind_slots k crowded_heap = []" if "k \<noteq> Map_kind" "k \<noteq> Pair" for k
  proof -
    have "s \<notin> set (kind_slots k crowded_heap)" for s
      using that S H [of s "object_at crowded_heap s"] by (auto simp: kind_slots_iff)
    then show ?thesis by (cases "kind_slots k crowded_heap") auto
  qed
  have "plain_identities crowded_heap" by (simp add: plain_identities_def crowded_heap_def empty_heap_def)
  moreover have "generations_ok crowded_heap"
    unfolding generations_ok_def H by (auto simp: crowded_heap_def kMaxGeneration_def)
  moreover have "layout_ok crowded_heap"
    unfolding layout_ok_def H by (auto simp: slot_layout_ok_def S sample_map_index len)
  moreover have "current_slot crowded_heap (object_id_at 0 1)" by (simp add: current_slot_def crowded_heap_def)
  then have "fields_valid crowded_heap" unfolding fields_valid_def H by (auto simp: S)
  moreover have "remembered_ok crowded_heap" unfolding remembered_ok_def H regs by (auto simp: S)
  moreover have "weak_ok crowded_heap" "ephemerons_ok crowded_heap" "interns_ok crowded_heap"
    by (simp_all add: weak_ok_def ephemerons_ok_def interns_ok_def interns_ok_upto_def kinds regs)
  ultimately show ?thesis by (simp add: heap_wf_def)
qed

lemma crowded_map: "map_object crowded_heap (object_id_at 0 1) sample_map"
proof -
  have c: "current_slot crowded_heap (object_id_at 0 1)" by (simp add: current_slot_def crowded_heap_def)
  have x: "object_at crowded_heap 0 = sample_map" by (simp add: object_at_def crowded_heap_def)
  have "shape_ok (object_at crowded_heap (slot_index (object_id_at 0 1)))"
    by (rule heap_wf_shape [OF crowded_wf current_slot_holds [OF c]])
  then have "checked_map (object_id_at 0 1) crowded_heap = Inr sample_map"
    using c x by (simp add: checked_map_def checked_kind_def) (simp add: sample_map_def)
  then show ?thesis by (simp add: map_object_def map_keys_def sample_map_def)
qed

lemma crowded_conditions:
  "calm_stores crowded_heap" "key_ok crowded_heap sample_map (VInt64 5)" "value_ok crowded_heap sample_map (VBool True)"
  "map_contents crowded_heap sample_map = Map.empty"
  "\<not> adjacent_run_is_free 0 (storage_slot_count sample_map) (storage_slot_count sample_map + 2) crowded_heap"
  "length (h_objects crowded_heap) + storage_slot_count sample_map + 2 \<le> 4294967296" "named_live crowded_heap []"
proof -
  show "calm_stores crowded_heap"
    by (simp add: calm_stores_def barriers_armed_def crowded_heap_def empty_heap_def default_stress_def)
  show "key_ok crowded_heap sample_map (VInt64 5)" "value_ok crowded_heap sample_map (VBool True)"
    by (simp_all add: key_ok_def value_ok_def sample_map_def scalar_tag_def default_object_def)
  show "map_contents crowded_heap sample_map = Map.empty"
    by (simp add: map_contents_def map_pairs_def sample_map_def)
  have "\<not> is_storage_slot_free 1 crowded_heap" by (simp add: is_storage_slot_free_def crowded_heap_def)
  then show "\<not> adjacent_run_is_free 0 (storage_slot_count sample_map) (storage_slot_count sample_map + 2) crowded_heap"
    by (simp add: adjacent_run_is_free_def sample_map_shapes crowded_heap_def)
  show "length (h_objects crowded_heap) + storage_slot_count sample_map + 2 \<le> 4294967296"
    by (simp add: sample_map_shapes crowded_heap_def)
  show "named_live crowded_heap []"
    by (simp add: named_live_def roots_valid_def collection_roots_def crowded_heap_def empty_heap_def current_slot_def)
qed

lemma map_growth_moves_the_map_witness:
  "\<exists>h' m' i'. map_set (object_id_at 0 1) (VInt64 5) (VBool True) crowded_heap = (Inr (), h') \<and> heap_wf h' \<and>
    \<not> current_slot h' (object_id_at 0 1) \<and> map_object h' i' m' \<and> h_roots h' = [VObject i'] \<and>
    map_contents h' m' (Key_i64 5) = Some (VBool True)"
proof -
  note C = crowded_conditions
  have blocked: "\<not> adjacent_run_is_free (slot_index (object_id_at 0 1)) (storage_slot_count sample_map)
      (storage_slot_count sample_map + 2) crowded_heap" using C(5) by simp
  have new: "map_contents crowded_heap sample_map (key_content_of crowded_heap (VInt64 5)) = None" using C(4) by simp
  obtain h' m' i' where r: "map_set (object_id_at 0 1) (VInt64 5) (VBool True) crowded_heap = (Inr (), h')" "heap_wf h'"
    "\<not> current_slot h' (object_id_at 0 1)" "map_object h' i' m'"
    "map_contents h' m' = (map_option (renamed_value (object_id_at 0 1) i') \<circ> map_contents crowded_heap sample_map)
      (key_content_of crowded_heap (VInt64 5) \<mapsto> renamed_value (object_id_at 0 1) i' (VBool True))"
    "h_roots h' = map (renamed_value (object_id_at 0 1) i') (h_roots crowded_heap)"
    using map_growth_moves_the_map [OF crowded_wf C(1) crowded_map C(2,3) new blocked C(6,7)] by blast
  have "h_roots h' = [VObject i']" using r(6) by (simp add: crowded_heap_def renamed_id_def)
  moreover have "map_contents h' m' (Key_i64 5) = Some (VBool True)" using r(5) by simp
  ultimately show ?thesis using r(1-4) by blast
qed

end
