(* ===== verification/VM_Text.thy ===== *)
theory VM_Text
  imports GC_Prelude
begin

text \<open>
  The text of integers in \<open>src/vm.cpp\<close>: \<open>canonical_i64\<close>, which is \<open>std::to_chars\<close> for a
  64-bit integer, and its inverse \<open>parse_canonical_i64\<close>, a checked accumulation in unsigned
  64-bit arithmetic.
\<close>

definition msg_invalid_i64 :: string where
  "msg_invalid_i64 = ''invalid string for i64 conversion''"

text \<open>The decimal digits of a magnitude, most significant first.\<close>

fun decimal_digits :: "nat \<Rightarrow> u8 list" where
  "decimal_digits n = (if n < 10 then [of_nat (48 + n)]
     else decimal_digits (n div 10) @ [of_nat (48 + n mod 10)])"

declare decimal_digits.simps [simp del]

definition canonical_i64 :: "i64 \<Rightarrow> u8 list" where
  "canonical_i64 n = (if sint n < 0 then 45 # decimal_digits (nat (- sint n)) else decimal_digits (nat (sint n)))"

definition kPositiveLimit :: u64 where "kPositiveLimit = 0x7FFFFFFFFFFFFFFF"
definition kNegativeLimit :: u64 where "kNegativeLimit = kPositiveLimit + 1"

text \<open>The loop over the digits.\<close>

fun parse_digits :: "u64 \<Rightarrow> u8 list \<Rightarrow> u64 \<Rightarrow> exn + u64" where
  "parse_digits limit [] magnitude = Inr magnitude"
| "parse_digits limit (byte # bytes) magnitude = (if byte < 48 \<or> byte > 57 then Inl (Runtime_error msg_invalid_i64)
     else let digit = ucast (byte - 48) in
       if magnitude > (limit - digit) div 10 then Inl (Runtime_error msg_invalid_i64)
       else parse_digits limit bytes (magnitude * 10 + digit))"

definition parse_canonical_i64 :: "u8 list \<Rightarrow> exn + i64" where
  "parse_canonical_i64 bytes =
     (if bytes = [] then Inl (Runtime_error msg_invalid_i64)
      else let negative = (hd bytes = 45); digits = (if negative then tl bytes else bytes) in
        if negative \<and> digits = [] then Inl (Runtime_error msg_invalid_i64)
        else if hd digits = 48 \<and> (negative \<or> length digits \<noteq> 1) then Inl (Runtime_error msg_invalid_i64)
        else ebind (parse_digits (if negative then kNegativeLimit else kPositiveLimit) digits 0) (\<lambda>magnitude.
          if \<not> negative then Inr magnitude
          else if magnitude = kNegativeLimit then Inr 0x8000000000000000
          else Inr (- magnitude)))"

subsection \<open>Digits\<close>

text \<open>The value of a list of digit bytes.\<close>

definition digit_byte :: "u8 \<Rightarrow> bool" where
  "digit_byte b \<longleftrightarrow> 48 \<le> b \<and> b \<le> 57"

fun digits_value :: "nat \<Rightarrow> u8 list \<Rightarrow> nat" where
  "digits_value m [] = m"
| "digits_value m (b # bs) = digits_value (m * 10 + (unat b - 48)) bs"

lemma digits_value_append: "digits_value m (bs @ cs) = digits_value (digits_value m bs) cs"
  by (induction bs arbitrary: m) simp_all

lemma digits_value_le: "m \<le> digits_value m bs"
proof (induction bs arbitrary: m)
  case (Cons b bs)
  then have "m * 10 + (unat b - 48) \<le> digits_value m (b # bs)" by simp
  then show ?case by simp
qed simp

lemma digit_byte_unat: "digit_byte b \<longleftrightarrow> 48 \<le> unat b \<and> unat b \<le> 57"
  by (simp add: digit_byte_def word_le_nat_alt)

lemma digit_of_nat: "d < 10 \<Longrightarrow> unat (of_nat (48 + d) :: u8) = 48 + d"
  by (simp only: unat_of_nat) simp


lemma digit_48: "d < 10 \<Longrightarrow> (of_nat (48 + d) :: u8) = 48 \<longleftrightarrow> d = 0"
proof -
  assume "d < 10"
  then have "(of_nat (48 + d) :: u8) = 48 \<longleftrightarrow> unat (of_nat (48 + d) :: u8) = unat (48 :: u8)"
    by (simp only: word_unat_eq_iff)
  with digit_of_nat [OF \<open>d < 10\<close>] show ?thesis by simp
qed

lemma decimal_digits_ok:
  "digits_value 0 (decimal_digits n) = n \<and> list_all digit_byte (decimal_digits n) \<and> decimal_digits n \<noteq> [] \<and>
   (hd (decimal_digits n) = 48 \<longleftrightarrow> n = 0) \<and> (n < 10 \<longrightarrow> length (decimal_digits n) = 1)"
proof (induction n rule: decimal_digits.induct)
  case (1 n)
  have d: "unat (of_nat (48 + n mod 10) :: u8) = 48 + n mod 10" by (rule digit_of_nat) simp
  show ?case
  proof (cases "n < 10")
    case True
    then show ?thesis
      using digit_of_nat [OF True] digit_48 [OF True]
      by (simp add: decimal_digits.simps [of n] digit_byte_unat)
  next
    case False
    then have "n div 10 \<noteq> 0" by simp
    then show ?thesis
      using 1 [OF False] False d
      by (simp add: decimal_digits.simps [of n] digit_byte_unat digits_value_append)
  qed
qed

text \<open>The canonical digits are the only ones without a superfluous leading zero.\<close>

lemma decimal_digits_unique:
  assumes "list_all digit_byte bs" and "bs \<noteq> []" and "hd bs = 48 \<Longrightarrow> length bs = 1"
  shows "decimal_digits (digits_value 0 bs) = bs"
  using assms
proof (induction bs rule: rev_induct)
  case (snoc b bs)
  let ?n = "digits_value 0 (bs @ [b])"
  have b: "48 \<le> unat b" "unat b \<le> 57" using snoc.prems(1) by (simp_all add: digit_byte_unat)
  obtain d where d: "unat b = 48 + d" "d < 10" using b by (intro that [of "unat b - 48"]) simp_all
  have n: "?n = digits_value 0 bs * 10 + d" using d by (simp add: digits_value_append)
  have again: "(of_nat (48 + (unat b - 48)) :: u8) = b" using b by simp
  show ?case
  proof (cases "bs = []")
    case True
    then show ?thesis using b again by (simp add: decimal_digits.simps)
  next
    case False
    then have hd: "hd bs \<noteq> 48" using snoc.prems(3) by (cases bs) auto
    have IH: "decimal_digits (digits_value 0 bs) = bs"
      using snoc.IH snoc.prems(1) False hd by simp
    have "digits_value 0 bs \<noteq> 0"
    proof
      assume z: "digits_value 0 bs = 0"
      then have "bs = decimal_digits 0" using IH by simp
      then show False using hd decimal_digits_ok [of 0] by simp
    qed
    then have "\<not> ?n < 10" "?n div 10 = digits_value 0 bs" "?n mod 10 = unat b - 48" using n d by simp_all
    then show ?thesis using IH again decimal_digits.simps [of ?n] by simp
  qed
qed simp

lemma parse_digits_iff:
  assumes "10 \<le> limit" and "magnitude \<le> limit"
  shows "parse_digits limit bs magnitude = Inr r \<longleftrightarrow>
    list_all digit_byte bs \<and> digits_value (unat magnitude) bs \<le> unat limit \<and>
    unat r = digits_value (unat magnitude) bs"
  using assms(2)
proof (induction bs arbitrary: magnitude)
  case Nil
  then show ?case by (auto simp: word_le_nat_alt word_unat_eq_iff)
next
  case (Cons b bs)
  let ?d = "ucast (b - 48) :: u64"
  show ?case
  proof (cases "digit_byte b")
    case False
    then show ?thesis by (auto simp: digit_byte_def not_le)
  next
    case True
    then have b: "48 \<le> unat b" "unat b \<le> 57" by (simp_all add: digit_byte_unat)
    have "unat (b - 48) = unat b - 48" using b by (subst unat_sub) (simp_all add: word_le_nat_alt)
    then have d: "unat ?d = unat b - 48" using b by (simp add: unsigned_ucast_eq take_bit_nat_eq_self)
    have lim: "10 \<le> unat limit" using assms(1) by (simp add: word_le_nat_alt)
    have sub: "unat (limit - ?d) = unat limit - unat ?d"
      by (rule unat_sub) (use b d lim in \<open>simp add: word_le_nat_alt\<close>)
    have q: "unat ((limit - ?d) div 10) = (unat limit - (unat b - 48)) div 10"
      by (simp add: unat_div sub d)
    have step: "\<not> magnitude > (limit - ?d) div 10 \<longleftrightarrow> unat magnitude * 10 + (unat b - 48) \<le> unat limit"
      unfolding word_less_nat_alt q using b lim by auto
    show ?thesis
    proof (cases "magnitude > (limit - ?d) div 10")
      case True
      then have "unat limit < unat magnitude * 10 + (unat b - 48)" using step by simp
      moreover have "unat magnitude * 10 + (unat b - 48) \<le> digits_value (unat magnitude) (b # bs)"
        using digits_value_le by simp
      ultimately show ?thesis using True by simp
    next
      case False
      then have le: "unat magnitude * 10 + (unat b - 48) \<le> unat limit" using step by simp
      have "unat limit < 2 ^ 64" using unsigned_less [where ?'a = nat, of limit] by simp
      with le have m: "unat (magnitude * 10 + ?d) = unat magnitude * 10 + (unat b - 48)"
        using d by (simp add: unat_word_ariths)
      have "parse_digits limit (b # bs) magnitude = parse_digits limit bs (magnitude * 10 + ?d)"
        using True False by (simp add: digit_byte_def Let_def linorder_not_less [symmetric])
      then show ?thesis
        using Cons.IH [of "magnitude * 10 + ?d"] le True m by (simp add: word_le_nat_alt)
    qed
  qed
qed

subsection \<open>Round trip\<close>

lemma decimal_digits_iff:
  "decimal_digits n = bs \<longleftrightarrow> list_all digit_byte bs \<and> bs \<noteq> [] \<and> (hd bs = 48 \<longrightarrow> length bs = 1) \<and> digits_value 0 bs = n"
  using decimal_digits_ok [of n] decimal_digits_unique [of bs] by auto

lemma decimal_digits_positive:
  "ds \<noteq> [] \<and> hd ds \<noteq> 48 \<and> list_all digit_byte ds \<and> digits_value 0 ds = n \<longleftrightarrow>
   n \<noteq> 0 \<and> decimal_digits n = ds"
  using decimal_digits_ok [of n] decimal_digits_unique [of ds] by auto

lemma limits: "unat kPositiveLimit = 9223372036854775807" "unat kNegativeLimit = 9223372036854775808"
  by (simp_all add: kPositiveLimit_def kNegativeLimit_def)

lemma parse_limits: "10 \<le> kPositiveLimit" "10 \<le> kNegativeLimit"
  by (simp_all add: word_le_nat_alt limits)


lemma parse_Inr_nonempty: "parse_canonical_i64 bs = Inr n \<Longrightarrow> bs \<noteq> []"
  by (auto simp: parse_canonical_i64_def)

lemma sint_magnitude: "unat (n :: i64) < 9223372036854775808 \<Longrightarrow> sint n = int (unat n)"
proof -
  assume "unat n < 9223372036854775808"
  then have "uint n < 9223372036854775808" by (simp only: uint_nat)
  then have "signed_take_bit 63 (uint n) = uint n"
    unfolding signed_take_bit_int_eq_self_iff by (auto intro: order_trans [OF _ uint_ge_0])
  then show ?thesis by (simp add: sint_uint)
qed

lemma sint_negative: "unat (m :: i64) \<le> 9223372036854775808 \<Longrightarrow> sint (- m) = - int (unat m)"
proof -
  assume "unat m \<le> 9223372036854775808"
  then have u: "uint m \<le> 9223372036854775808" by (simp only: uint_nat)
  have "sint (word_of_int (- uint m) :: i64) = signed_take_bit 63 (- uint m)"
    by (simp only: sint_uint uint_word_of_int_eq signed_take_bit_take_bit) simp
  also have "\<dots> = - uint m" using u unfolding signed_take_bit_int_eq_self_iff by (auto intro: order_le_less_trans [of _ 0])
  finally show ?thesis by (simp add: wi_hom_neg [symmetric])
qed

lemma parse_positive:
  assumes "hd bs \<noteq> 45"
  shows "parse_canonical_i64 bs = Inr n \<longleftrightarrow> 0 \<le> sint n \<and> decimal_digits (nat (sint n)) = bs"
proof -
  have "parse_canonical_i64 bs = Inr n \<longleftrightarrow> bs \<noteq> [] \<and> (hd bs = 48 \<longrightarrow> length bs = 1) \<and>
      parse_digits kPositiveLimit bs 0 = Inr n"
    using assms by (auto simp: parse_canonical_i64_def Let_def)
  also have "\<dots> \<longleftrightarrow> bs \<noteq> [] \<and> (hd bs = 48 \<longrightarrow> length bs = 1) \<and> list_all digit_byte bs \<and>
      digits_value 0 bs \<le> 9223372036854775807 \<and> unat n = digits_value 0 bs"
    using parse_digits_iff [OF parse_limits(1), of 0 bs n] by (simp add: limits)
  also have "\<dots> \<longleftrightarrow> unat n < 9223372036854775808 \<and> decimal_digits (unat n) = bs"
    unfolding decimal_digits_iff by auto
  also have "\<dots> \<longleftrightarrow> 0 \<le> sint n \<and> decimal_digits (nat (sint n)) = bs"
  proof (cases "unat n < 9223372036854775808")
    case True
    then show ?thesis by (simp add: sint_magnitude)
  next
    case False
    have "sint n < 0"
    proof (rule ccontr)
      assume "\<not> sint n < 0"
      moreover have "sint n < 9223372036854775808" using sint_lt [of n] by simp
      ultimately have "n = word_of_int (sint n)" "0 \<le> sint n" "sint n < 9223372036854775808" by simp_all
      then have "uint n < 9223372036854775808" by (metis take_bit_int_less_eq_self_iff uint_word_of_int_eq order_le_less_trans)
      then show False using False by (simp only: uint_nat)
    qed
    with False show ?thesis by simp
  qed
  finally show ?thesis .
qed

lemma parse_negative:
  "parse_canonical_i64 (45 # ds) = Inr n \<longleftrightarrow> sint n < 0 \<and> decimal_digits (nat (- sint n)) = ds"
proof -
  have "parse_canonical_i64 (45 # ds) = Inr n \<longleftrightarrow> ds \<noteq> [] \<and> hd ds \<noteq> 48 \<and>
      (\<exists>m. parse_digits kNegativeLimit ds 0 = Inr m \<and> n = - m)"
    by (auto simp: parse_canonical_i64_def Let_def ebind_Inr_iff kNegativeLimit_def kPositiveLimit_def)
  also have "\<dots> \<longleftrightarrow> ds \<noteq> [] \<and> hd ds \<noteq> 48 \<and> parse_digits kNegativeLimit ds 0 = Inr (- n)"
    by (metis minus_minus)
  also have "\<dots> \<longleftrightarrow> ds \<noteq> [] \<and> hd ds \<noteq> 48 \<and> list_all digit_byte ds \<and>
      digits_value 0 ds \<le> 9223372036854775808 \<and> unat (- n) = digits_value 0 ds"
    using parse_digits_iff [OF parse_limits(2), of 0 ds "- n"] by (simp add: limits)
  also have "\<dots> \<longleftrightarrow> unat (- n) \<noteq> 0 \<and> unat (- n) \<le> 9223372036854775808 \<and> decimal_digits (unat (- n)) = ds"
    using decimal_digits_positive [of ds "unat (- n)"] by metis
  also have "\<dots> \<longleftrightarrow> sint n < 0 \<and> decimal_digits (nat (- sint n)) = ds"
  proof (cases "unat (- n) \<noteq> 0 \<and> unat (- n) \<le> 9223372036854775808")
    case True
    then have s: "sint n = - int (unat (- n))" using sint_negative [of "- n"] by (simp only: minus_minus)
    have "sint n < 0" using s True by linarith
    moreover have "nat (- sint n) = unat (- n)" by (simp only: s minus_minus nat_int)
    ultimately show ?thesis using True by simp
  next
    case False
    have "\<not> sint n < 0"
    proof
      assume s: "sint n < 0"
      have "- 9223372036854775808 \<le> sint n" using sint_ge [of n] by simp
      moreover have "uint (word_of_int (- sint n) :: i64) = take_bit 64 (- sint n)"
        by (simp only: uint_word_of_int_eq) simp
      then have "uint (- n) = take_bit 64 (- sint n)" by (simp add: wi_hom_neg [symmetric])
      ultimately have "uint (- n) = - sint n" using s by (simp add: take_bit_int_eq_self)
      then have "int (unat (- n)) = - sint n" by (simp only: uint_nat [symmetric])
      then have "unat (- n) \<le> 9223372036854775808" "unat (- n) \<noteq> 0"
        using \<open>- 9223372036854775808 \<le> sint n\<close> s by linarith+
      then show False using False by blast
    qed
    with False show ?thesis by blast
  qed
  finally show ?thesis .
qed

text \<open>C33. \<open>parse_canonical_i64\<close> accepts exactly the texts that \<open>canonical_i64\<close> writes, and gives back
  the integer: every 64-bit integer, the smallest included, survives the round trip, and every other
  byte string (empty, a lone sign, a leading zero, a minus zero, a stray byte, a magnitude out of range)
  is refused.\<close>

theorem i64_text_round_trip: "parse_canonical_i64 bs = Inr n \<longleftrightarrow> bs = canonical_i64 n"
proof (cases "bs \<noteq> [] \<and> hd bs = 45")
  case True
  then obtain ds where bs: "bs = 45 # ds" by (cases bs) auto
  have "45 # ds \<noteq> decimal_digits k" for k
    using decimal_digits_ok [of k] by (auto simp: digit_byte_def dest: sym)
  then show ?thesis unfolding bs parse_negative canonical_i64_def by (cases "sint n < 0") auto
next
  case False
  have "parse_canonical_i64 [] \<noteq> Inr n" "[] \<noteq> decimal_digits k" for k
    using decimal_digits_ok [of k] by (auto simp: parse_canonical_i64_def)
  with False show ?thesis
    by (cases "bs = []") (auto simp: parse_positive canonical_i64_def)
qed

end
