(* ===== verification/VM_Bytecode.thy ===== *)
theory VM_Bytecode
  imports GC_Maps VM_Text
begin

text \<open>
  The bytecode of \<open>include/lang/bytecode.hpp\<close>: instructions, the detailed types of the verifier
  (\<open>SignatureValue\<close>), layouts, stack maps, functions and modules.  A \<open>shared_ptr\<close> to a constant
  signature is an option; an index or a size is a natural number; the operands of an instruction are
  64-bit words.
\<close>

datatype opcode =
    Op_ConstantI64 | Op_AddI64 | Op_LessI64 | Op_AllocPair | Op_GetLeft | Op_GetRight | Op_SetLeft | Op_SetRight
  | Op_AllocArray | Op_ArrayGet | Op_ArraySet | Op_ArrayLen | Op_LoadLocal | Op_StoreLocal | Op_Jump
  | Op_JumpIfFalse | Op_Collect | Op_Call | Op_Return | Op_Nil | Op_IsNil | Op_AllocRefArray | Op_RefArrayGet
  | Op_RefArraySet | Op_PushStr | Op_StrLen | Op_StrEq | Op_StrConcat | Op_StrIndex | Op_AllocClosure
  | Op_CallClosure | Op_LoadCapture | Op_AllocMap | Op_MapSet | Op_MapGet | Op_MapHas | Op_MapLen | Op_AllocWeak
  | Op_WeakGet | Op_MapKeyAt | Op_MapValueAt | Op_Print | Op_I64ToStr | Op_StrToI64 | Op_BoolToStr | Op_StrSub
  | Op_StrLt | Op_AllocRecord | Op_RecordGet | Op_RecordSet | Op_AllocVariant | Op_VariantTag | Op_VariantGet
  | Op_TryBegin | Op_TryEnd | Op_Throw | Op_AllocEphemeron | Op_EphemeronKey | Op_EphemeronValue
  | Op_EphemeronSetValue | Op_TailCall | Op_StrIntern | Op_I64Abs | Op_AllocBuilder | Op_BuilderAppend
  | Op_BuilderLen | Op_BuilderToStr | Op_BuilderClear

record instruction =
  i_op :: opcode
  i_operand :: i64
  i_operand2 :: i64
  i_operand3 :: i64

datatype value_kind =
    VK_Int64 | VK_Bool | VK_Object | VK_Array | VK_Nil | VK_Str | VK_Function | VK_Map | VK_Weak | VK_Record
  | VK_Variant | VK_Ephemeron | VK_Builder

datatype signature_value = Signature
  (sg_kind: value_kind)
  (sg_left: "signature_value option")
  (sg_right: "signature_value option")
  (sg_element: "signature_value option")
  (sg_key: "signature_value option")
  (sg_value: "signature_value option")
  (sg_weak_target: "signature_value option")
  (sg_function_parameters: "signature_value list")
  (sg_function_return: "signature_value option")
  (sg_named_type: "nat option")
  (sg_record_layout: "nat option")
  (sg_variant_layout: "nat option")

record named_type_signature =
  nt_name :: string
  nt_body :: signature_value

record function_signature =
  fs_parameters :: "value_kind list"
  fs_return_type :: value_kind
  fs_parameter_types :: "signature_value list"
  fs_return_type_detail :: "signature_value option"

record closure_layout =
  cl_function_index :: nat
  cl_function_type :: signature_value
  cl_capture_types :: "signature_value list"
  cl_capture_map :: "bool list"

record map_layout =
  ml_key_type :: signature_value
  ml_value_type :: signature_value
  ml_key_is_ref :: bool
  ml_value_is_ref :: bool

record ephemeron_layout =
  el_key_type :: signature_value
  el_value_type :: signature_value
  el_value_is_ref :: bool

record record_layout =
  rl_name :: string
  rl_field_types :: "signature_value list"
  rl_reference_map :: "bool list"

record variant_case_layout =
  vc_name :: string
  vc_field_types :: "signature_value list"
  vc_reference_map :: "bool list"

record variant_layout =
  vl_name :: string
  vl_cases :: "variant_case_layout list"

record stack_map =
  sm_object_slots :: "bool list"
  sm_local_object_slots :: "bool list"

record exception_handler =
  eh_try_begin :: nat
  eh_try_end :: nat
  eh_target :: nat
  eh_variant_layout :: nat

record debug_source_position =
  dp_line :: nat
  dp_column :: nat

record bytecode_function =
  fn_signature :: function_signature
  fn_code :: "instruction list"
  fn_stack_maps :: "stack_map list"
  fn_local_count :: u32
  fn_closure_layout :: "nat option"
  fn_exception_handlers :: "exception_handler list"
  fn_debug_name :: string
  fn_source_positions :: "debug_source_position list"

record bytecode_module =
  m_functions :: "bytecode_function list"
  m_entry_function :: nat
  m_named_types :: "named_type_signature list"
  m_string_constants :: "u8 list list"
  m_closure_layouts :: "closure_layout list"
  m_map_layouts :: "map_layout list"
  m_record_layouts :: "record_layout list"
  m_variant_layouts :: "variant_layout list"
  m_ephemeron_layouts :: "ephemeron_layout list"

text \<open>\<open>VerificationResult\<close> and \<open>ModuleVerificationResult\<close>: the stack maps of each function.\<close>

type_synonym verification_result = "stack_map list"
type_synonym module_verification = "verification_result list"

text \<open>
  The test that an operand names an entry of a table: \<open>operand >= 0\<close> and its value as a size below
  the table's.
\<close>

definition in_table :: "i64 \<Rightarrow> nat \<Rightarrow> bool" where
  "in_table operand n \<longleftrightarrow> 0 \<le> sint operand \<and> unat operand < n"

end
