(* ===== verification/VM_State.thy ===== *)
theory VM_State
  imports VM_Bytecode
begin

text \<open>
  The state of \<open>class VM\<close> (\<open>include/lang/vm.hpp\<close>) and the members of \<open>src/vm.cpp\<close> below the
  instructions: frames, the enumeration of the roots, the calls into the heap, the run-time trace, the
  check of a frame against its stack map, the collections between instructions, and the pushing and reuse
  of frames.

  The VM is the root provider of its heap.  A call into the heap (\<open>heap_call\<close>) therefore runs on the
  heap whose roots are the slots \<open>trace_roots\<close> enumerates, and writes the roots the heap leaves back to
  the slots they came from.  Vectors keep their order: the last element of a stack is its top, the last
  frame the running one.
\<close>

definition msg_call_depth :: string where "msg_call_depth = ''VM call depth limit exceeded''"
definition msg_call_range :: string where "msg_call_range = ''VM attempted to call out-of-range function''"
definition msg_call_arguments :: string where
  "msg_call_arguments = ''VM call argument count mismatch after bytecode verification''"
definition msg_call_locals :: string where
  "msg_call_locals = ''VM callee local count is smaller than parameter count''"
definition msg_mark_budget :: string where
  "msg_mark_budget = ''incremental marking stress budgets must be positive''"
definition msg_compact_budget :: string where
  "msg_compact_budget = ''incremental compaction stress budgets must be positive''"

subsection \<open>The state\<close>

record frame =
  f_function_index :: nat
  f_pc :: nat
  f_stack :: "val list"
  f_locals :: "val list"
  f_closure :: "val option"

datatype runtime_failure_kind = Failure_Trap | Failure_Uncaught_Exception

record runtime_trace_frame =
  tf_function_index :: nat
  tf_pc :: nat
  tf_function_name :: "string option"
  tf_source_position :: "debug_source_position option"

record runtime_trace =
  rt_kind :: runtime_failure_kind
  rt_exception_variant :: "string option"
  rt_frames :: "runtime_trace_frame list"

record vm =
  v_frames :: "frame list"
  v_pending_exception :: "val option"
  v_last_trap_trace :: "runtime_trace option"
  v_heap :: gcheap
  v_gc_stress :: stress_config
  v_instructions_executed :: u64
  v_mark_budget_cursor :: u64
  v_compact_budget_cursor :: u64
  v_max_call_depth :: nat
  v_output :: "u8 list"

definition kMaxOutputBytes :: nat where "kMaxOutputBytes = 1024 * 1024"

definition initial_vm :: vm where
  "initial_vm = \<lparr>v_frames = [], v_pending_exception = None, v_last_trap_trace = None, v_heap = empty_heap,
     v_gc_stress = default_stress, v_instructions_executed = 0, v_mark_budget_cursor = 0,
     v_compact_budget_cursor = 0, v_max_call_depth = 1024, v_output = []\<rparr>"

definition set_gc_stress :: "stress_config \<Rightarrow> (vm, unit) sx" where
  "set_gc_stress config =
     sx_then (sx_throw_if (0 \<in> set (incremental_mark_step_budgets config)) (Invalid_argument msg_mark_budget))
     (sx_then (sx_throw_if (0 \<in> set (incremental_compact_step_budgets config)) (Invalid_argument msg_compact_budget))
     (sx_modify (\<lambda>vm. vm\<lparr>v_gc_stress := config, v_heap := (v_heap vm)\<lparr>h_stress := config\<rparr>\<rparr>)))"

subsection \<open>Roots\<close>

definition frame_roots :: "frame \<Rightarrow> val list" where
  "frame_roots f = f_stack f @ f_locals f @ (case f_closure f of None \<Rightarrow> [] | Some c \<Rightarrow> [c])"

definition trace_roots :: "vm \<Rightarrow> val list" where
  "trace_roots vm = concat (map frame_roots (v_frames vm)) @
     (case v_pending_exception vm of None \<Rightarrow> [] | Some e \<Rightarrow> [e])"

text \<open>The visitor assigns to the slots it visits: the same enumeration, writing.\<close>

definition put_frame_roots :: "frame \<Rightarrow> val list \<Rightarrow> frame" where
  "put_frame_roots f vs = (let n = length (f_stack f); m = length (f_locals f) in
     f\<lparr>f_stack := map ((!) vs) [0..<n], f_locals := map (\<lambda>i. vs ! (n + i)) [0..<m],
       f_closure := map_option (\<lambda>_. vs ! (n + m)) (f_closure f)\<rparr>)"

fun put_frames_roots :: "frame list \<Rightarrow> val list \<Rightarrow> frame list" where
  "put_frames_roots [] vs = []"
| "put_frames_roots (f # fs) vs =
     put_frame_roots f vs # put_frames_roots fs (drop (length (frame_roots f)) vs)"

definition put_roots :: "val list \<Rightarrow> vm \<Rightarrow> vm" where
  "put_roots vs vm = vm\<lparr>v_frames := put_frames_roots (v_frames vm) vs,
     v_pending_exception := map_option (\<lambda>_. vs ! length (concat (map frame_roots (v_frames vm))))
       (v_pending_exception vm)\<rparr>"

text \<open>A call of a member function of the heap, and of a \<open>const\<close> one.\<close>

definition heap_call :: "(gcheap, 'a) sx \<Rightarrow> (vm, 'a) sx" where
  "heap_call m = (\<lambda>vm. case m ((v_heap vm)\<lparr>h_roots := trace_roots vm\<rparr>) of
     (r, h) \<Rightarrow> (r, put_roots (h_roots h) (vm\<lparr>v_heap := h\<rparr>)))"

definition heap_read :: "(gcheap \<Rightarrow> exn + 'a) \<Rightarrow> (vm, 'a) sx" where
  "heap_read f = sx_reads (\<lambda>vm. f (v_heap vm))"

subsection \<open>The running frame\<close>

definition top_frame :: "vm \<Rightarrow> frame" where
  "top_frame vm = last (v_frames vm)"

definition modify_top :: "(frame \<Rightarrow> frame) \<Rightarrow> (vm, unit) sx" where
  "modify_top g = sx_modify (\<lambda>vm. vm\<lparr>v_frames := (v_frames vm)[length (v_frames vm) - 1 := g (top_frame vm)]\<rparr>)"

definition vm_pop :: "(vm, val) sx" where
  "vm_pop = sx_bind (sx_gets (\<lambda>vm. f_stack (top_frame vm))) (\<lambda>stack.
     sx_then (sx_assert (stack \<noteq> []))
     (sx_then (modify_top (\<lambda>f. f\<lparr>f_stack := butlast (f_stack f)\<rparr>))
     (sx_return (last stack))))"

definition vm_push :: "val \<Rightarrow> (vm, unit) sx" where
  "vm_push v = modify_top (\<lambda>f. f\<lparr>f_stack := f_stack f @ [v]\<rparr>)"

definition next_pc :: "(vm, unit) sx" where
  "next_pc = modify_top (\<lambda>f. f\<lparr>f_pc := f_pc f + 1\<rparr>)"

text \<open>Popping \<open>n\<close> values into a vector, from its last element to its first.\<close>

fun pop_arguments :: "nat \<Rightarrow> (vm, val list) sx" where
  "pop_arguments 0 = sx_return []"
| "pop_arguments (Suc n) = sx_bind vm_pop (\<lambda>v. sx_bind (pop_arguments n) (\<lambda>vs. sx_return (vs @ [v])))"

subsection \<open>Run-time traces\<close>

definition captured_frame :: "bytecode_module \<Rightarrow> nat \<Rightarrow> nat \<Rightarrow> runtime_trace_frame" where
  "captured_frame m function_index pc = (if function_index < length (m_functions m)
     then let f = m_functions m ! function_index in
       \<lparr>tf_function_index = function_index, tf_pc = pc,
        tf_function_name = (if fn_debug_name f = [] then None else Some (fn_debug_name f)),
        tf_source_position = (if pc < length (fn_source_positions f) then Some (fn_source_positions f ! pc) else None)\<rparr>
     else \<lparr>tf_function_index = function_index, tf_pc = pc, tf_function_name = None, tf_source_position = None\<rparr>)"

definition capture_runtime_trace :: "bytecode_module \<Rightarrow> nat \<Rightarrow> nat \<Rightarrow> runtime_failure_kind \<Rightarrow> vm \<Rightarrow> runtime_trace" where
  "capture_runtime_trace m active_function_index active_pc kind vm =
     \<lparr>rt_kind = kind, rt_exception_variant = None,
      rt_frames = captured_frame m active_function_index active_pc #
        map (\<lambda>f. captured_frame m (f_function_index f) (f_pc f - 1)) (rev (butlast (v_frames vm)))\<rparr>"

subsection \<open>Stack maps\<close>

definition slot_matches :: "bool \<Rightarrow> val \<Rightarrow> bool" where
  "slot_matches is_reference v = (if is_reference then is_object v \<or> tag v = Tag_Nil else \<not> is_object v)"

definition stack_matches_map :: "module_verification \<Rightarrow> frame \<Rightarrow> bool" where
  "stack_matches_map V f \<longleftrightarrow> f_function_index f < length V \<and> f_pc f < length (V ! f_function_index f) \<and>
     (let sm = V ! f_function_index f ! f_pc f in
       list_all2 slot_matches (sm_object_slots sm) (f_stack f) \<and>
       list_all2 slot_matches (sm_local_object_slots sm) (f_locals f))"

definition assert_stack_matches_map :: "module_verification \<Rightarrow> (vm, unit) sx" where
  "assert_stack_matches_map V = sx_bind (sx_gets top_frame) (\<lambda>f. sx_assert (stack_matches_map V f))"

subsection \<open>Collections between instructions\<close>

text \<open>\<open>instructions_executed_ % interval == 0\<close>, off when the interval or the count is zero.\<close>

definition interval_due :: "u64 \<Rightarrow> u64 \<Rightarrow> bool" where
  "interval_due interval executed \<longleftrightarrow> interval \<noteq> 0 \<and> executed \<noteq> 0 \<and> executed mod interval = 0"

definition collect_at_interval :: "module_verification \<Rightarrow> (stress_config \<Rightarrow> u64) \<Rightarrow> (gcheap, unit) sx \<Rightarrow> (vm, unit) sx" where
  "collect_at_interval V interval collect =
     sx_bind (sx_gets (\<lambda>vm. interval_due (interval (v_gc_stress vm)) (v_instructions_executed vm))) (\<lambda>due.
     sx_when due (sx_then (assert_stack_matches_map V) (sx_then (heap_call collect) (assert_stack_matches_map V))))"

definition budget_at :: "nat list \<Rightarrow> u64 \<Rightarrow> nat" where
  "budget_at budgets cursor = budgets ! (unat cursor mod length budgets)"

definition marking_quiescent :: "gcheap \<Rightarrow> bool" where
  "marking_quiescent h \<longleftrightarrow> h_marking_active h \<and> h_mark_worklist h = []"

definition compaction_quiescent :: "gcheap \<Rightarrow> bool" where
  "compaction_quiescent h \<longleftrightarrow> h_compaction_active h \<and> h_cursor h = length (h_plan h)"

definition marking_boundary :: "(vm, unit) sx" where
  "marking_boundary =
     sx_bind (sx_gets (\<lambda>vm. h_marking_active (v_heap vm))) (\<lambda>marking.
     sx_then (sx_when (\<not> marking) (heap_call start_incremental_marking))
     (sx_bind (sx_gets (\<lambda>vm. budget_at (incremental_mark_step_budgets (v_gc_stress vm)) (v_mark_budget_cursor vm))) (\<lambda>budget.
     sx_then (sx_modify (\<lambda>vm. vm\<lparr>v_mark_budget_cursor := v_mark_budget_cursor vm + 1\<rparr>))
     (sx_bind (heap_call (incremental_mark_step budget)) (\<lambda>_.
     sx_bind (sx_gets (\<lambda>vm. marking_quiescent (v_heap vm))) (\<lambda>quiescent.
     sx_bind (sx_gets (\<lambda>vm. incremental_compact_step_budgets (v_gc_stress vm) \<noteq> [])) (\<lambda>compaction_stress.
     sx_when quiescent (if compaction_stress then heap_call finish_incremental_marking_to_incremental_compaction
       else heap_call finish_incremental_marking))))))))"

definition compaction_boundary :: "(vm, unit) sx" where
  "compaction_boundary =
     sx_bind (sx_gets (\<lambda>vm. h_compaction_active (v_heap vm))) (\<lambda>compacting.
     sx_then (sx_when (\<not> compacting) (heap_call start_incremental_compaction))
     (sx_bind (sx_gets (\<lambda>vm. budget_at (incremental_compact_step_budgets (v_gc_stress vm)) (v_compact_budget_cursor vm))) (\<lambda>budget.
     sx_then (sx_modify (\<lambda>vm. vm\<lparr>v_compact_budget_cursor := v_compact_budget_cursor vm + 1\<rparr>))
     (sx_bind (heap_call (incremental_compact_step budget)) (\<lambda>_.
     sx_bind (sx_gets (\<lambda>vm. compaction_quiescent (v_heap vm))) (\<lambda>quiescent.
     sx_when quiescent (heap_call finish_incremental_compaction)))))))"

definition collect_at_instruction_boundary :: "module_verification \<Rightarrow> (vm, unit) sx" where
  "collect_at_instruction_boundary V =
     sx_then (collect_at_interval V collect_every_n_instructions heap_collect)
     (sx_then (collect_at_interval V collect_minor_every_n_instructions collect_minor)
     (sx_bind (sx_gets (\<lambda>vm. incremental_mark_step_budgets (v_gc_stress vm) \<noteq> [])) (\<lambda>marking_stress.
     sx_bind (sx_gets (\<lambda>vm. incremental_compact_step_budgets (v_gc_stress vm) \<noteq> [])) (\<lambda>compaction_stress.
     sx_bind (sx_gets (\<lambda>vm. h_compaction_active (v_heap vm))) (\<lambda>compacting.
     if marking_stress \<and> (\<not> compaction_stress \<or> \<not> compacting)
     then sx_then (assert_stack_matches_map V) (sx_then marking_boundary (assert_stack_matches_map V))
     else sx_when compaction_stress
       (sx_then (assert_stack_matches_map V) (sx_then compaction_boundary (assert_stack_matches_map V))))))))"

subsection \<open>Frames\<close>

text \<open>\<open>TEST_ONLY_is_closure\<close> and its siblings, which the VM's assertions use.\<close>

definition is_kind :: "object_kind \<Rightarrow> object_id \<Rightarrow> gcheap \<Rightarrow> exn + bool" where
  "is_kind k i h = ebind (heap_object i h) (\<lambda>x. Inr (o_kind x = k))"

definition assert_kind :: "object_kind \<Rightarrow> object_id \<Rightarrow> (vm, unit) sx" where
  "assert_kind k i = sx_bind (heap_read (is_kind k i)) sx_assert"

definition check_closure :: "bytecode_function \<Rightarrow> nat \<Rightarrow> val \<Rightarrow> (vm, unit) sx" where
  "check_closure function function_index closure =
     sx_then (sx_assert (is_object closure))
     (sx_bind (sx_lift (as_object closure)) (\<lambda>i.
     sx_then (assert_kind Closure i)
     (sx_bind (heap_read (closure_function_index i)) (\<lambda>target.
     sx_then (sx_assert (target = function_index))
     (sx_then (sx_assert (fn_closure_layout function \<noteq> None))
     (sx_bind (heap_read (closure_layout_index i)) (\<lambda>layout.
     sx_assert (fn_closure_layout function = Some layout))))))))"

definition new_frame :: "bytecode_function \<Rightarrow> nat \<Rightarrow> val list \<Rightarrow> val option \<Rightarrow> frame" where
  "new_frame function function_index arguments closure =
     \<lparr>f_function_index = function_index, f_pc = 0, f_stack = [],
      f_locals = arguments @ replicate (unat (fn_local_count function) - length arguments) VNil,
      f_closure = closure\<rparr>"

definition push_frame :: "bytecode_module \<Rightarrow> nat \<Rightarrow> val list \<Rightarrow> val option \<Rightarrow> (vm, unit) sx" where
  "push_frame m function_index arguments closure =
     sx_bind (sx_gets (\<lambda>vm. length (v_frames vm) \<ge> v_max_call_depth vm)) (\<lambda>deep.
     sx_then (sx_throw_if deep (Runtime_error msg_call_depth))
     (sx_then (sx_throw_if (function_index \<ge> length (m_functions m)) (Runtime_error msg_call_range))
     (let function = m_functions m ! function_index in
     sx_then (sx_throw_if (length arguments \<noteq> length (fs_parameters (fn_signature function)))
       (Runtime_error msg_call_arguments))
     (sx_then (sx_throw_if (unat (fn_local_count function) < length arguments) (Runtime_error msg_call_locals))
     (sx_then (case closure of None \<Rightarrow> sx_return () | Some c \<Rightarrow> check_closure function function_index c)
     (sx_modify (\<lambda>vm. vm\<lparr>v_frames := v_frames vm @ [new_frame function function_index arguments closure]\<rparr>)))))))"

definition reuse_frame_for_tail_call :: "bytecode_module \<Rightarrow> nat \<Rightarrow> (vm, unit) sx" where
  "reuse_frame_for_tail_call m function_index =
     sx_then (sx_assert (function_index < length (m_functions m)))
     (let function = m_functions m ! function_index; n = length (fs_parameters (fn_signature function)) in
     sx_bind (sx_gets (\<lambda>vm. length (f_stack (top_frame vm)) = n)) (\<lambda>exact.
     sx_then (sx_assert exact)
     (sx_bind (pop_arguments n) (\<lambda>arguments.
     sx_bind (sx_gets (\<lambda>vm. f_stack (top_frame vm) = [])) (\<lambda>empty.
     sx_then (sx_assert empty)
     (sx_then (sx_assert (unat (fn_local_count function) \<ge> length arguments))
     (modify_top (\<lambda>_. new_frame function function_index arguments None))))))))"

end
