(* ===== verification/VM_Exec.thy ===== *)
theory VM_Exec
  imports VM_State
begin

text \<open>
  The instructions: the cases of the switch in \<open>VM::execute_verified\<close> (\<open>src/vm.cpp\<close>), one definition
  each, grouped as in the instruction set, then the unwinding of exceptions, the step, the loop and
  \<open>execute\<close>.  An instruction pops, asserts what the verifier promised, calls the heap, pushes its
  result and advances the counter, in the order of the code.
\<close>

definition msg_abs_overflow :: string where "msg_abs_overflow = ''absolute value overflow''"
definition msg_output_overflow :: string where "msg_output_overflow = ''output buffer overflow''"
definition msg_ephemeron_trap :: string where "msg_ephemeron_trap = ''ephemeron entry cleared''"
definition msg_substring_bounds :: string where "msg_substring_bounds = ''string substring bounds out of range''"
definition msg_scalar_array_length :: string where "msg_scalar_array_length = ''scalar array length out of bounds''"
definition msg_ref_array_length :: string where "msg_ref_array_length = ''ref array length out of bounds''"
definition msg_array_length_range :: string where
  "msg_array_length_range = ''scalar array length exceeds i64 result range''"
definition msg_map_length_range :: string where "msg_map_length_range = ''map length exceeds i64 result range''"
definition msg_variant_case :: string where "msg_variant_case = ''variant case tag mismatch''"
definition invalid_variant_name :: string where "invalid_variant_name = ''<invalid>''"

definition int64_max :: nat where "int64_max = 9223372036854775807"
definition int64_min :: i64 where "int64_min = 0x8000000000000000"

definition true_text :: "u8 list" where "true_text = [116, 114, 117, 101]"
definition false_text :: "u8 list" where "false_text = [102, 97, 108, 115, 101]"

subsection \<open>Operands and results\<close>

definition object_operand :: "val \<Rightarrow> (vm, object_id) sx" where
  "object_operand v = sx_then (sx_assert (is_object v)) (sx_lift (as_object v))"

definition i64_operand :: "val \<Rightarrow> (vm, i64) sx" where
  "i64_operand v = sx_then (sx_assert (tag v = Tag_Int64)) (sx_lift (as_i64 v))"

definition receiver_of_kind :: "object_kind \<Rightarrow> val \<Rightarrow> (vm, object_id) sx" where
  "receiver_of_kind k v = sx_bind (object_operand v) (\<lambda>i. sx_then (assert_kind k i) (sx_return i))"

text \<open>An index below zero is refused before it is converted to a size.\<close>

definition index_operand :: "string \<Rightarrow> i64 \<Rightarrow> (vm, nat) sx" where
  "index_operand msg n = sx_then (sx_throw_if (sint n < 0) (Out_of_range msg)) (sx_return (unat n))"

definition vm_trap :: "string \<Rightarrow> (vm, 'a) sx" where
  "vm_trap d = sx_bind (sx_gets top_frame) (\<lambda>f. sx_throw (Runtime_trap (f_function_index f) (f_pc f) d))"

definition push_next :: "val \<Rightarrow> (vm, unit) sx" where
  "push_next v = sx_then (vm_push v) next_pc"

definition push_object :: "object_id \<Rightarrow> (vm, unit) sx" where
  "push_object i = sx_bind (sx_lift (value_object i)) push_next"

definition push_size :: "nat \<Rightarrow> (vm, unit) sx" where
  "push_size n = sx_then (sx_assert (n \<le> int64_max)) (push_next (VInt64 (of_nat n)))"

definition pop_then :: "nat \<Rightarrow> (vm, unit) sx \<Rightarrow> (vm, unit) sx" where
  "pop_then n k = sx_bind (pop_arguments n) (\<lambda>_. k)"

text \<open>The value \<open>n\<close> places below the top of the stack, which must be there.\<close>

definition peek :: "nat \<Rightarrow> vm \<Rightarrow> val" where
  "peek n vm = (let stack = f_stack (top_frame vm) in stack ! (length stack - 1 - n))"

definition peek_operand :: "nat \<Rightarrow> nat \<Rightarrow> (vm, val) sx" where
  "peek_operand height n = sx_bind (sx_gets (\<lambda>vm. length (f_stack (top_frame vm)) \<ge> height)) (\<lambda>enough.
     sx_then (sx_assert enough) (sx_gets (peek n)))"

subsection \<open>Integers, locals and jumps\<close>

definition exec_constant_i64 :: "instruction \<Rightarrow> (vm, unit) sx" where
  "exec_constant_i64 ins = push_next (VInt64 (i_operand ins))"

definition exec_nil :: "(vm, unit) sx" where
  "exec_nil = push_next VNil"

definition exec_is_nil :: "(vm, unit) sx" where
  "exec_is_nil = sx_bind vm_pop (\<lambda>v. sx_then (sx_assert (tag v = Tag_Object \<or> tag v = Tag_Nil))
     (push_next (VBool (tag v = Tag_Nil))))"

text \<open>The sum of two signed integers; where it overflows, C++ leaves it undefined and this is the wrapped sum.\<close>

definition exec_add_i64 :: "(vm, unit) sx" where
  "exec_add_i64 = sx_bind vm_pop (\<lambda>r. sx_bind vm_pop (\<lambda>l.
     sx_bind (i64_operand r) (\<lambda>rhs. sx_bind (i64_operand l) (\<lambda>lhs. push_next (VInt64 (lhs + rhs))))))"

definition exec_less_i64 :: "(vm, unit) sx" where
  "exec_less_i64 = sx_bind vm_pop (\<lambda>r. sx_bind vm_pop (\<lambda>l.
     sx_bind (i64_operand r) (\<lambda>rhs. sx_bind (i64_operand l) (\<lambda>lhs. push_next (VBool (sint lhs < sint rhs))))))"

definition exec_i64_abs :: "(vm, unit) sx" where
  "exec_i64_abs = sx_bind vm_pop (\<lambda>v. sx_bind (i64_operand v) (\<lambda>n.
     if n = int64_min then vm_trap msg_abs_overflow
     else push_next (VInt64 (if sint n < 0 then - n else n))))"

definition exec_load_local :: "instruction \<Rightarrow> (vm, unit) sx" where
  "exec_load_local ins = sx_bind (sx_gets (\<lambda>vm. f_locals (top_frame vm))) (\<lambda>locals.
     sx_then (sx_assert (in_table (i_operand ins) (length locals)))
     (push_next (locals ! unat (i_operand ins))))"

definition exec_store_local :: "instruction \<Rightarrow> (vm, unit) sx" where
  "exec_store_local ins = sx_bind (sx_gets (\<lambda>vm. f_locals (top_frame vm))) (\<lambda>locals.
     sx_then (sx_assert (in_table (i_operand ins) (length locals)))
     (sx_bind vm_pop (\<lambda>v.
     sx_then (modify_top (\<lambda>f. f\<lparr>f_locals := (f_locals f)[unat (i_operand ins) := v]\<rparr>)) next_pc)))"

definition jump_to :: "bytecode_function \<Rightarrow> instruction \<Rightarrow> (vm, unit) sx" where
  "jump_to function ins = sx_then (sx_assert (in_table (i_operand ins) (length (fn_code function))))
     (modify_top (\<lambda>f. f\<lparr>f_pc := unat (i_operand ins)\<rparr>))"

definition exec_jump_if_false :: "bytecode_function \<Rightarrow> instruction \<Rightarrow> (vm, unit) sx" where
  "exec_jump_if_false function ins = sx_bind vm_pop (\<lambda>v.
     sx_then (sx_assert (tag v = Tag_Bool))
     (sx_bind (sx_lift (as_bool v)) (\<lambda>condition. if \<not> condition then jump_to function ins else next_pc)))"

subsection \<open>Strings\<close>

definition exec_push_str :: "bytecode_module \<Rightarrow> instruction \<Rightarrow> (vm, unit) sx" where
  "exec_push_str m ins = sx_then (sx_assert (in_table (i_operand ins) (length (m_string_constants m))))
     (sx_bind (heap_call (allocate_string (m_string_constants m ! unat (i_operand ins)))) push_object)"

definition exec_str_len :: "(vm, unit) sx" where
  "exec_str_len = sx_bind vm_pop (\<lambda>v. sx_bind (object_operand v) (\<lambda>i.
     sx_bind (heap_read (string_length i)) push_size))"

definition exec_str_eq :: "(vm, unit) sx" where
  "exec_str_eq = sx_bind vm_pop (\<lambda>r. sx_bind vm_pop (\<lambda>l.
     sx_bind (object_operand r) (\<lambda>right. sx_bind (object_operand l) (\<lambda>left.
     sx_bind (heap_read (string_equal left right)) (\<lambda>b. push_next (VBool b))))))"

definition exec_str_concat :: "(vm, unit) sx" where
  "exec_str_concat = sx_bind (peek_operand 2 1) (\<lambda>l. sx_bind (peek_operand 2 0) (\<lambda>r.
     sx_then (sx_assert (is_object r)) (sx_then (sx_assert (is_object l))
     (sx_bind (heap_call (allocate_string_concat l r)) (\<lambda>i. pop_then 2 (push_object i))))))"

definition exec_str_intern :: "(vm, unit) sx" where
  "exec_str_intern = sx_bind (peek_operand 1 0) (\<lambda>source.
     sx_then (sx_assert (is_object source))
     (sx_bind (heap_call (intern_string source)) (\<lambda>i. pop_then 1 (push_object i))))"

definition exec_str_sub :: "(vm, unit) sx" where
  "exec_str_sub = sx_bind (peek_operand 3 2) (\<lambda>source. sx_bind (peek_operand 3 1) (\<lambda>lo_value.
     sx_bind (peek_operand 3 0) (\<lambda>hi_value.
     sx_then (sx_assert (is_object source))
     (sx_bind (i64_operand lo_value) (\<lambda>lo. sx_bind (i64_operand hi_value) (\<lambda>hi.
     sx_bind (heap_read (\<lambda>h. ebind (as_object source) (\<lambda>i. string_length i h))) (\<lambda>n.
     sx_then (sx_throw_if (sint lo < 0 \<or> sint hi < 0 \<or> sint lo > sint hi \<or> unat hi > n)
       (Out_of_range msg_substring_bounds))
     (sx_bind (heap_call (allocate_string_substring source (unat lo) (unat hi))) (\<lambda>i.
     pop_then 3 (push_object i))))))))))"

text \<open>\<open>std::lexicographical_compare\<close> of two byte ranges.\<close>

fun lexicographical_compare :: "u8 list \<Rightarrow> u8 list \<Rightarrow> bool" where
  "lexicographical_compare _ [] = False"
| "lexicographical_compare [] (_ # _) = True"
| "lexicographical_compare (x # xs) (y # ys) = (x < y \<or> (\<not> y < x \<and> lexicographical_compare xs ys))"

definition exec_str_lt :: "(vm, unit) sx" where
  "exec_str_lt = sx_bind vm_pop (\<lambda>r. sx_bind vm_pop (\<lambda>l.
     sx_bind (object_operand r) (\<lambda>right. sx_bind (object_operand l) (\<lambda>left.
     sx_bind (heap_read (string_bytes left)) (\<lambda>left_bytes.
     sx_bind (heap_read (string_bytes right)) (\<lambda>right_bytes.
     push_next (VBool (lexicographical_compare left_bytes right_bytes))))))))"

definition exec_str_index :: "(vm, unit) sx" where
  "exec_str_index = sx_bind vm_pop (\<lambda>index_value. sx_bind vm_pop (\<lambda>receiver.
     sx_bind (i64_operand index_value) (\<lambda>n. sx_bind (object_operand receiver) (\<lambda>i.
     sx_bind (index_operand msg_string_bounds n) (\<lambda>index.
     sx_bind (heap_read (string_index i index)) (\<lambda>b. push_next (VInt64 (ucast b))))))))"

definition exec_print :: "(vm, unit) sx" where
  "exec_print = sx_bind (peek_operand 1 0) (\<lambda>v. sx_bind (object_operand v) (\<lambda>i.
     sx_bind (heap_read (string_bytes i)) (\<lambda>bytes.
     sx_bind (sx_gets (\<lambda>vm. length (v_output vm) \<ge> kMaxOutputBytes \<or>
       length bytes > kMaxOutputBytes - length (v_output vm) - 1)) (\<lambda>full.
     if full then vm_trap msg_output_overflow
     else sx_then (sx_modify (\<lambda>vm. vm\<lparr>v_output := v_output vm @ bytes @ [10]\<rparr>)) (pop_then 1 next_pc)))))"

definition exec_i64_to_str :: "(vm, unit) sx" where
  "exec_i64_to_str = sx_bind vm_pop (\<lambda>v. sx_bind (i64_operand v) (\<lambda>n.
     sx_bind (heap_call (allocate_string (canonical_i64 n))) push_object))"

definition exec_str_to_i64 :: "(vm, unit) sx" where
  "exec_str_to_i64 = sx_bind vm_pop (\<lambda>v. sx_bind (object_operand v) (\<lambda>i.
     sx_bind (heap_read (string_bytes i)) (\<lambda>bytes.
     case parse_canonical_i64 bytes of
       Inl _ \<Rightarrow> vm_trap msg_invalid_i64
     | Inr n \<Rightarrow> push_next (VInt64 n))))"

definition exec_bool_to_str :: "(vm, unit) sx" where
  "exec_bool_to_str = sx_bind vm_pop (\<lambda>v. sx_then (sx_assert (tag v = Tag_Bool))
     (sx_bind (sx_lift (as_bool v)) (\<lambda>b.
     sx_bind (heap_call (allocate_string (if b then true_text else false_text))) push_object)))"

subsection \<open>Pairs, records and variants\<close>

definition exec_alloc_pair :: "(vm, unit) sx" where
  "exec_alloc_pair = sx_bind vm_pop (\<lambda>r. sx_bind vm_pop (\<lambda>l.
     sx_bind (heap_call (allocate_pair l r)) push_object))"

definition exec_get_field :: "(object_id \<Rightarrow> gcheap \<Rightarrow> exn + val) \<Rightarrow> (vm, unit) sx" where
  "exec_get_field field = sx_bind vm_pop (\<lambda>v. sx_bind (object_operand v) (\<lambda>i.
     sx_bind (heap_read (field i)) push_next))"

definition exec_set_field :: "(object_id \<Rightarrow> val \<Rightarrow> (gcheap, unit) sx) \<Rightarrow> (vm, unit) sx" where
  "exec_set_field store = sx_bind vm_pop (\<lambda>v. sx_bind vm_pop (\<lambda>receiver.
     sx_bind (object_operand receiver) (\<lambda>i. sx_then (heap_call (store i v)) next_pc)))"

text \<open>The layout a record or variant instruction names.\<close>

definition table_entry :: "'a list \<Rightarrow> i64 \<Rightarrow> (vm, 'a) sx" where
  "table_entry table operand = sx_then (sx_assert (in_table operand (length table)))
     (sx_return (table ! unat operand))"

definition exec_alloc_record :: "bytecode_module \<Rightarrow> instruction \<Rightarrow> (vm, unit) sx" where
  "exec_alloc_record m ins = sx_bind (table_entry (m_record_layouts m) (i_operand ins)) (\<lambda>layout.
     sx_bind (pop_arguments (length (rl_field_types layout))) (\<lambda>fields.
     sx_bind (heap_call (allocate_record (unat (i_operand ins)) fields (rl_reference_map layout))) push_object))"

definition record_receiver :: "bytecode_module \<Rightarrow> instruction \<Rightarrow> val \<Rightarrow> (vm, object_id) sx" where
  "record_receiver m ins receiver = sx_bind (receiver_of_kind Record_kind receiver) (\<lambda>i.
     sx_bind (heap_read (record_layout_index i)) (\<lambda>layout_index.
     sx_then (sx_assert (layout_index = unat (i_operand ins))) (sx_return i)))"

definition exec_record_get :: "bytecode_module \<Rightarrow> instruction \<Rightarrow> (vm, unit) sx" where
  "exec_record_get m ins = sx_bind (table_entry (m_record_layouts m) (i_operand ins)) (\<lambda>layout.
     sx_then (sx_assert (in_table (i_operand2 ins) (length (rl_field_types layout))))
     (sx_bind vm_pop (\<lambda>receiver. sx_bind (record_receiver m ins receiver) (\<lambda>i.
     sx_bind (heap_read (record_get i (unat (i_operand2 ins)))) push_next))))"

definition exec_record_set :: "bytecode_module \<Rightarrow> instruction \<Rightarrow> (vm, unit) sx" where
  "exec_record_set m ins = sx_bind (table_entry (m_record_layouts m) (i_operand ins)) (\<lambda>layout.
     sx_then (sx_assert (in_table (i_operand2 ins) (length (rl_field_types layout))))
     (sx_bind vm_pop (\<lambda>stored. sx_bind vm_pop (\<lambda>receiver.
     sx_bind (record_receiver m ins receiver) (\<lambda>i.
     sx_then (heap_call (record_set i (unat (i_operand2 ins)) stored)) next_pc)))))"

definition exec_alloc_variant :: "bytecode_module \<Rightarrow> instruction \<Rightarrow> (vm, unit) sx" where
  "exec_alloc_variant m ins = sx_bind (table_entry (m_variant_layouts m) (i_operand ins)) (\<lambda>layout.
     sx_bind (table_entry (vl_cases layout) (i_operand2 ins)) (\<lambda>case_layout.
     sx_bind (pop_arguments (length (vc_field_types case_layout))) (\<lambda>fields.
     sx_bind (heap_call (allocate_variant (unat (i_operand ins)) (unat (i_operand2 ins)) fields
       (map vc_reference_map (vl_cases layout)))) push_object)))"

definition exec_variant_tag :: "bytecode_module \<Rightarrow> (vm, unit) sx" where
  "exec_variant_tag m = sx_bind vm_pop (\<lambda>receiver. sx_bind (receiver_of_kind Variant receiver) (\<lambda>i.
     sx_bind (heap_read (variant_layout_index i)) (\<lambda>layout_index.
     sx_then (sx_assert (layout_index < length (m_variant_layouts m)))
     (sx_bind (heap_read (variant_tag i)) (\<lambda>t.
     sx_then (sx_assert (t < length (vl_cases (m_variant_layouts m ! layout_index)))) (push_size t))))))"

definition exec_variant_get :: "bytecode_module \<Rightarrow> instruction \<Rightarrow> (vm, unit) sx" where
  "exec_variant_get m ins = sx_bind (table_entry (m_variant_layouts m) (i_operand ins)) (\<lambda>layout.
     sx_bind (table_entry (vl_cases layout) (i_operand2 ins)) (\<lambda>case_layout.
     sx_then (sx_assert (in_table (i_operand3 ins) (length (vc_field_types case_layout))))
     (sx_bind vm_pop (\<lambda>receiver. sx_bind (receiver_of_kind Variant receiver) (\<lambda>i.
     sx_bind (heap_read (variant_layout_index i)) (\<lambda>layout_index.
     sx_then (sx_assert (layout_index = unat (i_operand ins)))
     (sx_bind (heap_read (variant_tag i)) (\<lambda>t.
     sx_then (sx_throw_if (t \<noteq> unat (i_operand2 ins)) (Runtime_error msg_variant_case))
     (sx_bind (heap_read (variant_get i (unat (i_operand3 ins)))) push_next)))))))))"

subsection \<open>Arrays\<close>

definition exec_alloc_array :: "(vm, unit) sx" where
  "exec_alloc_array = sx_bind vm_pop (\<lambda>init_value. sx_bind vm_pop (\<lambda>length_value.
     sx_bind (i64_operand init_value) (\<lambda>init. sx_bind (i64_operand length_value) (\<lambda>n.
     sx_bind (index_operand msg_scalar_array_length n) (\<lambda>count.
     sx_bind (heap_call (allocate_scalar_array count init)) push_object)))))"

definition exec_array_get :: "(vm, unit) sx" where
  "exec_array_get = sx_bind vm_pop (\<lambda>index_value. sx_bind vm_pop (\<lambda>receiver.
     sx_bind (i64_operand index_value) (\<lambda>n. sx_bind (object_operand receiver) (\<lambda>i.
     sx_bind (index_operand msg_scalar_array_bounds n) (\<lambda>index.
     sx_bind (heap_read (array_get i index)) (\<lambda>x. push_next (VInt64 x)))))))"

definition exec_array_set :: "(vm, unit) sx" where
  "exec_array_set = sx_bind vm_pop (\<lambda>stored_value. sx_bind vm_pop (\<lambda>index_value. sx_bind vm_pop (\<lambda>receiver.
     sx_bind (i64_operand stored_value) (\<lambda>stored. sx_bind (i64_operand index_value) (\<lambda>n.
     sx_bind (object_operand receiver) (\<lambda>i.
     sx_bind (index_operand msg_scalar_array_bounds n) (\<lambda>index.
     sx_then (heap_call (array_set i index stored)) next_pc)))))))"

definition array_len :: "object_id \<Rightarrow> gcheap \<Rightarrow> exn + nat" where
  "array_len i h = ebind (heap_object i h) (\<lambda>x.
     if o_kind x = RefArray then ref_array_length i h else array_length i h)"

definition exec_array_len :: "(vm, unit) sx" where
  "exec_array_len = sx_bind vm_pop (\<lambda>v. sx_bind (object_operand v) (\<lambda>i.
     sx_bind (heap_read (array_len i)) (\<lambda>n.
     sx_then (sx_throw_if (n > int64_max) (Length_error msg_array_length_range))
     (push_next (VInt64 (of_nat n))))))"

definition exec_alloc_ref_array :: "(vm, unit) sx" where
  "exec_alloc_ref_array = sx_bind vm_pop (\<lambda>init_value. sx_bind vm_pop (\<lambda>length_value.
     sx_then (sx_assert (is_object init_value))
     (sx_bind (i64_operand length_value) (\<lambda>n.
     sx_bind (index_operand msg_ref_array_length n) (\<lambda>count.
     sx_bind (heap_call (allocate_ref_array count init_value)) push_object)))))"

definition exec_ref_array_get :: "(vm, unit) sx" where
  "exec_ref_array_get = sx_bind vm_pop (\<lambda>index_value. sx_bind vm_pop (\<lambda>receiver.
     sx_bind (i64_operand index_value) (\<lambda>n. sx_bind (object_operand receiver) (\<lambda>i.
     sx_bind (index_operand msg_ref_array_bounds n) (\<lambda>index.
     sx_bind (heap_read (ref_array_get i index)) push_next)))))"

definition exec_ref_array_set :: "(vm, unit) sx" where
  "exec_ref_array_set = sx_bind vm_pop (\<lambda>stored_value. sx_bind vm_pop (\<lambda>index_value. sx_bind vm_pop (\<lambda>receiver.
     sx_then (sx_assert (is_object stored_value))
     (sx_bind (i64_operand index_value) (\<lambda>n. sx_bind (object_operand receiver) (\<lambda>i.
     sx_bind (index_operand msg_ref_array_bounds n) (\<lambda>index.
     sx_then (heap_call (ref_array_set i index stored_value)) next_pc)))))))"

subsection \<open>Maps\<close>

definition exec_alloc_map :: "bytecode_module \<Rightarrow> instruction \<Rightarrow> (vm, unit) sx" where
  "exec_alloc_map m ins = sx_bind (table_entry (m_map_layouts m) (i_operand ins)) (\<lambda>layout.
     sx_bind (heap_call (allocate_map (unat (i_operand ins)) (ml_key_is_ref layout) (ml_value_is_ref layout)))
       push_object)"

definition exec_map_set :: "(vm, unit) sx" where
  "exec_map_set = sx_bind vm_pop (\<lambda>stored_value. sx_bind vm_pop (\<lambda>key. sx_bind vm_pop (\<lambda>receiver.
     sx_bind (receiver_of_kind Map_kind receiver) (\<lambda>i.
     sx_then (heap_call (map_set i key stored_value)) next_pc))))"

definition exec_map_get :: "(vm, unit) sx" where
  "exec_map_get = sx_bind vm_pop (\<lambda>key. sx_bind vm_pop (\<lambda>receiver.
     sx_bind (receiver_of_kind Map_kind receiver) (\<lambda>i. sx_bind (heap_read (map_get i key)) push_next)))"

definition exec_map_has :: "(vm, unit) sx" where
  "exec_map_has = sx_bind vm_pop (\<lambda>key. sx_bind vm_pop (\<lambda>receiver.
     sx_bind (receiver_of_kind Map_kind receiver) (\<lambda>i.
     sx_bind (heap_read (map_has i key)) (\<lambda>b. push_next (VBool b)))))"

definition exec_map_len :: "(vm, unit) sx" where
  "exec_map_len = sx_bind vm_pop (\<lambda>receiver. sx_bind (receiver_of_kind Map_kind receiver) (\<lambda>i.
     sx_bind (heap_read (map_length i)) (\<lambda>n.
     sx_then (sx_throw_if (n > int64_max) (Length_error msg_map_length_range))
     (push_next (VInt64 (of_nat n))))))"

definition exec_map_at :: "(object_id \<Rightarrow> nat \<Rightarrow> gcheap \<Rightarrow> exn + val) \<Rightarrow> (vm, unit) sx" where
  "exec_map_at entry = sx_bind vm_pop (\<lambda>index_value. sx_bind vm_pop (\<lambda>receiver.
     sx_bind (i64_operand index_value) (\<lambda>n. sx_bind (receiver_of_kind Map_kind receiver) (\<lambda>i.
     sx_bind (index_operand msg_map_entry_bounds n) (\<lambda>index.
     sx_bind (heap_read (entry i index)) push_next)))))"

subsection \<open>Weak references, ephemerons and builders\<close>

definition exec_alloc_weak :: "(vm, unit) sx" where
  "exec_alloc_weak = sx_bind vm_pop (\<lambda>target. sx_then (sx_assert (is_object target))
     (sx_bind (heap_call (allocate_weak target)) push_object))"

definition exec_weak_get :: "(vm, unit) sx" where
  "exec_weak_get = sx_bind vm_pop (\<lambda>receiver. sx_bind (receiver_of_kind WeakRef receiver) (\<lambda>i.
     sx_bind (heap_read (weak_get i)) push_next))"

definition exec_alloc_ephemeron :: "bytecode_module \<Rightarrow> instruction \<Rightarrow> (vm, unit) sx" where
  "exec_alloc_ephemeron m ins = sx_bind vm_pop (\<lambda>v. sx_bind vm_pop (\<lambda>key.
     sx_then (sx_assert (unat (i_operand ins) < length (m_ephemeron_layouts m)))
     (sx_bind (heap_call (allocate_ephemeron key v (el_value_is_ref (m_ephemeron_layouts m ! unat (i_operand ins)))))
       push_object)))"

definition exec_ephemeron_key :: "(vm, unit) sx" where
  "exec_ephemeron_key = sx_bind vm_pop (\<lambda>receiver. sx_bind (receiver_of_kind Ephemeron receiver) (\<lambda>i.
     sx_bind (heap_read (heap_ephemeron_key i)) push_next))"

definition exec_ephemeron_value :: "(vm, unit) sx" where
  "exec_ephemeron_value = sx_bind vm_pop (\<lambda>receiver. sx_bind (receiver_of_kind Ephemeron receiver) (\<lambda>i.
     sx_bind (heap_read (heap_ephemeron_value i)) (\<lambda>v.
     if tag v = Tag_Nil then vm_trap msg_ephemeron_trap else push_next v)))"

definition exec_ephemeron_set_value :: "(vm, unit) sx" where
  "exec_ephemeron_set_value = sx_bind vm_pop (\<lambda>v. sx_bind vm_pop (\<lambda>receiver.
     sx_bind (receiver_of_kind Ephemeron receiver) (\<lambda>i.
     sx_then (heap_call (ephemeron_set_value i v)) next_pc)))"

definition exec_alloc_builder :: "(vm, unit) sx" where
  "exec_alloc_builder = sx_bind (heap_call allocate_builder) push_object"

definition exec_builder_append :: "(vm, unit) sx" where
  "exec_builder_append = sx_bind (peek_operand 2 1) (\<lambda>receiver. sx_bind (peek_operand 2 0) (\<lambda>source.
     sx_bind (receiver_of_kind Builder receiver) (\<lambda>i.
     sx_bind (receiver_of_kind Str source) (\<lambda>_.
     sx_then (heap_call (builder_append i source)) (pop_then 2 next_pc)))))"

definition exec_builder_len :: "(vm, unit) sx" where
  "exec_builder_len = sx_bind vm_pop (\<lambda>receiver. sx_bind (receiver_of_kind Builder receiver) (\<lambda>i.
     sx_bind (heap_read (builder_length i)) push_size))"

definition exec_builder_to_str :: "(vm, unit) sx" where
  "exec_builder_to_str = sx_bind (peek_operand 1 0) (\<lambda>v. sx_bind (receiver_of_kind Builder v) (\<lambda>_.
     sx_bind (heap_call (builder_to_string v)) (\<lambda>i. pop_then 1 (push_object i))))"

definition exec_builder_clear :: "(vm, unit) sx" where
  "exec_builder_clear = sx_bind (peek_operand 1 0) (\<lambda>v. sx_bind (receiver_of_kind Builder v) (\<lambda>i.
     sx_then (heap_call (builder_clear i)) (pop_then 1 next_pc)))"

subsection \<open>Closures and calls\<close>

definition exec_collect :: "module_verification \<Rightarrow> (vm, unit) sx" where
  "exec_collect V = sx_then (assert_stack_matches_map V) (sx_then (heap_call heap_collect)
     (sx_then (assert_stack_matches_map V) next_pc))"

definition exec_alloc_closure :: "bytecode_module \<Rightarrow> instruction \<Rightarrow> (vm, unit) sx" where
  "exec_alloc_closure m ins = sx_bind (table_entry (m_closure_layouts m) (i_operand ins)) (\<lambda>layout.
     sx_bind (pop_arguments (length (cl_capture_types layout))) (\<lambda>captures.
     sx_bind (heap_call (allocate_closure (unat (i_operand ins)) (cl_function_index layout) captures
       (cl_capture_map layout))) push_object))"

definition exec_call_closure :: "bytecode_module \<Rightarrow> (vm, unit) sx" where
  "exec_call_closure m = sx_bind vm_pop (\<lambda>closure. sx_bind (receiver_of_kind Closure closure) (\<lambda>i.
     sx_bind (heap_read (closure_function_index i)) (\<lambda>callee.
     sx_then (sx_assert (callee < length (m_functions m)))
     (sx_bind (pop_arguments (length (fs_parameters (fn_signature (m_functions m ! callee))))) (\<lambda>arguments.
     sx_then next_pc (push_frame m callee arguments (Some closure)))))))"

definition exec_load_capture :: "instruction \<Rightarrow> (vm, unit) sx" where
  "exec_load_capture ins = sx_bind (sx_gets (\<lambda>vm. f_closure (top_frame vm))) (\<lambda>closure.
     case closure of
       None \<Rightarrow> sx_throw Abort
     | Some c \<Rightarrow> sx_bind (sx_lift (as_object c)) (\<lambda>i.
         sx_bind (heap_read (closure_capture_count i)) (\<lambda>n.
         sx_then (sx_assert (in_table (i_operand ins) n))
         (sx_bind (heap_read (closure_capture i (unat (i_operand ins)))) push_next))))"

definition exec_call :: "bytecode_module \<Rightarrow> instruction \<Rightarrow> (vm, unit) sx" where
  "exec_call m ins = sx_bind (table_entry (m_functions m) (i_operand ins)) (\<lambda>function.
     sx_bind (pop_arguments (length (fs_parameters (fn_signature function)))) (\<lambda>arguments.
     sx_then next_pc (push_frame m (unat (i_operand ins)) arguments None)))"

definition exec_tail_call :: "bytecode_module \<Rightarrow> instruction \<Rightarrow> (vm, unit) sx" where
  "exec_tail_call m ins = sx_then (sx_assert (in_table (i_operand ins) (length (m_functions m))))
     (reuse_frame_for_tail_call m (unat (i_operand ins)))"

definition count_instruction :: "(vm, unit) sx" where
  "count_instruction = sx_modify (\<lambda>vm. vm\<lparr>v_instructions_executed := v_instructions_executed vm + 1\<rparr>)"

text \<open>The result is that of the whole program when the last frame returns.\<close>

definition exec_return :: "(vm, val option) sx" where
  "exec_return =
     sx_bind (sx_gets (\<lambda>vm. h_marking_active (v_heap vm))) (\<lambda>marking.
     sx_bind (sx_gets (\<lambda>vm. incremental_compact_step_budgets (v_gc_stress vm) \<noteq> [])) (\<lambda>compaction_stress.
     sx_then (sx_when marking (if compaction_stress
       then heap_call finish_incremental_marking_to_incremental_compaction else heap_call finish_incremental_marking))
     (sx_bind (sx_gets (\<lambda>vm. h_compaction_active (v_heap vm))) (\<lambda>compacting.
     sx_then (sx_when compacting (heap_call finish_incremental_compaction))
     (sx_bind vm_pop (\<lambda>result.
     sx_then (sx_modify (\<lambda>vm. vm\<lparr>v_frames := butlast (v_frames vm)\<rparr>))
     (sx_then count_instruction
     (sx_bind (sx_gets (\<lambda>vm. v_frames vm = [])) (\<lambda>finished.
     if finished then sx_return (Some result) else sx_then (vm_push result) (sx_return None))))))))))"

subsection \<open>Exceptions\<close>

text \<open>
  The innermost handler whose region holds the site and that takes the layout: the loop keeps the one
  with the greatest beginning, the earliest of equals.
\<close>

definition handler_applies :: "nat \<Rightarrow> nat \<Rightarrow> exception_handler \<Rightarrow> bool" where
  "handler_applies site layout handler \<longleftrightarrow> eh_try_begin handler < site \<and> site < eh_try_end handler \<and>
     eh_variant_layout handler = layout"

fun select_handler :: "nat \<Rightarrow> nat \<Rightarrow> exception_handler option \<Rightarrow> exception_handler list \<Rightarrow> exception_handler option" where
  "select_handler site layout selected [] = selected"
| "select_handler site layout selected (handler # handlers) = select_handler site layout
     (if handler_applies site layout handler \<and>
        (case selected of None \<Rightarrow> True | Some best \<Rightarrow> eh_try_begin handler > eh_try_begin best)
      then Some handler else selected) handlers"

definition pending_layout :: "(vm, nat) sx" where
  "pending_layout = sx_bind (sx_gets (\<lambda>vm. the (v_pending_exception vm))) (\<lambda>e.
     sx_bind (sx_lift (as_object e)) (\<lambda>i. heap_read (variant_layout_index i)))"

definition enter_handler :: "exception_handler \<Rightarrow> (vm, unit) sx" where
  "enter_handler handler = sx_bind (sx_gets (\<lambda>vm. the (v_pending_exception vm))) (\<lambda>e.
     sx_then (modify_top (\<lambda>f. f\<lparr>f_stack := [e], f_pc := eh_target handler\<rparr>))
     (sx_modify (\<lambda>vm. vm\<lparr>v_pending_exception := None\<rparr>)))"

text \<open>
  The loop over the frames; its last argument is the number of frames, which every turn of the loop
  that does not end it makes one less.
\<close>

fun unwind :: "bytecode_module \<Rightarrow> bool \<Rightarrow> nat \<Rightarrow> (vm, bool) sx" where
  "unwind m initial 0 = sx_return False"
| "unwind m initial (Suc n) = sx_bind (sx_gets top_frame) (\<lambda>f.
     let site = (if initial then f_pc f else f_pc f - 1) in
     sx_bind pending_layout (\<lambda>layout.
     case select_handler site layout None (fn_exception_handlers (m_functions m ! f_function_index f)) of
       Some handler \<Rightarrow> sx_then (enter_handler handler) (sx_return True)
     | None \<Rightarrow> sx_bind (sx_gets (\<lambda>vm. collect_every_n_instructions (v_gc_stress vm) = 1)) (\<lambda>stress.
         sx_then (sx_when stress (heap_call heap_collect))
         (sx_then (sx_modify (\<lambda>vm. vm\<lparr>v_frames := butlast (v_frames vm)\<rparr>))
         (unwind m False n)))))"

definition uncaught_exception :: "bytecode_module \<Rightarrow> runtime_trace \<Rightarrow> (vm, unit) sx" where
  "uncaught_exception m trace = sx_bind pending_layout (\<lambda>layout.
     let name = (if layout < length (m_variant_layouts m) then vl_name (m_variant_layouts m ! layout)
       else invalid_variant_name) in
     sx_then (sx_modify (\<lambda>vm. vm\<lparr>v_last_trap_trace := Some (trace\<lparr>rt_exception_variant := Some name\<rparr>),
       v_pending_exception := None\<rparr>))
     (sx_throw (Uncaught_exception name)))"

definition exec_throw :: "bytecode_module \<Rightarrow> (vm, unit) sx" where
  "exec_throw m = sx_bind vm_pop (\<lambda>e.
     sx_then (sx_modify (\<lambda>vm. vm\<lparr>v_pending_exception := Some e\<rparr>))
     (sx_bind (receiver_of_kind Variant e) (\<lambda>_.
     sx_bind (sx_gets (\<lambda>vm. capture_runtime_trace m (f_function_index (top_frame vm)) (f_pc (top_frame vm))
       Failure_Uncaught_Exception vm)) (\<lambda>trace.
     sx_bind (sx_gets (\<lambda>vm. length (v_frames vm))) (\<lambda>n.
     sx_bind (unwind m True n) (\<lambda>handled.
     if handled then sx_return () else uncaught_exception m trace))))))"

end
