(* ===== verification/VM_Run.thy ===== *)
theory VM_Run
  imports VM_Exec
begin

text \<open>
  The interpreter loop of \<open>VM::execute_verified\<close>: the dispatch on the opcode, one turn of the loop
  (\<open>vm_step\<close>), the loop itself, which need not end (\<open>run_loop\<close>), the handling of a failure, and
  \<open>execute\<close> for a verified module.  \<open>vm_reaches\<close> is the step relation of the machine.
\<close>

subsection \<open>Dispatch\<close>

definition continue_after :: "(vm, unit) sx \<Rightarrow> (vm, val option) sx" where
  "continue_after k = sx_then k (sx_then count_instruction (sx_return None))"

definition exec_instruction :: "bytecode_module \<Rightarrow> module_verification \<Rightarrow> bytecode_function \<Rightarrow> instruction \<Rightarrow>
    (vm, val option) sx" where
  "exec_instruction m V function ins = (case i_op ins of
       Op_ConstantI64 \<Rightarrow> continue_after (exec_constant_i64 ins)
     | Op_AddI64 \<Rightarrow> continue_after exec_add_i64
     | Op_LessI64 \<Rightarrow> continue_after exec_less_i64
     | Op_AllocPair \<Rightarrow> continue_after exec_alloc_pair
     | Op_GetLeft \<Rightarrow> continue_after (exec_get_field heap_left)
     | Op_GetRight \<Rightarrow> continue_after (exec_get_field heap_right)
     | Op_SetLeft \<Rightarrow> continue_after (exec_set_field set_left)
     | Op_SetRight \<Rightarrow> continue_after (exec_set_field set_right)
     | Op_AllocArray \<Rightarrow> continue_after exec_alloc_array
     | Op_ArrayGet \<Rightarrow> continue_after exec_array_get
     | Op_ArraySet \<Rightarrow> continue_after exec_array_set
     | Op_ArrayLen \<Rightarrow> continue_after exec_array_len
     | Op_LoadLocal \<Rightarrow> continue_after (exec_load_local ins)
     | Op_StoreLocal \<Rightarrow> continue_after (exec_store_local ins)
     | Op_Jump \<Rightarrow> continue_after (jump_to function ins)
     | Op_JumpIfFalse \<Rightarrow> continue_after (exec_jump_if_false function ins)
     | Op_Collect \<Rightarrow> continue_after (exec_collect V)
     | Op_Call \<Rightarrow> continue_after (exec_call m ins)
     | Op_Return \<Rightarrow> exec_return
     | Op_Nil \<Rightarrow> continue_after exec_nil
     | Op_IsNil \<Rightarrow> continue_after exec_is_nil
     | Op_AllocRefArray \<Rightarrow> continue_after exec_alloc_ref_array
     | Op_RefArrayGet \<Rightarrow> continue_after exec_ref_array_get
     | Op_RefArraySet \<Rightarrow> continue_after exec_ref_array_set
     | Op_PushStr \<Rightarrow> continue_after (exec_push_str m ins)
     | Op_StrLen \<Rightarrow> continue_after exec_str_len
     | Op_StrEq \<Rightarrow> continue_after exec_str_eq
     | Op_StrConcat \<Rightarrow> continue_after exec_str_concat
     | Op_StrIndex \<Rightarrow> continue_after exec_str_index
     | Op_AllocClosure \<Rightarrow> continue_after (exec_alloc_closure m ins)
     | Op_CallClosure \<Rightarrow> continue_after (exec_call_closure m)
     | Op_LoadCapture \<Rightarrow> continue_after (exec_load_capture ins)
     | Op_AllocMap \<Rightarrow> continue_after (exec_alloc_map m ins)
     | Op_MapSet \<Rightarrow> continue_after exec_map_set
     | Op_MapGet \<Rightarrow> continue_after exec_map_get
     | Op_MapHas \<Rightarrow> continue_after exec_map_has
     | Op_MapLen \<Rightarrow> continue_after exec_map_len
     | Op_AllocWeak \<Rightarrow> continue_after exec_alloc_weak
     | Op_WeakGet \<Rightarrow> continue_after exec_weak_get
     | Op_MapKeyAt \<Rightarrow> continue_after (exec_map_at map_key_at)
     | Op_MapValueAt \<Rightarrow> continue_after (exec_map_at map_value_at)
     | Op_Print \<Rightarrow> continue_after exec_print
     | Op_I64ToStr \<Rightarrow> continue_after exec_i64_to_str
     | Op_StrToI64 \<Rightarrow> continue_after exec_str_to_i64
     | Op_BoolToStr \<Rightarrow> continue_after exec_bool_to_str
     | Op_StrSub \<Rightarrow> continue_after exec_str_sub
     | Op_StrLt \<Rightarrow> continue_after exec_str_lt
     | Op_AllocRecord \<Rightarrow> continue_after (exec_alloc_record m ins)
     | Op_RecordGet \<Rightarrow> continue_after (exec_record_get m ins)
     | Op_RecordSet \<Rightarrow> continue_after (exec_record_set m ins)
     | Op_AllocVariant \<Rightarrow> continue_after (exec_alloc_variant m ins)
     | Op_VariantTag \<Rightarrow> continue_after (exec_variant_tag m)
     | Op_VariantGet \<Rightarrow> continue_after (exec_variant_get m ins)
     | Op_TryBegin \<Rightarrow> continue_after next_pc
     | Op_TryEnd \<Rightarrow> continue_after next_pc
     | Op_Throw \<Rightarrow> continue_after (exec_throw m)
     | Op_AllocEphemeron \<Rightarrow> continue_after (exec_alloc_ephemeron m ins)
     | Op_EphemeronKey \<Rightarrow> continue_after exec_ephemeron_key
     | Op_EphemeronValue \<Rightarrow> continue_after exec_ephemeron_value
     | Op_EphemeronSetValue \<Rightarrow> continue_after exec_ephemeron_set_value
     | Op_TailCall \<Rightarrow> continue_after (exec_tail_call m ins)
     | Op_StrIntern \<Rightarrow> continue_after exec_str_intern
     | Op_I64Abs \<Rightarrow> continue_after exec_i64_abs
     | Op_AllocBuilder \<Rightarrow> continue_after exec_alloc_builder
     | Op_BuilderAppend \<Rightarrow> continue_after exec_builder_append
     | Op_BuilderLen \<Rightarrow> continue_after exec_builder_len
     | Op_BuilderToStr \<Rightarrow> continue_after exec_builder_to_str
     | Op_BuilderClear \<Rightarrow> continue_after exec_builder_clear)"

subsection \<open>The loop\<close>

text \<open>At a tail call the locals and the closure of the dying frame are dropped before anything else.\<close>

definition drop_dying_slots :: "instruction \<Rightarrow> (vm, unit) sx" where
  "drop_dying_slots ins = sx_when (i_op ins = Op_TailCall)
     (modify_top (\<lambda>f. f\<lparr>f_locals := replicate (length (f_locals f)) VNil, f_closure := None\<rparr>))"

definition current_instruction :: "bytecode_function \<Rightarrow> vm \<Rightarrow> instruction" where
  "current_instruction function vm = fn_code function ! f_pc (top_frame vm)"

definition vm_step :: "bytecode_module \<Rightarrow> module_verification \<Rightarrow> (vm, val option) sx" where
  "vm_step m V = sx_bind (sx_gets (\<lambda>vm. m_functions m ! f_function_index (top_frame vm))) (\<lambda>function.
     sx_bind (sx_gets (current_instruction function)) (\<lambda>first.
     sx_then (drop_dying_slots first)
     (sx_then (assert_stack_matches_map V)
     (sx_then (collect_at_instruction_boundary V)
     (sx_bind (sx_gets (current_instruction function)) (\<lambda>ins. exec_instruction m V function ins))))))"

text \<open>What the \<open>catch\<close> clauses do: a failed assertion is not caught.\<close>

definition record_trap :: "bytecode_module \<Rightarrow> nat \<Rightarrow> nat \<Rightarrow> vm \<Rightarrow> vm" where
  "record_trap m active_function_index active_pc vm = (if v_last_trap_trace vm = None
     then vm\<lparr>v_last_trap_trace := Some (capture_runtime_trace m active_function_index active_pc Failure_Trap vm)\<rparr>
     else vm)"

definition on_failure :: "bytecode_module \<Rightarrow> nat \<Rightarrow> nat \<Rightarrow> exn \<Rightarrow> (vm, 'a) sx" where
  "on_failure m active_function_index active_pc e = (if e = Abort then sx_throw Abort
     else sx_then (sx_modify (record_trap m active_function_index active_pc))
       (sx_bind (sx_gets (\<lambda>vm. h_marking_active (v_heap vm))) (\<lambda>marking.
       sx_then (sx_when marking (heap_call finish_incremental_marking))
       (sx_bind (sx_gets (\<lambda>vm. h_compaction_active (v_heap vm))) (\<lambda>compacting.
       sx_then (sx_when compacting (heap_call finish_incremental_compaction))
       (sx_throw e))))))"

text \<open>\<open>None\<close> is a program that runs forever.\<close>

partial_function (option) run_loop :: "bytecode_module \<Rightarrow> module_verification \<Rightarrow> vm \<Rightarrow> ((exn + val) \<times> vm) option" where
  "run_loop m V vm = (if v_frames vm = [] then Some (Inr VNil, vm)
     else case vm_step m V vm of
       (Inl e, vm') \<Rightarrow> Some (on_failure m (f_function_index (top_frame vm)) (f_pc (top_frame vm)) e vm')
     | (Inr (Some v), vm') \<Rightarrow> Some (Inr v, vm')
     | (Inr None, vm') \<Rightarrow> run_loop m V vm')"

declare run_loop.simps [code]

definition reset_execution :: "vm \<Rightarrow> vm" where
  "reset_execution vm = vm\<lparr>v_frames := [], v_pending_exception := None, v_last_trap_trace := None,
     v_instructions_executed := 0, v_mark_budget_cursor := 0, v_compact_budget_cursor := 0\<rparr>"

definition prepare_execution :: "(vm, unit) sx" where
  "prepare_execution =
     sx_bind (sx_gets (\<lambda>vm. h_compaction_active (v_heap vm))) (\<lambda>compacting.
     sx_then (sx_when compacting (heap_call finish_incremental_compaction))
     (sx_bind (sx_gets (\<lambda>vm. h_marking_active (v_heap vm))) (\<lambda>marking.
     sx_then (sx_when marking (heap_call finish_incremental_marking))
     (sx_modify reset_execution))))"

definition execute_verified :: "bytecode_module \<Rightarrow> module_verification \<Rightarrow> vm \<Rightarrow> ((exn + val) \<times> vm) option" where
  "execute_verified m V vm = (case prepare_execution vm of
     (Inl e, vm1) \<Rightarrow> Some (Inl e, vm1)
   | (Inr _, vm1) \<Rightarrow> (case push_frame m (m_entry_function m) [] None vm1 of
       (Inl e, vm2) \<Rightarrow> Some (on_failure m (m_entry_function m) 0 e vm2)
     | (Inr _, vm2) \<Rightarrow> run_loop m V vm2))"

definition execute :: "bytecode_module \<Rightarrow> module_verification \<Rightarrow> vm \<Rightarrow> ((exn + val) \<times> vm) option" where
  "execute m V vm = execute_verified m V (vm\<lparr>v_output := [], v_last_trap_trace := None\<rparr>)"

subsection \<open>The step relation\<close>

inductive vm_reaches :: "bytecode_module \<Rightarrow> module_verification \<Rightarrow> vm \<Rightarrow> vm \<Rightarrow> bool"
  for m :: bytecode_module and V :: module_verification where
  start: "vm_reaches m V vm vm"
| step: "vm_reaches m V vm vm1 \<Longrightarrow> v_frames vm1 \<noteq> [] \<Longrightarrow> vm_step m V vm1 = (Inr None, vm2) \<Longrightarrow>
    vm_reaches m V vm vm2"

end
