(* ===== verification/VM_Control.thy ===== *)
theory VM_Control
  imports VM_Run
begin

text \<open>
  Invariants of the machine that depend on its control state only: the functions and counters of the
  frames, the depth limit, the output and the recorded trace.  The locale \<open>control_invariant\<close> says what
  such an invariant must withstand: a return, a call below the depth limit, a tail call, a line of output
  that fits, a recorded trace.  Every instruction, whatever its operands, the module and the heap, then
  keeps it, whether it succeeds or throws.
\<close>

named_theorems keeps \<open>operations of the machine that keep a control invariant\<close>

subsection \<open>Operations that keep a predicate\<close>

definition sx_keeps :: "('s \<Rightarrow> bool) \<Rightarrow> ('s, 'a) sx \<Rightarrow> bool" where
  "sx_keeps I k \<longleftrightarrow> (\<forall>s. I s \<longrightarrow> I (snd (k s)))"

lemma sx_keepsI: "(\<And>s. I s \<Longrightarrow> I (snd (k s))) \<Longrightarrow> sx_keeps I k"
  by (simp add: sx_keeps_def)

lemma sx_keepsD: "sx_keeps I k \<Longrightarrow> I s \<Longrightarrow> I (snd (k s))"
  by (simp add: sx_keeps_def)

lemma keeps_bind [keeps]: "sx_keeps I k \<Longrightarrow> (\<And>x. sx_keeps I (f x)) \<Longrightarrow> sx_keeps I (sx_bind k f)"
  by (auto simp: sx_keeps_def sx_bind_def split: prod.split sum.split)

lemma keeps_then [keeps]: "sx_keeps I k \<Longrightarrow> sx_keeps I n \<Longrightarrow> sx_keeps I (sx_then k n)"
  unfolding sx_then_def by (intro keeps_bind)

lemma keeps_simple [keeps]:
  "sx_keeps I (sx_return x)" "sx_keeps I (sx_throw e)" "sx_keeps I (sx_gets f)" "sx_keeps I (sx_reads g)"
  "sx_keeps I (sx_lift r)" "sx_keeps I (sx_throw_if b e)" "sx_keeps I (sx_assert b)"
  by (simp_all add: sx_keeps_def sx_defs)

lemma keeps_when [keeps]: "sx_keeps I k \<Longrightarrow> sx_keeps I (sx_when b k)"
  by (simp add: sx_keeps_def sx_when_def sx_return_def)

lemma keeps_if [keeps]: "sx_keeps I k \<Longrightarrow> sx_keeps I n \<Longrightarrow> sx_keeps I (if b then k else n)"
  by simp

lemma keeps_case_option [keeps]:
  "sx_keeps I k \<Longrightarrow> (\<And>x. sx_keeps I (f x)) \<Longrightarrow> sx_keeps I (case z of None \<Rightarrow> k | Some x \<Rightarrow> f x)"
  by (cases z) simp_all

lemma keeps_case_sum [keeps]:
  "(\<And>x. sx_keeps I (f x)) \<Longrightarrow> (\<And>y. sx_keeps I (g y)) \<Longrightarrow> sx_keeps I (case z of Inl x \<Rightarrow> f x | Inr y \<Rightarrow> g y)"
  by (cases z) simp_all

subsection \<open>The control state\<close>

text \<open>The function and the counter of each frame, outermost first.\<close>

definition call_site :: "frame \<Rightarrow> nat \<times> nat" where
  "call_site f = (f_function_index f, f_pc f)"

definition machine_holds :: "((nat \<times> nat) list \<Rightarrow> nat \<Rightarrow> nat \<Rightarrow> runtime_trace option \<Rightarrow> bool) \<Rightarrow> vm \<Rightarrow> bool" where
  "machine_holds J vm = J (map call_site (v_frames vm)) (v_max_call_depth vm) (length (v_output vm))
     (v_last_trap_trace vm)"

text \<open>A predicate of the control state that does not see the counter of the running frame.\<close>

abbreviation control_holds :: "((nat \<times> nat) list \<Rightarrow> nat list \<Rightarrow> nat \<Rightarrow> nat \<Rightarrow> runtime_trace option \<Rightarrow> bool) \<Rightarrow> vm \<Rightarrow> bool" where
  "control_holds J \<equiv> machine_holds (\<lambda>sites. J (butlast sites) (map fst sites))"

lemma put_frames_sites [simp]: "map call_site (put_frames_roots fs vs) = map call_site fs"
  by (induction fs vs rule: put_frames_roots.induct) (simp_all add: put_frame_roots_def call_site_def Let_def)

lemma keeps_heap_call [keeps]: "sx_keeps (machine_holds J) (heap_call k)"
  by (rule sx_keepsI) (simp add: heap_call_def machine_holds_def put_roots_def split: prod.split)

lemma keeps_heap_read [keeps]: "sx_keeps I (heap_read f)"
  unfolding heap_read_def by (intro keeps)

lemma modify_top_sites:
  assumes "call_site (g (top_frame vm)) = call_site (top_frame vm)"
  shows "map call_site ((v_frames vm)[length (v_frames vm) - Suc 0 := g (top_frame vm)]) = map call_site (v_frames vm)"
proof (cases "v_frames vm")
  case (Cons f fs)
  then have "map call_site (v_frames vm) ! (length (v_frames vm) - Suc 0) = call_site (top_frame vm)"
    by (simp add: top_frame_def last_conv_nth)
  with assms show ?thesis by (metis list_update_id map_update)
qed simp

lemma keeps_modify_top:
  "(\<And>f. call_site (g f) = call_site f) \<Longrightarrow> sx_keeps (machine_holds J) (modify_top g)"
  by (rule sx_keepsI) (simp add: modify_top_def sx_modify_def machine_holds_def modify_top_sites)

lemma keeps_move_top:
  assumes "\<And>f. f_function_index (g f) = f_function_index f"
  shows "sx_keeps (control_holds J) (modify_top g)"
proof (rule sx_keepsI)
  fix vm assume "control_holds J vm"
  moreover have "map fst (map call_site ((v_frames vm)[length (v_frames vm) - Suc 0 := g (top_frame vm)])) =
      map fst (map call_site (v_frames vm))"
  proof (cases "v_frames vm")
    case (Cons f fs)
    then have "map (fst \<circ> call_site) (v_frames vm) ! (length (v_frames vm) - Suc 0) = fst (call_site (top_frame vm))"
      by (simp add: top_frame_def last_conv_nth)
    with assms show ?thesis
      by (simp add: map_update call_site_def) (metis list_update_id)
  qed simp
  ultimately show "control_holds J (snd (modify_top g vm))"
    by (simp add: modify_top_def sx_modify_def machine_holds_def map_update butlast_list_update)
qed

lemma keeps_modify:
  "(\<And>vm. v_frames (g vm) = v_frames vm \<and> v_max_call_depth (g vm) = v_max_call_depth vm \<and> v_output (g vm) = v_output vm \<and>
     v_last_trap_trace (g vm) = v_last_trap_trace vm) \<Longrightarrow> sx_keeps (machine_holds J) (sx_modify g)"
  by (rule sx_keepsI) (simp add: sx_modify_def machine_holds_def)

lemma keeps_stack [keeps]:
  "sx_keeps (machine_holds J) vm_pop" "sx_keeps (machine_holds J) (vm_push v)" "sx_keeps (machine_holds J) (pop_arguments n)"
proof -
  show pop: "sx_keeps (machine_holds J) vm_pop"
    unfolding vm_pop_def by (intro keeps keeps_modify_top) (simp add: call_site_def)
  show "sx_keeps (machine_holds J) (vm_push v)"
    unfolding vm_push_def by (intro keeps_modify_top) (simp add: call_site_def)
  show "sx_keeps (machine_holds J) (pop_arguments n)"
  proof (induction n)
    case (Suc n)
    show ?case unfolding pop_arguments.simps by (intro keeps pop Suc.IH)
  qed (simp add: keeps)
qed

lemma keeps_operands [keeps]:
  "sx_keeps (machine_holds J) (assert_kind k i)" "sx_keeps (machine_holds J) (object_operand v)"
  "sx_keeps (machine_holds J) (i64_operand v)" "sx_keeps (machine_holds J) (receiver_of_kind k v)"
  "sx_keeps (machine_holds J) (index_operand msg n64)" "sx_keeps (machine_holds J) (vm_trap d)"
  "sx_keeps (machine_holds J) (peek_operand a b)" "sx_keeps (machine_holds J) (table_entry table w)"
  "sx_keeps (machine_holds J) t \<Longrightarrow> sx_keeps (machine_holds J) (pop_then n t)"
  "sx_keeps (machine_holds J) (assert_stack_matches_map V)" "sx_keeps (machine_holds J) count_instruction"
  "sx_keeps (machine_holds J) pending_layout" "sx_keeps (machine_holds J) (drop_dying_slots ins)"
  "sx_keeps (machine_holds J) (record_receiver m ins v)" "sx_keeps (machine_holds J) (check_closure fn n c)"
  unfolding assert_kind_def object_operand_def i64_operand_def receiver_of_kind_def index_operand_def vm_trap_def
    peek_operand_def table_entry_def pop_then_def assert_stack_matches_map_def count_instruction_def
    pending_layout_def drop_dying_slots_def record_receiver_def check_closure_def
  by (intro keeps keeps_modify_top keeps_modify; simp add: call_site_def)+

lemma keeps_boundary [keeps]: "sx_keeps (machine_holds J) (collect_at_instruction_boundary V)"
  unfolding collect_at_instruction_boundary_def collect_at_interval_def marking_boundary_def compaction_boundary_def
  by (intro keeps keeps_modify; simp)

subsection \<open>The plain instructions\<close>

lemma keeps_results [keeps]:
  "sx_keeps (control_holds J) next_pc" "sx_keeps (control_holds J) (push_next v)"
  "sx_keeps (control_holds J) (push_object i)" "sx_keeps (control_holds J) (push_size n)"
  "sx_keeps (control_holds J) (jump_to fn ins)" "sx_keeps (control_holds J) (enter_handler handler)"
proof -
  show next_pc: "sx_keeps (control_holds J) next_pc"
    unfolding next_pc_def by (intro keeps_move_top) simp
  show "sx_keeps (control_holds J) (push_next v)" "sx_keeps (control_holds J) (push_object i)"
    "sx_keeps (control_holds J) (push_size n)"
    unfolding push_next_def push_object_def push_size_def by (intro keeps next_pc)+
  show "sx_keeps (control_holds J) (jump_to fn ins)" "sx_keeps (control_holds J) (enter_handler handler)"
    unfolding jump_to_def enter_handler_def by (intro keeps keeps_move_top keeps_modify; simp)+
qed

lemmas plain_instructions = exec_constant_i64_def exec_nil_def exec_is_nil_def exec_add_i64_def exec_less_i64_def
  exec_i64_abs_def exec_load_local_def exec_push_str_def exec_str_len_def
  exec_str_eq_def exec_str_concat_def exec_str_intern_def exec_str_sub_def exec_str_lt_def exec_str_index_def
  exec_i64_to_str_def exec_str_to_i64_def exec_bool_to_str_def exec_alloc_pair_def exec_get_field_def
  exec_set_field_def exec_alloc_record_def exec_record_get_def exec_record_set_def
  exec_alloc_variant_def exec_variant_tag_def exec_variant_get_def exec_alloc_array_def exec_array_get_def
  exec_array_set_def exec_array_len_def exec_alloc_ref_array_def exec_ref_array_get_def exec_ref_array_set_def
  exec_alloc_map_def exec_map_set_def exec_map_get_def exec_map_has_def exec_map_len_def exec_map_at_def
  exec_alloc_weak_def exec_weak_get_def exec_alloc_ephemeron_def exec_ephemeron_key_def exec_ephemeron_value_def
  exec_ephemeron_set_value_def exec_alloc_builder_def exec_builder_append_def exec_builder_len_def
  exec_builder_to_str_def exec_builder_clear_def exec_collect_def exec_alloc_closure_def exec_load_capture_def
  exec_store_local_def exec_jump_if_false_def

lemma keeps_plain [keeps]:
  "sx_keeps (control_holds J) (exec_constant_i64 ins)" "sx_keeps (control_holds J) exec_nil"
  "sx_keeps (control_holds J) exec_is_nil" "sx_keeps (control_holds J) exec_add_i64"
  "sx_keeps (control_holds J) exec_less_i64" "sx_keeps (control_holds J) exec_i64_abs"
  "sx_keeps (control_holds J) (exec_load_local ins)"
  "sx_keeps (control_holds J) (exec_push_str m ins)" "sx_keeps (control_holds J) exec_str_len"
  "sx_keeps (control_holds J) exec_str_eq" "sx_keeps (control_holds J) exec_str_concat"
  "sx_keeps (control_holds J) exec_str_intern" "sx_keeps (control_holds J) exec_str_sub"
  "sx_keeps (control_holds J) exec_str_lt" "sx_keeps (control_holds J) exec_str_index"
  "sx_keeps (control_holds J) exec_i64_to_str" "sx_keeps (control_holds J) exec_str_to_i64"
  "sx_keeps (control_holds J) exec_bool_to_str" "sx_keeps (control_holds J) exec_alloc_pair"
  "sx_keeps (control_holds J) (exec_get_field field)" "sx_keeps (control_holds J) (exec_set_field store)"
  "sx_keeps (control_holds J) (exec_alloc_record m ins)" "sx_keeps (control_holds J) (exec_record_get m ins)"
  "sx_keeps (control_holds J) (exec_record_set m ins)" "sx_keeps (control_holds J) (exec_alloc_variant m ins)"
  "sx_keeps (control_holds J) (exec_variant_tag m)" "sx_keeps (control_holds J) (exec_variant_get m ins)"
  unfolding plain_instructions by (intro keeps)+

lemma keeps_plain2 [keeps]:
  "sx_keeps (control_holds J) exec_alloc_array" "sx_keeps (control_holds J) exec_array_get"
  "sx_keeps (control_holds J) exec_array_set" "sx_keeps (control_holds J) exec_array_len"
  "sx_keeps (control_holds J) exec_alloc_ref_array" "sx_keeps (control_holds J) exec_ref_array_get"
  "sx_keeps (control_holds J) exec_ref_array_set" "sx_keeps (control_holds J) (exec_alloc_map m ins)"
  "sx_keeps (control_holds J) exec_map_set" "sx_keeps (control_holds J) exec_map_get"
  "sx_keeps (control_holds J) exec_map_has" "sx_keeps (control_holds J) exec_map_len"
  "sx_keeps (control_holds J) (exec_map_at entry)" "sx_keeps (control_holds J) exec_alloc_weak"
  "sx_keeps (control_holds J) exec_weak_get" "sx_keeps (control_holds J) (exec_alloc_ephemeron m ins)"
  "sx_keeps (control_holds J) exec_ephemeron_key" "sx_keeps (control_holds J) exec_ephemeron_value"
  "sx_keeps (control_holds J) exec_ephemeron_set_value" "sx_keeps (control_holds J) exec_alloc_builder"
  "sx_keeps (control_holds J) exec_builder_append" "sx_keeps (control_holds J) exec_builder_len"
  "sx_keeps (control_holds J) exec_builder_to_str" "sx_keeps (control_holds J) exec_builder_clear"
  "sx_keeps (control_holds J) (exec_collect V)" "sx_keeps (control_holds J) (exec_alloc_closure m ins)"
  "sx_keeps (control_holds J) (exec_load_capture ins)" "sx_keeps (control_holds J) (exec_store_local ins)"
  "sx_keeps (control_holds J) (exec_jump_if_false fn ins)"
  unfolding plain_instructions by (intro keeps keeps_modify_top; simp add: call_site_def)+

lemma keeps_bind_gets: "(\<And>s. I s \<Longrightarrow> I (snd (f (g s) s))) \<Longrightarrow> sx_keeps I (sx_bind (sx_gets g) f)"
  by (rule sx_keepsI) (simp add: sx_bind_def sx_gets_def)

lemma keeps_drop_frame:
  assumes "\<And>cs ks d b t. J cs ks d b t \<Longrightarrow> J (butlast cs) (butlast ks) d b t"
  shows "sx_keeps (control_holds J) (sx_modify (\<lambda>vm. vm\<lparr>v_frames := butlast (v_frames vm)\<rparr>))"
  by (rule sx_keepsI) (simp add: sx_modify_def machine_holds_def map_butlast assms)

subsection \<open>What an invariant must withstand\<close>

locale control_invariant =
  fixes m :: bytecode_module
    and J :: "(nat \<times> nat) list \<Rightarrow> nat list \<Rightarrow> nat \<Rightarrow> nat \<Rightarrow> runtime_trace option \<Rightarrow> bool"
  assumes return_ok: "J cs ks d b t \<Longrightarrow> J (butlast cs) (butlast ks) d b t"
    and call_ok: "J cs ks d b t \<Longrightarrow> length ks < d \<Longrightarrow> k < length (m_functions m) \<Longrightarrow> J cs' (ks @ [k]) d b t"
    and reuse_ok: "J cs ks d b t \<Longrightarrow> k < length (m_functions m) \<Longrightarrow> J cs (ks[length ks - 1 := k]) d b t"
    and print_ok: "J cs ks d b t \<Longrightarrow> b' \<le> kMaxOutputBytes \<Longrightarrow> J cs ks d b' t"
    and trace_ok: "J cs ks d b t \<Longrightarrow> J cs ks d b t'"
begin

abbreviation holds :: "vm \<Rightarrow> bool" where "holds \<equiv> control_holds J"

lemma keeps_return_frame: "sx_keeps holds (sx_modify (\<lambda>vm. vm\<lparr>v_frames := butlast (v_frames vm)\<rparr>))"
  by (rule keeps_drop_frame) (rule return_ok)

lemma keeps_exec_print: "sx_keeps holds exec_print"
proof -
  have writes: "sx_keeps holds (sx_bind (sx_gets (\<lambda>vm. length (v_output vm) \<ge> kMaxOutputBytes \<or>
       length bytes > kMaxOutputBytes - length (v_output vm) - 1)) (\<lambda>full.
     if full then vm_trap msg_output_overflow
     else sx_then (sx_modify (\<lambda>vm. vm\<lparr>v_output := v_output vm @ bytes @ [10]\<rparr>)) (pop_then 1 next_pc)))" for bytes
  proof (rule keeps_bind_gets)
    fix vm :: vm
    assume I: "holds vm"
    define vm' where "vm' = vm\<lparr>v_output := v_output vm @ bytes @ [10]\<rparr>"
    have rest: "sx_keeps holds (pop_then 1 next_pc)" "sx_keeps holds (vm_trap msg_output_overflow :: (vm, unit) sx)"
      by (intro keeps)+
    have fit: "holds vm'" if "length (v_output vm) + length bytes < kMaxOutputBytes"
      using that print_ok [OF I [unfolded machine_holds_def], of "length (v_output vm')"]
      by (simp add: machine_holds_def vm'_def)
    show "holds (snd ((if length (v_output vm) \<ge> kMaxOutputBytes \<or>
          length bytes > kMaxOutputBytes - length (v_output vm) - 1 then vm_trap msg_output_overflow
        else sx_then (sx_modify (\<lambda>vm. vm\<lparr>v_output := v_output vm @ bytes @ [10]\<rparr>)) (pop_then 1 next_pc)) vm))"
      (is "holds (snd ((if ?full then _ else _) vm))")
    proof (cases ?full)
      case True
      then show ?thesis by (simp add: sx_keepsD [OF rest(2) I])
    next
      case False
      then have "holds vm'" by (intro fit) linarith
      from sx_keepsD [OF rest(1) this] False show ?thesis
        by (simp add: sx_then_def sx_bind_def sx_modify_def vm'_def)
    qed
  qed
  show ?thesis unfolding exec_print_def by (intro keeps writes)
qed

lemma keeps_push_frame: "sx_keeps holds (push_frame m k arguments closure)"
proof -
  have new: "holds (vm\<lparr>v_frames := v_frames vm @ [new_frame fn k arguments closure]\<rparr>)"
    if "holds vm" "length (v_frames vm) < v_max_call_depth vm" "k < length (m_functions m)" for vm fn
    using call_ok [OF that(1) [unfolded machine_holds_def]] that(2,3)
    by (simp add: machine_holds_def new_frame_def call_site_def)
  show ?thesis
  proof (rule sx_keepsI)
    fix vm assume I: "holds vm"
    show "holds (snd (push_frame m k arguments closure vm))"
    proof (cases closure)
      case None
      with new [OF I] I show ?thesis by (simp add: push_frame_def sx_defs Let_def)
    next
      case (Some c)
      let ?fn = "m_functions m ! k"
      let ?r = "check_closure ?fn k c vm"
      have "machine_holds (\<lambda>ss d b t. ss = map call_site (v_frames vm) \<and> d = v_max_call_depth vm) (snd ?r)"
        by (rule sx_keepsD [OF keeps_operands(15)]) (simp add: machine_holds_def)
      then have same: "length (v_frames (snd ?r)) = length (v_frames vm)" "v_max_call_depth (snd ?r) = v_max_call_depth vm"
        unfolding machine_holds_def by (metis length_map, simp)
      have I': "holds (snd ?r)" by (rule sx_keepsD [OF keeps_operands(15) I])
      show ?thesis
        using Some new [OF I'] I I' same
        by (cases ?r; cases "fst ?r") (simp_all add: push_frame_def sx_defs Let_def)
    qed
  qed
qed

lemma keeps_exec_call: "sx_keeps holds (exec_call m ins)"
  unfolding exec_call_def by (intro keeps keeps_push_frame)

lemma keeps_exec_call_closure: "sx_keeps holds (exec_call_closure m)"
  unfolding exec_call_closure_def by (intro keeps keeps_push_frame)

lemma keeps_new_top:
  assumes "k < length (m_functions m)"
  shows "sx_keeps holds (modify_top (\<lambda>_. new_frame fn k arguments closure))"
proof (rule sx_keepsI)
  fix vm assume "holds vm"
  with reuse_ok [OF _ assms] show "holds (snd (modify_top (\<lambda>_. new_frame fn k arguments closure) vm))"
    by (fastforce simp: modify_top_def sx_modify_def machine_holds_def map_update new_frame_def call_site_def
      butlast_list_update)
qed

lemma keeps_exec_tail_call: "sx_keeps holds (exec_tail_call m ins)"
proof -
  have "sx_keeps holds (reuse_frame_for_tail_call m k)" for k
  proof (cases "k < length (m_functions m)")
    case True
    show ?thesis unfolding reuse_frame_for_tail_call_def Let_def by (intro keeps keeps_new_top True)
  qed (simp add: reuse_frame_for_tail_call_def sx_keeps_def sx_defs)
  then show ?thesis unfolding exec_tail_call_def by (intro keeps)
qed

lemma keeps_count: "sx_keeps holds k \<Longrightarrow> sx_keeps holds (continue_after k)"
  unfolding continue_after_def by (intro keeps)

lemma keeps_exec_return: "sx_keeps holds exec_return"
  unfolding exec_return_def by (intro keeps keeps_return_frame)

lemma keeps_unwind: "sx_keeps holds (unwind m initial n)"
proof (induction n arbitrary: initial)
  case 0
  show ?case unfolding unwind.simps by (intro keeps)
next
  case (Suc n)
  show ?case unfolding unwind.simps Let_def by (intro keeps keeps_return_frame Suc.IH)
qed

lemma keeps_uncaught: "sx_keeps holds (uncaught_exception m trace)"
  unfolding uncaught_exception_def Let_def
  by (intro keeps sx_keepsI) (auto simp: sx_modify_def machine_holds_def intro: trace_ok)

lemma keeps_exec_throw: "sx_keeps holds (exec_throw m)"
  unfolding exec_throw_def by (intro keeps keeps_modify keeps_unwind keeps_uncaught; simp)

lemma keeps_exec_instruction: "sx_keeps holds (exec_instruction m V fn ins)"
  unfolding exec_instruction_def
  by (cases "i_op ins"; simp only: opcode.case;
      intro keeps_count keeps_exec_return keeps_exec_print keeps_exec_call keeps_exec_call_closure keeps_exec_tail_call
        keeps_exec_throw keeps_plain keeps_plain2 keeps_results)

lemma keeps_vm_step: "sx_keeps holds (vm_step m V)"
  unfolding vm_step_def by (intro keeps keeps_exec_instruction)

lemma reachable:
  assumes "vm_reaches m V vm vm'" "holds vm"
  shows "holds vm'"
  using assms
proof induction
  case (step vm vm1 vm2)
  with sx_keepsD [OF keeps_vm_step, of vm1 V] show ?case by simp
qed simp

end

subsection \<open>The limits of the machine, and the functions its frames name\<close>

definition limits_kept :: "nat \<Rightarrow> (nat \<times> nat) list \<Rightarrow> nat list \<Rightarrow> nat \<Rightarrow> nat \<Rightarrow> runtime_trace option \<Rightarrow> bool" where
  "limits_kept limit cs ks d b t \<longleftrightarrow> d = limit \<and> length ks \<le> d \<and> b \<le> kMaxOutputBytes"

definition functions_valid :: "nat \<Rightarrow> (nat \<times> nat) list \<Rightarrow> nat list \<Rightarrow> nat \<Rightarrow> nat \<Rightarrow> runtime_trace option \<Rightarrow> bool" where
  "functions_valid n cs ks d b t \<longleftrightarrow> (\<forall>k\<in>set ks. k < n)"

interpretation limits: control_invariant m "limits_kept limit" for m limit
  by unfold_locales (auto simp: limits_kept_def)

interpretation function_indices: control_invariant m "functions_valid (length (m_functions m))" for m
  by unfold_locales (auto simp: functions_valid_def dest: in_set_butlastD set_update_subset_insert [THEN subsetD])

end
