(* ===== verification/VM_Outcomes.thy ===== *)
theory VM_Outcomes
  imports VM_Control
begin

text \<open>
  What a run of the machine can come to: the limits every reachable state keeps, the handler a thrown
  exception runs, and the trace a failing instruction leaves.  The sample programs at the end of the
  first part serve the examples.
\<close>

subsection \<open>The start of a program\<close>

text \<open>\<open>execute\<close> up to the first turn of the loop.\<close>

definition execution_start :: "bytecode_module \<Rightarrow> vm \<Rightarrow> (exn + unit) \<times> vm" where
  "execution_start m vm = sx_then prepare_execution (push_frame m (m_entry_function m) [] None)
     (vm\<lparr>v_output := [], v_last_trap_trace := None\<rparr>)"

lemma execute_start:
  "execution_start m vm = (Inr (), vm1) \<Longrightarrow> execute m V vm = run_loop m V vm1"
  by (auto simp: execution_start_def execute_def execute_verified_def sx_then_def sx_bind_def
    split: prod.splits sum.splits)

lemma keeps_reset:
  assumes "\<And>d b. J' d b \<Longrightarrow> J [] d b None"
  shows "machine_holds (\<lambda>sites d b t. J' d b) vm \<Longrightarrow> machine_holds J (reset_execution vm)"
  using assms by (simp add: machine_holds_def reset_execution_def)

lemma prepared:
  assumes r: "prepare_execution vm = (Inr (), vm')"
  shows "v_frames vm' = [] \<and> v_last_trap_trace vm' = None \<and> v_pending_exception vm' = None \<and>
    v_max_call_depth vm' = v_max_call_depth vm \<and> length (v_output vm') = length (v_output vm)"
proof -
  define k where "k = sx_bind (sx_gets (\<lambda>vm. h_compaction_active (v_heap vm))) (\<lambda>compacting.
     sx_then (sx_when compacting (heap_call finish_incremental_compaction))
     (sx_bind (sx_gets (\<lambda>vm. h_marking_active (v_heap vm))) (\<lambda>marking.
     sx_when marking (heap_call finish_incremental_marking))))"
  have "sx_keeps (machine_holds (\<lambda>sites d b t. d = v_max_call_depth vm \<and> b = length (v_output vm))) k"
    unfolding k_def by (intro keeps)
  then have k: "machine_holds (\<lambda>sites d b t. d = v_max_call_depth vm \<and> b = length (v_output vm)) (snd (k vm))"
    by (rule sx_keepsD) (simp add: machine_holds_def)
  have "vm' = reset_execution (snd (k vm))"
    using r by (auto simp: k_def prepare_execution_def sx_defs split: prod.splits sum.splits if_splits)
  with k show ?thesis by (simp add: machine_holds_def reset_execution_def)
qed

lemma start_holds:
  assumes r: "execution_start m vm = (Inr (), vm1)" and J: "control_invariant m J"
    and init: "J [] [] (v_max_call_depth vm) 0 None"
  shows "control_holds J vm1"
proof -
  obtain vm0 where p: "prepare_execution (vm\<lparr>v_output := [], v_last_trap_trace := None\<rparr>) = (Inr (), vm0)"
    and push: "push_frame m (m_entry_function m) [] None vm0 = (Inr (), vm1)"
    using r by (auto simp: execution_start_def sx_then_def sx_bind_def split: prod.splits sum.splits)
  have "control_holds J vm0" using prepared [OF p] init by (simp add: machine_holds_def)
  with sx_keepsD [OF control_invariant.keeps_push_frame [OF J], of vm0 "m_entry_function m" "[]" None] push
  show ?thesis by simp
qed

text \<open>
  C34. The machine stays within its limits: whatever the module, the stack maps and the heap, every state
  a program reaches from its start has at most \<open>max_call_depth\<close> frames and at most
  \<open>kMaxOutputBytes\<close> bytes of output, and each of its frames runs a function of the module.
\<close>

theorem reachable_states_stay_within_limits:
  assumes start: "execution_start m vm = (Inr (), vm1)" and reach: "vm_reaches m V vm1 vm2"
  shows "length (v_frames vm2) \<le> v_max_call_depth vm2 \<and> v_max_call_depth vm2 = v_max_call_depth vm \<and>
    length (v_output vm2) \<le> kMaxOutputBytes \<and>
    (\<forall>f\<in>set (v_frames vm2). f_function_index f < length (m_functions m))"
proof -
  note limits = limits.reachable [OF reach start_holds [OF start limits.control_invariant_axioms]]
  note valid = function_indices.reachable [OF reach start_holds [OF start function_indices.control_invariant_axioms]]
  have "limits_kept (v_max_call_depth vm) [] [] (v_max_call_depth vm) 0 None"
    "functions_valid (length (m_functions m)) [] [] (v_max_call_depth vm) 0 None"
    by (simp_all add: limits_kept_def functions_valid_def)
  from limits [OF this(1)] valid [OF this(2)] show ?thesis
    by (auto simp: machine_holds_def limits_kept_def functions_valid_def call_site_def)
qed

definition plain_signature :: function_signature where
  "plain_signature = \<lparr>fs_parameters = [], fs_return_type = VK_Int64, fs_parameter_types = [], fs_return_type_detail = None\<rparr>"

definition demo_function :: "string \<Rightarrow> instruction list \<Rightarrow> exception_handler list \<Rightarrow> bytecode_function" where
  "demo_function name code handlers = \<lparr>fn_signature = plain_signature, fn_code = code, fn_stack_maps = [],
     fn_local_count = 0, fn_closure_layout = None, fn_exception_handlers = handlers, fn_debug_name = name,
     fn_source_positions = []\<rparr>"

definition demo_instruction :: "opcode \<Rightarrow> i64 \<Rightarrow> instruction" where
  "demo_instruction op n = \<lparr>i_op = op, i_operand = n, i_operand2 = 0, i_operand3 = 0\<rparr>"

definition demo_module :: "bytecode_function list \<Rightarrow> bytecode_module" where
  "demo_module fns = \<lparr>m_functions = fns, m_entry_function = 0, m_named_types = [], m_string_constants = [],
     m_closure_layouts = [], m_map_layouts = [], m_record_layouts = [], m_variant_layouts = [],
     m_ephemeron_layouts = []\<rparr>"

definition demo_map :: "bool list \<Rightarrow> stack_map" where
  "demo_map slots = \<lparr>sm_object_slots = slots, sm_local_object_slots = []\<rparr>"

text \<open>A program that calls a function that negates the least integer.\<close>

definition demo_calls :: bytecode_module where
  "demo_calls = demo_module
     [demo_function ''main'' [demo_instruction Op_Call 1, demo_instruction Op_Return 0] [],
      demo_function ''abs'' [demo_instruction Op_ConstantI64 int64_min, demo_instruction Op_I64Abs 0, demo_instruction Op_Return 0] []]"

definition demo_calls_maps :: module_verification where
  "demo_calls_maps = [[demo_map [], demo_map [False]], [demo_map [], demo_map [False], demo_map [False]]]"

definition demo_frame :: "nat \<Rightarrow> nat \<Rightarrow> val list \<Rightarrow> frame" where
  "demo_frame k pc stack = \<lparr>f_function_index = k, f_pc = pc, f_stack = stack, f_locals = [], f_closure = None\<rparr>"

definition running :: "frame list \<Rightarrow> nat \<Rightarrow> vm" where
  "running frames n = initial_vm\<lparr>v_frames := frames, v_instructions_executed := of_nat n\<rparr>"

lemmas demo_defs = demo_module_def demo_function_def demo_instruction_def demo_map_def plain_signature_def demo_frame_def
  running_def initial_vm_def default_stress_def empty_heap_def

lemmas step_defs = sx_defs vm_step_def exec_instruction_def continue_after_def count_instruction_def drop_dying_slots_def
  assert_stack_matches_map_def stack_matches_map_def collect_at_instruction_boundary_def collect_at_interval_def interval_due_def
  current_instruction_def modify_top_def top_frame_def push_frame_def new_frame_def table_entry_def in_table_def
  next_pc_def push_next_def vm_push_def vm_pop_def slot_matches_def Let_def

lemma demo_calls_run:
  "execution_start demo_calls initial_vm = (Inr (), running [demo_frame 0 0 []] 0)"
  by (simp add: execution_start_def prepare_execution_def reset_execution_def demo_calls_def demo_defs step_defs)

lemma demo_calls_run1:
  "vm_step demo_calls demo_calls_maps (running [demo_frame 0 0 []] 0) =
    (Inr None, running [demo_frame 0 1 [], demo_frame 1 0 []] 1)"
  by (simp add: demo_calls_def demo_calls_maps_def exec_call_def demo_defs step_defs)
lemma demo_calls_run2:
  "vm_step demo_calls demo_calls_maps (running [demo_frame 0 1 [], demo_frame 1 0 []] 1) =
    (Inr None, running [demo_frame 0 1 [], demo_frame 1 1 [VInt64 int64_min]] 2)"
  by (simp add: demo_calls_def demo_calls_maps_def exec_constant_i64_def demo_defs step_defs)
lemma demo_calls_run3:
  "fst (vm_step demo_calls demo_calls_maps (running [demo_frame 0 1 [], demo_frame 1 1 [VInt64 int64_min]] 2)) =
    Inl (Runtime_trap 1 1 msg_abs_overflow)"
  by (simp add: demo_calls_def demo_calls_maps_def exec_i64_abs_def i64_operand_def vm_trap_def demo_defs step_defs)

lemma reachable_states_stay_within_limits_witness:
  "length (v_frames (running [demo_frame 0 1 [], demo_frame 1 0 []] 1)) \<le> 1024"
proof -
  have "v_frames (running [demo_frame 0 0 []] 0) \<noteq> []" by (simp add: demo_defs)
  from vm_reaches.step [OF vm_reaches.start this demo_calls_run1]
  have "vm_reaches demo_calls demo_calls_maps (running [demo_frame 0 0 []] 0) (running [demo_frame 0 1 [], demo_frame 1 0 []] 1)" .
  from reachable_states_stay_within_limits [OF demo_calls_run this] show ?thesis by (simp add: initial_vm_def)
qed

subsection \<open>Exceptions\<close>

lemma select_handler_none:
  "select_handler site layout best hs = None \<longleftrightarrow> best = None \<and> filter (handler_applies site layout) hs = []"
  by (induction hs arbitrary: best) auto

lemma select_handler_some:
  "select_handler site layout best hs = Some h \<Longrightarrow>
    (best = Some h \<or> h \<in> set (filter (handler_applies site layout) hs)) \<and>
    (\<forall>h'\<in>set (filter (handler_applies site layout) hs). eh_try_begin h' \<le> eh_try_begin h) \<and>
    (\<forall>b. best = Some b \<longrightarrow> eh_try_begin b \<le> eh_try_begin h)"
proof (induction hs arbitrary: best)
  case (Cons handler hs)
  let ?next = "if handler_applies site layout handler \<and>
        (case best of None \<Rightarrow> True | Some b \<Rightarrow> eh_try_begin handler > eh_try_begin b) then Some handler else best"
  from Cons.prems have "select_handler site layout ?next hs = Some h" by simp
  from Cons.IH [OF this] show ?case by (auto split: if_splits option.splits)
qed simp

text \<open>
  The handlers of frame \<open>k\<close> (counted from the outermost) that take an exception of the layout: at the
  throwing instruction in the running frame, at the call, one before the return address, in the others.
\<close>

definition handlers_for :: "bytecode_module \<Rightarrow> frame list \<Rightarrow> bool \<Rightarrow> nat \<Rightarrow> nat \<Rightarrow> exception_handler list" where
  "handlers_for m fs initial layout k = filter
     (handler_applies (if initial \<and> Suc k = length fs then f_pc (fs ! k) else f_pc (fs ! k) - 1) layout)
     (fn_exception_handlers (m_functions m ! f_function_index (fs ! k)))"

definition caught_by :: "bytecode_module \<Rightarrow> frame list \<Rightarrow> bool \<Rightarrow> nat \<Rightarrow> nat \<Rightarrow> exception_handler \<Rightarrow> bool" where
  "caught_by m fs initial layout k h \<longleftrightarrow> k < length fs \<and> h \<in> set (handlers_for m fs initial layout k) \<and>
     (\<forall>h'\<in>set (handlers_for m fs initial layout k). eh_try_begin h' \<le> eh_try_begin h) \<and>
     (\<forall>j<length fs. k < j \<longrightarrow> handlers_for m fs initial layout j = [])"

definition enters_handler :: "vm \<Rightarrow> val \<Rightarrow> nat \<Rightarrow> exception_handler \<Rightarrow> vm" where
  "enters_handler vm e k h = vm\<lparr>v_frames := take k (v_frames vm) @
     [(v_frames vm ! k)\<lparr>f_stack := [e], f_pc := eh_target h\<rparr>], v_pending_exception := None\<rparr>"

lemma handlers_for_below:
  "k < length fs \<Longrightarrow> handlers_for m (fs @ [f]) initial layout k = handlers_for m fs False layout k"
  by (simp add: handlers_for_def nth_append)

lemma unwind_spec:
  assumes "length (v_frames vm) = n" "v_pending_exception vm = Some (VObject i)"
    and "variant_layout_index i (v_heap vm) = Inr layout" "collect_every_n_instructions (v_gc_stress vm) \<noteq> 1"
  shows "(\<exists>k h. caught_by m (v_frames vm) initial layout k h \<and>
      unwind m initial n vm = (Inr True, enters_handler vm (VObject i) k h)) \<or>
    ((\<forall>k<n. handlers_for m (v_frames vm) initial layout k = []) \<and> unwind m initial n vm = (Inr False, vm\<lparr>v_frames := []\<rparr>))"
  using assms
proof (induction n arbitrary: vm initial)
  case (Suc n)
  then obtain fs f where fs: "v_frames vm = fs @ [f]" "length fs = n"
    by (metis length_Suc_conv_rev)
  let ?site = "if initial then f_pc f else f_pc f - 1"
  let ?hs = "fn_exception_handlers (m_functions m ! f_function_index f)"
  have here: "handlers_for m (v_frames vm) initial layout n = filter (handler_applies ?site layout) ?hs"
    by (simp add: handlers_for_def fs nth_append)
  have layout: "pending_layout vm = (Inr layout, vm)"
    using Suc.prems by (simp add: pending_layout_def heap_read_def sx_defs)
  show ?case
  proof (cases "select_handler ?site layout None ?hs")
    case None
    then have none: "handlers_for m (v_frames vm) initial layout n = []"
      using here by (simp add: select_handler_none)
    have u: "unwind m initial (Suc n) vm = unwind m False n (vm\<lparr>v_frames := fs\<rparr>)"
      using layout None Suc.prems(4) fs by (cases initial) (simp_all add: sx_defs Let_def top_frame_def)
    have below: "handlers_for m (v_frames vm) initial layout k = handlers_for m fs False layout k" if "k < n" for k
      using that fs by (simp add: handlers_for_below)
    from Suc.IH [of "vm\<lparr>v_frames := fs\<rparr>" False] Suc.prems fs(2)
    consider k h where "caught_by m fs False layout k h"
        "unwind m False n (vm\<lparr>v_frames := fs\<rparr>) = (Inr True, enters_handler (vm\<lparr>v_frames := fs\<rparr>) (VObject i) k h)"
      | "\<forall>k<n. handlers_for m fs False layout k = []" "unwind m False n (vm\<lparr>v_frames := fs\<rparr>) = (Inr False, vm\<lparr>v_frames := []\<rparr>)"
      by auto
    then show ?thesis
    proof cases
      case 1
      then have "k < n" using fs by (simp add: caught_by_def)
      have "caught_by m (v_frames vm) initial layout k h"
        unfolding caught_by_def
      proof (intro conjI allI impI)
        fix j assume "j < length (v_frames vm)" "k < j"
        then show "handlers_for m (v_frames vm) initial layout j = []"
          using 1(1) none below fs by (cases "j = n") (auto simp: caught_by_def)
      qed (use 1(1) below [OF \<open>k < n\<close>] \<open>k < n\<close> fs in \<open>auto simp: caught_by_def\<close>)
      moreover have "enters_handler (vm\<lparr>v_frames := fs\<rparr>) (VObject i) k h = enters_handler vm (VObject i) k h"
        using \<open>k < n\<close> fs by (simp add: enters_handler_def nth_append)
      ultimately show ?thesis using u 1(2) by metis
    next
      case 2
      with u none below show ?thesis by (auto simp: less_Suc_eq)
    qed
  next
    case (Some h)
    note spec = select_handler_some [OF Some]
    have "caught_by m (v_frames vm) initial layout n h"
      using spec here fs by (auto simp: caught_by_def)
    moreover have "unwind m initial (Suc n) vm = (Inr True, enters_handler vm (VObject i) n h)"
      using layout Some Suc.prems(2) fs
      by (cases initial) (simp_all add: sx_defs Let_def top_frame_def enter_handler_def modify_top_def enters_handler_def nth_append list_update_append)
    ultimately show ?thesis by blast
  qed
qed (simp add: sx_return_def)

definition variant_name :: "bytecode_module \<Rightarrow> nat \<Rightarrow> string" where
  "variant_name m layout = (if layout < length (m_variant_layouts m) then vl_name (m_variant_layouts m ! layout)
     else invalid_variant_name)"

text \<open>
  C35. A thrown exception runs the innermost handler for it.  The frames are searched from the running
  one outwards, and in each the applicable handler whose region begins last is chosen; the frames above
  it are dropped, the exception becomes the only operand of the frame and the counter the handler's
  target.  Only when no frame has a handler does the program end, with \<open>UncaughtException\<close> and the trace
  taken at the throw.
\<close>

theorem throw_runs_the_innermost_handler:
  assumes frames: "v_frames vm = fs @ [f]" and stack: "f_stack f = s @ [VObject i]"
    and index: "variant_layout_index i (v_heap vm) = Inr layout"
    and quiet: "collect_every_n_instructions (v_gc_stress vm) \<noteq> 1"
  shows "(\<exists>k h. caught_by m (v_frames vm) True layout k h \<and>
      exec_throw m vm = (Inr (), enters_handler (vm\<lparr>v_frames := fs @ [f\<lparr>f_stack := s\<rparr>]\<rparr>) (VObject i) k h)) \<or>
    ((\<forall>k<length (v_frames vm). handlers_for m (v_frames vm) True layout k = []) \<and>
      exec_throw m vm = (Inl (Uncaught_exception (variant_name m layout)), vm\<lparr>v_frames := [], v_pending_exception := None,
        v_last_trap_trace := Some (capture_runtime_trace m (f_function_index f) (f_pc f) Failure_Uncaught_Exception vm
          \<lparr>rt_exception_variant := Some (variant_name m layout)\<rparr>)\<rparr>))"
proof -
  let ?fs = "fs @ [f\<lparr>f_stack := s\<rparr>]"
  define trace where "trace = capture_runtime_trace m (f_function_index f) (f_pc f) Failure_Uncaught_Exception vm"
  define vm1 where "vm1 = vm\<lparr>v_frames := ?fs, v_pending_exception := Some (VObject i)\<rparr>"
  have kind: "is_kind Variant i (v_heap vm) = Inr True"
    using index by (auto simp: variant_layout_index_def checked_variant_def checked_kind_def is_kind_def heap_object_def
      ebind_def ethen_def ethrow_if_def Let_def split: sum.splits if_splits)
  have trace: "capture_runtime_trace m (f_function_index f) (f_pc f) Failure_Uncaught_Exception vm1 = trace"
    using frames by (simp add: capture_runtime_trace_def trace_def vm1_def)
  have u: "exec_throw m vm = sx_bind (unwind m True (length (v_frames vm1)))
      (\<lambda>handled. if handled then sx_return () else uncaught_exception m trace) vm1"
    unfolding vm1_def using frames stack kind trace [unfolded vm1_def]
    by (simp del: unwind.simps add: exec_throw_def vm_pop_def sx_defs modify_top_def top_frame_def receiver_of_kind_def object_operand_def
      assert_kind_def is_kind_def heap_read_def list_update_append split: prod.split sum.split)
  have same: "handlers_for m (v_frames vm) True layout k = handlers_for m ?fs True layout k" if "k < length (v_frames vm)" for k
    using that frames by (auto simp: handlers_for_def nth_append)
  from unwind_spec [of vm1 "length ?fs" i layout m True] index quiet
  consider k h where "caught_by m ?fs True layout k h"
      "unwind m True (length ?fs) vm1 = (Inr True, enters_handler vm1 (VObject i) k h)"
    | "\<forall>k<length ?fs. handlers_for m ?fs True layout k = []" "unwind m True (length ?fs) vm1 = (Inr False, vm1\<lparr>v_frames := []\<rparr>)"
    by (auto simp: vm1_def)
  then show ?thesis
  proof cases
    case 1
    have "caught_by m (v_frames vm) True layout k h"
      using 1(1) same frames by (auto simp: caught_by_def)
    moreover have "exec_throw m vm = (Inr (), enters_handler (vm\<lparr>v_frames := ?fs\<rparr>) (VObject i) k h)"
      using 1(2) by (simp add: u sx_defs vm1_def enters_handler_def)
    ultimately show ?thesis by blast
  next
    case 2
    have "uncaught_exception m trace (vm1\<lparr>v_frames := []\<rparr>) = (Inl (Uncaught_exception (variant_name m layout)),
        vm\<lparr>v_frames := [], v_pending_exception := None,
        v_last_trap_trace := Some (trace\<lparr>rt_exception_variant := Some (variant_name m layout)\<rparr>)\<rparr>)"
      using index by (simp add: uncaught_exception_def pending_layout_def heap_read_def sx_defs vm1_def variant_name_def Let_def)
    with 2(2) have "exec_throw m vm = (Inl (Uncaught_exception (variant_name m layout)),
        vm\<lparr>v_frames := [], v_pending_exception := None,
        v_last_trap_trace := Some (trace\<lparr>rt_exception_variant := Some (variant_name m layout)\<rparr>)\<rparr>)"
      by (simp add: u sx_bind_def vm1_def)
    moreover have "\<forall>k<length (v_frames vm). handlers_for m (v_frames vm) True layout k = []"
      using 2(1) same frames by simp
    ultimately show ?thesis by (simp add: trace_def)
  qed
qed

definition demo_throws :: bytecode_module where
  "demo_throws = demo_module
     [demo_function ''main'' [demo_instruction Op_TryBegin 0, demo_instruction Op_Call 1, demo_instruction Op_TryEnd 0,
        demo_instruction Op_Return 0]
        [\<lparr>eh_try_begin = 0, eh_try_end = 2, eh_target = 3, eh_variant_layout = 0\<rparr>],
      demo_function ''raise'' [demo_instruction Op_Throw 0] []]"

definition demo_exception_heap :: gcheap where
  "demo_exception_heap = empty_heap\<lparr>h_objects := [Some (default_object\<lparr>o_kind := Variant, o_length := 0, o_variant_case_ref_maps := [[]]\<rparr>)], h_generations := [1]\<rparr>"

lemma demo_exception_layout: "variant_layout_index (object_id_at 0 1) demo_exception_heap = Inr 0"
  by code_simp

lemma throw_runs_the_innermost_handler_witness:
  "fst (exec_throw demo_throws ((running [demo_frame 0 2 [], demo_frame 1 0 [VObject (object_id_at 0 1)]] 2)
     \<lparr>v_heap := demo_exception_heap\<rparr>)) = Inr ()"
proof -
  let ?vm = "(running [demo_frame 0 2 [], demo_frame 1 0 [VObject (object_id_at 0 1)]] 2)\<lparr>v_heap := demo_exception_heap\<rparr>"
  have fs: "v_frames ?vm = [demo_frame 0 2 []] @ [demo_frame 1 0 [VObject (object_id_at 0 1)]]"
    "f_stack (demo_frame 1 0 [VObject (object_id_at 0 1)]) = [] @ [VObject (object_id_at 0 1)]"
    "variant_layout_index (object_id_at 0 1) (v_heap ?vm) = Inr 0"
    "collect_every_n_instructions (v_gc_stress ?vm) \<noteq> 1"
    by (simp_all add: running_def demo_frame_def demo_exception_layout [simplified] initial_vm_def default_stress_def)
  have "handlers_for demo_throws (v_frames ?vm) True 0 0 \<noteq> []"
    by (simp add: handlers_for_def handler_applies_def running_def demo_frame_def demo_throws_def demo_module_def demo_function_def)
  moreover have "0 < length (v_frames ?vm)" by (simp add: running_def)
  ultimately show ?thesis
    using throw_runs_the_innermost_handler [OF fs, of demo_throws] by fastforce
qed

subsection \<open>Failures\<close>

text \<open>What still holds when an operation fails, though it need not when it succeeds.\<close>

definition sx_fails_keeping :: "('s \<Rightarrow> bool) \<Rightarrow> ('s, 'a) sx \<Rightarrow> bool" where
  "sx_fails_keeping I k \<longleftrightarrow> (\<forall>s e s'. I s \<longrightarrow> k s = (Inl e, s') \<longrightarrow> I s')"

definition sx_total :: "('s, 'a) sx \<Rightarrow> bool" where
  "sx_total k \<longleftrightarrow> (\<forall>s. \<exists>x s'. k s = (Inr x, s'))"

named_theorems failing \<open>operations that keep a control invariant when they fail\<close>

lemma total_ops [failing]:
  "sx_total (sx_return x)" "sx_total (sx_gets f)" "sx_total (sx_modify g)" "sx_total (modify_top h)" "sx_total (vm_push v)"
  "sx_total count_instruction"
  by (simp_all add: sx_total_def vm_push_def modify_top_def count_instruction_def sx_defs)

lemma total_bind [failing]: "sx_total k \<Longrightarrow> (\<And>x. sx_total (f x)) \<Longrightarrow> sx_total (sx_bind k f)"
  unfolding sx_total_def sx_bind_def
proof (intro allI)
  fix s assume "\<forall>s. \<exists>x s'. k s = (Inr x, s')" and f: "\<And>x. \<forall>s. \<exists>y s'. f x s = (Inr y, s')"
  then obtain x s' where "k s = (Inr x, s')" by blast
  with f show "\<exists>y s''. (case k s of (Inl e, s') \<Rightarrow> (Inl e, s') | (Inr x, s') \<Rightarrow> f x s') = (Inr y, s'')" by simp
qed

lemma total_then [failing]: "sx_total k \<Longrightarrow> sx_total n \<Longrightarrow> sx_total (sx_then k n)"
  unfolding sx_then_def by (intro total_bind)

lemma total_if [failing]: "sx_total k \<Longrightarrow> sx_total n \<Longrightarrow> sx_total (if b then k else n)"
  by simp

lemma fails_keeping_total: "sx_total k \<Longrightarrow> sx_fails_keeping I k"
  by (simp add: sx_total_def sx_fails_keeping_def) (metis Inl_Inr_False prod.inject)

lemma fails_keeping_keeps: "sx_keeps I k \<Longrightarrow> sx_fails_keeping I k"
  by (fastforce simp: sx_keeps_def sx_fails_keeping_def)

lemma fails_bind: "sx_keeps I k \<Longrightarrow> (\<And>x. sx_fails_keeping I (f x)) \<Longrightarrow> sx_fails_keeping I (sx_bind k f)"
  unfolding sx_fails_keeping_def sx_keeps_def sx_bind_def
  by (auto split: prod.splits sum.splits)

lemma fails_then: "sx_keeps I k \<Longrightarrow> sx_fails_keeping I n \<Longrightarrow> sx_fails_keeping I (sx_then k n)"
  unfolding sx_then_def by (rule fails_bind)

lemma fails_then_total:
  assumes "sx_fails_keeping I k" "sx_total n"
  shows "sx_fails_keeping I (sx_then k n)"
  unfolding sx_fails_keeping_def
proof (intro allI impI)
  fix s e s' assume "I s" "sx_then k n s = (Inl e, s')"
  moreover obtain r s1 where k: "k s = (r, s1)" by fastforce
  moreover obtain x s2 where "n s1 = (Inr x, s2)" using assms(2) unfolding sx_total_def by metis
  ultimately show "I s'" using assms(1) by (cases r) (auto simp: sx_fails_keeping_def sx_then_def sx_bind_def)
qed

text \<open>The frames above are not touched and nothing is recorded before an instruction fails.\<close>

definition same_callers :: "(nat \<times> nat) list \<Rightarrow> vm \<Rightarrow> bool" where
  "same_callers cs = control_holds (\<lambda>callers ks d b t. callers = cs \<and> t = None)"

lemma fails_push_frame: "sx_fails_keeping (same_callers cs) (push_frame m k arguments closure)"
  unfolding push_frame_def Let_def same_callers_def
  by (intro fails_bind fails_then keeps fails_keeping_total failing)

lemma fails_exec_print: "sx_fails_keeping (same_callers cs) exec_print"
proof -
  have "sx_keeps (same_callers cs) (sx_modify (\<lambda>vm. vm\<lparr>v_output := v_output vm @ bytes @ [10]\<rparr>))" for bytes
    by (rule sx_keepsI) (simp add: same_callers_def machine_holds_def sx_modify_def)
  then show ?thesis unfolding exec_print_def same_callers_def by (intro fails_keeping_keeps keeps)
qed

lemma fails_exec_return: "sx_fails_keeping (same_callers cs) exec_return"
  unfolding exec_return_def same_callers_def
  by (intro fails_bind fails_then keeps fails_keeping_total failing)

lemma fails_calls:
  "sx_fails_keeping (same_callers cs) (exec_call m ins)" "sx_fails_keeping (same_callers cs) (exec_call_closure m)"
  "sx_fails_keeping (same_callers cs) (exec_tail_call m ins)"
  unfolding exec_call_def exec_call_closure_def exec_tail_call_def reuse_frame_for_tail_call_def Let_def
  by (intro fails_bind fails_then fails_push_frame; unfold same_callers_def;
      intro keeps fails_bind fails_then fails_keeping_total failing)+

lemma fails_exec_instruction:
  assumes "i_op ins \<noteq> Op_Throw"
  shows "sx_fails_keeping (same_callers cs) (exec_instruction m V fn ins)"
proof -
  have count: "sx_fails_keeping (same_callers cs) (continue_after k)"
    if "sx_fails_keeping (same_callers cs) k" for k
    unfolding continue_after_def by (intro fails_then_total that failing)
  have plain: "sx_fails_keeping (same_callers cs) k" if "\<And>J. sx_keeps (control_holds J) k" for k :: "(vm, unit) sx"
    unfolding same_callers_def by (intro fails_keeping_keeps that)
  show ?thesis
    unfolding exec_instruction_def
    by (insert assms, (cases "i_op ins"; simp only: opcode.case;
        (rule fails_exec_return | (rule count, (rule fails_exec_print | rule fails_calls | (rule plain, intro keeps)))
          | blast)))
qed

lemma on_failure_records:
  assumes "v_last_trap_trace vm = None" "e \<noteq> Abort"
  obtains e' vm' where "on_failure m k pc e vm = (Inl e', vm')"
    "v_last_trap_trace vm' = Some (capture_runtime_trace m k pc Failure_Trap vm)"
    "\<not> h_marking_active (v_heap vm) \<Longrightarrow> \<not> h_compaction_active (v_heap vm) \<Longrightarrow> e' = e"
proof -
  define finish where "finish = sx_bind (sx_gets (\<lambda>vm. h_marking_active (v_heap vm))) (\<lambda>marking.
       sx_then (sx_when marking (heap_call finish_incremental_marking))
       (sx_bind (sx_gets (\<lambda>vm. h_compaction_active (v_heap vm))) (\<lambda>compacting.
       sx_then (sx_when compacting (heap_call finish_incremental_compaction))
       (sx_throw e :: (vm, 'a) sx))))"
  let ?vm = "record_trap m k pc vm"
  have "sx_keeps (machine_holds (\<lambda>ss d b t. t = Some (capture_runtime_trace m k pc Failure_Trap vm))) finish"
    unfolding finish_def by (intro keeps)
  from sx_keepsD [OF this, of ?vm] assms(1)
  have t: "v_last_trap_trace (snd (finish ?vm)) = Some (capture_runtime_trace m k pc Failure_Trap vm)"
    by (simp add: machine_holds_def record_trap_def)
  have f: "on_failure m k pc e vm = finish ?vm"
    using assms(2) by (simp add: on_failure_def finish_def sx_then_def sx_bind_def sx_modify_def)
  have "\<exists>e'. fst (finish ?vm) = Inl e'"
    by (auto simp: finish_def sx_defs split: prod.splits sum.splits)
  then obtain e' where e: "fst (finish ?vm) = Inl e'" by blast
  have quiet: "e' = e" if "\<not> h_marking_active (v_heap vm)" "\<not> h_compaction_active (v_heap vm)"
    using e that by (auto simp: finish_def sx_defs record_trap_def split: if_splits)
  show ?thesis by (rule that [of e' "snd (finish ?vm)"]) (use e f t quiet in \<open>auto simp: prod_eq_iff\<close>)
qed

text \<open>
  C36. A failing instruction leaves a trap trace.  When the step of a frame stack fails, other than by an
  exception of the program, the loop ends with a failure and the machine holds a trace whose first frame
  is the failing instruction and whose others are the pending calls, innermost first, each at its call
  instruction; the failure is the instruction's own unless ending a collection cycle fails too.
\<close>

theorem failing_step_leaves_a_trap_trace:
  assumes fs: "v_frames vm = fs @ [f]" and t: "v_last_trap_trace vm = None"
    and step: "vm_step m V vm = (Inl e, vm1)" and e: "e \<noteq> Abort"
    and op: "i_op (fn_code (m_functions m ! f_function_index f) ! f_pc f) \<noteq> Op_Throw"
  shows "\<exists>e' vm2. run_loop m V vm = Some (Inl e', vm2) \<and>
    v_last_trap_trace vm2 = Some \<lparr>rt_kind = Failure_Trap, rt_exception_variant = None,
      rt_frames = captured_frame m (f_function_index f) (f_pc f) #
        map (\<lambda>g. captured_frame m (f_function_index g) (f_pc g - 1)) (rev fs)\<rparr> \<and>
    (h_marking_active (v_heap vm1) \<or> h_compaction_active (v_heap vm1) \<or> e' = e)"
proof -
  let ?cs = "map call_site fs" and ?fn = "m_functions m ! f_function_index f"
  define before where "before = sx_then (drop_dying_slots (fn_code ?fn ! f_pc f))
     (sx_then (assert_stack_matches_map V) (collect_at_instruction_boundary V))"
  have top: "top_frame vm = f" using fs by (simp add: top_frame_def)
  have "sx_keeps (machine_holds (\<lambda>ss d b t. ss = ?cs @ [call_site f] \<and> t = None)) before"
    unfolding before_def by (intro keeps)
  from sx_keepsD [OF this, of vm] have b: "map call_site (v_frames (snd (before vm))) = ?cs @ [call_site f]"
      "v_last_trap_trace (snd (before vm)) = None"
    using fs t by (simp_all add: machine_holds_def)
  have s: "vm_step m V vm = (case before vm of (Inl e, vm') \<Rightarrow> (Inl e, vm')
      | (Inr _, vm') \<Rightarrow> exec_instruction m V ?fn (fn_code ?fn ! f_pc (top_frame vm')) vm')"
    by (auto simp: vm_step_def before_def current_instruction_def top sx_then_def sx_bind_def sx_gets_def
      split: prod.splits sum.splits)
  have same: "same_callers ?cs vm1"
  proof (cases "before vm")
    case (Pair r vm')
    show ?thesis
    proof (cases r)
      case (Inl e')
      then show ?thesis using s step Pair b by (simp add: same_callers_def machine_holds_def)
    next
      case (Inr u)
      have "v_frames vm' \<noteq> [] \<and> call_site (top_frame vm') = call_site f"
        using b(1) Pair unfolding top_frame_def
        by (metis append_is_Nil_conv last_map last_snoc list.map_disc_iff not_Cons_self2 snd_conv)
      then have "f_pc (top_frame vm') = f_pc f" by (simp add: call_site_def)
      then have "exec_instruction m V ?fn (fn_code ?fn ! f_pc f) vm' = (Inl e, vm1)"
        using s step Pair Inr by simp
      moreover have "same_callers ?cs vm'" using b Pair by (simp add: same_callers_def machine_holds_def)
      ultimately show ?thesis using fails_exec_instruction [OF op] by (fastforce simp: sx_fails_keeping_def)
    qed
  qed
  then have none: "v_last_trap_trace vm1 = None" and sites: "map call_site (butlast (v_frames vm1)) = ?cs"
    by (simp_all add: same_callers_def machine_holds_def map_butlast)
  have site: "map (\<lambda>g. captured_frame m (f_function_index g) (f_pc g - 1)) gs =
      map (\<lambda>(k, pc). captured_frame m k (pc - 1)) (map call_site gs)" for gs
    by (simp add: call_site_def)
  have callers: "map (\<lambda>g. captured_frame m (f_function_index g) (f_pc g - 1)) (rev (butlast (v_frames vm1))) =
      map (\<lambda>g. captured_frame m (f_function_index g) (f_pc g - 1)) (rev fs)"
    unfolding site rev_map [symmetric] by (simp only: sites)
  obtain e' vm2 where o: "on_failure m (f_function_index f) (f_pc f) e vm1 = (Inl e' :: exn + val, vm2)"
    "v_last_trap_trace vm2 = Some (capture_runtime_trace m (f_function_index f) (f_pc f) Failure_Trap vm1)"
    "\<not> h_marking_active (v_heap vm1) \<Longrightarrow> \<not> h_compaction_active (v_heap vm1) \<Longrightarrow> e' = e"
    by (rule on_failure_records [OF none e, of m "f_function_index f" "f_pc f"]) blast
  have "run_loop m V vm = Some (Inl e', vm2)"
    using fs step o(1) by (subst run_loop.simps) (simp add: top)
  with o(2,3) callers show ?thesis by (auto simp: capture_runtime_trace_def)
qed

lemma failing_step_leaves_a_trap_trace_witness:
  "\<exists>e' vm2. run_loop demo_calls demo_calls_maps (running [demo_frame 0 1 [], demo_frame 1 1 [VInt64 int64_min]] 2) =
      Some (Inl e', vm2) \<and>
    v_last_trap_trace vm2 = Some \<lparr>rt_kind = Failure_Trap, rt_exception_variant = None,
      rt_frames = [\<lparr>tf_function_index = 1, tf_pc = 1, tf_function_name = Some ''abs'', tf_source_position = None\<rparr>,
        \<lparr>tf_function_index = 0, tf_pc = 0, tf_function_name = Some ''main'', tf_source_position = None\<rparr>]\<rparr>"
proof -
  let ?vm = "running [demo_frame 0 1 [], demo_frame 1 1 [VInt64 int64_min]] 2"
  have s: "vm_step demo_calls demo_calls_maps ?vm =
      (Inl (Runtime_trap 1 1 msg_abs_overflow), snd (vm_step demo_calls demo_calls_maps ?vm))"
    using demo_calls_run3 by (metis prod.collapse)
  have "v_frames ?vm = [demo_frame 0 1 []] @ [demo_frame 1 1 [VInt64 int64_min]]" "v_last_trap_trace ?vm = None"
    by (simp_all add: demo_defs)
  from failing_step_leaves_a_trap_trace [OF this s] show ?thesis
    by (auto simp: demo_frame_def demo_calls_def demo_module_def demo_function_def demo_instruction_def captured_frame_def)
qed

end
