(* ===== verification/VM_Termination.thy ===== *)
theory VM_Termination
  imports VM_Outcomes "HOL-Library.Multiset"
begin

text \<open>
  Termination.  A program whose jumps and handlers lead forward and whose calls go down a ranking of the
  functions always ends, whatever its heap: every instruction either moves the running frame forward or
  replaces it by frames of lower rank, so the multiset of the frames' ranks and remaining lengths
  decreases.
\<close>

subsection \<open>Instructions that move forward\<close>

abbreviation sites :: "vm \<Rightarrow> (nat \<times> nat) list" where "sites vm \<equiv> map call_site (v_frames vm)"

definition advances :: "nat \<Rightarrow> (vm, 'a) sx \<Rightarrow> bool" where
  "advances p k \<longleftrightarrow> (\<forall>vm r vm' S i. sites vm = S @ [(i, p)] \<longrightarrow> k vm = (Inr r, vm') \<longrightarrow>
     (\<exists>p'>p. sites vm' = S @ [(i, p')]))"

abbreviation stays :: "(vm, 'a) sx \<Rightarrow> bool" where
  "stays k \<equiv> \<forall>S. sx_keeps (machine_holds (\<lambda>ss d b t. ss = S)) k"

lemma staysD: "stays k \<Longrightarrow> k vm = (r, vm') \<Longrightarrow> sites vm' = sites vm"
  unfolding sx_keeps_def machine_holds_def by (metis snd_conv)

named_theorems advancing \<open>operations that move the running frame forward\<close>

lemma advances_bind [advancing]:
  assumes "stays k" "\<And>x. advances p (f x)"
  shows "advances p (sx_bind k f)"
  unfolding advances_def
proof (intro allI impI)
  fix vm r vm' S i assume vm: "sites vm = S @ [(i, p)]" and r: "sx_bind k f vm = (Inr r, vm')"
  then obtain x vm1 where k: "k vm = (Inr x, vm1)" and f: "f x vm1 = (Inr r, vm')"
    by (auto simp: sx_bind_def split: prod.splits sum.splits)
  from staysD [OF assms(1) k] vm have "sites vm1 = S @ [(i, p)]" by simp
  with assms(2) [of x] f show "\<exists>p'>p. sites vm' = S @ [(i, p')]" unfolding advances_def by blast
qed

lemma advances_then [advancing]: "stays k \<Longrightarrow> advances p n \<Longrightarrow> advances p (sx_then k n)"
  unfolding sx_then_def by (rule advances_bind)

lemma advances_throw [advancing]: "advances p (sx_throw e)"
  by (simp add: advances_def sx_throw_def)

lemma advances_trap [advancing]: "advances p (vm_trap d)"
  by (simp add: advances_def vm_trap_def sx_defs)

lemma advances_if [advancing]: "advances p k \<Longrightarrow> advances p n \<Longrightarrow> advances p (if b then k else n)"
  by simp

lemma advances_case_option [advancing]:
  "advances p k \<Longrightarrow> (\<And>x. advances p (f x)) \<Longrightarrow> advances p (case z of None \<Rightarrow> k | Some x \<Rightarrow> f x)"
  by (cases z) simp_all

lemma advances_case_sum [advancing]:
  "(\<And>x. advances p (f x)) \<Longrightarrow> (\<And>y. advances p (g y)) \<Longrightarrow> advances p (case z of Inl x \<Rightarrow> f x | Inr y \<Rightarrow> g y)"
  by (cases z) simp_all

lemma advances_move:
  assumes "\<And>f. f_function_index (g f) = f_function_index f" "\<And>f. f_pc f = p \<Longrightarrow> p < f_pc (g f)"
  shows "advances p (modify_top g)"
  unfolding advances_def
proof (intro allI impI)
  fix vm r vm' S i assume vm: "sites vm = S @ [(i, p)]" and r: "modify_top g vm = (Inr r, vm')"
  from vm obtain fs f where fs: "v_frames vm = fs @ [f]" "map call_site fs = S" "call_site f = (i, p)"
    by (auto simp: map_eq_append_conv)
  then have "v_frames vm' = fs @ [g f]"
    using r by (auto simp: modify_top_def sx_modify_def top_frame_def list_update_append)
  with fs assms(1) [of f] assms(2) [of f] show "\<exists>p'>p. sites vm' = S @ [(i, p')]" by (auto simp: call_site_def)
qed

lemma advances_next [advancing]:
  "advances p next_pc" "advances p (push_next v)" "advances p (push_object i)" "advances p (push_size n)"
proof -
  show n: "advances p next_pc" unfolding next_pc_def by (rule advances_move) simp_all
  have push: "stays (vm_push v)" for v by (intro allI keeps)
  show o: "advances p (push_next v)" for v unfolding push_next_def by (intro advancing push n)
  show "advances p (push_object i)" "advances p (push_size n)"
    unfolding push_object_def push_size_def by (intro advancing o allI keeps)+
qed

lemma advances_pop_then [advancing]: "advances p k \<Longrightarrow> advances p (pop_then n k)"
  unfolding pop_then_def by (intro advancing allI keeps)

lemma advances_jump: "p < unat (i_operand ins) \<Longrightarrow> advances p (jump_to fn ins)"
  unfolding jump_to_def by (intro advancing allI keeps advances_move) simp_all

lemma advances_jump_if_false: "p < unat (i_operand ins) \<Longrightarrow> advances p (exec_jump_if_false fn ins)"
  unfolding exec_jump_if_false_def by (intro advancing advances_jump allI keeps)

lemma advances_plain:
  "advances p (exec_constant_i64 ins)" "advances p exec_nil"
  "advances p exec_is_nil" "advances p exec_add_i64"
  "advances p exec_less_i64" "advances p exec_i64_abs"
  "advances p (exec_load_local ins)"
  "advances p (exec_push_str m ins)" "advances p exec_str_len"
  "advances p exec_str_eq" "advances p exec_str_concat"
  "advances p exec_str_intern" "advances p exec_str_sub"
  "advances p exec_str_lt" "advances p exec_str_index"
  "advances p exec_i64_to_str" "advances p exec_str_to_i64"
  "advances p exec_bool_to_str" "advances p exec_alloc_pair"
  "advances p (exec_get_field field)" "advances p (exec_set_field store)"
  "advances p (exec_alloc_record m ins)" "advances p (exec_record_get m ins)"
  "advances p (exec_record_set m ins)" "advances p (exec_alloc_variant m ins)"
  "advances p (exec_variant_tag m)" "advances p (exec_variant_get m ins)"
  unfolding plain_instructions by (intro advancing allI keeps)+

lemma advances_plain2:
  "advances p exec_alloc_array" "advances p exec_array_get"
  "advances p exec_array_set" "advances p exec_array_len"
  "advances p exec_alloc_ref_array" "advances p exec_ref_array_get"
  "advances p exec_ref_array_set" "advances p (exec_alloc_map m ins)"
  "advances p exec_map_set" "advances p exec_map_get"
  "advances p exec_map_has" "advances p exec_map_len"
  "advances p (exec_map_at entry)" "advances p exec_alloc_weak"
  "advances p exec_weak_get" "advances p (exec_alloc_ephemeron m ins)"
  "advances p exec_ephemeron_key" "advances p exec_ephemeron_value"
  "advances p exec_ephemeron_set_value" "advances p exec_alloc_builder"
  "advances p exec_builder_append" "advances p exec_builder_len"
  "advances p exec_builder_to_str" "advances p exec_builder_clear"
  "advances p (exec_collect V)" "advances p (exec_alloc_closure m ins)"
  "advances p (exec_load_capture ins)" "advances p (exec_store_local ins)"
  unfolding plain_instructions by (intro advancing allI keeps keeps_modify_top; simp add: call_site_def)+

lemma advances_print: "advances p exec_print"
proof -
  have "stays (sx_modify (\<lambda>vm. vm\<lparr>v_output := v_output vm @ bytes @ [10]\<rparr>))" for bytes
    by (intro allI sx_keepsI) (simp add: machine_holds_def sx_modify_def)
  then show ?thesis unfolding exec_print_def by (intro advancing allI keeps) (blast dest: spec)
qed

subsection \<open>The order\<close>

text \<open>The rank of a frame's function and the number of stack maps still ahead of its counter.\<close>

definition frame_weight :: "(nat \<Rightarrow> nat) \<Rightarrow> module_verification \<Rightarrow> nat \<times> nat \<Rightarrow> nat \<times> nat" where
  "frame_weight rank V = (\<lambda>(k, p). (rank k, length (V ! k) - p))"

definition weight_order :: "((nat \<times> nat) \<times> nat \<times> nat) set" where
  "weight_order = less_than <*lex*> less_than"

definition lighter :: "(nat \<Rightarrow> nat) \<Rightarrow> module_verification \<Rightarrow> ((nat \<times> nat) list \<times> (nat \<times> nat) list) set" where
  "lighter rank V = inv_image (mult weight_order) (\<lambda>S. mset (map (frame_weight rank V) S))"

lemma wf_lighter: "wf (lighter rank V)"
  unfolding lighter_def weight_order_def by (intro wf_inv_image wf_mult wf_lex_prod wf_less_than)

lemma lighter_tail:
  assumes "J \<noteq> []" "\<And>x. x \<in> set K \<Longrightarrow> \<exists>y\<in>set J. (frame_weight rank V x, frame_weight rank V y) \<in> weight_order"
  shows "(S @ K, S @ J) \<in> lighter rank V"
  using assms one_step_implies_mult [of "mset (map (frame_weight rank V) J)" "mset (map (frame_weight rank V) K)"
      weight_order "mset (map (frame_weight rank V) S)"]
  by (simp add: lighter_def)

lemma weight_forward: "p < p' \<Longrightarrow> p < length (V ! i) \<Longrightarrow>
    (frame_weight rank V (i, p'), frame_weight rank V (i, p)) \<in> weight_order"
  by (simp add: frame_weight_def weight_order_def)

lemma weight_rank: "rank j < rank i \<Longrightarrow> (frame_weight rank V (j, q), frame_weight rank V (i, p)) \<in> weight_order"
  by (simp add: frame_weight_def weight_order_def)

lemma lighter_forward: "p < p' \<Longrightarrow> p < length (V ! i) \<Longrightarrow> (S @ [(i, p')], S @ [(i, p)]) \<in> lighter rank V"
  by (rule lighter_tail) (simp_all add: weight_forward)

lemma lighter_call: "p < p' \<Longrightarrow> p < length (V ! i) \<Longrightarrow> rank j < rank i \<Longrightarrow>
    (S @ [(i, p'), (j, 0)], S @ [(i, p)]) \<in> lighter rank V"
  by (rule lighter_tail) (auto simp: weight_forward weight_rank)

lemma lighter_tail_call: "rank j < rank i \<Longrightarrow> (S @ [(j, 0)], S @ [(i, p)]) \<in> lighter rank V"
  by (rule lighter_tail) (simp_all add: weight_rank)

lemma lighter_return: "(S, S @ [x]) \<in> lighter rank V"
  using lighter_tail [of "[x]" "[]" rank V S] by simp

lemma lighter_throw:
  assumes j: "j < length S" "S ! j = (k, p)" and q: "p \<le> q"
    and top: "Suc j = length S \<Longrightarrow> p < q \<and> p < length (V ! k)"
  shows "(take j S @ [(k, q)], S) \<in> lighter rank V"
proof (cases "Suc j = length S")
  case True
  then have "S = take j S @ [(k, p)]" using j by (metis take_Suc_conv_app_nth take_all_iff order_refl)
  with lighter_forward [of p q V k "take j S" rank] top [OF True] show ?thesis by metis
next
  case False
  have S: "S = take j S @ (k, p) # drop (Suc j) S" using j by (metis id_take_nth_drop)
  have rest: "drop (Suc j) S \<noteq> []" using False j(1) by simp
  show ?thesis
  proof (cases "p < q \<and> p < length (V ! k)")
    case True
    then have "(take j S @ [(k, q)], take j S @ (k, p) # drop (Suc j) S) \<in> lighter rank V"
      by (intro lighter_tail) (auto simp: weight_forward)
    with S show ?thesis by simp
  next
    case f: False
    then have "frame_weight rank V (k, q) = frame_weight rank V (k, p)" using q by (auto simp: frame_weight_def)
    moreover have "((take j S @ [(k, p)]) @ [], (take j S @ [(k, p)]) @ drop (Suc j) S) \<in> lighter rank V"
      by (rule lighter_tail [OF rest]) simp
    ultimately show ?thesis using S by (simp add: lighter_def)
  qed
qed

subsection \<open>Calls, returns and exceptions\<close>

lemma sx_bind_assoc: "sx_bind (sx_bind k f) g = sx_bind k (\<lambda>x. sx_bind (f x) g)"
  by (rule ext) (auto simp: sx_bind_def split: prod.splits sum.splits)

lemma sx_bind_InrE:
  assumes "sx_bind k f s = (Inr y, s')"
  obtains x s1 where "k s = (Inr x, s1)" "f x s1 = (Inr y, s')"
  using assms by (auto simp: sx_bind_def split: prod.splits sum.splits)

lemma push_frame_sites:
  assumes "push_frame m k arguments closure vm = (Inr (), vm')"
  shows "sites vm' = sites vm @ [(k, 0)]"
proof (cases closure)
  case None
  with assms show ?thesis
    by (auto simp: push_frame_def sx_defs Let_def new_frame_def call_site_def split: if_splits)
next
  case (Some c)
  have "stays (check_closure (m_functions m ! k) k c)" by (intro allI keeps)
  note same = staysD [OF this]
  from Some assms show ?thesis
    by (auto simp: push_frame_def sx_defs Let_def new_frame_def call_site_def dest!: same split: if_splits prod.splits sum.splits)
qed

lemma exec_call_sites:
  assumes r: "exec_call m ins vm = (Inr (), vm')" and vm: "sites vm = S @ [(i, p)]"
  shows "\<exists>p'>p. sites vm' = S @ [(i, p'), (unat (i_operand ins), 0)]"
proof -
  have "stays (sx_bind (table_entry (m_functions m) (i_operand ins)) (\<lambda>function.
      pop_arguments (length (fs_parameters (fn_signature function)))))" (is "stays ?before")
    by (intro allI keeps)
  note same = staysD [OF this]
  obtain arguments vm1 vm2 where b: "?before vm = (Inr arguments, vm1)" and n: "next_pc vm1 = (Inr (), vm2)"
    and p: "push_frame m (unat (i_operand ins)) arguments None vm2 = (Inr (), vm')"
    using r by (auto simp: exec_call_def sx_then_def sx_bind_def split: prod.splits sum.splits)
  from same [OF b] vm advances_next(1) [of p] n obtain p' where "p' > p" "sites vm2 = S @ [(i, p')]"
    unfolding advances_def by metis
  with push_frame_sites [OF p] show ?thesis by auto
qed

lemma exec_tail_call_sites:
  assumes r: "exec_tail_call m ins vm = (Inr (), vm')" and vm: "sites vm = S @ [x]"
  shows "sites vm' = S @ [(unat (i_operand ins), 0)]"
proof -
  let ?k = "unat (i_operand ins)"
  have "stays (pop_arguments n)" for n by (intro allI keeps)
  note same = staysD [OF this]
  obtain n arguments vm1 where b: "pop_arguments n vm = (Inr arguments, vm1)"
    and t: "modify_top (\<lambda>_. new_frame (m_functions m ! ?k) ?k arguments None) vm1 = (Inr (), vm')"
    using r by (auto simp: exec_tail_call_def reuse_frame_for_tail_call_def sx_defs Let_def modify_top_def
      split: prod.splits sum.splits if_splits)
  from same [OF b] vm have "map call_site (v_frames vm1) = S @ [x]" by simp
  then obtain fs f where "v_frames vm1 = fs @ [f]" "map call_site fs = S" by (auto simp: map_eq_append_conv)
  with t show ?thesis by (auto simp: modify_top_def sx_modify_def new_frame_def call_site_def)
qed

lemma exec_return_sites:
  assumes r: "exec_return vm = (Inr x, vm')"
  shows "sites vm' = butlast (sites vm)"
proof -
  let ?finish = "sx_bind (sx_gets (\<lambda>vm. h_marking_active (v_heap vm))) (\<lambda>marking.
     sx_bind (sx_gets (\<lambda>vm. incremental_compact_step_budgets (v_gc_stress vm) \<noteq> [])) (\<lambda>compaction_stress.
     sx_then (sx_when marking (if compaction_stress
       then heap_call finish_incremental_marking_to_incremental_compaction else heap_call finish_incremental_marking))
     (sx_bind (sx_gets (\<lambda>vm. h_compaction_active (v_heap vm))) (\<lambda>compacting.
     sx_then (sx_when compacting (heap_call finish_incremental_compaction)) vm_pop))))"
  have "stays ?finish" by (intro allI keeps)
  note same = staysD [OF this]
  let ?rest = "\<lambda>result. sx_then (sx_modify (\<lambda>vm. vm\<lparr>v_frames := butlast (v_frames vm)\<rparr>))
     (sx_then count_instruction
     (sx_bind (sx_gets (\<lambda>vm. v_frames vm = [])) (\<lambda>finished.
     if finished then sx_return (Some result) else sx_then (vm_push result) (sx_return None))))"
  have "exec_return = sx_bind ?finish ?rest"
    by (simp add: exec_return_def sx_then_def sx_bind_assoc)
  with r have "sx_bind ?finish ?rest vm = (Inr x, vm')" by simp
  then obtain v vm1 where f: "?finish vm = (Inr v, vm1)" and rest: "?rest v vm1 = (Inr x, vm')"
    by (rule sx_bind_InrE)
  have "stays (sx_then count_instruction
     (sx_bind (sx_gets (\<lambda>vm. v_frames vm = [])) (\<lambda>finished.
     if finished then sx_return (Some result) else sx_then (vm_push result) (sx_return None))))" for result
    by (intro allI keeps)
  from staysD [OF this, of v "vm1\<lparr>v_frames := butlast (v_frames vm1)\<rparr>" "Inr x" vm'] rest
  have "sites vm' = map call_site (butlast (v_frames vm1))"
    by (simp add: sx_then_def sx_bind_def sx_modify_def)
  with same [OF f] show ?thesis by (simp add: map_butlast)
qed

lemma unwind_sites:
  assumes "unwind m initial n vm = (Inr True, vm')" "length (v_frames vm) = n"
  shows "\<exists>j k p h. j < n \<and> sites vm ! j = (k, p) \<and> h \<in> set (fn_exception_handlers (m_functions m ! k)) \<and>
    (if initial \<and> Suc j = n then p else p - 1) < eh_try_end h \<and> sites vm' = take j (sites vm) @ [(k, eh_target h)]"
  using assms
proof (induction n arbitrary: vm initial)
  case (Suc n)
  then obtain fs f where fs: "v_frames vm = fs @ [f]" "length fs = n"
    by (metis length_Suc_conv_rev)
  let ?site = "if initial then f_pc f else f_pc f - 1"
  let ?hs = "fn_exception_handlers (m_functions m ! f_function_index f)"
  have "stays pending_layout" by (intro allI keeps)
  note same = staysD [OF this]
  obtain layout vm1 where l: "pending_layout vm = (Inr layout, vm1)"
    using Suc.prems(1) by (auto simp: sx_bind_def sx_gets_def Let_def split: prod.splits sum.splits)
  show ?case
  proof (cases "select_handler ?site layout None ?hs")
    case (Some h)
    then have h: "h \<in> set ?hs" "?site < eh_try_end h" using select_handler_some [OF Some] by (auto simp: handler_applies_def)
    have s1: "sites vm1 = map call_site fs @ [call_site f]" using same [OF l] fs by simp
    then obtain fs1 f1 where fs1: "v_frames vm1 = fs1 @ [f1]" "map call_site fs1 = map call_site fs" "call_site f1 = call_site f"
      by (auto simp: map_eq_append_conv)
    have "sx_then (enter_handler h) (sx_return True) vm1 = (Inr True, vm')"
      using Suc.prems(1) Some l fs(1) by (cases initial) (simp_all add: sx_bind_def sx_gets_def Let_def top_frame_def)
    then have "sites vm' = map call_site fs @ [(f_function_index f, eh_target h)]"
      using fs1 by (auto simp: sx_defs Let_def top_frame_def enter_handler_def modify_top_def call_site_def list_update_append)
    with h fs show ?thesis
      by - (rule exI [of _ n], rule exI [of _ "f_function_index f"], rule exI [of _ "f_pc f"], rule exI [of _ h],
        simp add: nth_append call_site_def [of f])
  next
    case None
    let ?mid = "sx_bind (sx_gets (\<lambda>vm. collect_every_n_instructions (v_gc_stress vm) = 1)) (\<lambda>stress.
         sx_when stress (heap_call heap_collect))"
    have "stays ?mid" by (intro allI keeps)
    note mid = staysD [OF this]
    have "sx_bind (sx_gets (\<lambda>vm. collect_every_n_instructions (v_gc_stress vm) = 1)) (\<lambda>stress.
         sx_then (sx_when stress (heap_call heap_collect))
         (sx_then (sx_modify (\<lambda>vm. vm\<lparr>v_frames := butlast (v_frames vm)\<rparr>)) (unwind m False n))) vm1 = (Inr True, vm')"
      using Suc.prems(1) None l fs(1) by (cases initial) (simp_all add: sx_bind_def sx_gets_def Let_def top_frame_def)
    then obtain u vm2 where m2: "?mid vm1 = (Inr u, vm2)"
      and u: "unwind m False n (vm2\<lparr>v_frames := butlast (v_frames vm2)\<rparr>) = (Inr True, vm')"
      by (auto simp: sx_bind_def sx_then_def sx_gets_def sx_modify_def split: prod.splits sum.splits)
    have s2: "sites vm2 = map call_site fs @ [call_site f]" using mid [OF m2] same [OF l] fs by simp
    let ?vm2 = "vm2\<lparr>v_frames := butlast (v_frames vm2)\<rparr>"
    have s3: "sites ?vm2 = map call_site fs" using s2 by (simp add: map_butlast)
    then have "length (v_frames ?vm2) = n" using fs(2) by (metis length_map)
    from Suc.IH [OF u this] obtain j k p h where jk: "j < n" "map call_site fs ! j = (k, p)"
      "h \<in> set (fn_exception_handlers (m_functions m ! k))" "p - 1 < eh_try_end h"
      "sites vm' = take j (map call_site fs) @ [(k, eh_target h)]"
      unfolding s3 by auto
    then show ?thesis using fs
      by - (rule exI [of _ j], rule exI [of _ k], rule exI [of _ p], rule exI [of _ h],
        simp add: nth_append)
  qed
qed (simp add: sx_return_def)

lemma exec_throw_sites:
  assumes r: "exec_throw m vm = (Inr (), vm')"
  shows "\<exists>j k p h. j < length (sites vm) \<and> sites vm ! j = (k, p) \<and> h \<in> set (fn_exception_handlers (m_functions m ! k)) \<and>
    (if Suc j = length (sites vm) then p else p - 1) < eh_try_end h \<and> sites vm' = take j (sites vm) @ [(k, eh_target h)]"
proof -
  define pre where "pre = sx_bind vm_pop (\<lambda>e.
     sx_then (sx_modify (\<lambda>vm. vm\<lparr>v_pending_exception := Some e\<rparr>))
     (sx_bind (receiver_of_kind Variant e) (\<lambda>_.
     sx_gets (\<lambda>vm. capture_runtime_trace m (f_function_index (top_frame vm)) (f_pc (top_frame vm))
       Failure_Uncaught_Exception vm))))"
  define post where "post = (\<lambda>trace. sx_bind (sx_gets (\<lambda>vm. length (v_frames vm))) (\<lambda>n.
     sx_bind (unwind m True n) (\<lambda>handled. if handled then sx_return () else uncaught_exception m trace)))"
  have "exec_throw m = sx_bind pre post"
    by (simp add: exec_throw_def pre_def post_def sx_then_def sx_bind_assoc)
  with r have "sx_bind pre post vm = (Inr (), vm')" by simp
  then obtain trace vm1 where p: "pre vm = (Inr trace, vm1)" and q: "post trace vm1 = (Inr (), vm')"
    by (rule sx_bind_InrE)
  have "stays pre" unfolding pre_def by (intro allI keeps keeps_modify; simp)
  from staysD [OF this p] have s: "sites vm1 = sites vm" .
  then have n: "length (v_frames vm1) = length (sites vm)" by (metis length_map)
  obtain handled vm2 where u: "unwind m True (length (sites vm)) vm1 = (Inr handled, vm2)"
    and h: "(if handled then sx_return () else uncaught_exception m trace) vm2 = (Inr (), vm')"
    using q n by (auto simp: post_def sx_gets_def sx_bind_def split: prod.splits sum.splits)
  have "handled" "vm2 = vm'"
    using h by (auto simp: sx_return_def uncaught_exception_def sx_defs Let_def split: if_splits prod.splits sum.splits)
  with unwind_sites [of m True "length (sites vm)" vm1 vm'] u n show ?thesis unfolding s by simp
qed

subsection \<open>Programs that go forward\<close>

text \<open>
  Within a function every jump leads forward and every handler starts after its region; every call, tail
  or not, is to a function of lower rank, and no closure is called.  \<open>maps_fit\<close>: a function has no more
  stack maps than instructions, so that a site the loop's check admits has an instruction.
\<close>

definition goes_forward :: "(nat \<Rightarrow> nat) \<Rightarrow> nat \<Rightarrow> nat \<Rightarrow> instruction \<Rightarrow> bool" where
  "goes_forward rank k pc ins = (case i_op ins of
       Op_Jump \<Rightarrow> pc < unat (i_operand ins)
     | Op_JumpIfFalse \<Rightarrow> pc < unat (i_operand ins)
     | Op_Call \<Rightarrow> rank (unat (i_operand ins)) < rank k
     | Op_TailCall \<Rightarrow> rank (unat (i_operand ins)) < rank k
     | Op_CallClosure \<Rightarrow> False
     | _ \<Rightarrow> True)"

definition forward_function :: "(nat \<Rightarrow> nat) \<Rightarrow> nat \<Rightarrow> bytecode_function \<Rightarrow> bool" where
  "forward_function rank k fn \<longleftrightarrow> list_all (\<lambda>(pc, ins). goes_forward rank k pc ins) (enumerate 0 (fn_code fn)) \<and>
     list_all (\<lambda>h. eh_try_end h \<le> eh_target h) (fn_exception_handlers fn)"

definition forward_module :: "(nat \<Rightarrow> nat) \<Rightarrow> bytecode_module \<Rightarrow> bool" where
  "forward_module rank m \<longleftrightarrow> list_all (\<lambda>(k, fn). forward_function rank k fn) (enumerate 0 (m_functions m))"

definition maps_fit :: "bytecode_module \<Rightarrow> module_verification \<Rightarrow> bool" where
  "maps_fit m V \<longleftrightarrow> list_all2 (\<lambda>fn maps. length maps \<le> length (fn_code fn)) (m_functions m) V"

lemma forward_moduleD:
  assumes "forward_module rank m" "k < length (m_functions m)"
  shows "pc < length (fn_code (m_functions m ! k)) \<Longrightarrow> goes_forward rank k pc (fn_code (m_functions m ! k) ! pc)"
    and "h \<in> set (fn_exception_handlers (m_functions m ! k)) \<Longrightarrow> eh_try_end h \<le> eh_target h"
proof -
  have f: "forward_function rank k (m_functions m ! k)"
    using assms by (auto simp: forward_module_def list_all_length nth_enumerate_eq)
  show "pc < length (fn_code (m_functions m ! k)) \<Longrightarrow> goes_forward rank k pc (fn_code (m_functions m ! k) ! pc)"
    using f by (auto simp: forward_function_def list_all_length nth_enumerate_eq)
  show "h \<in> set (fn_exception_handlers (m_functions m ! k)) \<Longrightarrow> eh_try_end h \<le> eh_target h"
    using f by (auto simp: forward_function_def list_all_iff)
qed

lemma continue_after_InrE:
  assumes "continue_after k vm = (Inr r, vm')"
  obtains u vm1 where "k vm = (Inr u, vm1)" "sites vm' = sites vm1" "r = None"
  using assms
  by (auto simp: continue_after_def count_instruction_def sx_then_def sx_bind_def sx_modify_def sx_return_def
    split: prod.splits sum.splits)

lemma instruction_moves_on:
  assumes r: "exec_instruction m V fn ins vm = (Inr None, vm')" and vm: "sites vm = S @ [(i, p)]"
    and fw: "goes_forward rank i p ins" and p: "p < length (V ! i)"
    and valid: "\<forall>k\<in>set (map fst (sites vm)). k < length (m_functions m)" and m: "forward_module rank m"
  shows "(sites vm', sites vm) \<in> lighter rank V"
proof -
  note intros = advances_plain advances_plain2 advances_print advances_next(1)
  have plain: ?thesis if "exec_instruction m V fn ins = continue_after k" "advances p k" for k :: "(vm, unit) sx"
  proof -
    from r that(1) obtain u vm1 where "k vm = (Inr u, vm1)" "sites vm' = sites vm1"
      by (auto elim: continue_after_InrE)
    with that(2) vm obtain p' where "p' > p" "sites vm' = S @ [(i, p')]" unfolding advances_def by metis
    with p vm show ?thesis by (simp add: lighter_forward)
  qed
  show ?thesis
  proof (cases "i_op ins \<in> {Op_Jump, Op_JumpIfFalse, Op_Call, Op_TailCall, Op_CallClosure, Op_Return, Op_Throw}")
    case False
    then have "\<exists>k. exec_instruction m V fn ins = continue_after k \<and> advances p k"
      unfolding exec_instruction_def
      by (cases "i_op ins"; simp; (blast intro: intros)?)
    with plain show ?thesis by blast
  next
    case True
    then consider "i_op ins = Op_Jump" | "i_op ins = Op_JumpIfFalse" | "i_op ins = Op_Call" | "i_op ins = Op_TailCall"
      | "i_op ins = Op_Return" | "i_op ins = Op_Throw"
      using fw by (auto simp: goes_forward_def)
    then show ?thesis
    proof cases
      case 1
      then show ?thesis using fw advances_jump by (intro plain) (auto simp: exec_instruction_def goes_forward_def)
    next
      case 2
      then show ?thesis using fw advances_jump_if_false
        by (intro plain) (auto simp: exec_instruction_def goes_forward_def)
    next
      case 3
      then obtain u vm1 where "exec_call m ins vm = (Inr u, vm1)" "sites vm' = sites vm1"
        using r by (auto simp: exec_instruction_def elim: continue_after_InrE)
      with exec_call_sites [of m ins vm vm1, OF _ vm] obtain p' where "p' > p"
        "sites vm' = S @ [(i, p'), (unat (i_operand ins), 0)]" by auto
      with 3 fw p vm show ?thesis by (simp add: goes_forward_def lighter_call)
    next
      case 4
      then obtain u vm1 where "exec_tail_call m ins vm = (Inr u, vm1)" "sites vm' = sites vm1"
        using r by (auto simp: exec_instruction_def elim: continue_after_InrE)
      with exec_tail_call_sites [of m ins vm vm1, OF _ vm] 4 fw vm show ?thesis
        by (simp add: goes_forward_def lighter_tail_call)
    next
      case 5
      then have "exec_return vm = (Inr None, vm')" using r by (simp add: exec_instruction_def)
      with exec_return_sites [OF this] vm show ?thesis by (simp add: lighter_return)
    next
      case 6
      then obtain u vm1 where t: "exec_throw m vm = (Inr u, vm1)" "sites vm' = sites vm1"
        using r by (auto simp: exec_instruction_def elim: continue_after_InrE)
      obtain j k q h where j: "j < length (sites vm)" "sites vm ! j = (k, q)"
        "h \<in> set (fn_exception_handlers (m_functions m ! k))"
        "(if Suc j = length (sites vm) then q else q - 1) < eh_try_end h"
        "sites vm' = take j (sites vm) @ [(k, eh_target h)]"
        using exec_throw_sites [of m vm vm1] t by auto
      have "k \<in> set (map fst (sites vm))" using j(1,2) by (force simp: in_set_conv_nth)
      with valid have "eh_try_end h \<le> eh_target h" using forward_moduleD(2) [OF m _ j(3)] by blast
      with j(4) have q: "q \<le> eh_target h" "Suc j = length (sites vm) \<Longrightarrow> q < eh_target h" by (auto split: if_splits)
      have "q < length (V ! k)" if "Suc j = length (sites vm)" using that j(2) vm p by (simp add: nth_append)
      with lighter_throw [OF j(1,2) q(1)] q(2) j(5) show ?thesis by simp
    qed
  qed
qed

subsection \<open>Termination\<close>

definition valid_functions :: "bytecode_module \<Rightarrow> vm \<Rightarrow> bool" where
  "valid_functions m vm \<longleftrightarrow> (\<forall>k\<in>set (map fst (sites vm)). k < length (m_functions m))"

lemma valid_functions_holds: "valid_functions m = control_holds (functions_valid (length (m_functions m)))"
  by (rule ext) (simp add: valid_functions_def machine_holds_def functions_valid_def)

lemma valid_step: "vm_step m V vm = (r, vm') \<Longrightarrow> valid_functions m vm \<Longrightarrow> valid_functions m vm'"
  using sx_keepsD [OF function_indices.keeps_vm_step, of m vm V] by (simp add: valid_functions_holds)

lemma step_moves_on:
  assumes step: "vm_step m V vm = (Inr None, vm')" and frames: "v_frames vm \<noteq> []"
    and valid: "valid_functions m vm" and m: "forward_module rank m" "maps_fit m V"
  shows "(sites vm', sites vm) \<in> lighter rank V"
proof -
  let ?f = "top_frame vm"
  let ?fn = "m_functions m ! f_function_index ?f"
  let ?ins = "fn_code ?fn ! f_pc ?f"
  define before where "before = sx_then (drop_dying_slots ?ins) (assert_stack_matches_map V)"
  have "vm_step m V vm = sx_bind before (\<lambda>_. sx_bind (collect_at_instruction_boundary V) (\<lambda>_.
      sx_bind (sx_gets (current_instruction ?fn)) (\<lambda>ins. exec_instruction m V ?fn ins))) vm"
    by (simp add: vm_step_def before_def sx_then_def sx_bind_assoc sx_gets_def current_instruction_def)
      (simp add: sx_bind_def current_instruction_def)
  with step obtain u vm1 where b: "before vm = (Inr u, vm1)" and step1: "sx_bind (collect_at_instruction_boundary V) (\<lambda>_.
      sx_bind (sx_gets (current_instruction ?fn)) (\<lambda>ins. exec_instruction m V ?fn ins)) vm1 = (Inr None, vm')"
    by (auto elim: sx_bind_InrE)
  then obtain u2 vm2 where c: "collect_at_instruction_boundary V vm1 = (Inr u2, vm2)"
      and x: "exec_instruction m V ?fn (fn_code ?fn ! f_pc (top_frame vm2)) vm2 = (Inr None, vm')"
    by (auto elim!: sx_bind_InrE simp: sx_gets_def current_instruction_def)
  have "stays before" unfolding before_def by (intro allI keeps)
  from staysD [OF this b] have s1: "sites vm1 = sites vm" .
  have "stays (collect_at_instruction_boundary V)" by (intro allI keeps)
  from staysD [OF this c] s1 have s2: "sites vm2 = sites vm" by simp
  obtain S where S: "sites vm = S @ [(f_function_index ?f, f_pc ?f)]"
    using frames unfolding top_frame_def
    by (metis append_butlast_last_id call_site_def list.simps(8,9) map_append)
  have same_top: "call_site (top_frame vm') = (f_function_index ?f, f_pc ?f)"
    if "sites vm' = sites vm" for vm'
  proof -
    from that S have "v_frames vm' \<noteq> []" "last (sites vm') = (f_function_index ?f, f_pc ?f)" by auto
    then show ?thesis by (simp add: last_map top_frame_def)
  qed
  have p: "f_pc ?f < length (V ! f_function_index ?f)"
  proof -
    have "stack_matches_map V (top_frame vm1)"
      using b by (auto simp: before_def assert_stack_matches_map_def sx_defs split: prod.splits sum.splits if_splits)
    with same_top [OF s1] show ?thesis by (simp add: stack_matches_map_def call_site_def)
  qed
  have k: "f_function_index ?f < length (m_functions m)" using valid S by (simp add: valid_functions_def)
  with m(2) p have "f_pc ?f < length (fn_code ?fn)"
    by (auto simp: maps_fit_def list_all2_conv_all_nth intro: less_le_trans)
  then have fw: "goes_forward rank (f_function_index ?f) (f_pc ?f) ?ins" using forward_moduleD(1) [OF m(1) k] by blast
  have "f_pc (top_frame vm2) = f_pc ?f" using same_top [OF s2] by (simp add: call_site_def)
  with x have "exec_instruction m V ?fn ?ins vm2 = (Inr None, vm')" by simp
  from instruction_moves_on [OF this _ fw p _ m(1)] S s2 valid show ?thesis by (simp add: valid_functions_def)
qed

lemma run_loop_returns:
  assumes m: "forward_module rank m" "maps_fit m V"
  shows "valid_functions m vm \<Longrightarrow> run_loop m V vm \<noteq> None"
proof (induction "sites vm" arbitrary: vm rule: wf_induct_rule [OF wf_lighter [of rank V]])
  case (1 vm)
  show ?case
  proof (cases "v_frames vm = []")
    case True
    then show ?thesis by (subst run_loop.simps) simp
  next
    case False
    obtain r vm' where s: "vm_step m V vm = (r, vm')" by fastforce
    show ?thesis
    proof (cases "r = Inr None")
      case True
      then have "run_loop m V vm' \<noteq> None"
        using 1(1) [OF step_moves_on] s False m valid_step [OF s] 1(2) by blast
      with s True False show ?thesis by (subst run_loop.simps) simp
    next
      case ends: False
      then show ?thesis using s \<open>v_frames vm \<noteq> []\<close> by (subst run_loop.simps) (auto split: sum.split option.split)
    qed
  qed
qed

text \<open>
  C37. A program whose jumps and handlers lead forward and whose calls go down a ranking of its functions
  terminates: \<open>execute\<close> returns a result or an error, from whatever state of the machine and its heap, with
  whatever collection stress.
\<close>

theorem forward_programs_terminate:
  assumes "forward_module rank m" "maps_fit m V"
  shows "\<exists>result vm'. execute m V vm = Some (result, vm')"
proof -
  obtain r vm1 where s: "execution_start m vm = (r, vm1)" by fastforce
  show ?thesis
  proof (cases r)
    case (Inl e)
    then show ?thesis using s
      by (auto simp: execution_start_def execute_def execute_verified_def sx_then_def sx_bind_def
        split: prod.splits sum.splits)
  next
    case (Inr u)
    with s have s: "execution_start m vm = (Inr (), vm1)" by simp
    have "valid_functions m vm1"
      using start_holds [OF s function_indices.control_invariant_axioms]
      by (simp add: valid_functions_holds functions_valid_def)
    from run_loop_returns [OF assms this] execute_start [OF s, of V] show ?thesis by auto
  qed
qed

lemma forward_programs_terminate_witness:
  "\<exists>result vm'. execute demo_calls demo_calls_maps initial_vm = Some (result, vm')"
proof (rule forward_programs_terminate [of "\<lambda>k. 2 - k"])
  show "forward_module (\<lambda>k. 2 - k) demo_calls" "maps_fit demo_calls demo_calls_maps"
    by (simp_all add: forward_module_def forward_function_def goes_forward_def maps_fit_def demo_calls_def
      demo_calls_maps_def demo_defs)
qed

end
