(* ===== verification/BC_Signature.thy ===== *)
theory BC_Signature
  imports VM_Outcomes
begin

text \<open>
  What the verifier (\<open>src/bytecode.cpp\<close>) knows of types: the predicates of \<open>SignatureValue\<close>
  (\<open>include/lang/bytecode.hpp\<close>), structural equality, the shape check, the checks of map keys and weak
  targets, and the checks of a module's layouts and signatures that come before any function is analysed.

  A check is a value of type \<open>'a verify\<close>: \<open>None\<close> when it does not return, otherwise a failure or a
  result.  The verifier stops at the first diagnostic it reports, so a failure carries that one; its text is
  left out, its function, counter and reason are kept.
\<close>

subsection \<open>Verdicts\<close>

text \<open>An enumerator of \<open>VerifierReason\<close> is its name, as \<open>verifier_reason_name\<close> prints it.\<close>

type_synonym verifier_reason = string

record verifier_diagnostic =
  vd_function_index :: nat
  vd_pc :: "nat option"
  vd_reason :: verifier_reason

datatype verifier_failure = Rejected verifier_diagnostic | Assertion_failed

type_synonym 'a verify = "(verifier_failure + 'a) option"

definition vreturn :: "'a \<Rightarrow> 'a verify" where "vreturn x = Some (Inr x)"

definition vbind :: "'a verify \<Rightarrow> ('a \<Rightarrow> 'b verify) \<Rightarrow> 'b verify" where
  "vbind r f = (case r of None \<Rightarrow> None | Some (Inl e) \<Rightarrow> Some (Inl e) | Some (Inr x) \<Rightarrow> f x)"

definition vthen :: "unit verify \<Rightarrow> 'b verify \<Rightarrow> 'b verify" where
  "vthen r k = vbind r (\<lambda>_. k)"

definition reject :: "nat \<Rightarrow> nat option \<Rightarrow> verifier_reason \<Rightarrow> 'a verify" where
  "reject k pc reason = Some (Inl (Rejected \<lparr>vd_function_index = k, vd_pc = pc, vd_reason = reason\<rparr>))"

definition reject_if :: "bool \<Rightarrow> nat \<Rightarrow> nat option \<Rightarrow> verifier_reason \<Rightarrow> unit verify" where
  "reject_if b k pc reason = (if b then reject k pc reason else vreturn ())"

definition vassert :: "bool \<Rightarrow> unit verify" where
  "vassert b = (if b then vreturn () else Some (Inl Assertion_failed))"

fun vall :: "('a \<Rightarrow> unit verify) \<Rightarrow> 'a list \<Rightarrow> unit verify" where
  "vall f [] = vreturn ()"
| "vall f (x # xs) = vthen (f x) (vall f xs)"

definition vall_indexed :: "(nat \<Rightarrow> 'a \<Rightarrow> unit verify) \<Rightarrow> 'a list \<Rightarrow> unit verify" where
  "vall_indexed f xs = vall (\<lambda>(i, x). f i x) (enumerate 0 xs)"

lemma vbind_simps [simp]:
  "vbind (vreturn x) f = f x" "vbind (reject k pc reason) f = reject k pc reason" "vbind None f = None"
  by (simp_all add: vbind_def vreturn_def reject_def)

lemma vthen_simps [simp]:
  "vthen (vreturn u) k = k" "vthen (reject f pc reason) k = reject f pc reason" "vthen None k = None"
  by (simp_all add: vthen_def)

lemma vreturn_eq [simp]: "vreturn x = vreturn y \<longleftrightarrow> x = y" "reject k pc reason \<noteq> vreturn x" "vreturn x \<noteq> reject k pc reason"
  by (auto simp: vreturn_def reject_def)

lemma vbind_return_iff: "vbind r f = vreturn y \<longleftrightarrow> (\<exists>x. r = vreturn x \<and> f x = vreturn y)"
  by (auto simp: vbind_def vreturn_def split: option.splits sum.splits)

lemma vthen_return_iff: "vthen r k = vreturn y \<longleftrightarrow> r = vreturn () \<and> k = vreturn y"
  by (auto simp: vthen_def vbind_return_iff)

lemma reject_if_return_iff [simp]: "reject_if b k pc reason = vreturn u \<longleftrightarrow> \<not> b"
  by (simp add: reject_if_def)

lemma vassert_return_iff [simp]: "vassert b = vreturn u \<longleftrightarrow> b"
  by (simp add: vassert_def vreturn_def)

lemma vall_return_iff: "vall f xs = vreturn u \<longleftrightarrow> (\<forall>x\<in>set xs. f x = vreturn ())"
  by (induction xs) (auto simp: vthen_return_iff)

lemma vall_indexed_return_iff: "vall_indexed f xs = vreturn u \<longleftrightarrow> (\<forall>i<length xs. f i (xs ! i) = vreturn ())"
proof -
  have "set (enumerate 0 xs) = {(i, xs ! i) | i. i < length xs}"
    by (auto simp: enumerate_eq_zip in_set_zip) (metis add_0 nth_upt diff_zero)
  then show ?thesis by (auto simp: vall_indexed_def vall_return_iff)
qed

lemma vbind_mono [partial_function_mono]:
  assumes "mono_option r" "\<And>x. mono_option (\<lambda>f. k f x)"
  shows "mono_option (\<lambda>f. vbind (r f) (k f))"
proof -
  have "(\<lambda>f. vbind (r f) (k f)) =
      (\<lambda>f. Option.bind (r f) (\<lambda>e. case e of Inl e \<Rightarrow> Some (Inl e) | Inr x \<Rightarrow> k f x))"
    by (rule ext) (simp add: vbind_def split: option.split)
  moreover have "mono_option (\<lambda>f. case e of Inl e \<Rightarrow> Some (Inl e) | Inr x \<Rightarrow> k f x)" for e
    by (cases e) (simp_all add: assms(2) option.const_mono)
  ultimately show ?thesis by (simp add: bind_mono assms(1))
qed

lemmas verify_return_iffs = vbind_return_iff vthen_return_iff vall_return_iff vall_indexed_return_iff

subsection \<open>Signatures\<close>

definition no_layouts :: "signature_value \<Rightarrow> bool" where
  "no_layouts s \<longleftrightarrow> sg_record_layout s = None \<and> sg_variant_layout s = None"

definition has_pair_fields :: "signature_value \<Rightarrow> bool" where
  "has_pair_fields s \<longleftrightarrow> sg_kind s = VK_Object \<and> sg_named_type s = None \<and> sg_left s \<noteq> None \<and> sg_right s \<noteq> None \<and>
     sg_element s = None \<and> sg_key s = None \<and> sg_value s = None \<and> sg_weak_target s = None \<and> no_layouts s"

definition has_array_element :: "signature_value \<Rightarrow> bool" where
  "has_array_element s \<longleftrightarrow> sg_kind s = VK_Array \<and> sg_element s \<noteq> None \<and> sg_left s = None \<and> sg_right s = None \<and>
     sg_key s = None \<and> sg_value s = None \<and> sg_weak_target s = None \<and> sg_named_type s = None \<and> no_layouts s"

definition is_named_type_reference :: "signature_value \<Rightarrow> bool" where
  "is_named_type_reference s \<longleftrightarrow> sg_kind s = VK_Object \<and> sg_named_type s \<noteq> None \<and> no_layouts s"

definition has_function_signature :: "signature_value \<Rightarrow> bool" where
  "has_function_signature s \<longleftrightarrow> sg_kind s = VK_Function \<and> sg_function_return s \<noteq> None \<and> sg_left s = None \<and>
     sg_right s = None \<and> sg_element s = None \<and> sg_key s = None \<and> sg_value s = None \<and> sg_weak_target s = None \<and>
     sg_named_type s = None \<and> no_layouts s"

definition no_function :: "signature_value \<Rightarrow> bool" where
  "no_function s \<longleftrightarrow> sg_function_return s = None \<and> sg_function_parameters s = []"

definition has_map_entries :: "signature_value \<Rightarrow> bool" where
  "has_map_entries s \<longleftrightarrow> sg_kind s = VK_Map \<and> sg_key s \<noteq> None \<and> sg_value s \<noteq> None \<and> sg_left s = None \<and>
     sg_right s = None \<and> sg_element s = None \<and> no_function s \<and> sg_weak_target s = None \<and> sg_named_type s = None \<and>
     no_layouts s"

definition has_weak_target :: "signature_value \<Rightarrow> bool" where
  "has_weak_target s \<longleftrightarrow> sg_kind s = VK_Weak \<and> sg_weak_target s \<noteq> None \<and> sg_left s = None \<and> sg_right s = None \<and>
     sg_element s = None \<and> sg_key s = None \<and> sg_value s = None \<and> no_function s \<and> sg_named_type s = None \<and>
     no_layouts s"

definition has_ephemeron_entries :: "signature_value \<Rightarrow> bool" where
  "has_ephemeron_entries s \<longleftrightarrow> sg_kind s = VK_Ephemeron \<and> sg_key s \<noteq> None \<and> sg_value s \<noteq> None \<and>
     sg_left s = None \<and> sg_right s = None \<and> sg_element s = None \<and> sg_weak_target s = None \<and> no_function s \<and>
     sg_named_type s = None \<and> no_layouts s"

definition no_parts :: "signature_value \<Rightarrow> bool" where
  "no_parts s \<longleftrightarrow> sg_left s = None \<and> sg_right s = None \<and> sg_element s = None \<and> sg_key s = None \<and>
     sg_value s = None \<and> sg_weak_target s = None \<and> no_function s"

definition is_record_layout_reference :: "signature_value \<Rightarrow> bool" where
  "is_record_layout_reference s \<longleftrightarrow> sg_kind s = VK_Record \<and> sg_record_layout s \<noteq> None \<and> no_parts s \<and>
     sg_named_type s = None \<and> sg_variant_layout s = None"

definition is_variant_layout_reference :: "signature_value \<Rightarrow> bool" where
  "is_variant_layout_reference s \<longleftrightarrow> sg_kind s = VK_Variant \<and> sg_variant_layout s \<noteq> None \<and> no_parts s \<and>
     sg_named_type s = None \<and> sg_record_layout s = None"

definition signature_of_kind :: "value_kind \<Rightarrow> signature_value" where
  "signature_of_kind k = Signature k None None None None None None [] None None None None"

definition map_signature :: "signature_value \<Rightarrow> signature_value \<Rightarrow> signature_value" where
  "map_signature key v = Signature VK_Map None None None (Some key) (Some v) None [] None None None None"

definition ephemeron_signature :: "signature_value \<Rightarrow> signature_value \<Rightarrow> signature_value" where
  "ephemeron_signature key v = Signature VK_Ephemeron None None None (Some key) (Some v) None [] None None None None"

definition function_type :: "signature_value list \<Rightarrow> signature_value \<Rightarrow> signature_value" where
  "function_type parameters result = Signature VK_Function None None None None None None parameters (Some result) None None None"

definition kind_is_reference :: "value_kind \<Rightarrow> bool" where
  "kind_is_reference k \<longleftrightarrow> k \<in> {VK_Object, VK_Array, VK_Str, VK_Function, VK_Map, VK_Weak, VK_Record, VK_Variant,
     VK_Ephemeron, VK_Builder}"

definition signature_value_is_reference :: "signature_value \<Rightarrow> bool" where
  "signature_value_is_reference s = kind_is_reference (sg_kind s)"

lemma signature_smaller [termination_simp]:
  "sg_left s = Some t \<Longrightarrow> size t < size s" "sg_right s = Some t \<Longrightarrow> size t < size s"
  "sg_element s = Some t \<Longrightarrow> size t < size s" "sg_key s = Some t \<Longrightarrow> size t < size s"
  "sg_value s = Some t \<Longrightarrow> size t < size s" "sg_weak_target s = Some t \<Longrightarrow> size t < size s"
  "sg_function_return s = Some t \<Longrightarrow> size t < size s"
  "t \<in> set (sg_function_parameters s) \<Longrightarrow> size t < size s"
  by (cases s; auto dest: size_list_estimation' [of _ _ "size t"])+

lemmas signature_predicates = has_pair_fields_def has_array_element_def has_function_signature_def has_map_entries_def
  has_weak_target_def has_ephemeron_entries_def

text \<open>Structural equality; a shared pointer is compared by what it points to.\<close>

lemma rel_option_fundef_cong [fundef_cong]:
  "x = x' \<Longrightarrow> y = y' \<Longrightarrow> (\<And>a b. x' = Some a \<Longrightarrow> y' = Some b \<Longrightarrow> R a b = R' a b) \<Longrightarrow> rel_option R x y = rel_option R' x' y'"
  by (cases x'; cases y'; simp)

lemma list_all2_fundef_cong [fundef_cong]:
  "xs = xs' \<Longrightarrow> ys = ys' \<Longrightarrow> (\<And>a b. a \<in> set xs' \<Longrightarrow> b \<in> set ys' \<Longrightarrow> R a b = R' a b) \<Longrightarrow>
    list_all2 R xs ys = list_all2 R' xs' ys'"
  by (auto simp: list_all2_conv_all_nth)

function signature_values_equal :: "signature_value \<Rightarrow> signature_value \<Rightarrow> bool" where
  "signature_values_equal lhs rhs \<longleftrightarrow>
     sg_kind lhs = sg_kind rhs \<and> sg_named_type lhs = sg_named_type rhs \<and>
     sg_record_layout lhs = sg_record_layout rhs \<and> sg_variant_layout lhs = sg_variant_layout rhs \<and>
     rel_option signature_values_equal (sg_left lhs) (sg_left rhs) \<and>
     rel_option signature_values_equal (sg_right lhs) (sg_right rhs) \<and>
     rel_option signature_values_equal (sg_element lhs) (sg_element rhs) \<and>
     rel_option signature_values_equal (sg_key lhs) (sg_key rhs) \<and>
     rel_option signature_values_equal (sg_value lhs) (sg_value rhs) \<and>
     rel_option signature_values_equal (sg_weak_target lhs) (sg_weak_target rhs) \<and>
     rel_option signature_values_equal (sg_function_return lhs) (sg_function_return rhs) \<and>
     list_all2 signature_values_equal (sg_function_parameters lhs) (sg_function_parameters rhs)"
  by pat_completeness auto
termination by (relation "measure (\<lambda>(lhs, rhs). size lhs)") (auto simp: signature_smaller)

declare signature_values_equal.simps [simp del]

lemma signature_values_equal_iff [simp]: "signature_values_equal lhs rhs \<longleftrightarrow> lhs = rhs"
proof (induction lhs rhs rule: signature_values_equal.induct)
  case (1 lhs rhs)
  have part: "rel_option signature_values_equal x y \<longleftrightarrow> x = y"
    if "\<And>a b. x = Some a \<Longrightarrow> y = Some b \<Longrightarrow> signature_values_equal a b \<longleftrightarrow> a = b" for x y
    using that by (cases x; cases y) auto
  have parts: "list_all2 signature_values_equal xs ys \<longleftrightarrow> xs = ys"
    if "\<And>a b. a \<in> set xs \<Longrightarrow> b \<in> set ys \<Longrightarrow> signature_values_equal a b \<longleftrightarrow> a = b" for xs ys
  proof -
    have "list_all2 signature_values_equal xs ys \<longleftrightarrow> list_all2 (=) xs ys"
      using that by (metis (mono_tags, lifting) list_all2_conv_all_nth nth_mem)
    then show ?thesis by (simp add: list.rel_eq)
  qed
  have "signature_values_equal lhs rhs \<longleftrightarrow>
     sg_kind lhs = sg_kind rhs \<and> sg_named_type lhs = sg_named_type rhs \<and>
     sg_record_layout lhs = sg_record_layout rhs \<and> sg_variant_layout lhs = sg_variant_layout rhs \<and>
     sg_left lhs = sg_left rhs \<and> sg_right lhs = sg_right rhs \<and> sg_element lhs = sg_element rhs \<and>
     sg_key lhs = sg_key rhs \<and> sg_value lhs = sg_value rhs \<and> sg_weak_target lhs = sg_weak_target rhs \<and>
     sg_function_return lhs = sg_function_return rhs \<and>
     sg_function_parameters lhs = sg_function_parameters rhs"
    unfolding signature_values_equal.simps [of lhs rhs]
    using part [OF "1.IH"(1)] part [OF "1.IH"(2)] part [OF "1.IH"(3)] part [OF "1.IH"(4)] part [OF "1.IH"(5)]
      part [OF "1.IH"(6)] part [OF "1.IH"(7)] parts [OF "1.IH"(8)] by auto
  then show ?case by (cases lhs; cases rhs) auto
qed

subsection \<open>Shape\<close>

function signature_shape_matches_kind :: "bytecode_module \<Rightarrow> value_kind \<Rightarrow> signature_value \<Rightarrow> bool" where
  "signature_shape_matches_kind m kind s = (
     if sg_kind s \<noteq> kind then False
     else if is_record_layout_reference s then the (sg_record_layout s) < length (m_record_layouts m)
     else if is_variant_layout_reference s then the (sg_variant_layout s) < length (m_variant_layouts m)
     else if is_named_type_reference s then
       sg_kind s = VK_Object \<and> the (sg_named_type s) < length (m_named_types m) \<and> no_parts s \<and> no_layouts s
     else if has_pair_fields s then
       signature_shape_matches_kind m (sg_kind (the (sg_left s))) (the (sg_left s)) \<and>
       signature_shape_matches_kind m (sg_kind (the (sg_right s))) (the (sg_right s)) \<and>
       sg_element s = None \<and> sg_key s = None \<and> sg_value s = None \<and> sg_weak_target s = None \<and> no_function s \<and>
       no_layouts s
     else if has_array_element s then
       sg_kind s = VK_Array \<and>
       signature_shape_matches_kind m (sg_kind (the (sg_element s))) (the (sg_element s)) \<and>
       sg_left s = None \<and> sg_right s = None \<and> sg_key s = None \<and> sg_value s = None \<and> sg_weak_target s = None \<and>
       no_function s \<and> no_layouts s
     else if has_function_signature s then
       signature_shape_matches_kind m (sg_kind (the (sg_function_return s))) (the (sg_function_return s)) \<and>
       list_all (\<lambda>p. signature_shape_matches_kind m (sg_kind p) p) (sg_function_parameters s)
     else if has_map_entries s then
       signature_shape_matches_kind m (sg_kind (the (sg_key s))) (the (sg_key s)) \<and>
       signature_shape_matches_kind m (sg_kind (the (sg_value s))) (the (sg_value s))
     else if has_weak_target s then
       signature_value_is_reference (the (sg_weak_target s)) \<and>
       signature_shape_matches_kind m (sg_kind (the (sg_weak_target s))) (the (sg_weak_target s))
     else if has_ephemeron_entries s then
       signature_value_is_reference (the (sg_key s)) \<and>
       signature_shape_matches_kind m (sg_kind (the (sg_key s))) (the (sg_key s)) \<and>
       signature_shape_matches_kind m (sg_kind (the (sg_value s))) (the (sg_value s))
     else if sg_kind s \<in> {VK_Function, VK_Map, VK_Weak, VK_Record, VK_Variant, VK_Ephemeron} then False
     else no_parts s \<and> sg_named_type s = None \<and> no_layouts s)"
  by pat_completeness auto
termination
  by (relation "measure (\<lambda>(m, kind, s). size s)") (auto simp: signature_predicates signature_smaller)

definition is_valid_map_key_type :: "signature_value \<Rightarrow> bool" where
  "is_valid_map_key_type key \<longleftrightarrow> sg_kind key = VK_Int64 \<or> sg_kind key = VK_Bool \<or> sg_kind key = VK_Str"

function signature_has_invalid_map_key :: "signature_value \<Rightarrow> bool" where
  "signature_has_invalid_map_key s = (
     if has_map_entries s then
       \<not> is_valid_map_key_type (the (sg_key s)) \<or> signature_has_invalid_map_key (the (sg_key s)) \<or>
       signature_has_invalid_map_key (the (sg_value s))
     else if has_pair_fields s then
       signature_has_invalid_map_key (the (sg_left s)) \<or> signature_has_invalid_map_key (the (sg_right s))
     else if has_array_element s then signature_has_invalid_map_key (the (sg_element s))
     else if has_weak_target s then signature_has_invalid_map_key (the (sg_weak_target s))
     else if has_ephemeron_entries s then
       signature_has_invalid_map_key (the (sg_key s)) \<or> signature_has_invalid_map_key (the (sg_value s))
     else if has_function_signature s then
       signature_has_invalid_map_key (the (sg_function_return s)) \<or>
       list_ex signature_has_invalid_map_key (sg_function_parameters s)
     else False)"
  by pat_completeness auto
termination by (relation "measure size") (auto simp: signature_predicates signature_smaller)

function signature_has_invalid_weak_target :: "signature_value \<Rightarrow> bool" where
  "signature_has_invalid_weak_target s = (
     if has_weak_target s then
       \<not> signature_value_is_reference (the (sg_weak_target s)) \<or>
       signature_has_invalid_weak_target (the (sg_weak_target s))
     else if sg_kind s = VK_Weak then True
     else if has_pair_fields s then
       signature_has_invalid_weak_target (the (sg_left s)) \<or> signature_has_invalid_weak_target (the (sg_right s))
     else if has_array_element s then signature_has_invalid_weak_target (the (sg_element s))
     else if has_map_entries s then
       signature_has_invalid_weak_target (the (sg_key s)) \<or> signature_has_invalid_weak_target (the (sg_value s))
     else if has_ephemeron_entries s then
       signature_has_invalid_weak_target (the (sg_key s)) \<or> signature_has_invalid_weak_target (the (sg_value s))
     else if has_function_signature s then
       signature_has_invalid_weak_target (the (sg_function_return s)) \<or>
       list_ex signature_has_invalid_weak_target (sg_function_parameters s)
     else False)"
  by pat_completeness auto
termination by (relation "measure size") (auto simp: signature_predicates signature_smaller)

declare signature_shape_matches_kind.simps [simp del] signature_has_invalid_map_key.simps [simp del]
  signature_has_invalid_weak_target.simps [simp del]

subsection \<open>Function signatures\<close>

definition parameter_signature :: "function_signature \<Rightarrow> nat \<Rightarrow> signature_value" where
  "parameter_signature sig i = (if fs_parameter_types sig = [] then signature_of_kind (fs_parameters sig ! i)
     else fs_parameter_types sig ! i)"

definition return_signature :: "function_signature \<Rightarrow> signature_value" where
  "return_signature sig = (case fs_return_type_detail sig of Some s \<Rightarrow> s | None \<Rightarrow> signature_of_kind (fs_return_type sig))"

definition function_type_from_signature :: "function_signature \<Rightarrow> signature_value" where
  "function_type_from_signature sig =
     function_type (map (parameter_signature sig) [0..<length (fs_parameters sig)]) (return_signature sig)"

definition signature_is_well_formed :: "bytecode_module \<Rightarrow> function_signature \<Rightarrow> bool" where
  "signature_is_well_formed m sig \<longleftrightarrow>
     (fs_parameter_types sig = [] \<or> length (fs_parameter_types sig) = length (fs_parameters sig)) \<and>
     list_all (\<lambda>i.
       (fs_parameters sig ! i = VK_Record \<longrightarrow>
         fs_parameter_types sig \<noteq> [] \<and> is_record_layout_reference (fs_parameter_types sig ! i)) \<and>
       (fs_parameters sig ! i = VK_Variant \<longrightarrow>
         fs_parameter_types sig \<noteq> [] \<and> is_variant_layout_reference (fs_parameter_types sig ! i)))
       [0..<length (fs_parameters sig)] \<and>
     list_all2 (signature_shape_matches_kind m) (take (length (fs_parameter_types sig)) (fs_parameters sig))
       (fs_parameter_types sig) \<and>
     (fs_return_type sig = VK_Record \<longrightarrow>
       (case fs_return_type_detail sig of None \<Rightarrow> False | Some s \<Rightarrow> is_record_layout_reference s)) \<and>
     (fs_return_type sig = VK_Variant \<longrightarrow>
       (case fs_return_type_detail sig of None \<Rightarrow> False | Some s \<Rightarrow> is_variant_layout_reference s)) \<and>
     (case fs_return_type_detail sig of None \<Rightarrow> True
      | Some s \<Rightarrow> signature_shape_matches_kind m (fs_return_type sig) s)"

subsection \<open>Layouts\<close>

text \<open>
  The checks run over the tables in order; \<open>names\<close> are checked as the code's \<open>set\<close> of names does:
  a name must be new among those of the entries before.
\<close>

definition new_name :: "string list \<Rightarrow> nat \<Rightarrow> bool" where
  "new_name names i \<longleftrightarrow> names ! i \<noteq> [] \<and> names ! i \<notin> set (take i names)"

definition record_layouts_are_well_formed :: "bytecode_module \<Rightarrow> unit verify" where
  "record_layouts_are_well_formed m = vall_indexed (\<lambda>i layout.
     vthen (reject_if (\<not> new_name (map rl_name (m_record_layouts m)) i \<or>
         length (rl_field_types layout) \<noteq> length (rl_reference_map layout)) 0 None ''BadRecordLayoutShape'')
     (vall_indexed (\<lambda>field type. reject_if
         (\<not> signature_shape_matches_kind m (sg_kind type) type \<or>
          rl_reference_map layout ! field \<noteq> signature_value_is_reference type) 0 None ''BadRecordLayoutShape'')
       (rl_field_types layout))) (m_record_layouts m)"

definition variant_case_is_well_formed :: "bytecode_module \<Rightarrow> string list \<Rightarrow> nat \<Rightarrow> variant_case_layout \<Rightarrow> unit verify" where
  "variant_case_is_well_formed m names i layout =
     vthen (reject_if (\<not> new_name names i \<or> length (vc_field_types layout) \<noteq> length (vc_reference_map layout))
       0 None ''BadVariantLayoutShape'')
     (vall_indexed (\<lambda>field type. reject_if
         (\<not> signature_shape_matches_kind m (sg_kind type) type \<or> signature_has_invalid_map_key type \<or>
          signature_has_invalid_weak_target type \<or>
          vc_reference_map layout ! field \<noteq> signature_value_is_reference type) 0 None ''BadVariantLayoutShape'')
       (vc_field_types layout))"

definition variant_layouts_are_well_formed :: "bytecode_module \<Rightarrow> unit verify" where
  "variant_layouts_are_well_formed m = vall_indexed (\<lambda>i layout.
     vthen (reject_if (\<not> new_name (map vl_name (m_variant_layouts m)) i \<or> vl_cases layout = [])
       0 None ''BadVariantLayoutShape'')
     (vall_indexed (variant_case_is_well_formed m (map vc_name (vl_cases layout))) (vl_cases layout)))
     (m_variant_layouts m)"

text \<open>
  The two passes over every signature of the module: \<open>check\<close> looks at a signature under the function
  index the diagnostic names.
\<close>

definition check_function_signature :: "(nat \<Rightarrow> signature_value \<Rightarrow> unit verify) \<Rightarrow> nat \<Rightarrow> function_signature \<Rightarrow> unit verify" where
  "check_function_signature check k sig =
     vthen (vall (\<lambda>i. check k (parameter_signature sig i)) [0..<length (fs_parameters sig)])
     (check k (return_signature sig))"

definition module_weak_target_types_are_valid :: "bytecode_module \<Rightarrow> unit verify" where
  "module_weak_target_types_are_valid m =
     (let check = (\<lambda>k s. reject_if (signature_has_invalid_weak_target s) k None ''BadWeakTargetType'') in
     vthen (vall (\<lambda>t. check 0 (nt_body t)) (m_named_types m))
     (vthen (vall_indexed (\<lambda>k f. check_function_signature check k (fn_signature f)) (m_functions m))
     (vthen (vall (\<lambda>l. vthen (check (cl_function_index l) (cl_function_type l))
         (vall (check (cl_function_index l)) (cl_capture_types l))) (m_closure_layouts m))
     (vthen (vall (\<lambda>l. vthen (check 0 (ml_key_type l)) (check 0 (ml_value_type l))) (m_map_layouts m))
     (vthen (vall (\<lambda>l. vall (check 0) (rl_field_types l)) (m_record_layouts m))
     (vall (\<lambda>l. vall (\<lambda>c. vall (check 0) (vc_field_types c)) (vl_cases l)) (m_variant_layouts m)))))))"

definition module_map_key_types_are_valid :: "bytecode_module \<Rightarrow> unit verify" where
  "module_map_key_types_are_valid m =
     (let check = (\<lambda>k s. reject_if (signature_has_invalid_map_key s) k None ''InvalidMapKeyType'') in
     vthen (vall (\<lambda>t. check 0 (nt_body t)) (m_named_types m))
     (vthen (vall_indexed (\<lambda>k f. check_function_signature check k (fn_signature f)) (m_functions m))
     (vthen (vall (\<lambda>l. vthen (check (cl_function_index l) (cl_function_type l))
         (vall (check (cl_function_index l)) (cl_capture_types l))) (m_closure_layouts m))
     (vthen (vall (\<lambda>l. reject_if (\<not> is_valid_map_key_type (ml_key_type l) \<or>
         signature_has_invalid_map_key (ml_value_type l)) 0 None ''InvalidMapKeyType'') (m_map_layouts m))
     (vthen (vall (\<lambda>l. vall (check 0) (rl_field_types l)) (m_record_layouts m))
     (vall (\<lambda>l. vall (\<lambda>c. vall (check 0) (vc_field_types c)) (vl_cases l)) (m_variant_layouts m)))))))"

definition map_layouts_are_well_formed :: "bytecode_module \<Rightarrow> unit verify" where
  "map_layouts_are_well_formed m = vall (\<lambda>l.
     vthen (reject_if (\<not> is_valid_map_key_type (ml_key_type l)) 0 None ''InvalidMapKeyType'')
     (reject_if (\<not> signature_shape_matches_kind m (sg_kind (ml_key_type l)) (ml_key_type l) \<or>
        \<not> signature_shape_matches_kind m (sg_kind (ml_value_type l)) (ml_value_type l) \<or>
        ml_key_is_ref l \<noteq> signature_value_is_reference (ml_key_type l) \<or>
        ml_value_is_ref l \<noteq> signature_value_is_reference (ml_value_type l)) 0 None ''BadMapLayoutIndex''))
     (m_map_layouts m)"

definition ephemeron_layouts_are_well_formed :: "bytecode_module \<Rightarrow> unit verify" where
  "ephemeron_layouts_are_well_formed m = vall (\<lambda>l. reject_if
     (\<not> signature_value_is_reference (el_key_type l) \<or>
      \<not> signature_shape_matches_kind m (sg_kind (el_key_type l)) (el_key_type l) \<or>
      \<not> signature_shape_matches_kind m (sg_kind (el_value_type l)) (el_value_type l) \<or>
      el_value_is_ref l \<noteq> signature_value_is_reference (el_value_type l) \<or>
      signature_has_invalid_weak_target (el_key_type l) \<or> signature_has_invalid_weak_target (el_value_type l) \<or>
      signature_has_invalid_map_key (el_key_type l) \<or> signature_has_invalid_map_key (el_value_type l))
     0 None ''BadEphemeronLayoutIndex'') (m_ephemeron_layouts m)"

definition named_types_are_well_formed :: "bytecode_module \<Rightarrow> bool" where
  "named_types_are_well_formed m \<longleftrightarrow> list_all (\<lambda>t. has_pair_fields (nt_body t) \<and>
     signature_shape_matches_kind m VK_Object (nt_body t)) (m_named_types m)"

definition closure_layout_is_well_formed :: "bytecode_module \<Rightarrow> nat \<Rightarrow> closure_layout \<Rightarrow> unit verify" where
  "closure_layout_is_well_formed m i l = (let k = cl_function_index l; function = m_functions m ! k in
     vthen (reject_if (k \<ge> length (m_functions m) \<or> fn_closure_layout function \<noteq> Some i \<or>
         \<not> has_function_signature (cl_function_type l) \<or>
         \<not> signature_shape_matches_kind m VK_Function (cl_function_type l) \<or>
         \<not> signature_is_well_formed m (fn_signature function) \<or>
         \<not> signature_values_equal (cl_function_type l) (function_type_from_signature (fn_signature function)))
       k None ''BadClosureLayoutIndex'')
     (vthen (reject_if (length (cl_capture_types l) \<noteq> length (cl_capture_map l)) k None ''BadClosureCaptureArity'')
     (vall_indexed (\<lambda>c type. reject_if (\<not> signature_shape_matches_kind m (sg_kind type) type \<or>
         cl_capture_map l ! c \<noteq> signature_value_is_reference type) k None ''BadClosureCaptureType'')
       (cl_capture_types l))))"

definition closure_layouts_are_well_formed :: "bytecode_module \<Rightarrow> unit verify" where
  "closure_layouts_are_well_formed m =
     vthen (vall_indexed (closure_layout_is_well_formed m) (m_closure_layouts m))
     (vall_indexed (\<lambda>k function. case fn_closure_layout function of None \<Rightarrow> vreturn ()
        | Some i \<Rightarrow> reject_if (i \<ge> length (m_closure_layouts m) \<or>
            cl_function_index (m_closure_layouts m ! i) \<noteq> k) k None ''BadClosureLayoutIndex'') (m_functions m))"

end
