(* ===== verification/BC_Domain.thy ===== *)
theory BC_Domain
  imports BC_Signature
begin

text \<open>
  The abstract domain of the verifier (\<open>src/bytecode.cpp\<close>): abstract values and states, their joins,
  the stack maps they give, the facts about the fields of allocation sites, and the conformance of a value
  to a signature.

  An \<open>AbstractValue\<close> is a datatype: the parts that hold abstract values again are its own arguments, the
  others a record.  A \<open>set\<close> of sites is the ascending list of its elements, and a \<open>map\<close> from sites the
  list of its entries in ascending order.  A shared pointer to a constant is an option of what it
  points to.  Where the code takes such a pointer itself as evidence, in \<open>NonnilValueShape\<close>, the model
  takes what it points to: pointers that are equal point to equal values, and an assumption the model finds
  and the code does not is one about the same obligation, which the code goes on to unfold again.
\<close>

subsection \<open>Values\<close>

datatype abstract_kind =
    AK_Int64 | AK_Bool | AK_Object | AK_Array | AK_RefArray | AK_Str | AK_Function | AK_Map | AK_Weak
  | AK_MaybeReference | AK_Record | AK_Variant | AK_Ephemeron | AK_Builder | AK_Nil | AK_Poison

record value_facts =
  vf_kind :: abstract_kind
  vf_object_sites :: "nat list"
  vf_ref_array_sites :: "nat list"
  vf_includes_opaque_object :: bool
  vf_includes_nil :: bool
  vf_signature_function :: "signature_value option"
  vf_signature_map :: "signature_value option"
  vf_signature_named_type :: "nat option"
  vf_signature_record_layout :: "nat option"
  vf_signature_variant_layout :: "nat option"
  vf_source_local :: "nat option"
  vf_nil_test_local :: "nat option"

datatype abstract_value = Abstract
  (av: value_facts)
  (av_fields: "(abstract_value \<times> abstract_value) option")
  (av_element: "abstract_value option")
  (av_target: "abstract_value option")

type_synonym pair_fields = "abstract_value \<times> abstract_value"

abbreviation av_kind :: "abstract_value \<Rightarrow> abstract_kind" where "av_kind v \<equiv> vf_kind (av v)"
abbreviation av_nil :: "abstract_value \<Rightarrow> bool" where "av_nil v \<equiv> vf_includes_nil (av v)"

definition with_facts :: "(value_facts \<Rightarrow> value_facts) \<Rightarrow> abstract_value \<Rightarrow> abstract_value" where
  "with_facts g v = Abstract (g (av v)) (av_fields v) (av_element v) (av_target v)"

definition facts_of_kind :: "abstract_kind \<Rightarrow> value_facts" where
  "facts_of_kind k = \<lparr>vf_kind = k, vf_object_sites = [], vf_ref_array_sites = [], vf_includes_opaque_object = False,
     vf_includes_nil = False, vf_signature_function = None, vf_signature_map = None, vf_signature_named_type = None,
     vf_signature_record_layout = None, vf_signature_variant_layout = None, vf_source_local = None,
     vf_nil_test_local = None\<rparr>"

definition value_with_kind :: "abstract_kind \<Rightarrow> abstract_value" where
  "value_with_kind k = Abstract (facts_of_kind k) None None None"

definition int64_value :: abstract_value where "int64_value = value_with_kind AK_Int64"
definition bool_value :: abstract_value where "bool_value = value_with_kind AK_Bool"
definition array_value :: abstract_value where "array_value = value_with_kind AK_Array"
definition str_value :: abstract_value where "str_value = value_with_kind AK_Str"
definition builder_value :: abstract_value where "builder_value = value_with_kind AK_Builder"
definition poison_value :: abstract_value where "poison_value = value_with_kind AK_Poison"

definition map_value :: "signature_value \<Rightarrow> abstract_value" where
  "map_value s = with_facts (\<lambda>x. x\<lparr>vf_signature_map := Some s\<rparr>) (value_with_kind AK_Map)"

definition ephemeron_value :: "signature_value \<Rightarrow> abstract_value" where
  "ephemeron_value s = with_facts (\<lambda>x. x\<lparr>vf_signature_map := Some s\<rparr>) (value_with_kind AK_Ephemeron)"

definition ref_array_value :: "nat list \<Rightarrow> abstract_value" where
  "ref_array_value sites = with_facts (\<lambda>x. x\<lparr>vf_ref_array_sites := sites\<rparr>) (value_with_kind AK_RefArray)"

definition nil_object_value :: abstract_value where
  "nil_object_value = with_facts (\<lambda>x. x\<lparr>vf_includes_nil := True\<rparr>) (value_with_kind AK_Object)"

definition object_value :: "nat \<Rightarrow> abstract_value" where
  "object_value site = with_facts (\<lambda>x. x\<lparr>vf_object_sites := [site]\<rparr>) (value_with_kind AK_Object)"

definition opaque_object_value :: abstract_value where
  "opaque_object_value = with_facts (\<lambda>x. x\<lparr>vf_includes_opaque_object := True\<rparr>) (value_with_kind AK_Object)"

definition named_signature_object_value :: "nat \<Rightarrow> abstract_value" where
  "named_signature_object_value i =
     with_facts (\<lambda>x. x\<lparr>vf_includes_nil := True, vf_signature_named_type := Some i\<rparr>) (value_with_kind AK_Object)"

definition record_value :: "nat \<Rightarrow> bool \<Rightarrow> abstract_value" where
  "record_value layout nil =
     with_facts (\<lambda>x. x\<lparr>vf_includes_nil := nil, vf_signature_record_layout := Some layout\<rparr>) (value_with_kind AK_Record)"

definition variant_value :: "nat \<Rightarrow> bool \<Rightarrow> abstract_value" where
  "variant_value layout nil =
     with_facts (\<lambda>x. x\<lparr>vf_includes_nil := nil, vf_signature_variant_layout := Some layout\<rparr>) (value_with_kind AK_Variant)"

definition without_provenance :: "abstract_value \<Rightarrow> abstract_value" where
  "without_provenance = with_facts (\<lambda>x. x\<lparr>vf_source_local := None, vf_nil_test_local := None\<rparr>)"

definition weak_value :: "abstract_value \<Rightarrow> abstract_value" where
  "weak_value target = Abstract (facts_of_kind AK_Weak) None None
     (Some (without_provenance (with_facts (\<lambda>x. x\<lparr>vf_includes_nil := False\<rparr>) target)))"

definition maybe_reference_value :: "abstract_value \<Rightarrow> abstract_value" where
  "maybe_reference_value target = Abstract (facts_of_kind AK_MaybeReference) None None (Some (without_provenance target))"

fun abstract_kind_of :: "value_kind \<Rightarrow> abstract_kind" where
  "abstract_kind_of VK_Int64 = AK_Int64"
| "abstract_kind_of VK_Bool = AK_Bool"
| "abstract_kind_of VK_Object = AK_Object"
| "abstract_kind_of VK_Array = AK_Array"
| "abstract_kind_of VK_Nil = AK_Nil"
| "abstract_kind_of VK_Str = AK_Str"
| "abstract_kind_of VK_Function = AK_Function"
| "abstract_kind_of VK_Map = AK_Map"
| "abstract_kind_of VK_Weak = AK_Weak"
| "abstract_kind_of VK_Record = AK_Record"
| "abstract_kind_of VK_Variant = AK_Variant"
| "abstract_kind_of VK_Ephemeron = AK_Ephemeron"
| "abstract_kind_of VK_Builder = AK_Builder"

definition value_from_kind :: "value_kind \<Rightarrow> abstract_value" where
  "value_from_kind k = (if k = VK_Object then opaque_object_value else value_with_kind (abstract_kind_of k))"

definition is_reference_kind :: "abstract_kind \<Rightarrow> bool" where
  "is_reference_kind k \<longleftrightarrow> k \<in> {AK_Object, AK_Array, AK_RefArray, AK_Str, AK_Function, AK_Map, AK_Weak,
     AK_MaybeReference, AK_Record, AK_Variant, AK_Ephemeron, AK_Builder}"

definition signature_array_uses_ref_payload :: "signature_value \<Rightarrow> bool" where
  "signature_array_uses_ref_payload s \<longleftrightarrow> has_array_element s \<and> signature_value_is_reference (the (sg_element s))"

definition array_element_value :: "abstract_value \<Rightarrow> abstract_value" where
  "array_element_value v = (if av_kind v \<in> {AK_Object, AK_Record, AK_Variant}
     then with_facts (\<lambda>x. x\<lparr>vf_includes_nil := False\<rparr>) v else v)"

function value_from_signature :: "signature_value \<Rightarrow> abstract_value" where
  "value_from_signature s = (
     if is_record_layout_reference s then record_value (the (sg_record_layout s)) True
     else if is_variant_layout_reference s then variant_value (the (sg_variant_layout s)) True
     else if has_weak_target s then weak_value (value_from_signature (the (sg_weak_target s)))
     else if has_function_signature s then
       with_facts (\<lambda>x. x\<lparr>vf_signature_function := Some s\<rparr>) (value_with_kind AK_Function)
     else if has_map_entries s then map_value s
     else if has_ephemeron_entries s then ephemeron_value s
     else if is_named_type_reference s then named_signature_object_value (the (sg_named_type s))
     else if has_pair_fields s then
       Abstract (facts_of_kind AK_Object)
         (Some (value_from_signature (the (sg_left s)), value_from_signature (the (sg_right s)))) None None
     else if has_array_element s then
       (if \<not> signature_array_uses_ref_payload s then array_value
        else Abstract (facts_of_kind AK_RefArray) None
          (Some (array_element_value (value_from_signature (the (sg_element s))))) None)
     else value_from_kind (sg_kind s))"
  by pat_completeness auto
termination by (relation "measure size") (auto simp: signature_predicates signature_smaller)

declare value_from_signature.simps [simp del]

subsection \<open>Equality\<close>

lemma abstract_smaller [termination_simp]:
  "av_fields v = Some (l, r) \<Longrightarrow> size l < size v" "av_fields v = Some (l, r) \<Longrightarrow> size r < size v"
  "av_element v = Some x \<Longrightarrow> size x < size v" "av_target v = Some x \<Longrightarrow> size x < size v"
  by (cases v; simp)+

lemma rel_prod_fundef_cong [fundef_cong]:
  "x = x' \<Longrightarrow> y = y' \<Longrightarrow> (\<And>a b. fst x' = a \<Longrightarrow> fst y' = b \<Longrightarrow> R a b = R' a b) \<Longrightarrow>
    (\<And>a b. snd x' = a \<Longrightarrow> snd y' = b \<Longrightarrow> S a b = S' a b) \<Longrightarrow> rel_prod R S x y = rel_prod R' S' x' y'"
  by (cases x'; cases y'; simp)

function abstract_values_equal :: "abstract_value \<Rightarrow> abstract_value \<Rightarrow> bool" where
  "abstract_values_equal lhs rhs \<longleftrightarrow> av lhs = av rhs \<and>
     rel_option (rel_prod abstract_values_equal abstract_values_equal) (av_fields lhs) (av_fields rhs) \<and>
     rel_option abstract_values_equal (av_element lhs) (av_element rhs) \<and>
     rel_option abstract_values_equal (av_target lhs) (av_target rhs)"
  by pat_completeness auto
termination
  by (relation "measure (\<lambda>(lhs, rhs). size lhs)") (auto simp: abstract_smaller prod_eq_iff)

declare abstract_values_equal.simps [simp del]

lemma abstract_values_equal_iff [simp]: "abstract_values_equal lhs rhs \<longleftrightarrow> lhs = rhs"
proof (induction lhs arbitrary: rhs)
  case (Abstract f fs e t)
  have eq: "rel_option abstract_values_equal x y \<longleftrightarrow> x = y"
    if "\<And>a y. x = Some a \<Longrightarrow> abstract_values_equal a y \<longleftrightarrow> a = y" for x y
    using that by (cases x; cases y) auto
  have "rel_option (rel_prod abstract_values_equal abstract_values_equal) fs y \<longleftrightarrow> fs = y" for y
    using Abstract.IH(1,2) by (cases fs; cases y) (auto split: prod.splits simp: rel_prod_sel)
  with eq [of e] eq [of t] Abstract.IH(3,4) show ?case
    by (cases rhs) (simp add: abstract_values_equal.simps)
qed

subsection \<open>Joins\<close>

definition is_poison :: "abstract_value \<Rightarrow> bool" where
  "is_poison v \<longleftrightarrow> av_kind v = AK_Poison"

definition is_canonical_nil_object :: "abstract_value \<Rightarrow> bool" where
  "is_canonical_nil_object v \<longleftrightarrow> av_kind v = AK_Object \<and> av_nil v \<and> vf_object_sites (av v) = [] \<and>
     vf_ref_array_sites (av v) = [] \<and> \<not> vf_includes_opaque_object (av v) \<and> av_fields v = None \<and> av_element v = None \<and>
     vf_signature_function (av v) = None \<and> vf_signature_map (av v) = None \<and> av_target v = None \<and>
     vf_signature_named_type (av v) = None \<and> vf_signature_record_layout (av v) = None \<and>
     vf_signature_variant_layout (av v) = None"

definition site_union :: "nat list \<Rightarrow> nat list \<Rightarrow> nat list" where
  "site_union xs ys = fold insort_insert ys xs"

definition keep_if_equal :: "'a option \<Rightarrow> 'a option \<Rightarrow> 'a option" where
  "keep_if_equal x y = (if x = y then x else None)"

text \<open>The provenance of a join: what both sides agree on.\<close>

definition join_provenance :: "abstract_value \<Rightarrow> abstract_value \<Rightarrow> value_facts \<Rightarrow> value_facts" where
  "join_provenance lhs rhs x =
     x\<lparr>vf_source_local := keep_if_equal (vf_source_local (av lhs)) (vf_source_local (av rhs)),
       vf_nil_test_local := keep_if_equal (vf_nil_test_local (av lhs)) (vf_nil_test_local (av rhs))\<rparr>"

definition join_nominal_with_nil :: "abstract_value \<Rightarrow> abstract_value \<Rightarrow> abstract_value" where
  "join_nominal_with_nil nominal nil =
     with_facts (\<lambda>x. join_provenance nominal nil (x\<lparr>vf_includes_nil := True\<rparr>)) nominal"

definition maybe_with_target :: "abstract_value \<Rightarrow> abstract_value \<Rightarrow> bool" where
  "maybe_with_target maybe target \<longleftrightarrow> av_kind maybe = AK_MaybeReference \<and> av_target maybe \<noteq> None \<and>
     av_kind (the (av_target maybe)) = av_kind target"

definition maybe_joined :: "abstract_value \<Rightarrow> abstract_value" where
  "maybe_joined target = (if is_poison target then poison_value else maybe_reference_value target)"

definition join_named_type :: "nat option \<Rightarrow> nat option \<Rightarrow> nat option" where
  "join_named_type l r = (if l = r then l else if l \<noteq> None \<and> r = None then l else if l = None \<and> r \<noteq> None then r else None)"

definition join_object_facts :: "value_facts \<Rightarrow> value_facts \<Rightarrow> value_facts" where
  "join_object_facts l r = l\<lparr>vf_object_sites := site_union (vf_object_sites l) (vf_object_sites r),
     vf_includes_opaque_object := vf_includes_opaque_object l \<or> vf_includes_opaque_object r,
     vf_includes_nil := vf_includes_nil l \<or> vf_includes_nil r,
     vf_signature_named_type := join_named_type (vf_signature_named_type l) (vf_signature_named_type r)\<rparr>"

definition join_nil :: "value_facts \<Rightarrow> value_facts \<Rightarrow> value_facts" where
  "join_nil l r = l\<lparr>vf_includes_nil := vf_includes_nil l \<or> vf_includes_nil r\<rparr>"

text \<open>Both parts joined, or the one there is.\<close>

definition join_parts :: "('a \<Rightarrow> 'a \<Rightarrow> 'a) \<Rightarrow> 'a option \<Rightarrow> 'a option \<Rightarrow> 'a option" where
  "join_parts j l r = (case l of None \<Rightarrow> r | Some x \<Rightarrow> (case r of None \<Rightarrow> l | Some y \<Rightarrow> Some (j x y)))"

lemma join_parts_cong [fundef_cong]:
  "l = l' \<Longrightarrow> r = r' \<Longrightarrow> (\<And>x y. l' = Some x \<Longrightarrow> r' = Some y \<Longrightarrow> j x y = j' x y) \<Longrightarrow> join_parts j l r = join_parts j' l' r'"
  by (cases l'; cases r'; simp add: join_parts_def)

lemma map_prod_like_cong [fundef_cong]:
  "p = p' \<Longrightarrow> q = q' \<Longrightarrow> (\<And>a b. fst p' = a \<Longrightarrow> fst q' = b \<Longrightarrow> f a b = f' a b) \<Longrightarrow>
    (\<And>a b. snd p' = a \<Longrightarrow> snd q' = b \<Longrightarrow> g a b = g' a b) \<Longrightarrow>
    (f (fst p) (fst q), g (snd p) (snd q)) = (f' (fst p') (fst q'), g' (snd p') (snd q'))"
  by simp

function join_values :: "abstract_value \<Rightarrow> abstract_value \<Rightarrow> abstract_value" where
  "join_values lhs rhs = (
     if maybe_with_target lhs rhs then maybe_joined (join_values (the (av_target lhs)) rhs)
     else if maybe_with_target rhs lhs then maybe_joined (join_values (the (av_target rhs)) lhs)
     else if av_kind lhs \<in> {AK_Record, AK_Variant} \<and> is_canonical_nil_object rhs then join_nominal_with_nil lhs rhs
     else if av_kind rhs \<in> {AK_Record, AK_Variant} \<and> is_canonical_nil_object lhs then join_nominal_with_nil rhs lhs
     else if av_kind lhs \<noteq> av_kind rhs \<or> is_poison lhs \<or> is_poison rhs then poison_value
     else if av_kind lhs = AK_Object then
       Abstract (join_provenance lhs rhs (join_object_facts (av lhs) (av rhs)))
         (join_parts (\<lambda>f g. (join_values (fst f) (fst g), join_values (snd f) (snd g))) (av_fields lhs) (av_fields rhs))
         (av_element lhs) (av_target lhs)
     else if av_kind lhs = AK_RefArray then
       Abstract (join_provenance lhs rhs
           ((av lhs)\<lparr>vf_ref_array_sites := site_union (vf_ref_array_sites (av lhs)) (vf_ref_array_sites (av rhs))\<rparr>))
         (av_fields lhs) (join_parts join_values (av_element lhs) (av_element rhs)) (av_target lhs)
     else if av_kind lhs = AK_Function then
       (if vf_signature_function (av lhs) = None \<or> vf_signature_function (av rhs) = None \<or>
          \<not> signature_values_equal (the (vf_signature_function (av lhs))) (the (vf_signature_function (av rhs)))
        then poison_value else with_facts (join_provenance lhs rhs) lhs)
     else if av_kind lhs \<in> {AK_Map, AK_Ephemeron} then
       (if vf_signature_map (av lhs) = None \<or> vf_signature_map (av rhs) = None \<or>
          \<not> signature_values_equal (the (vf_signature_map (av lhs))) (the (vf_signature_map (av rhs)))
        then poison_value else with_facts (join_provenance lhs rhs) lhs)
     else if av_kind lhs = AK_Record then
       (if vf_signature_record_layout (av lhs) = None \<or>
          vf_signature_record_layout (av lhs) \<noteq> vf_signature_record_layout (av rhs)
        then poison_value else with_facts (\<lambda>x. join_provenance lhs rhs (join_nil x (av rhs))) lhs)
     else if av_kind lhs = AK_Variant then
       (if vf_signature_variant_layout (av lhs) = None \<or>
          vf_signature_variant_layout (av lhs) \<noteq> vf_signature_variant_layout (av rhs)
        then poison_value else with_facts (\<lambda>x. join_provenance lhs rhs (join_nil x (av rhs))) lhs)
     else if av_kind lhs \<in> {AK_Weak, AK_MaybeReference} then
       (if av_target lhs = None \<or> av_target rhs = None then poison_value
        else let target = join_values (the (av_target lhs)) (the (av_target rhs)) in
          if is_poison target then poison_value
          else Abstract (join_provenance lhs rhs (av lhs)) (av_fields lhs) (av_element lhs) (Some target))
     else with_facts (join_provenance lhs rhs) lhs)"
  by pat_completeness auto
termination
  by (relation "measure (\<lambda>(lhs, rhs). size lhs + size rhs)")
    (auto simp: maybe_with_target_def abstract_smaller add_less_mono prod_eq_iff)

declare join_values.simps [simp del]

definition join_value_into :: "abstract_value \<Rightarrow> abstract_value \<Rightarrow> bool \<times> abstract_value" where
  "join_value_into destination incoming = (let joined = join_values destination incoming in
     if abstract_values_equal joined destination then (False, destination) else (True, joined))"

definition join_ref_array_element_values :: "abstract_value \<Rightarrow> abstract_value \<Rightarrow> abstract_value" where
  "join_ref_array_element_values lhs rhs = (let joined = join_values lhs rhs in
     if \<not> is_poison joined then joined
     else if av_kind lhs = AK_Function \<or> av_kind rhs = AK_Function then joined
     else if is_reference_kind (av_kind lhs) \<and> is_reference_kind (av_kind rhs) then opaque_object_value
     else joined)"

definition join_ref_array_element_into :: "abstract_value \<Rightarrow> abstract_value \<Rightarrow> bool \<times> abstract_value" where
  "join_ref_array_element_into destination incoming = (let joined = join_ref_array_element_values destination incoming in
     if abstract_values_equal joined destination then (False, destination) else (True, joined))"

subsection \<open>States\<close>

record abstract_state =
  as_stack :: "abstract_value list"
  as_locals :: "abstract_value option list"
  as_local_reference_kinds :: "bool option list"
  as_fields_by_site :: "(nat \<times> pair_fields) list"
  as_elements_by_site :: "(nat \<times> abstract_value) list"

text \<open>The entry of a site, inserted or replaced.\<close>

fun put_site :: "nat \<Rightarrow> 'a \<Rightarrow> (nat \<times> 'a) list \<Rightarrow> (nat \<times> 'a) list" where
  "put_site k x [] = [(k, x)]"
| "put_site k x ((k', y) # kys) = (if k < k' then (k, x) # (k', y) # kys
     else if k = k' then (k, x) # kys else (k', y) # put_site k x kys)"

definition join_local :: "abstract_value option \<Rightarrow> abstract_value option \<Rightarrow> bool \<times> abstract_value option" where
  "join_local destination incoming = (case destination of
       None \<Rightarrow> (False, None)
     | Some d \<Rightarrow> (case incoming of
         None \<Rightarrow> (True, None)
       | Some i \<Rightarrow> (case join_value_into d i of (changed, v) \<Rightarrow> (changed, Some v))))"

text \<open>\<open>None\<close> stands for the incompatible kinds that make the join invalid.\<close>

definition join_reference_kind :: "bool option \<Rightarrow> bool option \<Rightarrow> (bool \<times> bool option) option" where
  "join_reference_kind destination incoming = (case incoming of
       None \<Rightarrow> Some (False, destination)
     | Some i \<Rightarrow> (case destination of
         None \<Rightarrow> Some (True, Some i)
       | Some d \<Rightarrow> (if d \<noteq> i then None else Some (False, Some d))))"

fun join_reference_kinds :: "bool option list \<Rightarrow> bool option list \<Rightarrow> (bool \<times> bool option list) option" where
  "join_reference_kinds (d # ds) (i # is) = (case join_reference_kind d i of None \<Rightarrow> None
     | Some (changed, k) \<Rightarrow> (case join_reference_kinds ds is of None \<Rightarrow> None
       | Some (changed', ks) \<Rightarrow> Some (changed \<or> changed', k # ks)))"
| "join_reference_kinds ds is = Some (False, ds)"

definition join_site_fields :: "nat \<times> pair_fields \<Rightarrow> bool \<times> (nat \<times> pair_fields) list \<Rightarrow> bool \<times> (nat \<times> pair_fields) list" where
  "join_site_fields entry state = (case map_of (snd state) (fst entry) of
       None \<Rightarrow> (True, put_site (fst entry) (snd entry) (snd state))
     | Some (l, r) \<Rightarrow> (case join_value_into l (fst (snd entry)) of (cl, l') \<Rightarrow>
         (case join_value_into r (snd (snd entry)) of (cr, r') \<Rightarrow>
           (fst state \<or> cl \<or> cr, put_site (fst entry) (l', r') (snd state)))))"

definition join_site_element :: "nat \<times> abstract_value \<Rightarrow> bool \<times> (nat \<times> abstract_value) list \<Rightarrow> bool \<times> (nat \<times> abstract_value) list" where
  "join_site_element entry state = (case map_of (snd state) (fst entry) of
       None \<Rightarrow> (True, put_site (fst entry) (snd entry) (snd state))
     | Some e \<Rightarrow> (case join_ref_array_element_into e (snd entry) of (c, e') \<Rightarrow>
         (fst state \<or> c, put_site (fst entry) e' (snd state))))"

datatype join_outcome = Join_Unchanged | Join_Changed | Join_Invalid

definition join_state_into :: "abstract_state \<Rightarrow> abstract_state \<Rightarrow> join_outcome \<times> abstract_state" where
  "join_state_into destination incoming = (
     if length (as_stack destination) \<noteq> length (as_stack incoming) \<or>
       length (as_locals destination) \<noteq> length (as_locals incoming) \<or>
       length (as_local_reference_kinds destination) \<noteq> length (as_local_reference_kinds incoming)
     then (Join_Invalid, destination)
     else case join_reference_kinds (as_local_reference_kinds destination) (as_local_reference_kinds incoming) of
       None \<Rightarrow> (Join_Invalid, destination)
     | Some (kinds_changed, kinds) \<Rightarrow>
       (let stack = map2 join_value_into (as_stack destination) (as_stack incoming);
            locals = map2 join_local (as_locals destination) (as_locals incoming);
            fields = fold join_site_fields (as_fields_by_site incoming) (False, as_fields_by_site destination);
            elements = fold join_site_element (as_elements_by_site incoming) (False, as_elements_by_site destination);
            changed = list_ex fst stack \<or> list_ex fst locals \<or> kinds_changed \<or> fst fields \<or> fst elements
        in (if changed then Join_Changed else Join_Unchanged,
          \<lparr>as_stack = map snd stack, as_locals = map snd locals, as_local_reference_kinds = kinds,
           as_fields_by_site = snd fields, as_elements_by_site = snd elements\<rparr>)))"

subsection \<open>Stack maps\<close>

definition local_is_reference :: "bool \<Rightarrow> bool option \<Rightarrow> bool" where
  "local_is_reference tail_call_boundary kind \<longleftrightarrow> \<not> tail_call_boundary \<and> kind = Some True"

definition stack_map_matches :: "stack_map \<Rightarrow> abstract_state \<Rightarrow> bool \<Rightarrow> bool" where
  "stack_map_matches sm state tail_call_boundary \<longleftrightarrow>
     list_all2 (\<lambda>bit v. \<not> is_poison v \<and> bit = is_reference_kind (av_kind v)) (sm_object_slots sm) (as_stack state) \<and>
     (sm_local_object_slots sm \<noteq> [] \<longrightarrow>
       length (sm_local_object_slots sm) = length (as_locals state) \<and>
       list_all (\<lambda>i. sm_local_object_slots sm ! i =
         local_is_reference tail_call_boundary (as_local_reference_kinds state ! i)) [0..<length (as_locals state)])"

definition stack_map_from_state :: "abstract_state \<Rightarrow> bool \<Rightarrow> stack_map option" where
  "stack_map_from_state state tail_call_boundary = (
     if list_ex is_poison (as_stack state) then None
     else Some \<lparr>sm_object_slots = map (\<lambda>v. is_reference_kind (av_kind v)) (as_stack state),
       sm_local_object_slots = map (local_is_reference tail_call_boundary) (as_local_reference_kinds state)\<rparr>)"

subsection \<open>Facts about fields\<close>

definition pick_field :: "bool \<Rightarrow> pair_fields \<Rightarrow> abstract_value" where
  "pick_field left fs = (if left then fst fs else snd fs)"

definition put_field :: "bool \<Rightarrow> abstract_value \<Rightarrow> pair_fields \<Rightarrow> pair_fields" where
  "put_field left v fs = (if left then (v, snd fs) else (fst fs, v))"

definition join_loaded :: "(abstract_value \<Rightarrow> abstract_value \<Rightarrow> abstract_value) \<Rightarrow> abstract_value option \<Rightarrow> abstract_value \<Rightarrow> abstract_value option" where
  "join_loaded j loaded v = (case loaded of None \<Rightarrow> Some v | Some x \<Rightarrow> Some (j x v))"

text \<open>The fields of the body of the receiver's named type; the outer \<open>None\<close> is the code's failure.\<close>

definition named_type_fields :: "bytecode_module \<Rightarrow> abstract_value \<Rightarrow> pair_fields option option" where
  "named_type_fields m receiver = (case vf_signature_named_type (av receiver) of
       None \<Rightarrow> Some None
     | Some n \<Rightarrow> (if n \<ge> length (m_named_types m) then None
         else case av_fields (value_from_signature (nt_body (m_named_types m ! n))) of
             None \<Rightarrow> None | Some fs \<Rightarrow> Some (Some fs)))"

text \<open>What the signature of the receiver says of a field: its own fields joined with those of its named type.\<close>

definition signature_field :: "bytecode_module \<Rightarrow> bool \<Rightarrow> abstract_value \<Rightarrow> abstract_value option option" where
  "signature_field m left receiver = (case named_type_fields m receiver of
       None \<Rightarrow> None
     | Some named \<Rightarrow> (let own = map_option (pick_field left) (av_fields receiver) in
         Some (case named of None \<Rightarrow> own | Some fs \<Rightarrow> join_loaded join_values own (pick_field left fs))))"

fun load_sites :: "('a \<Rightarrow> abstract_value) \<Rightarrow> (abstract_value \<Rightarrow> abstract_value \<Rightarrow> abstract_value) \<Rightarrow> (nat \<times> 'a) list \<Rightarrow>
    nat list \<Rightarrow> abstract_value option \<Rightarrow> abstract_value option option" where
  "load_sites pick j table [] loaded = Some loaded"
| "load_sites pick j table (site # sites) loaded = (case map_of table site of
       None \<Rightarrow> None
     | Some x \<Rightarrow> load_sites pick j table sites (join_loaded j loaded (pick x)))"

definition loaded_value :: "abstract_value option option \<Rightarrow> abstract_value option" where
  "loaded_value loaded = (case loaded of Some (Some v) \<Rightarrow> (if is_poison v then None else Some v) | _ \<Rightarrow> None)"

definition load_pair_field :: "bytecode_module \<Rightarrow> abstract_state \<Rightarrow> abstract_value \<Rightarrow> bool \<Rightarrow> abstract_value option" where
  "load_pair_field m state receiver left = (
     if av_nil receiver \<or> vf_includes_opaque_object (av receiver) then None
     else case signature_field m left receiver of
         None \<Rightarrow> None
       | Some loaded \<Rightarrow> loaded_value (load_sites (pick_field left) join_values (as_fields_by_site state)
           (vf_object_sites (av receiver)) loaded))"

definition load_ref_array_element :: "abstract_state \<Rightarrow> abstract_value \<Rightarrow> abstract_value option" where
  "load_ref_array_element state receiver = loaded_value (load_sites id join_ref_array_element_values
     (as_elements_by_site state) (vf_ref_array_sites (av receiver)) (av_element receiver))"

subsection \<open>Conformance\<close>

text \<open>
  An assumption: a value whose non-nil part has this shape conforms to the named type.  The assumptions
  made so far are threaded through the checks, and one made is not taken back.
\<close>

type_synonym nonnil_shape = "nat list \<times> bool \<times> pair_fields option \<times> nat option"
type_synonym conformance_assumption = "nonnil_shape \<times> nat"
type_synonym conformance = "(bool \<times> conformance_assumption list) option"

definition nonnil_shape :: "abstract_value \<Rightarrow> nonnil_shape" where
  "nonnil_shape v = (vf_object_sites (av v), vf_includes_opaque_object (av v), av_fields v, vf_signature_named_type (av v))"

definition has_nonnil_object_evidence :: "abstract_value \<Rightarrow> bool" where
  "has_nonnil_object_evidence v \<longleftrightarrow> vf_includes_opaque_object (av v) \<or> vf_object_sites (av v) \<noteq> [] \<or>
     av_fields v \<noteq> None \<or> vf_signature_named_type (av v) \<noteq> None"

text \<open>\<open>a && b\<close>: the second check runs, under the assumptions the first has left, when the first succeeds.\<close>

definition conf_and :: "conformance \<Rightarrow> (conformance_assumption list \<Rightarrow> conformance) \<Rightarrow> conformance" where
  "conf_and r k = Option.bind r (\<lambda>(b, A). if b then k A else Some (False, A))"

fun conf_all :: "('a \<Rightarrow> conformance_assumption list \<Rightarrow> conformance) \<Rightarrow> 'a list \<Rightarrow> conformance_assumption list \<Rightarrow> conformance" where
  "conf_all f [] A = Some (True, A)"
| "conf_all f (x # xs) A = conf_and (f x A) (conf_all f xs)"

lemma conf_and_mono [partial_function_mono]:
  assumes "mono_option r" "\<And>A. mono_option (\<lambda>f. k f A)"
  shows "mono_option (\<lambda>f. conf_and (r f) (k f))"
  unfolding conf_and_def
proof (intro bind_mono assms(1))
  fix y :: "bool \<times> conformance_assumption list"
  show "mono_option (\<lambda>f. case y of (b, A) \<Rightarrow> if b then k f A else Some (False, A))"
    by (cases y; cases "fst y") (simp_all add: assms(2) option.const_mono)
qed

lemma conf_all_mono [partial_function_mono]:
  assumes "\<And>x A. mono_option (\<lambda>f. g f x A)"
  shows "mono_option (\<lambda>f. conf_all (g f) xs A)"
proof (induction xs arbitrary: A)
  case (Cons x xs)
  then show ?case by (auto intro: conf_and_mono assms)
qed (simp add: option.const_mono)

definition element_facts :: "abstract_state \<Rightarrow> nat \<Rightarrow> abstract_value option" where
  "element_facts state site = map_of (as_elements_by_site state) site"

partial_function (option) value_conforms :: "bytecode_module \<Rightarrow> abstract_state \<Rightarrow> abstract_value \<Rightarrow> abstract_value \<Rightarrow>
    conformance_assumption list \<Rightarrow> conformance" where
  "value_conforms m state v expected A = (
     if is_poison v \<or> is_poison expected then Some (False, A)
     else if av_kind expected = AK_Nil \<and> is_canonical_nil_object v then Some (True, A)
     else if av_kind expected \<in> {AK_Record, AK_Variant} \<and> is_canonical_nil_object v then Some (av_nil expected, A)
     else if av_kind v = AK_MaybeReference \<and> av_target v \<noteq> None \<and> av_kind expected = AK_Object \<and>
         vf_signature_named_type (av expected) \<noteq> None then
       value_conforms m state (the (av_target v)) expected A
     else if av_kind v = AK_RefArray \<and> av_kind expected = AK_Object then
       Some (\<not> av_nil expected \<and> vf_signature_named_type (av expected) = None \<and> av_fields expected = None, A)
     else if av_kind v \<noteq> av_kind expected then Some (False, A)
     else if av_kind expected = AK_Weak then
       (if av_target v = None \<or> av_target expected = None then Some (False, A)
        else value_conforms m state (the (av_target v)) (the (av_target expected)) A)
     else if av_kind expected = AK_RefArray then
       (case av_element expected of None \<Rightarrow> Some (True, A)
        | Some element \<Rightarrow>
          conf_and (case av_element v of None \<Rightarrow> Some (True, A) | Some e \<Rightarrow> value_conforms m state e element A)
          (\<lambda>A. conf_and (conf_all (\<lambda>site A. case element_facts state site of None \<Rightarrow> Some (False, A)
              | Some e \<Rightarrow> value_conforms m state e element A) (vf_ref_array_sites (av v)) A)
          (\<lambda>A. Some (av_element v \<noteq> None \<or> vf_ref_array_sites (av v) \<noteq> [], A))))
     else if av_kind expected \<in> {AK_Map, AK_Ephemeron} then
       Some (vf_signature_map (av v) \<noteq> None \<and> vf_signature_map (av expected) \<noteq> None \<and>
         signature_values_equal (the (vf_signature_map (av v))) (the (vf_signature_map (av expected))), A)
     else if av_kind expected = AK_Function then
       Some (vf_signature_function (av v) \<noteq> None \<and> vf_signature_function (av expected) \<noteq> None \<and>
         signature_values_equal (the (vf_signature_function (av v))) (the (vf_signature_function (av expected))), A)
     else if av_kind expected = AK_Record then
       Some (vf_signature_record_layout (av v) \<noteq> None \<and>
         vf_signature_record_layout (av v) = vf_signature_record_layout (av expected) \<and>
         (\<not> av_nil v \<or> av_nil expected), A)
     else if av_kind expected = AK_Variant then
       Some (vf_signature_variant_layout (av v) \<noteq> None \<and>
         vf_signature_variant_layout (av v) = vf_signature_variant_layout (av expected) \<and>
         (\<not> av_nil v \<or> av_nil expected), A)
     else if av_kind expected \<noteq> AK_Object then Some (True, A)
     else case vf_signature_named_type (av expected) of
       Some n \<Rightarrow>
         (if n \<ge> length (m_named_types m) then Some (False, A)
          else if \<not> has_nonnil_object_evidence v then Some (av_nil v, A)
          else let nonnil = with_facts (\<lambda>x. x\<lparr>vf_includes_nil := False\<rparr>) v; assumption = (nonnil_shape nonnil, n) in
            if assumption \<in> set A then Some (True, A)
            else value_conforms m state nonnil (value_from_signature (nt_body (m_named_types m ! n))) (assumption # A))
     | None \<Rightarrow>
         (if av_nil v then Some (False, A)
          else case av_fields expected of None \<Rightarrow> Some (True, A)
          | Some fs \<Rightarrow> (case load_pair_field m state v True of None \<Rightarrow> Some (False, A)
            | Some l \<Rightarrow> (case load_pair_field m state v False of None \<Rightarrow> Some (False, A)
              | Some r \<Rightarrow> conf_and (value_conforms m state l (fst fs) A)
                  (\<lambda>A. value_conforms m state r (snd fs) A)))))"

declare value_conforms.simps [code]

definition value_conforms_to_expected :: "bytecode_module \<Rightarrow> abstract_state \<Rightarrow> abstract_value \<Rightarrow> abstract_value \<Rightarrow> bool verify" where
  "value_conforms_to_expected m state v expected = (case value_conforms m state v expected [] of
     None \<Rightarrow> None | Some (b, _) \<Rightarrow> vreturn b)"

definition value_conforms_to_signature :: "bytecode_module \<Rightarrow> abstract_state \<Rightarrow> abstract_value \<Rightarrow> signature_value \<Rightarrow> bool verify" where
  "value_conforms_to_signature m state v s = value_conforms_to_expected m state v (value_from_signature s)"

subsection \<open>Stores\<close>

fun store_sites :: "('a \<Rightarrow> 'a option) \<Rightarrow> nat list \<Rightarrow> (nat \<times> 'a) list \<Rightarrow> (nat \<times> 'a) list option" where
  "store_sites update [] table = Some table"
| "store_sites update (site # sites) table = (case map_of table site of
       None \<Rightarrow> None
     | Some x \<Rightarrow> (case update x of None \<Rightarrow> None | Some y \<Rightarrow> store_sites update sites (put_site site y table)))"

text \<open>\<open>None\<close> is the \<open>false\<close> of the code; the caller rejects.\<close>

definition store_field_fact :: "bytecode_module \<Rightarrow> abstract_state \<Rightarrow> abstract_value \<Rightarrow> bool \<Rightarrow> abstract_value \<Rightarrow>
    abstract_state option verify" where
  "store_field_fact m state receiver left v = (
     if av_nil receiver \<or> vf_includes_opaque_object (av receiver) \<and> av_fields receiver \<noteq> None then vreturn None
     else case signature_field m left receiver of
         None \<Rightarrow> vreturn None
       | Some expected \<Rightarrow> vbind (case expected of None \<Rightarrow> vreturn True | Some e \<Rightarrow> value_conforms_to_expected m state v e) (\<lambda>ok.
           if \<not> ok then vreturn None
           else case store_sites (\<lambda>fs. Some (put_field left (snd (join_value_into (pick_field left fs) v)) fs))
               (vf_object_sites (av receiver)) (as_fields_by_site state) of
               None \<Rightarrow> vreturn None
             | Some table \<Rightarrow> vreturn (if has_nonnil_object_evidence receiver
                 then Some (state\<lparr>as_fields_by_site := table\<rparr>) else None)))"

definition store_element_fact :: "bytecode_module \<Rightarrow> abstract_state \<Rightarrow> abstract_value \<Rightarrow> abstract_value \<Rightarrow>
    abstract_state option verify" where
  "store_element_fact m state receiver v =
     vbind (case av_element receiver of None \<Rightarrow> vreturn True | Some e \<Rightarrow> value_conforms_to_expected m state v e) (\<lambda>ok.
       if \<not> ok then vreturn None
       else case store_sites (\<lambda>e. let joined = join_ref_array_element_values e v in
               if is_poison joined then None else Some joined)
             (vf_ref_array_sites (av receiver)) (as_elements_by_site state) of
           None \<Rightarrow> vreturn None
         | Some table \<Rightarrow> vreturn (if av_element receiver \<noteq> None \<or> vf_ref_array_sites (av receiver) \<noteq> []
             then Some (state\<lparr>as_elements_by_site := table\<rparr>) else None))"

end
