(* ===== verification/BC_Transfer.thy ===== *)
theory BC_Transfer
  imports BC_Domain
begin

text \<open>
  The abstract effect of one instruction: \<open>transfer_instruction\<close> of \<open>src/bytecode.cpp\<close>.  It runs on a copy
  of the state before the instruction, which pops and pushes change, and gives the successors: the counters
  the instruction can go to, each with the state there.  The small definitions are the helpers that pop
  operands; the cases of the switch follow, grouped as the instruction set is.
\<close>

subsection \<open>Operations on the state\<close>

type_synonym 'a tx = "abstract_state \<Rightarrow> ('a \<times> abstract_state) verify"
type_synonym successors = "(nat \<times> abstract_state) list"

record verifier_site =
  vs_module :: bytecode_module
  vs_function :: nat
  vs_pc :: nat

definition site_function :: "verifier_site \<Rightarrow> bytecode_function" where
  "site_function c = m_functions (vs_module c) ! vs_function c"

definition treturn :: "'a \<Rightarrow> 'a tx" where "treturn x = (\<lambda>st. vreturn (x, st))"

definition tbind :: "'a tx \<Rightarrow> ('a \<Rightarrow> 'b tx) \<Rightarrow> 'b tx" where
  "tbind k f = (\<lambda>st. vbind (k st) (\<lambda>(x, st'). f x st'))"

definition tthen :: "unit tx \<Rightarrow> 'b tx \<Rightarrow> 'b tx" where "tthen k n = tbind k (\<lambda>_. n)"

definition treject :: "verifier_site \<Rightarrow> verifier_reason \<Rightarrow> 'a tx" where
  "treject c reason = (\<lambda>st. reject (vs_function c) (Some (vs_pc c)) reason)"

definition treject_if :: "verifier_site \<Rightarrow> bool \<Rightarrow> verifier_reason \<Rightarrow> unit tx" where
  "treject_if c b reason = (if b then treject c reason else treturn ())"

definition tassert :: "bool \<Rightarrow> unit tx" where
  "tassert b = (\<lambda>st. vthen (vassert b) (vreturn ((), st)))"

definition tgets :: "(abstract_state \<Rightarrow> 'a) \<Rightarrow> 'a tx" where "tgets f = (\<lambda>st. vreturn (f st, st))"

definition tmodify :: "(abstract_state \<Rightarrow> abstract_state) \<Rightarrow> unit tx" where "tmodify g = (\<lambda>st. vreturn ((), g st))"

definition push_abstract :: "abstract_value \<Rightarrow> unit tx" where
  "push_abstract v = tmodify (\<lambda>st. st\<lparr>as_stack := as_stack st @ [v]\<rparr>)"

definition pop_any :: "verifier_site \<Rightarrow> verifier_reason \<Rightarrow> abstract_value tx" where
  "pop_any c underflow = tbind (tgets as_stack) (\<lambda>stack.
     tthen (treject_if c (stack = []) underflow)
     (tthen (treject_if c (is_poison (last stack)) ''PoisonUse'')
     (tthen (tmodify (\<lambda>st. st\<lparr>as_stack := butlast (as_stack st)\<rparr>))
     (treturn (last stack)))))"

definition pop_expect :: "verifier_site \<Rightarrow> abstract_kind \<Rightarrow> verifier_reason \<Rightarrow> verifier_reason \<Rightarrow> abstract_value tx" where
  "pop_expect c expected underflow mismatch = tbind (pop_any c underflow) (\<lambda>actual.
     tthen (treject_if c (av_kind actual \<noteq> expected)
       (if av_kind actual = AK_MaybeReference then ''WeakTargetMayBeNil'' else mismatch))
     (treturn actual))"

definition pop_reference :: "verifier_site \<Rightarrow> verifier_reason \<Rightarrow> verifier_reason \<Rightarrow> abstract_value tx" where
  "pop_reference c underflow mismatch = tbind (pop_any c underflow) (\<lambda>actual.
     tthen (treject_if c (\<not> is_reference_kind (av_kind actual) \<or> av_kind actual = AK_MaybeReference \<or> av_nil actual) mismatch)
     (treturn actual))"

definition push_fallthrough :: "verifier_site \<Rightarrow> successors tx" where
  "push_fallthrough c = tthen (treject_if c (vs_pc c + 1 \<ge> length (fn_code (site_function c))) ''FallOffEnd'')
     (tgets (\<lambda>st. [(vs_pc c + 1, st)]))"

text \<open>Operands of fixed kinds, the last pushed first, then the result, if any.\<close>

fun pop_expects :: "verifier_site \<Rightarrow> (abstract_kind \<times> verifier_reason) list \<Rightarrow> unit tx" where
  "pop_expects c [] = treturn ()"
| "pop_expects c ((kind, mismatch) # operands) =
     tbind (pop_expect c kind ''StackUnderflow'' mismatch) (\<lambda>_. pop_expects c operands)"

fun push_results :: "abstract_value list \<Rightarrow> unit tx" where
  "push_results [] = treturn ()"
| "push_results (v # vs) = tthen (push_abstract v) (push_results vs)"

definition plain_transfer :: "verifier_site \<Rightarrow> (abstract_kind \<times> verifier_reason) list \<Rightarrow> abstract_value list \<Rightarrow> successors tx" where
  "plain_transfer c operands results = tthen (pop_expects c operands) (tthen (push_results results) (push_fallthrough c))"

definition push_then_fall :: "verifier_site \<Rightarrow> abstract_value \<Rightarrow> successors tx" where
  "push_then_fall c v = tthen (push_abstract v) (push_fallthrough c)"

text \<open>\<open>value_conforms_to_signature\<close> in the current state, rejecting when it does not hold.\<close>

definition check_conforms :: "verifier_site \<Rightarrow> abstract_value \<Rightarrow> signature_value \<Rightarrow> verifier_reason \<Rightarrow> unit tx" where
  "check_conforms c v s mismatch = (\<lambda>st. vbind (value_conforms_to_signature (vs_module c) st v s) (\<lambda>ok.
     if ok then vreturn ((), st) else treject c mismatch st))"

text \<open>Values for a list of types, given last first: fields, captures, arguments.\<close>

fun pop_conforming :: "verifier_site \<Rightarrow> verifier_reason \<Rightarrow> verifier_reason \<Rightarrow> signature_value list \<Rightarrow> unit tx" where
  "pop_conforming c underflow mismatch [] = treturn ()"
| "pop_conforming c underflow mismatch (s # ss) = tbind (pop_any c underflow) (\<lambda>v.
     tthen (check_conforms c v s mismatch) (pop_conforming c underflow mismatch ss))"

definition parameter_types :: "function_signature \<Rightarrow> signature_value list" where
  "parameter_types sig = map (parameter_signature sig) [0..<length (fs_parameters sig)]"

subsection \<open>Handlers\<close>

fun enclosing_handler_from :: "nat \<Rightarrow> nat option \<Rightarrow> exception_handler option \<Rightarrow> exception_handler list \<Rightarrow> exception_handler option" where
  "enclosing_handler_from pc layout selected [] = selected"
| "enclosing_handler_from pc layout selected (h # hs) = enclosing_handler_from pc layout
     (if eh_try_begin h < pc \<and> pc < eh_try_end h \<and> (layout = None \<or> eh_variant_layout h = the layout) \<and>
        (selected = None \<or> eh_try_begin h > eh_try_begin (the selected)) then Some h else selected) hs"

definition enclosing_handler :: "bytecode_function \<Rightarrow> nat \<Rightarrow> nat option \<Rightarrow> exception_handler option" where
  "enclosing_handler function pc layout = enclosing_handler_from pc layout None (fn_exception_handlers function)"

definition exception_successor :: "exception_handler \<Rightarrow> abstract_state \<Rightarrow> nat \<times> abstract_state" where
  "exception_successor h st = (eh_target h, st\<lparr>as_stack := [variant_value (eh_variant_layout h) False]\<rparr>)"

subsection \<open>Weak references and ephemerons\<close>

definition transfer_alloc_weak :: "verifier_site \<Rightarrow> successors tx" where
  "transfer_alloc_weak c = tbind (pop_reference c ''StackUnderflow'' ''BadWeakTargetType'') (\<lambda>target.
     push_then_fall c (weak_value target))"

definition transfer_weak_get :: "verifier_site \<Rightarrow> successors tx" where
  "transfer_weak_get c = tbind (pop_any c ''StackUnderflow'') (\<lambda>receiver.
     tthen (treject_if c (av_kind receiver \<noteq> AK_Weak \<or> av_target receiver = None) ''WeakOperationOnNonWeak'')
     (push_then_fall c (maybe_reference_value (the (av_target receiver)))))"

definition transfer_alloc_ephemeron :: "verifier_site \<Rightarrow> instruction \<Rightarrow> successors tx" where
  "transfer_alloc_ephemeron c ins = (let layouts = m_ephemeron_layouts (vs_module c); layout = layouts ! unat (i_operand ins) in
     tthen (treject_if c (\<not> in_table (i_operand ins) (length layouts)) ''BadEphemeronLayoutIndex'')
     (tbind (pop_any c ''StackUnderflow'') (\<lambda>v.
     tbind (pop_reference c ''StackUnderflow'' ''BadEphemeronKeyType'') (\<lambda>key.
     tthen (check_conforms c key (el_key_type layout) ''BadEphemeronKeyType'')
     (tthen (check_conforms c v (el_value_type layout) ''EphemeronValueTypeMismatch'')
     (push_then_fall c (ephemeron_value (ephemeron_signature (el_key_type layout) (el_value_type layout)))))))))"

definition pop_ephemeron :: "verifier_site \<Rightarrow> signature_value tx" where
  "pop_ephemeron c = tbind (pop_any c ''StackUnderflow'') (\<lambda>receiver.
     tthen (treject_if c (av_kind receiver \<noteq> AK_Ephemeron \<or> vf_signature_map (av receiver) = None \<or>
        \<not> has_ephemeron_entries (the (vf_signature_map (av receiver)))) ''EphemeronOperationOnNonEphemeron'')
     (treturn (the (vf_signature_map (av receiver)))))"

definition transfer_ephemeron_key :: "verifier_site \<Rightarrow> successors tx" where
  "transfer_ephemeron_key c = tbind (pop_ephemeron c) (\<lambda>s.
     push_then_fall c (maybe_reference_value (value_from_signature (the (sg_key s)))))"

definition transfer_ephemeron_value :: "verifier_site \<Rightarrow> successors tx" where
  "transfer_ephemeron_value c = tbind (pop_ephemeron c) (\<lambda>s.
     let loaded = value_from_signature (the (sg_value s)) in
     push_then_fall c (if signature_value_is_reference (the (sg_value s)) then maybe_reference_value loaded else loaded))"

definition transfer_ephemeron_set_value :: "verifier_site \<Rightarrow> successors tx" where
  "transfer_ephemeron_set_value c = tbind (pop_any c ''StackUnderflow'') (\<lambda>stored.
     tbind (pop_ephemeron c) (\<lambda>s.
     tthen (check_conforms c stored (the (sg_value s)) ''EphemeronValueTypeMismatch'') (push_fallthrough c)))"

definition transfer_is_nil :: "verifier_site \<Rightarrow> successors tx" where
  "transfer_is_nil c = tbind (pop_any c ''StackUnderflow'') (\<lambda>v.
     tthen (treject_if c (\<not> is_reference_kind (av_kind v)) ''TypeMismatch'')
     (push_then_fall c (with_facts (\<lambda>x. x\<lparr>vf_nil_test_local := vf_source_local (av v)\<rparr>) bool_value)))"

subsection \<open>Pairs, records and variants\<close>

text \<open>\<open>emplace\<close>: the facts of the site are those of its first allocation, joined with the later ones.\<close>

definition allocate_site :: "nat \<Rightarrow> pair_fields \<Rightarrow> abstract_state \<Rightarrow> abstract_state" where
  "allocate_site pc allocated st = st\<lparr>as_fields_by_site := put_site pc (case map_of (as_fields_by_site st) pc of
       None \<Rightarrow> allocated
     | Some fs \<Rightarrow> (snd (join_value_into (fst fs) (fst allocated)), snd (join_value_into (snd fs) (snd allocated))))
     (as_fields_by_site st)\<rparr>"

definition transfer_alloc_pair :: "verifier_site \<Rightarrow> successors tx" where
  "transfer_alloc_pair c = tbind (pop_any c ''StackUnderflow'') (\<lambda>right. tbind (pop_any c ''StackUnderflow'') (\<lambda>left.
     tthen (tmodify (allocate_site (vs_pc c) (without_provenance left, without_provenance right)))
     (push_then_fall c (object_value (vs_pc c)))))"

definition transfer_get_field :: "verifier_site \<Rightarrow> bool \<Rightarrow> successors tx" where
  "transfer_get_field c left = tbind (pop_expect c AK_Object ''StackUnderflow'' ''TypeMismatch'') (\<lambda>receiver.
     tbind (tgets (\<lambda>st. load_pair_field (vs_module c) st receiver left)) (\<lambda>loaded.
     case loaded of None \<Rightarrow> treject c ''BadPairFieldRead''
     | Some v \<Rightarrow> tthen (treject_if c (is_poison v) ''PoisonUse'') (push_then_fall c v)))"

text \<open>The state after a store, or a rejection.\<close>

definition stored_or_reject :: "verifier_site \<Rightarrow> verifier_reason \<Rightarrow> (abstract_state \<Rightarrow> abstract_state option verify) \<Rightarrow> unit tx" where
  "stored_or_reject c mismatch store = (\<lambda>st. vbind (store st) (\<lambda>r. case r of
     None \<Rightarrow> treject c mismatch st | Some st' \<Rightarrow> vreturn ((), st')))"

definition transfer_set_field :: "verifier_site \<Rightarrow> bool \<Rightarrow> successors tx" where
  "transfer_set_field c left = tbind (pop_any c ''StackUnderflow'') (\<lambda>v.
     tbind (pop_expect c AK_Object ''StackUnderflow'' ''TypeMismatch'') (\<lambda>receiver.
     tthen (stored_or_reject c ''BadPairFieldWrite''
       (\<lambda>st. store_field_fact (vs_module c) st receiver left (without_provenance v)))
     (push_fallthrough c)))"

definition transfer_alloc_record :: "verifier_site \<Rightarrow> instruction \<Rightarrow> successors tx" where
  "transfer_alloc_record c ins = (let layouts = m_record_layouts (vs_module c); index = unat (i_operand ins);
       types = rl_field_types (layouts ! index) in
     tthen (treject_if c (\<not> in_table (i_operand ins) (length layouts)) ''BadRecordLayoutIndex'')
     (tbind (tgets (\<lambda>st. length (as_stack st))) (\<lambda>height.
     tthen (treject_if c (height < length types) ''BadRecordInitializerArity'')
     (tthen (pop_conforming c ''BadRecordInitializerArity'' ''BadRecordInitializerType'' (rev types))
     (push_then_fall c (record_value index False))))))"

definition record_receiver_check :: "verifier_site \<Rightarrow> nat \<Rightarrow> abstract_value \<Rightarrow> unit tx" where
  "record_receiver_check c index receiver =
     tthen (treject_if c (av_kind receiver \<noteq> AK_Record) ''RecordOperationOnNonRecord'')
     (tthen (treject_if c (av_nil receiver) ''RecordReceiverMayBeNil'')
     (treject_if c (vf_signature_record_layout (av receiver) \<noteq> Some index) ''RecordLayoutMismatch''))"

definition check_record_operands :: "verifier_site \<Rightarrow> instruction \<Rightarrow> unit tx" where
  "check_record_operands c ins = (let layouts = m_record_layouts (vs_module c) in
     tthen (treject_if c (\<not> in_table (i_operand ins) (length layouts)) ''BadRecordLayoutIndex'')
     (treject_if c (\<not> in_table (i_operand2 ins) (length (rl_field_types (layouts ! unat (i_operand ins))))) ''BadRecordFieldIndex''))"

definition transfer_record_get :: "verifier_site \<Rightarrow> instruction \<Rightarrow> successors tx" where
  "transfer_record_get c ins = tthen (check_record_operands c ins)
     (tbind (pop_any c ''StackUnderflow'') (\<lambda>receiver.
     tthen (record_receiver_check c (unat (i_operand ins)) receiver)
     (push_then_fall c (value_from_signature
       (rl_field_types (m_record_layouts (vs_module c) ! unat (i_operand ins)) ! unat (i_operand2 ins))))))"

definition transfer_record_set :: "verifier_site \<Rightarrow> instruction \<Rightarrow> successors tx" where
  "transfer_record_set c ins = tthen (check_record_operands c ins)
     (tbind (pop_any c ''StackUnderflow'') (\<lambda>stored. tbind (pop_any c ''StackUnderflow'') (\<lambda>receiver.
     tthen (record_receiver_check c (unat (i_operand ins)) receiver)
     (tthen (check_conforms c stored
       (rl_field_types (m_record_layouts (vs_module c) ! unat (i_operand ins)) ! unat (i_operand2 ins)) ''RecordFieldTypeMismatch'')
     (push_fallthrough c)))))"

definition check_variant_operands :: "verifier_site \<Rightarrow> instruction \<Rightarrow> unit tx" where
  "check_variant_operands c ins = (let layouts = m_variant_layouts (vs_module c) in
     tthen (treject_if c (\<not> in_table (i_operand ins) (length layouts)) ''BadVariantLayoutIndex'')
     (treject_if c (\<not> in_table (i_operand2 ins) (length (vl_cases (layouts ! unat (i_operand ins))))) ''BadVariantCaseIndex''))"

definition variant_case :: "verifier_site \<Rightarrow> instruction \<Rightarrow> variant_case_layout" where
  "variant_case c ins = vl_cases (m_variant_layouts (vs_module c) ! unat (i_operand ins)) ! unat (i_operand2 ins)"

definition transfer_alloc_variant :: "verifier_site \<Rightarrow> instruction \<Rightarrow> successors tx" where
  "transfer_alloc_variant c ins = (let types = vc_field_types (variant_case c ins) in
     tthen (check_variant_operands c ins)
     (tbind (tgets (\<lambda>st. length (as_stack st))) (\<lambda>height.
     tthen (treject_if c (height < length types) ''BadVariantInitializerArity'')
     (tthen (pop_conforming c ''BadVariantInitializerArity'' ''BadVariantInitializerType'' (rev types))
     (push_then_fall c (variant_value (unat (i_operand ins)) False))))))"

definition variant_receiver_check :: "verifier_site \<Rightarrow> abstract_value \<Rightarrow> unit tx" where
  "variant_receiver_check c receiver =
     tthen (treject_if c (av_kind receiver \<noteq> AK_Variant) ''VariantOperationOnNonVariant'')
     (treject_if c (av_nil receiver) ''VariantReceiverMayBeNil'')"

definition transfer_variant_tag :: "verifier_site \<Rightarrow> successors tx" where
  "transfer_variant_tag c = tbind (pop_any c ''StackUnderflow'') (\<lambda>receiver.
     tthen (variant_receiver_check c receiver) (push_then_fall c int64_value))"

definition transfer_variant_get :: "verifier_site \<Rightarrow> instruction \<Rightarrow> successors tx" where
  "transfer_variant_get c ins = (let types = vc_field_types (variant_case c ins) in
     tthen (check_variant_operands c ins)
     (tthen (treject_if c (\<not> in_table (i_operand3 ins) (length types)) ''BadVariantFieldIndex'')
     (tbind (pop_any c ''StackUnderflow'') (\<lambda>receiver.
     tthen (variant_receiver_check c receiver)
     (tthen (treject_if c (vf_signature_variant_layout (av receiver) \<noteq> Some (unat (i_operand ins))) ''VariantLayoutMismatch'')
     (push_then_fall c (value_from_signature (types ! unat (i_operand3 ins)))))))))"

subsection \<open>Regions and exceptions\<close>

definition transfer_delimiter :: "verifier_site \<Rightarrow> (exception_handler \<Rightarrow> nat) \<Rightarrow> instruction \<Rightarrow> successors tx" where
  "transfer_delimiter c bound ins = (let handlers = fn_exception_handlers (site_function c) in
     tthen (treject_if c (\<not> in_table (i_operand ins) (length handlers) \<or>
        bound (handlers ! unat (i_operand ins)) \<noteq> vs_pc c) ''BadExceptionHandler'') (push_fallthrough c))"

definition transfer_throw :: "verifier_site \<Rightarrow> successors tx" where
  "transfer_throw c = tbind (pop_any c ''StackUnderflow'') (\<lambda>thrown.
     tthen (treject_if c (av_kind thrown \<noteq> AK_Variant \<or> av_nil thrown \<or> vf_signature_variant_layout (av thrown) = None)
       ''ThrowRequiresVariant'')
     (tgets (\<lambda>st. case enclosing_handler (site_function c) (vs_pc c) (vf_signature_variant_layout (av thrown)) of
        None \<Rightarrow> [] | Some h \<Rightarrow> [exception_successor h st])))"

subsection \<open>Arrays and maps\<close>

definition transfer_array_len :: "verifier_site \<Rightarrow> successors tx" where
  "transfer_array_len c = tbind (pop_any c ''StackUnderflow'') (\<lambda>receiver.
     tthen (treject_if c (av_kind receiver \<noteq> AK_Array \<and> av_kind receiver \<noteq> AK_RefArray) ''BadArrayOperation'')
     (push_then_fall c int64_value))"

definition transfer_alloc_ref_array :: "verifier_site \<Rightarrow> successors tx" where
  "transfer_alloc_ref_array c = tbind (pop_reference c ''StackUnderflow'' ''BadArrayOperation'') (\<lambda>init.
     tbind (pop_expect c AK_Int64 ''StackUnderflow'' ''BadArrayOperation'') (\<lambda>_.
     tthen (tmodify (\<lambda>st. st\<lparr>as_elements_by_site := put_site (vs_pc c) (without_provenance init) (as_elements_by_site st)\<rparr>))
     (push_then_fall c (ref_array_value [vs_pc c]))))"

definition transfer_ref_array_get :: "verifier_site \<Rightarrow> successors tx" where
  "transfer_ref_array_get c = tbind (pop_expect c AK_Int64 ''StackUnderflow'' ''BadArrayOperation'') (\<lambda>_.
     tbind (pop_expect c AK_RefArray ''StackUnderflow'' ''BadArrayOperation'') (\<lambda>receiver.
     tbind (tgets (\<lambda>st. load_ref_array_element st receiver)) (\<lambda>loaded.
     case loaded of None \<Rightarrow> treject c ''BadArrayOperation'' | Some v \<Rightarrow> push_then_fall c v)))"

definition transfer_ref_array_set :: "verifier_site \<Rightarrow> successors tx" where
  "transfer_ref_array_set c = tbind (pop_reference c ''StackUnderflow'' ''BadArrayOperation'') (\<lambda>v.
     tbind (pop_expect c AK_Int64 ''StackUnderflow'' ''BadArrayOperation'') (\<lambda>_.
     tbind (pop_expect c AK_RefArray ''StackUnderflow'' ''BadArrayOperation'') (\<lambda>receiver.
     tthen (stored_or_reject c ''BadArrayOperation''
       (\<lambda>st. store_element_fact (vs_module c) st receiver (without_provenance v)))
     (push_fallthrough c))))"

definition transfer_alloc_map :: "verifier_site \<Rightarrow> instruction \<Rightarrow> successors tx" where
  "transfer_alloc_map c ins = (let layouts = m_map_layouts (vs_module c); layout = layouts ! unat (i_operand ins) in
     tthen (treject_if c (\<not> in_table (i_operand ins) (length layouts)) ''BadMapLayoutIndex'')
     (push_then_fall c (map_value (map_signature (ml_key_type layout) (ml_value_type layout)))))"

definition map_receiver_check :: "verifier_site \<Rightarrow> verifier_reason \<Rightarrow> abstract_value \<Rightarrow> signature_value tx" where
  "map_receiver_check c mismatch receiver =
     tthen (treject_if c (av_kind receiver \<noteq> AK_Map \<or> vf_signature_map (av receiver) = None \<or>
        \<not> has_map_entries (the (vf_signature_map (av receiver)))) mismatch)
     (treturn (the (vf_signature_map (av receiver))))"

definition transfer_map_read :: "verifier_site \<Rightarrow> bool \<Rightarrow> successors tx" where
  "transfer_map_read c has = tbind (pop_any c ''StackUnderflow'') (\<lambda>key. tbind (pop_any c ''StackUnderflow'') (\<lambda>receiver.
     tbind (map_receiver_check c ''MapOperationOnNonMap'' receiver) (\<lambda>s.
     tthen (check_conforms c key (the (sg_key s)) ''MapKeyTypeMismatch'')
     (push_then_fall c (if has then bool_value else value_from_signature (the (sg_value s)))))))"

definition transfer_map_set :: "verifier_site \<Rightarrow> successors tx" where
  "transfer_map_set c = tbind (pop_any c ''StackUnderflow'') (\<lambda>stored. tbind (pop_any c ''StackUnderflow'') (\<lambda>key.
     tbind (pop_any c ''StackUnderflow'') (\<lambda>receiver.
     tbind (map_receiver_check c ''MapOperationOnNonMap'' receiver) (\<lambda>s.
     tthen (check_conforms c key (the (sg_key s)) ''MapKeyTypeMismatch'')
     (tthen (check_conforms c stored (the (sg_value s)) ''MapValueTypeMismatch'') (push_fallthrough c))))))"

definition transfer_map_len :: "verifier_site \<Rightarrow> successors tx" where
  "transfer_map_len c = tbind (pop_any c ''StackUnderflow'') (\<lambda>receiver.
     tbind (map_receiver_check c ''MapOperationOnNonMap'' receiver) (\<lambda>_. push_then_fall c int64_value))"

definition transfer_map_at :: "verifier_site \<Rightarrow> (signature_value \<Rightarrow> signature_value option) \<Rightarrow> successors tx" where
  "transfer_map_at c part = tbind (pop_expect c AK_Int64 ''StackUnderflow'' ''BadMapPositionAccess'') (\<lambda>_.
     tbind (pop_any c ''StackUnderflow'') (\<lambda>receiver.
     tbind (map_receiver_check c ''BadMapPositionAccess'' receiver) (\<lambda>s.
     push_then_fall c (value_from_signature (the (part s))))))"

subsection \<open>Locals and jumps\<close>

definition transfer_load_local :: "verifier_site \<Rightarrow> instruction \<Rightarrow> successors tx" where
  "transfer_load_local c ins = (let i = unat (i_operand ins) in
     tthen (treject_if c (\<not> in_table (i_operand ins) (unat (fn_local_count (site_function c)))) ''BadLocalIndex'')
     (tbind (tgets (\<lambda>st. as_locals st ! i)) (\<lambda>local.
     case local of None \<Rightarrow> treject c ''UninitializedLocal''
     | Some v \<Rightarrow> tthen (treject_if c (is_poison v) ''PoisonUse'')
         (push_then_fall c (with_facts (\<lambda>x. x\<lparr>vf_source_local := Some i, vf_nil_test_local := None\<rparr>) v)))))"

definition transfer_store_local :: "verifier_site \<Rightarrow> instruction \<Rightarrow> successors tx" where
  "transfer_store_local c ins = (let i = unat (i_operand ins) in
     tthen (treject_if c (\<not> in_table (i_operand ins) (unat (fn_local_count (site_function c)))) ''BadLocalIndex'')
     (tbind (pop_any c ''StackUnderflow'') (\<lambda>stored.
     tthen (tmodify (\<lambda>st. st\<lparr>as_locals := (as_locals st)[i := Some (without_provenance stored)],
       as_local_reference_kinds := (as_local_reference_kinds st)[i := Some (is_reference_kind (av_kind stored))]\<rparr>))
     (push_fallthrough c))))"

definition transfer_jump :: "verifier_site \<Rightarrow> instruction \<Rightarrow> successors tx" where
  "transfer_jump c ins = tthen (treject_if c (\<not> in_table (i_operand ins) (length (fn_code (site_function c)))) ''BadJumpTarget'')
     (tgets (\<lambda>st. [(unat (i_operand ins), st)]))"

text \<open>A test of a local for nil refines the local on both branches.\<close>

definition refine_if_nil :: "nat option \<Rightarrow> abstract_state \<Rightarrow> abstract_state" where
  "refine_if_nil tested st = (case tested of None \<Rightarrow> st
     | Some i \<Rightarrow> (if i < length (as_locals st) then (case as_locals st ! i of None \<Rightarrow> st
         | Some v \<Rightarrow> (if av_kind v \<noteq> AK_MaybeReference
             then st\<lparr>as_locals := (as_locals st)[i := Some nil_object_value]\<rparr> else st)) else st))"

definition refine_if_not_nil :: "nat option \<Rightarrow> abstract_state \<Rightarrow> abstract_state" where
  "refine_if_not_nil tested st = (case tested of None \<Rightarrow> st
     | Some i \<Rightarrow> (if i < length (as_locals st) then (case as_locals st ! i of None \<Rightarrow> st
         | Some v \<Rightarrow> st\<lparr>as_locals := (as_locals st)[i := Some (
             if av_kind v = AK_MaybeReference \<and> av_target v \<noteq> None then without_provenance (the (av_target v))
             else with_facts (\<lambda>x. x\<lparr>vf_includes_nil := False\<rparr>) v)]\<rparr>) else st))"

definition transfer_jump_if_false :: "verifier_site \<Rightarrow> instruction \<Rightarrow> successors tx" where
  "transfer_jump_if_false c ins =
     tthen (treject_if c (\<not> in_table (i_operand ins) (length (fn_code (site_function c)))) ''BadJumpTarget'')
     (tbind (pop_expect c AK_Bool ''StackUnderflow'' ''TypeMismatch'') (\<lambda>condition.
     let tested = vf_nil_test_local (av condition) in
     tbind (tgets (\<lambda>st. (unat (i_operand ins), refine_if_not_nil tested st))) (\<lambda>not_taken.
     tthen (tmodify (refine_if_nil tested))
     (tbind (push_fallthrough c) (\<lambda>taken. treturn (not_taken # taken))))))"

subsection \<open>Closures and calls\<close>

definition transfer_alloc_closure :: "verifier_site \<Rightarrow> instruction \<Rightarrow> successors tx" where
  "transfer_alloc_closure c ins = (let layouts = m_closure_layouts (vs_module c); layout = layouts ! unat (i_operand ins) in
     tthen (treject_if c (\<not> in_table (i_operand ins) (length layouts)) ''BadClosureLayoutIndex'')
     (tthen (pop_conforming c ''BadClosureCaptureArity'' ''BadClosureCaptureType'' (rev (cl_capture_types layout)))
     (push_then_fall c (value_from_signature (cl_function_type layout)))))"

definition transfer_call_closure :: "verifier_site \<Rightarrow> successors tx" where
  "transfer_call_closure c = tbind (pop_any c ''BadClosureCallArity'') (\<lambda>callee.
     let s = the (vf_signature_function (av callee)) in
     tthen (treject_if c (av_kind callee \<noteq> AK_Function \<or> vf_signature_function (av callee) = None \<or>
       \<not> has_function_signature s) ''CallClosureOnNonFunction'')
     (tthen (pop_conforming c ''BadClosureCallArity'' ''BadClosureCallArgKind'' (rev (sg_function_parameters s)))
     (push_then_fall c (value_from_signature (the (sg_function_return s))))))"

definition transfer_load_capture :: "verifier_site \<Rightarrow> instruction \<Rightarrow> successors tx" where
  "transfer_load_capture c ins = (case fn_closure_layout (site_function c) of
       None \<Rightarrow> treject c ''LoadCaptureOutsideClosureBody''
     | Some l \<Rightarrow> (let layouts = m_closure_layouts (vs_module c); types = cl_capture_types (layouts ! l) in
         tthen (tassert (l < length layouts))
         (tthen (treject_if c (\<not> in_table (i_operand ins) (length types)) ''LoadCaptureOutOfRange'')
         (push_then_fall c (value_from_signature (types ! unat (i_operand ins)))))))"

text \<open>A direct call cannot name a closure body that needs captures.\<close>

definition check_no_captures :: "verifier_site \<Rightarrow> verifier_reason \<Rightarrow> bytecode_function \<Rightarrow> unit tx" where
  "check_no_captures c reason callee = (case fn_closure_layout callee of
       None \<Rightarrow> treturn ()
     | Some l \<Rightarrow> tthen (tassert (l < length (m_closure_layouts (vs_module c))))
         (treject_if c (cl_capture_types (m_closure_layouts (vs_module c) ! l) \<noteq> []) reason))"

definition transfer_call :: "verifier_site \<Rightarrow> instruction \<Rightarrow> successors tx" where
  "transfer_call c ins = (let functions = m_functions (vs_module c); callee = functions ! unat (i_operand ins) in
     tthen (treject_if c (\<not> in_table (i_operand ins) (length functions)) ''BadCallTarget'')
     (tthen (check_no_captures c ''BadCallTarget'' callee)
     (tthen (pop_conforming c ''BadCallArity'' ''BadCallArgKind'' (rev (parameter_types (fn_signature callee))))
     (push_then_fall c (value_from_signature (return_signature (fn_signature callee)))))))"

definition transfer_tail_call :: "verifier_site \<Rightarrow> instruction \<Rightarrow> successors tx" where
  "transfer_tail_call c ins = (let functions = m_functions (vs_module c); callee = functions ! unat (i_operand ins);
       types = parameter_types (fn_signature callee) in
     tthen (treject_if c (enclosing_handler (site_function c) (vs_pc c) None \<noteq> None) ''TailCallInTryRegion'')
     (tthen (treject_if c (\<not> in_table (i_operand ins) (length functions)) ''BadTailCallTarget'')
     (tthen (check_no_captures c ''BadTailCallTarget'' callee)
     (tthen (treject_if c (\<not> signature_values_equal (return_signature (fn_signature callee))
        (return_signature (fn_signature (site_function c)))) ''TailCallReturnTypeMismatch'')
     (tbind (tgets (\<lambda>st. length (as_stack st))) (\<lambda>height.
     tthen (treject_if c (height < length types) ''BadTailCallArity'')
     (tthen (treject_if c (height > length types) ''TailCallStackShapeMismatch'')
     (tthen (pop_conforming c ''BadTailCallArity'' ''BadTailCallArgKind'' (rev types))
     (treturn [])))))))))"

definition transfer_return :: "verifier_site \<Rightarrow> successors tx" where
  "transfer_return c = tbind (pop_any c ''StackUnderflow'') (\<lambda>returned.
     tthen (check_conforms c returned (return_signature (fn_signature (site_function c))) ''BadReturnKind'')
     (treturn []))"

subsection \<open>Instructions with operands of fixed kinds\<close>

definition transfer_constant_i64 :: "verifier_site \<Rightarrow> successors tx" where
  "transfer_constant_i64 c = plain_transfer c [] [int64_value]"

definition transfer_str_len :: "verifier_site \<Rightarrow> successors tx" where
  "transfer_str_len c = plain_transfer c [(AK_Str, ''BadStringOperation'')] [int64_value]"

definition transfer_str_eq :: "verifier_site \<Rightarrow> successors tx" where
  "transfer_str_eq c = plain_transfer c [(AK_Str, ''BadStringOperation''), (AK_Str, ''BadStringOperation'')] [bool_value]"

definition transfer_str_concat :: "verifier_site \<Rightarrow> successors tx" where
  "transfer_str_concat c = plain_transfer c [(AK_Str, ''BadStringOperation''), (AK_Str, ''BadStringOperation'')] [str_value]"

definition transfer_str_intern :: "verifier_site \<Rightarrow> successors tx" where
  "transfer_str_intern c = plain_transfer c [(AK_Str, ''StrInternRequiresStr'')] [str_value]"

definition transfer_str_sub :: "verifier_site \<Rightarrow> successors tx" where
  "transfer_str_sub c = plain_transfer c [(AK_Int64, ''StrSubRequiresI64Bounds''), (AK_Int64, ''StrSubRequiresI64Bounds''), (AK_Str, ''StrSubRequiresStr'')] [str_value]"

definition transfer_str_lt :: "verifier_site \<Rightarrow> successors tx" where
  "transfer_str_lt c = plain_transfer c [(AK_Str, ''StrLtRequiresStr''), (AK_Str, ''StrLtRequiresStr'')] [bool_value]"

definition transfer_str_index :: "verifier_site \<Rightarrow> successors tx" where
  "transfer_str_index c = plain_transfer c [(AK_Int64, ''BadStringOperation''), (AK_Str, ''BadStringOperation'')] [int64_value]"

definition transfer_print :: "verifier_site \<Rightarrow> successors tx" where
  "transfer_print c = plain_transfer c [(AK_Str, ''PrintRequiresStr'')] []"

definition transfer_i64_to_str :: "verifier_site \<Rightarrow> successors tx" where
  "transfer_i64_to_str c = plain_transfer c [(AK_Int64, ''I64ToStrRequiresI64'')] [str_value]"

definition transfer_str_to_i64 :: "verifier_site \<Rightarrow> successors tx" where
  "transfer_str_to_i64 c = plain_transfer c [(AK_Str, ''StrToI64RequiresStr'')] [int64_value]"

definition transfer_bool_to_str :: "verifier_site \<Rightarrow> successors tx" where
  "transfer_bool_to_str c = plain_transfer c [(AK_Bool, ''BoolToStrRequiresBool'')] [str_value]"

definition transfer_nil :: "verifier_site \<Rightarrow> successors tx" where
  "transfer_nil c = plain_transfer c [] [nil_object_value]"

definition transfer_add_i64 :: "verifier_site \<Rightarrow> successors tx" where
  "transfer_add_i64 c = plain_transfer c [(AK_Int64, ''TypeMismatch''), (AK_Int64, ''TypeMismatch'')] [int64_value]"

definition transfer_i64_abs :: "verifier_site \<Rightarrow> successors tx" where
  "transfer_i64_abs c = plain_transfer c [(AK_Int64, ''I64AbsRequiresI64'')] [int64_value]"

definition transfer_alloc_builder :: "verifier_site \<Rightarrow> successors tx" where
  "transfer_alloc_builder c = plain_transfer c [] [builder_value]"

definition transfer_builder_append :: "verifier_site \<Rightarrow> successors tx" where
  "transfer_builder_append c = plain_transfer c [(AK_Str, ''BuilderAppendRequiresStr''), (AK_Builder, ''BuilderOperationOnNonBuilder'')] []"

definition transfer_builder_len :: "verifier_site \<Rightarrow> successors tx" where
  "transfer_builder_len c = plain_transfer c [(AK_Builder, ''BuilderOperationOnNonBuilder'')] [int64_value]"

definition transfer_builder_to_str :: "verifier_site \<Rightarrow> successors tx" where
  "transfer_builder_to_str c = plain_transfer c [(AK_Builder, ''BuilderOperationOnNonBuilder'')] [str_value]"

definition transfer_builder_clear :: "verifier_site \<Rightarrow> successors tx" where
  "transfer_builder_clear c = plain_transfer c [(AK_Builder, ''BuilderOperationOnNonBuilder'')] []"

definition transfer_less_i64 :: "verifier_site \<Rightarrow> successors tx" where
  "transfer_less_i64 c = plain_transfer c [(AK_Int64, ''TypeMismatch''), (AK_Int64, ''TypeMismatch'')] [bool_value]"

definition transfer_alloc_array :: "verifier_site \<Rightarrow> successors tx" where
  "transfer_alloc_array c = plain_transfer c [(AK_Int64, ''BadArrayOperation''), (AK_Int64, ''BadArrayOperation'')] [array_value]"

definition transfer_array_get :: "verifier_site \<Rightarrow> successors tx" where
  "transfer_array_get c = plain_transfer c [(AK_Int64, ''BadArrayOperation''), (AK_Array, ''BadArrayOperation'')] [int64_value]"

definition transfer_array_set :: "verifier_site \<Rightarrow> successors tx" where
  "transfer_array_set c = plain_transfer c [(AK_Int64, ''BadArrayOperation''), (AK_Int64, ''BadArrayOperation''), (AK_Array, ''BadArrayOperation'')] []"

definition transfer_collect :: "verifier_site \<Rightarrow> successors tx" where
  "transfer_collect c = plain_transfer c [] []"

definition transfer_push_str :: "verifier_site \<Rightarrow> instruction \<Rightarrow> successors tx" where
  "transfer_push_str c ins =
     tthen (treject_if c (\<not> in_table (i_operand ins) (length (m_string_constants (vs_module c)))) ''BadStringConstantIndex'')
     (push_then_fall c str_value)"

subsection \<open>The switch\<close>

definition transfer :: "verifier_site \<Rightarrow> instruction \<Rightarrow> successors tx" where
  "transfer c ins = (case i_op ins of
       Op_ConstantI64 \<Rightarrow> transfer_constant_i64 c
     | Op_PushStr \<Rightarrow> transfer_push_str c ins
     | Op_StrLen \<Rightarrow> transfer_str_len c
     | Op_StrEq \<Rightarrow> transfer_str_eq c
     | Op_StrConcat \<Rightarrow> transfer_str_concat c
     | Op_StrIntern \<Rightarrow> transfer_str_intern c
     | Op_StrSub \<Rightarrow> transfer_str_sub c
     | Op_StrLt \<Rightarrow> transfer_str_lt c
     | Op_StrIndex \<Rightarrow> transfer_str_index c
     | Op_Print \<Rightarrow> transfer_print c
     | Op_I64ToStr \<Rightarrow> transfer_i64_to_str c
     | Op_StrToI64 \<Rightarrow> transfer_str_to_i64 c
     | Op_BoolToStr \<Rightarrow> transfer_bool_to_str c
     | Op_Nil \<Rightarrow> transfer_nil c
     | Op_AllocWeak \<Rightarrow> transfer_alloc_weak c
     | Op_WeakGet \<Rightarrow> transfer_weak_get c
     | Op_AllocEphemeron \<Rightarrow> transfer_alloc_ephemeron c ins
     | Op_EphemeronKey \<Rightarrow> transfer_ephemeron_key c
     | Op_EphemeronValue \<Rightarrow> transfer_ephemeron_value c
     | Op_EphemeronSetValue \<Rightarrow> transfer_ephemeron_set_value c
     | Op_IsNil \<Rightarrow> transfer_is_nil c
     | Op_AddI64 \<Rightarrow> transfer_add_i64 c
     | Op_I64Abs \<Rightarrow> transfer_i64_abs c
     | Op_AllocBuilder \<Rightarrow> transfer_alloc_builder c
     | Op_BuilderAppend \<Rightarrow> transfer_builder_append c
     | Op_BuilderLen \<Rightarrow> transfer_builder_len c
     | Op_BuilderToStr \<Rightarrow> transfer_builder_to_str c
     | Op_BuilderClear \<Rightarrow> transfer_builder_clear c
     | Op_LessI64 \<Rightarrow> transfer_less_i64 c
     | Op_AllocPair \<Rightarrow> transfer_alloc_pair c
     | Op_AllocRecord \<Rightarrow> transfer_alloc_record c ins
     | Op_RecordGet \<Rightarrow> transfer_record_get c ins
     | Op_RecordSet \<Rightarrow> transfer_record_set c ins
     | Op_AllocVariant \<Rightarrow> transfer_alloc_variant c ins
     | Op_VariantTag \<Rightarrow> transfer_variant_tag c
     | Op_VariantGet \<Rightarrow> transfer_variant_get c ins
     | Op_TryBegin \<Rightarrow> transfer_delimiter c eh_try_begin ins
     | Op_TryEnd \<Rightarrow> transfer_delimiter c eh_try_end ins
     | Op_Throw \<Rightarrow> transfer_throw c
     | Op_AllocArray \<Rightarrow> transfer_alloc_array c
     | Op_ArrayGet \<Rightarrow> transfer_array_get c
     | Op_ArraySet \<Rightarrow> transfer_array_set c
     | Op_ArrayLen \<Rightarrow> transfer_array_len c
     | Op_AllocRefArray \<Rightarrow> transfer_alloc_ref_array c
     | Op_RefArrayGet \<Rightarrow> transfer_ref_array_get c
     | Op_RefArraySet \<Rightarrow> transfer_ref_array_set c
     | Op_AllocMap \<Rightarrow> transfer_alloc_map c ins
     | Op_MapGet \<Rightarrow> transfer_map_read c False
     | Op_MapHas \<Rightarrow> transfer_map_read c True
     | Op_MapSet \<Rightarrow> transfer_map_set c
     | Op_MapLen \<Rightarrow> transfer_map_len c
     | Op_MapKeyAt \<Rightarrow> transfer_map_at c sg_key
     | Op_MapValueAt \<Rightarrow> transfer_map_at c sg_value
     | Op_GetLeft \<Rightarrow> transfer_get_field c True
     | Op_GetRight \<Rightarrow> transfer_get_field c False
     | Op_SetLeft \<Rightarrow> transfer_set_field c True
     | Op_SetRight \<Rightarrow> transfer_set_field c False
     | Op_LoadLocal \<Rightarrow> transfer_load_local c ins
     | Op_StoreLocal \<Rightarrow> transfer_store_local c ins
     | Op_Jump \<Rightarrow> transfer_jump c ins
     | Op_JumpIfFalse \<Rightarrow> transfer_jump_if_false c ins
     | Op_Collect \<Rightarrow> transfer_collect c
     | Op_AllocClosure \<Rightarrow> transfer_alloc_closure c ins
     | Op_CallClosure \<Rightarrow> transfer_call_closure c
     | Op_LoadCapture \<Rightarrow> transfer_load_capture c ins
     | Op_Call \<Rightarrow> transfer_call c ins
     | Op_TailCall \<Rightarrow> transfer_tail_call c ins
     | Op_Return \<Rightarrow> transfer_return c)"

definition transfer_instruction :: "bytecode_module \<Rightarrow> nat \<Rightarrow> nat \<Rightarrow> abstract_state \<Rightarrow> successors verify" where
  "transfer_instruction m k pc st =
     vbind (transfer \<lparr>vs_module = m, vs_function = k, vs_pc = pc\<rparr> (fn_code (m_functions m ! k) ! pc) st)
       (\<lambda>(successors, _). vreturn successors)"

end
