(* ===== verification/BC_Verify.thy ===== *)
theory BC_Verify
  imports BC_Transfer
begin

text \<open>
  The verifier (\<open>src/bytecode.cpp\<close>): the checks of one function, the fixpoint of its abstract states over
  a worklist, the stack maps they give, and the verification of a module; then the entry points of the VM
  that verify before they run (\<open>src/vm.cpp\<close>).
\<close>

subsection \<open>One function\<close>

definition handler_well_formed :: "bytecode_module \<Rightarrow> bytecode_function \<Rightarrow> nat \<Rightarrow> exception_handler \<Rightarrow> bool" where
  "handler_well_formed m function i h \<longleftrightarrow> (let code = fn_code function in
     eh_try_begin h < eh_try_end h \<and> eh_try_end h < length code \<and> eh_target h < length code \<and>
     eh_target h > eh_try_end h \<and> eh_variant_layout h < length (m_variant_layouts m) \<and>
     i_op (code ! eh_try_begin h) = Op_TryBegin \<and> i_operand (code ! eh_try_begin h) = of_nat i \<and>
     i_op (code ! eh_try_end h) = Op_TryEnd \<and> i_operand (code ! eh_try_end h) = of_nat i)"

definition handlers_conflict :: "exception_handler \<Rightarrow> exception_handler \<Rightarrow> bool" where
  "handlers_conflict h other \<longleftrightarrow>
     (eh_try_begin other < eh_try_begin h \<and> eh_try_begin h < eh_try_end other \<and> eh_try_end other < eh_try_end h) \<or>
     eh_target other = eh_target h"

definition check_handlers :: "bytecode_module \<Rightarrow> nat \<Rightarrow> bytecode_function \<Rightarrow> unit verify" where
  "check_handlers m k function = (let handlers = fn_exception_handlers function in vall_indexed (\<lambda>i h.
     vthen (reject_if (\<not> handler_well_formed m function i h) k None ''BadExceptionHandler'')
     (reject_if (list_ex (handlers_conflict h) (take i handlers)) k None ''BadExceptionHandler'')) handlers)"

definition check_function_shape :: "bytecode_module \<Rightarrow> nat \<Rightarrow> unit verify" where
  "check_function_shape m k = (let function = m_functions m ! k; code = fn_code function in
     vthen (reject_if (fn_stack_maps function \<noteq> [] \<and> length (fn_stack_maps function) \<noteq> length code) k None ''BadStackMap'')
     (vthen (reject_if (code = []) k None ''EmptyFunction'')
     (vthen (reject_if (\<not> signature_is_well_formed m (fn_signature function)) k None ''SignatureShapeMismatch'')
     (vthen (reject_if (unat (fn_local_count function) < length (fs_parameters (fn_signature function))) k None ''LocalCountMismatch'')
     (check_handlers m k function)))))"

definition initial_state :: "bytecode_function \<Rightarrow> abstract_state" where
  "initial_state function = (let arguments = map value_from_signature (parameter_types (fn_signature function));
       rest = unat (fn_local_count function) - length arguments in
     \<lparr>as_stack = [], as_locals = map Some arguments @ replicate rest None,
      as_local_reference_kinds = map (\<lambda>v. Some (is_reference_kind (av_kind v))) arguments @ replicate rest None,
      as_fields_by_site = [], as_elements_by_site = []\<rparr>)"

text \<open>Beside its own successors, a try region can go to its handler, and a call to the handler around it.\<close>

definition exception_successors :: "bytecode_function \<Rightarrow> nat \<Rightarrow> abstract_state \<Rightarrow> successors" where
  "exception_successors function pc st = (case i_op (fn_code function ! pc) of
       Op_TryBegin \<Rightarrow>
         [exception_successor (fn_exception_handlers function ! unat (i_operand (fn_code function ! pc))) st]
     | Op_Call \<Rightarrow> (case enclosing_handler function pc None of None \<Rightarrow> [] | Some h \<Rightarrow> [exception_successor h st])
     | Op_CallClosure \<Rightarrow> (case enclosing_handler function pc None of None \<Rightarrow> [] | Some h \<Rightarrow> [exception_successor h st])
     | _ \<Rightarrow> [])"

type_synonym state_table = "abstract_state option list"

text \<open>One successor goes into the table: a new state, or a join with the state there.\<close>

definition merge_successor :: "nat \<Rightarrow> nat \<times> abstract_state \<Rightarrow> state_table \<times> nat list \<Rightarrow> (state_table \<times> nat list) verify" where
  "merge_successor k = (\<lambda>(target, st) (table, worklist). case table ! target of
       None \<Rightarrow> vreturn (table[target := Some st], worklist @ [target])
     | Some old \<Rightarrow>
       (if length (as_stack old) \<noteq> length (as_stack st) then reject k (Some target) ''StackHeightMergeMismatch''
        else if length (as_locals old) \<noteq> length (as_locals st) then reject k (Some target) ''LocalCountMismatch''
        else case join_state_into old st of
            (Join_Invalid, _) \<Rightarrow> reject k (Some target) ''StackHeightMergeMismatch''
          | (Join_Changed, joined) \<Rightarrow> vreturn (table[target := Some joined], worklist @ [target])
          | (Join_Unchanged, _) \<Rightarrow> vreturn (table, worklist)))"

fun merge_successors :: "nat \<Rightarrow> successors \<Rightarrow> state_table \<times> nat list \<Rightarrow> (state_table \<times> nat list) verify" where
  "merge_successors k [] tw = vreturn tw"
| "merge_successors k (s # ss) tw = vbind (merge_successor k s tw) (merge_successors k ss)"

text \<open>One turn of the loop, at the counter taken from the front of the worklist.\<close>

definition visit_pc :: "bytecode_module \<Rightarrow> nat \<Rightarrow> nat \<Rightarrow> state_table \<Rightarrow> nat list \<Rightarrow> (state_table \<times> nat list) verify" where
  "visit_pc m k pc table worklist = (let st = the (table ! pc) in
     vbind (transfer_instruction m k pc st) (\<lambda>successors.
     merge_successors k (successors @ exception_successors (m_functions m ! k) pc st) (table, worklist)))"

partial_function (option) analyse :: "bytecode_module \<Rightarrow> nat \<Rightarrow> state_table \<Rightarrow> nat list \<Rightarrow> state_table verify" where
  "analyse m k table worklist = (if worklist = [] then vreturn table
     else vbind (visit_pc m k (hd worklist) table (tl worklist)) (\<lambda>r. analyse m k (fst r) (snd r)))"

declare analyse.simps [code]

definition initial_table :: "bytecode_function \<Rightarrow> state_table" where
  "initial_table function = (replicate (length (fn_code function)) None)[0 := Some (initial_state function)]"

definition stack_map_at :: "bytecode_module \<Rightarrow> nat \<Rightarrow> state_table \<Rightarrow> nat \<Rightarrow> stack_map verify" where
  "stack_map_at m k table pc = (let function = m_functions m ! k in case table ! pc of
       None \<Rightarrow> reject k (Some pc) ''UnreachableCode''
     | Some st \<Rightarrow> (let tail_call_boundary = (i_op (fn_code function ! pc) = Op_TailCall) in
         case stack_map_from_state st tail_call_boundary of
           None \<Rightarrow> reject k (Some pc) ''PoisonUse''
         | Some sm \<Rightarrow> vthen (reject_if (fn_stack_maps function \<noteq> [] \<and>
              \<not> stack_map_matches (fn_stack_maps function ! pc) st tail_call_boundary) k (Some pc) ''BadStackMap'')
             (vreturn sm)))"

fun vmap :: "('a \<Rightarrow> 'b verify) \<Rightarrow> 'a list \<Rightarrow> 'b list verify" where
  "vmap f [] = vreturn []"
| "vmap f (x # xs) = vbind (f x) (\<lambda>y. vbind (vmap f xs) (\<lambda>ys. vreturn (y # ys)))"

definition verify_function_with_stack_maps :: "bytecode_module \<Rightarrow> nat \<Rightarrow> verification_result verify" where
  "verify_function_with_stack_maps m k = (let function = m_functions m ! k in
     vthen (check_function_shape m k)
     (vbind (analyse m k (initial_table function) [0]) (\<lambda>table.
     vmap (stack_map_at m k table) [0..<length (fn_code function)])))"

subsection \<open>A module\<close>

definition check_entry :: "bytecode_module \<Rightarrow> unit verify" where
  "check_entry m = (case fn_closure_layout (m_functions m ! m_entry_function m) of
       None \<Rightarrow> vreturn ()
     | Some l \<Rightarrow> reject_if (cl_capture_types (m_closure_layouts m ! l) \<noteq> []) (m_entry_function m) None ''BadCallTarget'')"

definition check_module :: "bytecode_module \<Rightarrow> unit verify" where
  "check_module m =
     vthen (reject_if (m_functions m = []) 0 None ''ModuleShapeMismatch'')
     (vthen (reject_if (m_entry_function m \<ge> length (m_functions m)) (m_entry_function m) None ''ModuleShapeMismatch'')
     (vthen (record_layouts_are_well_formed m)
     (vthen (variant_layouts_are_well_formed m)
     (vthen (module_weak_target_types_are_valid m)
     (vthen (module_map_key_types_are_valid m)
     (vthen (map_layouts_are_well_formed m)
     (vthen (ephemeron_layouts_are_well_formed m)
     (vthen (reject_if (\<not> named_types_are_well_formed m) 0 None ''SignatureShapeMismatch'')
     (vthen (closure_layouts_are_well_formed m)
     (check_entry m))))))))))"

definition verify_with_diagnostics :: "bytecode_module \<Rightarrow> module_verification verify" where
  "verify_with_diagnostics m = vthen (check_module m)
     (vmap (verify_function_with_stack_maps m) [0..<length (m_functions m)])"

text \<open>A function alone is the only function of a module.\<close>

definition module_of_function :: "bytecode_function \<Rightarrow> bytecode_module" where
  "module_of_function function = \<lparr>m_functions = [function], m_entry_function = 0, m_named_types = [],
     m_string_constants = [], m_closure_layouts = [], m_map_layouts = [], m_record_layouts = [],
     m_variant_layouts = [], m_ephemeron_layouts = []\<rparr>"

definition verify_function_with_diagnostics :: "bytecode_function \<Rightarrow> verification_result verify" where
  "verify_function_with_diagnostics function =
     vbind (verify_with_diagnostics (module_of_function function)) (\<lambda>V. vreturn (hd V))"

text \<open>A verified module carries the generated maps.\<close>

definition verify_module :: "bytecode_module \<Rightarrow> (bytecode_module \<times> module_verification) verify" where
  "verify_module m = vbind (verify_with_diagnostics m) (\<lambda>V.
     vreturn (m\<lparr>m_functions := map2 (\<lambda>f maps. f\<lparr>fn_stack_maps := maps\<rparr>) (m_functions m) V\<rparr>, V))"

subsection \<open>The entry points of the VM\<close>

text \<open>
  \<open>VM::execute\<close> of a module verifies it first; the outer \<open>None\<close> is a verifier or a program that does not
  return.  The text of the diagnostic that the error quotes is left out.
\<close>

definition msg_verifier_rejected :: string where
  "msg_verifier_rejected = ''bytecode verifier rejected module''"

definition execute_unverified_module :: "bytecode_module \<Rightarrow> vm \<Rightarrow> ((exn + val) \<times> vm) option" where
  "execute_unverified_module m vm = (case verify_module m of
       None \<Rightarrow> None
     | Some (Inl Assertion_failed) \<Rightarrow> Some (Inl Abort, vm)
     | Some (Inl (Rejected d)) \<Rightarrow> Some (Inl (Runtime_error msg_verifier_rejected), vm)
     | Some (Inr (m', V)) \<Rightarrow> execute m' V vm)"

definition execute_module :: "bytecode_module \<Rightarrow> vm \<Rightarrow> ((exn + val) \<times> vm) option" where
  "execute_module m vm = execute_unverified_module m (vm\<lparr>v_output := [], v_last_trap_trace := None\<rparr>)"

definition execute_function :: "bytecode_function \<Rightarrow> vm \<Rightarrow> ((exn + val) \<times> vm) option" where
  "execute_function function vm =
     execute_unverified_module (module_of_function function) (vm\<lparr>v_output := [], v_last_trap_trace := None\<rparr>)"

end
