(* ===== verification/BC_Shape.thy ===== *)
theory BC_Shape
  imports BC_Verify
begin

text \<open>
  The heights of the operand stacks in the verifier.  \<open>tacts k p q\<close>: the abstract operation \<open>k\<close> takes \<open>p\<close> operands and
  leaves \<open>q\<close>.  \<open>tfalls c k p q\<close>: when the abstract instruction \<open>k\<close> is accepted its only successor is the next
  instruction, with \<open>p\<close> operands fewer and \<open>q\<close> more.  \<open>stack_effect\<close> gives the two numbers of every instruction that
  falls through.  The second part is about the worklist: heights once in the table never change, and when the
  worklist is empty every instruction is settled, so the generated maps have the heights of a consistent program.
\<close>

subsection \<open>The effect of an instruction\<close>

definition flows :: "nat \<Rightarrow> nat \<Rightarrow> abstract_state \<Rightarrow> abstract_state \<Rightarrow> bool" where
  "flows p q st st' \<longleftrightarrow> length (as_stack st') + p = length (as_stack st) + q \<and>
     length (as_locals st') = length (as_locals st) \<and>
     length (as_local_reference_kinds st') = length (as_local_reference_kinds st)"

definition tacts :: "'a tx \<Rightarrow> nat \<Rightarrow> nat \<Rightarrow> bool" where
  "tacts k p q \<longleftrightarrow> (\<forall>st x st'. k st = vreturn (x, st') \<longrightarrow> flows p q st st')"

definition tfalls :: "verifier_site \<Rightarrow> successors tx \<Rightarrow> nat \<Rightarrow> nat \<Rightarrow> bool" where
  "tfalls c k p q \<longleftrightarrow> (\<forall>st succs st'. k st = vreturn (succs, st') \<longrightarrow>
     vs_pc c + 1 < length (fn_code (site_function c)) \<and> (\<exists>s. succs = [(vs_pc c + 1, s)] \<and> flows p q st s))"

named_theorems tflow \<open>stack effects of abstract instructions\<close>

lemma tacts_bind [tflow]:
  "tacts k p1 q1 \<Longrightarrow> (\<And>x. tacts (f x) p2 q2) \<Longrightarrow> p = p1 + p2 \<Longrightarrow> q = q1 + q2 \<Longrightarrow> tacts (tbind k f) p q"
  by (fastforce simp: tacts_def tbind_def vbind_return_iff flows_def)

lemma tacts_then [tflow]:
  "tacts k p1 q1 \<Longrightarrow> tacts n p2 q2 \<Longrightarrow> p = p1 + p2 \<Longrightarrow> q = q1 + q2 \<Longrightarrow> tacts (tthen k n) p q"
  unfolding tthen_def by (rule tacts_bind)

lemma tfalls_bind [tflow]:
  "tacts k p1 q1 \<Longrightarrow> (\<And>x. tfalls c (f x) p2 q2) \<Longrightarrow> p = p1 + p2 \<Longrightarrow> q = q1 + q2 \<Longrightarrow> tfalls c (tbind k f) p q"
  by (fastforce simp: tacts_def tfalls_def tbind_def vbind_return_iff flows_def)

lemma tfalls_then [tflow]:
  "tacts k p1 q1 \<Longrightarrow> tfalls c n p2 q2 \<Longrightarrow> p = p1 + p2 \<Longrightarrow> q = q1 + q2 \<Longrightarrow> tfalls c (tthen k n) p q"
  unfolding tthen_def by (rule tfalls_bind)

lemma tfalls_reject: "tfalls c (treject d reason) p q"
  by (simp add: tfalls_def treject_def)

lemma tfalls_case_option:
  "(\<And>x. tfalls c (f x) p q) \<Longrightarrow> tfalls c (case z of None \<Rightarrow> treject d reason | Some x \<Rightarrow> f x) p q"
  by (cases z) (simp_all add: tfalls_reject)

lemma tacts_simple [tflow]:
  "tacts (treturn x) 0 0" "tacts (treject_if c b reason) 0 0" "tacts (tassert b) 0 0" "tacts (tgets g) 0 0"
  "tacts (push_abstract v) 0 1"
  by (auto simp: tacts_def treturn_def treject_if_def treject_def tassert_def tgets_def push_abstract_def tmodify_def
    vthen_return_iff flows_def split: if_splits)

lemma tacts_modify:
  "(\<And>st. flows 0 0 st (g st)) \<Longrightarrow> tacts (tmodify g) 0 0"
  by (auto simp: tacts_def tmodify_def)

lemma tacts_pop_any [tflow]: "tacts (pop_any c reason) 1 0"
  by (auto simp: tacts_def pop_any_def tbind_def tthen_def tgets_def treject_if_def treject_def treturn_def tmodify_def
    vbind_return_iff flows_def split: if_splits)

lemma tacts_pop [tflow]: "tacts (pop_expect c kind r1 r2) 1 0" "tacts (pop_reference c r1 r2) 1 0"
  unfolding pop_expect_def pop_reference_def by (rule tflow | simp)+

lemma tacts_check [tflow]: "tacts (check_conforms c v s reason) 0 0"
  by (auto simp: tacts_def check_conforms_def treject_def vbind_return_iff flows_def split: if_splits)

lemma tacts_pop_expects [tflow]: "tacts (pop_expects c operands) (length operands) 0"
proof (induction operands rule: pop_expects.induct)
  case (2 c kind mismatch operands)
  then show ?case unfolding pop_expects.simps by (intro tacts_bind [of _ 1 0] tflow) simp_all
qed (simp add: tflow)

lemma tacts_push_results [tflow]: "tacts (push_results vs) 0 (length vs)"
proof (induction vs)
  case (Cons v vs)
  then show ?case unfolding push_results.simps by (intro tacts_then [of _ 0 1] tflow) simp_all
qed (simp add: tflow)

lemma tacts_pop_conforming: "tacts (pop_conforming c r1 r2 ss) (length ss) 0"
proof (induction ss)
  case (Cons s ss)
  then show ?case unfolding pop_conforming.simps
    by (intro tacts_bind [of _ 1 0 _ "length ss" 0] tacts_then [of _ 0 0 _ "length ss" 0] tflow) simp_all
qed (simp add: tflow)

lemma tfalls_push_fallthrough [tflow]: "tfalls c (push_fallthrough c) 0 0"
  by (auto simp: tfalls_def push_fallthrough_def tthen_def tbind_def tgets_def treject_if_def treject_def treturn_def
    vbind_return_iff flows_def split: if_splits)

lemma tfalls_push [tflow]: "tfalls c (push_then_fall c v) 0 1"
  unfolding push_then_fall_def by (rule tflow | simp)+

lemma tfalls_plain: "p = length operands \<Longrightarrow> q = length results \<Longrightarrow> tfalls c (plain_transfer c operands results) p q"
  unfolding plain_transfer_def by (rule tflow | simp)+

lemma stored_flows:
  assumes "\<And>st r. store st = vreturn (Some r) \<Longrightarrow> flows 0 0 st r"
  shows "tacts (stored_or_reject c reason store) 0 0"
  using assms by (auto simp: tacts_def stored_or_reject_def treject_def vbind_return_iff split: option.splits)

lemma store_facts_flow:
  "store_field_fact m st receiver left v = vreturn (Some r) \<Longrightarrow> flows 0 0 st r"
  "store_element_fact m st receiver v = vreturn (Some r) \<Longrightarrow> flows 0 0 st r"
  by (auto simp: store_field_fact_def store_element_fact_def vbind_return_iff flows_def
    split: option.splits if_splits)

text \<open>The operands an instruction takes and the results it leaves, for the instructions that fall through.\<close>

definition stack_effect :: "bytecode_module \<Rightarrow> instruction \<Rightarrow> nat \<times> nat" where
  "stack_effect m ins = (case i_op ins of
       Op_ConstantI64 \<Rightarrow> (0, 1) | Op_PushStr \<Rightarrow> (0, 1) | Op_Nil \<Rightarrow> (0, 1) | Op_AllocBuilder \<Rightarrow> (0, 1)
     | Op_AllocMap \<Rightarrow> (0, 1) | Op_LoadLocal \<Rightarrow> (0, 1) | Op_LoadCapture \<Rightarrow> (0, 1)
     | Op_Collect \<Rightarrow> (0, 0) | Op_TryBegin \<Rightarrow> (0, 0) | Op_TryEnd \<Rightarrow> (0, 0)
     | Op_Print \<Rightarrow> (1, 0) | Op_BuilderClear \<Rightarrow> (1, 0) | Op_StoreLocal \<Rightarrow> (1, 0)
     | Op_StrEq \<Rightarrow> (2, 1) | Op_StrConcat \<Rightarrow> (2, 1) | Op_StrLt \<Rightarrow> (2, 1) | Op_StrIndex \<Rightarrow> (2, 1)
     | Op_AddI64 \<Rightarrow> (2, 1) | Op_LessI64 \<Rightarrow> (2, 1) | Op_AllocEphemeron \<Rightarrow> (2, 1) | Op_AllocPair \<Rightarrow> (2, 1)
     | Op_AllocArray \<Rightarrow> (2, 1) | Op_ArrayGet \<Rightarrow> (2, 1) | Op_AllocRefArray \<Rightarrow> (2, 1) | Op_RefArrayGet \<Rightarrow> (2, 1)
     | Op_MapGet \<Rightarrow> (2, 1) | Op_MapHas \<Rightarrow> (2, 1) | Op_MapKeyAt \<Rightarrow> (2, 1) | Op_MapValueAt \<Rightarrow> (2, 1)
     | Op_EphemeronSetValue \<Rightarrow> (2, 0) | Op_BuilderAppend \<Rightarrow> (2, 0) | Op_RecordSet \<Rightarrow> (2, 0)
     | Op_SetLeft \<Rightarrow> (2, 0) | Op_SetRight \<Rightarrow> (2, 0)
     | Op_StrSub \<Rightarrow> (3, 1) | Op_ArraySet \<Rightarrow> (3, 0) | Op_RefArraySet \<Rightarrow> (3, 0) | Op_MapSet \<Rightarrow> (3, 0)
     | Op_AllocRecord \<Rightarrow> (length (rl_field_types (m_record_layouts m ! unat (i_operand ins))), 1)
     | Op_AllocVariant \<Rightarrow>
         (length (vc_field_types (vl_cases (m_variant_layouts m ! unat (i_operand ins)) ! unat (i_operand2 ins))), 1)
     | Op_AllocClosure \<Rightarrow> (length (cl_capture_types (m_closure_layouts m ! unat (i_operand ins))), 1)
     | Op_Call \<Rightarrow> (length (fs_parameters (fn_signature (m_functions m ! unat (i_operand ins)))), 1)
     | _ \<Rightarrow> (1, 1))"

definition leaves_the_line :: "opcode set" where
  "leaves_the_line = {Op_Jump, Op_JumpIfFalse, Op_Return, Op_Throw, Op_TailCall, Op_CallClosure}"

lemmas plain_transfers = transfer_constant_i64_def transfer_push_str_def transfer_str_len_def transfer_str_eq_def
  transfer_str_concat_def transfer_str_intern_def transfer_str_sub_def transfer_str_lt_def transfer_str_index_def
  transfer_print_def transfer_i64_to_str_def transfer_str_to_i64_def transfer_bool_to_str_def transfer_nil_def
  transfer_add_i64_def transfer_i64_abs_def transfer_alloc_builder_def transfer_builder_append_def
  transfer_builder_len_def transfer_builder_to_str_def transfer_builder_clear_def transfer_less_i64_def
  transfer_alloc_array_def transfer_array_get_def transfer_array_set_def transfer_collect_def

lemmas other_transfers = transfer_alloc_weak_def transfer_weak_get_def transfer_alloc_ephemeron_def
  transfer_ephemeron_key_def transfer_ephemeron_value_def transfer_ephemeron_set_value_def transfer_is_nil_def
  transfer_alloc_pair_def transfer_alloc_record_def transfer_record_get_def transfer_record_set_def
  transfer_alloc_variant_def transfer_variant_tag_def transfer_variant_get_def transfer_delimiter_def
  transfer_array_len_def transfer_alloc_ref_array_def transfer_ref_array_get_def transfer_ref_array_set_def
  transfer_alloc_map_def transfer_map_read_def transfer_map_set_def transfer_map_len_def transfer_map_at_def
  transfer_get_field_def transfer_set_field_def transfer_load_local_def transfer_store_local_def
  transfer_alloc_closure_def transfer_load_capture_def transfer_call_def

lemma tacts_helpers [tflow]:
  "tacts (pop_ephemeron c) 1 0" "tacts (check_record_operands c ins) 0 0" "tacts (record_receiver_check c i v) 0 0"
  "tacts (check_variant_operands c ins) 0 0" "tacts (variant_receiver_check c v) 0 0"
  "tacts (map_receiver_check c reason v) 0 0"
  unfolding pop_ephemeron_def check_record_operands_def record_receiver_check_def check_variant_operands_def
    variant_receiver_check_def map_receiver_check_def Let_def
  by (((rule tflow | simp split: option.split)+)[1])+

lemma tacts_no_captures [tflow]: "tacts (check_no_captures c reason fn) 0 0"
  unfolding check_no_captures_def by (cases "fn_closure_layout fn", simp add: tflow) (simp, (rule tflow | simp)+)

lemma tacts_flow_modify [tflow]:
  "tacts (tmodify (allocate_site n fs)) 0 0" 
  by (auto simp: tacts_def tmodify_def allocate_site_def flows_def)

lemma parameter_types_length [simp]: "length (parameter_types sig) = length (fs_parameters sig)"
  by (simp add: parameter_types_def)

lemma tacts_store_fact [tflow]:
  "tacts (stored_or_reject c reason (\<lambda>st. store_field_fact m st receiver left v)) 0 0"
  "tacts (stored_or_reject c reason (\<lambda>st. store_element_fact m st receiver v)) 0 0"
  by (rule stored_flows, erule store_facts_flow)+

lemma tacts_set_locals [tflow]:
  "tacts (tmodify (\<lambda>st. st\<lparr>as_locals := (as_locals st)[i := x], as_local_reference_kinds := (as_local_reference_kinds st)[i := y]\<rparr>)) 0 0"
  "tacts (tmodify (\<lambda>st. st\<lparr>as_elements_by_site := e st\<rparr>)) 0 0"
  by (simp_all add: tacts_def tmodify_def flows_def)

lemma tacts_pop_reversed [tflow]: "tacts (pop_conforming c r1 r2 (rev ss)) (length ss) 0"
  using tacts_pop_conforming [of c r1 r2 "rev ss"] by simp

lemma tacts_pop_parameters [tflow]: "tacts (pop_conforming c r1 r2 (rev (parameter_types sig))) (length (fs_parameters sig)) 0"
  using tacts_pop_conforming [of c r1 r2 "rev (parameter_types sig)"] by simp

lemma transfer_effect:
  "i_op ins \<notin> leaves_the_line \<Longrightarrow> tfalls c (transfer c ins) (fst (stack_effect (vs_module c) ins)) (snd (stack_effect (vs_module c) ins))"
  apply (cases "i_op ins"; (simp only: leaves_the_line_def insert_iff simp_thms; fail)?)
  apply (simp_all only: transfer_def stack_effect_def opcode.case fst_conv snd_conv)
  apply (unfold plain_transfers other_transfers Let_def)
  apply (((rule tflow tfalls_plain tfalls_case_option | (simp add: variant_case_def; fail))+)[1])+
  done

subsection \<open>The other instructions\<close>

text \<open>Every handler of the function starts inside its code.\<close>

abbreviation handlers_inside :: "bytecode_function \<Rightarrow> bool" where
  "handlers_inside fn \<equiv> \<forall>h\<in>set (fn_exception_handlers fn). eh_target h < length (fn_code fn)"

lemma enclosing_handler_from_mem:
  "enclosing_handler_from pc layout selected hs = Some h \<Longrightarrow> selected = Some h \<or> h \<in> set hs"
  by (induction pc layout selected hs rule: enclosing_handler_from.induct) (auto split: if_splits)

lemma enclosing_handler_mem: "enclosing_handler fn pc layout = Some h \<Longrightarrow> h \<in> set (fn_exception_handlers fn)"
  using enclosing_handler_from_mem [of pc layout None] by (auto simp: enclosing_handler_def)

lemma tactsD: "tacts k p q \<Longrightarrow> k st = vreturn (x, st') \<Longrightarrow> flows p q st st'"
  by (simp add: tacts_def)

lemma tfallsD:
  "tfalls c k p q \<Longrightarrow> k st = vreturn (succs, st') \<Longrightarrow>
     vs_pc c + 1 < length (fn_code (site_function c)) \<and> (\<exists>s. succs = [(vs_pc c + 1, s)] \<and> flows p q st s)"
  unfolding tfalls_def by blast

lemma tbind_return: "tbind k f st = vreturn y \<longleftrightarrow> (\<exists>x st'. k st = vreturn (x, st') \<and> f x st' = vreturn y)"
  by (auto simp: tbind_def vbind_return_iff)

lemma tthen_return: "tthen k n st = vreturn y \<longleftrightarrow> (\<exists>st'. k st = vreturn ((), st') \<and> n st' = vreturn y)"
  by (auto simp: tthen_def tbind_return)

lemma tsimple_return [simp]:
  "treturn x st = vreturn (y, st') \<longleftrightarrow> x = y \<and> st = st'" "tgets g st = vreturn (y, st') \<longleftrightarrow> y = g st \<and> st = st'"
  "treject_if c b reason st = vreturn (u, st') \<longleftrightarrow> \<not> b \<and> st = st'" "tmodify f st = vreturn (u, st') \<longleftrightarrow> f st = st'"
  "treject c reason st \<noteq> vreturn z"
  by (auto simp: treturn_def tgets_def treject_if_def treject_def tmodify_def)

lemma transfer_jump_effect:
  "transfer_jump c ins st = vreturn (succs, st') \<Longrightarrow>
     in_table (i_operand ins) (length (fn_code (site_function c))) \<and> (\<exists>s. succs = [(unat (i_operand ins), s)] \<and> flows 0 0 st s)"
  by (auto simp: transfer_jump_def tthen_return flows_def)

lemma refine_flows: "flows 0 0 st (refine_if_nil t st)" "flows 0 0 st (refine_if_not_nil t st)"
  by (auto simp: refine_if_nil_def refine_if_not_nil_def flows_def split: option.splits)

lemma transfer_jump_if_false_effect:
  assumes "transfer_jump_if_false c ins st = vreturn (succs, st')"
  shows "in_table (i_operand ins) (length (fn_code (site_function c))) \<and> vs_pc c + 1 < length (fn_code (site_function c)) \<and>
     (\<exists>s1 s2. succs = [(unat (i_operand ins), s1), (vs_pc c + 1, s2)] \<and> flows 1 0 st s1 \<and> flows 1 0 st s2)"
proof -
  from assms obtain condition st1 taken st2 where
    in_range: "in_table (i_operand ins) (length (fn_code (site_function c)))"
    and pop: "pop_expect c AK_Bool ''StackUnderflow'' ''TypeMismatch'' st = vreturn (condition, st1)"
    and fall: "push_fallthrough c (refine_if_nil (vf_nil_test_local (av condition)) st1) = vreturn (taken, st2)"
    and succs: "succs = (unat (i_operand ins), refine_if_not_nil (vf_nil_test_local (av condition)) st1) # taken"
    by (auto simp: transfer_jump_if_false_def tthen_return tbind_return Let_def)
  have "flows 1 0 st st1" by (rule tactsD [OF tacts_pop(1), OF pop])
  moreover from fall tfalls_push_fallthrough [of c] obtain s where "vs_pc c + 1 < length (fn_code (site_function c))"
    "taken = [(vs_pc c + 1, s)]" "flows 0 0 (refine_if_nil (vf_nil_test_local (av condition)) st1) s"
    unfolding tfalls_def by blast
  moreover note refine_flows [where st = st1 and t = "vf_nil_test_local (av condition)"]
  ultimately show ?thesis using in_range succs by (auto simp: flows_def)
qed

lemma transfer_return_effect:
  "transfer_return c st = vreturn (succs, st') \<Longrightarrow> succs = [] \<and> as_stack st \<noteq> []"
  by (auto simp: transfer_return_def pop_any_def tthen_return tbind_return)

lemma exception_successor_flows:
  "exception_successor h st = (t, s) \<Longrightarrow> t = eh_target h \<and> length (as_stack s) = 1 \<and>
     length (as_locals s) = length (as_locals st) \<and>
     length (as_local_reference_kinds s) = length (as_local_reference_kinds st)"
  by (auto simp: exception_successor_def)

lemma transfer_throw_effect:
  assumes "transfer_throw c st = vreturn (succs, st')"
  shows "as_stack st \<noteq> []" and "(t, s) \<in> set succs \<Longrightarrow> \<exists>h\<in>set (fn_exception_handlers (site_function c)).
     t = eh_target h \<and> length (as_stack s) = 1 \<and> length (as_locals s) = length (as_locals st) \<and>
     length (as_local_reference_kinds s) = length (as_local_reference_kinds st)"
proof -
  from assms obtain thrown st1 where pop: "pop_any c ''StackUnderflow'' st = vreturn (thrown, st1)"
    and succs: "succs = (case enclosing_handler (site_function c) (vs_pc c) (vf_signature_variant_layout (av thrown)) of
        None \<Rightarrow> [] | Some h \<Rightarrow> [exception_successor h st1])"
    by (auto simp: transfer_throw_def tthen_return tbind_return)
  show "as_stack st \<noteq> []" using pop by (auto simp: pop_any_def tthen_return tbind_return)
  assume "(t, s) \<in> set succs"
  then show "\<exists>h\<in>set (fn_exception_handlers (site_function c)).
     t = eh_target h \<and> length (as_stack s) = 1 \<and> length (as_locals s) = length (as_locals st) \<and>
     length (as_local_reference_kinds s) = length (as_local_reference_kinds st)"
    using tactsD [OF tacts_pop_any, OF pop] exception_successor_flows [of _ st1 t s] succs
    by (cases "enclosing_handler (site_function c) (vs_pc c) (vf_signature_variant_layout (av thrown))")
      (auto simp: flows_def dest!: enclosing_handler_mem)
qed

lemma transfer_call_target:
  "transfer_call c ins st = vreturn (succs, st') \<Longrightarrow> in_table (i_operand ins) (length (m_functions (vs_module c)))"
  by (auto simp: transfer_call_def tthen_return Let_def)

lemma transfer_tail_call_effect:
  assumes "transfer_tail_call c ins st = vreturn (succs, st')"
  shows "succs = []" "in_table (i_operand ins) (length (m_functions (vs_module c)))"
  using assms by (auto simp: transfer_tail_call_def tthen_return tbind_return Let_def)

subsection \<open>The worklist\<close>

text \<open>The shape of a state: its number of operands and of locals, the locals counted twice.\<close>

definition state_shape :: "abstract_state \<Rightarrow> nat \<times> nat \<times> nat" where
  "state_shape st = (length (as_stack st), length (as_locals st), length (as_local_reference_kinds st))"

definition shape_at :: "state_table \<Rightarrow> nat \<Rightarrow> (nat \<times> nat \<times> nat) option" where
  "shape_at T pc = map_option state_shape (T ! pc)"

text \<open>Shapes once in the table do not change, and new ones are on the worklist.\<close>

definition extends :: "state_table \<times> nat list \<Rightarrow> state_table \<times> nat list \<Rightarrow> bool" where
  "extends TW TW' \<longleftrightarrow> length (fst TW') = length (fst TW) \<and> set (snd TW) \<subseteq> set (snd TW') \<and>
     (\<forall>pc<length (fst TW). (fst TW ! pc \<noteq> None \<longrightarrow> shape_at (fst TW') pc = shape_at (fst TW) pc) \<and>
        (fst TW ! pc = None \<longrightarrow> fst TW' ! pc = None \<or> pc \<in> set (snd TW'))) \<and>
     (\<forall>pc\<in>set (snd TW'). pc \<in> set (snd TW) \<or> (pc < length (fst TW') \<and> fst TW' ! pc \<noteq> None))"

lemma extends_refl [simp]: "extends TW TW"
  by (auto simp: extends_def)

lemma join_reference_kinds_length: "join_reference_kinds ds is = Some (b, ks) \<Longrightarrow> length ks = length ds"
  by (induction ds "is" arbitrary: b ks rule: join_reference_kinds.induct) (auto split: option.splits prod.splits)

lemma join_state_shape:
  "join_state_into old st = (outcome, joined) \<Longrightarrow> outcome \<noteq> Join_Invalid \<Longrightarrow>
     state_shape joined = state_shape old \<and> state_shape old = state_shape st"
  by (auto simp: join_state_into_def state_shape_def Let_def dest: join_reference_kinds_length
    split: if_splits option.splits prod.splits)

lemma merge_successor_shape:
  assumes r: "merge_successor k (t, s) (T, W) = vreturn TW'" and t: "t < length T"
  shows "extends (T, W) TW' \<and> shape_at (fst TW') t = Some (state_shape s)"
proof (cases "T ! t")
  case None
  then have "TW' = (T[t := Some s], W @ [t])" using r by (simp add: merge_successor_def)
  then show ?thesis using t None by (auto simp: extends_def shape_at_def nth_list_update)
next
  case (Some old)
  obtain outcome joined where j: "join_state_into old s = (outcome, joined)" by force
  then have ok: "outcome \<noteq> Join_Invalid" and TW': "TW' = (if outcome = Join_Changed then (T[t := Some joined], W @ [t]) else (T, W))"
    using r Some by (cases outcome; simp add: merge_successor_def split: if_splits)+
  from join_state_shape [OF j ok] TW' Some t show ?thesis
    by (auto simp: extends_def shape_at_def nth_list_update)
qed

lemma extends_defined: "extends TW TW' \<Longrightarrow> pc < length (fst TW) \<Longrightarrow> fst TW ! pc \<noteq> None \<Longrightarrow> fst TW' ! pc \<noteq> None"
  unfolding extends_def shape_at_def by (metis option.map_disc_iff)

lemma extends_listed: "extends TW TW' \<Longrightarrow> pc < length (fst TW) \<Longrightarrow> fst TW ! pc = None \<Longrightarrow>
    fst TW' ! pc = None \<or> pc \<in> set (snd TW')"
  by (simp add: extends_def)

lemma extends_new: "extends TW TW' \<Longrightarrow> pc \<in> set (snd TW') \<Longrightarrow> pc \<in> set (snd TW) \<or> pc < length (fst TW') \<and> fst TW' ! pc \<noteq> None"
  unfolding extends_def by blast

lemma extends_trans:
  assumes a: "extends TW TW'" and b: "extends TW' TW''"
  shows "extends TW TW''"
proof -
  have len: "length (fst TW') = length (fst TW)" and sub: "set (snd TW') \<subseteq> set (snd TW'')"
    and len': "length (fst TW'') = length (fst TW')" using a b by (simp_all add: extends_def)
  have "shape_at (fst TW'') pc = shape_at (fst TW) pc" if "pc < length (fst TW)" "fst TW ! pc \<noteq> None" for pc
    using a b that len extends_defined [OF a that] unfolding extends_def by simp
  moreover have "fst TW'' ! pc = None \<or> pc \<in> set (snd TW'')" if pc: "pc < length (fst TW)" "fst TW ! pc = None" for pc
  proof (cases "fst TW' ! pc = None")
    case True
    with b pc len show ?thesis unfolding extends_def by simp
  next
    case False
    with extends_listed [OF a pc] have "pc \<in> set (snd TW')" by blast
    with sub show ?thesis by blast
  qed
  moreover have "pc \<in> set (snd TW) \<or> (pc < length (fst TW'') \<and> fst TW'' ! pc \<noteq> None)" if pc: "pc \<in> set (snd TW'')" for pc
  proof (cases "pc \<in> set (snd TW')")
    case True
    from extends_new [OF a this] have "pc \<in> set (snd TW) \<or> pc < length (fst TW') \<and> fst TW' ! pc \<noteq> None" .
    with extends_defined [OF b, of pc] len' show ?thesis by auto
  next
    case False
    with extends_new [OF b pc] show ?thesis by blast
  qed
  moreover have "set (snd TW) \<subseteq> set (snd TW'')"
    using a sub by (auto simp only: extends_def)
  moreover have "length (fst TW'') = length (fst TW)" using len len' by simp
  ultimately show ?thesis unfolding extends_def by simp
qed

lemma shape_kept: "extends TW TW' \<Longrightarrow> pc < length (fst TW) \<Longrightarrow> shape_at (fst TW) pc = Some x \<Longrightarrow> shape_at (fst TW') pc = Some x"
  by (auto simp: extends_def shape_at_def)

lemma merge_successors_shape:
  assumes "merge_successors k ss TW = vreturn TW'" "\<And>t s. (t, s) \<in> set ss \<Longrightarrow> t < length (fst TW)"
  shows "extends TW TW' \<and> (\<forall>(t, s)\<in>set ss. shape_at (fst TW') t = Some (state_shape s))"
  using assms
proof (induction ss arbitrary: TW)
  case (Cons x ss)
  obtain t s where x: "x = (t, s)" by force
  from Cons.prems(1) x obtain TW1 where m: "merge_successor k (t, s) (fst TW, snd TW) = vreturn TW1"
    and rest: "merge_successors k ss TW1 = vreturn TW'" by (auto simp: vbind_return_iff)
  have t: "t < length (fst TW)" using Cons.prems(2) [of t s] x by simp
  note one = merge_successor_shape [OF m t]
  then have len: "length (fst TW1) = length (fst TW)" by (simp add: extends_def)
  have two: "extends TW1 TW' \<and> (\<forall>(t, s)\<in>set ss. shape_at (fst TW') t = Some (state_shape s))"
    by (rule Cons.IH [OF rest]) (unfold len, metis Cons.prems(2) list.set_intros(2))
  from one two extends_trans [of TW TW1 TW'] shape_kept [of TW1 TW' t] t len x show ?case by auto
qed simp

text \<open>A counter is settled when its state leads, by its instruction, to states of the shapes in the table.\<close>

definition settled :: "bytecode_module \<Rightarrow> nat \<Rightarrow> state_table \<Rightarrow> nat \<Rightarrow> bool" where
  "settled m k T pc \<longleftrightarrow> (\<exists>st succs. shape_at T pc = Some (state_shape st) \<and> transfer_instruction m k pc st = vreturn succs \<and>
     (\<forall>(t, s)\<in>set (succs @ exception_successors (m_functions m ! k) pc st).
        t < length T \<and> shape_at T t = Some (state_shape s)))"

lemma settled_extends:
  assumes "extends (T, W) (T', W')" "pc < length T" "settled m k T pc"
  shows "settled m k T' pc"
proof -
  have len: "length T' = length T" using assms(1) by (simp add: extends_def)
  from assms(3) obtain st succs where st: "shape_at T pc = Some (state_shape st)" "transfer_instruction m k pc st = vreturn succs"
    and to: "\<And>t s. (t, s) \<in> set (succs @ exception_successors (m_functions m ! k) pc st) \<Longrightarrow>
        t < length T \<and> shape_at T t = Some (state_shape s)"
    unfolding settled_def by blast
  have "t < length T' \<and> shape_at T' t = Some (state_shape s)"
    if "(t, s) \<in> set (succs @ exception_successors (m_functions m ! k) pc st)" for t s
    using to [OF that] shape_kept [OF assms(1), of t] len by simp
  moreover have "shape_at T' pc = Some (state_shape st)" using shape_kept [OF assms(1), of pc] st(1) assms(2) by simp
  ultimately show ?thesis unfolding settled_def using st(2) by blast
qed

abbreviation local_numbers :: "bytecode_module \<Rightarrow> nat \<Rightarrow> nat \<times> nat" where
  "local_numbers m k \<equiv> (unat (fn_local_count (m_functions m ! k)), unat (fn_local_count (m_functions m ! k)))"

definition progressing :: "bytecode_module \<Rightarrow> nat \<Rightarrow> state_table \<times> nat list \<Rightarrow> bool" where
  "progressing m k TW \<longleftrightarrow> length (fst TW) = length (fn_code (m_functions m ! k)) \<and>
     (\<forall>pc\<in>set (snd TW). pc < length (fst TW) \<and> fst TW ! pc \<noteq> None) \<and>
     (\<forall>pc<length (fst TW). \<forall>st. fst TW ! pc = Some st \<longrightarrow>
        snd (state_shape st) = local_numbers m k) \<and>
     (\<forall>pc<length (fst TW). fst TW ! pc = None \<or> pc \<in> set (snd TW) \<or> settled m k (fst TW) pc)"

text \<open>The successors are inside the function and have as many locals.\<close>

definition same_locals :: "abstract_state \<Rightarrow> abstract_state \<Rightarrow> bool" where
  "same_locals st s \<longleftrightarrow> snd (state_shape s) = snd (state_shape st)"

lemma flows_locals: "flows p q st s \<Longrightarrow> same_locals st s"
  by (simp add: flows_def same_locals_def state_shape_def)

lemma transfer_call_closure_effect:
  assumes r: "transfer_call_closure c st = vreturn (succs, st')" and s: "(t, s) \<in> set succs"
  shows "t < length (fn_code (site_function c)) \<and> same_locals st s"
proof -
  obtain callee st1 u st2 v st3 ss where "pop_any c ''BadClosureCallArity'' st = vreturn (callee, st1)"
    "pop_conforming c ''BadClosureCallArity'' ''BadClosureCallArgKind'' (rev ss) st1 = vreturn (u, st2)"
    "push_then_fall c v st2 = vreturn (succs, st3)"
    using r by (auto simp: transfer_call_closure_def tbind_return tthen_return Let_def)
  from tactsD [OF tacts_pop_any this(1)] tactsD [OF tacts_pop_reversed this(2)] tfallsD [OF tfalls_push this(3)] s
  show ?thesis by (auto simp: flows_def same_locals_def state_shape_def)
qed

lemma successors_inside:
  assumes r: "transfer c ins st = vreturn (succs, st')" and h: "handlers_inside (site_function c)"
    and s: "(t, s) \<in> set succs"
  shows "t < length (fn_code (site_function c)) \<and> same_locals st s"
proof (cases "i_op ins \<in> leaves_the_line")
  case False
  from tfallsD [OF transfer_effect [OF this] r] s show ?thesis by (auto intro: flows_locals)
next
  case True
  then consider "i_op ins = Op_Jump" | "i_op ins = Op_JumpIfFalse" | "i_op ins = Op_Return" | "i_op ins = Op_Throw"
    | "i_op ins = Op_TailCall" | "i_op ins = Op_CallClosure" by (auto simp: leaves_the_line_def)
  then show ?thesis
  proof cases
    case 1 with r s transfer_jump_effect [of c ins st succs st'] show ?thesis
      by (auto simp: transfer_def in_table_def intro: flows_locals)
  next
    case 2 with r s transfer_jump_if_false_effect [of c ins st succs st'] show ?thesis
      by (auto simp: transfer_def in_table_def intro: flows_locals)
  next
    case 3 with r s transfer_return_effect [of c st succs st'] show ?thesis by (auto simp: transfer_def)
  next
    case 4 with r s h transfer_throw_effect(2) [of c st succs st' t s] show ?thesis
      by (auto simp: transfer_def same_locals_def state_shape_def)
  next
    case 5 with r s transfer_tail_call_effect(1) [of c ins st succs st'] show ?thesis by (auto simp: transfer_def)
  next
    case 6 with r s transfer_call_closure_effect [of c st succs st' t s] show ?thesis by (auto simp: transfer_def)
  qed
qed

lemma transfer_try_begin:
  assumes "transfer c ins st = vreturn (succs, st')" "i_op ins = Op_TryBegin"
  shows "unat (i_operand ins) < length (fn_exception_handlers (site_function c))"
  using assms by (auto simp: transfer_def transfer_delimiter_def tthen_return in_table_def Let_def)

lemma transfer_instruction_return:
  "transfer_instruction m k pc st = vreturn succs \<longleftrightarrow>
     (\<exists>st'. transfer \<lparr>vs_module = m, vs_function = k, vs_pc = pc\<rparr> (fn_code (m_functions m ! k) ! pc) st = vreturn (succs, st'))"
  by (auto simp: transfer_instruction_def vbind_return_iff)

lemma visited_successors_inside:
  assumes r: "transfer_instruction m k pc st = vreturn succs" and h: "handlers_inside (m_functions m ! k)"
    and s: "(t, s) \<in> set (succs @ exception_successors (m_functions m ! k) pc st)"
  shows "t < length (fn_code (m_functions m ! k)) \<and> same_locals st s"
proof -
  let ?c = "\<lparr>vs_module = m, vs_function = k, vs_pc = pc\<rparr>" and ?ins = "fn_code (m_functions m ! k) ! pc"
  obtain st' where tr: "transfer ?c ?ins st = vreturn (succs, st')" using r by (auto simp: transfer_instruction_return)
  have site: "site_function ?c = m_functions m ! k" by (simp add: site_function_def)
  consider "(t, s) \<in> set succs" | "(t, s) \<in> set (exception_successors (m_functions m ! k) pc st)" using s by auto
  then show ?thesis
  proof cases
    case 1 with successors_inside [OF tr] h site show ?thesis by simp
  next
    case 2
    then have "(\<exists>h\<in>set (fn_exception_handlers (m_functions m ! k)). t = eh_target h) \<and> same_locals st s"
      using transfer_try_begin [OF tr, unfolded site]
      by (auto simp: exception_successors_def exception_successor_def same_locals_def state_shape_def
        dest!: enclosing_handler_mem intro: bexI split: option.splits opcode.splits)
    with h show ?thesis by auto
  qed
qed

lemma merge_successor_locals:
  assumes "merge_successor k (t, s) (T, W) = vreturn TW'" "t < length T" "n = snd (state_shape s)"
    and "\<And>pc st. pc < length T \<Longrightarrow> T ! pc = Some st \<Longrightarrow> snd (state_shape st) = n"
  shows "pc < length T \<Longrightarrow> fst TW' ! pc = Some st \<Longrightarrow> snd (state_shape st) = n"
  using assms by (auto simp: merge_successor_def nth_list_update dest!: join_state_shape
    split: option.splits if_splits prod.splits join_outcome.splits)

lemma merge_successors_locals:
  assumes "merge_successors k ss TW = vreturn TW'" "\<And>t s. (t, s) \<in> set ss \<Longrightarrow> t < length (fst TW) \<and> snd (state_shape s) = n"
    and "\<And>pc st. pc < length (fst TW) \<Longrightarrow> fst TW ! pc = Some st \<Longrightarrow> snd (state_shape st) = n"
  shows "pc < length (fst TW) \<Longrightarrow> fst TW' ! pc = Some st \<Longrightarrow> snd (state_shape st) = n"
  using assms
proof (induction ss arbitrary: TW)
  case (Cons x ss)
  obtain t s where x: "x = (t, s)" by force
  from Cons.prems(3) x obtain TW1 where m: "merge_successor k (t, s) (fst TW, snd TW) = vreturn TW1"
    and rest: "merge_successors k ss TW1 = vreturn TW'" by (auto simp: vbind_return_iff)
  have t: "t < length (fst TW)" "n = snd (state_shape s)" using Cons.prems(4) [of t s] x by simp_all
  have len: "length (fst TW1) = length (fst TW)" using merge_successor_shape [OF m t(1)] by (simp add: extends_def)
  show ?case
  proof (rule Cons.IH [OF _ Cons.prems(2) rest])
    show "pc < length (fst TW1)" using Cons.prems(1) len by simp
    show "t < length (fst TW1) \<and> snd (state_shape s) = n" if "(t, s) \<in> set ss" for t s
      using Cons.prems(4) [of t s] that len by simp
    show "snd (state_shape st) = n" if "pc < length (fst TW1)" "fst TW1 ! pc = Some st" for pc st
      using merge_successor_locals [OF m t Cons.prems(5)] that len by simp
  qed
qed simp

lemma visit_pc_progress:
  assumes p: "progressing m k (T, pc # W)" and h: "handlers_inside (m_functions m ! k)"
    and r: "visit_pc m k pc T W = vreturn TW'"
  shows "progressing m k TW' \<and> extends (T, W) TW'"
proof -
  obtain T' W' where TW': "TW' = (T', W')" by force
  have len: "length T = length (fn_code (m_functions m ! k))" and pc: "pc < length T" "T ! pc \<noteq> None"
    and W: "\<And>q. q \<in> set W \<Longrightarrow> q < length T \<and> T ! q \<noteq> None"
    and locals: "\<And>q s. q < length T \<Longrightarrow> T ! q = Some s \<Longrightarrow> snd (state_shape s) =
        local_numbers m k"
    and rest: "\<And>q. q < length T \<Longrightarrow> T ! q = None \<or> q = pc \<or> q \<in> set W \<or> settled m k T q"
    using p by (auto simp: progressing_def)
  from pc(2) obtain st where st: "T ! pc = Some st" by auto
  with r obtain succs where tr: "transfer_instruction m k pc st = vreturn succs"
    and mg: "merge_successors k (succs @ exception_successors (m_functions m ! k) pc st) (T, W) = vreturn (T', W')"
    by (auto simp: visit_pc_def vbind_return_iff TW')
  note inside = visited_successors_inside [OF tr h, folded len]
  have merged: "extends (T, W) (T', W') \<and> (\<forall>(t, s)\<in>set (succs @ exception_successors (m_functions m ! k) pc st).
      shape_at T' t = Some (state_shape s))"
    using merge_successors_shape [OF mg] inside by auto
  then have m: "extends (T, W) (T', W')" ..
  have shapes: "shape_at T' t = Some (state_shape s)"
    if "(t, s) \<in> set (succs @ exception_successors (m_functions m ! k) pc st)" for t s
    using merged that by blast
  have len': "length T' = length T" using m by (simp add: extends_def)
  have "shape_at T' pc = Some (state_shape st)" using shape_kept [OF m] pc st by (simp add: shape_at_def)
  then have "settled m k T' pc" unfolding settled_def len'
    by (intro exI [of _ st], intro exI [of _ succs]) (use tr shapes inside in blast)
  then have "T' ! q = None \<or> q \<in> set W' \<or> settled m k T' q" if "q < length T'" for q
    using rest [of q] settled_extends [OF m, of q m k] that m len' by (fastforce simp: extends_def)
  moreover have "q < length T' \<and> T' ! q \<noteq> None" if "q \<in> set W'" for q
    using that m W extends_defined [OF m, of q] len' unfolding extends_def by auto
  moreover have "snd (state_shape s) = local_numbers m k" if "q < length T'" "T' ! q = Some s" for q s
  proof -
    have "snd (state_shape s) = snd (state_shape st)"
      if "(t, s) \<in> set (succs @ exception_successors (m_functions m ! k) pc st)" for t s
      using inside [OF that] by (simp add: same_locals_def)
    with merge_successors_locals [OF mg, of "local_numbers m k" q s] inside locals locals [OF pc(1) st] that len' show ?thesis by simp
  qed
  ultimately show ?thesis using m len len' by (auto simp: progressing_def TW')
qed

lemma analyse_settles:
  assumes "analyse m k T W = Some R"
  shows "R = Inr T' \<Longrightarrow> progressing m k (T, W) \<Longrightarrow> handlers_inside (m_functions m ! k) \<Longrightarrow>
    progressing m k (T', []) \<and> (\<forall>pc<length T. T ! pc \<noteq> None \<longrightarrow> shape_at T' pc = shape_at T pc)"
  using assms
proof (induction m k T W R rule: analyse.raw_induct [rotated -1, consumes 1, case_names visit])
  case (visit loop m k T W R)
  show ?case
  proof (cases "W = []")
    case True
    with visit show ?thesis by (simp add: vreturn_def)
  next
    case False
    then obtain pc W' where W: "W = pc # W'" by (cases W) auto
    with visit(2,3) obtain T1 W1 where v: "visit_pc m k pc T W' = vreturn (T1, W1)" and rest: "loop m k T1 W1 = Some R"
      by (auto simp: vbind_def vreturn_def split: option.splits sum.splits)
    have p1: "progressing m k (T1, W1)" and e1: "extends (T, W') (T1, W1)"
      using visit_pc_progress [OF _ _ v] visit(4,5) W by simp_all
    from visit(1) [OF rest visit(3) p1 visit(5)] e1 show ?thesis using extends_defined [OF e1] unfolding extends_def by simp
  qed
qed

subsection \<open>A verified function\<close>

text \<open>The generated maps give the shape of every instruction's state.\<close>

definition map_shape :: "stack_map \<Rightarrow> nat \<times> nat" where
  "map_shape sm = (length (sm_object_slots sm), length (sm_local_object_slots sm))"

lemma vmap_return: "vmap f xs = vreturn ys \<Longrightarrow> length ys = length xs \<and> (\<forall>i<length xs. f (xs ! i) = vreturn (ys ! i))"
proof (induction xs arbitrary: ys)
  case (Cons x xs)
  then obtain z zs where "f x = vreturn z" "vmap f xs = vreturn zs" "ys = z # zs" by (auto simp: vbind_return_iff)
  with Cons.IH [of zs] show ?case by (auto simp: nth_Cons split: nat.split)
qed simp

lemma stack_map_shape:
  assumes "stack_map_at m k T pc = vreturn sm"
  shows "\<exists>st. T ! pc = Some st \<and> map_shape sm = (length (as_stack st), length (as_local_reference_kinds st))"
  using assms by (auto simp: stack_map_at_def stack_map_from_state_def map_shape_def Let_def vthen_return_iff
    split: option.splits if_splits)

lemma initial_progress:
  assumes "check_function_shape m k = vreturn ()"
  shows "progressing m k (initial_table (m_functions m ! k), [0])" "handlers_inside (m_functions m ! k)"
    "\<And>i h. i < length (fn_exception_handlers (m_functions m ! k)) \<Longrightarrow> fn_exception_handlers (m_functions m ! k) ! i = h \<Longrightarrow>
       handler_well_formed m (m_functions m ! k) i h"
proof -
  have checks: "fn_code (m_functions m ! k) \<noteq> []"
    "length (fs_parameters (fn_signature (m_functions m ! k))) \<le> unat (fn_local_count (m_functions m ! k))"
    "check_handlers m k (m_functions m ! k) = vreturn ()"
    using assms by (auto simp: check_function_shape_def Let_def vthen_return_iff)
  have "state_shape (initial_state (m_functions m ! k)) = (0, local_numbers m k)"
    using checks(2) by (simp add: initial_state_def state_shape_def Let_def)
  then show "progressing m k (initial_table (m_functions m ! k), [0])"
    using checks(1) by (auto simp: progressing_def initial_table_def nth_list_update)
  show wf: "handler_well_formed m (m_functions m ! k) i h"
    if "i < length (fn_exception_handlers (m_functions m ! k))" "fn_exception_handlers (m_functions m ! k) ! i = h" for i h
    using checks(3) that by (auto simp: check_handlers_def Let_def verify_return_iffs)
  show "handlers_inside (m_functions m ! k)"
    using wf by (auto simp: in_set_conv_nth handler_well_formed_def Let_def)
qed

definition site_shape :: "module_verification \<Rightarrow> nat \<Rightarrow> nat \<Rightarrow> nat \<times> nat" where
  "site_shape V k pc = map_shape (V ! k ! pc)"

definition has_shape :: "nat \<Rightarrow> nat \<Rightarrow> abstract_state \<Rightarrow> bool" where
  "has_shape h n st \<longleftrightarrow> state_shape st = (h, n, n)"

definition well_shaped :: "bytecode_module \<Rightarrow> module_verification \<Rightarrow> nat \<Rightarrow> bool" where
  "well_shaped m V k \<longleftrightarrow> (let fn = m_functions m ! k; n = unat (fn_local_count fn) in
     fn_code fn \<noteq> [] \<and> length (V ! k) = length (fn_code fn) \<and> handlers_inside fn \<and> site_shape V k 0 = (0, n) \<and>
     (\<forall>h\<in>set (fn_exception_handlers fn). site_shape V k (eh_target h) = (1, n)) \<and>
     (\<forall>pc<length (fn_code fn). snd (site_shape V k pc) = n) \<and>
     (\<forall>pc<length (fn_code fn). \<exists>st succs. has_shape (fst (site_shape V k pc)) n st \<and>
        transfer_instruction m k pc st = vreturn succs \<and>
        (\<forall>(t, s)\<in>set succs. t < length (fn_code fn) \<and> (length (as_stack s), n) = site_shape V k t)))"

lemma well_shapedD:
  assumes "well_shaped m V k" "pc < length (fn_code (m_functions m ! k))"
  shows "snd (site_shape V k pc) = unat (fn_local_count (m_functions m ! k)) \<and>
     (\<exists>st succs. has_shape (fst (site_shape V k pc)) (unat (fn_local_count (m_functions m ! k))) st \<and>
        transfer_instruction m k pc st = vreturn succs \<and>
        (\<forall>(t, s)\<in>set succs. t < length (fn_code (m_functions m ! k)) \<and>
           (length (as_stack s), unat (fn_local_count (m_functions m ! k))) = site_shape V k t))"
  using assms by (simp add: well_shaped_def Let_def)

lemma verified_function_is_well_shaped:
  assumes r: "verify_function_with_stack_maps m k = vreturn (V ! k)"
    and small: "length (fn_exception_handlers (m_functions m ! k)) < 2 ^ 63"
  shows "well_shaped m V k"
proof -
  let ?fn = "m_functions m ! k" and ?n = "unat (fn_local_count (m_functions m ! k))"
  let ?T0 = "initial_table ?fn"
  obtain T where check: "check_function_shape m k = vreturn ()" and "analyse m k ?T0 [0] = vreturn T"
    and maps: "vmap (stack_map_at m k T) [0..<length (fn_code ?fn)] = vreturn (V ! k)"
    using r by (auto simp: verify_function_with_stack_maps_def Let_def vthen_return_iff vbind_return_iff)
  then have an: "analyse m k ?T0 [0] = Some (Inr T)" by (simp add: vreturn_def)
  note init = initial_progress [OF check]
  note settles = analyse_settles [OF an refl init(1,2)]
  have len: "length T = length (fn_code ?fn)" using settles by (simp add: progressing_def)
  have ne: "fn_code ?fn \<noteq> []" using check by (auto simp: check_function_shape_def Let_def vthen_return_iff)
  have maps_at: "length (V ! k) = length (fn_code ?fn)"
    "\<And>pc. pc < length (fn_code ?fn) \<Longrightarrow> stack_map_at m k T pc = vreturn (V ! k ! pc)"
    using vmap_return [OF maps] by auto
  have shape: "shape_at T pc = Some (fst (site_shape V k pc), local_numbers m k) \<and> snd (site_shape V k pc) = ?n"
    if pc: "pc < length (fn_code ?fn)" for pc
  proof -
    from stack_map_shape [OF maps_at(2) [OF pc]] obtain st where st: "T ! pc = Some st"
      "site_shape V k pc = (length (as_stack st), length (as_local_reference_kinds st))" by (auto simp: site_shape_def)
    moreover have "snd (state_shape st) = local_numbers m k"
      using settles st(1) pc len by (auto simp: progressing_def)
    ultimately show ?thesis by (auto simp: shape_at_def state_shape_def)
  qed
  have settled: "settled m k T pc" if pc: "pc < length (fn_code ?fn)" for pc
  proof -
    from shape [OF pc] have "T ! pc \<noteq> None" by (auto simp: shape_at_def)
    then show ?thesis using settles pc len by (auto simp: progressing_def)
  qed
  have at: "site_shape V k t = (length (as_stack s), ?n)" if "t < length T" "shape_at T t = Some (state_shape s)" for t s
    using shape [of t] that len by (auto simp: state_shape_def prod_eq_iff)
  have steps: "\<exists>st succs. has_shape (fst (site_shape V k pc)) ?n st \<and> transfer_instruction m k pc st = vreturn succs \<and>
      (\<forall>(t, s)\<in>set (succs @ exception_successors ?fn pc st). t < length (fn_code ?fn) \<and> (length (as_stack s), ?n) = site_shape V k t)"
    if pc: "pc < length (fn_code ?fn)" for pc
  proof -
    from settled [OF pc] obtain st succs where st: "shape_at T pc = Some (state_shape st)"
      "transfer_instruction m k pc st = vreturn succs"
      and to: "\<And>t s. (t, s) \<in> set (succs @ exception_successors ?fn pc st) \<Longrightarrow> t < length T \<and> shape_at T t = Some (state_shape s)"
      unfolding settled_def by blast
    have "has_shape (fst (site_shape V k pc)) ?n st" using st(1) shape [OF pc] by (simp add: has_shape_def)
    moreover have "t < length (fn_code ?fn) \<and> (length (as_stack s), ?n) = site_shape V k t"
      if "(t, s) \<in> set (succs @ exception_successors ?fn pc st)" for t s
      using to [OF that] at [of t s] len by simp
    ultimately show ?thesis using st(2) by blast
  qed
  have "site_shape V k 0 = (0, ?n)"
  proof -
    have "shape_at ?T0 0 = Some (0, local_numbers m k)"
      using init(1) ne by (auto simp: progressing_def initial_table_def shape_at_def state_shape_def initial_state_def Let_def)
    moreover have "shape_at T 0 = shape_at ?T0 0"
      using settles ne by (simp add: initial_table_def)
    ultimately show ?thesis using shape [of 0] ne by (auto simp: prod_eq_iff)
  qed
  moreover have "site_shape V k (eh_target h) = (1, ?n)" if "h \<in> set (fn_exception_handlers ?fn)" for h
  proof -
    from that obtain i where i: "i < length (fn_exception_handlers ?fn)" "fn_exception_handlers ?fn ! i = h"
      by (auto simp: in_set_conv_nth)
    from init(3) [OF this] have wf: "eh_try_begin h < length (fn_code ?fn)" "i_op (fn_code ?fn ! eh_try_begin h) = Op_TryBegin"
      "i_operand (fn_code ?fn ! eh_try_begin h) = of_nat i"
      by (auto simp: handler_well_formed_def Let_def)
    let ?pc = "eh_try_begin h"
    have "unat (i_operand (fn_code ?fn ! ?pc)) = i" using wf(3) i(1) small by (simp add: unat_of_nat)
    then have "exception_successors ?fn ?pc st = [exception_successor h st]" for st
      using wf(2) i(2) by (simp add: exception_successors_def)
    with steps [OF wf(1)] show ?thesis by (auto simp: exception_successor_def)
  qed
  ultimately show ?thesis using ne maps_at(1) init(2) steps shape unfolding well_shaped_def Let_def by fastforce
qed

end
