(* ===== verification/VM_Shape.thy ===== *)
theory VM_Shape
  imports VM_Termination BC_Shape
begin

text \<open>
  The heights of the operand stacks in the machine.  \<open>acts k p q d\<close>: when the operation \<open>k\<close> succeeds the running frame
  has \<open>p\<close> operands fewer and \<open>q\<close> more, its counter is \<open>d\<close> further, and nothing else has changed its shape.
  \<open>maps_checked\<close> is a check of the stack maps of a module by one pass over its code; with maps that pass it, every
  step keeps each frame's shape what its map says.
\<close>

subsection \<open>The effect of an operation\<close>

text \<open>The function, counter, height and number of locals of a frame.\<close>

definition frame_shape :: "frame \<Rightarrow> nat \<times> nat \<times> nat \<times> nat" where
  "frame_shape f = (f_function_index f, f_pc f, length (f_stack f), length (f_locals f))"

abbreviation shapes :: "vm \<Rightarrow> (nat \<times> nat \<times> nat \<times> nat) list" where
  "shapes vm \<equiv> map frame_shape (v_frames vm)"

definition acts :: "(vm, 'a) sx \<Rightarrow> nat \<Rightarrow> nat \<Rightarrow> nat \<Rightarrow> bool" where
  "acts k p q d \<longleftrightarrow> (\<forall>vm r vm' S i pc h l. shapes vm = S @ [(i, pc, h, l)] \<longrightarrow> k vm = (Inr r, vm') \<longrightarrow>
     (\<exists>h'. h' + p = h + q \<and> shapes vm' = S @ [(i, pc + d, h', l)]))"

named_theorems acting \<open>stack effects of operations of the machine\<close>

lemma actsD:
  "acts k p q d \<Longrightarrow> k vm = (Inr r, vm') \<Longrightarrow> shapes vm = S @ [(i, pc, h, l)] \<Longrightarrow>
     \<exists>h'. h' + p = h + q \<and> shapes vm' = S @ [(i, pc + d, h', l)]"
  unfolding acts_def by blast

lemma acts_bind [acting]:
  assumes "acts k p1 q1 d1" "\<And>x. acts (f x) p2 q2 d2" "p = p1 + p2" "q = q1 + q2" "d = d1 + d2"
  shows "acts (sx_bind k f) p q d"
  unfolding acts_def
proof (intro allI impI)
  fix vm r vm' S i pc h l
  assume vm: "shapes vm = S @ [(i, pc, h, l)]" and r: "sx_bind k f vm = (Inr r, vm')"
  from r obtain x vm1 where k: "k vm = (Inr x, vm1)" and f: "f x vm1 = (Inr r, vm')" by (rule sx_bind_InrE)
  from actsD [OF assms(1) k vm] obtain h1 where h1: "h1 + p1 = h + q1" "shapes vm1 = S @ [(i, pc + d1, h1, l)]" by blast
  from actsD [OF assms(2) f h1(2)] h1(1) assms(3-5)
  show "\<exists>h'. h' + p = h + q \<and> shapes vm' = S @ [(i, pc + d, h', l)]" by (auto simp: add.assoc)
qed

lemma acts_then [acting]:
  "acts k p1 q1 d1 \<Longrightarrow> acts n p2 q2 d2 \<Longrightarrow> p = p1 + p2 \<Longrightarrow> q = q1 + q2 \<Longrightarrow> d = d1 + d2 \<Longrightarrow> acts (sx_then k n) p q d"
  unfolding sx_then_def by (rule acts_bind)

lemma acts_fails: "(\<And>vm r vm'. k vm \<noteq> (Inr r, vm')) \<Longrightarrow> acts k p q d"
  by (simp add: acts_def)

lemma acts_throw [acting]: "acts (sx_throw e) p q d" "acts (vm_trap t) p q d"
  by (rule acts_fails; simp add: sx_defs vm_trap_def)+

lemma acts_still:
  "(\<And>vm r vm'. k vm = (Inr r, vm') \<Longrightarrow> shapes vm' = shapes vm) \<Longrightarrow> acts k 0 0 0"
  by (simp add: acts_def)

lemma acts_simple [acting]:
  "acts (sx_return x) 0 0 0" "acts (sx_gets f) 0 0 0" "acts (sx_reads g) 0 0 0" "acts (sx_lift z) 0 0 0"
  "acts (sx_throw_if b e) 0 0 0" "acts (sx_assert b) 0 0 0" "acts (heap_read hf) 0 0 0"
  by (rule acts_still; simp add: sx_defs heap_read_def split: if_splits sum.splits)+

lemma acts_when [acting]: "acts k 0 0 0 \<Longrightarrow> acts (sx_when b k) 0 0 0"
  by (simp add: sx_when_def acts_simple)

lemma acts_if [acting]: "acts k p q d \<Longrightarrow> acts n p q d \<Longrightarrow> acts (if b then k else n) p q d"
  by simp

lemma acts_case_option [acting]:
  "acts k p q d \<Longrightarrow> (\<And>x. acts (f x) p q d) \<Longrightarrow> acts (case z of None \<Rightarrow> k | Some x \<Rightarrow> f x) p q d"
  by (cases z) simp_all

lemma acts_case_sum [acting]:
  "(\<And>x. acts (f x) p q d) \<Longrightarrow> (\<And>y. acts (g y) p q d) \<Longrightarrow> acts (case z of Inl x \<Rightarrow> f x | Inr y \<Rightarrow> g y) p q d"
  by (cases z) simp_all

lemma put_frames_shapes [simp]: "map frame_shape (put_frames_roots fs vs) = map frame_shape fs"
  by (induction fs vs rule: put_frames_roots.induct) (simp_all add: put_frame_roots_def frame_shape_def Let_def)

lemma acts_heap_call [acting]: "acts (heap_call k) 0 0 0"
  by (rule acts_still) (auto simp: heap_call_def put_roots_def split: prod.splits)

lemma acts_modify_top:
  assumes "\<And>f. f_function_index (g f) = f_function_index f \<and> length (f_locals (g f)) = length (f_locals f) \<and>
     f_pc (g f) = f_pc f + d \<and> length (f_stack (g f)) = length (f_stack f) + q"
  shows "acts (modify_top g) 0 q d"
  unfolding acts_def
proof (intro allI impI)
  fix vm r vm' S i pc h l
  assume vm: "shapes vm = S @ [(i, pc, h, l)]" and r: "modify_top g vm = (Inr r, vm')"
  then obtain fs f where fs: "v_frames vm = fs @ [f]" "map frame_shape fs = S" "frame_shape f = (i, pc, h, l)"
    by (auto simp: map_eq_append_conv)
  then have "v_frames vm' = fs @ [g f]"
    using r by (auto simp: modify_top_def sx_modify_def top_frame_def list_update_append)
  with fs assms [of f] show "\<exists>h'. h' + 0 = h + q \<and> shapes vm' = S @ [(i, pc + d, h', l)]"
    by (simp add: frame_shape_def)
qed

lemma acts_pop [acting]: "acts vm_pop 1 0 0"
  unfolding acts_def
proof (intro allI impI)
  fix vm r vm' S i pc h l
  assume vm: "shapes vm = S @ [(i, pc, h, l)]" and r: "vm_pop vm = (Inr r, vm')"
  then obtain fs f where fs: "v_frames vm = fs @ [f]" "map frame_shape fs = S" "frame_shape f = (i, pc, h, l)"
    by (auto simp: map_eq_append_conv)
  with r have "f_stack f \<noteq> []" "v_frames vm' = fs @ [f\<lparr>f_stack := butlast (f_stack f)\<rparr>]"
    by (auto simp: vm_pop_def modify_top_def sx_defs top_frame_def list_update_append split: if_splits)
  with fs show "\<exists>h'. h' + 1 = h + 0 \<and> shapes vm' = S @ [(i, pc + 0, h', l)]"
    by (cases "f_stack f") (auto simp: frame_shape_def)
qed

lemma acts_stack [acting]: "acts (vm_push v) 0 1 0" "acts next_pc 0 0 1"
  unfolding vm_push_def next_pc_def by (rule acts_modify_top, simp)+

lemma acts_results [acting]:
  "acts (push_next v) 0 1 1" "acts (push_object i) 0 1 1" "acts (push_size n) 0 1 1"
proof -
  show p: "acts (push_next v) 0 1 1" for v unfolding push_next_def by (rule acting | simp)+
  show "acts (push_object i) 0 1 1" "acts (push_size n) 0 1 1"
    unfolding push_object_def push_size_def by (rule p acting | simp)+
qed

lemma acts_pop_arguments [acting]: "acts (pop_arguments n) n 0 0"
proof (induction n)
  case 0
  show ?case by (simp add: acts_simple)
next
  case (Suc n)
  show ?case unfolding pop_arguments.simps
    by (rule acts_bind [OF acts_pop acts_bind [OF Suc.IH acts_simple(1) refl refl refl]]) simp_all
qed

lemma acts_pop_then [acting]: "acts k p q d \<Longrightarrow> acts (pop_then n k) (n + p) q d"
  unfolding pop_then_def by (rule acts_bind [OF acts_pop_arguments]) simp_all

lemma acts_modify_still: "(\<And>vm. v_frames (g vm) = v_frames vm) \<Longrightarrow> acts (sx_modify g) 0 0 0"
  by (rule acts_still) (auto simp: sx_modify_def)

lemma acts_operands [acting]:
  "acts (assert_kind k i) 0 0 0" "acts (object_operand v) 0 0 0" "acts (i64_operand v) 0 0 0"
  "acts (index_operand msg n64) 0 0 0" 
  "acts (peek_operand a b) 0 0 0" "acts (table_entry table w) 0 0 0"
  "acts (assert_stack_matches_map V) 0 0 0" "acts count_instruction 0 0 0"
  "acts pending_layout 0 0 0" "acts (check_closure fn n c) 0 0 0"
  unfolding assert_kind_def object_operand_def i64_operand_def index_operand_def
    peek_operand_def table_entry_def assert_stack_matches_map_def count_instruction_def
    pending_layout_def check_closure_def
  by (((rule acting acts_modify_still | simp)+)[1])+

lemma acts_receivers [acting]:
  "acts (receiver_of_kind k v) 0 0 0" "acts (record_receiver m ins v) 0 0 0"
  unfolding receiver_of_kind_def record_receiver_def receiver_of_kind_def by (((rule acting | simp)+)[1])+

lemma acts_table: "acts (f (table ! unat w)) p q d \<Longrightarrow> acts (sx_bind (table_entry table w) f) p q d"
  by (simp add: acts_def table_entry_def sx_defs)

lemma acts_set_local [acting]: "acts (modify_top (\<lambda>f. f\<lparr>f_locals := (f_locals f)[n := v]\<rparr>)) 0 0 0"
  by (rule acts_modify_top) simp

lemma acts_output [acting]: "acts (sx_modify (\<lambda>vm. vm\<lparr>v_output := out vm\<rparr>)) 0 0 0"
  by (rule acts_modify_still) simp

lemma acts_continue: "acts k p q d \<Longrightarrow> acts (continue_after k) p q d"
  unfolding continue_after_def by (rule acts_then [of _ _ _ _ _ 0 0 0], assumption, (rule acting | simp)+)

text \<open>An instruction that falls through has the effect the verifier gives it.\<close>

lemma exec_effect:
  "i_op ins \<notin> leaves_the_line \<Longrightarrow> i_op ins \<noteq> Op_Call \<Longrightarrow>
     acts (exec_instruction m V fn ins) (fst (stack_effect m ins)) (snd (stack_effect m ins)) 1"
  apply (cases "i_op ins"; (simp only: leaves_the_line_def insert_iff simp_thms; fail)?)
  apply (simp_all only: exec_instruction_def stack_effect_def opcode.case fst_conv snd_conv)
  apply (unfold plain_instructions exec_print_def exec_load_capture_def)
  apply ((rule acts_continue, (rule acts_table acting | (simp; fail))+)[1])+
  done

subsection \<open>Shapes that fit the stack maps\<close>

definition frame_fits :: "bytecode_module \<Rightarrow> module_verification \<Rightarrow> nat \<Rightarrow> nat \<times> nat \<times> nat \<times> nat \<Rightarrow> bool" where
  "frame_fits m V expected = (\<lambda>(k, pc, h, l). k < length (m_functions m) \<and> pc < length (fn_code (m_functions m ! k)) \<and>
     site_shape V k pc = (h + expected, l) \<and> l = unat (fn_local_count (m_functions m ! k)))"

definition shapes_fit :: "bytecode_module \<Rightarrow> module_verification \<Rightarrow> (nat \<times> nat \<times> nat \<times> nat) list \<Rightarrow> bool" where
  "shapes_fit m V ss \<longleftrightarrow> list_all (frame_fits m V 1) (butlast ss) \<and> (ss \<noteq> [] \<longrightarrow> frame_fits m V 0 (last ss))"

lemma shapes_fit_snoc [simp]: "shapes_fit m V (S @ [x]) \<longleftrightarrow> list_all (frame_fits m V 1) S \<and> frame_fits m V 0 x"
  by (simp add: shapes_fit_def)

text \<open>The check of the maps of one instruction, of a function and of a module.\<close>

definition leads_to :: "bytecode_module \<Rightarrow> module_verification \<Rightarrow> nat \<Rightarrow> nat \<Rightarrow> nat \<Rightarrow> nat \<times> nat \<Rightarrow> bool" where
  "leads_to m V k pc t e \<longleftrightarrow> t < length (fn_code (m_functions m ! k)) \<and>
     fst (site_shape V k t) + fst e = fst (site_shape V k pc) + snd e \<and>
     snd (site_shape V k t) = unat (fn_local_count (m_functions m ! k))"

definition site_checked :: "bytecode_module \<Rightarrow> module_verification \<Rightarrow> nat \<Rightarrow> nat \<Rightarrow> bool" where
  "site_checked m V k pc \<longleftrightarrow> (let ins = fn_code (m_functions m ! k) ! pc; target = unat (i_operand ins) in
     snd (site_shape V k pc) = unat (fn_local_count (m_functions m ! k)) \<and>
     (if i_op ins = Op_Jump then leads_to m V k pc target (0, 0)
      else if i_op ins = Op_JumpIfFalse then leads_to m V k pc target (1, 0) \<and> leads_to m V k pc (pc + 1) (1, 0)
      else i_op ins \<in> {Op_Return, Op_Throw, Op_TailCall} \<or>
        i_op ins \<noteq> Op_CallClosure \<and> (i_op ins = Op_Call \<longrightarrow> target < length (m_functions m)) \<and> leads_to m V k pc (pc + 1) (stack_effect m ins)))"

definition function_checked :: "bytecode_module \<Rightarrow> module_verification \<Rightarrow> nat \<Rightarrow> bool" where
  "function_checked m V k \<longleftrightarrow> (let fn = m_functions m ! k; n = unat (fn_local_count fn) in
     fn_code fn \<noteq> [] \<and> length (V ! k) = length (fn_code fn) \<and> site_shape V k 0 = (0, n) \<and>
     list_all (\<lambda>h. eh_target h < length (fn_code fn) \<and> site_shape V k (eh_target h) = (1, n)) (fn_exception_handlers fn) \<and>
     list_all (site_checked m V k) [0..<length (fn_code fn)])"

definition maps_checked :: "bytecode_module \<Rightarrow> module_verification \<Rightarrow> bool" where
  "maps_checked m V \<longleftrightarrow> length V = length (m_functions m) \<and> list_all (function_checked m V) [0..<length (m_functions m)]"

lemma maps_checkedD:
  assumes "maps_checked m V" "k < length (m_functions m)"
  shows "function_checked m V k" "pc < length (fn_code (m_functions m ! k)) \<Longrightarrow> site_checked m V k pc"
  using assms by (auto simp: maps_checked_def list_all_iff function_checked_def Let_def)

text \<open>The entry of a function and of a handler.\<close>

lemma entry_fits:
  assumes "maps_checked m V" "k < length (m_functions m)"
  shows "frame_fits m V 0 (k, 0, 0, unat (fn_local_count (m_functions m ! k)))"
  using maps_checkedD(1) [OF assms] assms(2) by (simp add: function_checked_def frame_fits_def Let_def)

lemma handler_fits:
  assumes "maps_checked m V" "frame_fits m V e (k, p, h, l)" "handler \<in> set (fn_exception_handlers (m_functions m ! k))"
  shows "frame_fits m V 0 (k, eh_target handler, 1, l)"
  using maps_checkedD(1) [OF assms(1), of k] assms(2,3) by (auto simp: function_checked_def frame_fits_def Let_def list_all_iff)

lemma next_fits:
  assumes "leads_to m V k pc t e" "frame_fits m V 0 (k, pc, h, l)" "h' + fst e + w = h + snd e"
  shows "frame_fits m V w (k, t, h', l)"
  using assms by (auto simp: frame_fits_def leads_to_def prod_eq_iff)

subsection \<open>The instructions that leave the line\<close>

lemma top_shape:
  "shapes vm = S @ [(i, pc, h, l)] \<Longrightarrow>
     \<exists>fs f. v_frames vm = fs @ [f] \<and> map frame_shape fs = S \<and> frame_shape f = (i, pc, h, l) \<and> top_frame vm = f"
  by (auto simp: map_eq_append_conv top_frame_def)

lemma jump_to_shapes:
  assumes r: "jump_to fn ins vm = (Inr x, vm')" and vm: "shapes vm = S @ [(i, pc, h, l)]"
  shows "shapes vm' = S @ [(i, unat (i_operand ins), h, l)]"
proof -
  from top_shape [OF vm] obtain fs f where f: "v_frames vm = fs @ [f]" "map frame_shape fs = S" "frame_shape f = (i, pc, h, l)"
    by blast
  then show ?thesis using r
    by (auto simp: jump_to_def modify_top_def sx_defs top_frame_def list_update_append frame_shape_def split: if_splits)
qed

lemma jump_if_false_shapes:
  assumes r: "exec_jump_if_false fn ins vm = (Inr x, vm')" and vm: "shapes vm = S @ [(i, pc, h, l)]"
  shows "\<exists>h'. h' + 1 = h \<and> (shapes vm' = S @ [(i, unat (i_operand ins), h', l)] \<or> shapes vm' = S @ [(i, pc + 1, h', l)])"
proof -
  let ?before = "sx_bind vm_pop (\<lambda>v. sx_then (sx_assert (tag v = Tag_Bool)) (sx_lift (as_bool v)))"
  have before: "acts ?before 1 0 0" by (rule acting | simp)+
  have "exec_jump_if_false fn ins = sx_bind ?before (\<lambda>condition. if \<not> condition then jump_to fn ins else next_pc)"
    by (simp add: exec_jump_if_false_def sx_then_def sx_bind_assoc)
  with r have "sx_bind ?before (\<lambda>condition. if \<not> condition then jump_to fn ins else next_pc) vm = (Inr x, vm')" by simp
  then obtain condition vm1 where b: "?before vm = (Inr condition, vm1)"
    and k: "(if \<not> condition then jump_to fn ins else next_pc) vm1 = (Inr x, vm')" by (rule sx_bind_InrE)
  from actsD [OF before b vm] obtain h' where h': "h' + 1 = h" "shapes vm1 = S @ [(i, pc, h', l)]" by auto
  show ?thesis
  proof (cases condition)
    case True
    with k have "next_pc vm1 = (Inr x, vm')" by simp
    from actsD [OF acts_stack(2) this h'(2)] h'(1) show ?thesis by auto
  next
    case False
    with k have "jump_to fn ins vm1 = (Inr x, vm')" by simp
    from jump_to_shapes [OF this h'(2)] h'(1) show ?thesis by blast
  qed
qed

lemma push_frame_shapes:
  assumes r: "push_frame m k arguments None vm = (Inr x, vm')"
  shows "shapes vm' = shapes vm @ [(k, 0, 0, unat (fn_local_count (m_functions m ! k)))] \<and> k < length (m_functions m)"
  using r by (auto simp: push_frame_def sx_defs Let_def new_frame_def frame_shape_def split: if_splits)

lemma call_shapes:
  assumes r: "exec_call m ins vm = (Inr x, vm')" and vm: "shapes vm = S @ [(i, pc, h, l)]"
  shows "\<exists>h'. h' + length (fs_parameters (fn_signature (m_functions m ! unat (i_operand ins)))) = h \<and>
     unat (i_operand ins) < length (m_functions m) \<and>
     shapes vm' = S @ [(i, pc + 1, h', l), (unat (i_operand ins), 0, 0, unat (fn_local_count (m_functions m ! unat (i_operand ins))))]"
proof -
  let ?k = "unat (i_operand ins)"
  let ?n = "length (fs_parameters (fn_signature (m_functions m ! ?k)))"
  let ?before = "sx_bind (pop_arguments ?n) (\<lambda>arguments. sx_then next_pc (sx_return arguments))"
  have before: "acts ?before ?n 0 1" by (rule acting | simp)+
  have "sx_bind ?before (\<lambda>arguments. push_frame m ?k arguments None) vm = (Inr x, vm')"
    using r by (auto simp: exec_call_def table_entry_def sx_defs split: if_splits prod.splits sum.splits)
  then obtain arguments vm1 where b: "?before vm = (Inr arguments, vm1)" and p: "push_frame m ?k arguments None vm1 = (Inr x, vm')"
    by (rule sx_bind_InrE)
  from actsD [OF before b vm] push_frame_shapes [OF p] show ?thesis by auto
qed

lemma tail_call_shapes:
  assumes r: "exec_tail_call m ins vm = (Inr x, vm')" and vm: "shapes vm = S @ [(i, pc, h, l)]"
  shows "unat (i_operand ins) < length (m_functions m) \<and>
     shapes vm' = S @ [(unat (i_operand ins), 0, 0, unat (fn_local_count (m_functions m ! unat (i_operand ins))))]"
proof -
  let ?k = "unat (i_operand ins)"
  let ?fn = "m_functions m ! ?k"
  let ?n = "length (fs_parameters (fn_signature ?fn))"
  obtain arguments vm1 where b: "pop_arguments ?n vm = (Inr arguments, vm1)"
    and small: "length arguments \<le> unat (fn_local_count ?fn)" and k: "?k < length (m_functions m)"
    and t: "modify_top (\<lambda>_. new_frame ?fn ?k arguments None) vm1 = (Inr (), vm')"
    using r by (auto simp: exec_tail_call_def reuse_frame_for_tail_call_def sx_defs Let_def modify_top_def
      split: prod.splits sum.splits if_splits)
  from actsD [OF acts_pop_arguments b vm] obtain h' where "shapes vm1 = S @ [(i, pc, h', l)]" by auto
  from top_shape [OF this] obtain fs f where "v_frames vm1 = fs @ [f]" "map frame_shape fs = S" by blast
  with t small k show ?thesis by (auto simp: modify_top_def sx_modify_def new_frame_def frame_shape_def)
qed

lemma return_shapes:
  assumes r: "exec_return vm = (Inr x, vm')" and vm: "shapes vm = S @ [y]"
  shows "x = None \<and> (\<exists>T i pc h l. S = T @ [(i, pc, h, l)] \<and> shapes vm' = T @ [(i, pc, h + 1, l)]) \<or> x \<noteq> None \<and> shapes vm' = S"
proof -
  let ?finish = "sx_bind (sx_gets (\<lambda>vm. h_marking_active (v_heap vm))) (\<lambda>marking.
     sx_bind (sx_gets (\<lambda>vm. incremental_compact_step_budgets (v_gc_stress vm) \<noteq> [])) (\<lambda>compaction_stress.
     sx_then (sx_when marking (if compaction_stress
       then heap_call finish_incremental_marking_to_incremental_compaction else heap_call finish_incremental_marking))
     (sx_bind (sx_gets (\<lambda>vm. h_compaction_active (v_heap vm))) (\<lambda>compacting.
     sx_then (sx_when compacting (heap_call finish_incremental_compaction)) vm_pop))))"
  have finish: "acts ?finish 1 0 0" by (rule acting | simp)+
  let ?rest = "\<lambda>result. sx_then (sx_modify (\<lambda>vm. vm\<lparr>v_frames := butlast (v_frames vm)\<rparr>))
     (sx_then count_instruction
     (sx_bind (sx_gets (\<lambda>vm. v_frames vm = [])) (\<lambda>finished.
     if finished then sx_return (Some result) else sx_then (vm_push result) (sx_return None))))"
  have "exec_return = sx_bind ?finish ?rest"
    by (simp add: exec_return_def sx_then_def sx_bind_assoc)
  with r have "sx_bind ?finish ?rest vm = (Inr x, vm')" by simp
  then obtain v vm1 where f: "?finish vm = (Inr v, vm1)" and rest: "?rest v vm1 = (Inr x, vm')"
    by (rule sx_bind_InrE)
  obtain i0 pc0 h0 l0 where y: "y = (i0, pc0, h0, l0)" by (cases y)
  from actsD [OF finish f vm [unfolded y]] obtain h' where "shapes vm1 = S @ [(i0, pc0, h', l0)]" by auto
  then obtain fs g where g: "v_frames vm1 = fs @ [g]" "map frame_shape fs = S" by (auto simp: map_eq_append_conv)
  show ?thesis
  proof (cases fs rule: rev_cases)
    case Nil
    with g rest show ?thesis by (auto simp: sx_defs count_instruction_def)
  next
    case (snoc T f)
    let ?vm2 = "vm1\<lparr>v_frames := fs\<rparr>"
    have last: "butlast (T @ [f, g]) = T @ [f]" by (simp add: butlast_append)
    have "sx_then count_instruction (sx_then (vm_push v) (sx_return None)) ?vm2 = (Inr x, vm')"
      using g rest snoc last by (auto simp: sx_defs count_instruction_def)
    then have "v_frames vm' = T @ [f\<lparr>f_stack := f_stack f @ [v]\<rparr>]" "x = None"
      using snoc by (auto simp: sx_defs count_instruction_def vm_push_def modify_top_def top_frame_def list_update_append)
    with g(2) snoc show ?thesis by (auto simp: frame_shape_def)
  qed
qed

lemma shapes_butlast: "shapes (vm\<lparr>v_frames := butlast (v_frames vm)\<rparr>) = butlast (shapes vm)"
  by (simp add: map_butlast)

lemma unwind_shapes:
  assumes "unwind m initial n vm = (Inr True, vm')" "length (v_frames vm) = n"
  shows "\<exists>j k p h l handler. j < n \<and> shapes vm ! j = (k, p, h, l) \<and>
    handler \<in> set (fn_exception_handlers (m_functions m ! k)) \<and> shapes vm' = take j (shapes vm) @ [(k, eh_target handler, 1, l)]"
  using assms
proof (induction n arbitrary: vm initial)
  case (Suc n)
  then obtain fs f where fs: "v_frames vm = fs @ [f]" "length fs = n"
    by (metis length_Suc_conv_rev)
  obtain k p h l where f: "frame_shape f = (k, p, h, l)" by (cases "frame_shape f")
  have vm: "shapes vm = map frame_shape fs @ [(k, p, h, l)]" using fs f by simp
  let ?site = "if initial then f_pc f else f_pc f - 1"
  let ?hs = "fn_exception_handlers (m_functions m ! f_function_index f)"
  obtain layout vm1 where layout: "pending_layout vm = (Inr layout, vm1)"
    using Suc.prems(1) by (auto simp: sx_bind_def sx_gets_def Let_def split: prod.splits sum.splits)
  from actsD [OF acts_operands(9) layout vm] have vm1: "shapes vm1 = map frame_shape fs @ [(k, p, h, l)]" by simp
  show ?case
  proof (cases "select_handler ?site layout None ?hs")
    case (Some handler)
    then have handler: "handler \<in> set ?hs" using select_handler_some [OF Some] by simp
    from top_shape [OF vm1] obtain fs1 f1 where fs1: "v_frames vm1 = fs1 @ [f1]" "map frame_shape fs1 = map frame_shape fs"
      "frame_shape f1 = (k, p, h, l)" by blast
    have "sx_then (enter_handler handler) (sx_return True) vm1 = (Inr True, vm')"
      using Suc.prems(1) Some layout fs(1) by (cases initial) (simp_all add: sx_bind_def sx_gets_def Let_def top_frame_def)
    then have "shapes vm' = map frame_shape fs @ [(k, eh_target handler, 1, l)]"
      using fs1 by (auto simp: sx_defs Let_def top_frame_def enter_handler_def modify_top_def frame_shape_def list_update_append)
    with handler fs f show ?thesis
      by - (rule exI [of _ n], rule exI [of _ k], rule exI [of _ p], rule exI [of _ h], rule exI [of _ l],
        rule exI [of _ handler], simp add: nth_append frame_shape_def [of f])
  next
    case None
    let ?mid = "sx_bind (sx_gets (\<lambda>vm. collect_every_n_instructions (v_gc_stress vm) = 1)) (\<lambda>stress.
         sx_when stress (heap_call heap_collect))"
    have mid: "acts ?mid 0 0 0" by (rule acting | simp)+
    have "sx_bind (sx_gets (\<lambda>vm. collect_every_n_instructions (v_gc_stress vm) = 1)) (\<lambda>stress.
         sx_then (sx_when stress (heap_call heap_collect))
         (sx_then (sx_modify (\<lambda>vm. vm\<lparr>v_frames := butlast (v_frames vm)\<rparr>)) (unwind m False n))) vm1 = (Inr True, vm')"
      using Suc.prems(1) None layout fs(1) by (cases initial) (simp_all add: sx_bind_def sx_gets_def Let_def top_frame_def)
    then obtain u vm2 where m2: "?mid vm1 = (Inr u, vm2)"
      and u: "unwind m False n (vm2\<lparr>v_frames := butlast (v_frames vm2)\<rparr>) = (Inr True, vm')"
      by (auto simp: sx_bind_def sx_then_def sx_gets_def sx_modify_def split: prod.splits sum.splits)
    let ?vm2 = "vm2\<lparr>v_frames := butlast (v_frames vm2)\<rparr>"
    from actsD [OF mid m2 vm1] have s3: "shapes ?vm2 = map frame_shape fs" by (simp add: map_butlast)
    then have "length (v_frames ?vm2) = n" using fs(2) by (metis length_map)
    from Suc.IH [OF u this] obtain j k p h l handler where jk: "j < n" "map frame_shape fs ! j = (k, p, h, l)"
      "handler \<in> set (fn_exception_handlers (m_functions m ! k))"
      "shapes vm' = take j (map frame_shape fs) @ [(k, eh_target handler, 1, l)]"
      unfolding s3 by auto
    then show ?thesis using fs
      by - (rule exI [of _ j], rule exI [of _ k], rule exI [of _ p], rule exI [of _ h], rule exI [of _ l],
        rule exI [of _ handler], simp add: nth_append)
  qed
qed (simp add: sx_return_def)

lemma throw_shapes:
  assumes r: "exec_throw m vm = (Inr x, vm')" and vm: "shapes vm = S @ [(i, pc, h0, l0)]"
  shows "\<exists>j k p h l handler. j \<le> length S \<and> (if j < length S then S ! j = (k, p, h, l) else k = i \<and> l = l0) \<and>
    handler \<in> set (fn_exception_handlers (m_functions m ! k)) \<and> shapes vm' = take j S @ [(k, eh_target handler, 1, l)]"
proof -
  define pre where "pre = sx_bind vm_pop (\<lambda>e.
     sx_then (sx_modify (\<lambda>vm. vm\<lparr>v_pending_exception := Some e\<rparr>))
     (sx_bind (receiver_of_kind Variant e) (\<lambda>_.
     sx_gets (\<lambda>vm. capture_runtime_trace m (f_function_index (top_frame vm)) (f_pc (top_frame vm))
       Failure_Uncaught_Exception vm))))"
  define post where "post = (\<lambda>trace. sx_bind (sx_gets (\<lambda>vm. length (v_frames vm))) (\<lambda>n.
     sx_bind (unwind m True n) (\<lambda>handled. if handled then sx_return () else uncaught_exception m trace)))"
  have "exec_throw m = sx_bind pre post"
    by (simp add: exec_throw_def pre_def post_def sx_then_def sx_bind_assoc)
  with r have "sx_bind pre post vm = (Inr x, vm')" by simp
  then obtain trace vm1 where p: "pre vm = (Inr trace, vm1)" and q: "post trace vm1 = (Inr x, vm')"
    by (rule sx_bind_InrE)
  have still: "acts (sx_modify (\<lambda>vm. vm\<lparr>v_pending_exception := Some e\<rparr>)) 0 0 0" for e by (rule acts_modify_still) simp
  have "acts pre 1 0 0" unfolding pre_def by (rule acting still | simp)+
  from actsD [OF this p vm] obtain h' where vm1: "shapes vm1 = S @ [(i, pc, h', l0)]" by auto
  then have n: "length (v_frames vm1) = Suc (length S)" by (metis length_append_singleton length_map)
  obtain handled vm2 where u: "unwind m True (Suc (length S)) vm1 = (Inr handled, vm2)"
    and h: "(if handled then sx_return () else uncaught_exception m trace) vm2 = (Inr x, vm')"
    using q n by (auto simp: post_def sx_gets_def sx_bind_def split: prod.splits sum.splits)
  have "handled" "vm2 = vm'"
    using h by (auto simp: sx_return_def uncaught_exception_def sx_defs Let_def split: if_splits prod.splits sum.splits)
  with u have "unwind m True (Suc (length S)) vm1 = (Inr True, vm')" by simp
  from unwind_shapes [OF this n] obtain j k p h l handler where
    "j < Suc (length S)" "shapes vm1 ! j = (k, p, h, l)" "handler \<in> set (fn_exception_handlers (m_functions m ! k))"
    "shapes vm' = take j (shapes vm1) @ [(k, eh_target handler, 1, l)]" by blast
  then show ?thesis unfolding vm1
    by - (rule exI [of _ j], rule exI [of _ k], rule exI [of _ p], rule exI [of _ h], rule exI [of _ l],
        rule exI [of _ handler], auto simp: nth_append split: if_splits)
qed

subsection \<open>Every step keeps the shapes\<close>

lemma continue_after_shapes:
  assumes "continue_after k vm = (Inr r, vm')"
  shows "\<exists>u vm1. k vm = (Inr u, vm1) \<and> shapes vm' = shapes vm1 \<and> r = None"
  using assms
  by (auto simp: continue_after_def count_instruction_def sx_then_def sx_bind_def sx_modify_def sx_return_def
    split: prod.splits sum.splits)

lemma exec_keeps_fit:
  assumes ok: "maps_checked m V" and vm: "shapes vm = S @ [(i, pc, h, l)]" and fit: "shapes_fit m V (shapes vm)"
    and ins: "ins = fn_code (m_functions m ! i) ! pc"
    and r: "exec_instruction m V (m_functions m ! i) ins vm = (Inr None, vm')"
  shows "shapes_fit m V (shapes vm')"
proof -
  have S: "list_all (frame_fits m V 1) S" and top: "frame_fits m V 0 (i, pc, h, l)" using fit vm by simp_all
  then have site: "site_checked m V i pc" "i < length (m_functions m)"
    using maps_checkedD(2) [OF ok] by (simp_all add: frame_fits_def)
  consider (line) "i_op ins \<notin> leaves_the_line" "i_op ins \<noteq> Op_Call" | "i_op ins = Op_Call" | "i_op ins = Op_Jump"
    | "i_op ins = Op_JumpIfFalse" | "i_op ins = Op_Return" | "i_op ins = Op_Throw"
    | "i_op ins = Op_TailCall" | "i_op ins = Op_CallClosure" by (auto simp: leaves_the_line_def)
  then show ?thesis
  proof cases
    case line
    from actsD [OF exec_effect [OF line] r vm] obtain h' where
      h': "h' + fst (stack_effect m ins) = h + snd (stack_effect m ins)" "shapes vm' = S @ [(i, pc + 1, h', l)]" by blast
    have "leads_to m V i pc (pc + 1) (stack_effect m ins)"
      using site(1) line ins by (auto simp: site_checked_def leaves_the_line_def Let_def)
    from next_fits [OF this top, of h' 0] h' S show ?thesis by simp
  next
    case 2
    with r have "continue_after (exec_call m ins) vm = (Inr None, vm')" by (simp add: exec_instruction_def)
    from continue_after_shapes [OF this] obtain u vm1 where c: "exec_call m ins vm = (Inr u, vm1)" "shapes vm' = shapes vm1" by blast
    let ?n = "length (fs_parameters (fn_signature (m_functions m ! unat (i_operand ins))))"
    from call_shapes [OF c(1) vm] obtain h' where h': "h' + ?n = h" "unat (i_operand ins) < length (m_functions m)"
      "shapes vm1 = S @ [(i, pc + 1, h', l), (unat (i_operand ins), 0, 0, unat (fn_local_count (m_functions m ! unat (i_operand ins))))]" by blast
    have "leads_to m V i pc (pc + 1) (?n, 1)"
      using site(1) 2 ins by (simp add: site_checked_def stack_effect_def Let_def)
    from next_fits [OF this top, of h' 1] h'(1) entry_fits [OF ok h'(2)] S show ?thesis
      using shapes_fit_snoc [of m V "S @ [(i, pc + 1, h', l)]"] by (simp add: c(2) h'(3))
  next
    case 3
    with r have "continue_after (jump_to (m_functions m ! i) ins) vm = (Inr None, vm')" by (simp add: exec_instruction_def)
    from continue_after_shapes [OF this] obtain u vm1 where c: "jump_to (m_functions m ! i) ins vm = (Inr u, vm1)"
      "shapes vm' = shapes vm1" by blast
    have "leads_to m V i pc (unat (i_operand ins)) (0, 0)" using site(1) 3 ins by (simp add: site_checked_def Let_def)
    from next_fits [OF this top, of h 0] S show ?thesis by (simp add: c(2) jump_to_shapes [OF c(1) vm])
  next
    case 4
    with r have "continue_after (exec_jump_if_false (m_functions m ! i) ins) vm = (Inr None, vm')"
      by (simp add: exec_instruction_def)
    from continue_after_shapes [OF this] obtain u vm1 where c: "exec_jump_if_false (m_functions m ! i) ins vm = (Inr u, vm1)"
      "shapes vm' = shapes vm1" by blast
    have to: "leads_to m V i pc (unat (i_operand ins)) (1, 0)" "leads_to m V i pc (pc + 1) (1, 0)"
      using site(1) 4 ins by (simp_all add: site_checked_def Let_def)
    from jump_if_false_shapes [OF c(1) vm] obtain h' where "h' + 1 = h"
      "shapes vm1 = S @ [(i, unat (i_operand ins), h', l)] \<or> shapes vm1 = S @ [(i, pc + 1, h', l)]" by blast
    with next_fits [OF to(1) top, of h' 0] next_fits [OF to(2) top, of h' 0] S show ?thesis
      unfolding c(2) by (auto simp del: One_nat_def)
  next
    case 5
    with r have "exec_return vm = (Inr None, vm')" by (simp add: exec_instruction_def)
    from return_shapes [OF this vm] obtain T j p h1 l1 where "S = T @ [(j, p, h1, l1)]" "shapes vm' = T @ [(j, p, h1 + 1, l1)]"
      by auto
    with S show ?thesis by (simp add: frame_fits_def)
  next
    case 6
    with r have "continue_after (exec_throw m) vm = (Inr None, vm')" by (simp add: exec_instruction_def)
    from continue_after_shapes [OF this] obtain u vm1 where c: "exec_throw m vm = (Inr u, vm1)" "shapes vm' = shapes vm1" by blast
    from throw_shapes [OF c(1) vm] obtain j k p h1 l1 handler where j: "j \<le> length S"
      "if j < length S then S ! j = (k, p, h1, l1) else k = i \<and> l1 = l"
      "handler \<in> set (fn_exception_handlers (m_functions m ! k))" "shapes vm1 = take j S @ [(k, eh_target handler, 1, l1)]" by blast
    have "frame_fits m V 0 (k, eh_target handler, 1, l1)"
    proof (cases "j < length S")
      case True
      with S j(2) have "frame_fits m V 1 (k, p, h1, l1)" by (auto simp: list_all_length)
      from handler_fits [OF ok this j(3)] show ?thesis .
    next
      case False
      with j(2) handler_fits [OF ok top, of handler] j(3) show ?thesis by simp
    qed
    moreover have "list_all (frame_fits m V 1) (take j S)" using S by (auto simp: list_all_iff dest: in_set_takeD)
    ultimately show ?thesis unfolding c(2) j(4) by simp
  next
    case 7
    with r have "continue_after (exec_tail_call m ins) vm = (Inr None, vm')" by (simp add: exec_instruction_def)
    from continue_after_shapes [OF this] obtain u vm1 where c: "exec_tail_call m ins vm = (Inr u, vm1)" "shapes vm' = shapes vm1" by blast
    from tail_call_shapes [OF c(1) vm] entry_fits [OF ok] S show ?thesis unfolding c(2) by simp
  next
    case 8
    with site(1) ins show ?thesis by (simp add: site_checked_def Let_def)
  qed
qed

lemma acts_boundary: "acts (collect_at_instruction_boundary V) 0 0 0"
proof -
  have still: "acts (sx_modify (\<lambda>vm. vm\<lparr>v_mark_budget_cursor := x vm\<rparr>)) 0 0 0"
    "acts (sx_modify (\<lambda>vm. vm\<lparr>v_compact_budget_cursor := x vm\<rparr>)) 0 0 0" for x
    by (rule acts_modify_still, simp)+
  show ?thesis
    unfolding collect_at_instruction_boundary_def collect_at_interval_def marking_boundary_def compaction_boundary_def
    by (rule acting still | simp)+
qed

lemma step_keeps_fit:
  assumes ok: "maps_checked m V" and fit: "shapes_fit m V (shapes vm)" and ne: "v_frames vm \<noteq> []"
    and r: "vm_step m V vm = (Inr None, vm')"
  shows "shapes_fit m V (shapes vm')"
proof -
  obtain S i pc h l where vm: "shapes vm = S @ [(i, pc, h, l)]"
    using ne by (metis map_is_Nil_conv rev_exhaust prod_cases4)
  from top_shape [OF vm] have top: "f_function_index (top_frame vm) = i" by (auto simp: frame_shape_def)
  let ?fn = "m_functions m ! i"
  let ?pre = "\<lambda>first. sx_then (drop_dying_slots first) (sx_then (assert_stack_matches_map V) (collect_at_instruction_boundary V))"
  have dying: "acts (modify_top (\<lambda>f. f\<lparr>f_locals := replicate (length (f_locals f)) VNil, f_closure := None\<rparr>)) 0 0 0"
    by (rule acts_modify_top) simp
  have pre: "acts (?pre first) 0 0 0" for first
    unfolding drop_dying_slots_def by (rule acting acts_boundary dying | simp)+
  have "sx_bind (?pre (current_instruction ?fn vm)) (\<lambda>_. sx_bind (sx_gets (current_instruction ?fn)) (exec_instruction m V ?fn)) vm
      = (Inr None, vm')"
    using r by (simp add: vm_step_def top sx_bind_def sx_gets_def sx_then_def split: prod.splits sum.splits)
  then obtain u vm1 where b: "?pre (current_instruction ?fn vm) vm = (Inr u, vm1)"
    and e: "exec_instruction m V ?fn (current_instruction ?fn vm1) vm1 = (Inr None, vm')"
    by (auto simp: sx_bind_def sx_gets_def split: prod.splits sum.splits)
  from actsD [OF pre b vm] have vm1: "shapes vm1 = S @ [(i, pc, h, l)]" by auto
  from top_shape [OF vm1] have "current_instruction ?fn vm1 = fn_code ?fn ! pc"
    by (auto simp: current_instruction_def frame_shape_def)
  from exec_keeps_fit [OF ok vm1 _ this e] fit vm vm1 show ?thesis by simp
qed

lemma reaches_keeps_fit:
  assumes "vm_reaches m V vm vm'" "maps_checked m V" "shapes_fit m V (shapes vm)"
  shows "shapes_fit m V (shapes vm')"
  using assms by induction (auto intro: step_keeps_fit)

end
