(* ===== verification/BC_Sound.thy ===== *)
theory BC_Sound
  imports VM_Shape
begin

text \<open>
  What the verifier promises the machine: the maps it generates pass the check of \<open>VM_Shape\<close>, so a verified program
  keeps the shape of its operand stacks; and where its promise about the types of values does not hold.
\<close>

subsection \<open>The maps of the verifier pass the check\<close>

definition calls_no_closure :: "bytecode_module \<Rightarrow> bool" where
  "calls_no_closure m \<longleftrightarrow> list_all (\<lambda>fn. list_all (\<lambda>ins. i_op ins \<noteq> Op_CallClosure) (fn_code fn)) (m_functions m)"

definition handlers_countable :: "bytecode_module \<Rightarrow> bool" where
  "handlers_countable m \<longleftrightarrow> list_all (\<lambda>fn. length (fn_exception_handlers fn) < 2 ^ 63) (m_functions m)"

lemma verified_site_is_checked:
  assumes pc: "pc < length (fn_code (m_functions m ! k))" and well: "well_shaped m V k"
    and op: "i_op (fn_code (m_functions m ! k) ! pc) \<noteq> Op_CallClosure"
  shows "site_checked m V k pc"
proof -
  let ?fn = "m_functions m ! k" and ?ins = "fn_code (m_functions m ! k) ! pc" and ?n = "unat (fn_local_count (m_functions m ! k))"
  let ?c = "\<lparr>vs_module = m, vs_function = k, vs_pc = pc\<rparr>"
  have site: "site_function ?c = ?fn" by (simp add: site_function_def)
  from well_shapedD [OF well pc] obtain st succs where n: "snd (site_shape V k pc) = ?n"
    and st: "has_shape (fst (site_shape V k pc)) ?n st" and r: "transfer_instruction m k pc st = vreturn succs"
    and succs: "\<forall>(t, s)\<in>set succs. t < length (fn_code ?fn) \<and> (length (as_stack s), ?n) = site_shape V k t" by blast
  have to: "t < length (fn_code ?fn) \<and> site_shape V k t = (length (as_stack s), ?n)" if "(t, s) \<in> set succs" for t s
    using succs that by auto
  obtain st' where tr: "transfer ?c ?ins st = vreturn (succs, st')" using r by (auto simp: transfer_instruction_return)
  have height: "length (as_stack st) = fst (site_shape V k pc)" using st by (simp add: has_shape_def state_shape_def)
  have leads: "leads_to m V k pc t (p, q)" if "(t, s) \<in> set succs" "flows p q st s" for t s p q
    using to [OF that(1)] that(2) height by (simp add: leads_to_def flows_def)
  have callee: "unat (i_operand ?ins) < length (m_functions m)" if "i_op ?ins = Op_Call"
    using transfer_call_target [of ?c ?ins st succs st'] tr that by (simp add: transfer_def in_table_def)
  consider (line) "i_op ?ins \<notin> leaves_the_line" | "i_op ?ins = Op_Jump" | "i_op ?ins = Op_JumpIfFalse"
    | (ends) "i_op ?ins \<in> {Op_Return, Op_Throw, Op_TailCall}" using op by (auto simp: leaves_the_line_def)
  then show ?thesis
  proof cases
    case line
    from tfallsD [OF transfer_effect [OF line] tr] obtain s where "succs = [(pc + 1, s)]"
      "flows (fst (stack_effect m ?ins)) (snd (stack_effect m ?ins)) st s" by auto
    with leads [of "pc + 1" s "fst (stack_effect m ?ins)" "snd (stack_effect m ?ins)"]
    have "leads_to m V k pc (pc + 1) (stack_effect m ?ins)" by simp
    with line n callee show ?thesis by (auto simp: site_checked_def leaves_the_line_def Let_def)
  next
    case 2
    with transfer_jump_effect [of ?c ?ins st succs st'] tr leads n show ?thesis
      by (auto simp: transfer_def site_checked_def Let_def)
  next
    case 3
    with tr have "transfer_jump_if_false ?c ?ins st = vreturn (succs, st')" by (simp add: transfer_def)
    from transfer_jump_if_false_effect [OF this] obtain s1 s2 where
      "succs = [(unat (i_operand ?ins), s1), (pc + 1, s2)]" "flows 1 0 st s1" "flows 1 0 st s2" by auto
    then have "leads_to m V k pc (unat (i_operand ?ins)) (1, 0)" "leads_to m V k pc (pc + 1) (1, 0)"
      using leads [of _ s1 1 0] leads [of _ s2 1 0] by simp_all
    with 3 n show ?thesis by (simp add: site_checked_def Let_def)
  next
    case ends
    with n show ?thesis by (auto simp: site_checked_def Let_def)
  qed
qed

lemma verified_module_is_checked:
  assumes r: "verify_with_diagnostics m = vreturn V" and "calls_no_closure m" "handlers_countable m"
  shows "maps_checked m V"
proof -
  have len: "length V = length (m_functions m)"
    and maps: "\<And>k. k < length (m_functions m) \<Longrightarrow> verify_function_with_stack_maps m k = vreturn (V ! k)"
    using r by (auto simp: verify_with_diagnostics_def vthen_return_iff dest!: vmap_return)
  have "function_checked m V k" if k: "k < length (m_functions m)" for k
  proof -
    have well: "well_shaped m V k"
      by (rule verified_function_is_well_shaped [OF maps [OF k]]) (use assms(3) k in \<open>simp add: handlers_countable_def list_all_length\<close>)
    have "site_checked m V k pc" if "pc < length (fn_code (m_functions m ! k))" for pc
      by (rule verified_site_is_checked [OF that well]) (use assms(2) k that in \<open>simp add: calls_no_closure_def list_all_length\<close>)
    then show ?thesis using well by (auto simp: well_shaped_def function_checked_def list_all_iff Let_def)
  qed
  then show ?thesis using len by (simp add: maps_checked_def list_all_iff)
qed

text \<open>The module the machine runs differs in its stack maps only.\<close>

lemma checked_same_code:
  assumes len: "length (m_functions m') = length (m_functions m)"
    and same: "\<And>k. k < length (m_functions m) \<Longrightarrow> m_functions m' ! k = (m_functions m ! k)\<lparr>fn_stack_maps := W k\<rparr>"
    and layouts: "m_record_layouts m' = m_record_layouts m" "m_variant_layouts m' = m_variant_layouts m"
      "m_closure_layouts m' = m_closure_layouts m"
    and checked: "maps_checked m V"
  shows "maps_checked m' V"
proof -
  have effect: "stack_effect m' ins = stack_effect m ins"
    if "i_op ins = Op_Call \<longrightarrow> unat (i_operand ins) < length (m_functions m)" for ins
    using that same layouts by (cases "i_op ins") (simp_all add: stack_effect_def)
  have leads: "leads_to m' V k pc t e = leads_to m V k pc t e" if "k < length (m_functions m)" for k pc t e
    by (simp add: leads_to_def same [OF that])
  have site: "site_checked m' V k pc" if k: "k < length (m_functions m)" and s: "site_checked m V k pc" for k pc
    using s effect [of "fn_code (m_functions m ! k) ! pc"] unfolding site_checked_def Let_def leads [OF k]
    by (auto simp: same [OF k] len)
  have "function_checked m' V k" if k: "k < length (m_functions m)" for k
    using maps_checkedD [OF checked k] site [OF k] by (simp add: function_checked_def same [OF k] Let_def list_all_iff)
  then show ?thesis using checked by (simp add: maps_checked_def list_all_iff len)
qed

lemma verify_module_checked:
  assumes r: "verify_module m = Some (Inr (m', V))" and c: "calls_no_closure m" "handlers_countable m"
  shows "maps_checked m' V \<and> length (m_functions m') = length (m_functions m) \<and>
    (\<forall>k<length (m_functions m). m_functions m' ! k = (m_functions m ! k)\<lparr>fn_stack_maps := V ! k\<rparr>)"
proof -
  have "verify_module m = vreturn (m', V)" using r by (simp add: vreturn_def)
  then have v: "verify_with_diagnostics m = vreturn V"
    and m': "m' = m\<lparr>m_functions := map2 (\<lambda>f maps. f\<lparr>fn_stack_maps := maps\<rparr>) (m_functions m) V\<rparr>"
    by (auto simp: verify_module_def vbind_return_iff)
  note checked = verified_module_is_checked [OF v c]
  then have len: "length V = length (m_functions m)" by (simp add: maps_checked_def)
  have same: "m_functions m' ! k = (m_functions m ! k)\<lparr>fn_stack_maps := V ! k\<rparr>" if "k < length (m_functions m)" for k
    using that len by (simp add: m')
  have "maps_checked m' V"
    by (rule checked_same_code [OF _ same _ _ _ checked]) (simp_all add: m' len)
  with same show ?thesis by (simp add: m' len)
qed

lemma start_fits:
  assumes r: "execution_start m vm = (Inr (), vm1)" and ok: "maps_checked m V"
  shows "shapes_fit m V (shapes vm1)"
proof -
  obtain vm0 where p: "prepare_execution (vm\<lparr>v_output := [], v_last_trap_trace := None\<rparr>) = (Inr (), vm0)"
    and push: "push_frame m (m_entry_function m) [] None vm0 = (Inr (), vm1)"
    using r by (auto simp: execution_start_def sx_then_def sx_bind_def split: prod.splits sum.splits)
  from prepared [OF p] push_frame_shapes [OF push] entry_fits [OF ok, of "m_entry_function m"] show ?thesis
    by (simp add: shapes_fit_def)
qed

lemma fits_nth:
  assumes "shapes_fit m V ss" "i < length ss"
  shows "frame_fits m V (if Suc i = length ss then 0 else 1) (ss ! i)"
proof (cases ss rule: rev_cases)
  case (snoc S x)
  with assms show ?thesis by (auto simp: nth_append list_all_length)
qed (use assms in simp)

text \<open>
  C2. The operand stacks of a verified program: when the verifier accepts a module that calls no closure, then in every
  state the machine reaches with the maps the verifier generated, each frame's counter is inside its
  function, it has as many locals as its stack map, and as many operands as the map at its counter says,
  the running frame exactly and a caller one less, the result it waits for.  No operand stack underflows,
  on any path, through calls, tail calls, returns and exceptions.
\<close>

theorem verified_programs_keep_their_stack_shape:
  assumes verified: "verify_module m = Some (Inr (m', V))" and calls: "calls_no_closure m" "handlers_countable m"
    and start: "execution_start m' vm = (Inr (), vm1)" and reach: "vm_reaches m' V vm1 vm2" and i: "i < length (v_frames vm2)"
  shows "let f = v_frames vm2 ! i; code = fn_code (m_functions m ! f_function_index f); sm = V ! f_function_index f ! f_pc f in
    f_function_index f < length (m_functions m) \<and> f_pc f < length code \<and> length (V ! f_function_index f) = length code \<and>
    length (f_locals f) = length (sm_local_object_slots sm) \<and>
    length (f_stack f) + (if Suc i = length (v_frames vm2) then 0 else 1) = length (sm_object_slots sm)"
proof -
  from verify_module_checked [OF verified calls] have checked: "maps_checked m' V" and len: "length (m_functions m') = length (m_functions m)"
    and same: "\<And>k. k < length (m_functions m) \<Longrightarrow> fn_code (m_functions m' ! k) = fn_code (m_functions m ! k)" by auto
  have "shapes_fit m' V (shapes vm2)" by (rule reaches_keeps_fit [OF reach checked start_fits [OF start checked]])
  from fits_nth [OF this, of i] i
  have fits: "frame_fits m' V (if Suc i = length (v_frames vm2) then 0 else 1) (frame_shape (v_frames vm2 ! i))" by simp
  then have "f_function_index (v_frames vm2 ! i) < length (m_functions m)" by (simp add: frame_fits_def frame_shape_def len)
  with fits same maps_checkedD(1) [OF checked, of "f_function_index (v_frames vm2 ! i)"] show ?thesis
    by (simp add: frame_fits_def frame_shape_def site_shape_def map_shape_def function_checked_def Let_def len)
qed

lemma demo_calls_verified:
  "verify_module demo_calls = Some (Inr (demo_calls\<lparr>m_functions := map2 (\<lambda>f maps. f\<lparr>fn_stack_maps := maps\<rparr>)
     (m_functions demo_calls) demo_calls_maps\<rparr>, demo_calls_maps))"
  by code_simp

definition demo_calls_mapped :: bytecode_module where
  "demo_calls_mapped = demo_calls\<lparr>m_functions := map2 (\<lambda>f maps. f\<lparr>fn_stack_maps := maps\<rparr>)
     (m_functions demo_calls) demo_calls_maps\<rparr>"

lemma demo_calls_mapped_run:
  "execution_start demo_calls_mapped initial_vm = (Inr (), running [demo_frame 0 0 []] 0)"
  by (simp add: execution_start_def prepare_execution_def reset_execution_def demo_calls_mapped_def demo_calls_def
    demo_calls_maps_def demo_defs step_defs)

lemma demo_calls_mapped_run1:
  "vm_step demo_calls_mapped demo_calls_maps (running [demo_frame 0 0 []] 0) =
    (Inr None, running [demo_frame 0 1 [], demo_frame 1 0 []] 1)"
  by (simp add: demo_calls_mapped_def demo_calls_def demo_calls_maps_def exec_call_def demo_defs step_defs)

lemma verified_programs_keep_their_stack_shape_witness:
  "length (f_stack (demo_frame 0 1 [])) + 1 = length (sm_object_slots (demo_calls_maps ! 0 ! 1))"
proof -
  let ?vm = "running [demo_frame 0 1 [], demo_frame 1 0 []] 1"
  have verified: "verify_module demo_calls = Some (Inr (demo_calls_mapped, demo_calls_maps))"
    using demo_calls_verified by (simp add: demo_calls_mapped_def)
  have calls: "calls_no_closure demo_calls" "handlers_countable demo_calls"
    by (simp_all add: calls_no_closure_def handlers_countable_def demo_calls_def demo_defs)
  have "v_frames (running [demo_frame 0 0 []] 0) \<noteq> []" by (simp add: demo_defs)
  from vm_reaches.step [OF vm_reaches.start this demo_calls_mapped_run1]
  have reach: "vm_reaches demo_calls_mapped demo_calls_maps (running [demo_frame 0 0 []] 0) ?vm" .
  have "0 < length (v_frames ?vm)" by (simp add: demo_defs)
  from verified_programs_keep_their_stack_shape [OF verified calls demo_calls_mapped_run reach this]
  show ?thesis by (simp add: demo_defs Let_def)
qed


subsection \<open>Named types\<close>

text \<open>
  The promise does not extend to the types of references.  Joining two values of different named types
  forgets the name, the join carries no other evidence, and a value without evidence conforms to every named
  type.  The function below takes an \<open>A\<close> and a \<open>B\<close> and returns one of them as a \<open>C\<close>; the caller reads a string out of
  a pair of integers.  The verifier accepts the module.
\<close>

definition pair_of :: "value_kind \<Rightarrow> value_kind \<Rightarrow> signature_value" where
  "pair_of l r = Signature VK_Object (Some (signature_of_kind l)) (Some (signature_of_kind r)) None None None None [] None None None None"

definition named :: "nat \<Rightarrow> signature_value" where
  "named n = Signature VK_Object None None None None None None [] None (Some n) None None"

definition demo_op :: "opcode \<Rightarrow> i64 \<Rightarrow> instruction" where
  "demo_op op n = \<lparr>i_op = op, i_operand = n, i_operand2 = 0, i_operand3 = 0\<rparr>"

definition confused_function :: bytecode_function where
  "confused_function = \<lparr>fn_signature = \<lparr>fs_parameters = [VK_Object, VK_Object], fs_return_type = VK_Object,
       fs_parameter_types = [named 0, named 1], fs_return_type_detail = Some (named 2)\<rparr>,
     fn_code = [demo_op Op_ConstantI64 0, demo_op Op_ConstantI64 1, demo_op Op_LessI64 0, demo_op Op_JumpIfFalse 7,
       demo_op Op_LoadLocal 0, demo_op Op_StoreLocal 2, demo_op Op_Jump 10,
       demo_op Op_LoadLocal 1, demo_op Op_StoreLocal 2, demo_op Op_Jump 10, demo_op Op_LoadLocal 2, demo_op Op_Return 0],
     fn_stack_maps = [], fn_local_count = 3, fn_closure_layout = None, fn_exception_handlers = [],
     fn_debug_name = ''choose'', fn_source_positions = []\<rparr>"

definition confused_main :: bytecode_function where
  "confused_main = \<lparr>fn_signature = plain_signature,
     fn_code = [demo_op Op_ConstantI64 1, demo_op Op_ConstantI64 2, demo_op Op_AllocPair 0,
       demo_op Op_ConstantI64 3, demo_op Op_ConstantI64 4, demo_op Op_AllocPair 0, demo_op Op_Call 1,
       demo_op Op_StoreLocal 0, demo_op Op_LoadLocal 0, demo_op Op_IsNil 0, demo_op Op_JumpIfFalse 13,
       demo_op Op_ConstantI64 0, demo_op Op_Return 0,
       demo_op Op_LoadLocal 0, demo_op Op_GetLeft 0, demo_op Op_StrLen 0, demo_op Op_Return 0],
     fn_stack_maps = [], fn_local_count = 1, fn_closure_layout = None, fn_exception_handlers = [],
     fn_debug_name = ''main'', fn_source_positions = []\<rparr>"

definition confused_module :: bytecode_module where
  "confused_module = (demo_module [confused_main, confused_function])
     \<lparr>m_named_types := [\<lparr>nt_name = ''A'', nt_body = pair_of VK_Int64 VK_Int64\<rparr>,
        \<lparr>nt_name = ''B'', nt_body = pair_of VK_Int64 VK_Int64\<rparr>,
        \<lparr>nt_name = ''C'', nt_body = pair_of VK_Str VK_Str\<rparr>]\<rparr>"

lemma joined_names_conform_to_any:
  "value_conforms_to_signature confused_module (initial_state confused_function)
     (join_values (value_from_signature (named 0)) (value_from_signature (named 1))) (named 2) = vreturn True"
  by code_simp

lemma confused_types_are_accepted: "\<exists>m' V. verify_module confused_module = Some (Inr (m', V))"
proof -
  have "(case verify_module confused_module of Some (Inr _) \<Rightarrow> True | _ \<Rightarrow> False)" by code_simp
  then show ?thesis by (auto split: option.splits sum.splits)
qed

end
