(* ===== verification/FE_Lexer.thy ===== *)
theory FE_Lexer
  imports GC_Prelude
begin

text \<open>
  The lexer (\<open>src/frontend/lexer.cpp\<close>, \<open>lexer.hpp\<close>) and the list of diagnostics it shares with the parser
  (\<open>src/frontend/diagnostics.cpp\<close>).  A \<open>char\<close> of the source is a \<open>char\<close>; the character classes are those of the
  \<open>C\<close> locale.  The lexer keeps what is left of its source beside its offset in it.
\<close>

subsection \<open>Positions and diagnostics\<close>

record source_position =
  sp_offset :: nat
  sp_line :: nat
  sp_column :: nat

record diagnostic =
  dg_position :: source_position
  dg_message :: string

definition add_diagnostic :: "source_position \<Rightarrow> string \<Rightarrow> diagnostic list \<Rightarrow> diagnostic list" where
  "add_diagnostic position message diagnostics =
     (if list_ex (\<lambda>d. sp_offset (dg_position d) = sp_offset position \<and> dg_message d = message) diagnostics then diagnostics
      else diagnostics @ [\<lparr>dg_position = position, dg_message = message\<rparr>])"

subsection \<open>Tokens\<close>

datatype (plugins only: code) token_kind =
    TK_End | TK_Identifier | TK_Integer | TK_String | TK_Let | TK_Type | TK_Record | TK_Variant | TK_Match
  | TK_Try | TK_Catch | TK_Throw | TK_Fn | TK_If | TK_Else | TK_While | TK_For | TK_In | TK_Break
  | TK_Continue | TK_True | TK_False | TK_Nil | TK_IsNil | TK_Array | TK_Map | TK_Weak | TK_Ephemeron
  | TK_Builder | TK_Print | TK_ToStr | TK_ToI64 | TK_Intern | TK_Abs | TK_Min | TK_Max | TK_I64 | TK_Bool
  | TK_Str | TK_Pair | TK_Left | TK_Right | TK_Plus | TK_Less | TK_Greater | TK_LessEqual | TK_GreaterEqual
  | TK_Equal | TK_EqualEqual | TK_BangEqual | TK_Arrow | TK_FatArrow | TK_Colon | TK_Semicolon | TK_Comma
  | TK_Dot | TK_DotDot | TK_LParen | TK_RParen | TK_LBrace | TK_RBrace | TK_LBracket | TK_RBracket
  | TK_Return

record token =
  tk_kind :: token_kind
  tk_position :: source_position
  tk_text :: string
  tk_integer :: i64

record lexer =
  lx_rest :: string
  lx_offset :: nat
  lx_line :: nat
  lx_column :: nat
  lx_diagnostics :: "diagnostic list"

definition lexer_of :: "string \<Rightarrow> lexer" where
  "lexer_of source = \<lparr>lx_rest = source, lx_offset = 0, lx_line = 1, lx_column = 1, lx_diagnostics = []\<rparr>"

subsection \<open>Characters\<close>

definition char_code :: "char \<Rightarrow> nat" where "char_code c = of_char c"

definition is_digit :: "char \<Rightarrow> bool" where "is_digit c \<longleftrightarrow> 48 \<le> char_code c \<and> char_code c \<le> 57"

definition is_alpha :: "char \<Rightarrow> bool" where
  "is_alpha c \<longleftrightarrow> 65 \<le> char_code c \<and> char_code c \<le> 90 \<or> 97 \<le> char_code c \<and> char_code c \<le> 122"

definition is_space :: "char \<Rightarrow> bool" where "is_space c \<longleftrightarrow> char_code c = 32 \<or> 9 \<le> char_code c \<and> char_code c \<le> 13"

definition is_identifier_start :: "char \<Rightarrow> bool" where "is_identifier_start c \<longleftrightarrow> is_alpha c \<or> c = CHR ''_''"

definition is_identifier_continue :: "char \<Rightarrow> bool" where
  "is_identifier_continue c \<longleftrightarrow> is_alpha c \<or> is_digit c \<or> c = CHR ''_''"

definition newline :: char where "newline = CHR 0x0A"

subsection \<open>Moving on\<close>

definition lexer_position :: "lexer \<Rightarrow> source_position" where
  "lexer_position s = \<lparr>sp_offset = lx_offset s, sp_line = lx_line s, sp_column = lx_column s\<rparr>"

definition advance :: "lexer \<Rightarrow> lexer" where
  "advance s = (if lx_rest s = [] then s
     else if hd (lx_rest s) = newline
       then s\<lparr>lx_rest := tl (lx_rest s), lx_offset := lx_offset s + 1, lx_line := lx_line s + 1, lx_column := 1\<rparr>
     else s\<lparr>lx_rest := tl (lx_rest s), lx_offset := lx_offset s + 1, lx_column := lx_column s + 1\<rparr>)"

text \<open>The \<open>while\<close> loops that advance over characters of a class.\<close>

function advance_while :: "(char \<Rightarrow> bool) \<Rightarrow> lexer \<Rightarrow> lexer" where
  "advance_while P s = (if lx_rest s \<noteq> [] \<and> P (hd (lx_rest s)) then advance_while P (advance s) else s)"
  by auto

termination by (relation "measure (\<lambda>(P, s). length (lx_rest s))") (auto simp: advance_def)

declare advance_while.simps [simp del]

definition comment_ahead :: "lexer \<Rightarrow> bool" where
  "comment_ahead s \<longleftrightarrow> length (lx_rest s) \<ge> 2 \<and> lx_rest s ! 0 = CHR ''/'' \<and> lx_rest s ! 1 = CHR ''/''"

lemma advance_rest [simp]: "lx_rest (advance s) = tl (lx_rest s)"
  by (simp add: advance_def)

lemma advance_while_shrinks: "length (lx_rest (advance_while P s)) \<le> length (lx_rest s)"
  by (induction P s rule: advance_while.induct) (subst advance_while.simps, auto dest: order_trans)

lemma advance_while_progress:
  "lx_rest s \<noteq> [] \<Longrightarrow> P (hd (lx_rest s)) \<Longrightarrow> length (lx_rest (advance_while P s)) < length (lx_rest s)"
  using advance_while_shrinks [of P "advance s"] by (subst advance_while.simps) (cases "lx_rest s", auto)

definition skip_once :: "lexer \<Rightarrow> lexer" where
  "skip_once s = (let s1 = advance_while is_space s in
     if comment_ahead s1 then advance_while (\<lambda>c. c \<noteq> newline) s1 else s1)"

lemma skip_once_shrinks: "length (lx_rest (skip_once s)) \<le> length (lx_rest s)"
  using advance_while_shrinks [of is_space s] advance_while_shrinks [of "\<lambda>c. c \<noteq> newline" "advance_while is_space s"]
  by (auto simp: skip_once_def Let_def)

text \<open>A turn of the outer loop makes progress exactly when it advances.\<close>

function skip_ignored :: "lexer \<Rightarrow> lexer" where
  "skip_ignored s = (if lx_rest s = [] then s
     else let s' = skip_once s in if length (lx_rest s') < length (lx_rest s) then skip_ignored s' else s')"
  by auto

termination by (relation "measure (\<lambda>s. length (lx_rest s))") auto

declare skip_ignored.simps [simp del]

lemma skip_ignored_shrinks: "length (lx_rest (skip_ignored s)) \<le> length (lx_rest s)"
  by (induction s rule: skip_ignored.induct)
    (subst skip_ignored.simps, auto simp: Let_def skip_once_shrinks dest: order_trans)

subsection \<open>Tokens of several characters\<close>

definition simple_token :: "token_kind \<Rightarrow> source_position \<Rightarrow> string \<Rightarrow> token" where
  "simple_token kind position text = \<lparr>tk_kind = kind, tk_position = position, tk_text = text, tk_integer = 0\<rparr>"

text \<open>What has been read since the state \<open>s\<close>.\<close>

definition text_since :: "lexer \<Rightarrow> lexer \<Rightarrow> string" where
  "text_since s s' = take (lx_offset s' - lx_offset s) (lx_rest s)"

definition keyword_kinds :: "(string \<times> token_kind) list" where
  "keyword_kinds = [
    (''let'', TK_Let), (''type'', TK_Type), (''record'', TK_Record), (''variant'', TK_Variant),
     (''match'', TK_Match), (''try'', TK_Try), (''catch'', TK_Catch), (''throw'', TK_Throw),
     (''return'', TK_Return), (''fn'', TK_Fn), (''if'', TK_If), (''else'', TK_Else), (''while'', TK_While),
     (''for'', TK_For), (''in'', TK_In), (''break'', TK_Break), (''continue'', TK_Continue),
     (''true'', TK_True), (''false'', TK_False), (''nil'', TK_Nil), (''is_nil'', TK_IsNil),
     (''array'', TK_Array), (''map'', TK_Map), (''weak'', TK_Weak), (''ephemeron'', TK_Ephemeron),
     (''builder'', TK_Builder), (''print'', TK_Print), (''to_str'', TK_ToStr), (''to_i64'', TK_ToI64),
     (''intern'', TK_Intern), (''abs'', TK_Abs), (''min'', TK_Min), (''max'', TK_Max), (''i64'', TK_I64),
     (''bool'', TK_Bool), (''str'', TK_Str), (''pair'', TK_Pair), (''left'', TK_Left), (''right'', TK_Right)]"

definition identifier_token :: "lexer \<Rightarrow> token \<times> lexer" where
  "identifier_token s = (let s' = advance_while is_identifier_continue s; text = text_since s s' in
     (simple_token (case map_of keyword_kinds text of Some kind \<Rightarrow> kind | None \<Rightarrow> TK_Identifier) (lexer_position s) text, s'))"

text \<open>
  The loop over a string literal: whether the closing quote was found, the decoded text, and the state.  A
  backslash at the end of the source ends the loop.
\<close>

definition escape_of :: "char \<Rightarrow> char option" where
  "escape_of c = (if c = CHR ''n'' then Some newline else if c = CHR ''t'' then Some (CHR 0x09)
     else if c = CHR 0x5C then Some (CHR 0x5C) else if c = CHR 0x22 then Some (CHR 0x22) else None)"

definition unsupported_escape :: "char \<Rightarrow> string" where
  "unsupported_escape c = ''unsupported string escape '' @ [CHR 0x27, CHR 0x5C, c, CHR 0x27]"

function string_body :: "lexer \<Rightarrow> string \<Rightarrow> bool \<times> string \<times> lexer" where
  "string_body s decoded = (if lx_rest s = [] then (False, decoded, s)
     else let c = hd (lx_rest s); s1 = advance s in
       if c = CHR 0x22 then (True, decoded, s1)
       else if c \<noteq> CHR 0x5C then string_body s1 (decoded @ [c])
       else if lx_rest s1 = [] then (False, decoded, s1)
       else let escaped = hd (lx_rest s1); s2 = advance s1 in
         case escape_of escaped of
           Some d \<Rightarrow> string_body s2 (decoded @ [d])
         | None \<Rightarrow> string_body (s2\<lparr>lx_diagnostics :=
             add_diagnostic (lexer_position s) (unsupported_escape escaped) (lx_diagnostics s2)\<rparr>) decoded)"
  by pat_completeness auto

termination
proof (relation "measure (\<lambda>(s, decoded). length (lx_rest s))", goal_cases)
  case (3 s decoded)
  then show ?case by (cases "lx_rest s") auto
next
  case (4 s decoded)
  then show ?case by (cases "lx_rest s") auto
qed (auto simp: neq_Nil_conv)

declare string_body.simps [simp del]

definition string_literal :: "lexer \<Rightarrow> token \<times> lexer" where
  "string_literal s = (case string_body (advance s) [] of (terminated, decoded, s') \<Rightarrow>
     (simple_token TK_String (lexer_position s) decoded,
      if terminated then s'
      else s'\<lparr>lx_diagnostics := add_diagnostic (lexer_position s) ''unterminated string literal'' (lx_diagnostics s')\<rparr>))"

text \<open>\<open>std::from_chars\<close> of a text that is digits after an optional minus: nothing when the integer does not fit.\<close>

fun digits_number :: "nat \<Rightarrow> string \<Rightarrow> nat" where
  "digits_number n [] = n"
| "digits_number n (c # cs) = digits_number (n * 10 + (char_code c - 48)) cs"

definition integer_number :: "string \<Rightarrow> int" where
  "integer_number text = (if text \<noteq> [] \<and> hd text = CHR ''-'' then - int (digits_number 0 (tl text))
     else int (digits_number 0 text))"

definition from_chars_i64 :: "string \<Rightarrow> i64 option" where
  "from_chars_i64 text = (let n = integer_number text in
     if - (2 ^ 63) \<le> n \<and> n < 2 ^ 63 then Some (word_of_int n) else None)"

definition integer_token :: "lexer \<Rightarrow> token \<times> lexer" where
  "integer_token s = (let s1 = (if hd (lx_rest s) = CHR ''-'' then advance s else s);
       s' = advance_while is_digit s1; text = text_since s s' in
     case from_chars_i64 text of
       Some n \<Rightarrow> (\<lparr>tk_kind = TK_Integer, tk_position = lexer_position s, tk_text = text, tk_integer = n\<rparr>, s')
     | None \<Rightarrow> (simple_token TK_Integer (lexer_position s) text,
         s'\<lparr>lx_diagnostics := add_diagnostic (lexer_position s) ''integer literal is outside i64 range'' (lx_diagnostics s')\<rparr>))"

subsection \<open>The lexer\<close>

definition two_char_kinds :: "(string \<times> token_kind) list" where
  "two_char_kinds = [(''->'', TK_Arrow), (''=>'', TK_FatArrow), (''=='', TK_EqualEqual), (''!='', TK_BangEqual),
     (''<='', TK_LessEqual), (''>='', TK_GreaterEqual), (''..'', TK_DotDot)]"

definition one_char_kinds :: "(string \<times> token_kind) list" where
  "one_char_kinds = [(''+'', TK_Plus), (''<'', TK_Less), (''>'', TK_Greater), (''='', TK_Equal), ('':'', TK_Colon),
     ('';'', TK_Semicolon), ('','', TK_Comma), (''.'', TK_Dot), (''('', TK_LParen), ('')'', TK_RParen), (''{'', TK_LBrace),
     (''}'', TK_RBrace), (''['', TK_LBracket), ('']'', TK_RBracket)]"

definition starts_integer :: "string \<Rightarrow> bool" where
  "starts_integer rest \<longleftrightarrow> is_digit (rest ! 0) \<or> rest ! 0 = CHR ''-'' \<and> length rest \<ge> 2 \<and> is_digit (rest ! 1)"

text \<open>The body of the loop, at a character that is not ignored: a token, unless the character is unexpected.\<close>

definition next_token :: "lexer \<Rightarrow> token option \<times> lexer" where
  "next_token s = (let rest = lx_rest s; c = hd rest in
     if is_identifier_start c then (case identifier_token s of (t, s') \<Rightarrow> (Some t, s'))
     else if c = CHR 0x22 then (case string_literal s of (t, s') \<Rightarrow> (Some t, s'))
     else case (if length rest \<ge> 2 then map_of two_char_kinds (take 2 rest) else None) of
       Some kind \<Rightarrow> (Some (simple_token kind (lexer_position s) (take 2 rest)), advance (advance s))
     | None \<Rightarrow>
       if starts_integer rest then (case integer_token s of (t, s') \<Rightarrow> (Some t, s'))
       else let s' = advance s in case map_of one_char_kinds [c] of
         Some kind \<Rightarrow> (Some (simple_token kind (lexer_position s) [c]), s')
       | None \<Rightarrow> (None, s'\<lparr>lx_diagnostics := add_diagnostic (lexer_position s)
           (''unexpected character '' @ [CHR 0x27, c, CHR 0x27]) (lx_diagnostics s')\<rparr>))"

lemma string_body_shrinks: "string_body s decoded = (b, text, s') \<Longrightarrow> length (lx_rest s') \<le> length (lx_rest s)"
proof (induction s decoded rule: string_body.induct)
  case (1 s decoded)
  show ?case
  proof (cases "lx_rest s")
    case Nil
    with 1 show ?thesis by (simp add: string_body.simps [of s])
  next
    case (Cons c cs)
    from 1(4) show ?thesis
      using 1(1) [OF _ refl refl] 1(2) [OF _ refl refl _ _ _ refl refl] 1(3) [OF _ refl refl _ _ _ refl refl]
      by (subst (asm) string_body.simps) (fastforce simp: Cons Let_def split: if_splits option.splits)
  qed
qed

lemma next_token_progress:
  assumes "lx_rest s \<noteq> []" "next_token s = (t, s')"
  shows "length (lx_rest s') < length (lx_rest s)"
proof -
  obtain c cs where s: "lx_rest s = c # cs" using assms(1) by (cases "lx_rest s") auto
  have ident: "length (lx_rest (snd (identifier_token s))) < length (lx_rest s)" if "is_identifier_start c"
    using that advance_while_progress [of s is_identifier_continue] s
    by (auto simp: identifier_token_def Let_def is_identifier_start_def is_identifier_continue_def)
  have str: "length (lx_rest (snd (string_literal s))) < length (lx_rest s)"
    using string_body_shrinks [of "advance s" "[]"] s
    by (auto simp: string_literal_def less_Suc_eq_le split: prod.split)
  have int: "length (lx_rest (snd (integer_token s))) < length (lx_rest s)" if "starts_integer (lx_rest s)"
  proof (cases "c = CHR ''-''")
    case True
    then show ?thesis using advance_while_shrinks [of is_digit "advance s"] s
      by (auto simp: integer_token_def Let_def less_Suc_eq_le split: option.split)
  next
    case False
    then show ?thesis using that advance_while_progress [of s is_digit] s
      by (auto simp: integer_token_def Let_def starts_integer_def split: option.split)
  qed
  show ?thesis using assms(2) ident str int s
    by (auto simp: next_token_def Let_def split: if_splits option.splits prod.splits)
qed

function lex_tokens :: "lexer \<Rightarrow> token list \<times> lexer" where
  "lex_tokens s = (let s1 = skip_ignored s in
     if lx_rest s1 = [] then ([simple_token TK_End (lexer_position s1) []], s1)
     else case next_token s1 of (t, s2) \<Rightarrow> case lex_tokens s2 of (ts, s3) \<Rightarrow>
       (case t of None \<Rightarrow> ts | Some t \<Rightarrow> t # ts, s3))"
  by auto

termination
proof (relation "measure (\<lambda>s. length (lx_rest s))", goal_cases)
  case (2 s s1 t s2)
  then show ?case using next_token_progress [of s1 t s2] skip_ignored_shrinks [of s] by simp
qed simp

declare lex_tokens.simps [simp del]

record lex_result =
  lr_tokens :: "token list"
  lr_diagnostics :: "diagnostic list"

definition lex_source :: "string \<Rightarrow> lex_result" where
  "lex_source source = (case lex_tokens (lexer_of source) of (tokens, s) \<Rightarrow>
     \<lparr>lr_tokens = tokens, lr_diagnostics = lx_diagnostics s\<rparr>)"

end
