(* ===== verification/FE_Syntax.thy ===== *)
theory FE_Syntax
  imports FE_Lexer
begin

text \<open>
  The syntax trees of \<open>src/frontend/parser.hpp\<close> and the functions on types at the head of
  \<open>src/frontend/parser.cpp\<close>.  A pointer is an option; what only the type checker and the compiler fill in (inferred
  types, local and layout indices, captures) is left out.  The members of a class that do not contain trees are
  a record of their own (\<open>ts_facts\<close>, \<open>ex_facts\<close>, \<open>stm_facts\<close>).
\<close>

definition no_position :: source_position where
  "no_position = \<lparr>sp_offset = 0, sp_line = 1, sp_column = 1\<rparr>"

subsection \<open>Types\<close>

datatype type_kind = TY_Int64 | TY_Bool | TY_Str | TY_Pair | TY_Array | TY_Function | TY_Map | TY_Weak | TY_Ephemeron
  | TY_Builder | TY_TypeParameter | TY_Named | TY_Record | TY_Variant | TY_Nil | TY_Invalid

record type_facts =
  tn_name :: string
  tn_position :: source_position
  tn_named_type_index :: "nat option"
  tn_record_layout_index :: "nat option"
  tn_variant_layout_index :: "nat option"
  tn_type_parameter_index :: "nat option"

datatype type_spec = Type_spec (ts_kind: type_kind) (ts_facts: type_facts)
  (ts_left: "type_spec option") (ts_right: "type_spec option") (ts_element: "type_spec option")
  (ts_key: "type_spec option") (ts_value: "type_spec option") (ts_weak_target: "type_spec option")
  (ts_function_parameters: "type_spec list") (ts_function_return: "type_spec option")
  (ts_generic_arguments: "type_spec list")

definition no_facts :: type_facts where
  "no_facts = \<lparr>tn_name = [], tn_position = no_position, tn_named_type_index = None, tn_record_layout_index = None,
     tn_variant_layout_index = None, tn_type_parameter_index = None\<rparr>"

definition type_with_kind :: "type_kind \<Rightarrow> type_spec" where
  "type_with_kind kind = Type_spec kind no_facts None None None None None None [] None []"

definition int64_type :: type_spec where "int64_type = type_with_kind TY_Int64"
definition bool_type :: type_spec where "bool_type = type_with_kind TY_Bool"
definition str_type :: type_spec where "str_type = type_with_kind TY_Str"
definition plain_pair_type :: type_spec where "plain_pair_type = type_with_kind TY_Pair"
definition builder_type :: type_spec where "builder_type = type_with_kind TY_Builder"
definition nil_type :: type_spec where "nil_type = type_with_kind TY_Nil"
definition invalid_type :: type_spec where "invalid_type = type_with_kind TY_Invalid"

definition with_type_facts :: "(type_facts \<Rightarrow> type_facts) \<Rightarrow> type_spec \<Rightarrow> type_spec" where
  "with_type_facts f t = Type_spec (ts_kind t) (f (ts_facts t)) (ts_left t) (ts_right t) (ts_element t) (ts_key t)
     (ts_value t) (ts_weak_target t) (ts_function_parameters t) (ts_function_return t) (ts_generic_arguments t)"

definition placed_at :: "source_position \<Rightarrow> type_spec \<Rightarrow> type_spec" where
  "placed_at position = with_type_facts (\<lambda>f. f\<lparr>tn_position := position\<rparr>)"

definition named_type :: "string \<Rightarrow> source_position \<Rightarrow> type_spec" where
  "named_type name position = with_type_facts (\<lambda>f. f\<lparr>tn_name := name, tn_position := position\<rparr>) (type_with_kind TY_Named)"

definition record_type :: "string \<Rightarrow> nat \<Rightarrow> source_position \<Rightarrow> type_spec" where
  "record_type name index position = with_type_facts
     (\<lambda>f. f\<lparr>tn_name := name, tn_position := position, tn_record_layout_index := Some index\<rparr>) (type_with_kind TY_Record)"

definition variant_type :: "string \<Rightarrow> nat \<Rightarrow> source_position \<Rightarrow> type_spec" where
  "variant_type name index position = with_type_facts
     (\<lambda>f. f\<lparr>tn_name := name, tn_position := position, tn_variant_layout_index := Some index\<rparr>) (type_with_kind TY_Variant)"

definition type_parameter_type :: "string \<Rightarrow> nat \<Rightarrow> source_position \<Rightarrow> type_spec" where
  "type_parameter_type name index position = with_type_facts
     (\<lambda>f. f\<lparr>tn_name := name, tn_position := position, tn_type_parameter_index := Some index\<rparr>) (type_with_kind TY_TypeParameter)"

definition pair_type :: "type_spec \<Rightarrow> type_spec \<Rightarrow> type_spec" where
  "pair_type left right = Type_spec TY_Pair no_facts (Some left) (Some right) None None None None [] None []"

definition array_type :: "type_spec \<Rightarrow> type_spec" where
  "array_type element = Type_spec TY_Array no_facts None None (Some element) None None None [] None []"

definition function_type_spec :: "type_spec list \<Rightarrow> type_spec \<Rightarrow> type_spec" where
  "function_type_spec parameters result = Type_spec TY_Function no_facts None None None None None None parameters (Some result) []"

definition map_type :: "type_spec \<Rightarrow> type_spec \<Rightarrow> type_spec" where
  "map_type key v = Type_spec TY_Map no_facts None None None (Some key) (Some v) None [] None []"

definition weak_type :: "type_spec \<Rightarrow> type_spec" where
  "weak_type target = Type_spec TY_Weak no_facts None None None None None (Some target) [] None []"

definition ephemeron_type :: "type_spec \<Rightarrow> type_spec \<Rightarrow> type_spec" where
  "ephemeron_type key v = Type_spec TY_Ephemeron no_facts None None None (Some key) (Some v) None [] None []"

definition with_generic_arguments :: "type_spec list \<Rightarrow> type_spec \<Rightarrow> type_spec" where
  "with_generic_arguments arguments t = Type_spec (ts_kind t) (ts_facts t) (ts_left t) (ts_right t) (ts_element t) (ts_key t)
     (ts_value t) (ts_weak_target t) (ts_function_parameters t) (ts_function_return t) arguments"

definition type_has_pair_fields :: "type_spec \<Rightarrow> bool" where
  "type_has_pair_fields t \<longleftrightarrow> ts_kind t = TY_Pair \<and> ts_left t \<noteq> None \<and> ts_right t \<noteq> None"

text \<open>
  \<open>operator==\<close>: two indices decide, when both are known, then the names.  Where a pointer is null the pointers
  themselves are compared; two that are not null are then equal only if they are the same, for which equal
  contents stand here.
\<close>

definition same_index :: "nat option \<Rightarrow> nat option \<Rightarrow> bool option" where
  "same_index i j = (if i \<noteq> None \<and> j \<noteq> None then Some (i = j) else None)"

fun same_type :: "type_spec \<Rightarrow> type_spec \<Rightarrow> bool"
and same_types :: "type_spec list \<Rightarrow> type_spec list \<Rightarrow> bool"
and same_target :: "type_spec option \<Rightarrow> type_spec option \<Rightarrow> bool" where
  "same_type (Type_spec k f l r e ky v w ps rt ga) (Type_spec k' f' l' r' e' ky' v' w' ps' rt' ga') = (
     if k \<noteq> k' then False
     else if k = TY_Named then (case same_index (tn_named_type_index f) (tn_named_type_index f') of Some b \<Rightarrow> b
       | None \<Rightarrow> tn_name f = tn_name f' \<and> same_types ga ga')
     else if k = TY_TypeParameter then
       tn_type_parameter_index f = tn_type_parameter_index f' \<and> tn_name f = tn_name f'
     else if k = TY_Record then (case same_index (tn_record_layout_index f) (tn_record_layout_index f') of Some b \<Rightarrow> b
       | None \<Rightarrow> tn_name f = tn_name f')
     else if k = TY_Variant then (case same_index (tn_variant_layout_index f) (tn_variant_layout_index f') of Some b \<Rightarrow> b
       | None \<Rightarrow> tn_name f = tn_name f')
     else if k = TY_Array then same_target e e'
     else if k = TY_Function then rt \<noteq> None \<and> rt' \<noteq> None \<and> same_target rt rt' \<and> same_types ps ps'
     else if k = TY_Map \<or> k = TY_Ephemeron then
       (if ky = None \<or> ky' = None \<or> v = None \<or> v' = None then ky = ky' \<and> v = v'
        else same_target ky ky' \<and> same_target v v')
     else if k = TY_Weak then same_target w w'
     else if k = TY_Pair \<and> l \<noteq> None \<and> r \<noteq> None then
       l' \<noteq> None \<and> r' \<noteq> None \<and> same_target l l' \<and> same_target r r'
     else \<not> (k = TY_Pair \<and> l' \<noteq> None \<and> r' \<noteq> None))"
| "same_types [] [] = True"
| "same_types (t # ts) (u # us) = (same_type t u \<and> same_types ts us)"
| "same_types _ _ = False"
| "same_target (Some t) (Some u) = same_type t u"
| "same_target None None = True"
| "same_target _ _ = False"

definition is_invalid :: "type_spec \<Rightarrow> bool" where "is_invalid t \<longleftrightarrow> ts_kind t = TY_Invalid"

definition is_pair :: "type_spec \<Rightarrow> bool" where "is_pair t \<longleftrightarrow> ts_kind t = TY_Pair \<or> ts_kind t = TY_Named"

datatype public_type_kind = Public_Int64 | Public_Bool | Public_Pair | Public_Array | Public_Str | Public_Function | Public_Map
  | Public_Weak | Public_Invalid | Public_Record | Public_Variant | Public_Ephemeron | Public_Builder

definition public_type :: "type_spec \<Rightarrow> public_type_kind" where
  "public_type t = (case ts_kind t of
       TY_Int64 \<Rightarrow> Public_Int64 | TY_Bool \<Rightarrow> Public_Bool | TY_Str \<Rightarrow> Public_Str | TY_Pair \<Rightarrow> Public_Pair
     | TY_Array \<Rightarrow> Public_Array | TY_Function \<Rightarrow> Public_Function | TY_Map \<Rightarrow> Public_Map | TY_Weak \<Rightarrow> Public_Weak
     | TY_Ephemeron \<Rightarrow> Public_Ephemeron | TY_Builder \<Rightarrow> Public_Builder | TY_TypeParameter \<Rightarrow> Public_Invalid
     | TY_Named \<Rightarrow> Public_Pair | TY_Record \<Rightarrow> Public_Record | TY_Variant \<Rightarrow> Public_Variant
     | TY_Nil \<Rightarrow> Public_Invalid | TY_Invalid \<Rightarrow> Public_Invalid)"

text \<open>The name of a type, as diagnostics show it; \<open>commas\<close> is the loop over a list of types.\<close>

fun commas :: "string list \<Rightarrow> string" where
  "commas [] = []"
| "commas [s] = s"
| "commas (s # ss) = s @ '', '' @ commas ss"

fun type_name :: "type_spec \<Rightarrow> string" where
  "type_name (Type_spec k f l r e ky v w ps rt ga) = (case k of
       TY_Int64 \<Rightarrow> ''i64'' | TY_Bool \<Rightarrow> ''bool'' | TY_Str \<Rightarrow> ''str''
     | TY_Pair \<Rightarrow> (case (map_option type_name l, map_option type_name r) of
           (Some s, Some s') \<Rightarrow> ''pair<'' @ s @ '', '' @ s' @ ''>'' | _ \<Rightarrow> ''pair'')
     | TY_Array \<Rightarrow> (case map_option type_name e of Some s \<Rightarrow> ''['' @ s @ '']'' | None \<Rightarrow> ''[invalid]'')
     | TY_Function \<Rightarrow> ''fn('' @ commas (map type_name ps) @ '') -> '' @
         (case map_option type_name rt of None \<Rightarrow> ''invalid'' | Some s \<Rightarrow> s)
     | TY_Map \<Rightarrow> (case (map_option type_name ky, map_option type_name v) of
           (Some s, Some s') \<Rightarrow> ''map<'' @ s @ '', '' @ s' @ ''>'' | _ \<Rightarrow> ''map<invalid, invalid>'')
     | TY_Weak \<Rightarrow> (case map_option type_name w of None \<Rightarrow> ''weak<invalid>'' | Some s \<Rightarrow> ''weak<'' @ s @ ''>'')
     | TY_Ephemeron \<Rightarrow> (case (map_option type_name ky, map_option type_name v) of
           (Some s, Some s') \<Rightarrow> ''ephemeron<'' @ s @ '', '' @ s' @ ''>'' | _ \<Rightarrow> ''ephemeron<invalid, invalid>'')
     | TY_Builder \<Rightarrow> ''builder'' | TY_TypeParameter \<Rightarrow> tn_name f
     | TY_Nil \<Rightarrow> ''nil'' | TY_Invalid \<Rightarrow> ''invalid''
     | _ \<Rightarrow> (if ga = [] then tn_name f else tn_name f @ ''<'' @ commas (map type_name ga) @ ''>''))"

definition join_types :: "type_spec \<Rightarrow> type_spec \<Rightarrow> type_spec" where
  "join_types lhs rhs = (
     if is_invalid lhs then rhs
     else if is_invalid rhs then lhs
     else if same_type lhs rhs then lhs
     else if ts_kind lhs = TY_Nil \<and> (is_pair rhs \<or> ts_kind rhs = TY_Record \<or> ts_kind rhs = TY_Variant) then rhs
     else if ts_kind rhs = TY_Nil \<and> (is_pair lhs \<or> ts_kind lhs = TY_Record \<or> ts_kind lhs = TY_Variant) then lhs
     else if ts_kind lhs = TY_Array \<and> ts_kind rhs = TY_Array \<and> ts_element lhs \<noteq> None \<and> ts_element rhs \<noteq> None \<and>
       same_type (the (ts_element lhs)) (the (ts_element rhs)) then lhs
     else if is_pair lhs \<and> is_pair rhs then plain_pair_type
     else invalid_type)"

subsection \<open>Expressions and statements\<close>

datatype expr_kind = EK_IntLiteral | EK_BoolLiteral | EK_StringLiteral | EK_NilLiteral | EK_Variable | EK_PairLiteral
  | EK_RecordLiteral | EK_VariantLiteral | EK_ArrayLiteral | EK_ArraySized | EK_ArrayIndex | EK_ArrayLen | EK_StrSub
  | EK_Binary | EK_Field | EK_Call | EK_Lambda | EK_IsNil | EK_MapEmpty | EK_MapHas | EK_WeakConstruct | EK_WeakGet
  | EK_EphemeronConstruct | EK_EphemeronKey | EK_EphemeronValue | EK_BuilderConstruct | EK_BuilderToStr | EK_ToStr
  | EK_ToI64 | EK_Intern | EK_Abs | EK_Min | EK_Max | EK_StrContains | EK_StrIndexOf | EK_StrStartsWith | EK_StrEndsWith

record expr_facts =
  xf_position :: source_position
  xf_operator_position :: source_position
  xf_int_value :: i64
  xf_bool_value :: bool
  xf_string_value :: string
  xf_name :: string
  xf_binary_op :: char
  xf_pair_site :: nat
  xf_array_element_type :: type_spec
  xf_map_key_type :: type_spec
  xf_map_value_type :: type_spec
  xf_explicit_type_arguments :: "type_spec list"
  xf_type_arguments_position :: source_position
  xf_field_names :: "string list"
  xf_field_positions :: "source_position list"

record parameter =
  pm_name :: string
  pm_position :: source_position
  pm_type :: type_spec

datatype step_kind = Step_Field | Step_Index

datatype statement_kind = SK_Let | SK_Assign | SK_If | SK_While | SK_ForIn | SK_Match | SK_TryCatch | SK_Throw | SK_Break
  | SK_Continue | SK_Print | SK_EphemeronSet | SK_BuilderAppend | SK_BuilderClear | SK_TailCall

record statement_facts =
  sf_position :: source_position
  sf_equals_position :: source_position
  sf_name :: string
  sf_declared_type :: type_spec
  sf_base_name :: string
  sf_base_position :: source_position
  sf_loop_names :: "string list"
  sf_loop_name_positions :: "source_position list"
  sf_loop_label :: string
  sf_loop_label_position :: source_position
  sf_loop_control_label :: string
  sf_loop_control_label_position :: source_position
  sf_catch_name :: string
  sf_catch_position :: source_position
  sf_catch_type :: type_spec

record match_binding =
  mb_name :: string
  mb_position :: source_position

datatype expr = Expr (ex_kind: expr_kind) (ex_facts: expr_facts) (ex_left: "expr option") (ex_right: "expr option")
    (ex_receiver: "expr option") (ex_arguments: "expr list") (ex_lambda: "lambda_expr option")
and lambda_expr = Lambda_expr (la_position: source_position) (la_parameters: "parameter list") (la_return_type: type_spec)
    (la_statements: "statement list") (la_result: "expr option")
and lvalue_step = LValue_step (lv_kind: step_kind) (lv_name: string) (lv_position: source_position) (lv_index: "expr option")
and match_arm = Match_arm (ma_case_name: string) (ma_position: source_position) (ma_bindings: "match_binding list")
    (ma_body: "statement list")
and statement = Statement (stm_kind: statement_kind) (stm_facts: statement_facts) (stm_initializer: "expr option")
    (stm_target: "lvalue_step list") (stm_value: "expr option") (stm_arguments: "expr list") (stm_condition: "expr option")
    (stm_then_branch: "statement list") (stm_else_branch: "statement list") (stm_body: "statement list")
    (stm_iterable: "expr option") (stm_range_upper: "expr option") (stm_match_arms: "match_arm list")
    (stm_catch_body: "statement list")

definition no_expr_facts :: expr_facts where
  "no_expr_facts = \<lparr>xf_position = no_position, xf_operator_position = no_position, xf_int_value = 0, xf_bool_value = False,
     xf_string_value = [], xf_name = [], xf_binary_op = CHR 0x00, xf_pair_site = 0, xf_array_element_type = invalid_type,
     xf_map_key_type = invalid_type, xf_map_value_type = invalid_type, xf_explicit_type_arguments = [],
     xf_type_arguments_position = no_position, xf_field_names = [], xf_field_positions = []\<rparr>"

definition no_statement_facts :: statement_facts where
  "no_statement_facts = \<lparr>sf_position = no_position, sf_equals_position = no_position, sf_name = [],
     sf_declared_type = invalid_type, sf_base_name = [], sf_base_position = no_position, sf_loop_names = [],
     sf_loop_name_positions = [], sf_loop_label = [], sf_loop_label_position = no_position, sf_loop_control_label = [],
     sf_loop_control_label_position = no_position, sf_catch_name = [], sf_catch_position = no_position,
     sf_catch_type = invalid_type\<rparr>"

subsection \<open>Declarations and programs\<close>

record type_parameter_decl =
  tp_name :: string
  tp_position :: source_position
  tp_index :: nat

record function_decl =
  fd_name :: string
  fd_position :: source_position
  fd_type_parameters :: "type_parameter_decl list"
  fd_parameters :: "parameter list"
  fd_return_type :: type_spec
  fd_statements :: "statement list"
  fd_result :: "expr option"
  fd_declaration_order :: nat

record type_decl =
  td_name :: string
  td_position :: source_position
  td_body_position :: source_position
  td_type_parameters :: "type_parameter_decl list"
  td_body :: type_spec
  td_declaration_order :: nat

record record_field_decl =
  rf_name :: string
  rf_position :: source_position
  rf_type :: type_spec

record record_decl =
  rd_name :: string
  rd_position :: source_position
  rd_type_parameters :: "type_parameter_decl list"
  rd_fields :: "record_field_decl list"
  rd_declaration_order :: nat

record variant_case_decl =
  vc_name :: string
  vc_position :: source_position
  vc_fields :: "type_spec list"

record variant_decl =
  vd_name :: string
  vd_position :: source_position
  vd_type_parameters :: "type_parameter_decl list"
  vd_cases :: "variant_case_decl list"
  vd_declaration_order :: nat

record program =
  pg_types :: "type_decl list"
  pg_generic_types :: "type_decl list"
  pg_records :: "record_decl list"
  pg_generic_records :: "record_decl list"
  pg_variants :: "variant_decl list"
  pg_generic_variants :: "variant_decl list"
  pg_functions :: "function_decl list"
  pg_generic_functions :: "function_decl list"
  pg_lambdas :: "lambda_expr list"
  pg_statements :: "statement list"
  pg_result :: "expr option"
  pg_pair_site_count :: nat

definition empty_program :: program where
  "empty_program = \<lparr>pg_types = [], pg_generic_types = [], pg_records = [], pg_generic_records = [], pg_variants = [],
     pg_generic_variants = [], pg_functions = [], pg_generic_functions = [], pg_lambdas = [], pg_statements = [],
     pg_result = None, pg_pair_site_count = 0\<rparr>"

end
