(* ===== verification/FE_Parser.thy ===== *)
theory FE_Parser
  imports FE_Syntax
begin

text \<open>
  The recursive-descent parser (\<open>class Parser\<close> of \<open>src/frontend/parser.cpp\<close>), one definition for each member function:
  its state, tokens, types and statements.

  The entry points that call each other, \<open>parse_type\<close>, \<open>parse_expression\<close> and \<open>parse_statement\<close>, reach the others
  through a record of parsers; \<open>parse_type_at\<close>, \<open>parse_expression_at\<close> and \<open>parse_statement_at\<close> tie the knot.  Their first
  argument bounds the depth of the calls and the turns of each loop; \<open>None\<close> means that the bound was reached.  The
  depth of the calls is bounded by the parser itself, but its loops need not end.
\<close>

subsection \<open>The state\<close>

record parser =
  ps_tokens :: "token list"
  ps_current :: nat
  ps_recursion_depth :: nat
  ps_next_pair_site :: nat
  ps_next_function_declaration_order :: nat
  ps_next_type_declaration_order :: nat
  ps_record_names :: "string set"
  ps_generic_function_names :: "string set"
  ps_generic_nominal_names :: "string set"
  ps_generic_record_names :: "string set"
  ps_generic_variant_names :: "string set"
  ps_active_type_parameters :: "type_parameter_decl list"
  ps_lambdas :: "lambda_expr list"
  ps_allow_record_literal :: bool
  ps_diagnostics :: "diagnostic list"

type_synonym 'a px = "parser \<Rightarrow> ('a \<times> parser) option"

definition preturn :: "'a \<Rightarrow> 'a px" where "preturn x = (\<lambda>s. Some (x, s))"

definition pbind :: "'a px \<Rightarrow> ('a \<Rightarrow> 'b px) \<Rightarrow> 'b px" where
  "pbind k f = (\<lambda>s. case k s of None \<Rightarrow> None | Some (x, s') \<Rightarrow> f x s')"

definition pthen :: "'a px \<Rightarrow> 'b px \<Rightarrow> 'b px" where "pthen k n = pbind k (\<lambda>_. n)"

definition pgets :: "(parser \<Rightarrow> 'a) \<Rightarrow> 'a px" where "pgets f = (\<lambda>s. Some (f s, s))"

definition pmodify :: "(parser \<Rightarrow> parser) \<Rightarrow> unit px" where "pmodify f = (\<lambda>s. Some ((), f s))"

definition pwhen :: "bool \<Rightarrow> unit px \<Rightarrow> unit px" where "pwhen b k = (if b then k else preturn ())"

lemmas px_defs = pbind_def pthen_def pgets_def pmodify_def pwhen_def preturn_def

text \<open>A loop: the body goes on with a new value or stops with a result.\<close>

fun ploop :: "nat \<Rightarrow> ('a \<Rightarrow> ('a + 'b) px) \<Rightarrow> 'a \<Rightarrow> 'b px" where
  "ploop 0 body x = (\<lambda>s. None)"
| "ploop (Suc n) body x = pbind (body x) (\<lambda>r. case r of Inl x' \<Rightarrow> ploop n body x' | Inr y \<Rightarrow> preturn y)"

record parsers =
  en_turns :: nat
  en_type :: "type_spec px"
  en_expression :: "expr px"
  en_statement :: "statement option px"

subsection \<open>Tokens\<close>

definition peek_token :: "parser \<Rightarrow> token" where "peek_token s = ps_tokens s ! ps_current s"

definition previous_token :: "parser \<Rightarrow> token" where "previous_token s = ps_tokens s ! (ps_current s - 1)"

definition ahead :: "nat \<Rightarrow> parser \<Rightarrow> token" where "ahead n s = ps_tokens s ! (ps_current s + n)"

definition has_ahead :: "nat \<Rightarrow> parser \<Rightarrow> bool" where "has_ahead n s \<longleftrightarrow> ps_current s + n < length (ps_tokens s)"

definition check_kind :: "token_kind \<Rightarrow> parser \<Rightarrow> bool" where "check_kind kind s \<longleftrightarrow> tk_kind (peek_token s) = kind"

definition check_next :: "token_kind \<Rightarrow> parser \<Rightarrow> bool" where
  "check_next kind s \<longleftrightarrow> has_ahead 1 s \<and> tk_kind (ahead 1 s) = kind"

definition at_end :: "parser \<Rightarrow> bool" where "at_end s \<longleftrightarrow> check_kind TK_End s"

definition step_token :: "unit px" where "step_token = pmodify (\<lambda>s. s\<lparr>ps_current := ps_current s + 1\<rparr>)"

definition match_kind :: "token_kind \<Rightarrow> bool px" where
  "match_kind kind = pbind (pgets (check_kind kind)) (\<lambda>found. pthen (pwhen found step_token) (preturn found))"

text \<open>The first of several kinds that matches, tried in order.\<close>

definition match_any :: "token_kind list \<Rightarrow> bool px" where
  "match_any kinds = pbind (pgets (\<lambda>s. tk_kind (peek_token s) \<in> set kinds)) (\<lambda>found. pthen (pwhen found step_token) (preturn found))"

definition complain_at :: "source_position \<Rightarrow> string \<Rightarrow> unit px" where
  "complain_at position message = pmodify (\<lambda>s. s\<lparr>ps_diagnostics := add_diagnostic position message (ps_diagnostics s)\<rparr>)"

definition complain :: "string \<Rightarrow> unit px" where
  "complain message = pbind (pgets (\<lambda>s. tk_position (peek_token s))) (\<lambda>position. complain_at position message)"

definition expect :: "token_kind \<Rightarrow> string \<Rightarrow> token option px" where
  "expect kind message = pbind (match_kind kind) (\<lambda>found.
     if found then pgets (\<lambda>s. Some (previous_token s)) else pthen (complain message) (preturn None))"

definition expect_field_name :: "string \<Rightarrow> token option px" where
  "expect_field_name message = pbind (match_any [TK_Identifier, TK_Left, TK_Right]) (\<lambda>found.
     if found then pgets (\<lambda>s. Some (previous_token s)) else pthen (complain message) (preturn None))"

definition skip_unless_end :: "unit px" where
  "skip_unless_end = pbind (pgets at_end) (\<lambda>finished. pwhen (\<not> finished) step_token)"

definition text_of :: "token option \<Rightarrow> string" where "text_of t = (case t of None \<Rightarrow> [] | Some t \<Rightarrow> tk_text t)"

definition position_of :: "source_position \<Rightarrow> token option \<Rightarrow> source_position" where
  "position_of fallback t = (case t of None \<Rightarrow> fallback | Some t \<Rightarrow> tk_position t)"

text \<open>\<open>do { ... } while (match(TokenKind::Comma))\<close> over elements, and the same that ends at a closing brace.\<close>

definition comma_list :: "nat \<Rightarrow> 'a list px \<Rightarrow> 'a list px" where
  "comma_list turns element = ploop turns (\<lambda>xs. pbind element (\<lambda>x. pbind (match_kind TK_Comma) (\<lambda>more.
     preturn (if more then Inl (xs @ x) else Inr (xs @ x))))) []"

definition comma_list_to_brace :: "nat \<Rightarrow> 'a list px \<Rightarrow> 'a list px" where
  "comma_list_to_brace turns element = ploop turns (\<lambda>xs. pbind element (\<lambda>x. pbind (match_kind TK_Comma) (\<lambda>more.
     pbind (pgets (check_kind TK_RBrace)) (\<lambda>closed.
     preturn (if more \<and> \<not> closed then Inl (xs @ x) else Inr (xs @ x)))))) []"

definition unless_kind :: "token_kind \<Rightarrow> 'a list px \<Rightarrow> 'a list px" where
  "unless_kind kind k = pbind (pgets (check_kind kind)) (\<lambda>closed. if closed then preturn [] else k)"

definition one :: "'a px \<Rightarrow> 'a list px" where "one k = pbind k (\<lambda>x. preturn [x])"

text \<open>\<open>synchronize\<close>: on to the token after a semicolon, or to one that can start a declaration or statement.\<close>

definition synchronizing_kinds :: "token_kind list" where
  "synchronizing_kinds = [TK_Type, TK_Record, TK_Variant, TK_Fn, TK_Let, TK_If, TK_While, TK_For, TK_Print, TK_Return, TK_RBrace]"

definition synchronized :: "parser \<Rightarrow> bool" where
  "synchronized s \<longleftrightarrow> at_end s \<or> ps_current s > 0 \<and> tk_kind (previous_token s) = TK_Semicolon \<or>
     tk_kind (peek_token s) \<in> set synchronizing_kinds"

definition synchronize :: "nat \<Rightarrow> unit px" where
  "synchronize turns = ploop turns (\<lambda>_. pbind (pgets synchronized) (\<lambda>stop.
     if stop then preturn (Inr ()) else pthen step_token (preturn (Inl ())))) ()"

text \<open>\<open>DepthGuard\<close>: the body runs one level deeper, or not at all at the greatest depth.\<close>

definition kMaxRecursionDepth :: nat where "kMaxRecursionDepth = 256"

definition guarded :: "'a px \<Rightarrow> 'a px \<Rightarrow> 'a px" where
  "guarded too_deep body = pbind (pgets (\<lambda>s. ps_recursion_depth s \<ge> kMaxRecursionDepth)) (\<lambda>deep.
     if deep then too_deep
     else pthen (pmodify (\<lambda>s. s\<lparr>ps_recursion_depth := ps_recursion_depth s + 1\<rparr>))
       (pbind body (\<lambda>x. pthen (pmodify (\<lambda>s. s\<lparr>ps_recursion_depth := ps_recursion_depth s - 1\<rparr>)) (preturn x))))"

subsection \<open>Types\<close>

definition parse_type_arguments :: "parsers \<Rightarrow> type_spec list px" where
  "parse_type_arguments p = pthen (expect TK_Less ''expected '<' before type arguments'')
     (pbind (pgets (check_kind TK_Greater)) (\<lambda>none.
     pbind (if none then pthen (complain ''generic type application requires at least one type argument'') (preturn [])
       else comma_list (en_turns p) (one (en_type p))) (\<lambda>arguments.
     pthen (expect TK_Greater ''expected '>' after type arguments'') (preturn arguments))))"

definition quoted :: "string \<Rightarrow> string" where "quoted s = [CHR 0x27] @ s @ [CHR 0x27]"

text \<open>Two types between angle brackets.\<close>

definition type_pair :: "parsers \<Rightarrow> string \<Rightarrow> string \<Rightarrow> (type_spec \<times> type_spec) px" where
  "type_pair p comma close = pbind (en_type p) (\<lambda>a. pthen (expect TK_Comma comma)
     (pbind (en_type p) (\<lambda>b. pthen (expect TK_Greater close) (preturn (a, b)))))"

definition identifier_type :: "parsers \<Rightarrow> token \<Rightarrow> type_spec px" where
  "identifier_type p t = pbind (pgets (check_kind TK_Less)) (\<lambda>generic.
     if generic then pbind (parse_type_arguments p) (\<lambda>arguments.
       preturn (with_generic_arguments arguments (named_type (tk_text t) (tk_position t))))
     else pgets (\<lambda>s. case find (\<lambda>d. tp_name d = tk_text t) (ps_active_type_parameters s) of
         Some d \<Rightarrow> type_parameter_type (tp_name d) (tp_index d) (tk_position t)
       | None \<Rightarrow> named_type (tk_text t) (tk_position t)))"

definition function_type_tail :: "parsers \<Rightarrow> type_spec px" where
  "function_type_tail p = pthen (expect TK_LParen ''expected '(' after 'fn' in function type'')
     (pbind (unless_kind TK_RParen (comma_list (en_turns p) (one (en_type p)))) (\<lambda>parameters.
     pthen (expect TK_RParen ''expected ')' after function parameter types'')
     (pthen (expect TK_Arrow ''expected '->' in function type'')
     (pbind (en_type p) (\<lambda>result. preturn (function_type_spec parameters result))))))"

definition expected_type_message :: string where
  "expected_type_message =
     ''expected type 'i64', 'bool', 'str', 'pair', 'map', function type, array type, or named type''"

definition type_after :: "parsers \<Rightarrow> token \<Rightarrow> type_spec px" where
  "type_after p t = (let at = (\<lambda>k. pbind k (\<lambda>ty. preturn (placed_at (tk_position t) ty))); kind = tk_kind t in
     if kind = TK_LBracket then at (pbind (en_type p) (\<lambda>element.
       pthen (expect TK_RBracket ''expected ']' after array element type'') (preturn (array_type element))))
     else if kind = TK_I64 then at (preturn int64_type)
     else if kind = TK_Bool then at (preturn bool_type)
     else if kind = TK_Str then at (preturn str_type)
     else if kind = TK_Builder then at (preturn builder_type)
     else if kind = TK_Map then at (pthen (expect TK_Less (''expected '<' after '' @ quoted ''map''))
       (pbind (type_pair p ''expected ',' between map key and value types'' ''expected '>' after map value type'')
         (\<lambda>(k, v). preturn (map_type k v))))
     else if kind = TK_Weak then at (pthen (expect TK_Less (''expected '<' after '' @ quoted ''weak''))
       (pbind (en_type p) (\<lambda>target. pthen (expect TK_Greater ''expected '>' after weak target type'') (preturn (weak_type target)))))
     else if kind = TK_Ephemeron then at (pthen (expect TK_Less (''expected '<' after '' @ quoted ''ephemeron''))
       (pbind (type_pair p ''expected ',' between ephemeron key and value types'' ''expected '>' after ephemeron value type'')
         (\<lambda>(k, v). preturn (ephemeron_type k v))))
     else if kind = TK_Fn then at (function_type_tail p)
     else if kind = TK_Pair then at (pbind (match_kind TK_Less) (\<lambda>fields. if \<not> fields then preturn plain_pair_type
       else pbind (type_pair p ''expected ',' between pair field types'' ''expected '>' after pair field types'')
         (\<lambda>(l, r). preturn (pair_type l r))))
     else identifier_type p t)"

definition type_starters :: "token_kind list" where
  "type_starters = [TK_LBracket, TK_I64, TK_Bool, TK_Str, TK_Builder, TK_Map, TK_Weak, TK_Ephemeron, TK_Fn, TK_Pair, TK_Identifier]"

definition parse_type :: "parsers \<Rightarrow> type_spec px" where
  "parse_type p = guarded (pthen (complain ''type nesting exceeds the maximum supported depth'')
       (pthen skip_unless_end (preturn invalid_type)))
     (pbind (match_any type_starters) (\<lambda>found.
       if found then pbind (pgets previous_token) (type_after p)
       else pthen (complain expected_type_message) (preturn invalid_type)))"

subsection \<open>Statements: what is ahead\<close>

fun after_brackets :: "nat \<Rightarrow> token list \<Rightarrow> token list" where
  "after_brackets 0 ts = ts"
| "after_brackets (Suc depth) [] = []"
| "after_brackets (Suc depth) (t # ts) = after_brackets
     (if tk_kind t = TK_LBracket then Suc (Suc depth) else if tk_kind t = TK_RBracket then depth else Suc depth) ts"

lemma after_brackets_length: "length (after_brackets depth ts) \<le> length ts"
  by (induction depth ts rule: after_brackets.induct) auto

text \<open>The tokens after the fields and indices of an assignment target.\<close>

function after_steps :: "token list \<Rightarrow> token list" where
  "after_steps ts = (case ts of [] \<Rightarrow> []
     | t # rest \<Rightarrow>
       if tk_kind t = TK_Dot \<and> rest \<noteq> [] \<and> tk_kind (hd rest) \<in> {TK_Identifier, TK_Left, TK_Right} then after_steps (tl rest)
       else if tk_kind t = TK_LBracket then after_steps (after_brackets 1 rest)
       else ts)"
  by auto

termination
  by (relation "measure length") (auto simp: le_imp_less_Suc after_brackets_length intro: le_imp_less_Suc order_trans [OF _ le_SucI])

declare after_steps.simps [simp del]

definition assignment_ahead :: "parser \<Rightarrow> bool" where
  "assignment_ahead s \<longleftrightarrow> check_kind TK_Identifier s \<and>
     (let rest = after_steps (drop (ps_current s + 1) (ps_tokens s)) in rest \<noteq> [] \<and> tk_kind (hd rest) = TK_Equal)"

definition label_prefix_ahead :: "parser \<Rightarrow> bool" where
  "label_prefix_ahead s \<longleftrightarrow> has_ahead 1 s \<and> check_kind TK_Identifier s \<and> tk_kind (ahead 1 s) = TK_Colon"

definition method_ahead :: "string list \<Rightarrow> parser \<Rightarrow> bool" where
  "method_ahead names s \<longleftrightarrow> has_ahead 3 s \<and> check_kind TK_Identifier s \<and> tk_kind (ahead 1 s) = TK_Dot \<and>
     tk_kind (ahead 2 s) = TK_Identifier \<and> tk_text (ahead 2 s) \<in> set names \<and> tk_kind (ahead 3 s) = TK_LParen"

definition ephemeron_set_ahead :: "parser \<Rightarrow> bool" where "ephemeron_set_ahead = method_ahead [''set_value'']"

definition builder_mutation_ahead :: "parser \<Rightarrow> bool" where "builder_mutation_ahead = method_ahead [''append'', ''clear'']"

definition statement_kinds :: "token_kind list" where
  "statement_kinds = [TK_Let, TK_If, TK_While, TK_For, TK_Match, TK_Try, TK_Throw, TK_Return, TK_Break, TK_Continue, TK_Print]"

definition starts_statement :: "parser \<Rightarrow> bool" where
  "starts_statement s \<longleftrightarrow> label_prefix_ahead s \<or> tk_kind (peek_token s) \<in> set statement_kinds \<or>
     assignment_ahead s \<or> ephemeron_set_ahead s \<or> builder_mutation_ahead s"

subsection \<open>Statements\<close>

definition statement_of :: "statement_kind \<Rightarrow> (statement_facts \<Rightarrow> statement_facts) \<Rightarrow> expr option \<Rightarrow> expr option \<Rightarrow> expr list \<Rightarrow> statement" where
  "statement_of kind f initializer v arguments =
     Statement kind (f no_statement_facts) initializer [] v arguments None [] [] [] None None [] []"

definition with_label :: "token \<Rightarrow> statement \<Rightarrow> statement" where
  "with_label t st = Statement (stm_kind st)
     ((stm_facts st)\<lparr>sf_loop_label := tk_text t, sf_loop_label_position := tk_position t\<rparr>) (stm_initializer st) (stm_target st)
     (stm_value st) (stm_arguments st) (stm_condition st) (stm_then_branch st) (stm_else_branch st) (stm_body st)
     (stm_iterable st) (stm_range_upper st) (stm_match_arms st) (stm_catch_body st)"

definition name_expr :: "token \<Rightarrow> expr" where
  "name_expr t = Expr EK_Variable (no_expr_facts\<lparr>xf_position := tk_position t, xf_name := tk_text t\<rparr>) None None None [] None"

definition parse_block_turn :: "parsers \<Rightarrow> statement list \<Rightarrow> (statement list + statement list) px" where
  "parse_block_turn p statements = pbind (pgets (\<lambda>s. check_kind TK_RBrace s \<or> check_kind TK_End s)) (\<lambda>closed.
     if closed then preturn (Inr statements)
     else pbind (en_statement p) (\<lambda>st. case st of
         Some st \<Rightarrow> preturn (Inl (statements @ [st]))
       | None \<Rightarrow> pthen (synchronize (en_turns p)) (preturn (Inl statements))))"

definition parse_block :: "parsers \<Rightarrow> string \<Rightarrow> statement list px" where
  "parse_block p message = pbind (expect TK_LBrace message) (\<lambda>opened.
     if opened = None then preturn []
     else pbind (ploop (en_turns p) (parse_block_turn p) []) (\<lambda>statements.
       pthen (expect TK_RBrace ''expected '}' after block'') (preturn statements)))"

text \<open>Statements, then an expression: the body of a function or a lambda, up to its closing brace.\<close>

definition parse_body :: "parsers \<Rightarrow> (statement list \<times> expr option) px" where
  "parse_body p = ploop (en_turns p) (\<lambda>statements. pbind (pgets (\<lambda>s. check_kind TK_RBrace s \<or> check_kind TK_End s)) (\<lambda>closed.
     if closed then preturn (Inr (statements, None))
     else pbind (pgets starts_statement) (\<lambda>statement.
       if statement then pbind (en_statement p) (\<lambda>st. case st of
           Some st \<Rightarrow> preturn (Inl (statements @ [st]))
         | None \<Rightarrow> pthen (synchronize (en_turns p)) (preturn (Inl statements)))
       else pbind (en_expression p) (\<lambda>e. preturn (Inr (statements, Some e)))))) []"

definition complain_unless_result :: "expr option \<Rightarrow> string \<Rightarrow> unit px" where
  "complain_unless_result result message = pbind (pgets (\<lambda>s. ps_diagnostics s = [])) (\<lambda>clean.
     pwhen (result = None \<and> clean) (complain message))"

definition parse_let :: "parsers \<Rightarrow> token \<Rightarrow> statement option px" where
  "parse_let p t = pbind (expect TK_Identifier (''expected local name after '' @ quoted ''let'')) (\<lambda>name.
     pthen (expect TK_Colon ''expected ':' after local name'')
     (pbind (en_type p) (\<lambda>declared.
     pbind (expect TK_Equal ''let declarations require an initializer'') (\<lambda>equals.
     pbind (en_expression p) (\<lambda>initializer.
     pthen (expect TK_Semicolon ''expected ';' after let declaration'')
     (preturn (Some (statement_of SK_Let (\<lambda>f. f\<lparr>sf_position := tk_position t, sf_name := text_of name,
       sf_declared_type := declared, sf_equals_position := position_of no_position equals\<rparr>) (Some initializer) None []))))))))"

text \<open>The steps of an assignment target.\<close>

definition parse_lvalue :: "parsers \<Rightarrow> (token option \<times> lvalue_step list) px" where
  "parse_lvalue p = pbind (expect TK_Identifier ''expected assignment target'') (\<lambda>name.
     pbind (ploop (en_turns p) (\<lambda>steps. pbind (match_kind TK_Dot) (\<lambda>dot.
       if dot then pbind (expect_field_name ''expected field name'') (\<lambda>field. preturn (Inl (case field of None \<Rightarrow> steps
         | Some t \<Rightarrow> steps @ [LValue_step Step_Field (tk_text t) (tk_position t) None])))
       else pbind (match_kind TK_LBracket) (\<lambda>bracket.
       if bracket then pbind (pgets previous_token) (\<lambda>t. pbind (en_expression p) (\<lambda>index.
         pthen (expect TK_RBracket ''expected ']' after array index'')
         (preturn (Inl (steps @ [LValue_step Step_Index [] (tk_position t) (Some index)])))))
       else preturn (Inr steps)))) []) (\<lambda>steps. preturn (name, steps)))"

definition parse_assignment :: "parsers \<Rightarrow> statement option px" where
  "parse_assignment p = pbind (pgets peek_token) (\<lambda>first. pbind (parse_lvalue p) (\<lambda>(name, steps).
     pbind (expect TK_Equal ''expected '=' in assignment'') (\<lambda>equals.
     pbind (en_expression p) (\<lambda>v.
     pthen (expect TK_Semicolon ''expected ';' after assignment'')
     (preturn (Some (Statement SK_Assign (no_statement_facts\<lparr>sf_position := tk_position first, sf_base_name := text_of name,
       sf_base_position := position_of no_position name, sf_equals_position := position_of no_position equals\<rparr>)
       None steps (Some v) [] None [] [] [] None None [] [])))))))"

definition parse_if :: "parsers \<Rightarrow> token \<Rightarrow> statement option px" where
  "parse_if p t = pbind (en_expression p) (\<lambda>condition.
     pbind (parse_block p ''expected '{' before if body'') (\<lambda>then_branch.
     pbind (match_kind TK_Else) (\<lambda>alternative.
     pbind (if alternative then parse_block p ''expected '{' before else body''
       else pthen (complain ''if statements require an else branch'') (preturn [])) (\<lambda>else_branch.
     preturn (Some (Statement SK_If (no_statement_facts\<lparr>sf_position := tk_position t\<rparr>) None [] None [] (Some condition)
       then_branch else_branch [] None None [] []))))))"

text \<open>In what a labelled loop or a match looks at, a brace after a name begins the block, not a record literal.\<close>

definition without_record_literals :: "bool \<Rightarrow> 'a px \<Rightarrow> 'a px" where
  "without_record_literals off k = pbind (pgets ps_allow_record_literal) (\<lambda>mode.
     pthen (pwhen off (pmodify (\<lambda>s. s\<lparr>ps_allow_record_literal := False\<rparr>)))
     (pbind k (\<lambda>x. pthen (pmodify (\<lambda>s. s\<lparr>ps_allow_record_literal := mode\<rparr>)) (preturn x))))"

definition parse_while :: "parsers \<Rightarrow> token \<Rightarrow> bool \<Rightarrow> statement option px" where
  "parse_while p t labeled = pbind (without_record_literals labeled (en_expression p)) (\<lambda>condition.
     pbind (parse_block p ''expected '{' before while body'') (\<lambda>body.
     preturn (Some (Statement SK_While (no_statement_facts\<lparr>sf_position := tk_position t\<rparr>) None [] None [] (Some condition)
       [] [] body None None [] []))))"

definition names_of :: "token option list \<Rightarrow> string list \<times> source_position list" where
  "names_of ts = (let named = map the (filter (\<lambda>t. t \<noteq> None) ts) in (map tk_text named, map tk_position named))"

definition parse_for_in :: "parsers \<Rightarrow> token \<Rightarrow> bool \<Rightarrow> statement option px" where
  "parse_for_in p t labeled = pbind (expect TK_Identifier (''expected loop variable after '' @ quoted ''for'')) (\<lambda>first.
     pbind (match_kind TK_Comma) (\<lambda>comma.
     pbind (if comma then expect TK_Identifier (''expected loop variable after '' @ quoted '','') else preturn None) (\<lambda>second.
     pthen (expect TK_In ''expected 'in' after loop variable'')
     (pbind (without_record_literals labeled (pbind (en_expression p) (\<lambda>iterable. pbind (match_kind TK_DotDot) (\<lambda>range.
       if range then pbind (en_expression p) (\<lambda>upper. preturn (iterable, Some upper)) else preturn (iterable, None)))))
       (\<lambda>(iterable, upper).
     pbind (parse_block p ''expected '{' before for-in body'') (\<lambda>body.
     preturn (Some (Statement SK_ForIn (no_statement_facts\<lparr>sf_position := tk_position t,
       sf_loop_names := fst (names_of [first, second]), sf_loop_name_positions := snd (names_of [first, second])\<rparr>)
       None [] None [] None [] [] body (Some iterable) upper [] []))))))))"

definition parse_print :: "parsers \<Rightarrow> token \<Rightarrow> statement option px" where
  "parse_print p t = pthen (expect TK_LParen (''expected '(' after '' @ quoted ''print''))
     (pbind (en_expression p) (\<lambda>v.
     pthen (expect TK_RParen ''expected ')' after print operand'')
     (pthen (expect TK_Semicolon ''expected ';' after print statement'')
     (preturn (Some (statement_of SK_Print (\<lambda>f. f\<lparr>sf_position := tk_position t\<rparr>) None (Some v) []))))))"

definition parse_try :: "parsers \<Rightarrow> token \<Rightarrow> statement option px" where
  "parse_try p t = pbind (parse_block p (''expected '{' after '' @ quoted ''try'')) (\<lambda>body.
     pthen (expect TK_Catch ''expected 'catch' after try body'')
     (pthen (expect TK_LParen (''expected '(' after '' @ quoted ''catch''))
     (pbind (expect TK_Identifier ''expected catch binding name'') (\<lambda>name.
     pthen (expect TK_Colon ''expected ':' after catch binding'')
     (pbind (en_type p) (\<lambda>caught.
     pthen (expect TK_RParen ''expected ')' after catch type'')
     (pbind (parse_block p ''expected '{' before catch body'') (\<lambda>catch_body.
     preturn (Some (Statement SK_TryCatch (no_statement_facts\<lparr>sf_position := tk_position t, sf_catch_name := text_of name,
       sf_catch_position := position_of no_position name, sf_catch_type := caught\<rparr>)
       None [] None [] None [] [] body None None [] catch_body))))))))))"

definition parse_match_arm :: "parsers \<Rightarrow> match_arm px" where
  "parse_match_arm p = pbind (expect TK_Identifier ''expected variant case name in match arm'') (\<lambda>name.
     pbind (match_kind TK_LParen) (\<lambda>open.
     pbind (if \<not> open then preturn []
       else pbind (unless_kind TK_RParen (comma_list (en_turns p) (pbind (expect_field_name ''expected match binding name'')
         (\<lambda>b. preturn (case b of None \<Rightarrow> [] | Some t \<Rightarrow> [\<lparr>mb_name = tk_text t, mb_position = tk_position t\<rparr>])))))
         (\<lambda>bindings. pthen (expect TK_RParen ''expected ')' after match bindings'') (preturn bindings))) (\<lambda>bindings.
     pthen (expect TK_FatArrow ''expected '=>' after match arm pattern'')
     (pbind (parse_block p ''expected '{' before match arm body'') (\<lambda>body.
     preturn (Match_arm (text_of name) (position_of no_position name) bindings body))))))"

definition parse_match :: "parsers \<Rightarrow> token \<Rightarrow> statement option px" where
  "parse_match p t = (let result = (\<lambda>condition arms. Some (Statement SK_Match (no_statement_facts\<lparr>sf_position := tk_position t\<rparr>)
       None [] None [] (Some condition) [] [] [] None None arms [])) in
     pbind (without_record_literals True (en_expression p)) (\<lambda>condition.
     pbind (expect TK_LBrace ''expected '{' before match arms'') (\<lambda>opened.
     if opened = None then preturn (result condition [])
     else pbind (ploop (en_turns p) (\<lambda>arms. pbind (pgets (\<lambda>s. check_kind TK_RBrace s \<or> check_kind TK_End s)) (\<lambda>closed.
         if closed then preturn (Inr arms)
         else pbind (parse_match_arm p) (\<lambda>arm. pbind (match_kind TK_Comma) (\<lambda>comma.
           pbind (pgets (check_kind TK_RBrace)) (\<lambda>brace.
           pthen (pwhen (\<not> comma \<and> \<not> brace) (pthen (complain ''expected ',' between match arms'') (synchronize (en_turns p))))
           (preturn (Inl (arms @ [arm])))))))) []) (\<lambda>arms.
       pthen (expect TK_RBrace ''expected '}' after match arms'') (preturn (result condition arms))))))"

definition parse_loop_control :: "token \<Rightarrow> statement_kind \<Rightarrow> string \<Rightarrow> statement option px" where
  "parse_loop_control t kind message = pbind (match_kind TK_Identifier) (\<lambda>labeled.
     pbind (pgets previous_token) (\<lambda>label.
     pthen (expect TK_Semicolon message)
     (preturn (Some (statement_of kind (\<lambda>f. if labeled
       then f\<lparr>sf_position := tk_position t, sf_loop_control_label := tk_text label, sf_loop_control_label_position := tk_position label\<rparr>
       else f\<lparr>sf_position := tk_position t\<rparr>) None None [])))))"

definition parse_labeled :: "parsers \<Rightarrow> statement option px" where
  "parse_labeled p = pbind (pgets peek_token) (\<lambda>label. pthen step_token (pthen step_token
     (pbind (match_kind TK_While) (\<lambda>while.
     if while then pbind (pgets previous_token) (\<lambda>t. pbind (parse_while p t True) (\<lambda>st. preturn (map_option (with_label label) st)))
     else pbind (match_kind TK_For) (\<lambda>for_in.
     if for_in then pbind (pgets previous_token) (\<lambda>t. pbind (parse_for_in p t True) (\<lambda>st. preturn (map_option (with_label label) st)))
     else pthen (complain_at (tk_position label) (''loop label must precede 'while' or '' @ quoted ''for'')) (preturn None))))))"

definition parse_throw :: "parsers \<Rightarrow> token \<Rightarrow> statement option px" where
  "parse_throw p t = pbind (en_expression p) (\<lambda>v.
     pthen (expect TK_Semicolon ''expected ';' after throw expression'')
     (preturn (Some (statement_of SK_Throw (\<lambda>f. f\<lparr>sf_position := tk_position t\<rparr>) None (Some v) []))))"

definition tail_message :: string where "tail_message = ''expected contextual keyword 'tail' after '' @ quoted ''return''"

definition parse_return :: "parsers \<Rightarrow> token \<Rightarrow> statement option px" where
  "parse_return p t = pbind (expect TK_Identifier tail_message) (\<lambda>tail.
     pthen (case tail of None \<Rightarrow> preturn () | Some w \<Rightarrow> pwhen (tk_text w \<noteq> ''tail'') (complain_at (tk_position w) tail_message))
     (pbind (en_expression p) (\<lambda>v.
     pthen (expect TK_Semicolon ''expected ';' after tail call'')
     (preturn (Some (statement_of SK_TailCall (\<lambda>f. f\<lparr>sf_position := tk_position t\<rparr>) None (Some v) []))))))"

definition parse_ephemeron_set :: "parsers \<Rightarrow> statement option px" where
  "parse_ephemeron_set p = pbind (pgets peek_token) (\<lambda>t. pthen step_token
     (pthen (expect TK_Dot ''expected '.' before set_value'')
     (pthen step_token
     (pthen (expect TK_LParen ''expected '(' after set_value'')
     (pbind (en_expression p) (\<lambda>v.
     pthen (expect TK_RParen ''expected ')' after ephemeron value'')
     (pthen (expect TK_Semicolon ''expected ';' after set_value'')
     (preturn (Some (statement_of SK_EphemeronSet (\<lambda>f. f\<lparr>sf_position := tk_position t\<rparr>) (Some (name_expr t)) (Some v) []))))))))))"

definition arguments_to :: "parsers \<Rightarrow> string \<Rightarrow> expr list px" where
  "arguments_to p message = pbind (unless_kind TK_RParen (comma_list (en_turns p) (one (en_expression p)))) (\<lambda>arguments.
     pthen (expect TK_RParen message) (preturn arguments))"

definition parse_builder_mutation :: "parsers \<Rightarrow> statement option px" where
  "parse_builder_mutation p = pbind (pgets (\<lambda>s. (peek_token s, tk_text (ahead 2 s)))) (\<lambda>(t, called).
     pthen step_token
     (pthen (expect TK_Dot ''expected '.' before builder mutation'')
     (pbind (pgets (\<lambda>s. tk_text (peek_token s))) (\<lambda>method.
     pthen step_token
     (pthen (expect TK_LParen (''expected '(' after '' @ quoted method))
     (pbind (arguments_to p (''expected ')' after '' @ method @ '' arguments'')) (\<lambda>arguments.
     pthen (expect TK_Semicolon (''expected ';' after '' @ method))
     (preturn (Some (statement_of (if called = ''append'' then SK_BuilderAppend else SK_BuilderClear)
       (\<lambda>f. f\<lparr>sf_position := tk_position t\<rparr>) (Some (name_expr t)) None arguments))))))))))"

definition keyword_statement :: "parsers \<Rightarrow> token \<Rightarrow> statement option px" where
  "keyword_statement p t = (let kind = tk_kind t in
     if kind = TK_Let then parse_let p t
     else if kind = TK_If then parse_if p t
     else if kind = TK_While then parse_while p t False
     else if kind = TK_For then parse_for_in p t False
     else if kind = TK_Match then parse_match p t
     else if kind = TK_Try then parse_try p t
     else if kind = TK_Throw then parse_throw p t
     else if kind = TK_Return then parse_return p t
     else if kind = TK_Break then parse_loop_control t SK_Break (''expected ';' after '' @ quoted ''break'')
     else if kind = TK_Continue then parse_loop_control t SK_Continue (''expected ';' after '' @ quoted ''continue'')
     else parse_print p t)"

definition parse_statement :: "parsers \<Rightarrow> statement option px" where
  "parse_statement p = guarded (pthen (complain ''block nesting exceeds the maximum supported depth'')
       (pthen skip_unless_end (preturn None)))
     (pbind (pgets label_prefix_ahead) (\<lambda>label.
     if label then parse_labeled p
     else pbind (match_any statement_kinds) (\<lambda>found.
     if found then pbind (pgets previous_token) (keyword_statement p)
     else pbind (pgets ephemeron_set_ahead) (\<lambda>set_value.
     if set_value then parse_ephemeron_set p
     else pbind (pgets builder_mutation_ahead) (\<lambda>mutation.
     if mutation then parse_builder_mutation p
     else pbind (pgets assignment_ahead) (\<lambda>assignment.
     if assignment then parse_assignment p
     else pthen (complain ''expected statement'') (preturn None)))))))"

end
