(* ===== verification/FE_Program.thy ===== *)
theory FE_Program
  imports FE_Parser
begin

text \<open>
  The rest of the parser (\<open>class Parser\<close> of \<open>src/frontend/parser.cpp\<close>): expressions, the entry points that tie the knot
  of the mutual recursion, declarations, and whole programs (\<open>parse_tokens\<close>).
\<close>

subsection \<open>Expressions\<close>

definition leaf :: "expr_kind \<Rightarrow> (expr_facts \<Rightarrow> expr_facts) \<Rightarrow> expr" where
  "leaf kind f = Expr kind (f no_expr_facts) None None None [] None"

definition binary_expr :: "token \<Rightarrow> char \<Rightarrow> expr \<Rightarrow> expr \<Rightarrow> expr" where
  "binary_expr operation op l r = Expr EK_Binary (no_expr_facts\<lparr>xf_position := xf_position (ex_facts l),
     xf_operator_position := tk_position operation, xf_binary_op := op\<rparr>) (Some l) (Some r) None [] None"

text \<open>An expression on a receiver, with its arguments.\<close>

definition on_receiver :: "expr_kind \<Rightarrow> source_position \<Rightarrow> expr \<Rightarrow> expr list \<Rightarrow> expr" where
  "on_receiver kind position receiver arguments =
     Expr kind (no_expr_facts\<lparr>xf_position := position\<rparr>) None None (Some receiver) arguments None"

text \<open>The loops of the binary levels, left-associative.\<close>

definition binary_level :: "parsers \<Rightarrow> (token_kind \<times> char) list \<Rightarrow> expr px \<Rightarrow> expr px" where
  "binary_level p operators operand = pbind operand (ploop (en_turns p) (\<lambda>e. pbind (match_any (map fst operators)) (\<lambda>found.
     if \<not> found then preturn (Inr e)
     else pbind (pgets previous_token) (\<lambda>operation. pbind operand (\<lambda>r.
       preturn (Inl (binary_expr operation (the (map_of operators (tk_kind operation))) e r)))))))"

definition field_expr :: "expr \<Rightarrow> expr px" where
  "field_expr e = pgets (\<lambda>s. Expr EK_Field (no_expr_facts\<lparr>xf_position := tk_position (previous_token s),
     xf_name := tk_text (previous_token s)\<rparr>) None None (Some e) [] None)"

text \<open>A method call, after its name.\<close>

definition no_arguments :: "string \<Rightarrow> string \<Rightarrow> unit px" where
  "no_arguments opening closing = pthen (expect TK_LParen opening) (pthen (expect TK_RParen closing) (preturn ()))"

definition method_arguments :: "parsers \<Rightarrow> string \<Rightarrow> string \<Rightarrow> expr list px" where
  "method_arguments p opening closing = pthen (expect TK_LParen opening) (arguments_to p closing)"

definition search_methods :: "(string \<times> expr_kind) list" where
  "search_methods = [(''contains'', EK_StrContains), (''index_of'', EK_StrIndexOf), (''starts_with'', EK_StrStartsWith),
     (''ends_with'', EK_StrEndsWith)]"

text \<open>After a dot: the member, or nothing when there is none.\<close>

definition parse_member :: "parsers \<Rightarrow> expr \<Rightarrow> expr option px" where
  "parse_member p e = pbind (match_any [TK_Left, TK_Right]) (\<lambda>field.
     if field then pbind (field_expr e) (\<lambda>e'. preturn (Some e'))
     else pbind (pgets peek_token) (\<lambda>t. pbind (pgets (check_next TK_LParen)) (\<lambda>called.
     let method = (tk_kind t = TK_Identifier \<and> called); name = tk_text t; at = tk_position t in
     if method \<and> name = ''has'' then pthen step_token (pthen (expect TK_LParen (''expected '(' after '' @ quoted ''has''))
       (pbind (en_expression p) (\<lambda>key. pthen (expect TK_RParen ''expected ')' after map key'')
       (preturn (Some (Expr EK_MapHas (no_expr_facts\<lparr>xf_position := at\<rparr>) (Some key) None (Some e) [] None))))))
     else if method \<and> name = ''get'' then pthen step_token
       (pthen (no_arguments (''expected '(' after '' @ quoted ''get'') ''weak get takes no arguments'')
       (preturn (Some (on_receiver EK_WeakGet at e []))))
     else if method \<and> (name = ''key'' \<or> name = ''value'') then pthen step_token
       (pthen (no_arguments ''expected '(' after ephemeron getter'' ''ephemeron getter takes no arguments'')
       (preturn (Some (on_receiver (if name = ''key'' then EK_EphemeronKey else EK_EphemeronValue) at e []))))
     else if tk_kind t = TK_ToStr \<and> called then pthen step_token
       (pbind (method_arguments p (''expected '(' after '' @ quoted ''to_str'') ''expected ')' after to_str arguments'') (\<lambda>arguments.
       preturn (Some (on_receiver EK_BuilderToStr at e arguments))))
     else if method \<and> name = ''sub'' then pthen step_token
       (pbind (method_arguments p (''expected '(' after '' @ quoted ''sub'') ''expected ')' after sub arguments'') (\<lambda>arguments.
       preturn (Some (on_receiver EK_StrSub at e arguments))))
     else if method \<and> map_of search_methods name \<noteq> None then pthen step_token
       (pbind (method_arguments p (''expected '(' after '' @ quoted name) (''expected ')' after '' @ name @ '' arguments'')) (\<lambda>arguments.
       preturn (Some (on_receiver (the (map_of search_methods name)) at e arguments))))
     else pbind (match_kind TK_Identifier) (\<lambda>field.
       if field then pbind (field_expr e) (\<lambda>e'. preturn (Some e'))
       else pthen (complain ''expected field name or method'') (preturn None)))))"

definition parse_generic_call :: "parsers \<Rightarrow> expr \<Rightarrow> expr px" where
  "parse_generic_call p e = pbind (pgets previous_token) (\<lambda>less. pbind (pgets (check_kind TK_Greater)) (\<lambda>none.
     pbind (if none then pthen (complain ''generic call requires at least one type argument'') (preturn [])
       else comma_list (en_turns p) (one (en_type p))) (\<lambda>type_arguments.
     pthen (expect TK_Greater ''expected '>' after explicit type arguments'')
     (pthen (expect TK_LParen ''expected '(' after explicit type arguments'')
     (pbind (arguments_to p ''expected ')' after call arguments'') (\<lambda>arguments.
     preturn (Expr EK_Call (no_expr_facts\<lparr>xf_position := xf_position (ex_facts e),
       xf_type_arguments_position := tk_position less, xf_explicit_type_arguments := type_arguments\<rparr>)
       None None (Some e) arguments None)))))))"

definition generic_call_ahead :: "expr \<Rightarrow> parser \<Rightarrow> bool" where
  "generic_call_ahead e s \<longleftrightarrow> ex_kind e = EK_Variable \<and> xf_name (ex_facts e) \<in> ps_generic_function_names s \<and> check_kind TK_Less s"

definition parse_postfix_step :: "parsers \<Rightarrow> expr \<Rightarrow> (expr + expr) px" where
  "parse_postfix_step p e = pbind (pgets (generic_call_ahead e)) (\<lambda>generic.
     if generic then pthen step_token (pbind (parse_generic_call p e) (\<lambda>e'. preturn (Inl e')))
     else pbind (match_kind TK_Dot) (\<lambda>dot.
     if dot then pbind (parse_member p e) (\<lambda>r. preturn (case r of Some e' \<Rightarrow> Inl e' | None \<Rightarrow> Inr e))
     else pbind (match_kind TK_LBracket) (\<lambda>bracket.
     if bracket then pbind (pgets previous_token) (\<lambda>t. pbind (en_expression p) (\<lambda>index.
       pthen (expect TK_RBracket ''expected ']' after array index'')
       (preturn (Inl (Expr EK_ArrayIndex (no_expr_facts\<lparr>xf_position := tk_position t\<rparr>) (Some index) None (Some e) [] None)))))
     else pbind (match_kind TK_LParen) (\<lambda>call.
     if call then pbind (arguments_to p ''expected ')' after call arguments'') (\<lambda>arguments.
       preturn (Inl (on_receiver EK_Call (xf_position (ex_facts e)) e arguments)))
     else preturn (Inr e)))))"

subsection \<open>Primary expressions\<close>

definition parse_parameter :: "parsers \<Rightarrow> string \<Rightarrow> string \<Rightarrow> parameter px" where
  "parse_parameter p expected_name expected_colon = pbind (expect TK_Identifier expected_name) (\<lambda>name.
     pthen (expect TK_Colon expected_colon)
     (pbind (en_type p) (\<lambda>ty.
     preturn \<lparr>pm_name = text_of name, pm_position = position_of no_position name, pm_type = ty\<rparr>)))"

definition parse_lambda :: "parsers \<Rightarrow> token \<Rightarrow> expr px" where
  "parse_lambda p t = pthen (expect TK_LParen ''expected '(' after 'fn' in lambda'')
     (pbind (unless_kind TK_RParen (comma_list (en_turns p)
       (one (parse_parameter p ''expected lambda parameter name'' ''expected ':' after lambda parameter name'')))) (\<lambda>parameters.
     pthen (expect TK_RParen ''expected ')' after lambda parameters'')
     (pthen (expect TK_Arrow ''expected '->' before lambda return type'')
     (pbind (en_type p) (\<lambda>return_type.
     pthen (expect TK_LBrace ''expected '{' before lambda body'')
     (pbind (parse_body p) (\<lambda>(statements, result).
     pthen (complain_unless_result result ''lambda body must end with an expression'')
     (pthen (expect TK_RBrace ''expected '}' after lambda body'')
     (let la = Lambda_expr (tk_position t) parameters return_type statements result in
     pthen (pmodify (\<lambda>s. s\<lparr>ps_lambdas := ps_lambdas s @ [la]\<rparr>))
     (preturn (Expr EK_Lambda (no_expr_facts\<lparr>xf_position := tk_position t\<rparr>) None None None [] (Some la))))))))))))"

text \<open>One operand between parentheses.\<close>

definition operand_in :: "parsers \<Rightarrow> string \<Rightarrow> string \<Rightarrow> expr px" where
  "operand_in p opening closing = pthen (expect TK_LParen opening) (pbind (en_expression p) (\<lambda>e.
     pthen (expect TK_RParen closing) (preturn e)))"

definition operands_in :: "parsers \<Rightarrow> string \<Rightarrow> string \<Rightarrow> string \<Rightarrow> (expr \<times> expr) px" where
  "operands_in p opening comma closing = pthen (expect TK_LParen opening) (pbind (en_expression p) (\<lambda>l.
     pthen (expect TK_Comma comma) (pbind (en_expression p) (\<lambda>r.
     pthen (expect TK_RParen closing) (preturn (l, r))))))"

text \<open>The fields of a record literal, up to its closing brace.\<close>

definition record_fields :: "parsers \<Rightarrow> (token option \<times> expr) list px" where
  "record_fields p = pbind (unless_kind TK_RBrace (comma_list_to_brace (en_turns p)
       (pbind (expect_field_name ''expected record initializer field name'') (\<lambda>field.
       pthen (expect TK_Colon ''expected ':' after record initializer field name'')
       (pbind (en_expression p) (\<lambda>e. preturn [(field, e)])))))) (\<lambda>fields.
     pthen (expect TK_RBrace ''expected '}' after record initializer fields'') (preturn fields))"

definition record_literal :: "token \<Rightarrow> type_spec list \<Rightarrow> (token option \<times> expr) list \<Rightarrow> expr" where
  "record_literal t type_arguments inits = Expr EK_RecordLiteral (no_expr_facts\<lparr>xf_position := tk_position t,
     xf_name := tk_text t, xf_explicit_type_arguments := type_arguments,
     xf_field_names := fst (names_of (map fst inits)), xf_field_positions := snd (names_of (map fst inits))\<rparr>)
     None None None (map snd inits) None"

definition looks_like_record_literal :: "token \<Rightarrow> parser \<Rightarrow> bool" where
  "looks_like_record_literal t s \<longleftrightarrow> check_kind TK_LBrace s \<and> (tk_text t \<in> ps_record_names s \<or>
     has_ahead 2 s \<and> tk_kind (ahead 1 s) \<in> {TK_Identifier, TK_Left, TK_Right} \<and> tk_kind (ahead 2 s) = TK_Colon)"

definition parse_name :: "parsers \<Rightarrow> token \<Rightarrow> expr px" where
  "parse_name p t = pbind (pgets (\<lambda>s. tk_kind t = TK_Identifier \<and> tk_text t \<in> ps_generic_nominal_names s \<and> check_kind TK_Less s))
     (\<lambda>generic.
     if generic then pbind (parse_type_arguments p) (\<lambda>type_arguments.
       pbind (pgets (\<lambda>s. tk_text t \<in> ps_generic_record_names s \<and> check_kind TK_LBrace s)) (\<lambda>literal.
       if literal then pthen step_token (pbind (record_fields p) (\<lambda>fields. preturn (record_literal t type_arguments fields)))
       else preturn (leaf EK_Variable (\<lambda>f. f\<lparr>xf_position := tk_position t, xf_name := tk_text t,
         xf_explicit_type_arguments := type_arguments\<rparr>))))
     else pbind (pgets (\<lambda>s. tk_kind t = TK_Identifier \<and> ps_allow_record_literal s \<and> looks_like_record_literal t s)) (\<lambda>literal.
       if literal then pthen step_token (pbind (record_fields p) (\<lambda>fields. preturn (record_literal t [] fields)))
       else preturn (name_expr t)))"

definition parse_pair :: "parsers \<Rightarrow> token \<Rightarrow> expr px" where
  "parse_pair p t = pbind (pgets ps_next_pair_site) (\<lambda>site.
     pthen (pmodify (\<lambda>s. s\<lparr>ps_next_pair_site := site + 1\<rparr>))
     (pbind (operands_in p (''expected '(' after '' @ quoted ''pair'') ''expected ',' between pair fields''
       ''expected ')' after pair fields'') (\<lambda>(l, r).
     preturn (Expr EK_PairLiteral (no_expr_facts\<lparr>xf_position := tk_position t, xf_pair_site := site\<rparr>) (Some l) (Some r) None [] None))))"

definition parse_sized_array :: "parsers \<Rightarrow> token \<Rightarrow> expr px" where
  "parse_sized_array p t = pthen (expect TK_Less (''expected '<' after '' @ quoted ''array''))
     (pbind (en_type p) (\<lambda>element.
     pthen (expect TK_Greater ''expected '>' after array element type'')
     (pbind (operands_in p ''expected '(' after array element type'' ''expected ',' between array length and initializer''
       ''expected ')' after array initializer'') (\<lambda>(l, r).
     preturn (Expr EK_ArraySized (no_expr_facts\<lparr>xf_position := tk_position t, xf_array_element_type := element\<rparr>)
       (Some l) (Some r) None [] None)))))"

definition parse_empty_map :: "parsers \<Rightarrow> token \<Rightarrow> expr px" where
  "parse_empty_map p t = pthen (expect TK_Less (''expected '<' after '' @ quoted ''map''))
     (pbind (type_pair p ''expected ',' between map key and value types'' ''expected '>' after map value type'') (\<lambda>(k, v).
     pthen (no_arguments ''expected '(' after map type'' ''empty map constructor takes no arguments'')
     (preturn (leaf EK_MapEmpty (\<lambda>f. f\<lparr>xf_position := tk_position t, xf_map_key_type := k, xf_map_value_type := v\<rparr>)))))"

definition primary_after :: "parsers \<Rightarrow> token \<Rightarrow> expr px" where
  "primary_after p t = (let kind = tk_kind t; at = (\<lambda>f. f\<lparr>xf_position := tk_position t\<rparr>);
       unary = (\<lambda>k. pbind k (\<lambda>(ek, e). preturn (on_receiver ek (tk_position t) e [])));
       plain_call = (\<lambda>ek arguments. Expr ek (at no_expr_facts) None None None arguments None) in
     if kind = TK_Fn then parse_lambda p t
     else if kind = TK_Integer then preturn (leaf EK_IntLiteral (\<lambda>f. (at f)\<lparr>xf_int_value := tk_integer t\<rparr>))
     else if kind = TK_True \<or> kind = TK_False then preturn (leaf EK_BoolLiteral (\<lambda>f. (at f)\<lparr>xf_bool_value := (kind = TK_True)\<rparr>))
     else if kind = TK_String then preturn (leaf EK_StringLiteral (\<lambda>f. (at f)\<lparr>xf_string_value := tk_text t\<rparr>))
     else if kind = TK_Nil then preturn (leaf EK_NilLiteral at)
     else if kind = TK_IsNil then unary (pbind (operand_in p (''expected '(' after '' @ quoted ''is_nil'')
       ''expected ')' after is_nil operand'') (\<lambda>e. preturn (EK_IsNil, e)))
     else if kind = TK_Weak then unary (pbind (operand_in p (''expected '(' after '' @ quoted ''weak'')
       ''expected ')' after weak target'') (\<lambda>e. preturn (EK_WeakConstruct, e)))
     else if kind = TK_Ephemeron then pbind (operands_in p (''expected '(' after '' @ quoted ''ephemeron'')
       ''expected ',' between ephemeron key and value'' ''expected ')' after ephemeron value'') (\<lambda>(l, r).
       preturn (Expr EK_EphemeronConstruct (at no_expr_facts) (Some l) (Some r) None [] None))
     else if kind = TK_Builder then pbind (method_arguments p (''expected '(' after '' @ quoted ''builder'')
       ''expected ')' after builder arguments'') (\<lambda>arguments. preturn (plain_call EK_BuilderConstruct arguments))
     else if kind = TK_Intern then unary (pbind (operand_in p (''expected '(' after '' @ quoted ''intern'')
       ''expected ')' after intern operand'') (\<lambda>e. preturn (EK_Intern, e)))
     else if kind = TK_Abs \<or> kind = TK_Min \<or> kind = TK_Max then pbind (method_arguments p (''expected '(' after '' @ quoted (tk_text t))
       (''expected ')' after '' @ tk_text t @ '' arguments'')) (\<lambda>arguments.
       preturn (plain_call (if kind = TK_Abs then EK_Abs else if kind = TK_Min then EK_Min else EK_Max) arguments))
     else if kind = TK_ToStr then unary (pbind (operand_in p (''expected '(' after '' @ quoted ''to_str'')
       ''expected ')' after to_str operand'') (\<lambda>e. preturn (EK_ToStr, e)))
     else if kind = TK_ToI64 then unary (pbind (operand_in p (''expected '(' after '' @ quoted ''to_i64'')
       ''expected ')' after to_i64 operand'') (\<lambda>e. preturn (EK_ToI64, e)))
     else if kind = TK_Pair then parse_pair p t
     else if kind = TK_Array then parse_sized_array p t
     else if kind = TK_Map then parse_empty_map p t
     else if kind = TK_LBracket then pbind (unless_kind TK_RBracket (comma_list (en_turns p) (one (en_expression p)))) (\<lambda>elements.
       pthen (expect TK_RBracket ''expected ']' after array literal'') (preturn (plain_call EK_ArrayLiteral elements)))
     else if kind = TK_LParen then pbind (en_expression p) (\<lambda>e.
       pthen (expect TK_RParen ''expected ')' after expression'') (preturn e))
     else parse_name p t)"

definition primary_kinds :: "token_kind list" where
  "primary_kinds = [TK_Fn, TK_Integer, TK_True, TK_False, TK_String, TK_Nil, TK_IsNil, TK_Weak, TK_Ephemeron, TK_Builder,
     TK_Intern, TK_Abs, TK_Min, TK_Max, TK_ToStr, TK_ToI64, TK_Identifier, TK_Left, TK_Right, TK_Pair, TK_Array, TK_Map,
     TK_LBracket, TK_LParen]"

text \<open>The expression that stands for one that could not be read.\<close>

definition error_expression :: "string \<Rightarrow> expr px" where
  "error_expression message = pthen (complain message)
     (pbind (pgets (\<lambda>s. leaf EK_IntLiteral (\<lambda>f. f\<lparr>xf_position := tk_position (peek_token s)\<rparr>))) (\<lambda>e.
     pthen skip_unless_end (preturn e)))"

definition parse_primary :: "parsers \<Rightarrow> expr px" where
  "parse_primary p = pbind (match_any primary_kinds) (\<lambda>found.
     if found then pbind (pgets previous_token) (primary_after p) else error_expression ''expected expression'')"

definition parse_postfix :: "parsers \<Rightarrow> expr px" where
  "parse_postfix p = pbind (parse_primary p) (ploop (en_turns p) (parse_postfix_step p))"

definition parse_addition :: "parsers \<Rightarrow> expr px" where
  "parse_addition p = binary_level p [(TK_Plus, CHR ''+'')] (parse_postfix p)"

definition parse_comparison :: "parsers \<Rightarrow> expr px" where
  "parse_comparison p = binary_level p [(TK_Less, CHR ''<''), (TK_LessEqual, CHR ''L''), (TK_Greater, CHR ''>''),
     (TK_GreaterEqual, CHR ''G'')] (parse_addition p)"

definition parse_equality :: "parsers \<Rightarrow> expr px" where
  "parse_equality p = binary_level p [(TK_EqualEqual, CHR ''=''), (TK_BangEqual, CHR ''!'')] (parse_comparison p)"

definition parse_expression :: "parsers \<Rightarrow> expr px" where
  "parse_expression p = guarded (error_expression ''expression nesting exceeds the maximum supported depth'') (parse_equality p)"

subsection \<open>The entry points\<close>

fun parse_type_at :: "nat \<Rightarrow> type_spec px"
and parse_expression_at :: "nat \<Rightarrow> expr px"
and parse_statement_at :: "nat \<Rightarrow> statement option px" where
  "parse_type_at 0 s = None"
| "parse_type_at (Suc n) s = parse_type \<lparr>en_turns = n, en_type = parse_type_at n, en_expression = parse_expression_at n,
     en_statement = parse_statement_at n\<rparr> s"
| "parse_expression_at 0 s = None"
| "parse_expression_at (Suc n) s = parse_expression \<lparr>en_turns = n, en_type = parse_type_at n,
     en_expression = parse_expression_at n, en_statement = parse_statement_at n\<rparr> s"
| "parse_statement_at 0 s = None"
| "parse_statement_at (Suc n) s = parse_statement \<lparr>en_turns = n, en_type = parse_type_at n,
     en_expression = parse_expression_at n, en_statement = parse_statement_at n\<rparr> s"

definition parsers_at :: "nat \<Rightarrow> parsers" where
  "parsers_at n = \<lparr>en_turns = n, en_type = parse_type_at n, en_expression = parse_expression_at n,
     en_statement = parse_statement_at n\<rparr>"

subsection \<open>Declarations\<close>

text \<open>Type parameters between angle brackets, numbered in order.\<close>

definition type_parameter_list :: "parsers \<Rightarrow> string \<Rightarrow> type_parameter_decl list px" where
  "type_parameter_list p none_message = pbind (pgets (check_kind TK_Greater)) (\<lambda>none.
     pbind (if none then pthen (complain none_message) (preturn [])
       else comma_list (en_turns p) (pbind (expect TK_Identifier ''expected type parameter name'') (\<lambda>t.
         preturn (case t of None \<Rightarrow> [] | Some t \<Rightarrow> [t])))) (\<lambda>ts.
     pthen (expect TK_Greater ''expected '>' after type parameters'')
     (preturn (map (\<lambda>(i, t). \<lparr>tp_name = tk_text t, tp_position = tk_position t, tp_index = i\<rparr>) (enumerate 0 ts)))))"

definition parse_type_parameters :: "parsers \<Rightarrow> string \<Rightarrow> type_parameter_decl list px" where
  "parse_type_parameters p declaration_kind = pbind (match_kind TK_Less) (\<lambda>less.
     if \<not> less then preturn []
     else type_parameter_list p (''generic '' @ declaration_kind @ '' requires at least one type parameter''))"

definition with_type_parameters :: "type_parameter_decl list \<Rightarrow> 'a px \<Rightarrow> 'a px" where
  "with_type_parameters parameters k = pbind (pgets ps_active_type_parameters) (\<lambda>outer.
     pthen (pmodify (\<lambda>s. s\<lparr>ps_active_type_parameters := parameters\<rparr>))
     (pbind k (\<lambda>x. pthen (pmodify (\<lambda>s. s\<lparr>ps_active_type_parameters := outer\<rparr>)) (preturn x))))"

definition next_type_order :: "nat px" where
  "next_type_order = pbind (pgets ps_next_type_declaration_order) (\<lambda>n.
     pthen (pmodify (\<lambda>s. s\<lparr>ps_next_type_declaration_order := n + 1\<rparr>)) (preturn n))"

definition parse_type_declaration :: "parsers \<Rightarrow> token \<Rightarrow> type_decl px" where
  "parse_type_declaration p t = pbind next_type_order (\<lambda>order.
     pbind (expect TK_Identifier (''expected type name after '' @ quoted ''type'')) (\<lambda>name.
     pbind (parse_type_parameters p ''type declaration'') (\<lambda>parameters.
     with_type_parameters parameters
       (pthen (expect TK_Equal ''expected '=' in type declaration'')
       (pbind (pgets peek_token) (\<lambda>first.
       pbind (en_type p) (\<lambda>body.
       pthen (expect TK_Semicolon ''expected ';' after type declaration'')
       (preturn \<lparr>td_name = text_of name, td_position = position_of (tk_position t) name, td_body_position = tk_position first,
         td_type_parameters = parameters, td_body = body, td_declaration_order = order\<rparr>))))))))"

definition parse_record_declaration :: "parsers \<Rightarrow> token \<Rightarrow> record_decl px" where
  "parse_record_declaration p t = pbind next_type_order (\<lambda>order.
     pbind (expect TK_Identifier (''expected record name after '' @ quoted ''record'')) (\<lambda>name.
     pthen (pwhen (name \<noteq> None) (pmodify (\<lambda>s. s\<lparr>ps_record_names := insert (text_of name) (ps_record_names s)\<rparr>)))
     (pbind (parse_type_parameters p ''record declaration'') (\<lambda>parameters.
     with_type_parameters parameters
       (pthen (expect TK_LBrace ''expected '{' before record fields'')
       (pbind (unless_kind TK_RBrace (comma_list_to_brace (en_turns p)
         (pbind (expect_field_name ''expected record field name'') (\<lambda>field.
         pthen (expect TK_Colon ''expected ':' after record field name'')
         (pbind (en_type p) (\<lambda>ty.
         preturn [\<lparr>rf_name = text_of field, rf_position = position_of no_position field, rf_type = ty\<rparr>])))))) (\<lambda>fields.
       pthen (expect TK_RBrace ''expected '}' after record fields'')
       (preturn \<lparr>rd_name = text_of name, rd_position = position_of (tk_position t) name, rd_type_parameters = parameters,
         rd_fields = fields, rd_declaration_order = order\<rparr>))))))))"

definition parse_variant_declaration :: "parsers \<Rightarrow> token \<Rightarrow> variant_decl px" where
  "parse_variant_declaration p t = pbind next_type_order (\<lambda>order.
     pbind (expect TK_Identifier (''expected variant name after '' @ quoted ''variant'')) (\<lambda>name.
     pbind (parse_type_parameters p ''variant declaration'') (\<lambda>parameters.
     with_type_parameters parameters
       (pthen (expect TK_LBrace ''expected '{' before variant cases'')
       (pbind (unless_kind TK_RBrace (comma_list_to_brace (en_turns p)
         (pbind (expect TK_Identifier ''expected variant case name'') (\<lambda>case_name.
         pthen (expect TK_LParen ''expected '(' after variant case name'')
         (pbind (unless_kind TK_RParen (comma_list (en_turns p) (one (en_type p)))) (\<lambda>fields.
         pthen (expect TK_RParen ''expected ')' after variant case payload'')
         (preturn [\<lparr>vc_name = text_of case_name, vc_position = position_of no_position case_name, vc_fields = fields\<rparr>]))))))) (\<lambda>cases.
       pthen (expect TK_RBrace ''expected '}' after variant cases'')
       (preturn \<lparr>vd_name = text_of name, vd_position = position_of (tk_position t) name, vd_type_parameters = parameters,
         vd_cases = cases, vd_declaration_order = order\<rparr>)))))))"

definition next_function_order :: "nat px" where
  "next_function_order = pbind (pgets ps_next_function_declaration_order) (\<lambda>n.
     pthen (pmodify (\<lambda>s. s\<lparr>ps_next_function_declaration_order := n + 1\<rparr>)) (preturn n))"

definition parse_function :: "parsers \<Rightarrow> token \<Rightarrow> function_decl px" where
  "parse_function p t = pbind next_function_order (\<lambda>order.
     pbind (expect TK_Identifier (''expected function name after '' @ quoted ''fn'')) (\<lambda>name.
     pbind (match_kind TK_Less) (\<lambda>less.
     pbind (if less then type_parameter_list p ''generic function requires at least one type parameter'' else preturn [])
       (\<lambda>type_parameters.
     with_type_parameters type_parameters
       (pthen (expect TK_LParen ''expected '(' after function name'')
       (pbind (unless_kind TK_RParen (comma_list (en_turns p)
         (one (parse_parameter p ''expected parameter name'' ''expected ':' after parameter name'')))) (\<lambda>parameters.
       pthen (expect TK_RParen ''expected ')' after parameters'')
       (pthen (expect TK_Arrow ''expected '->' before function return type'')
       (pbind (en_type p) (\<lambda>return_type.
       pthen (expect TK_LBrace ''expected '{' before function body'')
       (pbind (parse_body p) (\<lambda>(statements, result).
       pthen (complain_unless_result result ''function body must end with an expression'')
       (pthen (expect TK_RBrace ''expected '}' after function body'')
       (preturn \<lparr>fd_name = text_of name, fd_position = tk_position t, fd_type_parameters = type_parameters,
         fd_parameters = parameters, fd_return_type = return_type, fd_statements = statements, fd_result = result,
         fd_declaration_order = order\<rparr>))))))))))))))"

subsection \<open>Programs\<close>

text \<open>The names of the generic declarations at brace depth 0, found before parsing.\<close>

fun scan_generic_names :: "nat \<Rightarrow> token list \<Rightarrow> parser \<Rightarrow> parser" where
  "scan_generic_names depth (a # b # c # ts) s = (
     let generic = (depth = 0 \<and> tk_kind b = TK_Identifier \<and> tk_kind c = TK_Less); kind = tk_kind a; name = tk_text b;
       s1 = (if generic \<and> kind = TK_Fn then s\<lparr>ps_generic_function_names := insert name (ps_generic_function_names s)\<rparr> else s);
       s2 = (if generic \<and> kind \<in> {TK_Type, TK_Record, TK_Variant}
         then s1\<lparr>ps_generic_nominal_names := insert name (ps_generic_nominal_names s1)\<rparr> else s1);
       s3 = (if generic \<and> kind = TK_Record then s2\<lparr>ps_generic_record_names := insert name (ps_generic_record_names s2)\<rparr>
         else if generic \<and> kind = TK_Variant then s2\<lparr>ps_generic_variant_names := insert name (ps_generic_variant_names s2)\<rparr>
         else s2)
     in scan_generic_names (if kind = TK_LBrace then depth + 1 else if kind = TK_RBrace then depth - 1 else depth) (b # c # ts) s3)"
| "scan_generic_names depth _ s = s"

definition parser_of :: "token list \<Rightarrow> parser" where
  "parser_of tokens = scan_generic_names 0 tokens \<lparr>ps_tokens = tokens, ps_current = 0, ps_recursion_depth = 0,
     ps_next_pair_site = 0, ps_next_function_declaration_order = 0, ps_next_type_declaration_order = 0,
     ps_record_names = {}, ps_generic_function_names = {}, ps_generic_nominal_names = {}, ps_generic_record_names = {},
     ps_generic_variant_names = {}, ps_active_type_parameters = [], ps_lambdas = [], ps_allow_record_literal = True,
     ps_diagnostics = []\<rparr>"

definition add_type :: "type_decl \<Rightarrow> program \<Rightarrow> program" where
  "add_type d g = (if td_type_parameters d = [] then g\<lparr>pg_types := pg_types g @ [d]\<rparr>
     else g\<lparr>pg_generic_types := pg_generic_types g @ [d]\<rparr>)"

definition add_record :: "record_decl \<Rightarrow> program \<Rightarrow> program" where
  "add_record d g = (if rd_type_parameters d = [] then g\<lparr>pg_records := pg_records g @ [d]\<rparr>
     else g\<lparr>pg_generic_records := pg_generic_records g @ [d]\<rparr>)"

definition add_variant :: "variant_decl \<Rightarrow> program \<Rightarrow> program" where
  "add_variant d g = (if vd_type_parameters d = [] then g\<lparr>pg_variants := pg_variants g @ [d]\<rparr>
     else g\<lparr>pg_generic_variants := pg_generic_variants g @ [d]\<rparr>)"

definition add_function :: "function_decl \<Rightarrow> program \<Rightarrow> program" where
  "add_function d g = (if fd_type_parameters d = [] then g\<lparr>pg_functions := pg_functions g @ [d]\<rparr>
     else g\<lparr>pg_generic_functions := pg_generic_functions g @ [d]\<rparr>)"

definition starts_declaration :: "parser \<Rightarrow> bool" where
  "starts_declaration s \<longleftrightarrow> tk_kind (peek_token s) \<in> {TK_Type, TK_Record, TK_Variant} \<or>
     check_kind TK_Fn s \<and> check_next TK_Identifier s"

definition parse_declaration :: "parsers \<Rightarrow> program \<Rightarrow> program px" where
  "parse_declaration p g = pbind (pgets peek_token) (\<lambda>t. pthen step_token (
     if tk_kind t = TK_Type then pbind (parse_type_declaration p t) (\<lambda>d. preturn (add_type d g))
     else if tk_kind t = TK_Record then pbind (parse_record_declaration p t) (\<lambda>d. preturn (add_record d g))
     else if tk_kind t = TK_Variant then pbind (parse_variant_declaration p t) (\<lambda>d. preturn (add_variant d g))
     else pbind (parse_function p t) (\<lambda>d. preturn (add_function d g))))"

definition parse_declarations :: "parsers \<Rightarrow> program px" where
  "parse_declarations p = ploop (en_turns p) (\<lambda>g. pbind (pgets starts_declaration) (\<lambda>more.
     if more then pbind (parse_declaration p g) (\<lambda>g'. preturn (Inl g')) else preturn (Inr g))) empty_program"

definition parse_program_body :: "parsers \<Rightarrow> (statement list \<times> expr option) px" where
  "parse_program_body p = ploop (en_turns p) (\<lambda>statements. pbind (pgets at_end) (\<lambda>finished.
     if finished then preturn (Inr (statements, None))
     else pbind (pgets starts_statement) (\<lambda>statement.
       if statement then pbind (en_statement p) (\<lambda>st. case st of
           Some st \<Rightarrow> preturn (Inl (statements @ [st]))
         | None \<Rightarrow> pthen (synchronize (en_turns p)) (preturn (Inl statements)))
       else pbind (en_expression p) (\<lambda>e. preturn (Inr (statements, Some e)))))) []"

definition parse :: "parsers \<Rightarrow> program option px" where
  "parse p = pbind (parse_declarations p) (\<lambda>g. pbind (parse_program_body p) (\<lambda>(statements, result).
     pthen (complain_unless_result result ''program must end with an expression'')
     (pthen (if result = None then preturn None else expect TK_End ''expected end of input after final expression'')
     (pgets (\<lambda>s. if ps_diagnostics s \<noteq> [] then None
       else Some (g\<lparr>pg_statements := statements, pg_result := result, pg_pair_site_count := ps_next_pair_site s,
         pg_lambdas := ps_lambdas s\<rparr>))))))"

definition parse_tokens :: "nat \<Rightarrow> token list \<Rightarrow> (program option \<times> diagnostic list) option" where
  "parse_tokens n tokens = map_option (\<lambda>(g, s). (g, ps_diagnostics s)) (parse (parsers_at n) (parser_of tokens))"

end
