(* ===== verification/FE_Progress.thy ===== *)
theory FE_Progress
  imports FE_Program
begin

text \<open>
  When the parser returns.  A parser that returns below a bound returns the same at every larger one (\<open>below\<close>), so
  \<open>None\<close> says nothing of a program but that the bound is too small for it; and there are programs for which every bound
  is: a block that is stuck (\<open>stuck_in_block\<close>) is never left, because the statement loop of \<open>parse_block\<close> reads no
  token there and \<open>synchronize\<close> reads none after a semicolon.
\<close>

subsection \<open>The bound\<close>

definition below :: "'a px \<Rightarrow> 'a px \<Rightarrow> bool" where
  "below k k' \<longleftrightarrow> (\<forall>s r. k s = Some r \<longrightarrow> k' s = Some r)"

definition parsers_below :: "parsers \<Rightarrow> parsers \<Rightarrow> bool" where
  "parsers_below p p' \<longleftrightarrow> en_turns p \<le> en_turns p' \<and> below (en_type p) (en_type p') \<and>
     below (en_expression p) (en_expression p') \<and> below (en_statement p) (en_statement p')"

named_theorems below_intros

lemma below_refl: "below k k"
  by (simp add: below_def)

lemma below_pbind [below_intros]: "below k k' \<Longrightarrow> (\<And>x. below (f x) (f' x)) \<Longrightarrow> below (pbind k f) (pbind k' f')"
  by (fastforce simp: below_def pbind_def split: option.splits)

lemma below_pthen [below_intros]: "below k k' \<Longrightarrow> below n n' \<Longrightarrow> below (pthen k n) (pthen k' n')"
  by (simp add: pthen_def below_pbind)

lemma below_branches [below_intros]:
  "below k k' \<Longrightarrow> below n n' \<Longrightarrow> below (if b then k else n) (if b then k' else n')"
  "below n n' \<Longrightarrow> (\<And>x. below (f x) (f' x)) \<Longrightarrow> below (case q of None \<Rightarrow> n | Some x \<Rightarrow> f x) (case q of None \<Rightarrow> n' | Some x \<Rightarrow> f' x)"
  "(\<And>x y. below (g x y) (g' x y)) \<Longrightarrow> below (case pr of (x, y) \<Rightarrow> g x y) (case pr of (x, y) \<Rightarrow> g' x y)"
  by (simp_all split: option.split prod.split)

lemma below_pwhen [below_intros]: "below k k' \<Longrightarrow> below (pwhen b k) (pwhen b k')"
  by (simp add: pwhen_def below_refl)

lemma below_ploop [below_intros]: "n \<le> n' \<Longrightarrow> (\<And>x. below (body x) (body' x)) \<Longrightarrow> below (ploop n body x) (ploop n' body' x)"
proof (induction n body x arbitrary: n' rule: ploop.induct)
  case 1
  then show ?case by (simp add: below_def)
next
  case (2 n body x)
  from 2(2) obtain m where m: "n' = Suc m" "n \<le> m" by (cases n') auto
  have "below (case r of Inl x' \<Rightarrow> ploop n body x' | Inr y \<Rightarrow> preturn y) (case r of Inl x' \<Rightarrow> ploop m body' x' | Inr y \<Rightarrow> preturn y)" for r
    using 2(1) m 2(3) by (cases r) (simp_all add: below_refl)
  with m 2(3) show ?case by (auto intro: below_pbind)
qed

lemma below_entries [below_intros]: "parsers_below p p' \<Longrightarrow> below (en_type p) (en_type p')"
  "parsers_below p p' \<Longrightarrow> below (en_expression p) (en_expression p')"
  "parsers_below p p' \<Longrightarrow> below (en_statement p) (en_statement p')" "parsers_below p p' \<Longrightarrow> en_turns p \<le> en_turns p'"
  by (simp_all add: parsers_below_def)

lemma below_loops [below_intros]:
  "n \<le> n' \<Longrightarrow> below k k' \<Longrightarrow> below (comma_list n k) (comma_list n' k')"
  "n \<le> n' \<Longrightarrow> below k k' \<Longrightarrow> below (comma_list_to_brace n k) (comma_list_to_brace n' k')"
  "below k k' \<Longrightarrow> below (unless_kind kind k) (unless_kind kind k')"
  "below l l' \<Longrightarrow> below (one l) (one l')"
  "n \<le> n' \<Longrightarrow> below (synchronize n) (synchronize n')"
  "below l l' \<Longrightarrow> below m m' \<Longrightarrow> below (guarded l m) (guarded l' m')"
  "below l l' \<Longrightarrow> below (without_record_literals b l) (without_record_literals b l')"
  "below l l' \<Longrightarrow> below (with_type_parameters ts l) (with_type_parameters ts l')"
  unfolding comma_list_def comma_list_to_brace_def unless_kind_def one_def synchronize_def guarded_def
    without_record_literals_def with_type_parameters_def
  by ((intro below_intros below_refl | assumption)+)

lemma below_types [below_intros]:
  assumes "parsers_below p p'"
  shows "below (parse_type_arguments p) (parse_type_arguments p')"
    "below (type_pair p a b) (type_pair p' a b)"
    "below (function_type_tail p) (function_type_tail p')"
  unfolding parse_type_arguments_def type_pair_def function_type_tail_def Let_def
  using assms by (intro below_intros below_refl; assumption)+

lemma below_types_after [below_intros]:
  assumes "parsers_below p p'"
  shows "below (identifier_type p t) (identifier_type p' t)"
    "below (type_after p t) (type_after p' t)"
  unfolding identifier_type_def type_after_def Let_def
  using assms by (intro below_intros below_refl; assumption)+

lemma below_parse_type [below_intros]:
  assumes "parsers_below p p'"
  shows "below (parse_type p) (parse_type p')"
  unfolding parse_type_def Let_def
  using assms by (intro below_intros below_refl; assumption)+

lemma below_blocks [below_intros]:
  assumes "parsers_below p p'"
  shows "below (parse_block_turn p x) (parse_block_turn p' x)"
    "below (parse_body p) (parse_body p')"
    "below (arguments_to p a) (arguments_to p' a)"
    "below (parse_lvalue p) (parse_lvalue p')"
  unfolding parse_block_turn_def parse_body_def arguments_to_def parse_lvalue_def Let_def
  using assms by (intro below_intros below_refl; assumption)+

lemma below_block [below_intros]:
  assumes "parsers_below p p'"
  shows "below (parse_block p a) (parse_block p' a)"
  unfolding parse_block_def Let_def
  using assms by (intro below_intros below_refl; assumption)+

lemma below_simple_statements [below_intros]:
  assumes "parsers_below p p'"
  shows "below (parse_let p t) (parse_let p' t)"
    "below (parse_assignment p) (parse_assignment p')"
    "below (parse_print p t) (parse_print p' t)"
    "below (parse_throw p t) (parse_throw p' t)"
    "below (parse_return p t) (parse_return p' t)"
    "below (parse_ephemeron_set p) (parse_ephemeron_set p')"
    "below (parse_builder_mutation p) (parse_builder_mutation p')"
  unfolding parse_let_def parse_assignment_def parse_print_def parse_throw_def parse_return_def parse_ephemeron_set_def parse_builder_mutation_def Let_def
  using assms by (intro below_intros below_refl; assumption)+

lemma below_block_statements [below_intros]:
  assumes "parsers_below p p'"
  shows "below (parse_if p t) (parse_if p' t)"
    "below (parse_while p t b) (parse_while p' t b)"
    "below (parse_for_in p t b) (parse_for_in p' t b)"
    "below (parse_try p t) (parse_try p' t)"
    "below (parse_match_arm p) (parse_match_arm p')"
  unfolding parse_if_def parse_while_def parse_for_in_def parse_try_def parse_match_arm_def Let_def
  using assms by (intro below_intros below_refl; assumption)+

lemma below_compound_statements [below_intros]:
  assumes "parsers_below p p'"
  shows "below (parse_match p t) (parse_match p' t)"
    "below (parse_labeled p) (parse_labeled p')"
  unfolding parse_match_def parse_labeled_def Let_def
  using assms by (intro below_intros below_refl; assumption)+

lemma below_keyword_statement [below_intros]:
  assumes "parsers_below p p'"
  shows "below (keyword_statement p t) (keyword_statement p' t)"
  unfolding keyword_statement_def Let_def
  using assms by (intro below_intros below_refl; assumption)+

lemma below_parse_statement [below_intros]:
  assumes "parsers_below p p'"
  shows "below (parse_statement p) (parse_statement p')"
  unfolding parse_statement_def Let_def
  using assms by (intro below_intros below_refl; assumption)+

lemma below_operands [below_intros]:
  assumes "parsers_below p p'"
  shows "below (method_arguments p a b) (method_arguments p' a b)"
    "below (parse_parameter p a b) (parse_parameter p' a b)"
    "below (operand_in p a b) (operand_in p' a b)"
    "below (operands_in p a b c) (operands_in p' a b c)"
    "below (record_fields p) (record_fields p')"
  unfolding method_arguments_def parse_parameter_def operand_in_def operands_in_def record_fields_def Let_def
  using assms by (intro below_intros below_refl; assumption)+

lemma below_binary_level [below_intros]:
  "parsers_below p p' \<Longrightarrow> below k k' \<Longrightarrow> below (binary_level p operators k) (binary_level p' operators k')"
  unfolding binary_level_def by (intro below_intros below_refl; assumption)

lemma below_postfix [below_intros]:
  assumes "parsers_below p p'"
  shows "below (parse_member p e) (parse_member p' e)"
    "below (parse_generic_call p e) (parse_generic_call p' e)"
  unfolding parse_member_def parse_generic_call_def Let_def
  using assms by (intro below_intros below_refl; assumption)+

lemma below_postfix_step [below_intros]:
  assumes "parsers_below p p'"
  shows "below (parse_postfix_step p e) (parse_postfix_step p' e)"
  unfolding parse_postfix_step_def Let_def
  using assms by (intro below_intros below_refl; assumption)+

lemma below_primary_forms [below_intros]:
  assumes "parsers_below p p'"
  shows "below (parse_lambda p t) (parse_lambda p' t)"
    "below (parse_name p t) (parse_name p' t)"
    "below (parse_pair p t) (parse_pair p' t)"
    "below (parse_sized_array p t) (parse_sized_array p' t)"
    "below (parse_empty_map p t) (parse_empty_map p' t)"
  unfolding parse_lambda_def parse_name_def parse_pair_def parse_sized_array_def parse_empty_map_def Let_def
  using assms by (intro below_intros below_refl; assumption)+

lemma below_primary_after [below_intros]:
  assumes "parsers_below p p'"
  shows "below (primary_after p t) (primary_after p' t)"
  unfolding primary_after_def Let_def
  using assms by (intro below_intros below_refl; assumption)+

lemma below_primary [below_intros]:
  assumes "parsers_below p p'"
  shows "below (parse_primary p) (parse_primary p')"
  unfolding parse_primary_def Let_def
  using assms by (intro below_intros below_refl; assumption)+

lemma below_parse_postfix [below_intros]:
  assumes "parsers_below p p'"
  shows "below (parse_postfix p) (parse_postfix p')"
  unfolding parse_postfix_def Let_def
  using assms by (intro below_intros below_refl; assumption)+

lemma below_addition [below_intros]:
  assumes "parsers_below p p'"
  shows "below (parse_addition p) (parse_addition p')"
  unfolding parse_addition_def Let_def
  using assms by (intro below_intros below_refl; assumption)+

lemma below_comparison [below_intros]:
  assumes "parsers_below p p'"
  shows "below (parse_comparison p) (parse_comparison p')"
  unfolding parse_comparison_def Let_def
  using assms by (intro below_intros below_refl; assumption)+

lemma below_equality [below_intros]:
  assumes "parsers_below p p'"
  shows "below (parse_equality p) (parse_equality p')"
  unfolding parse_equality_def Let_def
  using assms by (intro below_intros below_refl; assumption)+

lemma below_parse_expression [below_intros]:
  assumes "parsers_below p p'"
  shows "below (parse_expression p) (parse_expression p')"
  unfolding parse_expression_def Let_def
  using assms by (intro below_intros below_refl; assumption)+

lemma below_type_parameters [below_intros]:
  assumes "parsers_below p p'"
  shows "below (type_parameter_list p a) (type_parameter_list p' a)"
  unfolding type_parameter_list_def Let_def
  using assms by (intro below_intros below_refl; assumption)+

lemma below_optional_type_parameters [below_intros]:
  assumes "parsers_below p p'"
  shows "below (parse_type_parameters p a) (parse_type_parameters p' a)"
  unfolding parse_type_parameters_def Let_def
  using assms by (intro below_intros below_refl; assumption)+

lemma below_declarations [below_intros]:
  assumes "parsers_below p p'"
  shows "below (parse_type_declaration p t) (parse_type_declaration p' t)"
    "below (parse_record_declaration p t) (parse_record_declaration p' t)"
    "below (parse_variant_declaration p t) (parse_variant_declaration p' t)"
    "below (parse_function p t) (parse_function p' t)"
  unfolding parse_type_declaration_def parse_record_declaration_def parse_variant_declaration_def parse_function_def Let_def
  using assms by (intro below_intros below_refl; assumption)+

lemma below_declaration [below_intros]:
  assumes "parsers_below p p'"
  shows "below (parse_declaration p g) (parse_declaration p' g)"
  unfolding parse_declaration_def Let_def
  using assms by (intro below_intros below_refl; assumption)+

lemma below_programs [below_intros]:
  assumes "parsers_below p p'"
  shows "below (parse_declarations p) (parse_declarations p')"
    "below (parse_program_body p) (parse_program_body p')"
  unfolding parse_declarations_def parse_program_body_def Let_def
  using assms by (intro below_intros below_refl; assumption)+

lemma below_parse [below_intros]:
  assumes "parsers_below p p'"
  shows "below (parse p) (parse p')"
  unfolding parse_def Let_def
  using assms by (intro below_intros below_refl; assumption)+

lemma parsers_at_below: "n \<le> m \<Longrightarrow> parsers_below (parsers_at n) (parsers_at m)"
proof (induction n arbitrary: m)
  case 0
  then show ?case by (simp add: parsers_below_def parsers_at_def below_def)
next
  case (Suc n)
  then obtain k where k: "m = Suc k" "n \<le> k" by (cases m) auto
  have entries: "en_type (parsers_at (Suc i)) = parse_type (parsers_at i)"
    "en_expression (parsers_at (Suc i)) = parse_expression (parsers_at i)"
    "en_statement (parsers_at (Suc i)) = parse_statement (parsers_at i)" for i
    by (simp_all add: parsers_at_def fun_eq_iff)
  from Suc.IH [OF k(2)] k show ?case
    by (simp add: parsers_below_def [of "parsers_at (Suc n)"] entries below_intros) (simp add: parsers_at_def)
qed

text \<open>
  The bound of the model is not one of the code: a token list that is parsed under one bound is parsed to the same
  program and the same diagnostics under every larger bound.
\<close>

lemma larger_parse_bound:
  assumes "parse_tokens n tokens = Some r" "n \<le> m"
  shows "parse_tokens m tokens = Some r"
proof -
  have "below (parse (parsers_at n)) (parse (parsers_at m))" by (intro below_intros parsers_at_below assms)
  with assms(1) show ?thesis by (auto simp: parse_tokens_def below_def)
qed

subsection \<open>A block that is never left\<close>

lemmas ahead_defs = label_prefix_ahead_def assignment_ahead_def ephemeron_set_ahead_def builder_mutation_ahead_def method_ahead_def
  has_ahead_def ahead_def check_kind_def peek_token_def previous_token_def at_end_def

definition stuck_in_block :: "parser \<Rightarrow> bool" where
  "stuck_in_block s \<longleftrightarrow> ps_recursion_depth s < kMaxRecursionDepth \<and> ps_current s > 0 \<and>
     tk_kind (previous_token s) = TK_Semicolon \<and> tk_kind (peek_token s) \<notin> {TK_RBrace, TK_End} \<and> \<not> starts_statement s"

text \<open>What is ahead depends on the tokens and the position only.\<close>

lemma ahead_update [simp]:
  "peek_token (ps_recursion_depth_update f s) = peek_token s" "peek_token (ps_diagnostics_update g s) = peek_token s"
  "previous_token (ps_recursion_depth_update f s) = previous_token s" "previous_token (ps_diagnostics_update g s) = previous_token s"
  "label_prefix_ahead (ps_recursion_depth_update f s) = label_prefix_ahead s" "label_prefix_ahead (ps_diagnostics_update g s) = label_prefix_ahead s"
  "ephemeron_set_ahead (ps_recursion_depth_update f s) = ephemeron_set_ahead s" "ephemeron_set_ahead (ps_diagnostics_update g s) = ephemeron_set_ahead s"
  "builder_mutation_ahead (ps_recursion_depth_update f s) = builder_mutation_ahead s"
  "builder_mutation_ahead (ps_diagnostics_update g s) = builder_mutation_ahead s"
  "assignment_ahead (ps_recursion_depth_update f s) = assignment_ahead s" "assignment_ahead (ps_diagnostics_update g s) = assignment_ahead s"
  by (simp_all add: ahead_defs)

lemma stuck_statement:
  assumes "stuck_in_block s"
  shows "parse_statement p s = Some (None, s\<lparr>ps_diagnostics := add_diagnostic (tk_position (peek_token s)) ''expected statement''
    (ps_diagnostics s)\<rparr>)"
  using assms by (simp add: parse_statement_def guarded_def match_any_def complain_def complain_at_def px_defs stuck_in_block_def
    starts_statement_def)

lemma stuck_complaint: "stuck_in_block (s\<lparr>ps_diagnostics := d\<rparr>) = stuck_in_block s"
  by (simp add: stuck_in_block_def starts_statement_def)

lemma stuck_synchronize:
  assumes "stuck_in_block s"
  shows "synchronize n s = (if n = 0 then None else Some ((), s))"
  using assms by (cases n) (simp_all add: synchronize_def px_defs synchronized_def stuck_in_block_def)

theorem stuck_block_never_returns:
  assumes "stuck_in_block s"
  shows "ploop n (parse_block_turn (parsers_at m)) statements s = None"
  using assms
proof (induction n arbitrary: s)
  case 0
  then show ?case by simp
next
  case (Suc n)
  have unclosed: "\<not> (check_kind TK_RBrace s \<or> check_kind TK_End s)"
    using Suc.prems by (simp add: stuck_in_block_def check_kind_def)
  show ?case
  proof (cases m)
    case 0
    with unclosed show ?thesis by (simp add: parse_block_turn_def parsers_at_def px_defs)
  next
    case (Suc k)
    let ?s = "s\<lparr>ps_diagnostics := add_diagnostic (tk_position (peek_token s)) ''expected statement'' (ps_diagnostics s)\<rparr>"
    have stuck: "stuck_in_block ?s" using Suc.prems by (simp add: stuck_complaint)
    have "en_statement (parsers_at m) s = Some (None, ?s)"
      using Suc stuck_statement [OF Suc.prems] by (simp add: parsers_at_def)
    with unclosed Suc.IH [OF stuck] stuck_synchronize [OF stuck] show ?thesis by (simp add: parse_block_turn_def px_defs)
  qed
qed

text \<open>A block that ends with an expression, where only statements are read.\<close>

definition stuck_source :: string where
  "stuck_source = ''if true { let a: i64 = 1; a } else { 2 } 3''"

definition stuck_tokens :: "token list" where "stuck_tokens = lr_tokens (lex_source stuck_source)"

definition stuck_parser :: "nat \<Rightarrow> nat \<Rightarrow> parser" where
  "stuck_parser i depth = (parser_of stuck_tokens)\<lparr>ps_current := i, ps_recursion_depth := depth\<rparr>"

lemma stuck_condition: "\<exists>e. parse_expression_at 9 (stuck_parser 1 1) = Some (e, stuck_parser 2 1)"
proof -
  have "map_option snd (parse_expression_at 9 (stuck_parser 1 1)) = Some (stuck_parser 2 1)" by code_simp
  then show ?thesis by auto
qed

lemma stuck_first_statement: "\<exists>st. parse_statement_at 9 (stuck_parser 3 1) = Some (Some st, stuck_parser 10 1)"
proof -
  have "map_option (\<lambda>(st, s). (st \<noteq> None, s)) (parse_statement_at 9 (stuck_parser 3 1)) = Some (True, stuck_parser 10 1)" by code_simp
  then show ?thesis by auto
qed

lemma stuck_state: "stuck_in_block (stuck_parser 10 1)"
  by code_simp

lemma stuck_kinds:
  "tk_kind (stuck_tokens ! 0) = TK_If" "tk_kind (stuck_tokens ! 2) = TK_LBrace" "tk_kind (stuck_tokens ! 3) = TK_Let"
  "tk_kind (stuck_tokens ! 1) = TK_True" "ps_tokens (parser_of stuck_tokens) = stuck_tokens"
  "\<not> starts_declaration (stuck_parser 0 0)"
  by code_simp+

lemma stuck_start: "parser_of stuck_tokens = stuck_parser 0 0"
  by code_simp

lemma stuck_parser_update [simp]:
  "stuck_parser i d\<lparr>ps_current := j\<rparr> = stuck_parser j d" "stuck_parser i d\<lparr>ps_recursion_depth := e\<rparr> = stuck_parser i e"
  "ps_current (stuck_parser i d) = i" "ps_recursion_depth (stuck_parser i d) = d" "peek_token (stuck_parser i d) = stuck_tokens ! i"
  by (simp_all add: stuck_parser_def peek_token_def stuck_kinds)

lemma stuck_tokens_nth [simp]: "ps_tokens (stuck_parser i d) = stuck_tokens"
  by (simp add: stuck_parser_def stuck_kinds)

lemma parsers_at_entries:
  "en_turns (parsers_at n) = n" "en_type (parsers_at n) = parse_type_at n" "en_expression (parsers_at n) = parse_expression_at n"
  "en_statement (parsers_at n) = parse_statement_at n" "parse_statement_at (Suc n) s = parse_statement (parsers_at n) s"
  by (simp_all add: parsers_at_def)

lemma stuck_block:
  assumes "9 \<le> n"
  shows "parse_block (parsers_at n) message (stuck_parser 2 1) = None"
proof -
  obtain st where st: "parse_statement_at 9 (stuck_parser 3 1) = Some (Some st, stuck_parser 10 1)" using stuck_first_statement by blast
  have "parse_statement_at n (stuck_parser 3 1) = Some (Some st, stuck_parser 10 1)"
    using parsers_at_below [OF assms] st by (simp add: parsers_below_def parsers_at_entries below_def)
  moreover obtain k where "n = Suc k" using assms by (cases n) auto
  ultimately have "ploop n (parse_block_turn (parsers_at n)) [] (stuck_parser 3 1) = None"
    using stuck_block_never_returns [OF stuck_state, of k n "[st]"]
    by (simp add: parse_block_turn_def [of _ "[]"] parsers_at_entries px_defs check_kind_def stuck_kinds)
  then show ?thesis
    by (simp add: parse_block_def expect_def match_kind_def step_token_def px_defs check_kind_def stuck_kinds parsers_at_entries)
qed

lemma stuck_if: "parse_statement_at n (stuck_parser 0 0) = None"
proof -
  define k where "k = n + 9"
  then have k: "9 \<le> k" by simp
  obtain e where e: "parse_expression_at 9 (stuck_parser 1 1) = Some (e, stuck_parser 2 1)" using stuck_condition by blast
  have "parse_expression_at k (stuck_parser 1 1) = Some (e, stuck_parser 2 1)"
    using parsers_at_below [OF k] e by (simp add: parsers_below_def parsers_at_entries below_def)
  with stuck_block [OF k] have "parse_if (parsers_at k) t (stuck_parser 1 1) = None" for t
    by (simp add: parse_if_def parsers_at_entries px_defs)
  then have "parse_statement_at (Suc k) (stuck_parser 0 0) = None"
    by (simp del: parse_statement_at.simps add: parsers_at_entries parse_statement_def guarded_def match_any_def px_defs stuck_kinds statement_kinds_def step_token_def
      label_prefix_ahead_def check_kind_def keyword_statement_def kMaxRecursionDepth_def previous_token_def stuck_tokens_nth)
  moreover have "n \<le> Suc k" by (simp add: k_def)
  from parsers_at_below [OF this] have "below (parse_statement_at n) (parse_statement_at (Suc k))"
    by (simp add: parsers_below_def parsers_at_def)
  ultimately show ?thesis by (cases "parse_statement_at n (stuck_parser 0 0)") (auto simp: below_def)
qed

text \<open>
  C39.  The parser need not return: for a program whose block ends with an expression after a semicolon,
  \<open>if true { let a: i64 = 1; a } else { 2 } 3\<close>, no bound on the depth and the loop turns is large enough.  The block loop
  of \<open>parse_block\<close> complains about the expression, \<open>synchronize\<close> stops at once behind the semicolon, and the loop goes on
  at the same token for ever.
\<close>

theorem parser_may_not_return: "parse_tokens n (lr_tokens (lex_source stuck_source)) = None"
proof -
  have "below (parse_program_body (parsers_at n)) (parse_program_body (parsers_at (Suc n)))"
    by (intro below_intros parsers_at_below) simp
  moreover have "parse_program_body (parsers_at (Suc n)) (stuck_parser 0 0) = None"
    using stuck_if [of "Suc n"]
    by (simp del: parse_statement_at.simps add: parse_program_body_def parsers_at_entries px_defs at_end_def check_kind_def stuck_kinds starts_statement_def
      statement_kinds_def)
  ultimately have body: "parse_program_body (parsers_at n) (stuck_parser 0 0) = None"
    by (cases "parse_program_body (parsers_at n) (stuck_parser 0 0)") (auto simp: below_def)
  have declarations: "parse_declarations (parsers_at n) (stuck_parser 0 0) = (if n = 0 then None else Some (empty_program, stuck_parser 0 0))"
    by (cases n) (simp_all add: parse_declarations_def parsers_at_entries px_defs stuck_kinds)
  from body declarations show ?thesis
    by (simp add: parse_tokens_def stuck_tokens_def [symmetric] stuck_start parse_def pbind_def)
qed

end
