(* ===== verification/FE_Tokens.thy ===== *)
theory FE_Tokens
  imports FE_Lexer
begin

text \<open>
  The lexer reads back what was written: a token's kind, text and integer are a lexeme, \<open>spelling\<close> is what is
  written for it, and a text that is a list of lexemes with white space between them is read as that list.
\<close>

subsection \<open>Reading what was written\<close>

definition stops :: "(char \<Rightarrow> bool) \<Rightarrow> string \<Rightarrow> bool" where
  "stops P rest \<longleftrightarrow> rest = [] \<or> \<not> P (hd rest)"

lemma advance_fields [simp]:
  "lx_diagnostics (advance s) = lx_diagnostics s"
  "lx_rest s \<noteq> [] \<Longrightarrow> lx_offset (advance s) = lx_offset s + 1"
  by (simp_all add: advance_def)

lemma advance_while_over:
  assumes "lx_rest s = word @ rest" "list_all P word" "stops P rest"
  shows "lx_rest (advance_while P s) = rest \<and> lx_offset (advance_while P s) = lx_offset s + length word \<and>
    lx_diagnostics (advance_while P s) = lx_diagnostics s"
  using assms(1,2)
proof (induction word arbitrary: s)
  case Nil
  then show ?case using assms(3) by (subst (1 2 3) advance_while.simps) (auto simp: stops_def)
next
  case (Cons c word)
  have "lx_rest (advance s) = word @ rest" using Cons.prems(1) by simp
  note IH = Cons.IH [OF this]
  have "advance_while P s = advance_while P (advance s)"
    using Cons.prems by (subst advance_while.simps) simp
  with IH Cons.prems show ?case by simp
qed

lemma text_since_over: "lx_rest s = text @ rest \<Longrightarrow> lx_offset s' = lx_offset s + length text \<Longrightarrow> text_since s s' = text"
  by (simp add: text_since_def)

lemma not_space [simp]: "is_identifier_start c \<Longrightarrow> \<not> is_space c" "is_digit c \<Longrightarrow> \<not> is_space c"
  by (auto simp: is_identifier_start_def is_alpha_def is_space_def is_digit_def char_code_def)

text \<open>White space before a token, and none.\<close>

lemma skip_ignored_gap:
  assumes rest: "lx_rest s = gap @ rest" and gap: "list_all is_space gap"
    and stop: "rest = [] \<or> \<not> is_space (hd rest) \<and> hd rest \<noteq> CHR ''/''"
  shows "lx_rest (skip_ignored s) = rest \<and> lx_diagnostics (skip_ignored s) = lx_diagnostics s"
proof -
  have once: "lx_rest (skip_once s) = rest \<and> lx_diagnostics (skip_once s) = lx_diagnostics s"
    if "lx_rest s = gap @ rest" "list_all is_space gap" for s gap
  proof -
    have "stops is_space rest" using stop by (auto simp: stops_def)
    note over = advance_while_over [OF that this]
    have "\<not> comment_ahead (advance_while is_space s)"
      using over stop by (cases rest) (auto simp: comment_ahead_def)
    with over show ?thesis by (simp add: skip_once_def Let_def)
  qed
  have none: "skip_ignored s = s" if "lx_rest s = []" for s
    using that by (subst skip_ignored.simps) simp
  have again: "lx_rest (skip_ignored s) = rest \<and> lx_diagnostics (skip_ignored s) = lx_diagnostics s" if "lx_rest s = rest" for s
  proof (cases "rest = []")
    case True
    with none that show ?thesis by simp
  next
    case False
    with that once [of s "[]"] show ?thesis by (subst (1 2) skip_ignored.simps) (simp add: Let_def)
  qed
  show ?thesis
  proof (cases "lx_rest s = []")
    case True
    with none rest show ?thesis by simp
  next
    case False
    note o = once [OF rest gap]
    show ?thesis
    proof (cases "length (lx_rest (skip_once s)) < length (lx_rest s)")
      case True
      with False o again [of "skip_once s"] show ?thesis by (subst (1 2) skip_ignored.simps) (simp add: Let_def)
    next
      case f: False
      with False o show ?thesis by (subst (1 2) skip_ignored.simps) (simp add: Let_def)
    qed
  qed
qed

text \<open>
  A lexeme is the kind, text and integer of a token; \<open>spelling\<close> is what is written for it, a string literal
  with its escapes, and \<open>ends_at\<close> says that what follows does not continue it.
\<close>

type_synonym lexeme = "token_kind \<times> string \<times> i64"

definition lexeme_of :: "token \<Rightarrow> lexeme" where
  "lexeme_of t = (tk_kind t, tk_text t, tk_integer t)"

definition escaped :: "char \<Rightarrow> string" where
  "escaped c = (if c = newline then [CHR 0x5C, CHR ''n''] else if c = CHR 0x09 then [CHR 0x5C, CHR ''t'']
     else if c = CHR 0x5C then [CHR 0x5C, CHR 0x5C] else if c = CHR 0x22 then [CHR 0x5C, CHR 0x22] else [c])"

definition spelling :: "lexeme \<Rightarrow> string" where
  "spelling = (\<lambda>(kind, text, n). if kind = TK_String then [CHR 0x22] @ concat (map escaped text) @ [CHR 0x22] else text)"

definition integer_text :: "string \<Rightarrow> bool" where
  "integer_text text \<longleftrightarrow> (let digits = (if text \<noteq> [] \<and> hd text = CHR ''-'' then tl text else text) in
     digits \<noteq> [] \<and> list_all is_digit digits)"

definition word_text :: "string \<Rightarrow> bool" where
  "word_text text \<longleftrightarrow> text \<noteq> [] \<and> is_identifier_start (hd text) \<and> list_all is_identifier_continue text"

definition symbol_kinds :: "(string \<times> token_kind) list" where
  "symbol_kinds = two_char_kinds @ one_char_kinds"

definition valid_lexeme :: "lexeme \<Rightarrow> bool" where
  "valid_lexeme = (\<lambda>(kind, text, n).
     if kind = TK_String then n = 0
     else if kind = TK_Integer then integer_text text \<and> from_chars_i64 text = Some n
     else n = 0 \<and> (if word_text text then kind = (case map_of keyword_kinds text of Some k \<Rightarrow> k | None \<Rightarrow> TK_Identifier)
       else (text, kind) \<in> set symbol_kinds))"

definition ends_at :: "lexeme \<Rightarrow> string \<Rightarrow> bool" where
  "ends_at = (\<lambda>(kind, text, n) rest.
     if kind = TK_String then True
     else if kind = TK_Integer then stops is_digit rest
     else if word_text text then stops is_identifier_continue rest
     else length text = 2 \<or> rest = [] \<or> map_of two_char_kinds (text @ [hd rest]) = None)"

lemma escaped_cases:
  "escaped c = [c] \<and> c \<noteq> CHR 0x22 \<and> c \<noteq> CHR 0x5C \<or> (\<exists>e. escaped c = [CHR 0x5C, e] \<and> escape_of e = Some c)"
  by (cases "c = newline"; cases "c = CHR 0x09"; cases "c = CHR 0x5C"; cases "c = CHR 0x22";
      simp add: escaped_def escape_of_def newline_def)

lemma string_body_over:
  assumes "lx_rest s = concat (map escaped word) @ CHR 0x22 # rest"
  shows "\<exists>s'. string_body s decoded = (True, decoded @ word, s') \<and> lx_rest s' = rest \<and> lx_diagnostics s' = lx_diagnostics s"
  using assms
proof (induction word arbitrary: s decoded)
  case Nil
  then show ?case by (subst string_body.simps) (simp add: Let_def)
next
  case (Cons c word)
  consider (raw) "escaped c = [c]" "c \<noteq> CHR 0x22" "c \<noteq> CHR 0x5C" | (esc) e where "escaped c = [CHR 0x5C, e]" "escape_of e = Some c"
    using escaped_cases [of c] by blast
  then show ?case
  proof cases
    case raw
    have "lx_rest (advance s) = concat (map escaped word) @ CHR 0x22 # rest" using Cons.prems raw by simp
    from Cons.IH [OF this, of "decoded @ [c]"] Cons.prems raw show ?thesis
      by (subst string_body.simps) (simp add: Let_def)
  next
    case esc
    have "lx_rest (advance (advance s)) = concat (map escaped word) @ CHR 0x22 # rest" using Cons.prems esc by simp
    from Cons.IH [OF this, of "decoded @ [c]"] Cons.prems esc show ?thesis
      by (subst string_body.simps) (simp add: Let_def)
  qed
qed

lemma not_quote [simp]: "is_identifier_start c \<Longrightarrow> c \<noteq> CHR 0x22" "is_digit c \<Longrightarrow> c \<noteq> CHR 0x22"
  "is_digit c \<Longrightarrow> \<not> is_identifier_start c" "\<not> is_identifier_start (CHR 0x22)" "\<not> is_identifier_start (CHR ''-'')"
  "\<not> is_digit (CHR 0x22)"
  by (auto simp: is_identifier_start_def is_alpha_def is_digit_def char_code_def)

lemma two_char_kinds_head: "map_of two_char_kinds [c, d] = Some k \<Longrightarrow> c \<in> set ''-=!<>.'' \<and> d \<in> set ''>=.''"
  by (auto simp: two_char_kinds_def split: if_splits)

lemma not_digit_head: "c \<in> set ''-=!<>.'' \<Longrightarrow> \<not> is_digit c"
  by (auto simp: is_digit_def char_code_def)

lemma two_char_kinds_digit: "is_digit d \<Longrightarrow> map_of two_char_kinds [c, d] = None" "is_digit c \<Longrightarrow> map_of two_char_kinds [c, d] = None"
  using two_char_kinds_head [of c d] not_digit_head [of c] not_digit_head [of d]
  by (cases "map_of two_char_kinds [c, d]"; fastforce)+

lemma next_word:
  assumes s: "lx_rest s = word @ rest" and w: "word_text word" "stops is_identifier_continue rest"
  shows "\<exists>t s'. next_token s = (Some t, s') \<and> lx_rest s' = rest \<and> lx_diagnostics s' = lx_diagnostics s \<and>
    lexeme_of t = (case map_of keyword_kinds word of Some k \<Rightarrow> k | None \<Rightarrow> TK_Identifier, word, 0)"
proof -
  have "list_all is_identifier_continue word" using w(1) by (simp add: word_text_def)
  from advance_while_over [OF s this w(2)] s w(1) show ?thesis
    by (auto simp: next_token_def identifier_token_def Let_def text_since_over word_text_def lexeme_of_def simple_token_def)
qed

lemma next_string:
  assumes s: "lx_rest s = spelling (TK_String, word, 0) @ rest"
  shows "\<exists>t s'. next_token s = (Some t, s') \<and> lx_rest s' = rest \<and> lx_diagnostics s' = lx_diagnostics s \<and>
    lexeme_of t = (TK_String, word, 0)"
proof -
  have "lx_rest (advance s) = concat (map escaped word) @ CHR 0x22 # rest" using s by (simp add: spelling_def)
  from string_body_over [OF this, of "[]"] s show ?thesis
    by (auto simp: next_token_def string_literal_def Let_def spelling_def lexeme_of_def simple_token_def)
qed

lemma next_integer:
  assumes s: "lx_rest s = word @ rest" and w: "integer_text word" "from_chars_i64 word = Some n" "stops is_digit rest"
  shows "\<exists>t s'. next_token s = (Some t, s') \<and> lx_rest s' = rest \<and> lx_diagnostics s' = lx_diagnostics s \<and>
    lexeme_of t = (TK_Integer, word, n)"
proof (cases "hd word = CHR ''-''")
  case True
  with w(1) obtain d ds where word: "word = CHR ''-'' # d # ds" "is_digit d" "list_all is_digit (d # ds)"
    by (cases word; cases "tl word") (auto simp: integer_text_def Let_def)
  have "lx_rest (advance s) = (d # ds) @ rest" using s word by simp
  from advance_while_over [OF this word(3) w(3)] s word w(2) show ?thesis
    by (simp add: next_token_def starts_integer_def integer_token_def Let_def text_since_def two_char_kinds_digit lexeme_of_def)
next
  case False
  with w(1) obtain d ds where word: "word = d # ds" "is_digit d" "list_all is_digit (d # ds)"
    by (cases word) (auto simp: integer_text_def Let_def split: if_splits)
  have "lx_rest s = (d # ds) @ rest" using s word by simp
  from advance_while_over [OF this word(3) w(3)] s word w(2) False
  have "integer_token s = (\<lparr>tk_kind = TK_Integer, tk_position = lexer_position s, tk_text = word, tk_integer = n\<rparr>, advance_while is_digit s)"
    by (simp add: integer_token_def Let_def text_since_def)
  moreover have "next_token s = (case integer_token s of (t, s') \<Rightarrow> (Some t, s'))"
    using s word two_char_kinds_digit(2) [OF word(2)]
    by (cases "ds @ rest") (simp_all add: next_token_def starts_integer_def Let_def)
  ultimately show ?thesis
    using advance_while_over [OF s [unfolded word(1)] word(3) w(3)] by (simp add: lexeme_of_def)
qed

lemma symbol_head:
  "(word, kind) \<in> set symbol_kinds \<Longrightarrow> \<not> is_identifier_start (hd word) \<and> hd word \<noteq> CHR 0x22 \<and> \<not> is_space (hd word) \<and>
     hd word \<noteq> CHR ''/'' \<and> \<not> is_digit (hd word)"
  by (auto simp: symbol_kinds_def two_char_kinds_def one_char_kinds_def is_identifier_start_def is_alpha_def is_space_def
    is_digit_def char_code_def)

lemma symbol_kinds_found:
  "list_all (\<lambda>(word, kind). length word = 2 \<and> map_of two_char_kinds word = Some kind \<or>
     length word = 1 \<and> map_of one_char_kinds word = Some kind \<and> word \<noteq> ''-'') symbol_kinds"
  by code_simp

lemma next_symbol:
  assumes s: "lx_rest s = word @ rest" and w: "(word, kind) \<in> set symbol_kinds"
    and stop: "length word = 2 \<or> rest = [] \<or> map_of two_char_kinds (word @ [hd rest]) = None"
  shows "\<exists>t s'. next_token s = (Some t, s') \<and> lx_rest s' = rest \<and> lx_diagnostics s' = lx_diagnostics s \<and>
    lexeme_of t = (kind, word, 0)"
proof -
  note head = symbol_head [OF w]
  consider (two) c d where "word = [c, d]" "map_of two_char_kinds [c, d] = Some kind"
    | (one) c where "word = [c]" "map_of one_char_kinds [c] = Some kind" "c \<noteq> CHR ''-''"
  proof -
    from w symbol_kinds_found have "length word = 2 \<and> map_of two_char_kinds word = Some kind \<or>
      length word = 1 \<and> map_of one_char_kinds word = Some kind \<and> word \<noteq> ''-''" by (auto simp: list_all_iff)
    then show ?thesis using that by (auto simp: length_Suc_conv numeral_2_eq_2)
  qed
  then show ?thesis
  proof cases
    case two
    with s head show ?thesis by (simp add: next_token_def lexeme_of_def simple_token_def)
  next
    case one
    have "rest \<noteq> [] \<Longrightarrow> map_of two_char_kinds (c # take (Suc 0) rest) = None"
      using one stop by (cases rest) simp_all
    moreover have "\<not> starts_integer (lx_rest s)" using s one head by (simp add: starts_integer_def)
    ultimately show ?thesis using s one head
      by (cases "rest = []") (simp_all add: next_token_def Let_def lexeme_of_def simple_token_def less_Suc_eq_le [symmetric] Suc_le_eq)
  qed
qed

lemma next_lexeme:
  assumes s: "lx_rest s = spelling l @ rest" and valid: "valid_lexeme l" and ends: "ends_at l rest"
  shows "\<exists>t s'. next_token s = (Some t, s') \<and> lx_rest s' = rest \<and> lx_diagnostics s' = lx_diagnostics s \<and> lexeme_of t = l"
proof -
  obtain kind word n where l: "l = (kind, word, n)" by (cases l)
  consider "kind = TK_String" | "kind = TK_Integer" | (word) "kind \<noteq> TK_String" "kind \<noteq> TK_Integer" "word_text word"
    | (symbol) "kind \<noteq> TK_String" "kind \<noteq> TK_Integer" "\<not> word_text word" by blast
  then show ?thesis
  proof cases
    case 1
    with valid l have "n = 0" by (simp add: valid_lexeme_def)
    with next_string [of s word rest] s 1 l show ?thesis by simp
  next
    case 2
    with next_integer [of s word rest n] s valid ends l show ?thesis by (simp add: valid_lexeme_def ends_at_def spelling_def)
  next
    case word
    with next_word [of s word rest] s valid ends l show ?thesis by (simp add: valid_lexeme_def ends_at_def spelling_def)
  next
    case symbol
    with next_symbol [of s word rest kind] s valid ends l show ?thesis by (simp add: valid_lexeme_def ends_at_def spelling_def)
  qed
qed

lemma spelling_head:
  assumes "valid_lexeme l"
  shows "spelling l \<noteq> [] \<and> \<not> is_space (hd (spelling l)) \<and> hd (spelling l) \<noteq> CHR ''/''"
proof -
  obtain kind word n where l: "l = (kind, word, n)" by (cases l)
  have slash: "\<not> is_identifier_start (CHR ''/'')" "\<not> is_digit (CHR ''/'')" "\<not> is_space (CHR 0x22)" "\<not> is_space (CHR ''-'')"
    by (simp_all add: is_identifier_start_def is_alpha_def is_digit_def is_space_def char_code_def)
  consider "kind = TK_String" | (int) "kind = TK_Integer" | (word) "kind \<noteq> TK_String" "kind \<noteq> TK_Integer" "word_text word"
    | (symbol) "kind \<noteq> TK_String" "kind \<noteq> TK_Integer" "\<not> word_text word" by blast
  then show ?thesis
  proof cases
    case 1
    with l slash show ?thesis by (simp add: spelling_def)
  next
    case int
    with assms l have "integer_text word" by (simp add: valid_lexeme_def)
    then have "word \<noteq> [] \<and> (hd word = CHR ''-'' \<or> is_digit (hd word))"
      by (cases word) (auto simp: integer_text_def Let_def split: if_splits)
    with int l slash show ?thesis by (auto simp: spelling_def)
  next
    case word
    with l slash show ?thesis by (auto simp: spelling_def word_text_def)
  next
    case symbol
    with assms l have "(word, kind) \<in> set symbol_kinds" by (simp add: valid_lexeme_def)
    moreover from this have "word \<noteq> []" by (auto simp: symbol_kinds_def two_char_kinds_def one_char_kinds_def)
    ultimately show ?thesis using symbol_head [of word kind] symbol l by (simp add: spelling_def)
  qed
qed

text \<open>One turn of the lexer: a gap of white space, then a lexeme.\<close>

lemma lex_tokens_lexeme:
  assumes s: "lx_rest s = gap @ spelling l @ rest" and gap: "list_all is_space gap"
    and valid: "valid_lexeme l" and ends: "ends_at l rest"
  shows "\<exists>t s'. lex_tokens s = (t # fst (lex_tokens s'), snd (lex_tokens s')) \<and> lexeme_of t = l \<and>
    lx_rest s' = rest \<and> lx_diagnostics s' = lx_diagnostics s"
proof -
  note head = spelling_head [OF valid]
  have "lx_rest (skip_ignored s) = spelling l @ rest \<and> lx_diagnostics (skip_ignored s) = lx_diagnostics s"
    by (rule skip_ignored_gap [OF s gap]) (use head in simp)
  moreover from this next_lexeme [of "skip_ignored s" l rest] valid ends obtain t s' where
    "next_token (skip_ignored s) = (Some t, s')" "lx_rest s' = rest" "lx_diagnostics s' = lx_diagnostics (skip_ignored s)" "lexeme_of t = l"
    by auto
  ultimately show ?thesis using head
    by - (rule exI [of _ t], rule exI [of _ s'], subst lex_tokens.simps, simp add: Let_def split: prod.split)
qed

lemma lex_tokens_end:
  assumes "lx_rest s = gap" "list_all is_space gap"
  shows "\<exists>t. fst (lex_tokens s) = [t] \<and> lexeme_of t = (TK_End, [], 0) \<and> lx_diagnostics (snd (lex_tokens s)) = lx_diagnostics s"
proof -
  have "lx_rest (skip_ignored s) = [] \<and> lx_diagnostics (skip_ignored s) = lx_diagnostics s"
    using skip_ignored_gap [of s gap "[]"] assms by simp
  then show ?thesis by (subst (1 2) lex_tokens.simps) (simp add: Let_def lexeme_of_def simple_token_def)
qed

text \<open>A text written lexeme by lexeme, each after a gap.\<close>

fun write_lexemes :: "(string \<times> lexeme) list \<Rightarrow> string" where
  "write_lexemes [] = []"
| "write_lexemes ((gap, l) # ls) = gap @ spelling l @ write_lexemes ls"

fun written_apart :: "(string \<times> lexeme) list \<Rightarrow> string \<Rightarrow> bool" where
  "written_apart [] rest = list_all is_space rest"
| "written_apart ((gap, l) # ls) rest = (list_all is_space gap \<and> valid_lexeme l \<and> ends_at l (write_lexemes ls @ rest) \<and>
     written_apart ls rest)"

lemma lex_tokens_written:
  assumes "written_apart ls rest" "lx_rest s = write_lexemes ls @ rest"
  shows "map lexeme_of (fst (lex_tokens s)) = map snd ls @ [(TK_End, [], 0)] \<and>
    lx_diagnostics (snd (lex_tokens s)) = lx_diagnostics s"
  using assms
proof (induction ls arbitrary: s)
  case Nil
  with lex_tokens_end [of s rest] show ?case by auto
next
  case (Cons x ls)
  obtain gap l where x: "x = (gap, l)" by (cases x)
  with lex_tokens_lexeme [of s gap l "write_lexemes ls @ rest"] Cons.prems obtain t s' where
    "lex_tokens s = (t # fst (lex_tokens s'), snd (lex_tokens s'))" "lexeme_of t = l"
    "lx_rest s' = write_lexemes ls @ rest" "lx_diagnostics s' = lx_diagnostics s" by auto
  with Cons.IH [of s'] Cons.prems x show ?case by simp
qed

lemma lex_source_written:
  assumes "written_apart ls gap"
  shows "map lexeme_of (lr_tokens (lex_source (write_lexemes ls @ gap))) = map snd ls @ [(TK_End, [], 0)]"
    "lr_diagnostics (lex_source (write_lexemes ls @ gap)) = []"
proof -
  have "lx_rest (lexer_of (write_lexemes ls @ gap)) = write_lexemes ls @ gap"
    "lx_diagnostics (lexer_of (write_lexemes ls @ gap)) = []" by (simp_all add: lexer_of_def)
  with lex_tokens_written [OF assms, of "lexer_of (write_lexemes ls @ gap)"]
  show "map lexeme_of (lr_tokens (lex_source (write_lexemes ls @ gap))) = map snd ls @ [(TK_End, [], 0)]"
    "lr_diagnostics (lex_source (write_lexemes ls @ gap)) = []" by (simp_all add: lex_source_def case_prod_unfold)
qed

text \<open>
  C38.  A source that is written lexeme by lexeme, each valid lexeme (a word with its keyword or identifier kind, an
  integer that fits into 64 bits, a string literal with any characters, written with its escapes, or a symbol) after any
  amount of white space, such that no lexeme is continued by what follows it, is read by \<open>lex_source\<close> as exactly
  these lexemes and the end token, without a diagnostic.
\<close>

theorem lexing_reads_what_was_written:
  assumes "written_apart ls gap"
  shows "map lexeme_of (lr_tokens (lex_source (write_lexemes ls @ gap))) = map snd ls @ [(TK_End, [], 0)] \<and>
    lr_diagnostics (lex_source (write_lexemes ls @ gap)) = []"
  using lex_source_written [OF assms] by blast

definition written_example :: "(string \<times> lexeme) list" where
  "written_example = [([], (TK_Let, ''let'', 0)), ('' '', (TK_Identifier, ''lets'', 0)), ([], (TK_Colon, '':'', 0)),
     ([newline], (TK_Str, ''str'', 0)), ([], (TK_Equal, ''='', 0)), ('' '', (TK_Integer, ''-17'', - 17)),
     ([], (TK_DotDot, ''..'', 0)), ([], (TK_String, [CHR 0x22, newline, CHR 0x5C], 0)), ([], (TK_Semicolon, '';'', 0))]"

lemma lexing_reads_what_was_written_witness:
  "map lexeme_of (lr_tokens (lex_source (write_lexemes written_example @ [newline]))) = map snd written_example @ [(TK_End, [], 0)]"
proof -
  have "written_apart written_example [newline]" by code_simp
  from lexing_reads_what_was_written [OF this] show ?thesis by simp
qed

end
