(* ===== verification/FE_Types.thy ===== *)
theory FE_Types
  imports FE_Tokens FE_Program
begin

text \<open>
  The types a source text can name (\<open>source_type\<close>), the type specification of each (\<open>type_of_source\<close>), and the lexemes of
  its printed form: \<open>type_name\<close> prints exactly these (\<open>write_type\<close>), and the lexer keeps them apart
  (\<open>type_written_apart\<close>).
\<close>

subsection \<open>The types of the language\<close>

datatype source_type = S_I64 | S_Bool | S_Str | S_Builder | S_Pair | S_PairOf source_type source_type | S_Array source_type
  | S_Map source_type source_type | S_Weak source_type | S_Ephemeron source_type source_type
  | S_Fn "source_type list" source_type | S_Named string "source_type list"

fun type_of_source :: "source_type \<Rightarrow> type_spec" where
  "type_of_source S_I64 = int64_type"
| "type_of_source S_Bool = bool_type"
| "type_of_source S_Str = str_type"
| "type_of_source S_Builder = builder_type"
| "type_of_source S_Pair = plain_pair_type"
| "type_of_source (S_PairOf a b) = pair_type (type_of_source a) (type_of_source b)"
| "type_of_source (S_Array a) = array_type (type_of_source a)"
| "type_of_source (S_Map a b) = map_type (type_of_source a) (type_of_source b)"
| "type_of_source (S_Weak a) = weak_type (type_of_source a)"
| "type_of_source (S_Ephemeron a b) = ephemeron_type (type_of_source a) (type_of_source b)"
| "type_of_source (S_Fn as r) = function_type_spec (map type_of_source as) (type_of_source r)"
| "type_of_source (S_Named x as) = with_generic_arguments (map type_of_source as) (named_type x no_position)"

fun type_depth :: "source_type \<Rightarrow> nat" where
  "type_depth (S_PairOf a b) = Suc (max (type_depth a) (type_depth b))"
| "type_depth (S_Array a) = Suc (type_depth a)"
| "type_depth (S_Map a b) = Suc (max (type_depth a) (type_depth b))"
| "type_depth (S_Weak a) = Suc (type_depth a)"
| "type_depth (S_Ephemeron a b) = Suc (max (type_depth a) (type_depth b))"
| "type_depth (S_Fn as r) = Suc (foldr (max \<circ> type_depth) as (type_depth r))"
| "type_depth (S_Named x as) = Suc (foldr (max \<circ> type_depth) as 0)"
| "type_depth t = 1"

definition identifier_text :: "string \<Rightarrow> bool" where
  "identifier_text x \<longleftrightarrow> word_text x \<and> map_of keyword_kinds x = None"

fun proper_names :: "source_type \<Rightarrow> bool" where
  "proper_names (S_PairOf a b) = (proper_names a \<and> proper_names b)"
| "proper_names (S_Array a) = proper_names a"
| "proper_names (S_Map a b) = (proper_names a \<and> proper_names b)"
| "proper_names (S_Weak a) = proper_names a"
| "proper_names (S_Ephemeron a b) = (proper_names a \<and> proper_names b)"
| "proper_names (S_Fn as r) = (list_all proper_names as \<and> proper_names r)"
| "proper_names (S_Named x as) = (identifier_text x \<and> list_all proper_names as)"
| "proper_names t = True"

text \<open>The lexemes of a printed type, each with the white space before it.\<close>

abbreviation bare :: "token_kind \<Rightarrow> string \<Rightarrow> string \<times> lexeme" where "bare kind word \<equiv> ([], (kind, word, 0))"

definition spaced :: "string \<Rightarrow> (string \<times> lexeme) list \<Rightarrow> (string \<times> lexeme) list" where
  "spaced gap ls = (case ls of [] \<Rightarrow> [] | (g, l) # rest \<Rightarrow> (gap, l) # rest)"

fun list_lexemes :: "(string \<times> lexeme) list list \<Rightarrow> (string \<times> lexeme) list" where
  "list_lexemes [] = []"
| "list_lexemes (ls # lss) = ls @ concat (map (\<lambda>ls. bare TK_Comma '','' # spaced '' '' ls) lss)"

fun type_lexemes :: "source_type \<Rightarrow> (string \<times> lexeme) list" where
  "type_lexemes S_I64 = [bare TK_I64 ''i64'']"
| "type_lexemes S_Bool = [bare TK_Bool ''bool'']"
| "type_lexemes S_Str = [bare TK_Str ''str'']"
| "type_lexemes S_Builder = [bare TK_Builder ''builder'']"
| "type_lexemes S_Pair = [bare TK_Pair ''pair'']"
| "type_lexemes (S_PairOf a b) = [bare TK_Pair ''pair'', bare TK_Less ''<''] @ list_lexemes [type_lexemes a, type_lexemes b] @ [bare TK_Greater ''>'']"
| "type_lexemes (S_Array a) = [bare TK_LBracket ''[''] @ type_lexemes a @ [bare TK_RBracket '']'']"
| "type_lexemes (S_Map a b) = [bare TK_Map ''map'', bare TK_Less ''<''] @ list_lexemes [type_lexemes a, type_lexemes b] @ [bare TK_Greater ''>'']"
| "type_lexemes (S_Weak a) = [bare TK_Weak ''weak'', bare TK_Less ''<''] @ type_lexemes a @ [bare TK_Greater ''>'']"
| "type_lexemes (S_Ephemeron a b) =
     [bare TK_Ephemeron ''ephemeron'', bare TK_Less ''<''] @ list_lexemes [type_lexemes a, type_lexemes b] @ [bare TK_Greater ''>'']"
| "type_lexemes (S_Fn as r) = [bare TK_Fn ''fn'', bare TK_LParen ''(''] @ list_lexemes (map type_lexemes as) @
     [bare TK_RParen '')'', ('' '', (TK_Arrow, ''->'', 0))] @ spaced '' '' (type_lexemes r)"
| "type_lexemes (S_Named x as) = bare TK_Identifier x #
     (if as = [] then [] else [bare TK_Less ''<''] @ list_lexemes (map type_lexemes as) @ [bare TK_Greater ''>''])"

subsection \<open>Printing\<close>

lemma write_lexemes_append [simp]: "write_lexemes (ls @ ls') = write_lexemes ls @ write_lexemes ls'"
  by (induction ls) auto

lemma type_lexemes_start: "\<exists>l ls. type_lexemes t = ([], l) # ls"
  by (cases t) auto

lemma write_spaced [simp]: "write_lexemes (spaced '' '' (type_lexemes t)) = '' '' @ write_lexemes (type_lexemes t)"
  using type_lexemes_start [of t] by (auto simp: spaced_def)

lemma write_list_lexemes:
  "write_lexemes (list_lexemes (map type_lexemes ts)) = commas (map (write_lexemes \<circ> type_lexemes) ts)"
proof (induction ts rule: induct_list012)
  case (3 t u ts)
  then show ?case by (simp add: spelling_def)
qed simp_all

lemmas type_defs = int64_type_def bool_type_def str_type_def builder_type_def plain_pair_type_def pair_type_def array_type_def
  map_type_def weak_type_def ephemeron_type_def function_type_spec_def named_type_def type_with_kind_def with_generic_arguments_def
  with_type_facts_def placed_at_def no_facts_def

lemma write_type: "write_lexemes (type_lexemes t) = type_name (type_of_source t)"
proof (induction t)
  case (S_Fn as r)
  have "commas (map (write_lexemes \<circ> type_lexemes) as) = commas (map (type_name \<circ> type_of_source) as)"
    by (rule arg_cong [of _ _ commas]) (simp add: S_Fn)
  with S_Fn show ?case by (simp add: type_defs spelling_def write_list_lexemes)
next
  case (S_Named x as)
  have "commas (map (write_lexemes \<circ> type_lexemes) as) = commas (map (type_name \<circ> type_of_source) as)"
    by (rule arg_cong [of _ _ commas]) (simp add: S_Named)
  then show ?case by (simp add: type_defs spelling_def write_list_lexemes)
qed (simp_all add: type_defs spelling_def)

subsection \<open>Lexing\<close>

text \<open>What may follow a printed type: nothing, or a character that begins no longer lexeme.\<close>

definition follows_type :: "string \<Rightarrow> bool" where
  "follows_type text \<longleftrightarrow> text = [] \<or> hd text \<in> set '' <>,)]''"

lemma follows_type_simps [simp]: "follows_type []" "follows_type (c # text) \<longleftrightarrow> c \<in> set '' <>,)]''"
  by (auto simp: follows_type_def)

lemma written_apart_spaced [simp]:
  "written_apart (spaced '' '' (type_lexemes t) @ ls) rest = written_apart (type_lexemes t @ ls) rest"
  using type_lexemes_start [of t] by (auto simp: spaced_def is_space_def char_code_def)

lemma type_words:
  "list_all (\<lambda>(kind, word). valid_lexeme (kind, word, 0) \<and> word_text word) [(TK_I64, ''i64''), (TK_Bool, ''bool''), (TK_Str, ''str''),
     (TK_Builder, ''builder''), (TK_Pair, ''pair''), (TK_Map, ''map''), (TK_Weak, ''weak''), (TK_Ephemeron, ''ephemeron''), (TK_Fn, ''fn'')]"
  by code_simp

lemma type_symbols:
  "list_all (\<lambda>(kind, word). valid_lexeme (kind, word, 0) \<and> \<not> word_text word) [(TK_Less, ''<''), (TK_Greater, ''>''), (TK_Comma, '',''),
     (TK_LBracket, ''[''), (TK_RBracket, '']''), (TK_LParen, ''(''), (TK_RParen, '')''), (TK_Arrow, ''->'')]"
  by code_simp

lemma word_follows: "follows_type text \<or> text \<noteq> [] \<and> hd text = CHR ''('' \<Longrightarrow> stops is_identifier_continue text"
  by (auto simp: follows_type_def stops_def is_identifier_continue_def is_alpha_def is_digit_def char_code_def)

lemma no_two_chars: "d \<notin> set ''>=.'' \<Longrightarrow> map_of two_char_kinds [c, d] = None"
  using two_char_kinds_head [of c d] by (cases "map_of two_char_kinds [c, d]") auto

lemma symbol_follows: "text = [] \<or> hd text \<notin> set ''>=.'' \<Longrightarrow> text = [] \<or> map_of two_char_kinds ([c] @ [hd text]) = None"
  using no_two_chars [of "hd text" c] by auto

lemma closing_follows: "c \<in> set ''>,)]('' \<Longrightarrow> map_of two_char_kinds [c, d] = None \<or> c = CHR ''>'' \<and> d = CHR ''=''"
  by (auto simp: two_char_kinds_def)

lemma ends_at_simps:
  "word_text word \<Longrightarrow> kind \<noteq> TK_String \<Longrightarrow> kind \<noteq> TK_Integer \<Longrightarrow> ends_at (kind, word, n) text = stops is_identifier_continue text"
  "\<not> word_text [c] \<Longrightarrow> kind \<noteq> TK_String \<Longrightarrow> kind \<noteq> TK_Integer \<Longrightarrow>
     ends_at (kind, [c], n) text = (text = [] \<or> map_of two_char_kinds [c, hd text] = None)"
  by (simp_all add: ends_at_def)

lemma type_text_start:
  assumes "proper_names t"
  shows "\<exists>c text. write_lexemes (type_lexemes t) = c # text \<and> (is_identifier_start c \<or> c = CHR ''['')"
  using assms by (cases t) (auto simp: spelling_def is_identifier_start_def is_alpha_def char_code_def identifier_text_def word_text_def neq_Nil_conv)

lemma identifier_not_second: "is_identifier_start c \<or> c = CHR ''['' \<Longrightarrow> c \<notin> set ''>=.''"
  by (auto simp: is_identifier_start_def is_alpha_def char_code_def)

lemma lexeme_simps:
  "stops P []" "stops P (c # text) \<longleftrightarrow> \<not> P c"
  "\<not> is_identifier_continue (CHR ''<'')" "\<not> is_identifier_continue (CHR ''>'')" "\<not> is_identifier_continue (CHR '','')"
  "\<not> is_identifier_continue (CHR '')'')" "\<not> is_identifier_continue (CHR ''('')" "\<not> is_identifier_continue (CHR '']'')"
  "\<not> is_identifier_continue (CHR '' '')"
  by (simp_all add: stops_def is_identifier_continue_def is_alpha_def is_digit_def char_code_def)

lemma lone_symbols: "c \<in> set '',)](['' \<Longrightarrow> map_of two_char_kinds [c, d] = None"
  by (auto simp: two_char_kinds_def)

lemma symbols_end:
  "ends_at (TK_Comma, '','', 0) text" "ends_at (TK_LParen, ''('', 0) text" "ends_at (TK_RParen, '')'', 0) text"
  "ends_at (TK_LBracket, ''['', 0) text" "ends_at (TK_RBracket, '']'', 0) text" "ends_at (TK_Arrow, ''->'', 0) text"
  "text = [] \<or> hd text \<notin> set ''>=.'' \<Longrightarrow> ends_at (TK_Less, ''<'', 0) text"
  "follows_type text \<Longrightarrow> ends_at (TK_Greater, ''>'', 0) text"
  using type_symbols by (auto simp: ends_at_def lone_symbols no_two_chars follows_type_def two_char_kinds_def)

lemma less_then_type:
  assumes "proper_names t"
  shows "ends_at (TK_Less, ''<'', 0) (write_lexemes (type_lexemes t) @ text)"
proof -
  obtain c cs where "write_lexemes (type_lexemes t) = c # cs" "is_identifier_start c \<or> c = CHR ''[''"
    using type_text_start [OF assms] by blast
  with identifier_not_second [of c] show ?thesis by (intro symbols_end) simp
qed

lemma words_end: "word_text word \<Longrightarrow> stops is_identifier_continue text \<Longrightarrow> kind \<noteq> TK_String \<Longrightarrow> kind \<noteq> TK_Integer \<Longrightarrow> ends_at (kind, word, n) text"
  by (simp add: ends_at_def)

lemma type_word_facts:
  "word_text ''i64''" "word_text ''bool''" "word_text ''str''" "word_text ''builder''" "word_text ''pair''" "word_text ''map''"
  "word_text ''weak''" "word_text ''ephemeron''" "word_text ''fn''"
  "valid_lexeme (TK_I64, ''i64'', 0)" "valid_lexeme (TK_Bool, ''bool'', 0)" "valid_lexeme (TK_Str, ''str'', 0)"
  "valid_lexeme (TK_Builder, ''builder'', 0)" "valid_lexeme (TK_Pair, ''pair'', 0)" "valid_lexeme (TK_Map, ''map'', 0)"
  "valid_lexeme (TK_Weak, ''weak'', 0)" "valid_lexeme (TK_Ephemeron, ''ephemeron'', 0)" "valid_lexeme (TK_Fn, ''fn'', 0)"
  "valid_lexeme (TK_Less, ''<'', 0)" "valid_lexeme (TK_Greater, ''>'', 0)" "valid_lexeme (TK_Comma, '','', 0)"
  "valid_lexeme (TK_LBracket, ''['', 0)" "valid_lexeme (TK_RBracket, '']'', 0)" "valid_lexeme (TK_LParen, ''('', 0)"
  "valid_lexeme (TK_RParen, '')'', 0)" "valid_lexeme (TK_Arrow, ''->'', 0)"
  using type_words type_symbols by simp_all

lemma list_written_apart:
  assumes each: "\<And>t ls. t \<in> set ts \<Longrightarrow> follows_type (write_lexemes ls @ rest) \<Longrightarrow> written_apart ls rest \<Longrightarrow>
      written_apart (type_lexemes t @ ls) rest"
    and more: "follows_type (write_lexemes ls @ rest)" "written_apart ls rest"
  shows "written_apart (list_lexemes (map type_lexemes ts) @ ls) rest"
proof -
  let ?tail = "\<lambda>us. concat (map (\<lambda>ls. bare TK_Comma '','' # spaced '' '' ls) (map type_lexemes us))"
  have tail: "written_apart (?tail us @ ls) rest \<and> follows_type (write_lexemes (?tail us @ ls) @ rest)" if "set us \<subseteq> set ts" for us
    using that
  proof (induction us)
    case Nil
    then show ?case using more by simp
  next
    case (Cons u us)
    then have "written_apart (type_lexemes u @ ?tail us @ ls) rest" by (intro each) auto
    then show ?case by (simp add: type_word_facts symbols_end spelling_def)
  qed
  show ?thesis
  proof (cases ts)
    case Nil
    with more show ?thesis by simp
  next
    case (Cons t us)
    with tail [of us] each [of t "?tail us @ ls"] show ?thesis by auto
  qed
qed

lemma type_written_apart:
  "proper_names t \<Longrightarrow> follows_type (write_lexemes ls @ rest) \<Longrightarrow> written_apart ls rest \<Longrightarrow> written_apart (type_lexemes t @ ls) rest"
proof (induction t arbitrary: ls)
  case (S_PairOf a b)
  then have "written_apart (list_lexemes (map type_lexemes [a, b]) @ bare TK_Greater ''>'' # ls) rest"
    by (intro list_written_apart) (auto simp: type_word_facts symbols_end spelling_def)
  with S_PairOf.prems show ?case by (simp add: type_word_facts words_end less_then_type spelling_def lexeme_simps)
next
  case (S_Array a)
  then show ?case by (simp add: type_word_facts symbols_end spelling_def)
next
  case (S_Map a b)
  then have "written_apart (list_lexemes (map type_lexemes [a, b]) @ bare TK_Greater ''>'' # ls) rest"
    by (intro list_written_apart) (auto simp: type_word_facts symbols_end spelling_def)
  with S_Map.prems show ?case by (simp add: type_word_facts words_end less_then_type spelling_def lexeme_simps)
next
  case (S_Weak a)
  then show ?case by (simp add: type_word_facts words_end symbols_end less_then_type spelling_def lexeme_simps)
next
  case (S_Ephemeron a b)
  then have "written_apart (list_lexemes (map type_lexemes [a, b]) @ bare TK_Greater ''>'' # ls) rest"
    by (intro list_written_apart) (auto simp: type_word_facts symbols_end spelling_def)
  with S_Ephemeron.prems show ?case by (simp add: type_word_facts words_end less_then_type spelling_def lexeme_simps)
next
  case (S_Fn as r)
  let ?after = "[bare TK_RParen '')'', ('' '', (TK_Arrow, ''->'', 0))] @ spaced '' '' (type_lexemes r) @ ls"
  have "written_apart (type_lexemes r @ ls) rest" using S_Fn by simp
  then have "written_apart ?after rest" by (simp add: type_word_facts symbols_end is_space_def char_code_def)
  then have "written_apart (list_lexemes (map type_lexemes as) @ ?after) rest"
    using S_Fn by (intro list_written_apart) (auto simp: list_all_iff spelling_def)
  then show ?case by (simp add: type_word_facts words_end symbols_end spelling_def lexeme_simps)
next
  case (S_Named x as)
  then have name: "valid_lexeme (TK_Identifier, x, 0)" "word_text x"
    by (auto simp: identifier_text_def valid_lexeme_def)
  show ?case
  proof (cases as)
    case Nil
    with S_Named.prems name show ?thesis by (simp add: words_end word_follows)
  next
    case (Cons a bs)
    have "written_apart (list_lexemes (map type_lexemes as) @ bare TK_Greater ''>'' # ls) rest"
      using S_Named by (intro list_written_apart) (auto simp: list_all_iff type_word_facts symbols_end spelling_def)
    with S_Named.prems name Cons show ?thesis
      by (simp add: type_word_facts words_end less_then_type spelling_def lexeme_simps)
  qed
qed (simp_all add: type_word_facts words_end word_follows)

end
