(* ===== verification/FE_Types_Read.thy ===== *)
theory FE_Types_Read
  imports FE_Types
begin

text \<open>
  \<open>parse_type\<close> reads the lexemes of a printed type back to the same type.  A state is seen as the lexemes ahead of it
  (\<open>lexemes_ahead\<close>), \<open>adv\<close> moves on, and \<open>type_reader\<close> says of a parser that it reads one type from any state that has its
  lexemes ahead; each constructor has a lemma that its reader needs the readers of its parts only.
\<close>

subsection \<open>Parsing\<close>

declare parse_type_at.simps [simp del]

definition adv :: "nat \<Rightarrow> parser \<Rightarrow> parser" where "adv n s = s\<lparr>ps_current := ps_current s + n\<rparr>"

definition lexemes_ahead :: "parser \<Rightarrow> lexeme list" where
  "lexemes_ahead s = map lexeme_of (drop (ps_current s) (ps_tokens s))"

lemma adv_simps [simp]:
  "adv 0 s = s" "adv m (adv n s) = adv (n + m) s" "lexemes_ahead (adv n s) = drop n (lexemes_ahead s)"
  "ps_recursion_depth (adv n s) = ps_recursion_depth s" "ps_active_type_parameters (adv n s) = ps_active_type_parameters s"
  "previous_token (adv (Suc n) s) = peek_token (adv n s)" "ps_tokens (adv n s) = ps_tokens s"
  "ps_diagnostics (adv n s) = ps_diagnostics s"
  by (simp_all add: adv_def lexemes_ahead_def drop_map add.commute previous_token_def peek_token_def)

lemma ahead_depth [simp]: "lexemes_ahead (ps_recursion_depth_update f s) = lexemes_ahead s"
  by (simp add: lexemes_ahead_def)

lemma peek_ahead:
  assumes "lexemes_ahead s = (kind, word, n) # ls"
  shows "tk_kind (peek_token s) = kind \<and> tk_text (peek_token s) = word"
proof -
  from assms obtain t ts where "drop (ps_current s) (ps_tokens s) = t # ts" "lexeme_of t = (kind, word, n)"
    by (auto simp: lexemes_ahead_def map_eq_Cons_conv)
  then show ?thesis by (auto simp: peek_token_def lexeme_of_def dest: nth_via_drop)
qed

lemma step_ahead: "step_token s = Some ((), adv 1 s)"
  by (simp add: step_token_def pmodify_def adv_def)

lemma lexemes_past: "lexemes_ahead s = map f ls @ rest \<Longrightarrow> lexemes_ahead (adv (length ls) s) = rest"
  by simp

lemma check_ahead: "lexemes_ahead s = (kind, word, n) # ls \<Longrightarrow> check_kind k s = (kind = k)"
  using peek_ahead [of s] by (simp add: check_kind_def)

lemma match_ahead: "lexemes_ahead s = (kind, word, n) # ls \<Longrightarrow> match_kind k s = Some (kind = k, if kind = k then adv 1 s else s)"
  by (simp add: match_kind_def px_defs check_ahead step_ahead)

lemma match_any_ahead: "lexemes_ahead s = (kind, word, n) # ls \<Longrightarrow>
    match_any ks s = Some (kind \<in> set ks, if kind \<in> set ks then adv 1 s else s)"
  using peek_ahead [of s] by (simp add: match_any_def px_defs step_ahead)

lemma expect_ahead: "lexemes_ahead s = (kind, word, n) # ls \<Longrightarrow> expect kind message s = Some (Some (peek_token s), adv 1 s)"
  by (simp add: expect_def match_ahead px_defs)

lemma length_spaced [simp]: "length (spaced gap ls) = length ls" "map snd (spaced gap ls) = map snd ls"
  by (simp_all add: spaced_def split: list.split)

lemma list_lexemes_Cons:
  "map snd (list_lexemes (map type_lexemes (t # u # ts))) =
     map snd (type_lexemes t) @ (TK_Comma, '','', 0) # map snd (list_lexemes (map type_lexemes (u # ts)))"
  "length (list_lexemes (map type_lexemes (t # u # ts))) = length (type_lexemes t) + Suc (length (list_lexemes (map type_lexemes (u # ts))))"
  by simp_all

definition at_type :: "source_type \<Rightarrow> parser \<Rightarrow> lexeme list \<Rightarrow> bool" where
  "at_type t s after \<longleftrightarrow> lexemes_ahead s = map snd (type_lexemes t) @ after \<and> after \<noteq> [] \<and> fst (hd after) \<noteq> TK_Less \<and>
     ps_active_type_parameters s = [] \<and> ps_recursion_depth s + type_depth t \<le> kMaxRecursionDepth"

definition reads_type :: "type_spec px \<Rightarrow> source_type \<Rightarrow> parser \<Rightarrow> bool" where
  "reads_type k t s \<longleftrightarrow> (\<exists>t'. k s = Some (t', adv (length (type_lexemes t)) s) \<and> same_type t' (type_of_source t))"

definition type_reader :: "type_spec px \<Rightarrow> source_type \<Rightarrow> bool" where
  "type_reader k t \<longleftrightarrow> (\<forall>s after. at_type t s after \<longrightarrow> reads_type k t s)"

lemma type_readerE:
  assumes "type_reader k t" "at_type t s after"
  obtains t' where "k s = Some (t', adv (length (type_lexemes t)) s)" "same_type t' (type_of_source t)"
  using assms by (auto simp: type_reader_def reads_type_def)

lemma type_readerI: "(\<And>s after. at_type t s after \<Longrightarrow> reads_type k t s) \<Longrightarrow> type_reader k t"
  by (auto simp: type_reader_def)

text \<open>One turn of the loop over a list that commas separate.\<close>

definition comma_turn :: "'a px \<Rightarrow> 'a list \<Rightarrow> ('a list + 'a list) px" where
  "comma_turn k xs = pbind (one k) (\<lambda>x. pbind (match_kind TK_Comma) (\<lambda>more. preturn (if more then Inl (xs @ x) else Inr (xs @ x))))"

lemma comma_list_turns: "comma_list n (one k) = ploop n (comma_turn k) []"
  by (simp add: comma_list_def comma_turn_def [abs_def])

lemma comma_turn_step:
  "k s = Some (x, s1) \<Longrightarrow> match_kind TK_Comma s1 = Some (again, s2) \<Longrightarrow>
     ploop (Suc n) (comma_turn k) xs s = (if again then ploop n (comma_turn k) (xs @ [x]) s2 else Some (xs @ [x], s2))"
  by (simp add: comma_turn_def one_def px_defs)

lemma types_between_commas:
  assumes each: "\<forall>t\<in>set ts. type_reader k t"
    and s: "lexemes_ahead s = map snd (list_lexemes (map type_lexemes ts)) @ after" "ts \<noteq> []" "after \<noteq> []"
      "fst (hd after) \<noteq> TK_Less" "fst (hd after) \<noteq> TK_Comma" "ps_active_type_parameters s = []"
      "\<forall>t\<in>set ts. ps_recursion_depth s + type_depth t \<le> kMaxRecursionDepth" "length ts \<le> n"
  shows "\<exists>us. ploop n (comma_turn k) acc s =
       Some (acc @ us, adv (length (list_lexemes (map type_lexemes ts))) s) \<and> same_types us (map type_of_source ts)"
  using assms
proof (induction ts arbitrary: s acc n)
  case Nil
  then show ?case by simp
next
  case (Cons t ts)
  from Cons.prems obtain m where n: "n = Suc m" "length ts \<le> m" by (cases n) auto
  obtain kind word i rest where after: "after = (kind, word, i) # rest" using Cons.prems(4) by (cases after) auto
  show ?case
  proof (cases ts)
    case Nil
    have "at_type t s after" using Cons.prems Nil by (simp add: at_type_def)
    with Cons.prems(1) obtain t' where t': "k s = Some (t', adv (length (type_lexemes t)) s)" "same_type t' (type_of_source t)"
      by (auto elim: type_readerE)
    have "lexemes_ahead (adv (length (type_lexemes t)) s) = (kind, word, i) # rest" using Cons.prems Nil after by simp
    from comma_turn_step [where k = k and s = s, OF t'(1) match_ahead [OF this, of TK_Comma], of m acc] t' Nil n Cons.prems after show ?thesis by simp
  next
    case (Cons u us)
    let ?s = "adv (length (type_lexemes t)) s"
    have ahead: "lexemes_ahead s = map snd (type_lexemes t) @ (TK_Comma, '','', 0) # map snd (list_lexemes (map type_lexemes ts)) @ after"
      using Cons.prems(2) Cons by (simp only: list_lexemes_Cons append_assoc append_Cons)
    then have "at_type t s ((TK_Comma, '','', 0) # map snd (list_lexemes (map type_lexemes ts)) @ after)"
      using Cons.prems by (simp add: at_type_def)
    with Cons.prems(1) obtain t' where t': "k s = Some (t', ?s)" "same_type t' (type_of_source t)"
      by (auto elim: type_readerE)
    have comma: "lexemes_ahead ?s = (TK_Comma, '','', 0) # map snd (list_lexemes (map type_lexemes ts)) @ after" using ahead by simp
    have rest: "lexemes_ahead (adv 1 ?s) = map snd (list_lexemes (map type_lexemes ts)) @ after"
      by (subst adv_simps(3)) (simp add: comma del: adv_simps)
    have each: "\<forall>t\<in>set ts. type_reader k t" using Cons.prems(1) by simp
    have "\<exists>us'. ploop m (comma_turn k) (acc @ [t']) (adv 1 ?s) =
        Some ((acc @ [t']) @ us', adv (length (list_lexemes (map type_lexemes ts))) (adv 1 ?s)) \<and> same_types us' (map type_of_source ts)"
      by (rule Cons.IH [OF each rest]) (use Cons.prems Cons n(2) in simp_all)
    with comma_turn_step [where k = k and s = s, OF t'(1) match_ahead [OF comma, of TK_Comma], of m acc] t' n Cons show ?thesis
      by auto
  qed
qed

lemma same_type_placed [simp]: "same_type (placed_at position t) u = same_type t u"
  by (cases t; cases u) (simp add: placed_at_def with_type_facts_def split: option.split)

lemma types_parsed:
  assumes each: "\<forall>t\<in>set ts. type_reader (en_type p) t"
    and s: "lexemes_ahead s = map snd (list_lexemes (map type_lexemes ts)) @ after" "ts \<noteq> []" "after \<noteq> []"
      "fst (hd after) \<noteq> TK_Less" "fst (hd after) \<noteq> TK_Comma" "ps_active_type_parameters s = []"
      "\<forall>t\<in>set ts. ps_recursion_depth s + type_depth t \<le> kMaxRecursionDepth" "length ts \<le> en_turns p"
  obtains us where "comma_list (en_turns p) (one (en_type p)) s = Some (us, adv (length (list_lexemes (map type_lexemes ts))) s)"
    "same_types us (map type_of_source ts)"
proof -
  have "\<exists>us. ploop (en_turns p) (comma_turn (en_type p)) [] s =
      Some ([] @ us, adv (length (list_lexemes (map type_lexemes ts))) s) \<and> same_types us (map type_of_source ts)"
    by (rule types_between_commas [OF assms])
  with that show thesis unfolding comma_list_turns by auto
qed

lemma type_pair_parsed:
  assumes each: "type_reader (en_type p) a" "type_reader (en_type p) b"
    and s: "lexemes_ahead s = map snd (list_lexemes [type_lexemes a, type_lexemes b]) @ (TK_Greater, ''>'', 0) # after"
      "ps_active_type_parameters s = []" "ps_recursion_depth s + max (type_depth a) (type_depth b) \<le> kMaxRecursionDepth"
  obtains a' b' where
    "type_pair p comma close s = Some ((a', b'), adv (Suc (length (list_lexemes [type_lexemes a, type_lexemes b]))) s)"
    "same_type a' (type_of_source a)" "same_type b' (type_of_source b)"
proof -
  let ?s = "adv (length (type_lexemes a)) s" let ?r = "adv 1 ?s"
  have "at_type a s ((TK_Comma, '','', 0) # map snd (type_lexemes b) @ (TK_Greater, ''>'', 0) # after)"
    using s by (simp add: at_type_def)
  with each(1) obtain a' where a: "en_type p s = Some (a', ?s)" "same_type a' (type_of_source a)"
    by (auto elim: type_readerE)
  have comma: "lexemes_ahead ?s = (TK_Comma, '','', 0) # map snd (type_lexemes b) @ (TK_Greater, ''>'', 0) # after"
    using s by simp
  have "at_type b ?r ((TK_Greater, ''>'', 0) # after)" using s by (simp add: at_type_def)
  with each(2) obtain b' where b: "en_type p ?r = Some (b', adv (length (type_lexemes b)) ?r)" "same_type b' (type_of_source b)"
    by (auto elim: type_readerE)
  have greater: "lexemes_ahead (adv (length (type_lexemes b)) ?r) = (TK_Greater, ''>'', 0) # after" using s by simp
  from that a b expect_ahead [OF comma, of comma] expect_ahead [OF greater, of close] show thesis
    by (simp add: type_pair_def px_defs add.commute)
qed

definition deeper :: "parser \<Rightarrow> parser" where "deeper s = s\<lparr>ps_recursion_depth := ps_recursion_depth s + 1\<rparr>"

lemma deeper_simps [simp]:
  "lexemes_ahead (deeper s) = lexemes_ahead s" "ps_recursion_depth (deeper s) = Suc (ps_recursion_depth s)"
  "ps_active_type_parameters (deeper s) = ps_active_type_parameters s" "peek_token (deeper s) = peek_token s"
  by (simp_all add: deeper_def peek_token_def)

lemma guarded_deeper:
  "ps_recursion_depth s < kMaxRecursionDepth \<Longrightarrow> body (deeper s) = Some (x, adv n (deeper s)) \<Longrightarrow> guarded k body s = Some (x, adv n s)"
  by (simp add: guarded_def px_defs deeper_def adv_def)

lemma type_begins:
  assumes "lexemes_ahead s = (kind, word, i) # ls" "kind \<in> set type_starters" "ps_recursion_depth s < kMaxRecursionDepth"
    and "type_after p (peek_token s) (adv 1 (deeper s)) = Some (t, adv n (deeper s))"
  shows "parse_type p s = Some (t, adv n s)"
proof -
  have "lexemes_ahead (deeper s) = (kind, word, i) # ls" using assms(1) by simp
  from match_any_ahead [OF this, of type_starters] assms(2,4)
  have "pbind (match_any type_starters) (\<lambda>found. if found then pbind (pgets previous_token) (type_after p)
      else pthen (complain expected_type_message) (preturn invalid_type)) (deeper s) = Some (t, adv n (deeper s))"
    by (simp add: pbind_def pgets_def)
  then show ?thesis unfolding parse_type_def by (rule guarded_deeper [OF assms(3)])
qed

lemma parsers_at_type: "parse_type_at (Suc n) s = parse_type (parsers_at n) s" "en_type (parsers_at n) = parse_type_at n"
  "en_turns (parsers_at n) = n"
  by (simp_all add: parsers_at_def parse_type_at.simps)

text \<open>The state after the first lexeme of a type.\<close>

definition inside :: "parser \<Rightarrow> parser" where "inside s = adv 1 (deeper s)"

lemma inside_simps [simp]:
  "lexemes_ahead (inside s) = drop 1 (lexemes_ahead s)" "ps_recursion_depth (inside s) = Suc (ps_recursion_depth s)"
  "ps_active_type_parameters (inside s) = ps_active_type_parameters s"
  by (simp_all add: inside_def)

lemma adv_inside: "adv n (inside s) = adv (Suc n) (deeper s)"
  by (simp add: inside_def)

lemma reads_type_begins:
  assumes "at_type t s after" "type_lexemes t = (gap, (kind, word, i)) # ls" "kind \<in> set type_starters"
    and "\<And>tok. tk_kind tok = kind \<Longrightarrow> tk_text tok = word \<Longrightarrow> \<exists>t'.
      type_after (parsers_at m) tok (inside s) = Some (t', adv (length ls) (inside s)) \<and> same_type t' (type_of_source t)"
  shows "reads_type (parse_type_at (Suc m)) t s"
proof -
  have s: "lexemes_ahead s = (kind, word, i) # map snd ls @ after" using assms(1,2) by (simp add: at_type_def)
  have "0 < type_depth t" by (cases t) auto
  with assms(1) have "ps_recursion_depth s < kMaxRecursionDepth" by (simp add: at_type_def)
  note begins = type_begins [OF s assms(3) this, of "parsers_at m", folded inside_def]
  from assms(4) peek_ahead [OF s] obtain t' where
    "type_after (parsers_at m) (peek_token s) (inside s) = Some (t', adv (length ls) (inside s))" "same_type t' (type_of_source t)" by blast
  with begins [of t' "Suc (length ls)"] assms(2) show ?thesis
    by (simp add: reads_type_def parsers_at_type adv_inside)
qed

lemma type_pair_inside:
  assumes each: "type_reader (parse_type_at m) a" "type_reader (parse_type_at m) b"
    and s: "lexemes_ahead s = (kind, word, i) # (TK_Less, ''<'', 0) # map snd (list_lexemes [type_lexemes a, type_lexemes b]) @ (TK_Greater, ''>'', 0) # after"
      "ps_active_type_parameters s = []" "ps_recursion_depth s + Suc (max (type_depth a) (type_depth b)) \<le> kMaxRecursionDepth"
  obtains a' b' where
    "match_kind TK_Less (inside s) = Some (True, adv 1 (inside s))"
    "expect TK_Less message (inside s) = Some (Some (peek_token (inside s)), adv 1 (inside s))"
    "type_pair (parsers_at m) comma close (adv 1 (inside s)) =
       Some ((a', b'), adv (Suc (Suc (length (list_lexemes [type_lexemes a, type_lexemes b])))) (inside s))"
    "same_type a' (type_of_source a)" "same_type b' (type_of_source b)"
proof -
  have less: "lexemes_ahead (inside s) = (TK_Less, ''<'', 0) # map snd (list_lexemes [type_lexemes a, type_lexemes b]) @ (TK_Greater, ''>'', 0) # after"
    using s by simp
  have "lexemes_ahead (adv 1 (inside s)) = map snd (list_lexemes [type_lexemes a, type_lexemes b]) @ (TK_Greater, ''>'', 0) # after"
    "ps_active_type_parameters (adv 1 (inside s)) = []"
    "ps_recursion_depth (adv 1 (inside s)) + max (type_depth a) (type_depth b) \<le> kMaxRecursionDepth"
    using s by simp_all
  from type_pair_parsed [of "parsers_at m", unfolded parsers_at_type, OF each this, of comma close] obtain a' b' where
    "type_pair (parsers_at m) comma close (adv 1 (inside s)) =
       Some ((a', b'), adv (Suc (length (list_lexemes [type_lexemes a, type_lexemes b]))) (adv 1 (inside s)))"
    "same_type a' (type_of_source a)" "same_type b' (type_of_source b)" by blast
  with that match_ahead [OF less, of TK_Less] expect_ahead [OF less, of message] show thesis by simp
qed

lemma at_type_inside:
  assumes "at_type t s after"
  shows "lexemes_ahead (inside s) = tl (map snd (type_lexemes t)) @ after" "ps_active_type_parameters (inside s) = []"
    "ps_recursion_depth (inside s) + (type_depth t - 1) \<le> kMaxRecursionDepth"
proof -
  obtain l ls where "type_lexemes t = ([], l) # ls" using type_lexemes_start by blast
  with assms show "lexemes_ahead (inside s) = tl (map snd (type_lexemes t)) @ after" by (simp add: at_type_def)
  show "ps_active_type_parameters (inside s) = []" using assms by (simp add: at_type_def)
  have "0 < type_depth t" by (cases t) auto
  with assms show "ps_recursion_depth (inside s) + (type_depth t - 1) \<le> kMaxRecursionDepth" by (simp add: at_type_def)
qed

text \<open>What follows the first token, kind by kind.\<close>

lemma type_after_kinds:
  "tk_kind t = TK_I64 \<Longrightarrow> type_after p t s = Some (placed_at (tk_position t) int64_type, s)"
  "tk_kind t = TK_Bool \<Longrightarrow> type_after p t s = Some (placed_at (tk_position t) bool_type, s)"
  "tk_kind t = TK_Str \<Longrightarrow> type_after p t s = Some (placed_at (tk_position t) str_type, s)"
  "tk_kind t = TK_Builder \<Longrightarrow> type_after p t s = Some (placed_at (tk_position t) builder_type, s)"
  "tk_kind t = TK_Identifier \<Longrightarrow> type_after p t s = identifier_type p t s"
  by (simp_all add: type_after_def Let_def px_defs)

lemma type_after_brackets:
  "tk_kind t = TK_LBracket \<Longrightarrow> type_after p t s = (case en_type p s of None \<Rightarrow> None | Some (a, s1) \<Rightarrow>
     (case expect TK_RBracket ''expected ']' after array element type'' s1 of None \<Rightarrow> None | Some (_, s2) \<Rightarrow>
       Some (placed_at (tk_position t) (array_type a), s2)))"
  by (auto simp: type_after_def Let_def px_defs split: option.split)

definition map_messages :: "string \<times> string" where
  "map_messages = (''expected ',' between map key and value types'', ''expected '>' after map value type'')"

definition ephemeron_messages :: "string \<times> string" where
  "ephemeron_messages = (''expected ',' between ephemeron key and value types'', ''expected '>' after ephemeron value type'')"

definition pair_messages :: "string \<times> string" where
  "pair_messages = (''expected ',' between pair field types'', ''expected '>' after pair field types'')"

lemma type_after_angles:
  assumes "\<And>message. expect TK_Less message s = Some (l, s1)"
  shows "tk_kind t = TK_Map \<Longrightarrow> type_pair p (fst map_messages) (snd map_messages) s1 = Some ((a, b), s2) \<Longrightarrow>
      type_after p t s = Some (placed_at (tk_position t) (map_type a b), s2)"
    "tk_kind t = TK_Ephemeron \<Longrightarrow> type_pair p (fst ephemeron_messages) (snd ephemeron_messages) s1 = Some ((a, b), s2) \<Longrightarrow>
      type_after p t s = Some (placed_at (tk_position t) (ephemeron_type a b), s2)"
    "tk_kind t = TK_Weak \<Longrightarrow> en_type p s1 = Some (a, s2) \<Longrightarrow> (\<And>message. expect TK_Greater message s2 = Some (g, s3)) \<Longrightarrow>
      type_after p t s = Some (placed_at (tk_position t) (weak_type a), s3)"
  using assms by (simp_all add: type_after_def Let_def px_defs map_messages_def ephemeron_messages_def)

lemma type_after_pair:
  "tk_kind t = TK_Pair \<Longrightarrow> match_kind TK_Less s = Some (False, s1) \<Longrightarrow> type_after p t s = Some (placed_at (tk_position t) plain_pair_type, s1)"
  "tk_kind t = TK_Pair \<Longrightarrow> match_kind TK_Less s = Some (True, s1) \<Longrightarrow>
     type_pair p (fst pair_messages) (snd pair_messages) s1 = Some ((a, b), s2) \<Longrightarrow>
     type_after p t s = Some (placed_at (tk_position t) (pair_type a b), s2)"
  by (simp_all add: type_after_def Let_def px_defs pair_messages_def)

lemma same_constructors:
  "same_type int64_type int64_type" "same_type bool_type bool_type" "same_type str_type str_type" "same_type builder_type builder_type"
  "same_type plain_pair_type plain_pair_type" "same_type (pair_type a b) (pair_type c d) = (same_type a c \<and> same_type b d)"
  "same_type (array_type a) (array_type b) = same_type a b" "same_type (map_type a b) (map_type c d) = (same_type a c \<and> same_type b d)"
  "same_type (weak_type a) (weak_type b) = same_type a b"
  "same_type (ephemeron_type a b) (ephemeron_type c d) = (same_type a c \<and> same_type b d)"
  "same_type (function_type_spec as a) (function_type_spec bs b) = (same_type a b \<and> same_types as bs)"
  "same_type (with_generic_arguments as (named_type x p)) (with_generic_arguments bs (named_type x q)) = same_types as bs"
  by (simp_all add: type_defs same_index_def)

text \<open>The cases of a pair of types between angle brackets.\<close>

lemma pair_types_read:
  assumes "at_type t s after" "type_reader (parse_type_at m) a" "type_reader (parse_type_at m) b"
    and t: "type_lexemes t = bare kind word # bare TK_Less ''<'' # list_lexemes [type_lexemes a, type_lexemes b] @ [bare TK_Greater ''>'']"
      "type_depth t = Suc (max (type_depth a) (type_depth b))" "kind \<in> set type_starters"
    and body: "\<And>tok a' b'. tk_kind tok = kind \<Longrightarrow> same_type a' (type_of_source a) \<Longrightarrow> same_type b' (type_of_source b) \<Longrightarrow>
      match_kind TK_Less (inside s) = Some (True, adv 1 (inside s)) \<Longrightarrow>
      (\<And>message. expect TK_Less message (inside s) = Some (Some (peek_token (inside s)), adv 1 (inside s))) \<Longrightarrow>
      type_pair (parsers_at m) comma close (adv 1 (inside s)) = Some ((a', b'), adv (length (type_lexemes t) - 1) (inside s)) \<Longrightarrow>
      \<exists>t'. type_after (parsers_at m) tok (inside s) = Some (t', adv (length (type_lexemes t) - 1) (inside s)) \<and> same_type t' (type_of_source t)"
  shows "reads_type (parse_type_at (Suc m)) t s"
proof (rule reads_type_begins [OF assms(1) t(1) t(3)])
  fix tok :: token assume tok: "tk_kind tok = kind" "tk_text tok = word"
  have s: "lexemes_ahead s = (kind, word, 0) # (TK_Less, ''<'', 0) # map snd (list_lexemes [type_lexemes a, type_lexemes b]) @ (TK_Greater, ''>'', 0) # after"
    "ps_active_type_parameters s = []" "ps_recursion_depth s + Suc (max (type_depth a) (type_depth b)) \<le> kMaxRecursionDepth"
    using assms(1) t by (simp_all add: at_type_def)
  from type_pair_inside [OF assms(2,3) s, of _ comma close] obtain a' b' where
    "type_pair (parsers_at m) comma close (adv 1 (inside s)) =
       Some ((a', b'), adv (Suc (Suc (length (list_lexemes [type_lexemes a, type_lexemes b])))) (inside s))"
    "same_type a' (type_of_source a)" "same_type b' (type_of_source b)" "match_kind TK_Less (inside s) = Some (True, adv 1 (inside s))" by blast
  moreover have "expect TK_Less message (inside s) = Some (Some (peek_token (inside s)), adv 1 (inside s))" for message
    using type_pair_inside [OF assms(2,3) s, of message comma close] by blast
  ultimately show "\<exists>t'. type_after (parsers_at m) tok (inside s) =
      Some (t', adv (length (bare TK_Less ''<'' # list_lexemes [type_lexemes a, type_lexemes b] @ [bare TK_Greater ''>''])) (inside s)) \<and>
      same_type t' (type_of_source t)"
    using body [OF tok(1), of a' b'] t(1) by simp
qed

lemma plain_types_read:
  "at_type S_I64 s after \<Longrightarrow> reads_type (parse_type_at (Suc m)) S_I64 s"
  "at_type S_Bool s after \<Longrightarrow> reads_type (parse_type_at (Suc m)) S_Bool s"
  "at_type S_Str s after \<Longrightarrow> reads_type (parse_type_at (Suc m)) S_Str s"
  "at_type S_Builder s after \<Longrightarrow> reads_type (parse_type_at (Suc m)) S_Builder s"
  by (auto intro!: reads_type_begins simp: type_starters_def type_after_kinds same_constructors)

lemma plain_pair_read:
  assumes "at_type S_Pair s after"
  shows "reads_type (parse_type_at (Suc m)) S_Pair s"
proof -
  obtain kind word i ls where after: "after = (kind, word, i) # ls" "kind \<noteq> TK_Less"
    using assms by (cases after) (auto simp: at_type_def)
  have "lexemes_ahead (inside s) = (kind, word, i) # ls" using at_type_inside(1) [OF assms] after by simp
  from match_ahead [OF this, of TK_Less] after have "match_kind TK_Less (inside s) = Some (False, inside s)" by simp
  then show ?thesis
    by (auto intro!: reads_type_begins [OF assms] simp: type_starters_def type_after_pair(1) same_constructors)
qed

lemma angle_types_read:
  "at_type (S_Map a b) s after \<Longrightarrow> type_reader (parse_type_at m) a \<Longrightarrow> type_reader (parse_type_at m) b \<Longrightarrow>
     reads_type (parse_type_at (Suc m)) (S_Map a b) s"
  "at_type (S_Ephemeron a b) s after \<Longrightarrow> type_reader (parse_type_at m) a \<Longrightarrow> type_reader (parse_type_at m) b \<Longrightarrow>
     reads_type (parse_type_at (Suc m)) (S_Ephemeron a b) s"
  "at_type (S_PairOf a b) s after \<Longrightarrow> type_reader (parse_type_at m) a \<Longrightarrow> type_reader (parse_type_at m) b \<Longrightarrow>
     reads_type (parse_type_at (Suc m)) (S_PairOf a b) s"
  by (rule pair_types_read [where kind = TK_Map and comma = "fst map_messages" and close = "snd map_messages"]
        pair_types_read [where kind = TK_Ephemeron and comma = "fst ephemeron_messages" and close = "snd ephemeron_messages"]
        pair_types_read [where kind = TK_Pair and comma = "fst pair_messages" and close = "snd pair_messages"],
      assumption, assumption, assumption, simp, simp, simp add: type_starters_def,
      simp add: type_after_angles type_after_pair same_constructors)+

lemma enclosed_type_read:
  assumes reader: "type_reader (en_type p) a" and s: "lexemes_ahead s = map snd (type_lexemes a) @ (kind, word, i) # ls"
    "kind \<noteq> TK_Less" "ps_active_type_parameters s = []" "ps_recursion_depth s + type_depth a \<le> kMaxRecursionDepth"
  obtains a' g where "en_type p s = Some (a', adv (length (type_lexemes a)) s)" "same_type a' (type_of_source a)"
    "\<And>message. expect kind message (adv (length (type_lexemes a)) s) = Some (Some g, adv (Suc (length (type_lexemes a))) s)"
proof -
  have "at_type a s ((kind, word, i) # ls)" using s by (simp add: at_type_def)
  with reader obtain a' where a: "en_type p s = Some (a', adv (length (type_lexemes a)) s)" "same_type a' (type_of_source a)"
    by (rule type_readerE)
  have "lexemes_ahead (adv (length (type_lexemes a)) s) = (kind, word, i) # ls" using s by simp
  with that [OF a] expect_ahead [OF this] show thesis by simp
qed

lemma array_type_read:
  assumes "at_type (S_Array a) s after" "type_reader (parse_type_at m) a"
  shows "reads_type (parse_type_at (Suc m)) (S_Array a) s"
proof -
  note s = at_type_inside [OF assms(1)]
  have "lexemes_ahead (inside s) = map snd (type_lexemes a) @ (TK_RBracket, '']'', 0) # after" using s by simp
  from enclosed_type_read [of "parsers_at m", unfolded parsers_at_type, OF assms(2) this] s obtain a' g where
    "parse_type_at m (inside s) = Some (a', adv (length (type_lexemes a)) (inside s))" "same_type a' (type_of_source a)"
    "\<And>message. expect TK_RBracket message (adv (length (type_lexemes a)) (inside s)) = Some (Some g, adv (Suc (length (type_lexemes a))) (inside s))"
    by auto
  then show ?thesis
    by (intro reads_type_begins [OF assms(1)]) (auto simp: type_starters_def type_after_brackets same_constructors parsers_at_type)
qed

lemma weak_type_read:
  assumes "at_type (S_Weak a) s after" "type_reader (parse_type_at m) a"
  shows "reads_type (parse_type_at (Suc m)) (S_Weak a) s"
proof -
  let ?r = "adv 1 (inside s)"
  note s = at_type_inside [OF assms(1)]
  have less: "lexemes_ahead (inside s) = (TK_Less, ''<'', 0) # map snd (type_lexemes a) @ (TK_Greater, ''>'', 0) # after" using s by simp
  have "lexemes_ahead ?r = map snd (type_lexemes a) @ (TK_Greater, ''>'', 0) # after" using s by simp
  from enclosed_type_read [of "parsers_at m", unfolded parsers_at_type, OF assms(2) this] s obtain a' g where
    "parse_type_at m ?r = Some (a', adv (length (type_lexemes a)) ?r)" "same_type a' (type_of_source a)"
    "\<And>message. expect TK_Greater message (adv (length (type_lexemes a)) ?r) = Some (Some g, adv (Suc (length (type_lexemes a))) ?r)"
    by auto
  with type_after_angles(3) [where p = "parsers_at m", OF expect_ahead [OF less]] show ?thesis
    by (intro reads_type_begins [OF assms(1)]) (auto simp: type_starters_def same_constructors parsers_at_type)
qed

lemma depths_bound: "foldr (max \<circ> type_depth) ts d \<ge> d" "t \<in> set ts \<Longrightarrow> type_depth t \<le> foldr (max \<circ> type_depth) ts d"
  by (induction ts) (auto simp: le_max_iff_disj)

lemma length_list_lexemes: "length ts \<le> length (list_lexemes (map type_lexemes ts))"
proof (cases ts)
  case (Cons t us)
  have "length us \<le> length (concat (map (\<lambda>ls. bare TK_Comma '','' # spaced '' '' ls) (map type_lexemes us)))"
    by (induction us) auto
  moreover obtain l ls where "type_lexemes t = ([], l) # ls" using type_lexemes_start by blast
  ultimately show ?thesis using Cons by simp
qed simp

lemma length_member_lexemes: "t \<in> set ts \<Longrightarrow> length (type_lexemes t) \<le> length (list_lexemes (map type_lexemes ts))"
proof (cases ts)
  case (Cons u us)
  have "t \<in> set us \<Longrightarrow> length (type_lexemes t) \<le> length (concat (map (\<lambda>ls. bare TK_Comma '','' # spaced '' '' ls) (map type_lexemes us)))"
    by (induction us) auto
  moreover assume "t \<in> set ts"
  ultimately show ?thesis using Cons by auto
qed simp

lemma generic_type_read:
  assumes "at_type (S_Named x as) s after" "\<forall>t\<in>set as. type_reader (parse_type_at m) t" "length as \<le> m"
  shows "reads_type (parse_type_at (Suc m)) (S_Named x as) s"
proof (cases "as = []")
  case True
  obtain kind word i ls where after: "after = (kind, word, i) # ls" "kind \<noteq> TK_Less"
    using assms(1) by (cases after) (auto simp: at_type_def)
  have "lexemes_ahead (inside s) = (kind, word, i) # ls" "ps_active_type_parameters (inside s) = []"
    using at_type_inside [OF assms(1)] after True by simp_all
  with check_ahead [OF this(1), of TK_Less] after show ?thesis using True same_constructors(12) [of "[]" x _ "[]" no_position]
    by (intro reads_type_begins [OF assms(1)])
      (auto simp: type_starters_def type_after_kinds identifier_type_def px_defs type_defs same_index_def)
next
  case False
  let ?ls = "list_lexemes (map type_lexemes as)"
  note s = at_type_inside [OF assms(1)]
  have less: "lexemes_ahead (inside s) = (TK_Less, ''<'', 0) # map snd ?ls @ (TK_Greater, ''>'', 0) # after" using s False by simp
  have ahead: "lexemes_ahead (adv 1 (inside s)) = map snd ?ls @ (TK_Greater, ''>'', 0) # after" using less by simp
  have "\<forall>t\<in>set as. ps_recursion_depth (adv 1 (inside s)) + type_depth t \<le> kMaxRecursionDepth"
  proof
    fix t assume "t \<in> set as"
    from depths_bound(2) [OF this, of 0] s(3) show "ps_recursion_depth (adv 1 (inside s)) + type_depth t \<le> kMaxRecursionDepth" by simp
  qed
  from types_parsed [of as "parsers_at m", unfolded parsers_at_type, OF assms(2) ahead False _ _ _ _ this assms(3)] s obtain us where us:
    "comma_list m (one (parse_type_at m)) (adv 1 (inside s)) = Some (us, adv (length ?ls) (adv 1 (inside s)))" "same_types us (map type_of_source as)"
    by auto
  have "\<not> check_kind TK_Greater (adv 1 (inside s))"
  proof -
    obtain t ts where as: "as = t # ts" using False by (cases as) auto
    obtain l ls where l: "type_lexemes t = ([], l) # ls" using type_lexemes_start by blast
    have "fst l \<noteq> TK_Greater" using l by (cases t) auto
    moreover have "lexemes_ahead (adv 1 (inside s)) = (fst l, fst (snd l), snd (snd l)) # tl (map snd ?ls @ (TK_Greater, ''>'', 0) # after)"
      using ahead as l by simp
    ultimately show ?thesis using check_ahead by metis
  qed
  moreover have "lexemes_ahead (adv (length ?ls) (adv 1 (inside s))) = (TK_Greater, ''>'', 0) # after" by (rule lexemes_past [OF ahead])
  note expect_ahead [OF this]
  ultimately show ?thesis using us expect_ahead [OF less] check_ahead [OF less, of TK_Less] False
    by (intro reads_type_begins [OF assms(1)])
      (auto simp: type_starters_def type_after_kinds identifier_type_def parse_type_arguments_def px_defs parsers_at_type same_constructors)
qed

lemma function_parameters_read:
  assumes "\<forall>t\<in>set as. type_reader (parse_type_at m) t" "length as \<le> m" "ps_active_type_parameters s = []"
    "lexemes_ahead s = map snd (list_lexemes (map type_lexemes as)) @ (TK_RParen, '')'', 0) # after"
    "\<forall>t\<in>set as. ps_recursion_depth s + type_depth t \<le> kMaxRecursionDepth"
  obtains us where "unless_kind TK_RParen (comma_list m (one (parse_type_at m))) s = Some (us, adv (length (list_lexemes (map type_lexemes as))) s)"
    "same_types us (map type_of_source as)"
proof (cases "as = []")
  case True
  with assms(4) check_ahead [of s] that show thesis by (simp add: unless_kind_def px_defs)
next
  case False
  from types_parsed [of as "parsers_at m", unfolded parsers_at_type, OF assms(1) assms(4) False _ _ _ assms(3) assms(5) assms(2)] obtain us where us:
    "comma_list m (one (parse_type_at m)) s = Some (us, adv (length (list_lexemes (map type_lexemes as))) s)" "same_types us (map type_of_source as)"
    by auto
  obtain t ts where as: "as = t # ts" using False by (cases as) auto
  obtain l ls where l: "type_lexemes t = ([], l) # ls" using type_lexemes_start by blast
  have "fst l \<noteq> TK_RParen" using l by (cases t) auto
  moreover have "lexemes_ahead s = (fst l, fst (snd l), snd (snd l)) # tl (map snd (list_lexemes (map type_lexemes as)) @ (TK_RParen, '')'', 0) # after)"
    using assms(4) as l by simp
  ultimately have "\<not> check_kind TK_RParen s" using check_ahead by metis
  with us that show thesis by (simp add: unless_kind_def px_defs)
qed

lemma function_type_read:
  assumes "at_type (S_Fn as r) s after" "\<forall>t\<in>set as. type_reader (parse_type_at m) t" "type_reader (parse_type_at m) r" "length as \<le> m"
  shows "reads_type (parse_type_at (Suc m)) (S_Fn as r) s"
proof -
  let ?ls = "list_lexemes (map type_lexemes as)" let ?s1 = "adv 1 (inside s)" let ?s2 = "adv (length ?ls) ?s1" let ?s3 = "adv 2 ?s2"
  note s = at_type_inside [OF assms(1)]
  have paren: "lexemes_ahead (inside s) = (TK_LParen, ''('', 0) # map snd ?ls @ (TK_RParen, '')'', 0) # (TK_Arrow, ''->'', 0) # map snd (type_lexemes r) @ after"
    using s by simp
  have ahead: "lexemes_ahead ?s1 = map snd ?ls @ (TK_RParen, '')'', 0) # (TK_Arrow, ''->'', 0) # map snd (type_lexemes r) @ after" using paren by simp
  have "\<forall>t\<in>set as. ps_recursion_depth ?s1 + type_depth t \<le> kMaxRecursionDepth"
  proof
    fix t assume "t \<in> set as"
    from depths_bound(2) [OF this, of "type_depth r"] s(3) show "ps_recursion_depth ?s1 + type_depth t \<le> kMaxRecursionDepth" by simp
  qed
  from function_parameters_read [OF assms(2,4) _ ahead this] s obtain us where
    us: "unless_kind TK_RParen (comma_list m (one (parse_type_at m))) ?s1 = Some (us, ?s2)" "same_types us (map type_of_source as)" by auto
  have closing: "lexemes_ahead ?s2 = (TK_RParen, '')'', 0) # (TK_Arrow, ''->'', 0) # map snd (type_lexemes r) @ after"
    by (rule lexemes_past [OF ahead])
  then have arrow: "lexemes_ahead (adv 1 ?s2) = (TK_Arrow, ''->'', 0) # map snd (type_lexemes r) @ after"
    by (subst adv_simps(3)) (simp del: adv_simps)
  then have "lexemes_ahead ?s3 = map snd (type_lexemes r) @ after"
    by (metis adv_simps(2,3) drop_Suc_Cons drop0 one_add_one One_nat_def)
  moreover have "type_depth r \<le> type_depth (S_Fn as r) - 1" using depths_bound(1) by simp
  ultimately have "at_type r ?s3 after" using assms(1) s by (simp add: at_type_def)
  with assms(3) obtain r' where "parse_type_at m ?s3 = Some (r', adv (length (type_lexemes r)) ?s3)" "same_type r' (type_of_source r)"
    by (rule type_readerE)
  with us expect_ahead [OF paren] expect_ahead [OF closing] expect_ahead [OF arrow] show ?thesis
    by (intro reads_type_begins [OF assms(1)])
      (auto simp: type_starters_def type_after_def Let_def function_type_tail_def px_defs parsers_at_type same_constructors add.commute)
qed

lemma leaf_types_read:
  assumes "Suc 0 \<le> n"
  shows "type_reader (parse_type_at n) S_I64" "type_reader (parse_type_at n) S_Bool" "type_reader (parse_type_at n) S_Str"
    "type_reader (parse_type_at n) S_Builder" "type_reader (parse_type_at n) S_Pair"
proof -
  obtain m where "n = Suc m" using assms by (cases n) auto
  then show "type_reader (parse_type_at n) S_I64" "type_reader (parse_type_at n) S_Bool" "type_reader (parse_type_at n) S_Str"
    "type_reader (parse_type_at n) S_Builder" "type_reader (parse_type_at n) S_Pair"
    by (simp_all add: type_readerI plain_types_read plain_pair_read)
qed

lemma parse_type_reads: "length (type_lexemes t) \<le> n \<Longrightarrow> type_reader (parse_type_at n) t"
proof (induction t arbitrary: n)
  case (S_Fn as r)
  then obtain m where m: "n = Suc m" by (cases n) auto
  have "length (type_lexemes t) \<le> length (list_lexemes (map type_lexemes as))" if "t \<in> set as" for t
    using that length_member_lexemes by blast
  then have "\<forall>t\<in>set as. type_reader (parse_type_at m) t" "type_reader (parse_type_at m) r" "length as \<le> m"
    using S_Fn m length_list_lexemes [of as] by (fastforce intro!: S_Fn.IH)+
  with m show ?case by (simp add: type_readerI function_type_read)
next
  case (S_Named x as)
  then obtain m where m: "n = Suc m" by (cases n) auto
  have "length (type_lexemes t) \<le> length (list_lexemes (map type_lexemes as))" if "t \<in> set as" for t
    using that length_member_lexemes by blast
  then have "\<forall>t\<in>set as. type_reader (parse_type_at m) t" "length as \<le> m"
    using S_Named m length_list_lexemes [of as] by (fastforce intro!: S_Named.IH split: if_splits)+
  with m show ?case by (simp add: type_readerI generic_type_read)
next
  case (S_PairOf a b)
  then obtain m where "n = Suc m" "length (type_lexemes a) \<le> m" "length (type_lexemes b) \<le> m" by (cases n) auto
  with S_PairOf.IH show ?case by (simp add: type_readerI angle_types_read(3))
next
  case (S_Map a b)
  then obtain m where "n = Suc m" "length (type_lexemes a) \<le> m" "length (type_lexemes b) \<le> m" by (cases n) auto
  with S_Map.IH show ?case by (simp add: type_readerI angle_types_read(1))
next
  case (S_Ephemeron a b)
  then obtain m where "n = Suc m" "length (type_lexemes a) \<le> m" "length (type_lexemes b) \<le> m" by (cases n) auto
  with S_Ephemeron.IH show ?case by (simp add: type_readerI angle_types_read(2))
next
  case (S_Array a)
  then obtain m where "n = Suc m" "length (type_lexemes a) \<le> m" by (cases n) auto
  with S_Array.IH show ?case by (simp add: type_readerI array_type_read)
next
  case (S_Weak a)
  then obtain m where "n = Suc m" "length (type_lexemes a) \<le> m" by (cases n) auto
  with S_Weak.IH show ?case by (simp add: type_readerI weak_type_read)
qed (simp_all add: leaf_types_read)

lemma scan_generic_names_keeps [simp]:
  "ps_tokens (scan_generic_names d ts s) = ps_tokens s" "ps_current (scan_generic_names d ts s) = ps_current s"
  "ps_recursion_depth (scan_generic_names d ts s) = ps_recursion_depth s"
  "ps_active_type_parameters (scan_generic_names d ts s) = ps_active_type_parameters s"
  "ps_diagnostics (scan_generic_names d ts s) = ps_diagnostics s"
proof (induction ts arbitrary: d s)
  case (Cons a ts)
  case 1 then show ?case using Cons.IH(1) by (cases ts; cases "tl ts") (simp_all add: Let_def)
  case 2 then show ?case using Cons.IH(2) by (cases ts; cases "tl ts") (simp_all add: Let_def)
  case 3 then show ?case using Cons.IH(3) by (cases ts; cases "tl ts") (simp_all add: Let_def)
  case 4 then show ?case using Cons.IH(4) by (cases ts; cases "tl ts") (simp_all add: Let_def)
  case 5 then show ?case using Cons.IH(5) by (cases ts; cases "tl ts") (simp_all add: Let_def)
qed simp_all

lemma parser_of_fields [simp]:
  "lexemes_ahead (parser_of ts) = map lexeme_of ts" "ps_recursion_depth (parser_of ts) = 0"
  "ps_active_type_parameters (parser_of ts) = []" "ps_diagnostics (parser_of ts) = []"
  by (simp_all add: parser_of_def lexemes_ahead_def)

text \<open>
  C40.  A printed type is read back: for every type of the language whose names are identifiers and whose nesting
  stays within the recursion limit of the parser, what \<open>type_name\<close> prints for it is lexed without a diagnostic and
  \<open>parse_type\<close> reads from these tokens, up to their end and without a diagnostic, a type that \<open>operator==\<close> takes for the
  same.
\<close>

theorem printed_types_are_read_back:
  assumes "proper_names t" "type_depth t \<le> kMaxRecursionDepth"
    and "length (lr_tokens (lex_source (type_name (type_of_source t)))) \<le> n"
  shows "lr_diagnostics (lex_source (type_name (type_of_source t))) = [] \<and>
    (\<exists>t' s'. parse_type_at n (parser_of (lr_tokens (lex_source (type_name (type_of_source t))))) = Some (t', s') \<and>
      same_type t' (type_of_source t) \<and> at_end s' \<and> ps_diagnostics s' = [])"
proof -
  let ?r = "lex_source (type_name (type_of_source t))" let ?s = "parser_of (lr_tokens ?r)"
  have "written_apart (type_lexemes t) []"
    using type_written_apart [of t "[]" "[]"] assms(1) by simp
  from lex_source_written [OF this] have lexed: "map lexeme_of (lr_tokens ?r) = map snd (type_lexemes t) @ [(TK_End, [], 0)]"
    "lr_diagnostics ?r = []" by (simp_all add: write_type)
  have "length (type_lexemes t) \<le> n" using arg_cong [OF lexed(1), of length] assms(3) by simp
  moreover have "at_type t ?s [(TK_End, [], 0)]" using lexed assms(2) by (simp add: at_type_def)
  ultimately obtain t' where t': "parse_type_at n ?s = Some (t', adv (length (type_lexemes t)) ?s)" "same_type t' (type_of_source t)"
    using parse_type_reads by (meson type_readerE)
  have "lexemes_ahead (adv (length (type_lexemes t)) ?s) = [(TK_End, [], 0)]" using lexed by simp
  from check_ahead [OF this, of TK_End] have "at_end (adv (length (type_lexemes t)) ?s)" by (simp add: at_end_def)
  moreover have "ps_diagnostics (adv (length (type_lexemes t)) ?s) = []" by simp
  ultimately show ?thesis using lexed(2) t' by blast
qed

definition nested_example :: source_type where
  "nested_example = S_Map S_Str (S_Fn [S_Array S_I64, S_Weak (S_Named ''node'' [S_Bool])] (S_PairOf S_I64 S_Pair))"

lemma printed_types_are_read_back_witness:
  "\<exists>t' s'. parse_type_at 40 (parser_of (lr_tokens (lex_source
       ''map<str, fn([i64], weak<node<bool>>) -> pair<i64, pair>>''))) = Some (t', s') \<and>
     same_type t' (type_of_source nested_example) \<and> at_end s' \<and> ps_diagnostics s' = []"
proof -
  have printed: "type_name (type_of_source nested_example) = ''map<str, fn([i64], weak<node<bool>>) -> pair<i64, pair>>''" by code_simp
  have "proper_names nested_example" "type_depth nested_example \<le> kMaxRecursionDepth"
    "length (lr_tokens (lex_source ''map<str, fn([i64], weak<node<bool>>) -> pair<i64, pair>>'')) \<le> 40" by code_simp+
  with printed_types_are_read_back [of nested_example 40, unfolded printed] show ?thesis by simp
qed

end
