(* ===== verification/Spec2Isabelle.thy ===== *)
theory Spec2Isabelle
  imports GC_MapGrowth BC_Sound FE_Progress FE_Types_Read
begin

text \<open>
  Verification library of the garbage-collected language runtime.

  The run-time system is a slot heap (\<open>src/gc/heap.cpp\<close>, \<open>include/lang/gc/heap.hpp\<close>)
  with tagged values (\<open>include/lang/value.hpp\<close>), an atomic generational mark-compact collector,
  incremental marking and incremental compaction, and a stack machine (\<open>src/vm.cpp\<close>) that runs bytecode
  on it and is its root provider.  The front end (\<open>src/frontend/\<close>) translates source text to bytecode; its lexer
  and parser are modelled, and the bytecode verifier (\<open>src/bytecode.cpp\<close>) stands between it and the machine.

  Theories and the code they model:

  \<^item> \<open>GC_Prelude\<close>: C++ exceptions as values (\<open>exn\<close>), the error and state combinators
    (\<open>ebind\<close>, \<open>efold\<close>, \<open>sx_bind\<close>, ...) with their rules.  An \<open>assert\<close> that fails is the
    exception \<open>Abort\<close>.
  \<^item> \<open>GC_Value\<close>: \<open>Value\<close>, \<open>ObjectId\<close> and generations; ids at their width of 64 bits.
  \<^item> \<open>GC_Object\<close>: \<open>struct Object\<close>, its constructors, shape check, storage width, the reference
    visitor and the builder ladder.
  \<^item> \<open>GC_MapIndex\<close>: the hash index of map objects.
  \<^item> \<open>GC_Heap\<close>: the state of \<open>class Heap\<close> and its \<open>const\<close> accessors.
  \<^item> \<open>GC_Validate\<close>: the validators, and the invariant \<open>heap_wf\<close> that is their conjunction.
  \<^item> \<open>GC_Mark\<close>: marking; \<open>GC_Move\<close>: compaction and the rewriting of references and registries;
    \<open>GC_Incremental\<close> and \<open>GC_Compaction\<close>: the incremental cycles; \<open>GC_Collect\<close>: whole
    collections; \<open>GC_Tricolour\<close>: the invariant of incremental marking and its end.
  \<^item> \<open>GC_Store\<close>: what a write of one object and the growth of the slot vector do to the invariant;
    \<open>GC_Alloc\<close>: first-fit allocation, the allocation operations, interning, handles;
    \<open>GC_Mutate\<close>: the stores with their barriers, map insertion, growth in place and by relocation,
    builders; \<open>GC_Maps\<close>: map objects as finite functions; \<open>GC_Relocate\<close> and \<open>GC_MapGrowth\<close>: the growth that
    moves an object and renames every reference to it.
  \<^item> \<open>VM_Text\<close>: the text of integers; \<open>VM_Bytecode\<close>: instructions, types, layouts, modules
    (\<open>include/lang/bytecode.hpp\<close>); \<open>VM_State\<close>: the state of \<open>class VM\<close>, its roots, frames, traces and
    the collections between instructions; \<open>VM_Exec\<close>: the instructions of \<open>execute_verified\<close> and the
    unwinding of exceptions; \<open>VM_Run\<close>: dispatch, step, loop and \<open>execute\<close> (\<open>src/vm.cpp\<close>).
  \<^item> \<open>VM_Control\<close>: the locale \<open>control_invariant\<close> of what depends on the control state only, and its
    interpretations for the limits of the machine; \<open>VM_Outcomes\<close>: what a run starts from, exceptions and
    failures; \<open>VM_Termination\<close>: programs that go forward end.
  \<^item> \<open>BC_Signature\<close>: the checks of a module's types and layouts; \<open>BC_Domain\<close>: the abstract values and states of
    the verifier, their joins and their conformance to a type; \<open>BC_Transfer\<close>: the abstract effect of each
    instruction; \<open>BC_Verify\<close>: the fixpoint over a worklist, the generated stack maps, and the entry points of the
    machine that verify first (\<open>src/bytecode.cpp\<close>, \<open>src/vm.cpp\<close>).
  \<^item> \<open>BC_Shape\<close>: stack heights in the verifier; \<open>VM_Shape\<close>: stack heights in the machine; \<open>BC_Sound\<close>: a verified
    program keeps the shape of its operand stacks, and a program with confused named types is accepted.
  \<^item> \<open>FE_Lexer\<close>: source positions, diagnostics, tokens and the lexer (\<open>src/frontend/lexer.cpp\<close>); \<open>FE_Syntax\<close>: the syntax
    trees and the functions on types (\<open>src/frontend/parser.hpp\<close>, the head of \<open>src/frontend/parser.cpp\<close>); \<open>FE_Parser\<close> and
    \<open>FE_Program\<close>: the parser, its state, types and statements in the first, expressions, declarations and programs in
    the second (\<open>class Parser\<close> of \<open>src/frontend/parser.cpp\<close>).
  \<^item> \<open>FE_Tokens\<close>: the lexer reads back what was written; \<open>FE_Types\<close> and \<open>FE_Types_Read\<close>: the printed name of a type is
    lexed and parsed to the same type; \<open>FE_Progress\<close>: the bound of the parser, and a program on which it does not
    return.

  The heap is one record passed through every operation.  The registered root provider is the
  list of root slots \<open>h_roots\<close>, which the collector reads and rewrites; roots passed by the
  caller are an argument, and their rewritten values a result.

  What the lemmas show: \<open>validate_*_iff\<close> say what each validator accepts;
  \<open>mark_live_objects_correct\<close> that marking never throws on a well-formed heap and marks
  exactly the traced objects; \<open>move_live_objects_ok\<close> that the move succeeds and keeps the
  invariant; \<open>collect_impl_ok\<close> puts them together.  What a rewriting of the references of an object may change
  is stated field by field once (\<open>same_descriptor\<close> and \<open>references_rewritten\<close> of \<open>GC_Object\<close>), and the
  visitor, the collector and the relocation of a growing map are proved against it; \<open>relocate_for_growth_ok\<close>
  covers builders too.  The worklist search is proved once in the
  locale \<open>graph_search\<close>, the walk over a slot-ordered registry once in \<open>slot_registry\<close>.

  Termination: marking and the ephemeron fixpoint decrease the number of unmarked objects.  The
  unwinding of an exception recurses on the number of frames.  The interpreter loop need not end:
  \<open>run_loop\<close> is a partial function, and \<open>vm_reaches\<close> the step relation for what holds of runs that
  do not end.  The fixpoint of the verifier (\<open>analyse\<close>) and its conformance check (\<open>value_conforms\<close>) are
  partial functions too: \<open>None\<close> is a verification that does not return, and every theorem about a verified
  module assumes that it returned with acceptance.  The parser carries a bound on the depth of its calls and the
  turns of each loop; \<open>None\<close> is a bound that was reached.  A larger bound changes no result
  (\<open>larger_parse_bound\<close>), and the bound of the
  theorem on types, the number of tokens, is enough for them.  No bound is enough for some programs, because a loop
  of the parser then reads no token.

  Not modelled: metric counters and the trace sink, which only observe; \<open>collect\<close> with a root
  provider other than the registered one; allocation failure of the C++ library; the lifetime of the
  \<open>Handle\<close> class, whose calls on the heap are modelled; the text of the verifier's diagnostics, whose
  function, counter and reason are kept; the identity of the shared pointers in an abstract value, for which
  what they point to stands.  The soundness theorem covers modules without closure calls, whose number of
  operands depends on the types of values.
  Of the front end the type checker, the generics and the code generator (\<open>type_checker_internal.cpp\<close>,
  \<open>generics.cpp\<close>, \<open>compiler.cpp\<close>) are not modelled, nor the members of the syntax trees that only they fill in; what
  they emit is checked by the verifier, which is modelled, before it runs.  The character classes are those of the C locale.
\<close>

end
